(* ===== verification/Refinement.thy ===== *)
theory Refinement
  imports Main
begin

text \<open>
  The contract of a data structure that implements an abstract one, operation by operation: on a
  well-formed state, and for a command the abstract state allows, the concrete step gives the
  abstract answer, and its next state is well-formed and stands for the abstract next state. In the
  locale the statement about sequences of commands is proved once; \<open>functional_refinement\<close> is the
  case where every command is allowed at any time.
\<close>

fun run_ops :: "('op \<Rightarrow> 's \<Rightarrow> 'r \<times> 's) \<Rightarrow> 'op list \<Rightarrow> 's \<Rightarrow> 'r list \<times> 's" where
  "run_ops step [] s = ([], s)"
| "run_ops step (p # ps) s = (case step p s of (r, s) \<Rightarrow> case run_ops step ps s of (rs, s) \<Rightarrow> (r # rs, s))"

fun run_allowed :: "('op \<Rightarrow> 's \<Rightarrow> bool) \<Rightarrow> ('op \<Rightarrow> 's \<Rightarrow> 'r \<times> 's) \<Rightarrow> 'op list \<Rightarrow> 's \<Rightarrow> bool" where
  "run_allowed allowed step [] s = True"
| "run_allowed allowed step (p # ps) s = (allowed p s \<and> run_allowed allowed step ps (snd (step p s)))"

locale guarded_refinement =
  fixes wf :: "'c \<Rightarrow> bool" and abs :: "'c \<Rightarrow> 'a"
    and cstep :: "'op \<Rightarrow> 'c \<Rightarrow> 'r \<times> 'c" and astep :: "'op \<Rightarrow> 'a \<Rightarrow> 'r \<times> 'a"
    and allowed :: "'op \<Rightarrow> 'a \<Rightarrow> bool"
  assumes step_wf: "wf c \<Longrightarrow> allowed p (abs c) \<Longrightarrow> wf (snd (cstep p c))"
    and step_refines: "wf c \<Longrightarrow> allowed p (abs c) \<Longrightarrow>
      astep p (abs c) = (fst (cstep p c), abs (snd (cstep p c)))"
begin

lemma run_refines:
  "wf c \<Longrightarrow> run_allowed allowed astep ps (abs c) \<Longrightarrow> wf (snd (run_ops cstep ps c))
    \<and> run_ops astep ps (abs c) = (fst (run_ops cstep ps c), abs (snd (run_ops cstep ps c)))"
proof (induction ps arbitrary: c)
  case (Cons p ps)
  have ok: "allowed p (abs c)" using Cons.prems(2) by simp
  note step = step_wf [OF Cons.prems(1) ok] step_refines [OF Cons.prems(1) ok]
  have rest: "run_allowed allowed astep ps (abs (snd (cstep p c)))"
    using Cons.prems(2) step(2) by simp
  from Cons.IH [OF step(1) rest] step show ?case
    by (cases "cstep p c"; cases "run_ops cstep ps (snd (cstep p c))") (force split: prod.splits)
qed simp

end

locale functional_refinement = guarded_refinement wf abs cstep astep "\<lambda>p a. True"
  for wf :: "'c \<Rightarrow> bool" and abs :: "'c \<Rightarrow> 'a"
    and cstep :: "'op \<Rightarrow> 'c \<Rightarrow> 'r \<times> 'c" and astep :: "'op \<Rightarrow> 'a \<Rightarrow> 'r \<times> 'a"
begin

lemma always_allowed: "run_allowed (\<lambda>p a. True) astep ps a"
  by (induction ps arbitrary: a) simp_all

lemmas run_refines_any = run_refines [OF _ always_allowed]

end

end
