(* ===== verification/Sbi_Prelude.thy ===== *)
theory Sbi_Prelude
  imports Main "HOL-Library.Word"
begin

text \<open>
  The vocabulary every component shares: the machine integer types of the RV64 build, the SBI
  error codes of \<^verbatim>\<open>include/sbi/sbi_error.h\<close>, the outcome type of code that may not return to
  its caller, and the generic lemmas on lists and words the component proofs use.
\<close>

unbundle bit_operations_syntax

section \<open>Machine integers\<close>

type_synonym u8 = "8 word"
type_synonym u16 = "16 word"
type_synonym u32 = "32 word"
type_synonym u64 = "64 word"
type_synonym ulong = "64 word"

text \<open>
  The RV64 shift instructions use the low six bits of the shift amount. C leaves a shift of a
  64 bit value by 64 or more undefined; wherever the code can shift that far the model uses the
  instruction the compiler emits for it.
\<close>

definition sll :: "ulong \<Rightarrow> nat \<Rightarrow> ulong" where
  "sll x n = push_bit (n mod 64) x"

definition srl :: "ulong \<Rightarrow> nat \<Rightarrow> ulong" where
  "srl x n = drop_bit (n mod 64) x"

lemma sll_small [simp]: "n < 64 \<Longrightarrow> sll x n = push_bit n x"
  by (simp add: sll_def)

lemma srl_small [simp]: "n < 64 \<Longrightarrow> srl x n = drop_bit n x"
  by (simp add: srl_def)

section \<open>Error codes\<close>

abbreviation (input) SBI_OK :: int where "SBI_OK \<equiv> 0"
abbreviation (input) SBI_EFAIL :: int where "SBI_EFAIL \<equiv> - 1"
abbreviation (input) SBI_ENOTSUPP :: int where "SBI_ENOTSUPP \<equiv> - 2"
abbreviation (input) SBI_EINVAL :: int where "SBI_EINVAL \<equiv> - 3"
abbreviation (input) SBI_EDENIED :: int where "SBI_EDENIED \<equiv> - 4"
abbreviation (input) SBI_EINVALID_ADDR :: int where "SBI_EINVALID_ADDR \<equiv> - 5"
abbreviation (input) SBI_EALREADY :: int where "SBI_EALREADY \<equiv> - 6"
abbreviation (input) SBI_EALREADY_STARTED :: int where "SBI_EALREADY_STARTED \<equiv> - 7"
abbreviation (input) SBI_EALREADY_STOPPED :: int where "SBI_EALREADY_STOPPED \<equiv> - 8"
abbreviation (input) SBI_LAST_ERR :: int where "SBI_LAST_ERR \<equiv> - 8"
abbreviation (input) SBI_ENODEV :: int where "SBI_ENODEV \<equiv> - 1000"
abbreviation (input) SBI_ENOSYS :: int where "SBI_ENOSYS \<equiv> - 1001"
abbreviation (input) SBI_ETIMEDOUT :: int where "SBI_ETIMEDOUT \<equiv> - 1002"
abbreviation (input) SBI_EIO :: int where "SBI_EIO \<equiv> - 1003"
abbreviation (input) SBI_ENOSPC :: int where "SBI_ENOSPC \<equiv> - 1005"
abbreviation (input) SBI_ENOMEM :: int where "SBI_ENOMEM \<equiv> - 1006"
abbreviation (input) SBI_ETRAP :: int where "SBI_ETRAP \<equiv> - 1007"
abbreviation (input) SBI_ENOENT :: int where "SBI_ENOENT \<equiv> - 1009"

section \<open>Code that may not return\<close>

text \<open>
  Several operations end in a call that never comes back: \<^verbatim>\<open>sbi_hart_hang()\<close>, the jump to the
  warm boot entry, or a platform call that powers the hart or the system down. A \<open>flow\<close> says
  how control left the operation and carries the state at that point. \<open>Undef\<close> is an access
  outside an array (or through a NULL pointer): C gives it no meaning, and the model makes no
  claim about what comes after it.
\<close>

datatype ('a, 's) flow =
    Ret 'a 's
  | Hang 's
  | Warmboot 's
  | Gone 's
  | Undef 's

fun flow_bind :: "('a, 's) flow \<Rightarrow> ('a \<Rightarrow> 's \<Rightarrow> ('b, 's) flow) \<Rightarrow> ('b, 's) flow" where
  "flow_bind (Ret a s) f = f a s"
| "flow_bind (Hang s) f = Hang s"
| "flow_bind (Warmboot s) f = Warmboot s"
| "flow_bind (Gone s) f = Gone s"
| "flow_bind (Undef s) f = Undef s"

fun flow_state :: "('a, 's) flow \<Rightarrow> 's" where
  "flow_state (Ret a s) = s"
| "flow_state (Hang s) = s"
| "flow_state (Warmboot s) = s"
| "flow_state (Gone s) = s"
| "flow_state (Undef s) = s"

fun returns :: "('a, 's) flow \<Rightarrow> bool" where
  "returns (Ret a s) = True"
| "returns _ = False"

text \<open>A loop over a list whose body may not return.\<close>

fun flow_fold :: "('x \<Rightarrow> 'a \<Rightarrow> 's \<Rightarrow> ('a, 's) flow) \<Rightarrow> 'x list \<Rightarrow> 'a \<Rightarrow> 's \<Rightarrow> ('a, 's) flow" where
  "flow_fold f [] a s = Ret a s"
| "flow_fold f (x # xs) a s = flow_bind (f x a s) (\<lambda>a s. flow_fold f xs a s)"

lemma flow_bind_state:
  assumes "I (flow_state m)" and "\<And>a s. m = Ret a s \<Longrightarrow> I s \<Longrightarrow> I (flow_state (f a s))"
  shows "I (flow_state (flow_bind m f))"
proof (cases m)
  case (Ret a s)
  then have "I s" using assms(1) by simp
  then show ?thesis using assms(2) [OF Ret] Ret by simp
qed (use assms(1) in simp_all)

lemma flow_fold_state:
  assumes "I s" and "\<And>x a s. x \<in> set xs \<Longrightarrow> I s \<Longrightarrow> I (flow_state (f x a s))"
  shows "I (flow_state (flow_fold f xs a s))"
  using assms
proof (induction xs arbitrary: a s)
  case (Cons x xs)
  have "I (flow_state (f x a s))" using Cons.prems by simp
  then show ?case
    unfolding flow_fold.simps by (rule flow_bind_state) (use Cons in simp)
qed simp

lemma flow_bind_Ret_iff:
  "flow_bind m f = Ret b t \<longleftrightarrow> (\<exists>a s. m = Ret a s \<and> f a s = Ret b t)"
  by (cases m) simp_all

section \<open>Generic lemmas\<close>

named_theorems sbi_defs \<open>unfolding rules of small operations\<close>

lemma foldl_invariant:
  assumes "I s0" and "\<And>s x. I s \<Longrightarrow> x \<in> set xs \<Longrightarrow> I (f s x)"
  shows "I (foldl f s0 xs)"
  using assms by (induction xs arbitrary: s0) auto

lemma foldl_length:
  "(\<And>d k. length (f d k) = length d) \<Longrightarrow> length (foldl f ds ks) = length ds"
  by (induction ks arbitrary: ds) auto

lemma foldl_update_nth:
  assumes "distinct ks" and "i < length ds"
  shows "foldl (\<lambda>d k. d[k := g k]) ds ks ! i = (if i \<in> set ks then g i else ds ! i)"
  using assms
proof (induction ks arbitrary: ds)
  case Nil
  then show ?case by simp
next
  case (Cons k ks)
  then show ?case by (cases "i = k") auto
qed

lemma upt_filter_least:
  assumes "a \<le> m" "m < n" "P m" "\<And>i. a \<le> i \<Longrightarrow> i < m \<Longrightarrow> \<not> P i"
  shows "filter P [a..<n] = m # filter P [Suc m..<n]"
proof -
  have "[a..<n] = [a..<m] @ [m..<n]"
    using assms(1,2) by (metis le_add_diff_inverse less_or_eq_imp_le upt_add_eq_append)
  moreover have "[m..<n] = m # [Suc m..<n]"
    using assms(2) by (rule upt_conv_Cons)
  moreover have "filter P [a..<m] = []"
    using assms(4) by (auto simp: filter_empty_conv)
  ultimately show ?thesis using assms(3) by simp
qed

lemma upt_filter_none:
  "(\<And>i. a \<le> i \<Longrightarrow> i < n \<Longrightarrow> \<not> P i) \<Longrightarrow> filter P [a..<n] = []"
  by (auto simp: filter_empty_conv)

lemma word_zero_iff_bits: "(w :: 'a :: len word) = 0 \<longleftrightarrow> (\<forall>i. \<not> bit w i)"
  by (auto simp: bit_eq_iff dest: bit_imp_le_length)

lemma take_bit_zero_iff_bits:
  "take_bit k (w :: 'a :: len word) = 0 \<longleftrightarrow> (\<forall>i<k. \<not> bit w i)"
  by (simp only: word_zero_iff_bits bit_take_bit_iff) blast

lemma drop_bit_zero_iff_bits:
  "drop_bit k (w :: 'a :: len word) = 0 \<longleftrightarrow> (\<forall>i\<ge>k. \<not> bit w i)"
proof -
  have "drop_bit k w = 0 \<longleftrightarrow> (\<forall>i. \<not> bit w (k + i))"
    by (simp only: word_zero_iff_bits bit_drop_bit_eq comp_def)
  also have "\<dots> \<longleftrightarrow> (\<forall>i\<ge>k. \<not> bit w i)"
    by (metis le_Suc_ex le_add1)
  finally show ?thesis .
qed

lemma word64_bit_less: "bit (w :: ulong) i \<Longrightarrow> i < 64"
  using bit_imp_le_length by fastforce

lemma bit_mask_ulong: "bit (mask s :: ulong) i \<longleftrightarrow> i < s \<and> i < 64"
  by (auto simp: bit_mask_iff possible_bit_word)

lemma bit_not_ulong: "bit (NOT w :: ulong) i \<longleftrightarrow> i < 64 \<and> \<not> bit w i"
  by (auto simp: bit_not_iff possible_bit_word)

lemma bit_low_mask:
  "s < 64 \<Longrightarrow> 0 < s \<Longrightarrow> bit (drop_bit (64 - s) (NOT 0) :: ulong) i \<longleftrightarrow> i < s"
  by (auto simp: bit_drop_bit_eq bit_not_ulong simp del: bit.compl_zero)

lemma bit_high_mask: "bit (push_bit s (NOT 0) :: ulong) i \<longleftrightarrow> s \<le> i \<and> i < 64"
  by (auto simp: bit_push_bit_iff bit_not_ulong possible_bit_word simp del: bit.compl_zero push_bit_minus_one_eq_not_mask)

lemma unat_ucast_16_32 [simp]: "unat (ucast (w :: u16) :: u32) = unat w"
proof -
  have "unat w < 2 ^ 32" using unsigned_less [of w, where ?'a = nat] by simp
  then show ?thesis by (simp add: unsigned_ucast_eq take_bit_nat_eq_self)
qed

lemma unat_ucast_32_64 [simp]: "unat (ucast (w :: u32) :: u64) = unat w"
proof -
  have "unat w < 2 ^ 64" using unsigned_less [of w, where ?'a = nat] by simp
  then show ?thesis by (simp add: unsigned_ucast_eq take_bit_nat_eq_self)
qed

lemma unat_u16_less: "unat (w :: u16) < 65536"
  using unsigned_less [of w, where ?'a = nat] by simp

lemma unat_u32_less: "unat (w :: u32) < 4294967296"
  using unsigned_less [of w, where ?'a = nat] by simp

lemma unat_u64_less: "unat (w :: u64) < 18446744073709551616"
  using unsigned_less [of w, where ?'a = nat] by simp

lemma unat_drop_bit_1_less:
  assumes "(m :: ulong) \<noteq> 0"
  shows "unat (drop_bit 1 m) < unat m"
proof -
  have "0 < unat m" using assms by (simp add: unat_gt_0)
  then have "unat m div 2 < unat m" by simp
  then show ?thesis by (simp add: unat_div drop_bit_Suc)
qed

end
