(* ===== verification/Sbi_Fifo.thy ===== *)
theory Sbi_Fifo
  imports Sbi_Prelude
begin

text \<open>
  \<^verbatim>\<open>lib/sbi/sbi_fifo.c\<close>: the bounded ring buffer behind the remote TLB requests. The queue
  memory is the list of its entries (every access of the code is at a multiple of
  \<^verbatim>\<open>entry_size\<close> and \<^verbatim>\<open>entry_size\<close> bytes long), indices and counts are 16 bit words as in the
  code. Pointers that may be NULL are options. The spin lock is taken and released inside each
  operation, so an operation is one atomic step here; the lock itself is in \<open>Riscv_Locks\<close>.
  The contract is the locale \<open>bounded_queue\<close>: the buffer implements a list of at most
  \<^verbatim>\<open>num_entries\<close> entries.
\<close>

section \<open>The ring buffer\<close>

record 'a sbi_fifo =
  queue :: "'a list"
  entry_size :: u16
  num_entries :: u16
  avail :: u16
  tail :: u16

datatype sbi_fifo_inplace_update_types =
    SBI_FIFO_SKIP
  | SBI_FIFO_UPDATED
  | SBI_FIFO_UNCHANGED

definition sbi_fifo_init :: "'a \<Rightarrow> u16 \<Rightarrow> u16 \<Rightarrow> 'a sbi_fifo" where
  "sbi_fifo_init zero entries sz =
     \<lparr>queue = replicate (unat entries) zero, entry_size = sz, num_entries = entries,
      avail = 0, tail = 0\<rparr>"

definition fifo_is_full :: "'a sbi_fifo \<Rightarrow> bool" where
  "fifo_is_full f \<longleftrightarrow> avail f = num_entries f"

definition fifo_is_empty :: "'a sbi_fifo \<Rightarrow> bool" where
  "fifo_is_empty f \<longleftrightarrow> avail f = 0"

fun sbi_fifo_avail :: "'a sbi_fifo option \<Rightarrow> u16" where
  "sbi_fifo_avail None = 0"
| "sbi_fifo_avail (Some f) = avail f"

fun sbi_fifo_is_full :: "'a sbi_fifo option \<Rightarrow> int" where
  "sbi_fifo_is_full None = SBI_EINVAL"
| "sbi_fifo_is_full (Some f) = of_bool (fifo_is_full f)"

fun sbi_fifo_is_empty :: "'a sbi_fifo option \<Rightarrow> int" where
  "sbi_fifo_is_empty None = SBI_EINVAL"
| "sbi_fifo_is_empty (Some f) = of_bool (fifo_is_empty f)"

definition fifo_enqueue :: "'a sbi_fifo \<Rightarrow> 'a \<Rightarrow> 'a sbi_fifo" where
  "fifo_enqueue f data =
     (let head = (ucast (tail f) :: u32) + ucast (avail f);
          head = (if ucast (num_entries f) \<le> head then head - ucast (num_entries f) else head)
      in f\<lparr>queue := (queue f)[unat head := data], avail := avail f + 1\<rparr>)"

definition fifo_reset :: "'a \<Rightarrow> 'a sbi_fifo \<Rightarrow> 'a sbi_fifo" where
  "fifo_reset zero f =
     f\<lparr>avail := 0, tail := 0, queue := replicate (unat (num_entries f)) zero\<rparr>"

fun sbi_fifo_reset :: "'a \<Rightarrow> 'a sbi_fifo option \<Rightarrow> bool \<times> 'a sbi_fifo option" where
  "sbi_fifo_reset zero None = (False, None)"
| "sbi_fifo_reset zero (Some f) = (True, Some (fifo_reset zero f))"

definition fifo_index :: "'a sbi_fifo \<Rightarrow> nat \<Rightarrow> nat" where
  "fifo_index f i =
     (let index = unat (tail f) + i
      in if unat (num_entries f) \<le> index then index - unat (num_entries f) else index)"

fun fifo_inplace_loop ::
  "('i \<Rightarrow> 'a \<Rightarrow> sbi_fifo_inplace_update_types \<times> 'a) \<Rightarrow> 'i \<Rightarrow> nat list \<Rightarrow> 'a sbi_fifo
     \<Rightarrow> sbi_fifo_inplace_update_types \<times> 'a sbi_fifo" where
  "fifo_inplace_loop fptr inp [] f = (SBI_FIFO_UNCHANGED, f)"
| "fifo_inplace_loop fptr inp (i # ks) f =
     (let index = fifo_index f i;
          (ret, entry) = fptr inp (queue f ! index);
          f' = f\<lparr>queue := (queue f)[index := entry]\<rparr>
      in if ret = SBI_FIFO_SKIP \<or> ret = SBI_FIFO_UPDATED then (ret, f')
         else fifo_inplace_loop fptr inp ks f')"

fun sbi_fifo_inplace_update ::
  "'a sbi_fifo option \<Rightarrow> 'i option \<Rightarrow> ('i \<Rightarrow> 'a \<Rightarrow> sbi_fifo_inplace_update_types \<times> 'a)
     \<Rightarrow> sbi_fifo_inplace_update_types \<times> 'a sbi_fifo option" where
  "sbi_fifo_inplace_update (Some f) (Some inp) fptr =
     (if fifo_is_empty f then (SBI_FIFO_UNCHANGED, Some f)
      else case fifo_inplace_loop fptr inp [0..<unat (avail f)] f of (ret, f') \<Rightarrow> (ret, Some f'))"
| "sbi_fifo_inplace_update f inp fptr = (SBI_FIFO_UNCHANGED, f)"

fun sbi_fifo_enqueue :: "'a sbi_fifo option \<Rightarrow> 'a option \<Rightarrow> int \<times> 'a sbi_fifo option" where
  "sbi_fifo_enqueue (Some f) (Some data) =
     (if fifo_is_full f then (SBI_ENOSPC, Some f) else (0, Some (fifo_enqueue f data)))"
| "sbi_fifo_enqueue f data = (SBI_EINVAL, f)"

definition fifo_dequeue :: "'a sbi_fifo \<Rightarrow> 'a \<times> 'a sbi_fifo" where
  "fifo_dequeue f =
     (let data = queue f ! unat (tail f); t = tail f + 1
      in (data, f\<lparr>avail := avail f - 1, tail := (if num_entries f \<le> t then 0 else t)\<rparr>))"

text \<open>The destination buffer is \<open>None\<close> for a NULL pointer; the value copied into it is returned.\<close>

fun sbi_fifo_dequeue :: "'a sbi_fifo option \<Rightarrow> 'a option \<Rightarrow> int \<times> 'a option \<times> 'a sbi_fifo option" where
  "sbi_fifo_dequeue (Some f) (Some data) =
     (if fifo_is_empty f then (SBI_ENOENT, Some data, Some f)
      else case fifo_dequeue f of (d, f') \<Rightarrow> (0, Some d, Some f'))"
| "sbi_fifo_dequeue f data = (SBI_EINVAL, data, f)"

section \<open>Well-formedness and abstraction\<close>

definition fifo_wf :: "'a sbi_fifo \<Rightarrow> bool" where
  "fifo_wf f \<longleftrightarrow> length (queue f) = unat (num_entries f) \<and> 0 < num_entries f
     \<and> avail f \<le> num_entries f \<and> tail f < num_entries f"

definition fifo_list :: "'a sbi_fifo \<Rightarrow> 'a list" where
  "fifo_list f = map (\<lambda>i. queue f ! fifo_index f i) [0..<unat (avail f)]"

lemma length_fifo_list [simp]: "length (fifo_list f) = unat (avail f)"
  by (simp add: fifo_list_def)

lemma fifo_wfD:
  assumes "fifo_wf f"
  shows "length (queue f) = unat (num_entries f)" "0 < unat (num_entries f)"
    "unat (avail f) \<le> unat (num_entries f)" "unat (tail f) < unat (num_entries f)"
    "unat (num_entries f) < 65536"
  using assms unat_u16_less [of "num_entries f"]
  by (auto simp: fifo_wf_def word_le_nat_alt word_less_nat_alt)

lemma fifo_index_cong:
  "tail f' = tail f \<Longrightarrow> num_entries f' = num_entries f \<Longrightarrow> fifo_index f' i = fifo_index f i"
  unfolding fifo_index_def by (simp only:)

lemma fifo_index_less: "fifo_wf f \<Longrightarrow> i < unat (num_entries f) \<Longrightarrow> fifo_index f i < unat (num_entries f)"
  using fifo_wfD [of f] by (auto simp: fifo_index_def Let_def)

lemma fifo_index_inj:
  "fifo_wf f \<Longrightarrow> i < unat (num_entries f) \<Longrightarrow> j < unat (num_entries f) \<Longrightarrow>
   fifo_index f i = fifo_index f j \<longleftrightarrow> i = j"
  using fifo_wfD [of f] by (auto simp: fifo_index_def Let_def split: if_splits)

lemma fifo_is_full_iff: "fifo_is_full f \<longleftrightarrow> unat (avail f) = unat (num_entries f)"
  by (simp add: fifo_is_full_def word_unat_eq_iff)

lemma fifo_is_empty_iff: "fifo_is_empty f \<longleftrightarrow> fifo_list f = []"
  by (simp add: fifo_is_empty_def fifo_list_def unat_eq_zero)

lemma fifo_init_wf: "0 < n \<Longrightarrow> fifo_wf (sbi_fifo_init z n sz)"
  by (simp add: fifo_wf_def sbi_fifo_init_def)

lemma fifo_init_list: "fifo_list (sbi_fifo_init z n sz) = []"
  by (simp add: fifo_list_def sbi_fifo_init_def)

lemma fifo_reset_wf: "fifo_wf f \<Longrightarrow> fifo_wf (fifo_reset z f)"
  by (auto simp: fifo_wf_def fifo_reset_def)

lemma fifo_reset_list: "fifo_list (fifo_reset z f) = []"
  by (simp add: fifo_list_def fifo_reset_def)

lemma fifo_enqueue_eq:
  assumes "fifo_wf f"
  shows "fifo_enqueue f d
    = f\<lparr>queue := (queue f)[fifo_index f (unat (avail f)) := d], avail := avail f + 1\<rparr>"
proof -
  note b = fifo_wfD [OF assms]
  let ?h = "(ucast (tail f) :: u32) + ucast (avail f)"
  have s: "unat ?h = unat (tail f) + unat (avail f)"
    using b by (simp add: unat_word_ariths)
  have "ucast (num_entries f) \<le> ?h \<longleftrightarrow> unat (num_entries f) \<le> unat (tail f) + unat (avail f)"
    by (simp add: word_le_nat_alt s)
  moreover have "unat (?h - ucast (num_entries f)) = unat (tail f) + unat (avail f) - unat (num_entries f)"
    if "ucast (num_entries f) \<le> ?h"
    using unat_sub [OF that] by (simp add: s)
  ultimately show ?thesis by (auto simp: fifo_enqueue_def fifo_index_def Let_def s)
qed

lemma fifo_enqueue_avail:
  "fifo_wf f \<Longrightarrow> \<not> fifo_is_full f \<Longrightarrow> unat (avail f + 1) = unat (avail f) + 1"
  using fifo_wfD [of f] by (simp add: fifo_is_full_iff unat_word_ariths)

lemma fifo_enqueue_wf:
  assumes "fifo_wf f" "\<not> fifo_is_full f"
  shows "fifo_wf (fifo_enqueue f d)"
  using assms fifo_enqueue_avail [OF assms] fifo_wfD [OF assms(1)]
  by (simp add: fifo_enqueue_eq fifo_is_full_iff fifo_wf_def word_le_nat_alt)

lemma fifo_enqueue_list:
  assumes "fifo_wf f" "\<not> fifo_is_full f"
  shows "fifo_list (fifo_enqueue f d) = fifo_list f @ [d]"
proof -
  let ?f = "fifo_enqueue f d" and ?n = "unat (avail f)"
  note b = fifo_wfD [OF assms(1)]
  have n: "?n < unat (num_entries f)" using assms b by (simp add: fifo_is_full_iff)
  have i: "fifo_index ?f k = fifo_index f k" for k
    using assms(1) by (intro fifo_index_cong) (simp_all add: fifo_enqueue_eq)
  have q: "queue ?f = (queue f)[fifo_index f ?n := d]" "unat (avail ?f) = Suc ?n"
    using assms fifo_enqueue_avail [OF assms] by (simp_all add: fifo_enqueue_eq)
  have "queue ?f ! fifo_index f k = queue f ! fifo_index f k" if "k < ?n" for k
    using fifo_index_inj [OF assms(1), of k ?n] that n q by simp
  moreover have "queue ?f ! fifo_index f ?n = d"
    using q fifo_index_less [OF assms(1) n] b by simp
  ultimately show ?thesis by (simp add: fifo_list_def i q)
qed

lemma fifo_dequeue_spec:
  assumes "fifo_wf f" "\<not> fifo_is_empty f"
  shows "fifo_wf (snd (fifo_dequeue f))"
    and "fifo_list f = fst (fifo_dequeue f) # fifo_list (snd (fifo_dequeue f))"
proof -
  let ?f = "snd (fifo_dequeue f)" and ?n = "unat (num_entries f)"
  note b = fifo_wfD [OF assms(1)]
  have av: "unat (avail f - 1) = unat (avail f) - 1" "0 < unat (avail f)"
    using assms(2) by (auto simp: fifo_is_empty_def unat_gt_0 unat_minus_one)
  have t: "unat (tail f + 1) = unat (tail f) + 1"
    using b by (simp add: unat_word_ariths)
  have le: "num_entries f \<le> tail f + 1 \<longleftrightarrow> ?n \<le> unat (tail f) + 1"
    by (simp add: word_le_nat_alt t)
  have f: "queue ?f = queue f" "num_entries ?f = num_entries f" "avail ?f = avail f - 1"
    "unat (tail ?f) = (if ?n \<le> unat (tail f) + 1 then 0 else unat (tail f) + 1)"
    using t le by (simp_all add: fifo_dequeue_def Let_def)
  show "fifo_wf ?f"
    using b av f by (auto simp: fifo_wf_def word_le_nat_alt word_less_nat_alt)
  have "fifo_index ?f k = fifo_index f (Suc k)" if "Suc k < ?n" for k
    using b f that by (auto simp: fifo_index_def Let_def split: if_splits)
  moreover have "fst (fifo_dequeue f) = queue f ! fifo_index f 0"
    using b by (simp add: fifo_dequeue_def fifo_index_def Let_def)
  moreover have "[0..<unat (avail f)] = 0 # map Suc [0..<unat (avail f) - 1]"
    using av(2) by (simp add: map_Suc_upt upt_conv_Cons)
  ultimately show "fifo_list f = fst (fifo_dequeue f) # fifo_list ?f"
    using av f b by (simp add: fifo_list_def)
qed

section \<open>In-place update of the queued entries\<close>

fun list_inplace ::
  "('i \<Rightarrow> 'a \<Rightarrow> sbi_fifo_inplace_update_types \<times> 'a) \<Rightarrow> 'i \<Rightarrow> 'a list
     \<Rightarrow> sbi_fifo_inplace_update_types \<times> 'a list" where
  "list_inplace fptr inp [] = (SBI_FIFO_UNCHANGED, [])"
| "list_inplace fptr inp (x # xs) =
     (case fptr inp x of (ret, y) \<Rightarrow>
        if ret = SBI_FIFO_UNCHANGED
        then (case list_inplace fptr inp xs of (ret', ys) \<Rightarrow> (ret', y # ys))
        else (ret, y # xs))"

lemma fifo_inplace_loop_spec:
  assumes "fifo_wf f" "k + length (drop k (fifo_list f)) = unat (avail f)"
  shows "case fifo_inplace_loop fptr inp [k..<unat (avail f)] f of (ret, f') \<Rightarrow>
      fifo_wf f' \<and> avail f' = avail f \<and> num_entries f' = num_entries f \<and> tail f' = tail f \<and>
      fifo_list f' = take k (fifo_list f) @ snd (list_inplace fptr inp (drop k (fifo_list f))) \<and>
      ret = fst (list_inplace fptr inp (drop k (fifo_list f)))"
  using assms
proof (induction "unat (avail f) - k" arbitrary: k f)
  case 0
  then show ?case by simp
next
  case (Suc m)
  note b = fifo_wfD [OF Suc.prems(1)]
  have k: "k < unat (avail f)" using Suc.hyps(2) by simp
  let ?ix = "fifo_index f k"
  obtain ret e where p: "fptr inp (queue f ! ?ix) = (ret, e)" by fastforce
  let ?f = "f\<lparr>queue := (queue f)[?ix := e]\<rparr>"
  have ix: "fifo_index ?f j = fifo_index f j" for j by (intro fifo_index_cong) simp_all
  have nth: "(queue f)[?ix := e] ! fifo_index f j = (if j = k then e else queue f ! fifo_index f j)"
    if "j < unat (avail f)" for j
    using fifo_index_inj [OF Suc.prems(1), of j k] fifo_index_less [OF Suc.prems(1), of k] that k b
    by (auto simp: nth_list_update)
  have l: "fifo_list ?f = (fifo_list f)[k := e]"
  proof (rule nth_equalityI)
    fix i
    assume "i < length (fifo_list ?f)"
    then have i: "i < unat (avail f)" by simp
    show "fifo_list ?f ! i = (fifo_list f)[k := e] ! i"
      using i nth [OF i] k by (cases "i = k") (simp_all add: fifo_list_def ix)
  qed simp
  have wf: "fifo_wf ?f" using Suc.prems(1) by (simp add: fifo_wf_def)
  have d: "drop k (fifo_list f) = queue f ! ?ix # drop (Suc k) (fifo_list f)"
    using k by (simp add: fifo_list_def Cons_nth_drop_Suc [symmetric])
  have up: "[k..<unat (avail f)] = k # [Suc k..<unat (avail f)]" using k by (rule upt_conv_Cons)
  show ?case
  proof (cases "ret = SBI_FIFO_UNCHANGED")
    case True
    have "case fifo_inplace_loop fptr inp [Suc k..<unat (avail ?f)] ?f of (ret, f') \<Rightarrow>
      fifo_wf f' \<and> avail f' = avail ?f \<and> num_entries f' = num_entries ?f \<and> tail f' = tail ?f \<and>
      fifo_list f' = take (Suc k) (fifo_list ?f)
        @ snd (list_inplace fptr inp (drop (Suc k) (fifo_list ?f))) \<and>
      ret = fst (list_inplace fptr inp (drop (Suc k) (fifo_list ?f)))"
      using Suc.hyps(2) k wf by (intro Suc.hyps(1)) auto
    then show ?thesis
      using True p k d
      by (auto simp: up l Let_def take_Suc_conv_app_nth split: prod.splits)
  next
    case False
    then have "ret = SBI_FIFO_SKIP \<or> ret = SBI_FIFO_UPDATED" by (cases ret) auto
    then show ?thesis
      using p k d wf l by (auto simp: up Let_def upd_conv_take_nth_drop)
  qed
qed

lemma fifo_inplace_spec:
  assumes "fifo_wf f" "sbi_fifo_inplace_update (Some f) (Some inp) fptr = (ret, Some f')"
  shows "fifo_wf f' \<and> avail f' = avail f \<and> num_entries f' = num_entries f \<and>
    list_inplace fptr inp (fifo_list f) = (ret, fifo_list f')"
proof (cases "fifo_is_empty f")
  case True
  then show ?thesis using assms by (auto simp: fifo_is_empty_iff)
next
  case False
  then show ?thesis
    using assms fifo_inplace_loop_spec [OF assms(1), of 0 fptr inp]
    by (auto split: prod.splits intro: prod_eqI)
qed

lemma fifo_inplace_total:
  "\<exists>ret f'. sbi_fifo_inplace_update (Some f) (Some inp) fptr = (ret, Some f')"
  by (auto split: prod.splits)

section \<open>The contract of a bounded queue\<close>

locale bounded_queue =
  fixes wf :: "'q \<Rightarrow> bool" and abs :: "'q \<Rightarrow> 'a list" and cap :: "'q \<Rightarrow> nat"
    and enq :: "'q \<Rightarrow> 'a \<Rightarrow> int \<times> 'q" and deq :: "'q \<Rightarrow> int \<times> 'a option \<times> 'q"
  assumes enq_ok: "wf q \<Longrightarrow> length (abs q) < cap q \<Longrightarrow>
      fst (enq q x) = 0 \<and> wf (snd (enq q x)) \<and> abs (snd (enq q x)) = abs q @ [x]
      \<and> cap (snd (enq q x)) = cap q"
    and enq_full: "wf q \<Longrightarrow> \<not> length (abs q) < cap q \<Longrightarrow> enq q x = (SBI_ENOSPC, q)"
    and deq_ok: "wf q \<Longrightarrow> abs q = x # xs \<Longrightarrow>
      \<exists>q'. deq q = (0, Some x, q') \<and> wf q' \<and> abs q' = xs \<and> cap q' = cap q"
    and deq_empty: "wf q \<Longrightarrow> abs q = [] \<Longrightarrow> deq q = (SBI_ENOENT, None, q)"
    and abs_cap: "wf q \<Longrightarrow> length (abs q) \<le> cap q"
begin

fun enq_all :: "'q \<Rightarrow> 'a list \<Rightarrow> 'q" where
  "enq_all q [] = q"
| "enq_all q (x # xs) = enq_all (snd (enq q x)) xs"

fun deq_all :: "nat \<Rightarrow> 'q \<Rightarrow> 'a list \<times> 'q" where
  "deq_all 0 q = ([], q)"
| "deq_all (Suc n) q =
     (case deq q of
        (r, Some x, q') \<Rightarrow> if r = 0 then (case deq_all n q' of (xs, q'') \<Rightarrow> (x # xs, q'')) else ([], q)
      | (r, None, q') \<Rightarrow> ([], q))"

lemma enq_all_abs:
  "wf q \<Longrightarrow> length (abs q) + length xs \<le> cap q \<Longrightarrow>
   wf (enq_all q xs) \<and> abs (enq_all q xs) = abs q @ xs \<and> cap (enq_all q xs) = cap q"
proof (induction xs arbitrary: q)
  case (Cons x xs)
  then have "length (abs q) < cap q" by simp
  with Cons.prems(1) show ?case using Cons.prems(2) Cons.IH [of "snd (enq q x)"] enq_ok [of q x] by simp
qed simp

lemma deq_all_abs:
  "wf q \<Longrightarrow> n \<le> length (abs q) \<Longrightarrow>
   \<exists>q'. deq_all n q = (take n (abs q), q') \<and> wf q' \<and> abs q' = drop n (abs q)"
proof (induction n arbitrary: q)
  case (Suc n)
  then obtain x xs where x: "abs q = x # xs" by (cases "abs q") auto
  obtain q' where q': "deq q = (0, Some x, q')" "wf q'" "abs q' = xs"
    using deq_ok [OF Suc.prems(1) x] by blast
  then show ?case using Suc.IH [of q'] Suc.prems x by auto
qed simp

lemma fifo_order:
  assumes "wf q" "abs q = []" "length xs \<le> cap q"
  shows "fst (deq_all (length xs) (enq_all q xs)) = xs"
  using enq_all_abs [of q xs] deq_all_abs [of "enq_all q xs" "length xs"] assms by fastforce

end

definition fifo_enq :: "'a sbi_fifo \<Rightarrow> 'a \<Rightarrow> int \<times> 'a sbi_fifo" where
  "fifo_enq f x = (case sbi_fifo_enqueue (Some f) (Some x) of
     (r, Some f') \<Rightarrow> (r, f') | (r, None) \<Rightarrow> (r, f))"

definition fifo_deq :: "'a sbi_fifo \<Rightarrow> int \<times> 'a option \<times> 'a sbi_fifo" where
  "fifo_deq f = (case sbi_fifo_dequeue (Some f) (Some undefined) of
     (r, d, Some f') \<Rightarrow> (r, (if r = 0 then d else None), f') | (r, d, None) \<Rightarrow> (r, None, f))"

interpretation fifo: bounded_queue fifo_wf fifo_list "\<lambda>f. unat (num_entries f)" fifo_enq fifo_deq
proof unfold_locales
  fix f :: "'a sbi_fifo" and x :: 'a and xs
  assume wf: "fifo_wf f"
  show "length (fifo_list f) \<le> unat (num_entries f)" using fifo_wfD [OF wf] by simp
  show "fst (fifo_enq f x) = 0 \<and> fifo_wf (snd (fifo_enq f x))
      \<and> fifo_list (snd (fifo_enq f x)) = fifo_list f @ [x]
      \<and> unat (num_entries (snd (fifo_enq f x))) = unat (num_entries f)"
    if "length (fifo_list f) < unat (num_entries f)"
    using that wf fifo_enqueue_wf [OF wf] fifo_enqueue_list [OF wf] fifo_enqueue_eq [OF wf]
    by (auto simp: fifo_enq_def fifo_is_full_iff)
  show "fifo_enq f x = (SBI_ENOSPC, f)" if "\<not> length (fifo_list f) < unat (num_entries f)"
    using that fifo_wfD [OF wf] by (auto simp: fifo_enq_def fifo_is_full_iff)
  show "\<exists>f'. fifo_deq f = (0, Some x, f') \<and> fifo_wf f' \<and> fifo_list f' = xs
      \<and> unat (num_entries f') = unat (num_entries f)" if "fifo_list f = x # xs"
    using that fifo_dequeue_spec [OF wf]
    by (auto simp: fifo_deq_def fifo_is_empty_iff fifo_dequeue_def Let_def split: prod.splits)
  show "fifo_deq f = (SBI_ENOENT, None, f)" if "fifo_list f = []"
    using that by (simp add: fifo_deq_def fifo_is_empty_iff)
qed

end
