(* ===== verification/Sbi_Fifo_Refinement.thy ===== *)
theory Sbi_Fifo_Refinement
  imports Refinement Sbi_Fifo
begin

text \<open>
  The ring buffer of \<^verbatim>\<open>lib/sbi/sbi_fifo.c\<close> refines a bounded list: a client that runs any sequence of
  the operations gets the same answers from both. The abstract machine knows the list, the number
  of entries and nothing of indices or of the storage.

  The single operations are the obligations of the locale \<open>functional_refinement\<close>, which gives the
  statement about sequences.
\<close>

section \<open>The commands and their answers\<close>

datatype ('a, 'i) fifo_command =
    Enqueue 'a
  | Dequeue 'a
  | Inplace_update 'i
  | Reset
  | Avail
  | Is_full
  | Is_empty

datatype 'a fifo_answer =
    Answer_code int
  | Answer_entry int 'a
  | Answer_update sbi_fifo_inplace_update_types
  | Answer_bool bool
  | Answer_count u16

text \<open>A dequeue gets a buffer, whose content is what it holds afterwards.\<close>

fun fifo_exec ::
  "'a \<Rightarrow> ('i \<Rightarrow> 'a \<Rightarrow> sbi_fifo_inplace_update_types \<times> 'a) \<Rightarrow> ('a, 'i) fifo_command \<Rightarrow> 'a sbi_fifo
     \<Rightarrow> 'a fifo_answer \<times> 'a sbi_fifo" where
  "fifo_exec zero fptr (Enqueue x) f =
     (case sbi_fifo_enqueue (Some f) (Some x) of (r, f') \<Rightarrow> (Answer_code r, the f'))"
| "fifo_exec zero fptr (Dequeue buf) f =
     (case sbi_fifo_dequeue (Some f) (Some buf) of (r, d, f') \<Rightarrow> (Answer_entry r (the d), the f'))"
| "fifo_exec zero fptr (Inplace_update i) f =
     (case sbi_fifo_inplace_update (Some f) (Some i) fptr of (r, f') \<Rightarrow> (Answer_update r, the f'))"
| "fifo_exec zero fptr Reset f =
     (case sbi_fifo_reset zero (Some f) of (r, f') \<Rightarrow> (Answer_bool r, the f'))"
| "fifo_exec zero fptr Avail f = (Answer_count (sbi_fifo_avail (Some f)), f)"
| "fifo_exec zero fptr Is_full f = (Answer_code (sbi_fifo_is_full (Some f)), f)"
| "fifo_exec zero fptr Is_empty f = (Answer_code (sbi_fifo_is_empty (Some f)), f)"

section \<open>The abstract queue\<close>

text \<open>A list with a bound, which no operation changes.\<close>

fun queue_exec ::
  "('i \<Rightarrow> 'a \<Rightarrow> sbi_fifo_inplace_update_types \<times> 'a) \<Rightarrow> ('a, 'i) fifo_command \<Rightarrow> u16 \<times> 'a list
     \<Rightarrow> 'a fifo_answer \<times> (u16 \<times> 'a list)" where
  "queue_exec fptr (Enqueue x) (n, xs) =
     (if length xs < unat n then (Answer_code 0, (n, xs @ [x])) else (Answer_code SBI_ENOSPC, (n, xs)))"
| "queue_exec fptr (Dequeue buf) (n, xs) =
     (case xs of [] \<Rightarrow> (Answer_entry SBI_ENOENT buf, (n, [])) | x # ys \<Rightarrow> (Answer_entry 0 x, (n, ys)))"
| "queue_exec fptr (Inplace_update i) (n, xs) =
     (case list_inplace fptr i xs of (r, ys) \<Rightarrow> (Answer_update r, (n, ys)))"
| "queue_exec fptr Reset (n, xs) = (Answer_bool True, (n, []))"
| "queue_exec fptr Avail (n, xs) = (Answer_count (of_nat (length xs)), (n, xs))"
| "queue_exec fptr Is_full (n, xs) = (Answer_code (of_bool (length xs = unat n)), (n, xs))"
| "queue_exec fptr Is_empty (n, xs) = (Answer_code (of_bool (xs = [])), (n, xs))"

definition fifo_queue :: "'a sbi_fifo \<Rightarrow> u16 \<times> 'a list" where
  "fifo_queue f = (num_entries f, fifo_list f)"

section \<open>The refinement\<close>

lemma fifo_exec_enqueue:
  assumes "fifo_wf f"
  shows "fifo_wf (snd (fifo_exec z fptr (Enqueue x) f)) \<and> queue_exec fptr (Enqueue x) (fifo_queue f)
    = (fst (fifo_exec z fptr (Enqueue x) f), fifo_queue (snd (fifo_exec z fptr (Enqueue x) f)))"
  using fifo_enqueue_wf [OF assms] fifo_enqueue_list [OF assms] fifo_enqueue_eq [OF assms] fifo_wfD [OF assms]
    assms by (auto simp: fifo_queue_def fifo_is_full_iff)

lemma fifo_exec_dequeue:
  assumes "fifo_wf f"
  shows "fifo_wf (snd (fifo_exec z fptr (Dequeue b) f)) \<and> queue_exec fptr (Dequeue b) (fifo_queue f)
    = (fst (fifo_exec z fptr (Dequeue b) f), fifo_queue (snd (fifo_exec z fptr (Dequeue b) f)))"
  using fifo_dequeue_spec [OF assms] assms
  by (auto simp: fifo_queue_def fifo_is_empty_iff fifo_dequeue_def Let_def split: prod.splits list.splits)

lemma fifo_exec_update:
  assumes "fifo_wf f"
  shows "fifo_wf (snd (fifo_exec z fptr (Inplace_update i) f))
    \<and> queue_exec fptr (Inplace_update i) (fifo_queue f)
    = (fst (fifo_exec z fptr (Inplace_update i) f), fifo_queue (snd (fifo_exec z fptr (Inplace_update i) f)))"
proof -
  obtain r f' where run: "sbi_fifo_inplace_update (Some f) (Some i) fptr = (r, Some f')"
    using fifo_inplace_total [of f i fptr] by blast
  show ?thesis
    using fifo_inplace_spec [OF assms run] run by (simp add: fifo_queue_def del: sbi_fifo_inplace_update.simps)
qed

lemma fifo_exec_other:
  assumes "fifo_wf f" "p \<in> {Reset, Avail, Is_full, Is_empty}"
  shows "fifo_wf (snd (fifo_exec z fptr p f))
    \<and> queue_exec fptr p (fifo_queue f) = (fst (fifo_exec z fptr p f), fifo_queue (snd (fifo_exec z fptr p f)))"
proof -
  have "num_entries (fifo_reset z f) = num_entries f" by (simp add: fifo_reset_def)
  then show ?thesis
    using assms fifo_reset_wf [OF assms(1)]
    by (auto simp: fifo_queue_def fifo_reset_list fifo_is_full_iff fifo_is_empty_iff)
qed

lemma fifo_exec_refines:
  assumes "fifo_wf f"
  shows "fifo_wf (snd (fifo_exec z fptr p f))
    \<and> queue_exec fptr p (fifo_queue f) = (fst (fifo_exec z fptr p f), fifo_queue (snd (fifo_exec z fptr p f)))"
proof (cases p)
  case (Enqueue x)
  show ?thesis unfolding Enqueue by (rule fifo_exec_enqueue [OF assms])
next
  case (Dequeue x)
  show ?thesis unfolding Dequeue by (rule fifo_exec_dequeue [OF assms])
next
  case (Inplace_update i)
  show ?thesis unfolding Inplace_update by (rule fifo_exec_update [OF assms])
qed (use fifo_exec_other [OF assms, of p z fptr] in simp_all)

interpretation ring: functional_refinement fifo_wf fifo_queue "fifo_exec z fptr" "queue_exec fptr" for z fptr
  by unfold_locales (simp_all add: fifo_exec_refines del: fifo_exec.simps queue_exec.simps)

text \<open>C5. Whatever sequence of operations a client runs on a well-formed ring buffer, it gets the answers
  that a bounded list gives: entries come out in the order they went in, an in-place update walks
  the entries from the oldest on, a full buffer refuses and an empty one has nothing; and the ring
  buffer still stands for the list at the end.\<close>

theorem fifo_refines_list:
  assumes "fifo_wf f"
  shows "case run_ops (fifo_exec z fptr) cmds f of (answers, f') \<Rightarrow>
    fifo_wf f' \<and> run_ops (queue_exec fptr) cmds (num_entries f, fifo_list f)
      = (answers, (num_entries f', fifo_list f'))"
  using ring.run_refines_any [OF assms, of z fptr cmds] by (simp add: fifo_queue_def case_prod_unfold)

theorem fifo_refines_list_witness:
  "fst (run_ops (fifo_exec 0 (\<lambda>i x. if x = i then (SBI_FIFO_UPDATED, 10 * x) else (SBI_FIFO_UNCHANGED, x)))
     [Enqueue 1, Enqueue 2, Dequeue 0, Enqueue 3, Inplace_update 3, Enqueue 4, Dequeue 0, Dequeue 0]
     (sbi_fifo_init (0 :: nat) 2 8))
   = [Answer_code 0, Answer_code 0, Answer_entry 0 1, Answer_code 0, Answer_update SBI_FIFO_UPDATED,
      Answer_code SBI_ENOSPC, Answer_entry 0 2, Answer_entry 0 30]"
proof -
  let ?f = "sbi_fifo_init (0 :: nat) 2 8" and ?fptr = "\<lambda>i x. if x = i then (SBI_FIFO_UPDATED, 10 * x) else (SBI_FIFO_UNCHANGED, x)"
  let ?cmds = "[Enqueue 1, Enqueue 2, Dequeue 0, Enqueue 3, Inplace_update 3, Enqueue 4, Dequeue 0, Dequeue 0]"
  have wf: "fifo_wf ?f" by (rule fifo_init_wf) simp
  obtain rs f' where run: "run_ops (fifo_exec 0 ?fptr) ?cmds ?f = (rs, f')" by (rule prod.exhaust)
  have "num_entries ?f = 2" by (simp add: sbi_fifo_init_def)
  then have "run_ops (queue_exec ?fptr) ?cmds (2, []) = (rs, (num_entries f', fifo_list f'))"
    using fifo_refines_list [OF wf, where z = 0 and fptr = ?fptr and cmds = ?cmds] unfolding run by (simp only: prod.case fifo_init_list)
  then show ?thesis unfolding run by simp
qed

end
