(* ===== verification/Riscv_Locks.thy ===== *)
theory Riscv_Locks
  imports Sbi_Prelude
begin

text \<open>
  \<^verbatim>\<open>lib/sbi/riscv_locks.c\<close>: the ticket lock. A lock is two 16 bit counters in one 32 bit word;
  \<open>spin_lock\<close> and \<open>spin_trylock\<close> are the arithmetic of their assembly on that word, the step
  relation \<open>lock_step\<close> interleaves any number of harts below the limit of 128 that use one lock.
  The LR/SC retry loop of \<^verbatim>\<open>spin_trylock\<close> is one atomic step: the pair only succeeds when nobody
  wrote the word between.
\<close>

section \<open>The lock word\<close>

record spinlock =
  owner :: u16
  next_ticket :: u16

definition lock_word :: "spinlock \<Rightarrow> u32" where
  "lock_word l = ucast (owner l) + push_bit 16 (ucast (next_ticket l))"

definition lock_of_word :: "u32 \<Rightarrow> spinlock" where
  "lock_of_word w = \<lparr>owner = ucast w, next_ticket = ucast (drop_bit 16 w)\<rparr>"

definition spin_lock_unlocked :: "spinlock \<Rightarrow> bool" where
  "spin_lock_unlocked l \<longleftrightarrow> owner l = next_ticket l"

definition spin_lock_check :: "spinlock \<Rightarrow> bool" where
  "spin_lock_check l \<longleftrightarrow> \<not> spin_lock_unlocked l"

definition spin_trylock :: "spinlock \<Rightarrow> bool \<times> spinlock" where
  "spin_trylock l =
     (let inc = push_bit 16 1; m = push_bit 16 0xffff; l0 = lock_word l;
          tmp2 = push_bit 16 l0 AND m; tmp1 = l0 AND m
      in if tmp1 \<noteq> tmp2 then (l0 = 0, l) else (True, lock_of_word (l0 + inc)))"

definition spin_lock_take :: "spinlock \<Rightarrow> u32 \<times> spinlock" where
  "spin_lock_take l =
     (let inc = push_bit 16 1; l0 = lock_word l
      in (drop_bit 16 l0 AND 0xffff, lock_of_word (l0 + inc)))"

definition spin_lock_got :: "u32 \<Rightarrow> spinlock \<Rightarrow> bool" where
  "spin_lock_got ticket l \<longleftrightarrow> ticket = lock_word l AND 0xffff"

definition spin_unlock :: "spinlock \<Rightarrow> spinlock" where
  "spin_unlock l = l\<lparr>owner := owner l + 1\<rparr>"

lemma unat_lock_word: "unat (lock_word l) = unat (owner l) + 65536 * unat (next_ticket l)"
proof -
  have "unat (owner l) + 65536 * unat (next_ticket l) < 2 ^ 32"
    using unat_u16_less [of "owner l"] unat_u16_less [of "next_ticket l"] by simp
  moreover have "unat (push_bit 16 (ucast (next_ticket l) :: u32)) = 65536 * unat (next_ticket l)"
    using unat_u16_less [of "next_ticket l"]
    by (simp add: push_bit_eq_mult unat_word_ariths)
  ultimately show ?thesis by (simp add: lock_word_def unat_word_ariths)
qed

lemma unat_ucast_32_16: "unat (ucast (w :: u32) :: u16) = unat w mod 65536"
  by (simp add: unsigned_ucast_eq take_bit_eq_mod)

lemma unat_owner_of_word: "unat (owner (lock_of_word w)) = unat w mod 65536"
  by (simp add: lock_of_word_def unat_ucast_32_16)

lemma unat_next_of_word: "unat (next_ticket (lock_of_word w)) = unat w div 65536"
proof -
  have "unat w div 65536 < 65536" using unat_u32_less [of w] by simp
  then show ?thesis by (simp add: lock_of_word_def unat_ucast_32_16 drop_bit_eq_div unat_div)
qed

lemma lock_of_word_inc:
  "lock_of_word (lock_word l + push_bit 16 1) = l\<lparr>next_ticket := next_ticket l + 1\<rparr>"
proof -
  let ?w = "lock_word l + push_bit 16 1 :: u32"
  have "unat ?w = (unat (owner l) + 65536 * unat (next_ticket l) + 65536) mod 4294967296"
    by (simp add: unat_word_ariths unat_lock_word)
  also have "\<dots> = unat (owner l) + 65536 * ((unat (next_ticket l) + 1) mod 65536)"
  proof (cases "unat (next_ticket l) = 65535")
    case True
    then show ?thesis using unat_u16_less [of "owner l"] by simp
  next
    case False
    then have "unat (next_ticket l) + 1 < 65536" using unat_u16_less [of "next_ticket l"] by simp
    then show ?thesis using unat_u16_less [of "owner l"] by simp
  qed
  finally have w: "unat ?w = unat (owner l) + 65536 * unat (next_ticket l + 1)"
    by (simp add: unat_word_ariths)
  have "owner (lock_of_word ?w) = owner l"
    using w unat_u16_less [of "owner l"] by (simp add: word_unat_eq_iff unat_owner_of_word)
  moreover have "next_ticket (lock_of_word ?w) = next_ticket l + 1"
    using w unat_u16_less [of "owner l"] by (simp add: word_unat_eq_iff unat_next_of_word)
  ultimately show ?thesis by simp
qed

lemma mask16: "(0xffff :: u32) = mask 16"
  by (simp add: mask_eq_exp_minus_1)

lemma unat_and_mask16: "unat ((w :: u32) AND 0xffff) = unat w mod 65536"
  unfolding mask16 by (simp add: unat_mod take_bit_eq_mod flip: take_bit_eq_mask)

lemma ticket_of_lock_word: "drop_bit 16 (lock_word l) AND 0xffff = ucast (next_ticket l)"
  using unat_u16_less [of "owner l"] unat_u16_less [of "next_ticket l"]
  by (simp add: word_unat_eq_iff unat_and_mask16 drop_bit_eq_div unat_div unat_lock_word)

lemma owner_of_lock_word: "lock_word l AND 0xffff = ucast (owner l)"
  using unat_u16_less [of "owner l"]
  by (simp add: word_unat_eq_iff unat_and_mask16 unat_lock_word)

lemma spin_lock_take_eq:
  "spin_lock_take l = (ucast (next_ticket l), l\<lparr>next_ticket := next_ticket l + 1\<rparr>)"
  using lock_of_word_inc [of l] ticket_of_lock_word [of l]
  by (simp add: spin_lock_take_def Let_def)

lemma ucast_16_32_eq [simp]: "(ucast (a :: u16) :: u32) = ucast b \<longleftrightarrow> a = b"
  by (simp add: word_unat_eq_iff)

lemma spin_lock_got_eq: "spin_lock_got (ucast t) l \<longleftrightarrow> owner l = t"
  by (auto simp: spin_lock_got_def owner_of_lock_word)

lemma trylock_test:
  "push_bit 16 (lock_word l) AND push_bit 16 0xffff = lock_word l AND push_bit 16 0xffff
    \<longleftrightarrow> owner l = next_ticket l"
proof -
  have 1: "push_bit 16 w AND push_bit 16 0xffff = push_bit 16 (w AND 0xffff)" for w :: u32
    by (simp add: push_bit_and)
  have 2: "w AND push_bit 16 0xffff = push_bit 16 (drop_bit 16 w AND 0xffff)" for w :: u32
    unfolding mask16 by (rule bit_word_eqI)
      (auto simp: bit_and_iff bit_push_bit_iff bit_drop_bit_eq bit_mask_iff)
  have "push_bit 16 (ucast a :: u32) = push_bit 16 (ucast b) \<longleftrightarrow> a = b" for a b :: u16
  proof
    assume "push_bit 16 (ucast a :: u32) = push_bit 16 (ucast b)"
    then have "unat (push_bit 16 (ucast a :: u32)) = unat (push_bit 16 (ucast b :: u32))" by simp
    then have "65536 * unat a = 65536 * unat b"
      using unat_u16_less [of a] unat_u16_less [of b]
      by (simp add: push_bit_eq_mult unat_word_ariths)
    then show "a = b" by (simp add: word_unat_eq_iff)
  qed simp
  moreover have "push_bit 16 (lock_word l) AND push_bit 16 0xffff = push_bit 16 (ucast (owner l))"
    by (simp only: 1 owner_of_lock_word)
  moreover have "lock_word l AND push_bit 16 0xffff = push_bit 16 (ucast (next_ticket l))"
    by (simp only: 2 ticket_of_lock_word)
  ultimately show ?thesis by (simp only:)
qed

lemma lock_word_nonzero: "owner l \<noteq> next_ticket l \<Longrightarrow> lock_word l \<noteq> 0"
  using unat_lock_word [of l] by (auto simp: word_unat_eq_iff)

lemma spin_trylock_eq:
  "spin_trylock l = (if owner l = next_ticket l then (True, l\<lparr>next_ticket := next_ticket l + 1\<rparr>)
     else (False, l))"
proof (cases "owner l = next_ticket l")
  case True
  then show ?thesis
    using lock_of_word_inc [of l] trylock_test [of l] unfolding spin_trylock_def Let_def by simp
next
  case False
  then have "lock_word l AND push_bit 16 0xffff \<noteq> push_bit 16 (lock_word l) AND push_bit 16 0xffff"
    using trylock_test [of l] by metis
  then show ?thesis
    using False lock_word_nonzero [OF False] unfolding spin_trylock_def Let_def by (simp only: simp_thms if_True if_False)
qed

section \<open>Harts that compete for one lock\<close>

datatype lock_pc = Outside | Spinning u32 | Holding

record lock_sys =
  lk :: spinlock
  pc :: "nat \<Rightarrow> lock_pc"

definition lock_init :: lock_sys where
  "lock_init = \<lparr>lk = \<lparr>owner = 0, next_ticket = 0\<rparr>, pc = (\<lambda>_. Outside)\<rparr>"

inductive lock_step :: "lock_sys \<Rightarrow> lock_sys \<Rightarrow> bool" where
  take_ticket: "h < 128 \<Longrightarrow> pc s h = Outside \<Longrightarrow> spin_lock_take (lk s) = (t, l) \<Longrightarrow>
    lock_step s (s\<lparr>lk := l, pc := (pc s)(h := Spinning t)\<rparr>)"
| acquire: "pc s h = Spinning t \<Longrightarrow> spin_lock_got t (lk s) \<Longrightarrow>
    lock_step s (s\<lparr>pc := (pc s)(h := Holding)\<rparr>)"
| try_acquire: "h < 128 \<Longrightarrow> pc s h = Outside \<Longrightarrow> spin_trylock (lk s) = (True, l) \<Longrightarrow>
    lock_step s (s\<lparr>lk := l, pc := (pc s)(h := Holding)\<rparr>)"
| release: "pc s h = Holding \<Longrightarrow>
    lock_step s (s\<lparr>lk := spin_unlock (lk s), pc := (pc s)(h := Outside)\<rparr>)"

inductive lock_reachable :: "lock_sys \<Rightarrow> bool" where
  lock_start: "lock_reachable lock_init"
| lock_more: "lock_reachable s \<Longrightarrow> lock_step s t \<Longrightarrow> lock_reachable t"

text \<open>
  The harts inside form a queue in ticket order: the \<open>i\<close>-th holds the ticket \<open>owner + i\<close>, modulo
  the 16 bit counter. With at most 128 harts the counter cannot lap the queue.
\<close>

definition lock_queue :: "lock_sys \<Rightarrow> nat list \<Rightarrow> bool" where
  "lock_queue s q \<longleftrightarrow> distinct q \<and> set q \<subseteq> {..<128} \<and> (\<forall>h. h \<in> set q \<longleftrightarrow> pc s h \<noteq> Outside) \<and>
     next_ticket (lk s) = owner (lk s) + of_nat (length q) \<and>
     (\<forall>i<length q. (\<forall>t. pc s (q ! i) = Spinning t \<longrightarrow> t = ucast (owner (lk s) + of_nat i)) \<and>
        (pc s (q ! i) = Holding \<longrightarrow> i = 0))"

lemma lock_queue_length: "lock_queue s q \<Longrightarrow> length q \<le> 128"
  using card_mono [of "{..<128}" "set q"] by (auto simp: lock_queue_def distinct_card)

lemma of_nat_u16_zero: "n < 65536 \<Longrightarrow> (of_nat n :: u16) = 0 \<longleftrightarrow> n = 0"
  by (simp add: word_unat_eq_iff unat_of_nat)

lemma lock_queue_append:
  assumes q: "lock_queue s q" and h: "h < 128" "pc s h = Outside"
    and p: "p = Spinning (ucast (next_ticket (lk s))) \<or> (p = Holding \<and> q = [])"
  shows "lock_queue (s\<lparr>lk := (lk s)\<lparr>next_ticket := next_ticket (lk s) + 1\<rparr>, pc := (pc s)(h := p)\<rparr>)
    (q @ [h])"
proof -
  have nh: "h \<notin> set q" using q h(2) by (auto simp: lock_queue_def)
  have "p \<noteq> Outside" using p by auto
  moreover have "q ! i \<noteq> h" if "i < length q" for i using nh that by (metis nth_mem)
  ultimately show ?thesis
    using q h p nh by (auto simp: lock_queue_def nth_append less_Suc_eq add.assoc add.commute)
qed

lemma lock_step_queue:
  assumes "lock_step s t" "lock_queue s q"
  shows "\<exists>q'. lock_queue t q'"
  using assms(1)
proof (cases rule: lock_step.cases)
  case (take_ticket h tk l)
  then show ?thesis
    using lock_queue_append [OF assms(2), of h "Spinning tk"] by (auto simp: spin_lock_take_eq)
next
  case (acquire h tk)
  then have hq: "h \<in> set q" using assms(2) by (auto simp: lock_queue_def)
  then obtain i where i: "i < length q" "q ! i = h" by (auto simp: in_set_conv_nth)
  then have "tk = ucast (owner (lk s) + of_nat i)"
    using assms(2) acquire(2) by (auto simp: lock_queue_def)
  then have "of_nat i = (0 :: u16)" using acquire(3) by (auto simp: spin_lock_got_eq)
  then have "i = 0"
    using of_nat_u16_zero [of i] i lock_queue_length [OF assms(2)] by simp
  then have "lock_queue t q"
    using assms(2) acquire i hq by (auto simp: lock_queue_def nth_eq_iff_index_eq)
  then show ?thesis ..
next
  case (try_acquire h l)
  then have "owner (lk s) = next_ticket (lk s)" by (auto simp: spin_trylock_eq split: if_splits)
  then have "of_nat (length q) = (0 :: u16)" using assms(2) by (auto simp: lock_queue_def)
  then have "q = []"
    using of_nat_u16_zero [of "length q"] lock_queue_length [OF assms(2)] by simp
  then show ?thesis
    using lock_queue_append [OF assms(2), of h Holding] try_acquire
    by (auto simp: spin_trylock_eq split: if_splits)
next
  case (release h)
  then have "h \<in> set q" using assms(2) by (auto simp: lock_queue_def)
  then obtain i where i: "i < length q" "q ! i = h" by (auto simp: in_set_conv_nth)
  then have "i = 0" using assms(2) release(2) by (auto simp: lock_queue_def)
  then obtain q' where q': "q = h # q'" using i by (cases q) auto
  have "lock_queue t q'"
    unfolding lock_queue_def
  proof (intro conjI allI impI)
    show "distinct q'" "set q' \<subseteq> {..<128}" using assms(2) q' by (auto simp: lock_queue_def)
    show "(k \<in> set q') = (pc t k \<noteq> Outside)" for k
      using assms(2) q' release by (auto simp: lock_queue_def)
    show "next_ticket (lk t) = owner (lk t) + of_nat (length q')"
      using assms(2) q' release by (simp add: lock_queue_def spin_unlock_def)
    fix j
    assume j: "j < length q'"
    then have "q' ! j \<noteq> h" using assms(2) q' by (auto simp: lock_queue_def)
    then have pj: "pc t (q' ! j) = pc s (q ! Suc j)" "Suc j < length q"
      using release q' j by auto
    show "tk = ucast (owner (lk t) + of_nat j)" if "pc t (q' ! j) = Spinning tk" for tk
    proof -
      have "tk = ucast (owner (lk s) + of_nat (Suc j))"
        using assms(2) pj that unfolding lock_queue_def by metis
      then show ?thesis using release by (simp add: spin_unlock_def add.assoc)
    qed
    show "j = 0" if "pc t (q' ! j) = Holding"
      using assms(2) pj that unfolding lock_queue_def by (metis nat.simps(3))
  qed
  then show ?thesis ..
qed

lemma lock_reachable_queue: "lock_reachable s \<Longrightarrow> \<exists>q. lock_queue s q"
proof (induction rule: lock_reachable.induct)
  case lock_start
  have "lock_queue lock_init []" by (simp add: lock_queue_def lock_init_def)
  then show ?case ..
qed (blast intro: lock_step_queue)

text \<open>C26. In every state the harts of the platform can reach on one ticket lock, at most one hart
  is inside the critical section, although the 16 bit ticket counters wrap around.\<close>

theorem ticket_lock_mutual_exclusion:
  assumes "lock_reachable s" "pc s h = Holding" "pc s k = Holding"
  shows "h = k"
proof -
  obtain q where q: "lock_queue s q" using lock_reachable_queue assms(1) by blast
  have "j \<in> set q \<Longrightarrow> pc s j = Holding \<Longrightarrow> j = q ! 0" for j
    using q unfolding lock_queue_def by (metis in_set_conv_nth)
  then show ?thesis using q assms(2,3) unfolding lock_queue_def by (metis lock_pc.distinct(3))
qed

definition lock_example :: lock_sys where
  "lock_example = \<lparr>lk = \<lparr>owner = 0, next_ticket = 1\<rparr>, pc = (\<lambda>_. Outside)(3 := Holding)\<rparr>"

lemma lock_example_reachable: "lock_reachable lock_example"
proof -
  have "spin_trylock (lk lock_init) = (True, \<lparr>owner = 0, next_ticket = 1\<rparr>)"
    by (simp add: spin_trylock_eq lock_init_def)
  from lock_step.try_acquire [of 3 lock_init, OF _ _ this]
  have "lock_step lock_init lock_example" by (simp add: lock_init_def lock_example_def)
  then show ?thesis by (rule lock_more [OF lock_start])
qed

theorem ticket_lock_mutual_exclusion_witness:
  "lock_reachable lock_example \<and> pc lock_example 3 = Holding \<and> (3 :: nat) = 3"
  using lock_example_reachable ticket_lock_mutual_exclusion [OF lock_example_reachable, of 3 3]
  by (simp add: lock_example_def)

text \<open>C27. The lock is never lost: whenever some hart spins and no hart holds the lock, there is a
  spinning hart whose ticket is the one being served, so it leaves its loop at its next read.\<close>

theorem ticket_lock_served:
  assumes "lock_reachable s" "pc s h = Spinning t" "\<And>k. pc s k \<noteq> Holding"
  shows "\<exists>k u. pc s k = Spinning u \<and> spin_lock_got u (lk s)"
proof -
  obtain q where q: "lock_queue s q" using lock_reachable_queue assms(1) by blast
  then have "h \<in> set q" using assms(2) by (simp add: lock_queue_def)
  then have l: "0 < length q" by (cases q) auto
  then have "pc s (q ! 0) \<noteq> Outside" using q nth_mem [OF l] unfolding lock_queue_def by blast
  then obtain u where u: "pc s (q ! 0) = Spinning u" using assms(3) by (cases "pc s (q ! 0)") auto
  then have "u = ucast (owner (lk s) + of_nat 0)" using q l unfolding lock_queue_def by blast
  then have "spin_lock_got u (lk s)" by (simp add: spin_lock_got_eq)
  with u show ?thesis by blast
qed

definition lock_example2 :: lock_sys where
  "lock_example2 = \<lparr>lk = \<lparr>owner = 0, next_ticket = 1\<rparr>, pc = (\<lambda>_. Outside)(5 := Spinning 0)\<rparr>"

lemma lock_example2_reachable: "lock_reachable lock_example2"
proof -
  have "spin_lock_take (lk lock_init) = (0, \<lparr>owner = 0, next_ticket = 1\<rparr>)"
    by (simp add: spin_lock_take_eq lock_init_def)
  from lock_step.take_ticket [of 5 lock_init, OF _ _ this]
  have "lock_step lock_init lock_example2" by (simp add: lock_init_def lock_example2_def)
  then show ?thesis by (rule lock_more [OF lock_start])
qed

theorem ticket_lock_served_witness:
  "pc lock_example2 5 = Spinning 0 \<and> (\<forall>k. pc lock_example2 k \<noteq> Holding) \<and>
   (\<exists>k u. pc lock_example2 k = Spinning u \<and> spin_lock_got u (lk lock_example2))"
  using ticket_lock_served [OF lock_example2_reachable, of 5 0]
  by (simp add: lock_example2_def)

end
