(* ===== verification/Sbi_String.thy ===== *)
theory Sbi_String
  imports Sbi_Prelude
begin

text \<open>
  \<^verbatim>\<open>lib/sbi/sbi_string.c\<close>. A pointer into an object is the list of the bytes from there to the
  end of the object; a read past the end is \<open>None\<close>. \<^verbatim>\<open>char\<close> is unsigned on RISC-V. The
  functions that write return the new content of the destination; \<open>memmove\<close> and \<open>memcpy\<close> work
  on one memory with two offsets, so that overlapping ranges are part of the model.
\<close>

section \<open>Strings\<close>

fun sbi_strcmp :: "u8 list \<Rightarrow> u8 list \<Rightarrow> int option" where
  "sbi_strcmp (x # xs) (y # ys) =
     (if x = y \<and> x \<noteq> 0 then sbi_strcmp xs ys else Some (uint x - uint y))"
| "sbi_strcmp _ _ = None"

fun sbi_strncmp :: "u8 list \<Rightarrow> u8 list \<Rightarrow> nat \<Rightarrow> int option" where
  "sbi_strncmp xs ys 0 = Some 0"
| "sbi_strncmp (x # xs) (y # ys) (Suc n) =
     (if x = y \<and> x \<noteq> 0 then sbi_strncmp xs ys n else Some (uint x - uint y))"
| "sbi_strncmp _ _ (Suc n) = None"

fun sbi_strlen :: "u8 list \<Rightarrow> nat option" where
  "sbi_strlen [] = None"
| "sbi_strlen (x # xs) = (if x \<noteq> 0 then map_option Suc (sbi_strlen xs) else Some 0)"

fun strnlen_loop :: "u8 list \<Rightarrow> nat \<Rightarrow> nat \<Rightarrow> nat option" where
  "strnlen_loop [] ret count = None"
| "strnlen_loop (x # xs) ret count =
     (if x \<noteq> 0 \<and> ret < count then strnlen_loop xs (ret + 1) (count - 1) else Some ret)"

definition sbi_strnlen :: "u8 list \<Rightarrow> nat \<Rightarrow> nat option" where
  "sbi_strnlen str count = strnlen_loop str 0 count"

fun sbi_strcpy :: "u8 list \<Rightarrow> u8 list \<Rightarrow> u8 list option" where
  "sbi_strcpy dest [] = None"
| "sbi_strcpy dest (x # xs) =
     (if x \<noteq> 0 then
        (case dest of [] \<Rightarrow> None | d # ds \<Rightarrow> map_option ((#) x) (sbi_strcpy ds xs))
      else Some dest)"

fun sbi_strncpy :: "u8 list \<Rightarrow> u8 list \<Rightarrow> nat \<Rightarrow> u8 list option" where
  "sbi_strncpy dest src 0 = Some dest"
| "sbi_strncpy dest [] (Suc n) = None"
| "sbi_strncpy dest (x # xs) (Suc n) =
     (if x \<noteq> 0 then
        (case dest of [] \<Rightarrow> None | d # ds \<Rightarrow> map_option ((#) x) (sbi_strncpy ds xs n))
      else Some dest)"

text \<open>The result of a search is the offset found, or \<open>None\<close> inside for a NULL result.\<close>

fun sbi_strchr :: "u8 list \<Rightarrow> u8 \<Rightarrow> nat option option" where
  "sbi_strchr [] c = None"
| "sbi_strchr (x # xs) c =
     (if x \<noteq> 0 \<and> x \<noteq> c then map_option (map_option Suc) (sbi_strchr xs c)
      else if x = 0 then Some None else Some (Some 0))"

fun strrchr_loop :: "u8 list \<Rightarrow> u8 \<Rightarrow> nat \<Rightarrow> nat" where
  "strrchr_loop s c 0 = 0"
| "strrchr_loop s c (Suc lst) = (if s ! Suc lst \<noteq> c then strrchr_loop s c lst else Suc lst)"

definition sbi_strrchr :: "u8 list \<Rightarrow> u8 \<Rightarrow> nat option option" where
  "sbi_strrchr s c = (case sbi_strlen s of None \<Rightarrow> None
     | Some n \<Rightarrow> (let lst = strrchr_loop s c n
                  in Some (if s ! lst \<noteq> c then None else Some lst)))"

section \<open>Memory blocks\<close>

fun sbi_memset :: "u8 list \<Rightarrow> u8 \<Rightarrow> nat \<Rightarrow> u8 list" where
  "sbi_memset s c 0 = s"
| "sbi_memset s c (Suc count) = (case s of [] \<Rightarrow> [] | x # xs \<Rightarrow> c # sbi_memset xs c count)"

fun copy_up :: "u8 list \<Rightarrow> nat \<Rightarrow> nat \<Rightarrow> nat \<Rightarrow> u8 list" where
  "copy_up mem d s 0 = mem"
| "copy_up mem d s (Suc count) = copy_up (mem[d := mem ! s]) (d + 1) (s + 1) count"

fun copy_down :: "u8 list \<Rightarrow> nat \<Rightarrow> nat \<Rightarrow> nat \<Rightarrow> u8 list" where
  "copy_down mem d s 0 = mem"
| "copy_down mem d s (Suc count) = copy_down (mem[d + count := mem ! (s + count)]) d s count"

definition sbi_memcpy :: "u8 list \<Rightarrow> nat \<Rightarrow> nat \<Rightarrow> nat \<Rightarrow> u8 list" where
  "sbi_memcpy mem dest src count = copy_up mem dest src count"

definition sbi_memmove :: "u8 list \<Rightarrow> nat \<Rightarrow> nat \<Rightarrow> nat \<Rightarrow> u8 list" where
  "sbi_memmove mem dest src count =
     (if src = dest then mem
      else if dest < src then copy_up mem dest src count
      else copy_down mem dest src count)"

fun sbi_memcmp :: "u8 list \<Rightarrow> u8 list \<Rightarrow> nat \<Rightarrow> int option" where
  "sbi_memcmp _ _ 0 = Some 0"
| "sbi_memcmp (x # xs) (y # ys) (Suc n) =
     (if x = y then sbi_memcmp xs ys n else Some (uint x - uint y))"
| "sbi_memcmp _ _ (Suc n) = None"

fun sbi_memchr :: "u8 list \<Rightarrow> u8 \<Rightarrow> nat \<Rightarrow> nat option option" where
  "sbi_memchr s c 0 = Some None"
| "sbi_memchr [] c (Suc n) = None"
| "sbi_memchr (x # xs) c (Suc n) =
     (if c = x then Some (Some 0) else map_option (map_option Suc) (sbi_memchr xs c n))"

section \<open>Facts about strings\<close>

lemma strlen_spec: "0 \<notin> set a \<Longrightarrow> sbi_strlen (a @ 0 # r) = Some (length a)"
  by (induction a) auto

lemma strcmp_spec:
  "0 \<notin> set a \<Longrightarrow> 0 \<notin> set b \<Longrightarrow>
   \<exists>d. sbi_strcmp (a @ 0 # r) (b @ 0 # r') = Some d \<and> (d = 0 \<longleftrightarrow> a = b)"
proof (induction a arbitrary: b)
  case Nil
  then show ?case by (cases b) (auto simp: word_uint_eq_iff)
next
  case (Cons x a)
  then show ?case by (cases b) (auto simp: word_uint_eq_iff)
qed

lemma strncmp_spec:
  "0 \<notin> set a \<Longrightarrow> 0 \<notin> set b \<Longrightarrow>
   \<exists>d. sbi_strncmp (a @ 0 # r) (b @ 0 # r') n = Some d \<and> (d = 0 \<longleftrightarrow> take n a = take n b)"
proof (induction a arbitrary: b n)
  case Nil
  then show ?case by (cases b; cases n) (auto simp: word_uint_eq_iff)
next
  case (Cons x a)
  then show ?case by (cases b; cases n) (auto simp: word_uint_eq_iff)
qed

lemma strnlen_loop_spec:
  "0 \<notin> set a \<Longrightarrow>
   strnlen_loop (a @ 0 # r) ret count = Some (ret + min (length a) ((count - ret + 1) div 2))"
proof (induction a arbitrary: ret count)
  case (Cons x a)
  show ?case
  proof (cases "ret < count")
    case True
    then have "(count - ret + 1) div 2 = Suc ((count - 1 - (ret + 1) + 1) div 2)"
      by (cases "count - ret = 1") auto
    then show ?thesis using True Cons by simp
  qed (use Cons in simp)
qed simp

lemma strcpy_spec:
  "0 \<notin> set a \<Longrightarrow> length a \<le> length dest \<Longrightarrow>
   sbi_strcpy dest (a @ 0 # r) = Some (a @ drop (length a) dest)"
proof (induction a arbitrary: dest)
  case (Cons x a)
  then show ?case by (cases dest) auto
qed simp

lemma strncpy_spec:
  "0 \<notin> set a \<Longrightarrow> min n (length a) \<le> length dest \<Longrightarrow>
   sbi_strncpy dest (a @ 0 # r) n = Some (take n a @ drop (min n (length a)) dest)"
proof (induction a arbitrary: dest n)
  case Nil
  then show ?case by (cases n) auto
next
  case (Cons x a)
  then show ?case by (cases dest; cases n) auto
qed

lemma strchr_spec:
  "0 \<notin> set a \<Longrightarrow> c \<noteq> 0 \<Longrightarrow>
   sbi_strchr (a @ 0 # r) c = Some (if c \<in> set a then Some (length (takeWhile (\<lambda>x. x \<noteq> c) a)) else None)"
  by (induction a) auto

lemma strrchr_loop_spec:
  "strrchr_loop s c n \<le> n \<and> (\<forall>i. strrchr_loop s c n < i \<and> i \<le> n \<longrightarrow> s ! i \<noteq> c)
   \<and> (strrchr_loop s c n \<noteq> 0 \<longrightarrow> s ! strrchr_loop s c n = c)"
  by (induction n) (auto simp: le_Suc_eq)

section \<open>Facts about memory blocks\<close>

lemma memset_spec: "n \<le> length s \<Longrightarrow> sbi_memset s c n = replicate n c @ drop n s"
proof (induction n arbitrary: s)
  case (Suc n)
  then show ?case by (cases s) auto
qed simp

lemma length_copy [simp]:
  "length (copy_up mem d s n) = length mem" "length (copy_down mem d s n) = length mem"
  by (induction n arbitrary: mem d s) auto

lemma copy_up_nth:
  assumes "d \<le> s \<or> s + n \<le> d" "d + n \<le> length mem" "s + n \<le> length mem" "i < length mem"
  shows "copy_up mem d s n ! i = (if d \<le> i \<and> i < d + n then mem ! (s + (i - d)) else mem ! i)"
  using assms
proof (induction n arbitrary: mem d s)
  case (Suc n)
  let ?m = "mem[d := mem ! s]"
  have d: "d < length mem" using Suc.prems by simp
  have "copy_up ?m (d + 1) (s + 1) n ! i
      = (if d + 1 \<le> i \<and> i < d + 1 + n then ?m ! (s + 1 + (i - (d + 1))) else ?m ! i)"
    using Suc.prems by (intro Suc.IH) auto
  moreover have "d + 1 \<le> i \<Longrightarrow> i < d + 1 + n \<Longrightarrow> ?m ! (s + 1 + (i - (d + 1))) = mem ! (s + (i - d))"
  proof -
    assume i: "d + 1 \<le> i" "i < d + 1 + n"
    then have "s + 1 + (i - (d + 1)) = s + (i - d)" "s + (i - d) \<noteq> d" using Suc.prems by auto
    then show "?m ! (s + 1 + (i - (d + 1))) = mem ! (s + (i - d))" by (simp only: nth_list_update_neq)
  qed
  ultimately show ?case
    using Suc.prems d by (auto simp: nth_list_update)
qed auto

lemma copy_down_nth:
  assumes "s \<le> d" "d + n \<le> length mem" "i < length mem"
  shows "copy_down mem d s n ! i = (if d \<le> i \<and> i < d + n then mem ! (s + (i - d)) else mem ! i)"
  using assms
proof (induction n arbitrary: mem)
  case (Suc n)
  let ?m = "mem[d + n := mem ! (s + n)]"
  have "copy_down ?m d s n ! i = (if d \<le> i \<and> i < d + n then ?m ! (s + (i - d)) else ?m ! i)"
    using Suc.prems by (intro Suc.IH) auto
  then show ?case using Suc.prems by (auto simp: nth_list_update)
qed auto

lemma memcmp_spec:
  "n \<le> length a \<Longrightarrow> n \<le> length b \<Longrightarrow>
   \<exists>d. sbi_memcmp a b n = Some d \<and> (d = 0 \<longleftrightarrow> take n a = take n b)"
proof (induction n arbitrary: a b)
  case (Suc n)
  then show ?case by (cases a; cases b) (auto simp: word_uint_eq_iff)
qed simp

text \<open>C38. \<^verbatim>\<open>sbi_memmove\<close> moves a range of memory to another place even where the two overlap:
  afterwards each byte of the destination range is the byte the source range held before, and
  every other byte is unchanged.\<close>

theorem memmove_correct:
  assumes "dest + n \<le> length mem" "src + n \<le> length mem"
  shows "length (sbi_memmove mem dest src n) = length mem \<and>
    (\<forall>i<length mem. sbi_memmove mem dest src n ! i
       = (if dest \<le> i \<and> i < dest + n then mem ! (src + (i - dest)) else mem ! i))"
  using assms by (auto simp: sbi_memmove_def copy_up_nth copy_down_nth)

theorem memmove_correct_witness:
  "sbi_memmove [1, 2, 3, 4, 5] 1 0 3 ! 3 = (3 :: u8)"
  using memmove_correct [of 1 3 "[1, 2, 3, 4, 5]" 0] by simp

text \<open>\<^verbatim>\<open>sbi_strnlen\<close> counts down its bound while it counts up its result, so on every
  terminated string it returns the smaller of the length and half the bound, rounded up.\<close>

theorem strnlen_halves_bound:
  assumes "0 \<notin> set a"
  shows "sbi_strnlen (a @ 0 # r) count = Some (min (length a) ((count + 1) div 2))"
  using strnlen_loop_spec [OF assms] by (simp add: sbi_strnlen_def)

theorem strnlen_halves_bound_witness:
  "sbi_strnlen [104, 101, 108, 108, 111, 0] 4 = Some 2"
  using strnlen_halves_bound [of "[104, 101, 108, 108, 111]" "[]" 4] by simp

text \<open>\<^verbatim>\<open>sbi_strcpy\<close> copies the characters of the source but not its terminator: what follows
  them in the destination is what was there before.\<close>

theorem strcpy_unterminated:
  assumes "0 \<notin> set a" "length a \<le> length dest"
  shows "sbi_strcpy dest (a @ 0 # r) = Some (a @ drop (length a) dest)"
  using assms by (rule strcpy_spec)

theorem strcpy_unterminated_witness:
  "sbi_strcpy [120, 120, 120, 120, 0] [97, 98, 0] = Some [97, 98, 120, 120, 0]"
  using strcpy_unterminated [of "[97, 98]" "[120, 120, 120, 120, 0]" "[]"] by simp

end
