(* ===== verification/Sbi_Bitops.thy ===== *)
theory Sbi_Bitops
  imports Sbi_Prelude
begin

text \<open>
  \<^verbatim>\<open>include/sbi/sbi_bitops.h\<close>, \<^verbatim>\<open>lib/sbi/sbi_bitops.c\<close> and \<^verbatim>\<open>lib/sbi/sbi_math.c\<close>: bit scans of one
  word by halving, the searches over a bitmap that go word by word, and the single bit
  operations. A bitmap is the list of its 64 bit words. Every search is shown equal to the
  first (last) index of the range whose bit is set (clear), and the iteration macros to the
  list of all of them, in order.
\<close>

section \<open>Bits of a bitmap\<close>

definition bm_bit :: "ulong list \<Rightarrow> nat \<Rightarrow> bool" where
  "bm_bit addr i = bit (addr ! (i div 64)) (i mod 64)"

definition BITS_TO_LONGS :: "nat \<Rightarrow> nat" where
  "BITS_TO_LONGS nbits = (nbits + 64 - 1) div 64"

definition next_such :: "(nat \<Rightarrow> bool) \<Rightarrow> nat \<Rightarrow> nat \<Rightarrow> nat" where
  "next_such P off sz = (case filter P [off..<sz] of [] \<Rightarrow> sz | i # _ \<Rightarrow> i)"

lemma next_suchI:
  assumes "r \<le> sz" "off \<le> r \<or> r = sz" "r < sz \<Longrightarrow> P r"
    "\<And>i. off \<le> i \<Longrightarrow> i < r \<Longrightarrow> \<not> P i"
  shows "next_such P off sz = r"
proof (cases "r < sz")
  case True
  then have "filter P [off..<sz] = r # filter P [Suc r..<sz]"
    using assms by (intro upt_filter_least) auto
  then show ?thesis by (simp add: next_such_def)
next
  case False
  then have "filter P [off..<sz] = []"
    using assms by (intro upt_filter_none) auto
  with False assms(1) show ?thesis by (simp add: next_such_def)
qed

lemma next_such_skip:
  assumes "\<And>i. off \<le> i \<Longrightarrow> i < off' \<Longrightarrow> \<not> P i" "off \<le> off'" "off' \<le> sz"
  shows "next_such P off sz = next_such P off' sz"
proof -
  have "[off..<sz] = [off..<off'] @ [off'..<sz]"
    using assms(2,3) by (metis le_add_diff_inverse upt_add_eq_append)
  then show ?thesis
    using upt_filter_none [of off off' P] assms(1) by (simp add: next_such_def)
qed

lemma next_such_ge: "off \<le> next_such P off sz \<or> next_such P off sz = sz"
proof (cases "filter P [off..<sz]")
  case (Cons i js)
  then have "i \<in> set [off..<sz]" by (metis filter_is_subset list.set_intros(1) subsetD)
  with Cons show ?thesis by (simp add: next_such_def)
qed (simp add: next_such_def)

section \<open>Scanning one word\<close>

fun ffs_step :: "ulong \<Rightarrow> nat \<Rightarrow> nat \<times> ulong \<Rightarrow> nat \<times> ulong" where
  "ffs_step m k (num, word) =
     (if word AND m = 0 then (num + k, drop_bit k word) else (num, word))"

definition ffs_word :: "ulong \<Rightarrow> nat" where
  "ffs_word word =
     fst (ffs_step 0x1 1 (ffs_step 0x3 2 (ffs_step 0xf 4
       (ffs_step 0xff 8 (ffs_step 0xffff 16 (ffs_step 0xffffffff 32 (0, word)))))))"

definition ffz :: "ulong \<Rightarrow> nat" where
  "ffz x = ffs_word (NOT x)"

fun fls_step :: "ulong \<Rightarrow> nat \<Rightarrow> nat \<times> ulong \<Rightarrow> nat \<times> ulong" where
  "fls_step m k (num, word) =
     (if word AND m = 0 then (num - k, push_bit k word) else (num, word))"

definition fls_word :: "ulong \<Rightarrow> nat" where
  "fls_word word =
     fst (fls_step (push_bit 63 (NOT 0)) 1 (fls_step (push_bit 62 (NOT 0)) 2
       (fls_step (push_bit 60 (NOT 0)) 4 (fls_step (push_bit 56 (NOT 0)) 8
       (fls_step (push_bit 48 (NOT 0)) 16 (fls_step (push_bit 32 (NOT 0)) 32 (63, word)))))))"

text \<open>
  The invariant of the halving: what is left of the word is the input shifted down by the bits
  already known to be clear, and its lowest \<open>n\<close> bits hold a set bit.
\<close>

fun ffs_inv :: "ulong \<Rightarrow> nat \<Rightarrow> nat \<times> ulong \<Rightarrow> bool" where
  "ffs_inv w0 n (num, w) \<longleftrightarrow>
     (\<forall>i. bit w i = bit w0 (num + i)) \<and> (\<forall>i<num. \<not> bit w0 i) \<and> (\<exists>i<n. bit w i)"

lemma and_mask_zero_iff:
  "m = mask k \<Longrightarrow> (w :: ulong) AND m = 0 \<longleftrightarrow> (\<forall>i<k. \<not> bit w i)"
  by (simp add: take_bit_zero_iff_bits flip: take_bit_eq_mask)

lemma ffs_step_inv:
  assumes inv: "ffs_inv w0 n st" and n: "n = k + k" and m: "m = mask k"
  shows "ffs_inv w0 k (ffs_step m k st)"
proof -
  obtain num w where st: "st = (num, w)" by (cases st)
  have sh: "bit w i = bit w0 (num + i)" and lo: "i < num \<Longrightarrow> \<not> bit w0 i" for i
    using inv st by auto
  obtain j where j: "j < k + k" "bit w j" using inv n st by auto
  show ?thesis
  proof (cases "w AND m = 0")
    case True
    then have low: "i < k \<Longrightarrow> \<not> bit w i" for i using and_mask_zero_iff [OF m] by blast
    have "k \<le> j" using low j by (meson not_le)
    then have "j - k < k" "bit (drop_bit k w) (j - k)" using j by (auto simp: bit_drop_bit_eq)
    moreover have "\<not> bit w0 i" if "i < num + k" for i
      using low [of "i - num"] lo [of i] sh [of "i - num"] that by (cases "i < num") auto
    moreover have "bit (drop_bit k w) i = bit w0 (num + k + i)" for i
      by (simp add: bit_drop_bit_eq sh add.assoc)
    ultimately show ?thesis using True st by auto
  next
    case False
    then have "\<exists>i<k. bit w i" using and_mask_zero_iff [OF m] by blast
    then show ?thesis using False st sh lo by auto
  qed
qed

lemma ffs_inv_0: "w0 \<noteq> 0 \<Longrightarrow> ffs_inv w0 64 (0, w0)"
  using word_zero_iff_bits [of w0] word64_bit_less by auto

lemma ffs_word_inv:
  assumes "w \<noteq> 0"
  shows "\<exists>v. ffs_inv w 1 (ffs_word w, v)"
proof -
  note step = ffs_step_inv [where ?w0.0 = w]
  have 1: "ffs_inv w 32 (ffs_step 0xffffffff 32 (0, w))"
    by (rule step [OF ffs_inv_0 [OF assms]]) (simp_all add: mask_eq_exp_minus_1)
  have 2: "ffs_inv w 16 (ffs_step 0xffff 16 (ffs_step 0xffffffff 32 (0, w)))"
    by (rule step [OF 1]) (simp_all add: mask_eq_exp_minus_1)
  note 3 = step [OF 2, of 8 "0xff"] and 4 = step [where k = 4 and m = "0xf" and n = 8]
    and 5 = step [where k = 2 and m = "0x3" and n = 4]
    and 6 = step [where k = 1 and m = "0x1" and n = 2]
  have "ffs_inv w 1 (ffs_step 0x1 1 (ffs_step 0x3 2 (ffs_step 0xf 4
       (ffs_step 0xff 8 (ffs_step 0xffff 16 (ffs_step 0xffffffff 32 (0, w)))))))"
    by (rule 6 [OF 5 [OF 4 [OF 3]]]) (simp_all add: mask_eq_exp_minus_1)
  then show ?thesis unfolding ffs_word_def by (metis prod.collapse)
qed

lemma ffs_word_bit: "w \<noteq> 0 \<Longrightarrow> bit w (ffs_word w)"
  using ffs_word_inv [of w] by auto

lemma ffs_word_below: "w \<noteq> 0 \<Longrightarrow> i < ffs_word w \<Longrightarrow> \<not> bit w i"
  using ffs_word_inv [of w] by auto

lemma ffs_word_less: "w \<noteq> 0 \<Longrightarrow> ffs_word w < 64"
  using ffs_word_bit word64_bit_less by blast

lemma ffz_bit: "w \<noteq> NOT 0 \<Longrightarrow> \<not> bit w (ffz w)"
  and ffz_below: "w \<noteq> NOT 0 \<Longrightarrow> i < ffz w \<Longrightarrow> bit w i"
  and ffz_less: "w \<noteq> NOT 0 \<Longrightarrow> ffz w < 64"
proof -
  assume "w \<noteq> NOT 0"
  then have nz: "NOT w \<noteq> 0" by (metis bit.double_compl)
  show l: "ffz w < 64" using ffs_word_less [OF nz] by (simp add: ffz_def)
  show "\<not> bit w (ffz w)" using ffs_word_bit [OF nz] by (simp add: ffz_def bit_not_iff)
  show "bit w i" if "i < ffz w"
    using ffs_word_below [OF nz] that l by (simp add: ffz_def bit_not_iff)
qed


section \<open>The last set bit of a word\<close>

fun fls_inv :: "ulong \<Rightarrow> nat \<Rightarrow> nat \<times> ulong \<Rightarrow> bool" where
  "fls_inv w0 n (num, w) \<longleftrightarrow>
     num < 64 \<and> w = push_bit (63 - num) w0 \<and> (\<forall>i>num. \<not> bit w0 i) \<and>
     (\<exists>i. 64 - n \<le> i \<and> bit w i)"

lemma and_top_zero_iff:
  assumes "k \<le> 64"
  shows "(w :: ulong) AND push_bit (64 - k) (NOT 0) = 0 \<longleftrightarrow> (\<forall>i\<ge>64 - k. \<not> bit w i)"
proof -
  have "bit (push_bit (64 - k) (NOT 0) :: ulong) i \<longleftrightarrow> 64 - k \<le> i \<and> i < 64" for i
    by (rule bit_high_mask)
  then have "w AND push_bit (64 - k) (NOT 0) = 0 \<longleftrightarrow> (\<forall>i. \<not> (bit w i \<and> 64 - k \<le> i \<and> i < 64))"
    by (simp only: word_zero_iff_bits bit_and_iff)
  then show ?thesis using word64_bit_less [of w] by blast
qed

lemma fls_step_inv:
  assumes inv: "fls_inv w0 n st" and n: "n = k + k" "0 < k" "n \<le> 64"
    and m: "m = push_bit (64 - k) (NOT 0)"
  shows "fls_inv w0 k (fls_step m k st)"
proof -
  obtain num w where st: "st = (num, w)" by (cases st)
  have w: "num < 64" "w = push_bit (63 - num) w0" and hi: "num < i \<Longrightarrow> \<not> bit w0 i" for i
    using inv st by auto
  obtain j where j: "64 - n \<le> j" "bit w j" using inv st by auto
  then have jw: "63 - num \<le> j" "bit w0 (j - (63 - num))" "j < 64"
    using w word64_bit_less [OF j(2)] by (auto simp: bit_push_bit_iff)
  show ?thesis
  proof (cases "w AND m = 0")
    case True
    then have top: "64 - k \<le> i \<Longrightarrow> \<not> bit w i" for i
      using and_top_zero_iff [of k w] m n by auto
    then have jk: "j < 64 - k" using j(2) by (meson not_le)
    then have kn: "k \<le> num" using jw n j by linarith
    have "\<not> bit w0 i" if "num - k < i" for i
    proof (cases "num < i")
      case False
      then have "bit w (i + (63 - num)) = bit w0 i"
        using w by (auto simp: bit_push_bit_iff)
      moreover have "64 - k \<le> i + (63 - num)" using that False kn w by linarith
      ultimately show ?thesis using top by blast
    qed (rule hi)
    moreover have "bit (push_bit k w) (j + k)" "64 - k \<le> j + k"
      using j jk n by (auto simp: bit_push_bit_iff)
    moreover have "push_bit k w = push_bit (63 - (num - k)) w0"
      using w kn by (simp add: push_bit_push_bit add.commute)
    ultimately show ?thesis using True st w by auto
  next
    case False
    then obtain i where "64 - k \<le> i" "bit w i" using and_top_zero_iff [of k w] m n by auto
    then show ?thesis using False st w hi by auto
  qed
qed

lemma fls_word_inv:
  assumes "w \<noteq> 0"
  shows "\<exists>v. fls_inv w 1 (fls_word w, v)"
proof -
  note step = fls_step_inv [where ?w0.0 = w]
  have 0: "fls_inv w 64 (63, w)"
    using assms word_zero_iff_bits [of w] by (auto dest: word64_bit_less)
  note 1 = step [OF 0, of 32 "push_bit 32 (NOT 0)"]
    and 2 = step [where k = 16 and n = 32 and m = "push_bit 48 (NOT 0)"]
    and 3 = step [where k = 8 and n = 16 and m = "push_bit 56 (NOT 0)"]
    and 4 = step [where k = 4 and n = 8 and m = "push_bit 60 (NOT 0)"]
    and 5 = step [where k = 2 and n = 4 and m = "push_bit 62 (NOT 0)"]
    and 6 = step [where k = 1 and n = 2 and m = "push_bit 63 (NOT 0)"]
  have "fls_inv w 1 (fls_step (push_bit 63 (NOT 0)) 1 (fls_step (push_bit 62 (NOT 0)) 2
       (fls_step (push_bit 60 (NOT 0)) 4 (fls_step (push_bit 56 (NOT 0)) 8
       (fls_step (push_bit 48 (NOT 0)) 16 (fls_step (push_bit 32 (NOT 0)) 32 (63, w)))))))"
    by (rule 6 [OF 5 [OF 4 [OF 3 [OF 2 [OF 1]]]]]) simp_all
  then show ?thesis unfolding fls_word_def by (metis prod.collapse)
qed

lemma fls_word_bit:
  assumes "w \<noteq> 0"
  shows "bit w (fls_word w)"
proof -
  obtain v j where v: "fls_word w < 64" "v = push_bit (63 - fls_word w) w" "63 \<le> j" "bit v j"
    using fls_word_inv [OF assms] by auto
  have "j = 63" using v(3) word64_bit_less [OF v(4)] by simp
  then show ?thesis using v by (simp add: bit_push_bit_iff)
qed

lemma fls_word_above: "w \<noteq> 0 \<Longrightarrow> fls_word w < i \<Longrightarrow> \<not> bit w i"
  using fls_word_inv [of w] by auto

lemma fls_word_less: "w \<noteq> 0 \<Longrightarrow> fls_word w < 64"
  using fls_word_bit word64_bit_less by blast

lemma fls_word_0 [simp]: "fls_word 0 = 0"
  by (simp add: fls_word_def)


section \<open>Searching a bitmap\<close>

definition bm_found_first :: "ulong \<Rightarrow> nat \<Rightarrow> nat \<Rightarrow> nat" where
  "bm_found_first tmp result sz =
     (let tmp = tmp AND drop_bit (64 - sz) (NOT 0)
      in if tmp = 0 then result + sz else result + ffs_word tmp)"

fun bm_find_loop :: "ulong list \<Rightarrow> nat \<Rightarrow> nat \<Rightarrow> nat \<Rightarrow> nat" where
  "bm_find_loop addr p result sz =
     (if 64 \<le> sz then
        if addr ! p \<noteq> 0 then result + ffs_word (addr ! p)
        else bm_find_loop addr (p + 1) (result + 64) (sz - 64)
      else if sz = 0 then result
      else bm_found_first (addr ! p) result sz)"

declare bm_find_loop.simps [simp del]

definition find_first_bit :: "ulong list \<Rightarrow> nat \<Rightarrow> nat" where
  "find_first_bit addr sz = bm_find_loop addr 0 0 sz"

definition find_next_bit :: "ulong list \<Rightarrow> nat \<Rightarrow> nat \<Rightarrow> nat" where
  "find_next_bit addr sz offset =
     (let p = offset div 64; result = 64 * (offset div 64) in
      if sz \<le> offset then sz
      else
        let sz = sz - result; offset = offset mod 64 in
        if offset \<noteq> 0 then
          let tmp = addr ! p AND push_bit offset (NOT 0) in
          if sz < 64 then bm_found_first tmp result sz
          else if tmp \<noteq> 0 then result + ffs_word tmp
          else bm_find_loop addr (p + 1) (result + 64) (sz - 64)
        else bm_find_loop addr p result sz)"

lemma bm_bit_word: "j < 64 \<Longrightarrow> bm_bit addr (64 * p + j) = bit (addr ! p) j"
  by (simp add: bm_bit_def)

lemma bm_bit_in_word:
  "64 * p \<le> i \<Longrightarrow> i < 64 * p + 64 \<Longrightarrow> bm_bit addr i = bit (addr ! p) (i - 64 * p)"
  using bm_bit_word [of "i - 64 * p" addr p] by simp

text \<open>Every exit of the searches is one of two: a masked word that is zero, or its first bit.\<close>

lemma next_such_word:
  assumes w: "\<And>i. i < 64 \<Longrightarrow> bit w i \<longleftrightarrow> bit (addr ! p) i \<and> off \<le> 64 * p + i \<and> 64 * p + i < sz"
    and "w \<noteq> 0" "64 * p \<le> off"
  shows "next_such (bm_bit addr) off sz = 64 * p + ffs_word w"
proof (rule next_suchI)
  let ?r = "ffs_word w"
  have r: "?r < 64" "bit w ?r" using ffs_word_less ffs_word_bit assms(2) by blast+
  then have b: "bit (addr ! p) ?r" "off \<le> 64 * p + ?r" "64 * p + ?r < sz" using w by auto
  show "64 * p + ?r \<le> sz" "off \<le> 64 * p + ?r \<or> 64 * p + ?r = sz" using b by auto
  show "bm_bit addr (64 * p + ?r)" using b r by (simp add: bm_bit_word)
  show "\<not> bm_bit addr i" if "off \<le> i" "i < 64 * p + ?r" for i
  proof -
    have i: "i - 64 * p < ?r" "64 * p + (i - 64 * p) = i" using that assms(3) r by auto
    then have "\<not> bit w (i - 64 * p)" using ffs_word_below [OF assms(2)] by blast
    then have "\<not> bit (addr ! p) (i - 64 * p)" using w [of "i - 64 * p"] i r b that by auto
    then show ?thesis using bm_bit_in_word [of p i addr] i r by auto
  qed
qed

lemma word_clear_range:
  assumes w: "\<And>i. i < 64 \<Longrightarrow> bit w i \<longleftrightarrow> bit (addr ! p) i \<and> off \<le> 64 * p + i \<and> 64 * p + i < sz"
    and "w = 0" "64 * p \<le> off" "off \<le> i" "i < sz" "i < 64 * p + 64"
  shows "\<not> bm_bit addr i"
  using w [of "i - 64 * p"] assms bm_bit_in_word [of p i addr] by auto

lemma bm_found_first_spec:
  assumes w: "\<And>i. i < 64 \<Longrightarrow> bit tmp i \<longleftrightarrow> bit (addr ! p) i \<and> off \<le> 64 * p + i"
    and "s < 64" "0 < s" "64 * p \<le> off" "off < 64 * p + s"
  shows "bm_found_first tmp (64 * p) s = next_such (bm_bit addr) off (64 * p + s)"
proof -
  let ?w = "tmp AND drop_bit (64 - s) (NOT 0)"
  have m: "bit ?w i \<longleftrightarrow> bit (addr ! p) i \<and> off \<le> 64 * p + i \<and> 64 * p + i < 64 * p + s"
    if "i < 64" for i
    using w [OF that] bit_low_mask [OF assms(2,3), of i] by (auto simp: bit_and_iff)
  show ?thesis
  proof (cases "?w = 0")
    case True
    have "next_such (bm_bit addr) off (64 * p + s) = 64 * p + s"
      using word_clear_range [OF m True assms(4)] assms(2) by (intro next_suchI) auto
    with True show ?thesis by (simp add: bm_found_first_def)
  next
    case False
    then show ?thesis
      using next_such_word [OF m False assms(4)] by (simp add: bm_found_first_def Let_def)
  qed
qed

lemma bm_find_loop_spec:
  "bm_find_loop addr p (64 * p) sz = next_such (bm_bit addr) (64 * p) (64 * p + sz)"
proof (induction sz arbitrary: p rule: less_induct)
  case (less sz)
  show ?case
  proof (cases "64 \<le> sz")
    case True
    have w: "bit (addr ! p) i \<longleftrightarrow> bit (addr ! p) i \<and> 64 * p \<le> 64 * p + i \<and> 64 * p + i < 64 * p + sz"
      if "i < 64" for i using that True by auto
    show ?thesis
    proof (cases "addr ! p = 0")
      case z: True
      have "next_such (bm_bit addr) (64 * p) (64 * p + sz)
          = next_such (bm_bit addr) (64 * p + 64) (64 * p + sz)"
        using word_clear_range [OF w z] True by (intro next_such_skip) auto
      moreover have "bm_find_loop addr (p + 1) (64 * (p + 1)) (sz - 64)
          = next_such (bm_bit addr) (64 * (p + 1)) (64 * (p + 1) + (sz - 64))"
        using True by (intro less.IH) simp
      ultimately show ?thesis
        using True z by (subst bm_find_loop.simps) (simp add: algebra_simps)
    next
      case False
      then show ?thesis
        using True next_such_word [OF w False] by (subst bm_find_loop.simps) simp
    qed
  next
    case False
    show ?thesis
    proof (cases "sz = 0")
      case True
      then show ?thesis by (subst bm_find_loop.simps) (simp add: next_such_def)
    next
      case nz: False
      then show ?thesis
        using False bm_found_first_spec [of "addr ! p" addr p "64 * p" sz]
        by (subst bm_find_loop.simps) simp
    qed
  qed
qed

lemma find_first_bit_spec: "find_first_bit addr sz = next_such (bm_bit addr) 0 sz"
  using bm_find_loop_spec [of addr 0 sz] by (simp add: find_first_bit_def)

lemma find_next_bit_spec: "find_next_bit addr sz off = next_such (bm_bit addr) off sz"
proof (cases "sz \<le> off")
  case True
  then show ?thesis by (simp add: find_next_bit_def next_such_def Let_def)
next
  case False
  define p where "p = off div 64"
  define s where "s = sz - 64 * p"
  have p: "64 * p \<le> off" "off = 64 * p + off mod 64" "sz = 64 * p + s" "off < 64 * p + s" "0 < s"
    using False by (auto simp: p_def s_def)
  let ?tmp = "addr ! p AND push_bit (off mod 64) (NOT 0)"
  have w: "bit ?tmp i \<longleftrightarrow> bit (addr ! p) i \<and> off \<le> 64 * p + i" if "i < 64" for i
    using that p(2) bit_high_mask [of "off mod 64" i] by (auto simp: bit_and_iff)
  show ?thesis
  proof (cases "off mod 64 = 0")
    case True
    then have "find_next_bit addr sz off = bm_find_loop addr p (64 * p) s"
      using False by (simp add: find_next_bit_def Let_def p_def s_def)
    moreover have "off = 64 * p" using True p(2) by simp
    ultimately show ?thesis using bm_find_loop_spec [of addr p s] p(3) by simp
  next
    case nz: False
    show ?thesis
    proof (cases "s < 64")
      case True
      then have "find_next_bit addr sz off = bm_found_first ?tmp (64 * p) s"
        using False nz by (simp add: find_next_bit_def Let_def p_def s_def)
      then show ?thesis using bm_found_first_spec [OF w True p(5,1,4)] p(3) by simp
    next
      case big: False
      have w': "bit ?tmp i \<longleftrightarrow> bit (addr ! p) i \<and> off \<le> 64 * p + i \<and> 64 * p + i < sz"
        if "i < 64" for i using w [OF that] that big p(3) by auto
      show ?thesis
      proof (cases "?tmp = 0")
        case True
        then have "find_next_bit addr sz off = bm_find_loop addr (p + 1) (64 * (p + 1)) (s - 64)"
          using False nz big by (simp add: find_next_bit_def Let_def p_def s_def algebra_simps)
        moreover have "next_such (bm_bit addr) off sz = next_such (bm_bit addr) (64 * (p + 1)) sz"
          using word_clear_range [OF w' True p(1)] big p
          by (intro next_such_skip) (auto simp: algebra_simps)
        ultimately show ?thesis
          using bm_find_loop_spec [of addr "p + 1" "s - 64"] p(3) big by (simp add: algebra_simps)
      next
        case tnz: False
        then have "find_next_bit addr sz off = 64 * p + ffs_word ?tmp"
          using False nz big by (simp add: find_next_bit_def Let_def p_def s_def)
        then show ?thesis using next_such_word [OF w' tnz p(1)] by simp
      qed
    qed
  qed
qed

section \<open>Searching for a clear bit\<close>

definition bm_found_first_zero :: "ulong \<Rightarrow> nat \<Rightarrow> nat \<Rightarrow> nat" where
  "bm_found_first_zero tmp result sz =
     (let tmp = tmp OR push_bit sz (NOT 0)
      in if tmp = NOT 0 then result + sz else result + ffz tmp)"

fun bm_find_zero_loop :: "ulong list \<Rightarrow> nat \<Rightarrow> nat \<Rightarrow> nat \<Rightarrow> nat" where
  "bm_find_zero_loop addr p result sz =
     (if 64 \<le> sz then
        if NOT (addr ! p) \<noteq> 0 then result + ffz (addr ! p)
        else bm_find_zero_loop addr (p + 1) (result + 64) (sz - 64)
      else if sz = 0 then result
      else bm_found_first_zero (addr ! p) result sz)"

declare bm_find_zero_loop.simps [simp del]

definition find_first_zero_bit :: "ulong list \<Rightarrow> nat \<Rightarrow> nat" where
  "find_first_zero_bit addr sz = bm_find_zero_loop addr 0 0 sz"

definition find_next_zero_bit :: "ulong list \<Rightarrow> nat \<Rightarrow> nat \<Rightarrow> nat" where
  "find_next_zero_bit addr sz offset =
     (let p = offset div 64; result = 64 * (offset div 64) in
      if sz \<le> offset then sz
      else
        let sz = sz - result; offset = offset mod 64 in
        if offset \<noteq> 0 then
          let tmp = addr ! p OR drop_bit (64 - offset) (NOT 0) in
          if sz < 64 then bm_found_first_zero tmp result sz
          else if NOT tmp \<noteq> 0 then result + ffz tmp
          else bm_find_zero_loop addr (p + 1) (result + 64) (sz - 64)
        else bm_find_zero_loop addr p result sz)"

text \<open>Each clear bit search is the set bit search on the complemented bitmap.\<close>

lemma eq_not_zero_iff: "(x :: ulong) = NOT 0 \<longleftrightarrow> NOT x = 0"
  by (metis bit.double_compl)

lemma bm_found_first_zero_not:
  assumes "sz < 64" "0 < sz"
  shows "bm_found_first_zero tmp r sz = bm_found_first (NOT tmp) r sz"
proof -
  have "NOT (tmp OR push_bit sz (NOT 0)) = NOT tmp AND drop_bit (64 - sz) (NOT 0)"
    by (rule bit_word_eqI)
       (auto simp: bit_not_ulong bit_or_iff bit_and_iff bit_low_mask assms bit_high_mask
         simp del: bit.compl_zero push_bit_minus_one_eq_not_mask)
  then show ?thesis
    by (simp only: bm_found_first_zero_def bm_found_first_def ffz_def Let_def eq_not_zero_iff)
qed

lemma bm_find_zero_loop_not:
  "64 * p + sz \<le> 64 * length addr \<Longrightarrow>
   bm_find_zero_loop addr p r sz = bm_find_loop (map (\<lambda>w. NOT w) addr) p r sz"
proof (induction sz arbitrary: p r rule: less_induct)
  case (less sz)
  show ?case
  proof (cases "64 \<le> sz")
    case True
    then have "p < length addr" using less.prems by simp
    moreover have "bm_find_zero_loop addr (p + 1) (r + 64) (sz - 64)
        = bm_find_loop (map (\<lambda>w. NOT w) addr) (p + 1) (r + 64) (sz - 64)"
      using True less.prems by (intro less.IH) auto
    ultimately show ?thesis
      using True by (subst bm_find_zero_loop.simps, subst bm_find_loop.simps) (simp add: ffz_def)
  next
    case False
    then show ?thesis
      using less.prems bm_found_first_zero_not
      by (subst bm_find_zero_loop.simps, subst bm_find_loop.simps) auto
  qed
qed

lemma bm_bit_not:
  "i < 64 * length addr \<Longrightarrow> bm_bit (map (\<lambda>w. NOT w) addr) i \<longleftrightarrow> \<not> bm_bit addr i"
  by (simp add: bm_bit_def bit_not_ulong less_mult_imp_div_less mult.commute)

lemma next_such_cong:
  "(\<And>i. i < sz \<Longrightarrow> P i = Q i) \<Longrightarrow> next_such P off sz = next_such Q off sz"
  by (auto simp: next_such_def intro!: arg_cong [where f = "case_list _ _"] filter_cong)

lemma find_next_zero_bit_not:
  assumes "sz \<le> 64 * length addr"
  shows "find_next_zero_bit addr sz off = find_next_bit (map (\<lambda>w. NOT w) addr) sz off"
proof (cases "sz \<le> off")
  case True
  then show ?thesis by (simp add: find_next_zero_bit_def find_next_bit_def)
next
  case False
  let ?p = "off div 64" and ?o = "off mod 64"
  have p: "?p < length addr" "64 * ?p \<le> sz" using False assms by auto
  have o: "NOT (addr ! ?p OR drop_bit (64 - ?o) (NOT 0)) = NOT (addr ! ?p) AND push_bit ?o (NOT 0)"
    if "?o \<noteq> 0"
    using that by (intro bit_word_eqI)
       (auto simp: bit_not_ulong bit_or_iff bit_and_iff bit_low_mask bit_high_mask
         simp del: bit.compl_zero push_bit_minus_one_eq_not_mask)
  have l: "bm_find_zero_loop addr q r s = bm_find_loop (map (\<lambda>w. NOT w) addr) q r s"
    if "64 * q + s \<le> sz" for q r s
    using that assms by (intro bm_find_zero_loop_not) simp
  show ?thesis
    using False p o l bm_found_first_zero_not
    by (auto simp: find_next_zero_bit_def find_next_bit_def Let_def ffz_def
        simp del: bit.compl_zero push_bit_minus_one_eq_not_mask)
qed

lemma find_next_zero_bit_spec:
  assumes "sz \<le> 64 * length addr"
  shows "find_next_zero_bit addr sz off = next_such (\<lambda>i. \<not> bm_bit addr i) off sz"
  using assms by (simp add: find_next_zero_bit_not find_next_bit_spec bm_bit_not
      cong: next_such_cong)

lemma find_first_zero_bit_spec:
  assumes "sz \<le> 64 * length addr"
  shows "find_first_zero_bit addr sz = next_such (\<lambda>i. \<not> bm_bit addr i) 0 sz"
proof -
  have "find_first_zero_bit addr sz = find_first_bit (map (\<lambda>w. NOT w) addr) sz"
    using bm_find_zero_loop_not [of 0 sz addr 0] assms
    by (simp add: find_first_zero_bit_def find_first_bit_def)
  then show ?thesis using assms by (simp add: find_first_bit_spec bm_bit_not cong: next_such_cong)
qed

section \<open>The last set bit of a bitmap\<close>

fun find_last_loop :: "ulong list \<Rightarrow> nat \<Rightarrow> nat \<Rightarrow> nat" where
  "find_last_loop addr sz 0 = sz"
| "find_last_loop addr sz (Suc words) =
     (if addr ! words \<noteq> 0 then words * 64 + fls_word (addr ! words)
      else find_last_loop addr sz words)"

definition find_last_bit :: "ulong list \<Rightarrow> nat \<Rightarrow> nat" where
  "find_last_bit addr sz =
     (let words = sz div 64;
          tmp = addr ! words AND drop_bit (64 - sz mod 64) (NOT 0) in
      if sz mod 64 \<noteq> 0 \<and> tmp \<noteq> 0 then words * 64 + fls_word tmp
      else find_last_loop addr sz words)"

definition last_such :: "(nat \<Rightarrow> bool) \<Rightarrow> nat \<Rightarrow> nat \<Rightarrow> nat \<Rightarrow> bool" where
  "last_such P n dflt r \<longleftrightarrow>
     (if \<exists>i<n. P i then r < n \<and> P r \<and> (\<forall>i. r < i \<and> i < n \<longrightarrow> \<not> P i) else r = dflt)"

lemma last_such_word:
  assumes w: "\<And>i. i < 64 \<Longrightarrow> bit w i \<longleftrightarrow> bit (addr ! p) i \<and> 64 * p + i < n"
    and "w \<noteq> 0" "n \<le> 64 * p + 64"
  shows "last_such (bm_bit addr) n d (p * 64 + fls_word w)"
proof -
  let ?r = "fls_word w"
  have r: "?r < 64" "bit w ?r" using fls_word_less fls_word_bit assms(2) by blast+
  then have b: "bit (addr ! p) ?r" "64 * p + ?r < n" using w by auto
  have "\<not> bm_bit addr i" if "64 * p + ?r < i" "i < n" for i
  proof -
    have i: "i - 64 * p < 64" "?r < i - 64 * p" "64 * p \<le> i" using that assms(3) by auto
    then have "\<not> bit w (i - 64 * p)" using fls_word_above [OF assms(2)] by blast
    then show ?thesis using w [OF i(1)] bm_bit_in_word [of p i addr] i that by auto
  qed
  then show ?thesis
    using b r bm_bit_word [OF r(1), of addr p]
    unfolding last_such_def by (auto simp: mult.commute [of p])
qed

lemma last_such_shrink:
  "(\<And>i. m \<le> i \<Longrightarrow> i < n \<Longrightarrow> \<not> P i) \<Longrightarrow> m \<le> n \<Longrightarrow> last_such P m d r \<Longrightarrow> last_such P n d r"
  unfolding last_such_def by (smt (verit) less_le_trans not_le)

lemma find_last_loop_spec: "last_such (bm_bit addr) (64 * words) sz (find_last_loop addr sz words)"
proof (induction words)
  case 0
  then show ?case by (simp add: last_such_def)
next
  case (Suc words)
  show ?case
  proof (cases "addr ! words = 0")
    case True
    have "\<not> bm_bit addr i" if "64 * words \<le> i" "i < 64 * Suc words" for i
      using that bm_bit_in_word [of words i addr] True by auto
    then show ?thesis using last_such_shrink [OF _ _ Suc.IH] True by auto
  next
    case False
    then show ?thesis by (auto intro!: last_such_word)
  qed
qed

lemma find_last_bit_spec: "last_such (bm_bit addr) sz sz (find_last_bit addr sz)"
proof -
  let ?p = "sz div 64" and ?o = "sz mod 64"
  let ?tmp = "addr ! ?p AND drop_bit (64 - ?o) (NOT 0)"
  have sz: "sz = 64 * ?p + ?o" by simp
  have w: "bit ?tmp i \<longleftrightarrow> bit (addr ! ?p) i \<and> 64 * ?p + i < sz" if "i < 64" "?o \<noteq> 0" for i
  proof -
    have "bit (drop_bit (64 - ?o) (NOT 0) :: ulong) i \<longleftrightarrow> i < ?o"
      using that(2) by (intro bit_low_mask) simp_all
    moreover have "64 * ?p + i < sz \<longleftrightarrow> i < ?o" using sz by linarith
    ultimately show ?thesis by (simp only: bit_and_iff)
  qed
  show ?thesis
  proof (cases "?o \<noteq> 0 \<and> ?tmp \<noteq> 0")
    case True
    then have w': "bit ?tmp i \<longleftrightarrow> bit (addr ! ?p) i \<and> 64 * ?p + i < sz" if "i < 64" for i
      using w [OF that] by blast
    have "last_such (bm_bit addr) sz sz (?p * 64 + fls_word ?tmp)"
    proof (rule last_such_word [OF w'])
      show "?tmp \<noteq> 0" using True by blast
      show "sz \<le> 64 * ?p + 64" using sz by linarith
    qed
    then show ?thesis using True by (simp add: find_last_bit_def Let_def)
  next
    case False
    have "\<not> bm_bit addr i" if "64 * ?p \<le> i" "i < sz" for i
    proof -
      have i: "i - 64 * ?p < 64" "?o \<noteq> 0" using that sz by linarith+
      then have "\<not> bit ?tmp (i - 64 * ?p)" using False by simp
      then show ?thesis using w [OF i] bm_bit_in_word [of ?p i addr] that i by auto
    qed
    then have "last_such (bm_bit addr) sz sz (find_last_loop addr sz ?p)"
      using last_such_shrink [OF _ _ find_last_loop_spec] by simp
    then show ?thesis using False by (auto simp: find_last_bit_def Let_def)
  qed
qed

section \<open>Iterating over the set bits\<close>

function bm_iter :: "ulong list \<Rightarrow> nat \<Rightarrow> nat \<Rightarrow> nat list" where
  "bm_iter addr sz b =
     (if b < sz then b # bm_iter addr sz (find_next_bit addr sz (b + 1)) else [])"
  by pat_completeness auto
termination
proof (relation "measure (\<lambda>(addr, sz, b). sz - b)")
  fix addr sz and b :: nat
  assume "b < sz"
  then show "((addr, sz, find_next_bit addr sz (b + 1)), addr, sz, b)
      \<in> measure (\<lambda>(addr, sz, b). sz - b)"
    using next_such_ge [of "b + 1" "bm_bit addr" sz] by (auto simp: find_next_bit_spec)
qed simp

declare bm_iter.simps [simp del]

definition for_each_set_bit :: "ulong list \<Rightarrow> nat \<Rightarrow> nat list" where
  "for_each_set_bit addr sz = bm_iter addr sz (find_first_bit addr sz)"

definition for_each_set_bit_from :: "nat \<Rightarrow> ulong list \<Rightarrow> nat \<Rightarrow> nat list" where
  "for_each_set_bit_from b addr sz = bm_iter addr sz (find_next_bit addr sz b)"

lemma bm_iter_filter:
  "bm_iter addr sz (next_such (bm_bit addr) off sz) = filter (bm_bit addr) [off..<sz]"
proof (induction "sz - off" arbitrary: off rule: less_induct)
  case less
  show ?case
  proof (cases "filter (bm_bit addr) [off..<sz]")
    case Nil
    then show ?thesis by (subst bm_iter.simps) (simp add: next_such_def)
  next
    case (Cons m ms)
    then have m: "m \<in> set [off..<sz]" "bm_bit addr m"
      by (metis filter_is_subset list.set_intros(1) subsetD, metis filter_eq_ConsD)
    have "filter (bm_bit addr) [off..<sz] = m # filter (bm_bit addr) [Suc m..<sz]"
    proof (rule upt_filter_least)
      show "\<not> bm_bit addr i" if "off \<le> i" "i < m" for i
      proof
        assume "bm_bit addr i"
        then have "i \<in> set (filter (bm_bit addr) [off..<sz])" using that m by auto
        then have "i \<in> set (m # ms)" using Cons by simp
        moreover have "sorted (m # ms)" using Cons by (metis sorted_wrt_filter sorted_upt)
        ultimately show False using that by auto
      qed
    qed (use m in auto)
    moreover have "bm_iter addr sz (next_such (bm_bit addr) (Suc m) sz)
        = filter (bm_bit addr) [Suc m..<sz]"
      using m by (intro less) auto
    moreover have "next_such (bm_bit addr) off sz = m" using Cons by (simp add: next_such_def)
    ultimately show ?thesis using m
      by (subst bm_iter.simps) (simp add: find_next_bit_spec)
  qed
qed

lemma for_each_set_bit_spec: "for_each_set_bit addr sz = filter (bm_bit addr) [0..<sz]"
  using bm_iter_filter [of addr sz 0] by (simp add: for_each_set_bit_def find_first_bit_spec)

lemma for_each_set_bit_from_spec:
  "for_each_set_bit_from b addr sz = filter (bm_bit addr) [b..<sz]"
  using bm_iter_filter by (simp add: for_each_set_bit_from_def find_next_bit_spec)

section \<open>Single bits\<close>

definition set_bit_bm :: "nat \<Rightarrow> ulong list \<Rightarrow> ulong list" where
  "set_bit_bm nr addr = addr[nr div 64 := addr ! (nr div 64) OR push_bit (nr mod 64) 1]"

definition clear_bit_bm :: "nat \<Rightarrow> ulong list \<Rightarrow> ulong list" where
  "clear_bit_bm nr addr = addr[nr div 64 := addr ! (nr div 64) AND NOT (push_bit (nr mod 64) 1)]"

definition change_bit_bm :: "nat \<Rightarrow> ulong list \<Rightarrow> ulong list" where
  "change_bit_bm nr addr = addr[nr div 64 := addr ! (nr div 64) XOR push_bit (nr mod 64) 1]"

definition test_and_set_bit_bm :: "nat \<Rightarrow> ulong list \<Rightarrow> bool \<times> ulong list" where
  "test_and_set_bit_bm nr addr =
     (let old = addr ! (nr div 64); m = push_bit (nr mod 64) 1
      in (old AND m \<noteq> 0, addr[nr div 64 := old OR m]))"

definition test_and_clear_bit_bm :: "nat \<Rightarrow> ulong list \<Rightarrow> bool \<times> ulong list" where
  "test_and_clear_bit_bm nr addr =
     (let old = addr ! (nr div 64); m = push_bit (nr mod 64) 1
      in (old AND m \<noteq> 0, addr[nr div 64 := old AND NOT m]))"

definition test_bit_bm :: "nat \<Rightarrow> ulong list \<Rightarrow> ulong" where
  "test_bit_bm nr addr = 1 AND drop_bit (nr mod 64) (addr ! (nr div 64))"

lemma bit_single: "bit (2 ^ k :: ulong) i \<longleftrightarrow> i = k \<and> k < 64"
  by (auto simp: bit_exp_iff possible_bit_word)

lemma and_single_iff: "k < 64 \<Longrightarrow> (w :: ulong) AND 2 ^ k = 0 \<longleftrightarrow> \<not> bit w k"
  by (auto simp: word_zero_iff_bits bit_and_iff bit_single)

lemma div_mod_eq_iff: "(i :: nat) div n = j div n \<and> i mod n = j mod n \<longleftrightarrow> i = j"
  by (metis div_mult_mod_eq)

lemma length_set_bit_bm [simp]: "length (set_bit_bm nr addr) = length addr"
  and length_clear_bit_bm [simp]: "length (clear_bit_bm nr addr) = length addr"
  by (simp_all add: set_bit_bm_def clear_bit_bm_def)

lemma bm_bit_set_bit:
  assumes "nr < 64 * length addr"
  shows "bm_bit (set_bit_bm nr addr) i \<longleftrightarrow> i = nr \<or> bm_bit addr i"
  using assms less_mult_imp_div_less [of nr "length addr" 64] div_mod_eq_iff [of i 64 nr]
  by (auto simp: bm_bit_def set_bit_bm_def nth_list_update bit_or_iff bit_single mult.commute)

lemma bm_bit_clear_bit:
  assumes "nr < 64 * length addr"
  shows "bm_bit (clear_bit_bm nr addr) i \<longleftrightarrow> i \<noteq> nr \<and> bm_bit addr i"
  using assms less_mult_imp_div_less [of nr "length addr" 64] div_mod_eq_iff [of i 64 nr]
  by (auto simp: bm_bit_def clear_bit_bm_def nth_list_update bit_and_iff bit_not_ulong bit_single
      mult.commute)

lemma bm_bit_change_bit:
  assumes "nr < 64 * length addr"
  shows "bm_bit (change_bit_bm nr addr) i \<longleftrightarrow> (i = nr) \<noteq> bm_bit addr i"
  using assms less_mult_imp_div_less [of nr "length addr" 64] div_mod_eq_iff [of i 64 nr]
  by (auto simp: bm_bit_def change_bit_bm_def nth_list_update bit_xor_iff bit_single mult.commute)

lemma test_and_set_bit_bm_eq:
  "test_and_set_bit_bm nr addr = (bm_bit addr nr, set_bit_bm nr addr)"
  by (simp add: test_and_set_bit_bm_def set_bit_bm_def bm_bit_def Let_def and_single_iff)

lemma test_and_clear_bit_bm_eq:
  "test_and_clear_bit_bm nr addr = (bm_bit addr nr, clear_bit_bm nr addr)"
  by (simp add: test_and_clear_bit_bm_def clear_bit_bm_def bm_bit_def Let_def and_single_iff)

lemma test_bit_bm_eq: "test_bit_bm nr addr = of_bool (bm_bit addr nr)"
  by (rule bit_word_eqI)
     (auto simp: test_bit_bm_def bm_bit_def bit_and_iff bit_drop_bit_eq bit_1_iff)

end
