(* ===== verification/Sbi_Hartmask.thy ===== *)
theory Sbi_Hartmask
  imports Sbi_Bitops
begin

text \<open>
  \<^verbatim>\<open>include/sbi/sbi_bitmap.h\<close>, \<^verbatim>\<open>lib/sbi/sbi_bitmap.c\<close> and \<^verbatim>\<open>include/sbi/sbi_hartmask.h\<close>:
  bitmaps of a fixed number of bits, and the hart masks built on them (128 bits, two words).
  A hart mask stands for a set of hart ids (\<open>hm_set\<close>); every operation is shown to be the set
  operation it is named after. The interface is the locale \<open>hart_set\<close>, interpreted here.
\<close>

section \<open>Bitmaps\<close>

definition bitmap_and :: "ulong list \<Rightarrow> ulong list \<Rightarrow> ulong list \<Rightarrow> nat \<Rightarrow> ulong list" where
  "bitmap_and dst bitmap1 bitmap2 bits =
     foldl (\<lambda>d k. d[k := bitmap1 ! k AND bitmap2 ! k]) dst [0..<BITS_TO_LONGS bits]"

definition bitmap_or :: "ulong list \<Rightarrow> ulong list \<Rightarrow> ulong list \<Rightarrow> nat \<Rightarrow> ulong list" where
  "bitmap_or dst bitmap1 bitmap2 bits =
     foldl (\<lambda>d k. d[k := bitmap1 ! k OR bitmap2 ! k]) dst [0..<BITS_TO_LONGS bits]"

definition bitmap_xor :: "ulong list \<Rightarrow> ulong list \<Rightarrow> ulong list \<Rightarrow> nat \<Rightarrow> ulong list" where
  "bitmap_xor dst bitmap1 bitmap2 bits =
     foldl (\<lambda>d k. d[k := bitmap1 ! k XOR bitmap2 ! k]) dst [0..<BITS_TO_LONGS bits]"

definition bitmap_set :: "ulong list \<Rightarrow> nat \<Rightarrow> nat \<Rightarrow> ulong list" where
  "bitmap_set bmap start len =
     foldl (\<lambda>d b. d[b div 64 := d ! (b div 64) OR push_bit (b mod 64) 1]) bmap [start..<start + len]"

definition bitmap_clear :: "ulong list \<Rightarrow> nat \<Rightarrow> nat \<Rightarrow> ulong list" where
  "bitmap_clear bmap start len =
     foldl (\<lambda>d b. d[b div 64 := d ! (b div 64) AND NOT (push_bit (b mod 64) 1)]) bmap
       [start..<start + len]"

definition bitmap_zero :: "ulong list \<Rightarrow> nat \<Rightarrow> ulong list" where
  "bitmap_zero dst nbits = foldl (\<lambda>d i. d[i := 0]) dst [0..<BITS_TO_LONGS nbits]"

definition bitmap_zero_except :: "ulong list \<Rightarrow> nat \<Rightarrow> nat \<Rightarrow> ulong list" where
  "bitmap_zero_except dst exception nbits =
     (let dst = bitmap_zero dst nbits
      in if exception < nbits then set_bit_bm exception dst else dst)"

definition bitmap_last_word_mask :: "nat \<Rightarrow> ulong" where
  "bitmap_last_word_mask nbits =
     (if nbits mod 64 \<noteq> 0 then push_bit (nbits mod 64) 1 - 1 else NOT 0)"

definition bitmap_fill :: "ulong list \<Rightarrow> nat \<Rightarrow> ulong list" where
  "bitmap_fill dst nbits =
     (let nlongs = BITS_TO_LONGS nbits
      in (foldl (\<lambda>d i. d[i := - 1]) dst [0..<nlongs - 1])[nlongs - 1 := bitmap_last_word_mask nbits])"

definition bitmap_copy :: "ulong list \<Rightarrow> ulong list \<Rightarrow> nat \<Rightarrow> ulong list" where
  "bitmap_copy dst src nbits = foldl (\<lambda>d i. d[i := src ! i]) dst [0..<BITS_TO_LONGS nbits]"

lemmas bitmap_binop_defs = bitmap_and_def bitmap_or_def bitmap_xor_def

lemma length_bitmap_ops [simp]:
  "length (bitmap_and d a b n) = length d"
  "length (bitmap_or d a b n) = length d"
  "length (bitmap_xor d a b n) = length d"
  "length (bitmap_zero d n) = length d"
  "length (bitmap_copy d a n) = length d"
  "length (bitmap_fill d n) = length d"
  "length (bitmap_zero_except d e n) = length d"
  by (simp_all add: bitmap_binop_defs bitmap_zero_def bitmap_copy_def bitmap_fill_def
      bitmap_zero_except_def Let_def foldl_length)

lemma bitmap_binop_bit:
  assumes "i < nbits" "i div 64 < length d"
  shows "bm_bit (bitmap_and d a b nbits) i \<longleftrightarrow> bm_bit a i \<and> bm_bit b i"
    and "bm_bit (bitmap_or d a b nbits) i \<longleftrightarrow> bm_bit a i \<or> bm_bit b i"
    and "bm_bit (bitmap_xor d a b nbits) i \<longleftrightarrow> bm_bit a i \<noteq> bm_bit b i"
    and "\<not> bm_bit (bitmap_zero d nbits) i"
    and "bm_bit (bitmap_copy d a nbits) i \<longleftrightarrow> bm_bit a i"
proof -
  have "i div 64 < BITS_TO_LONGS nbits" using assms(1) by (simp add: BITS_TO_LONGS_def)
  then show "bm_bit (bitmap_and d a b nbits) i \<longleftrightarrow> bm_bit a i \<and> bm_bit b i"
    "bm_bit (bitmap_or d a b nbits) i \<longleftrightarrow> bm_bit a i \<or> bm_bit b i"
    "bm_bit (bitmap_xor d a b nbits) i \<longleftrightarrow> bm_bit a i \<noteq> bm_bit b i"
    "\<not> bm_bit (bitmap_zero d nbits) i"
    "bm_bit (bitmap_copy d a nbits) i \<longleftrightarrow> bm_bit a i"
    using assms(2)
    by (simp_all add: bm_bit_def bitmap_binop_defs bitmap_zero_def bitmap_copy_def
        foldl_update_nth bit_and_iff bit_or_iff bit_xor_iff)
qed

lemma bitmap_last_word_mask_bit:
  "bit (bitmap_last_word_mask n) i \<longleftrightarrow> i < 64 \<and> (n mod 64 \<noteq> 0 \<longrightarrow> i < n mod 64)"
proof (cases "n mod 64 = 0")
  case False
  have "push_bit (n mod 64) 1 - 1 = (mask (n mod 64) :: ulong)"
    by (simp add: mask_eq_exp_minus_1)
  then show ?thesis using False by (simp add: bitmap_last_word_mask_def bit_mask_ulong) auto
qed (simp add: bitmap_last_word_mask_def bit_not_ulong del: bit.compl_zero)

lemma div_64_round_up:
  fixes q r :: nat
  assumes "0 < r" "r < 64"
  shows "(64 * q + r + 64 - 1) div 64 = Suc q"
  using assms by (intro div_nat_eqI) simp_all

lemma BITS_TO_LONGS_partial:
  assumes "n mod 64 \<noteq> 0"
  shows "BITS_TO_LONGS n - 1 = n div 64"
proof -
  have "0 < n mod 64" "n mod 64 < 64" using assms by simp_all
  then have "(64 * (n div 64) + n mod 64 + 64 - 1) div 64 = Suc (n div 64)"
    by (rule div_64_round_up)
  moreover have "64 * (n div 64) + n mod 64 = n" by (rule mult_div_mod_eq)
  ultimately show ?thesis by (simp only: BITS_TO_LONGS_def)
qed

lemma bitmap_fill_bit:
  assumes "i < nbits" "BITS_TO_LONGS nbits \<le> length d"
  shows "bm_bit (bitmap_fill d nbits) i"
proof -
  let ?n = "BITS_TO_LONGS nbits"
  have i: "i div 64 < ?n" using assms(1) by (simp add: BITS_TO_LONGS_def)
  let ?d = "foldl (\<lambda>d i. d[i := - 1]) d [0..<?n - 1]"
  have f: "bitmap_fill d nbits = ?d[?n - 1 := bitmap_last_word_mask nbits]"
    by (simp add: bitmap_fill_def Let_def)
  have l: "length ?d = length d" by (simp add: foldl_length)
  show ?thesis
  proof (cases "i div 64 = ?n - 1")
    case True
    have "i mod 64 < nbits mod 64" if "nbits mod 64 \<noteq> 0"
    proof -
      have "i div 64 = nbits div 64" using BITS_TO_LONGS_partial [OF that] True by simp
      then show ?thesis
        using assms(1) div_mult_mod_eq [of i 64] div_mult_mod_eq [of nbits 64] by linarith
    qed
    moreover have "bitmap_fill d nbits ! (i div 64) = bitmap_last_word_mask nbits"
      using True i assms(2) l by (simp add: f)
    ultimately show ?thesis by (simp add: bm_bit_def bitmap_last_word_mask_bit)
  next
    case False
    with i have "i div 64 < ?n - 1" by linarith
    then have "bitmap_fill d nbits ! (i div 64) = NOT 0"
      using assms(2) by (simp add: f foldl_update_nth)
    then show ?thesis by (simp add: bm_bit_def bit_not_ulong del: bit.compl_zero)
  qed
qed

lemma bitmap_set_bit:
  "start + len \<le> 64 * length d \<Longrightarrow>
   bm_bit (bitmap_set d start len) i \<longleftrightarrow> bm_bit d i \<or> start \<le> i \<and> i < start + len"
proof (induction len)
  case 0
  then show ?case by (auto simp: bitmap_set_def)
next
  case (Suc len)
  have "bitmap_set d start (Suc len) = set_bit_bm (start + len) (bitmap_set d start len)"
    by (simp add: bitmap_set_def set_bit_bm_def)
  moreover have "length (bitmap_set d start len) = length d"
    by (simp add: bitmap_set_def foldl_length)
  ultimately show ?case using Suc by (auto simp: bm_bit_set_bit)
qed


section \<open>Hart masks\<close>

abbreviation (input) SBI_HARTMASK_MAX_BITS :: nat where "SBI_HARTMASK_MAX_BITS \<equiv> 128"

record sbi_hartmask =
  bits :: "ulong list"

definition sbi_hartmask_empty :: sbi_hartmask where
  "sbi_hartmask_empty = \<lparr>bits = [0, 0]\<rparr>"

definition sbi_hartmask_init_except :: "sbi_hartmask \<Rightarrow> nat \<Rightarrow> sbi_hartmask" where
  "sbi_hartmask_init_except m h = m\<lparr>bits := bitmap_zero_except (bits m) h SBI_HARTMASK_MAX_BITS\<rparr>"

definition sbi_hartmask_set_hart :: "nat \<Rightarrow> sbi_hartmask \<Rightarrow> sbi_hartmask" where
  "sbi_hartmask_set_hart h m =
     (if h < SBI_HARTMASK_MAX_BITS then m\<lparr>bits := set_bit_bm h (bits m)\<rparr> else m)"

definition sbi_hartmask_clear_hart :: "nat \<Rightarrow> sbi_hartmask \<Rightarrow> sbi_hartmask" where
  "sbi_hartmask_clear_hart h m =
     (if h < SBI_HARTMASK_MAX_BITS then m\<lparr>bits := clear_bit_bm h (bits m)\<rparr> else m)"

definition sbi_hartmask_test_hart :: "nat \<Rightarrow> sbi_hartmask \<Rightarrow> bool" where
  "sbi_hartmask_test_hart h m =
     (if h < SBI_HARTMASK_MAX_BITS then test_bit_bm h (bits m) \<noteq> 0 else False)"

definition sbi_hartmask_set_all :: "sbi_hartmask \<Rightarrow> sbi_hartmask" where
  "sbi_hartmask_set_all m = m\<lparr>bits := bitmap_fill (bits m) SBI_HARTMASK_MAX_BITS\<rparr>"

definition sbi_hartmask_clear_all :: "sbi_hartmask \<Rightarrow> sbi_hartmask" where
  "sbi_hartmask_clear_all m = m\<lparr>bits := bitmap_zero (bits m) SBI_HARTMASK_MAX_BITS\<rparr>"

definition sbi_hartmask_and :: "sbi_hartmask \<Rightarrow> sbi_hartmask \<Rightarrow> sbi_hartmask \<Rightarrow> sbi_hartmask" where
  "sbi_hartmask_and d a b = d\<lparr>bits := bitmap_and (bits d) (bits a) (bits b) SBI_HARTMASK_MAX_BITS\<rparr>"

definition sbi_hartmask_or :: "sbi_hartmask \<Rightarrow> sbi_hartmask \<Rightarrow> sbi_hartmask \<Rightarrow> sbi_hartmask" where
  "sbi_hartmask_or d a b = d\<lparr>bits := bitmap_or (bits d) (bits a) (bits b) SBI_HARTMASK_MAX_BITS\<rparr>"

definition sbi_hartmask_xor :: "sbi_hartmask \<Rightarrow> sbi_hartmask \<Rightarrow> sbi_hartmask \<Rightarrow> sbi_hartmask" where
  "sbi_hartmask_xor d a b = d\<lparr>bits := bitmap_xor (bits d) (bits a) (bits b) SBI_HARTMASK_MAX_BITS\<rparr>"

definition sbi_hartmask_for_each_hart :: "sbi_hartmask \<Rightarrow> nat list" where
  "sbi_hartmask_for_each_hart m = for_each_set_bit (bits m) SBI_HARTMASK_MAX_BITS"

definition hm_wf :: "sbi_hartmask \<Rightarrow> bool" where
  "hm_wf m \<longleftrightarrow> length (bits m) = 2"

definition hm_set :: "sbi_hartmask \<Rightarrow> nat set" where
  "hm_set m = {h. h < SBI_HARTMASK_MAX_BITS \<and> bm_bit (bits m) h}"

lemma hm_wf_ops [simp]:
  "hm_wf sbi_hartmask_empty"
  "hm_wf (sbi_hartmask_init_except m h) = hm_wf m"
  "hm_wf (sbi_hartmask_set_hart h m) = hm_wf m"
  "hm_wf (sbi_hartmask_clear_hart h m) = hm_wf m"
  "hm_wf (sbi_hartmask_set_all m) = hm_wf m"
  "hm_wf (sbi_hartmask_clear_all m) = hm_wf m"
  "hm_wf (sbi_hartmask_and m a b) = hm_wf m"
  "hm_wf (sbi_hartmask_or m a b) = hm_wf m"
  "hm_wf (sbi_hartmask_xor m a b) = hm_wf m"
  by (simp_all add: hm_wf_def sbi_hartmask_empty_def sbi_hartmask_init_except_def
      sbi_hartmask_set_hart_def sbi_hartmask_clear_hart_def sbi_hartmask_set_all_def
      sbi_hartmask_clear_all_def sbi_hartmask_and_def sbi_hartmask_or_def sbi_hartmask_xor_def)

lemma hm_set_finite [simp]: "finite (hm_set m)"
  by (rule finite_subset [of _ "{..<128}"]) (auto simp: hm_set_def)

lemma hm_set_less: "h \<in> hm_set m \<Longrightarrow> h < 128"
  by (simp add: hm_set_def)

lemma hm_test [simp]: "sbi_hartmask_test_hart h m \<longleftrightarrow> h \<in> hm_set m"
  by (simp add: sbi_hartmask_test_hart_def hm_set_def test_bit_bm_eq)

lemma hm_set_empty [simp]: "hm_set sbi_hartmask_empty = {}"
proof -
  have "\<not> bm_bit [0, 0] h" if "h < 128" for h
  proof -
    have "h div 64 = 0 \<or> h div 64 = 1" using that by linarith
    then show ?thesis by (auto simp: bm_bit_def)
  qed
  then show ?thesis by (auto simp: hm_set_def sbi_hartmask_empty_def)
qed

lemma hm_index: "h < (128 :: nat) \<Longrightarrow> h div 64 < 2"
  by linarith

lemma hm_set_set_hart:
  "hm_wf m \<Longrightarrow> hm_set (sbi_hartmask_set_hart h m) = hm_set m \<union> (if h < 128 then {h} else {})"
  by (auto simp: hm_set_def sbi_hartmask_set_hart_def hm_wf_def bm_bit_set_bit)

lemma hm_set_clear_hart:
  "hm_wf m \<Longrightarrow> hm_set (sbi_hartmask_clear_hart h m) = hm_set m - {h}"
  by (auto simp: hm_set_def sbi_hartmask_clear_hart_def hm_wf_def bm_bit_clear_bit)

lemma hm_set_clear_all: "hm_wf m \<Longrightarrow> hm_set (sbi_hartmask_clear_all m) = {}"
  by (auto simp: hm_set_def sbi_hartmask_clear_all_def hm_wf_def bitmap_binop_bit hm_index)

lemma hm_set_set_all: "hm_wf m \<Longrightarrow> hm_set (sbi_hartmask_set_all m) = {..<128}"
  by (auto simp: hm_set_def sbi_hartmask_set_all_def hm_wf_def BITS_TO_LONGS_def
      intro!: bitmap_fill_bit)

lemma hm_set_binops:
  assumes "hm_wf m"
  shows "hm_set (sbi_hartmask_and m a b) = hm_set a \<inter> hm_set b"
    and "hm_set (sbi_hartmask_or m a b) = hm_set a \<union> hm_set b"
    and "hm_set (sbi_hartmask_xor m a b) = (hm_set a - hm_set b) \<union> (hm_set b - hm_set a)"
  using assms
  by (auto simp: hm_set_def sbi_hartmask_and_def sbi_hartmask_or_def sbi_hartmask_xor_def hm_wf_def
      bitmap_binop_bit hm_index)

lemma hm_set_init_except:
  assumes "hm_wf m"
  shows "hm_set (sbi_hartmask_init_except m h) = (if h < 128 then {h} else {})"
  using assms
  by (auto simp: hm_set_def sbi_hartmask_init_except_def bitmap_zero_except_def Let_def hm_wf_def
      bm_bit_set_bit bitmap_binop_bit hm_index)

lemma hm_for_each: "sbi_hartmask_for_each_hart m = sorted_list_of_set (hm_set m)"
proof -
  have "sorted_wrt (<) (filter (bm_bit (bits m)) [0..<128])"
    by (intro sorted_wrt_filter) (simp add: strict_sorted_iff)
  moreover have "set (filter (bm_bit (bits m)) [0..<128]) = hm_set m"
    by (auto simp: hm_set_def)
  ultimately show ?thesis
    unfolding sbi_hartmask_for_each_hart_def for_each_set_bit_spec
    by (metis sorted_list_of_set.idem_if_sorted_distinct strict_sorted_iff)
qed

lemma set_hm_for_each [simp]: "set (sbi_hartmask_for_each_hart m) = hm_set m"
  and distinct_hm_for_each [simp]: "distinct (sbi_hartmask_for_each_hart m)"
  by (simp_all add: hm_for_each)

section \<open>The interface: a mutable set of hart ids\<close>

locale hart_set =
  fixes wf :: "'m \<Rightarrow> bool" and mem :: "'m \<Rightarrow> nat set" and limit :: nat
    and insert_hart :: "nat \<Rightarrow> 'm \<Rightarrow> 'm" and remove_hart :: "nat \<Rightarrow> 'm \<Rightarrow> 'm"
  assumes wf_insert: "wf m \<Longrightarrow> wf (insert_hart h m)"
    and wf_remove: "wf m \<Longrightarrow> wf (remove_hart h m)"
    and mem_insert: "wf m \<Longrightarrow> mem (insert_hart h m) = mem m \<union> (if h < limit then {h} else {})"
    and mem_remove: "wf m \<Longrightarrow> mem (remove_hart h m) = mem m - {h}"
begin

lemma wf_fold_insert: "wf m \<Longrightarrow> wf (foldl (\<lambda>m h. insert_hart h m) m hs)"
  by (induction hs arbitrary: m) (auto simp: wf_insert)

lemma mem_fold_insert:
  "wf m \<Longrightarrow> mem (foldl (\<lambda>m h. insert_hart h m) m hs) = mem m \<union> {h \<in> set hs. h < limit}"
  by (induction hs arbitrary: m) (auto simp: wf_insert mem_insert)

lemma insert_remove_commute:
  "wf m \<Longrightarrow> h \<noteq> k \<Longrightarrow> mem (insert_hart h (remove_hart k m)) = mem (remove_hart k (insert_hart h m))"
  by (auto simp: wf_insert wf_remove mem_insert mem_remove)

end

interpretation hartmask: hart_set hm_wf hm_set 128 sbi_hartmask_set_hart sbi_hartmask_clear_hart
  by unfold_locales (auto simp: hm_set_set_hart hm_set_clear_hart)

end
