(* ===== verification/Sbi_Machine.thy ===== *)
theory Sbi_Machine
  imports Sbi_Hartmask
begin

text \<open>
  What every component runs on: the platform description and its operations table
  (\<^verbatim>\<open>include/sbi/sbi_platform.h\<close>, \<^verbatim>\<open>lib/sbi/sbi_platform.c\<close>), the control and status registers
  of every hart (\<^verbatim>\<open>include/sbi/riscv_asm.h\<close>, \<^verbatim>\<open>include/sbi/sbi_csr_detect.h\<close>), and the per
  hart scratch area (\<^verbatim>\<open>include/sbi/sbi_scratch.h\<close>).

  Hart ids are natural numbers; where the code truncates an id to \<^verbatim>\<open>u32\<close> the model does. The
  platform's operations are tables of optional functions, as in the code; a call is recorded in
  the \<open>trace\<close> and its result is what the table says. What the registers of a hart accept is the
  hardware's business: \<open>hw_readable\<close>, \<open>hw_writable\<close> and \<open>hw_legal\<close> are parameters of the state
  that no operation changes.
\<close>

section \<open>Register numbers and bits\<close>

abbreviation (input) CSR_FCSR :: nat where "CSR_FCSR \<equiv> 0x003"
abbreviation (input) CSR_UIE :: nat where "CSR_UIE \<equiv> 0x004"
abbreviation (input) CSR_UTVEC :: nat where "CSR_UTVEC \<equiv> 0x005"
abbreviation (input) CSR_USCRATCH :: nat where "CSR_USCRATCH \<equiv> 0x040"
abbreviation (input) CSR_CYCLE :: nat where "CSR_CYCLE \<equiv> 0xc00"
abbreviation (input) CSR_TIME :: nat where "CSR_TIME \<equiv> 0xc01"
abbreviation (input) CSR_INSTRET :: nat where "CSR_INSTRET \<equiv> 0xc02"
abbreviation (input) CSR_SIE :: nat where "CSR_SIE \<equiv> 0x104"
abbreviation (input) CSR_STVEC :: nat where "CSR_STVEC \<equiv> 0x105"
abbreviation (input) CSR_SCOUNTEREN :: nat where "CSR_SCOUNTEREN \<equiv> 0x106"
abbreviation (input) CSR_SSCRATCH :: nat where "CSR_SSCRATCH \<equiv> 0x140"
abbreviation (input) CSR_SEPC :: nat where "CSR_SEPC \<equiv> 0x141"
abbreviation (input) CSR_SCAUSE :: nat where "CSR_SCAUSE \<equiv> 0x142"
abbreviation (input) CSR_STVAL :: nat where "CSR_STVAL \<equiv> 0x143"
abbreviation (input) CSR_SATP :: nat where "CSR_SATP \<equiv> 0x180"
abbreviation (input) CSR_VSSTATUS :: nat where "CSR_VSSTATUS \<equiv> 0x200"
abbreviation (input) CSR_VSTVEC :: nat where "CSR_VSTVEC \<equiv> 0x205"
abbreviation (input) CSR_VSEPC :: nat where "CSR_VSEPC \<equiv> 0x241"
abbreviation (input) CSR_VSCAUSE :: nat where "CSR_VSCAUSE \<equiv> 0x242"
abbreviation (input) CSR_VSTVAL :: nat where "CSR_VSTVAL \<equiv> 0x243"
abbreviation (input) CSR_MSTATUS :: nat where "CSR_MSTATUS \<equiv> 0x300"
abbreviation (input) CSR_MISA :: nat where "CSR_MISA \<equiv> 0x301"
abbreviation (input) CSR_MEDELEG :: nat where "CSR_MEDELEG \<equiv> 0x302"
abbreviation (input) CSR_MIDELEG :: nat where "CSR_MIDELEG \<equiv> 0x303"
abbreviation (input) CSR_MIE :: nat where "CSR_MIE \<equiv> 0x304"
abbreviation (input) CSR_MCOUNTEREN :: nat where "CSR_MCOUNTEREN \<equiv> 0x306"
abbreviation (input) CSR_MCOUNTINHIBIT :: nat where "CSR_MCOUNTINHIBIT \<equiv> 0x320"
abbreviation (input) CSR_MHPMEVENT3 :: nat where "CSR_MHPMEVENT3 \<equiv> 0x323"
abbreviation (input) CSR_MEPC :: nat where "CSR_MEPC \<equiv> 0x341"
abbreviation (input) CSR_MCAUSE :: nat where "CSR_MCAUSE \<equiv> 0x342"
abbreviation (input) CSR_MTVAL :: nat where "CSR_MTVAL \<equiv> 0x343"
abbreviation (input) CSR_MIP :: nat where "CSR_MIP \<equiv> 0x344"
abbreviation (input) CSR_MTINST :: nat where "CSR_MTINST \<equiv> 0x34a"
abbreviation (input) CSR_MTVAL2 :: nat where "CSR_MTVAL2 \<equiv> 0x34b"
abbreviation (input) CSR_PMPCFG0 :: nat where "CSR_PMPCFG0 \<equiv> 0x3a0"
abbreviation (input) CSR_PMPADDR0 :: nat where "CSR_PMPADDR0 \<equiv> 0x3b0"
abbreviation (input) CSR_HSTATUS :: nat where "CSR_HSTATUS \<equiv> 0x600"
abbreviation (input) CSR_HTIMEDELTA :: nat where "CSR_HTIMEDELTA \<equiv> 0x605"
abbreviation (input) CSR_HCOUNTEREN :: nat where "CSR_HCOUNTEREN \<equiv> 0x606"
abbreviation (input) CSR_HTVAL :: nat where "CSR_HTVAL \<equiv> 0x643"
abbreviation (input) CSR_HTINST :: nat where "CSR_HTINST \<equiv> 0x64a"
abbreviation (input) CSR_HGATP :: nat where "CSR_HGATP \<equiv> 0x680"
abbreviation (input) CSR_MCYCLE :: nat where "CSR_MCYCLE \<equiv> 0xb00"
abbreviation (input) CSR_MINSTRET :: nat where "CSR_MINSTRET \<equiv> 0xb02"
abbreviation (input) CSR_MHPMCOUNTER3 :: nat where "CSR_MHPMCOUNTER3 \<equiv> 0xb03"
abbreviation (input) CSR_SCOUNTOVF :: nat where "CSR_SCOUNTOVF \<equiv> 0xda0"
abbreviation (input) CSR_MVENDORID :: nat where "CSR_MVENDORID \<equiv> 0xf11"
abbreviation (input) CSR_MARCHID :: nat where "CSR_MARCHID \<equiv> 0xf12"
abbreviation (input) CSR_MIMPID :: nat where "CSR_MIMPID \<equiv> 0xf13"

abbreviation (input) MIP_SSIP :: ulong where "MIP_SSIP \<equiv> 0x2"
abbreviation (input) MIP_MSIP :: ulong where "MIP_MSIP \<equiv> 0x8"
abbreviation (input) MIP_STIP :: ulong where "MIP_STIP \<equiv> 0x20"
abbreviation (input) MIP_MTIP :: ulong where "MIP_MTIP \<equiv> 0x80"
abbreviation (input) MIP_SEIP :: ulong where "MIP_SEIP \<equiv> 0x200"
abbreviation (input) MIP_LCOFIP :: ulong where "MIP_LCOFIP \<equiv> 0x2000"

abbreviation (input) PRV_U :: ulong where "PRV_U \<equiv> 0"
abbreviation (input) PRV_S :: ulong where "PRV_S \<equiv> 1"
abbreviation (input) PRV_M :: ulong where "PRV_M \<equiv> 3"

abbreviation (input) MSTATUS_SIE :: ulong where "MSTATUS_SIE \<equiv> 0x2"
abbreviation (input) MSTATUS_SPIE :: ulong where "MSTATUS_SPIE \<equiv> 0x20"
abbreviation (input) MSTATUS_MPIE :: ulong where "MSTATUS_MPIE \<equiv> 0x80"
abbreviation (input) MSTATUS_SPP :: ulong where "MSTATUS_SPP \<equiv> 0x100"
abbreviation (input) MSTATUS_MPP :: ulong where "MSTATUS_MPP \<equiv> 0x1800"
abbreviation (input) MSTATUS_FS :: ulong where "MSTATUS_FS \<equiv> 0x6000"
abbreviation (input) MSTATUS_VS :: ulong where "MSTATUS_VS \<equiv> 0x1800000"
abbreviation (input) MSTATUS_MPRV :: ulong where "MSTATUS_MPRV \<equiv> 0x20000"
abbreviation (input) MSTATUS_MPV :: ulong where "MSTATUS_MPV \<equiv> 0x8000000000"

text \<open>\<open>BIT\<close> is \<^verbatim>\<open>1UL << nr\<close>, \<open>INSERT_FIELD\<close> the macro of \<^verbatim>\<open>sbi_bitops.h\<close>.\<close>

definition BIT :: "nat \<Rightarrow> ulong" where
  "BIT nr = sll 1 nr"

definition EXTRACT_FIELD :: "ulong \<Rightarrow> ulong \<Rightarrow> ulong" where
  "EXTRACT_FIELD val which = (val AND which) div (which AND NOT (which - 1))"

definition INSERT_FIELD :: "ulong \<Rightarrow> ulong \<Rightarrow> ulong \<Rightarrow> ulong" where
  "INSERT_FIELD val which fieldval =
     (val AND NOT which) OR (fieldval * (which AND NOT (which - 1)))"

section \<open>The platform\<close>

text \<open>
  The operations a platform may provide. A result may depend on the hart that calls. What an
  operation does to its devices is not the library's state; that it was called is in the trace.
  A vendor extension gets the members of \<^verbatim>\<open>sbi_trap_regs\<close> by their index and gives its result, the
  output value and the members of \<^verbatim>\<open>sbi_trap_info\<close>.
\<close>

record sbi_platform_operations =
  op_early_init :: "(nat \<Rightarrow> bool \<Rightarrow> int) option"
  op_final_init :: "(nat \<Rightarrow> bool \<Rightarrow> int) option"
  op_early_exit :: bool
  op_final_exit :: bool
  op_misa_check_extension :: "(nat \<Rightarrow> nat \<Rightarrow> int) option"
  op_misa_get_xlen :: "(nat \<Rightarrow> int) option"
  op_domains_init :: "int option"
  op_pmu_init :: "int option"
  op_pmu_xlate_to_mhpmevent :: "(u32 \<Rightarrow> u64 \<Rightarrow> u64) option"
  op_console_init :: "int option"
  op_irqchip_init :: "(nat \<Rightarrow> bool \<Rightarrow> int) option"
  op_irqchip_exit :: bool
  op_ipi_init :: "(nat \<Rightarrow> bool \<Rightarrow> int) option"
  op_ipi_exit :: bool
  op_get_tlbr_flush_limit :: "u64 option"
  op_timer_init :: "(nat \<Rightarrow> bool \<Rightarrow> int) option"
  op_timer_exit :: bool
  op_vendor_ext_check :: "(ulong \<Rightarrow> int) option"
  op_vendor_ext_provider ::
    "(ulong \<Rightarrow> ulong \<Rightarrow> (nat \<Rightarrow> ulong) \<Rightarrow> int \<times> ulong \<times> (nat \<Rightarrow> ulong)) option"

record sbi_platform =
  plat_name :: string
  plat_features :: u64
  hart_count :: u32
  hart_stack_size :: u32
  hart_index2id :: "u32 list option"
  plat_ops :: sbi_platform_operations

definition MINUS_1U :: u32 where
  "MINUS_1U = - 1"

fun hart_index_find :: "u32 list \<Rightarrow> u32 \<Rightarrow> nat \<Rightarrow> nat \<Rightarrow> u32" where
  "hart_index_find tab hartid count 0 = MINUS_1U"
| "hart_index_find tab hartid count (Suc k) =
     (let i = count - Suc k
      in if tab ! i = hartid then of_nat i else hart_index_find tab hartid count k)"

text \<open>A NULL platform pointer is \<open>None\<close>.\<close>

fun sbi_platform_hart_index :: "sbi_platform option \<Rightarrow> u32 \<Rightarrow> u32" where
  "sbi_platform_hart_index None hartid = MINUS_1U"
| "sbi_platform_hart_index (Some plat) hartid =
     (case hart_index2id plat of
        Some tab \<Rightarrow> hart_index_find tab hartid (unat (hart_count plat)) (unat (hart_count plat))
      | None \<Rightarrow> hartid)"

fun sbi_platform_hart_invalid :: "sbi_platform option \<Rightarrow> u32 \<Rightarrow> bool" where
  "sbi_platform_hart_invalid None hartid = True"
| "sbi_platform_hart_invalid (Some plat) hartid =
     (hart_count plat \<le> sbi_platform_hart_index (Some plat) hartid)"

fun sbi_platform_tlbr_flush_limit :: "sbi_platform option \<Rightarrow> u64" where
  "sbi_platform_tlbr_flush_limit None = 4096"
| "sbi_platform_tlbr_flush_limit (Some plat) =
     (case op_get_tlbr_flush_limit (plat_ops plat) of Some l \<Rightarrow> l | None \<Rightarrow> 4096)"

fun sbi_platform_misa_extension :: "sbi_platform option \<Rightarrow> nat \<Rightarrow> nat \<Rightarrow> int" where
  "sbi_platform_misa_extension None h ext = 0"
| "sbi_platform_misa_extension (Some plat) h ext =
     (case op_misa_check_extension (plat_ops plat) of Some f \<Rightarrow> f h ext | None \<Rightarrow> 0)"

fun sbi_platform_misa_xlen :: "sbi_platform option \<Rightarrow> nat \<Rightarrow> int" where
  "sbi_platform_misa_xlen None h = - 1"
| "sbi_platform_misa_xlen (Some plat) h =
     (case op_misa_get_xlen (plat_ops plat) of Some f \<Rightarrow> f h | None \<Rightarrow> - 1)"

fun sbi_platform_pmu_xlate_to_mhpmevent :: "sbi_platform option \<Rightarrow> u32 \<Rightarrow> u64 \<Rightarrow> u64" where
  "sbi_platform_pmu_xlate_to_mhpmevent None event_idx data = 0"
| "sbi_platform_pmu_xlate_to_mhpmevent (Some plat) event_idx data =
     (case op_pmu_xlate_to_mhpmevent (plat_ops plat) of Some f \<Rightarrow> f event_idx data | None \<Rightarrow> 0)"

fun sbi_platform_vendor_ext_check :: "sbi_platform option \<Rightarrow> ulong \<Rightarrow> int" where
  "sbi_platform_vendor_ext_check None extid = 0"
| "sbi_platform_vendor_ext_check (Some plat) extid =
     (case op_vendor_ext_check (plat_ops plat) of Some f \<Rightarrow> f extid | None \<Rightarrow> 0)"

text \<open>The macro dereferences its argument: it is not used with a NULL platform.\<close>

definition sbi_platform_has_mfaults_delegation :: "sbi_platform \<Rightarrow> bool" where
  "sbi_platform_has_mfaults_delegation plat \<longleftrightarrow> plat_features plat AND 2 \<noteq> 0"

section \<open>What the machine does that can be seen\<close>

datatype fence_op =
    Sfence_vma_all
  | Sfence_vma ulong
  | Sfence_vma_asid ulong
  | Sfence_vma_va_asid ulong ulong
  | Hfence_gvma_all
  | Hfence_gvma_gpa ulong
  | Hfence_gvma_vmid ulong
  | Hfence_gvma_vmid_gpa ulong ulong
  | Hfence_vvma_all ulong
  | Hfence_vvma_va ulong ulong
  | Hfence_vvma_asid ulong ulong
  | Hfence_vvma_asid_va ulong ulong ulong
  | Fence_i

datatype plat_call =
    Plat_early_init bool
  | Plat_final_init bool
  | Plat_early_exit
  | Plat_final_exit
  | Plat_domains_init
  | Plat_pmu_init
  | Plat_console_init
  | Plat_irqchip_init bool
  | Plat_irqchip_exit
  | Plat_ipi_init bool
  | Plat_ipi_exit
  | Plat_timer_init bool
  | Plat_timer_exit

text \<open>
  Every event carries the hart that causes it. The \<open>vvma\<close> fences carry the \<^verbatim>\<open>hgatp\<close> value
  that is in force when they execute, because it selects the virtual machine they act on.
\<close>

datatype hw_event =
    Ev_ipi_send nat nat
  | Ev_ipi_clear nat nat
  | Ev_wfi nat
  | Ev_fence nat fence_op
  | Ev_timer_start nat u64
  | Ev_timer_stop nat
  | Ev_hart_start nat nat ulong
  | Ev_hart_stop nat
  | Ev_hart_suspend nat u32 ulong
  | Ev_system_reset nat nat u32 u32
  | Ev_putc u8
  | Ev_platform nat plat_call
  | Ev_mret nat ulong ulong

section \<open>The machine state\<close>

record sbi_scratch =
  fw_start :: ulong
  fw_size :: ulong
  next_arg1 :: ulong
  next_addr :: ulong
  next_mode :: ulong
  warmboot_addr :: ulong
  options :: ulong

record hart_features =
  features :: ulong
  pmp_count :: u32
  pmp_addr_bits :: u32
  pmp_gran :: ulong
  mhpm_count :: u32
  mhpm_bits :: u32

text \<open>
  \<open>scratch_tab\<close> is \<^verbatim>\<open>hartid_to_scratch_table\<close>: whether the hart has a scratch area (the area
  itself is \<open>scratch\<close>, its typed data are fields of the components that own them).
  \<open>scratch_mem\<close> holds the bytes of the extra space handed out by the allocator.
\<close>

record machine =
  csr :: "nat \<Rightarrow> nat \<Rightarrow> ulong"
  hw_readable :: "nat \<Rightarrow> nat \<Rightarrow> bool"
  hw_writable :: "nat \<Rightarrow> nat \<Rightarrow> bool"
  hw_legal :: "nat \<Rightarrow> nat \<Rightarrow> ulong \<Rightarrow> ulong \<Rightarrow> ulong"
  trace :: "hw_event list"
  platform :: sbi_platform
  scratch_tab :: "nat \<Rightarrow> bool"
  last_hartid :: nat
  scratch :: "nat \<Rightarrow> sbi_scratch"
  scratch_mem :: "nat \<Rightarrow> nat \<Rightarrow> u8"
  extra_offset :: ulong
  hfeatures :: "nat \<Rightarrow> hart_features"

definition emit :: "hw_event \<Rightarrow> 'a machine_scheme \<Rightarrow> 'a machine_scheme" where
  "emit e s = s\<lparr>trace := trace s @ [e]\<rparr>"

section \<open>Control and status registers\<close>

definition csr_read :: "nat \<Rightarrow> nat \<Rightarrow> 'a machine_scheme \<Rightarrow> ulong" where
  "csr_read h n s = csr s h n"

definition csr_write :: "nat \<Rightarrow> nat \<Rightarrow> ulong \<Rightarrow> 'a machine_scheme \<Rightarrow> 'a machine_scheme" where
  "csr_write h n v s =
     s\<lparr>csr := (csr s)(h := (csr s h)(n := hw_legal s h n (csr s h n) v))\<rparr>"

definition csr_set :: "nat \<Rightarrow> nat \<Rightarrow> ulong \<Rightarrow> 'a machine_scheme \<Rightarrow> 'a machine_scheme" where
  "csr_set h n v s = csr_write h n (csr s h n OR v) s"

definition csr_clear :: "nat \<Rightarrow> nat \<Rightarrow> ulong \<Rightarrow> 'a machine_scheme \<Rightarrow> 'a machine_scheme" where
  "csr_clear h n v s = csr_write h n (csr s h n AND NOT v) s"

definition csr_swap :: "nat \<Rightarrow> nat \<Rightarrow> ulong \<Rightarrow> 'a machine_scheme \<Rightarrow> ulong \<times> 'a machine_scheme" where
  "csr_swap h n v s = (csr s h n, csr_write h n v s)"

text \<open>
  Probing accesses: \<open>True\<close> says that the access trapped (the trap handler of the probe records a
  non-zero cause and skips the instruction).
\<close>

definition csr_read_allowed :: "nat \<Rightarrow> nat \<Rightarrow> 'a machine_scheme \<Rightarrow> ulong \<times> bool" where
  "csr_read_allowed h n s = (if hw_readable s h n then (csr s h n, False) else (0, True))"

definition csr_write_allowed ::
  "nat \<Rightarrow> nat \<Rightarrow> ulong \<Rightarrow> 'a machine_scheme \<Rightarrow> bool \<times> 'a machine_scheme" where
  "csr_write_allowed h n v s = (if hw_writable s h n then (False, csr_write h n v s) else (True, s))"

definition sbi_hart_has_feature :: "nat \<Rightarrow> ulong \<Rightarrow> 'a machine_scheme \<Rightarrow> bool" where
  "sbi_hart_has_feature h feature s \<longleftrightarrow> features (hfeatures s h) AND feature \<noteq> 0"

definition sbi_hart_mhpm_count :: "nat \<Rightarrow> 'a machine_scheme \<Rightarrow> u32" where
  "sbi_hart_mhpm_count h s = mhpm_count (hfeatures s h)"

definition sbi_hart_mhpm_bits :: "nat \<Rightarrow> 'a machine_scheme \<Rightarrow> u32" where
  "sbi_hart_mhpm_bits h s = mhpm_bits (hfeatures s h)"

definition sbi_hart_pmp_count :: "nat \<Rightarrow> 'a machine_scheme \<Rightarrow> u32" where
  "sbi_hart_pmp_count h s = pmp_count (hfeatures s h)"

definition sbi_hart_pmp_granularity :: "nat \<Rightarrow> 'a machine_scheme \<Rightarrow> ulong" where
  "sbi_hart_pmp_granularity h s = pmp_gran (hfeatures s h)"

definition sbi_hart_pmp_addrbits :: "nat \<Rightarrow> 'a machine_scheme \<Rightarrow> u32" where
  "sbi_hart_pmp_addrbits h s = pmp_addr_bits (hfeatures s h)"

abbreviation (input) SBI_HART_HAS_SCOUNTEREN :: ulong where "SBI_HART_HAS_SCOUNTEREN \<equiv> 1"
abbreviation (input) SBI_HART_HAS_MCOUNTEREN :: ulong where "SBI_HART_HAS_MCOUNTEREN \<equiv> 2"
abbreviation (input) SBI_HART_HAS_MCOUNTINHIBIT :: ulong where "SBI_HART_HAS_MCOUNTINHIBIT \<equiv> 4"
abbreviation (input) SBI_HART_HAS_SSCOFPMF :: ulong where "SBI_HART_HAS_SSCOFPMF \<equiv> 8"
abbreviation (input) SBI_HART_HAS_TIME :: ulong where "SBI_HART_HAS_TIME \<equiv> 16"

lemmas csr_op_defs = csr_set_def csr_clear_def csr_swap_def csr_write_def csr_read_def

section \<open>Platform calls that are recorded\<close>

definition plat_event :: "nat \<Rightarrow> plat_call \<Rightarrow> 'a machine_scheme \<Rightarrow> 'a machine_scheme" where
  "plat_event h c s = emit (Ev_platform h c) s"

definition plat_cold_call ::
  "nat \<Rightarrow> (nat \<Rightarrow> bool \<Rightarrow> int) option \<Rightarrow> (bool \<Rightarrow> plat_call) \<Rightarrow> bool \<Rightarrow> 'a machine_scheme
     \<Rightarrow> int \<times> 'a machine_scheme" where
  "plat_cold_call h f c cold_boot s =
     (case f of Some g \<Rightarrow> (g h cold_boot, plat_event h (c cold_boot) s) | None \<Rightarrow> (0, s))"

definition plat_once_call ::
  "nat \<Rightarrow> int option \<Rightarrow> plat_call \<Rightarrow> 'a machine_scheme \<Rightarrow> int \<times> 'a machine_scheme" where
  "plat_once_call h f c s = (case f of Some r \<Rightarrow> (r, plat_event h c s) | None \<Rightarrow> (0, s))"

definition plat_exit_call ::
  "nat \<Rightarrow> bool \<Rightarrow> plat_call \<Rightarrow> 'a machine_scheme \<Rightarrow> 'a machine_scheme" where
  "plat_exit_call h present c s = (if present then plat_event h c s else s)"

definition sbi_platform_early_init :: "nat \<Rightarrow> bool \<Rightarrow> 'a machine_scheme \<Rightarrow> int \<times> 'a machine_scheme" where
  "sbi_platform_early_init h cold_boot s =
     plat_cold_call h (op_early_init (plat_ops (platform s))) Plat_early_init cold_boot s"

definition sbi_platform_final_init :: "nat \<Rightarrow> bool \<Rightarrow> 'a machine_scheme \<Rightarrow> int \<times> 'a machine_scheme" where
  "sbi_platform_final_init h cold_boot s =
     plat_cold_call h (op_final_init (plat_ops (platform s))) Plat_final_init cold_boot s"

definition sbi_platform_irqchip_init :: "nat \<Rightarrow> bool \<Rightarrow> 'a machine_scheme \<Rightarrow> int \<times> 'a machine_scheme" where
  "sbi_platform_irqchip_init h cold_boot s =
     plat_cold_call h (op_irqchip_init (plat_ops (platform s))) Plat_irqchip_init cold_boot s"

definition sbi_platform_ipi_init :: "nat \<Rightarrow> bool \<Rightarrow> 'a machine_scheme \<Rightarrow> int \<times> 'a machine_scheme" where
  "sbi_platform_ipi_init h cold_boot s =
     plat_cold_call h (op_ipi_init (plat_ops (platform s))) Plat_ipi_init cold_boot s"

definition sbi_platform_timer_init :: "nat \<Rightarrow> bool \<Rightarrow> 'a machine_scheme \<Rightarrow> int \<times> 'a machine_scheme" where
  "sbi_platform_timer_init h cold_boot s =
     plat_cold_call h (op_timer_init (plat_ops (platform s))) Plat_timer_init cold_boot s"

definition sbi_platform_domains_init :: "nat \<Rightarrow> 'a machine_scheme \<Rightarrow> int \<times> 'a machine_scheme" where
  "sbi_platform_domains_init h s =
     plat_once_call h (op_domains_init (plat_ops (platform s))) Plat_domains_init s"

definition sbi_platform_pmu_init :: "nat \<Rightarrow> 'a machine_scheme \<Rightarrow> int \<times> 'a machine_scheme" where
  "sbi_platform_pmu_init h s =
     plat_once_call h (op_pmu_init (plat_ops (platform s))) Plat_pmu_init s"

definition sbi_platform_console_init :: "nat \<Rightarrow> 'a machine_scheme \<Rightarrow> int \<times> 'a machine_scheme" where
  "sbi_platform_console_init h s =
     plat_once_call h (op_console_init (plat_ops (platform s))) Plat_console_init s"

definition sbi_platform_early_exit :: "nat \<Rightarrow> 'a machine_scheme \<Rightarrow> 'a machine_scheme" where
  "sbi_platform_early_exit h s =
     plat_exit_call h (op_early_exit (plat_ops (platform s))) Plat_early_exit s"

definition sbi_platform_final_exit :: "nat \<Rightarrow> 'a machine_scheme \<Rightarrow> 'a machine_scheme" where
  "sbi_platform_final_exit h s =
     plat_exit_call h (op_final_exit (plat_ops (platform s))) Plat_final_exit s"

definition sbi_platform_irqchip_exit :: "nat \<Rightarrow> 'a machine_scheme \<Rightarrow> 'a machine_scheme" where
  "sbi_platform_irqchip_exit h s =
     plat_exit_call h (op_irqchip_exit (plat_ops (platform s))) Plat_irqchip_exit s"

definition sbi_platform_ipi_exit :: "nat \<Rightarrow> 'a machine_scheme \<Rightarrow> 'a machine_scheme" where
  "sbi_platform_ipi_exit h s =
     plat_exit_call h (op_ipi_exit (plat_ops (platform s))) Plat_ipi_exit s"

definition sbi_platform_timer_exit :: "nat \<Rightarrow> 'a machine_scheme \<Rightarrow> 'a machine_scheme" where
  "sbi_platform_timer_exit h s =
     plat_exit_call h (op_timer_exit (plat_ops (platform s))) Plat_timer_exit s"

lemmas plat_call_defs = plat_event_def plat_cold_call_def plat_once_call_def plat_exit_call_def
  sbi_platform_early_init_def sbi_platform_final_init_def sbi_platform_irqchip_init_def
  sbi_platform_ipi_init_def sbi_platform_timer_init_def sbi_platform_domains_init_def
  sbi_platform_pmu_init_def sbi_platform_console_init_def sbi_platform_early_exit_def
  sbi_platform_final_exit_def sbi_platform_irqchip_exit_def sbi_platform_ipi_exit_def
  sbi_platform_timer_exit_def

section \<open>A small machine for concrete runs\<close>

text \<open>Four harts with a scratch area each, every register readable, writable and unrestricted, a
  platform without optional operations. The concrete instances of the properties run on it.\<close>

definition plat_ops0 :: sbi_platform_operations where
  "plat_ops0 = \<lparr>op_early_init = None, op_final_init = None, op_early_exit = False,
     op_final_exit = False, op_misa_check_extension = None, op_misa_get_xlen = None,
     op_domains_init = None, op_pmu_init = None, op_pmu_xlate_to_mhpmevent = None,
     op_console_init = None, op_irqchip_init = None, op_irqchip_exit = False, op_ipi_init = None,
     op_ipi_exit = False, op_get_tlbr_flush_limit = None, op_timer_init = None,
     op_timer_exit = False, op_vendor_ext_check = None, op_vendor_ext_provider = None\<rparr>"

definition platform0 :: sbi_platform where
  "platform0 = \<lparr>plat_name = ''sample'', plat_features = 2, hart_count = 4, hart_stack_size = 8192,
     hart_index2id = None, plat_ops = plat_ops0\<rparr>"

definition scratch0 :: sbi_scratch where
  "scratch0 = \<lparr>fw_start = 0x80000000, fw_size = 0x20000, next_arg1 = 0, next_addr = 0x80200000,
     next_mode = 1, warmboot_addr = 0x80000100, options = 0\<rparr>"

definition hart_features0 :: hart_features where
  "hart_features0 = \<lparr>features = 31, pmp_count = 16, pmp_addr_bits = 54, pmp_gran = 4,
     mhpm_count = 4, mhpm_bits = 64\<rparr>"

definition machine0 :: machine where
  "machine0 = \<lparr>csr = (\<lambda>h n. 0), hw_readable = (\<lambda>h n. True), hw_writable = (\<lambda>h n. True),
     hw_legal = (\<lambda>h n old v. v), trace = [], platform = platform0, scratch_tab = (\<lambda>h. h < 4),
     last_hartid = 3, scratch = (\<lambda>h. scratch0), scratch_mem = (\<lambda>h b. 0), extra_offset = 88,
     hfeatures = (\<lambda>h. hart_features0)\<rparr>"

lemmas machine0_defs = plat_ops0_def platform0_def scratch0_def hart_features0_def machine0_def

end
