(* ===== verification/Sbi_Scratch.thy ===== *)
theory Sbi_Scratch
  imports Sbi_Machine
begin

text \<open>
  \<^verbatim>\<open>lib/sbi/sbi_scratch.c\<close>: the table of per hart scratch areas and the allocator of the extra
  space in them, and \<^verbatim>\<open>lib/sbi/sbi_math.c\<close>. The allocator only ever grows an offset that is
  shared by all harts, so an allocation is the same range of bytes in every hart's area; what the
  lemmas show is that ranges are aligned, inside the area, pairwise disjoint and zeroed.
\<close>

abbreviation (input) SBI_SCRATCH_EXTRA_SPACE_OFFSET :: ulong where "SBI_SCRATCH_EXTRA_SPACE_OFFSET \<equiv> 88"
abbreviation (input) SBI_SCRATCH_SIZE :: ulong where "SBI_SCRATCH_SIZE \<equiv> 0x1000"

section \<open>The table\<close>

text \<open>\<open>hartid2scratch\<close> is the firmware's conversion function: whether hart \<open>i\<close> with the given
  index has a scratch area.\<close>

definition scratch_init_step ::
  "(nat \<Rightarrow> u32 \<Rightarrow> bool) \<Rightarrow> 'a machine_scheme \<Rightarrow> nat \<Rightarrow> 'a machine_scheme" where
  "scratch_init_step hartid2scratch s i =
     (if sbi_platform_hart_invalid (Some (platform s)) (of_nat i) then s
      else
        let present = hartid2scratch i (sbi_platform_hart_index (Some (platform s)) (of_nat i));
            s = s\<lparr>scratch_tab := (scratch_tab s)(i := present)\<rparr>
        in if present then s\<lparr>last_hartid := i\<rparr> else s)"

definition sbi_scratch_init ::
  "(nat \<Rightarrow> u32 \<Rightarrow> bool) \<Rightarrow> 'a machine_scheme \<Rightarrow> int \<times> 'a machine_scheme" where
  "sbi_scratch_init hartid2scratch s =
     (0, foldl (scratch_init_step hartid2scratch) s [0..<SBI_HARTMASK_MAX_BITS])"

section \<open>The allocator\<close>

definition scratch_size_roundup :: "ulong \<Rightarrow> ulong" where
  "scratch_size_roundup sz = (if sz AND 7 \<noteq> 0 then (sz AND NOT 7) + 8 else sz)"

definition scratch_zero ::
  "ulong \<Rightarrow> ulong \<Rightarrow> 'a machine_scheme \<Rightarrow> nat \<Rightarrow> 'a machine_scheme" where
  "scratch_zero off sz s i =
     (if \<not> scratch_tab s i then s
      else s\<lparr>scratch_mem := (scratch_mem s)
               (i := \<lambda>b. if unat off \<le> b \<and> b < unat off + unat sz then 0 else scratch_mem s i b)\<rparr>)"

definition sbi_scratch_alloc_offset :: "ulong \<Rightarrow> 'a machine_scheme \<Rightarrow> ulong \<times> 'a machine_scheme" where
  "sbi_scratch_alloc_offset sz s =
     (if sz = 0 then (0, s)
      else
        let sz = scratch_size_roundup sz;
            (ret, s) = (if SBI_SCRATCH_SIZE < extra_offset s + sz then (0, s)
                        else (extra_offset s, s\<lparr>extra_offset := extra_offset s + sz\<rparr>))
        in if ret \<noteq> 0 then (ret, foldl (scratch_zero ret sz) s [0..<last_hartid s + 1])
           else (ret, s))"

definition sbi_scratch_free_offset :: "ulong \<Rightarrow> 'a machine_scheme \<Rightarrow> 'a machine_scheme" where
  "sbi_scratch_free_offset off s = s"

section \<open>Rounding up a logarithm\<close>

fun log2roundup_loop :: "nat \<Rightarrow> ulong \<Rightarrow> nat \<Rightarrow> nat" where
  "log2roundup_loop 0 x ret = ret"
| "log2roundup_loop (Suc k) x ret =
     (if x \<le> push_bit ret 1 then ret else log2roundup_loop k x (ret + 1))"

definition log2roundup :: "ulong \<Rightarrow> nat" where
  "log2roundup x = log2roundup_loop 64 x 0"

lemma log2roundup_loop_le: "log2roundup_loop k x r \<le> r + k"
  by (induction k x r rule: log2roundup_loop.induct) auto

lemma log2roundup_le: "log2roundup x \<le> 64"
  using log2roundup_loop_le [of 64 x 0] by (simp add: log2roundup_def)

lemma log2roundup_loop_upper:
  "r + k = 64 \<Longrightarrow> log2roundup_loop k x r < 64 \<Longrightarrow> x \<le> push_bit (log2roundup_loop k x r) 1"
  by (induction k x r rule: log2roundup_loop.induct) auto

lemma log2roundup_loop_lower:
  "r \<le> j \<Longrightarrow> j < log2roundup_loop k x r \<Longrightarrow> push_bit j 1 < x"
proof (induction k x r rule: log2roundup_loop.induct)
  case (2 k x r)
  show ?case
  proof (cases "x \<le> push_bit r 1")
    case True
    then show ?thesis using 2 by simp
  next
    case False
    show ?thesis
    proof (cases "j = r")
      case True
      then show ?thesis using False by (simp add: not_le)
    next
      case j: False
      have "j < log2roundup_loop k x (r + 1)"
        using "2.prems"(2) False by (simp only: log2roundup_loop.simps if_False)
      then show ?thesis using 2 False j by simp
    qed
  qed
qed simp

text \<open>The result is the least \<open>n\<close> with \<open>x \<le> 2 ^ n\<close>, and 64 when there is none below 64.\<close>

lemma unat_push_bit_one: "n < 64 \<Longrightarrow> unat (push_bit n 1 :: ulong) = 2 ^ n"
proof -
  assume "n < 64"
  then have "(2 :: nat) ^ n < 2 ^ 64" by (rule power_strict_increasing) simp
  moreover have "unat (push_bit n 1 :: ulong) = take_bit 64 (push_bit n 1)"
    by (simp only: unsigned_push_bit_eq unsigned_1) simp
  ultimately show ?thesis using \<open>n < 64\<close> by (simp add: take_bit_nat_eq_self)
qed

lemma log2roundup_le_exp: "unat x \<le> 2 ^ log2roundup x"
proof (cases "log2roundup x < 64")
  case True
  then have "x \<le> push_bit (log2roundup x) 1"
    using log2roundup_loop_upper [of 0 64 x] by (simp add: log2roundup_def)
  then show ?thesis using True by (simp only: word_le_nat_alt unat_push_bit_one)
next
  case False
  then have "log2roundup x = 64" using log2roundup_le [of x] by linarith
  then show ?thesis using unat_u64_less [of x] by simp
qed

lemma log2roundup_least:
  assumes "unat x \<le> 2 ^ n"
  shows "log2roundup x \<le> n"
proof (rule ccontr)
  assume "\<not> log2roundup x \<le> n"
  then have "n < log2roundup x" by simp
  then have n: "n < 64" using log2roundup_le [of x] by linarith
  have "push_bit n 1 < x"
    using \<open>n < log2roundup x\<close> log2roundup_loop_lower [of 0 n 64 x] by (simp add: log2roundup_def)
  then have "2 ^ n < unat x" using n by (simp only: word_less_nat_alt unat_push_bit_one)
  then show False using assms by simp
qed

section \<open>Allocation lemmas\<close>

lemma scratch_zero_frame [simp]:
  "scratch_tab (scratch_zero off sz s i) = scratch_tab s"
  "last_hartid (scratch_zero off sz s i) = last_hartid s"
  "extra_offset (scratch_zero off sz s i) = extra_offset s"
  by (simp_all add: scratch_zero_def)

lemma scratch_zero_fold_frame [simp]:
  "scratch_tab (foldl (scratch_zero off sz) s is) = scratch_tab s"
  "last_hartid (foldl (scratch_zero off sz) s is) = last_hartid s"
  "extra_offset (foldl (scratch_zero off sz) s is) = extra_offset s"
  by (induction "is" arbitrary: s) simp_all

lemma scratch_zero_fold_mem:
  "scratch_mem (foldl (scratch_zero off sz) s is) i b =
     (if i \<in> set is \<and> scratch_tab s i \<and> unat off \<le> b \<and> b < unat off + unat sz then 0
      else scratch_mem s i b)"
  by (induction "is" arbitrary: s) (auto simp: scratch_zero_def)

lemma scratch_zero_fold_update:
  "foldl (scratch_zero off sz) s is = s\<lparr>scratch_mem := scratch_mem (foldl (scratch_zero off sz) s is)\<rparr>"
proof (induction "is" arbitrary: s)
  case (Cons a "is")
  have "foldl (scratch_zero off sz) s (a # is)
      = (scratch_zero off sz s a)\<lparr>scratch_mem := scratch_mem (foldl (scratch_zero off sz) s (a # is))\<rparr>"
    using Cons.IH [of "scratch_zero off sz s a"] by simp
  moreover have "scratch_zero off sz s a = s\<lparr>scratch_mem := scratch_mem (scratch_zero off sz s a)\<rparr>"
    by (simp add: scratch_zero_def)
  ultimately show ?case by (metis (no_types) machine.update_convs(10) machine.surjective)
qed simp

text \<open>An allocation changes the offset and the memory, nothing else.\<close>

lemma scratch_alloc_update:
  "\<exists>e m. snd (sbi_scratch_alloc_offset sz s) = s\<lparr>extra_offset := e, scratch_mem := m\<rparr>"
proof -
  have z: "\<exists>e m. foldl (scratch_zero off n) (s\<lparr>extra_offset := x\<rparr>) is
      = s\<lparr>extra_offset := e, scratch_mem := m\<rparr>" for off n x "is"
    by (subst scratch_zero_fold_update) blast
  have s: "\<exists>e m. s = s\<lparr>extra_offset := e, scratch_mem := m\<rparr>"
    by (intro exI [of _ "extra_offset s"] exI [of _ "scratch_mem s"]) simp
  have x: "\<exists>e m. s\<lparr>extra_offset := x\<rparr> = s\<lparr>extra_offset := e, scratch_mem := m\<rparr>" for x
    by (intro exI [of _ x] exI [of _ "scratch_mem s"]) simp
  show ?thesis
    using z s x by (cases "sz = 0"; cases "SBI_SCRATCH_SIZE < extra_offset s + scratch_size_roundup sz";
      cases "extra_offset s = 0") (simp_all only: sbi_scratch_alloc_offset_def Let_def if_True if_False
        snd_conv split_conv not_True_eq_False not_False_eq_True simp_thms)
qed

text \<open>The allocator's invariant: the offset is aligned and inside the area.\<close>

definition scratch_ok :: "'a machine_scheme \<Rightarrow> bool" where
  "scratch_ok s \<longleftrightarrow> SBI_SCRATCH_EXTRA_SPACE_OFFSET \<le> extra_offset s
     \<and> extra_offset s \<le> SBI_SCRATCH_SIZE \<and> extra_offset s AND 7 = 0"

lemma unat_and_7: "unat (x AND 7 :: ulong) = unat x mod 8"
proof -
  have "x AND 7 = take_bit 3 x" by (simp add: take_bit_eq_mask mask_eq_exp_minus_1)
  then have "unat (x AND 7) = take_bit 3 (unat x)" by (simp only: unsigned_take_bit_eq)
  then show ?thesis by (simp add: take_bit_eq_mod)
qed

lemma and_not_minus: "(x :: ulong) AND NOT y = x - (x AND y)"
proof -
  have "(x AND y) + (x AND NOT y) = (x AND y) OR (x AND NOT y)"
    by (rule disjunctive_add_eq_or) (rule bit_eqI, simp add: bit_and_iff bit_not_iff)
  also have "\<dots> = x" by (rule bit_eqI) (auto simp: bit_and_iff bit_or_iff bit_not_ulong dest: word64_bit_less)
  finally show ?thesis by (simp add: algebra_simps)
qed

lemma unat_and_not_7: "unat (x AND NOT 7 :: ulong) = unat x - unat x mod 8"
proof -
  have "x AND 7 \<le> x" by (simp add: word_and_le2)
  then have "unat (x - (x AND 7)) = unat x - unat (x AND 7)" by (rule unat_sub)
  then show ?thesis by (simp only: and_not_minus unat_and_7)
qed

lemma roundup_8:
  fixes n :: nat
  shows "n mod 8 = 0 \<Longrightarrow> 8 * ((n + 7) div 8) = n"
    and "n mod 8 \<noteq> 0 \<Longrightarrow> 8 * ((n + 7) div 8) = n - n mod 8 + 8"
proof -
  define q r where "q = n div 8" and "r = n mod 8"
  then have n: "n = 8 * q + r" and r: "r < 8" by simp_all
  have d: "(8 * q + r + 7) div 8 = q + (if r = 0 then 0 else 1)"
    using r by (intro div_nat_eqI) auto
  show "n mod 8 = 0 \<Longrightarrow> 8 * ((n + 7) div 8) = n"
    "n mod 8 \<noteq> 0 \<Longrightarrow> 8 * ((n + 7) div 8) = n - n mod 8 + 8"
    unfolding r_def [symmetric] using d n by simp_all
qed

lemma unat_size_roundup:
  assumes "unat sz \<le> 2 ^ 63"
  shows "unat (scratch_size_roundup sz) = 8 * ((unat sz + 7) div 8)"
proof (cases "unat sz mod 8 = 0")
  case True
  then have "sz AND 7 = 0" by (simp only: word_unat_eq_iff unat_and_7) simp
  then show ?thesis using roundup_8(1) [OF True] by (simp add: scratch_size_roundup_def)
next
  case False
  then have nz: "sz AND 7 \<noteq> 0" by (simp only: word_unat_eq_iff unat_and_7) simp
  have "unat (sz AND NOT 7) + unat (8 :: ulong) < 2 ^ 64"
    using assms by (simp only: unat_and_not_7) simp
  then have "unat ((sz AND NOT 7) + 8) = unat (sz AND NOT 7) + unat (8 :: ulong)"
    by (simp add: unat_word_ariths)
  also have "\<dots> = unat sz - unat sz mod 8 + 8"
    by (simp only: unat_and_not_7) simp
  finally show ?thesis
    using nz roundup_8(2) [OF False] by (simp only: scratch_size_roundup_def if_True not_False_eq_True)
qed

lemma size_roundup_bounds:
  assumes "unat sz \<le> 2 ^ 63"
  shows "unat sz \<le> unat (scratch_size_roundup sz)"
    and "unat (scratch_size_roundup sz) < unat sz + 8"
    and "unat (scratch_size_roundup sz) mod 8 = 0"
  unfolding unat_size_roundup [OF assms] by linarith+ (simp)

lemma scratch_okD:
  assumes "scratch_ok s"
  shows "88 \<le> unat (extra_offset s)" "unat (extra_offset s) \<le> 4096"
    "unat (extra_offset s) mod 8 = 0"
proof -
  show "88 \<le> unat (extra_offset s)" "unat (extra_offset s) \<le> 4096"
    using assms by (simp_all add: scratch_ok_def word_le_nat_alt)
  have "extra_offset s AND 7 = 0" using assms by (simp add: scratch_ok_def)
  then show "unat (extra_offset s) mod 8 = 0"
    using unat_and_7 [of "extra_offset s"] by simp
qed

lemma scratch_okI:
  assumes "88 \<le> unat (extra_offset s)" "unat (extra_offset s) \<le> 4096"
    "unat (extra_offset s) mod 8 = 0"
  shows "scratch_ok s"
proof -
  have "extra_offset s AND 7 = 0"
    using assms(3) by (simp only: word_unat_eq_iff unat_and_7) simp
  then show ?thesis using assms by (simp add: scratch_ok_def word_le_nat_alt)
qed

lemma scratch_alloc_cases:
  assumes "scratch_ok s" "sz \<noteq> 0" "unat sz \<le> 2 ^ 63"
    and "sbi_scratch_alloc_offset sz s = (ret, s')"
  obtains (full) "ret = 0" "s' = s" "4096 < unat (extra_offset s) + unat (scratch_size_roundup sz)"
  | (ok) "ret = extra_offset s" "ret \<noteq> 0" "scratch_ok s'"
      "unat (extra_offset s') = unat ret + unat (scratch_size_roundup sz)"
      "s' = foldl (scratch_zero ret (scratch_size_roundup sz))
              (s\<lparr>extra_offset := extra_offset s + scratch_size_roundup sz\<rparr>) [0..<last_hartid s + 1]"
proof (cases "SBI_SCRATCH_SIZE < extra_offset s + scratch_size_roundup sz")
  note o = scratch_okD [OF assms(1)] and r = size_roundup_bounds [OF assms(3)]
  have nw: "unat (extra_offset s + scratch_size_roundup sz)
      = unat (extra_offset s) + unat (scratch_size_roundup sz)"
    using o r assms(3) by (simp add: unat_word_ariths)
  case True
  then show ?thesis
    using full assms(2,4) nw by (simp add: sbi_scratch_alloc_offset_def Let_def word_less_nat_alt)
next
  note o = scratch_okD [OF assms(1)] and r = size_roundup_bounds [OF assms(3)]
  have nw: "unat (extra_offset s + scratch_size_roundup sz)
      = unat (extra_offset s) + unat (scratch_size_roundup sz)"
    using o r assms(3) by (simp add: unat_word_ariths)
  case False
  let ?s = "s\<lparr>extra_offset := extra_offset s + scratch_size_roundup sz\<rparr>"
  have nz: "extra_offset s \<noteq> 0" using o(1) by (auto simp: word_unat_eq_iff)
  have s': "s' = foldl (scratch_zero (extra_offset s) (scratch_size_roundup sz)) ?s [0..<last_hartid s + 1]"
    and ret: "ret = extra_offset s"
    using assms(2,4) False nz by (auto simp: sbi_scratch_alloc_offset_def Let_def)
  have off: "extra_offset s' = extra_offset s + scratch_size_roundup sz" by (simp add: s')
  have "unat (extra_offset s) + unat (scratch_size_roundup sz) \<le> 4096"
    using False nw by (simp add: word_less_nat_alt not_less)
  then have "scratch_ok s'"
    using o r nw by (intro scratch_okI) (simp_all add: off mod_add_eq [symmetric])
  then show ?thesis using ok ret nz s' nw off by simp
qed

text \<open>A run of allocations: the offsets, in order, and the final state.\<close>

fun scratch_alloc_run :: "ulong list \<Rightarrow> 'a machine_scheme \<Rightarrow> ulong list \<times> 'a machine_scheme" where
  "scratch_alloc_run [] s = ([], s)"
| "scratch_alloc_run (sz # szs) s =
     (let (ret, s) = sbi_scratch_alloc_offset sz s; (rets, s) = scratch_alloc_run szs s
      in (ret # rets, s))"

lemma scratch_alloc_step:
  assumes "scratch_ok s" "unat sz \<le> 2 ^ 63" "sbi_scratch_alloc_offset sz s = (ret, s')"
  shows "scratch_ok s'" "extra_offset s \<le> extra_offset s'"
    "ret \<noteq> 0 \<Longrightarrow> ret = extra_offset s \<and> unat ret + unat sz \<le> unat (extra_offset s')"
proof -
  have "scratch_ok s' \<and> extra_offset s \<le> extra_offset s' \<and>
    (ret \<noteq> 0 \<longrightarrow> ret = extra_offset s \<and> unat ret + unat sz \<le> unat (extra_offset s'))"
  proof (cases "sz = 0")
    case True
    then show ?thesis using assms by (simp add: sbi_scratch_alloc_offset_def)
  next
    case False
    from assms(1) False assms(2,3) show ?thesis
    proof (cases rule: scratch_alloc_cases)
      case full
      then show ?thesis using assms(1) by simp
    next
      case ok
      then show ?thesis using size_roundup_bounds(1) [OF assms(2)] by (simp add: word_le_nat_alt)
    qed
  qed
  then show "scratch_ok s'" "extra_offset s \<le> extra_offset s'"
    "ret \<noteq> 0 \<Longrightarrow> ret = extra_offset s \<and> unat ret + unat sz \<le> unat (extra_offset s')"
    by blast+
qed

lemma scratch_alloc_run_lower:
  assumes "scratch_ok s" "\<forall>sz\<in>set szs. unat sz \<le> 2 ^ 63" "scratch_alloc_run szs s = (rets, s')"
  shows "scratch_ok s' \<and> length rets = length szs
    \<and> (\<forall>i<length szs. rets ! i \<noteq> 0 \<longrightarrow> extra_offset s \<le> rets ! i
          \<and> unat (rets ! i) + unat (szs ! i) \<le> 4096)
    \<and> (\<forall>i<length szs. \<forall>j<i. rets ! j \<noteq> 0 \<longrightarrow> rets ! i \<noteq> 0
          \<longrightarrow> unat (rets ! j) + unat (szs ! j) \<le> unat (rets ! i))"
  using assms
proof (induction szs arbitrary: s rets)
  case Nil
  then show ?case by simp
next
  case (Cons sz szs)
  obtain ret t where a: "sbi_scratch_alloc_offset sz s = (ret, t)" by fastforce
  obtain rs u where r: "scratch_alloc_run szs t = (rs, u)" by fastforce
  have rets: "rets = ret # rs" and s': "s' = u" using Cons.prems(3) a r by simp_all
  have sz: "unat sz \<le> 2 ^ 63" using Cons.prems(2) by simp
  note st = scratch_alloc_step [OF Cons.prems(1) sz a]
  have ih: "scratch_ok u" "length rs = length szs"
    "\<And>i. i < length szs \<Longrightarrow> rs ! i \<noteq> 0 \<Longrightarrow> extra_offset t \<le> rs ! i \<and> unat (rs ! i) + unat (szs ! i) \<le> 4096"
    "\<And>i j. i < length szs \<Longrightarrow> j < i \<Longrightarrow> rs ! j \<noteq> 0 \<Longrightarrow> rs ! i \<noteq> 0 \<Longrightarrow> unat (rs ! j) + unat (szs ! j) \<le> unat (rs ! i)"
    using Cons.IH [OF st(1)] r Cons.prems(2) s' by auto
  have t: "unat (extra_offset t) \<le> 4096" using scratch_okD [OF st(1)] by simp
  have "rets ! i \<noteq> 0 \<longrightarrow> extra_offset s \<le> rets ! i \<and> unat (rets ! i) + unat ((sz # szs) ! i) \<le> 4096"
    if "i < length (sz # szs)" for i
    using that ih(3) [of "i - 1"] st(2,3) t rets by (cases i) (auto intro: order_trans)
  moreover have "rets ! j \<noteq> 0 \<longrightarrow> rets ! i \<noteq> 0 \<longrightarrow> unat (rets ! j) + unat ((sz # szs) ! j) \<le> unat (rets ! i)"
    if "i < length (sz # szs)" "j < i" for i j
    using that ih(3,4) [of "i - 1"] ih(4) [of "i - 1" "j - 1"] st(3) rets
    by (cases i; cases j) (auto simp: word_le_nat_alt)
  ultimately show ?case using ih(1,2) rets s' by simp
qed

section \<open>Properties\<close>

text \<open>C16. Whatever sequence of sizes (up to 2^63 bytes) is requested, the non-zero offsets that
  \<^verbatim>\<open>sbi_scratch_alloc_offset()\<close> returns start after the fixed part of the scratch area, the
  ranges lie inside it, and an earlier allocation never overlaps a later one.\<close>

theorem scratch_allocations_disjoint:
  assumes "scratch_ok s" and "\<forall>sz\<in>set szs. unat sz \<le> 2 ^ 63"
    and "scratch_alloc_run szs s = (rets, s')"
    and "i < length szs" and "j < i" and "rets ! i \<noteq> 0" and "rets ! j \<noteq> 0"
  shows "88 \<le> unat (rets ! j) \<and> unat (rets ! j) + unat (szs ! j) \<le> unat (rets ! i)
    \<and> unat (rets ! i) + unat (szs ! i) \<le> 4096"
proof -
  note L = scratch_alloc_run_lower [OF assms(1-3)]
  have "extra_offset s \<le> rets ! j" using L assms(4,5,7) by (metis order_less_trans)
  then have "88 \<le> unat (rets ! j)"
    using scratch_okD(1) [OF assms(1)] by (simp add: word_le_nat_alt)
  then show ?thesis using L assms(4-7) by blast
qed

theorem scratch_allocations_disjoint_witness:
  "88 \<le> unat (fst (scratch_alloc_run [20, 8] machine0) ! 0)
    \<and> unat (fst (scratch_alloc_run [20, 8] machine0) ! 0) + 20
        \<le> unat (fst (scratch_alloc_run [20, 8] machine0) ! 1)
    \<and> unat (fst (scratch_alloc_run [20, 8] machine0) ! 1) + 8 \<le> 4096"
proof -
  have r: "fst (scratch_alloc_run [20, 8] machine0) = [88, 112]" by code_simp
  have ok: "scratch_ok machine0" by code_simp
  have sz: "\<forall>sz\<in>set [20, 8 :: ulong]. unat sz \<le> 2 ^ 63" by simp
  show ?thesis
    using scratch_allocations_disjoint [OF ok sz prod.collapse [symmetric], of 1 0]
    by (simp add: r del: scratch_alloc_run.simps)
qed

text \<open>A successful allocation is zeroed in the scratch area of every hart that has one, and
  no byte outside the (rounded up) range changes.\<close>

theorem scratch_alloc_zeroed:
  assumes "scratch_ok s" and "sz \<noteq> 0" and "unat sz \<le> 2 ^ 63"
    and "sbi_scratch_alloc_offset sz s = (ret, s')" and "ret \<noteq> 0"
  shows "scratch_mem s' i b =
    (if i \<le> last_hartid s \<and> scratch_tab s i \<and> unat ret \<le> b
        \<and> b < unat ret + 8 * ((unat sz + 7) div 8) then 0 else scratch_mem s i b)"
  using assms(1-4)
proof (cases rule: scratch_alloc_cases)
  case full
  then show ?thesis using assms(5) by simp
next
  case ok
  then show ?thesis
    by (simp only: ok(5) scratch_zero_fold_mem unat_size_roundup [OF assms(3)]) auto
qed

theorem scratch_alloc_zeroed_witness:
  "scratch_mem (snd (sbi_scratch_alloc_offset 5 (machine0\<lparr>scratch_mem := \<lambda>h b. 0xff\<rparr>))) 2 95 = 0
    \<and> scratch_mem (snd (sbi_scratch_alloc_offset 5 (machine0\<lparr>scratch_mem := \<lambda>h b. 0xff\<rparr>))) 2 96 = 0xff"
proof -
  let ?m = "machine0\<lparr>scratch_mem := \<lambda>h b. 0xff\<rparr>"
  have r: "fst (sbi_scratch_alloc_offset 5 ?m) = 88" by code_simp
  have ok: "scratch_ok ?m" by code_simp
  have "(5 :: ulong) \<noteq> 0" "unat (5 :: ulong) \<le> 2 ^ 63" by simp_all
  from scratch_alloc_zeroed [OF ok this prod.collapse [symmetric], of 2 95]
    scratch_alloc_zeroed [OF ok this prod.collapse [symmetric], of 2 96] r
  show ?thesis by (simp add: machine0_def)
qed

end
