(* ===== verification/Riscv_Asm.thy ===== *)
theory Riscv_Asm
  imports Sbi_Scratch
begin

text \<open>
  \<^verbatim>\<open>lib/sbi/riscv_asm.c\<close>: the extensions a hart implements, registers accessed by number, and
  the physical memory protection entries. A register number outside the switch of
  \<^verbatim>\<open>csr_read_num()\<close> and \<^verbatim>\<open>csr_write_num()\<close> ends in \<^verbatim>\<open>sbi_panic()\<close>, which hangs the hart.
  The main result is that \<^verbatim>\<open>pmp_get()\<close> reads back what \<^verbatim>\<open>pmp_set()\<close> wrote.
\<close>

section \<open>Extensions\<close>

text \<open>Characters are their ASCII codes.\<close>

definition misa_extension_imp :: "nat \<Rightarrow> nat \<Rightarrow> 'a machine_scheme \<Rightarrow> int" where
  "misa_extension_imp h ext s =
     (let misa = csr_read h CSR_MISA s
      in if misa \<noteq> 0 then
           (if 65 \<le> ext \<and> ext \<le> 90 then uint (misa AND BIT (ext - 65))
            else if 97 \<le> ext \<and> ext \<le> 122 then uint (misa AND BIT (ext - 97))
            else 0)
         else sbi_platform_misa_extension (Some (platform s)) h ext)"

text \<open>The macro \<^verbatim>\<open>misa_extension\<close> with its letter as a character.\<close>

definition misa_extension :: "nat \<Rightarrow> char \<Rightarrow> 'a machine_scheme \<Rightarrow> bool" where
  "misa_extension h c s \<longleftrightarrow> misa_extension_imp h (of_char c) s \<noteq> 0"

text \<open>
  The assembly computes the sign of \<^verbatim>\<open>misa\<close> doubled plus the sign of \<^verbatim>\<open>misa << 1\<close>.
\<close>

definition misa_xlen :: "nat \<Rightarrow> 'a machine_scheme \<Rightarrow> int" where
  "misa_xlen h s =
     (if csr_read h CSR_MISA s = 0 then sbi_platform_misa_xlen (Some (platform s)) h
      else
        let t0 = csr_read h CSR_MISA s;
            t1 = 2 * (if t0 <s 0 then 1 else 0 :: int);
            r = (if push_bit 1 t0 <s 0 then 1 else 0) + t1
        in if r \<noteq> 0 then r else - 1)"

definition valid_isa_order :: "nat list" where
  "valid_isa_order = map of_char ''iemafdqclbjtpvnsuhkorwxyzg'' @ [0]"

text \<open>
  \<open>misa_string\<close> returns what it writes to the buffer, \<open>Hang\<close> when it panics on the width.
\<close>

definition misa_xlen_digits :: "int \<Rightarrow> nat list option" where
  "misa_xlen_digits xlen =
     (if xlen = 1 then Some (map of_char ''32'')
      else if xlen = 2 then Some (map of_char ''64'')
      else if xlen = 3 then Some (map of_char ''128'')
      else None)"

definition misa_string_step ::
  "nat \<Rightarrow> nat \<Rightarrow> 'a machine_scheme \<Rightarrow> nat list \<Rightarrow> nat \<Rightarrow> nat list" where
  "misa_string_step h out_sz s out c =
     (if length out < out_sz \<and> misa_extension_imp h c s \<noteq> 0 then out @ [c] else out)"

definition misa_string_tail ::
  "nat \<Rightarrow> nat \<Rightarrow> 'a machine_scheme \<Rightarrow> nat list \<Rightarrow> nat list" where
  "misa_string_tail h out_sz s out =
     (let out = foldl (misa_string_step h out_sz s) out valid_isa_order
      in if length out < out_sz then out @ [0] else out)"

definition misa_string ::
  "nat \<Rightarrow> int \<Rightarrow> nat \<Rightarrow> 'a machine_scheme \<Rightarrow> (nat list, 'a machine_scheme) flow" where
  "misa_string h xlen out_sz s =
     (if 5 \<le> out_sz then
        (case misa_xlen_digits xlen of
           None \<Rightarrow> Hang s
         | Some ds \<Rightarrow> Ret (misa_string_tail h out_sz s (map of_char ''rv'' @ ds)) s)
      else Ret (misa_string_tail h out_sz s []) s)"

lemma misa_string_step_le:
  "length out \<le> out_sz \<Longrightarrow> length (misa_string_step h out_sz s out c) \<le> out_sz"
  by (simp add: misa_string_step_def)

lemma misa_string_tail_le:
  assumes "length out \<le> out_sz"
  shows "length (misa_string_tail h out_sz s out) \<le> out_sz"
proof -
  have "length (foldl (misa_string_step h out_sz s) out valid_isa_order) \<le> out_sz"
    by (rule foldl_invariant [where I = "\<lambda>out. length out \<le> out_sz"])
      (auto simp: assms misa_string_step_le)
  then show ?thesis by (simp add: misa_string_tail_def Let_def)
qed

section \<open>Registers by number\<close>

definition csr_num_known :: "nat \<Rightarrow> bool" where
  "csr_num_known n \<longleftrightarrow>
     (CSR_PMPCFG0 \<le> n \<and> n < CSR_PMPCFG0 + 16) \<or> (CSR_PMPADDR0 \<le> n \<and> n < CSR_PMPADDR0 + 64)
     \<or> n = CSR_MCYCLE \<or> n = CSR_MINSTRET \<or> (CSR_MHPMCOUNTER3 \<le> n \<and> n \<le> 0xb1f)
     \<or> n = CSR_MCOUNTINHIBIT \<or> (CSR_MHPMEVENT3 \<le> n \<and> n \<le> 0x33f)"

definition csr_read_num :: "nat \<Rightarrow> nat \<Rightarrow> 'a machine_scheme \<Rightarrow> (ulong, 'a machine_scheme) flow" where
  "csr_read_num h csr_num s =
     (if csr_num_known csr_num then Ret (csr_read h csr_num s) s else Hang s)"

definition csr_write_num ::
  "nat \<Rightarrow> nat \<Rightarrow> ulong \<Rightarrow> 'a machine_scheme \<Rightarrow> (unit, 'a machine_scheme) flow" where
  "csr_write_num h csr_num val s =
     (if csr_num_known csr_num then Ret () (csr_write h csr_num val s) else Hang s)"

section \<open>Physical memory protection\<close>

abbreviation (input) PMP_COUNT :: nat where "PMP_COUNT \<equiv> 64"
abbreviation (input) PMP_SHIFT :: nat where "PMP_SHIFT \<equiv> 2"
abbreviation (input) PMP_R :: ulong where "PMP_R \<equiv> 1"
abbreviation (input) PMP_W :: ulong where "PMP_W \<equiv> 2"
abbreviation (input) PMP_X :: ulong where "PMP_X \<equiv> 4"
abbreviation (input) PMP_A :: ulong where "PMP_A \<equiv> 0x18"
abbreviation (input) PMP_A_NA4 :: ulong where "PMP_A_NA4 \<equiv> 0x10"
abbreviation (input) PMP_A_NAPOT :: ulong where "PMP_A_NAPOT \<equiv> 0x18"
abbreviation (input) PMP_L :: ulong where "PMP_L \<equiv> 0x80"
abbreviation (input) PMP_ADDR_MASK :: ulong where "PMP_ADDR_MASK \<equiv> 0x3FFFFFFFFFFFFF"

fun ctz_loop :: "nat \<Rightarrow> ulong \<Rightarrow> nat \<Rightarrow> nat" where
  "ctz_loop 0 x ret = ret"
| "ctz_loop (Suc k) x ret = (if x AND 1 = 0 then ctz_loop k (drop_bit 1 x) (ret + 1) else ret)"

definition ctz :: "ulong \<Rightarrow> nat" where
  "ctz x = (if x = 0 then 64 else ctz_loop 64 x 0)"

definition pmpcfg_csr :: "nat \<Rightarrow> nat" where
  "pmpcfg_csr n = (CSR_PMPCFG0 + n div 4) div 2 * 2"

definition pmpcfg_shift :: "nat \<Rightarrow> nat" where
  "pmpcfg_shift n = (n mod 8) * 8"

definition pmp_set ::
  "nat \<Rightarrow> nat \<Rightarrow> ulong \<Rightarrow> ulong \<Rightarrow> ulong \<Rightarrow> 'a machine_scheme \<Rightarrow> (int, 'a machine_scheme) flow" where
  "pmp_set h n prot addr log2len s =
     (if PMP_COUNT \<le> n \<or> 64 < log2len \<or> log2len < 2 then Ret SBI_EINVAL s
      else
        let prot = prot AND NOT PMP_A;
            prot = prot OR (if log2len = 2 then PMP_A_NA4 else PMP_A_NAPOT);
            cfgmask = NOT (push_bit (pmpcfg_shift n) 0xff) :: ulong
        in flow_bind (csr_read_num h (pmpcfg_csr n) s) (\<lambda>cfg s.
          let pmpcfg = cfg AND cfgmask;
              pmpcfg = pmpcfg OR (push_bit (pmpcfg_shift n) prot AND NOT cfgmask);
              pmpaddr =
                (if log2len = 2 then drop_bit PMP_SHIFT addr
                 else if log2len = 64 then - 1
                 else
                   let addrmask = push_bit (unat log2len - PMP_SHIFT) 1 - 1
                   in (drop_bit PMP_SHIFT addr AND NOT addrmask) OR drop_bit 1 addrmask)
          in flow_bind (csr_write_num h (CSR_PMPADDR0 + n) pmpaddr s) (\<lambda>_ s.
             flow_bind (csr_write_num h (pmpcfg_csr n) pmpcfg s) (\<lambda>_ s. Ret 0 s))))"

text \<open>
  The three output pointers are the triple of the result; the code's NULL checks are the
  argument \<open>have_out\<close>. \<open>None\<close> in place of the triple: nothing has been stored.
\<close>

definition pmp_get ::
  "nat \<Rightarrow> nat \<Rightarrow> bool \<Rightarrow> 'a machine_scheme
     \<Rightarrow> (int \<times> (ulong \<times> ulong \<times> ulong) option, 'a machine_scheme) flow" where
  "pmp_get h n have_out s =
     (if PMP_COUNT \<le> n \<or> \<not> have_out then Ret (SBI_EINVAL, None) s
      else
        let cfgmask = push_bit (pmpcfg_shift n) 0xff :: ulong
        in flow_bind (csr_read_num h (pmpcfg_csr n) s) (\<lambda>cfg s.
          let prot = drop_bit (pmpcfg_shift n) (cfg AND cfgmask)
          in flow_bind (csr_read_num h (CSR_PMPADDR0 + n) s) (\<lambda>addr s.
             if prot AND PMP_A = PMP_A_NAPOT then
               (if addr = - 1 then Ret (0, Some (prot, 0, 64)) s
                else
                  let t1 = ctz (NOT addr);
                      a = push_bit PMP_SHIFT (addr AND NOT (push_bit t1 1 - 1))
                  in Ret (0, Some (prot, a, of_nat t1 + 2 + 1)) s)
             else Ret (0, Some (prot, push_bit PMP_SHIFT addr, 2)) s)))"

section \<open>Reading back an entry\<close>

lemma ctz_loop_spec:
  "bit x m \<Longrightarrow> (\<And>i. i < m \<Longrightarrow> \<not> bit x i) \<Longrightarrow> m < k \<Longrightarrow> ctz_loop k x r = r + m"
proof (induction m arbitrary: x r k)
  case 0
  then obtain k' where k: "k = Suc k'" by (cases k) simp_all
  have "x AND 1 \<noteq> 0" using 0(1) by (simp add: and_one_eq odd_iff_mod_2_eq_one bit_0)
  then show ?case by (simp add: k)
next
  case (Suc m)
  then obtain k' where k: "k = Suc k'" by (cases k) simp_all
  have "\<not> bit x 0" using Suc.prems(2) by simp
  then have "x AND 1 = 0" by (simp add: and_one_eq even_iff_mod_2_eq_zero bit_0)
  moreover have "ctz_loop k' (drop_bit 1 x) (r + 1) = r + 1 + m"
    using Suc.prems k by (intro Suc.IH) (auto simp: bit_drop_bit_eq)
  ultimately show ?case by (simp add: k)
qed

lemma ctz_spec:
  assumes "bit x m" "\<And>i. i < m \<Longrightarrow> \<not> bit x i"
  shows "ctz x = m"
proof -
  have "x \<noteq> 0" "m < 64" using assms(1) by (auto dest: word64_bit_less)
  then show ?thesis using ctz_loop_spec [OF assms, of 64 0] by (simp add: ctz_def)
qed

lemma push_bit_minus_one: "push_bit k 1 - 1 = (mask k :: ulong)"
  by (simp add: mask_eq_exp_minus_1)

lemma push_xff_mask: "push_bit sh (0xff :: ulong) = push_bit sh (mask 8)"
  by (simp add: mask_eq_exp_minus_1)

lemma and_xff_mask: "x AND 0xff = (x AND mask 8 :: ulong)"
  by (simp add: mask_eq_exp_minus_1)

lemmas xff_mask = push_xff_mask and_xff_mask

lemma Suc_Suc_diff_2: "\<not> n < 2 \<Longrightarrow> Suc (Suc (n - 2)) = n"
  by simp

text \<open>The byte of a configuration register that belongs to an entry.\<close>

definition cfg_byte :: "nat \<Rightarrow> ulong \<Rightarrow> ulong" where
  "cfg_byte sh cfg = drop_bit sh (cfg AND push_bit sh 0xff)"

definition cfg_put :: "nat \<Rightarrow> ulong \<Rightarrow> ulong \<Rightarrow> ulong" where
  "cfg_put sh prot cfg =
     (cfg AND NOT (push_bit sh 0xff)) OR (push_bit sh prot AND NOT (NOT (push_bit sh 0xff)))"

lemma bit_cfg_byte: "sh \<le> 56 \<Longrightarrow> bit (cfg_byte sh cfg) i \<longleftrightarrow> i < 8 \<and> bit cfg (sh + i)"
  unfolding cfg_byte_def xff_mask
  by (auto simp: bit_drop_bit_eq bit_and_iff bit_push_bit_iff bit_mask_ulong possible_bit_word)

lemma bit_cfg_put:
  "sh \<le> 56 \<Longrightarrow> bit (cfg_put sh prot cfg) i \<longleftrightarrow>
     (if sh \<le> i \<and> i < sh + 8 then bit prot (i - sh) else bit cfg i)"
  unfolding cfg_put_def xff_mask
  by (auto simp: bit_or_iff bit_and_iff bit_not_ulong bit_push_bit_iff bit_mask_ulong
      possible_bit_word dest: word64_bit_less)

lemma cfg_byte_put_same: "sh \<le> 56 \<Longrightarrow> cfg_byte sh (cfg_put sh prot cfg) = prot AND 0xff"
  unfolding xff_mask by (rule bit_eqI) (auto simp: bit_cfg_byte bit_cfg_put bit_and_iff bit_mask_ulong)

lemma cfg_byte_put_other:
  assumes "sh \<le> 56" "sh' \<le> 56" "sh + 8 \<le> sh' \<or> sh' + 8 \<le> sh"
  shows "cfg_byte sh' (cfg_put sh prot cfg) = cfg_byte sh' cfg"
  by (rule bit_eqI) (use assms in \<open>auto simp: bit_cfg_byte bit_cfg_put\<close>)

text \<open>The address register of a naturally aligned region and what it decodes to.\<close>

definition napot_addr :: "ulong \<Rightarrow> nat \<Rightarrow> ulong" where
  "napot_addr addr L = (drop_bit 2 addr AND NOT (mask (L - 2))) OR drop_bit 1 (mask (L - 2))"

lemma bit_napot_addr:
  assumes "2 < L" "L < 64"
  shows "bit (napot_addr addr L) i \<longleftrightarrow>
    (if i < L - 3 then True else if i = L - 3 then False else bit addr (i + 2))"
  using assms
  by (auto simp: napot_addr_def bit_or_iff bit_and_iff bit_not_ulong bit_drop_bit_eq
      bit_mask_ulong add.commute dest: word64_bit_less)

text \<open>What the entry's address says once the hart has kept its low \<open>b\<close> bits only.\<close>

lemma napot_addr_ctz:
  assumes "2 < L" "L < 64" "b < 64"
  shows "ctz (NOT (napot_addr addr L AND mask b)) = min (L - 3) b"
  using assms by (intro ctz_spec) (auto simp: bit_not_ulong bit_and_iff bit_or_iff bit_mask_ulong bit_napot_addr min_def
      split: if_splits)

lemma napot_addr_not_max:
  assumes "b < 64"
  shows "a AND mask b \<noteq> (- 1 :: ulong)"
proof
  assume "a AND mask b = - 1"
  then have "bit (a AND mask b) b" using assms by (simp add: bit_minus_1_iff possible_bit_word)
  then show False by (simp add: bit_and_iff bit_mask_iff)
qed

lemma napot_addr_base:
  assumes "2 < L" "L < 64" "b \<le> 62"
  shows "push_bit 2 ((napot_addr addr L AND mask b) AND NOT (mask (min (L - 3) b)))
    = addr AND NOT (mask L) AND mask (b + 2)"
  using assms
  by (intro bit_eqI)
    (auto simp: bit_push_bit_iff bit_and_iff bit_not_ulong bit_mask_ulong bit_napot_addr min_def
      possible_bit_word Suc_Suc_diff_2 not_less dest: word64_bit_less)

lemma push_drop_2:
  "b \<le> 62 \<Longrightarrow> push_bit 2 (drop_bit 2 addr AND mask b) = (addr AND NOT (mask 2) AND mask (b + 2) :: ulong)"
  by (rule bit_eqI)
    (auto simp: bit_push_bit_iff bit_drop_bit_eq bit_and_iff bit_not_ulong bit_mask_ulong
      possible_bit_word Suc_Suc_diff_2 not_less dest: word64_bit_less)

lemma pmp_csr_known:
  assumes "n < 64"
  shows "csr_num_known (pmpcfg_csr n)" "csr_num_known (CSR_PMPADDR0 + n)"
    "pmpcfg_csr n \<noteq> CSR_PMPADDR0 + m" "pmpcfg_shift n \<le> 56"
    "CSR_PMPCFG0 \<le> pmpcfg_csr n" "pmpcfg_csr n < CSR_PMPCFG0 + 16"
proof -
  have "n div 4 < 16" using assms by (simp add: less_mult_imp_div_less)
  moreover have "n div 4 div 2 * 2 \<le> n div 4" by simp
  moreover have "(928 + n div 4) div 2 * 2 = 928 + n div 4 div 2 * 2"
    using div_mult_self2 [of 2 "n div 4" 464] by (simp add: add.commute)
  ultimately have c: "CSR_PMPCFG0 \<le> pmpcfg_csr n \<and> pmpcfg_csr n < CSR_PMPCFG0 + 16"
    unfolding pmpcfg_csr_def by linarith
  then show "csr_num_known (pmpcfg_csr n)" "pmpcfg_csr n \<noteq> CSR_PMPADDR0 + m"
    "CSR_PMPCFG0 \<le> pmpcfg_csr n" "pmpcfg_csr n < CSR_PMPCFG0 + 16"
    by (auto simp: csr_num_known_def)
  show "csr_num_known (CSR_PMPADDR0 + n)" using assms by (simp add: csr_num_known_def)
  have "n mod 8 \<le> 7" by linarith
  then show "pmpcfg_shift n \<le> 56" by (simp add: pmpcfg_shift_def)
qed

text \<open>
  The registers of hart \<open>h\<close> that hold the entries: a configuration register accepts what is
  written, an address register has \<open>b\<close> bits, at most the 54 of \<^verbatim>\<open>PMP_ADDR_MASK\<close>, and keeps those of a
  value whose low \<open>g\<close> bits are ones. On a hart of granularity 4 \<open>g\<close> is 0; a coarser granularity
  \<open>2\<^bsup>g + 3\<^esup>\<close> does not implement the low bits and reads them as ones.
\<close>

definition pmp_width :: "nat \<Rightarrow> nat \<Rightarrow> nat \<Rightarrow> 'a machine_scheme \<Rightarrow> bool" where
  "pmp_width h b g s \<longleftrightarrow> 0 < b \<and> b \<le> 54
     \<and> (\<forall>n old v. CSR_PMPCFG0 \<le> n \<and> n < CSR_PMPCFG0 + 16 \<longrightarrow> hw_legal s h n old v = v)
     \<and> (\<forall>n old v. CSR_PMPADDR0 \<le> n \<and> n < CSR_PMPADDR0 + 64 \<and> v AND mask g = mask g
         \<longrightarrow> hw_legal s h n old v = v AND mask b)"

text \<open>The size an entry can have: four bytes only at granularity 4, otherwise at least the granularity.\<close>

definition pmp_size_ok :: "nat \<Rightarrow> ulong \<Rightarrow> bool" where
  "pmp_size_ok g log2len \<longleftrightarrow> 2 \<le> log2len \<and> log2len \<le> 64 \<and> (g = 0 \<or> g + 3 \<le> unat log2len)"

lemma pmp_size_bounds: "pmp_size_ok g log2len \<Longrightarrow> 2 \<le> log2len" "pmp_size_ok g log2len \<Longrightarrow> log2len \<le> 64"
  by (simp_all add: pmp_size_ok_def)

definition pmp_addr_value :: "ulong \<Rightarrow> ulong \<Rightarrow> ulong" where
  "pmp_addr_value addr log2len =
     (if log2len = 2 then drop_bit 2 addr
      else if log2len = 64 then - 1 else napot_addr addr (unat log2len))"

definition pmp_prot_value :: "ulong \<Rightarrow> ulong \<Rightarrow> ulong" where
  "pmp_prot_value prot log2len =
     (prot AND NOT PMP_A) OR (if log2len = 2 then PMP_A_NA4 else PMP_A_NAPOT)"

lemma pmp_addr_value_ones:
  assumes "pmp_size_ok g log2len"
  shows "pmp_addr_value addr log2len AND mask g = mask g"
proof -
  consider "g = 0" | "log2len = 64" | "log2len \<noteq> 2" "log2len \<noteq> 64" "g + 3 \<le> unat log2len"
    using assms by (cases "log2len = 64"; cases "log2len = 2") (auto simp: pmp_size_ok_def)
  then show ?thesis
  proof cases
    case 3
    then have "2 < unat log2len" "unat log2len < 64"
      using pmp_size_bounds [OF assms] by (auto simp: word_le_nat_alt word_unat_eq_iff)
    then show ?thesis using 3
      by (intro bit_eqI) (auto simp: pmp_addr_value_def bit_and_iff bit_mask_ulong bit_napot_addr)
  qed (simp_all add: pmp_addr_value_def)
qed

lemma pmp_set_width:
  assumes "n < 64" "pmp_size_ok g log2len" "pmp_width h b g s"
  shows "pmp_set h n prot addr log2len s =
    Ret 0 (s\<lparr>csr := (csr s)(h := (csr s h)
      (CSR_PMPADDR0 + n := pmp_addr_value addr log2len AND mask b,
       pmpcfg_csr n := cfg_put (pmpcfg_shift n) (pmp_prot_value prot log2len) (csr s h (pmpcfg_csr n))))\<rparr>)"
proof -
  note k = pmp_csr_known [OF assms(1)] and L = pmp_size_bounds [OF assms(2)]
  have guard: "\<not> (PMP_COUNT \<le> n \<or> 64 < log2len \<or> log2len < 2)" using assms(1) L by auto
  have legal: "hw_legal s h (pmpcfg_csr n) old v = v" for old v
    using assms(3) k(5,6) by (auto simp: pmp_width_def)
  have addr: "hw_legal s h (CSR_PMPADDR0 + n) old (pmp_addr_value addr log2len) = pmp_addr_value addr log2len AND mask b" for old
    using assms(1,3) pmp_addr_value_ones [OF assms(2)] by (simp add: pmp_width_def)
  have set: "pmp_set h n prot addr log2len s =
      flow_bind (csr_write_num h (CSR_PMPADDR0 + n) (pmp_addr_value addr log2len) s)
        (\<lambda>_ t. flow_bind (csr_write_num h (pmpcfg_csr n)
            (cfg_put (pmpcfg_shift n) (pmp_prot_value prot log2len) (csr s h (pmpcfg_csr n))) t) (\<lambda>_. Ret 0))"
    unfolding pmp_set_def if_not_P [OF guard] Let_def
    using k by (simp add: csr_read_num_def csr_read_def cfg_put_def
        pmp_addr_value_def pmp_prot_value_def napot_addr_def mask_eq_exp_minus_1)
  show ?thesis
    unfolding set using k legal addr by (simp add: csr_write_num_def csr_write_def)
qed

lemma pmp_get_known:
  assumes "n < 64"
  shows "pmp_get h n True s =
    (let prot = cfg_byte (pmpcfg_shift n) (csr s h (pmpcfg_csr n));
         addr = csr s h (CSR_PMPADDR0 + n)
     in Ret (0, Some
          (if prot AND PMP_A = PMP_A_NAPOT then
             (if addr = - 1 then (prot, 0, 64)
              else (prot, push_bit 2 (addr AND NOT (mask (ctz (NOT addr)))), of_nat (ctz (NOT addr)) + 3))
           else (prot, push_bit 2 addr, 2))) s)"
  using assms pmp_csr_known(1,2) [OF assms]
  by (simp add: pmp_get_def csr_read_num_def csr_read_def cfg_byte_def Let_def mask_eq_exp_minus_1
      add.assoc)

lemma pmp_prot_value_A:
  "(pmp_prot_value prot L AND 0xff) AND PMP_A = (if L = 2 then PMP_A_NA4 else PMP_A_NAPOT)"
proof -
  have "(prot AND NOT PMP_A) AND PMP_A = 0" by (simp only: and.assoc bit.conj_cancel_left bit.conj_zero_right)
  then have "((prot AND NOT PMP_A) OR c) AND PMP_A = c AND PMP_A" for c
    by (simp only: bit.conj_disj_distrib2 or.left_neutral)
  then have "pmp_prot_value prot L AND PMP_A = (if L = 2 then PMP_A_NA4 else PMP_A_NAPOT)"
    unfolding pmp_prot_value_def by simp
  moreover have "(w AND 0xff) AND PMP_A = w AND PMP_A" for w :: ulong
    by (simp only: and.assoc) simp
  ultimately show ?thesis by simp
qed

lemma pmp_get_entry:
  assumes "n < 64" and "pmp_size_ok g log2len" and "pmp_width h b g s"
    and "pmp_set h n prot addr log2len s = Ret r s'"
  shows "pmp_get h n True s' = Ret (0, Some
      ((((prot AND NOT PMP_A) OR (if log2len = 2 then PMP_A_NA4 else PMP_A_NAPOT)) AND 0xff),
       addr AND NOT (mask (unat log2len)) AND mask (b + 2), of_nat (min (unat log2len) (b + 3)))) s'"
proof -
  have b: "b \<le> 54" using assms(3) by (simp add: pmp_width_def)
  note k = pmp_csr_known [OF assms(1)]
  let ?s = "s\<lparr>csr := (csr s)(h := (csr s h)
      (CSR_PMPADDR0 + n := pmp_addr_value addr log2len AND mask b,
       pmpcfg_csr n := cfg_put (pmpcfg_shift n) (pmp_prot_value prot log2len) (csr s h (pmpcfg_csr n))))\<rparr>"
  let ?p = "pmp_prot_value prot log2len AND 0xff"
  have set: "pmp_set h n prot addr log2len s = Ret 0 ?s" using assms(1-3) by (rule pmp_set_width)
  have cfg: "cfg_byte (pmpcfg_shift n) (csr ?s h (pmpcfg_csr n)) = ?p"
    and adr: "csr ?s h (CSR_PMPADDR0 + n) = pmp_addr_value addr log2len AND mask b"
    using k(3) [of n] by (simp_all add: cfg_byte_put_same k(4) del: fun_upd_apply add: fun_upd_def)
  have get: "pmp_get h n True ?s = Ret (0, Some (?p, addr AND NOT (mask (unat log2len)) AND mask (b + 2),
      of_nat (min (unat log2len) (b + 3)))) ?s"
  proof -
    consider "log2len = 2" | "log2len = 64" | "log2len \<noteq> 2" "log2len \<noteq> 64" by blast
    then show ?thesis
    proof cases
      case 1
      then show ?thesis using b
        unfolding pmp_get_known [OF assms(1)] cfg adr Let_def pmp_prot_value_A
        by (simp add: pmp_addr_value_def push_drop_2 del: push_bit_and)
    next
      case 2
      have "addr AND NOT (mask 64) AND mask (b + 2) = 0"
        by (rule bit_eqI) (auto simp: bit_and_iff bit_not_ulong bit_mask_ulong)
      moreover have "ctz (NOT (mask b)) = b" using b by (intro ctz_spec) (auto simp: bit_not_ulong bit_mask_ulong)
      moreover have "mask b \<noteq> (- 1 :: ulong)" using napot_addr_not_max [of b "- 1"] b by simp
      ultimately show ?thesis using 2 b
        unfolding pmp_get_known [OF assms(1)] cfg adr Let_def pmp_prot_value_A
        by (simp add: pmp_addr_value_def)
    next
      case 3
      have L: "2 < unat log2len" "unat log2len < 64"
        using 3 pmp_size_bounds [OF assms(2)] by (auto simp: word_le_nat_alt word_unat_eq_iff)
      have "min (unat log2len) (b + 3) = min (unat log2len - 3) b + 3" using L(1) by (auto simp: min_def)
      then have "of_nat (min (unat log2len - 3) b) + 3 = (of_nat (min (unat log2len) (b + 3)) :: ulong)"
        by (simp only: of_nat_add of_nat_numeral)
      moreover have "b \<le> 62" "b < 64" using b by simp_all
      note napot_addr_base [OF L this(1)] napot_addr_ctz [OF L this(2)] napot_addr_not_max [OF this(2)]
      ultimately show ?thesis using 3
        unfolding pmp_get_known [OF assms(1)] cfg adr Let_def pmp_prot_value_A
        by (simp add: pmp_addr_value_def del: push_bit_and)
    qed
  qed
  show ?thesis using assms(4) set get unfolding pmp_prot_value_def by simp
qed

lemma pmp_get_other:
  assumes "n < 64" and "pmp_size_ok g log2len" and "pmp_width h b g s"
    and "m < 64" and "m \<noteq> n"
    and "pmp_set h n prot addr log2len s = Ret r s'" and "pmp_get h m True s = Ret v s"
  shows "pmp_get h m True s' = Ret v s'"
proof -
  have s': "s' = s\<lparr>csr := (csr s)(h := (csr s h)
      (CSR_PMPADDR0 + n := pmp_addr_value addr log2len AND mask b,
       pmpcfg_csr n := cfg_put (pmpcfg_shift n) (pmp_prot_value prot log2len) (csr s h (pmpcfg_csr n))))\<rparr>"
    using assms(6) pmp_set_width [OF assms(1-3), of prot addr] by simp
  note kn = pmp_csr_known [OF assms(1)] and km = pmp_csr_known [OF assms(4)]
  have adr: "csr s' h (CSR_PMPADDR0 + m) = csr s h (CSR_PMPADDR0 + m)"
    using kn(3) [of m] assms(5) by (simp add: s')
  have cfg: "cfg_byte (pmpcfg_shift m) (csr s' h (pmpcfg_csr m))
      = cfg_byte (pmpcfg_shift m) (csr s h (pmpcfg_csr m))"
  proof (cases "pmpcfg_csr m = pmpcfg_csr n")
    case False
    then show ?thesis using km(3) [of n] by (simp add: s')
  next
    case True
    have "pmpcfg_shift n + 8 \<le> pmpcfg_shift m \<or> pmpcfg_shift m + 8 \<le> pmpcfg_shift n"
    proof -
      have "m div 8 = n div 8"
        using True div_mult_self2 [of 2 "n div 4" 464] div_mult_self2 [of 2 "m div 4" 464]
        by (simp add: pmpcfg_csr_def add.commute div_mult2_eq [symmetric])
      then have "m mod 8 \<noteq> n mod 8"
        using assms(5) div_mult_mod_eq [of m 8] div_mult_mod_eq [of n 8] by metis
      then show ?thesis unfolding pmpcfg_shift_def by linarith
    qed
    then show ?thesis using True cfg_byte_put_other [OF kn(4) km(4)] by (simp add: s')
  qed
  show ?thesis
    using assms(7) unfolding pmp_get_known [OF assms(4)] cfg adr Let_def by simp
qed

section \<open>Properties\<close>

text \<open>C32. For every entry below 64 and every size from 2^2 to 2^64 the granularity allows, on a hart
  whose address registers have \<open>b\<close> bits (at most 54), \<^verbatim>\<open>pmp_set()\<close> succeeds and \<^verbatim>\<open>pmp_get()\<close> then
  returns the permission byte with the addressing mode of that size, the base address rounded down to
  a multiple of the size and cut to the \<open>b + 2\<close> address bits there are, and the size itself, except that
  a size beyond \<open>2\<^bsup>b + 3\<^esup>\<close> reads back as that, the most such a register can say.\<close>

theorem pmp_get_pmp_set:
  assumes "n < 64" and "pmp_size_ok g log2len" and "pmp_width h b g s"
  shows "\<exists>s'. pmp_set h n prot addr log2len s = Ret 0 s' \<and>
    pmp_get h n True s' = Ret (0, Some
      ((((prot AND NOT PMP_A) OR (if log2len = 2 then PMP_A_NA4 else PMP_A_NAPOT)) AND 0xff),
       addr AND NOT (mask (unat log2len)) AND mask (b + 2), of_nat (min (unat log2len) (b + 3)))) s'"
  using pmp_set_width [OF assms, of prot addr] pmp_get_entry [OF assms, of prot addr] by blast

text \<open>A hart with 54 bits in each address register and granularity 4.\<close>

definition machine54 :: machine where
  "machine54 = machine0\<lparr>hw_legal := (\<lambda>h n old v. if CSR_PMPADDR0 \<le> n \<and> n < CSR_PMPADDR0 + 64
     then v AND mask 54 else v)\<rparr>"

lemma machine54_width: "pmp_width h 54 0 machine54"
  by (simp add: pmp_width_def machine54_def)

theorem pmp_get_pmp_set_witness:
  "(\<exists>s'. pmp_set 0 9 7 0x80001234 17 machine54 = Ret 0 s' \<and>
    pmp_get 0 9 True s' = Ret (0, Some (0x1f, 0x80000000, 17)) s')
   \<and> (\<exists>s'. pmp_set 0 9 7 0 64 machine54 = Ret 0 s' \<and> pmp_get 0 9 True s' = Ret (0, Some (0x1f, 0, 57)) s')"
proof -
  have ok: "pmp_size_ok 0 17" "pmp_size_ok 0 64" by (simp_all add: pmp_size_ok_def)
  from pmp_get_pmp_set [of 9, OF _ ok(1) machine54_width, of 0 7 "0x80001234"]
    pmp_get_pmp_set [of 9, OF _ ok(2) machine54_width, of 0 7 0]
  show ?thesis by (simp add: mask_eq_exp_minus_1)
qed

text \<open>Programming one entry leaves what every other entry reads back as unchanged, although
  eight entries share a configuration register.\<close>

theorem pmp_set_other_entries:
  assumes "n < 64" and "pmp_size_ok g log2len" and "pmp_width h b g s"
    and "m < 64" and "m \<noteq> n"
    and "pmp_set h n prot addr log2len s = Ret r s'" and "pmp_get h m True s = Ret v s"
  shows "pmp_get h m True s' = Ret v s'"
  using assms by (rule pmp_get_other)

theorem pmp_set_other_entries_witness:
  "case pmp_set 0 9 7 0x80001234 17 machine54 of
     Ret r s' \<Rightarrow> pmp_get 0 10 True s' = Ret (0, Some (0, 0, 2)) s' | _ \<Rightarrow> False"
proof -
  have ok: "pmp_size_ok 0 17" by (simp add: pmp_size_ok_def)
  obtain s' where s: "pmp_set 0 9 7 0x80001234 17 machine54 = Ret 0 s'"
    using pmp_set_width [of 9, OF _ ok machine54_width, of 0 7 "0x80001234"] by simp
  have g: "pmp_get 0 10 True machine54 = Ret (0, Some (0, 0, 2)) machine54"
    by (simp add: pmp_get_known cfg_byte_def machine54_def machine0_def)
  from pmp_set_other_entries [OF _ ok machine54_width _ _ s g] show ?thesis by (simp add: s)
qed

end
