(* ===== verification/Sbi_Domain.thy ===== *)
theory Sbi_Domain
  imports Riscv_Asm
begin

text \<open>
  \<^verbatim>\<open>lib/sbi/sbi_domain.c\<close>: domains partition the harts and describe the memory each may use.
  Domain objects live in a store (\<open>doms\<close>, object 0 is \<^verbatim>\<open>root\<close>); the two lookup tables hold
  object ids. Pointers inside a domain that may alias the root's static data are tagged. A
  region array ends at the first region of order 0, as in the code.
\<close>

section \<open>Data\<close>

record sbi_domain_memregion =
  order :: ulong
  base :: ulong
  flags :: ulong

datatype regions_ptr = Regs_null | Regs_root | Regs "sbi_domain_memregion list"
datatype harts_ptr = Harts_null | Harts_root | Harts sbi_hartmask

record sbi_domain =
  index :: u32
  assigned_harts :: sbi_hartmask
  dom_name :: string
  possible_harts :: harts_ptr
  regions :: regions_ptr
  boot_hartid :: u32
  dom_next_arg1 :: ulong
  dom_next_addr :: ulong
  dom_next_mode :: ulong
  system_reset_allowed :: bool

record domain_state = machine +
  doms :: "nat \<Rightarrow> sbi_domain"
  hartid_to_domain :: "nat \<Rightarrow> nat option"
  domidx_to_domain :: "nat \<Rightarrow> nat option"
  domain_count :: nat
  domain_finalized :: bool
  root_hmask :: sbi_hartmask
  root_memregs_count :: nat
  root_fw_region :: sbi_domain_memregion
  root_memregs :: "sbi_domain_memregion list"

abbreviation (input) SBI_DOMAIN_READ :: ulong where "SBI_DOMAIN_READ \<equiv> 1"
abbreviation (input) SBI_DOMAIN_WRITE :: ulong where "SBI_DOMAIN_WRITE \<equiv> 2"
abbreviation (input) SBI_DOMAIN_EXECUTE :: ulong where "SBI_DOMAIN_EXECUTE \<equiv> 4"
abbreviation (input) SBI_DOMAIN_MMIO :: ulong where "SBI_DOMAIN_MMIO \<equiv> 8"
abbreviation (input) SBI_DOMAIN_MEMREGION_READABLE :: ulong where "SBI_DOMAIN_MEMREGION_READABLE \<equiv> 1"
abbreviation (input) SBI_DOMAIN_MEMREGION_WRITEABLE :: ulong where "SBI_DOMAIN_MEMREGION_WRITEABLE \<equiv> 2"
abbreviation (input) SBI_DOMAIN_MEMREGION_EXECUTABLE :: ulong where "SBI_DOMAIN_MEMREGION_EXECUTABLE \<equiv> 4"
abbreviation (input) SBI_DOMAIN_MEMREGION_MMODE :: ulong where "SBI_DOMAIN_MEMREGION_MMODE \<equiv> 8"
abbreviation (input) SBI_DOMAIN_MEMREGION_MMIO :: ulong where "SBI_DOMAIN_MEMREGION_MMIO \<equiv> 0x80000000"
abbreviation (input) SBI_DOMAIN_MAX_INDEX :: nat where "SBI_DOMAIN_MAX_INDEX \<equiv> 32"
abbreviation (input) ROOT_REGION_MAX :: nat where "ROOT_REGION_MAX \<equiv> 16"

abbreviation (input) ROOT :: nat where "ROOT \<equiv> 0"

fun dom_possible :: "sbi_domain \<Rightarrow> 'a domain_state_scheme \<Rightarrow> sbi_hartmask option" where
  "dom_possible d s = (case possible_harts d of Harts_null \<Rightarrow> None
     | Harts_root \<Rightarrow> Some (root_hmask s) | Harts m \<Rightarrow> Some m)"

fun dom_regions :: "sbi_domain \<Rightarrow> 'a domain_state_scheme \<Rightarrow> sbi_domain_memregion list option" where
  "dom_regions d s = (case regions d of Regs_null \<Rightarrow> None
     | Regs_root \<Rightarrow> Some (root_memregs s) | Regs rs \<Rightarrow> Some rs)"

text \<open>\<open>sbi_domain_for_each_memregion\<close> as the list of the regions it visits.\<close>

definition for_each_memregion :: "sbi_domain_memregion list \<Rightarrow> sbi_domain_memregion list" where
  "for_each_memregion rs = takeWhile (\<lambda>r. order r \<noteq> 0) rs"

text \<open>
  \<open>sbi_domain_for_each\<close> as the list of domain objects it visits. With all 32 slots in use the
  code goes on to read the word behind the table; the model stops there.
\<close>

definition sbi_domain_for_each :: "'a domain_state_scheme \<Rightarrow> nat list" where
  "sbi_domain_for_each s =
     map the (takeWhile (\<lambda>d. d \<noteq> None) (map (domidx_to_domain s) [0..<SBI_DOMAIN_MAX_INDEX]))"

section \<open>Harts of a domain\<close>

fun sbi_domain_is_assigned_hart :: "sbi_domain option \<Rightarrow> u32 \<Rightarrow> bool" where
  "sbi_domain_is_assigned_hart None hartid = False"
| "sbi_domain_is_assigned_hart (Some dm) hartid =
     sbi_hartmask_test_hart (unat hartid) (assigned_harts dm)"

text \<open>\<open>hm_word\<close> reads a word of the mask; the callers never pass a base beyond the mask.\<close>

definition hm_word :: "sbi_hartmask \<Rightarrow> nat \<Rightarrow> ulong" where
  "hm_word m k = (if k < length (bits m) then bits m ! k else 0)"

fun sbi_domain_get_assigned_hartmask :: "sbi_domain option \<Rightarrow> ulong \<Rightarrow> ulong" where
  "sbi_domain_get_assigned_hartmask None hbase = 0"
| "sbi_domain_get_assigned_hartmask (Some dm) hbase =
     (let bword = unat hbase div 64; boff = unat hbase mod 64;
          ret = drop_bit boff (hm_word (assigned_harts dm) bword);
          bword = bword + 1
      in if boff \<noteq> 0 \<and> bword < SBI_HARTMASK_MAX_BITS div 64 then
           ret OR push_bit (64 - boff) (hm_word (assigned_harts dm) bword AND (BIT boff - 1))
         else ret)"

section \<open>Memory regions\<close>

fun memregion_fit :: "nat \<Rightarrow> ulong \<Rightarrow> ulong \<Rightarrow> nat \<Rightarrow> ulong \<times> nat" where
  "memregion_fit 0 addr sz ord = (0, ord)"
| "memregion_fit (Suc k) addr sz ord =
     (if ord < 64 then
        let b = addr AND NOT (push_bit ord 1 - 1)
        in if b \<le> addr \<and> addr < b + push_bit ord 1 \<and> b \<le> addr + sz - 1
              \<and> addr + sz - 1 < b + push_bit ord 1
           then (b, ord) else memregion_fit k addr sz (ord + 1)
      else (0, ord))"

definition sbi_domain_memregion_init :: "ulong \<Rightarrow> ulong \<Rightarrow> ulong \<Rightarrow> sbi_domain_memregion" where
  "sbi_domain_memregion_init addr sz fl =
     (let o1 = log2roundup sz; (b, ord) = memregion_fit (65 - o1) addr sz o1
      in \<lparr>order = of_nat ord, base = b, flags = fl\<rparr>)"

definition memregion_end :: "sbi_domain_memregion \<Rightarrow> ulong" where
  "memregion_end reg =
     (if order reg < 64 then base reg + (push_bit (unat (order reg)) 1 - 1) else - 1)"

definition access_rwx :: "ulong \<Rightarrow> ulong" where
  "access_rwx access_flags =
     (if access_flags AND SBI_DOMAIN_READ \<noteq> 0 then SBI_DOMAIN_MEMREGION_READABLE else 0)
     OR (if access_flags AND SBI_DOMAIN_WRITE \<noteq> 0 then SBI_DOMAIN_MEMREGION_WRITEABLE else 0)
     OR (if access_flags AND SBI_DOMAIN_EXECUTE \<noteq> 0 then SBI_DOMAIN_MEMREGION_EXECUTABLE else 0)"

fun check_addr_regions ::
  "sbi_domain_memregion list \<Rightarrow> ulong \<Rightarrow> ulong \<Rightarrow> bool \<Rightarrow> ulong \<Rightarrow> bool" where
  "check_addr_regions [] addr mode mmio rwx = (mode = PRV_M)"
| "check_addr_regions (reg # regs) addr mode mmio rwx =
     (if mode = PRV_M \<and> flags reg AND SBI_DOMAIN_MEMREGION_MMODE = 0
      then check_addr_regions regs addr mode mmio rwx
      else if base reg \<le> addr \<and> addr \<le> memregion_end reg then
        (if (mmio \<and> flags reg AND SBI_DOMAIN_MEMREGION_MMIO = 0)
            \<or> (\<not> mmio \<and> flags reg AND SBI_DOMAIN_MEMREGION_MMIO \<noteq> 0) then False
         else flags reg AND rwx = rwx)
      else check_addr_regions regs addr mode mmio rwx)"

fun sbi_domain_check_addr ::
  "sbi_domain option \<Rightarrow> ulong \<Rightarrow> ulong \<Rightarrow> ulong \<Rightarrow> 'a domain_state_scheme \<Rightarrow> bool" where
  "sbi_domain_check_addr None addr mode access_flags s = False"
| "sbi_domain_check_addr (Some dm) addr mode access_flags s =
     (case dom_regions dm s of
        None \<Rightarrow> False
      | Some rs \<Rightarrow> check_addr_regions (for_each_memregion rs) addr mode
                    (access_flags AND SBI_DOMAIN_MMIO \<noteq> 0) (access_rwx access_flags))"

definition is_region_valid :: "sbi_domain_memregion \<Rightarrow> bool" where
  "is_region_valid reg \<longleftrightarrow>
     \<not> (order reg < 3 \<or> 64 < order reg) \<and> base reg AND (BIT (unat (order reg)) - 1) = 0"

definition is_region_subset :: "sbi_domain_memregion \<Rightarrow> sbi_domain_memregion \<Rightarrow> bool" where
  "is_region_subset regA regB =
     (let regA_start = base regA;
          regA_end = base regA + (BIT (unat (order regA)) - 1);
          regB_start = base regB;
          regB_end = base regB + (BIT (unat (order regA)) - 1)
      in regB_start \<le> regA_start \<and> regA_start < regB_end \<and> regB_start < regA_end
         \<and> regA_end \<le> regB_end)"

definition is_region_conflict :: "sbi_domain_memregion \<Rightarrow> sbi_domain_memregion \<Rightarrow> bool" where
  "is_region_conflict regA regB \<longleftrightarrow>
     (is_region_subset regA regB \<or> is_region_subset regB regA) \<and> flags regA = flags regB"

definition is_region_before :: "sbi_domain_memregion \<Rightarrow> sbi_domain_memregion \<Rightarrow> bool" where
  "is_region_before regA regB \<longleftrightarrow>
     order regA < order regB \<or> order regA = order regB \<and> base regA < base regB"

section \<open>Sanitizing a domain\<close>

text \<open>The inner loop over \<open>j\<close> and the outer loop over \<open>i\<close>; \<open>True\<close> reports a conflict, and the
  array is then left as it was at that point.\<close>

fun sanitize_inner ::
  "nat \<Rightarrow> nat list \<Rightarrow> sbi_domain_memregion list \<Rightarrow> bool \<times> sbi_domain_memregion list" where
  "sanitize_inner i [] a = (False, a)"
| "sanitize_inner i (j # js) a =
     (if is_region_conflict (a ! j) (a ! i) then (True, a)
      else sanitize_inner i js
             (if is_region_before (a ! j) (a ! i) then a[j := a ! i, i := a ! j] else a))"

fun sanitize_sort ::
  "nat \<Rightarrow> nat list \<Rightarrow> sbi_domain_memregion list \<Rightarrow> bool \<times> sbi_domain_memregion list" where
  "sanitize_sort count [] a = (False, a)"
| "sanitize_sort count (i # is) a =
     (case sanitize_inner i [i + 1..<count] a of
        (True, a) \<Rightarrow> (True, a)
      | (False, a) \<Rightarrow> sanitize_sort count is a)"

definition put_regions ::
  "nat \<Rightarrow> sbi_domain_memregion list \<Rightarrow> 'a domain_state_scheme \<Rightarrow> 'a domain_state_scheme" where
  "put_regions d a s =
     (case regions (doms s d) of
        Regs_root \<Rightarrow> s\<lparr>root_memregs := a\<rparr>
      | _ \<Rightarrow> s\<lparr>doms := (doms s)(d := (doms s d)\<lparr>regions := Regs a\<rparr>)\<rparr>)"

definition is_fw_region :: "'a domain_state_scheme \<Rightarrow> sbi_domain_memregion \<Rightarrow> bool" where
  "is_fw_region s reg \<longleftrightarrow> order reg = order (root_fw_region s) \<and> base reg = base (root_fw_region s)
     \<and> flags reg = flags (root_fw_region s)"

definition sanitize_domain :: "nat \<Rightarrow> 'a domain_state_scheme \<Rightarrow> int \<times> 'a domain_state_scheme" where
  "sanitize_domain d s =
     (case dom_possible (doms s d) s of None \<Rightarrow> (SBI_EINVAL, s)
      | Some possible \<Rightarrow>
        if list_ex (\<lambda>i. sbi_platform_hart_invalid (Some (platform s)) (of_nat i))
             (sbi_hartmask_for_each_hart possible) then (SBI_EINVAL, s)
        else case dom_regions (doms s d) s of None \<Rightarrow> (SBI_EINVAL, s)
        | Some rs \<Rightarrow>
          if list_ex (\<lambda>reg. \<not> is_region_valid reg) (for_each_memregion rs) then (SBI_EINVAL, s)
          else if \<not> list_ex (is_fw_region s) (for_each_memregion rs) then (SBI_EINVAL, s)
          else
            let count = length (for_each_memregion rs);
                (conflict, rs) = sanitize_sort count [0..<count - 1] rs;
                s = put_regions d rs s
            in if conflict then (SBI_EINVAL, s)
               else if dom_next_mode (doms s d) \<noteq> PRV_S \<and> dom_next_mode (doms s d) \<noteq> PRV_U
                 then (SBI_EINVAL, s)
               else if \<not> sbi_domain_check_addr (Some (doms s d)) (dom_next_addr (doms s d))
                          (dom_next_mode (doms s d)) SBI_DOMAIN_EXECUTE s then (SBI_EINVAL, s)
               else (0, s))"

section \<open>Registering a domain\<close>

definition register_assign ::
  "nat \<Rightarrow> nat \<Rightarrow> 'a domain_state_scheme \<Rightarrow> nat \<Rightarrow> 'a domain_state_scheme" where
  "register_assign d cold_hartid s i =
     (case dom_possible (doms s d) s of None \<Rightarrow> s
      | Some possible \<Rightarrow>
        if \<not> sbi_hartmask_test_hart i possible then s
        else
          let s = (case hartid_to_domain s i of
                     None \<Rightarrow> s
                   | Some t \<Rightarrow> s\<lparr>doms := (doms s)(t := (doms s t)
                        \<lparr>assigned_harts := sbi_hartmask_clear_hart i (assigned_harts (doms s t))\<rparr>)\<rparr>);
              s = s\<lparr>hartid_to_domain := (hartid_to_domain s)(i := Some d)\<rparr>;
              s = s\<lparr>doms := (doms s)(d := (doms s d)
                     \<lparr>assigned_harts := sbi_hartmask_set_hart i (assigned_harts (doms s d))\<rparr>)\<rparr>
          in if i = cold_hartid \<and> boot_hartid (doms s d) \<noteq> of_nat cold_hartid
             then s\<lparr>doms := (doms s)(d := (doms s d)\<lparr>boot_hartid := of_nat cold_hartid\<rparr>)\<rparr> else s)"

text \<open>\<open>d\<close> and \<open>assign_mask\<close> are \<open>None\<close> for NULL; \<open>cold_hartid\<close> is the hart that runs the call.\<close>

fun sbi_domain_register ::
  "nat \<Rightarrow> nat option \<Rightarrow> sbi_hartmask option \<Rightarrow> 'a domain_state_scheme \<Rightarrow> int \<times> 'a domain_state_scheme"
where
  "sbi_domain_register cold_hartid (Some d) (Some assign_mask) s =
     (if domain_finalized s then (SBI_EINVAL, s)
      else if d \<in> set (sbi_domain_for_each s) then (SBI_EALREADY, s)
      else if SBI_DOMAIN_MAX_INDEX \<le> domain_count s then (SBI_ENOSPC, s)
      else
        let (rc, s) = sanitize_domain d s
        in if rc \<noteq> 0 then (rc, s)
           else
             let s = s\<lparr>doms := (doms s)(d := (doms s d)\<lparr>index := of_nat (domain_count s)\<rparr>),
                       domidx_to_domain := (domidx_to_domain s)(domain_count s := Some d),
                       domain_count := domain_count s + 1\<rparr>;
                 s = s\<lparr>doms := (doms s)(d := (doms s d)
                       \<lparr>assigned_harts := sbi_hartmask_clear_all (assigned_harts (doms s d))\<rparr>)\<rparr>
             in (0, foldl (register_assign d cold_hartid) s (sbi_hartmask_for_each_hart assign_mask)))"
| "sbi_domain_register cold_hartid d assign_mask s = (SBI_EINVAL, s)"

section \<open>Adding a region to the root domain\<close>

fun memregs_shift :: "sbi_domain_memregion list \<Rightarrow> sbi_domain_memregion list" where
  "memregs_shift (x # y # r) = (if order x = 0 then x # y # r else y # memregs_shift (y # r))"
| "memregs_shift r = r"

lemma length_memregs_shift [simp]: "length (memregs_shift xs) = length xs"
  by (induction xs rule: memregs_shift.induct) auto

definition memregs_mergeable :: "sbi_domain_memregion \<Rightarrow> sbi_domain_memregion \<Rightarrow> bool" where
  "memregs_mergeable nreg nreg1 \<longleftrightarrow>
     base nreg AND (BIT (unat (order nreg + 1)) - 1) = 0
     \<and> base nreg + BIT (unat (order nreg)) = base nreg1
     \<and> order nreg = order nreg1 \<and> flags nreg = flags nreg1"

text \<open>One pass over the array from some position on; the number counts the merges.\<close>

function memregs_merge :: "sbi_domain_memregion list \<Rightarrow> nat \<times> sbi_domain_memregion list" where
  "memregs_merge (nreg # nreg1 # rest) =
     (if order nreg = 0 then (0, nreg # nreg1 # rest)
      else if order nreg1 = 0 then (0, nreg # nreg1 # rest)
      else if memregs_mergeable nreg nreg1 then
        (case memregs_merge (memregs_shift (nreg1 # rest)) of
           (k, r) \<Rightarrow> (Suc k, nreg\<lparr>order := order nreg + 1\<rparr> # r))
      else (case memregs_merge (nreg1 # rest) of (k, r) \<Rightarrow> (k, nreg # r)))"
| "memregs_merge [] = (0, [])"
| "memregs_merge [r] = (0, [r])"
  by pat_completeness auto
termination by (relation "measure length") (auto simp del: memregs_shift.simps)

text \<open>The \<open>do\<close> loop: every further round has at least one region less, so \<open>n\<close> rounds are enough
  when \<open>n\<close> exceeds the number of regions (\<open>root_add_rounds\<close> below).\<close>

fun root_optimize :: "nat \<Rightarrow> 'a domain_state_scheme \<Rightarrow> (int \<times> 'a domain_state_scheme) option" where
  "root_optimize 0 s = None"
| "root_optimize (Suc n) s =
     (case sanitize_domain ROOT s of
        (rc, s) \<Rightarrow>
          if rc \<noteq> 0 then Some (rc, s)
          else
            case memregs_merge (root_memregs s) of
              (k, a) \<Rightarrow>
                let s = s\<lparr>root_memregs := a, root_memregs_count := root_memregs_count s - k\<rparr>
                in if k \<noteq> 0 then root_optimize n s else Some (0, s))"

fun sbi_domain_root_add_memregion ::
  "sbi_domain_memregion option \<Rightarrow> 'a domain_state_scheme \<Rightarrow> (int \<times> 'a domain_state_scheme) option"
where
  "sbi_domain_root_add_memregion None s = Some (SBI_EINVAL, s)"
| "sbi_domain_root_add_memregion (Some reg) s =
     (if domain_finalized s \<or> regions (doms s ROOT) \<noteq> Regs_root
         \<or> ROOT_REGION_MAX \<le> root_memregs_count s then Some (SBI_EINVAL, s)
      else if list_ex (is_region_conflict reg) (for_each_memregion (root_memregs s))
        then Some (SBI_EINVAL, s)
      else
        let n = root_memregs_count s;
            a = (root_memregs s)[n := reg];
            a = a[n + 1 := (a ! (n + 1))\<lparr>order := 0\<rparr>]
        in root_optimize (ROOT_REGION_MAX + 2) (s\<lparr>root_memregs := a, root_memregs_count := n + 1\<rparr>))"

section \<open>Setting up the root domain\<close>

definition sbi_domain_init :: "nat \<Rightarrow> 'a domain_state_scheme \<Rightarrow> int \<times> 'a domain_state_scheme" where
  "sbi_domain_init cold_hartid s =
     (let sc = scratch s cold_hartid;
          s = s\<lparr>root_fw_region := sbi_domain_memregion_init (fw_start sc) (fw_size sc) 0\<rparr>;
          s = s\<lparr>root_memregs := (root_memregs s)[root_memregs_count s := root_fw_region s],
                root_memregs_count := root_memregs_count s + 1\<rparr>;
          s = s\<lparr>root_memregs := (root_memregs s)[root_memregs_count s :=
                  sbi_domain_memregion_init 0 (NOT 0)
                    (SBI_DOMAIN_MEMREGION_READABLE OR SBI_DOMAIN_MEMREGION_WRITEABLE
                      OR SBI_DOMAIN_MEMREGION_EXECUTABLE)],
                root_memregs_count := root_memregs_count s + 1\<rparr>;
          n = root_memregs_count s;
          s = s\<lparr>root_memregs := (root_memregs s)[n := (root_memregs s ! n)\<lparr>order := 0\<rparr>],
                doms := (doms s)(ROOT := (doms s ROOT)\<lparr>boot_hartid := of_nat cold_hartid,
                   dom_next_arg1 := next_arg1 sc, dom_next_addr := next_addr sc,
                   dom_next_mode := next_mode sc\<rparr>)\<rparr>;
          s = s\<lparr>root_hmask := foldl (\<lambda>m i. if sbi_platform_hart_invalid (Some (platform s)) (of_nat i)
                     then m else sbi_hartmask_set_hart i m) (root_hmask s) [0..<SBI_HARTMASK_MAX_BITS]\<rparr>
      in sbi_domain_register cold_hartid (Some ROOT) (Some (root_hmask s)) s)"

end
