(* ===== verification/Sbi_Domain_Regions.thy ===== *)
theory Sbi_Domain_Regions
  imports Sbi_Domain "HOL-Library.Multiset"
begin

text \<open>
  What the region code of \<open>Sbi_Domain\<close> guarantees: a region built from an address and a size
  covers them and is the smallest one that does; sanitizing sorts the regions, so the first match
  of the access check is the smallest region that contains the address; merging and adding
  regions terminates.
\<close>

section \<open>Building a region\<close>

definition fit_ok :: "ulong \<Rightarrow> ulong \<Rightarrow> nat \<Rightarrow> bool" where
  "fit_ok addr sz ord \<longleftrightarrow>
     (let b = addr AND NOT (push_bit ord 1 - 1)
      in b \<le> addr \<and> addr < b + push_bit ord 1 \<and> b \<le> addr + sz - 1
         \<and> addr + sz - 1 < b + push_bit ord 1)"

lemma memregion_fit_Suc:
  "memregion_fit (Suc k) addr sz ord =
     (if ord < 64 then
        if fit_ok addr sz ord then (addr AND NOT (push_bit ord 1 - 1), ord)
        else memregion_fit k addr sz (ord + 1)
      else (0, ord))"
  by (simp add: fit_ok_def Let_def)

lemma memregion_fit_spec:
  assumes "k + ord = 65" "ord \<le> 64" "memregion_fit k addr sz ord = (b, r)"
  shows "(r < 64 \<and> fit_ok addr sz r \<and> b = addr AND NOT (push_bit r 1 - 1) \<or> r = 64 \<and> b = 0)
    \<and> (\<forall>j. ord \<le> j \<and> j < r \<longrightarrow> \<not> fit_ok addr sz j)"
  using assms
proof (induction k arbitrary: ord)
  case 0
  then show ?case by simp
next
  case (Suc k)
  show ?case
  proof (cases "ord < 64 \<and> \<not> fit_ok addr sz ord")
    case True
    then have "memregion_fit k addr sz (ord + 1) = (b, r)"
      using Suc.prems(3) by (simp del: memregion_fit.simps add: memregion_fit_Suc)
    with Suc.IH [of "ord + 1"] Suc.prems True
    have IH: "(r < 64 \<and> fit_ok addr sz r \<and> b = addr AND NOT (push_bit r 1 - 1) \<or> r = 64 \<and> b = 0)
      \<and> (\<forall>j. ord + 1 \<le> j \<and> j < r \<longrightarrow> \<not> fit_ok addr sz j)" by simp
    then show ?thesis using True by (metis Suc_eq_plus1 Suc_leI le_neq_implies_less)
  next
    case False
    then show ?thesis using Suc.prems
      by (auto simp del: memregion_fit.simps simp add: memregion_fit_Suc split: if_splits)
  qed
qed

lemma memregion_init_cases:
  obtains (fit) n where "n < 64" "fit_ok addr sz n" "log2roundup sz \<le> n"
      "sbi_domain_memregion_init addr sz fl =
         \<lparr>order = of_nat n, base = addr AND NOT (push_bit n 1 - 1), flags = fl\<rparr>"
      "\<And>j. log2roundup sz \<le> j \<Longrightarrow> j < n \<Longrightarrow> \<not> fit_ok addr sz j"
  | (all) "sbi_domain_memregion_init addr sz fl = \<lparr>order = 64, base = 0, flags = fl\<rparr>"
      "\<And>j. log2roundup sz \<le> j \<Longrightarrow> j < 64 \<Longrightarrow> \<not> fit_ok addr sz j"
proof -
  let ?o = "log2roundup sz"
  obtain b r where f: "memregion_fit (65 - ?o) addr sz ?o = (b, r)" by fastforce
  have o: "?o \<le> 64" by (rule log2roundup_le)
  have S: "(r < 64 \<and> fit_ok addr sz r \<and> b = addr AND NOT (push_bit r 1 - 1) \<or> r = 64 \<and> b = 0)
    \<and> (\<forall>j. ?o \<le> j \<and> j < r \<longrightarrow> \<not> fit_ok addr sz j)"
    using o by (intro memregion_fit_spec [OF _ o f]) simp
  have le: "k + j = 65 \<Longrightarrow> j \<le> 64 \<Longrightarrow> memregion_fit k addr sz j = (b, r) \<Longrightarrow> j \<le> r" for k j
  proof (induction k arbitrary: j)
    case (Suc k)
    show ?case
    proof (cases "j < 64 \<and> \<not> fit_ok addr sz j")
      case True
      then have "memregion_fit k addr sz (j + 1) = (b, r)"
        using Suc.prems(3) by (simp del: memregion_fit.simps add: memregion_fit_Suc)
      then show ?thesis using Suc.IH [of "j + 1"] Suc.prems True by simp
    next
      case False
      then show ?thesis using Suc.prems
        by (auto simp del: memregion_fit.simps simp add: memregion_fit_Suc split: if_splits)
    qed
  qed simp
  have "?o \<le> r" using le [OF _ o f] o by simp
  then show ?thesis
    using S f fit [of r] all by (auto simp: sbi_domain_memregion_init_def Let_def)
qed

lemma unat_of_nat_small: "n \<le> 64 \<Longrightarrow> unat (of_nat n :: ulong) = n"
  by (simp add: unat_of_nat)

lemma word_less_pred: "x < y \<Longrightarrow> x \<le> y - (1 :: ulong)"
proof -
  assume "x < y"
  moreover from this have "y \<noteq> 0" by auto
  ultimately show ?thesis by (simp add: word_le_nat_alt word_less_nat_alt unat_minus_one)
qed

lemma of_nat_less_64: "n < 64 \<Longrightarrow> (of_nat n :: ulong) < 64"
  by (simp add: word_less_nat_alt unat_of_nat_small)

lemma fit_ok_bounds:
  assumes "fit_ok addr sz n"
  shows "addr AND NOT (push_bit n 1 - 1) \<le> addr"
    "addr \<le> (addr AND NOT (push_bit n 1 - 1)) + (push_bit n 1 - 1)"
    "addr AND NOT (push_bit n 1 - 1) \<le> addr + sz - 1"
    "addr + sz - 1 \<le> (addr AND NOT (push_bit n 1 - 1)) + (push_bit n 1 - 1)"
  using assms word_less_pred
  by (simp_all add: fit_ok_def Let_def add_diff_eq)

text \<open>The region that \<^verbatim>\<open>sbi_domain_memregion_init()\<close> builds contains every address from
  \<open>addr\<close> to \<open>addr + size - 1\<close>, has the given flags, an order of at most 64, and a base that is a
  multiple of its size.\<close>

theorem memregion_init_covers:
  "let r = sbi_domain_memregion_init addr sz fl
   in flags r = fl \<and> order r \<le> 64 \<and> base r AND (push_bit (unat (order r)) 1 - 1) = 0
      \<and> {addr .. addr + sz - 1} \<subseteq> {base r .. memregion_end r}"
proof (cases rule: memregion_init_cases [of addr sz fl])
  case (fit n)
  have "(addr AND NOT (push_bit n 1 - 1)) AND (push_bit n 1 - 1) = 0"
    by (simp only: and.assoc bit.conj_cancel_left bit.conj_zero_right)
  then show ?thesis
    using fit(1,2) fit_ok_bounds [OF fit(2)]
    by (auto simp: fit(4) Let_def unat_of_nat_small memregion_end_def of_nat_less_64
        order_less_imp_le [OF of_nat_less_64])
next
  case all
  then show ?thesis by (simp add: Let_def memregion_end_def)
qed

lemma aligned_block_base:
  assumes "n < 64" "b AND mask n = 0" "unat b + 2 ^ n < 2 ^ 64" "b \<le> addr" "addr < b + push_bit n 1"
  shows "addr AND NOT (mask n) = (b :: ulong)"
proof -
  have m: "unat (w AND mask n) = unat w mod 2 ^ n" for w :: ulong
  proof -
    have "unat (w AND mask n) = take_bit n (unat w)"
      by (simp only: take_bit_eq_mask [symmetric] unsigned_take_bit_eq)
    then show ?thesis by (simp only: take_bit_eq_mod)
  qed
  have e: "unat (b + push_bit n 1) = unat b + 2 ^ n"
    using assms(1,3) unat_push_bit_one [OF assms(1)]
    by (simp only: unat_word_ariths) simp
  have b: "unat b mod 2 ^ n = 0" using m [of b] assms(2) by simp
  have lo: "unat b \<le> unat addr" "unat addr < unat b + 2 ^ n"
    using assms(4,5) e by (simp_all add: word_le_nat_alt word_less_nat_alt del: push_bit_of_1)
  define d where "d = unat addr - unat b"
  have d: "unat addr = unat b + d" "d < 2 ^ n" using lo by (simp_all add: d_def)
  have "unat addr mod 2 ^ n = d" using b d by (metis add_0 mod_add_left_eq mod_less)
  then have "unat (addr - (addr AND mask n)) = unat b"
    using m [of addr] d by (simp add: unat_sub word_and_le2)
  then show ?thesis by (simp only: and_not_minus word_unat_eq_iff)
qed

text \<open>No smaller aligned block would do: a block of a smaller power of two that contains the
  first and the last byte does not exist, unless it ends at the very top of the address space,
  where the code's end computation wraps to zero and the block is not recognised.\<close>

theorem memregion_init_least:
  assumes "sz \<noteq> 0" and "unat addr + unat sz \<le> 2 ^ 64"
    and "n < unat (order (sbi_domain_memregion_init addr sz fl))"
    and "b AND mask n = 0" and "unat b + 2 ^ n < 2 ^ 64"
  shows "\<not> (b \<le> addr \<and> addr + sz - 1 < b + push_bit n 1)"
proof
  assume c: "b \<le> addr \<and> addr + sz - 1 < b + push_bit n 1"
  have "(2 :: nat) ^ n < 2 ^ 64" using assms(5) by linarith
  then have n: "n < 64" by (rule power_less_imp_less_exp [rotated]) simp
  have last: "unat (addr + sz - 1) = unat addr + unat sz - 1"
  proof -
    have s: "unat (sz - 1) = unat sz - 1" "0 < unat sz"
      using assms(1) by (simp_all add: unat_minus_one unat_gt_0)
    have "unat addr + (unat sz - 1) < 2 ^ 64" using s(2) assms(2) by linarith
    then have "unat (addr + (sz - 1)) = unat addr + (unat sz - 1)"
      using s(1) by (simp add: unat_word_ariths)
    then show ?thesis using s by (simp add: add_diff_eq)
  qed
  have e: "unat (b + push_bit n 1) = unat b + 2 ^ n"
    using assms(5) unat_push_bit_one [OF n] by (simp only: unat_word_ariths) simp
  have c': "unat b \<le> unat addr" "unat addr + unat sz - 1 < unat b + 2 ^ n"
    using c last e by (simp_all add: word_le_nat_alt word_less_nat_alt del: push_bit_of_1)
  have szpos: "0 < unat sz" using assms(1) by (simp add: unat_gt_0)
  have size: "unat sz \<le> 2 ^ n" using c' szpos by linarith
  have o: "log2roundup sz \<le> n" using size by (rule log2roundup_least)
  have "addr < b + push_bit n 1"
    using c' szpos e unfolding word_less_nat_alt by linarith
  then have "addr AND NOT (mask n) = b"
    using c by (intro aligned_block_base [OF n assms(4,5)]) simp_all
  moreover have "b \<le> addr + sz - 1" using c'(1) szpos last unfolding word_le_nat_alt by linarith
  ultimately have "fit_ok addr sz n"
    using c \<open>addr < b + push_bit n 1\<close> by (simp add: fit_ok_def Let_def mask_eq_exp_minus_1)
  then show False
  proof (cases rule: memregion_init_cases [of addr sz fl])
    case (fit m)
    then show ?thesis using o assms(3) \<open>fit_ok addr sz n\<close> by (simp add: unat_of_nat_small)
  next
    case all
    then show ?thesis using o n \<open>fit_ok addr sz n\<close> by blast
  qed
qed

theorem memregion_init_least_witness:
  "\<not> ((0x1000 :: ulong) \<le> 0x1800 \<and> (0x1800 + 0x900 - 1 :: ulong) < 0x1000 + push_bit 12 1)"
proof -
  have "unat (order (sbi_domain_memregion_init 0x1800 0x900 0)) = 14"
    by code_simp
  then show ?thesis
    using memregion_init_least [of "0x900" "0x1800" 12 0 "0x1000"]
    by (simp add: mask_eq_exp_minus_1)
qed

section \<open>Sorting\<close>

text \<open>By size, and among regions of one size by base address.\<close>

definition region_le :: "sbi_domain_memregion \<Rightarrow> sbi_domain_memregion \<Rightarrow> bool" where
  "region_le a b \<longleftrightarrow> order a < order b \<or> order a = order b \<and> base a \<le> base b"

lemma region_le_refl [simp]: "region_le a a"
  by (simp add: region_le_def)

lemma region_le_trans: "region_le a b \<Longrightarrow> region_le b c \<Longrightarrow> region_le a c"
  by (auto simp: region_le_def)

lemma region_before_le: "is_region_before a b \<Longrightarrow> region_le a b"
  by (auto simp: region_le_def is_region_before_def)

lemma region_not_before_le: "\<not> is_region_before b a \<Longrightarrow> region_le a b"
  by (auto simp: region_le_def is_region_before_def)

lemma region_le_order: "region_le a b \<Longrightarrow> order a \<le> order b"
  by (auto simp: region_le_def)

text \<open>What a region that has reached its place is to the ones behind it: no later in the order, and,
  when it conflicts with itself, not equal.\<close>

definition settled :: "sbi_domain_memregion \<Rightarrow> sbi_domain_memregion \<Rightarrow> bool" where
  "settled a b \<longleftrightarrow> region_le a b \<and> (is_region_conflict a a \<longrightarrow> b \<noteq> a)"

lemma settled_before:
  assumes "c = a \<or> is_region_before c a" and "settled a b \<or> b = a \<and> is_region_before c a"
  shows "settled c b"
  using assms by (auto simp: settled_def region_le_def is_region_before_def)

text \<open>One run of the inner loop: the array is permuted inside the positions it may touch, and
  position \<open>i\<close> ends up below all of them.\<close>

lemma sanitize_inner_spec:
  assumes "i < m" "m \<le> cnt" "cnt \<le> length a" "sanitize_inner i [m..<cnt] a = (False, a')"
  shows "mset a' = mset a \<and> length a' = length a
    \<and> (\<forall>k < length a. k \<noteq> i \<and> (k < m \<or> cnt \<le> k) \<longrightarrow> a' ! k = a ! k)
    \<and> (\<forall>k. k = i \<or> m \<le> k \<and> k < cnt \<longrightarrow> (\<exists>j. (j = i \<or> m \<le> j \<and> j < cnt) \<and> a' ! k = a ! j))
    \<and> (a' ! i = a ! i \<or> is_region_before (a' ! i) (a ! i)) \<and> (\<forall>k. m \<le> k \<and> k < cnt \<longrightarrow> settled (a' ! i) (a' ! k))"
  using assms
proof (induction "cnt - m" arbitrary: m a)
  case 0
  then show ?case by auto
next
  case (Suc d)
  then have mc: "m < cnt" by simp
  then have js: "[m..<cnt] = m # [Suc m..<cnt]" by (rule upt_conv_Cons)
  define b where "b = (if is_region_before (a ! m) (a ! i) then a[m := a ! i, i := a ! m] else a)"
  have run: "sanitize_inner i [Suc m..<cnt] b = (False, a')"
    and clash: "\<not> is_region_conflict (a ! m) (a ! i)"
    using Suc.prems(4) by (simp_all add: js b_def split: if_splits)
  have lb: "length b = length a" by (simp add: b_def)
  have "d = cnt - Suc m" "i < Suc m" "Suc m \<le> cnt" "cnt \<le> length b"
    using Suc.hyps(2) Suc.prems mc lb by simp_all
  note IH = Suc.hyps(1) [OF this run]
  have mb: "mset b = mset a"
    using Suc.prems(1,3) mc by (simp add: b_def mset_swap)
  have bi: "b ! i = (if is_region_before (a ! m) (a ! i) then a ! m else a ! i)"
    and bm: "b ! m = (if is_region_before (a ! m) (a ! i) then a ! i else a ! m)"
    and bk: "k \<noteq> i \<Longrightarrow> k \<noteq> m \<Longrightarrow> b ! k = a ! k" for k
    using Suc.prems(1,3) mc by (auto simp: b_def)
  have le: "b ! i = a ! i \<or> is_region_before (b ! i) (a ! i)" "settled (b ! i) (b ! m)"
    using region_before_le region_not_before_le clash by (auto simp: bi bm settled_def)
  have am: "a' ! m = b ! m" using IH Suc.prems(1,3) mc lb by auto
  have frame: "a' ! k = a ! k" if "k < length a" "k \<noteq> i" "k < m \<or> cnt \<le> k" for k
    using IH that bk [of k] mc lb by auto
  have src: "\<exists>j. (j = i \<or> m \<le> j \<and> j < cnt) \<and> a' ! k = a ! j"
    if k: "k = i \<or> m \<le> k \<and> k < cnt" for k
  proof -
    have ex: "\<exists>j. (j = i \<or> m \<le> j \<and> j < cnt) \<and> b ! k' = a ! j"
      if "k' = i \<or> m \<le> k' \<and> k' < cnt" for k'
      using that bi bm bk [of k'] mc by (cases "k' = i"; cases "k' = m") auto
    show ?thesis
    proof (cases "k = m")
      case True
      then show ?thesis using am ex [of m] mc by auto
    next
      case False
      then obtain j where "j = i \<or> Suc m \<le> j \<and> j < cnt" "a' ! k = b ! j"
        using IH k by (metis Suc_leI le_neq_implies_less)
      then show ?thesis using ex [of j] by auto
    qed
  qed
  have low: "a' ! i = b ! i \<or> is_region_before (a' ! i) (b ! i)" using IH by blast
  have all: "settled (a' ! i) (a' ! k)" if "m \<le> k" "k < cnt" for k
    using that IH am settled_before [OF low] le(2) by (cases "k = m") (auto simp: Suc_leI)
  have first: "a' ! i = a ! i \<or> is_region_before (a' ! i) (a ! i)"
    using low le(1) by (auto simp: is_region_before_def)
  show ?case
    using IH mb lb frame src first all by auto
qed

lemma sanitize_sort_spec:
  assumes "i \<le> cnt" "cnt \<le> length a" "sanitize_sort cnt [i..<cnt - 1] a = (False, a')"
    and "\<forall>p q. p < q \<and> p < i \<and> q < cnt \<longrightarrow> settled (a ! p) (a ! q)"
  shows "mset a' = mset a \<and> length a' = length a \<and> (\<forall>k < length a. cnt \<le> k \<longrightarrow> a' ! k = a ! k)
    \<and> (\<forall>p q. p < q \<and> q < cnt \<longrightarrow> settled (a' ! p) (a' ! q))"
  using assms
proof (induction "cnt - i" arbitrary: i a)
  case 0
  then show ?case by auto
next
  case (Suc d)
  show ?case
  proof (cases "i < cnt - 1")
    case False
    then have e: "[i..<cnt - 1] = []" by simp
    have a': "a' = a" using Suc.prems(3) unfolding e by simp
    have "settled (a ! p) (a ! q)" if "p < q" "q < cnt" for p q
    proof -
      have "p < i" using that False by linarith
      then show ?thesis using Suc.prems(4) that by blast
    qed
    then show ?thesis by (simp add: a')
  next
    case True
    then have ups: "[i..<cnt - 1] = i # [Suc i..<cnt - 1]" by (rule upt_conv_Cons)
    obtain b where inner: "sanitize_inner i [i + 1..<cnt] a = (False, b)"
      and run: "sanitize_sort cnt [Suc i..<cnt - 1] b = (False, a')"
      using Suc.prems(3) unfolding ups by (auto split: prod.splits bool.splits)
    have I: "mset b = mset a \<and> length b = length a
      \<and> (\<forall>k < length a. k \<noteq> i \<and> (k < i + 1 \<or> cnt \<le> k) \<longrightarrow> b ! k = a ! k)
      \<and> (\<forall>k. k = i \<or> i + 1 \<le> k \<and> k < cnt \<longrightarrow> (\<exists>j. (j = i \<or> i + 1 \<le> j \<and> j < cnt) \<and> b ! k = a ! j))
      \<and> (b ! i = a ! i \<or> is_region_before (b ! i) (a ! i)) \<and> (\<forall>k. i + 1 \<le> k \<and> k < cnt \<longrightarrow> settled (b ! i) (b ! k))"
      by (rule sanitize_inner_spec [OF _ _ Suc.prems(2) inner]) (use True in simp_all)
    have pre: "settled (b ! p) (b ! q)" if "p < q" "p < Suc i" "q < cnt" for p q
    proof (cases "p = i")
      case True
      then show ?thesis using I that by simp
    next
      case False
      then have p: "p < i" using that by simp
      then have bp: "b ! p = a ! p" using I Suc.prems(1,2) that by auto
      show ?thesis
      proof (cases "q < i")
        case True
        then have "b ! q = a ! q" using I Suc.prems(1,2) that by auto
        then show ?thesis using bp Suc.prems(4) p that by simp
      next
        case False
        then have "q = i \<or> i + 1 \<le> q \<and> q < cnt" using that by auto
        then obtain j where "j = i \<or> i + 1 \<le> j \<and> j < cnt" "b ! q = a ! j" using I by blast
        then show ?thesis using bp Suc.prems(4) p True by (auto intro!: Suc.prems(4) [rule_format])
      qed
    qed
    have "mset a' = mset b \<and> length a' = length b \<and> (\<forall>k < length b. cnt \<le> k \<longrightarrow> a' ! k = b ! k)
      \<and> (\<forall>p q. p < q \<and> q < cnt \<longrightarrow> settled (a' ! p) (a' ! q))"
      using Suc.hyps(2) True I Suc.prems(2) run pre by (intro Suc.hyps(1)) auto
    then show ?thesis using I True by auto
  qed
qed

lemma sanitize_domain_ok:
  assumes "sanitize_domain d s = (0, s')"
  obtains rs rs' where "dom_regions (doms s d) s = Some rs"
    "\<forall>r\<in>set (for_each_memregion rs). is_region_valid r"
    "sanitize_sort (length (for_each_memregion rs)) [0..<length (for_each_memregion rs) - 1] rs = (False, rs')"
    "s' = put_regions d rs' s" "list_ex (is_fw_region s) (for_each_memregion rs)"
    "dom_next_mode (doms s' d) = PRV_S \<or> dom_next_mode (doms s' d) = PRV_U"
    "sbi_domain_check_addr (Some (doms s' d)) (dom_next_addr (doms s' d)) (dom_next_mode (doms s' d))
       SBI_DOMAIN_EXECUTE s'"
  using assms
  by (auto simp: sanitize_domain_def Let_def list_ex_iff split: option.splits if_splits prod.splits)

lemma dom_regions_put:
  assumes "dom_regions (doms s d) s = Some rs"
  shows "dom_regions (doms (put_regions d a s) d) (put_regions d a s) = Some a"
  using assms by (cases "regions (doms s d)") (auto simp: put_regions_def)

lemma takeWhile_first_fail:
  assumes "length (takeWhile P xs) = n" "length ys = length xs"
    "\<forall>k<n. P (ys ! k)" "n < length xs \<Longrightarrow> ys ! n = xs ! n"
  shows "takeWhile P ys = take n ys"
proof (cases "n < length xs")
  case True
  then have "\<not> P (xs ! n)" using assms(1) nth_length_takeWhile by blast
  then show ?thesis using assms True by (intro takeWhile_eq_take_P_nth) auto
next
  case False
  then have n: "n = length ys" using assms(1,2) length_takeWhile_le [of P xs] by simp
  then have "\<forall>x\<in>set ys. P x" using assms(3) by (auto simp: in_set_conv_nth)
  then show ?thesis by (simp add: n)
qed

lemma sanitize_sort_regions:
  assumes "sanitize_sort (length (for_each_memregion rs)) [0..<length (for_each_memregion rs) - 1] rs
      = (False, rs')"
  shows "sorted_wrt settled (for_each_memregion rs')" and "sorted_wrt region_le (for_each_memregion rs')"
    and "mset (for_each_memregion rs') = mset (for_each_memregion rs)"
    and "length rs' = length rs"
    and "drop (length (for_each_memregion rs)) rs' = drop (length (for_each_memregion rs)) rs"
proof -
  let ?n = "length (for_each_memregion rs)"
  have n: "?n \<le> length rs" by (simp add: for_each_memregion_def length_takeWhile_le)
  have S: "mset rs' = mset rs \<and> length rs' = length rs \<and> (\<forall>k < length rs. ?n \<le> k \<longrightarrow> rs' ! k = rs ! k)
    \<and> (\<forall>p q. p < q \<and> q < ?n \<longrightarrow> settled (rs' ! p) (rs' ! q))"
    by (rule sanitize_sort_spec [OF _ n assms]) simp_all
  then show len: "length rs' = length rs" by simp
  show dr: "drop ?n rs' = drop ?n rs" using S by (intro nth_equalityI) auto
  have "mset (take ?n rs') + mset (drop ?n rs') = mset (take ?n rs) + mset (drop ?n rs)"
    using S by (metis append_take_drop_id mset_append)
  then have mt: "mset (take ?n rs') = mset (take ?n rs)" using dr by simp
  have tk: "take ?n rs = for_each_memregion rs"
    by (simp add: for_each_memregion_def takeWhile_eq_take [symmetric])
  have "set (take ?n rs') = set (for_each_memregion rs)"
    using mt tk by (metis set_mset_mset)
  then have "\<forall>r\<in>set (take ?n rs'). order r \<noteq> 0"
    by (auto simp: for_each_memregion_def dest: set_takeWhileD)
  then have nz: "\<forall>k<?n. order (rs' ! k) \<noteq> 0"
    using n len by (metis in_set_conv_nth length_take min.absorb2 nth_take)
  then have tw: "for_each_memregion rs' = take ?n rs'"
    unfolding for_each_memregion_def using S len nz
    by (intro takeWhile_first_fail [where xs = rs]) (auto simp: for_each_memregion_def)
  show "mset (for_each_memregion rs') = mset (for_each_memregion rs)" using tw mt tk by simp
  show "sorted_wrt settled (for_each_memregion rs')"
    using S n len by (auto simp: tw sorted_wrt_iff_nth_less)
  then show "sorted_wrt region_le (for_each_memregion rs')"
    by (rule sorted_wrt_mono_rel [rotated]) (simp add: settled_def)
qed

text \<open>The region in which an address is looked up: the first that contains it.\<close>

definition region_contains :: "ulong \<Rightarrow> sbi_domain_memregion \<Rightarrow> bool" where
  "region_contains addr r \<longleftrightarrow> base r \<le> addr \<and> addr \<le> memregion_end r"

definition region_permits :: "sbi_domain_memregion \<Rightarrow> ulong \<Rightarrow> bool" where
  "region_permits r access_flags \<longleftrightarrow>
     (access_flags AND SBI_DOMAIN_MMIO \<noteq> 0 \<longleftrightarrow> flags r AND SBI_DOMAIN_MEMREGION_MMIO \<noteq> 0)
     \<and> flags r AND access_rwx access_flags = access_rwx access_flags"

lemma check_addr_regions_find:
  "mode \<noteq> PRV_M \<Longrightarrow> check_addr_regions rs addr mode (af AND SBI_DOMAIN_MMIO \<noteq> 0) (access_rwx af) =
     (case find (region_contains addr) rs of None \<Rightarrow> False | Some r \<Rightarrow> region_permits r af)"
  by (induction rs) (auto simp: region_contains_def region_permits_def)

lemma check_addr_regions_find_M:
  "check_addr_regions rs addr PRV_M (af AND SBI_DOMAIN_MMIO \<noteq> 0) (access_rwx af) =
     (case find (region_contains addr) (filter (\<lambda>r. flags r AND SBI_DOMAIN_MEMREGION_MMODE \<noteq> 0) rs)
      of None \<Rightarrow> True | Some r \<Rightarrow> region_permits r af)"
  by (induction rs) (auto simp: region_contains_def region_permits_def)

lemma sorted_find_least:
  "sorted_wrt region_le rs \<Longrightarrow> find P rs = Some r \<Longrightarrow> r' \<in> set rs \<Longrightarrow> P r' \<Longrightarrow> region_le r r'"
  by (induction rs) (auto split: if_splits)

text \<open>A sample domain state: the root's regions are a device page and the rest of memory.\<close>

definition dom_sample_regs :: "sbi_domain_memregion list" where
  "dom_sample_regs = [\<lparr>order = 64, base = 0, flags = 7\<rparr>, \<lparr>order = 12, base = 0x10000000, flags = 0x80000003\<rparr>,
     \<lparr>order = 17, base = 0x80000000, flags = 0\<rparr>] @ replicate 14 \<lparr>order = 0, base = 0, flags = 0\<rparr>"

definition dom_sample_mask :: sbi_hartmask where
  "dom_sample_mask = \<lparr>bits = [0xf, 0]\<rparr>"

definition dom_sample_root :: sbi_domain where
  "dom_sample_root = \<lparr>index = 0, assigned_harts = sbi_hartmask_empty, dom_name = ''root'',
     possible_harts = Harts_root, regions = Regs_root, boot_hartid = 0, dom_next_arg1 = 0,
     dom_next_addr = 0x80200000, dom_next_mode = 1, system_reset_allowed = True\<rparr>"

definition dom_sample :: domain_state where
  "dom_sample = machine.extend machine0
     \<lparr>doms = (\<lambda>d. dom_sample_root), hartid_to_domain = (\<lambda>h. None), domidx_to_domain = (\<lambda>i. None),
      domain_count = 0, domain_finalized = False, root_hmask = dom_sample_mask,
      root_memregs_count = 3, root_fw_region = \<lparr>order = 17, base = 0x80000000, flags = 0\<rparr>,
      root_memregs = dom_sample_regs\<rparr>"

lemma dom_sample_sanitize: "fst (sanitize_domain 0 dom_sample) = 0"
  by code_simp

lemma dom_sample_sorted:
  "root_memregs (snd (sanitize_domain 0 dom_sample)) =
    [\<lparr>order = 12, base = 0x10000000, flags = 0x80000003\<rparr>, \<lparr>order = 17, base = 0x80000000, flags = 0\<rparr>,
     \<lparr>order = 64, base = 0, flags = 7\<rparr>] @ replicate 14 \<lparr>order = 0, base = 0, flags = 0\<rparr>"
  by code_simp

section \<open>Properties\<close>

lemma valid_region_aligned:
  assumes "is_region_valid r"
  shows "3 \<le> order r" and "order r \<le> 64" and "order r < 64 \<Longrightarrow> base r AND mask (unat (order r)) = 0"
proof -
  show "3 \<le> order r" "order r \<le> 64" using assms by (auto simp: is_region_valid_def not_less)
  show "order r < 64 \<Longrightarrow> base r AND mask (unat (order r)) = 0"
    using assms by (simp add: is_region_valid_def BIT_def mask_eq_exp_minus_1 word_less_nat_alt)
qed

lemma self_conflict:
  assumes "is_region_valid r" and "order r < 64"
  shows "is_region_conflict r r"
proof -
  define n where "n = unat (order r)"
  have n: "3 \<le> n" "n < 64" using valid_region_aligned(1) [OF assms(1)] assms(2)
    by (simp_all add: n_def word_le_nat_alt word_less_nat_alt)
  have m: "BIT n - 1 = mask n" using n by (simp add: BIT_def mask_eq_exp_minus_1)
  have "base r AND mask n = 0" using valid_region_aligned(3) [OF assms] by (simp add: n_def)
  then have "base r + mask n = base r OR mask n" by (rule disjunctive_add_eq_or)
  moreover have "base r \<le> base r OR mask n" by (simp add: word_le_def unsigned_or_eq or_greater_eq)
  moreover have "base r OR mask n \<noteq> base r"
  proof
    assume "base r OR mask n = base r"
    then have "bit (base r) 0" using n by (metis bit_mask_iff bit_or_iff possible_bit_word len_gt_0 le_less_trans less_eq_nat.simps(1) order_less_le_trans zero_less_numeral)
    then show False using \<open>base r AND mask n = 0\<close> n by (metis bit_0_eq bit_and_iff bit_mask_iff bot_apply bot_bool_def possible_bit_word len_gt_0 order_less_le_trans zero_less_numeral)
  qed
  ultimately show ?thesis unfolding is_region_conflict_def is_region_subset_def Let_def n_def [symmetric] m by simp
qed

lemma settled_distinct:
  assumes "sorted_wrt settled rs" and "\<forall>r\<in>set rs. P r \<longrightarrow> is_region_conflict r r"
  shows "distinct (filter P rs)"
  using assms by (induction rs) (auto simp: settled_def)

text \<open>C18. When sanitizing a domain succeeds, its region array is a permutation of what it was, in order
  of size and, among regions of one size, of base address; every region has an order from 3 to 64 and
  a base aligned to its size, and no region smaller than the whole address space is there twice.\<close>

theorem sanitize_domain_sorts:
  assumes "sanitize_domain d s = (0, s')" and "dom_regions (doms s d) s = Some rs"
  shows "\<exists>rs'. dom_regions (doms s' d) s' = Some rs'
    \<and> mset (for_each_memregion rs') = mset (for_each_memregion rs)
    \<and> sorted_wrt region_le (for_each_memregion rs')
    \<and> (\<forall>r\<in>set (for_each_memregion rs'). 3 \<le> order r \<and> order r \<le> 64
          \<and> (order r < 64 \<longrightarrow> base r AND mask (unat (order r)) = 0))
    \<and> distinct (filter (\<lambda>r. order r < 64) (for_each_memregion rs'))"
proof -
  obtain rs' where v: "\<forall>r\<in>set (for_each_memregion rs). is_region_valid r"
    and so: "sanitize_sort (length (for_each_memregion rs)) [0..<length (for_each_memregion rs) - 1] rs = (False, rs')"
    and s': "s' = put_regions d rs' s"
    using assms(1) by (rule sanitize_domain_ok) (use assms(2) in auto)
  note S = sanitize_sort_regions [OF so]
  have "set (for_each_memregion rs') = set (for_each_memregion rs)"
    using S(3) by (metis set_mset_mset)
  then have v': "\<forall>r\<in>set (for_each_memregion rs'). is_region_valid r" using v by simp
  have "distinct (filter (\<lambda>r. order r < 64) (for_each_memregion rs'))"
    using v' self_conflict by (intro settled_distinct [OF S(1)]) blast
  moreover have "dom_regions (doms s' d) s' = Some rs'" using dom_regions_put [OF assms(2), of rs'] s' by simp
  ultimately show ?thesis using S(2,3) v' valid_region_aligned by blast
qed

theorem sanitize_domain_sorts_witness:
  "\<exists>rs'. dom_regions (doms (snd (sanitize_domain 0 dom_sample)) 0) (snd (sanitize_domain 0 dom_sample)) = Some rs'
    \<and> sorted_wrt region_le (for_each_memregion rs')"
proof -
  have "sanitize_domain 0 dom_sample = (0, snd (sanitize_domain 0 dom_sample))"
    using dom_sample_sanitize by (metis prod.collapse)
  moreover have "dom_regions (doms dom_sample 0) dom_sample = Some dom_sample_regs" by code_simp
  ultimately show ?thesis using sanitize_domain_sorts by blast
qed

text \<open>C17. In a domain that sanitizing has accepted, an access from S or U mode to an address is
  decided by the smallest region that contains it: that region's flags must permit it, whatever
  the larger regions around it say.\<close>

theorem check_addr_smallest_region:
  assumes "sanitize_domain d s = (0, s')" and "dom_regions (doms s' d) s' = Some rs"
    and "mode \<noteq> PRV_M" and "r \<in> set (for_each_memregion rs)" and "region_contains addr r"
    and "\<forall>r'\<in>set (for_each_memregion rs). region_contains addr r' \<longrightarrow> r' = r \<or> order r < order r'"
  shows "sbi_domain_check_addr (Some (doms s' d)) addr mode af s' = region_permits r af"
proof -
  obtain rs0 rs' where r0: "dom_regions (doms s d) s = Some rs0"
    and so: "sanitize_sort (length (for_each_memregion rs0)) [0..<length (for_each_memregion rs0) - 1] rs0 = (False, rs')"
    and s': "s' = put_regions d rs' s"
    using assms(1) by (rule sanitize_domain_ok)
  have "rs' = rs" using dom_regions_put [OF r0, of rs'] s' assms(2) by simp
  then have so': "sorted_wrt region_le (for_each_memregion rs)"
    using sanitize_sort_regions(2) [OF so] by simp
  obtain f where f: "find (region_contains addr) (for_each_memregion rs) = Some f"
    using assms(4,5) by (cases "find (region_contains addr) (for_each_memregion rs)")
      (auto simp: find_None_iff)
  have "order f \<le> order r" using sorted_find_least [OF so' f assms(4,5)] by (rule region_le_order)
  moreover have "f \<in> set (for_each_memregion rs)" "region_contains addr f"
    using f by (auto simp: find_Some_iff)
  ultimately have "f = r" using assms(6) by (meson leD)
  then show ?thesis using assms(2) f check_addr_regions_find [OF assms(3)] by simp
qed

theorem check_addr_smallest_region_witness:
  "sbi_domain_check_addr (Some (doms (snd (sanitize_domain 0 dom_sample)) 0)) 0x80000010 1 1
     (snd (sanitize_domain 0 dom_sample)) = region_permits \<lparr>order = 17, base = 0x80000000, flags = 0\<rparr> 1"
proof -
  let ?s = "snd (sanitize_domain 0 dom_sample)"
  have s: "sanitize_domain 0 dom_sample = (0, ?s)" using dom_sample_sanitize by (metis prod.collapse)
  have r: "dom_regions (doms ?s 0) ?s = Some (root_memregs ?s)"
    by code_simp
  have e: "for_each_memregion (root_memregs ?s) = [\<lparr>order = 12, base = 0x10000000, flags = 0x80000003\<rparr>,
     \<lparr>order = 17, base = 0x80000000, flags = 0\<rparr>, \<lparr>order = 64, base = 0, flags = 7\<rparr>]"
    unfolding dom_sample_sorted by code_simp
  show ?thesis
    by (rule check_addr_smallest_region [OF s r]) (simp_all add: e region_contains_def memregion_end_def)
qed

lemma unat_and_mask: "unat (w AND mask n :: ulong) = unat w mod 2 ^ n"
proof -
  have "unat (w AND mask n) = take_bit n (unat w)"
    by (simp only: take_bit_eq_mask [symmetric] unsigned_take_bit_eq)
  then show ?thesis by (simp only: take_bit_eq_mod)
qed

lemma unat_mask_64: "n < 64 \<Longrightarrow> unat (mask n :: ulong) = 2 ^ n - 1"
  using unat_push_bit_one [of n] by (simp add: mask_eq_exp_minus_1 unat_minus_one)

lemma aligned_end_bound:
  assumes "n < 64" "b AND mask n = (0 :: ulong)"
  shows "unat b + 2 ^ n \<le> 2 ^ 64"
proof -
  have "2 ^ n dvd unat b" using assms(2) unat_and_mask [of b n] by (simp add: mod_0_imp_dvd)
  moreover have "(2 :: nat) ^ n dvd 2 ^ 64" using assms(1) by (intro le_imp_power_dvd) simp
  ultimately have "2 ^ n dvd (2 ^ 64 - unat b)" by (rule dvd_diff_nat [rotated])
  moreover have "unat b < 2 ^ 64" using unat_u64_less [of b] by simp
  ultimately have "2 ^ n \<le> 2 ^ 64 - unat b" by (intro dvd_imp_le) simp_all
  then show ?thesis using \<open>unat b < 2 ^ 64\<close> by linarith
qed

lemma aligned_end:
  assumes "n < 64" "b AND mask n = (0 :: ulong)"
  shows "unat (b + mask n) = unat b + (2 ^ n - 1)"
proof -
  have "unat b + unat (mask n :: ulong) < 2 ^ 64"
    using aligned_end_bound [OF assms] unat_mask_64 [OF assms(1)] by simp
  then show ?thesis using unat_mask_64 [OF assms(1)] by (simp add: unat_word_ariths)
qed

text \<open>\<^verbatim>\<open>is_region_subset()\<close> takes the end of the second region from the order of the first,
  so it does not test inclusion: for a valid first region of order 3 to 63 it holds exactly when
  the two regions start at the same address, whatever the second region's size.\<close>

theorem region_subset_is_same_base:
  assumes "is_region_valid regA" and "order regA < 64"
  shows "is_region_subset regA regB \<longleftrightarrow> base regA = base regB"
proof -
  let ?n = "unat (order regA)"
  have n: "3 \<le> ?n" "?n < 64"
    using assms by (auto simp: is_region_valid_def word_le_nat_alt word_less_nat_alt)
  have m: "BIT ?n - 1 = mask ?n" using n by (simp add: BIT_def mask_eq_exp_minus_1)
  have al: "base regA AND mask ?n = 0"
    using assms(1) n by (simp add: is_region_valid_def m)
  have eA: "unat (base regA + mask ?n) = unat (base regA) + (2 ^ ?n - 1)"
    by (rule aligned_end [OF n(2) al])
  have "unat (base regB + mask ?n) \<le> unat (base regB) + unat (mask ?n :: ulong)"
    by (simp only: unat_word_ariths mod_less_eq_dividend)
  then have eB: "unat (base regB + mask ?n) \<le> unat (base regB) + (2 ^ ?n - 1)"
    using unat_mask_64 [OF n(2)] by simp
  have "(2 :: nat) ^ 3 \<le> 2 ^ ?n" using n(1) by (intro power_increasing) simp_all
  then have gt: "(0 :: nat) < 2 ^ ?n - 1" by simp
  show ?thesis
  proof
    assume "is_region_subset regA regB"
    then have "base regB \<le> base regA" "base regA + mask ?n \<le> base regB + mask ?n"
      by (simp_all add: is_region_subset_def Let_def m)
    then have "unat (base regA) = unat (base regB)"
      using eA eB unfolding word_le_nat_alt by linarith
    then show "base regA = base regB" by (simp only: word_unat_eq_iff)
  next
    assume "base regA = base regB"
    then show "is_region_subset regA regB"
      using eA gt by (simp add: is_region_subset_def Let_def m word_less_nat_alt)
  qed
qed

theorem region_subset_is_same_base_witness:
  "\<not> is_region_subset \<lparr>order = 12, base = 0x80001000, flags = 7\<rparr> \<lparr>order = 20, base = 0x80000000, flags = 7\<rparr>"
  by (subst region_subset_is_same_base) (simp_all add: is_region_valid_def BIT_def)

end
