(* ===== verification/Sbi_Domain_Harts.thy ===== *)
theory Sbi_Domain_Harts
  imports Sbi_Domain_Regions
begin

text \<open>
  Which hart belongs to which domain: the mask of assigned harts as a window on the hart ids,
  and the invariant that registering domains keeps every hart in at most one of them. The last
  part shows that adding a region to the root domain returns.
\<close>

section \<open>The window on the assigned harts\<close>

lemma BIT_bits: "n < 64 \<Longrightarrow> BIT n - 1 = mask n"
  by (simp add: BIT_def mask_eq_exp_minus_1)

lemma hm_word_bit:
  "hm_wf m \<Longrightarrow> j < 64 \<Longrightarrow> bit (hm_word m k) j \<longleftrightarrow> 64 * k + j \<in> hm_set m"
  by (auto simp: hm_word_def hm_wf_def hm_set_def bm_bit_def)

lemma assigned_window_bit:
  assumes "hm_wf (assigned_harts dm)" and "unat hbase < 128" and "i < 64"
  shows "bit (sbi_domain_get_assigned_hartmask (Some dm) hbase) i
    \<longleftrightarrow> sbi_domain_is_assigned_hart (Some dm) (of_nat (unat hbase + i))"
proof -
  define q r where "q = unat hbase div 64" and "r = unat hbase mod 64"
  have h: "unat hbase = 64 * q + r" and r: "r < 64" and q: "q < 2"
    using assms(2) by (simp_all add: q_def r_def)
  let ?m = "assigned_harts dm"
  have test: "sbi_domain_is_assigned_hart (Some dm) (of_nat (unat hbase + i))
      \<longleftrightarrow> 64 * q + r + i \<in> hm_set ?m"
  proof -
    have "unat (of_nat (unat hbase + i) :: u32) = unat hbase + i"
      using assms(2,3) by (subst unat_of_nat) (simp del: of_nat_add)
    then show ?thesis using h by (simp del: of_nat_add)
  qed
  show ?thesis
  proof (cases "r + i < 64")
    case True
    have "bit (sbi_domain_get_assigned_hartmask (Some dm) hbase) i \<longleftrightarrow> bit (hm_word ?m q) (r + i)"
      using True r q assms(3) unfolding sbi_domain_get_assigned_hartmask.simps Let_def
        q_def [symmetric] r_def [symmetric]
      by (auto simp: bit_drop_bit_eq bit_or_iff bit_push_bit_iff bit_and_iff BIT_bits bit_mask_ulong)
    then show ?thesis using hm_word_bit [OF assms(1) True] test by (simp add: add.assoc)
  next
    case False
    then have r0: "r \<noteq> 0" using assms(3) by auto
    have "bit (sbi_domain_get_assigned_hartmask (Some dm) hbase) i
        \<longleftrightarrow> q + 1 < 2 \<and> bit (hm_word ?m (q + 1)) (r + i - 64)"
      using False r r0 assms(3) unfolding sbi_domain_get_assigned_hartmask.simps Let_def
        q_def [symmetric] r_def [symmetric]
      by (auto simp: bit_drop_bit_eq bit_or_iff bit_push_bit_iff bit_and_iff BIT_bits
          bit_mask_ulong possible_bit_word add.commute [of r i] dest: word64_bit_less)
    also have "\<dots> \<longleftrightarrow> q + 1 < 2 \<and> 64 * q + r + i \<in> hm_set ?m"
      using hm_word_bit [OF assms(1), of "r + i - 64" "q + 1"] False r assms(3) by (simp add: algebra_simps)
    also have "\<dots> \<longleftrightarrow> 64 * q + r + i \<in> hm_set ?m"
      using q False hm_set_less [of "64 * q + r + i" ?m] by auto
    finally show ?thesis using test by simp
  qed
qed

text \<open>\<^verbatim>\<open>sbi_domain_get_assigned_hartmask(dom, hbase)\<close> is the 64 bit window on the assigned harts
  that starts at \<open>hbase\<close>: bit \<open>i\<close> says whether hart \<open>hbase + i\<close> is assigned, also when the window
  spans two words of the mask.\<close>

theorem assigned_hartmask_window:
  assumes "hm_wf (assigned_harts dm)" and "unat hbase < 128" and "i < 64"
  shows "bit (sbi_domain_get_assigned_hartmask (Some dm) hbase) i
    \<longleftrightarrow> sbi_domain_is_assigned_hart (Some dm) (of_nat (unat hbase + i))"
  using assms by (rule assigned_window_bit)

theorem assigned_hartmask_window_witness:
  "bit (sbi_domain_get_assigned_hartmask
     (Some (dom_sample_root\<lparr>assigned_harts := \<lparr>bits = [0, 5]\<rparr>\<rparr>)) 60) 6"
proof -
  let ?d = "dom_sample_root\<lparr>assigned_harts := \<lparr>bits = [0, 5]\<rparr>\<rparr>"
  have "bit (sbi_domain_get_assigned_hartmask (Some ?d) 60) 6
      \<longleftrightarrow> sbi_domain_is_assigned_hart (Some ?d) (of_nat (unat (60 :: ulong) + 6))"
    by (rule assigned_hartmask_window) (simp_all add: hm_wf_def)
  also have "\<dots>" by code_simp
  finally show ?thesis .
qed

section \<open>Every hart is in at most one domain\<close>

definition dom_registered :: "'a domain_state_scheme \<Rightarrow> nat set" where
  "dom_registered s = {d. \<exists>i < domain_count s. domidx_to_domain s i = Some d}"

definition dom_inv :: "'a domain_state_scheme \<Rightarrow> bool" where
  "dom_inv s \<longleftrightarrow>
     domain_count s \<le> SBI_DOMAIN_MAX_INDEX
     \<and> (\<forall>i. i < SBI_DOMAIN_MAX_INDEX \<longrightarrow> (i < domain_count s \<longleftrightarrow> domidx_to_domain s i \<noteq> None))
     \<and> (\<forall>d. hm_wf (assigned_harts (doms s d)))
     \<and> (\<forall>h d. hartid_to_domain s h = Some d \<longrightarrow> d \<in> dom_registered s)
     \<and> (\<forall>d\<in>dom_registered s. \<forall>h<128.
          h \<in> hm_set (assigned_harts (doms s d)) \<longleftrightarrow> hartid_to_domain s h = Some d)"

lemma for_each_registered:
  assumes "dom_inv s"
  shows "set (sbi_domain_for_each s) = dom_registered s"
proof -
  let ?f = "domidx_to_domain s"
  have c: "domain_count s \<le> 32" "\<And>i. i < 32 \<Longrightarrow> i < domain_count s \<longleftrightarrow> ?f i \<noteq> None"
    using assms by (auto simp: dom_inv_def)
  have live: "\<forall>i<domain_count s. ?f i \<noteq> None" using c by (meson less_le_trans)
  have "[0..<32] = [0..<domain_count s] @ [domain_count s..<32]"
    using upt_add_eq_append [of 0 "domain_count s" "32 - domain_count s"] c(1) by simp
  then have "map ?f [0..<32] = map ?f [0..<domain_count s] @ map ?f [domain_count s..<32]"
    by (simp only: map_append)
  moreover have "takeWhile (\<lambda>d. d \<noteq> None) (map ?f [0..<domain_count s] @ map ?f [domain_count s..<32])
      = map ?f [0..<domain_count s] @ takeWhile (\<lambda>d. d \<noteq> None) (map ?f [domain_count s..<32])"
    using live by (intro takeWhile_append2) auto
  moreover have "takeWhile (\<lambda>d. d \<noteq> None) (map ?f [domain_count s..<32]) = []"
  proof (cases "domain_count s < 32")
    case True
    then have "?f (domain_count s) = None" using c(2) [OF True] by simp
    then show ?thesis using True by (simp add: upt_conv_Cons)
  qed simp
  ultimately have "sbi_domain_for_each s = map (\<lambda>i. the (?f i)) [0..<domain_count s]"
    by (simp only: sbi_domain_for_each_def append_Nil2 map_map comp_def)
  then have "set (sbi_domain_for_each s) = (\<lambda>i. the (?f i)) ` {..<domain_count s}"
    by (simp add: atLeast0LessThan)
  also have "\<dots> = dom_registered s"
  proof (intro set_eqI iffI)
    fix d assume "d \<in> (\<lambda>i. the (?f i)) ` {..<domain_count s}"
    then obtain i where "i < domain_count s" "d = the (?f i)" by blast
    then show "d \<in> dom_registered s" using live by (auto simp: dom_registered_def)
  next
    fix d assume "d \<in> dom_registered s"
    then obtain i where "i < domain_count s" "?f i = Some d" by (auto simp: dom_registered_def)
    then show "d \<in> (\<lambda>i. the (?f i)) ` {..<domain_count s}" by (force simp: image_iff)
  qed
  finally show ?thesis .
qed

text \<open>What holds of the domain that is being registered while its harts are assigned.\<close>

lemma register_assign_run:
  assumes "dom_inv s" "d \<in> dom_registered s" "i < 128"
    and "dom_possible (doms s d) s = Some m" "i \<in> hm_set m"
  shows "\<exists>ds. register_assign d c s i = s\<lparr>doms := ds, hartid_to_domain := (hartid_to_domain s)(i := Some d)\<rparr>
    \<and> (\<forall>k. possible_harts (ds k) = possible_harts (doms s k))
    \<and> (\<forall>k. hm_wf (assigned_harts (ds k)))
    \<and> (\<forall>k\<in>dom_registered s. hm_set (assigned_harts (ds k)) =
          (if k = d then insert i (hm_set (assigned_harts (doms s k)))
           else hm_set (assigned_harts (doms s k)) - {i}))"
proof -
  have wf: "hm_wf (assigned_harts (doms s k))" for k using assms(1) by (simp add: dom_inv_def)
  have own: "i \<in> hm_set (assigned_harts (doms s k)) \<longleftrightarrow> hartid_to_domain s i = Some k"
    if "k \<in> dom_registered s" for k
    using assms(1,3) that by (simp add: dom_inv_def)
  define ds1 where "ds1 = (case hartid_to_domain s i of None \<Rightarrow> doms s
     | Some t \<Rightarrow> (doms s)(t := (doms s t)
          \<lparr>assigned_harts := sbi_hartmask_clear_hart i (assigned_harts (doms s t))\<rparr>))"
  define ds2 where "ds2 = ds1(d := (ds1 d)\<lparr>assigned_harts := sbi_hartmask_set_hart i (assigned_harts (ds1 d))\<rparr>)"
  define ds where "ds = (if i = c \<and> boot_hartid (ds2 d) \<noteq> of_nat c
     then ds2(d := (ds2 d)\<lparr>boot_hartid := of_nat c\<rparr>) else ds2)"
  have run: "register_assign d c s i = s\<lparr>doms := ds, hartid_to_domain := (hartid_to_domain s)(i := Some d)\<rparr>"
    using assms(4,5)
    by (simp add: register_assign_def ds_def ds2_def ds1_def Let_def split: option.splits)
  have p1: "possible_harts (ds1 k) = possible_harts (doms s k)" "hm_wf (assigned_harts (ds1 k))" for k
    using wf by (auto simp: ds1_def split: option.splits)
  have a1: "hm_set (assigned_harts (ds1 k)) = hm_set (assigned_harts (doms s k)) - {i}"
    if "k \<in> dom_registered s" for k
    using own [OF that] wf by (auto simp: ds1_def hm_set_clear_hart split: option.splits if_splits)
  have p: "possible_harts (ds k) = possible_harts (doms s k)" "hm_wf (assigned_harts (ds k))"
    "assigned_harts (ds k) = assigned_harts (ds2 k)" for k
    using p1 by (auto simp: ds_def ds2_def)
  have "hm_set (assigned_harts (ds k)) = (if k = d then insert i (hm_set (assigned_harts (doms s k)))
           else hm_set (assigned_harts (doms s k)) - {i})" if "k \<in> dom_registered s" for k
    using a1 [OF that] p1(2) assms(3) by (auto simp: p(3) ds2_def hm_set_set_hart)
  then show ?thesis using run p by blast
qed

lemma register_assign_inv:
  assumes "dom_inv s" "d \<in> dom_registered s" "i < 128"
  shows "dom_inv (register_assign d c s i)"
    and "dom_registered (register_assign d c s i) = dom_registered s"
    and "hartid_to_domain (register_assign d c s i) =
      (if i \<in> (case dom_possible (doms s d) s of Some m \<Rightarrow> hm_set m | None \<Rightarrow> {})
       then (hartid_to_domain s)(i := Some d) else hartid_to_domain s)"
    and "dom_possible (doms (register_assign d c s i) d) (register_assign d c s i) = dom_possible (doms s d) s"
proof -
  have "dom_inv (register_assign d c s i)
    \<and> dom_registered (register_assign d c s i) = dom_registered s
    \<and> hartid_to_domain (register_assign d c s i) =
      (if i \<in> (case dom_possible (doms s d) s of Some m \<Rightarrow> hm_set m | None \<Rightarrow> {})
       then (hartid_to_domain s)(i := Some d) else hartid_to_domain s)
    \<and> dom_possible (doms (register_assign d c s i) d) (register_assign d c s i) = dom_possible (doms s d) s"
  proof (cases "\<exists>m. dom_possible (doms s d) s = Some m \<and> i \<in> hm_set m")
    case False
    then have "register_assign d c s i = s"
      by (auto simp: register_assign_def split: option.splits)
    then show ?thesis using False assms(1) by (auto split: option.splits)
  next
    case True
    then obtain m where m: "dom_possible (doms s d) s = Some m" "i \<in> hm_set m" by blast
    obtain ds where r: "register_assign d c s i = s\<lparr>doms := ds, hartid_to_domain := (hartid_to_domain s)(i := Some d)\<rparr>"
      and p: "\<forall>k. possible_harts (ds k) = possible_harts (doms s k)" "\<forall>k. hm_wf (assigned_harts (ds k))"
      and a: "\<forall>k\<in>dom_registered s. hm_set (assigned_harts (ds k)) =
          (if k = d then insert i (hm_set (assigned_harts (doms s k)))
           else hm_set (assigned_harts (doms s k)) - {i})"
      using register_assign_run [OF assms m, of c] by blast
    let ?t = "s\<lparr>doms := ds, hartid_to_domain := (hartid_to_domain s)(i := Some d)\<rparr>"
    have reg: "dom_registered ?t = dom_registered s" by (simp add: dom_registered_def)
    have "dom_inv ?t"
      unfolding dom_inv_def reg
      using assms(1,2) p a by (auto simp: dom_inv_def)
    moreover have "dom_possible (ds d) ?t = dom_possible (doms s d) s" using p(1) by (simp split: harts_ptr.split)
    ultimately show ?thesis using r reg m by auto
  qed
  then show "dom_inv (register_assign d c s i)"
    "dom_registered (register_assign d c s i) = dom_registered s"
    "hartid_to_domain (register_assign d c s i) =
      (if i \<in> (case dom_possible (doms s d) s of Some m \<Rightarrow> hm_set m | None \<Rightarrow> {})
       then (hartid_to_domain s)(i := Some d) else hartid_to_domain s)"
    "dom_possible (doms (register_assign d c s i) d) (register_assign d c s i) = dom_possible (doms s d) s"
    by blast+
qed

lemma register_assign_fold:
  assumes "dom_inv s" "d \<in> dom_registered s" "\<forall>i\<in>set is. i < 128" "dom_possible (doms s d) s = Some m"
  shows "dom_inv (foldl (register_assign d c) s is)
    \<and> hartid_to_domain (foldl (register_assign d c) s is) =
        (\<lambda>h. if h \<in> set is \<and> h \<in> hm_set m then Some d else hartid_to_domain s h)"
  using assms
proof (induction "is" arbitrary: s)
  case Nil
  then show ?case by simp
next
  case (Cons i "is")
  have i: "i < 128" using Cons.prems(3) by simp
  note A = register_assign_inv [OF Cons.prems(1,2) i, of c]
  have "dom_inv (foldl (register_assign d c) (register_assign d c s i) is)
    \<and> hartid_to_domain (foldl (register_assign d c) (register_assign d c s i) is) =
        (\<lambda>h. if h \<in> set is \<and> h \<in> hm_set m then Some d else hartid_to_domain (register_assign d c s i) h)"
    using A Cons.prems by (intro Cons.IH) auto
  then show ?case using A(3) Cons.prems(4) by (auto simp: fun_eq_iff)
qed

lemma sanitize_domain_frame:
  assumes "sanitize_domain d s = (rc, s')"
  shows "domidx_to_domain s' = domidx_to_domain s" "domain_count s' = domain_count s"
    "hartid_to_domain s' = hartid_to_domain s" "domain_finalized s' = domain_finalized s"
    "assigned_harts (doms s' k) = assigned_harts (doms s k)"
    "dom_possible (doms s' k) s' = dom_possible (doms s k) s"
    "root_hmask s' = root_hmask s" "rc = 0 \<Longrightarrow> dom_possible (doms s d) s \<noteq> None"
    "regions (doms s k) = Regs_root \<Longrightarrow> regions (doms s' k) = Regs_root"
    "root_memregs_count s' = root_memregs_count s"
proof -
  have pr: "domidx_to_domain (put_regions d a s) = domidx_to_domain s"
    "domain_count (put_regions d a s) = domain_count s"
    "hartid_to_domain (put_regions d a s) = hartid_to_domain s"
    "domain_finalized (put_regions d a s) = domain_finalized s"
    "assigned_harts (doms (put_regions d a s) k) = assigned_harts (doms s k)"
    "possible_harts (doms (put_regions d a s) k) = possible_harts (doms s k)"
    "root_hmask (put_regions d a s) = root_hmask s"
    "root_memregs_count (put_regions d a s) = root_memregs_count s"
    "regions (doms s k) = Regs_root \<Longrightarrow> regions (doms (put_regions d a s) k) = Regs_root" for a k
    by (auto simp: put_regions_def split: regions_ptr.split)
  have "(\<exists>a. s' = put_regions d a s) \<or> s' = s"
    using assms by (auto simp: sanitize_domain_def Let_def split: option.splits if_splits prod.splits)
  then show "domidx_to_domain s' = domidx_to_domain s" "domain_count s' = domain_count s"
    "hartid_to_domain s' = hartid_to_domain s" "domain_finalized s' = domain_finalized s"
    "assigned_harts (doms s' k) = assigned_harts (doms s k)"
    "dom_possible (doms s' k) s' = dom_possible (doms s k) s"
    "root_hmask s' = root_hmask s"
    "regions (doms s k) = Regs_root \<Longrightarrow> regions (doms s' k) = Regs_root"
    "root_memregs_count s' = root_memregs_count s"
    using pr by (auto split: harts_ptr.split)
  show "rc = 0 \<Longrightarrow> dom_possible (doms s d) s \<noteq> None"
    using assms by (cases "dom_possible (doms s d) s")
      (auto simp: sanitize_domain_def simp del: dom_possible.simps)
qed

lemma registered_update:
  "{k. \<exists>i. (i = n \<longrightarrow> d = k) \<and> (i \<noteq> n \<longrightarrow> i < Suc n \<and> f i = Some k)} = insert d {k. \<exists>i<n. f i = Some k}"
  by (auto simp: less_Suc_eq)

text \<open>C11. Registering a domain, whether it succeeds or not, keeps the invariant that a hart is in the
  assigned set of a registered domain exactly when the hart's table entry points to that domain
  (so it is in at most one); and when it succeeds exactly the harts that are both requested and
  possible move to the new domain.\<close>

theorem domain_register_partition:
  assumes "dom_inv s" and "sbi_domain_register c (Some d) (Some am) s = (rc, s')"
  shows "dom_inv s' \<and> hartid_to_domain s' =
    (\<lambda>h. if rc = 0 \<and> h \<in> hm_set am \<and> (\<exists>m. dom_possible (doms s d) s = Some m \<and> h \<in> hm_set m)
         then Some d else hartid_to_domain s h)"
proof (cases "domain_finalized s \<or> d \<in> set (sbi_domain_for_each s) \<or> 32 \<le> domain_count s")
  case True
  then show ?thesis using assms by (auto split: if_splits)
next
  case False
  obtain rc1 t where san: "sanitize_domain d s = (rc1, t)" by fastforce
  note F = sanitize_domain_frame [OF san]
  have new: "d \<notin> dom_registered s" and cnt: "domain_count s < 32"
    using False for_each_registered [OF assms(1)] by auto
  have regt: "dom_registered t = dom_registered s" by (simp add: dom_registered_def F)
  have It: "dom_inv t" using assms(1) unfolding dom_inv_def regt by (simp add: F)
  show ?thesis
  proof (cases "rc1 = 0")
    case nz: False
    then show ?thesis using assms(2) False san It F by (auto split: if_splits)
  next
    case ok: True
    let ?u = "t\<lparr>doms := (doms t)(d := (doms t d)\<lparr>index := of_nat (domain_count t)\<rparr>),
                domidx_to_domain := (domidx_to_domain t)(domain_count t := Some d),
                domain_count := domain_count t + 1\<rparr>"
    let ?v = "?u\<lparr>doms := (doms ?u)(d := (doms ?u d)
                 \<lparr>assigned_harts := sbi_hartmask_clear_all (assigned_harts (doms ?u d))\<rparr>)\<rparr>"
    have res: "rc = 0" "s' = foldl (register_assign d c) ?v (sbi_hartmask_for_each_hart am)"
      using assms(2) False san ok by (auto simp: Let_def)
    obtain m where m: "dom_possible (doms s d) s = Some m" using F(8) [OF ok] by blast
    have regv: "dom_registered ?v = insert d (dom_registered t)"
      by (simp add: dom_registered_def registered_update)
    have empty: "hm_set (assigned_harts (doms ?v d)) = {}"
      using It by (simp add: dom_inv_def hm_set_clear_all)
    have "hartid_to_domain t h \<noteq> Some d" for h
      using It new regt by (auto simp: dom_inv_def)
    then have A: "dom_inv ?v"
      unfolding dom_inv_def regv using It empty cnt F(2) new regt
      by (auto simp: dom_inv_def less_Suc_eq)
    have B: "d \<in> dom_registered ?v" unfolding regv by (rule insertI1)
    have C: "dom_possible (doms ?v d) ?v = Some m"
      using F(6) [of d] m by (simp split: harts_ptr.splits)
    have "\<forall>i\<in>set (sbi_hartmask_for_each_hart am). i < 128" by (auto simp: hm_set_less)
    from register_assign_fold [OF A B this C, of c]
    have "dom_inv s' \<and> hartid_to_domain s' =
        (\<lambda>h. if h \<in> set (sbi_hartmask_for_each_hart am) \<and> h \<in> hm_set m then Some d else hartid_to_domain ?v h)"
      unfolding res .
    then show ?thesis using res m F by (auto simp: fun_eq_iff)
  qed
qed

lemma dom_sample_inv: "dom_inv dom_sample"
  by (simp add: dom_inv_def dom_registered_def dom_sample_def machine.defs dom_sample_root_def)

theorem domain_register_partition_witness:
  "dom_inv (snd (sbi_domain_register 0 (Some 0) (Some dom_sample_mask) dom_sample))
    \<and> hartid_to_domain (snd (sbi_domain_register 0 (Some 0) (Some dom_sample_mask) dom_sample)) 2 = Some 0"
proof -
  let ?r = "sbi_domain_register 0 (Some 0) (Some dom_sample_mask) dom_sample"
  have f: "domain_finalized dom_sample = False" "domain_count dom_sample = 0"
    by (simp_all add: dom_sample_def machine.defs)
  have e: "sbi_domain_for_each dom_sample = []"
    by (simp add: sbi_domain_for_each_def upt_conv_Cons dom_sample_def machine.defs)
  obtain t where t: "sanitize_domain 0 dom_sample = (0, t)"
    using dom_sample_sanitize by (metis prod.collapse)
  have rc: "fst ?r = 0" by (simp add: f e t Let_def)
  have m: "dom_possible (doms dom_sample 0) dom_sample = Some dom_sample_mask" by code_simp
  have h: "2 \<in> hm_set dom_sample_mask" unfolding hm_test [symmetric] by code_simp
  have "?r = (0, snd ?r)" using rc by (metis prod.collapse)
  note P = domain_register_partition [OF dom_sample_inv this]
  show ?thesis
    using P m h by (simp del: sbi_domain_register.simps dom_possible.simps)
qed

section \<open>Adding a region returns\<close>

definition live_regions :: "sbi_domain_memregion list \<Rightarrow> nat" where
  "live_regions a = length (for_each_memregion a)"

lemma live_regions_simps:
  "live_regions [] = 0"
  "live_regions (r # a) = (if order r = 0 then 0 else Suc (live_regions a))"
  by (simp_all add: live_regions_def for_each_memregion_def)

lemma live_regions_le: "live_regions a \<le> length a"
  by (simp add: live_regions_def for_each_memregion_def length_takeWhile_le)

lemma live_regions_shift:
  "live_regions a < length a \<Longrightarrow> live_regions (memregs_shift a) = live_regions a - 1"
  by (induction a rule: memregs_shift.induct) (auto simp: live_regions_simps)

text \<open>A merged pair leaves one region less; the array keeps a terminator. Orders stay below 2^64,
  so incrementing a non-zero order does not produce a terminator.\<close>

definition orders_ok :: "sbi_domain_memregion list \<Rightarrow> bool" where
  "orders_ok a \<longleftrightarrow> (\<forall>r\<in>set (for_each_memregion a). order r \<le> 64)"

lemma orders_ok_Cons: "orders_ok (r # a) \<longleftrightarrow> order r = 0 \<or> order r \<le> 64 \<and> orders_ok a"
  by (auto simp: orders_ok_def for_each_memregion_def)

lemma set_live_shift: "set (for_each_memregion (memregs_shift a)) \<subseteq> set (for_each_memregion a)"
  by (induction a rule: memregs_shift.induct) (auto simp: for_each_memregion_def)

lemma orders_ok_shift: "orders_ok a \<Longrightarrow> orders_ok (memregs_shift a)"
  using set_live_shift [of a] by (auto simp: orders_ok_def)

lemma order_Suc_nonzero: "(x :: ulong) \<le> 64 \<Longrightarrow> x + 1 \<noteq> 0"
proof -
  assume "x \<le> 64"
  then have "unat x \<le> 64" by (simp add: word_le_nat_alt)
  then have "unat (x + 1) = unat x + 1" by (simp add: unat_word_ariths)
  then show ?thesis by auto
qed

lemma memregs_merge_live:
  assumes "live_regions a < length a" "orders_ok a" "memregs_merge a = (k, a')"
  shows "length a' = length a \<and> live_regions a' + k = live_regions a"
  using assms
proof (induction a arbitrary: k a' rule: memregs_merge.induct)
  case (1 nreg nreg1 rest)
  consider "order nreg = 0" | "order nreg \<noteq> 0" "order nreg1 = 0"
    | (merge) "order nreg \<noteq> 0" "order nreg1 \<noteq> 0" "memregs_mergeable nreg nreg1"
    | (skip) "order nreg \<noteq> 0" "order nreg1 \<noteq> 0" "\<not> memregs_mergeable nreg nreg1" by blast
  then show ?case
  proof cases
    case merge
    obtain j r where r: "memregs_merge (memregs_shift (nreg1 # rest)) = (j, r)" by fastforce
    then have a': "a' = nreg\<lparr>order := order nreg + 1\<rparr> # r" "k = Suc j"
      using 1(5) merge by auto
    have lt: "live_regions (nreg1 # rest) < length (nreg1 # rest)"
      using 1(3) merge by (simp add: live_regions_simps)
    have ok: "orders_ok (nreg1 # rest)" using 1(4) merge by (simp add: orders_ok_Cons)
    have sh: "live_regions (memregs_shift (nreg1 # rest)) = live_regions (nreg1 # rest) - 1"
      by (rule live_regions_shift [OF lt])
    have "length r = length (memregs_shift (nreg1 # rest)) \<and> live_regions r + j = live_regions (memregs_shift (nreg1 # rest))"
      using 1(1) [OF merge _ orders_ok_shift [OF ok] r] sh lt by simp
    moreover have "order nreg + 1 \<noteq> 0"
      using 1(4) merge(1) order_Suc_nonzero [of "order nreg"] by (simp add: orders_ok_Cons)
    ultimately show ?thesis using a' sh merge by (simp add: live_regions_simps)
  next
    case skip
    obtain j r where r: "memregs_merge (nreg1 # rest) = (j, r)" by fastforce
    have "length r = length (nreg1 # rest) \<and> live_regions r + j = live_regions (nreg1 # rest)"
      using 1(2) [OF skip _ _ r] 1(3,4) skip by (simp add: live_regions_simps orders_ok_Cons)
    then show ?thesis using 1(5) skip r by (auto simp: live_regions_simps)
  qed (use 1(5) in \<open>auto simp: live_regions_simps\<close>)
qed auto

lemma sanitize_root:
  assumes "sanitize_domain ROOT s = (0, t)" "regions (doms s ROOT) = Regs_root"
  shows "length (root_memregs t) = length (root_memregs s)"
    "live_regions (root_memregs t) = live_regions (root_memregs s)"
    "orders_ok (root_memregs t)" "sorted_wrt region_le (for_each_memregion (root_memregs t))"
    "set (for_each_memregion (root_memregs t)) = set (for_each_memregion (root_memregs s))"
    "\<forall>r\<in>set (for_each_memregion (root_memregs t)). is_region_valid r"
proof -
  obtain rs rs' where r: "dom_regions (doms s ROOT) s = Some rs"
    and v: "\<forall>r\<in>set (for_each_memregion rs). is_region_valid r"
    and so: "sanitize_sort (length (for_each_memregion rs)) [0..<length (for_each_memregion rs) - 1] rs = (False, rs')"
    and t: "t = put_regions ROOT rs' s"
    using assms(1) by (rule sanitize_domain_ok)
  have rs: "rs = root_memregs s" and t': "root_memregs t = rs'"
    using r t assms(2) by (simp_all add: put_regions_def)
  note S = sanitize_sort_regions [OF so]
  show "length (root_memregs t) = length (root_memregs s)" using S(4) rs t' by simp
  show "live_regions (root_memregs t) = live_regions (root_memregs s)"
    using S(3) rs t' by (simp add: live_regions_def) (metis size_mset)
  show se: "set (for_each_memregion (root_memregs t)) = set (for_each_memregion (root_memregs s))"
    using S(3) rs t' by (metis set_mset_mset)
  show "\<forall>r\<in>set (for_each_memregion (root_memregs t)). is_region_valid r"
    using v se rs by simp
  then show "orders_ok (root_memregs t)" by (auto simp: orders_ok_def is_region_valid_def)
  show "sorted_wrt region_le (for_each_memregion (root_memregs t))" using S(2) t' by simp
qed

lemma root_optimize_returns:
  assumes "regions (doms s ROOT) = Regs_root" "live_regions (root_memregs s) < length (root_memregs s)"
    and "live_regions (root_memregs s) < n"
  shows "root_optimize n s \<noteq> None"
  using assms
proof (induction n arbitrary: s)
  case 0
  then show ?case by simp
next
  case (Suc n)
  obtain rc t where san: "sanitize_domain ROOT s = (rc, t)" by fastforce
  show ?case
  proof (cases "rc = 0")
    case False
    then show ?thesis using san by simp
  next
    case True
    note R = sanitize_root [OF san [unfolded True] Suc.prems(1)]
    obtain k a where m: "memregs_merge (root_memregs t) = (k, a)" by fastforce
    have M: "length a = length (root_memregs t) \<and> live_regions a + k = live_regions (root_memregs t)"
      using R Suc.prems(2) by (intro memregs_merge_live [OF _ _ m]) simp_all
    let ?u = "t\<lparr>root_memregs := a, root_memregs_count := root_memregs_count t - k\<rparr>"
    have "regions (doms ?u ROOT) = Regs_root"
      using sanitize_domain_frame(9) [OF san Suc.prems(1)] by simp
    then have "k \<noteq> 0 \<Longrightarrow> root_optimize n ?u \<noteq> None"
      using M R Suc.prems by (intro Suc.IH) simp_all
    then show ?thesis using san True m by (simp add: Let_def)
  qed
qed

text \<open>\<^verbatim>\<open>sbi_domain_root_add_memregion()\<close> returns: its sort-and-merge loop makes at most one round
  per region before no pair can be merged any more. The array has its 17 entries and the regions
  in use are the first \<open>root_memregs_count\<close>.\<close>

theorem root_add_memregion_returns:
  assumes "length (root_memregs s) = 17" and "live_regions (root_memregs s) = root_memregs_count s"
  shows "sbi_domain_root_add_memregion r s \<noteq> None"
proof (cases r)
  case None
  then show ?thesis by simp
next
  case (Some reg)
  let ?n = "root_memregs_count s"
  let ?a = "(root_memregs s)[?n := reg]"
  let ?b = "?a[?n + 1 := (?a ! (?n + 1))\<lparr>order := 0\<rparr>]"
  show ?thesis
  proof (cases "regions (doms s ROOT) = Regs_root \<and> ?n < 16")
    case True
    have b: "?n + 1 < length ?b" "order (?b ! (?n + 1)) = 0" using True assms(1) by simp_all
    have "live_regions ?b \<le> ?n + 1"
    proof (rule ccontr)
      assume "\<not> live_regions ?b \<le> ?n + 1"
      then have "?b ! (?n + 1) \<in> set (for_each_memregion ?b)"
        by (metis for_each_memregion_def live_regions_def not_le nth_mem takeWhile_nth)
      then show False using b(2) by (auto simp: for_each_memregion_def dest: set_takeWhileD)
    qed
    then have "root_optimize 18 (s\<lparr>root_memregs := ?b, root_memregs_count := ?n + 1\<rparr>) \<noteq> None"
      using True assms(1) by (intro root_optimize_returns) simp_all
    then show ?thesis using Some by (simp add: Let_def)
  next
    case False
    then show ?thesis using Some by auto
  qed
qed

theorem root_add_memregion_returns_witness:
  "sbi_domain_root_add_memregion (Some \<lparr>order = 12, base = 0x10001000, flags = 0x80000003\<rparr>) dom_sample \<noteq> None"
proof (rule root_add_memregion_returns)
  show "length (root_memregs dom_sample) = 17" by code_simp
  show "live_regions (root_memregs dom_sample) = root_memregs_count dom_sample" by code_simp
qed

end
