(* ===== verification/Sbi_Hart.thy ===== *)
theory Sbi_Hart
  imports Sbi_Domain_Harts
begin

text \<open>
  \<^verbatim>\<open>lib/sbi/sbi_hart.c\<close>: bringing up a hart's registers, finding out what it implements,
  programming its memory protection from its domain, and leaving M-mode. The floating point
  registers themselves and the strings that describe features are not modelled.
\<close>

section \<open>Initialisation of the M-mode registers\<close>

definition mstatus_init :: "nat \<Rightarrow> 'a machine_scheme \<Rightarrow> 'a machine_scheme" where
  "mstatus_init h s =
     (let mstatus_val = (if misa_extension h CHR ''D'' s \<or> misa_extension h CHR ''F'' s
                         then MSTATUS_FS else 0);
          mstatus_val = mstatus_val OR (if misa_extension h CHR ''V'' s then MSTATUS_VS else 0);
          s = csr_write h CSR_MSTATUS mstatus_val s;
          s = (if misa_extension h CHR ''S'' s \<and> sbi_hart_has_feature h SBI_HART_HAS_SCOUNTEREN s
               then csr_write h CSR_SCOUNTEREN 7 s else s);
          s = (if sbi_hart_has_feature h SBI_HART_HAS_MCOUNTEREN s
               then csr_write h CSR_MCOUNTEREN (- 1) s else s);
          s = (if sbi_hart_has_feature h SBI_HART_HAS_MCOUNTINHIBIT s
               then csr_write h CSR_MCOUNTINHIBIT 0xFFFFFFF8 s else s);
          s = csr_write h CSR_MIE 0 s
      in if misa_extension h CHR ''S'' s then csr_write h CSR_SATP 0 s else s)"

definition fp_init :: "nat \<Rightarrow> 'a machine_scheme \<Rightarrow> int \<times> 'a machine_scheme" where
  "fp_init h s =
     (if \<not> misa_extension h CHR ''D'' s \<and> \<not> misa_extension h CHR ''F'' s then (0, s)
      else if csr_read h CSR_MSTATUS s AND MSTATUS_FS = 0 then (SBI_EINVAL, s)
      else (0, csr_write h CSR_FCSR 0 s))"

definition CAUSE_BIT :: "nat \<Rightarrow> ulong" where
  "CAUSE_BIT n = push_bit n 1"

definition delegate_traps :: "nat \<Rightarrow> 'a machine_scheme \<Rightarrow> int \<times> 'a machine_scheme" where
  "delegate_traps h s =
     (if \<not> misa_extension h CHR ''S'' s then (0, s)
      else
        let interrupts = MIP_SSIP OR MIP_STIP OR MIP_SEIP;
            interrupts = (if sbi_hart_has_feature h SBI_HART_HAS_SSCOFPMF s
                          then interrupts OR MIP_LCOFIP else interrupts);
            exceptions = CAUSE_BIT 0 OR CAUSE_BIT 3 OR CAUSE_BIT 8;
            exceptions = (if sbi_platform_has_mfaults_delegation (platform s)
                          then exceptions OR (CAUSE_BIT 12 OR CAUSE_BIT 13 OR CAUSE_BIT 15)
                          else exceptions);
            exceptions = (if misa_extension h CHR ''H'' s
                          then exceptions OR CAUSE_BIT 10 OR CAUSE_BIT 20 OR CAUSE_BIT 21
                                 OR CAUSE_BIT 22 OR CAUSE_BIT 23
                          else exceptions);
            s = csr_write h CSR_MIDELEG interrupts s
        in (0, csr_write h CSR_MEDELEG exceptions s))"

section \<open>Feature detection\<close>

definition hart_pmp_get_allowed_addr :: "nat \<Rightarrow> 'a machine_scheme \<Rightarrow> ulong \<times> 'a machine_scheme" where
  "hart_pmp_get_allowed_addr h s =
     (let (trap, s) = csr_write_allowed h CSR_PMPCFG0 0 s
      in if trap then (0, s)
         else
           let (trap, s) = csr_write_allowed h CSR_PMPADDR0 PMP_ADDR_MASK s
           in if trap then (0, s)
              else case csr_read_allowed h CSR_PMPADDR0 s of (val, trap) \<Rightarrow> (if trap then 0 else val, s))"

definition hart_pmu_get_allowed_bits :: "nat \<Rightarrow> 'a machine_scheme \<Rightarrow> u32 \<times> 'a machine_scheme" where
  "hart_pmu_get_allowed_bits h s =
     (let (trap, s) = csr_write_allowed h CSR_MHPMCOUNTER3 (- 1) s
      in if trap then (of_nat (fls_word (- 1) + 1), s)
         else case csr_read_allowed h CSR_MHPMCOUNTER3 s of
                (val, trap) \<Rightarrow> (if trap then 0 else of_nat (fls_word val + 1), s))"

text \<open>
  The \<^verbatim>\<open>__check_csr\<close> macros with \<^verbatim>\<open>__rdonly\<close> zero, over a list of registers: the number that
  pass, and whether all did (otherwise the code jumps to the skip label). \<open>wrval\<close> is the text
  the macro pastes for the value to write: \<open>None\<close> stands for the local variable \<^verbatim>\<open>val\<close>, which
  the macro itself has just overwritten with the register's content.
\<close>

fun check_csrs ::
  "nat \<Rightarrow> ulong option \<Rightarrow> nat list \<Rightarrow> 'a machine_scheme \<Rightarrow> u32 \<times> bool \<times> 'a machine_scheme" where
  "check_csrs h wrval [] s = (0, True, s)"
| "check_csrs h wrval (n # ns) s =
     (case csr_read_allowed h n s of (val, trap) \<Rightarrow>
        if trap then (0, False, s)
        else
          let wr = (case wrval of None \<Rightarrow> val | Some c \<Rightarrow> c)
          in case csr_write_allowed h n wr s of (trap, s) \<Rightarrow>
             if trap then (0, False, s)
             else case csr_swap h n val s of (old, s) \<Rightarrow>
               if old = wr then (case check_csrs h wrval ns s of (k, ok, s) \<Rightarrow> (k + 1, ok, s))
               else (0, False, s))"

definition upd_features ::
  "nat \<Rightarrow> (hart_features \<Rightarrow> hart_features) \<Rightarrow> 'a machine_scheme \<Rightarrow> 'a machine_scheme" where
  "upd_features h f s = s\<lparr>hfeatures := (hfeatures s)(h := f (hfeatures s h))\<rparr>"

definition detect_rw :: "nat \<Rightarrow> nat \<Rightarrow> ulong \<Rightarrow> 'a machine_scheme \<Rightarrow> 'a machine_scheme" where
  "detect_rw h n feature s =
     (case csr_read_allowed h n s of (val, trap) \<Rightarrow>
        if trap then s
        else case csr_write_allowed h n val s of (trap, s) \<Rightarrow>
          if trap then s else upd_features h (\<lambda>f. f\<lparr>features := features f OR feature\<rparr>) s)"

definition detect_r :: "nat \<Rightarrow> nat \<Rightarrow> ulong \<Rightarrow> 'a machine_scheme \<Rightarrow> 'a machine_scheme" where
  "detect_r h n feature s =
     (case csr_read_allowed h n s of (val, trap) \<Rightarrow>
        if trap then s else upd_features h (\<lambda>f. f\<lparr>features := features f OR feature\<rparr>) s)"

definition pmpaddr_csrs :: "nat list" where
  "pmpaddr_csrs = [CSR_PMPADDR0..<CSR_PMPADDR0 + 64]"

definition mhpmcounter_csrs :: "nat list" where
  "mhpmcounter_csrs = [CSR_MHPMCOUNTER3 + 1..<CSR_MHPMCOUNTER3 + 29]"

lemma length_pmpaddr_csrs [simp]: "length pmpaddr_csrs = 64"
  by (simp add: pmpaddr_csrs_def del: upt_rec_numeral)

text \<open>\<open>1 << (__ffs(val) + 2)\<close> is a 32 bit signed shift.\<close>

definition detect_pmp :: "nat \<Rightarrow> 'a machine_scheme \<Rightarrow> 'a machine_scheme" where
  "detect_pmp h s =
     (case hart_pmp_get_allowed_addr h s of (val, s) \<Rightarrow>
        if val = 0 then s
        else
          let s = upd_features h (\<lambda>f. f
                \<lparr>pmp_gran := scast (push_bit ((ffs_word val + 2) mod 32) 1 :: u32),
                 pmp_addr_bits := of_nat (fls_word val + 1)\<rparr>) s
          in case check_csrs h None pmpaddr_csrs s of
               (k, ok, s) \<Rightarrow> upd_features h (\<lambda>f. f\<lparr>pmp_count := pmp_count f + k\<rparr>) s)"

definition detect_mhpm :: "nat \<Rightarrow> 'a machine_scheme \<Rightarrow> 'a machine_scheme" where
  "detect_mhpm h s =
     (case check_csrs h (Some 1) [CSR_MHPMCOUNTER3] s of
        (k, ok, s) \<Rightarrow>
          let s = upd_features h (\<lambda>f. f\<lparr>mhpm_count := mhpm_count f + k\<rparr>) s
          in if \<not> ok then s
             else case hart_pmu_get_allowed_bits h s of
               (b, s) \<Rightarrow>
                 let s = upd_features h (\<lambda>f. f\<lparr>mhpm_bits := b\<rparr>) s
                 in case check_csrs h (Some 1) mhpmcounter_csrs s of
                      (k, ok, s) \<Rightarrow> upd_features h (\<lambda>f. f\<lparr>mhpm_count := mhpm_count f + k\<rparr>) s)"

definition hart_detect_features :: "nat \<Rightarrow> 'a machine_scheme \<Rightarrow> 'a machine_scheme" where
  "hart_detect_features h s =
     (let s = upd_features h (\<lambda>f. f\<lparr>features := 0, pmp_count := 0, mhpm_count := 0\<rparr>) s;
          s = detect_pmp h s;
          s = detect_mhpm h s;
          s = detect_rw h CSR_SCOUNTEREN SBI_HART_HAS_SCOUNTEREN s;
          s = detect_rw h CSR_MCOUNTEREN SBI_HART_HAS_MCOUNTEREN s;
          s = detect_rw h CSR_MCOUNTINHIBIT SBI_HART_HAS_MCOUNTINHIBIT s;
          s = (if sbi_hart_has_feature h SBI_HART_HAS_MCOUNTINHIBIT s
                  \<and> sbi_hart_has_feature h SBI_HART_HAS_MCOUNTEREN s
               then detect_r h CSR_SCOUNTOVF SBI_HART_HAS_SSCOFPMF s else s)
      in detect_r h CSR_TIME SBI_HART_HAS_TIME s)"

definition sbi_hart_reinit :: "nat \<Rightarrow> 'a machine_scheme \<Rightarrow> int \<times> 'a machine_scheme" where
  "sbi_hart_reinit h s =
     (let s = mstatus_init h s; (rc, s) = fp_init h s
      in if rc \<noteq> 0 then (rc, s)
         else let (rc, s) = delegate_traps h s in if rc \<noteq> 0 then (rc, s) else (0, s))"

definition sbi_hart_init :: "nat \<Rightarrow> bool \<Rightarrow> 'a machine_scheme \<Rightarrow> int \<times> 'a machine_scheme" where
  "sbi_hart_init h cold_boot s =
     (if cold_boot then
        (case sbi_scratch_alloc_offset 32 s of (off, s) \<Rightarrow>
           if off = 0 then (SBI_ENOMEM, s) else sbi_hart_reinit h (hart_detect_features h s))
      else sbi_hart_reinit h (hart_detect_features h s))"

section \<open>Memory protection\<close>

definition region_pmp_flags :: "sbi_domain_memregion \<Rightarrow> ulong" where
  "region_pmp_flags reg =
     (if flags reg AND SBI_DOMAIN_MEMREGION_READABLE \<noteq> 0 then PMP_R else 0)
     OR (if flags reg AND SBI_DOMAIN_MEMREGION_WRITEABLE \<noteq> 0 then PMP_W else 0)
     OR (if flags reg AND SBI_DOMAIN_MEMREGION_EXECUTABLE \<noteq> 0 then PMP_X else 0)
     OR (if flags reg AND SBI_DOMAIN_MEMREGION_MMODE \<noteq> 0 then PMP_L else 0)"

definition pmp_addr_max :: "u32 \<Rightarrow> ulong" where
  "pmp_addr_max pmp_bits = BIT (unat pmp_bits) OR (BIT (unat pmp_bits) - 1)"

definition region_in_pmp_range :: "nat \<Rightarrow> 'a machine_scheme \<Rightarrow> sbi_domain_memregion \<Rightarrow> bool" where
  "region_in_pmp_range h s reg \<longleftrightarrow>
     of_nat (log2roundup (sbi_hart_pmp_granularity h s)) \<le> order reg
     \<and> drop_bit PMP_SHIFT (base reg) < pmp_addr_max (sbi_hart_pmp_addrbits h s - 1)"

fun pmp_configure_regions ::
  "nat \<Rightarrow> sbi_domain_memregion list \<Rightarrow> nat \<Rightarrow> 'a machine_scheme \<Rightarrow> (int, 'a machine_scheme) flow" where
  "pmp_configure_regions h [] idx s = Ret 0 s"
| "pmp_configure_regions h (reg # regs) idx s =
     (if unat (sbi_hart_pmp_count h s) \<le> idx then Ret 0 s
      else if region_in_pmp_range h s reg then
        flow_bind (pmp_set h idx (region_pmp_flags reg) (base reg) (order reg) s)
          (\<lambda>_ s. pmp_configure_regions h regs (idx + 1) s)
      else pmp_configure_regions h regs idx s)"

definition sbi_hart_pmp_configure ::
  "nat \<Rightarrow> 'a domain_state_scheme \<Rightarrow> (int, 'a domain_state_scheme) flow" where
  "sbi_hart_pmp_configure h s =
     (if sbi_hart_pmp_count h s = 0 then Ret 0 s
      else case hartid_to_domain s h of
        None \<Rightarrow> Hang s
      | Some d \<Rightarrow>
          (case dom_regions (doms s d) s of
             None \<Rightarrow> Hang s
           | Some rs \<Rightarrow> pmp_configure_regions h (for_each_memregion rs) 0 s))"

section \<open>Leaving M-mode\<close>

definition switch_mode_supported :: "nat \<Rightarrow> ulong \<Rightarrow> 'a machine_scheme \<Rightarrow> bool" where
  "switch_mode_supported h m s \<longleftrightarrow>
     m = PRV_M \<or> m = PRV_S \<and> misa_extension h CHR ''S'' s \<or> m = PRV_U \<and> misa_extension h CHR ''U'' s"

definition sbi_hart_switch_mode ::
  "nat \<Rightarrow> ulong \<Rightarrow> ulong \<Rightarrow> ulong \<Rightarrow> ulong \<Rightarrow> bool \<Rightarrow> 'a machine_scheme \<Rightarrow> (unit, 'a machine_scheme) flow"
where
  "sbi_hart_switch_mode h arg0 arg1 naddr nmode nvirt s =
     (if \<not> switch_mode_supported h nmode s then Hang s
      else
        let val = csr_read h CSR_MSTATUS s;
            val = INSERT_FIELD val MSTATUS_MPP nmode;
            val = INSERT_FIELD val MSTATUS_MPIE 0;
            val = (if misa_extension h CHR ''H'' s
                   then INSERT_FIELD val MSTATUS_MPV (if nvirt then 1 else 0) else val);
            s = csr_write h CSR_MSTATUS val s;
            s = csr_write h CSR_MEPC naddr s;
            s = (if nmode = PRV_S then
                   csr_write h CSR_SATP 0 (csr_write h CSR_SIE 0
                     (csr_write h CSR_SSCRATCH 0 (csr_write h CSR_STVEC naddr s)))
                 else if nmode = PRV_U \<and> misa_extension h CHR ''N'' s then
                   csr_write h CSR_UIE 0 (csr_write h CSR_USCRATCH 0 (csr_write h CSR_UTVEC naddr s))
                 else s)
        in Gone (emit (Ev_mret h arg0 arg1) s))"

section \<open>Lemmas\<close>

definition csr_idem :: "nat \<Rightarrow> nat list \<Rightarrow> 'a machine_scheme \<Rightarrow> bool" where
  "csr_idem h ns s \<longleftrightarrow>
     (\<forall>n\<in>set ns. hw_readable s h n \<and> hw_writable s h n \<and> (\<forall>old. hw_legal s h n old old = old))"

lemma csr_write_same:
  "hw_legal s h n (csr s h n) (csr s h n) = csr s h n \<Longrightarrow> csr_write h n (csr s h n) s = s"
  by (simp add: csr_write_def fun_upd_triv)

lemma check_csrs_val:
  "csr_idem h ns s \<Longrightarrow> check_csrs h None ns s = (of_nat (length ns), True, s)"
  by (induction ns)
    (simp_all add: csr_idem_def csr_read_allowed_def csr_write_allowed_def csr_swap_def csr_write_same
      add.commute)

lemma csr_write_frame [simp]:
  "hw_readable (csr_write h n v s) = hw_readable s" "hw_writable (csr_write h n v s) = hw_writable s"
  "hw_legal (csr_write h n v s) = hw_legal s" "hfeatures (csr_write h n v s) = hfeatures s"
  "platform (csr_write h n v s) = platform s" "trace (csr_write h n v s) = trace s"
  "scratch (csr_write h n v s) = scratch s" "scratch_tab (csr_write h n v s) = scratch_tab s"
  "last_hartid (csr_write h n v s) = last_hartid s"
  by (simp_all add: csr_write_def)

lemma upd_features_frame [simp]:
  "hw_readable (upd_features h f s) = hw_readable s" "hw_writable (upd_features h f s) = hw_writable s"
  "hw_legal (upd_features h f s) = hw_legal s" "csr (upd_features h f s) = csr s"
  "hfeatures (upd_features h f s) = (hfeatures s)(h := f (hfeatures s h))"
  by (simp_all add: upd_features_def)

lemma check_csrs_frame:
  "check_csrs h w ns s = (k, ok, t) \<Longrightarrow> hfeatures t = hfeatures s \<and> hw_readable t = hw_readable s
     \<and> hw_writable t = hw_writable s \<and> hw_legal t = hw_legal s"
  by (induction ns arbitrary: s k ok)
    (auto simp: csr_read_allowed_def csr_write_allowed_def csr_swap_def Let_def
      split: if_splits prod.splits)

lemma allowed_addr_frame:
  "hart_pmp_get_allowed_addr h s = (v, t) \<Longrightarrow> hfeatures t = hfeatures s \<and> hw_readable t = hw_readable s
     \<and> hw_writable t = hw_writable s \<and> hw_legal t = hw_legal s"
  by (auto simp: hart_pmp_get_allowed_addr_def csr_write_allowed_def Let_def split: if_splits prod.splits)

lemma allowed_bits_frame:
  "hart_pmu_get_allowed_bits h s = (v, t) \<Longrightarrow> hfeatures t = hfeatures s"
  by (auto simp: hart_pmu_get_allowed_bits_def csr_write_allowed_def Let_def split: if_splits prod.splits)

lemma detect_mhpm_pmp_count: "pmp_count (hfeatures (detect_mhpm h s) h) = pmp_count (hfeatures s h)"
proof -
  have c: "hfeatures (snd (snd (check_csrs h w ns t))) = hfeatures t" for w ns and t :: "'a machine_scheme"
    using check_csrs_frame [of h w ns t] by (metis prod.collapse)
  have b: "hfeatures (snd (hart_pmu_get_allowed_bits h t)) = hfeatures t" for t :: "'a machine_scheme"
    using allowed_bits_frame [of h t] by (metis prod.collapse)
  show ?thesis
    by (simp add: detect_mhpm_def Let_def case_prod_unfold c b del: check_csrs.simps upt_rec_numeral)
qed

lemma detect_rw_pmp_count: "pmp_count (hfeatures (detect_rw h n f s) h) = pmp_count (hfeatures s h)"
  by (simp add: detect_rw_def csr_write_allowed_def split: prod.split)

lemma detect_r_pmp_count: "pmp_count (hfeatures (detect_r h n f s) h) = pmp_count (hfeatures s h)"
  by (simp add: detect_r_def split: prod.split)

lemma detect_pmp_count:
  assumes "csr_idem h pmpaddr_csrs s" "fst (hart_pmp_get_allowed_addr h s) \<noteq> 0"
  shows "pmp_count (hfeatures (detect_pmp h s) h) = pmp_count (hfeatures s h) + 64"
proof -
  obtain v t where v: "hart_pmp_get_allowed_addr h s = (v, t)" by fastforce
  have v0: "v \<noteq> 0" using assms(2) v by simp
  let ?g = "\<lambda>f. f\<lparr>pmp_gran := scast (push_bit ((ffs_word v + 2) mod 32) 1 :: u32),
                 pmp_addr_bits := of_nat (fls_word v + 1)\<rparr>"
  have "csr_idem h pmpaddr_csrs (upd_features h ?g t)"
    using assms(1) allowed_addr_frame [OF v] by (simp add: csr_idem_def)
  then have c: "check_csrs h None pmpaddr_csrs (upd_features h ?g t)
      = (of_nat 64, True, upd_features h ?g t)"
    by (subst check_csrs_val) simp_all
  then show ?thesis
    using v v0 allowed_addr_frame [OF v] unfolding detect_pmp_def by (simp add: Let_def)
qed

lemma region_valid_base:
  assumes "is_region_valid r"
  shows "base r AND NOT (mask (unat (order r))) = (if order r = 64 then 0 else base r)"
    and "2 \<le> order r" "order r \<le> 64"
proof -
  have o: "3 \<le> unat (order r)" "unat (order r) \<le> 64"
    using assms by (auto simp: is_region_valid_def word_le_nat_alt word_less_nat_alt)
  show "2 \<le> order r" "order r \<le> 64" using o by (simp_all add: word_le_nat_alt)
  show "base r AND NOT (mask (unat (order r))) = (if order r = 64 then 0 else base r)"
  proof (cases "order r = 64")
    case True
    have "base r AND NOT (mask 64) = 0"
      by (rule bit_eqI) (auto simp: bit_and_iff bit_not_ulong bit_mask_ulong)
    then show ?thesis using True by simp
  next
    case False
    then have "unat (order r) < 64" using o by (auto simp: word_unat_eq_iff)
    then have "base r AND mask (unat (order r)) = 0"
      using assms by (simp add: is_region_valid_def BIT_def mask_eq_exp_minus_1)
    then show ?thesis using False by (simp add: and_not_minus)
  qed
qed

text \<open>
  The address registers of the hart are as its features say: as many bits as were found to be
  implemented, and the granularity that was found. A region in the range the code checks has an
  allowed size and a base that fits.
\<close>

definition pmp_grain :: "nat \<Rightarrow> 'a machine_scheme \<Rightarrow> nat" where
  "pmp_grain h s = log2roundup (sbi_hart_pmp_granularity h s) - 3"

definition pmp_as_detected :: "nat \<Rightarrow> 'a machine_scheme \<Rightarrow> bool" where
  "pmp_as_detected h s \<longleftrightarrow> pmp_width h (unat (sbi_hart_pmp_addrbits h s)) (pmp_grain h s) s"

text \<open>What an entry reads back as once a region has been programmed into it.\<close>

definition region_pmp_entry :: "nat \<Rightarrow> sbi_domain_memregion \<Rightarrow> ulong \<times> ulong \<times> ulong" where
  "region_pmp_entry b r =
     (((region_pmp_flags r AND NOT PMP_A) OR PMP_A_NAPOT) AND 0xff,
      (if order r = 64 then 0 else base r), of_nat (min (unat (order r)) (b + 3)))"

lemma pmp_as_detected_cong:
  "hfeatures t = hfeatures s \<Longrightarrow> hw_legal t = hw_legal s \<Longrightarrow> pmp_as_detected h t = pmp_as_detected h s"
  by (simp add: pmp_as_detected_def pmp_width_def pmp_grain_def sbi_hart_pmp_granularity_def sbi_hart_pmp_addrbits_def)

lemma region_size_ok:
  assumes "is_region_valid r" and "region_in_pmp_range h s r"
  shows "pmp_size_ok (pmp_grain h s) (order r)"
proof -
  have "log2roundup (sbi_hart_pmp_granularity h s) \<le> 64" by (rule log2roundup_le)
  then have "log2roundup (sbi_hart_pmp_granularity h s) \<le> unat (order r)"
    using assms(2) by (simp add: region_in_pmp_range_def word_le_nat_alt unat_of_nat)
  moreover have "3 \<le> unat (order r)" using assms(1) by (auto simp: is_region_valid_def word_less_nat_alt)
  ultimately have "pmp_grain h s + 3 \<le> unat (order r)" by (simp add: pmp_grain_def)
  then show ?thesis using region_valid_base(2,3) [OF assms(1)] by (simp add: pmp_size_ok_def)
qed

lemma region_base_fits:
  assumes "region_in_pmp_range h s r" and "b = unat (sbi_hart_pmp_addrbits h s)" and "0 < b" and "b \<le> 54"
  shows "base r AND mask (b + 2) = base r"
proof -
  have "sbi_hart_pmp_addrbits h s \<noteq> 0" using assms(2,3) by auto
  then have "unat (sbi_hart_pmp_addrbits h s - 1) = b - 1" unfolding assms(2) by (rule unat_minus_one)
  then have "pmp_addr_max (sbi_hart_pmp_addrbits h s - 1) = BIT (b - 1) OR mask (b - 1)"
    using assms(4) by (simp add: pmp_addr_max_def BIT_def mask_eq_exp_minus_1)
  also have "\<dots> = mask b" using assms(3,4)
    by (intro bit_eqI) (auto simp: BIT_def bit_or_iff bit_mask_ulong bit_exp_iff)
  finally have "drop_bit 2 (base r) < mask b" using assms(1) by (simp add: region_in_pmp_range_def)
  then have "unat (drop_bit 2 (base r)) < unat (mask b :: ulong)" by (simp only: word_less_nat_alt)
  also have "unat (mask b :: ulong) < 2 ^ b"
    by (simp only: unsigned_take_bit_eq take_bit_nat_less_exp flip: take_bit_minus_one_eq_mask)
  finally have "unat (drop_bit 2 (base r)) < 2 ^ b" .
  then have "take_bit b (drop_bit 2 (base r)) = drop_bit 2 (base r)"
    by (simp only: word_unat_eq_iff unsigned_take_bit_eq take_bit_nat_eq_self)
  then have high: "bit (base r) (2 + i) \<Longrightarrow> i < b" for i
    by (metis bit_drop_bit_eq bit_take_bit_iff comp_apply)
  have "bit (base r) i \<Longrightarrow> i < b + 2" for i
    using high [of "i - 2"] by (cases "i < 2") (simp_all only: not_less le_add_diff_inverse less_diff_conv2 trans_less_add2)
  then show ?thesis by (intro bit_eqI) (auto simp: bit_and_iff bit_mask_ulong)
qed

lemma region_in_range_upd [simp]: "region_in_pmp_range h (s\<lparr>csr := c\<rparr>) r = region_in_pmp_range h s r"
  by (simp add: region_in_pmp_range_def sbi_hart_pmp_granularity_def sbi_hart_pmp_addrbits_def)

text \<open>One region into one entry.\<close>

lemma pmp_set_region:
  assumes "pmp_as_detected h s" and "n < 64" and "is_region_valid r" and "region_in_pmp_range h s r"
  obtains t where "pmp_set h n (region_pmp_flags r) (base r) (order r) s = Ret 0 t"
    and "hfeatures t = hfeatures s" and "hw_legal t = hw_legal s"
    and "pmp_get h n True t = Ret (0, Some (region_pmp_entry (unat (sbi_hart_pmp_addrbits h s)) r)) t"
    and "\<And>m v. m < 64 \<Longrightarrow> m \<noteq> n \<Longrightarrow> pmp_get h m True s = Ret v s \<Longrightarrow> pmp_get h m True t = Ret v t"
proof -
  define b where "b = unat (sbi_hart_pmp_addrbits h s)"
  note ok = region_size_ok [OF assms(3,4)] and w = assms(1) [unfolded pmp_as_detected_def]
  have b: "0 < b" "b \<le> 54" using w by (simp_all add: pmp_width_def b_def)
  have base: "base r AND NOT (mask (unat (order r))) AND mask (b + 2) = (if order r = 64 then 0 else base r)"
    using region_base_fits [OF assms(4) b_def b] unfolding and.assoc [symmetric] region_valid_base(1) [OF assms(3)] by simp
  have o2: "order r \<noteq> 2" using assms(3) by (auto simp: is_region_valid_def)
  obtain t where t: "pmp_set h n (region_pmp_flags r) (base r) (order r) s = Ret 0 t"
    and f: "hfeatures t = hfeatures s" "hw_legal t = hw_legal s"
    using pmp_set_width [OF assms(2) ok w, of "region_pmp_flags r" "base r"] by auto
  note f
  moreover have "pmp_get h n True t = Ret (0, Some (region_pmp_entry b r)) t"
    using pmp_get_entry [OF assms(2) ok w t, folded b_def, unfolded base] o2 by (simp add: region_pmp_entry_def)
  ultimately show ?thesis
    using that [OF t, folded b_def] pmp_get_other [OF assms(2) ok w _ _ t] by blast
qed

lemma pmp_configure_regions_spec:
  assumes "pmp_as_detected h s" "unat (sbi_hart_pmp_count h s) \<le> 64" "\<forall>r\<in>set regs. is_region_valid r"
  shows "\<exists>s'. pmp_configure_regions h regs idx s = Ret 0 s' \<and>
    (\<forall>i < length (filter (region_in_pmp_range h s) regs). idx + i < unat (sbi_hart_pmp_count h s)
        \<longrightarrow> pmp_get h (idx + i) True s' = Ret (0, Some (region_pmp_entry (unat (sbi_hart_pmp_addrbits h s))
                (filter (region_in_pmp_range h s) regs ! i))) s')
    \<and> (\<forall>m v. m < idx \<and> m < 64 \<and> pmp_get h m True s = Ret v s \<longrightarrow> pmp_get h m True s' = Ret v s')"
  using assms
proof (induction regs arbitrary: idx s)
  case Nil
  then show ?case by simp
next
  case (Cons r regs)
  show ?case
  proof (cases "unat (sbi_hart_pmp_count h s) \<le> idx")
    case True
    then show ?thesis by simp
  next
    case False
    then have idx: "idx < unat (sbi_hart_pmp_count h s)" "idx < 64" using Cons.prems(2) by simp_all
    have rv: "is_region_valid r" "\<forall>r\<in>set regs. is_region_valid r" using Cons.prems(3) by simp_all
    show ?thesis
    proof (cases "region_in_pmp_range h s r")
      case out: False
      then show ?thesis using False Cons.IH [OF Cons.prems(1,2) rv(2), of idx] by simp
    next
      case True
      obtain t where set: "pmp_set h idx (region_pmp_flags r) (base r) (order r) s = Ret 0 t"
        and ft: "hfeatures t = hfeatures s" "hw_legal t = hw_legal s"
        and get: "pmp_get h idx True t = Ret (0, Some (region_pmp_entry (unat (sbi_hart_pmp_addrbits h s)) r)) t"
        and frame: "\<And>m v. m < 64 \<Longrightarrow> m \<noteq> idx \<Longrightarrow> pmp_get h m True s = Ret v s \<Longrightarrow> pmp_get h m True t = Ret v t"
        using pmp_set_region [OF Cons.prems(1) idx(2) rv(1) True] by metis
      have same: "sbi_hart_pmp_count h t = sbi_hart_pmp_count h s" "region_in_pmp_range h t = region_in_pmp_range h s"
        "sbi_hart_pmp_addrbits h t = sbi_hart_pmp_addrbits h s"
        using ft(1) by (auto simp: sbi_hart_pmp_count_def region_in_pmp_range_def
            sbi_hart_pmp_granularity_def sbi_hart_pmp_addrbits_def fun_eq_iff)
      let ?rs = "filter (region_in_pmp_range h s) regs"
      obtain s' where s': "pmp_configure_regions h regs (idx + 1) t = Ret 0 s'"
        and e: "\<And>i. i < length ?rs \<Longrightarrow> idx + 1 + i < unat (sbi_hart_pmp_count h s)
          \<Longrightarrow> pmp_get h (idx + 1 + i) True s' = Ret (0, Some (region_pmp_entry (unat (sbi_hart_pmp_addrbits h s)) (?rs ! i))) s'"
        and f: "\<And>m v. m < idx + 1 \<Longrightarrow> m < 64 \<Longrightarrow> pmp_get h m True t = Ret v t \<Longrightarrow> pmp_get h m True s' = Ret v s'"
        using Cons.IH [of t "idx + 1"] Cons.prems(1,2) rv(2) pmp_as_detected_cong [OF ft, of h] unfolding same by blast
      have run: "pmp_configure_regions h (r # regs) idx s = Ret 0 s'"
        using False True set s' by simp
      have ent: "pmp_get h (idx + i) True s' = Ret (0, Some (region_pmp_entry (unat (sbi_hart_pmp_addrbits h s)) ((r # ?rs) ! i))) s'"
        if "i < length (r # ?rs)" "idx + i < unat (sbi_hart_pmp_count h s)" for i
      proof (cases i)
        case 0
        then show ?thesis using f [OF _ idx(2) get] by simp
      next
        case (Suc k)
        then show ?thesis using e [of k] that by simp
      qed
      have old: "pmp_get h m True s' = Ret v s'" if "m < idx" "m < 64" "pmp_get h m True s = Ret v s" for m v
        using f [OF _ that(2) frame [OF that(2) _ that(3)]] that(1) by simp
      show ?thesis using run ent old True by auto
    qed
  qed
qed

section \<open>Properties\<close>

text \<open>Detecting the number of protection entries does not probe what the address registers hold:
  the value the check compares with is overwritten by the macro's own read, so every address
  register that can be accessed and that keeps its own content when it is written back counts,
  also one that is hard-wired to zero. All 64 registers accessible means 64 entries.\<close>

theorem pmp_count_ignores_content:
  assumes "csr_idem h pmpaddr_csrs s"
    and "fst (hart_pmp_get_allowed_addr h
           (upd_features h (\<lambda>f. f\<lparr>features := 0, pmp_count := 0, mhpm_count := 0\<rparr>) s)) \<noteq> 0"
  shows "sbi_hart_pmp_count h (hart_detect_features h s) = 64"
proof -
  let ?s = "upd_features h (\<lambda>f. f\<lparr>features := 0, pmp_count := 0, mhpm_count := 0\<rparr>) s"
  have "csr_idem h pmpaddr_csrs ?s"
    using assms(1) by (simp add: csr_idem_def del: upt_rec_numeral)
  from detect_pmp_count [OF this assms(2)]
  have "pmp_count (hfeatures (detect_pmp h ?s) h) = 64" by simp
  then show ?thesis
    by (simp add: hart_detect_features_def Let_def sbi_hart_pmp_count_def detect_r_pmp_count
        detect_rw_pmp_count detect_mhpm_pmp_count)
qed

text \<open>A hart that implements 16 entries and has the other 48 address registers read as zero.\<close>

definition machine16 :: machine where
  "machine16 = machine0\<lparr>hw_legal := (\<lambda>h n old v. if CSR_PMPADDR0 + 16 \<le> n \<and> n < CSR_PMPADDR0 + 64
     then old else v)\<rparr>"

theorem pmp_count_ignores_content_witness:
  "csr (csr_write 0 (CSR_PMPADDR0 + 16) 1 machine16) 0 (CSR_PMPADDR0 + 16) = 0
    \<and> sbi_hart_pmp_count 0 (hart_detect_features 0 machine16) = 64"
proof
  show "csr (csr_write 0 (CSR_PMPADDR0 + 16) 1 machine16) 0 (CSR_PMPADDR0 + 16) = 0"
    by (simp add: csr_write_def machine16_def machine0_def)
  show "sbi_hart_pmp_count 0 (hart_detect_features 0 machine16) = 64"
  proof (rule pmp_count_ignores_content)
    show "csr_idem 0 pmpaddr_csrs machine16"
      by (simp add: csr_idem_def machine16_def machine0_def del: upt_rec_numeral)
    show "fst (hart_pmp_get_allowed_addr 0
           (upd_features 0 (\<lambda>f. f\<lparr>features := 0, pmp_count := 0, mhpm_count := 0\<rparr>) machine16)) \<noteq> 0"
      by (simp add: hart_pmp_get_allowed_addr_def csr_write_allowed_def csr_read_allowed_def Let_def
          machine16_def machine0_def csr_write_def upd_features_def)
  qed
qed


text \<open>The second region lies beyond the address bits and gets no entry.\<close>

definition hart_sample_regs :: "sbi_domain_memregion list" where
  "hart_sample_regs = [\<lparr>order = 12, base = 0x10000000, flags = 0x80000003\<rparr>,
     \<lparr>order = 12, base = 0x4000000000000000, flags = 0x80000003\<rparr>,
     \<lparr>order = 17, base = 0x80000000, flags = 0\<rparr>, \<lparr>order = 64, base = 0, flags = 7\<rparr>]"

definition hart_sample :: domain_state where
  "hart_sample = dom_sample\<lparr>root_memregs := hart_sample_regs @ [\<lparr>order = 0, base = 0, flags = 0\<rparr>],
     hartid_to_domain := (\<lambda>h. Some 0),
     hw_legal := (\<lambda>h n old v. if CSR_PMPADDR0 \<le> n \<and> n < CSR_PMPADDR0 + 64 then v AND mask 54 else v)\<rparr>"


lemma insert_and_same: "(((w :: ulong) AND NOT k) OR c) AND k = c AND k"
  by (rule bit_eqI) (auto simp: bit_and_iff bit_or_iff bit_not_ulong)

lemma insert_and_other:
  assumes "m AND k = 0" "c AND k = (0 :: ulong)"
  shows "((w AND NOT m) OR c) AND k = w AND k"
proof (rule bit_eqI)
  fix n
  have "\<not> (bit m n \<and> bit k n)" "\<not> (bit c n \<and> bit k n)"
    using assms by (metis bit_0_eq bit_and_iff bot_apply bot_bool_def)+
  then show "bit (((w AND NOT m) OR c) AND k) n \<longleftrightarrow> bit (w AND k) n"
    by (auto simp: bit_and_iff bit_or_iff bit_not_ulong dest: word64_bit_less)
qed

definition switch_mstatus :: "ulong \<Rightarrow> ulong \<Rightarrow> bool \<Rightarrow> bool \<Rightarrow> ulong" where
  "switch_mstatus val nmode hext nvirt =
     (let val = INSERT_FIELD (INSERT_FIELD val MSTATUS_MPP nmode) MSTATUS_MPIE 0
      in if hext then INSERT_FIELD val MSTATUS_MPV (if nvirt then 1 else 0) else val)"

lemma switch_mstatus_fields:
  assumes "nmode = 0 \<or> nmode = 1 \<or> nmode = 3"
  shows "switch_mstatus val nmode hext nvirt AND MSTATUS_MPP = nmode * 0x800"
    and "switch_mstatus val nmode hext nvirt AND MSTATUS_MPIE = 0"
proof -
  have mpv: "INSERT_FIELD w MSTATUS_MPV (if nvirt then 1 else 0) AND MSTATUS_MPP = w AND MSTATUS_MPP"
    "INSERT_FIELD w MSTATUS_MPV (if nvirt then 1 else 0) AND MSTATUS_MPIE = w AND MSTATUS_MPIE" for w
    unfolding INSERT_FIELD_def by (rule insert_and_other; simp)+
  have mpie: "INSERT_FIELD w MSTATUS_MPIE 0 AND MSTATUS_MPP = w AND MSTATUS_MPP"
    "INSERT_FIELD w MSTATUS_MPIE 0 AND MSTATUS_MPIE = 0" for w
    unfolding INSERT_FIELD_def insert_and_same by (rule insert_and_other; simp) simp
  have mpp: "INSERT_FIELD w MSTATUS_MPP nmode AND MSTATUS_MPP = nmode * 0x800" for w
    unfolding INSERT_FIELD_def insert_and_same using assms by auto
  show "switch_mstatus val nmode hext nvirt AND MSTATUS_MPP = nmode * 0x800"
    by (simp only: switch_mstatus_def Let_def mpv mpie mpp split: if_split) simp
  show "switch_mstatus val nmode hext nvirt AND MSTATUS_MPIE = 0"
    by (simp only: switch_mstatus_def Let_def mpv mpie mpp split: if_split) simp
qed

text \<open>\<^verbatim>\<open>sbi_hart_switch_mode()\<close> never returns. It hangs when the target mode is not one the hart has;
  otherwise it leaves with an \<^verbatim>\<open>mret\<close> that passes the two arguments, with \<^verbatim>\<open>mepc\<close> the next
  address, \<^verbatim>\<open>mstatus.MPP\<close> the target mode and \<^verbatim>\<open>mstatus.MPIE\<close> clear, and for S-mode with
  interrupts and paging off and traps going to the next address.\<close>

theorem switch_mode_enters:
  assumes "\<forall>n old v. hw_legal s h n old v = v"
  shows "case sbi_hart_switch_mode h a0 a1 naddr nmode nvirt s of
      Gone s' \<Rightarrow> switch_mode_supported h nmode s
        \<and> trace s' = trace s @ [Ev_mret h a0 a1] \<and> csr s' h CSR_MEPC = naddr
        \<and> csr s' h CSR_MSTATUS AND MSTATUS_MPP = nmode * 0x800
        \<and> csr s' h CSR_MSTATUS AND MSTATUS_MPIE = 0
        \<and> (if nmode = PRV_S then csr s' h CSR_STVEC = naddr \<and> csr s' h CSR_SIE = 0
             \<and> csr s' h CSR_SATP = 0 else True)
    | Hang s' \<Rightarrow> \<not> switch_mode_supported h nmode s \<and> s' = s
    | _ \<Rightarrow> False"
proof (cases "switch_mode_supported h nmode s")
  case False
  then show ?thesis by (simp add: sbi_hart_switch_mode_def)
next
  case True
  then have m: "nmode = 0 \<or> nmode = 1 \<or> nmode = 3" by (auto simp: switch_mode_supported_def)
  let ?v = "switch_mstatus (csr s h CSR_MSTATUS) nmode (misa_extension h CHR ''H'' s) nvirt"
  let ?s1 = "csr_write h CSR_MEPC naddr (csr_write h CSR_MSTATUS ?v s)"
  let ?s2 = "if nmode = PRV_S then csr_write h CSR_SATP 0 (csr_write h CSR_SIE 0
                     (csr_write h CSR_SSCRATCH 0 (csr_write h CSR_STVEC naddr ?s1)))
                 else if nmode = PRV_U \<and> misa_extension h CHR ''N'' ?s1 then
                   csr_write h CSR_UIE 0 (csr_write h CSR_USCRATCH 0 (csr_write h CSR_UTVEC naddr ?s1))
                 else ?s1"
  have run: "sbi_hart_switch_mode h a0 a1 naddr nmode nvirt s = Gone (emit (Ev_mret h a0 a1) ?s2)"
    using True by (simp add: sbi_hart_switch_mode_def switch_mstatus_def Let_def csr_read_def)
  have "csr ?s2 h CSR_MSTATUS = ?v" "csr ?s2 h CSR_MEPC = naddr" "trace ?s2 = trace s"
    "nmode = PRV_S \<Longrightarrow> csr ?s2 h CSR_STVEC = naddr \<and> csr ?s2 h CSR_SIE = 0 \<and> csr ?s2 h CSR_SATP = 0"
    using assms by (auto simp: csr_write_def)
  then show ?thesis
    using True switch_mstatus_fields [OF m] unfolding run by (simp add: emit_def)
qed

theorem switch_mode_enters_witness:
  "case sbi_hart_switch_mode 1 0 0x82200000 0x80200000 3 False machine0 of
     Gone s' \<Rightarrow> csr s' 1 CSR_MEPC = 0x80200000 \<and> csr s' 1 CSR_MSTATUS AND MSTATUS_MPP = 0x1800
       \<and> trace s' = [Ev_mret 1 0 0x82200000]
   | _ \<Rightarrow> False"
proof -
  have y: "switch_mode_supported 1 3 machine0" by (simp add: switch_mode_supported_def)
  have t: "trace machine0 = []" by (simp add: machine0_def)
  have "\<forall>k old v. hw_legal machine0 1 k old v = v" by (simp add: machine0_def)
  from switch_mode_enters [OF this, where ?a0.0 = 0 and ?a1.0 = "0x82200000"
      and naddr = "0x80200000" and nmode = 3 and nvirt = False] y t
  show ?thesis by (simp split: flow.splits)
qed

end
