(* ===== verification/Sbi_Pmu.thy ===== *)
theory Sbi_Pmu
  imports Sbi_Hart
begin

text \<open>
  \<^verbatim>\<open>lib/sbi/sbi_pmu.c\<close>: the table that says which counters can count which hardware events, the
  event every counter of every hart counts (\<open>active_events\<close>), and the counters the firmware
  keeps in memory (\<open>fw_event_map\<close>). The arrays are lists of the lengths they have in C; an access
  outside them is \<open>Undef\<close>. The proofs are in \<^verbatim>\<open>Sbi_Pmu_Events\<close> and \<^verbatim>\<open>Sbi_Pmu_Counters\<close>.
\<close>

section \<open>State\<close>

abbreviation (input) SBI_PMU_HW_EVENT_MAX :: nat where "SBI_PMU_HW_EVENT_MAX \<equiv> 64"
abbreviation (input) SBI_PMU_FW_EVENT_MAX :: nat where "SBI_PMU_FW_EVENT_MAX \<equiv> 32"
abbreviation (input) SBI_PMU_FW_CTR_MAX :: nat where "SBI_PMU_FW_CTR_MAX \<equiv> 16"
abbreviation (input) SBI_PMU_HW_CTR_MAX :: nat where "SBI_PMU_HW_CTR_MAX \<equiv> 32"
abbreviation (input) SBI_PMU_CTR_MAX :: nat where "SBI_PMU_CTR_MAX \<equiv> 48"
abbreviation (input) SBI_PMU_EVENT_IDX_INVALID :: u32 where
  "SBI_PMU_EVENT_IDX_INVALID \<equiv> 0xFFFFFFFF"
abbreviation (input) SBI_PMU_EVENT_RAW_IDX :: u32 where "SBI_PMU_EVENT_RAW_IDX \<equiv> 0x20000"
abbreviation (input) SBI_PMU_EVENT_TYPE_HW :: nat where "SBI_PMU_EVENT_TYPE_HW \<equiv> 0"
abbreviation (input) SBI_PMU_EVENT_TYPE_FW :: nat where "SBI_PMU_EVENT_TYPE_FW \<equiv> 15"
abbreviation (input) SBI_PMU_EVENT_TYPE_MAX :: nat where "SBI_PMU_EVENT_TYPE_MAX \<equiv> 16"

text \<open>Codes of the firmware events (\<^verbatim>\<open>enum sbi_pmu_fw_event_code_id\<close>).\<close>

abbreviation (input) SBI_PMU_FW_MISALIGNED_LOAD :: nat where "SBI_PMU_FW_MISALIGNED_LOAD \<equiv> 0"
abbreviation (input) SBI_PMU_FW_MISALIGNED_STORE :: nat where "SBI_PMU_FW_MISALIGNED_STORE \<equiv> 1"
abbreviation (input) SBI_PMU_FW_ACCESS_LOAD :: nat where "SBI_PMU_FW_ACCESS_LOAD \<equiv> 2"
abbreviation (input) SBI_PMU_FW_ACCESS_STORE :: nat where "SBI_PMU_FW_ACCESS_STORE \<equiv> 3"
abbreviation (input) SBI_PMU_FW_ILLEGAL_INSN :: nat where "SBI_PMU_FW_ILLEGAL_INSN \<equiv> 4"
abbreviation (input) SBI_PMU_FW_SET_TIMER :: nat where "SBI_PMU_FW_SET_TIMER \<equiv> 5"
abbreviation (input) SBI_PMU_FW_IPI_SENT :: nat where "SBI_PMU_FW_IPI_SENT \<equiv> 6"
abbreviation (input) SBI_PMU_FW_IPI_RECVD :: nat where "SBI_PMU_FW_IPI_RECVD \<equiv> 7"
abbreviation (input) SBI_PMU_FW_FENCE_I_SENT :: nat where "SBI_PMU_FW_FENCE_I_SENT \<equiv> 8"
abbreviation (input) SBI_PMU_FW_FENCE_I_RECVD :: nat where "SBI_PMU_FW_FENCE_I_RECVD \<equiv> 9"
abbreviation (input) SBI_PMU_FW_SFENCE_VMA_SENT :: nat where "SBI_PMU_FW_SFENCE_VMA_SENT \<equiv> 10"
abbreviation (input) SBI_PMU_FW_SFENCE_VMA_RCVD :: nat where "SBI_PMU_FW_SFENCE_VMA_RCVD \<equiv> 11"
abbreviation (input) SBI_PMU_FW_SFENCE_VMA_ASID_SENT :: nat where
  "SBI_PMU_FW_SFENCE_VMA_ASID_SENT \<equiv> 12"
abbreviation (input) SBI_PMU_FW_SFENCE_VMA_ASID_RCVD :: nat where
  "SBI_PMU_FW_SFENCE_VMA_ASID_RCVD \<equiv> 13"
abbreviation (input) SBI_PMU_FW_HFENCE_GVMA_SENT :: nat where "SBI_PMU_FW_HFENCE_GVMA_SENT \<equiv> 14"
abbreviation (input) SBI_PMU_FW_HFENCE_GVMA_RCVD :: nat where "SBI_PMU_FW_HFENCE_GVMA_RCVD \<equiv> 15"
abbreviation (input) SBI_PMU_FW_HFENCE_GVMA_VMID_SENT :: nat where
  "SBI_PMU_FW_HFENCE_GVMA_VMID_SENT \<equiv> 16"
abbreviation (input) SBI_PMU_FW_HFENCE_GVMA_VMID_RCVD :: nat where
  "SBI_PMU_FW_HFENCE_GVMA_VMID_RCVD \<equiv> 17"
abbreviation (input) SBI_PMU_FW_HFENCE_VVMA_SENT :: nat where "SBI_PMU_FW_HFENCE_VVMA_SENT \<equiv> 18"
abbreviation (input) SBI_PMU_FW_HFENCE_VVMA_RCVD :: nat where "SBI_PMU_FW_HFENCE_VVMA_RCVD \<equiv> 19"
abbreviation (input) SBI_PMU_FW_HFENCE_VVMA_ASID_SENT :: nat where
  "SBI_PMU_FW_HFENCE_VVMA_ASID_SENT \<equiv> 20"
abbreviation (input) SBI_PMU_FW_HFENCE_VVMA_ASID_RCVD :: nat where
  "SBI_PMU_FW_HFENCE_VVMA_ASID_RCVD \<equiv> 21"
abbreviation (input) SBI_PMU_FW_MAX :: nat where "SBI_PMU_FW_MAX \<equiv> 22"

record sbi_pmu_hw_event =
  evt_counters :: u32
  evt_start_idx :: u32
  evt_end_idx :: u32
  evt_select :: u64

record sbi_pmu_fw_event =
  fwe_event_idx :: u32
  curr_count :: ulong
  bStarted :: bool

text \<open>\<open>active_events\<close> and \<open>fw_event_map\<close> have a row of 48 and of 32 entries for every hart.\<close>

record pmu_state = domain_state +
  hw_event_map :: "sbi_pmu_hw_event list"
  active_events :: "nat \<Rightarrow> u32 list"
  fw_event_map :: "nat \<Rightarrow> sbi_pmu_fw_event list"
  num_hw_events :: u32
  num_hw_ctrs :: u32
  total_ctrs :: u32

definition fw_event_zero :: sbi_pmu_fw_event where
  "fw_event_zero = \<lparr>fwe_event_idx = 0, curr_count = 0, bStarted = False\<rparr>"

definition set_active :: "nat \<Rightarrow> nat \<Rightarrow> u32 \<Rightarrow> 'a pmu_state_scheme \<Rightarrow> 'a pmu_state_scheme" where
  "set_active h i v s = s\<lparr>active_events := (active_events s)(h := (active_events s h)[i := v])\<rparr>"

definition upd_fw_event ::
  "nat \<Rightarrow> nat \<Rightarrow> (sbi_pmu_fw_event \<Rightarrow> sbi_pmu_fw_event) \<Rightarrow> 'a pmu_state_scheme \<Rightarrow> 'a pmu_state_scheme"
where
  "upd_fw_event h i f s =
     s\<lparr>fw_event_map := (fw_event_map s)(h := (fw_event_map s h)[i := f (fw_event_map s h ! i)])\<rparr>"

definition get_cidx_type :: "ulong \<Rightarrow> nat" where
  "get_cidx_type x = unat (drop_bit 16 (x AND 0xF0000))"

definition get_cidx_code :: "ulong \<Rightarrow> nat" where
  "get_cidx_code x = unat (x AND 0xFFFF)"

section \<open>The table of hardware events\<close>

definition pmu_event_range_overlap :: "sbi_pmu_hw_event \<Rightarrow> sbi_pmu_hw_event \<Rightarrow> bool" where
  "pmu_event_range_overlap evtA evtB \<longleftrightarrow>
     \<not> ((evt_end_idx evtA < evt_start_idx evtB \<and> evt_end_idx evtA < evt_end_idx evtB)
        \<or> (evt_start_idx evtA > evt_start_idx evtB \<and> evt_start_idx evtA > evt_end_idx evtB))"

definition pmu_event_select_overlap :: "sbi_pmu_hw_event \<Rightarrow> u64 \<Rightarrow> bool" where
  "pmu_event_select_overlap evt select_val \<longleftrightarrow> evt_select evt = select_val"

definition upd_hw_event ::
  "nat \<Rightarrow> (sbi_pmu_hw_event \<Rightarrow> sbi_pmu_hw_event) \<Rightarrow> 'a pmu_state_scheme \<Rightarrow> 'a pmu_state_scheme" where
  "upd_hw_event i f s = s\<lparr>hw_event_map := (hw_event_map s)[i := f (hw_event_map s ! i)]\<rparr>"

definition pmu_add_hw_event_map ::
  "u32 \<Rightarrow> u32 \<Rightarrow> u32 \<Rightarrow> u64 \<Rightarrow> 'a pmu_state_scheme \<Rightarrow> int \<times> 'a pmu_state_scheme" where
  "pmu_add_hw_event_map eidx_start eidx_end cmap select s =
     (let n = unat (num_hw_events s) in
      if 2 < eidx_start \<and> cmap AND 7 \<noteq> 0 then (SBI_EDENIED, s)
      else if SBI_PMU_HW_EVENT_MAX - 1 \<le> n then (SBI_EFAIL, s)
      else
        let s = upd_hw_event n (\<lambda>e. e\<lparr>evt_start_idx := eidx_start, evt_end_idx := eidx_end\<rparr>) s;
            event = hw_event_map s ! n
        in if list_ex (\<lambda>ev. if eidx_start = SBI_PMU_EVENT_RAW_IDX
                            then pmu_event_select_overlap ev select
                            else pmu_event_range_overlap ev event) (take n (hw_event_map s))
           then (SBI_EINVAL, upd_hw_event n (\<lambda>e. e\<lparr>evt_start_idx := 0, evt_end_idx := 0\<rparr>) s)
           else
             let s = upd_hw_event n (\<lambda>e. e\<lparr>evt_counters := cmap, evt_select := select\<rparr>) s
             in (0, s\<lparr>num_hw_events := num_hw_events s + 1\<rparr>))"

definition sbi_pmu_add_hw_event_counter_map ::
  "u32 \<Rightarrow> u32 \<Rightarrow> u32 \<Rightarrow> 'a pmu_state_scheme \<Rightarrow> int \<times> 'a pmu_state_scheme" where
  "sbi_pmu_add_hw_event_counter_map eidx_start eidx_end cmap s =
     (if eidx_start > eidx_end \<or> eidx_start = SBI_PMU_EVENT_RAW_IDX \<or> eidx_end = SBI_PMU_EVENT_RAW_IDX
      then (SBI_EINVAL, s)
      else pmu_add_hw_event_map eidx_start eidx_end cmap 0 s)"

definition sbi_pmu_add_raw_event_counter_map ::
  "u64 \<Rightarrow> u32 \<Rightarrow> 'a pmu_state_scheme \<Rightarrow> int \<times> 'a pmu_state_scheme" where
  "sbi_pmu_add_raw_event_counter_map select cmap s =
     pmu_add_hw_event_map SBI_PMU_EVENT_RAW_IDX SBI_PMU_EVENT_RAW_IDX cmap select s"

section \<open>Reading a counter\<close>

text \<open>The result is the event type or an error, with the event code; the code is stored only with
  a type, its value with an error is never read.\<close>

definition pmu_ctr_validate ::
  "nat \<Rightarrow> nat \<Rightarrow> 'a pmu_state_scheme \<Rightarrow> (int \<times> nat, 'a pmu_state_scheme) flow" where
  "pmu_ctr_validate h cidx s =
     (if SBI_PMU_CTR_MAX \<le> cidx then Undef s
      else
        let event_idx_val = active_events s h ! cidx in
        if unat (total_ctrs s) \<le> cidx \<or> event_idx_val = SBI_PMU_EVENT_IDX_INVALID
        then Ret (SBI_EINVAL, 0) s
        else
          let event_idx_type = get_cidx_type (ucast event_idx_val) in
          if SBI_PMU_EVENT_TYPE_MAX \<le> event_idx_type then Ret (SBI_EINVAL, 0) s
          else Ret (int event_idx_type, get_cidx_code (ucast event_idx_val)) s)"

definition pmu_ctr_read_fw ::
  "nat \<Rightarrow> nat \<Rightarrow> 'a pmu_state_scheme \<Rightarrow> (ulong, 'a pmu_state_scheme) flow" where
  "pmu_ctr_read_fw h fw_evt_code s =
     (if SBI_PMU_FW_EVENT_MAX \<le> fw_evt_code then Undef s
      else Ret (curr_count (fw_event_map s h ! fw_evt_code)) s)"

definition pmu_ctr_read_hw ::
  "nat \<Rightarrow> nat \<Rightarrow> 'a pmu_state_scheme \<Rightarrow> (int \<times> u64, 'a pmu_state_scheme) flow" where
  "pmu_ctr_read_hw h cidx s =
     (if cidx = 1 then Ret (SBI_EINVAL, 0) s
      else flow_bind (csr_read_num h (CSR_MCYCLE + cidx) s) (\<lambda>v s. Ret (0, v) s))"

text \<open>\<^verbatim>\<open>*cval\<close> is \<open>Some\<close> value when the code stores it: a hardware counter is read into a local
  variable that nothing uses.\<close>

definition sbi_pmu_ctr_read ::
  "nat \<Rightarrow> nat \<Rightarrow> 'a pmu_state_scheme \<Rightarrow> (int \<times> ulong option, 'a pmu_state_scheme) flow" where
  "sbi_pmu_ctr_read h cidx s =
     flow_bind (pmu_ctr_validate h cidx s) (\<lambda>(event_idx_type, event_code) s.
       if event_idx_type < 0 then Ret (SBI_EINVAL, None) s
       else if event_idx_type = int SBI_PMU_EVENT_TYPE_FW then
         flow_bind (pmu_ctr_read_fw h event_code s) (\<lambda>v s. Ret (0, Some v) s)
       else flow_bind (pmu_ctr_read_hw h cidx s) (\<lambda>_ s. Ret (0, None) s))"

section \<open>Starting and stopping counters\<close>

definition pmu_ctr_enable_irq_hw ::
  "nat \<Rightarrow> nat \<Rightarrow> 'a pmu_state_scheme \<Rightarrow> (int, 'a pmu_state_scheme) flow" where
  "pmu_ctr_enable_irq_hw h ctr_idx s =
     (if ctr_idx < 3 \<or> SBI_PMU_HW_CTR_MAX \<le> ctr_idx then Ret SBI_EFAIL s
      else
        let mhpmevent_csr = CSR_MHPMEVENT3 + ctr_idx - 3 in
        flow_bind (csr_read_num h mhpmevent_csr s) (\<lambda>mhpmevent_curr s.
          if csr_read h CSR_MIP s AND MIP_LCOFIP = 0 then
            flow_bind (csr_write_num h mhpmevent_csr (mhpmevent_curr AND NOT (BIT 63)) s)
              (\<lambda>_ s. Ret 0 s)
          else Ret 0 s))"

definition pmu_ctr_write_hw ::
  "nat \<Rightarrow> nat \<Rightarrow> u64 \<Rightarrow> 'a pmu_state_scheme \<Rightarrow> (unit, 'a pmu_state_scheme) flow" where
  "pmu_ctr_write_hw h cidx ival s = csr_write_num h (CSR_MCYCLE + cidx) ival s"

definition pmu_ctr_init_hw ::
  "nat \<Rightarrow> nat \<Rightarrow> u64 \<Rightarrow> bool \<Rightarrow> 'a pmu_state_scheme \<Rightarrow> (int, 'a pmu_state_scheme) flow" where
  "pmu_ctr_init_hw h cidx ival ival_update s =
     (if ival_update then flow_bind (pmu_ctr_write_hw h cidx ival s) (\<lambda>_ s. Ret 0 s) else Ret 0 s)"

definition pmu_ctr_start_hw ::
  "nat \<Rightarrow> nat \<Rightarrow> u64 \<Rightarrow> bool \<Rightarrow> 'a pmu_state_scheme \<Rightarrow> (int, 'a pmu_state_scheme) flow" where
  "pmu_ctr_start_hw h cidx ival ival_update s =
     (if unat (num_hw_ctrs s) < cidx \<or> cidx = 1 then Ret SBI_EINVAL s
      else if \<not> sbi_hart_has_feature h SBI_HART_HAS_MCOUNTINHIBIT s
      then pmu_ctr_init_hw h cidx ival ival_update s
      else
        let mctr_inhbt = csr_read h CSR_MCOUNTINHIBIT s in
        if test_bit_bm cidx [mctr_inhbt] = 0 then Ret SBI_EALREADY_STARTED s
        else
          let mctr_inhbt = hd (clear_bit_bm cidx [mctr_inhbt]) in
          flow_bind
            (if sbi_hart_has_feature h SBI_HART_HAS_SSCOFPMF s then pmu_ctr_enable_irq_hw h cidx s
             else Ret 0 s)
            (\<lambda>_ s. pmu_ctr_init_hw h cidx ival ival_update
                      (csr_write h CSR_MCOUNTINHIBIT mctr_inhbt s)))"

definition pmu_ctr_start_fw ::
  "nat \<Rightarrow> nat \<Rightarrow> u64 \<Rightarrow> bool \<Rightarrow> 'a pmu_state_scheme \<Rightarrow> (int, 'a pmu_state_scheme) flow" where
  "pmu_ctr_start_fw h fw_evt_code ival ival_update s =
     (if SBI_PMU_FW_EVENT_MAX \<le> fw_evt_code then Undef s
      else
        let s = (if ival_update then upd_fw_event h fw_evt_code (\<lambda>e. e\<lparr>curr_count := ival\<rparr>) s else s)
        in Ret 0 (upd_fw_event h fw_evt_code (\<lambda>e. e\<lparr>bStarted := True\<rparr>) s))"

definition sbi_pmu_ctr_start ::
  "nat \<Rightarrow> ulong \<Rightarrow> ulong \<Rightarrow> ulong \<Rightarrow> u64 \<Rightarrow> 'a pmu_state_scheme \<Rightarrow> (int, 'a pmu_state_scheme) flow"
where
  "sbi_pmu_ctr_start h cbase cmask flgs ival s =
     (let ctr_mask = sll cmask (unat cbase) in
      if unat (total_ctrs s) \<le> fls_word ctr_mask then Ret SBI_EINVAL s
      else
        let bUpdate = (flgs AND 1 \<noteq> 0) in
        flow_fold (\<lambda>cidx ret s.
            flow_bind (pmu_ctr_validate h cidx s) (\<lambda>(event_idx_type, event_code) s.
              if event_idx_type < 0 then Ret ret s
              else if event_idx_type = int SBI_PMU_EVENT_TYPE_FW
              then pmu_ctr_start_fw h event_code ival bUpdate s
              else pmu_ctr_start_hw h cidx ival bUpdate s))
          (for_each_set_bit_from (unat cbase) [ctr_mask] (unat (total_ctrs s))) SBI_EINVAL s)"

definition pmu_ctr_stop_hw ::
  "nat \<Rightarrow> nat \<Rightarrow> 'a pmu_state_scheme \<Rightarrow> (int, 'a pmu_state_scheme) flow" where
  "pmu_ctr_stop_hw h cidx s =
     (if \<not> sbi_hart_has_feature h SBI_HART_HAS_MCOUNTINHIBIT s then Ret 0 s
      else
        let mctr_inhbt = csr_read h CSR_MCOUNTINHIBIT s in
        if unat (num_hw_ctrs s) < cidx \<or> cidx = 1 then Ret SBI_EINVAL s
        else if test_bit_bm cidx [mctr_inhbt] = 0 then
          Ret 0 (csr_write h CSR_MCOUNTINHIBIT (hd (set_bit_bm cidx [mctr_inhbt])) s)
        else Ret SBI_EALREADY_STOPPED s)"

definition pmu_ctr_stop_fw ::
  "nat \<Rightarrow> nat \<Rightarrow> 'a pmu_state_scheme \<Rightarrow> (int, 'a pmu_state_scheme) flow" where
  "pmu_ctr_stop_fw h fw_evt_code s =
     (if SBI_PMU_FW_EVENT_MAX \<le> fw_evt_code then Undef s
      else Ret 0 (upd_fw_event h fw_evt_code (\<lambda>e. e\<lparr>bStarted := False\<rparr>) s))"

definition pmu_reset_hw_mhpmevent ::
  "nat \<Rightarrow> nat \<Rightarrow> 'a pmu_state_scheme \<Rightarrow> (int, 'a pmu_state_scheme) flow" where
  "pmu_reset_hw_mhpmevent h ctr_idx s =
     (if ctr_idx < 3 \<or> SBI_PMU_HW_CTR_MAX \<le> ctr_idx then Ret SBI_EFAIL s
      else flow_bind (csr_write_num h (CSR_MHPMEVENT3 + ctr_idx - 3) 0 s) (\<lambda>_ s. Ret 0 s))"

definition sbi_pmu_ctr_stop ::
  "nat \<Rightarrow> ulong \<Rightarrow> ulong \<Rightarrow> ulong \<Rightarrow> 'a pmu_state_scheme \<Rightarrow> (int, 'a pmu_state_scheme) flow"
where
  "sbi_pmu_ctr_stop h cbase cmask flag s =
     (let ctr_mask = sll cmask (unat cbase) in
      if unat (total_ctrs s) \<le> fls_word ctr_mask then Ret SBI_EINVAL s
      else
        flow_fold (\<lambda>cidx ret s.
            flow_bind (pmu_ctr_validate h cidx s) (\<lambda>(event_idx_type, event_code) s.
              if event_idx_type < 0 then Ret ret s
              else
                flow_bind
                  (if event_idx_type = int SBI_PMU_EVENT_TYPE_FW then pmu_ctr_stop_fw h event_code s
                   else pmu_ctr_stop_hw h cidx s)
                  (\<lambda>ret s.
                    if flag AND 1 \<noteq> 0 then
                      flow_bind (pmu_reset_hw_mhpmevent h cidx
                          (set_active h cidx SBI_PMU_EVENT_IDX_INVALID s)) (\<lambda>_ s. Ret ret s)
                    else Ret ret s)))
          (for_each_set_bit_from (unat cbase) [ctr_mask] (unat (total_ctrs s))) SBI_EINVAL s)"

section \<open>Choosing a counter for an event\<close>

definition pmu_update_inhibit_flags :: "ulong \<Rightarrow> u64 \<Rightarrow> u64" where
  "pmu_update_inhibit_flags flgs mhpmevent_val =
     (let v = mhpmevent_val;
          v = (if flgs AND 8 \<noteq> 0 then v OR BIT 58 else v);
          v = (if flgs AND 16 \<noteq> 0 then v OR BIT 59 else v);
          v = (if flgs AND 32 \<noteq> 0 then v OR BIT 60 else v);
          v = (if flgs AND 64 \<noteq> 0 then v OR BIT 61 else v)
      in v)"

definition pmu_update_hw_mhpmevent ::
  "nat \<Rightarrow> int \<Rightarrow> ulong \<Rightarrow> ulong \<Rightarrow> u64 \<Rightarrow> 'a pmu_state_scheme \<Rightarrow> (int, 'a pmu_state_scheme) flow"
where
  "pmu_update_hw_mhpmevent h ctr_idx flgs eindex data s =
     (let mhpmevent_val = sbi_platform_pmu_xlate_to_mhpmevent (Some (platform s)) (ucast eindex) data in
      if mhpmevent_val = 0 \<or> ctr_idx < 3 \<or> int SBI_PMU_HW_CTR_MAX \<le> ctr_idx then Ret SBI_EFAIL s
      else
        let mhpmevent_val = (mhpmevent_val AND NOT 0xFFFF000000000000) OR BIT 62;
            mhpmevent_val = pmu_update_inhibit_flags flgs mhpmevent_val
        in flow_bind (csr_write_num h (CSR_MHPMEVENT3 + nat ctr_idx - 3) mhpmevent_val s)
             (\<lambda>_ s. Ret 0 s))"

definition pmu_ctr_find_fixed_fw :: "ulong \<Rightarrow> int" where
  "pmu_ctr_find_fixed_fw evt_idx_code =
     (if evt_idx_code = 1 then 0 else if evt_idx_code = 2 then 2 else SBI_EINVAL)"

text \<open>
  The search over the event table: \<open>cbase\<close> is the variable the inner loop advances, and it is not
  reset between two entries of the table. The inner loop has no exit of its own: the last free
  counter of the mask wins.
\<close>

definition pmu_event_skip :: "ulong \<Rightarrow> u64 \<Rightarrow> sbi_pmu_hw_event \<Rightarrow> bool" where
  "pmu_event_skip event_idx data temp \<longleftrightarrow>
     (ucast (evt_start_idx temp) > event_idx \<and> event_idx < ucast (evt_end_idx temp))
     \<or> (ucast (evt_start_idx temp) < event_idx \<and> event_idx > ucast (evt_end_idx temp))
     \<or> (event_idx = 0x20000 \<and> evt_select temp \<noteq> data)"

definition pmu_ctr_free :: "nat \<Rightarrow> ulong \<Rightarrow> nat \<Rightarrow> 'a pmu_state_scheme \<Rightarrow> bool" where
  "pmu_ctr_free h mctr_inhbt c s \<longleftrightarrow>
     active_events s h ! c = SBI_PMU_EVENT_IDX_INVALID
     \<and> \<not> (sbi_hart_has_feature h SBI_HART_HAS_MCOUNTINHIBIT s \<and> test_bit_bm c [mctr_inhbt] = 0)"

fun pmu_find_hw_loop ::
  "nat \<Rightarrow> ulong \<Rightarrow> ulong \<Rightarrow> u64 \<Rightarrow> ulong \<Rightarrow> sbi_pmu_hw_event list \<Rightarrow> nat \<Rightarrow> int
     \<Rightarrow> 'a pmu_state_scheme \<Rightarrow> int" where
  "pmu_find_hw_loop h cmask event_idx data mctr_inhbt [] cbase ctr_idx s = ctr_idx"
| "pmu_find_hw_loop h cmask event_idx data mctr_inhbt (temp # evs) cbase ctr_idx s =
     (if pmu_event_skip event_idx data temp
      then pmu_find_hw_loop h cmask event_idx data mctr_inhbt evs cbase ctr_idx s
      else
        let ctr_mask = (ucast (evt_counters temp) AND sll cmask cbase) AND NOT 7;
            found = filter (\<lambda>c. pmu_ctr_free h mctr_inhbt c s)
                      (for_each_set_bit_from cbase [ctr_mask] SBI_PMU_HW_CTR_MAX)
        in pmu_find_hw_loop h cmask event_idx data mctr_inhbt evs
             (find_next_bit [ctr_mask] SBI_PMU_HW_CTR_MAX SBI_PMU_HW_CTR_MAX)
             (if found = [] then ctr_idx else int (last found)) s)"

definition pmu_ctr_find_hw ::
  "nat \<Rightarrow> ulong \<Rightarrow> ulong \<Rightarrow> ulong \<Rightarrow> ulong \<Rightarrow> u64 \<Rightarrow> 'a pmu_state_scheme
     \<Rightarrow> (int, 'a pmu_state_scheme) flow" where
  "pmu_ctr_find_hw h cbase cmask flgs event_idx data s =
     (if ucast (num_hw_ctrs s) < cbase then Ret SBI_EINVAL s
      else
        let fixed_ctr = pmu_ctr_find_fixed_fw event_idx in
        if 0 \<le> fixed_ctr \<and> \<not> sbi_hart_has_feature h SBI_HART_HAS_SSCOFPMF s then Ret fixed_ctr s
        else
          let mctr_inhbt = (if sbi_hart_has_feature h SBI_HART_HAS_MCOUNTINHIBIT s
                            then csr_read h CSR_MCOUNTINHIBIT s else 0);
              ctr_idx = pmu_find_hw_loop h cmask event_idx data mctr_inhbt
                          (take (unat (num_hw_events s)) (hw_event_map s)) (unat cbase) SBI_ENOTSUPP s
          in if ctr_idx = SBI_ENOTSUPP then
               Ret (if 0 \<le> fixed_ctr then fixed_ctr else SBI_EFAIL) s
             else
               flow_bind (pmu_update_hw_mhpmevent h ctr_idx flgs event_idx data s)
                 (\<lambda>ret s. Ret (if ret = 0 then ctr_idx else ret) s))"

definition pmu_ctr_find_fw :: "nat \<Rightarrow> ulong \<Rightarrow> ulong \<Rightarrow> 'a pmu_state_scheme \<Rightarrow> int" where
  "pmu_ctr_find_fw h cbase cmask s =
     (let ctr_mask = sll cmask (unat cbase);
          fw_base = (if cbase \<le> ucast (num_hw_ctrs s) then unat (num_hw_ctrs s) + 1 else unat cbase)
      in case filter (\<lambda>i. active_events s h ! i = SBI_PMU_EVENT_IDX_INVALID
                          \<and> sll 1 i AND ctr_mask \<noteq> 0) [fw_base..<unat (total_ctrs s)] of
           [] \<Rightarrow> SBI_ENOTSUPP
         | i # _ \<Rightarrow> int i)"

text \<open>What follows the label \<^verbatim>\<open>skip_match\<close>.\<close>

definition pmu_cfg_apply ::
  "nat \<Rightarrow> nat \<Rightarrow> ulong \<Rightarrow> ulong \<Rightarrow> 'a pmu_state_scheme \<Rightarrow> (int, 'a pmu_state_scheme) flow" where
  "pmu_cfg_apply h ctr_idx flgs event_idx s =
     (if get_cidx_type event_idx = SBI_PMU_EVENT_TYPE_HW then
        flow_bind (if flgs AND 2 \<noteq> 0 then pmu_ctr_write_hw h ctr_idx 0 s else Ret () s) (\<lambda>_ s.
        flow_bind (if flgs AND 4 \<noteq> 0 then pmu_ctr_start_hw h ctr_idx 0 False s else Ret 0 s) (\<lambda>_ s.
        Ret (int ctr_idx) s))
      else if get_cidx_type event_idx = SBI_PMU_EVENT_TYPE_FW then
        let fw_evt_code = get_cidx_code event_idx in
        if (flgs AND 2 \<noteq> 0 \<or> flgs AND 4 \<noteq> 0) \<and> SBI_PMU_FW_EVENT_MAX \<le> fw_evt_code then Undef s
        else
          let s = (if flgs AND 2 \<noteq> 0
                   then upd_fw_event h fw_evt_code (\<lambda>e. e\<lparr>curr_count := 0\<rparr>) s else s);
              s = (if flgs AND 4 \<noteq> 0
                   then upd_fw_event h fw_evt_code (\<lambda>e. e\<lparr>bStarted := True\<rparr>) s else s)
          in Ret (int ctr_idx) s
      else Ret (int ctr_idx) s)"

definition sbi_pmu_ctr_cfg_match ::
  "nat \<Rightarrow> ulong \<Rightarrow> ulong \<Rightarrow> ulong \<Rightarrow> ulong \<Rightarrow> u64 \<Rightarrow> 'a pmu_state_scheme
     \<Rightarrow> (int, 'a pmu_state_scheme) flow" where
  "sbi_pmu_ctr_cfg_match h cidx_base cidx_mask flgs event_idx event_data s =
     (let event_type = get_cidx_type event_idx;
          tmp = sll cidx_mask (unat cidx_base)
      in if unat (total_ctrs s) \<le> fls_word tmp \<or> SBI_PMU_EVENT_TYPE_MAX \<le> event_type
         then Ret SBI_EINVAL s
         else if flgs AND 1 \<noteq> 0 then
           (if SBI_PMU_CTR_MAX \<le> unat cidx_base then Undef s
            else if active_events s h ! unat cidx_base = SBI_PMU_EVENT_IDX_INVALID
            then Ret SBI_EINVAL s
            else pmu_cfg_apply h (unat cidx_base) flgs event_idx s)
         else
           flow_bind
             (if event_type = SBI_PMU_EVENT_TYPE_FW then Ret (pmu_ctr_find_fw h cidx_base cidx_mask s) s
              else pmu_ctr_find_hw h cidx_base cidx_mask flgs event_idx event_data s)
             (\<lambda>ctr_idx s.
               if ctr_idx < 0 then Ret SBI_ENOTSUPP s
               else pmu_cfg_apply h (nat ctr_idx) flgs event_idx
                      (set_active h (nat ctr_idx) (ucast event_idx) s)))"

section \<open>Firmware events, information, reset\<close>

definition sbi_pmu_ctr_incr_fw :: "nat \<Rightarrow> nat \<Rightarrow> 'a pmu_state_scheme \<Rightarrow> int \<times> 'a pmu_state_scheme" where
  "sbi_pmu_ctr_incr_fw h fw_id s =
     (if SBI_PMU_FW_MAX \<le> fw_id then (SBI_EINVAL, s)
      else if bStarted (fw_event_map s h ! fw_id)
      then (0, upd_fw_event h fw_id (\<lambda>e. e\<lparr>curr_count := curr_count e + 1\<rparr>) s)
      else (0, s))"

definition sbi_pmu_num_ctr :: "'a pmu_state_scheme \<Rightarrow> ulong" where
  "sbi_pmu_num_ctr s = ucast (num_hw_ctrs s + of_nat SBI_PMU_FW_CTR_MAX)"

text \<open>The union of the counter information: 12 bits of register number, 6 bits of width, the type
  in bit 63.\<close>

definition sbi_pmu_ctr_info :: "nat \<Rightarrow> ulong \<Rightarrow> nat \<Rightarrow> ulong" where
  "sbi_pmu_ctr_info csr_no width typ =
     (of_nat csr_no AND 0xfff) OR push_bit 12 (width AND 0x3f) OR push_bit 63 (of_nat typ AND 1)"

definition sbi_pmu_ctr_get_info :: "nat \<Rightarrow> nat \<Rightarrow> 'a pmu_state_scheme \<Rightarrow> int \<times> ulong option" where
  "sbi_pmu_ctr_get_info h cidx s =
     (if unat (total_ctrs s) \<le> cidx \<or> cidx = 1 then (SBI_EINVAL, None)
      else if cidx \<le> unat (num_hw_ctrs s) then
        (0, Some (sbi_pmu_ctr_info (CSR_CYCLE + cidx)
                    (if cidx = 0 \<or> cidx = 2 then 63 else ucast (sbi_hart_mhpm_bits h s) - 1) 0))
      else (0, Some (sbi_pmu_ctr_info 0 63 1)))"

definition pmu_reset_event_map ::
  "nat \<Rightarrow> 'a pmu_state_scheme \<Rightarrow> (unit, 'a pmu_state_scheme) flow" where
  "pmu_reset_event_map h s =
     (if SBI_PMU_CTR_MAX < unat (total_ctrs s) then Undef s
      else
        let s = foldl (\<lambda>s j. set_active h j SBI_PMU_EVENT_IDX_INVALID s) s [3..<unat (total_ctrs s)];
            s = foldl (\<lambda>s j. upd_fw_event h j (\<lambda>_. fw_event_zero) s) s [0..<SBI_PMU_FW_CTR_MAX]
        in Ret () s)"

definition sbi_pmu_exit :: "nat \<Rightarrow> 'a pmu_state_scheme \<Rightarrow> (unit, 'a pmu_state_scheme) flow" where
  "sbi_pmu_exit h s =
     (let s = (if sbi_hart_has_feature h SBI_HART_HAS_MCOUNTINHIBIT s
               then csr_write h CSR_MCOUNTINHIBIT 0xFFFFFFF8 s else s);
          s = csr_write h CSR_MCOUNTEREN (- 1) s
      in pmu_reset_event_map h s)"

text \<open>
  What the platform's \<^verbatim>\<open>pmu_init\<close> does to this component is to add events: it is given as the list
  of its calls.
\<close>

datatype pmu_setup_call =
    Add_hw_event u32 u32 u32
  | Add_raw_event u64 u32

fun pmu_setup :: "pmu_setup_call list \<Rightarrow> 'a pmu_state_scheme \<Rightarrow> 'a pmu_state_scheme" where
  "pmu_setup [] s = s"
| "pmu_setup (Add_hw_event es ee cmap # cs) s =
     pmu_setup cs (snd (sbi_pmu_add_hw_event_counter_map es ee cmap s))"
| "pmu_setup (Add_raw_event sel cmap # cs) s =
     pmu_setup cs (snd (sbi_pmu_add_raw_event_counter_map sel cmap s))"

definition sbi_pmu_init ::
  "pmu_setup_call list \<Rightarrow> nat \<Rightarrow> bool \<Rightarrow> 'a pmu_state_scheme \<Rightarrow> (int, 'a pmu_state_scheme) flow" where
  "sbi_pmu_init setup h cold_boot s =
     (let s = (if cold_boot then
                 let s = snd (sbi_platform_pmu_init h s);
                     s = (if op_pmu_init (plat_ops (platform s)) = None then s else pmu_setup setup s);
                     s = s\<lparr>num_hw_ctrs := sbi_hart_mhpm_count h s + 2\<rparr>
                 in s\<lparr>total_ctrs := num_hw_ctrs s + of_nat SBI_PMU_FW_CTR_MAX\<rparr>
               else s)
      in flow_bind (pmu_reset_event_map h s) (\<lambda>_ s.
           let s = set_active h 0 1 s;
               s = set_active h 1 SBI_PMU_EVENT_IDX_INVALID s;
               s = set_active h 2 2 s
           in Ret 0 s))"

lemmas pmu_hw_defs = pmu_ctr_start_hw_def pmu_ctr_stop_hw_def pmu_ctr_init_hw_def
  pmu_ctr_write_hw_def pmu_ctr_enable_irq_hw_def pmu_reset_hw_mhpmevent_def
  pmu_update_hw_mhpmevent_def csr_read_num_def csr_write_num_def

lemmas pmu_fw_defs = pmu_ctr_start_fw_def pmu_ctr_stop_fw_def pmu_ctr_read_fw_def

section \<open>A small state for concrete runs\<close>

text \<open>The sample machine after domains and counters are set up: four harts in the root domain, six
  hardware counters, no event in the table.\<close>

definition dom0 :: domain_state where
  "dom0 = dom_sample
     \<lparr>doms := (\<lambda>d. dom_sample_root\<lparr>assigned_harts := dom_sample_mask\<rparr>),
      hartid_to_domain := (\<lambda>h. if h < 4 then Some 0 else None),
      domidx_to_domain := (\<lambda>i. if i = 0 then Some 0 else None), domain_count := 1,
      domain_finalized := True\<rparr>"

definition pmu0 :: pmu_state where
  "pmu0 = domain_state.extend dom0
     \<lparr>hw_event_map = replicate 64 \<lparr>evt_counters = 0, evt_start_idx = 0, evt_end_idx = 0, evt_select = 0\<rparr>,
      active_events = (\<lambda>h. [1, 0xFFFFFFFF, 2] @ replicate 19 0xFFFFFFFF @ replicate 26 0),
      fw_event_map = (\<lambda>h. replicate 32 fw_event_zero),
      num_hw_events = 0, num_hw_ctrs = 6, total_ctrs = 22\<rparr>"

lemmas dom0_defs = machine0_defs dom_sample_regs_def dom_sample_mask_def dom_sample_root_def
  dom_sample_def dom0_def machine.defs domain_state.defs

lemmas pmu0_defs = dom0_defs fw_event_zero_def pmu0_def pmu_state.defs

end
