(* ===== verification/Sbi_Pmu_Events.thy ===== *)
theory Sbi_Pmu_Events
  imports Sbi_Pmu
begin

text \<open>
  The table of hardware events: what the two functions a platform fills it with keep true of it,
  and which entry and which counter the search of \<^verbatim>\<open>pmu_ctr_find_hw\<close> settles on.
\<close>

section \<open>Entries do not collide\<close>

text \<open>The second entry was added while the first was in the table.\<close>

definition events_compatible :: "sbi_pmu_hw_event \<Rightarrow> sbi_pmu_hw_event \<Rightarrow> bool" where
  "events_compatible e1 e2 \<longleftrightarrow>
     (if evt_start_idx e2 = SBI_PMU_EVENT_RAW_IDX then evt_select e1 \<noteq> evt_select e2
      else evt_end_idx e1 < evt_start_idx e2 \<or> evt_end_idx e2 < evt_start_idx e1)"

definition event_wf :: "sbi_pmu_hw_event \<Rightarrow> bool" where
  "event_wf e \<longleftrightarrow> evt_start_idx e \<le> evt_end_idx e
     \<and> (evt_start_idx e = SBI_PMU_EVENT_RAW_IDX \<longrightarrow> evt_end_idx e = SBI_PMU_EVENT_RAW_IDX)
     \<and> (2 < evt_start_idx e \<longrightarrow> evt_counters e AND 7 = 0)"

definition hw_events :: "'a pmu_state_scheme \<Rightarrow> sbi_pmu_hw_event list" where
  "hw_events s = take (unat (num_hw_events s)) (hw_event_map s)"

definition pmu_table :: "'a pmu_state_scheme \<Rightarrow> bool" where
  "pmu_table s \<longleftrightarrow> length (hw_event_map s) = SBI_PMU_HW_EVENT_MAX
     \<and> unat (num_hw_events s) < SBI_PMU_HW_EVENT_MAX
     \<and> sorted_wrt events_compatible (hw_events s) \<and> (\<forall>e\<in>set (hw_events s). event_wf e)"

lemma upd_hw_event_same:
  "n < length (hw_event_map s) \<Longrightarrow>
   upd_hw_event n f (upd_hw_event n g s) = upd_hw_event n (\<lambda>e. f (g e)) s"
  by (simp add: upd_hw_event_def)

lemma hw_event_map_upd [simp]:
  "length (hw_event_map (upd_hw_event n f s)) = length (hw_event_map s)"
  "num_hw_events (upd_hw_event n f s) = num_hw_events s"
  "hw_event_map (upd_hw_event n f s) = (hw_event_map s)[n := f (hw_event_map s ! n)]"
  by (simp_all add: upd_hw_event_def)

lemma take_upd_beyond: "take n (xs[n := x]) = take n xs"
  by (rule nth_equalityI) simp_all

definition new_event :: "u32 \<Rightarrow> u32 \<Rightarrow> u32 \<Rightarrow> u64 \<Rightarrow> sbi_pmu_hw_event" where
  "new_event es ee cmap sel =
     \<lparr>evt_counters = cmap, evt_start_idx = es, evt_end_idx = ee, evt_select = sel\<rparr>"

text \<open>What one call does to the entries in use: nothing, or one more that is compatible with all.\<close>

lemma add_event_entries:
  assumes "length (hw_event_map s) = 64" "pmu_add_hw_event_map es ee cmap sel s = (ret, s')"
  shows "ret \<noteq> 0 \<and> hw_events s' = hw_events s \<and> num_hw_events s' = num_hw_events s
      \<and> length (hw_event_map s') = 64
    \<or> ret = 0 \<and> unat (num_hw_events s') = unat (num_hw_events s) + 1 \<and> unat (num_hw_events s') < 64
      \<and> length (hw_event_map s') = 64 \<and> (2 < es \<longrightarrow> cmap AND 7 = 0)
      \<and> hw_events s' = hw_events s @ [new_event es ee cmap sel]
      \<and> (\<forall>e\<in>set (hw_events s). if es = SBI_PMU_EVENT_RAW_IDX then evt_select e \<noteq> sel
           else \<not> pmu_event_range_overlap e (new_event es ee cmap sel))"
proof -
  let ?n = "unat (num_hw_events s)"
  show ?thesis
  proof (cases "?n < 63")
    case True
    have suc: "unat (num_hw_events s + 1) = Suc ?n"
      using True by (simp add: unat_word_ariths)
    have ov: "pmu_event_range_overlap e (e'\<lparr>evt_start_idx := es, evt_end_idx := ee\<rparr>)
        \<longleftrightarrow> pmu_event_range_overlap e (new_event es ee cmap sel)" for e e'
      by (simp add: pmu_event_range_overlap_def new_event_def)
    have tk: "take (Suc ?n) ((hw_event_map s)[?n := x]) = hw_events s @ [x]" for x
      using True assms(1) by (simp add: hw_events_def take_Suc_conv_app_nth take_upd_beyond)
    show ?thesis
      using assms True
      by (auto simp: pmu_add_hw_event_map_def Let_def upd_hw_event_same take_upd_beyond hw_events_def
          tk [unfolded hw_events_def] suc ov list_ex_iff pmu_event_select_overlap_def new_event_def
          split: if_splits)
  next
    case False
    then show ?thesis
      using assms by (auto simp: pmu_add_hw_event_map_def Let_def split: if_splits)
  qed
qed

lemma pmu_add_table:
  assumes "pmu_table s" "es \<le> ee" "es = SBI_PMU_EVENT_RAW_IDX \<longrightarrow> ee = SBI_PMU_EVENT_RAW_IDX"
  shows "pmu_table (snd (pmu_add_hw_event_map es ee cmap sel s))"
proof -
  obtain ret s' where r: "pmu_add_hw_event_map es ee cmap sel s = (ret, s')" by fastforce
  have l: "length (hw_event_map s) = 64" using assms(1) by (simp add: pmu_table_def)
  let ?e = "new_event es ee cmap sel"
  have compat: "events_compatible e ?e"
    if "if es = SBI_PMU_EVENT_RAW_IDX then evt_select e \<noteq> sel else \<not> pmu_event_range_overlap e ?e" for e
    using that by (auto simp: events_compatible_def pmu_event_range_overlap_def new_event_def split: if_splits)
  have wf: "event_wf ?e" if "2 < es \<longrightarrow> cmap AND 7 = 0"
    using that assms(2,3) by (simp add: event_wf_def new_event_def)
  have "pmu_table s'"
    using add_event_entries [OF l r]
  proof (elim disjE conjE)
    assume "unat (num_hw_events s') < 64" "length (hw_event_map s') = 64"
      "2 < es \<longrightarrow> cmap AND 7 = 0" and e: "hw_events s' = hw_events s @ [?e]"
      and "\<forall>e\<in>set (hw_events s). if es = SBI_PMU_EVENT_RAW_IDX then evt_select e \<noteq> sel
           else \<not> pmu_event_range_overlap e ?e"
    moreover have "sorted_wrt events_compatible (hw_events s)" "\<forall>e\<in>set (hw_events s). event_wf e"
      using assms(1) by (simp_all add: pmu_table_def)
    ultimately show ?thesis
      using compat wf unfolding pmu_table_def e sorted_wrt_append by simp
  qed (use assms(1) in \<open>simp add: pmu_table_def\<close>)
  then show ?thesis by (simp add: r)
qed

text \<open>C39. Every event a platform adds, ranges of event indices as well as raw selectors, leaves
  the table without two range entries that overlap, without two raw entries of the same selector,
  with at most 63 entries, and with no entry beyond the two fixed events that claims one of the
  fixed counters.\<close>

theorem pmu_setup_keeps_table:
  assumes "pmu_table s"
  shows "pmu_table (pmu_setup cs s)"
  using assms
proof (induction cs arbitrary: s)
  case (Cons c cs)
  have "pmu_table (snd (sbi_pmu_add_hw_event_counter_map es ee m s))" for es ee m
    using Cons.prems
    by (auto simp: sbi_pmu_add_hw_event_counter_map_def not_less intro!: pmu_add_table)
  moreover have "pmu_table (snd (sbi_pmu_add_raw_event_counter_map sel m s))" for sel m
    unfolding sbi_pmu_add_raw_event_counter_map_def by (rule pmu_add_table) (use Cons.prems in auto)
  ultimately show ?case using Cons.IH by (cases c) auto
qed simp

corollary pmu_setup_keeps_table_witness:
  "pmu_table (pmu_setup [Add_hw_event 1 1 9, Add_hw_event 0x10000 0x10010 0x18, Add_raw_event 5 0x18] pmu0)"
  by (rule pmu_setup_keeps_table) (simp add: pmu_table_def pmu0_defs hw_events_def)

section \<open>The counter the search finds\<close>

lemma find_loop_done:
  "32 \<le> cbase \<Longrightarrow> pmu_find_hw_loop h cmask ev d inh evs cbase r s = r"
proof (induction evs arbitrary: cbase)
  case (Cons e evs)
  have "find_next_bit [m] 32 32 = 32" for m by (simp add: find_next_bit_spec next_such_def)
  then show ?case using Cons by (simp add: for_each_set_bit_from_spec Let_def)
qed simp

text \<open>The free counters an entry offers.\<close>

definition offered ::
  "nat \<Rightarrow> ulong \<Rightarrow> nat \<Rightarrow> ulong \<Rightarrow> 'a pmu_state_scheme \<Rightarrow> sbi_pmu_hw_event \<Rightarrow> nat set" where
  "offered h cmask cbase inh s e =
     {c. cbase \<le> c \<and> 3 \<le> c \<and> c < 32 \<and> bit (evt_counters e) c \<and> bit (sll cmask cbase) c
         \<and> pmu_ctr_free h inh c s}"

lemma bit_not7: "bit (NOT 7 :: ulong) i \<longleftrightarrow> 3 \<le> i \<and> i < 64"
proof -
  have "(7 :: ulong) = mask 3" by (simp add: mask_eq_exp_minus_1)
  then have "bit (7 :: ulong) i \<longleftrightarrow> i < 3 \<and> i < 64" by (simp only: bit_mask_ulong)
  then show ?thesis by (auto simp only: bit_not_ulong)
qed

lemma found_is_offered:
  "set (filter (\<lambda>c. pmu_ctr_free h inh c s)
     (for_each_set_bit_from cbase [(ucast (evt_counters e) AND sll cmask cbase) AND NOT 7] 32))
   = offered h cmask cbase inh s e"
proof -
  have "bm_bit [(ucast (evt_counters e) AND sll cmask cbase) AND NOT 7] c
      \<longleftrightarrow> bit (evt_counters e) c \<and> bit (sll cmask cbase) c \<and> 3 \<le> c" if "c < 32" for c
  proof -
    have "c div 64 = 0" "c mod 64 = c" "c < 64" using that by simp_all
    then show ?thesis
      unfolding bm_bit_def by (simp only: nth_Cons_0 bit_and_iff bit_not7 bit_unsigned_iff possible_bit_word) auto
  qed
  then show ?thesis by (auto simp only: for_each_set_bit_from_spec set_filter set_upt offered_def
        atLeastLessThan_iff mem_Collect_eq)
qed

lemma sorted_last_Max: "sorted xs \<Longrightarrow> xs \<noteq> [] \<Longrightarrow> last xs = Max (set xs)" for xs :: "nat list"
  by (induction xs) (auto simp: max_def)

lemma find_loop_first:
  "pmu_find_hw_loop h cmask ev d inh evs cbase r s =
     (case filter (\<lambda>e. \<not> pmu_event_skip ev d e) evs of
        [] \<Rightarrow> r
      | e # _ \<Rightarrow> if offered h cmask cbase inh s e = {} then r
                 else int (Max (offered h cmask cbase inh s e)))"
proof (induction evs)
  case (Cons e evs)
  define m where "m = (ucast (evt_counters e) AND sll cmask cbase) AND NOT 7"
  let ?f = "filter (\<lambda>c. pmu_ctr_free h inh c s) (for_each_set_bit_from cbase [m] 32)"
  have o: "set ?f = offered h cmask cbase inh s e" unfolding m_def by (rule found_is_offered)
  have s: "sorted ?f" unfolding for_each_set_bit_from_spec by (intro sorted_wrt_filter) simp
  have n: "find_next_bit [m] 32 32 = 32" by (simp add: find_next_bit_spec next_such_def)
  have f: "(if ?f = [] then r else int (last ?f))
      = (if offered h cmask cbase inh s e = {} then r
         else int (Max (offered h cmask cbase inh s e)))"
    using sorted_last_Max [OF s] unfolding o by (metis o set_empty2)
  have step: "pmu_find_hw_loop h cmask ev d inh (e # evs) cbase r s =
     (if pmu_event_skip ev d e then pmu_find_hw_loop h cmask ev d inh evs cbase r s
      else if ?f = [] then r else int (last ?f))"
    unfolding pmu_find_hw_loop.simps Let_def m_def [symmetric] n by (simp add: find_loop_done)
  show ?case unfolding step f using Cons by simp
qed simp

text \<open>At most one entry matches an event: that is what the compatibility of the entries is for.\<close>

lemma skip_iff:
  assumes "event_wf e"
  shows "\<not> pmu_event_skip ev d e \<longleftrightarrow>
    ucast (evt_start_idx e) \<le> ev \<and> ev \<le> ucast (evt_end_idx e) \<and> (ev = 0x20000 \<longrightarrow> evt_select e = d)"
proof -
  have "(ucast (evt_start_idx e) :: ulong) \<le> ucast (evt_end_idx e)"
    using assms by (simp add: event_wf_def word_le_nat_alt)
  then show ?thesis unfolding pmu_event_skip_def by fastforce
qed

lemma ucast_raw: "ucast (0x20000 :: u32) = (0x20000 :: ulong)"
  by simp

lemma compatible_one_match:
  assumes "events_compatible e1 e2" "event_wf e1" "event_wf e2"
    "\<not> pmu_event_skip ev d e1" "\<not> pmu_event_skip ev d e2"
  shows False
proof (cases "evt_start_idx e2 = SBI_PMU_EVENT_RAW_IDX")
  case True
  then have "evt_end_idx e2 = SBI_PMU_EVENT_RAW_IDX" using assms(3) by (simp add: event_wf_def)
  then have "ev = 0x20000" using True skip_iff [OF assms(3), of ev d] assms(5)
    by (metis order_antisym ucast_raw)
  then show ?thesis using True assms by (simp add: skip_iff events_compatible_def)
next
  case False
  then have "(ucast (evt_end_idx e1) :: ulong) < ucast (evt_start_idx e2)
      \<or> (ucast (evt_end_idx e2) :: ulong) < ucast (evt_start_idx e1)"
    using assms(1) by (simp add: events_compatible_def word_less_nat_alt)
  then show ?thesis using assms(2-5) by (auto simp: skip_iff)
qed

lemma one_match:
  assumes "pmu_table s"
  shows "filter (\<lambda>e. \<not> pmu_event_skip ev d e) (hw_events s) = []
    \<or> (\<exists>e. filter (\<lambda>e. \<not> pmu_event_skip ev d e) (hw_events s) = [e])"
proof (cases "filter (\<lambda>e. \<not> pmu_event_skip ev d e) (hw_events s)")
  case (Cons e es)
  show ?thesis
  proof (cases es)
    case (Cons e' es')
    have "sorted_wrt events_compatible (e # e' # es')"
      using assms \<open>filter _ _ = e # es\<close> Cons
      by (metis pmu_table_def sorted_wrt_filter)
    moreover have "{e, e'} \<subseteq> set (filter (\<lambda>e. \<not> pmu_event_skip ev d e) (hw_events s))"
      using \<open>filter _ _ = e # es\<close> Cons by simp
    ultimately have False
      using compatible_one_match [of e e' ev d] assms by (auto simp: pmu_table_def)
    then show ?thesis ..
  qed (use Cons in simp)
qed simp

text \<open>For an event without a fixed counter the search configures the highest numbered counter
  that is in the caller's mask, is free on this hart, and is offered by an entry of the event
  table that matches the event; when there is none it fails. The loop's advancing \<^verbatim>\<open>cbase\<close> and its
  missing exit do no harm, because in a table built by the add functions at most one entry
  matches.\<close>

theorem find_hw_highest_free:
  fixes s :: "'a pmu_state_scheme" and h :: nat and cmask cbase ev d :: ulong
  assumes "pmu_table s" "cbase \<le> ucast (num_hw_ctrs s)" "ev \<notin> {1, 2}"
  defines "inh \<equiv> if sbi_hart_has_feature h SBI_HART_HAS_MCOUNTINHIBIT s
                 then csr_read h CSR_MCOUNTINHIBIT s else 0"
  defines "C \<equiv> \<Union> (offered h cmask (unat cbase) inh s `
                   {e \<in> set (hw_events s). \<not> pmu_event_skip ev d e})"
  shows "pmu_ctr_find_hw h cbase cmask fl ev d s =
    (if C = {} then Ret SBI_EFAIL s
     else flow_bind (pmu_update_hw_mhpmevent h (int (Max C)) fl ev d s)
            (\<lambda>ret s. Ret (if ret = 0 then int (Max C) else ret) s))"
proof -
  have fixed: "pmu_ctr_find_fixed_fw ev = SBI_EINVAL"
    using assms(3) by (simp add: pmu_ctr_find_fixed_fw_def)
  have "pmu_find_hw_loop h cmask ev d inh (hw_events s) (unat cbase) SBI_ENOTSUPP s
      = (if C = {} then SBI_ENOTSUPP else int (Max C))"
  proof -
    consider "filter (\<lambda>e. \<not> pmu_event_skip ev d e) (hw_events s) = []"
      | e where "filter (\<lambda>e. \<not> pmu_event_skip ev d e) (hw_events s) = [e]"
      using one_match [OF assms(1)] by blast
    then show ?thesis
    proof cases
      case 1
      then have "{e \<in> set (hw_events s). \<not> pmu_event_skip ev d e} = {}"
        by (metis empty_set set_filter)
      then have "C = {}" by (simp only: C_def image_empty Union_empty)
      with 1 show ?thesis by (simp add: find_loop_first)
    next
      case 2
      then have "{e \<in> set (hw_events s). \<not> pmu_event_skip ev d e} = {e}"
        by (metis list.set(1) list.set(2) set_filter)
      then have "C = offered h cmask (unat cbase) inh s e"
        by (simp only: C_def image_insert image_empty Union_insert Union_empty Un_empty_right)
      with 2 show ?thesis by (simp add: find_loop_first)
    qed
  qed
  then show ?thesis
    using leD [OF assms(2)] fixed
    unfolding pmu_ctr_find_hw_def Let_def inh_def [symmetric] hw_events_def [symmetric]
    by (cases "C = {}") (simp_all cong: if_cong)
qed

definition pmu1 :: pmu_state where
  "pmu1 = csr_write 0 CSR_MCOUNTINHIBIT (- 1) (pmu_setup [Add_hw_event 0x10000 0x10010 0x18] pmu0)"

lemma pmu1_events: "hw_events pmu1 = [new_event 0x10000 0x10010 0x18 0]"
  unfolding hw_events_def by code_simp

lemma pmu1_table: "pmu_table pmu1"
proof -
  have "length (hw_event_map pmu1) = 64" "unat (num_hw_events pmu1) = 1" by code_simp+
  then show ?thesis by (simp add: pmu_table_def pmu1_events event_wf_def new_event_def)
qed

lemma pmu1_offered: "offered 0 3 3 (- 1) pmu1 (new_event 0x10000 0x10010 0x18 0) = {3, 4}"
proof -
  have "offered 0 3 3 (- 1) pmu1 (new_event 0x10000 0x10010 0x18 0)
      = set (filter (\<lambda>c. pmu_ctr_free 0 (- 1) c pmu1) (for_each_set_bit_from 3 [0x18] 32))"
    using found_is_offered [of 0 "- 1" pmu1 3 "new_event 0x10000 0x10010 0x18 0" 3]
    by (simp add: new_event_def)
  also have "\<dots> = {3, 4}" by code_simp
  finally show ?thesis .
qed

corollary find_hw_highest_free_witness:
  "pmu_ctr_find_hw 0 3 3 0 0x10000 0 pmu1
   = flow_bind (pmu_update_hw_mhpmevent 0 4 0 0x10000 0 pmu1) (\<lambda>ret s. Ret (if ret = 0 then 4 else ret) s)"
proof -
  have n: "(3 :: ulong) \<le> ucast (num_hw_ctrs pmu1)" by code_simp
  have i: "(if sbi_hart_has_feature 0 SBI_HART_HAS_MCOUNTINHIBIT pmu1
            then csr_read 0 CSR_MCOUNTINHIBIT pmu1 else 0) = - 1" by code_simp
  have e: "{e \<in> set (hw_events pmu1). \<not> pmu_event_skip 0x10000 0 e} = {new_event 0x10000 0x10010 0x18 0}"
    by (auto simp: pmu1_events pmu_event_skip_def new_event_def)
  show ?thesis
    using find_hw_highest_free [OF pmu1_table n, where h = 0 and cmask = 3 and ev = "0x10000" and d = 0
        and fl = 0]
    unfolding i e by (simp add: pmu1_offered cong: if_cong)
qed

end
