(* ===== verification/Sbi_Pmu_Counters.thy ===== *)
theory Sbi_Pmu_Counters
  imports Sbi_Pmu
begin

text \<open>
  The firmware counters: from the request of a counter for a firmware event, over the events of
  all harts, to the value read back; the accesses outside \<open>fw_event_map\<close> a caller can cause; and
  what a reset leaves behind.
\<close>

section \<open>Well-formed arrays\<close>

definition pmu_wf :: "'a pmu_state_scheme \<Rightarrow> bool" where
  "pmu_wf s \<longleftrightarrow> (\<forall>h. length (active_events s h) = 48 \<and> length (fw_event_map s h) = 32)
     \<and> unat (num_hw_ctrs s) \<le> 31 \<and> unat (total_ctrs s) = unat (num_hw_ctrs s) + 16"

lemma pmu_wf_lengths:
  assumes "pmu_wf s"
  shows "length (active_events s h) = 48" "length (fw_event_map s h) = 32" "unat (total_ctrs s) < 48"
  using assms by (auto simp: pmu_wf_def)

lemma pmu_wf_upd [simp]:
  "pmu_wf (upd_fw_event h i f s) = pmu_wf s"
  "pmu_wf (set_active h i v s) = pmu_wf s"
  "pmu_wf (csr_write h n w s) = pmu_wf s"
  by (auto simp: pmu_wf_def upd_fw_event_def set_active_def csr_write_def)

lemma pmu_upd_frame [simp]:
  "active_events (upd_fw_event h i f s) = active_events s"
  "total_ctrs (upd_fw_event h i f s) = total_ctrs s"
  "num_hw_ctrs (upd_fw_event h i f s) = num_hw_ctrs s"
  "fw_event_map (set_active h i v s) = fw_event_map s"
  "total_ctrs (set_active h i v s) = total_ctrs s"
  "num_hw_ctrs (set_active h i v s) = num_hw_ctrs s"
  by (simp_all add: upd_fw_event_def set_active_def)

text \<open>One entry of the firmware event map.\<close>

definition fw_event :: "nat \<Rightarrow> nat \<Rightarrow> 'a pmu_state_scheme \<Rightarrow> sbi_pmu_fw_event" where
  "fw_event h c s = fw_event_map s h ! c"

lemma fw_event_upd:
  assumes "pmu_wf s" "c < 32"
  shows "fw_event h c (upd_fw_event h' c' f s) =
    (if h = h' \<and> c = c' then f (fw_event h c s) else fw_event h c s)"
  using assms by (auto simp: fw_event_def upd_fw_event_def pmu_wf_def nth_list_update)

lemma fw_event_set_active [simp]: "fw_event h c (set_active h' i v s) = fw_event h c s"
  by (simp add: fw_event_def)

lemma active_set_active:
  assumes "pmu_wf s" "i < 48"
  shows "active_events (set_active h' j v s) h ! i =
    (if h = h' \<and> i = j then v else active_events s h ! i)"
  using assms by (auto simp: set_active_def pmu_wf_def nth_list_update)

section \<open>Counting\<close>

text \<open>A history of firmware events: which hart saw which event.\<close>

definition fw_events :: "(nat \<times> nat) list \<Rightarrow> 'a pmu_state_scheme \<Rightarrow> 'a pmu_state_scheme" where
  "fw_events evs s = foldl (\<lambda>s (h, c). snd (sbi_pmu_ctr_incr_fw h c s)) s evs"

lemma incr_fw_event:
  assumes "pmu_wf s" "c < 22"
  shows "fw_event h c (snd (sbi_pmu_ctr_incr_fw h' c' s)) =
    (if h = h' \<and> c = c' \<and> bStarted (fw_event h c s)
     then (fw_event h c s)\<lparr>curr_count := curr_count (fw_event h c s) + 1\<rparr> else fw_event h c s)"
  using assms
  by (auto simp: sbi_pmu_ctr_incr_fw_def fw_event_upd) (simp_all add: fw_event_def)

lemma incr_fw_frame [simp]:
  "pmu_wf (snd (sbi_pmu_ctr_incr_fw h c s)) = pmu_wf s"
  "active_events (snd (sbi_pmu_ctr_incr_fw h c s)) = active_events s"
  "total_ctrs (snd (sbi_pmu_ctr_incr_fw h c s)) = total_ctrs s"
  by (simp_all add: sbi_pmu_ctr_incr_fw_def)

lemma fw_events_frame [simp]:
  "pmu_wf (fw_events evs s) = pmu_wf s"
  "active_events (fw_events evs s) = active_events s"
  "total_ctrs (fw_events evs s) = total_ctrs s"
  by (induction evs arbitrary: s) (auto simp: fw_events_def)

lemma fw_events_count:
  assumes "pmu_wf s" "c < 22" "bStarted (fw_event h c s)"
  shows "curr_count (fw_event h c (fw_events evs s)) =
           curr_count (fw_event h c s) + of_nat (count_list evs (h, c))"
  using assms
proof (induction evs arbitrary: s)
  case (Cons ev evs)
  obtain h' c' where ev: "ev = (h', c')" by (cases ev)
  let ?t = "snd (sbi_pmu_ctr_incr_fw h' c' s)"
  have "fw_events (ev # evs) s = fw_events evs ?t" by (simp add: fw_events_def ev)
  moreover have "bStarted (fw_event h c ?t)" using Cons.prems by (auto simp: incr_fw_event)
  ultimately show ?case
    using Cons.IH [of ?t] Cons.prems by (auto simp: ev incr_fw_event)
qed (simp add: fw_events_def)

section \<open>From the request to the value\<close>

lemma event_type_code_u32:
  "get_cidx_type (ucast (ucast ev :: u32)) = get_cidx_type ev"
  "get_cidx_code (ucast (ucast ev :: u32)) = get_cidx_code ev"
proof -
  have w: "ucast (ucast ev :: u32) = ev AND 0xFFFFFFFF"
    by (simp add: unsigned_ucast_eq take_bit_eq_mask mask_eq_exp_minus_1)
  show "get_cidx_type (ucast (ucast ev :: u32)) = get_cidx_type ev"
    "get_cidx_code (ucast (ucast ev :: u32)) = get_cidx_code ev"
    unfolding get_cidx_type_def get_cidx_code_def w by (simp_all add: and.assoc)
qed

lemma find_fw_range:
  assumes "0 \<le> pmu_ctr_find_fw h cbase cmask s"
  shows "nat (pmu_ctr_find_fw h cbase cmask s) < unat (total_ctrs s)"
    and "unat (num_hw_ctrs s) < nat (pmu_ctr_find_fw h cbase cmask s)"
    and "active_events s h ! nat (pmu_ctr_find_fw h cbase cmask s) = SBI_PMU_EVENT_IDX_INVALID"
proof -
  let ?b = "if cbase \<le> ucast (num_hw_ctrs s) then unat (num_hw_ctrs s) + 1 else unat cbase"
  let ?P = "\<lambda>i. active_events s h ! i = SBI_PMU_EVENT_IDX_INVALID \<and> sll 1 i AND sll cmask (unat cbase) \<noteq> 0"
  obtain i js where f: "filter ?P [?b..<unat (total_ctrs s)] = i # js"
    using assms by (fastforce simp: pmu_ctr_find_fw_def Let_def split: list.splits)
  then have r: "pmu_ctr_find_fw h cbase cmask s = int i"
    by (simp add: pmu_ctr_find_fw_def Let_def)
  have "i \<in> set (filter ?P [?b..<unat (total_ctrs s)])" unfolding f by simp
  then have i: "?b \<le> i" "i < unat (total_ctrs s)" "?P i" by auto
  have "unat (num_hw_ctrs s) < ?b"
    by (simp add: not_le word_less_nat_alt)
  with i r show "nat (pmu_ctr_find_fw h cbase cmask s) < unat (total_ctrs s)"
    "unat (num_hw_ctrs s) < nat (pmu_ctr_find_fw h cbase cmask s)"
    "active_events s h ! nat (pmu_ctr_find_fw h cbase cmask s) = SBI_PMU_EVENT_IDX_INVALID"
    by auto
qed

text \<open>A firmware counter counts: after a counter has been requested for a firmware event with
  the flags that clear and start it, and after any history of firmware events on all harts, the
  value read from the counter is the number of times this event happened on this hart, modulo
  \<open>2 ^ 64\<close>.\<close>

theorem fw_counter_counts:
  assumes "pmu_wf s" "sbi_pmu_ctr_cfg_match h cbase cmask fl ev d s = Ret r s1" "0 \<le> r"
    and "get_cidx_type ev = SBI_PMU_EVENT_TYPE_FW" "get_cidx_code ev < SBI_PMU_FW_MAX"
    and "fl AND 1 = 0" "fl AND 2 \<noteq> 0" "fl AND 4 \<noteq> 0"
  shows "sbi_pmu_ctr_read h (nat r) (fw_events evs s1)
    = Ret (0, Some (of_nat (count_list evs (h, get_cidx_code ev)))) (fw_events evs s1)"
proof -
  let ?c = "get_cidx_code ev" and ?f = "pmu_ctr_find_fw h cbase cmask s"
  let ?s0 = "set_active h (nat ?f) (ucast ev) s"
  let ?s1 = "upd_fw_event h ?c (\<lambda>e. e\<lparr>curr_count := 0\<rparr>) ?s0"
  have f: "0 \<le> ?f" and r: "r = ?f"
    and s1: "s1 = upd_fw_event h ?c (\<lambda>e. e\<lparr>bStarted := True\<rparr>) ?s1"
    using assms(2-) by (auto simp: sbi_pmu_ctr_cfg_match_def pmu_cfg_apply_def Let_def split: if_splits)
  note i = find_fw_range [OF f]
  have lt: "nat r < 48" using i(1) pmu_wf_lengths(3) [OF assms(1)] r by simp
  have act: "active_events s1 h ! nat r = ucast ev"
    using active_set_active [OF assms(1) lt, of h "nat r" "ucast ev" h] by (simp add: s1 r)
  have "get_cidx_code (ucast (0xFFFFFFFF :: u32)) = 0xFFFF" by (simp add: get_cidx_code_def)
  then have inv: "(ucast ev :: u32) \<noteq> SBI_PMU_EVENT_IDX_INVALID"
    using assms(5) event_type_code_u32(2) [of ev] by auto
  have wf: "pmu_wf s1" using assms(1) by (simp add: s1)
  have e: "bStarted (fw_event h ?c s1)" "curr_count (fw_event h ?c s1) = 0"
    using assms(1,5) by (simp_all add: s1 fw_event_upd)
  have v: "pmu_ctr_validate h (nat r) (fw_events evs s1) = Ret (15, ?c) (fw_events evs s1)"
    using lt i(1) inv act assms(4)
    by (simp add: pmu_ctr_validate_def Let_def r s1 event_type_code_u32)
  show ?thesis
    using fw_events_count [OF wf assms(5) e(1), of evs] e(2) assms(5)
    by (simp add: sbi_pmu_ctr_read_def v pmu_ctr_read_fw_def fw_event_def)
qed

corollary fw_counter_counts_witness:
  "sbi_pmu_ctr_read 2 7
     (fw_events [(2, 6), (1, 6), (2, 5), (2, 6)] (flow_state (sbi_pmu_ctr_cfg_match 2 7 1 6 0xF0006 0 pmu0)))
   = Ret (0, Some 2)
      (fw_events [(2, 6), (1, 6), (2, 5), (2, 6)] (flow_state (sbi_pmu_ctr_cfg_match 2 7 1 6 0xF0006 0 pmu0)))"
proof -
  have w: "pmu_wf pmu0" by (simp add: pmu_wf_def pmu0_defs)
  have r: "sbi_pmu_ctr_cfg_match 2 7 1 6 0xF0006 0 pmu0
      = Ret 7 (flow_state (sbi_pmu_ctr_cfg_match 2 7 1 6 0xF0006 0 pmu0))"
  proof -
    have "case sbi_pmu_ctr_cfg_match 2 7 1 6 0xF0006 0 pmu0 of Ret r _ \<Rightarrow> r = 7 | _ \<Rightarrow> False"
      by code_simp
    then show ?thesis by (auto split: flow.splits)
  qed
  show ?thesis
    using fw_counter_counts [OF w r, of "[(2, 6), (1, 6), (2, 5), (2, 6)]"]
    by (simp add: get_cidx_type_def get_cidx_code_def)
qed

section \<open>Event codes outside the table\<close>

text \<open>The event code of a firmware event is not compared with the size of the table: a request
  that clears or starts the counter of an event with code 32 or more writes outside
  \<^verbatim>\<open>fw_event_map\<close>; every other request for a firmware event stays inside it.\<close>

theorem cfg_match_fw_bounds:
  assumes "get_cidx_type ev = SBI_PMU_EVENT_TYPE_FW" "fl AND 1 = 0"
    and "fls_word (sll cmask (unat cbase)) < unat (total_ctrs s)"
    and "0 \<le> pmu_ctr_find_fw h cbase cmask s"
  shows "(\<exists>t. sbi_pmu_ctr_cfg_match h cbase cmask fl ev d s = Undef t) \<longleftrightarrow>
    SBI_PMU_FW_EVENT_MAX \<le> get_cidx_code ev \<and> (fl AND 2 \<noteq> 0 \<or> fl AND 4 \<noteq> 0)"
  using assms by (auto simp: sbi_pmu_ctr_cfg_match_def pmu_cfg_apply_def Let_def)

corollary cfg_match_fw_bounds_witness:
  "\<exists>t. sbi_pmu_ctr_cfg_match 0 7 1 2 0xF0020 0 pmu0 = Undef t"
proof -
  have "0 \<le> pmu_ctr_find_fw 0 7 1 pmu0"
    by code_simp
  moreover have "fls_word (sll 1 (unat (7 :: ulong))) < unat (total_ctrs pmu0)" by code_simp
  moreover have "get_cidx_type 0xF0020 = 15" "get_cidx_code 0xF0020 = 32" by code_simp+
  ultimately show ?thesis
    using cfg_match_fw_bounds [of "0xF0020" 2 1 7 pmu0 0 0] by (simp del: sll_small)
qed

section \<open>Reset\<close>

lemma foldl_set_active:
  assumes "pmu_wf s" "i < 48"
  shows "active_events (foldl (\<lambda>s j. set_active h' j v s) s js) h ! i =
      (if h = h' \<and> i \<in> set js then v else active_events s h ! i)"
    and "pmu_wf (foldl (\<lambda>s j. set_active h' j v s) s js)"
    and "fw_event_map (foldl (\<lambda>s j. set_active h' j v s) s js) = fw_event_map s"
  using assms by (induction js arbitrary: s) (auto simp: active_set_active)

lemma foldl_upd_fw:
  assumes "pmu_wf s" "c < 32"
  shows "fw_event h c (foldl (\<lambda>s j. upd_fw_event h' j (\<lambda>_. z) s) s js) =
      (if h = h' \<and> c \<in> set js then z else fw_event h c s)"
    and "active_events (foldl (\<lambda>s j. upd_fw_event h' j (\<lambda>_. z) s) s js) = active_events s"
    and "pmu_wf (foldl (\<lambda>s j. upd_fw_event h' j (\<lambda>_. z) s) s js)"
  using assms by (induction js arbitrary: s) (auto simp: fw_event_upd)

lemma reset_event_map_spec:
  assumes "pmu_wf s"
  obtains t where "pmu_reset_event_map h s = Ret () t" "pmu_wf t"
    "\<And>h' i. i < 48 \<Longrightarrow> active_events t h' ! i =
       (if h' = h \<and> 3 \<le> i \<and> i < unat (total_ctrs s) then SBI_PMU_EVENT_IDX_INVALID
        else active_events s h' ! i)"
    "\<And>h' c. c < 32 \<Longrightarrow> fw_event h' c t = (if h' = h \<and> c < 16 then fw_event_zero else fw_event h' c s)"
proof -
  let ?s1 = "foldl (\<lambda>s j. set_active h j SBI_PMU_EVENT_IDX_INVALID s) s [3..<unat (total_ctrs s)]"
  let ?t = "foldl (\<lambda>s j. upd_fw_event h j (\<lambda>_. fw_event_zero) s) ?s1 [0..<16]"
  have "pmu_reset_event_map h s = Ret () ?t"
    using pmu_wf_lengths(3) [OF assms] by (simp add: pmu_reset_event_map_def Let_def)
  moreover have w: "pmu_wf ?s1" by (rule foldl_set_active(2) [OF assms, of 0]) simp
  moreover have "pmu_wf ?t" by (rule foldl_upd_fw(3) [OF w, of 0]) simp
  moreover have "active_events ?t h' ! i =
       (if h' = h \<and> 3 \<le> i \<and> i < unat (total_ctrs s) then SBI_PMU_EVENT_IDX_INVALID
        else active_events s h' ! i)" if "i < 48" for h' i
    using foldl_upd_fw(2) [OF w, of 0] foldl_set_active(1) [OF assms that] by simp
  moreover have "fw_event h' c ?t = (if h' = h \<and> c < 16 then fw_event_zero else fw_event h' c s)"
    if "c < 32" for h' c
    using foldl_upd_fw(1) [OF w that] foldl_set_active(3) [OF assms, of 0] by (simp add: fw_event_def)
  ultimately show thesis using that by blast
qed

text \<open>The reset goes over as many events as there are counters, so the events with codes 16 to 21
  keep their counts and go on counting.\<close>

lemma exit_keeps_late_events:
  assumes "pmu_wf s" "16 \<le> c" "c < 22"
  shows "fw_event h c (flow_state (sbi_pmu_exit h s)) = fw_event h c s"
proof -
  let ?s = "csr_write h CSR_MCOUNTEREN (- 1) (if sbi_hart_has_feature h SBI_HART_HAS_MCOUNTINHIBIT s
               then csr_write h CSR_MCOUNTINHIBIT 0xFFFFFFF8 s else s)"
  have w: "pmu_wf ?s" using assms(1) by simp
  have f: "fw_event h c ?s = fw_event h c s" by (simp add: fw_event_def csr_write_def)
  obtain t where "pmu_reset_event_map h ?s = Ret () t"
    "\<And>h' c. c < 32 \<Longrightarrow> fw_event h' c t = (if h' = h \<and> c < 16 then fw_event_zero else fw_event h' c ?s)"
    by (rule reset_event_map_spec [OF w, of h]) blast
  then show ?thesis using assms f by (simp add: sbi_pmu_exit_def Let_def)
qed

end
