(* ===== verification/Sbi_Hsm.thy ===== *)
theory Sbi_Hsm
  imports Sbi_Pmu
begin

text \<open>
  \<^verbatim>\<open>lib/sbi/sbi_hsm.c\<close>: the state every hart is in and the operations that change it, with the part
  of \<^verbatim>\<open>lib/sbi/sbi_ipi.c\<close> they use (the IPI device). A device is what its driver registers: a
  record of optional functions whose results are parameters. Each access to a state word is one
  atomic operation, as in the code; the operations of all harts are interleaved in
  \<^verbatim>\<open>Sbi_Hsm_Steps\<close>.
\<close>

section \<open>State\<close>

abbreviation (input) SBI_HSM_STATE_STARTED :: int where "SBI_HSM_STATE_STARTED \<equiv> 0"
abbreviation (input) SBI_HSM_STATE_STOPPED :: int where "SBI_HSM_STATE_STOPPED \<equiv> 1"
abbreviation (input) SBI_HSM_STATE_START_PENDING :: int where "SBI_HSM_STATE_START_PENDING \<equiv> 2"
abbreviation (input) SBI_HSM_STATE_STOP_PENDING :: int where "SBI_HSM_STATE_STOP_PENDING \<equiv> 3"
abbreviation (input) SBI_HSM_STATE_SUSPENDED :: int where "SBI_HSM_STATE_SUSPENDED \<equiv> 4"
abbreviation (input) SBI_HSM_STATE_RESUME_PENDING :: int where "SBI_HSM_STATE_RESUME_PENDING \<equiv> 6"

abbreviation (input) SBI_HSM_SUSP_NON_RET_BIT :: u32 where "SBI_HSM_SUSP_NON_RET_BIT \<equiv> 0x80000000"
abbreviation (input) SBI_HSM_SUSPEND_RET_DEFAULT :: u32 where "SBI_HSM_SUSPEND_RET_DEFAULT \<equiv> 0"
abbreviation (input) SBI_HSM_SUSPEND_RET_PLATFORM :: u32 where
  "SBI_HSM_SUSPEND_RET_PLATFORM \<equiv> 0x10000000"
abbreviation (input) SBI_HSM_SUSPEND_NON_RET_DEFAULT :: u32 where
  "SBI_HSM_SUSPEND_NON_RET_DEFAULT \<equiv> 0x80000000"
abbreviation (input) SBI_HSM_SUSPEND_NON_RET_PLATFORM :: u32 where
  "SBI_HSM_SUSPEND_NON_RET_PLATFORM \<equiv> 0x90000000"

text \<open>
  \<open>hsm_stop_fn\<close> is \<open>Some None\<close> for a driver whose \<^verbatim>\<open>hart_stop\<close> powers the hart down, and
  \<open>Some (Some r)\<close> for one that returns \<open>r\<close>. \<open>hsm_suspend_fn\<close> gives \<open>None\<close> for a suspend that does
  not come back to its caller (the hart resumes at the warm boot address).
\<close>

record sbi_hsm_device =
  hsm_start_fn :: "(u32 \<Rightarrow> ulong \<Rightarrow> int) option"
  hsm_stop_fn :: "int option option"
  hsm_suspend_fn :: "(u32 \<Rightarrow> ulong \<Rightarrow> int option) option"

record sbi_ipi_device =
  ipi_send_fn :: bool
  ipi_clear_fn :: bool

record sbi_hsm_data =
  hstate :: int
  suspend_type :: ulong
  saved_mie :: ulong
  saved_mip :: ulong

record hsm_state = pmu_state +
  ipi_dev :: "sbi_ipi_device option"
  hsm_dev :: "sbi_hsm_device option"
  hart_data_offset :: ulong
  hsm_data :: "nat \<Rightarrow> sbi_hsm_data"
  init_count_offset :: ulong
  init_count :: "nat \<Rightarrow> ulong"

definition set_hstate :: "nat \<Rightarrow> int \<Rightarrow> 'a hsm_state_scheme \<Rightarrow> 'a hsm_state_scheme" where
  "set_hstate h v s = s\<lparr>hsm_data := (hsm_data s)(h := (hsm_data s h)\<lparr>hstate := v\<rparr>)\<rparr>"

definition hstate_cmpxchg ::
  "nat \<Rightarrow> int \<Rightarrow> int \<Rightarrow> 'a hsm_state_scheme \<Rightarrow> int \<times> 'a hsm_state_scheme" where
  "hstate_cmpxchg h oldval newval s =
     (hstate (hsm_data s h), if hstate (hsm_data s h) = oldval then set_hstate h newval s else s)"

definition sbi_domain_thishart :: "nat \<Rightarrow> 'a domain_state_scheme \<Rightarrow> sbi_domain option" where
  "sbi_domain_thishart h s = map_option (doms s) (hartid_to_domain s h)"

definition set_next ::
  "nat \<Rightarrow> ulong \<Rightarrow> ulong \<Rightarrow> ulong \<Rightarrow> 'a machine_scheme \<Rightarrow> 'a machine_scheme" where
  "set_next h arg1 addr m s =
     s\<lparr>scratch := (scratch s)(h := (scratch s h)\<lparr>next_arg1 := arg1, next_addr := addr, next_mode := m\<rparr>)\<rparr>"

section \<open>The IPI device\<close>

definition sbi_ipi_raw_send :: "nat \<Rightarrow> u32 \<Rightarrow> 'a hsm_state_scheme \<Rightarrow> 'a hsm_state_scheme" where
  "sbi_ipi_raw_send h target_hart s =
     (case ipi_dev s of
        Some d \<Rightarrow> if ipi_send_fn d then emit (Ev_ipi_send h (unat target_hart)) s else s
      | None \<Rightarrow> s)"

definition sbi_ipi_get_device :: "'a hsm_state_scheme \<Rightarrow> sbi_ipi_device option" where
  "sbi_ipi_get_device s = ipi_dev s"

definition sbi_ipi_set_device :: "sbi_ipi_device option \<Rightarrow> 'a hsm_state_scheme \<Rightarrow> 'a hsm_state_scheme"
where
  "sbi_ipi_set_device dev s = (if dev = None \<or> ipi_dev s \<noteq> None then s else s\<lparr>ipi_dev := dev\<rparr>)"

section \<open>The hart state management device\<close>

definition sbi_hsm_get_device :: "'a hsm_state_scheme \<Rightarrow> sbi_hsm_device option" where
  "sbi_hsm_get_device s = hsm_dev s"

definition sbi_hsm_set_device :: "sbi_hsm_device option \<Rightarrow> 'a hsm_state_scheme \<Rightarrow> 'a hsm_state_scheme"
where
  "sbi_hsm_set_device dev s = (if dev = None \<or> hsm_dev s \<noteq> None then s else s\<lparr>hsm_dev := dev\<rparr>)"

definition hsm_device_has_hart_hotplug :: "'a hsm_state_scheme \<Rightarrow> bool" where
  "hsm_device_has_hart_hotplug s =
     (case hsm_dev s of Some d \<Rightarrow> hsm_start_fn d \<noteq> None \<and> hsm_stop_fn d \<noteq> None | None \<Rightarrow> False)"

definition hsm_device_has_hart_secondary_boot :: "'a hsm_state_scheme \<Rightarrow> bool" where
  "hsm_device_has_hart_secondary_boot s =
     (case hsm_dev s of Some d \<Rightarrow> hsm_start_fn d \<noteq> None \<and> hsm_stop_fn d = None | None \<Rightarrow> False)"

definition hsm_device_hart_start ::
  "nat \<Rightarrow> u32 \<Rightarrow> ulong \<Rightarrow> 'a hsm_state_scheme \<Rightarrow> int \<times> 'a hsm_state_scheme" where
  "hsm_device_hart_start h hartid saddr s =
     (case hsm_dev s of
        Some d \<Rightarrow>
          (case hsm_start_fn d of
             Some f \<Rightarrow> (f hartid saddr, emit (Ev_hart_start h (unat hartid) saddr) s)
           | None \<Rightarrow> (SBI_ENOTSUPP, s))
      | None \<Rightarrow> (SBI_ENOTSUPP, s))"

definition hsm_device_hart_stop ::
  "nat \<Rightarrow> 'a hsm_state_scheme \<Rightarrow> (int, 'a hsm_state_scheme) flow" where
  "hsm_device_hart_stop h s =
     (case hsm_dev s of
        Some d \<Rightarrow>
          (case hsm_stop_fn d of
             Some (Some r) \<Rightarrow> Ret r (emit (Ev_hart_stop h) s)
           | Some None \<Rightarrow> Gone (emit (Ev_hart_stop h) s)
           | None \<Rightarrow> Ret SBI_ENOTSUPP s)
      | None \<Rightarrow> Ret SBI_ENOTSUPP s)"

definition hsm_device_hart_suspend ::
  "nat \<Rightarrow> u32 \<Rightarrow> ulong \<Rightarrow> 'a hsm_state_scheme \<Rightarrow> (int, 'a hsm_state_scheme) flow" where
  "hsm_device_hart_suspend h stype raddr s =
     (case hsm_dev s of
        Some d \<Rightarrow>
          (case hsm_suspend_fn d of
             Some f \<Rightarrow>
               (let s = emit (Ev_hart_suspend h stype raddr) s
                in case f stype raddr of Some r \<Rightarrow> Ret r s | None \<Rightarrow> Gone s)
           | None \<Rightarrow> Ret SBI_ENOTSUPP s)
      | None \<Rightarrow> Ret SBI_ENOTSUPP s)"

section \<open>Reading the states\<close>

definition hsm_hart_get_state :: "nat \<Rightarrow> 'a hsm_state_scheme \<Rightarrow> int" where
  "hsm_hart_get_state hartid s =
     (if \<not> scratch_tab s hartid then SBI_EINVAL else hstate (hsm_data s hartid))"

definition sbi_hsm_hart_get_state :: "sbi_domain option \<Rightarrow> u32 \<Rightarrow> 'a hsm_state_scheme \<Rightarrow> int" where
  "sbi_hsm_hart_get_state dm hartid s =
     (if \<not> sbi_domain_is_assigned_hart dm hartid then SBI_EINVAL
      else hsm_hart_get_state (unat hartid) s)"

text \<open>The hart ids are 32 bit values in the loop's body: the loop never goes beyond \<^verbatim>\<open>u32\<close> because
  \<open>hend\<close> is at most one more than the last hart id.\<close>

definition interruptible_step ::
  "ulong \<Rightarrow> ulong \<Rightarrow> 'a hsm_state_scheme \<Rightarrow> ulong \<Rightarrow> nat \<Rightarrow> ulong" where
  "interruptible_step dmask hbase s out k =
     (let hmask = sll 1 k in
      if dmask AND hmask \<noteq> 0 then
        let st = hsm_hart_get_state (unat hbase + k) s in
        if st = SBI_HSM_STATE_STARTED \<or> st = SBI_HSM_STATE_SUSPENDED then out OR hmask else out
      else out)"

definition sbi_hsm_hart_interruptible_mask ::
  "sbi_domain option \<Rightarrow> ulong \<Rightarrow> 'a hsm_state_scheme \<Rightarrow> int \<times> ulong" where
  "sbi_hsm_hart_interruptible_mask dm hbase s =
     (let hend = of_nat (last_hartid s) + 1 :: ulong in
      if hend \<le> hbase then (SBI_EINVAL, 0)
      else
        let hend = (if 64 < hend - hbase then hbase + 64 else hend);
            dmask = sbi_domain_get_assigned_hartmask dm hbase
        in (0, foldl (interruptible_step dmask hbase s) 0 [0..<unat (hend - hbase)]))"

section \<open>Starting\<close>

definition sbi_hsm_prepare_next_jump ::
  "nat \<Rightarrow> 'a hsm_state_scheme \<Rightarrow> (unit, 'a hsm_state_scheme) flow" where
  "sbi_hsm_prepare_next_jump h s =
     (let (oldstate, s) = hstate_cmpxchg h SBI_HSM_STATE_START_PENDING SBI_HSM_STATE_STARTED s
      in if oldstate \<noteq> SBI_HSM_STATE_START_PENDING then Hang s else Ret () s)"

text \<open>
  The wait for a start request. \<open>others\<close> is what the other harts do during each \<^verbatim>\<open>wfi\<close>: with an
  empty list the hart is still waiting.
\<close>

fun hsm_wait_loop ::
  "('a hsm_state_scheme \<Rightarrow> 'a hsm_state_scheme) list \<Rightarrow> nat \<Rightarrow> 'a hsm_state_scheme
     \<Rightarrow> (unit, 'a hsm_state_scheme) flow" where
  "hsm_wait_loop others h s =
     (if hstate (hsm_data s h) = SBI_HSM_STATE_START_PENDING then Ret () s
      else case others of
        [] \<Rightarrow> Hang (emit (Ev_wfi h) s)
      | f # fs \<Rightarrow> hsm_wait_loop fs h (f (emit (Ev_wfi h) s)))"

definition sbi_hsm_hart_wait ::
  "('a hsm_state_scheme \<Rightarrow> 'a hsm_state_scheme) list \<Rightarrow> nat \<Rightarrow> 'a hsm_state_scheme
     \<Rightarrow> (unit, 'a hsm_state_scheme) flow" where
  "sbi_hsm_hart_wait others h s =
     (let mie = csr_read h CSR_MIE s
      in flow_bind (hsm_wait_loop others h (csr_set h CSR_MIE MIP_MSIP s)) (\<lambda>_ s.
           Ret () (csr_write h CSR_MIE mie s)))"

text \<open>The allocation is 32 bytes: an atomic counter and three words.\<close>

definition sbi_hsm_init ::
  "('a hsm_state_scheme \<Rightarrow> 'a hsm_state_scheme) list \<Rightarrow> nat \<Rightarrow> bool \<Rightarrow> 'a hsm_state_scheme
     \<Rightarrow> (int, 'a hsm_state_scheme) flow" where
  "sbi_hsm_init others h cold_boot s =
     (if cold_boot then
        let (off, s) = sbi_scratch_alloc_offset 32 s; s = s\<lparr>hart_data_offset := off\<rparr> in
        if off = 0 then Ret SBI_ENOMEM s
        else Ret 0 (foldl (\<lambda>s i. if scratch_tab s i
               then set_hstate i (if i = h then SBI_HSM_STATE_START_PENDING else SBI_HSM_STATE_STOPPED) s
               else s) s [0..<last_hartid s + 1])
      else flow_bind (sbi_hsm_hart_wait others h s) (\<lambda>_ s. Ret 0 s))"

definition sbi_init_count :: "nat \<Rightarrow> 'a hsm_state_scheme \<Rightarrow> ulong" where
  "sbi_init_count hartid s =
     (if init_count_offset s = 0 then 0
      else if \<not> scratch_tab s hartid then 0 else init_count s hartid)"

text \<open>A start request is two parts: the checks with the claim of the hart, which ends in the atomic
  exchange of its state, and the stores of the entry point with the wake-up.\<close>

definition hart_start_claim ::
  "sbi_domain option \<Rightarrow> u32 \<Rightarrow> ulong \<Rightarrow> ulong \<Rightarrow> 'a hsm_state_scheme \<Rightarrow> int \<times> 'a hsm_state_scheme" where
  "hart_start_claim dm hartid saddr smode s =
     (if smode \<noteq> PRV_S \<and> smode \<noteq> PRV_U then (SBI_EINVAL, s)
      else if dm \<noteq> None \<and> \<not> sbi_domain_is_assigned_hart dm hartid then (SBI_EINVAL, s)
      else if dm \<noteq> None \<and> \<not> sbi_domain_check_addr dm saddr smode SBI_DOMAIN_EXECUTE s
      then (SBI_EINVALID_ADDR, s)
      else if \<not> scratch_tab s (unat hartid) then (SBI_EINVAL, s)
      else
        let (st, s) = hstate_cmpxchg (unat hartid) SBI_HSM_STATE_STOPPED SBI_HSM_STATE_START_PENDING s
        in if st = SBI_HSM_STATE_STARTED then (SBI_EALREADY, s)
           else if st \<noteq> SBI_HSM_STATE_STOPPED then (SBI_EINVAL, s)
           else (0, s))"

definition hart_start_publish ::
  "nat \<Rightarrow> u32 \<Rightarrow> ulong \<Rightarrow> ulong \<Rightarrow> ulong \<Rightarrow> 'a hsm_state_scheme \<Rightarrow> int \<times> 'a hsm_state_scheme" where
  "hart_start_publish h hartid saddr smode priv s =
     (let count0 = sbi_init_count (unat hartid) s;
          s = set_next (unat hartid) priv saddr smode s
      in if hsm_device_has_hart_hotplug s \<or> hsm_device_has_hart_secondary_boot s \<and> count0 = 0
         then hsm_device_hart_start h hartid (warmboot_addr (scratch s h)) s
         else (0, sbi_ipi_raw_send h hartid s))"

definition sbi_hsm_hart_start ::
  "nat \<Rightarrow> sbi_domain option \<Rightarrow> u32 \<Rightarrow> ulong \<Rightarrow> ulong \<Rightarrow> ulong \<Rightarrow> 'a hsm_state_scheme
     \<Rightarrow> int \<times> 'a hsm_state_scheme" where
  "sbi_hsm_hart_start h dm hartid saddr smode priv s =
     (let (r, s) = hart_start_claim dm hartid saddr smode s
      in if r \<noteq> 0 then (r, s) else hart_start_publish h hartid saddr smode priv s)"

section \<open>Stopping\<close>

text \<open>\<open>exit\<close> is \<^verbatim>\<open>sbi_exit()\<close>, which comes back to this component through \<open>sbi_hsm_exit\<close>; the two
  are tied together in \<^verbatim>\<open>Sbi_Init\<close>.\<close>

definition sbi_hsm_hart_stop ::
  "(nat \<Rightarrow> 'a hsm_state_scheme \<Rightarrow> (unit, 'a hsm_state_scheme) flow) \<Rightarrow> nat \<Rightarrow> bool
     \<Rightarrow> 'a hsm_state_scheme \<Rightarrow> (int, 'a hsm_state_scheme) flow" where
  "sbi_hsm_hart_stop exit h exitnow s =
     (case sbi_domain_thishart h s of
        None \<Rightarrow> Ret SBI_EFAIL s
      | Some _ \<Rightarrow>
          (let (oldstate, s) = hstate_cmpxchg h SBI_HSM_STATE_STARTED SBI_HSM_STATE_STOP_PENDING s
           in if oldstate \<noteq> SBI_HSM_STATE_STARTED then Ret SBI_EFAIL s
              else if exitnow then flow_bind (exit h s) (\<lambda>_ s. Ret 0 s)
              else Ret 0 s))"

definition sbi_hsm_exit :: "nat \<Rightarrow> 'a hsm_state_scheme \<Rightarrow> (unit, 'a hsm_state_scheme) flow" where
  "sbi_hsm_exit h s =
     (let (oldstate, s) = hstate_cmpxchg h SBI_HSM_STATE_STOP_PENDING SBI_HSM_STATE_STOPPED s
      in if oldstate \<noteq> SBI_HSM_STATE_STOP_PENDING then Hang s
         else if hsm_device_has_hart_hotplug s then
           flow_bind (hsm_device_hart_stop h s) (\<lambda>_ s. Hang s)
         else Warmboot s)"

section \<open>Suspending and resuming\<close>

definition hsm_suspend_ret_default :: "nat \<Rightarrow> 'a hsm_state_scheme \<Rightarrow> (int, 'a hsm_state_scheme) flow"
where
  "hsm_suspend_ret_default h s = Ret 0 (emit (Ev_wfi h) s)"

definition hsm_suspend_non_ret_save :: "nat \<Rightarrow> 'a hsm_state_scheme \<Rightarrow> 'a hsm_state_scheme" where
  "hsm_suspend_non_ret_save h s =
     s\<lparr>hsm_data := (hsm_data s)(h := (hsm_data s h)
        \<lparr>saved_mie := csr_read h CSR_MIE s,
         saved_mip := csr_read h CSR_MIP s AND (MIP_SSIP OR MIP_STIP)\<rparr>)\<rparr>"

definition hsm_suspend_non_ret_restore :: "nat \<Rightarrow> 'a hsm_state_scheme \<Rightarrow> 'a hsm_state_scheme" where
  "hsm_suspend_non_ret_restore h s =
     (let s = csr_write h CSR_MIE (saved_mie (hsm_data s h)) s
      in csr_write h CSR_MIP (saved_mip (hsm_data s h) AND (MIP_SSIP OR MIP_STIP)) s)"

definition hsm_suspend_non_ret_default ::
  "nat \<Rightarrow> 'a hsm_state_scheme \<Rightarrow> (int, 'a hsm_state_scheme) flow" where
  "hsm_suspend_non_ret_default h s = Warmboot (emit (Ev_wfi h) s)"

definition sbi_hsm_hart_resume_start ::
  "nat \<Rightarrow> 'a hsm_state_scheme \<Rightarrow> (unit, 'a hsm_state_scheme) flow" where
  "sbi_hsm_hart_resume_start h s =
     (let (oldstate, s) = hstate_cmpxchg h SBI_HSM_STATE_SUSPENDED SBI_HSM_STATE_RESUME_PENDING s
      in if oldstate \<noteq> SBI_HSM_STATE_SUSPENDED then Hang s else Ret () s)"

definition sbi_hsm_hart_resume_finish ::
  "nat \<Rightarrow> 'a hsm_state_scheme \<Rightarrow> (unit, 'a hsm_state_scheme) flow" where
  "sbi_hsm_hart_resume_finish h s =
     (let (oldstate, s) = hstate_cmpxchg h SBI_HSM_STATE_RESUME_PENDING SBI_HSM_STATE_STARTED s
      in if oldstate \<noteq> SBI_HSM_STATE_RESUME_PENDING then Hang s
         else Ret () (hsm_suspend_non_ret_restore h s))"

text \<open>The suspend call in three parts: the checks, the way into the SUSPENDED state, and what
  follows the label \<^verbatim>\<open>fail_restore_state\<close>.\<close>

definition suspend_check ::
  "sbi_domain option \<Rightarrow> u32 \<Rightarrow> ulong \<Rightarrow> ulong \<Rightarrow> 'a hsm_state_scheme \<Rightarrow> int" where
  "suspend_check dm stype raddr rmode s =
     (if dm = None then SBI_EINVAL
      else if SBI_HSM_SUSPEND_RET_DEFAULT < stype \<and> stype < SBI_HSM_SUSPEND_RET_PLATFORM
      then SBI_EINVAL
      else if SBI_HSM_SUSPEND_NON_RET_DEFAULT < stype \<and> stype < SBI_HSM_SUSPEND_NON_RET_PLATFORM
      then SBI_EINVAL
      else if stype AND SBI_HSM_SUSP_NON_RET_BIT \<noteq> 0 then
        (if rmode \<noteq> PRV_S \<and> rmode \<noteq> PRV_U then SBI_EINVAL
         else if \<not> sbi_domain_check_addr dm raddr rmode SBI_DOMAIN_EXECUTE s then SBI_EINVALID_ADDR
         else 0)
      else 0)"

definition suspend_restore ::
  "nat \<Rightarrow> int \<Rightarrow> 'a hsm_state_scheme \<Rightarrow> (int, 'a hsm_state_scheme) flow" where
  "suspend_restore h ret s =
     (let (oldstate, s) = hstate_cmpxchg h SBI_HSM_STATE_SUSPENDED SBI_HSM_STATE_STARTED s
      in if oldstate \<noteq> SBI_HSM_STATE_SUSPENDED then Hang s else Ret ret s)"

definition suspend_sleep ::
  "nat \<Rightarrow> u32 \<Rightarrow> 'a hsm_state_scheme \<Rightarrow> (int, 'a hsm_state_scheme) flow" where
  "suspend_sleep h stype s =
     (let s = s\<lparr>hsm_data := (hsm_data s)(h := (hsm_data s h)\<lparr>suspend_type := ucast stype\<rparr>)\<rparr>;
          s = (if stype AND SBI_HSM_SUSP_NON_RET_BIT \<noteq> 0 then hsm_suspend_non_ret_save h s else s)
      in flow_bind (hsm_device_hart_suspend h stype (warmboot_addr (scratch s h)) s) (\<lambda>ret s.
           if ret = SBI_ENOTSUPP then
             (if stype = SBI_HSM_SUSPEND_RET_DEFAULT then hsm_suspend_ret_default h s
              else if stype = SBI_HSM_SUSPEND_NON_RET_DEFAULT then hsm_suspend_non_ret_default h s
              else Ret ret s)
           else Ret ret s))"

definition sbi_hsm_hart_suspend ::
  "nat \<Rightarrow> u32 \<Rightarrow> ulong \<Rightarrow> ulong \<Rightarrow> ulong \<Rightarrow> 'a hsm_state_scheme \<Rightarrow> (int, 'a hsm_state_scheme) flow"
where
  "sbi_hsm_hart_suspend h stype raddr rmode priv s =
     (let chk = suspend_check (sbi_domain_thishart h s) stype raddr rmode s in
      if chk \<noteq> 0 then Ret chk s
      else
        let s = set_next h priv raddr rmode s;
            (oldstate, s) = hstate_cmpxchg h SBI_HSM_STATE_STARTED SBI_HSM_STATE_SUSPENDED s
        in if oldstate \<noteq> SBI_HSM_STATE_STARTED then suspend_restore h SBI_EDENIED s
           else flow_bind (suspend_sleep h stype s) (suspend_restore h))"

section \<open>The state of every hart\<close>

abbreviation (input) hst :: "nat \<Rightarrow> 'a hsm_state_scheme \<Rightarrow> int" where
  "hst h s \<equiv> hstate (hsm_data s h)"

lemma hstate_cmpxchg_fst [simp]: "fst (hstate_cmpxchg h a b s) = hst h s"
  by (simp add: hstate_cmpxchg_def)

lemma hst_cmpxchg [simp]:
  "hst h' (snd (hstate_cmpxchg h a b s)) = (if h' = h \<and> hst h s = a then b else hst h' s)"
  by (simp add: hstate_cmpxchg_def set_hstate_def)

lemma hst_frame [simp]:
  "hsm_data (emit e s) = hsm_data s"
  "hsm_data (csr_write h n v s) = hsm_data s"
  "hsm_data (set_next h a b m s) = hsm_data s"
  "hst h' (set_hstate h st s) = (if h' = h then st else hst h' s)"
  by (simp_all add: emit_def csr_write_def set_next_def set_hstate_def)

lemma sbi_ipi_raw_send_frame [simp]: "hsm_data (sbi_ipi_raw_send h t s) = hsm_data s"
  by (simp add: sbi_ipi_raw_send_def split: option.splits)

section \<open>A small state for concrete runs\<close>

definition hsm0 :: hsm_state where
  "hsm0 = pmu_state.extend pmu0
     \<lparr>ipi_dev = Some \<lparr>ipi_send_fn = True, ipi_clear_fn = True\<rparr>, hsm_dev = None,
      hart_data_offset = 96,
      hsm_data = (\<lambda>h. \<lparr>hstate = (if h = 0 then 0 else 1), suspend_type = 0, saved_mie = 0, saved_mip = 0\<rparr>),
      init_count_offset = 88, init_count = (\<lambda>h. if h = 0 then 1 else 0)\<rparr>"

lemmas hsm0_defs = pmu0_defs hsm0_def hsm_state.defs

end
