(* ===== verification/Sbi_Hsm_Steps.thy ===== *)
theory Sbi_Hsm_Steps
  imports Sbi_Hsm
begin

text \<open>
  All harts at once: a step relation whose steps are the atomic pieces of the operations of
  \<^verbatim>\<open>sbi_hsm.c\<close>, in any order. Where a hart is in the code is its location; the entry point a hart
  jumps to is recorded when it reads it. In every reachable state the location and the state word
  of a hart agree, so no hart ever runs into the invalid state branches of the operations. The
  last section shows the one thing the state words do not protect, the entry point of a start.
\<close>

section \<open>Locations and steps\<close>

datatype hloc =
    Warm_boot
  | Booting
  | Super
  | Starting u32 ulong ulong ulong
  | Exiting
  | Sleeping u32
  | Resuming

record hsm_sys =
  mach :: hsm_state
  loc :: "nat \<Rightarrow> hloc"
  entered :: "nat \<Rightarrow> (ulong \<times> ulong \<times> ulong) option"

definition goto :: "nat \<Rightarrow> hloc \<Rightarrow> hsm_state \<Rightarrow> hsm_sys \<Rightarrow> hsm_sys" where
  "goto h l m y = y\<lparr>mach := m, loc := (loc y)(h := l)\<rparr>"

definition enter :: "nat \<Rightarrow> hsm_sys \<Rightarrow> hsm_sys" where
  "enter h y = (let sc = scratch (mach y) h
    in y\<lparr>entered := (entered y)(h \<mapsto> (next_arg1 sc, next_addr sc, next_mode sc))\<rparr>)"

inductive hsm_step :: "hsm_sys \<Rightarrow> hsm_sys \<Rightarrow> bool" where
  Start_claim: "scratch_tab (mach y) h \<Longrightarrow> loc y h = Super \<Longrightarrow>
    hart_start_claim (sbi_domain_thishart h (mach y)) t saddr smode (mach y) = (0, m) \<Longrightarrow>
    hsm_step y (goto h (Starting t saddr smode priv) m y)"
| Start_refused: "scratch_tab (mach y) h \<Longrightarrow> loc y h = Super \<Longrightarrow>
    hart_start_claim (sbi_domain_thishart h (mach y)) t saddr smode (mach y) = (r, m) \<Longrightarrow> r \<noteq> 0 \<Longrightarrow>
    hsm_step y (goto h Super m y)"
| Start_publish: "scratch_tab (mach y) h \<Longrightarrow> loc y h = Starting t saddr smode priv \<Longrightarrow>
    hart_start_publish h t saddr smode priv (mach y) = (r, m) \<Longrightarrow>
    hsm_step y (goto h Super m y)"
| Wake: "scratch_tab (mach y) h \<Longrightarrow> loc y h = Warm_boot \<Longrightarrow>
    hst h (mach y) = SBI_HSM_STATE_START_PENDING \<Longrightarrow>
    hsm_step y (goto h Booting (mach y) y)"
| Jump: "scratch_tab (mach y) h \<Longrightarrow> loc y h = Booting \<Longrightarrow>
    sbi_hsm_prepare_next_jump h (mach y) = Ret () m \<Longrightarrow>
    hsm_step y (enter h (goto h Super m y))"
| Stop: "scratch_tab (mach y) h \<Longrightarrow> loc y h = Super \<Longrightarrow>
    sbi_hsm_hart_stop (\<lambda>h s. Gone s) h True (mach y) = Gone m \<Longrightarrow>
    hsm_step y (goto h Exiting m y)"
| Exit: "scratch_tab (mach y) h \<Longrightarrow> loc y h = Exiting \<Longrightarrow>
    sbi_hsm_exit h (mach y) \<in> {Warmboot m, Gone m} \<Longrightarrow>
    hsm_step y (goto h Warm_boot m y)"
| Suspend: "scratch_tab (mach y) h \<Longrightarrow> loc y h = Super \<Longrightarrow>
    suspend_check (sbi_domain_thishart h (mach y)) stype raddr rmode (mach y) = 0 \<Longrightarrow>
    hstate_cmpxchg h SBI_HSM_STATE_STARTED SBI_HSM_STATE_SUSPENDED
      (set_next h priv raddr rmode (mach y)) = (SBI_HSM_STATE_STARTED, m) \<Longrightarrow>
    hsm_step y (goto h (Sleeping stype) (flow_state (suspend_sleep h stype m)) y)"
| Suspend_return: "scratch_tab (mach y) h \<Longrightarrow> loc y h = Sleeping stype \<Longrightarrow>
    suspend_restore h r (mach y) = Ret r m \<Longrightarrow>
    hsm_step y (goto h Super m y)"
| Suspend_warm: "scratch_tab (mach y) h \<Longrightarrow> loc y h = Sleeping stype \<Longrightarrow>
    stype AND SBI_HSM_SUSP_NON_RET_BIT \<noteq> 0 \<Longrightarrow>
    hsm_step y (goto h Warm_boot (mach y) y)"
| Resume: "scratch_tab (mach y) h \<Longrightarrow> loc y h = Warm_boot \<Longrightarrow>
    hst h (mach y) = SBI_HSM_STATE_SUSPENDED \<Longrightarrow>
    sbi_hsm_hart_resume_start h (mach y) = Ret () m \<Longrightarrow>
    hsm_step y (goto h Resuming m y)"
| Resume_finish: "scratch_tab (mach y) h \<Longrightarrow> loc y h = Resuming \<Longrightarrow>
    sbi_hsm_hart_resume_finish h (mach y) = Ret () m \<Longrightarrow>
    hsm_step y (enter h (goto h Super m y))"
| Other: "hsm_data m = hsm_data (mach y) \<Longrightarrow> scratch_tab m = scratch_tab (mach y) \<Longrightarrow>
    hsm_step y (y\<lparr>mach := m\<rparr>)"

text \<open>The system after the cold boot of hart \<open>b\<close> has set up the states.\<close>

inductive hsm_reachable :: "hsm_sys \<Rightarrow> bool" where
  Init: "sbi_hsm_init [] b True s = Ret 0 m \<Longrightarrow> (\<And>h. scratch_tab s h \<Longrightarrow> h \<le> last_hartid s) \<Longrightarrow>
    hsm_reachable \<lparr>mach = m, loc = (\<lambda>h. if h = b then Booting else Warm_boot), entered = (\<lambda>_. None)\<rparr>"
| Step: "hsm_reachable y \<Longrightarrow> hsm_step y y' \<Longrightarrow> hsm_reachable y'"

inductive_cases hsm_reachableE: "hsm_reachable y"

section \<open>Locations and state words agree\<close>

fun agree :: "hloc \<Rightarrow> int \<Rightarrow> bool" where
  "agree Warm_boot st = (st \<in> {SBI_HSM_STATE_STOPPED, SBI_HSM_STATE_START_PENDING, SBI_HSM_STATE_SUSPENDED})"
| "agree Booting st = (st = SBI_HSM_STATE_START_PENDING)"
| "agree Super st = (st = SBI_HSM_STATE_STARTED)"
| "agree (Starting t saddr smode priv) st = (st = SBI_HSM_STATE_STARTED)"
| "agree Exiting st = (st = SBI_HSM_STATE_STOP_PENDING)"
| "agree (Sleeping stype) st = (st = SBI_HSM_STATE_SUSPENDED)"
| "agree Resuming st = (st = SBI_HSM_STATE_RESUME_PENDING)"

definition sys_ok :: "hsm_sys \<Rightarrow> bool" where
  "sys_ok y \<longleftrightarrow> (\<forall>h. scratch_tab (mach y) h \<longrightarrow> agree (loc y h) (hst h (mach y)))"

lemma sys_ok_at: "sys_ok y \<Longrightarrow> scratch_tab (mach y) h \<Longrightarrow> agree (loc y h) (hst h (mach y))"
  by (simp add: sys_ok_def)

lemma stopped_waits: "agree l SBI_HSM_STATE_STOPPED \<Longrightarrow> l = Warm_boot"
  by (cases l) simp_all

text \<open>What the pieces do to the state words and to the table of harts.\<close>

definition hsm_update :: "nat \<Rightarrow> int \<Rightarrow> hsm_state \<Rightarrow> hsm_state \<Rightarrow> bool" where
  "hsm_update h st s s' \<longleftrightarrow>
     (\<forall>h'. hst h' s' = (if h' = h then st else hst h' s)) \<and> scratch_tab s' = scratch_tab s"

lemma scratch_tab_frame [simp]:
  "scratch_tab (set_hstate h st s) = scratch_tab s"
  "scratch_tab (emit e s) = scratch_tab s"
  "scratch_tab (csr_write h n v s) = scratch_tab s"
  "scratch_tab (set_next h a b m s) = scratch_tab s"
  by (simp_all add: set_hstate_def emit_def csr_write_def set_next_def)

lemma goto_ok:
  assumes "sys_ok y" "hsm_update h st (mach y) m" "agree l st"
  shows "sys_ok (goto h l m y)"
  using assms by (auto simp: sys_ok_def goto_def hsm_update_def)

lemma enter_ok [simp]: "sys_ok (enter h y) = sys_ok y"
  by (simp add: sys_ok_def enter_def Let_def)

lemmas cmpxchg_defs = hstate_cmpxchg_def set_hstate_def

lemma claim_update:
  assumes "hart_start_claim dm t saddr smode s = (r, m)"
  shows "r \<noteq> 0 \<Longrightarrow> m = s"
    and "r = 0 \<Longrightarrow> hst (unat t) s = SBI_HSM_STATE_STOPPED \<and> scratch_tab s (unat t)
        \<and> hsm_update (unat t) SBI_HSM_STATE_START_PENDING s m"
  using assms
  by (auto simp: hart_start_claim_def hstate_cmpxchg_def hsm_update_def split: if_splits)

lemma publish_update:
  assumes "hart_start_publish h t saddr smode priv s = (r, m)"
  shows "hsm_data m = hsm_data s" "scratch_tab m = scratch_tab s"
  using assms
  by (auto simp: hart_start_publish_def Let_def hsm_device_hart_start_def sbi_ipi_raw_send_def
      split: if_splits option.splits)

lemma jump_update:
  "sbi_hsm_prepare_next_jump h s = Ret () m \<Longrightarrow> hsm_update h SBI_HSM_STATE_STARTED s m"
  "sbi_hsm_hart_resume_start h s = Ret () m \<Longrightarrow> hsm_update h SBI_HSM_STATE_RESUME_PENDING s m"
  "suspend_restore h r s = Ret r m \<Longrightarrow> hsm_update h SBI_HSM_STATE_STARTED s m"
  by (auto simp: sbi_hsm_prepare_next_jump_def sbi_hsm_hart_resume_start_def suspend_restore_def
      hstate_cmpxchg_def hsm_update_def split: if_splits)

lemma resume_finish_update:
  "sbi_hsm_hart_resume_finish h s = Ret () m \<Longrightarrow> hsm_update h SBI_HSM_STATE_STARTED s m"
  by (auto simp: sbi_hsm_hart_resume_finish_def hsm_suspend_non_ret_restore_def Let_def
      hstate_cmpxchg_def hsm_update_def split: if_splits)

lemma stop_update:
  "sbi_hsm_hart_stop (\<lambda>h s. Gone s) h True s = Gone m \<Longrightarrow>
   hsm_update h SBI_HSM_STATE_STOP_PENDING s m"
  by (auto simp: sbi_hsm_hart_stop_def hstate_cmpxchg_def hsm_update_def split: if_splits option.splits)

lemma exit_update:
  "sbi_hsm_exit h s \<in> {Warmboot m, Gone m} \<Longrightarrow> hsm_update h SBI_HSM_STATE_STOPPED s m"
  by (auto simp: sbi_hsm_exit_def hstate_cmpxchg_def hsm_device_hart_stop_def hsm_update_def
      split: if_splits option.splits)

lemma device_suspend_frame:
  "hsm_data (flow_state (hsm_device_hart_suspend h stype w u)) = hsm_data u"
  "scratch_tab (flow_state (hsm_device_hart_suspend h stype w u)) = scratch_tab u"
  by (simp_all add: hsm_device_hart_suspend_def Let_def split: option.splits)

lemma sleep_frame:
  "hst h' (flow_state (suspend_sleep h stype s)) = hst h' s"
  "scratch_tab (flow_state (suspend_sleep h stype s)) = scratch_tab s"
proof -
  let ?t = "s\<lparr>hsm_data := (hsm_data s)(h := (hsm_data s h)\<lparr>suspend_type := ucast stype\<rparr>)\<rparr>"
  let ?u = "if stype AND SBI_HSM_SUSP_NON_RET_BIT \<noteq> 0 then hsm_suspend_non_ret_save h ?t else ?t"
  have u: "hst h' ?u = hst h' s" "scratch_tab ?u = scratch_tab s"
    by (simp_all add: hsm_suspend_non_ret_save_def)
  let ?I = "\<lambda>x :: 'a hsm_state_scheme. hst h' x = hst h' s \<and> scratch_tab x = scratch_tab s"
  have "?I (flow_state (hsm_device_hart_suspend h stype w ?u))" for w
    unfolding device_suspend_frame using u by blast
  then have "?I (flow_state (suspend_sleep h stype s))"
    unfolding suspend_sleep_def Let_def
    by (rule flow_bind_state [where I = ?I])
      (simp add: hsm_suspend_ret_default_def hsm_suspend_non_ret_default_def)
  then show "hst h' (flow_state (suspend_sleep h stype s)) = hst h' s"
    "scratch_tab (flow_state (suspend_sleep h stype s)) = scratch_tab s" by simp_all
qed

lemma suspend_update:
  assumes "hstate_cmpxchg h SBI_HSM_STATE_STARTED SBI_HSM_STATE_SUSPENDED
      (set_next h priv raddr rmode s) = (SBI_HSM_STATE_STARTED, m)"
  shows "hsm_update h SBI_HSM_STATE_SUSPENDED s (flow_state (suspend_sleep h stype m))"
  using assms
  by (auto simp: hsm_update_def sleep_frame hstate_cmpxchg_def split: if_splits)

lemma hsm_step_ok:
  assumes "hsm_step y y'" "sys_ok y"
  shows "sys_ok y'"
  using assms
proof (induction rule: hsm_step.induct)
  case (Start_claim y h t saddr smode m priv)
  note c = claim_update(2) [OF Start_claim(3) refl]
  then have "loc y (unat t) = Warm_boot"
    using sys_ok_at [OF Start_claim(4), of "unat t"] stopped_waits by metis
  then have "unat t \<noteq> h" and l: "(loc y)(unat t := Warm_boot) = loc y" using Start_claim(2) by auto
  have "sys_ok (goto (unat t) Warm_boot m y)"
    using goto_ok [OF Start_claim(4), of "unat t" SBI_HSM_STATE_START_PENDING m Warm_boot] c by simp
  then have "sys_ok (y\<lparr>mach := m\<rparr>)" using l by (simp add: goto_def)
  moreover have "hst h m = SBI_HSM_STATE_STARTED"
    using c sys_ok_at [OF Start_claim(4,1)] Start_claim(2) \<open>unat t \<noteq> h\<close> by (simp add: hsm_update_def)
  ultimately show ?case by (auto simp: sys_ok_def goto_def)
next
  case (Start_refused y h t saddr smode r m)
  then have "m = mach y" "(loc y)(h := Super) = loc y" using claim_update(1) by auto
  then show ?case using Start_refused by (simp add: goto_def)
next
  case (Start_publish y h t saddr smode priv r m)
  have "hsm_update h SBI_HSM_STATE_STARTED (mach y) m"
    using publish_update [OF Start_publish(3)] sys_ok_at [OF Start_publish(4,1)] Start_publish(2)
    by (simp add: hsm_update_def)
  from goto_ok [OF Start_publish(4) this] show ?case by simp
next
  case (Wake y h)
  then have "hsm_update h SBI_HSM_STATE_START_PENDING (mach y) (mach y)" by (simp add: hsm_update_def)
  from goto_ok [OF Wake(4) this] show ?case by simp
next
  case (Jump y h m)
  then show ?case using goto_ok [OF _ jump_update(1)] by simp
next
  case (Stop y h m)
  then show ?case using goto_ok [OF _ stop_update] by simp
next
  case (Exit y h m)
  then show ?case using goto_ok [OF _ exit_update] by simp
next
  case (Suspend y h stype raddr rmode priv m)
  then show ?case using goto_ok [OF _ suspend_update] by simp
next
  case (Suspend_return y h stype r m)
  then show ?case using goto_ok [OF _ jump_update(3)] by simp
next
  case (Suspend_warm y h stype)
  then have "hsm_update h SBI_HSM_STATE_SUSPENDED (mach y) (mach y)"
    using sys_ok_at [OF Suspend_warm(4,1)] by (simp add: hsm_update_def)
  from goto_ok [OF Suspend_warm(4) this] show ?case by simp
next
  case (Resume y h m)
  then show ?case using goto_ok [OF _ jump_update(2)] by simp
next
  case (Resume_finish y h m)
  then show ?case using goto_ok [OF _ resume_finish_update] by simp
next
  case (Other m y)
  then show ?case by (simp add: sys_ok_def)
qed

lemma init_states_step:
  "hst h' (foldl (\<lambda>s i. if scratch_tab s i then set_hstate i (f i) s else s) s js) =
     (if h' \<in> set js \<and> scratch_tab s h' then f h' else hst h' s)
   \<and> scratch_tab (foldl (\<lambda>s i. if scratch_tab s i then set_hstate i (f i) s else s) s js) = scratch_tab s"
  by (induction js arbitrary: s) auto

lemma alloc_scratch_tab:
  "scratch_tab (snd (sbi_scratch_alloc_offset n s)) = scratch_tab s"
  "last_hartid (snd (sbi_scratch_alloc_offset n s)) = last_hartid s"
proof -
  obtain e m where "snd (sbi_scratch_alloc_offset n s) = s\<lparr>extra_offset := e, scratch_mem := m\<rparr>"
    using scratch_alloc_update by blast
  then show "scratch_tab (snd (sbi_scratch_alloc_offset n s)) = scratch_tab s"
    "last_hartid (snd (sbi_scratch_alloc_offset n s)) = last_hartid s" by simp_all
qed

definition init_hstates ::
  "nat \<Rightarrow> nat list \<Rightarrow> 'a hsm_state_scheme \<Rightarrow> 'a hsm_state_scheme" where
  "init_hstates b js s = foldl (\<lambda>s i. if scratch_tab s i
     then set_hstate i (if i = b then SBI_HSM_STATE_START_PENDING else SBI_HSM_STATE_STOPPED) s
     else s) s js"

lemma hsm_init_result:
  assumes "sbi_hsm_init [] b True s = Ret 0 m"
  obtains t where "m = init_hstates b [0..<last_hartid s + 1] t" "scratch_tab t = scratch_tab s"
proof -
  obtain off t where o: "sbi_scratch_alloc_offset 32 s = (off, t)" by fastforce
  then have t: "scratch_tab t = scratch_tab s" "last_hartid t = last_hartid s"
    using alloc_scratch_tab [of 32 s] by auto
  have "m = init_hstates b [0..<last_hartid s + 1] (t\<lparr>hart_data_offset := off\<rparr>)"
    using assms t by (simp add: sbi_hsm_init_def init_hstates_def o Let_def del: upt_Suc split: if_splits)
  then show thesis using that t by simp
qed

lemma hsm_init_ok:
  assumes "sbi_hsm_init [] b True s = Ret 0 m" "\<And>h. scratch_tab s h \<Longrightarrow> h \<le> last_hartid s"
    and "scratch_tab m h"
  shows "hst h m = (if h = b then SBI_HSM_STATE_START_PENDING else SBI_HSM_STATE_STOPPED)"
proof -
  obtain t where m: "m = init_hstates b [0..<last_hartid s + 1] t" "scratch_tab t = scratch_tab s"
    by (rule hsm_init_result [OF assms(1)])
  note i = init_states_step [where h' = h and f = "\<lambda>i. if i = b then 2 else 1" and s = t
    and js = "[0..<last_hartid s + 1]"]
  have "scratch_tab s h" using assms(3) m i by (simp add: init_hstates_def del: upt_Suc)
  then have "h \<in> set [0..<last_hartid s + 1]" using assms(2) [of h] by (simp add: less_Suc_eq_le del: upt_Suc)
  then show ?thesis using i m \<open>scratch_tab s h\<close> by (simp add: init_hstates_def del: upt_Suc)
qed

lemma hsm_init_scratch_tab:
  assumes "sbi_hsm_init [] b True s = Ret 0 m"
  shows "scratch_tab m = scratch_tab s"
proof -
  obtain t where m: "m = init_hstates b [0..<last_hartid s + 1] t" "scratch_tab t = scratch_tab s"
    by (rule hsm_init_result [OF assms(1)])
  then show ?thesis
    using init_states_step [where f = "\<lambda>i. if i = b then 2 else 1" and s = t
      and js = "[0..<last_hartid s + 1]"]
    by (simp add: init_hstates_def del: upt_Suc)
qed

lemma hsm_reachable_ok: "hsm_reachable y \<Longrightarrow> sys_ok y"
proof (induction rule: hsm_reachable.induct)
  case (Init b s m)
  then show ?case using hsm_init_ok [OF Init] by (simp add: sys_ok_def)
next
  case (Step y y')
  then show ?case using hsm_step_ok by blast
qed

section \<open>Properties\<close>

text \<open>A concrete run: the cold boot of hart 0, its jump to the next stage.\<close>

definition hsm_boot :: hsm_state where
  "hsm_boot = flow_state (sbi_hsm_init [] 0 True hsm0)"

definition sys0 :: hsm_sys where
  "sys0 = \<lparr>mach = hsm_boot, loc = (\<lambda>h. if h = 0 then Booting else Warm_boot), entered = (\<lambda>_. None)\<rparr>"

definition sys1 :: hsm_sys where
  "sys1 = enter 0 (goto 0 Super (flow_state (sbi_hsm_prepare_next_jump 0 hsm_boot)) sys0)"

lemma hsm0_scratch [simp]: "scratch_tab hsm0 h \<longleftrightarrow> h < 4" "last_hartid hsm0 = 3"
  by (simp_all add: hsm0_defs)

lemma hsm_boot_init: "sbi_hsm_init [] 0 True hsm0 = Ret 0 hsm_boot"
proof -
  have "case sbi_hsm_init [] 0 True hsm0 of Ret r _ \<Rightarrow> r = 0 | _ \<Rightarrow> False" by code_simp
  then show ?thesis by (auto simp: hsm_boot_def split: flow.splits)
qed

lemma hsm_boot_scratch [simp]: "scratch_tab hsm_boot h \<longleftrightarrow> h < 4"
  using hsm_init_scratch_tab [OF hsm_boot_init] by simp

lemma sys0_reachable: "hsm_reachable sys0"
  unfolding sys0_def by (rule hsm_reachable.Init [OF hsm_boot_init]) simp

lemma sys0_states: "h < 4 \<Longrightarrow> hst h hsm_boot = (if h = 0 then 2 else 1)"
  using hsm_init_ok [OF hsm_boot_init] by simp

lemma sys1_step: "hsm_step sys0 sys1"
  unfolding sys1_def
  by (rule hsm_step.Jump) (simp_all add: sys0_def sys0_states sbi_hsm_prepare_next_jump_def hstate_cmpxchg_def)

lemma sys1_reachable: "hsm_reachable sys1"
  by (rule hsm_reachable.Step [OF sys0_reachable sys1_step])

text \<open>C10. In every reachable state of the system, whatever the harts do and in whatever order, the
  state word of each hart is the one its location calls for: a hart in supervisor code is STARTED,
  one that waits to boot is STOPPED, START_PENDING or SUSPENDED, one that leaves is STOP_PENDING,
  and so on.\<close>

theorem hsm_state_matches_location:
  assumes "hsm_reachable y" "scratch_tab (mach y) h"
  shows "agree (loc y h) (hstate (hsm_data (mach y) h))"
  using hsm_reachable_ok [OF assms(1)] assms(2) by (rule sys_ok_at)

corollary hsm_state_matches_location_witness:
  "agree (loc sys1 0) (hstate (hsm_data (mach sys1) 0))"
  by (rule hsm_state_matches_location [OF sys1_reachable])
    (simp add: sys1_def enter_def goto_def Let_def sbi_hsm_prepare_next_jump_def hstate_cmpxchg_def
      sys0_states)

text \<open>No hart ever finds its state word invalid: at every location the operation that runs there
  takes its regular branch, and none of the calls of \<^verbatim>\<open>sbi_hart_hang()\<close> behind the state checks
  is reached.\<close>

theorem hsm_never_invalid:
  assumes "hsm_reachable y" "scratch_tab (mach y) h"
  shows "case loc y h of
      Booting \<Rightarrow> returns (sbi_hsm_prepare_next_jump h (mach y))
    | Super \<Rightarrow> sbi_hsm_hart_stop (\<lambda>h s. Gone s) h True (mach y) =
        (if sbi_domain_thishart h (mach y) = None then Ret SBI_EFAIL (mach y)
         else Gone (set_hstate h SBI_HSM_STATE_STOP_PENDING (mach y)))
    | Exiting \<Rightarrow> sbi_hsm_exit h (mach y) =
        (let s = set_hstate h SBI_HSM_STATE_STOPPED (mach y)
         in if hsm_device_has_hart_hotplug s then flow_bind (hsm_device_hart_stop h s) (\<lambda>_ s. Hang s)
            else Warmboot s)
    | Sleeping stype \<Rightarrow> returns (suspend_restore h r (mach y))
    | Resuming \<Rightarrow> returns (sbi_hsm_hart_resume_finish h (mach y))
    | _ \<Rightarrow> True"
  using sys_ok_at [OF hsm_reachable_ok [OF assms(1)] assms(2)]
  by (auto simp: sbi_hsm_prepare_next_jump_def sbi_hsm_exit_def suspend_restore_def
      sbi_hsm_hart_resume_finish_def sbi_hsm_hart_stop_def hstate_cmpxchg_def Let_def
      split: hloc.splits option.splits)

corollary hsm_never_invalid_witness:
  "returns (sbi_hsm_prepare_next_jump 0 (mach sys0))"
  using hsm_never_invalid [OF sys0_reachable, of 0] by (simp add: sys0_def)

section \<open>The entry point of a start\<close>

definition sys2 :: hsm_sys where
  "sys2 = goto 0 (Starting 1 0x80400000 1 0)
     (snd (hart_start_claim (sbi_domain_thishart 0 (mach sys1)) 1 0x80400000 1 (mach sys1))) sys1"

definition sys3 :: hsm_sys where
  "sys3 = goto 1 Booting (mach sys2) sys2"

definition sys4 :: hsm_sys where
  "sys4 = enter 1 (goto 1 Super (flow_state (sbi_hsm_prepare_next_jump 1 (mach sys3))) sys3)"

text \<open>
  \<^verbatim>\<open>sbi_hsm_hart_start\<close> publishes START_PENDING before it stores the entry point. A hart that is
  woken in between (it polls its state word after every \<^verbatim>\<open>wfi\<close>) jumps to the old entry point.
\<close>

lemma sys1_mach:
  "mach sys1 = set_hstate 0 0 hsm_boot" "loc sys1 = (\<lambda>h. if h = 0 then Super else Warm_boot)"
  by (auto simp: sys1_def enter_def goto_def Let_def sys0_def sbi_hsm_prepare_next_jump_def
      hstate_cmpxchg_def sys0_states)

lemma sys2_step: "hsm_step sys1 sys2"
proof -
  let ?s = "set_hstate 0 0 hsm_boot"
  have "fst (hart_start_claim (sbi_domain_thishart 0 ?s) 1 0x80400000 1 ?s) = 0" by code_simp
  then show ?thesis
    unfolding sys2_def by (intro hsm_step.Start_claim) (simp_all add: sys1_mach prod_eq_iff)
qed

lemma sys2_mach: "hst 1 (mach sys2) = SBI_HSM_STATE_START_PENDING" "scratch_tab (mach sys2) 1"
  "scratch (mach sys2) 1 = scratch hsm_boot 1"
proof -
  let ?s = "set_hstate 0 0 hsm_boot"
  have c: "fst (hart_start_claim (sbi_domain_thishart 0 ?s) 1 0x80400000 1 ?s) = 0" by code_simp
  obtain m where m: "hart_start_claim (sbi_domain_thishart 0 ?s) 1 0x80400000 1 ?s = (0, m)"
    using c by (metis prod.collapse)
  have "scratch m = scratch hsm_boot"
    using m by (auto simp: hart_start_claim_def hstate_cmpxchg_def set_hstate_def split: if_splits)
  then show "hst 1 (mach sys2) = SBI_HSM_STATE_START_PENDING" "scratch_tab (mach sys2) 1"
    "scratch (mach sys2) 1 = scratch hsm_boot 1"
    using claim_update(2) [OF m refl] by (simp_all add: sys2_def goto_def sys1_mach m hsm_update_def)
qed

lemma hsm_boot_entry: "next_arg1 (scratch hsm_boot 1) = 0" "next_addr (scratch hsm_boot 1) = 0x80200000"
  "next_mode (scratch hsm_boot 1) = 1"
  by code_simp+

lemma start_entry_race:
  "\<exists>y. hsm_reachable y \<and> loc y 0 = Starting 1 0x80400000 1 0 \<and> loc y 1 = Super
     \<and> entered y 1 = Some (0, 0x80200000, 1)"
proof -
  have l2: "loc sys2 1 = Warm_boot" "loc sys2 0 = Starting 1 0x80400000 1 0"
    by (simp_all add: sys2_def goto_def sys1_mach)
  have "hsm_step sys2 sys3"
    unfolding sys3_def by (rule hsm_step.Wake [OF sys2_mach(2) l2(1) sys2_mach(1)])
  moreover have m3: "mach sys3 = mach sys2" by (simp add: sys3_def goto_def)
  moreover have j: "sbi_hsm_prepare_next_jump 1 (mach sys3) = Ret () (set_hstate 1 0 (mach sys2))"
    by (simp add: sys3_def goto_def sbi_hsm_prepare_next_jump_def hstate_cmpxchg_def sys2_mach
        del: One_nat_def)
  moreover have "hsm_step sys3 sys4"
  proof -
    have "scratch_tab (mach sys3) 1" "loc sys3 1 = Booting"
      using sys2_mach(2) by (simp_all add: sys3_def goto_def)
    then show ?thesis unfolding sys4_def j flow_state.simps by (rule hsm_step.Jump [OF _ _ j])
  qed
  ultimately have "hsm_reachable sys4"
    using sys1_reachable sys2_step by (meson hsm_reachable.Step)
  moreover have "loc sys4 0 = Starting 1 0x80400000 1 0" "loc sys4 1 = Super"
    "entered sys4 1 = Some (0, 0x80200000, 1)"
    using l2 sys2_mach(3) hsm_boot_entry
    unfolding sys4_def j flow_state.simps
    by (simp_all add: enter_def goto_def Let_def sys3_def set_hstate_def del: One_nat_def)
  ultimately show ?thesis by blast
qed

end
