(* ===== verification/Sbi_Ipi.thy ===== *)
theory Sbi_Ipi
  imports Sbi_Hsm
begin

text \<open>
  \<^verbatim>\<open>lib/sbi/sbi_ipi.c\<close>: inter-processor interrupts with an event number. A component registers a
  record of operations and gets an event; sending an event to a hart runs its \<open>update\<close>, sets a bit
  in a word of the remote hart and triggers the interrupt, processing takes the word and runs the
  \<open>process\<close> operation of every event in it.

  The array of registered records holds pointers; here it holds numbers, and the records themselves
  are the argument \<open>ops\<close> of the functions that call through them. The \<^verbatim>\<open>void *data\<close> of an event is
  a value that the update operation may change, as the code's update changes the caller's struct.
  The proofs are in \<^verbatim>\<open>Sbi_Ipi_Send\<close>.
\<close>

section \<open>State\<close>

abbreviation (input) SBI_IPI_EVENT_MAX :: nat where "SBI_IPI_EVENT_MAX \<equiv> 64"

record ipi_state = hsm_state +
  ipi_data_off :: ulong
  ipi_type :: "nat \<Rightarrow> ulong"
  ipi_ops_array :: "nat option list"
  ipi_smode_event :: u32
  ipi_halt_event :: u32

record ('d, 's) sbi_ipi_event_ops =
  ops_update :: "(nat \<Rightarrow> nat \<Rightarrow> 'd \<Rightarrow> 's \<Rightarrow> (int \<times> 'd, 's) flow) option"
  ops_sync :: "(nat \<Rightarrow> 's \<Rightarrow> (unit, 's) flow) option"
  ops_process :: "(nat \<Rightarrow> 's \<Rightarrow> (unit, 's) flow) option"

type_synonym ('d, 's) ipi_ops_table = "nat \<Rightarrow> ('d, 's) sbi_ipi_event_ops"

text \<open>The pointers to the three records of the library.\<close>

abbreviation (input) ipi_smode_ops :: nat where "ipi_smode_ops \<equiv> 0"
abbreviation (input) ipi_halt_ops :: nat where "ipi_halt_ops \<equiv> 1"
abbreviation (input) tlb_ops :: nat where "tlb_ops \<equiv> 2"

definition set_ipi_type :: "nat \<Rightarrow> ulong \<Rightarrow> 'a ipi_state_scheme \<Rightarrow> 'a ipi_state_scheme" where
  "set_ipi_type h v s = s\<lparr>ipi_type := (ipi_type s)(h := v)\<rparr>"

section \<open>Sending\<close>

definition ipi_trigger :: "nat \<Rightarrow> u32 \<Rightarrow> nat \<Rightarrow> 'a ipi_state_scheme \<Rightarrow> 'a ipi_state_scheme" where
  "ipi_trigger h remote_hartid event s =
     (let rh = unat remote_hartid;
          s = set_ipi_type rh (ipi_type s rh OR push_bit event 1) s;
          s = sbi_ipi_raw_send h remote_hartid s
      in snd (sbi_pmu_ctr_incr_fw h SBI_PMU_FW_IPI_SENT s))"

definition sbi_ipi_send ::
  "('d, 'a ipi_state_scheme) ipi_ops_table \<Rightarrow> nat \<Rightarrow> u32 \<Rightarrow> nat \<Rightarrow> 'd \<Rightarrow> 'a ipi_state_scheme
     \<Rightarrow> (int \<times> 'd, 'a ipi_state_scheme) flow" where
  "sbi_ipi_send ops h remote_hartid event data s =
     (if SBI_IPI_EVENT_MAX \<le> event then Ret (SBI_EINVAL, data) s
      else case ipi_ops_array s ! event of
        None \<Rightarrow> Ret (SBI_EINVAL, data) s
      | Some p \<Rightarrow>
          if \<not> scratch_tab s (unat remote_hartid) then Ret (SBI_EINVAL, data) s
          else
            flow_bind
              (case ops_update (ops p) of
                 Some f \<Rightarrow> f h (unat remote_hartid) data s
               | None \<Rightarrow> Ret (0, data) s)
              (\<lambda>(ret, data) s.
                if ret < 0 then Ret (ret, data) s
                else
                  let s = ipi_trigger h remote_hartid event s
                  in flow_bind (case ops_sync (ops p) of Some f \<Rightarrow> f h s | None \<Rightarrow> Ret () s)
                       (\<lambda>_ s. Ret (0, data) s)))"

text \<open>\<^verbatim>\<open>for (i = hbase; m; i++, m >>= 1)\<close>: the results of the single sends are dropped.\<close>

function ipi_send_loop ::
  "('d, 'a ipi_state_scheme) ipi_ops_table \<Rightarrow> nat \<Rightarrow> ulong \<Rightarrow> ulong \<Rightarrow> nat \<Rightarrow> 'd \<Rightarrow> 'a ipi_state_scheme
     \<Rightarrow> ('d, 'a ipi_state_scheme) flow" where
  "ipi_send_loop ops h i m event data s =
     (if m = 0 then Ret data s
      else
        flow_bind
          (if m AND 1 \<noteq> 0
           then flow_bind (sbi_ipi_send ops h (ucast i) event data s) (\<lambda>(_, data) s. Ret data s)
           else Ret data s)
          (\<lambda>data s. ipi_send_loop ops h (i + 1) (drop_bit 1 m) event data s))"
  by pat_completeness auto
termination
  by (relation "measure (\<lambda>(_, _, _, m, _). unat m)")
    (simp_all add: unat_drop_bit_1_less del: One_nat_def)

declare ipi_send_loop.simps [simp del]

text \<open>
  The loop over all windows of 64 harts, for \<^verbatim>\<open>hbase = -1\<close>. The fuel is one more than the number of
  windows up to the last hart; running out of it would be a loop that goes on, and
  \<^verbatim>\<open>Sbi_Ipi_Send\<close> shows that it never happens.
\<close>

fun ipi_send_windows ::
  "nat \<Rightarrow> ('d, 'a ipi_state_scheme) ipi_ops_table \<Rightarrow> nat \<Rightarrow> nat option \<Rightarrow> ulong \<Rightarrow> nat \<Rightarrow> 'd
     \<Rightarrow> 'a ipi_state_scheme \<Rightarrow> ('d, 'a ipi_state_scheme) flow" where
  "ipi_send_windows 0 ops h dm hbase event data s = Hang s"
| "ipi_send_windows (Suc n) ops h dm hbase event data s =
     (let (rc, m) = sbi_hsm_hart_interruptible_mask (map_option (doms s) dm) hbase s in
      if rc \<noteq> 0 then Ret data s
      else flow_bind (ipi_send_loop ops h hbase m event data s)
             (\<lambda>data s. ipi_send_windows n ops h dm (hbase + 64) event data s))"

definition sbi_ipi_send_many ::
  "('d, 'a ipi_state_scheme) ipi_ops_table \<Rightarrow> nat \<Rightarrow> ulong \<Rightarrow> ulong \<Rightarrow> nat \<Rightarrow> 'd \<Rightarrow> 'a ipi_state_scheme
     \<Rightarrow> (int, 'a ipi_state_scheme) flow" where
  "sbi_ipi_send_many ops h hmask hbase event data s =
     (let dm = hartid_to_domain s h in
      if hbase \<noteq> - 1 then
        let (rc, m) = sbi_hsm_hart_interruptible_mask (map_option (doms s) dm) hbase s in
        if rc \<noteq> 0 then Ret rc s
        else flow_bind (ipi_send_loop ops h hbase (m AND hmask) event data s) (\<lambda>_ s. Ret 0 s)
      else
        flow_bind (ipi_send_windows (last_hartid s div 64 + 2) ops h dm 0 event data s)
          (\<lambda>_ s. Ret 0 s))"

section \<open>Registration\<close>

text \<open>The result of the search is the first free slot. \<open>has_process\<close> says whether the record has a
  process operation.\<close>

definition sbi_ipi_event_create ::
  "nat option \<Rightarrow> bool \<Rightarrow> 'a ipi_state_scheme \<Rightarrow> int \<times> 'a ipi_state_scheme" where
  "sbi_ipi_event_create p has_process s =
     (if p = None \<or> \<not> has_process then (SBI_EINVAL, s)
      else case filter (\<lambda>i. ipi_ops_array s ! i = None) [0..<SBI_IPI_EVENT_MAX] of
        [] \<Rightarrow> (SBI_ENOSPC, s)
      | i # _ \<Rightarrow> (int i, s\<lparr>ipi_ops_array := (ipi_ops_array s)[i := p]\<rparr>))"

definition sbi_ipi_event_destroy :: "nat \<Rightarrow> 'a ipi_state_scheme \<Rightarrow> 'a ipi_state_scheme" where
  "sbi_ipi_event_destroy event s =
     (if SBI_IPI_EVENT_MAX \<le> event then s
      else s\<lparr>ipi_ops_array := (ipi_ops_array s)[event := None]\<rparr>)"

section \<open>The events of this component\<close>

definition sbi_ipi_process_smode ::
  "nat \<Rightarrow> 'a ipi_state_scheme \<Rightarrow> (unit, 'a ipi_state_scheme) flow" where
  "sbi_ipi_process_smode h s = Ret () (csr_set h CSR_MIP MIP_SSIP s)"

definition sbi_ipi_send_smode ::
  "('d, 'a ipi_state_scheme) ipi_ops_table \<Rightarrow> nat \<Rightarrow> ulong \<Rightarrow> ulong \<Rightarrow> 'd \<Rightarrow> 'a ipi_state_scheme
     \<Rightarrow> (int, 'a ipi_state_scheme) flow" where
  "sbi_ipi_send_smode ops h hmask hbase null s =
     sbi_ipi_send_many ops h hmask hbase (unat (ipi_smode_event s)) null s"

definition sbi_ipi_clear_smode :: "nat \<Rightarrow> 'a ipi_state_scheme \<Rightarrow> 'a ipi_state_scheme" where
  "sbi_ipi_clear_smode h s = csr_clear h CSR_MIP MIP_SSIP s"

definition sbi_ipi_process_halt ::
  "(nat \<Rightarrow> 'a ipi_state_scheme \<Rightarrow> (unit, 'a ipi_state_scheme) flow) \<Rightarrow> nat \<Rightarrow> 'a ipi_state_scheme
     \<Rightarrow> (unit, 'a ipi_state_scheme) flow" where
  "sbi_ipi_process_halt exit h s =
     flow_bind (sbi_hsm_hart_stop (\<lambda>h s. exit h s) h True s) (\<lambda>_ s. Ret () s)"

definition sbi_ipi_send_halt ::
  "('d, 'a ipi_state_scheme) ipi_ops_table \<Rightarrow> nat \<Rightarrow> ulong \<Rightarrow> ulong \<Rightarrow> 'd \<Rightarrow> 'a ipi_state_scheme
     \<Rightarrow> (int, 'a ipi_state_scheme) flow" where
  "sbi_ipi_send_halt ops h hmask hbase null s =
     sbi_ipi_send_many ops h hmask hbase (unat (ipi_halt_event s)) null s"

section \<open>Processing\<close>

definition ipi_run_event ::
  "('d, 'a ipi_state_scheme) ipi_ops_table \<Rightarrow> nat \<Rightarrow> nat \<Rightarrow> 'a ipi_state_scheme
     \<Rightarrow> (unit, 'a ipi_state_scheme) flow" where
  "ipi_run_event ops h ipi_event s =
     (case ipi_ops_array s ! ipi_event of
        Some p \<Rightarrow> (case ops_process (ops p) of Some f \<Rightarrow> f h s | None \<Rightarrow> Ret () s)
      | None \<Rightarrow> Ret () s)"

function ipi_process_loop ::
  "('d, 'a ipi_state_scheme) ipi_ops_table \<Rightarrow> nat \<Rightarrow> ulong \<Rightarrow> nat \<Rightarrow> 'a ipi_state_scheme
     \<Rightarrow> (unit, 'a ipi_state_scheme) flow" where
  "ipi_process_loop ops h ty ipi_event s =
     (if ty = 0 then Ret () s
      else
        flow_bind (if ty AND 1 \<noteq> 0 then ipi_run_event ops h ipi_event s else Ret () s)
          (\<lambda>_ s. ipi_process_loop ops h (drop_bit 1 ty) (ipi_event + 1) s))"
  by pat_completeness auto
termination
  by (relation "measure (\<lambda>(_, _, m, _). unat m)")
    (simp_all add: unat_drop_bit_1_less del: One_nat_def)

declare ipi_process_loop.simps [simp del]

definition ipi_device_clear :: "nat \<Rightarrow> 'a ipi_state_scheme \<Rightarrow> 'a ipi_state_scheme" where
  "ipi_device_clear h s =
     (case ipi_dev s of
        Some d \<Rightarrow> if ipi_clear_fn d then emit (Ev_ipi_clear h h) s else s
      | None \<Rightarrow> s)"

definition sbi_ipi_process ::
  "('d, 'a ipi_state_scheme) ipi_ops_table \<Rightarrow> nat \<Rightarrow> 'a ipi_state_scheme
     \<Rightarrow> (unit, 'a ipi_state_scheme) flow" where
  "sbi_ipi_process ops h s =
     (let s = snd (sbi_pmu_ctr_incr_fw h SBI_PMU_FW_IPI_RECVD s);
          s = ipi_device_clear h s;
          ty = ipi_type s h;
          s = set_ipi_type h 0 s
      in ipi_process_loop ops h ty 0 s)"

section \<open>Initialisation and exit\<close>

text \<open>What follows the event set-up, on the cold and on the warm path.\<close>

definition ipi_init_hart :: "nat \<Rightarrow> bool \<Rightarrow> 'a ipi_state_scheme \<Rightarrow> int \<times> 'a ipi_state_scheme" where
  "ipi_init_hart h cold_boot s =
     (let s = set_ipi_type h 0 s;
          (ret, s) = sbi_platform_ipi_init h cold_boot s
      in if ret \<noteq> 0 then (ret, s) else (0, csr_set h CSR_MIE MIP_MSIP s))"

definition sbi_ipi_init :: "nat \<Rightarrow> bool \<Rightarrow> 'a ipi_state_scheme \<Rightarrow> int \<times> 'a ipi_state_scheme" where
  "sbi_ipi_init h cold_boot s =
     (if cold_boot then
        let (off, s) = sbi_scratch_alloc_offset 8 s; s = s\<lparr>ipi_data_off := off\<rparr> in
        if off = 0 then (SBI_ENOMEM, s)
        else
          let (ret, s) = sbi_ipi_event_create (Some ipi_smode_ops) True s in
          if ret < 0 then (ret, s)
          else
            let s = s\<lparr>ipi_smode_event := word_of_int ret\<rparr>;
                (ret, s) = sbi_ipi_event_create (Some ipi_halt_ops) True s
            in if ret < 0 then (ret, s)
               else ipi_init_hart h cold_boot (s\<lparr>ipi_halt_event := word_of_int ret\<rparr>)
      else if ipi_data_off s = 0 then (SBI_ENOMEM, s)
      else if 64 \<le> ipi_smode_event s \<or> 64 \<le> ipi_halt_event s then (SBI_ENOSPC, s)
      else ipi_init_hart h cold_boot s)"

definition sbi_ipi_exit ::
  "('d, 'a ipi_state_scheme) ipi_ops_table \<Rightarrow> nat \<Rightarrow> 'a ipi_state_scheme
     \<Rightarrow> (unit, 'a ipi_state_scheme) flow" where
  "sbi_ipi_exit ops h s =
     flow_bind (sbi_ipi_process ops h (csr_clear h CSR_MIE MIP_MSIP s)) (\<lambda>_ s.
       Ret () (sbi_platform_ipi_exit h s))"

section \<open>A small state for concrete runs\<close>

definition ipi0 :: ipi_state where
  "ipi0 = hsm_state.extend hsm0
     \<lparr>ipi_data_off = 128, ipi_type = (\<lambda>h. 0),
      ipi_ops_array = [Some ipi_smode_ops, Some ipi_halt_ops, Some tlb_ops] @ replicate 61 None,
      ipi_smode_event = 0, ipi_halt_event = 1\<rparr>"

lemmas ipi0_defs = hsm0_defs ipi0_def ipi_state.defs

end
