(* ===== verification/Sbi_Ipi_Send.thy ===== *)
theory Sbi_Ipi_Send
  imports Sbi_Ipi
begin

text \<open>
  Whom an IPI reaches. The mask of interruptible harts is computed bit by bit; sending to a mask is
  the sequence of the single sends in order of the hart ids; for an event without update and sync
  operations (the supervisor software interrupt) the harts that get the event are exactly the
  caller's choice among the assigned harts that can take an interrupt. The locale at the end says
  what an event has to keep so that an invariant survives sending and processing.
\<close>

section \<open>Interruptible harts\<close>

definition interruptible :: "sbi_domain \<Rightarrow> 'a hsm_state_scheme \<Rightarrow> nat \<Rightarrow> bool" where
  "interruptible dm s h \<longleftrightarrow> h \<in> hm_set (assigned_harts dm) \<and> h \<le> last_hartid s
     \<and> hsm_hart_get_state h s \<in> {SBI_HSM_STATE_STARTED, SBI_HSM_STATE_SUSPENDED}"

lemma interruptible_scratch: "interruptible dm s h \<Longrightarrow> scratch_tab s h"
  by (auto simp: interruptible_def hsm_hart_get_state_def split: if_splits)

lemma BIT_test: "k < 64 \<Longrightarrow> (w :: ulong) AND sll 1 k \<noteq> 0 \<longleftrightarrow> bit w k"
  by (simp add: sll_def and_exp_eq_0_iff_not_bit push_bit_eq_mult)

lemma interruptible_step_bit:
  assumes "j < 64"
  shows "bit (interruptible_step dmask hbase s out j) k \<longleftrightarrow> bit out k
    \<or> k = j \<and> bit dmask j
      \<and> hsm_hart_get_state (unat hbase + j) s \<in> {SBI_HSM_STATE_STARTED, SBI_HSM_STATE_SUSPENDED}"
proof -
  have "bit (sll 1 j :: ulong) k \<longleftrightarrow> k = j"
    using assms by (auto simp: bit_exp_iff possible_bit_word)
  then show ?thesis
    by (auto simp: interruptible_step_def Let_def BIT_test [OF assms] bit_or_iff)
qed

lemma interruptible_fold_bit:
  "n \<le> 64 \<Longrightarrow> bit (foldl (interruptible_step dmask hbase s) 0 [0..<n]) k \<longleftrightarrow>
     k < n \<and> bit dmask k
     \<and> hsm_hart_get_state (unat hbase + k) s \<in> {SBI_HSM_STATE_STARTED, SBI_HSM_STATE_SUSPENDED}"
  by (induction n) (auto simp: interruptible_step_bit less_Suc_eq)

lemma interruptible_mask_bit:
  assumes "hm_wf (assigned_harts dm)" "last_hartid s < 128" "unat hbase \<le> last_hartid s"
  shows "fst (sbi_hsm_hart_interruptible_mask (Some dm) hbase s) = 0"
    and "bit (snd (sbi_hsm_hart_interruptible_mask (Some dm) hbase s)) k \<longleftrightarrow>
      k < 64 \<and> interruptible dm s (unat hbase + k)"
proof -
  define e :: ulong where "e = of_nat (last_hartid s) + 1"
  have e: "unat e = last_hartid s + 1"
    using assms(2) unfolding e_def by (simp add: unat_word_ariths unat_of_nat)
  have lt: "\<not> e \<le> hbase" using e assms(3) by (simp add: word_le_nat_alt)
  then have d: "unat (e - hbase) = last_hartid s + 1 - unat hbase"
    using e by (simp add: unat_sub word_le_nat_alt)
  define n where "n = unat ((if 64 < e - hbase then hbase + 64 else e) - hbase)"
  have n: "n = min 64 (last_hartid s + 1 - unat hbase)"
    unfolding n_def using d by (auto simp: word_less_nat_alt)
  have m: "sbi_hsm_hart_interruptible_mask (Some dm) hbase s =
      (0, foldl (interruptible_step (sbi_domain_get_assigned_hartmask (Some dm) hbase) hbase s) 0 [0..<n])"
    using lt unfolding sbi_hsm_hart_interruptible_mask_def Let_def e_def [symmetric] n_def by simp
  then show "fst (sbi_hsm_hart_interruptible_mask (Some dm) hbase s) = 0" by simp
  have w: "bit (sbi_domain_get_assigned_hartmask (Some dm) hbase) k
      \<longleftrightarrow> unat hbase + k \<in> hm_set (assigned_harts dm)" if "k < 64"
  proof -
    have "unat (of_nat (unat hbase + k) :: u32) = unat hbase + k"
      using assms(2,3) that by (simp add: unat_of_nat del: of_nat_add)
    then show ?thesis
      using assigned_window_bit [OF assms(1), of hbase k] assms(2,3) that by (simp del: of_nat_add)
  qed
  have "n \<le> 64" using n by simp
  from interruptible_fold_bit [OF this] show
    "bit (snd (sbi_hsm_hart_interruptible_mask (Some dm) hbase s)) k \<longleftrightarrow>
      k < 64 \<and> interruptible dm s (unat hbase + k)"
    using w n unfolding m snd_conv interruptible_def by auto
qed

lemma interruptible_mask_beyond:
  assumes "last_hartid s < 128" "last_hartid s < unat hbase"
  shows "fst (sbi_hsm_hart_interruptible_mask dm hbase s) \<noteq> 0"
proof -
  have "unat (of_nat (last_hartid s) + 1 :: ulong) = last_hartid s + 1"
    using assms(1) by (simp add: unat_word_ariths unat_of_nat)
  then have "of_nat (last_hartid s) + 1 \<le> hbase" using assms(2) by (simp add: word_le_nat_alt)
  then show ?thesis by (simp add: sbi_hsm_hart_interruptible_mask_def Let_def)
qed

section \<open>Triggers\<close>

lemma incr_fw_hsm_frame [simp]:
  "hsm_data (snd (sbi_pmu_ctr_incr_fw h c s)) = hsm_data s"
  "ipi_dev (snd (sbi_pmu_ctr_incr_fw h c s)) = ipi_dev s"
  for s :: "'a hsm_state_scheme"
  by (simp_all add: sbi_pmu_ctr_incr_fw_def upd_fw_event_def)

lemma incr_fw_ipi_frame [simp]:
  "ipi_type (snd (sbi_pmu_ctr_incr_fw h c s)) = ipi_type s"
  "ipi_ops_array (snd (sbi_pmu_ctr_incr_fw h c s)) = ipi_ops_array s"
  for s :: "'a ipi_state_scheme"
  by (simp_all add: sbi_pmu_ctr_incr_fw_def upd_fw_event_def)

lemma incr_fw_machine_frame [simp]:
  "scratch_tab (snd (sbi_pmu_ctr_incr_fw h c s)) = scratch_tab s"
  "last_hartid (snd (sbi_pmu_ctr_incr_fw h c s)) = last_hartid s"
  "trace (snd (sbi_pmu_ctr_incr_fw h c s)) = trace s"
  "doms (snd (sbi_pmu_ctr_incr_fw h c s)) = doms s"
  by (simp_all add: sbi_pmu_ctr_incr_fw_def upd_fw_event_def)

lemma trigger_frame [simp]:
  "ipi_ops_array (ipi_trigger h r e s) = ipi_ops_array s"
  "hsm_data (ipi_trigger h r e s) = hsm_data s"
  "scratch_tab (ipi_trigger h r e s) = scratch_tab s"
  "last_hartid (ipi_trigger h r e s) = last_hartid s"
  "doms (ipi_trigger h r e s) = doms s"
  by (simp_all add: ipi_trigger_def Let_def set_ipi_type_def sbi_ipi_raw_send_def emit_def
      split: option.splits)

lemma trigger_type:
  "ipi_type (ipi_trigger h r e s) =
     (ipi_type s)(unat r := ipi_type s (unat r) OR push_bit e 1)"
  by (simp add: ipi_trigger_def Let_def set_ipi_type_def sbi_ipi_raw_send_def emit_def
      split: option.splits)

definition triggers :: "nat \<Rightarrow> nat \<Rightarrow> u32 list \<Rightarrow> 'a ipi_state_scheme \<Rightarrow> 'a ipi_state_scheme" where
  "triggers h e rs s = foldl (\<lambda>s r. ipi_trigger h r e s) s rs"

lemma triggers_simps [simp]:
  "triggers h e [] s = s"
  "triggers h e (r # rs) s = triggers h e rs (ipi_trigger h r e s)"
  "triggers h e (rs @ rs') s = triggers h e rs' (triggers h e rs s)"
  by (simp_all add: triggers_def)

lemma triggers_frame [simp]:
  "ipi_ops_array (triggers h e rs s) = ipi_ops_array s"
  "hsm_data (triggers h e rs s) = hsm_data s"
  "scratch_tab (triggers h e rs s) = scratch_tab s"
  "last_hartid (triggers h e rs s) = last_hartid s"
  "doms (triggers h e rs s) = doms s"
  by (induction rs arbitrary: s) simp_all

lemma trigger_bit:
  "e < 64 \<Longrightarrow> bit (ipi_type (ipi_trigger h r e s) t) i \<longleftrightarrow>
     bit (ipi_type s t) i \<or> i = e \<and> t = unat r"
proof -
  assume "e < 64"
  then have "bit (push_bit e 1 :: ulong) i \<longleftrightarrow> i = e"
    by (auto simp: bit_exp_iff possible_bit_word)
  then show ?thesis by (simp only: trigger_type fun_upd_apply bit_or_iff split: if_split) blast
qed

lemma triggers_type:
  assumes "e < 64"
  shows "bit (ipi_type (triggers h e rs s) t) i \<longleftrightarrow>
     bit (ipi_type s t) i \<or> i = e \<and> t \<in> unat ` set rs"
proof (induction rs arbitrary: s)
  case (Cons r rs)
  show ?case unfolding triggers_simps Cons trigger_bit [OF assms] list.set image_insert by blast
qed simp

section \<open>Sending an event without operations of its own\<close>

definition plain_event ::
  "('d, 'a ipi_state_scheme) ipi_ops_table \<Rightarrow> nat \<Rightarrow> 'a ipi_state_scheme \<Rightarrow> bool" where
  "plain_event ops e s \<longleftrightarrow> e < 64 \<and>
     (\<exists>p. ipi_ops_array s ! e = Some p \<and> ops_update (ops p) = None \<and> ops_sync (ops p) = None)"

lemma send_plain:
  assumes "plain_event ops e s" "scratch_tab s (unat r)"
  shows "sbi_ipi_send ops h r e d s = Ret (0, d) (ipi_trigger h r e s)"
  using assms by (auto simp: sbi_ipi_send_def plain_event_def Let_def)

lemma filter_bit_Suc:
  "filter (bit m) [0..<Suc n] =
     (if m AND 1 \<noteq> 0 then [0] else []) @ map Suc (filter (bit (drop_bit 1 m)) [0..<n])"
  for m :: ulong
proof -
  have "[0..<Suc n] = 0 # map Suc [0..<n]" by (simp add: map_Suc_upt upt_conv_Cons del: upt_Suc)
  moreover have "filter (bit m) (map Suc [0..<n]) = map Suc (filter (bit (drop_bit 1 m)) [0..<n])"
    by (simp add: filter_map comp_def bit_drop_bit_eq)
  moreover have "m AND 1 \<noteq> 0 \<longleftrightarrow> bit m 0"
    by (simp add: and_one_eq odd_iff_mod_2_eq_one bit_0)
  ultimately show ?thesis by (simp del: upt_Suc)
qed

text \<open>The loop over a mask is the sequence of the triggers.\<close>

lemma send_loop_plain:
  assumes "plain_event ops e s" "\<And>k. n \<le> k \<Longrightarrow> \<not> bit m k"
    and "\<And>k. bit m k \<Longrightarrow> scratch_tab s (unat (ucast (i + of_nat k) :: u32))"
  shows "ipi_send_loop ops h i m e d s =
    Ret d (triggers h e (map (\<lambda>k. ucast (i + of_nat k)) (filter (bit m) [0..<n])) s)"
  using assms
proof (induction n arbitrary: i m s)
  case 0
  then have "m = 0" using word_zero_iff_bits by blast
  then show ?case by (simp add: ipi_send_loop.simps)
next
  case (Suc n)
  show ?case
  proof (cases "m = 0")
    case True
    then show ?thesis by (simp add: ipi_send_loop.simps)
  next
    case False
    let ?s = "if m AND 1 \<noteq> 0 then ipi_trigger h (ucast i) e s else s"
    have b0: "m AND 1 \<noteq> 0 \<longleftrightarrow> bit m 0" by (simp add: and_one_eq odd_iff_mod_2_eq_one bit_0)
    have "ipi_send_loop ops h i m e d s = ipi_send_loop ops h (i + 1) (drop_bit 1 m) e d ?s"
    proof (cases "m AND 1 \<noteq> 0")
      case True
      then have "scratch_tab s (unat (ucast i :: u32))" using Suc.prems(3) [of 0] b0 by simp
      from send_plain [OF Suc.prems(1) this] show ?thesis
        using True False by (subst ipi_send_loop.simps) simp
    qed (use False in \<open>subst ipi_send_loop.simps, simp\<close>)
    also have "\<dots> = Ret d (triggers h e
        (map (\<lambda>k. ucast (i + 1 + of_nat k)) (filter (bit (drop_bit 1 m)) [0..<n])) ?s)"
    proof (rule Suc.IH)
      show "plain_event ops e ?s" using Suc.prems(1) by (simp add: plain_event_def)
      show "\<not> bit (drop_bit 1 m) k" if "n \<le> k" for k
        using Suc.prems(2) [of "Suc k"] that by (simp add: bit_drop_bit_eq)
      show "scratch_tab ?s (unat (ucast (i + 1 + of_nat k) :: u32))" if "bit (drop_bit 1 m) k" for k
        using Suc.prems(3) [of "Suc k"] that by (simp add: bit_drop_bit_eq add.assoc)
    qed
    also have "\<dots> = Ret d (triggers h e (map (\<lambda>k. ucast (i + of_nat k)) (filter (bit m) [0..<Suc n])) s)"
      unfolding filter_bit_Suc by (simp add: comp_def add.assoc)
    finally show ?thesis .
  qed
qed

text \<open>One window of 64 harts.\<close>

lemma send_window:
  assumes "plain_event ops e s" "hm_wf (assigned_harts dm)" "last_hartid s < 128"
    and "unat hbase \<le> last_hartid s" "\<And>k. bit m k \<Longrightarrow> interruptible dm s (unat hbase + k)"
  obtains rs where "ipi_send_loop ops h hbase m e d s = Ret d (triggers h e rs s)"
    "unat ` set rs = {t. unat hbase \<le> t \<and> t < unat hbase + 64 \<and> bit m (t - unat hbase)}"
proof -
  let ?f = "\<lambda>k. ucast (hbase + of_nat k) :: u32"
  have u: "unat (?f k) = unat hbase + k" if "bit m k" for k
  proof -
    have l: "unat hbase + k < 128" using assms(3,5) that by (fastforce simp: interruptible_def)
    have "unat (hbase + of_nat k) = unat hbase + k"
      using l by (simp add: unat_word_ariths unat_of_nat)
    then show ?thesis using l by (simp add: unsigned_ucast_eq take_bit_nat_eq_self)
  qed
  have "ipi_send_loop ops h hbase m e d s = Ret d (triggers h e (map ?f (filter (bit m) [0..<64])) s)"
  proof (rule send_loop_plain [OF assms(1)])
    show "\<not> bit m k" if "64 \<le> k" for k using word64_bit_less [of m k] that by auto
    show "scratch_tab s (unat (?f k))" if "bit m k" for k
      using u [OF that] interruptible_scratch assms(5) [OF that] by metis
  qed
  moreover have "unat ` set (map ?f (filter (bit m) [0..<64]))
      = {t. unat hbase \<le> t \<and> t < unat hbase + 64 \<and> bit m (t - unat hbase)}" (is "?L = ?R")
  proof (intro equalityI subsetI)
    fix t
    assume "t \<in> ?L"
    then obtain k where "t = unat (?f k)" "k < 64" "bit m k" by auto
    then show "t \<in> ?R" using u by simp
  next
    fix t
    assume t: "t \<in> ?R"
    then have k: "bit m (t - unat hbase)" "t - unat hbase < 64" by auto
    then have "?f (t - unat hbase) \<in> set (map ?f (filter (bit m) [0..<64]))" by simp
    moreover have "unat (?f (t - unat hbase)) = t" using u [OF k(1)] t by simp
    ultimately show "t \<in> ?L" by (metis imageI)
  qed
  ultimately show thesis by (rule that)
qed

definition ipi_targets :: "ulong \<Rightarrow> ulong \<Rightarrow> sbi_domain \<Rightarrow> 'a hsm_state_scheme \<Rightarrow> nat set" where
  "ipi_targets hmask hbase dm s =
     {t. interruptible dm s t \<and> (hbase = - 1 \<or>
        unat hbase \<le> t \<and> t < unat hbase + 64 \<and> bit hmask (t - unat hbase))}"

lemma interruptible_triggers [simp]: "interruptible dm (triggers h e rs s) = interruptible dm s"
  by (intro ext) (simp add: interruptible_def hsm_hart_get_state_def)

lemma mask_window:
  assumes "hm_wf (assigned_harts dm)" "last_hartid s < 128" "unat hbase \<le> last_hartid s"
  obtains m where "sbi_hsm_hart_interruptible_mask (Some dm) hbase s = (0, m)"
    "\<And>k. bit m k \<longleftrightarrow> k < 64 \<and> interruptible dm s (unat hbase + k)"
  using interruptible_mask_bit [OF assms] by (metis prod.collapse)

text \<open>The walk over the windows, from a window on.\<close>

lemma send_windows_from:
  assumes "plain_event ops e s" "hm_wf (assigned_harts (doms s d))" "last_hartid s < 128"
    and "hbase = 64 * of_nat j" "j \<le> last_hartid s div 64 + 1" "last_hartid s div 64 + 1 < j + n"
  obtains rs where "ipi_send_windows n ops h (Some d) hbase e x s = Ret x (triggers h e rs s)"
    "unat ` set rs = {t. interruptible (doms s d) s t \<and> 64 * j \<le> t}"
  using assms
proof (induction n arbitrary: j hbase s thesis)
  case (Suc n)
  have hb: "unat hbase = 64 * j"
  proof -
    have "64 * j < 2 ^ 64" using Suc.prems(4,6) by simp
    then have "unat (of_nat (64 * j) :: ulong) = 64 * j" by (simp add: unat_of_nat del: of_nat_mult)
    then show ?thesis using Suc.prems(5) by simp
  qed
  show ?case
  proof (cases "unat hbase \<le> last_hartid s")
    case False
    have "fst (sbi_hsm_hart_interruptible_mask (Some (doms s d)) hbase s) \<noteq> 0"
      using interruptible_mask_beyond [OF Suc.prems(4)] False by simp
    then have "ipi_send_windows (Suc n) ops h (Some d) hbase e x s = Ret x (triggers h e [] s)"
      by (simp add: Let_def case_prod_unfold)
    moreover have "unat ` set ([] :: u32 list) = {t. interruptible (doms s d) s t \<and> 64 * j \<le> t}"
      using False hb by (auto simp: interruptible_def)
    ultimately show ?thesis by (rule Suc.prems(1))
  next
    case True
    then have j: "j \<le> last_hartid s div 64" using hb by linarith
    obtain m where m: "sbi_hsm_hart_interruptible_mask (Some (doms s d)) hbase s = (0, m)"
      "\<And>k. bit m k \<longleftrightarrow> k < 64 \<and> interruptible (doms s d) s (unat hbase + k)"
      using mask_window [OF Suc.prems(3,4) True] by blast
    obtain rs where rs: "ipi_send_loop ops h hbase m e x s = Ret x (triggers h e rs s)"
      "unat ` set rs = {t. unat hbase \<le> t \<and> t < unat hbase + 64 \<and> bit m (t - unat hbase)}"
      by (rule send_window [OF Suc.prems(2,3,4) True]) (use m(2) in blast)+
    let ?s = "triggers h e rs s"
    obtain rs' where rs': "ipi_send_windows n ops h (Some d) (hbase + 64) e x ?s = Ret x (triggers h e rs' ?s)"
      "unat ` set rs' = {t. interruptible (doms ?s d) ?s t \<and> 64 * (j + 1) \<le> t}"
    proof (rule Suc.IH)
      show "plain_event ops e ?s" using Suc.prems(2) by (simp add: plain_event_def)
      show "hbase + 64 = 64 * of_nat (j + 1)" using Suc.prems(5) by (simp add: algebra_simps)
    qed (use Suc.prems j in auto)
    have "ipi_send_windows (Suc n) ops h (Some d) hbase e x s = Ret x (triggers h e (rs @ rs') s)"
      using rs(1) rs'(1) by (simp add: m(1))
    moreover have "unat ` set (rs @ rs') = {t. interruptible (doms s d) s t \<and> 64 * j \<le> t}"
      unfolding set_append image_Un rs(2) rs'(2) m(2) hb by auto
    ultimately show ?thesis by (rule Suc.prems(1))
  qed
qed simp

lemma send_many_plain:
  assumes "plain_event ops e s" "hartid_to_domain s h = Some d" "hm_wf (assigned_harts (doms s d))"
    and "last_hartid s < 128" "hbase = - 1 \<or> unat hbase \<le> last_hartid s"
  obtains rs where "sbi_ipi_send_many ops h hmask hbase e x s = Ret 0 (triggers h e rs s)"
    "unat ` set rs = ipi_targets hmask hbase (doms s d) s"
proof (cases "hbase = - 1")
  case True
  obtain rs where "ipi_send_windows (last_hartid s div 64 + 2) ops h (Some d) 0 e x s
      = Ret x (triggers h e rs s)" "unat ` set rs = {t. interruptible (doms s d) s t \<and> 64 * 0 \<le> t}"
  proof (rule send_windows_from [OF assms(1,3,4), of 0 0 "last_hartid s div 64 + 2" h x])
    show "0 = 64 * of_nat 0" "0 \<le> last_hartid s div 64 + 1"
      "last_hartid s div 64 + 1 < 0 + (last_hartid s div 64 + 2)" by simp_all
  qed
  then show thesis
    by (intro that) (simp_all add: True assms(2) sbi_ipi_send_many_def ipi_targets_def del: ipi_send_windows.simps)
next
  case False
  then have le: "unat hbase \<le> last_hartid s" using assms(5) by simp
  obtain m where m: "sbi_hsm_hart_interruptible_mask (Some (doms s d)) hbase s = (0, m)"
    "\<And>k. bit m k \<longleftrightarrow> k < 64 \<and> interruptible (doms s d) s (unat hbase + k)"
    using mask_window [OF assms(3,4) le] by blast
  obtain rs where "ipi_send_loop ops h hbase (m AND hmask) e x s = Ret x (triggers h e rs s)"
    "unat ` set rs = {t. unat hbase \<le> t \<and> t < unat hbase + 64 \<and> bit (m AND hmask) (t - unat hbase)}"
  proof (rule send_window [OF assms(1,3,4) le, of "m AND hmask"])
    show "interruptible (doms s d) s (unat hbase + k)" if "bit (m AND hmask) k" for k
      using that m(2) by (simp only: bit_and_iff)
  qed
  moreover have "{t. unat hbase \<le> t \<and> t < unat hbase + 64 \<and> bit (m AND hmask) (t - unat hbase)}
      = ipi_targets hmask hbase (doms s d) s"
    using False by (auto simp: ipi_targets_def bit_and_iff m(2))
  ultimately show thesis
    by (intro that) (simp_all add: False assms(2) sbi_ipi_send_many_def m(1))
qed

section \<open>Properties\<close>

text \<open>C34. Sending the supervisor software interrupt to a mask of harts returns 0 and marks exactly
  these harts: the ones the mask selects from \<open>hbase\<close> on (all of them for \<open>hbase = -1\<close>, whatever the mask is, zero included), that are
  assigned to the caller's domain and are STARTED or SUSPENDED. No other event bit of any hart
  changes.\<close>

theorem send_smode_reaches_targets:
  assumes "plain_event ops (unat (ipi_smode_event s)) s" "hartid_to_domain s h = Some d"
    and "hm_wf (assigned_harts (doms s d))" "last_hartid s < 128"
    and "hbase = - 1 \<or> unat hbase \<le> last_hartid s"
  shows "\<exists>s'. sbi_ipi_send_smode ops h hmask hbase null s = Ret 0 s' \<and>
    (\<forall>t i. bit (ipi_type s' t) i \<longleftrightarrow> bit (ipi_type s t) i
       \<or> i = unat (ipi_smode_event s) \<and> t \<in> ipi_targets hmask hbase (doms s d) s)"
proof -
  have e: "unat (ipi_smode_event s) < 64" using assms(1) by (simp add: plain_event_def)
  obtain rs where "sbi_ipi_send_smode ops h hmask hbase null s
      = Ret 0 (triggers h (unat (ipi_smode_event s)) rs s)"
    "unat ` set rs = ipi_targets hmask hbase (doms s d) s"
    using send_many_plain [OF assms] by (metis sbi_ipi_send_smode_def)
  then show ?thesis by (intro exI conjI) (assumption, simp only: triggers_type [OF e] simp_thms)
qed

text \<open>The sample state: hart 0 sends to the harts 0 and 1; only hart 0 is started.\<close>

definition plain_ops :: "('d, 'a ipi_state_scheme) ipi_ops_table" where
  "plain_ops = (\<lambda>_. \<lparr>ops_update = None, ops_sync = None, ops_process = Some sbi_ipi_process_smode\<rparr>)"

corollary send_smode_reaches_targets_witness:
  "\<exists>s'. sbi_ipi_send_smode plain_ops 0 3 0 () ipi0 = Ret 0 s' \<and> bit (ipi_type s' 0) 0
     \<and> \<not> bit (ipi_type s' 1) 0"
proof -
  have p: "plain_event plain_ops (unat (ipi_smode_event ipi0)) ipi0"
    by (simp add: plain_event_def plain_ops_def ipi0_defs)
  have d: "hartid_to_domain ipi0 0 = Some 0" "hm_wf (assigned_harts (doms ipi0 0))"
    "last_hartid ipi0 < 128" by (simp_all add: ipi0_defs hm_wf_def)
  have m: "0 \<in> hm_set (assigned_harts (doms ipi0 0))" unfolding hm_test [symmetric] by code_simp
  have t: "0 \<in> ipi_targets 3 0 (doms ipi0 0) ipi0" "1 \<notin> ipi_targets 3 0 (doms ipi0 0) ipi0"
    using m by (simp_all add: ipi_targets_def interruptible_def hsm_hart_get_state_def ipi0_defs)
  show ?thesis
    using send_smode_reaches_targets [OF p d, of 0 3 "()"] t by (auto simp: ipi0_defs)
qed

section \<open>Processing\<close>

lemma flow_fold_map: "flow_fold f (map g xs) = flow_fold (\<lambda>x. f (g x)) xs"
  by (induction xs) (auto intro!: ext)

lemma process_loop_fold:
  assumes "\<And>k. n \<le> k \<Longrightarrow> \<not> bit ty k"
  shows "ipi_process_loop ops h ty e s =
    flow_fold (\<lambda>k _ s. ipi_run_event ops h (e + k) s) (filter (bit ty) [0..<n]) () s"
  using assms
proof (induction n arbitrary: ty e s)
  case 0
  then have "ty = 0" using word_zero_iff_bits by blast
  then show ?case by (simp add: ipi_process_loop.simps)
next
  case (Suc n)
  show ?case
  proof (cases "ty = 0")
    case False
    have "(\<lambda>_ :: unit. ipi_process_loop ops h (drop_bit 1 ty) (e + 1)) =
      flow_fold (\<lambda>k _ s. ipi_run_event ops h (e + Suc k) s) (filter (bit (drop_bit 1 ty)) [0..<n])"
    proof (intro ext)
      fix u :: unit and s
      show "ipi_process_loop ops h (drop_bit 1 ty) (e + 1) s = flow_fold
          (\<lambda>k _ s. ipi_run_event ops h (e + Suc k) s) (filter (bit (drop_bit 1 ty)) [0..<n]) u s"
        using Suc.IH [of "drop_bit 1 ty" "e + 1" s] Suc.prems
        by (simp add: bit_drop_bit_eq comp_def)
    qed
    then show ?thesis
      using False unfolding filter_bit_Suc
      by (subst ipi_process_loop.simps) (simp add: flow_fold_map)
  qed (simp add: ipi_process_loop.simps)
qed

text \<open>C35. Processing takes the hart's pending word in one exchange, leaves it zero, and runs the
  process operation of each event in it, once and in order of the event numbers.\<close>

theorem process_runs_pending:
  "sbi_ipi_process ops h s =
     (let t = ipi_device_clear h (snd (sbi_pmu_ctr_incr_fw h SBI_PMU_FW_IPI_RECVD s))
      in flow_fold (\<lambda>e _ s. ipi_run_event ops h e s) (filter (bit (ipi_type s h)) [0..<64]) ()
           (set_ipi_type h 0 t))"
proof -
  have "ipi_type (ipi_device_clear h t) h = ipi_type t h" for t :: "'a ipi_state_scheme"
    by (simp add: ipi_device_clear_def emit_def split: option.splits)
  moreover have "\<not> bit (ipi_type s h) k" if "64 \<le> k" for k
    using word64_bit_less [of "ipi_type s h" k] that by auto
  ultimately show ?thesis
    using process_loop_fold [of 64 "ipi_type s h" ops h 0] by (simp add: sbi_ipi_process_def Let_def)
qed

section \<open>What an event has to keep\<close>

text \<open>
  The contract between this component and the owner of an event: an invariant of the state that
  the triggers do not touch and that the event's own operations keep is kept by every send.
\<close>

locale ipi_sender =
  fixes ops :: "('d, 'a ipi_state_scheme) ipi_ops_table" and I :: "'a ipi_state_scheme \<Rightarrow> bool"
  assumes trigger: "I s \<Longrightarrow> I (ipi_trigger h r e s)"
    and update: "ops_update (ops p) = Some f \<Longrightarrow> I s \<Longrightarrow> I (flow_state (f h r' d s))"
    and sync: "ops_sync (ops p) = Some g \<Longrightarrow> I s \<Longrightarrow> I (flow_state (g h s))"
begin

lemma send: "I s \<Longrightarrow> I (flow_state (sbi_ipi_send ops h r e d s))"
  by (auto simp: sbi_ipi_send_def Let_def trigger update sync
      intro!: flow_bind_state [where I = I] split: option.splits)

lemma send_loop: "I s \<Longrightarrow> I (flow_state (ipi_send_loop ops h i m e d s))"
proof (induction "unat m" arbitrary: i m d s rule: less_induct)
  case less
  have body: "I (flow_state (if m AND 1 \<noteq> 0
      then flow_bind (sbi_ipi_send ops h (ucast i) e d s) (\<lambda>(_, data) s. Ret data s) else Ret d s))"
    using less.prems by (auto intro!: flow_bind_state [where I = I] send)
  show ?case
  proof (cases "m = 0")
    case True
    then show ?thesis using less.prems by (simp add: ipi_send_loop.simps)
  next
    case False
    have "I (flow_state (flow_bind (if m AND 1 \<noteq> 0
      then flow_bind (sbi_ipi_send ops h (ucast i) e d s) (\<lambda>(_, data) s. Ret data s) else Ret d s)
      (\<lambda>data s. ipi_send_loop ops h (i + 1) (drop_bit 1 m) e data s)))"
      using body by (rule flow_bind_state) (rule less.hyps [OF unat_drop_bit_1_less [OF False]])
    then show ?thesis using False by (subst ipi_send_loop.simps) simp
  qed
qed

lemma send_windows: "I s \<Longrightarrow> I (flow_state (ipi_send_windows n ops h dm hbase e d s))"
proof (induction n arbitrary: hbase d s)
  case (Suc n)
  then show ?case
    by (auto simp: case_prod_unfold Let_def intro!: flow_bind_state [where I = I] send_loop)
qed simp

lemma send_many: "I s \<Longrightarrow> I (flow_state (sbi_ipi_send_many ops h hmask hbase e d s))"
  by (auto simp: sbi_ipi_send_many_def case_prod_unfold Let_def
      intro!: flow_bind_state [where I = I] send_loop send_windows)

end

text \<open>The receiving side: the invariant also survives the exchange of the pending word and the
  process operations.\<close>

locale ipi_receiver = ipi_sender +
  assumes taken: "I s \<Longrightarrow> I (set_ipi_type h v s)"
    and cleared: "I s \<Longrightarrow> I (ipi_device_clear h s)"
    and counted: "I s \<Longrightarrow> I (snd (sbi_pmu_ctr_incr_fw h c s))"
    and process: "ops_process (ops p) = Some k \<Longrightarrow> I s \<Longrightarrow> I (flow_state (k h s))"
begin

lemma run_event: "I s \<Longrightarrow> I (flow_state (ipi_run_event ops h e s))"
  by (auto simp: ipi_run_event_def process split: option.splits)

lemma process_loop: "I s \<Longrightarrow> I (flow_state (ipi_process_loop ops h ty e s))"
proof (induction "unat ty" arbitrary: ty e s rule: less_induct)
  case less
  show ?case
  proof (cases "ty = 0")
    case True
    then show ?thesis using less.prems by (simp add: ipi_process_loop.simps)
  next
    case False
    have "I (flow_state (if ty AND 1 \<noteq> 0 then ipi_run_event ops h e s else Ret () s))"
      using less.prems by (simp add: run_event)
    then have "I (flow_state (flow_bind (if ty AND 1 \<noteq> 0 then ipi_run_event ops h e s else Ret () s)
        (\<lambda>_ s. ipi_process_loop ops h (drop_bit 1 ty) (e + 1) s)))"
      by (rule flow_bind_state) (rule less.hyps [OF unat_drop_bit_1_less [OF False]])
    then show ?thesis using False by (subst ipi_process_loop.simps) simp
  qed
qed

lemma process_all: "I s \<Longrightarrow> I (flow_state (sbi_ipi_process ops h s))"
  by (simp add: sbi_ipi_process_def Let_def process_loop taken cleared counted)

end

end
