(* ===== verification/Sbi_Tlb.thy ===== *)
theory Sbi_Tlb
  imports Sbi_Ipi_Send Sbi_Fifo
begin

text \<open>
  \<^verbatim>\<open>lib/sbi/sbi_tlb.c\<close>: remote fences. A request is a record with the fence to execute, its range,
  and the mask of the harts that wait for it; every hart has a queue of requests (\<open>Sbi_Fifo\<close>), a
  synchronisation flag, and an IPI event whose operations are defined here.

  Three loops of the component wait for another hart. They take \<open>env\<close>, what the other harts do
  during one round of the loop, and a number of rounds; when the rounds are used up the hart is
  still waiting, which is \<open>Hang\<close>. The proofs are in \<^verbatim>\<open>Sbi_Tlb_Requests\<close> and \<^verbatim>\<open>Sbi_Tlb_Queues\<close>.
\<close>

section \<open>State\<close>

abbreviation (input) SBI_TLB_FLUSH_ALL :: ulong where "SBI_TLB_FLUSH_ALL \<equiv> - 1"
abbreviation (input) SBI_TLB_FIFO_NUM_ENTRIES :: u16 where "SBI_TLB_FIFO_NUM_ENTRIES \<equiv> 8"
abbreviation (input) SBI_TLB_INFO_SIZE :: u16 where "SBI_TLB_INFO_SIZE \<equiv> 56"
abbreviation (input) PAGE_SIZE :: ulong where "PAGE_SIZE \<equiv> 4096"

text \<open>The seven functions a request can name.\<close>

datatype tlb_fn =
    Local_hfence_vvma
  | Local_hfence_gvma
  | Local_sfence_vma
  | Local_hfence_vvma_asid
  | Local_hfence_gvma_vmid
  | Local_sfence_vma_asid
  | Local_fence_i

record sbi_tlb_info =
  ti_start :: ulong
  ti_size :: ulong
  ti_asid :: ulong
  ti_vmid :: ulong
  local_fn :: "tlb_fn option"
  smask :: sbi_hartmask

definition SBI_TLB_INFO_INIT ::
  "ulong \<Rightarrow> ulong \<Rightarrow> ulong \<Rightarrow> ulong \<Rightarrow> tlb_fn \<Rightarrow> nat \<Rightarrow> sbi_tlb_info" where
  "SBI_TLB_INFO_INIT st sz asid vmid lfn src =
     \<lparr>ti_start = st, ti_size = sz, ti_asid = asid, ti_vmid = vmid, local_fn = Some lfn,
      smask = sbi_hartmask_init_except sbi_hartmask_empty src\<rparr>"

definition tlb_info_zero :: sbi_tlb_info where
  "tlb_info_zero = \<lparr>ti_start = 0, ti_size = 0, ti_asid = 0, ti_vmid = 0, local_fn = None,
     smask = sbi_hartmask_empty\<rparr>"

record tlb_state = ipi_state +
  tlb_sync_off :: ulong
  tlb_fifo_off :: ulong
  tlb_fifo_mem_off :: ulong
  tlb_range_flush_limit :: ulong
  tlb_event :: u32
  tlb_sync_flag :: "nat \<Rightarrow> ulong"
  tlb_fifo :: "nat \<Rightarrow> sbi_tlb_info sbi_fifo"

definition set_sync :: "nat \<Rightarrow> ulong \<Rightarrow> 'a tlb_state_scheme \<Rightarrow> 'a tlb_state_scheme" where
  "set_sync h v s = s\<lparr>tlb_sync_flag := (tlb_sync_flag s)(h := v)\<rparr>"

definition set_fifo ::
  "nat \<Rightarrow> sbi_tlb_info sbi_fifo option \<Rightarrow> 'a tlb_state_scheme \<Rightarrow> 'a tlb_state_scheme" where
  "set_fifo h f s = (case f of Some q \<Rightarrow> s\<lparr>tlb_fifo := (tlb_fifo s)(h := q)\<rparr> | None \<Rightarrow> s)"

section \<open>Local fences\<close>

text \<open>
  \<^verbatim>\<open>for (i = 0; i < size; i += PAGE_SIZE)\<close>. A size beyond the last page of the address space makes
  \<open>i\<close> wrap to 0, and the loop never ends.
\<close>

function flush_loop ::
  "(ulong \<Rightarrow> fence_op) \<Rightarrow> nat \<Rightarrow> ulong \<Rightarrow> ulong \<Rightarrow> 'a machine_scheme
     \<Rightarrow> (unit, 'a machine_scheme) flow" where
  "flush_loop f h sz i s =
     (if i < sz then
        let s = emit (Ev_fence h (f i)) s in
        if i + PAGE_SIZE \<le> i then Hang s else flush_loop f h sz (i + PAGE_SIZE) s
      else Ret () s)"
  by pat_completeness auto
termination
  by (relation "measure (\<lambda>(_, _, _, i, _). 2 ^ 64 - unat i)")
    (auto simp: not_le word_less_nat_alt unat_u64_less intro!: diff_less_mono2)

declare flush_loop.simps [simp del]

definition csr_swap_hgatp :: "nat \<Rightarrow> ulong \<Rightarrow> 'a machine_scheme \<Rightarrow> ulong \<times> 'a machine_scheme" where
  "csr_swap_hgatp h vmid s = csr_swap h CSR_HGATP (push_bit 44 vmid AND 0x03FFF00000000000) s"

text \<open>The \<open>vvma\<close> fences act on the virtual machine of \<^verbatim>\<open>hgatp\<close>, so they carry its value.\<close>

definition vvma_fence :: "nat \<Rightarrow> (ulong \<Rightarrow> fence_op) \<Rightarrow> 'a machine_scheme \<Rightarrow> fence_op" where
  "vvma_fence h f s = f (csr_read h CSR_HGATP s)"

definition sbi_tlb_local_hfence_vvma ::
  "nat \<Rightarrow> sbi_tlb_info \<Rightarrow> 'a tlb_state_scheme \<Rightarrow> (unit, 'a tlb_state_scheme) flow" where
  "sbi_tlb_local_hfence_vvma h tinfo s =
     (let start = ti_start tinfo; sz = ti_size tinfo;
          s = snd (sbi_pmu_ctr_incr_fw h SBI_PMU_FW_HFENCE_VVMA_RCVD s);
          (hgatp, s) = csr_swap_hgatp h (ti_vmid tinfo) s
      in flow_bind
           (if (start = 0 \<and> sz = 0) \<or> sz = SBI_TLB_FLUSH_ALL
            then Ret () (emit (Ev_fence h (vvma_fence h Hfence_vvma_all s)) s)
            else flush_loop (\<lambda>i. vvma_fence h (\<lambda>g. Hfence_vvma_va g (start + i)) s) h sz 0 s)
           (\<lambda>_ s. Ret () (csr_write h CSR_HGATP hgatp s)))"

definition sbi_tlb_local_hfence_gvma ::
  "nat \<Rightarrow> sbi_tlb_info \<Rightarrow> 'a tlb_state_scheme \<Rightarrow> (unit, 'a tlb_state_scheme) flow" where
  "sbi_tlb_local_hfence_gvma h tinfo s =
     (let start = ti_start tinfo; sz = ti_size tinfo;
          s = snd (sbi_pmu_ctr_incr_fw h SBI_PMU_FW_HFENCE_GVMA_RCVD s)
      in if (start = 0 \<and> sz = 0) \<or> sz = SBI_TLB_FLUSH_ALL
         then Ret () (emit (Ev_fence h Hfence_gvma_all) s)
         else flush_loop (\<lambda>i. Hfence_gvma_gpa (drop_bit 2 (start + i))) h sz 0 s)"

definition sbi_tlb_local_sfence_vma ::
  "nat \<Rightarrow> sbi_tlb_info \<Rightarrow> 'a tlb_state_scheme \<Rightarrow> (unit, 'a tlb_state_scheme) flow" where
  "sbi_tlb_local_sfence_vma h tinfo s =
     (let start = ti_start tinfo; sz = ti_size tinfo;
          s = snd (sbi_pmu_ctr_incr_fw h SBI_PMU_FW_SFENCE_VMA_RCVD s)
      in if (start = 0 \<and> sz = 0) \<or> sz = SBI_TLB_FLUSH_ALL
         then Ret () (emit (Ev_fence h Sfence_vma_all) s)
         else flush_loop (\<lambda>i. Sfence_vma (start + i)) h sz 0 s)"

definition sbi_tlb_local_hfence_vvma_asid ::
  "nat \<Rightarrow> sbi_tlb_info \<Rightarrow> 'a tlb_state_scheme \<Rightarrow> (unit, 'a tlb_state_scheme) flow" where
  "sbi_tlb_local_hfence_vvma_asid h tinfo s =
     (let start = ti_start tinfo; sz = ti_size tinfo; asid = ti_asid tinfo;
          s = snd (sbi_pmu_ctr_incr_fw h SBI_PMU_FW_HFENCE_VVMA_ASID_RCVD s);
          (hgatp, s) = csr_swap_hgatp h (ti_vmid tinfo) s
      in flow_bind
           (if start = 0 \<and> sz = 0
            then Ret () (emit (Ev_fence h (vvma_fence h Hfence_vvma_all s)) s)
            else if sz = SBI_TLB_FLUSH_ALL
            then Ret () (emit (Ev_fence h (vvma_fence h (\<lambda>g. Hfence_vvma_asid g asid) s)) s)
            else flush_loop (\<lambda>i. vvma_fence h (\<lambda>g. Hfence_vvma_asid_va g (start + i) asid) s) h sz 0 s)
           (\<lambda>_ s. Ret () (csr_write h CSR_HGATP hgatp s)))"

definition sbi_tlb_local_hfence_gvma_vmid ::
  "nat \<Rightarrow> sbi_tlb_info \<Rightarrow> 'a tlb_state_scheme \<Rightarrow> (unit, 'a tlb_state_scheme) flow" where
  "sbi_tlb_local_hfence_gvma_vmid h tinfo s =
     (let start = ti_start tinfo; sz = ti_size tinfo; vmid = ti_vmid tinfo;
          s = snd (sbi_pmu_ctr_incr_fw h SBI_PMU_FW_HFENCE_GVMA_VMID_RCVD s)
      in if start = 0 \<and> sz = 0 then Ret () (emit (Ev_fence h Hfence_gvma_all) s)
         else if sz = SBI_TLB_FLUSH_ALL then Ret () (emit (Ev_fence h (Hfence_gvma_vmid vmid)) s)
         else flush_loop (\<lambda>i. Hfence_gvma_vmid_gpa (drop_bit 2 (start + i)) vmid) h sz 0 s)"

definition sbi_tlb_local_sfence_vma_asid ::
  "nat \<Rightarrow> sbi_tlb_info \<Rightarrow> 'a tlb_state_scheme \<Rightarrow> (unit, 'a tlb_state_scheme) flow" where
  "sbi_tlb_local_sfence_vma_asid h tinfo s =
     (let start = ti_start tinfo; sz = ti_size tinfo; asid = ti_asid tinfo;
          s = snd (sbi_pmu_ctr_incr_fw h SBI_PMU_FW_SFENCE_VMA_ASID_RCVD s)
      in if start = 0 \<and> sz = 0 then Ret () (emit (Ev_fence h Sfence_vma_all) s)
         else if sz = SBI_TLB_FLUSH_ALL then Ret () (emit (Ev_fence h (Sfence_vma_asid asid)) s)
         else flush_loop (\<lambda>i. Sfence_vma_va_asid (start + i) asid) h sz 0 s)"

definition sbi_tlb_local_fence_i ::
  "nat \<Rightarrow> sbi_tlb_info \<Rightarrow> 'a tlb_state_scheme \<Rightarrow> (unit, 'a tlb_state_scheme) flow" where
  "sbi_tlb_local_fence_i h tinfo s =
     (let s = snd (sbi_pmu_ctr_incr_fw h SBI_PMU_FW_FENCE_I_RECVD s)
      in Ret () (emit (Ev_fence h Fence_i) s))"

text \<open>The call through \<^verbatim>\<open>tinfo->local_fn\<close>; a NULL pointer is never called.\<close>

fun tlb_call_fn ::
  "tlb_fn option \<Rightarrow> nat \<Rightarrow> sbi_tlb_info \<Rightarrow> 'a tlb_state_scheme \<Rightarrow> (unit, 'a tlb_state_scheme) flow"
where
  "tlb_call_fn None h tinfo s = Undef s"
| "tlb_call_fn (Some Local_hfence_vvma) h tinfo s = sbi_tlb_local_hfence_vvma h tinfo s"
| "tlb_call_fn (Some Local_hfence_gvma) h tinfo s = sbi_tlb_local_hfence_gvma h tinfo s"
| "tlb_call_fn (Some Local_sfence_vma) h tinfo s = sbi_tlb_local_sfence_vma h tinfo s"
| "tlb_call_fn (Some Local_hfence_vvma_asid) h tinfo s = sbi_tlb_local_hfence_vvma_asid h tinfo s"
| "tlb_call_fn (Some Local_hfence_gvma_vmid) h tinfo s = sbi_tlb_local_hfence_gvma_vmid h tinfo s"
| "tlb_call_fn (Some Local_sfence_vma_asid) h tinfo s = sbi_tlb_local_sfence_vma_asid h tinfo s"
| "tlb_call_fn (Some Local_fence_i) h tinfo s = sbi_tlb_local_fence_i h tinfo s"

fun tlb_sent_event :: "tlb_fn \<Rightarrow> nat" where
  "tlb_sent_event Local_fence_i = SBI_PMU_FW_FENCE_I_SENT"
| "tlb_sent_event Local_sfence_vma = SBI_PMU_FW_SFENCE_VMA_SENT"
| "tlb_sent_event Local_sfence_vma_asid = SBI_PMU_FW_SFENCE_VMA_ASID_SENT"
| "tlb_sent_event Local_hfence_gvma = SBI_PMU_FW_HFENCE_GVMA_SENT"
| "tlb_sent_event Local_hfence_gvma_vmid = SBI_PMU_FW_HFENCE_GVMA_VMID_SENT"
| "tlb_sent_event Local_hfence_vvma = SBI_PMU_FW_HFENCE_VVMA_SENT"
| "tlb_sent_event Local_hfence_vvma_asid = SBI_PMU_FW_HFENCE_VVMA_ASID_SENT"

definition tlb_pmu_incr_fw_ctr :: "nat \<Rightarrow> sbi_tlb_info \<Rightarrow> 'a tlb_state_scheme \<Rightarrow> 'a tlb_state_scheme"
where
  "tlb_pmu_incr_fw_ctr h data s =
     (case local_fn data of
        Some f \<Rightarrow> snd (sbi_pmu_ctr_incr_fw h (tlb_sent_event f) s)
      | None \<Rightarrow> s)"

section \<open>Processing requests\<close>

text \<open>\<^verbatim>\<open>while (atomic_raw_xchg_ulong(rtlb_sync, 1)) ;\<close>\<close>

fun tlb_set_sync ::
  "('a tlb_state_scheme \<Rightarrow> 'a tlb_state_scheme) \<Rightarrow> nat \<Rightarrow> nat \<Rightarrow> 'a tlb_state_scheme
     \<Rightarrow> (unit, 'a tlb_state_scheme) flow" where
  "tlb_set_sync env 0 rh s = Hang s"
| "tlb_set_sync env (Suc n) rh s =
     (let old = tlb_sync_flag s rh; s = set_sync rh 1 s
      in if old = 0 then Ret () s else tlb_set_sync env n rh (env s))"

definition tlb_entry_process ::
  "('a tlb_state_scheme \<Rightarrow> 'a tlb_state_scheme) \<Rightarrow> nat \<Rightarrow> nat \<Rightarrow> sbi_tlb_info \<Rightarrow> 'a tlb_state_scheme
     \<Rightarrow> (unit, 'a tlb_state_scheme) flow" where
  "tlb_entry_process env n h tinfo s =
     flow_bind (tlb_call_fn (local_fn tinfo) h tinfo s) (\<lambda>_ s.
       flow_fold (\<lambda>rhartid _ s. if \<not> scratch_tab s rhartid then Ret () s
                               else tlb_set_sync env n rhartid s)
         (sbi_hartmask_for_each_hart (smask tinfo)) () s)"

definition tlb_dequeue ::
  "nat \<Rightarrow> 'a tlb_state_scheme \<Rightarrow> sbi_tlb_info option \<times> 'a tlb_state_scheme" where
  "tlb_dequeue h s =
     (case sbi_fifo_dequeue (Some (tlb_fifo s h)) (Some tlb_info_zero) of (ret, data, q) \<Rightarrow>
        (if ret = 0 then data else None, set_fifo h q s))"

text \<open>The count is compared after the increment, so one more request than \<open>cnt\<close> is processed; \<open>m\<close>
  bounds the rounds, and \<open>cnt + 1\<close> are enough, because the last of them leaves the loop.\<close>

fun tlb_process_count_loop ::
  "('a tlb_state_scheme \<Rightarrow> 'a tlb_state_scheme) \<Rightarrow> nat \<Rightarrow> nat \<Rightarrow> nat \<Rightarrow> nat \<Rightarrow> nat
     \<Rightarrow> 'a tlb_state_scheme \<Rightarrow> (unit, 'a tlb_state_scheme) flow" where
  "tlb_process_count_loop env n 0 h cnt deq_count s = Hang s"
| "tlb_process_count_loop env n (Suc m) h cnt deq_count s =
     (case tlb_dequeue h s of (data, s) \<Rightarrow>
        (case data of
           None \<Rightarrow> Ret () s
         | Some tinfo \<Rightarrow>
             flow_bind (tlb_entry_process env n h tinfo s) (\<lambda>_ s.
               if cnt < deq_count + 1 then Ret () s
               else tlb_process_count_loop env n m h cnt (deq_count + 1) s)))"

definition tlb_process_count ::
  "('a tlb_state_scheme \<Rightarrow> 'a tlb_state_scheme) \<Rightarrow> nat \<Rightarrow> nat \<Rightarrow> nat \<Rightarrow> 'a tlb_state_scheme
     \<Rightarrow> (unit, 'a tlb_state_scheme) flow" where
  "tlb_process_count env n h cnt s = tlb_process_count_loop env n (cnt + 1) h cnt 0 s"

fun tlb_process ::
  "('a tlb_state_scheme \<Rightarrow> 'a tlb_state_scheme) \<Rightarrow> nat \<Rightarrow> nat \<Rightarrow> nat \<Rightarrow> 'a tlb_state_scheme
     \<Rightarrow> (unit, 'a tlb_state_scheme) flow" where
  "tlb_process env n 0 h s = Hang s"
| "tlb_process env n (Suc m) h s =
     (case tlb_dequeue h s of (data, s) \<Rightarrow>
        (case data of
           None \<Rightarrow> Ret () s
         | Some tinfo \<Rightarrow>
             flow_bind (tlb_entry_process env n h tinfo s) (\<lambda>_ s. tlb_process env n m h s)))"

fun tlb_sync ::
  "('a tlb_state_scheme \<Rightarrow> 'a tlb_state_scheme) \<Rightarrow> nat \<Rightarrow> nat \<Rightarrow> nat \<Rightarrow> 'a tlb_state_scheme
     \<Rightarrow> (unit, 'a tlb_state_scheme) flow" where
  "tlb_sync env n 0 h s = Hang s"
| "tlb_sync env n (Suc m) h s =
     (let old = tlb_sync_flag s h; s = set_sync h 0 s
      in if old \<noteq> 0 then Ret () s
         else flow_bind (tlb_process_count env n h 1 s) (\<lambda>_ s. tlb_sync env n m h (env s)))"

section \<open>Queueing requests\<close>

definition tlb_range_check ::
  "sbi_tlb_info \<Rightarrow> sbi_tlb_info \<Rightarrow> sbi_fifo_inplace_update_types \<times> sbi_tlb_info" where
  "tlb_range_check cur next =
     (let next_end = ti_start next + ti_size next;
          curr_end = ti_start cur + ti_size cur
      in if ti_start next \<le> ti_start cur \<and> curr_end < next_end then
           (SBI_FIFO_UPDATED,
            cur\<lparr>ti_start := ti_start next, ti_size := ti_size next,
                 smask := sbi_hartmask_or (smask cur) (smask cur) (smask next)\<rparr>)
         else if ti_start cur \<le> ti_start next \<and> next_end \<le> curr_end then
           (SBI_FIFO_SKIP,
            cur\<lparr>smask := sbi_hartmask_or (smask cur) (smask cur) (smask next)\<rparr>)
         else (SBI_FIFO_UNCHANGED, cur))"

definition tlb_update_cb ::
  "sbi_tlb_info \<Rightarrow> sbi_tlb_info \<Rightarrow> sbi_fifo_inplace_update_types \<times> sbi_tlb_info" where
  "tlb_update_cb next cur =
     (if local_fn next = Some Local_sfence_vma_asid \<and> local_fn cur = Some Local_sfence_vma_asid then
        (if ti_asid next = ti_asid cur then tlb_range_check cur next else (SBI_FIFO_UNCHANGED, cur))
      else if local_fn next = Some Local_sfence_vma \<and> local_fn cur = Some Local_sfence_vma
      then tlb_range_check cur next
      else (SBI_FIFO_UNCHANGED, cur))"

fun tlb_enqueue_loop ::
  "('a tlb_state_scheme \<Rightarrow> 'a tlb_state_scheme) \<Rightarrow> nat \<Rightarrow> nat \<Rightarrow> nat \<Rightarrow> nat \<Rightarrow> sbi_tlb_info
     \<Rightarrow> 'a tlb_state_scheme \<Rightarrow> (unit, 'a tlb_state_scheme) flow" where
  "tlb_enqueue_loop env n 0 h rh data s = Hang s"
| "tlb_enqueue_loop env n (Suc m) h rh data s =
     (case sbi_fifo_enqueue (Some (tlb_fifo s rh)) (Some data) of (ret, q) \<Rightarrow>
        (let s = set_fifo rh q s
         in if 0 \<le> ret then Ret () s
            else flow_bind (tlb_process_count env n h 1 s)
                   (\<lambda>_ s. tlb_enqueue_loop env n m h rh data (env s))))"

definition tlb_limit_range :: "ulong \<Rightarrow> sbi_tlb_info \<Rightarrow> sbi_tlb_info" where
  "tlb_limit_range limit tinfo =
     (if limit < ti_size tinfo then tinfo\<lparr>ti_start := 0, ti_size := SBI_TLB_FLUSH_ALL\<rparr> else tinfo)"

definition tlb_update ::
  "('a tlb_state_scheme \<Rightarrow> 'a tlb_state_scheme) \<Rightarrow> nat \<Rightarrow> nat \<Rightarrow> nat \<Rightarrow> sbi_tlb_info
     \<Rightarrow> 'a tlb_state_scheme \<Rightarrow> (int \<times> sbi_tlb_info, 'a tlb_state_scheme) flow" where
  "tlb_update env n h rh data s =
     (let tinfo = tlb_limit_range (tlb_range_flush_limit s) data in
      if rh = h then
        flow_bind (tlb_call_fn (local_fn tinfo) h tinfo s) (\<lambda>_ s. Ret (- 1, tinfo) s)
      else
        case sbi_fifo_inplace_update (Some (tlb_fifo s rh)) (Some tinfo) tlb_update_cb of (ret, q) \<Rightarrow>
          (let s = set_fifo rh q s
           in if ret \<noteq> SBI_FIFO_UNCHANGED then Ret (1, tinfo) s
              else flow_bind (tlb_enqueue_loop env n n h rh tinfo s) (\<lambda>_ s. Ret (0, tinfo) s)))"

section \<open>The event and its users\<close>

text \<open>The three records of IPI operations of the library. \<open>exit\<close> is \<^verbatim>\<open>sbi_exit\<close>.\<close>

definition sbi_ipi_ops ::
  "('a tlb_state_scheme \<Rightarrow> 'a tlb_state_scheme) \<Rightarrow> nat
     \<Rightarrow> (nat \<Rightarrow> 'a tlb_state_scheme \<Rightarrow> (unit, 'a tlb_state_scheme) flow)
     \<Rightarrow> (sbi_tlb_info, 'a tlb_state_scheme) sbi_ipi_event_ops list" where
  "sbi_ipi_ops env n exit =
     [\<lparr>ops_update = None, ops_sync = None, ops_process = Some sbi_ipi_process_smode\<rparr>,
      \<lparr>ops_update = None, ops_sync = None, ops_process = Some (sbi_ipi_process_halt exit)\<rparr>,
      \<lparr>ops_update = Some (tlb_update env n), ops_sync = Some (tlb_sync env n n),
       ops_process = Some (tlb_process env n n)\<rparr>]"

text \<open>An id that no record has is a record without operations; the array never holds one.\<close>

definition sbi_ipi_table ::
  "('a tlb_state_scheme \<Rightarrow> 'a tlb_state_scheme) \<Rightarrow> nat
     \<Rightarrow> (nat \<Rightarrow> 'a tlb_state_scheme \<Rightarrow> (unit, 'a tlb_state_scheme) flow)
     \<Rightarrow> (sbi_tlb_info, 'a tlb_state_scheme) ipi_ops_table" where
  "sbi_ipi_table env n exit p =
     (if p < 3 then sbi_ipi_ops env n exit ! p
      else \<lparr>ops_update = None, ops_sync = None, ops_process = None\<rparr>)"

definition sbi_tlb_request ::
  "(sbi_tlb_info, 'a tlb_state_scheme) ipi_ops_table \<Rightarrow> nat \<Rightarrow> ulong \<Rightarrow> ulong \<Rightarrow> sbi_tlb_info
     \<Rightarrow> 'a tlb_state_scheme \<Rightarrow> (int, 'a tlb_state_scheme) flow" where
  "sbi_tlb_request ops h hmask hbase tinfo s =
     (if local_fn tinfo = None then Ret SBI_EINVAL s
      else
        let s = tlb_pmu_incr_fw_ctr h tinfo s
        in sbi_ipi_send_many ops h hmask hbase (unat (tlb_event s)) tinfo s)"

definition tlb_init_hart :: "nat \<Rightarrow> 'a tlb_state_scheme \<Rightarrow> int \<times> 'a tlb_state_scheme" where
  "tlb_init_hart h s =
     (0, set_fifo h (Some (sbi_fifo_init tlb_info_zero SBI_TLB_FIFO_NUM_ENTRIES SBI_TLB_INFO_SIZE))
           (set_sync h 0 s))"

definition sbi_tlb_init :: "nat \<Rightarrow> bool \<Rightarrow> 'a tlb_state_scheme \<Rightarrow> int \<times> 'a tlb_state_scheme" where
  "sbi_tlb_init h cold_boot s =
     (if cold_boot then
        let (o1, s) = sbi_scratch_alloc_offset 8 s; s = s\<lparr>tlb_sync_off := o1\<rparr> in
        if o1 = 0 then (SBI_ENOMEM, s) else
        let (o2, s) = sbi_scratch_alloc_offset 24 s; s = s\<lparr>tlb_fifo_off := o2\<rparr> in
        if o2 = 0 then (SBI_ENOMEM, sbi_scratch_free_offset o1 s) else
        let (o3, s) = sbi_scratch_alloc_offset (8 * ucast SBI_TLB_INFO_SIZE) s;
            s = s\<lparr>tlb_fifo_mem_off := o3\<rparr> in
        if o3 = 0 then (SBI_ENOMEM, sbi_scratch_free_offset o1 (sbi_scratch_free_offset o2 s)) else
        let (ret, s) = sbi_ipi_event_create (Some tlb_ops) True s in
        if ret < 0 then
          (ret, sbi_scratch_free_offset o1 (sbi_scratch_free_offset o2 (sbi_scratch_free_offset o3 s)))
        else
          tlb_init_hart h (s\<lparr>tlb_event := word_of_int ret,
             tlb_range_flush_limit := sbi_platform_tlbr_flush_limit (Some (platform s))\<rparr>)
      else if tlb_sync_off s = 0 \<or> tlb_fifo_off s = 0 \<or> tlb_fifo_mem_off s = 0 then (SBI_ENOMEM, s)
      else if 64 \<le> tlb_event s then (SBI_ENOSPC, s)
      else tlb_init_hart h s)"

lemmas tlb_local_defs = sbi_tlb_local_hfence_vvma_def sbi_tlb_local_hfence_gvma_def
  sbi_tlb_local_sfence_vma_def sbi_tlb_local_hfence_vvma_asid_def
  sbi_tlb_local_hfence_gvma_vmid_def sbi_tlb_local_sfence_vma_asid_def sbi_tlb_local_fence_i_def

section \<open>A small state for concrete runs\<close>

definition tlb0 :: tlb_state where
  "tlb0 = ipi_state.extend ipi0
     \<lparr>tlb_sync_off = 136, tlb_fifo_off = 144, tlb_fifo_mem_off = 168, tlb_range_flush_limit = 4096,
      tlb_event = 2, tlb_sync_flag = (\<lambda>h. 0), tlb_fifo = (\<lambda>h. sbi_fifo_init tlb_info_zero 8 56)\<rparr>"

lemmas tlb0_defs = ipi0_defs tlb0_def tlb_state.defs

end
