(* ===== verification/Sbi_Tlb_Requests.thy ===== *)
theory Sbi_Tlb_Requests
  imports Sbi_Tlb
begin

text \<open>
  Single requests: which fences a local flush executes, and what merging a request into a queued
  one does to the addresses both of them cover.
\<close>

section \<open>The pages of a range\<close>

definition page_fences :: "(ulong \<Rightarrow> fence_op) \<Rightarrow> nat \<Rightarrow> ulong \<Rightarrow> hw_event list" where
  "page_fences f h sz = map (\<lambda>k. Ev_fence h (f (of_nat (4096 * k)))) [0..<(unat sz + 4095) div 4096]"

lemma flush_loop_from:
  assumes "unat sz \<le> 2 ^ 64 - 4096" "k \<le> (unat sz + 4095) div 4096"
  shows "flush_loop f h sz (of_nat (4096 * k)) s = Ret ()
    (s\<lparr>trace := trace s @ map (\<lambda>k. Ev_fence h (f (of_nat (4096 * k)))) [k..<(unat sz + 4095) div 4096]\<rparr>)"
  using assms(2)
proof (induction "(unat sz + 4095) div 4096 - k" arbitrary: k s)
  case 0
  then have k: "k = (unat sz + 4095) div 4096" by simp
  then have "unat sz \<le> 4096 * k" "4096 * k < 2 ^ 64" using assms(1) by (auto simp: algebra_simps)
  then have "\<not> (of_nat (4096 * k) :: ulong) < sz"
    by (simp add: word_less_nat_alt unat_of_nat del: of_nat_mult)
  then show ?case using k by (subst flush_loop.simps) simp
next
  case (Suc d)
  let ?n = "(unat sz + 4095) div 4096" and ?i = "of_nat (4096 * k) :: ulong"
  have k: "k < ?n" using Suc.hyps(2) by simp
  then have lt: "4096 * k < unat sz" by linarith
  then have b: "4096 * k + 4096 < 2 ^ 64" using assms(1) by simp
  have u: "unat ?i = 4096 * k" using b by (simp add: unat_of_nat del: of_nat_mult)
  have nx: "?i + 4096 = of_nat (4096 * Suc k)" by (simp add: algebra_simps)
  have un: "unat (?i + 4096) = 4096 * k + 4096"
  proof -
    have "unat (of_nat (4096 * Suc k) :: ulong) = 4096 * Suc k"
      using b by (subst unat_of_nat) simp
    then show ?thesis unfolding nx by (metis mult_Suc_right add.commute)
  qed
  have "?i < sz" "\<not> ?i + 4096 \<le> ?i"
    using lt by (simp_all only: word_less_nat_alt word_le_nat_alt u un not_le)
  then have "flush_loop f h sz ?i s
      = flush_loop f h sz (of_nat (4096 * Suc k)) (emit (Ev_fence h (f ?i)) s)"
    by (subst flush_loop.simps) (simp only: Let_def if_True if_False nx)
  also have "\<dots> = Ret () (s\<lparr>trace := trace s @ map (\<lambda>k. Ev_fence h (f (of_nat (4096 * k)))) [k..<?n]\<rparr>)"
    using Suc k by (subst Suc.hyps(1)) (simp_all add: emit_def upt_conv_Cons del: of_nat_mult of_nat_Suc)
  finally show ?case .
qed

lemma flush_loop_pages:
  assumes "unat sz \<le> 2 ^ 64 - 4096"
  shows "flush_loop f h sz 0 s = Ret () (s\<lparr>trace := trace s @ page_fences f h sz\<rparr>)"
  using flush_loop_from [OF assms, of 0 f h s] by (simp add: page_fences_def)

text \<open>Beyond that the loop counter wraps around.\<close>

lemma flush_loop_wraps_from:
  assumes "2 ^ 64 - 4096 < unat sz" "k < 2 ^ 52"
  shows "\<not> returns (flush_loop f h sz (of_nat (4096 * k)) s)"
  using assms(2)
proof (induction "2 ^ 52 - k" arbitrary: k s)
  case (Suc d)
  let ?i = "of_nat (4096 * k) :: ulong"
  have u: "unat ?i = 4096 * k" using Suc.prems by (simp add: unat_of_nat del: of_nat_mult)
  then have lt: "?i < sz" using assms(1) Suc.prems by (simp add: word_less_nat_alt)
  have nx: "?i + 4096 = of_nat (4096 * Suc k)" by (simp add: algebra_simps)
  show ?case
  proof (cases "?i + 4096 \<le> ?i")
    case True
    then show ?thesis using lt by (subst flush_loop.simps) (simp only: Let_def if_True returns.simps not_False_eq_True)
  next
    case False
    have "Suc k < 2 ^ 52"
    proof (rule ccontr)
      assume "\<not> Suc k < 2 ^ 52"
      then have k: "k = 2 ^ 52 - 1" using Suc.prems by simp
      have "?i + 4096 = 0" unfolding nx k by simp
      then show False using False by simp
    qed
    moreover have "d = 2 ^ 52 - Suc k" using Suc.hyps(2) by simp
    ultimately have "\<not> returns (flush_loop f h sz (of_nat (4096 * Suc k)) (emit (Ev_fence h (f ?i)) s))"
      by (intro Suc.hyps(1))
    then show ?thesis using lt False
      by (subst flush_loop.simps) (simp only: Let_def if_True if_False nx not_False_eq_True)
  qed
qed simp

lemma flush_loop_wraps: "2 ^ 64 - 4096 < unat sz \<Longrightarrow> \<not> returns (flush_loop f h sz 0 s)"
  using flush_loop_wraps_from [of sz 0 f h s] by simp

text \<open>Every address of the range lies in a page that one of the fences names, when the range starts
  at a page boundary.\<close>

lemma page_fences_cover:
  fixes start a sz :: ulong
  assumes "unat start mod 4096 = 0" "unat start + unat sz \<le> 2 ^ 64" "start \<le> a"
    and "unat a < unat start + unat sz"
  shows "\<exists>k. Ev_fence h (f (of_nat (4096 * k))) \<in> set (page_fences f h sz)
    \<and> unat (start + of_nat (4096 * k)) div 4096 = unat a div 4096"
proof -
  define k where "k = (unat a - unat start) div 4096"
  have le: "unat start \<le> unat a" using assms(3) by (simp add: word_le_nat_alt)
  have k: "4096 * k \<le> unat a - unat start" "unat a - unat start < 4096 * k + 4096"
    by (auto simp: k_def)
  then have "4096 * k < unat sz" using assms(4) le by linarith
  then have "k < (unat sz + 4095) div 4096" by linarith
  then have "Ev_fence h (f (of_nat (4096 * k))) \<in> set (page_fences f h sz)"
    by (auto simp: page_fences_def)
  moreover have "unat (start + of_nat (4096 * k)) = unat start + 4096 * k"
  proof -
    have b: "unat start + 4096 * k < 2 ^ 64" using k le unat_u64_less [of a] by simp
    then have "unat (of_nat (4096 * k) :: ulong) = 4096 * k"
      by (simp add: unat_of_nat del: of_nat_mult)
    then show ?thesis using b by (simp add: unat_word_ariths del: of_nat_mult)
  qed
  moreover have "(unat start + 4096 * k) div 4096 = unat a div 4096"
  proof -
    obtain q where q: "unat start = 4096 * q" using assms(1) by (auto elim!: dvdE simp: mod_eq_0_iff_dvd)
    have "unat a div 4096 = q + k"
      by (rule div_nat_eqI) (use k le q in \<open>simp_all add: algebra_simps\<close>)
    then show ?thesis by (simp add: q)
  qed
  ultimately show ?thesis by metis
qed

section \<open>Properties of a local flush\<close>

text \<open>What the supervisor address translation flush of a request comes to.\<close>

definition sfence_events :: "nat \<Rightarrow> sbi_tlb_info \<Rightarrow> hw_event list" where
  "sfence_events h tinfo =
     (if ti_start tinfo = 0 \<and> ti_size tinfo = 0 \<or> ti_size tinfo = SBI_TLB_FLUSH_ALL
      then [Ev_fence h Sfence_vma_all]
      else page_fences (\<lambda>i. Sfence_vma (ti_start tinfo + i)) h (ti_size tinfo))"

text \<open>A local \<^verbatim>\<open>sfence.vma\<close> request returns exactly when its size does not reach into the last page
  of the address space (or asks for everything); then it has counted the event and executed the one
  global fence, or one fence per page of the range in ascending order, and changed nothing else.\<close>

theorem local_sfence_vma_returns:
  "sbi_tlb_local_sfence_vma h tinfo s =
     (let t = snd (sbi_pmu_ctr_incr_fw h SBI_PMU_FW_SFENCE_VMA_RCVD s)
      in Ret () (t\<lparr>trace := trace s @ sfence_events h tinfo\<rparr>))
   \<longleftrightarrow> (ti_size tinfo = SBI_TLB_FLUSH_ALL \<or> ti_size tinfo \<le> - 4096)"
proof -
  let ?t = "snd (sbi_pmu_ctr_incr_fw h SBI_PMU_FW_SFENCE_VMA_RCVD s)"
  let ?f = "\<lambda>i. Sfence_vma (ti_start tinfo + i)"
  have sz: "ti_size tinfo \<le> - 4096 \<longleftrightarrow> unat (ti_size tinfo) \<le> 2 ^ 64 - 4096"
    by (simp add: word_le_nat_alt)
  show ?thesis
  proof (cases "ti_start tinfo = 0 \<and> ti_size tinfo = 0 \<or> ti_size tinfo = SBI_TLB_FLUSH_ALL")
    case True
    then show ?thesis by (auto simp: sbi_tlb_local_sfence_vma_def Let_def sfence_events_def emit_def)
  next
    case False
    then have d: "sbi_tlb_local_sfence_vma h tinfo s = flush_loop ?f h (ti_size tinfo) 0 ?t"
      and e: "sfence_events h tinfo = page_fences ?f h (ti_size tinfo)"
      by (auto simp: sbi_tlb_local_sfence_vma_def sfence_events_def Let_def)
    show ?thesis
    proof (cases "unat (ti_size tinfo) \<le> 2 ^ 64 - 4096")
      case True
      then show ?thesis using sz unfolding d e flush_loop_pages [OF True] Let_def by simp
    next
      case nle: False
      then have "\<not> returns (flush_loop ?f h (ti_size tinfo) 0 ?t)"
        by (intro flush_loop_wraps) simp
      then show ?thesis using sz nle False unfolding d Let_def by (metis returns.simps(1))
    qed
  qed
qed

section \<open>Merging requests\<close>

text \<open>The addresses a request covers.\<close>

definition covers :: "sbi_tlb_info \<Rightarrow> ulong set" where
  "covers t = (if ti_start t = 0 \<and> ti_size t = 0 \<or> ti_size t = SBI_TLB_FLUSH_ALL then UNIV
     else {a. ti_start t \<le> a \<and> unat a < unat (ti_start t) + unat (ti_size t)})"

definition tlb_range_ok :: "sbi_tlb_info \<Rightarrow> bool" where
  "tlb_range_ok t \<longleftrightarrow> unat (ti_start t) + unat (ti_size t) < 2 ^ 64
     \<and> \<not> (ti_start t = 0 \<and> ti_size t = 0)"

lemma range_end:
  assumes "tlb_range_ok t"
  shows "unat (ti_start t + ti_size t) = unat (ti_start t) + unat (ti_size t)"
  using assms by (simp add: tlb_range_ok_def unat_word_ariths)

lemma unat_m1: "unat (- 1 :: ulong) = 2 ^ 64 - 1"
  by (simp add: unsigned_minus_1_eq_mask mask_eq_exp_minus_1)

lemma flush_all_range:
  assumes "tlb_range_ok t" "ti_size t = SBI_TLB_FLUSH_ALL"
  shows "unat (ti_start t) = 0" "unat (ti_size t) = 2 ^ 64 - 1"
  using assms by (simp_all add: tlb_range_ok_def unat_m1)

lemma covers_mono:
  assumes "tlb_range_ok t" "tlb_range_ok u" "unat (ti_start u) \<le> unat (ti_start t)"
    and "unat (ti_start t) + unat (ti_size t) \<le> unat (ti_start u) + unat (ti_size u)"
  shows "covers t \<subseteq> covers u"
proof (cases "ti_size t = SBI_TLB_FLUSH_ALL")
  case True
  note f = flush_all_range [OF assms(1) True]
  have "unat (ti_size u) = 2 ^ 64 - 1" using f assms(3,4) unat_u64_less [of "ti_size u"] by simp
  then have "ti_size u = SBI_TLB_FLUSH_ALL" by (simp add: word_unat_eq_iff unat_m1)
  then show ?thesis by (simp add: covers_def)
next
  case False
  then show ?thesis
    using assms by (auto simp: covers_def tlb_range_ok_def word_le_nat_alt)
qed

text \<open>Merging two requests whose ranges do not wrap around, neither of them the special request
  of start 0 and size 0: whatever the outcome, the queued request goes on covering what it covered;
  when the new one is not queued, the queued one covers it too, and its waiting harts are
  added to the harts that wait for the queued request.\<close>

lemma range_check_keeps_coverage:
  assumes "tlb_range_ok cur" "tlb_range_ok next" "hm_wf (smask cur)"
    and "tlb_range_check cur next = (ret, cur')"
  shows "covers cur \<subseteq> covers cur' \<and> (ret \<noteq> SBI_FIFO_UNCHANGED \<longrightarrow> covers next \<subseteq> covers cur'
      \<and> hm_set (smask cur') = hm_set (smask cur) \<union> hm_set (smask next))"
proof -
  note e = range_end [OF assms(1)] range_end [OF assms(2)]
  have same: "covers (t\<lparr>smask := m\<rparr>) = covers t" for t m by (simp add: covers_def)
  have nx: "covers (cur\<lparr>ti_start := ti_start next, ti_size := ti_size next, smask := m\<rparr>) = covers next"
    for m by (simp add: covers_def)
  consider (upd) "ti_start next \<le> ti_start cur" "ti_start cur + ti_size cur < ti_start next + ti_size next"
    | (skip) "\<not> (ti_start next \<le> ti_start cur \<and> ti_start cur + ti_size cur < ti_start next + ti_size next)"
      "ti_start cur \<le> ti_start next" "ti_start next + ti_size next \<le> ti_start cur + ti_size cur"
    | (none) "\<not> (ti_start next \<le> ti_start cur \<and> ti_start cur + ti_size cur < ti_start next + ti_size next)"
      "\<not> (ti_start cur \<le> ti_start next \<and> ti_start next + ti_size next \<le> ti_start cur + ti_size cur)"
    by blast
  then show ?thesis
  proof cases
    case upd
    then have "covers cur \<subseteq> covers next"
      by (intro covers_mono [OF assms(1,2)]) (simp_all add: word_le_nat_alt word_less_nat_alt e)
    moreover have "tlb_range_check cur next = (SBI_FIFO_UPDATED, cur\<lparr>ti_start := ti_start next,
        ti_size := ti_size next, smask := sbi_hartmask_or (smask cur) (smask cur) (smask next)\<rparr>)"
      unfolding tlb_range_check_def Let_def using upd by simp
    ultimately show ?thesis
      using assms(3,4) by (auto simp: nx hm_set_binops)
  next
    case skip
    then have "covers next \<subseteq> covers cur"
      by (intro covers_mono [OF assms(2,1)]) (simp_all add: word_le_nat_alt e)
    moreover have "tlb_range_check cur next = (SBI_FIFO_SKIP,
        cur\<lparr>smask := sbi_hartmask_or (smask cur) (smask cur) (smask next)\<rparr>)"
      unfolding tlb_range_check_def Let_def if_not_P [OF skip(1)] using skip(2,3) by simp
    ultimately show ?thesis
      using assms(3,4) by (auto simp: same hm_set_binops)
  next
    case none
    have "tlb_range_check cur next = (SBI_FIFO_UNCHANGED, cur)"
      unfolding tlb_range_check_def Let_def by (simp only: if_not_P [OF none(1)] if_not_P [OF none(2)])
    then show ?thesis using assms(4) by simp
  qed
qed

definition page_request :: "ulong \<Rightarrow> ulong \<Rightarrow> nat \<Rightarrow> sbi_tlb_info" where
  "page_request st sz src = SBI_TLB_INFO_INIT st sz 0 0 Local_sfence_vma src"

text \<open>The request of start 0 and size 0 asks for a global flush, but the comparison takes it for an
  empty range: a queued request for the first page swallows it, and a queued global flush shrinks
  to the next request that starts at 0.\<close>

lemma global_flush_swallowed:
  "fst (tlb_range_check (page_request 0 0x1000 0) (page_request 0 0 1)) = SBI_FIFO_SKIP
   \<and> covers (snd (tlb_range_check (page_request 0 0x1000 0) (page_request 0 0 1))) \<noteq> UNIV
   \<and> covers (page_request 0 0 1) = UNIV"
proof -
  have "(0x1000 :: ulong) \<notin> covers (snd (tlb_range_check (page_request 0 0x1000 0) (page_request 0 0 1)))"
    by (simp add: tlb_range_check_def page_request_def SBI_TLB_INFO_INIT_def covers_def)
  then have "covers (snd (tlb_range_check (page_request 0 0x1000 0) (page_request 0 0 1))) \<noteq> UNIV"
    by blast
  then show ?thesis
    by (simp add: tlb_range_check_def page_request_def SBI_TLB_INFO_INIT_def)
      (simp add: covers_def)
qed

lemma global_flush_shrunk:
  "covers (page_request 0 0 0) = UNIV
   \<and> covers (snd (tlb_range_check (page_request 0 0 0) (page_request 0 0x1000 1))) \<noteq> UNIV"
proof -
  have "(0x1000 :: ulong) \<notin> covers (snd (tlb_range_check (page_request 0 0 0) (page_request 0 0x1000 1)))"
    by (simp add: tlb_range_check_def page_request_def SBI_TLB_INFO_INIT_def covers_def)
  then have "covers (snd (tlb_range_check (page_request 0 0 0) (page_request 0 0x1000 1))) \<noteq> UNIV"
    by blast
  moreover have "covers (page_request 0 0 0) = UNIV"
    by (simp add: page_request_def SBI_TLB_INFO_INIT_def covers_def)
  ultimately show ?thesis by (rule conjI [rotated])
qed

end
