(* ===== verification/Sbi_Tlb_Queues.thy ===== *)
theory Sbi_Tlb_Queues
  imports Sbi_Tlb_Requests
begin

text \<open>
  Invariants of the remote fence code. The locale \<open>tlb_invariant\<close> lists what an invariant has to
  survive (the single steps of the code, and what the other harts do while a hart waits) so that
  every operation of the component keeps it. Two invariants are instances: the queues stay
  well-formed ring buffers (\<open>other_harts\<close>), and a hart that is not STARTED does not become so
  (\<open>stopping_hart\<close>).
\<close>

section \<open>What leaves the queues alone\<close>

definition tlb_wf :: "'a tlb_state_scheme \<Rightarrow> bool" where
  "tlb_wf s \<longleftrightarrow> (\<forall>h. fifo_wf (tlb_fifo s h))"

lemma tlb_wfD: "tlb_wf s \<Longrightarrow> fifo_wf (tlb_fifo s h)"
  by (simp add: tlb_wf_def)

lemma tlb_fifo_frame [simp]:
  "tlb_fifo (emit ev s) = tlb_fifo s"
  "tlb_fifo (csr_write h n v s) = tlb_fifo s"
  "tlb_fifo (csr_set h n v s) = tlb_fifo s"
  "tlb_fifo (csr_clear h n v s) = tlb_fifo s"
  "tlb_fifo (snd (csr_swap_hgatp h v s)) = tlb_fifo s"
  "tlb_fifo (snd (sbi_pmu_ctr_incr_fw h c s)) = tlb_fifo s"
  "tlb_fifo (set_ipi_type h v s) = tlb_fifo s"
  "tlb_fifo (set_sync h v s) = tlb_fifo s"
  "tlb_fifo (set_hstate h st s) = tlb_fifo s"
  by (simp_all add: emit_def csr_op_defs csr_swap_hgatp_def sbi_pmu_ctr_incr_fw_def
      upd_fw_event_def set_ipi_type_def set_sync_def set_hstate_def)

lemma tlb_fifo_trigger [simp]:
  "tlb_fifo (sbi_ipi_raw_send h r s) = tlb_fifo s"
  "tlb_fifo (ipi_trigger h r e s) = tlb_fifo s"
  "tlb_fifo (ipi_device_clear h s) = tlb_fifo s"
  "tlb_fifo (tlb_pmu_incr_fw_ctr h i s) = tlb_fifo s"
  "tlb_fifo (snd (hstate_cmpxchg h a b s)) = tlb_fifo s"
  by (simp_all add: sbi_ipi_raw_send_def ipi_trigger_def ipi_device_clear_def
      tlb_pmu_incr_fw_ctr_def hstate_cmpxchg_def Let_def split: option.splits)

lemma flush_loop_frame [simp]:
  "tlb_fifo (flow_state (flush_loop f h sz i s)) = tlb_fifo s
    \<and> hsm_data (flow_state (flush_loop f h sz i s)) = hsm_data s"
proof (induction "2 ^ 64 - unat i" arbitrary: i s rule: less_induct)
  case less
  show ?case
  proof (cases "i < sz \<and> \<not> i + 4096 \<le> i")
    case True
    then have "2 ^ 64 - unat (i + 4096) < 2 ^ 64 - unat i"
      by (auto simp: not_le word_less_nat_alt unat_u64_less intro!: diff_less_mono2)
    from less [OF this] True show ?thesis by (simp add: flush_loop.simps [of f h sz i s] Let_def)
  qed (auto simp: flush_loop.simps [of f h sz i s] Let_def)
qed

lemma flow_state_bind_same:
  assumes "\<And>a s. g (flow_state (f a s)) = g s"
  shows "g (flow_state (flow_bind m f)) = g (flow_state m)"
  using assms by (cases m) simp_all

lemma tlb_fifo_call_fn [simp]: "tlb_fifo (flow_state (tlb_call_fn lf h i s)) = tlb_fifo s"
  by (cases "(lf, h, i, s)" rule: tlb_call_fn.cases)
    (simp_all add: tlb_local_defs Let_def case_prod_unfold flow_state_bind_same [where g = tlb_fifo])

lemma hsm_frame [simp]:
  "hsm_data (csr_set h n v s) = hsm_data s"
  "hsm_data (csr_clear h n v s) = hsm_data s"
  "hsm_data (snd (csr_swap_hgatp h v s)) = hsm_data s"
  "hsm_data (set_sync h v s) = hsm_data s"
  "hsm_data (set_fifo h q s) = hsm_data s"
  "hsm_data (snd (tlb_dequeue h s)) = hsm_data s"
  by (simp_all add: csr_op_defs csr_swap_hgatp_def set_sync_def set_fifo_def tlb_dequeue_def
      case_prod_unfold split: option.splits)

lemma hsm_call_fn [simp]: "hsm_data (flow_state (tlb_call_fn lf h i s)) = hsm_data s"
  by (cases "(lf, h, i, s)" rule: tlb_call_fn.cases)
    (simp_all add: tlb_local_defs Let_def case_prod_unfold flow_state_bind_same [where g = hsm_data])

section \<open>The operations of the queues\<close>

lemma tlb_wf_same: "tlb_fifo s' = tlb_fifo s \<Longrightarrow> tlb_wf s' = tlb_wf s"
  by (simp add: tlb_wf_def)

lemma tlb_wf_set_fifo: "tlb_wf s \<Longrightarrow> fifo_wf q \<Longrightarrow> tlb_wf (set_fifo h (Some q) s)"
  by (simp add: tlb_wf_def set_fifo_def)

lemma tlb_wf_dequeue: "tlb_wf s \<Longrightarrow> tlb_wf (snd (tlb_dequeue h s))"
  using fifo_dequeue_spec(1) [OF tlb_wfD]
  by (fastforce simp: tlb_dequeue_def tlb_wf_set_fifo tlb_wfD split: prod.splits if_splits)

lemma tlb_wf_enqueue:
  "tlb_wf s \<Longrightarrow> tlb_wf (set_fifo rh (snd (sbi_fifo_enqueue (Some (tlb_fifo s rh)) (Some d))) s)"
  by (auto intro: tlb_wf_set_fifo fifo_enqueue_wf tlb_wfD)

lemma tlb_wf_inplace:
  assumes "tlb_wf s"
  shows "tlb_wf (set_fifo rh (snd (sbi_fifo_inplace_update (Some (tlb_fifo s rh)) (Some d) cb)) s)"
proof -
  obtain ret q where q: "sbi_fifo_inplace_update (Some (tlb_fifo s rh)) (Some d) cb = (ret, Some q)"
    using fifo_inplace_total [of "tlb_fifo s rh" d cb] by auto
  then have "fifo_wf q" using fifo_inplace_spec [OF tlb_wfD [OF assms] q] by simp
  then show ?thesis unfolding q snd_conv by (rule tlb_wf_set_fifo [OF assms])
qed

section \<open>Invariants of the operations\<close>

locale tlb_invariant =
  fixes env :: "'a tlb_state_scheme \<Rightarrow> 'a tlb_state_scheme" and I :: "'a tlb_state_scheme \<Rightarrow> bool"
  assumes env: "I s \<Longrightarrow> I (env s)"
    and called: "I s \<Longrightarrow> I (flow_state (tlb_call_fn lf h i s))"
    and synced: "I s \<Longrightarrow> I (set_sync h v s)"
    and dequeued: "I s \<Longrightarrow> I (snd (tlb_dequeue h s))"
    and enqueued: "I s \<Longrightarrow> I (set_fifo rh (snd (sbi_fifo_enqueue (Some (tlb_fifo s rh)) (Some d))) s)"
    and inplace: "I s \<Longrightarrow>
      I (set_fifo rh (snd (sbi_fifo_inplace_update (Some (tlb_fifo s rh)) (Some d) cb)) s)"
begin

lemma set_sync: "I s \<Longrightarrow> I (flow_state (tlb_set_sync env n rh s))"
  by (induction n arbitrary: s) (simp_all add: Let_def env synced)

lemma entry_process: "I s \<Longrightarrow> I (flow_state (tlb_entry_process env n h i s))"
  unfolding tlb_entry_process_def
  by (rule flow_bind_state [where I = I]) (simp_all add: called flow_fold_state [where I = I] set_sync)

lemma process_count_loop: "I s \<Longrightarrow> I (flow_state (tlb_process_count_loop env n m h c k s))"
proof (induction m arbitrary: k s)
  case (Suc m)
  obtain data t where d: "tlb_dequeue h s = (data, t)" by fastforce
  then have t: "I t" using dequeued [OF Suc.prems, of h] by simp
  show ?case
  proof (cases data)
    case (Some i)
    then show ?thesis
      using t by (simp add: d) (rule flow_bind_state [where I = I], simp_all add: entry_process Suc.IH)
  qed (simp add: d t)
qed simp

lemma process_count: "I s \<Longrightarrow> I (flow_state (tlb_process_count env n h c s))"
  unfolding tlb_process_count_def by (rule process_count_loop)

lemma process: "I s \<Longrightarrow> I (flow_state (tlb_process env n m h s))"
proof (induction m arbitrary: s)
  case (Suc m)
  obtain data t where d: "tlb_dequeue h s = (data, t)" by fastforce
  then have t: "I t" using dequeued [OF Suc.prems, of h] by simp
  show ?case
  proof (cases data)
    case (Some i)
    then show ?thesis
      using t by (simp add: d) (rule flow_bind_state [where I = I], simp_all add: entry_process Suc.IH)
  qed (simp add: d t)
qed simp

lemma sync: "I s \<Longrightarrow> I (flow_state (tlb_sync env n m h s))"
proof (induction m arbitrary: s)
  case (Suc m)
  show ?case
    using synced [OF Suc.prems, of h 0]
    by (auto simp: Let_def intro!: flow_bind_state [where I = I] process_count Suc.IH env)
qed simp

lemma enqueue_loop: "I s \<Longrightarrow> I (flow_state (tlb_enqueue_loop env n m h rh d s))"
proof (induction m arbitrary: s)
  case (Suc m)
  show ?case
    using enqueued [OF Suc.prems, of rh d]
    by (auto simp: Let_def split: prod.splits intro!: flow_bind_state [where I = I] process_count Suc.IH env)
qed simp

lemma update: "I s \<Longrightarrow> I (flow_state (tlb_update env n h rh d s))"
  using inplace [of s rh "tlb_limit_range (tlb_range_flush_limit s) d" tlb_update_cb]
  by (auto simp: tlb_update_def Let_def called split: prod.splits
      intro!: flow_bind_state [where I = I] enqueue_loop)

end

section \<open>The queues stay well-formed\<close>

locale other_harts =
  fixes env :: "'a tlb_state_scheme \<Rightarrow> 'a tlb_state_scheme"
  assumes env_wf: "tlb_wf s \<Longrightarrow> tlb_wf (env s)"

sublocale other_harts \<subseteq> tlb_invariant env tlb_wf
proof unfold_locales
  fix s :: "'a tlb_state_scheme" and lf h i v rh d cb
  assume s: "tlb_wf s"
  then show "tlb_wf (env s)" by (rule env_wf)
  show "tlb_wf (flow_state (tlb_call_fn lf h i s))" "tlb_wf (set_sync h v s)"
    using s by (simp_all add: tlb_wf_def)
  show "tlb_wf (snd (tlb_dequeue h s))" using s by (rule tlb_wf_dequeue)
  show "tlb_wf (set_fifo rh (snd (sbi_fifo_enqueue (Some (tlb_fifo s rh)) (Some d))) s)"
    using s by (rule tlb_wf_enqueue)
  show "tlb_wf (set_fifo rh (snd (sbi_fifo_inplace_update (Some (tlb_fifo s rh)) (Some d) cb)) s)"
    using s by (rule tlb_wf_inplace)
qed

section \<open>A hart that is stopping\<close>

text \<open>No other hart makes a hart STARTED: that is what a hart does for itself.\<close>

locale stopping_hart =
  fixes env :: "'a tlb_state_scheme \<Rightarrow> 'a tlb_state_scheme" and me :: nat
  assumes env_stop: "hst me s \<noteq> SBI_HSM_STATE_STARTED \<Longrightarrow> hst me (env s) \<noteq> SBI_HSM_STATE_STARTED"

sublocale stopping_hart \<subseteq> tlb_invariant env "\<lambda>s. hst me s \<noteq> SBI_HSM_STATE_STARTED"
  by unfold_locales (simp_all add: env_stop)

end
