(* ===== verification/Sbi_Timer.thy ===== *)
theory Sbi_Timer
  imports Sbi_Tlb
begin

text \<open>
  \<^verbatim>\<open>lib/sbi/sbi_timer.c\<close>: the time source, the per hart offset of the virtual time, the timer event
  of a hart and the busy wait. A time source gives the value of its k-th reading: the \<^verbatim>\<open>time\<close> CSR
  (\<open>time_csr\<close>) or the counter of the timer device (\<open>timer_value_fn\<close>), and \<open>time_reads\<close> is how
  often time has been read.
\<close>

section \<open>State\<close>

datatype time_source = Get_ticks | Get_platform_ticks

record sbi_timer_device =
  timer_freq :: ulong
  timer_value_fn :: "(nat \<Rightarrow> u64) option"
  timer_event_start_fn :: bool
  timer_event_stop_fn :: bool

record timer_state = tlb_state +
  time_delta_off :: ulong
  time_delta :: "nat \<Rightarrow> u64"
  get_time_val :: "time_source option"
  timer_dev :: "sbi_timer_device option"
  time_csr :: "nat \<Rightarrow> u64"
  time_reads :: nat

section \<open>Reading the time\<close>

definition get_ticks :: "'a timer_state_scheme \<Rightarrow> (u64, 'a timer_state_scheme) flow" where
  "get_ticks s = Ret (time_csr s (time_reads s)) (s\<lparr>time_reads := time_reads s + 1\<rparr>)"

text \<open>The code calls through two pointers without looking at them.\<close>

definition get_platform_ticks :: "'a timer_state_scheme \<Rightarrow> (u64, 'a timer_state_scheme) flow" where
  "get_platform_ticks s =
     (case timer_dev s of
        None \<Rightarrow> Undef s
      | Some d \<Rightarrow> (case timer_value_fn d of
          None \<Rightarrow> Undef s
        | Some f \<Rightarrow> Ret (f (time_reads s)) (s\<lparr>time_reads := time_reads s + 1\<rparr>)))"

fun call_time_val :: "time_source \<Rightarrow> 'a timer_state_scheme \<Rightarrow> (u64, 'a timer_state_scheme) flow" where
  "call_time_val Get_ticks s = get_ticks s"
| "call_time_val Get_platform_ticks s = get_platform_ticks s"

definition sbi_timer_value :: "'a timer_state_scheme \<Rightarrow> (u64, 'a timer_state_scheme) flow" where
  "sbi_timer_value s = (case get_time_val s of Some src \<Rightarrow> call_time_val src s | None \<Rightarrow> Ret 0 s)"

definition sbi_timer_virt_value ::
  "nat \<Rightarrow> 'a timer_state_scheme \<Rightarrow> (u64, 'a timer_state_scheme) flow" where
  "sbi_timer_virt_value h s = flow_bind (sbi_timer_value s) (\<lambda>v s. Ret (v + time_delta s h) s)"

definition sbi_timer_get_delta :: "nat \<Rightarrow> 'a timer_state_scheme \<Rightarrow> u64" where
  "sbi_timer_get_delta h s = time_delta s h"

definition sbi_timer_set_delta :: "nat \<Rightarrow> ulong \<Rightarrow> 'a timer_state_scheme \<Rightarrow> 'a timer_state_scheme" where
  "sbi_timer_set_delta h delta s = s\<lparr>time_delta := (time_delta s)(h := delta)\<rparr>"

definition sbi_timer_set_delta_upper ::
  "nat \<Rightarrow> ulong \<Rightarrow> 'a timer_state_scheme \<Rightarrow> 'a timer_state_scheme" where
  "sbi_timer_set_delta_upper h delta_upper s =
     s\<lparr>time_delta := (time_delta s)(h := (time_delta s h AND 0xffffffff) OR push_bit 32 delta_upper)\<rparr>"

section \<open>The busy wait\<close>

text \<open>
  \<open>n\<close> bounds the rounds: a time source that does not go on keeps the hart in the loop for ever.
\<close>

fun delay_rounds ::
  "nat \<Rightarrow> time_source \<Rightarrow> ('a timer_state_scheme \<Rightarrow> 'a timer_state_scheme) \<Rightarrow> u64 \<Rightarrow> u64
     \<Rightarrow> 'a timer_state_scheme \<Rightarrow> (unit, 'a timer_state_scheme) flow" where
  "delay_rounds 0 src delay_fn start_val delta s = Hang s"
| "delay_rounds (Suc n) src delay_fn start_val delta s =
     flow_bind (call_time_val src s) (\<lambda>v s.
       if v - start_val < delta then delay_rounds n src delay_fn start_val delta (delay_fn s)
       else Ret () s)"

definition nop_delay_fn :: "'a timer_state_scheme \<Rightarrow> 'a timer_state_scheme" where
  "nop_delay_fn s = s"

definition sbi_timer_delay_loop ::
  "nat \<Rightarrow> ulong \<Rightarrow> u64 \<Rightarrow> ('a timer_state_scheme \<Rightarrow> 'a timer_state_scheme) option
     \<Rightarrow> 'a timer_state_scheme \<Rightarrow> (unit, 'a timer_state_scheme) flow" where
  "sbi_timer_delay_loop n units unit_freq delay_fn s =
     (case timer_dev s of
        None \<Rightarrow> Ret () s
      | Some d \<Rightarrow> (case get_time_val s of
          None \<Rightarrow> Ret () s
        | Some src \<Rightarrow>
            flow_bind (call_time_val src s) (\<lambda>start_val s.
              if unit_freq = 0 then Undef s
              else
                let delta = timer_freq d * units div unit_freq;
                    delay_fn = (case delay_fn of Some f \<Rightarrow> f | None \<Rightarrow> nop_delay_fn)
                in delay_rounds n src delay_fn start_val delta s)))"

section \<open>The timer event\<close>

definition sbi_timer_event_start :: "nat \<Rightarrow> u64 \<Rightarrow> 'a timer_state_scheme \<Rightarrow> 'a timer_state_scheme" where
  "sbi_timer_event_start h next_event s =
     (let s = snd (sbi_pmu_ctr_incr_fw h SBI_PMU_FW_SET_TIMER s);
          s = (case timer_dev s of
                 Some d \<Rightarrow> if timer_event_start_fn d then emit (Ev_timer_start h next_event) s else s
               | None \<Rightarrow> s);
          s = csr_clear h CSR_MIP MIP_STIP s
      in csr_set h CSR_MIE MIP_MTIP s)"

definition sbi_timer_process :: "nat \<Rightarrow> 'a timer_state_scheme \<Rightarrow> 'a timer_state_scheme" where
  "sbi_timer_process h s = csr_set h CSR_MIP MIP_STIP (csr_clear h CSR_MIE MIP_MTIP s)"

section \<open>Devices, initialisation, exit\<close>

definition sbi_timer_get_device :: "'a timer_state_scheme \<Rightarrow> sbi_timer_device option" where
  "sbi_timer_get_device s = timer_dev s"

definition sbi_timer_set_device ::
  "sbi_timer_device option \<Rightarrow> 'a timer_state_scheme \<Rightarrow> 'a timer_state_scheme" where
  "sbi_timer_set_device dev s =
     (case dev of
        None \<Rightarrow> s
      | Some d \<Rightarrow>
          if timer_dev s \<noteq> None then s
          else
            let s = s\<lparr>timer_dev := Some d\<rparr>
            in if get_time_val s = None \<and> timer_value_fn d \<noteq> None
               then s\<lparr>get_time_val := Some Get_platform_ticks\<rparr> else s)"

definition timer_init_hart :: "nat \<Rightarrow> bool \<Rightarrow> 'a timer_state_scheme \<Rightarrow> int \<times> 'a timer_state_scheme" where
  "timer_init_hart h cold_boot s =
     sbi_platform_timer_init h cold_boot (s\<lparr>time_delta := (time_delta s)(h := 0)\<rparr>)"

definition sbi_timer_init :: "nat \<Rightarrow> bool \<Rightarrow> 'a timer_state_scheme \<Rightarrow> int \<times> 'a timer_state_scheme" where
  "sbi_timer_init h cold_boot s =
     (if cold_boot then
        let (off, s) = sbi_scratch_alloc_offset 8 s; s = s\<lparr>time_delta_off := off\<rparr> in
        if off = 0 then (SBI_ENOMEM, s)
        else
          let s = (if sbi_hart_has_feature h SBI_HART_HAS_TIME s
                   then s\<lparr>get_time_val := Some Get_ticks\<rparr> else s)
          in timer_init_hart h cold_boot s
      else if time_delta_off s = 0 then (SBI_ENOMEM, s)
      else timer_init_hart h cold_boot s)"

definition sbi_timer_exit :: "nat \<Rightarrow> 'a timer_state_scheme \<Rightarrow> 'a timer_state_scheme" where
  "sbi_timer_exit h s =
     (let s = (case timer_dev s of
                 Some d \<Rightarrow> if timer_event_stop_fn d then emit (Ev_timer_stop h) s else s
               | None \<Rightarrow> s);
          s = csr_clear h CSR_MIP MIP_STIP s;
          s = csr_clear h CSR_MIE MIP_MTIP s
      in sbi_platform_timer_exit h s)"

section \<open>The time source is always there\<close>

text \<open>The pointer to the platform's reader is set only for a device that has one, and a device is
  never replaced.\<close>

definition timer_wf :: "'a timer_state_scheme \<Rightarrow> bool" where
  "timer_wf s \<longleftrightarrow> (get_time_val s = Some Get_platform_ticks \<longrightarrow>
     (\<exists>d. timer_dev s = Some d \<and> timer_value_fn d \<noteq> None))"

lemma timer_wf_set_device: "timer_wf s \<Longrightarrow> timer_wf (sbi_timer_set_device dev s)"
  by (auto simp: timer_wf_def sbi_timer_set_device_def Let_def split: option.splits)

lemma alloc_timer_frame [simp]:
  "timer_dev (snd (sbi_scratch_alloc_offset sz s)) = timer_dev s"
  "get_time_val (snd (sbi_scratch_alloc_offset sz s)) = get_time_val s"
proof -
  obtain e m where "snd (sbi_scratch_alloc_offset sz s) = s\<lparr>extra_offset := e, scratch_mem := m\<rparr>"
    using scratch_alloc_update by metis
  then show "timer_dev (snd (sbi_scratch_alloc_offset sz s)) = timer_dev s"
    and "get_time_val (snd (sbi_scratch_alloc_offset sz s)) = get_time_val s" by simp_all
qed

lemma timer_wf_init: "timer_wf s \<Longrightarrow> timer_wf (snd (sbi_timer_init h cold s))"
  by (auto simp: timer_wf_def sbi_timer_init_def timer_init_hart_def plat_call_defs Let_def emit_def
      case_prod_unfold split: option.splits)

lemma timer_wf_event_start: "timer_wf s \<Longrightarrow> timer_wf (sbi_timer_event_start h v s)"
  by (auto simp: timer_wf_def sbi_timer_event_start_def Let_def emit_def csr_op_defs
      sbi_pmu_ctr_incr_fw_def upd_fw_event_def split: option.splits)

lemma timer_wf_exit: "timer_wf s \<Longrightarrow> timer_wf (sbi_timer_exit h s)"
  by (auto simp: timer_wf_def sbi_timer_exit_def Let_def emit_def csr_op_defs plat_call_defs
      split: option.splits)

lemma call_time_val_wf:
  assumes "timer_wf s" "get_time_val s = Some src"
  obtains v where "call_time_val src s = Ret v (s\<lparr>time_reads := time_reads s + 1\<rparr>)"
  using assms by (cases src) (auto simp: timer_wf_def get_ticks_def get_platform_ticks_def)

section \<open>What the busy wait waits for\<close>

text \<open>The value the time source gives at its k-th reading.\<close>

definition clock :: "'a timer_state_scheme \<Rightarrow> nat \<Rightarrow> u64" where
  "clock s k =
     (case get_time_val s of
        Some Get_ticks \<Rightarrow> time_csr s k
      | Some Get_platform_ticks \<Rightarrow>
          (case timer_dev s of
             Some d \<Rightarrow> (case timer_value_fn d of Some f \<Rightarrow> f k | None \<Rightarrow> 0)
           | None \<Rightarrow> 0)
      | None \<Rightarrow> 0)"

lemma call_time_val_clock:
  assumes "timer_wf s" "get_time_val s = Some src"
  shows "call_time_val src s = Ret (clock s (time_reads s)) (s\<lparr>time_reads := time_reads s + 1\<rparr>)"
  using assms
  by (cases src) (auto simp: timer_wf_def get_ticks_def get_platform_ticks_def clock_def)

lemma clock_reads [simp]: "clock (s\<lparr>time_reads := n\<rparr>) = clock s"
  by (intro ext) (simp add: clock_def cong: option.case_cong time_source.case_cong)

lemma timer_wf_reads [simp]: "timer_wf (s\<lparr>time_reads := n\<rparr>) = timer_wf s"
  by (simp add: timer_wf_def)

lemma delay_rounds_nop:
  assumes "timer_wf s" "get_time_val s = Some src"
    and "\<not> clock s (time_reads s + k) - st < delta"
    and "\<And>j. j < k \<Longrightarrow> clock s (time_reads s + j) - st < delta" and "k < n"
  shows "delay_rounds n src nop_delay_fn st delta s = Ret () (s\<lparr>time_reads := time_reads s + k + 1\<rparr>)"
  using assms
proof (induction k arbitrary: n s)
  case 0
  then show ?case by (cases n) (simp_all add: call_time_val_clock)
next
  case (Suc k)
  obtain m where n: "n = Suc m" "k < m" using Suc.prems(5) by (cases n) auto
  let ?s = "s\<lparr>time_reads := time_reads s + 1\<rparr>"
  have "delay_rounds m src nop_delay_fn st delta ?s
      = Ret () (?s\<lparr>time_reads := time_reads ?s + k + 1\<rparr>)"
  proof (rule Suc.IH)
    show "clock ?s (time_reads ?s + j) - st < delta" if "j < k" for j
      using Suc.prems(4) [of "Suc j"] that by simp
  qed (use Suc.prems n in simp_all)
  then have "delay_rounds m src nop_delay_fn st delta (nop_delay_fn ?s)
      = Ret () (?s\<lparr>time_reads := time_reads ?s + k + 1\<rparr>)"
    by (simp only: nop_delay_fn_def [of ?s])
  then show ?case
    using Suc.prems(1,2) Suc.prems(4) [of 0] by (simp add: n call_time_val_clock)
qed

text \<open>C33. A delay of \<open>units\<close> at \<open>unit_freq\<close> without a delay function reads the time source until the
  first reading that is \<open>timer_freq * units / unit_freq\<close> ticks after the first one (in 64 bit
  arithmetic), and returns there: if that reading exists the loop ends, never before the time has
  passed, and one round for every reading is enough.\<close>

theorem delay_loop_waits:
  fixes s :: "'a timer_state_scheme"
  defines "elapsed \<equiv> \<lambda>j. clock s (time_reads s + 1 + j) - clock s (time_reads s)"
  assumes "timer_wf s" "timer_dev s = Some d" "get_time_val s = Some src" "unit_freq \<noteq> 0"
    and "timer_freq d * units div unit_freq \<le> elapsed k" "k < n"
  shows "\<exists>j\<le>k. timer_freq d * units div unit_freq \<le> elapsed j
     \<and> (\<forall>i<j. elapsed i < timer_freq d * units div unit_freq)
     \<and> sbi_timer_delay_loop n units unit_freq None s
         = Ret () (s\<lparr>time_reads := time_reads s + j + 2\<rparr>)"
proof -
  let ?delta = "timer_freq d * units div unit_freq"
  define j where "j = (LEAST j. ?delta \<le> elapsed j)"
  have j: "?delta \<le> elapsed j" unfolding j_def by (rule LeastI) (rule assms(6))
  have "j \<le> k" unfolding j_def by (rule Least_le) (rule assms(6))
  have before: "elapsed i < ?delta" if "i < j" for i
    using not_less_Least [of i "\<lambda>j. ?delta \<le> elapsed j"] that unfolding j_def [symmetric] by simp
  let ?s = "s\<lparr>time_reads := time_reads s + 1\<rparr>"
  have "delay_rounds n src nop_delay_fn (clock s (time_reads s)) ?delta ?s
      = Ret () (?s\<lparr>time_reads := time_reads ?s + j + 1\<rparr>)"
  proof (rule delay_rounds_nop)
    show "\<not> clock ?s (time_reads ?s + j) - clock s (time_reads s) < ?delta"
      using j by (simp add: elapsed_def not_less)
    show "clock ?s (time_reads ?s + i) - clock s (time_reads s) < ?delta" if "i < j" for i
      using before [OF that] by (simp add: elapsed_def)
  qed (use assms(2-7) \<open>j \<le> k\<close> in simp_all)
  then have "sbi_timer_delay_loop n units unit_freq None s
      = Ret () (s\<lparr>time_reads := time_reads s + j + 2\<rparr>)"
    using assms(2-5) by (simp add: sbi_timer_delay_loop_def call_time_val_clock Let_def)
  then show ?thesis using j before \<open>j \<le> k\<close> by blast
qed

section \<open>A small state for concrete runs\<close>

text \<open>A 10 MHz device whose counter goes on by 4 with every reading.\<close>

definition timer0 :: timer_state where
  "timer0 = tlb_state.extend tlb0
     \<lparr>time_delta_off = 616, time_delta = (\<lambda>h. 0), get_time_val = Some Get_platform_ticks,
      timer_dev = Some \<lparr>timer_freq = 10000000, timer_value_fn = Some (\<lambda>k. 4 * of_nat k),
        timer_event_start_fn = True, timer_event_stop_fn = True\<rparr>,
      time_csr = (\<lambda>k. 0), time_reads = 0\<rparr>"

lemmas timer0_defs = tlb0_defs timer0_def timer_state.defs

text \<open>One microsecond is 10 ticks: the third reading after the first one ends the wait.\<close>

corollary delay_loop_waits_witness:
  "\<exists>j\<le>2. sbi_timer_delay_loop 3 1 1000000 None timer0 = Ret () (timer0\<lparr>time_reads := j + 2\<rparr>)"
proof -
  have "timer_wf timer0" "unat (10 :: u64) = 10" by (simp_all add: timer_wf_def timer0_defs)
  then show ?thesis
    using delay_loop_waits [of timer0 _ Get_platform_ticks 1000000 1 2 3]
    by (fastforce simp: timer0_defs clock_def)
qed

end
