(* ===== verification/Sbi_System.thy ===== *)
theory Sbi_System
  imports Sbi_Timer
begin

text \<open>
  \<^verbatim>\<open>lib/sbi/sbi_system.c\<close>: the reset devices and the system reset. A device is a record of its
  operations: \<open>reset_check\<close> is the priority it answers for a reset type and reason, \<open>reset_returns\<close>
  says whether its reset comes back. The address of a device is its \<open>reset_id\<close>.
\<close>

section \<open>State\<close>

record sbi_system_reset_device =
  reset_id :: nat
  reset_check :: "(u32 \<Rightarrow> u32 \<Rightarrow> int) option"
  reset_returns :: "u32 \<Rightarrow> u32 \<Rightarrow> bool"

record system_state = timer_state +
  reset_devices_list :: "sbi_system_reset_device list"

section \<open>Reset devices\<close>

fun reset_pick ::
  "u32 \<Rightarrow> u32 \<Rightarrow> sbi_system_reset_device list \<Rightarrow> sbi_system_reset_device option \<Rightarrow> int
     \<Rightarrow> sbi_system_reset_device option" where
  "reset_pick ty reason [] best priority = best"
| "reset_pick ty reason (dev # devs) best priority =
     (case reset_check dev of
        Some f \<Rightarrow>
          (let status = f ty reason in
           if status = 0 then reset_pick ty reason devs best priority
           else if priority < status then reset_pick ty reason devs (Some dev) status
           else reset_pick ty reason devs best priority)
      | None \<Rightarrow> reset_pick ty reason devs best priority)"

definition sbi_system_reset_get_device ::
  "u32 \<Rightarrow> u32 \<Rightarrow> 'a system_state_scheme \<Rightarrow> sbi_system_reset_device option" where
  "sbi_system_reset_get_device ty reason s = reset_pick ty reason (reset_devices_list s) None 0"

definition sbi_system_reset_add_device ::
  "sbi_system_reset_device option \<Rightarrow> 'a system_state_scheme \<Rightarrow> 'a system_state_scheme" where
  "sbi_system_reset_add_device dev s =
     (case dev of
        None \<Rightarrow> s
      | Some d \<Rightarrow> if reset_check d = None then s
                  else s\<lparr>reset_devices_list := d # reset_devices_list s\<rparr>)"

definition sbi_system_reset_supported :: "u32 \<Rightarrow> u32 \<Rightarrow> 'a system_state_scheme \<Rightarrow> bool" where
  "sbi_system_reset_supported ty reason s \<longleftrightarrow> sbi_system_reset_get_device ty reason s \<noteq> None"

section \<open>Reset\<close>

text \<open>The loop that halts the other harts, with the fuel of \<open>ipi_send_windows\<close>. A hart id beyond
  the window shifts by more than 63 bits, which RV64 takes modulo 64.\<close>

fun reset_halt_windows ::
  "nat \<Rightarrow> ('d, 'a system_state_scheme) ipi_ops_table \<Rightarrow> nat \<Rightarrow> nat option \<Rightarrow> ulong \<Rightarrow> 'd
     \<Rightarrow> 'a system_state_scheme \<Rightarrow> (unit, 'a system_state_scheme) flow" where
  "reset_halt_windows 0 ops h dm hbase null s = Hang s"
| "reset_halt_windows (Suc n) ops h dm hbase null s =
     (let (rc, hmask) = sbi_hsm_hart_interruptible_mask (map_option (doms s) dm) hbase s in
      if rc \<noteq> 0 then Ret () s
      else
        let hmask = (if hbase \<le> of_nat h then hmask AND NOT (sll 1 (unat (of_nat h - hbase)))
                     else hmask)
        in flow_bind
             (if hmask \<noteq> 0
              then flow_bind (sbi_ipi_send_halt ops h hmask hbase null s) (\<lambda>_ s. Ret () s)
              else Ret () s)
             (\<lambda>_ s. reset_halt_windows n ops h dm (hbase + 64) null s))"

definition reset_device_call ::
  "nat \<Rightarrow> u32 \<Rightarrow> u32 \<Rightarrow> 'a system_state_scheme \<Rightarrow> (unit, 'a system_state_scheme) flow" where
  "reset_device_call h ty reason s =
     (case sbi_system_reset_get_device ty reason s of
        None \<Rightarrow> Ret () s
      | Some dev \<Rightarrow>
          (let s = emit (Ev_system_reset h (reset_id dev) ty reason) s
           in if reset_returns dev ty reason then Ret () s else Gone s))"

definition sbi_system_reset ::
  "('d, 'a system_state_scheme) ipi_ops_table
     \<Rightarrow> (nat \<Rightarrow> 'a system_state_scheme \<Rightarrow> (unit, 'a system_state_scheme) flow)
     \<Rightarrow> nat \<Rightarrow> u32 \<Rightarrow> u32 \<Rightarrow> 'd \<Rightarrow> 'a system_state_scheme \<Rightarrow> (unit, 'a system_state_scheme) flow" where
  "sbi_system_reset ops exit h ty reason null s =
     (let dm = hartid_to_domain s h in
      flow_bind (reset_halt_windows (last_hartid s div 64 + 2) ops h dm 0 null s) (\<lambda>_ s.
      flow_bind (sbi_hsm_hart_stop exit h False s) (\<lambda>_ s.
        case dm of
          None \<Rightarrow> Undef s
        | Some d \<Rightarrow>
            flow_bind (if system_reset_allowed (doms s d) then reset_device_call h ty reason s
                       else Ret () s)
              (\<lambda>_ s. exit h s))))"

section \<open>The device with the highest priority\<close>

definition reset_status :: "u32 \<Rightarrow> u32 \<Rightarrow> sbi_system_reset_device \<Rightarrow> int" where
  "reset_status ty reason dev = (case reset_check dev of Some f \<Rightarrow> f ty reason | None \<Rightarrow> 0)"

lemma reset_pick_step:
  "reset_pick ty reason (dev # devs) best priority =
     (if reset_status ty reason dev \<noteq> 0 \<and> priority < reset_status ty reason dev
      then reset_pick ty reason devs (Some dev) (reset_status ty reason dev)
      else reset_pick ty reason devs best priority)"
  by (simp add: reset_status_def Let_def split: option.splits)

text \<open>The scan keeps the best device so far: the result is it, or the first device behind it whose
  status is a new maximum that no later device exceeds.\<close>

lemma reset_pick_best:
  assumes "0 \<le> priority"
  shows "(reset_pick ty reason devs best priority = best
       \<and> (\<forall>dev\<in>set devs. reset_status ty reason dev \<le> priority)) \<or>
     (\<exists>us dev vs. reset_pick ty reason devs best priority = Some dev \<and> devs = us @ dev # vs
       \<and> priority < reset_status ty reason dev
       \<and> (\<forall>u\<in>set us. reset_status ty reason u < reset_status ty reason dev)
       \<and> (\<forall>v\<in>set vs. reset_status ty reason v \<le> reset_status ty reason dev))"
  using assms
proof (induction devs arbitrary: best priority)
  case (Cons x devs)
  let ?st = "reset_status ty reason"
  show ?case
  proof (cases "priority < ?st x")
    case True
    then have eq: "reset_pick ty reason (x # devs) best priority = reset_pick ty reason devs (Some x) (?st x)"
      using Cons.prems by (simp only: reset_pick_step) simp
    have "0 \<le> ?st x" using True Cons.prems by simp
    from Cons.IH [OF this, of "Some x"] show ?thesis
    proof (elim disjE exE conjE)
      assume "reset_pick ty reason devs (Some x) (?st x) = Some x" "\<forall>dev\<in>set devs. ?st dev \<le> ?st x"
      then show ?thesis using True eq by (intro disjI2 exI [of _ "[]"] exI [of _ x] exI [of _ devs]) simp
    next
      fix us dev vs
      assume "reset_pick ty reason devs (Some x) (?st x) = Some dev" "devs = us @ dev # vs"
        "?st x < ?st dev" "\<forall>u\<in>set us. ?st u < ?st dev" "\<forall>v\<in>set vs. ?st v \<le> ?st dev"
      then show ?thesis
        using True eq by (intro disjI2 exI [of _ "x # us"] exI [of _ dev] exI [of _ vs]) simp
    qed
  next
    case False
    then have eq: "reset_pick ty reason (x # devs) best priority = reset_pick ty reason devs best priority"
      by (simp only: reset_pick_step) simp
    from Cons.IH [OF Cons.prems, of best] show ?thesis
    proof (elim disjE exE conjE)
      fix us dev vs
      assume "reset_pick ty reason devs best priority = Some dev" "devs = us @ dev # vs"
        "priority < ?st dev" "\<forall>u\<in>set us. ?st u < ?st dev" "\<forall>v\<in>set vs. ?st v \<le> ?st dev"
      then show ?thesis
        using False eq by (intro disjI2 exI [of _ "x # us"] exI [of _ dev] exI [of _ vs]) simp
    qed (use False eq in auto)
  qed
qed simp

section \<open>Whom a reset halts\<close>

lemma triggers_domain_frame [simp]: "hartid_to_domain (triggers h e rs s) = hartid_to_domain s"
  by (induction rs arbitrary: s)
    (simp_all add: ipi_trigger_def Let_def set_ipi_type_def sbi_ipi_raw_send_def emit_def
      sbi_pmu_ctr_incr_fw_def upd_fw_event_def split: option.splits)

lemma triggers_halt_event [simp]: "ipi_halt_event (triggers h e rs s) = ipi_halt_event s"
  by (induction rs arbitrary: s)
    (simp_all add: ipi_trigger_def Let_def set_ipi_type_def sbi_ipi_raw_send_def emit_def
      sbi_pmu_ctr_incr_fw_def upd_fw_event_def split: option.splits)

text \<open>The harts of a window without those whose bit the mask of the caller's own hart clears.\<close>

lemma reset_window_mask:
  assumes "\<And>k. bit m k \<longleftrightarrow> k < 64 \<and> interruptible dm s (64 * j + k)"
    and "unat (hbase :: ulong) = 64 * j" "h < 128"
  shows "bit (if hbase \<le> of_nat h then m AND NOT (sll 1 (unat (of_nat h - hbase))) else m) k \<longleftrightarrow>
    k < 64 \<and> interruptible dm s (64 * j + k) \<and> \<not> (64 * j + k \<le> h \<and> (64 * j + k) mod 64 = h mod 64)"
proof -
  have h: "unat (of_nat h :: ulong) = h" using assms(3) by (simp add: unat_of_nat)
  have le: "hbase \<le> of_nat h \<longleftrightarrow> 64 * j \<le> h" by (simp only: word_le_nat_alt h assms(2))
  show ?thesis
  proof (cases "64 * j \<le> h")
    case True
    then have "unat (of_nat h - hbase) = h - 64 * j" using le h assms(2) by (simp add: unat_sub)
    moreover have "(h - 64 * j) mod 64 = h mod 64" using True by (metis le_add_diff_inverse mod_mult_self4)
    ultimately have "bit (sll 1 (unat (of_nat h - hbase)) :: ulong) k \<longleftrightarrow> k = h mod 64"
      by (auto simp: sll_def bit_exp_iff possible_bit_word)
    then have "bit (m AND NOT (sll 1 (unat (of_nat h - hbase)))) k \<longleftrightarrow>
        k < 64 \<and> interruptible dm s (64 * j + k) \<and> k \<noteq> h mod 64"
      by (auto simp: bit_and_iff bit_not_ulong assms(1))
    moreover have "64 * j + k \<le> h \<and> (64 * j + k) mod 64 = h mod 64 \<longleftrightarrow> k = h mod 64" if "k < 64"
    proof -
      have "(64 * j + k) mod 64 = k" using that by simp
      moreover have "64 * j + h mod 64 \<le> h" using True by (metis add_le_mono1 div_le_mono div_mult_self1_is_m mult_div_mod_eq mult_le_mono2 zero_less_numeral)
      ultimately show ?thesis by auto
    qed
    ultimately show ?thesis using True le by auto
  qed (use le assms(1) in auto)
qed

lemma reset_halt_windows_from:
  assumes "plain_event ops (unat (ipi_halt_event s)) s" "hartid_to_domain s h = Some d"
    and "hm_wf (assigned_harts (doms s d))" "last_hartid s < 128" "h \<le> last_hartid s"
    and "hbase = 64 * of_nat j" "j \<le> last_hartid s div 64 + 1" "last_hartid s div 64 + 1 < j + n"
  obtains rs where "reset_halt_windows n ops h (Some d) hbase null s
      = Ret () (triggers h (unat (ipi_halt_event s)) rs s)"
    "unat ` set rs = {t. interruptible (doms s d) s t \<and> 64 * j \<le> t \<and> \<not> (t \<le> h \<and> t mod 64 = h mod 64)}"
  using assms
proof (induction n arbitrary: j hbase s thesis)
  case (Suc n)
  let ?e = "unat (ipi_halt_event s)" and ?dm = "doms s d"
  have j: "64 * j < 256" using Suc.prems(5,8) by simp
  have hb: "unat hbase = 64 * j"
  proof -
    have "unat (of_nat (64 * j) :: ulong) = 64 * j" using j by (simp add: unat_of_nat del: of_nat_mult)
    then show ?thesis using Suc.prems(7) by simp
  qed
  show ?case
  proof (cases "unat hbase \<le> last_hartid s")
    case False
    have "fst (sbi_hsm_hart_interruptible_mask (Some ?dm) hbase s) \<noteq> 0"
      using interruptible_mask_beyond [OF Suc.prems(5)] False by simp
    then have "reset_halt_windows (Suc n) ops h (Some d) hbase null s = Ret () (triggers h ?e [] s)"
      by (simp add: Let_def case_prod_unfold)
    moreover have "unat ` set ([] :: u32 list)
        = {t. interruptible ?dm s t \<and> 64 * j \<le> t \<and> \<not> (t \<le> h \<and> t mod 64 = h mod 64)}"
      using False hb by (auto simp: interruptible_def)
    ultimately show ?thesis by (rule Suc.prems(1))
  next
    case True
    obtain m where m: "sbi_hsm_hart_interruptible_mask (Some ?dm) hbase s = (0, m)"
      "\<And>k. bit m k \<longleftrightarrow> k < 64 \<and> interruptible ?dm s (unat hbase + k)"
      using mask_window [OF Suc.prems(4,5) True] by blast
    define m' where "m' = (if hbase \<le> of_nat h then m AND NOT (sll 1 (unat (of_nat h - hbase))) else m)"
    have m': "bit m' k \<longleftrightarrow> k < 64 \<and> interruptible ?dm s (64 * j + k)
        \<and> \<not> (64 * j + k \<le> h \<and> (64 * j + k) mod 64 = h mod 64)" for k
      unfolding m'_def using m(2) hb Suc.prems(5-7) by (intro reset_window_mask) simp_all
    have neg1: "hbase \<noteq> - 1" using hb j by (auto simp: unsigned_minus_1_eq_mask mask_eq_exp_minus_1)
    obtain rs where rs: "(if m' \<noteq> 0
        then flow_bind (sbi_ipi_send_halt ops h m' hbase null s) (\<lambda>_ s. Ret () s) else Ret () s)
        = Ret () (triggers h ?e rs s)" "unat ` set rs = ipi_targets m' hbase ?dm s"
    proof (cases "m' = 0")
      case True
      then show thesis using neg1 by (intro that [of "[]"]) (auto simp: ipi_targets_def)
    next
      case False
      obtain rs where "sbi_ipi_send_many ops h m' hbase ?e null s = Ret 0 (triggers h ?e rs s)"
        "unat ` set rs = ipi_targets m' hbase ?dm s"
        using send_many_plain [OF Suc.prems(2-5)] True by blast
      then show thesis using False by (intro that) (simp_all add: sbi_ipi_send_halt_def)
    qed
    have targets: "ipi_targets m' hbase ?dm s = {t. interruptible ?dm s t \<and> 64 * j \<le> t
        \<and> t < 64 * j + 64 \<and> \<not> (t \<le> h \<and> t mod 64 = h mod 64)}"
    proof -
      have "bit m' (t - 64 * j) \<longleftrightarrow> interruptible ?dm s t \<and> \<not> (t \<le> h \<and> t mod 64 = h mod 64)"
        if "64 * j \<le> t" "t < 64 * j + 64" for t
        using that by (simp add: m' less_diff_conv2)
      then show ?thesis using neg1 unfolding ipi_targets_def hb by auto
    qed
    let ?s = "triggers h ?e rs s"
    obtain rs' where rs': "reset_halt_windows n ops h (Some d) (hbase + 64) null ?s
        = Ret () (triggers h (unat (ipi_halt_event ?s)) rs' ?s)"
      "unat ` set rs' = {t. interruptible (doms ?s d) ?s t \<and> 64 * (j + 1) \<le> t \<and> \<not> (t \<le> h \<and> t mod 64 = h mod 64)}"
    proof (rule Suc.IH)
      show "plain_event ops (unat (ipi_halt_event ?s)) ?s"
        using Suc.prems(2) by (simp add: plain_event_def)
      show "hbase + 64 = 64 * of_nat (j + 1)" using Suc.prems(7) by (simp add: algebra_simps)
      show "j + 1 \<le> last_hartid ?s div 64 + 1" using True hb by simp
    qed (use Suc.prems in auto)
    have "reset_halt_windows (Suc n) ops h (Some d) hbase null s = Ret () (triggers h ?e (rs @ rs') s)"
      using rs(1) rs'(1) unfolding m'_def by (simp add: m(1) Let_def)
    moreover have "unat ` set (rs @ rs')
        = {t. interruptible ?dm s t \<and> 64 * j \<le> t \<and> \<not> (t \<le> h \<and> t mod 64 = h mod 64)}"
      unfolding set_append image_Un rs(2) rs'(2) targets by auto
    ultimately show ?thesis by (rule Suc.prems(1))
  qed
qed simp

text \<open>The device that performs a reset is the one with the highest positive answer to the reset
  type and reason; among equals the one registered last. There is none exactly when no device
  answers with a positive number.\<close>

theorem reset_device_best:
  "(sbi_system_reset_get_device ty reason s = None
     \<and> (\<forall>dev\<in>set (reset_devices_list s). reset_status ty reason dev \<le> 0)) \<or>
   (\<exists>us dev vs. sbi_system_reset_get_device ty reason s = Some dev
     \<and> reset_devices_list s = us @ dev # vs \<and> 0 < reset_status ty reason dev
     \<and> (\<forall>u\<in>set us. reset_status ty reason u < reset_status ty reason dev)
     \<and> (\<forall>v\<in>set vs. reset_status ty reason v \<le> reset_status ty reason dev))"
  unfolding sbi_system_reset_get_device_def by (rule reset_pick_best) simp

section \<open>A small state for concrete runs\<close>

definition system0 :: system_state where
  "system0 = timer_state.extend timer0
     \<lparr>reset_devices_list = [\<lparr>reset_id = 1, reset_check = Some (\<lambda>ty reason. 1),
        reset_returns = (\<lambda>ty reason. False)\<rparr>]\<rparr>"

lemmas system0_defs = timer0_defs system0_def system_state.defs

end
