(* ===== verification/Sbi_Exit.thy ===== *)
theory Sbi_Exit
  imports Sbi_Tlb_Queues Sbi_System
begin

text \<open>
  The exit of a hart (\<^verbatim>\<open>sbi_exit\<close> of \<^verbatim>\<open>lib/sbi/sbi_init.c\<close>). It processes the pending IPIs of the
  hart, one of which may be the halt event, whose handler calls \<^verbatim>\<open>sbi_exit\<close> again. The nesting is a
  number here; two levels are enough, because the inner call finds the hart no longer STARTED.

  The locale \<open>library_invariant\<close> extends \<open>tlb_invariant\<close> to every event of the library: with it the
  contracts \<open>ipi_sender\<close> and \<open>ipi_receiver\<close> of \<^verbatim>\<open>Sbi_Ipi_Send\<close> hold for the real table of events.
\<close>

section \<open>Leaving the library\<close>

fun sbi_exit_nested ::
  "('a timer_state_scheme \<Rightarrow> 'a timer_state_scheme) \<Rightarrow> nat \<Rightarrow> nat \<Rightarrow> nat \<Rightarrow> 'a timer_state_scheme
     \<Rightarrow> (unit, 'a timer_state_scheme) flow" where
  "sbi_exit_nested env n 0 h s = Hang s"
| "sbi_exit_nested env n (Suc k) h s =
     (if sbi_platform_hart_invalid (Some (platform s)) (of_nat h) then Hang s
      else
        flow_bind (sbi_pmu_exit h (sbi_platform_early_exit h s)) (\<lambda>_ s.
        flow_bind (sbi_ipi_exit (sbi_ipi_table env n (sbi_exit_nested env n k)) h (sbi_timer_exit h s))
          (\<lambda>_ s. sbi_hsm_exit h (sbi_platform_final_exit h (sbi_platform_irqchip_exit h s)))))"

definition sbi_exit ::
  "('a timer_state_scheme \<Rightarrow> 'a timer_state_scheme) \<Rightarrow> nat \<Rightarrow> nat \<Rightarrow> 'a timer_state_scheme
     \<Rightarrow> (unit, 'a timer_state_scheme) flow" where
  "sbi_exit env n = sbi_exit_nested env n 2"

text \<open>The table of events with the exit they really call.\<close>

definition library_ops ::
  "('a timer_state_scheme \<Rightarrow> 'a timer_state_scheme) \<Rightarrow> nat
     \<Rightarrow> (sbi_tlb_info, 'a timer_state_scheme) ipi_ops_table" where
  "library_ops env n = sbi_ipi_table env n (sbi_exit env n)"

lemma hsm_exit_no_return: "\<not> returns (sbi_hsm_exit h s)"
  by (simp add: sbi_hsm_exit_def hsm_device_hart_stop_def Let_def case_prod_unfold split: option.splits)

lemma bind_no_return: "(\<And>a t. \<not> returns (f a t)) \<Longrightarrow> \<not> returns (flow_bind m f)"
  by (cases m) simp_all

lemma exit_no_return: "\<not> returns (sbi_exit_nested env n k h s)"
  by (cases k) (simp_all add: bind_no_return hsm_exit_no_return)

section \<open>Invariants of the library's events\<close>

locale library_invariant = tlb_invariant env I
  for env :: "'a timer_state_scheme \<Rightarrow> 'a timer_state_scheme" and I :: "'a timer_state_scheme \<Rightarrow> bool" +
  fixes rounds :: nat
  assumes emitted: "I s \<Longrightarrow> I (emit ev s)"
    and written: "I s \<Longrightarrow> I (csr_write h c v s)"
    and counted: "I s \<Longrightarrow> I (snd (sbi_pmu_ctr_incr_fw h k s))"
    and pmu_left: "I s \<Longrightarrow> I (flow_state (sbi_pmu_exit h s))"
    and taken: "I s \<Longrightarrow> I (set_ipi_type h v s)"
    and stopping: "I s \<Longrightarrow>
      I (snd (hstate_cmpxchg h SBI_HSM_STATE_STARTED SBI_HSM_STATE_STOP_PENDING s))"
    and stopped: "I s \<Longrightarrow>
      I (snd (hstate_cmpxchg h SBI_HSM_STATE_STOP_PENDING SBI_HSM_STATE_STOPPED s))"
begin

lemma csr_ops: "I s \<Longrightarrow> I (csr_set h c v s)" "I s \<Longrightarrow> I (csr_clear h c v s)"
  by (simp_all add: csr_set_def csr_clear_def written)

lemma raw_send: "I s \<Longrightarrow> I (sbi_ipi_raw_send h r s)"
  by (simp add: sbi_ipi_raw_send_def emitted split: option.splits)

lemma trigger: "I s \<Longrightarrow> I (ipi_trigger h r e s)"
  by (simp add: ipi_trigger_def Let_def taken raw_send counted)

lemma cleared: "I s \<Longrightarrow> I (ipi_device_clear h s)"
  by (simp add: ipi_device_clear_def emitted split: option.splits)

lemma timer_left: "I s \<Longrightarrow> I (sbi_timer_exit h s)"
  by (simp add: sbi_timer_exit_def Let_def csr_ops emitted plat_call_defs split: option.splits)

lemma platform_left:
  "I s \<Longrightarrow> I (sbi_platform_early_exit h s)" "I s \<Longrightarrow> I (sbi_platform_final_exit h s)"
  "I s \<Longrightarrow> I (sbi_platform_irqchip_exit h s)" "I s \<Longrightarrow> I (sbi_platform_ipi_exit h s)"
  by (simp_all add: plat_call_defs emitted)

lemma hsm_left: "I s \<Longrightarrow> I (flow_state (sbi_hsm_exit h s))"
  using stopped [of s h]
  by (simp add: sbi_hsm_exit_def hsm_device_hart_stop_def emitted Let_def case_prod_unfold
      split: option.splits)

lemma hart_stop:
  assumes "\<And>h s. I s \<Longrightarrow> I (flow_state (exit h s))" "I s"
  shows "I (flow_state (sbi_hsm_hart_stop exit h now s))"
  using assms(1) stopping [OF assms(2), of h] assms(2)
  by (auto simp: sbi_hsm_hart_stop_def case_prod_unfold Let_def split: option.splits
      intro!: flow_bind_state [where I = I])

lemma receiver:
  assumes "\<And>h s. I s \<Longrightarrow> I (flow_state (exit h s))"
  shows "ipi_receiver (sbi_ipi_table env n exit) I"
proof unfold_locales
  fix s :: "'a timer_state_scheme" and h r e p f r' d g v c k
  assume s: "I s"
  then show "I (ipi_trigger h r e s)" "I (set_ipi_type h v s)" "I (ipi_device_clear h s)"
    "I (snd (sbi_pmu_ctr_incr_fw h c s))"
    by (simp_all add: trigger taken cleared counted)
  have ops: "sbi_ipi_table env n exit p
      \<in> insert \<lparr>ops_update = None, ops_sync = None, ops_process = None\<rparr> (set (sbi_ipi_ops env n exit))"
    by (auto simp: sbi_ipi_table_def sbi_ipi_ops_def less_Suc_eq numeral_3_eq_3)
  show "I (flow_state (f h r' d s))" if "ops_update (sbi_ipi_table env n exit p) = Some f"
    using ops that s by (auto simp: sbi_ipi_ops_def intro: update)
  show "I (flow_state (g h s))" if "ops_sync (sbi_ipi_table env n exit p) = Some g"
    using ops that s by (auto simp: sbi_ipi_ops_def intro: sync)
  have "I (flow_state (sbi_ipi_process_halt exit h s))"
    unfolding sbi_ipi_process_halt_def
    by (rule flow_bind_state [where I = I]) (use hart_stop [OF assms s] in auto)
  moreover have "I (flow_state (sbi_ipi_process_smode h s))"
    using s by (simp add: sbi_ipi_process_smode_def csr_ops)
  ultimately show "I (flow_state (k h s))" if "ops_process (sbi_ipi_table env n exit p) = Some k"
    using ops that process [OF s] by (auto simp: sbi_ipi_ops_def)
qed

lemma exit_nested: "I s \<Longrightarrow> I (flow_state (sbi_exit_nested env n k h s))"
proof (induction k arbitrary: h s)
  case (Suc k)
  have ipis: "I (flow_state (sbi_ipi_exit (sbi_ipi_table env n (sbi_exit_nested env n k)) h t))"
    if "I t" for t
    unfolding sbi_ipi_exit_def
    by (rule flow_bind_state [where I = I])
      (simp_all add: that csr_ops platform_left ipi_receiver.process_all [OF receiver [OF Suc.IH]])
  have rest: "I (flow_state (flow_bind
      (sbi_ipi_exit (sbi_ipi_table env n (sbi_exit_nested env n k)) h (sbi_timer_exit h t))
      (\<lambda>_ s. sbi_hsm_exit h (sbi_platform_final_exit h (sbi_platform_irqchip_exit h s)))))"
    if "I t" for t
    by (rule flow_bind_state [where I = I]) (simp_all add: that ipis timer_left platform_left hsm_left)
  show ?case
    using Suc.prems
    by (auto intro!: flow_bind_state [where I = I] rest pmu_left platform_left)
qed simp

lemma exit_kept: "I s \<Longrightarrow> I (flow_state (sbi_exit env n h s))"
  unfolding sbi_exit_def by (rule exit_nested)

end

sublocale library_invariant \<subseteq> events: ipi_receiver "library_ops env rounds" I
  unfolding library_ops_def by (rule receiver) (rule exit_kept)

section \<open>The two invariants\<close>

text \<open>The queues of all harts, and the state of one hart.\<close>

locale library_harts = other_harts env for env :: "'a timer_state_scheme \<Rightarrow> 'a timer_state_scheme" +
  fixes rounds :: nat

lemma tlb_fifo_pmu_exit [simp]: "tlb_fifo (flow_state (sbi_pmu_exit h s)) = tlb_fifo s"
proof -
  have a: "tlb_fifo (foldl (\<lambda>s j. set_active h j v s) t ks) = tlb_fifo t" for v t and ks :: "nat list"
    by (induction ks arbitrary: t) (simp_all add: set_active_def)
  have b: "tlb_fifo (foldl (\<lambda>s j. upd_fw_event h j f s) t ks) = tlb_fifo t" for f t and ks :: "nat list"
    by (induction ks arbitrary: t) (simp_all add: upd_fw_event_def)
  show ?thesis by (simp add: sbi_pmu_exit_def pmu_reset_event_map_def Let_def a b)
qed

lemma hsm_pmu_exit [simp]: "hsm_data (flow_state (sbi_pmu_exit h s)) = hsm_data s"
proof -
  have a: "hsm_data (foldl (\<lambda>s j. set_active h j v s) t ks) = hsm_data t" for v t and ks :: "nat list"
    by (induction ks arbitrary: t) (simp_all add: set_active_def)
  have b: "hsm_data (foldl (\<lambda>s j. upd_fw_event h j f s) t ks) = hsm_data t" for f t and ks :: "nat list"
    by (induction ks arbitrary: t) (simp_all add: upd_fw_event_def)
  show ?thesis by (simp add: sbi_pmu_exit_def pmu_reset_event_map_def Let_def a b)
qed

sublocale library_harts \<subseteq> library_invariant env tlb_wf rounds
  by unfold_locales (simp_all add: tlb_wf_def)

context library_harts begin

lemma process_wf: "tlb_wf s \<Longrightarrow> tlb_wf (flow_state (sbi_ipi_process (library_ops env rounds) h s))"
  by (rule events.process_all)

lemma send_wf:
  "tlb_wf s \<Longrightarrow> tlb_wf (flow_state (sbi_ipi_send_many (library_ops env rounds) h hmask hbase e d s))"
  by (rule events.send_many)

lemma request_wf:
  assumes "tlb_wf s"
  shows "tlb_wf (flow_state (sbi_tlb_request (library_ops env rounds) h hmask hbase i s))"
proof -
  have "tlb_wf (tlb_pmu_incr_fw_ctr h i s)" using assms by (simp add: tlb_wf_def)
  then show ?thesis using assms by (simp add: sbi_tlb_request_def Let_def send_wf)
qed

end

locale stopping_library = stopping_hart env me
  for env :: "'a timer_state_scheme \<Rightarrow> 'a timer_state_scheme" and me :: nat +
  fixes rounds :: nat

lemma hsm_frame_ipi [simp]: "hsm_data (set_ipi_type h v s) = hsm_data s"
  by (simp add: set_ipi_type_def)

sublocale stopping_library \<subseteq>
    library_invariant env "\<lambda>s. hst me s \<noteq> SBI_HSM_STATE_STARTED" rounds
  by unfold_locales simp_all

context stopping_library begin

lemma process_stays:
  "hst me s \<noteq> SBI_HSM_STATE_STARTED \<Longrightarrow>
   hst me (flow_state (sbi_ipi_process (library_ops env rounds) h s)) \<noteq> SBI_HSM_STATE_STARTED"
  by (rule events.process_all)

end

section \<open>Harts that wait for each other\<close>

text \<open>
  What the other harts do while a hart waits: each of them, in the order of the list, takes the IPIs
  that are pending for it. \<open>d\<close> is how deep they wait for each other while they do.
\<close>

fun others_turn ::
  "nat \<Rightarrow> nat \<Rightarrow> nat list \<Rightarrow> 'a timer_state_scheme \<Rightarrow> 'a timer_state_scheme" where
  "others_turn 0 n bs s = s"
| "others_turn (Suc d) n bs s =
     foldl (\<lambda>s b. flow_state (sbi_ipi_process (library_ops (others_turn d n bs) n) b s)) s bs"

lemma others_turn_wf:
  fixes s :: "'a timer_state_scheme"
  shows "tlb_wf s \<Longrightarrow> tlb_wf (others_turn d n bs s)"
proof (induction d arbitrary: s)
  case (Suc d)
  have "library_harts (others_turn d n bs :: 'a timer_state_scheme \<Rightarrow> _)"
    by (rule library_harts.intro, rule other_harts.intro) (rule Suc.IH)
  note step = library_harts.process_wf [OF this]
  show ?case
    unfolding others_turn.simps
    by (rule foldl_invariant [where I = tlb_wf]) (rule Suc.prems, rule step)
qed simp

lemma others_turn_stays:
  fixes s :: "'a timer_state_scheme"
  shows "hst me s \<noteq> SBI_HSM_STATE_STARTED \<Longrightarrow> hst me (others_turn d n bs s) \<noteq> SBI_HSM_STATE_STARTED"
proof (induction d arbitrary: s)
  case (Suc d)
  have "stopping_library (others_turn d n bs :: 'a timer_state_scheme \<Rightarrow> _) me"
    by (rule stopping_library.intro, rule stopping_hart.intro) (rule Suc.IH)
  note step = stopping_library.process_stays [OF this]
  show ?case
    unfolding others_turn.simps
    by (rule foldl_invariant [where I = "\<lambda>s. hst me s \<noteq> SBI_HSM_STATE_STARTED"])
      (rule Suc.prems, rule step)
qed simp

interpretation harts: library_harts "others_turn d n bs" n for d n bs
  by unfold_locales (rule others_turn_wf)

interpretation leaving: stopping_library "others_turn d n bs" me n for d n bs me
  by unfold_locales (rule others_turn_stays)

text \<open>In a system of harts that serve each other's requests the queues stay what they are
  declared to be, ring buffers with their indices in range: no request, no processing of the pending
  interrupts (whatever events are pending) and no exit of a hart leaves one of them ill-formed, also
  where it ends in a hang.\<close>

theorem fence_queues_well_formed:
  assumes "tlb_wf s"
  shows "tlb_wf (flow_state (sbi_tlb_request (library_ops (others_turn d n bs) n) h hmask hbase i s))
    \<and> tlb_wf (flow_state (sbi_ipi_process (library_ops (others_turn d n bs) n) h s))
    \<and> tlb_wf (flow_state (sbi_exit (others_turn d n bs) n h s))"
  using harts.request_wf [OF assms] harts.process_wf [OF assms] harts.exit_kept [OF assms]
  by blast

corollary fence_queues_well_formed_witness:
  "tlb_wf (flow_state (sbi_tlb_request (library_ops (others_turn 2 3 [1, 2]) 3) 0 7 0
     (SBI_TLB_INFO_INIT 0 8192 0 0 Local_sfence_vma 0) timer0))"
proof -
  have "tlb_wf timer0" by (simp add: tlb_wf_def timer0_defs fifo_init_wf)
  then show ?thesis using fence_queues_well_formed by blast
qed

section \<open>The exit does not nest deeper\<close>

text \<open>Two exits that agree on every hart that is not STARTED make no difference to the events.\<close>

lemma halt_agree:
  assumes "\<And>s. hst h s \<noteq> SBI_HSM_STATE_STARTED \<Longrightarrow> e1 h s = e2 h s"
  shows "sbi_ipi_process_halt e1 h s = sbi_ipi_process_halt e2 h s"
  by (simp add: sbi_ipi_process_halt_def sbi_hsm_hart_stop_def case_prod_unfold Let_def assms
      split: option.splits)

lemma run_event_agree:
  assumes "\<And>s. hst h s \<noteq> SBI_HSM_STATE_STARTED \<Longrightarrow> e1 h s = e2 h s"
  shows "ipi_run_event (sbi_ipi_table env n e1) h e s = ipi_run_event (sbi_ipi_table env n e2) h e s"
  using halt_agree [of h e1 e2 s] assms
  by (auto simp: ipi_run_event_def sbi_ipi_table_def sbi_ipi_ops_def less_Suc_eq numeral_3_eq_3
      split: option.splits)

lemma process_loop_agree:
  assumes "\<And>s. hst h s \<noteq> SBI_HSM_STATE_STARTED \<Longrightarrow> e1 h s = e2 h s"
  shows "ipi_process_loop (sbi_ipi_table env n e1) h ty e s
    = ipi_process_loop (sbi_ipi_table env n e2) h ty e s"
proof (induction "unat ty" arbitrary: ty e s rule: less_induct)
  case less
  show ?case
  proof (cases "ty = 0")
    case False
    have ih: "ipi_process_loop (sbi_ipi_table env n e1) h (drop_bit 1 ty) e'
        = ipi_process_loop (sbi_ipi_table env n e2) h (drop_bit 1 ty) e'" for e'
      by (rule ext) (rule less.hyps [OF unat_drop_bit_1_less [OF False]])
    show ?thesis
      using False run_event_agree [of h e1 e2, OF assms]
      by (simp add: ipi_process_loop.simps [of _ h ty e s] ih del: One_nat_def)
  qed (simp add: ipi_process_loop.simps)
qed

lemma exit_agree:
  assumes "\<And>s. hst h s \<noteq> SBI_HSM_STATE_STARTED \<Longrightarrow>
    sbi_exit_nested env n k h s = sbi_exit_nested env n k' h s"
  shows "sbi_exit_nested env n (Suc k) h s = sbi_exit_nested env n (Suc k') h s"
proof -
  note agree = process_loop_agree [of h "sbi_exit_nested env n k" "sbi_exit_nested env n k'", OF assms]
  show ?thesis by (simp add: sbi_ipi_exit_def sbi_ipi_process_def Let_def agree)
qed

text \<open>A hart that is not STARTED never reaches the exit of its halt event.\<close>

lemma flow_bind_cong_ret:
  "(\<And>a t. m = Ret a t \<Longrightarrow> f a t = g a t) \<Longrightarrow> flow_bind m f = flow_bind m g"
  by (cases m) simp_all

lemma halt_ignored:
  "hst h s \<noteq> SBI_HSM_STATE_STARTED \<Longrightarrow> sbi_ipi_process_halt exit h s = Ret () s"
  by (simp add: sbi_ipi_process_halt_def sbi_hsm_hart_stop_def hstate_cmpxchg_def split: option.splits)

context stopping_library begin

lemma run_event_same:
  assumes "hst me s \<noteq> SBI_HSM_STATE_STARTED"
  shows "ipi_run_event (sbi_ipi_table env n e1) me e s = ipi_run_event (sbi_ipi_table env n e2) me e s"
    and "hst me (flow_state (ipi_run_event (sbi_ipi_table env n e1) me e s)) \<noteq> SBI_HSM_STATE_STARTED"
  using assms process [OF assms]
  by (auto simp: ipi_run_event_def sbi_ipi_table_def sbi_ipi_ops_def less_Suc_eq numeral_3_eq_3
      halt_ignored sbi_ipi_process_smode_def split: option.splits)

lemma process_loop_same:
  "hst me s \<noteq> SBI_HSM_STATE_STARTED \<Longrightarrow>
   ipi_process_loop (sbi_ipi_table env n e1) me ty e s
     = ipi_process_loop (sbi_ipi_table env n e2) me ty e s"
proof (induction "unat ty" arbitrary: ty e s rule: less_induct)
  case less
  let ?run = "\<lambda>x. if ty AND 1 \<noteq> 0 then ipi_run_event (sbi_ipi_table env n x) me e s else Ret () s"
  show ?case
  proof (cases "ty = 0")
    case False
    have run: "?run e1 = ?run e2" "hst me (flow_state (?run e1)) \<noteq> SBI_HSM_STATE_STARTED"
      using run_event_same [OF less.prems] less.prems by auto
    have "flow_bind (?run e1) (\<lambda>_. ipi_process_loop (sbi_ipi_table env n e1) me (drop_bit 1 ty) (e + 1))
        = flow_bind (?run e1) (\<lambda>_. ipi_process_loop (sbi_ipi_table env n e2) me (drop_bit 1 ty) (e + 1))"
    proof (rule flow_bind_cong_ret)
      fix a t
      assume "?run e1 = Ret a t"
      then have "hst me t \<noteq> SBI_HSM_STATE_STARTED" using run(2) by simp
      then show "ipi_process_loop (sbi_ipi_table env n e1) me (drop_bit 1 ty) (e + 1) t
          = ipi_process_loop (sbi_ipi_table env n e2) me (drop_bit 1 ty) (e + 1) t"
        by (rule less.hyps [OF unat_drop_bit_1_less [OF False]])
    qed
    then show ?thesis
      using False run(1) by (simp only: ipi_process_loop.simps [of _ me ty e s] if_False)
  qed (simp add: ipi_process_loop.simps)
qed

lemma exit_same:
  assumes "hst me s \<noteq> SBI_HSM_STATE_STARTED"
  shows "sbi_exit_nested env n (Suc k) me s = sbi_exit_nested env n (Suc k') me s"
proof -
  have ipis: "sbi_ipi_exit (sbi_ipi_table env n e1) me t = sbi_ipi_exit (sbi_ipi_table env n e2) me t"
    if "hst me t \<noteq> SBI_HSM_STATE_STARTED" for e1 e2 t
  proof -
    have "hst me (set_ipi_type me 0 (ipi_device_clear me
        (snd (sbi_pmu_ctr_incr_fw me SBI_PMU_FW_IPI_RECVD (csr_clear me CSR_MIE MIP_MSIP t)))))
        \<noteq> SBI_HSM_STATE_STARTED"
      by (intro taken cleared counted csr_ops that)
    note same = process_loop_same [OF this]
    show ?thesis unfolding sbi_ipi_exit_def sbi_ipi_process_def Let_def same [of n e1 _ _ e2] ..
  qed
  show ?thesis
    unfolding sbi_exit_nested.simps
  proof (intro if_cong refl flow_bind_cong_ret)
    fix a t
    assume "sbi_pmu_exit me (sbi_platform_early_exit me s) = Ret a t"
    then have "hst me t \<noteq> SBI_HSM_STATE_STARTED"
      using pmu_left [OF platform_left(1) [OF assms], of me me] by simp
    from ipis [OF timer_left [OF this, of me]]
    show "flow_bind (sbi_ipi_exit (sbi_ipi_table env n (sbi_exit_nested env n k)) me (sbi_timer_exit me t))
        (\<lambda>_ s. sbi_hsm_exit me (sbi_platform_final_exit me (sbi_platform_irqchip_exit me s)))
      = flow_bind (sbi_ipi_exit (sbi_ipi_table env n (sbi_exit_nested env n k')) me (sbi_timer_exit me t))
        (\<lambda>_ s. sbi_hsm_exit me (sbi_platform_final_exit me (sbi_platform_irqchip_exit me s)))"
      by metis
  qed
qed

end

text \<open>The exit of a hart may run the halt event, which exits again; but deeper than that it never
  gets: any number of levels beyond two gives the same outcome, in the system of harts that serve
  each other.\<close>

theorem exit_nests_once:
  "sbi_exit_nested (others_turn d n bs) n (Suc (Suc k)) h s = sbi_exit (others_turn d n bs) n h s"
proof -
  have "sbi_exit_nested (others_turn d n bs) n (Suc k) h t = sbi_exit_nested (others_turn d n bs) n 1 h t"
    if "hst h t \<noteq> SBI_HSM_STATE_STARTED" for t
    unfolding One_nat_def by (rule leaving.exit_same [OF that])
  then have "sbi_exit_nested (others_turn d n bs) n (Suc (Suc k)) h s
      = sbi_exit_nested (others_turn d n bs) n (Suc 1) h s"
    by (rule exit_agree)
  moreover have "(2 :: nat) = Suc 1" by simp
  ultimately show ?thesis unfolding sbi_exit_def by (simp only: simp_thms)
qed

section \<open>A reset ends here\<close>

lemma not_returns_bind: "\<not> returns m \<Longrightarrow> \<not> returns (flow_bind m f)"
  by (cases m) simp_all

text \<open>Neither an exit of the hart nor a system reset comes back to its caller.\<close>

lemma reset_not_returning:
  "\<not> returns (sbi_system_reset (library_ops env n) (sbi_exit env n) h ty reason null s)"
proof -
  have "\<not> returns (sbi_exit env n h t)" for t by (simp add: sbi_exit_def exit_no_return)
  then show ?thesis
    unfolding sbi_system_reset_def Let_def
    by (intro bind_no_return) (simp add: bind_no_return split: option.splits)
qed

end
