(* ===== verification/Sbi_Tlb_Service.thy ===== *)
theory Sbi_Tlb_Service
  imports Sbi_Tlb_Queues
begin

text \<open>
  What becomes of a request: \<^verbatim>\<open>tlb_update\<close> puts it into the queue of the remote hart or merges it
  with a queued one, \<^verbatim>\<open>tlb_process\<close> of the remote hart executes the queue. The locale \<open>serving\<close>
  is the contract between the update and the callback of the queue: merging an entry may only make it serve
  more than it did.
\<close>

section \<open>One entry serves another request\<close>

text \<open>An entry serves a request when it is that request, or when it is of the same kind, for the same
  address space, covers the addresses of the request and signals every hart that waits for it. Only
  the two kinds of supervisor fences are ever merged.\<close>

definition merged_fn :: "tlb_fn option \<Rightarrow> bool" where
  "merged_fn f \<longleftrightarrow> f = Some Local_sfence_vma \<or> f = Some Local_sfence_vma_asid"

definition serves :: "sbi_tlb_info \<Rightarrow> sbi_tlb_info \<Rightarrow> bool" where
  "serves e request \<longleftrightarrow> e = request \<or>
     merged_fn (local_fn request) \<and> local_fn e = local_fn request
     \<and> (local_fn request = Some Local_sfence_vma_asid \<longrightarrow> ti_asid e = ti_asid request)
     \<and> covers request \<subseteq> covers e \<and> hm_set (smask request) \<subseteq> hm_set (smask e)"

text \<open>The requests whose ranges the merging treats as ranges: no wrap-around, and not the request of
  start 0 and size 0.\<close>

definition mergeable :: "sbi_tlb_info \<Rightarrow> bool" where
  "mergeable e \<longleftrightarrow> hm_wf (smask e) \<and> (merged_fn (local_fn e) \<longrightarrow> tlb_range_ok e)"

lemma serves_refl [simp]: "serves e e"
  by (simp add: serves_def)

lemma range_check_fields:
  "tlb_range_check cur next = (ret, cur') \<Longrightarrow> local_fn cur' = local_fn cur \<and> ti_asid cur' = ti_asid cur"
  by (auto simp: tlb_range_check_def Let_def split: if_splits)

lemma range_check_unchanged: "tlb_range_check cur next = (SBI_FIFO_UNCHANGED, cur') \<Longrightarrow> cur' = cur"
  by (auto simp: tlb_range_check_def Let_def split: if_splits)

text \<open>One call of the callback.\<close>

lemma update_cb_serves:
  assumes "mergeable cur" "mergeable request" "tlb_update_cb request cur = (ret, cur')"
  shows "serves cur' cur \<and> (if ret = SBI_FIFO_UNCHANGED then cur' = cur else serves cur' request)"
proof (cases "local_fn request = local_fn cur \<and> merged_fn (local_fn cur)
    \<and> (local_fn cur = Some Local_sfence_vma_asid \<longrightarrow> ti_asid request = ti_asid cur)")
  case True
  then have rc: "tlb_range_check cur request = (ret, cur')"
    using assms(3) by (auto simp: tlb_update_cb_def merged_fn_def split: if_splits)
  have ok: "tlb_range_ok cur" "tlb_range_ok request" "hm_wf (smask cur)"
    using assms(1,2) True by (simp_all add: mergeable_def)
  note kept = range_check_keeps_coverage [OF ok rc] range_check_fields [OF rc]
  show ?thesis
  proof (cases "ret = SBI_FIFO_UNCHANGED")
    case unchanged: True
    then show ?thesis using range_check_unchanged [OF rc [unfolded unchanged]] by simp
  next
    case False
    then show ?thesis using True kept by (auto simp: serves_def)
  qed
next
  case False
  then have "ret = SBI_FIFO_UNCHANGED \<and> cur' = cur"
    using assms(3) by (auto simp: tlb_update_cb_def merged_fn_def split: if_splits)
  then show ?thesis by simp
qed

section \<open>Merging into a queue\<close>

locale serving =
  fixes cb :: "'a \<Rightarrow> 'a \<Rightarrow> sbi_fifo_inplace_update_types \<times> 'a"
    and ok :: "'a \<Rightarrow> bool" and srv :: "'a \<Rightarrow> 'a \<Rightarrow> bool"
  assumes srv_refl: "srv x x"
    and called: "ok x \<Longrightarrow> ok r \<Longrightarrow> cb r x = (ret, y) \<Longrightarrow>
      srv y x \<and> (if ret = SBI_FIFO_UNCHANGED then y = x else srv y r)"
begin

lemma inplace_served:
  assumes "ok r" "\<forall>x \<in> set xs. ok x" "list_inplace cb r xs = (ret, ys)"
  shows "list_all2 srv ys xs \<and> (if ret = SBI_FIFO_UNCHANGED then ys = xs else \<exists>y \<in> set ys. srv y r)"
  using assms(2,3)
proof (induction xs arbitrary: ret ys)
  case (Cons x xs)
  obtain ret1 y where y: "cb r x = (ret1, y)" by fastforce
  note c = called [OF _ assms(1) y]
  show ?case
  proof (cases "ret1 = SBI_FIFO_UNCHANGED")
    case True
    obtain ret2 zs where z: "list_inplace cb r xs = (ret2, zs)" by fastforce
    have "y = x" using c Cons.prems(1) True by simp
    then show ?thesis using Cons.IH [OF _ z] Cons.prems True y z c by auto
  next
    case False
    then show ?thesis using Cons.prems y c by (auto simp: list.rel_refl srv_refl)
  qed
qed simp

end

interpretation fences: serving tlb_update_cb mergeable serves
  by unfold_locales (simp_all add: update_cb_serves)

section \<open>A request is queued or merged\<close>

text \<open>What a queue has to look like after a request: it is behind the others, or it is merged: no
  entry is gone or out of its place, each goes on serving what it served, and one of them serves the
  request.\<close>

definition request_taken ::
  "int \<Rightarrow> sbi_tlb_info \<Rightarrow> sbi_tlb_info list \<Rightarrow> sbi_tlb_info list \<Rightarrow> bool" where
  "request_taken ret request before after \<longleftrightarrow>
     (if ret = 0 then after = before @ [request]
      else ret = 1 \<and> list_all2 serves after before \<and> (\<exists>e \<in> set after. serves e request))"

lemma enqueue_loop_room:
  assumes "fifo_wf (tlb_fifo s rh)" "\<not> fifo_is_full (tlb_fifo s rh)" "0 < n"
  shows "tlb_enqueue_loop env k n h rh data s
    = Ret () (set_fifo rh (Some (fifo_enqueue (tlb_fifo s rh) data)) s)"
  using assms by (cases n) (simp_all add: Let_def)

text \<open>C19. A request for another hart is never lost in its queue. When the queue has room, the request
  is either merged with a queued one or put behind the others: in both cases every queued request
  goes on being served at its place, the new one is served by some entry of the queue (one of
  the same kind and address space that covers its addresses and signals every hart that waits for
  it), the queue stays well-formed, and nothing else changes: no other queue, no flag, no memory.
  The range is the one after the flush limit has been applied. Excluded are requests of
  start 0 and size 0 and ranges that wrap around, in the queue as well as the new one, of the two
  kinds of fences that are merged: for these the merging does lose addresses
  (\<open>global_flush_swallowed\<close>, \<open>global_flush_shrunk\<close>).\<close>

theorem request_not_lost:
  assumes "fifo_wf (tlb_fifo s rh)" "\<not> fifo_is_full (tlb_fifo s rh)" "rh \<noteq> h" "0 < n"
    and "request = tlb_limit_range (tlb_range_flush_limit s) data" "mergeable request"
    and "\<forall>e \<in> set (fifo_list (tlb_fifo s rh)). mergeable e"
  shows "\<exists>ret q. tlb_update env n h rh data s = Ret (ret, request) (set_fifo rh (Some q) s)
    \<and> fifo_wf q \<and> request_taken ret request (fifo_list (tlb_fifo s rh)) (fifo_list q)"
proof -
  obtain ret q where q: "sbi_fifo_inplace_update (Some (tlb_fifo s rh)) (Some request) tlb_update_cb
      = (ret, Some q)"
    using fifo_inplace_total [of "tlb_fifo s rh" request tlb_update_cb] by blast
  note spec = fifo_inplace_spec [OF assms(1) q]
  note served = fences.inplace_served [OF assms(6,7), of ret "fifo_list q"]
  have update: "tlb_update env n h rh data s
      = (if ret \<noteq> SBI_FIFO_UNCHANGED then Ret (1, request) (set_fifo rh (Some q) s)
         else flow_bind (tlb_enqueue_loop env n n h rh request (set_fifo rh (Some q) s))
                (\<lambda>_. Ret (0, request)))"
    unfolding tlb_update_def assms(5) [symmetric] Let_def q if_not_P [OF assms(3)] prod.case ..
  show ?thesis
  proof (cases "ret = SBI_FIFO_UNCHANGED")
    case False
    then show ?thesis
      using spec served by (intro exI [of _ 1] exI [of _ q]) (simp add: update request_taken_def)
  next
    case True
    have same: "fifo_list q = fifo_list (tlb_fifo s rh)" using spec served True by simp
    have room: "\<not> fifo_is_full q" using spec assms(2) by (simp add: fifo_is_full_def)
    have "tlb_update env n h rh data s
        = Ret (0, request) (set_fifo rh (Some (fifo_enqueue q request)) s)"
      using enqueue_loop_room [of "set_fifo rh (Some q) s" rh n env n h request] spec room assms(4) True
      by (simp add: update set_fifo_def)
    then show ?thesis
      using fifo_enqueue_wf [of q request] fifo_enqueue_list [of q request] spec room same
      by (intro exI [of _ 0] exI [of _ "fifo_enqueue q request"]) (simp add: request_taken_def)
  qed
qed

text \<open>Hart 2 has asked hart 1 to flush a page; hart 0 asks for two, above the limit.\<close>

definition waiting :: tlb_state where
  "waiting = set_fifo 1 (Some (fifo_enqueue (sbi_fifo_init tlb_info_zero 8 56) (page_request 0x1000 0x1000 2))) tlb0"

corollary request_not_lost_witness:
  "\<exists>ret q. tlb_update id 1 0 1 (page_request 0x1000 0x2000 0) waiting
     = Ret (ret, page_request 0 SBI_TLB_FLUSH_ALL 0) (set_fifo 1 (Some q) waiting)
   \<and> fifo_wf q \<and> request_taken ret (page_request 0 SBI_TLB_FLUSH_ALL 0) [page_request 0x1000 0x1000 2] (fifo_list q)"
proof -
  let ?q0 = "sbi_fifo_init tlb_info_zero 8 56"
  have q0: "fifo_wf ?q0" "\<not> fifo_is_full ?q0"
    by (simp_all add: fifo_init_wf) (simp add: fifo_is_full_def sbi_fifo_init_def)
  have q: "tlb_fifo waiting 1 = fifo_enqueue ?q0 (page_request 0x1000 0x1000 2)"
    by (simp add: waiting_def set_fifo_def)
  have l: "fifo_list (tlb_fifo waiting 1) = [page_request 0x1000 0x1000 2]"
    unfolding q fifo_enqueue_list [OF q0] by (simp add: fifo_init_list)
  have wf: "fifo_wf (tlb_fifo waiting 1)" unfolding q by (rule fifo_enqueue_wf [OF q0])
  have room: "\<not> fifo_is_full (tlb_fifo waiting 1)"
    unfolding q by (simp add: fifo_is_full_def fifo_enqueue_def sbi_fifo_init_def)
  have r: "page_request 0 SBI_TLB_FLUSH_ALL 0
      = tlb_limit_range (tlb_range_flush_limit waiting) (page_request 0x1000 0x2000 0)"
    by (simp add: waiting_def set_fifo_def tlb0_defs tlb_limit_range_def page_request_def SBI_TLB_INFO_INIT_def)
  have ok: "mergeable (page_request 0 SBI_TLB_FLUSH_ALL 0)" "mergeable (page_request 0x1000 0x1000 2)"
    by (simp_all add: mergeable_def tlb_range_ok_def page_request_def SBI_TLB_INFO_INIT_def unat_m1)
  show ?thesis
    using request_not_lost [OF wf room _ _ r ok(1), of 0 1 id] ok(2) by (simp only: l) simp
qed

section \<open>The fences of a request\<close>

text \<open>What a hart has to execute for a request: the instruction fence; one fence for everything; one
  for everything of an address space; or one for each page of the range. The fences of the \<open>vvma\<close>
  kinds carry the virtual machine they act on, the value that \<^verbatim>\<open>hgatp\<close> has taken.\<close>

definition vm_of :: "'a machine_scheme \<Rightarrow> nat \<Rightarrow> sbi_tlb_info \<Rightarrow> ulong" where
  "vm_of s h e = hw_legal s h CSR_HGATP (csr s h CSR_HGATP) (push_bit 44 (ti_vmid e) AND 0x03FFF00000000000)"

fun fence_global :: "tlb_fn \<Rightarrow> ulong \<Rightarrow> fence_op" where
  "fence_global Local_fence_i g = Fence_i"
| "fence_global Local_sfence_vma g = Sfence_vma_all"
| "fence_global Local_sfence_vma_asid g = Sfence_vma_all"
| "fence_global Local_hfence_gvma g = Hfence_gvma_all"
| "fence_global Local_hfence_gvma_vmid g = Hfence_gvma_all"
| "fence_global Local_hfence_vvma g = Hfence_vvma_all g"
| "fence_global Local_hfence_vvma_asid g = Hfence_vvma_all g"

fun fence_space :: "tlb_fn \<Rightarrow> ulong \<Rightarrow> sbi_tlb_info \<Rightarrow> fence_op" where
  "fence_space Local_sfence_vma_asid g e = Sfence_vma_asid (ti_asid e)"
| "fence_space Local_hfence_gvma_vmid g e = Hfence_gvma_vmid (ti_vmid e)"
| "fence_space Local_hfence_vvma_asid g e = Hfence_vvma_asid g (ti_asid e)"
| "fence_space f g e = fence_global f g"

fun fence_page :: "tlb_fn \<Rightarrow> ulong \<Rightarrow> sbi_tlb_info \<Rightarrow> ulong \<Rightarrow> fence_op" where
  "fence_page Local_fence_i g e a = Fence_i"
| "fence_page Local_sfence_vma g e a = Sfence_vma a"
| "fence_page Local_sfence_vma_asid g e a = Sfence_vma_va_asid a (ti_asid e)"
| "fence_page Local_hfence_gvma g e a = Hfence_gvma_gpa (drop_bit 2 a)"
| "fence_page Local_hfence_gvma_vmid g e a = Hfence_gvma_vmid_gpa (drop_bit 2 a) (ti_vmid e)"
| "fence_page Local_hfence_vvma g e a = Hfence_vvma_va g a"
| "fence_page Local_hfence_vvma_asid g e a = Hfence_vvma_asid_va g a (ti_asid e)"

definition request_fences :: "'a machine_scheme \<Rightarrow> nat \<Rightarrow> sbi_tlb_info \<Rightarrow> hw_event list" where
  "request_fences s h e =
     (case local_fn e of
        None \<Rightarrow> []
      | Some f \<Rightarrow>
          (let g = vm_of s h e in
           if f = Local_fence_i \<or> ti_start e = 0 \<and> ti_size e = 0 then [Ev_fence h (fence_global f g)]
           else if ti_size e = SBI_TLB_FLUSH_ALL then [Ev_fence h (fence_space f g e)]
           else page_fences (\<lambda>i. fence_page f g e (ti_start e + i)) h (ti_size e)))"

text \<open>The requests that can be executed: with a function, and a size short of the last page (or all).\<close>

definition executable :: "sbi_tlb_info \<Rightarrow> bool" where
  "executable e \<longleftrightarrow> local_fn e \<noteq> None
     \<and> (ti_size e = SBI_TLB_FLUSH_ALL \<or> unat (ti_size e) \<le> 2 ^ 64 - 4096)"

text \<open>The value that \<^verbatim>\<open>hgatp\<close> holds is one that it accepts.\<close>

definition hgatp_restores :: "nat \<Rightarrow> 'a machine_scheme \<Rightarrow> bool" where
  "hgatp_restores h s \<longleftrightarrow>
     (\<forall>old. hw_legal s h CSR_HGATP old (csr s h CSR_HGATP) = csr s h CSR_HGATP)"

definition kept :: "'a tlb_state_scheme \<Rightarrow> 'a tlb_state_scheme \<Rightarrow> bool" where
  "kept s t \<longleftrightarrow> csr t = csr s \<and> hw_legal t = hw_legal s \<and> tlb_fifo t = tlb_fifo s
     \<and> tlb_sync_flag t = tlb_sync_flag s \<and> scratch_tab t = scratch_tab s"

lemma kept_emit [simp]: "kept s (emit e t) = kept s t" "kept s (t\<lparr>trace := tr\<rparr>) = kept s t"
  by (simp_all add: kept_def emit_def)

lemma kept_counter [simp]: "kept s (snd (sbi_pmu_ctr_incr_fw h k s))"
  "trace (snd (sbi_pmu_ctr_incr_fw h k s)) = trace s"
  by (simp_all add: kept_def sbi_pmu_ctr_incr_fw_def upd_fw_event_def)

lemma trace_emit [simp]: "trace (emit e s) = trace s @ [e]"
  by (simp add: emit_def)

lemma fences_cong:
  assumes "csr t = csr s" "hw_legal t = hw_legal s"
  shows "request_fences t h e = request_fences s h e" "hgatp_restores h t = hgatp_restores h s"
proof -
  have "vm_of t h e = vm_of s h e" using assms unfolding vm_of_def by metis
  then show "request_fences t h e = request_fences s h e"
    by (simp add: request_fences_def cong: option.case_cong)
  show "hgatp_restores h t = hgatp_restores h s" using assms unfolding hgatp_restores_def by metis
qed

text \<open>The fences of the \<open>vvma\<close> kinds in the register of their virtual machine.\<close>

lemma vvma_run:
  assumes "hgatp_restores h s" "kept s u" "trace u = trace s"
    and "\<And>w. csr w h CSR_HGATP = vm_of s h e \<Longrightarrow>
      m w = Ret () (w\<lparr>trace := trace w @ es\<rparr>)"
  shows "\<exists>t. flow_bind (m (snd (csr_swap_hgatp h (ti_vmid e) u)))
      (\<lambda>_ w. Ret () (csr_write h CSR_HGATP (csr u h CSR_HGATP) w)) = Ret () t
    \<and> trace t = trace s @ es \<and> kept s t"
proof -
  let ?u = "snd (csr_swap_hgatp h (ti_vmid e) u)"
  have u: "csr u = csr s" "hw_legal u = hw_legal s" "tlb_fifo u = tlb_fifo s"
    "tlb_sync_flag u = tlb_sync_flag s" "scratch_tab u = scratch_tab s"
    using assms(2) by (simp_all add: kept_def)
  have w: "csr ?u = (csr s)(h := (csr s h)(CSR_HGATP := vm_of s h e))" "hw_legal ?u = hw_legal s"
    "tlb_fifo ?u = tlb_fifo s" "tlb_sync_flag ?u = tlb_sync_flag s" "scratch_tab ?u = scratch_tab s"
    "trace ?u = trace s"
    using u assms(3) by (simp_all add: csr_swap_hgatp_def csr_op_defs vm_of_def)
  have m: "m ?u = Ret () (?u\<lparr>trace := trace ?u @ es\<rparr>)" using assms(4) w(1) by simp
  have "hw_legal s h CSR_HGATP (vm_of s h e) (csr s h CSR_HGATP) = csr s h CSR_HGATP"
    using assms(1) by (simp add: hgatp_restores_def)
  then show ?thesis
    unfolding m using w u by (simp add: kept_def csr_write_def)
qed

lemma swap_old: "fst (csr_swap_hgatp h v u) = csr u h CSR_HGATP"
  by (simp add: csr_swap_hgatp_def csr_swap_def)

lemma call_fn_runs:
  assumes "executable e" "hgatp_restores h s"
  shows "\<exists>t. tlb_call_fn (local_fn e) h e s = Ret () t
    \<and> trace t = trace s @ request_fences s h e \<and> kept s t"
proof -
  obtain f where f: "local_fn e = Some f" using assms(1) by (auto simp: executable_def)
  have pages: "flush_loop F h (ti_size e) 0 u = Ret () (u\<lparr>trace := trace u @ page_fences F h (ti_size e)\<rparr>)"
    if "ti_size e \<noteq> SBI_TLB_FLUSH_ALL" for F and u :: "'a tlb_state_scheme"
    by (rule flush_loop_pages) (use assms(1) that in \<open>simp add: executable_def\<close>)
  show ?thesis
  proof (cases f)
    case Local_hfence_vvma
    let ?u = "snd (sbi_pmu_ctr_incr_fw h SBI_PMU_FW_HFENCE_VVMA_RCVD s)"
    let ?m = "\<lambda>w. if ti_start e = 0 \<and> ti_size e = 0 \<or> ti_size e = SBI_TLB_FLUSH_ALL
      then Ret () (emit (Ev_fence h (vvma_fence h Hfence_vvma_all w)) w)
      else flush_loop (\<lambda>i. vvma_fence h (\<lambda>g. Hfence_vvma_va g (ti_start e + i)) w) h (ti_size e) 0 w"
    have "\<exists>t. flow_bind (?m (snd (csr_swap_hgatp h (ti_vmid e) ?u)))
        (\<lambda>_ w. Ret () (csr_write h CSR_HGATP (csr ?u h CSR_HGATP) w)) = Ret () t
      \<and> trace t = trace s @ request_fences s h e \<and> kept s t"
      by (rule vvma_run [OF assms(2)])
        (auto simp: f Local_hfence_vvma request_fences_def Let_def pages vvma_fence_def csr_read_def emit_def)
    then show ?thesis
      by (simp add: f Local_hfence_vvma sbi_tlb_local_hfence_vvma_def Let_def case_prod_unfold swap_old)
  next
    case Local_hfence_vvma_asid
    let ?u = "snd (sbi_pmu_ctr_incr_fw h SBI_PMU_FW_HFENCE_VVMA_ASID_RCVD s)"
    let ?m = "\<lambda>w. if ti_start e = 0 \<and> ti_size e = 0
      then Ret () (emit (Ev_fence h (vvma_fence h Hfence_vvma_all w)) w)
      else if ti_size e = SBI_TLB_FLUSH_ALL
      then Ret () (emit (Ev_fence h (vvma_fence h (\<lambda>g. Hfence_vvma_asid g (ti_asid e)) w)) w)
      else flush_loop (\<lambda>i. vvma_fence h (\<lambda>g. Hfence_vvma_asid_va g (ti_start e + i) (ti_asid e)) w) h
        (ti_size e) 0 w"
    have "\<exists>t. flow_bind (?m (snd (csr_swap_hgatp h (ti_vmid e) ?u)))
        (\<lambda>_ w. Ret () (csr_write h CSR_HGATP (csr ?u h CSR_HGATP) w)) = Ret () t
      \<and> trace t = trace s @ request_fences s h e \<and> kept s t"
      by (rule vvma_run [OF assms(2)])
        (auto simp: f Local_hfence_vvma_asid request_fences_def Let_def pages vvma_fence_def csr_read_def emit_def)
    then show ?thesis
      by (simp add: f Local_hfence_vvma_asid sbi_tlb_local_hfence_vvma_asid_def Let_def case_prod_unfold swap_old)
  next
    case Local_fence_i
    then show ?thesis by (simp add: f sbi_tlb_local_fence_i_def request_fences_def)
  next
    case Local_sfence_vma
    then show ?thesis
      by (auto simp: f sbi_tlb_local_sfence_vma_def request_fences_def Let_def pages)
  next
    case Local_sfence_vma_asid
    then show ?thesis
      by (auto simp: f sbi_tlb_local_sfence_vma_asid_def request_fences_def Let_def pages)
  next
    case Local_hfence_gvma
    then show ?thesis
      by (auto simp: f sbi_tlb_local_hfence_gvma_def request_fences_def Let_def pages)
  next
    case Local_hfence_gvma_vmid
    then show ?thesis
      by (auto simp: f sbi_tlb_local_hfence_gvma_vmid_def request_fences_def Let_def pages)
  qed
qed

section \<open>The queue is served\<close>

text \<open>The harts that a request signals when it is done: those of its mask that have a scratch area.\<close>

definition waits :: "'a machine_scheme \<Rightarrow> sbi_tlb_info \<Rightarrow> nat set" where
  "waits s e = {r \<in> hm_set (smask e). scratch_tab s r}"

lemma waits_cong: "scratch_tab t = scratch_tab s \<Longrightarrow> waits t e = waits s e"
  by (simp add: waits_def)

definition signal :: "nat set \<Rightarrow> 'a tlb_state_scheme \<Rightarrow> 'a tlb_state_scheme" where
  "signal R s = s\<lparr>tlb_sync_flag := (\<lambda>r. if r \<in> R then 1 else tlb_sync_flag s r)\<rparr>"

lemma signal_frame [simp]:
  "tlb_fifo (signal R s) = tlb_fifo s" "trace (signal R s) = trace s" "csr (signal R s) = csr s"
  "hw_legal (signal R s) = hw_legal s" "scratch_tab (signal R s) = scratch_tab s"
  "tlb_sync_flag (signal R s) r = (if r \<in> R then 1 else tlb_sync_flag s r)"
  by (simp_all add: signal_def)

lemma signal_harts:
  assumes "0 < n" "distinct rs" "\<forall>r \<in> set rs. scratch_tab s r \<longrightarrow> tlb_sync_flag s r = 0"
  shows "flow_fold (\<lambda>r _ s. if \<not> scratch_tab s r then Ret () s else tlb_set_sync env n r s) rs () s
    = Ret () (signal {r \<in> set rs. scratch_tab s r} s)"
  using assms(2,3)
proof (induction rs arbitrary: s)
  case Nil
  then show ?case by (simp add: signal_def)
next
  case (Cons r rs)
  obtain k where n: "n = Suc k" using assms(1) by (cases n) auto
  show ?case
  proof (cases "scratch_tab s r")
    case True
    have "tlb_set_sync env n r s = Ret () (signal {r} s)"
      using True Cons.prems by (simp add: n set_sync_def signal_def fun_upd_def Let_def)
    moreover have "signal {x \<in> set rs. scratch_tab s x} (signal {r} s)
        = signal {x \<in> set (r # rs). scratch_tab s x} s"
      using True by (auto simp: signal_def fun_eq_iff)
    moreover have "flow_fold (\<lambda>r _ s. if \<not> scratch_tab s r then Ret () s else tlb_set_sync env n r s)
        rs () (signal {r} s) = Ret () (signal {x \<in> set rs. scratch_tab s x} (signal {r} s))"
      using Cons.IH [of "signal {r} s"] Cons.prems by auto
    ultimately show ?thesis using True by simp
  next
    case False
    then have "{x \<in> set (r # rs). scratch_tab s x} = {x \<in> set rs. scratch_tab s x}" by auto
    then show ?thesis using False Cons by simp
  qed
qed

lemma entry_served:
  assumes "executable e" "hgatp_restores h s" "0 < n" "\<forall>r \<in> waits s e. tlb_sync_flag s r = 0"
  shows "\<exists>t. tlb_entry_process env n h e s = Ret () (signal (waits s e) t)
    \<and> trace t = trace s @ request_fences s h e \<and> kept s t"
proof -
  obtain t where t: "tlb_call_fn (local_fn e) h e s = Ret () t"
    "trace t = trace s @ request_fences s h e" "kept s t"
    using call_fn_runs [OF assms(1,2)] by blast
  have "flow_fold (\<lambda>r _ s. if \<not> scratch_tab s r then Ret () s else tlb_set_sync env n r s)
      (sbi_hartmask_for_each_hart (smask e)) () t
    = Ret () (signal {r \<in> set (sbi_hartmask_for_each_hart (smask e)). scratch_tab t r} t)"
    by (rule signal_harts [OF assms(3)]) (use assms(4) t(3) in \<open>auto simp: waits_def kept_def\<close>)
  then show ?thesis
    using t by (intro exI [of _ t]) (simp add: tlb_entry_process_def waits_def kept_def)
qed

lemma dequeue_first:
  assumes "fifo_wf (tlb_fifo s h)" "fifo_list (tlb_fifo s h) = e # es"
  shows "\<exists>q. tlb_dequeue h s = (Some e, set_fifo h (Some q) s) \<and> fifo_wf q \<and> fifo_list q = es"
  using fifo_dequeue_spec [OF assms(1)] assms(2)
  by (auto simp: tlb_dequeue_def fifo_is_empty_iff split: prod.splits)

lemma dequeue_none:
  assumes "fifo_list (tlb_fifo s h) = []"
  shows "tlb_dequeue h s = (None, s)"
  using assms by (simp add: tlb_dequeue_def fifo_is_empty_iff set_fifo_def)

definition all_waits :: "'a machine_scheme \<Rightarrow> sbi_tlb_info list \<Rightarrow> nat set" where
  "all_waits s es = (\<Union>e \<in> set es. waits s e)"

text \<open>No hart waits for two requests of the queue, and none has a signal it has not taken.\<close>

definition free_to_signal :: "'a tlb_state_scheme \<Rightarrow> sbi_tlb_info list \<Rightarrow> bool" where
  "free_to_signal s es \<longleftrightarrow> sorted_wrt (\<lambda>e e'. waits s e \<inter> waits s e' = {}) es
     \<and> (\<forall>e \<in> set es. \<forall>r \<in> waits s e. tlb_sync_flag s r = 0)"

text \<open>The first request of the queue.\<close>

lemma first_served:
  assumes "fifo_wf (tlb_fifo s h)" "fifo_list (tlb_fifo s h) = e # es" "0 < n" "hgatp_restores h s"
    and "executable e" "\<forall>r \<in> waits s e. tlb_sync_flag s r = 0"
  obtains t where "tlb_process env n (Suc k) h s = tlb_process env n k h t" "fifo_wf (tlb_fifo t h)"
    "fifo_list (tlb_fifo t h) = es" "trace t = trace s @ request_fences s h e"
    "csr t = csr s" "hw_legal t = hw_legal s" "scratch_tab t = scratch_tab s"
    "\<And>r. tlb_sync_flag t r = (if r \<in> waits s e then 1 else tlb_sync_flag s r)"
    "\<And>h'. h' \<noteq> h \<Longrightarrow> tlb_fifo t h' = tlb_fifo s h'"
proof -
  obtain q where q: "tlb_dequeue h s = (Some e, set_fifo h (Some q) s)" "fifo_wf q" "fifo_list q = es"
    using dequeue_first [OF assms(1,2)] by blast
  let ?s = "set_fifo h (Some q) s"
  have frame: "csr ?s = csr s" "hw_legal ?s = hw_legal s" "trace ?s = trace s"
    "tlb_sync_flag ?s = tlb_sync_flag s" "scratch_tab ?s = scratch_tab s"
    "tlb_fifo ?s = (tlb_fifo s)(h := q)"
    by (simp_all add: set_fifo_def)
  have same: "request_fences ?s h e = request_fences s h e" "waits ?s e = waits s e"
    "hgatp_restores h ?s = hgatp_restores h s"
    by (rule fences_cong, rule frame, rule frame, rule waits_cong, rule frame, rule fences_cong, rule frame, rule frame)
  obtain t where t: "tlb_entry_process env n h e ?s = Ret () (signal (waits s e) t)"
    "trace t = trace s @ request_fences s h e" "kept ?s t"
    using entry_served [of e h ?s n env] assms(3-6) unfolding same frame by auto
  show thesis
  proof (rule that)
    show "tlb_process env n (Suc k) h s = tlb_process env n k h (signal (waits s e) t)"
      by (simp add: q(1) t(1))
  qed (use t(2,3) q(2,3) frame in \<open>simp_all add: kept_def\<close>)
qed

text \<open>C20. A hart that processes its queue comes to its end and leaves it empty: it has executed
  exactly the fences of the queued requests, in the order of the queue, page by page or as a whole
  as each request asks, and then set the flag of every hart that waits for one of them, no other
  flag; its CSRs (\<^verbatim>\<open>hgatp\<close>, which the fences of a virtual machine switch, included) and the queues
  of the other harts are what they were. No hart waits for two of the requests at once and none
  has a signal it has not taken, so no flag has to be waited for; each request names its function,
  with a size short of the last page or the one that means everything, and \<^verbatim>\<open>hgatp\<close> accepts the
  value it holds.\<close>

theorem queue_served:
  assumes "fifo_wf (tlb_fifo s h)" "length (fifo_list (tlb_fifo s h)) < m" "0 < n"
    and "hgatp_restores h s" "\<forall>e \<in> set (fifo_list (tlb_fifo s h)). executable e"
    and "free_to_signal s (fifo_list (tlb_fifo s h))"
  shows "\<exists>t. tlb_process env n m h s = Ret () t \<and> fifo_list (tlb_fifo t h) = []
    \<and> trace t = trace s @ concat (map (request_fences s h) (fifo_list (tlb_fifo s h)))
    \<and> (\<forall>r. tlb_sync_flag t r
         = (if r \<in> all_waits s (fifo_list (tlb_fifo s h)) then 1 else tlb_sync_flag s r))
    \<and> csr t = csr s \<and> (\<forall>h'. h' \<noteq> h \<longrightarrow> tlb_fifo t h' = tlb_fifo s h')"
  using assms(1,2,4-6)
proof (induction "fifo_list (tlb_fifo s h)" arbitrary: s m)
  case Nil
  then have l: "fifo_list (tlb_fifo s h) = []" by simp
  obtain k where "m = Suc k" using Nil.prems(2) by (cases m) auto
  then show ?case using dequeue_none [OF l] l by (intro exI [of _ s]) (simp add: all_waits_def)
next
  case (Cons e es)
  have l: "fifo_list (tlb_fifo s h) = e # es" using Cons.hyps(2) by simp
  obtain k where m: "m = Suc k" "length es < k" using Cons.prems(2) l by (cases m) auto
  have free: "\<forall>r \<in> waits s e. tlb_sync_flag s r = 0" "\<forall>x \<in> set es. waits s e \<inter> waits s x = {}"
    "\<forall>x \<in> set es. \<forall>r \<in> waits s x. tlb_sync_flag s r = 0"
    "sorted_wrt (\<lambda>e e'. waits s e \<inter> waits s e' = {}) es" "executable e" "\<forall>x \<in> set es. executable x"
    using Cons.prems(4,5) l by (simp_all add: free_to_signal_def)
  obtain t where t: "tlb_process env n (Suc k) h s = tlb_process env n k h t" "fifo_wf (tlb_fifo t h)"
    "fifo_list (tlb_fifo t h) = es" "trace t = trace s @ request_fences s h e"
    "csr t = csr s" "hw_legal t = hw_legal s" "scratch_tab t = scratch_tab s"
    "\<And>r. tlb_sync_flag t r = (if r \<in> waits s e then 1 else tlb_sync_flag s r)"
    "\<And>h'. h' \<noteq> h \<Longrightarrow> tlb_fifo t h' = tlb_fifo s h'"
    using first_served [OF Cons.prems(1) l assms(3) Cons.prems(3) free(5,1)] by metis
  note w = waits_cong [OF t(7)] fences_cong [OF t(5,6)]
  have "free_to_signal t es"
    using free by (auto simp: free_to_signal_def w t(8))
  then obtain u where u: "tlb_process env n k h t = Ret () u" "fifo_list (tlb_fifo u h) = []"
    "trace u = trace t @ concat (map (request_fences s h) es)"
    "\<forall>r. tlb_sync_flag u r = (if r \<in> all_waits t es then 1 else tlb_sync_flag t r)"
    "csr u = csr t" "\<forall>h'. h' \<noteq> h \<longrightarrow> tlb_fifo u h' = tlb_fifo t h'"
    using Cons.hyps(1) [OF t(3) [symmetric] t(2), unfolded t(3) w, OF m(2)] Cons.prems(3) free(6) by auto
  have "all_waits t es = all_waits s es" by (simp add: all_waits_def w)
  then show ?case
    using u t by (intro exI [of _ u]) (auto simp: l all_waits_def m(1))
qed

text \<open>Hart 1 serves the request for a page that hart 2 waits for.\<close>

corollary queue_served_witness:
  "\<exists>t. tlb_process id 1 2 1 waiting = Ret () t \<and> fifo_list (tlb_fifo t 1) = []
     \<and> trace t = [Ev_fence 1 (Sfence_vma 0x1000)]"
proof -
  let ?q0 = "sbi_fifo_init tlb_info_zero 8 56" and ?e = "page_request 0x1000 0x1000 2"
  have q0: "fifo_wf ?q0" "\<not> fifo_is_full ?q0"
    by (simp_all add: fifo_init_wf) (simp add: fifo_is_full_def sbi_fifo_init_def)
  have q: "tlb_fifo waiting 1 = fifo_enqueue ?q0 ?e" by (simp add: waiting_def set_fifo_def)
  have l: "fifo_list (tlb_fifo waiting 1) = [?e]"
    unfolding q fifo_enqueue_list [OF q0] by (simp add: fifo_init_list)
  have wf: "fifo_wf (tlb_fifo waiting 1)" unfolding q by (rule fifo_enqueue_wf [OF q0])
  have ok: "hgatp_restores 1 waiting" "executable ?e" "free_to_signal waiting [?e]" "trace waiting = []"
    by (simp_all add: hgatp_restores_def waiting_def set_fifo_def tlb0_defs executable_def
        free_to_signal_def page_request_def SBI_TLB_INFO_INIT_def)
  have f: "request_fences waiting 1 ?e = [Ev_fence 1 (Sfence_vma 0x1000)]"
    by (simp add: request_fences_def page_request_def SBI_TLB_INFO_INIT_def page_fences_def Let_def)
  show ?thesis
    using queue_served [OF wf _ _ ok(1), of 2 1 id] ok(2,3) unfolding l by (auto simp: f ok(4) simp del: One_nat_def)
qed

end
