(* ===== verification/Sbi_Reset.thy ===== *)
theory Sbi_Reset
  imports Sbi_Exit
begin

text \<open>
  The whole course of a system reset (\<^verbatim>\<open>sbi_system_reset\<close> of \<^verbatim>\<open>lib/sbi/sbi_system.c\<close>) in the
  library: whom it halts, which device it calls, and where it ends. The loop over the harts and the
  choice of the device are the subject of \<open>Sbi_System\<close>; here they are put together with the stop of
  the calling hart and the exit.
\<close>

section \<open>The device\<close>

text \<open>The device that a reset has to call: one of the list whose answer to the type and reason is
  positive and not exceeded.\<close>

definition chosen_device ::
  "u32 \<Rightarrow> u32 \<Rightarrow> sbi_system_reset_device list \<Rightarrow> sbi_system_reset_device \<Rightarrow> bool" where
  "chosen_device ty reason devs dev \<longleftrightarrow> dev \<in> set devs \<and> 0 < reset_status ty reason dev
     \<and> (\<forall>other \<in> set devs. reset_status ty reason other \<le> reset_status ty reason dev)"

definition device_answers :: "u32 \<Rightarrow> u32 \<Rightarrow> sbi_system_reset_device list \<Rightarrow> bool" where
  "device_answers ty reason devs \<longleftrightarrow> (\<exists>dev \<in> set devs. 0 < reset_status ty reason dev)"

lemma get_device_cases:
  obtains (none) "sbi_system_reset_get_device ty reason s = None"
      "\<not> device_answers ty reason (reset_devices_list s)"
    | (some) dev where "sbi_system_reset_get_device ty reason s = Some dev"
      "chosen_device ty reason (reset_devices_list s) dev" "device_answers ty reason (reset_devices_list s)"
  using reset_device_best [of ty reason s]
proof (elim disjE conjE exE)
  assume "sbi_system_reset_get_device ty reason s = None"
    "\<forall>dev\<in>set (reset_devices_list s). reset_status ty reason dev \<le> 0"
  then show thesis by (intro none) (auto simp: device_answers_def not_less)
next
  fix us dev vs
  assume dev: "sbi_system_reset_get_device ty reason s = Some dev"
    "reset_devices_list s = us @ dev # vs" "0 < reset_status ty reason dev"
    "\<forall>u\<in>set us. reset_status ty reason u < reset_status ty reason dev"
    "\<forall>v\<in>set vs. reset_status ty reason v \<le> reset_status ty reason dev"
  show thesis
    by (rule some [OF dev(1)]) (use dev in \<open>auto simp: chosen_device_def device_answers_def intro: less_imp_le\<close>)
qed

section \<open>The course of a reset\<close>

lemma triggers_devices [simp]: "reset_devices_list (triggers h e rs s) = reset_devices_list s"
  by (induction rs arbitrary: s)
    (simp_all add: ipi_trigger_def Let_def set_ipi_type_def sbi_ipi_raw_send_def emit_def
      sbi_pmu_ctr_incr_fw_def upd_fw_event_def split: option.splits)

text \<open>The calls of reset devices that a trace holds.\<close>

fun is_reset_call :: "hw_event \<Rightarrow> bool" where
  "is_reset_call (Ev_system_reset h dev ty reason) = True"
| "is_reset_call _ = False"

definition reset_calls :: "'a machine_scheme \<Rightarrow> hw_event list" where
  "reset_calls s = filter is_reset_call (trace s)"

lemma triggers_reset_calls [simp]: "reset_calls (triggers h e rs s) = reset_calls s"
  by (induction rs arbitrary: s)
    (simp_all add: reset_calls_def ipi_trigger_def Let_def set_ipi_type_def sbi_ipi_raw_send_def
      emit_def sbi_pmu_ctr_incr_fw_def upd_fw_event_def split: option.splits)

lemma get_device_same:
  "reset_devices_list s' = reset_devices_list s \<Longrightarrow>
   sbi_system_reset_get_device ty reason s' = sbi_system_reset_get_device ty reason s"
  by (simp add: sbi_system_reset_get_device_def)

lemma library_halt_plain:
  "unat (ipi_halt_event s) < 64 \<Longrightarrow> ipi_ops_array s ! unat (ipi_halt_event s) = Some ipi_halt_ops \<Longrightarrow>
   plain_event (library_ops env n) (unat (ipi_halt_event s)) s"
  by (simp add: plain_event_def library_ops_def sbi_ipi_table_def sbi_ipi_ops_def)

lemma congruent_below:
  fixes r h :: nat
  assumes "h < 128"
  shows "r \<le> h \<and> r mod 64 = h mod 64 \<longleftrightarrow> r = h \<or> r + 64 = h"
proof
  assume r: "r \<le> h \<and> r mod 64 = h mod 64"
  then obtain k where "h = r + 64 * k" by (metis mod_eq_nat1E)
  moreover from this have "k < 2" using assms by simp
  ultimately show "r = h \<or> r + 64 = h" by (cases k) auto
qed (use mod_add_self2 [of r 64] in auto)

text \<open>What a reset does once the other harts are marked.\<close>

lemma system_reset_after_halt:
  assumes "hartid_to_domain s h = Some d" "hartid_to_domain s' h = Some d" "doms s' = doms s"
    and "reset_halt_windows (last_hartid s div 64 + 2) ops h (Some d) 0 null s = Ret () s'"
  shows "sbi_system_reset ops exit h ty reason null s =
    (let t = snd (hstate_cmpxchg h SBI_HSM_STATE_STARTED SBI_HSM_STATE_STOP_PENDING s') in
     flow_bind (if system_reset_allowed (doms s d) then reset_device_call h ty reason t else Ret () t)
       (\<lambda>_ t. exit h t))"
  using assms
  by (simp add: sbi_system_reset_def sbi_hsm_hart_stop_def sbi_domain_thishart_def Let_def
      hstate_cmpxchg_def set_hstate_def)

text \<open>C36. A system reset, in the library: the loop ends, and then every hart of the caller's domain
  that can take an interrupt has the halt event pending, except the caller and, for a caller with an
  id of 64 or more, the hart with an id lower by 64 (its bit falls victim to the shift by more
  than the width of the mask); no other event has become pending or been lost. The caller's own state
  has gone from STARTED to STOP PENDING, that of no other hart has changed. If the domain is allowed
  to reset the system and some device answers the type and reason with a positive number, a device
  with the highest answer is called, once (no device has been called before); when it does not come back that is the end, otherwise and
  in every other case the end is the exit of the hart.\<close>

theorem system_reset_course:
  assumes "ipi_ops_array s ! unat (ipi_halt_event s) = Some ipi_halt_ops" "unat (ipi_halt_event s) < 64"
    and "hartid_to_domain s h = Some d" "hm_wf (assigned_harts (doms s d))"
    and "last_hartid s < 128" "h \<le> last_hartid s"
  shows "\<exists>t. (\<forall>r i. bit (ipi_type t r) i \<longleftrightarrow> bit (ipi_type s r) i
       \<or> i = unat (ipi_halt_event s) \<and> interruptible (doms s d) s r
         \<and> r \<noteq> h \<and> r + 64 \<noteq> h)
    \<and> (\<forall>r. hst r t = (if r = h \<and> hst h s = SBI_HSM_STATE_STARTED then SBI_HSM_STATE_STOP_PENDING
         else hst r s))
    \<and> reset_calls t = reset_calls s
    \<and> (if system_reset_allowed (doms s d) \<and> device_answers ty reason (reset_devices_list s)
       then \<exists>dev. chosen_device ty reason (reset_devices_list s) dev
         \<and> sbi_system_reset (library_ops env n) (sbi_exit env n) h ty reason null s =
             (let t' = emit (Ev_system_reset h (reset_id dev) ty reason) t
              in if reset_returns dev ty reason then sbi_exit env n h t' else Gone t')
       else sbi_system_reset (library_ops env n) (sbi_exit env n) h ty reason null s
         = sbi_exit env n h t)"
proof -
  let ?e = "unat (ipi_halt_event s)" and ?ops = "library_ops env n"
  obtain rs where rs: "reset_halt_windows (last_hartid s div 64 + 2) ?ops h (Some d) 0 null s
      = Ret () (triggers h ?e rs s)"
    "unat ` set rs = {r. interruptible (doms s d) s r \<and> 64 * 0 \<le> r \<and> \<not> (r \<le> h \<and> r mod 64 = h mod 64)}"
  proof (rule reset_halt_windows_from [where null = null and n = "last_hartid s div 64 + 2",
        OF library_halt_plain [OF assms(2,1)] assms(3-6)])
    show "0 = 64 * of_nat 0" "0 \<le> last_hartid s div 64 + 1"
      "last_hartid s div 64 + 1 < 0 + (last_hartid s div 64 + 2)" by simp_all
  qed
  define t where "t = snd (hstate_cmpxchg h SBI_HSM_STATE_STARTED SBI_HSM_STATE_STOP_PENDING
    (triggers h ?e rs s))"
  have course: "sbi_system_reset ?ops (sbi_exit env n) h ty reason null s =
    flow_bind (if system_reset_allowed (doms s d) then reset_device_call h ty reason t else Ret () t)
       (\<lambda>_ t. sbi_exit env n h t)"
    using system_reset_after_halt [OF assms(3) _ _ rs(1)] assms(3) by (simp add: t_def)
  have devs: "sbi_system_reset_get_device ty reason t = sbi_system_reset_get_device ty reason s"
    by (rule get_device_same) (simp add: t_def hstate_cmpxchg_def set_hstate_def)
  have "ipi_type t = ipi_type (triggers h ?e rs s)"
    by (simp add: t_def hstate_cmpxchg_def set_hstate_def)
  moreover have "r \<le> h \<and> r mod 64 = h mod 64 \<longleftrightarrow> r = h \<or> r + 64 = h" for r
    by (rule congruent_below) (use assms(5,6) in simp)
  ultimately have marks: "bit (ipi_type t r) i \<longleftrightarrow> bit (ipi_type s r) i
       \<or> i = ?e \<and> interruptible (doms s d) s r \<and> r \<noteq> h \<and> r + 64 \<noteq> h" for r i
    by (auto simp: triggers_type [OF assms(2)] rs(2))
  have calls: "reset_calls t = reset_calls s"
  proof -
    have "trace t = trace (triggers h ?e rs s)" by (simp add: t_def hstate_cmpxchg_def set_hstate_def)
    then have "reset_calls t = reset_calls (triggers h ?e rs s)" by (simp add: reset_calls_def)
    then show ?thesis by simp
  qed
  have states: "hst r t = (if r = h \<and> hst h s = SBI_HSM_STATE_STARTED
      then SBI_HSM_STATE_STOP_PENDING else hst r s)" for r
    by (simp add: t_def)
  show ?thesis
  proof (rule get_device_cases [of ty reason s])
    assume "sbi_system_reset_get_device ty reason s = None"
      "\<not> device_answers ty reason (reset_devices_list s)"
    then show ?thesis
      by (intro exI [of _ t]) (simp add: marks states calls course reset_device_call_def devs)
  next
    fix dev
    assume "sbi_system_reset_get_device ty reason s = Some dev"
      "chosen_device ty reason (reset_devices_list s) dev" "device_answers ty reason (reset_devices_list s)"
    then show ?thesis
      by (intro exI [of _ t]) (auto simp: marks states calls course reset_device_call_def devs Let_def)
  qed
qed

text \<open>Hart 1 of a machine with two harts resets it: hart 0 is halted, the device does not return.\<close>

definition both_started :: system_state where
  "both_started = set_hstate 1 SBI_HSM_STATE_STARTED system0"

lemmas started_defs = both_started_def set_hstate_def system0_defs

corollary system_reset_course_witness:
  "\<exists>t. reset_calls t = [] \<and> bit (ipi_type t 0) 1 \<and> \<not> bit (ipi_type t 1) 1 \<and> hst 1 t = SBI_HSM_STATE_STOP_PENDING
     \<and> sbi_system_reset (library_ops id 1) (sbi_exit id 1) 1 0 0 tlb_info_zero both_started
       = Gone (emit (Ev_system_reset 1 1 0 0) t)"
proof -
  let ?dev = "\<lparr>reset_id = 1, reset_check = Some (\<lambda>ty reason. 1), reset_returns = (\<lambda>ty reason. False)\<rparr>"
  have d: "ipi_ops_array both_started ! unat (ipi_halt_event both_started) = Some ipi_halt_ops"
    "unat (ipi_halt_event both_started) < 64" "hartid_to_domain both_started 1 = Some 0"
    "hm_wf (assigned_harts (doms both_started 0))" "last_hartid both_started < 128" "1 \<le> last_hartid both_started"
    by (simp_all add: started_defs hm_wf_def)
  have m: "0 \<in> hm_set (assigned_harts (doms both_started 0))" unfolding hm_test [symmetric] by code_simp
  have i: "interruptible (doms both_started 0) both_started 0" "unat (ipi_halt_event both_started) = 1"
    "ipi_type both_started = (\<lambda>h. 0)" "hst 1 both_started = SBI_HSM_STATE_STARTED"
    "system_reset_allowed (doms both_started 0)" "reset_devices_list both_started = [?dev]"
    using m by (simp_all add: interruptible_def hsm_hart_get_state_def started_defs)
  have dev: "chosen_device 0 0 [?dev] dev \<longleftrightarrow> dev = ?dev" "device_answers 0 0 [?dev]" for dev
    by (auto simp: chosen_device_def device_answers_def reset_status_def)
  obtain t dev where t: "bit (ipi_type t r) i \<longleftrightarrow> bit (ipi_type both_started r) i
       \<or> i = 1 \<and> interruptible (doms both_started 0) both_started r \<and> r \<noteq> 1 \<and> r + 64 \<noteq> 1"
    "hst r t = (if r = 1 \<and> hst 1 both_started = SBI_HSM_STATE_STARTED
      then SBI_HSM_STATE_STOP_PENDING else hst r both_started)"
    "chosen_device 0 0 (reset_devices_list both_started) dev" "reset_calls t = reset_calls both_started"
    "sbi_system_reset (library_ops id 1) (sbi_exit id 1) 1 0 0 tlb_info_zero both_started
      = (let t' = emit (Ev_system_reset 1 (reset_id dev) 0 0) t
         in if reset_returns dev 0 0 then sbi_exit id 1 1 t' else Gone t')" for r i
    using system_reset_course [OF d, of 0 0 id 1 tlb_info_zero] i(2,5) dev(2)
    by (simp only: simp_thms if_True i(6)) metis
  have "dev = ?dev" using t(3) unfolding i(6) dev(1) .
  with t(5) have "sbi_system_reset (library_ops id 1) (sbi_exit id 1) 1 0 0 tlb_info_zero both_started
      = Gone (emit (Ev_system_reset 1 1 0 0) t)"
    by simp
  moreover have "reset_calls both_started = []" by (simp add: reset_calls_def started_defs)
  ultimately show ?thesis using t(1,2,4) i(1,3,4) by (intro exI [of _ t]) simp
qed

end
