(* ===== verification/Sbi_Trap.thy ===== *)
theory Sbi_Trap
  imports Riscv_Asm
begin

text \<open>
  The register frame of a trap and \<^verbatim>\<open>sbi_trap_redirect\<close> (\<^verbatim>\<open>lib/sbi/sbi_trap.c\<close>), which hands a
  trap on to the supervisor, with the accessors of instruction operands
  (\<^verbatim>\<open>include/sbi/riscv_encoding.h\<close>). The 31 registers and the slot of \<^verbatim>\<open>zero\<close> lie in the frame in the order
  of their numbers, so they are a function of the number; \<^verbatim>\<open>mstatusH\<close> is for 32 bit builds only.
\<close>

section \<open>The frame\<close>

record sbi_trap_regs =
  gpr :: "nat \<Rightarrow> ulong"
  mepc :: ulong
  mstatus :: ulong

record sbi_trap_info =
  epc :: ulong
  cause :: ulong
  tval :: ulong
  tval2 :: ulong
  tinst :: ulong

abbreviation (input) reg_a0 :: "sbi_trap_regs \<Rightarrow> ulong" where "reg_a0 regs \<equiv> gpr regs 10"
abbreviation (input) reg_a1 :: "sbi_trap_regs \<Rightarrow> ulong" where "reg_a1 regs \<equiv> gpr regs 11"
abbreviation (input) reg_a2 :: "sbi_trap_regs \<Rightarrow> ulong" where "reg_a2 regs \<equiv> gpr regs 12"
abbreviation (input) reg_a3 :: "sbi_trap_regs \<Rightarrow> ulong" where "reg_a3 regs \<equiv> gpr regs 13"
abbreviation (input) reg_a4 :: "sbi_trap_regs \<Rightarrow> ulong" where "reg_a4 regs \<equiv> gpr regs 14"
abbreviation (input) reg_a6 :: "sbi_trap_regs \<Rightarrow> ulong" where "reg_a6 regs \<equiv> gpr regs 16"
abbreviation (input) reg_a7 :: "sbi_trap_regs \<Rightarrow> ulong" where "reg_a7 regs \<equiv> gpr regs 17"

definition set_gpr :: "nat \<Rightarrow> ulong \<Rightarrow> sbi_trap_regs \<Rightarrow> sbi_trap_regs" where
  "set_gpr n v regs = regs\<lparr>gpr := (gpr regs)(n := v)\<rparr>"

definition trap_info_zero :: sbi_trap_info where
  "trap_info_zero = \<lparr>epc = 0, cause = 0, tval = 0, tval2 = 0, tinst = 0\<rparr>"

abbreviation (input) CAUSE_FETCH_ACCESS :: ulong where "CAUSE_FETCH_ACCESS \<equiv> 1"
abbreviation (input) CAUSE_ILLEGAL_INSTRUCTION :: ulong where "CAUSE_ILLEGAL_INSTRUCTION \<equiv> 2"
abbreviation (input) CAUSE_MISALIGNED_LOAD :: ulong where "CAUSE_MISALIGNED_LOAD \<equiv> 4"
abbreviation (input) CAUSE_LOAD_ACCESS :: ulong where "CAUSE_LOAD_ACCESS \<equiv> 5"
abbreviation (input) CAUSE_MISALIGNED_STORE :: ulong where "CAUSE_MISALIGNED_STORE \<equiv> 6"
abbreviation (input) CAUSE_STORE_ACCESS :: ulong where "CAUSE_STORE_ACCESS \<equiv> 7"
abbreviation (input) CAUSE_SUPERVISOR_ECALL :: ulong where "CAUSE_SUPERVISOR_ECALL \<equiv> 9"
abbreviation (input) CAUSE_MACHINE_ECALL :: ulong where "CAUSE_MACHINE_ECALL \<equiv> 11"
abbreviation (input) CAUSE_FETCH_PAGE_FAULT :: ulong where "CAUSE_FETCH_PAGE_FAULT \<equiv> 12"
abbreviation (input) CAUSE_LOAD_PAGE_FAULT :: ulong where "CAUSE_LOAD_PAGE_FAULT \<equiv> 13"
abbreviation (input) CAUSE_STORE_PAGE_FAULT :: ulong where "CAUSE_STORE_PAGE_FAULT \<equiv> 15"
abbreviation (input) CAUSE_FETCH_GUEST_PAGE_FAULT :: ulong where "CAUSE_FETCH_GUEST_PAGE_FAULT \<equiv> 20"
abbreviation (input) CAUSE_LOAD_GUEST_PAGE_FAULT :: ulong where "CAUSE_LOAD_GUEST_PAGE_FAULT \<equiv> 21"

abbreviation (input) HSTATUS_SPVP :: ulong where "HSTATUS_SPVP \<equiv> 0x100"
abbreviation (input) HSTATUS_SPV :: ulong where "HSTATUS_SPV \<equiv> 0x80"

text \<open>The mode the trap came from, and whether it came from a virtual machine.\<close>

definition trap_prev_mode :: "sbi_trap_regs \<Rightarrow> ulong" where
  "trap_prev_mode regs = drop_bit 11 (mstatus regs AND MSTATUS_MPP)"

definition trap_prev_virt :: "sbi_trap_regs \<Rightarrow> bool" where
  "trap_prev_virt regs \<longleftrightarrow> mstatus regs AND MSTATUS_MPV \<noteq> 0"

section \<open>Redirection\<close>

text \<open>\<open>enter_sstatus\<close> is what entering a trap does to the fields of \<^verbatim>\<open>sstatus\<close>; the code writes it
  out for \<^verbatim>\<open>vsstatus\<close> and for \<^verbatim>\<open>mstatus\<close>, where the bits have the same places.\<close>

definition enter_sstatus :: "ulong \<Rightarrow> ulong \<Rightarrow> ulong" where
  "enter_sstatus prev_mode st =
     (let st = st AND NOT MSTATUS_SPP;
          st = (if prev_mode = PRV_S then st OR push_bit 8 1 else st);
          st = st AND NOT MSTATUS_SPIE;
          st = (if st AND MSTATUS_SIE \<noteq> 0 then st OR push_bit 5 1 else st)
      in st AND NOT MSTATUS_SIE)"

definition redirect_hstatus ::
  "nat \<Rightarrow> ulong \<Rightarrow> sbi_trap_info \<Rightarrow> 'a machine_scheme \<Rightarrow> 'a machine_scheme" where
  "redirect_hstatus h prev_mode trap s =
     (let hstatus = csr_read h CSR_HSTATUS s;
          hstatus = hstatus AND NOT HSTATUS_SPVP;
          hstatus = hstatus OR (if prev_mode = PRV_S then HSTATUS_SPVP else 0);
          hstatus = hstatus AND NOT HSTATUS_SPV;
          hstatus = hstatus OR HSTATUS_SPV;
          s = csr_write h CSR_HSTATUS hstatus s;
          s = csr_write h CSR_HTVAL (tval2 trap) s
      in csr_write h CSR_HTINST (tinst trap) s)"

definition sbi_trap_redirect ::
  "nat \<Rightarrow> sbi_trap_regs \<Rightarrow> sbi_trap_info \<Rightarrow> 'a machine_scheme
     \<Rightarrow> int \<times> sbi_trap_regs \<times> 'a machine_scheme" where
  "sbi_trap_redirect h regs trap s =
     (let prev_virt = trap_prev_virt regs; prev_mode = trap_prev_mode regs in
      if prev_mode \<noteq> PRV_S \<and> prev_mode \<noteq> PRV_U then (SBI_ENOTSUPP, regs, s)
      else
        let next_virt = (misa_extension h (CHR ''H'') s \<and> prev_virt
              \<and> cause trap \<in> {CAUSE_FETCH_PAGE_FAULT, CAUSE_LOAD_PAGE_FAULT, CAUSE_STORE_PAGE_FAULT});
            mst = mstatus regs AND NOT MSTATUS_MPV;
            mst = mst OR (if next_virt then MSTATUS_MPV else 0);
            s = (if misa_extension h (CHR ''H'') s \<and> prev_virt \<and> \<not> next_virt
                 then redirect_hstatus h prev_mode trap s else s)
        in if next_virt then
             let s = csr_write h CSR_VSTVAL (tval trap) s;
                 s = csr_write h CSR_VSEPC (epc trap) s;
                 s = csr_write h CSR_VSCAUSE (cause trap) s;
                 mst = (mst AND NOT MSTATUS_MPP) OR push_bit 11 PRV_S;
                 regs = regs\<lparr>mepc := csr_read h CSR_VSTVEC s, mstatus := mst\<rparr>;
                 s = csr_write h CSR_VSSTATUS (enter_sstatus prev_mode (csr_read h CSR_VSSTATUS s)) s
             in (0, regs, s)
           else
             let s = csr_write h CSR_STVAL (tval trap) s;
                 s = csr_write h CSR_SEPC (epc trap) s;
                 s = csr_write h CSR_SCAUSE (cause trap) s;
                 mst = (mst AND NOT MSTATUS_MPP) OR push_bit 11 PRV_S;
                 regs = regs\<lparr>mepc := csr_read h CSR_STVEC s, mstatus := enter_sstatus prev_mode mst\<rparr>
             in (0, regs, s))"

section \<open>Operands of an instruction\<close>

definition RV_X :: "ulong \<Rightarrow> nat \<Rightarrow> nat \<Rightarrow> nat" where
  "RV_X x sh n = unat (drop_bit sh x AND mask n)"

definition RVC_RS1S :: "ulong \<Rightarrow> nat" where "RVC_RS1S insn = 8 + RV_X insn 7 3"
definition RVC_RS2S :: "ulong \<Rightarrow> nat" where "RVC_RS2S insn = 8 + RV_X insn 2 3"
definition RVC_RS2 :: "ulong \<Rightarrow> nat" where "RVC_RS2 insn = RV_X insn 2 5"

text \<open>The byte offset \<^verbatim>\<open>REG_OFFSET\<close> is eight times the five bit field at \<open>pos\<close>, so the register it
  points to is the one the field names.\<close>

definition REG_PTR :: "ulong \<Rightarrow> nat \<Rightarrow> nat" where
  "REG_PTR insn pos = RV_X insn pos 5"

definition GET_RM :: "ulong \<Rightarrow> nat" where "GET_RM insn = RV_X insn 12 3"

definition GET_RS1 :: "ulong \<Rightarrow> sbi_trap_regs \<Rightarrow> ulong" where
  "GET_RS1 insn regs = gpr regs (REG_PTR insn 15)"
definition GET_RS2 :: "ulong \<Rightarrow> sbi_trap_regs \<Rightarrow> ulong" where
  "GET_RS2 insn regs = gpr regs (REG_PTR insn 20)"
definition GET_RS2S :: "ulong \<Rightarrow> sbi_trap_regs \<Rightarrow> ulong" where
  "GET_RS2S insn regs = gpr regs (RVC_RS2S insn)"
definition GET_RS2C :: "ulong \<Rightarrow> sbi_trap_regs \<Rightarrow> ulong" where
  "GET_RS2C insn regs = gpr regs (REG_PTR insn 2)"
definition SET_RD :: "ulong \<Rightarrow> ulong \<Rightarrow> sbi_trap_regs \<Rightarrow> sbi_trap_regs" where
  "SET_RD insn v regs = set_gpr (REG_PTR insn 7) v regs"

definition INSN_LEN :: "ulong \<Rightarrow> ulong" where
  "INSN_LEN insn = (if insn AND 3 \<noteq> 3 then 2 else 4)"

section \<open>What a redirected trap looks like to the supervisor\<close>

lemma mstatus_mask_bits:
  "bit (MSTATUS_SPP) k \<longleftrightarrow> k = 8" "bit (MSTATUS_SPIE) k \<longleftrightarrow> k = 5"
  "bit (MSTATUS_SIE) k \<longleftrightarrow> k = 1" "bit (MSTATUS_MPP) k \<longleftrightarrow> k = 11 \<or> k = 12"
  "bit (MSTATUS_MPV) k \<longleftrightarrow> k = 39" "bit (push_bit 8 1 :: ulong) k \<longleftrightarrow> k = 8"
  "bit (push_bit 5 1 :: ulong) k \<longleftrightarrow> k = 5" "bit (push_bit 11 1 :: ulong) k \<longleftrightarrow> k = 11"
proof -
  have p: "bit (push_bit j 1 :: ulong) k \<longleftrightarrow> k = j" if "j < 64" for j
    using that by (auto simp: bit_exp_iff possible_bit_word)
  have e: "MSTATUS_SPP = push_bit 8 1" "MSTATUS_SPIE = push_bit 5 1" "MSTATUS_SIE = push_bit 1 1"
    "MSTATUS_MPP = push_bit 11 1 OR push_bit 12 1" "MSTATUS_MPV = push_bit 39 1"
    by simp_all
  show "bit (MSTATUS_SPP) k \<longleftrightarrow> k = 8" "bit (MSTATUS_SPIE) k \<longleftrightarrow> k = 5"
    "bit (MSTATUS_SIE) k \<longleftrightarrow> k = 1" "bit (MSTATUS_MPP) k \<longleftrightarrow> k = 11 \<or> k = 12"
    "bit (MSTATUS_MPV) k \<longleftrightarrow> k = 39" "bit (push_bit 8 1 :: ulong) k \<longleftrightarrow> k = 8"
    "bit (push_bit 5 1 :: ulong) k \<longleftrightarrow> k = 5" "bit (push_bit 11 1 :: ulong) k \<longleftrightarrow> k = 11"
    by (simp_all only: e p bit_or_iff)
qed

lemma and_SIE: "st AND MSTATUS_SIE \<noteq> 0 \<longleftrightarrow> bit (st :: ulong) 1"
  by (auto simp only: word_zero_iff_bits bit_and_iff mstatus_mask_bits)

lemma enter_sstatus_bit:
  "bit (enter_sstatus m st) k \<longleftrightarrow>
     (if k = 8 then m = PRV_S else if k = 5 then bit st 1 else if k = 1 then False else bit st k)"
proof (cases "k < 64")
  case True
  then show ?thesis
    unfolding enter_sstatus_def Let_def and_SIE
    by (simp only: bit_and_iff bit_or_iff bit_not_ulong mstatus_mask_bits split: if_split) auto
next
  case False
  then show ?thesis using word64_bit_less by auto
qed

lemma take_bit_2_nat: "take_bit 2 (n :: nat) = of_bool (bit n 0) + 2 * of_bool (bit n 1)"
proof -
  have "take_bit 2 n = take_bit (Suc (Suc 0)) n" by (simp only: numeral_2_eq_2)
  then show ?thesis by (simp add: take_bit_Suc bit_Suc bit_0 mod_2_eq_odd)
qed

lemma low_bits_field:
  "unat (drop_bit 11 (w AND MSTATUS_MPP)) = of_bool (bit (w :: ulong) 11) + 2 * of_bool (bit w 12)"
proof -
  have "drop_bit 11 (w AND MSTATUS_MPP) = drop_bit 11 w AND mask 2"
    by (simp add: mask_eq_exp_minus_1)
  then have "unat (drop_bit 11 (w AND MSTATUS_MPP)) = unat (take_bit 2 (drop_bit 11 w))"
    by (simp only: take_bit_eq_mask)
  also have "\<dots> = take_bit 2 (unat (drop_bit 11 w))" by (simp add: unsigned_take_bit_eq)
  also have "\<dots> = of_bool (bit w 11) + 2 * of_bool (bit w 12)"
    unfolding take_bit_2_nat by (simp add: bit_unsigned_iff bit_drop_bit_eq)
  finally show ?thesis .
qed

text \<open>C3. A trap of a program in supervisor or user mode outside a virtual machine is delivered as the
  hardware would deliver it to the supervisor: the program counter is the supervisor's trap vector,
  the cause, value and address are in its registers, the mode is supervisor, \<^verbatim>\<open>SPP\<close> remembers the
  mode it came from and \<^verbatim>\<open>SPIE\<close> the interrupt enable, interrupts are off, and no other bit of the
  status and no register of the program changes. A trap of machine mode is refused unchanged.\<close>

theorem trap_redirect_delivers:
  assumes "\<not> trap_prev_virt regs"
  shows "case sbi_trap_redirect h regs trap s of (ret, regs', s') \<Rightarrow>
    if trap_prev_mode regs \<in> {PRV_S, PRV_U} then
      ret = 0 \<and> mepc regs' = csr s h CSR_STVEC \<and> gpr regs' = gpr regs
      \<and> s' = csr_write h CSR_SCAUSE (cause trap)
               (csr_write h CSR_SEPC (epc trap) (csr_write h CSR_STVAL (tval trap) s))
      \<and> trap_prev_mode regs' = PRV_S
      \<and> (bit (mstatus regs') 8 \<longleftrightarrow> trap_prev_mode regs = PRV_S)
      \<and> (bit (mstatus regs') 5 \<longleftrightarrow> bit (mstatus regs) 1) \<and> \<not> bit (mstatus regs') 1
      \<and> (\<forall>k. k \<notin> {1, 5, 8, 11, 12} \<longrightarrow> bit (mstatus regs') k = bit (mstatus regs) k)
    else ret = SBI_ENOTSUPP \<and> regs' = regs \<and> s' = s"
proof (cases "trap_prev_mode regs \<in> {PRV_S, PRV_U}")
  case True
  define mst where "mst = (((mstatus regs AND NOT MSTATUS_MPV) OR 0) AND NOT MSTATUS_MPP) OR push_bit 11 PRV_S"
  have mpv: "\<not> bit (mstatus regs) 39"
    using assms by (auto simp only: trap_prev_virt_def word_zero_iff_bits bit_and_iff mstatus_mask_bits)
  have b: "bit mst k \<longleftrightarrow> (if k = 11 then True else if k = 12 then False else bit (mstatus regs) k)" for k
  proof (cases "k < 64")
    case True
    then show ?thesis
      using mpv unfolding mst_def
      by (auto simp only: bit_and_iff bit_or_iff bit_not_ulong mstatus_mask_bits bit_0_eq split: if_split)
  next
    case False
    then show ?thesis using word64_bit_less [of _ k] by auto
  qed
  obtain regs' s' where r: "sbi_trap_redirect h regs trap s = (0, regs', s')"
    "mepc regs' = csr s h CSR_STVEC" "gpr regs' = gpr regs"
    "mstatus regs' = enter_sstatus (trap_prev_mode regs) mst"
    "s' = csr_write h CSR_SCAUSE (cause trap)
       (csr_write h CSR_SEPC (epc trap) (csr_write h CSR_STVAL (tval trap) s))"
    using assms True
    by (auto simp add: sbi_trap_redirect_def Let_def mst_def csr_read_def csr_write_def
        simp del: push_bit_of_1 split: if_splits)
  have "unat (trap_prev_mode regs') = 1"
    unfolding trap_prev_mode_def low_bits_field r(4) enter_sstatus_bit b by simp
  then have "trap_prev_mode regs' = PRV_S" by (simp add: word_unat_eq_iff)
  then show ?thesis using True by (simp add: r enter_sstatus_bit b)
qed (auto simp: sbi_trap_redirect_def Let_def)

definition regs0 :: sbi_trap_regs where
  "regs0 = \<lparr>gpr = (\<lambda>n. 0), mepc = 0x80200000, mstatus = 0x802\<rparr>"

corollary trap_redirect_delivers_witness:
  "case sbi_trap_redirect 0 regs0 (trap_info_zero\<lparr>cause := 2\<rparr>) machine0 of (ret, regs', s') \<Rightarrow>
     ret = 0 \<and> bit (mstatus regs') 8 \<and> bit (mstatus regs') 5 \<and> \<not> bit (mstatus regs') 1"
proof -
  have "\<not> trap_prev_virt regs0" "trap_prev_mode regs0 \<in> {PRV_S, PRV_U}" "trap_prev_mode regs0 = PRV_S"
    "bit (mstatus regs0) 1"
    by (simp_all add: regs0_def trap_prev_virt_def trap_prev_mode_def)
  then show ?thesis
    using trap_redirect_delivers [where regs = regs0 and h = 0 and s = machine0
        and trap = "trap_info_zero\<lparr>cause := 2\<rparr>"]
    by (auto split: prod.splits)
qed

end
