(* ===== verification/Sbi_Console.thy ===== *)
theory Sbi_Console
  imports Sbi_System "HOL-Library.Char_ord"
begin

text \<open>
  \<^verbatim>\<open>lib/sbi/sbi_console.c\<close>: the console device and formatted output. What a format produces does
  not depend on where it goes, so \<open>prints\<close>, \<open>printi\<close> and \<open>print\<close> give the characters they hand to
  \<^verbatim>\<open>printc\<close>, in order; the count the code returns is their number. The characters go to the console
  (\<open>sbi_printf\<close>) or to a buffer (\<open>sbi_snprintf\<close>). A format or an argument list the code gives no
  meaning to (a format that ends inside a conversion, a missing argument, a wrong argument) is
  \<open>None\<close>. The output lock is held around a whole call, which is one step here.
\<close>

section \<open>State\<close>

record sbi_console_device =
  console_putc_fn :: bool
  console_getc_fn :: "(nat \<Rightarrow> int) option"

text \<open>\<open>console_getc_fn\<close> is the result of the k-th read of the device, \<open>console_reads\<close> counts them.\<close>

record console_state = system_state +
  console_dev :: "sbi_console_device option"
  console_reads :: nat

section \<open>Characters\<close>

definition sbi_isprintable :: "char \<Rightarrow> bool" where
  "sbi_isprintable c \<longleftrightarrow>
     (let n = of_char c :: nat in 31 < n \<and> n < 127 \<or> n = 12 \<or> n = 13 \<or> n = 10 \<or> n = 9)"

definition sbi_getc :: "'a console_state_scheme \<Rightarrow> int \<times> 'a console_state_scheme" where
  "sbi_getc s =
     (case console_dev s of
        Some d \<Rightarrow>
          (case console_getc_fn d of
             Some f \<Rightarrow> (f (console_reads s), s\<lparr>console_reads := console_reads s + 1\<rparr>)
           | None \<Rightarrow> (- 1, s))
      | None \<Rightarrow> (- 1, s))"

definition sbi_putc :: "char \<Rightarrow> 'a console_state_scheme \<Rightarrow> 'a console_state_scheme" where
  "sbi_putc ch s =
     (case console_dev s of
        Some d \<Rightarrow>
          if console_putc_fn d then
            let s = (if ch = CHR 0x0A then emit (Ev_putc 13) s else s)
            in emit (Ev_putc (of_char ch)) s
          else s
      | None \<Rightarrow> s)"

definition sbi_puts :: "string \<Rightarrow> 'a console_state_scheme \<Rightarrow> 'a console_state_scheme" where
  "sbi_puts str s = foldl (\<lambda>s c. sbi_putc c s) s str"

text \<open>At most \<open>m\<close> characters before the terminating NUL.\<close>

fun gets_loop ::
  "nat \<Rightarrow> int \<Rightarrow> 'a console_state_scheme \<Rightarrow> u8 list \<times> 'a console_state_scheme" where
  "gets_loop m endchar s =
     (case sbi_getc s of (ch, s) \<Rightarrow>
        if ch \<noteq> endchar \<and> 0 \<le> ch \<and> 0 < m
        then (case gets_loop (m - 1) endchar s of (cs, s) \<Rightarrow> (word_of_int ch # cs, s))
        else ([0], s))"

declare gets_loop.simps [simp del]

definition sbi_gets ::
  "nat \<Rightarrow> char \<Rightarrow> 'a console_state_scheme \<Rightarrow> u8 list \<times> 'a console_state_scheme" where
  "sbi_gets maxwidth endchar s = gets_loop (maxwidth - 1) (of_char endchar) s"

section \<open>Strings and numbers\<close>

record print_flags =
  pad_right :: bool
  pad_zero :: bool
  pad_alternate :: bool

definition prints :: "string \<Rightarrow> nat \<Rightarrow> print_flags \<Rightarrow> string" where
  "prints str width fl =
     (let padchar = (if 0 < width \<and> pad_zero fl then CHR ''0'' else CHR '' '');
          pad = replicate (width - length str) padchar
      in if pad_right fl then str @ pad else pad @ str)"

text \<open>The digits, from the last one to the first; the bases of the code are 10 and 16.\<close>

function print_digits :: "u64 \<Rightarrow> u64 \<Rightarrow> char \<Rightarrow> string \<Rightarrow> string" where
  "print_digits u b letbase acc =
     (if u = 0 \<or> b < 2 then acc
      else
        let t = unat (u mod b);
            c = (if 10 \<le> t then t + of_char letbase - 10 else t + 48)
        in print_digits (u div b) b letbase (char_of c # acc))"
  by pat_completeness auto
termination
proof (relation "measure (\<lambda>(u, b, _). unat u)")
  fix u b :: u64
  assume "\<not> (u = 0 \<or> b < 2)"
  then have "0 < unat u" "1 < unat b" by (auto simp: unat_gt_0 word_less_nat_alt)
  then have "unat u div unat b < unat u" by simp
  then show "((u div b, b, l, x # acc), u, b, l, acc) \<in> measure (\<lambda>(u, b, _). unat u)" for l x acc
    by (simp add: unat_div)
qed auto

declare print_digits.simps [simp del]

definition printi ::
  "u64 \<Rightarrow> u64 \<Rightarrow> bool \<Rightarrow> nat \<Rightarrow> print_flags \<Rightarrow> char \<Rightarrow> string" where
  "printi i b sg width fl letbase =
     (let neg = (sg \<and> b = 10 \<and> i <s 0);
          u = (if neg then - i else i);
          s = (if u = 0 then ''0'' else print_digits u b letbase []);
          s = (if pad_alternate fl
               then CHR ''0'' # (if b = 16 \<and> letbase = CHR ''A'' then CHR ''X'' # s
                                else if b = 16 \<and> letbase = CHR ''a'' then CHR ''x'' # s else s)
               else s)
      in if neg then
           (if 0 < width \<and> pad_zero fl then CHR ''-'' # prints s (width - 1) fl
            else prints (CHR ''-'' # s) width fl)
         else prints s width fl)"

section \<open>Formats\<close>

text \<open>An argument is a 64 bit slot or a pointer to a string; an \<^verbatim>\<open>int\<close> uses the low half of a slot.\<close>

datatype va_slot = Va_word u64 | Va_str "string option"

type_synonym print_result = "(string \<times> string \<times> va_slot list \<times> nat) option"

fun va_word :: "va_slot list \<Rightarrow> (u64 \<times> va_slot list) option" where
  "va_word (Va_word w # args) = Some (w, args)"
| "va_word _ = None"

definition va_int :: "u64 \<Rightarrow> u64" where
  "va_int w = scast (ucast w :: u32)"

definition va_uint :: "u64 \<Rightarrow> u64" where
  "va_uint w = ucast (ucast w :: u32)"

text \<open>One conversion of a number: \<open>conv\<close> is the promotion of the argument, \<open>sz\<close> what the code adds
  to its count of argument bytes.\<close>

definition print_number ::
  "(u64 \<Rightarrow> u64) \<Rightarrow> nat \<Rightarrow> u64 \<Rightarrow> bool \<Rightarrow> char \<Rightarrow> nat \<Rightarrow> print_flags \<Rightarrow> string \<Rightarrow> va_slot list \<Rightarrow> nat
     \<Rightarrow> print_result" where
  "print_number conv sz b sg letbase width fl rest args acnt =
     (case va_word args of
        None \<Rightarrow> None
      | Some (w, args) \<Rightarrow> Some (printi (conv w) b sg width fl letbase, rest, args, acnt + sz))"

text \<open>\<^verbatim>\<open>while (acnt & 7) { va_arg(args, int); acnt += 4; }\<close>\<close>

definition va_align :: "va_slot list \<Rightarrow> nat \<Rightarrow> (va_slot list \<times> nat) option" where
  "va_align args acnt =
     (let k = ((8 - acnt mod 8) mod 8 + 3) div 4
      in if length args < k then None else Some (drop k args, acnt + 4 * k))"

fun print_long_long ::
  "string \<Rightarrow> nat \<Rightarrow> print_flags \<Rightarrow> va_slot list \<Rightarrow> nat \<Rightarrow> print_result" where
  "print_long_long r width fl args acnt =
     (case va_align args acnt of
        None \<Rightarrow> None
      | Some (args, acnt) \<Rightarrow>
          if r \<noteq> [] \<and> hd r = CHR ''u'' then print_number id 8 10 False (CHR ''a'') width fl (tl r) args acnt
          else if r \<noteq> [] \<and> hd r = CHR ''x'' then print_number id 8 16 False (CHR ''a'') width fl (tl r) args acnt
          else if r \<noteq> [] \<and> hd r = CHR ''X'' then print_number id 8 16 False (CHR ''A'') width fl (tl r) args acnt
          else print_number id 8 10 True (CHR ''0'') width fl r args acnt)"

fun print_long ::
  "string \<Rightarrow> nat \<Rightarrow> print_flags \<Rightarrow> va_slot list \<Rightarrow> nat \<Rightarrow> print_result" where
  "print_long r width fl args acnt =
     (if r \<noteq> [] \<and> hd r = CHR ''u'' then print_number id 0 10 False (CHR ''a'') width fl (tl r) args acnt
      else if r \<noteq> [] \<and> hd r = CHR ''x'' then print_number id 8 16 False (CHR ''a'') width fl (tl r) args acnt
      else if r \<noteq> [] \<and> hd r = CHR ''X'' then print_number id 8 16 False (CHR ''A'') width fl (tl r) args acnt
      else print_number id 8 10 True (CHR ''0'') width fl r args acnt)"

text \<open>The conversion character. A format that ends here is left behind its terminating NUL.\<close>

fun print_conv :: "string \<Rightarrow> nat \<Rightarrow> print_flags \<Rightarrow> va_slot list \<Rightarrow> nat \<Rightarrow> print_result" where
  "print_conv [] width fl args acnt = None"
| "print_conv (c # r) width fl args acnt =
     (if c = CHR ''s'' then
        (case args of
           Va_str str # args \<Rightarrow>
             Some (prints (case str of Some t \<Rightarrow> t | None \<Rightarrow> ''(null)'') width fl, r, args, acnt + 8)
         | _ \<Rightarrow> None)
      else if c = CHR ''d'' \<or> c = CHR ''i'' then print_number va_int 4 10 True (CHR ''0'') width fl r args acnt
      else if c = CHR ''x'' then print_number va_uint 4 16 False (CHR ''a'') width fl r args acnt
      else if c = CHR ''X'' then print_number va_uint 4 16 False (CHR ''A'') width fl r args acnt
      else if c = CHR ''u'' then print_number va_uint 4 10 False (CHR ''a'') width fl r args acnt
      else if c = CHR ''p'' then print_number id 8 16 False (CHR ''a'') width fl r args acnt
      else if c = CHR ''P'' then print_number id 8 16 False (CHR ''A'') width fl r args acnt
      else if c = CHR ''l'' then
        (if r \<noteq> [] \<and> hd r = CHR ''l'' then print_long_long (tl r) width fl args acnt
         else print_long r width fl args acnt)
      else if c = CHR ''c'' then
        (case va_word args of
           None \<Rightarrow> None
         | Some (w, args) \<Rightarrow>
             let ch = char_of (unat (ucast w :: u8))
             in Some (prints (if unat (ucast w :: u8) = 0 then [] else [ch]) width fl, r, args, acnt + 4))
      else Some ([], r, args, acnt))"

fun print_width :: "string \<Rightarrow> nat \<Rightarrow> nat \<times> string" where
  "print_width [] width = (width, [])"
| "print_width (c # r) width =
     (let n = of_char c :: nat
      in if 48 \<le> n \<and> n \<le> 57 then print_width r (width * 10 + (n - 48)) else (width, c # r))"

definition print_flags_of :: "string \<Rightarrow> print_flags \<times> string" where
  "print_flags_of cs =
     (let right = (cs \<noteq> [] \<and> hd cs = CHR ''-''); cs = (if right then tl cs else cs);
          alt = (cs \<noteq> [] \<and> hd cs = CHR ''#''); cs = (if alt then tl cs else cs);
          zero = (cs \<noteq> [] \<and> hd cs = CHR ''0'')
      in (\<lparr>pad_right = right, pad_zero = zero, pad_alternate = alt\<rparr>,
          dropWhile (\<lambda>c. c = CHR ''0'') cs))"

text \<open>What follows a per cent sign.\<close>

definition print_spec :: "string \<Rightarrow> va_slot list \<Rightarrow> nat \<Rightarrow> print_result" where
  "print_spec cs args acnt =
     (if cs = [] then Some ([], [], args, acnt)
      else if hd cs = CHR ''%'' then Some (''%'', tl cs, args, acnt)
      else
        let (fl, cs) = print_flags_of cs; (width, cs) = print_width cs 0
        in print_conv cs width fl args acnt)"

lemma print_number_rest:
  "print_number conv sz b sg l w fl r args acnt = Some (out, cs, args', acnt') \<Longrightarrow> cs = r"
  by (auto simp: print_number_def split: option.splits)

lemma print_conv_length:
  "print_conv cs width fl args acnt = Some (out, cs', args', acnt') \<Longrightarrow> length cs' \<le> length cs"
  by (cases cs)
    (auto split: if_splits option.splits list.splits va_slot.splits prod.splits dest!: print_number_rest)

lemma print_width_length: "length (snd (print_width cs w)) \<le> length cs"
  by (induction cs arbitrary: w) (auto simp: Let_def le_SucI)

lemma print_flags_length: "length (snd (print_flags_of cs)) \<le> length cs"
  by (auto simp: print_flags_of_def Let_def intro: order_trans [OF length_dropWhile_le])

lemma print_spec_length:
  "print_spec cs args acnt = Some (out, cs', args', acnt') \<Longrightarrow> length cs' \<le> length cs"
  using print_flags_length [of cs] print_width_length [of "snd (print_flags_of cs)" 0]
  by (auto simp: print_spec_def case_prod_unfold Let_def split: if_splits dest!: print_conv_length)

function print :: "string \<Rightarrow> va_slot list \<Rightarrow> nat \<Rightarrow> string option" where
  "print [] args acnt = Some []"
| "print (c # cs) args acnt =
     (if c = CHR ''%'' then
        (case print_spec cs args acnt of
           None \<Rightarrow> None
         | Some (out, cs', args', acnt') \<Rightarrow> map_option ((@) out) (print cs' args' acnt'))
      else map_option ((#) c) (print cs args acnt))"
  by pat_completeness auto
termination
  by (relation "measure (\<lambda>(cs, _). length cs)") (auto dest!: print_spec_length)

section \<open>Where the characters go\<close>

text \<open>A buffer: what has been written behind the pointer, and the room the caller gave.\<close>

fun printc_buf :: "string \<times> u32 option \<Rightarrow> char \<Rightarrow> string \<times> u32 option" where
  "printc_buf (out, Some len) ch = (if 0 < len then (out @ [ch], Some (len - 1)) else (out @ [ch], Some len))"
| "printc_buf (out, None) ch = (out @ [ch], None)"

text \<open>The bytes written to a buffer that is not NULL, with the terminating NUL, and the result.\<close>

definition print_to_buffer :: "u32 option \<Rightarrow> string \<Rightarrow> va_slot list \<Rightarrow> (string \<times> int) option" where
  "print_to_buffer len format args =
     map_option (\<lambda>cs. (fst (foldl printc_buf ([], len) cs) @ [CHR 0x00], int (length cs))) (print format args 0)"

definition sbi_sprintf :: "string \<Rightarrow> va_slot list \<Rightarrow> (string \<times> int) option" where
  "sbi_sprintf format args = print_to_buffer None format args"

definition sbi_snprintf :: "u32 \<Rightarrow> string \<Rightarrow> va_slot list \<Rightarrow> (string \<times> int) option" where
  "sbi_snprintf out_sz format args = print_to_buffer (Some out_sz) format args"

definition sbi_printf ::
  "string \<Rightarrow> va_slot list \<Rightarrow> 'a console_state_scheme \<Rightarrow> (int, 'a console_state_scheme) flow" where
  "sbi_printf format args s =
     (case print format args 0 of
        None \<Rightarrow> Undef s
      | Some cs \<Rightarrow> Ret (int (length cs)) (sbi_puts cs s))"

definition sbi_dprintf ::
  "nat \<Rightarrow> string \<Rightarrow> va_slot list \<Rightarrow> 'a console_state_scheme \<Rightarrow> (int, 'a console_state_scheme) flow" where
  "sbi_dprintf h format args s =
     (if options (scratch s h) AND 2 \<noteq> 0 then sbi_printf format args s else Ret 0 s)"

definition sbi_panic ::
  "string \<Rightarrow> va_slot list \<Rightarrow> 'a console_state_scheme \<Rightarrow> (unit, 'a console_state_scheme) flow" where
  "sbi_panic format args s = flow_bind (sbi_printf format args s) (\<lambda>_ s. Hang s)"

section \<open>Device and initialisation\<close>

definition sbi_console_get_device :: "'a console_state_scheme \<Rightarrow> sbi_console_device option" where
  "sbi_console_get_device s = console_dev s"

definition sbi_console_set_device ::
  "sbi_console_device option \<Rightarrow> 'a console_state_scheme \<Rightarrow> 'a console_state_scheme" where
  "sbi_console_set_device dev s =
     (if dev = None \<or> console_dev s \<noteq> None then s else s\<lparr>console_dev := dev\<rparr>)"

definition sbi_console_init :: "nat \<Rightarrow> 'a console_state_scheme \<Rightarrow> int \<times> 'a console_state_scheme" where
  "sbi_console_init h s = sbi_platform_console_init h s"

section \<open>Numbers can be read back\<close>

definition digit_val :: "char \<Rightarrow> nat" where
  "digit_val c = (let n = of_char c in if n \<le> 57 then n - 48 else if 97 \<le> n then n - 87 else n - 55)"

definition num_val :: "nat \<Rightarrow> string \<Rightarrow> nat" where
  "num_val b cs = foldl (\<lambda>v c. v * b + digit_val c) 0 cs"

definition number_base :: "u64 \<Rightarrow> char \<Rightarrow> bool" where
  "number_base b l \<longleftrightarrow> b = 10 \<or> b = 16 \<and> (l = CHR ''a'' \<or> l = CHR ''A'')"

abbreviation (input) digit_char :: "nat \<Rightarrow> char \<Rightarrow> char" where
  "digit_char t l \<equiv> char_of (if 10 \<le> t then t + of_char l - 10 else t + 48)"

lemma of_char_of_small: "n < 256 \<Longrightarrow> of_char (char_of n :: char) = (n :: nat)"
  by simp

lemma digit_val_char:
  assumes "number_base b l" "t < unat b"
  shows "digit_val (digit_char t l) = t"
proof -
  have l: "l = CHR ''a'' \<and> of_char l = (97 :: nat) \<or> l = CHR ''A'' \<and> of_char l = (65 :: nat) \<or> t < 10"
    using assms by (auto simp: number_base_def)
  have "t < 16" using assms by (auto simp: number_base_def)
  then show ?thesis using l by (auto simp: digit_val_def Let_def)
qed

lemma print_digits_step:
  "u \<noteq> 0 \<Longrightarrow> \<not> b < 2 \<Longrightarrow>
   print_digits u b l acc = print_digits (u div b) b l (digit_char (unat (u mod b)) l # acc)"
  by (subst print_digits.simps) (simp only: Let_def if_False simp_thms)

lemma print_digits_spec:
  assumes "number_base b l"
  shows "\<exists>ds. (\<forall>acc. print_digits u b l acc = ds @ acc) \<and> num_val (unat b) ds = unat u
    \<and> (\<forall>k. unat u < unat b ^ k \<longrightarrow> length ds \<le> k)"
proof (induction "unat u" arbitrary: u rule: less_induct)
  case less
  show ?case
  proof (cases "u = 0")
    case True
    then show ?thesis by (intro exI [of _ "[]"]) (simp add: print_digits.simps num_val_def)
  next
    case False
    have b: "\<not> b < 2" "1 < unat b" using assms by (auto simp: number_base_def)
    let ?t = "unat (u mod b)"
    have "unat (u div b) < unat u" using False b by (simp add: unat_div unat_gt_0)
    then obtain ds where ds: "\<And>acc. print_digits (u div b) b l acc = ds @ acc"
      "num_val (unat b) ds = unat (u div b)" "\<And>k. unat (u div b) < unat b ^ k \<Longrightarrow> length ds \<le> k"
      using less by blast
    have t: "?t < unat b" using b by (simp add: unat_mod)
    show ?thesis
    proof (intro exI conjI allI impI)
      show "print_digits u b l acc = (ds @ [digit_char ?t l]) @ acc" for acc
        using print_digits_step [OF False b(1)] ds(1) by simp
      have "num_val (unat b) (ds @ [digit_char ?t l]) = unat (u div b) * unat b + ?t"
        using digit_val_char [OF assms t] ds(2) by (simp add: num_val_def)
      then show "num_val (unat b) (ds @ [digit_char ?t l]) = unat u" by (simp add: unat_div unat_mod)
      fix k
      assume k: "unat u < unat b ^ k"
      then obtain j where j: "k = Suc j" using False by (cases k) (auto simp: unat_eq_zero)
      have "unat (u div b) < unat b ^ j"
        using k b unfolding j unat_div by (intro less_mult_imp_div_less) (simp add: mult.commute)
      then show "length (ds @ [digit_char ?t l]) \<le> k" using ds(3) j by simp
    qed
  qed
qed

text \<open>The digits that a conversion prints, in base 10 and in both base 16 alphabets, read back to
  the number, and there are at most 20 of them, so that with sign and prefix they fit the code's
  buffer of 64 characters.\<close>

theorem print_number_reads_back:
  assumes "number_base b l"
  shows "num_val (unat b) (print_digits u b l []) = unat u \<and> length (print_digits u b l []) \<le> 20"
proof -
  obtain ds where ds: "\<And>acc. print_digits u b l acc = ds @ acc" "num_val (unat b) ds = unat u"
    "\<And>k. unat u < unat b ^ k \<Longrightarrow> length ds \<le> k"
    using print_digits_spec [OF assms] by blast
  have "unat b = 10 \<or> unat b = 16" using assms by (auto simp: number_base_def)
  then have "unat u < unat b ^ 20" using unat_u64_less [of u] by auto
  then show ?thesis using ds by simp
qed

corollary print_number_reads_back_witness:
  "num_val 16 (print_digits 0xdeadbeef 16 (CHR ''a'') []) = 0xdeadbeef"
  using print_number_reads_back [of 16 "CHR ''a''" "0xdeadbeef"] by (simp add: number_base_def)

section \<open>What the formats get wrong\<close>

text \<open>The size given to \<open>sbi_snprintf\<close> has no effect: the branch for an exhausted buffer writes, too.\<close>

lemma snprintf_unbounded: "sbi_snprintf out_sz format args = sbi_sprintf format args"
proof -
  have "fst (foldl printc_buf (out, len) cs) = out @ cs" for out len cs
  proof (induction cs arbitrary: out len)
    case (Cons c cs)
    then show ?case by (cases len) auto
  qed simp
  then show ?thesis by (simp add: sbi_snprintf_def sbi_sprintf_def print_to_buffer_def)
qed

text \<open>The signed long conversions leave their \<^verbatim>\<open>d\<close> in the output, and a long long conversion behind a
  single int drops its argument.\<close>

lemma print_long_trailing:
  "print ''%ld'' [Va_word 5] 0 = Some ''5d''" "print ''%lld'' [Va_word 5] 0 = Some ''5d''"
  by code_simp+

lemma print_long_long_misaligned:
  "print ''%d %llx'' [Va_word 1, Va_word 2, Va_word 3] 0 = Some ''1 3''"
  by code_simp

section \<open>A small state for concrete runs\<close>

definition console0 :: console_state where
  "console0 = system_state.extend system0
     \<lparr>console_dev = Some \<lparr>console_putc_fn = True, console_getc_fn = None\<rparr>, console_reads = 0\<rparr>"

lemmas console0_defs = system0_defs console0_def console_state.defs

end
