(* ===== verification/Sbi_Unpriv.thy ===== *)
theory Sbi_Unpriv
  imports Sbi_Trap Sbi_Console
begin

text \<open>
  \<^verbatim>\<open>lib/sbi/sbi_unpriv.c\<close>: memory accesses on behalf of the trapped program. The accesses are
  assembly that runs with \<^verbatim>\<open>mstatus.MPRV\<close> set and a trap handler that records a fault. The memory as
  the program sees it is \<open>umem\<close>; whether an access faults, and with which details, is a parameter
  of the state (\<open>ufault\<close>: the hart, whether it is a store, the address, the number of bytes). \<open>fpr\<close>
  is the floating-point register file of each hart, which traps leave in place.
\<close>

record umem_state = console_state +
  umem :: "ulong \<Rightarrow> u8"
  fpr :: "nat \<Rightarrow> nat \<Rightarrow> u64"
  ufault :: "nat \<Rightarrow> bool \<Rightarrow> ulong \<Rightarrow> nat \<Rightarrow> sbi_trap_info option"

text \<open>Little-endian.\<close>

fun load_bytes :: "nat \<Rightarrow> ulong \<Rightarrow> (ulong \<Rightarrow> u8) \<Rightarrow> ulong" where
  "load_bytes 0 addr m = 0"
| "load_bytes (Suc n) addr m = ucast (m addr) OR push_bit 8 (load_bytes n (addr + 1) m)"

text \<open>The trap record that is passed in keeps its other members when nothing faults.\<close>

definition unpriv_load ::
  "nat \<Rightarrow> nat \<Rightarrow> ulong \<Rightarrow> sbi_trap_info \<Rightarrow> 'a umem_state_scheme \<Rightarrow> ulong \<times> sbi_trap_info" where
  "unpriv_load len h addr trap s =
     (case ufault s h False addr len of
        Some t \<Rightarrow> (0, t)
      | None \<Rightarrow> (load_bytes len addr (umem s), trap\<lparr>cause := 0\<rparr>))"

definition sbi_load_u8 ::
  "nat \<Rightarrow> ulong \<Rightarrow> sbi_trap_info \<Rightarrow> 'a umem_state_scheme \<Rightarrow> ulong \<times> sbi_trap_info" where
  "sbi_load_u8 h addr trap s = unpriv_load 1 h addr trap s"

definition sbi_load_ulong ::
  "nat \<Rightarrow> ulong \<Rightarrow> sbi_trap_info \<Rightarrow> 'a umem_state_scheme \<Rightarrow> ulong \<times> sbi_trap_info" where
  "sbi_load_ulong h addr trap s = unpriv_load 8 h addr trap s"

definition sbi_store_u8 ::
  "nat \<Rightarrow> ulong \<Rightarrow> u8 \<Rightarrow> sbi_trap_info \<Rightarrow> 'a umem_state_scheme \<Rightarrow> sbi_trap_info \<times> 'a umem_state_scheme"
where
  "sbi_store_u8 h addr v trap s =
     (case ufault s h True addr 1 of
        Some t \<Rightarrow> (t, s)
      | None \<Rightarrow> (trap\<lparr>cause := 0\<rparr>, s\<lparr>umem := (umem s)(addr := v)\<rparr>))"

text \<open>
  The instruction at the program counter: a half word, and a second one when the first says so. A
  fault of a load is turned into the fault of the fetch. The instruction is not read by the callers
  when the access faults.
\<close>

definition fetch_fault :: "ulong \<Rightarrow> sbi_trap_info \<Rightarrow> sbi_trap_info" where
  "fetch_fault pc t =
     (if cause t = CAUSE_LOAD_ACCESS then t\<lparr>cause := CAUSE_FETCH_ACCESS, tval := pc\<rparr>
      else if cause t = CAUSE_LOAD_PAGE_FAULT then t\<lparr>cause := CAUSE_FETCH_PAGE_FAULT, tval := pc\<rparr>
      else if cause t = CAUSE_LOAD_GUEST_PAGE_FAULT
      then t\<lparr>cause := CAUSE_FETCH_GUEST_PAGE_FAULT, tval := pc\<rparr>
      else t)"

definition sbi_get_insn ::
  "nat \<Rightarrow> ulong \<Rightarrow> sbi_trap_info \<Rightarrow> 'a umem_state_scheme \<Rightarrow> ulong \<times> sbi_trap_info" where
  "sbi_get_insn h pc trap s =
     (let (lo, t) = unpriv_load 2 h pc trap s in
      if cause t \<noteq> 0 then (lo, fetch_fault pc t)
      else if lo AND 3 \<noteq> 3 then (lo, t)
      else
        let (hi, t) = unpriv_load 2 h (pc + 2) t s
        in (lo + push_bit 16 hi, fetch_fault pc t))"

section \<open>A small state for concrete runs\<close>

definition umem0 :: umem_state where
  "umem0 = console_state.extend console0 \<lparr>umem = (\<lambda>a. 0), fpr = (\<lambda>h n. 0), ufault = (\<lambda>h st a n. None)\<rparr>"

lemmas umem0_defs = console0_defs umem0_def umem_state.defs

end
