(* ===== verification/Sbi_Ecall.thy ===== *)
theory Sbi_Ecall
  imports Sbi_Exit Sbi_Unpriv
begin

text \<open>
  The calls of the supervisor: the list of extensions and the handler of \<^verbatim>\<open>lib/sbi/sbi_ecall.c\<close>,
  and the extensions themselves (\<^verbatim>\<open>sbi_ecall_base.c\<close>, \<^verbatim>\<open>sbi_ecall_replace.c\<close>, \<^verbatim>\<open>sbi_ecall_hsm.c\<close>,
  \<^verbatim>\<open>sbi_ecall_pmu.c\<close>, \<^verbatim>\<open>sbi_ecall_legacy.c\<close>, \<^verbatim>\<open>sbi_ecall_vendor.c\<close>). An extension record names
  its functions; its address is \<open>ext_addr\<close>. What the other harts do while a call waits is the
  argument \<open>env\<close>, \<open>n\<close> bounds the rounds of a wait (see \<^verbatim>\<open>Sbi_Tlb\<close>). The proofs are in
  \<^verbatim>\<open>Sbi_Ecall_Calls\<close>.
\<close>

section \<open>State\<close>

text \<open>The handle and probe functions of the library.\<close>

datatype ecall_fn =
    Ecall_time
  | Ecall_rfence
  | Ecall_ipi
  | Ecall_base
  | Ecall_hsm
  | Ecall_srst
  | Ecall_pmu
  | Ecall_legacy
  | Ecall_vendor

record sbi_ecall_extension =
  ext_addr :: nat
  extid_start :: ulong
  extid_end :: ulong
  ext_probe :: "ecall_fn option"
  ext_handle :: "ecall_fn option"

record ecall_state = umem_state +
  ecall_exts_list :: "sbi_ecall_extension list"
  ecall_impid :: ulong

text \<open>What a handler gives: its result, the output value and the trap details.\<close>

type_synonym 's ecall_result = "(int \<times> ulong \<times> sbi_trap_info, 's) flow"

abbreviation (input) SBI_ECALL_VERSION_MAJOR :: ulong where "SBI_ECALL_VERSION_MAJOR \<equiv> 0"
abbreviation (input) SBI_ECALL_VERSION_MINOR :: ulong where "SBI_ECALL_VERSION_MINOR \<equiv> 3"
abbreviation (input) OPENSBI_VERSION :: ulong where "OPENSBI_VERSION \<equiv> 9"

abbreviation (input) SBI_EXT_0_1_SET_TIMER :: ulong where "SBI_EXT_0_1_SET_TIMER \<equiv> 0"
abbreviation (input) SBI_EXT_0_1_SHUTDOWN :: ulong where "SBI_EXT_0_1_SHUTDOWN \<equiv> 8"
abbreviation (input) SBI_EXT_BASE :: ulong where "SBI_EXT_BASE \<equiv> 0x10"
abbreviation (input) SBI_EXT_TIME :: ulong where "SBI_EXT_TIME \<equiv> 0x54494D45"
abbreviation (input) SBI_EXT_IPI :: ulong where "SBI_EXT_IPI \<equiv> 0x735049"
abbreviation (input) SBI_EXT_RFENCE :: ulong where "SBI_EXT_RFENCE \<equiv> 0x52464E43"
abbreviation (input) SBI_EXT_HSM :: ulong where "SBI_EXT_HSM \<equiv> 0x48534D"
abbreviation (input) SBI_EXT_SRST :: ulong where "SBI_EXT_SRST \<equiv> 0x53525354"
abbreviation (input) SBI_EXT_PMU :: ulong where "SBI_EXT_PMU \<equiv> 0x504D55"
abbreviation (input) SBI_EXT_VENDOR_START :: ulong where "SBI_EXT_VENDOR_START \<equiv> 0x09000000"
abbreviation (input) SBI_EXT_VENDOR_END :: ulong where "SBI_EXT_VENDOR_END \<equiv> 0x09FFFFFF"

section \<open>The list of extensions\<close>

definition sbi_ecall_version_major :: u16 where "sbi_ecall_version_major = 0"
definition sbi_ecall_version_minor :: u16 where "sbi_ecall_version_minor = 3"

definition sbi_ecall_get_impid :: "'a ecall_state_scheme \<Rightarrow> ulong" where
  "sbi_ecall_get_impid s = ecall_impid s"

definition sbi_ecall_set_impid :: "ulong \<Rightarrow> 'a ecall_state_scheme \<Rightarrow> 'a ecall_state_scheme" where
  "sbi_ecall_set_impid impid s = s\<lparr>ecall_impid := impid\<rparr>"

definition sbi_ecall_find_extension ::
  "ulong \<Rightarrow> 'a ecall_state_scheme \<Rightarrow> sbi_ecall_extension option" where
  "sbi_ecall_find_extension extid s =
     find (\<lambda>t. extid_start t \<le> extid \<and> extid \<le> extid_end t) (ecall_exts_list s)"

definition sbi_ecall_register_extension ::
  "sbi_ecall_extension option \<Rightarrow> 'a ecall_state_scheme \<Rightarrow> int \<times> 'a ecall_state_scheme" where
  "sbi_ecall_register_extension ext s =
     (case ext of
        None \<Rightarrow> (SBI_EINVAL, s)
      | Some e \<Rightarrow>
          if extid_end e < extid_start e \<or> ext_handle e = None then (SBI_EINVAL, s)
          else if list_ex (\<lambda>t. \<not> (extid_end t < extid_start e \<or> extid_end e < extid_start t))
                    (ecall_exts_list s)
          then (SBI_EINVAL, s)
          else (0, s\<lparr>ecall_exts_list := ecall_exts_list s @ [e]\<rparr>))"

definition sbi_ecall_unregister_extension ::
  "sbi_ecall_extension option \<Rightarrow> 'a ecall_state_scheme \<Rightarrow> 'a ecall_state_scheme" where
  "sbi_ecall_unregister_extension ext s =
     (case ext of
        None \<Rightarrow> s
      | Some e \<Rightarrow>
          if list_ex (\<lambda>t. ext_addr t = ext_addr e) (ecall_exts_list s)
          then s\<lparr>ecall_exts_list := filter (\<lambda>t. ext_addr t \<noteq> ext_addr e) (ecall_exts_list s)\<rparr>
          else s)"

section \<open>Base\<close>

definition sbi_ecall_srst_probe :: "'a system_state_scheme \<Rightarrow> int \<times> ulong" where
  "sbi_ecall_srst_probe s =
     (let cnt = length (filter (\<lambda>ty. sbi_system_reset_supported ty 0 s) [0, 1, 2])
      in (0, if cnt \<noteq> 0 then 1 else 0))"

definition sbi_ecall_pmu_probe :: "int \<times> ulong" where
  "sbi_ecall_pmu_probe = (0, 1)"

definition sbi_ecall_vendor_probe :: "ulong \<Rightarrow> 'a machine_scheme \<Rightarrow> int \<times> ulong" where
  "sbi_ecall_vendor_probe extid s =
     (0, word_of_int (sbi_platform_vendor_ext_check (Some (platform s)) extid))"

fun ecall_call_probe :: "ecall_fn \<Rightarrow> ulong \<Rightarrow> 'a ecall_state_scheme \<Rightarrow> int \<times> ulong" where
  "ecall_call_probe Ecall_srst extid s = sbi_ecall_srst_probe s"
| "ecall_call_probe Ecall_pmu extid s = sbi_ecall_pmu_probe"
| "ecall_call_probe Ecall_vendor extid s = sbi_ecall_vendor_probe extid s"
| "ecall_call_probe _ extid s = (0, 0)"

definition sbi_ecall_base_probe :: "ulong \<Rightarrow> 'a ecall_state_scheme \<Rightarrow> int \<times> ulong" where
  "sbi_ecall_base_probe extid s =
     (case sbi_ecall_find_extension extid s of
        None \<Rightarrow> (0, 0)
      | Some e \<Rightarrow> (case ext_probe e of Some f \<Rightarrow> ecall_call_probe f extid s | None \<Rightarrow> (0, 1)))"

definition ecall_ret :: "int \<Rightarrow> 's \<Rightarrow> 's ecall_result" where
  "ecall_ret r s = Ret (r, 0, trap_info_zero) s"

definition ecall_out :: "ulong \<Rightarrow> 's \<Rightarrow> 's ecall_result" where
  "ecall_out v s = Ret (0, v, trap_info_zero) s"

definition sbi_ecall_base_handler ::
  "nat \<Rightarrow> ulong \<Rightarrow> sbi_trap_regs \<Rightarrow> 'a ecall_state_scheme \<Rightarrow> 'a ecall_state_scheme ecall_result" where
  "sbi_ecall_base_handler h funcid regs s =
     (if funcid = 0 then
        ecall_out ((push_bit 24 SBI_ECALL_VERSION_MAJOR AND push_bit 24 0x7f) OR SBI_ECALL_VERSION_MINOR) s
      else if funcid = 1 then ecall_out (sbi_ecall_get_impid s) s
      else if funcid = 2 then ecall_out OPENSBI_VERSION s
      else if funcid = 4 then ecall_out (csr_read h CSR_MVENDORID s) s
      else if funcid = 5 then ecall_out (csr_read h CSR_MARCHID s) s
      else if funcid = 6 then ecall_out (csr_read h CSR_MIMPID s) s
      else if funcid = 3 then
        (case sbi_ecall_base_probe (reg_a0 regs) s of (ret, out) \<Rightarrow> Ret (ret, out, trap_info_zero) s)
      else ecall_ret SBI_ENOTSUPP s)"

section \<open>Time, remote fences, IPIs\<close>

definition sbi_ecall_time_handler ::
  "nat \<Rightarrow> ulong \<Rightarrow> sbi_trap_regs \<Rightarrow> 'a timer_state_scheme \<Rightarrow> 'a timer_state_scheme ecall_result" where
  "sbi_ecall_time_handler h funcid regs s =
     (if funcid = 0 then ecall_ret 0 (sbi_timer_event_start h (reg_a0 regs) s)
      else ecall_ret SBI_ENOTSUPP s)"

definition rfence_request ::
  "('a timer_state_scheme \<Rightarrow> 'a timer_state_scheme) \<Rightarrow> nat \<Rightarrow> nat \<Rightarrow> sbi_trap_regs \<Rightarrow> sbi_tlb_info
     \<Rightarrow> 'a timer_state_scheme \<Rightarrow> 'a timer_state_scheme ecall_result" where
  "rfence_request env n h regs tinfo s =
     flow_bind (sbi_tlb_request (library_ops env n) h (reg_a0 regs) (reg_a1 regs) tinfo s) ecall_ret"

definition hgatp_vmid :: "nat \<Rightarrow> 'a machine_scheme \<Rightarrow> ulong" where
  "hgatp_vmid h s = drop_bit 44 (csr_read h CSR_HGATP s AND 0x03FFF00000000000)"

definition sbi_ecall_rfence_handler ::
  "('a timer_state_scheme \<Rightarrow> 'a timer_state_scheme) \<Rightarrow> nat \<Rightarrow> nat \<Rightarrow> ulong \<Rightarrow> sbi_trap_regs
     \<Rightarrow> 'a timer_state_scheme \<Rightarrow> 'a timer_state_scheme ecall_result" where
  "sbi_ecall_rfence_handler env n h funcid regs s =
     (let st = reg_a2 regs; sz = reg_a3 regs in
      if 3 \<le> funcid \<and> funcid \<le> 6 \<and> \<not> misa_extension h (CHR ''H'') s then ecall_ret SBI_ENOTSUPP s
      else if funcid = 0 then
        rfence_request env n h regs (SBI_TLB_INFO_INIT 0 0 0 0 Local_fence_i h) s
      else if funcid = 4 then
        rfence_request env n h regs (SBI_TLB_INFO_INIT st sz 0 0 Local_hfence_gvma h) s
      else if funcid = 3 then
        rfence_request env n h regs (SBI_TLB_INFO_INIT st sz 0 (reg_a4 regs) Local_hfence_gvma_vmid h) s
      else if funcid = 6 then
        rfence_request env n h regs (SBI_TLB_INFO_INIT st sz 0 (hgatp_vmid h s) Local_hfence_vvma h) s
      else if funcid = 5 then
        rfence_request env n h regs
          (SBI_TLB_INFO_INIT st sz (reg_a4 regs) (hgatp_vmid h s) Local_hfence_vvma_asid h) s
      else if funcid = 1 then
        rfence_request env n h regs (SBI_TLB_INFO_INIT st sz 0 0 Local_sfence_vma h) s
      else if funcid = 2 then
        rfence_request env n h regs (SBI_TLB_INFO_INIT st sz (reg_a4 regs) 0 Local_sfence_vma_asid h) s
      else ecall_ret SBI_ENOTSUPP s)"

definition sbi_ecall_ipi_handler ::
  "('a timer_state_scheme \<Rightarrow> 'a timer_state_scheme) \<Rightarrow> nat \<Rightarrow> nat \<Rightarrow> ulong \<Rightarrow> sbi_trap_regs
     \<Rightarrow> 'a timer_state_scheme \<Rightarrow> 'a timer_state_scheme ecall_result" where
  "sbi_ecall_ipi_handler env n h funcid regs s =
     (if funcid = 0 then
        flow_bind (sbi_ipi_send_smode (library_ops env n) h (reg_a0 regs) (reg_a1 regs) tlb_info_zero s)
          ecall_ret
      else ecall_ret SBI_ENOTSUPP s)"

section \<open>System reset\<close>

definition sbi_ecall_srst_handler ::
  "('a system_state_scheme \<Rightarrow> 'a system_state_scheme) \<Rightarrow> nat \<Rightarrow> nat \<Rightarrow> ulong \<Rightarrow> sbi_trap_regs
     \<Rightarrow> 'a system_state_scheme \<Rightarrow> 'a system_state_scheme ecall_result" where
  "sbi_ecall_srst_handler env n h funcid regs s =
     (if funcid = 0 then
        if 0xffffffff \<le> reg_a0 regs \<or> 0xffffffff \<le> reg_a1 regs then ecall_ret SBI_EINVAL s
        else if reg_a0 regs \<notin> {0, 1, 2} then ecall_ret SBI_EINVAL s
        else if reg_a1 regs \<notin> {0, 1} then ecall_ret SBI_EINVAL s
        else if sbi_system_reset_supported (ucast (reg_a0 regs)) (ucast (reg_a1 regs)) s then
          flow_bind (sbi_system_reset (library_ops env n) (sbi_exit env n) h (ucast (reg_a0 regs))
              (ucast (reg_a1 regs)) tlb_info_zero s)
            (\<lambda>_ s. ecall_ret SBI_ENOTSUPP s)
        else ecall_ret SBI_ENOTSUPP s
      else ecall_ret SBI_ENOTSUPP s)"

section \<open>Hart states and performance counters\<close>

text \<open>A result that is not negative is the output value.\<close>

definition ecall_nonneg :: "int \<Rightarrow> 's \<Rightarrow> 's ecall_result" where
  "ecall_nonneg ret s = (if 0 \<le> ret then ecall_out (word_of_int ret) s else ecall_ret ret s)"

definition sbi_ecall_hsm_handler ::
  "('a timer_state_scheme \<Rightarrow> 'a timer_state_scheme) \<Rightarrow> nat \<Rightarrow> nat \<Rightarrow> ulong \<Rightarrow> sbi_trap_regs
     \<Rightarrow> 'a timer_state_scheme \<Rightarrow> 'a timer_state_scheme ecall_result" where
  "sbi_ecall_hsm_handler env n h funcid regs s =
     (let smode = drop_bit 11 (csr_read h CSR_MSTATUS s AND MSTATUS_MPP) in
      flow_bind
        (if funcid = 0 then
           (case sbi_hsm_hart_start h (sbi_domain_thishart h s) (ucast (reg_a0 regs)) (reg_a1 regs)
                   smode (reg_a2 regs) s of (ret, s) \<Rightarrow> Ret ret s)
         else if funcid = 1 then sbi_hsm_hart_stop (sbi_exit env n) h True s
         else if funcid = 2 then
           Ret (sbi_hsm_hart_get_state (sbi_domain_thishart h s) (ucast (reg_a0 regs)) s) s
         else if funcid = 3 then
           sbi_hsm_hart_suspend h (ucast (reg_a0 regs)) (reg_a1 regs) smode (reg_a2 regs) s
         else Ret SBI_ENOTSUPP s)
        ecall_nonneg)"

definition sbi_ecall_pmu_handler ::
  "nat \<Rightarrow> ulong \<Rightarrow> sbi_trap_regs \<Rightarrow> 'a pmu_state_scheme \<Rightarrow> 'a pmu_state_scheme ecall_result" where
  "sbi_ecall_pmu_handler h funcid regs s =
     (if funcid = 0 then ecall_nonneg (sint (ucast (sbi_pmu_num_ctr s) :: u32)) s
      else if funcid = 1 then
        (case sbi_pmu_ctr_get_info h (unat (ucast (reg_a0 regs) :: u32)) s of (ret, info) \<Rightarrow>
           Ret (ret, case info of Some v \<Rightarrow> v | None \<Rightarrow> 0, trap_info_zero) s)
      else if funcid = 2 then
        flow_bind (sbi_pmu_ctr_cfg_match h (reg_a0 regs) (reg_a1 regs) (reg_a2 regs) (reg_a3 regs)
          (reg_a4 regs) s) ecall_nonneg
      else if funcid = 5 then
        flow_bind (sbi_pmu_ctr_read h (unat (ucast (reg_a0 regs) :: u32)) s) (\<lambda>(ret, v) s.
          Ret (ret, case v of Some v \<Rightarrow> v | None \<Rightarrow> 0, trap_info_zero) s)
      else if funcid = 3 then
        flow_bind (sbi_pmu_ctr_start h (reg_a0 regs) (reg_a1 regs) (reg_a2 regs) (reg_a3 regs) s) ecall_ret
      else if funcid = 4 then
        flow_bind (sbi_pmu_ctr_stop h (reg_a0 regs) (reg_a1 regs) (reg_a2 regs) s) ecall_ret
      else ecall_ret SBI_ENOTSUPP s)"

section \<open>Legacy calls\<close>

text \<open>The hart mask of a legacy call lies in the memory of the caller; the result is \<^verbatim>\<open>SBI_ETRAP\<close>
  when reading it faults.\<close>

definition sbi_load_hart_mask_unpriv ::
  "nat \<Rightarrow> ulong \<Rightarrow> 'a umem_state_scheme \<Rightarrow> int \<times> ulong \<times> sbi_trap_info" where
  "sbi_load_hart_mask_unpriv h pmask s =
     (if pmask \<noteq> 0 then
        (case sbi_load_ulong h pmask trap_info_zero s of (m, uptrap) \<Rightarrow>
           if cause uptrap \<noteq> 0 then (SBI_ETRAP, 0, uptrap) else (0, m, uptrap))
      else (0, snd (sbi_hsm_hart_interruptible_mask (sbi_domain_thishart h s) 0 s), trap_info_zero))"

definition legacy_with_mask ::
  "nat \<Rightarrow> sbi_trap_regs \<Rightarrow> (ulong \<Rightarrow> 'a umem_state_scheme \<Rightarrow> (int, 'a umem_state_scheme) flow)
     \<Rightarrow> 'a umem_state_scheme \<Rightarrow> 'a umem_state_scheme ecall_result" where
  "legacy_with_mask h regs f s =
     (case sbi_load_hart_mask_unpriv h (reg_a0 regs) s of (ret, hmask, trap) \<Rightarrow>
        if ret \<noteq> SBI_ETRAP then flow_bind (f hmask s) (\<lambda>ret s. Ret (ret, 0, trap) s)
        else Ret (ret, 0, trap) s)"

definition sbi_ecall_legacy_handler ::
  "('a umem_state_scheme \<Rightarrow> 'a umem_state_scheme) \<Rightarrow> nat \<Rightarrow> nat \<Rightarrow> ulong \<Rightarrow> sbi_trap_regs
     \<Rightarrow> 'a umem_state_scheme \<Rightarrow> 'a umem_state_scheme ecall_result" where
  "sbi_ecall_legacy_handler env n h extid regs s =
     (let ops = library_ops env n in
      if extid = 0 then ecall_ret 0 (sbi_timer_event_start h (reg_a0 regs) s)
      else if extid = 1 then ecall_ret 0 (sbi_putc (char_of (unat (ucast (reg_a0 regs) :: u8))) s)
      else if extid = 2 then (case sbi_getc s of (ret, s) \<Rightarrow> ecall_ret ret s)
      else if extid = 3 then ecall_ret 0 (sbi_ipi_clear_smode h s)
      else if extid = 4 then
        legacy_with_mask h regs (\<lambda>m s. sbi_ipi_send_smode ops h m 0 tlb_info_zero s) s
      else if extid = 5 then
        legacy_with_mask h regs (\<lambda>m s.
          sbi_tlb_request ops h m 0 (SBI_TLB_INFO_INIT 0 0 0 0 Local_fence_i h) s) s
      else if extid = 6 then
        legacy_with_mask h regs (\<lambda>m s.
          sbi_tlb_request ops h m 0
            (SBI_TLB_INFO_INIT (reg_a1 regs) (reg_a2 regs) 0 0 Local_sfence_vma h) s) s
      else if extid = 7 then
        legacy_with_mask h regs (\<lambda>m s.
          sbi_tlb_request ops h m 0
            (SBI_TLB_INFO_INIT (reg_a1 regs) (reg_a2 regs) (reg_a3 regs) 0 Local_sfence_vma_asid h) s) s
      else if extid = 8 then
        flow_bind (sbi_system_reset ops (sbi_exit env n) h 0 0 tlb_info_zero s) (\<lambda>_ s. ecall_ret 0 s)
      else ecall_ret SBI_ENOTSUPP s)"

section \<open>Vendor extensions\<close>

definition regs_member :: "sbi_trap_regs \<Rightarrow> nat \<Rightarrow> ulong" where
  "regs_member regs i = (if i = 32 then mepc regs else if i = 33 then mstatus regs else gpr regs i)"

definition trap_of_members :: "(nat \<Rightarrow> ulong) \<Rightarrow> sbi_trap_info" where
  "trap_of_members f = \<lparr>epc = f 0, cause = f 1, tval = f 2, tval2 = f 3, tinst = f 4\<rparr>"

definition sbi_ecall_vendor_handler ::
  "ulong \<Rightarrow> ulong \<Rightarrow> sbi_trap_regs \<Rightarrow> 'a machine_scheme \<Rightarrow> 'a machine_scheme ecall_result" where
  "sbi_ecall_vendor_handler extid funcid regs s =
     (case op_vendor_ext_provider (plat_ops (platform s)) of
        Some f \<Rightarrow>
          (case f extid funcid (regs_member regs) of (ret, out, t) \<Rightarrow> Ret (ret, out, trap_of_members t) s)
      | None \<Rightarrow> ecall_ret SBI_ENOTSUPP s)"

section \<open>The handler\<close>

fun ecall_call_handle ::
  "('a ecall_state_scheme \<Rightarrow> 'a ecall_state_scheme) \<Rightarrow> nat \<Rightarrow> nat \<Rightarrow> ecall_fn \<Rightarrow> ulong \<Rightarrow> ulong
     \<Rightarrow> sbi_trap_regs \<Rightarrow> 'a ecall_state_scheme \<Rightarrow> 'a ecall_state_scheme ecall_result" where
  "ecall_call_handle env n h Ecall_time extid funcid regs s = sbi_ecall_time_handler h funcid regs s"
| "ecall_call_handle env n h Ecall_rfence extid funcid regs s =
     sbi_ecall_rfence_handler env n h funcid regs s"
| "ecall_call_handle env n h Ecall_ipi extid funcid regs s = sbi_ecall_ipi_handler env n h funcid regs s"
| "ecall_call_handle env n h Ecall_base extid funcid regs s = sbi_ecall_base_handler h funcid regs s"
| "ecall_call_handle env n h Ecall_hsm extid funcid regs s = sbi_ecall_hsm_handler env n h funcid regs s"
| "ecall_call_handle env n h Ecall_srst extid funcid regs s = sbi_ecall_srst_handler env n h funcid regs s"
| "ecall_call_handle env n h Ecall_pmu extid funcid regs s = sbi_ecall_pmu_handler h funcid regs s"
| "ecall_call_handle env n h Ecall_legacy extid funcid regs s = sbi_ecall_legacy_handler env n h extid regs s"
| "ecall_call_handle env n h Ecall_vendor extid funcid regs s = sbi_ecall_vendor_handler extid funcid regs s"

definition ecall_finish ::
  "nat \<Rightarrow> bool \<Rightarrow> sbi_trap_regs \<Rightarrow> int \<times> ulong \<times> sbi_trap_info \<Rightarrow> 'a machine_scheme
     \<Rightarrow> sbi_trap_regs \<times> 'a machine_scheme" where
  "ecall_finish h is_0_1_spec regs res s =
     (case res of (ret, out_val, trap) \<Rightarrow>
        if ret = SBI_ETRAP then
          (case sbi_trap_redirect h regs (trap\<lparr>epc := mepc regs\<rparr>) s of (_, regs, s) \<Rightarrow> (regs, s))
        else
          let ret = (if ret < SBI_LAST_ERR then - 1 else ret);
              regs = regs\<lparr>mepc := mepc regs + 4\<rparr>;
              regs = set_gpr 10 (word_of_int ret) regs
          in (if is_0_1_spec then regs else set_gpr 11 out_val regs, s))"

definition sbi_ecall_handler ::
  "('a ecall_state_scheme \<Rightarrow> 'a ecall_state_scheme) \<Rightarrow> nat \<Rightarrow> nat \<Rightarrow> sbi_trap_regs
     \<Rightarrow> 'a ecall_state_scheme \<Rightarrow> (int \<times> sbi_trap_regs, 'a ecall_state_scheme) flow" where
  "sbi_ecall_handler env n h regs s =
     (let extension_id = reg_a7 regs; func_id = reg_a6 regs in
      flow_bind
        (case sbi_ecall_find_extension extension_id s of
           None \<Rightarrow> Ret (False, SBI_ENOTSUPP, 0, trap_info_zero) s
         | Some e \<Rightarrow>
             (case ext_handle e of
                None \<Rightarrow> Ret (False, SBI_ENOTSUPP, 0, trap_info_zero) s
              | Some f \<Rightarrow>
                  flow_bind (ecall_call_handle env n h f extension_id func_id regs s) (\<lambda>res s.
                    Ret (extension_id \<ge> SBI_EXT_0_1_SET_TIMER \<and> extension_id \<le> SBI_EXT_0_1_SHUTDOWN, res) s)))
        (\<lambda>(is_0_1_spec, res) s.
          case ecall_finish h is_0_1_spec regs res s of (regs, s) \<Rightarrow> Ret (0, regs) s))"

section \<open>Initialisation\<close>

definition ecall_ext ::
  "nat \<Rightarrow> ulong \<Rightarrow> ulong \<Rightarrow> ecall_fn option \<Rightarrow> ecall_fn \<Rightarrow> sbi_ecall_extension" where
  "ecall_ext addr st en probe handle =
     \<lparr>ext_addr = addr, extid_start = st, extid_end = en, ext_probe = probe, ext_handle = Some handle\<rparr>"

text \<open>In the order of their registration: time, rfence, ipi, base, hsm, srst, pmu, legacy, vendor.\<close>

definition ecall_library :: "sbi_ecall_extension list" where
  "ecall_library =
     [ecall_ext 0 SBI_EXT_TIME SBI_EXT_TIME None Ecall_time,
      ecall_ext 1 SBI_EXT_RFENCE SBI_EXT_RFENCE None Ecall_rfence,
      ecall_ext 2 SBI_EXT_IPI SBI_EXT_IPI None Ecall_ipi,
      ecall_ext 3 SBI_EXT_BASE SBI_EXT_BASE None Ecall_base,
      ecall_ext 4 SBI_EXT_HSM SBI_EXT_HSM None Ecall_hsm,
      ecall_ext 5 SBI_EXT_SRST SBI_EXT_SRST (Some Ecall_srst) Ecall_srst,
      ecall_ext 6 SBI_EXT_PMU SBI_EXT_PMU (Some Ecall_pmu) Ecall_pmu,
      ecall_ext 7 SBI_EXT_0_1_SET_TIMER SBI_EXT_0_1_SHUTDOWN None Ecall_legacy,
      ecall_ext 8 SBI_EXT_VENDOR_START SBI_EXT_VENDOR_END (Some Ecall_vendor) Ecall_vendor]"

fun ecall_register_all ::
  "sbi_ecall_extension list \<Rightarrow> 'a ecall_state_scheme \<Rightarrow> int \<times> 'a ecall_state_scheme" where
  "ecall_register_all [] s = (0, s)"
| "ecall_register_all (e # es) s =
     (case sbi_ecall_register_extension (Some e) s of (ret, s) \<Rightarrow>
        if ret \<noteq> 0 then (ret, s) else ecall_register_all es s)"

definition sbi_ecall_init :: "'a ecall_state_scheme \<Rightarrow> int \<times> 'a ecall_state_scheme" where
  "sbi_ecall_init s = ecall_register_all ecall_library s"

section \<open>A small state for concrete runs\<close>

definition ecall0 :: ecall_state where
  "ecall0 = umem_state.extend umem0 \<lparr>ecall_exts_list = ecall_library, ecall_impid = 1\<rparr>"

lemmas ecall0_defs = umem0_defs ecall0_def ecall_state.defs

end
