(* ===== verification/Sbi_Ecall_Calls.thy ===== *)
theory Sbi_Ecall_Calls
  imports Sbi_Ecall
begin

text \<open>
  What a supervisor gets from its calls: the ranges of the registered extensions never overlap, so
  that a call goes to one extension; the errors of a reset call, from the registers of the caller
  through the handler to the result.
\<close>

section \<open>The list of extensions\<close>

definition ext_ids :: "sbi_ecall_extension \<Rightarrow> ulong set" where
  "ext_ids e = {extid_start e..extid_end e}"

text \<open>Every extension has an id and a handler, and no two share an id.\<close>

definition exts_ok :: "sbi_ecall_extension list \<Rightarrow> bool" where
  "exts_ok es \<longleftrightarrow> (\<forall>e\<in>set es. extid_start e \<le> extid_end e \<and> ext_handle e \<noteq> None)
     \<and> sorted_wrt (\<lambda>a b. ext_ids a \<inter> ext_ids b = {}) es"

lemma ranges_meet:
  "extid_start a \<le> extid_end a \<Longrightarrow> extid_start b \<le> extid_end b \<Longrightarrow>
   ext_ids a \<inter> ext_ids b \<noteq> {} \<longleftrightarrow> \<not> (extid_end a < extid_start b \<or> extid_end b < extid_start a)"
  by (auto simp: ext_ids_def not_less)

lemma exts_ok_append:
  "exts_ok (es @ [e]) \<longleftrightarrow> exts_ok es \<and> extid_start e \<le> extid_end e \<and> ext_handle e \<noteq> None
     \<and> (\<forall>t\<in>set es. ext_ids t \<inter> ext_ids e = {})"
  by (auto simp: exts_ok_def sorted_wrt_append)

lemma exts_ok_filter: "exts_ok es \<Longrightarrow> exts_ok (filter P es)"
  by (auto simp: exts_ok_def intro: sorted_wrt_filter)

lemma exts_ok_disjoint:
  assumes "exts_ok es" "a \<in> set es" "b \<in> set es" "x \<in> ext_ids a" "x \<in> ext_ids b"
  shows "a = b"
proof -
  obtain i j where ij: "i < length es" "es ! i = a" "j < length es" "es ! j = b"
    using assms(2,3) by (auto simp: in_set_conv_nth)
  have w: "sorted_wrt (\<lambda>a b. ext_ids a \<inter> ext_ids b = {}) es" using assms(1) by (simp add: exts_ok_def)
  consider "i < j" | "i = j" | "j < i" by linarith
  then show ?thesis
  proof cases
    case 1
    then show ?thesis using sorted_wrt_nth_less [OF w 1 ij(3)] ij assms(4,5) by auto
  next
    case 3
    then show ?thesis using sorted_wrt_nth_less [OF w 3 ij(1)] ij assms(4,5) by auto
  qed (use ij in simp)
qed

lemma find_extension_iff:
  assumes "exts_ok (ecall_exts_list s)"
  shows "sbi_ecall_find_extension extid s = Some e \<longleftrightarrow> e \<in> set (ecall_exts_list s) \<and> extid \<in> ext_ids e"
proof
  assume "sbi_ecall_find_extension extid s = Some e"
  then show "e \<in> set (ecall_exts_list s) \<and> extid \<in> ext_ids e"
    by (auto simp: sbi_ecall_find_extension_def find_Some_iff ext_ids_def)
next
  assume e: "e \<in> set (ecall_exts_list s) \<and> extid \<in> ext_ids e"
  then obtain t where t: "sbi_ecall_find_extension extid s = Some t"
    by (fastforce simp: sbi_ecall_find_extension_def ext_ids_def find_None_iff not_None_eq [symmetric])
  then have "t \<in> set (ecall_exts_list s)" "extid \<in> ext_ids t"
    by (auto simp: sbi_ecall_find_extension_def find_Some_iff ext_ids_def)
  then show "sbi_ecall_find_extension extid s = Some e"
    using exts_ok_disjoint [OF assms, of t e extid] e t by simp
qed

text \<open>C13. Registering and unregistering keep the ranges of the extensions disjoint, so an extension id
  is served by exactly the one registered extension that has it in its range; an extension is
  registered exactly when it is well-formed and shares no id with a registered one, and refused with
  the list unchanged otherwise.\<close>

theorem registration_keeps_ranges_disjoint:
  assumes "exts_ok (ecall_exts_list s)"
  shows "exts_ok (ecall_exts_list (snd (sbi_ecall_register_extension ext s)))
    \<and> exts_ok (ecall_exts_list (sbi_ecall_unregister_extension ext s))
    \<and> (sbi_ecall_find_extension extid s = Some t \<longleftrightarrow>
         t \<in> set (ecall_exts_list s) \<and> extid_start t \<le> extid \<and> extid \<le> extid_end t)
    \<and> sbi_ecall_register_extension (Some e) s =
        (if extid_start e \<le> extid_end e \<and> ext_handle e \<noteq> None
            \<and> (\<forall>t\<in>set (ecall_exts_list s). ext_ids t \<inter> ext_ids e = {})
         then (0, s\<lparr>ecall_exts_list := ecall_exts_list s @ [e]\<rparr>) else (SBI_EINVAL, s))"
proof -
  have meet: "(\<exists>t\<in>set (ecall_exts_list s). \<not> (extid_end t < extid_start e \<or> extid_end e < extid_start t))
      \<longleftrightarrow> \<not> (\<forall>t\<in>set (ecall_exts_list s). ext_ids t \<inter> ext_ids e = {})"
    if "extid_start e \<le> extid_end e" for e
    using ranges_meet [OF _ that] assms by (auto simp: exts_ok_def)
  have reg: "sbi_ecall_register_extension (Some e) s =
      (if extid_start e \<le> extid_end e \<and> ext_handle e \<noteq> None
          \<and> (\<forall>t\<in>set (ecall_exts_list s). ext_ids t \<inter> ext_ids e = {})
       then (0, s\<lparr>ecall_exts_list := ecall_exts_list s @ [e]\<rparr>) else (SBI_EINVAL, s))" for e
  proof (cases "extid_start e \<le> extid_end e")
    case True
    show ?thesis
      unfolding sbi_ecall_register_extension_def list_ex_iff option.case meet [OF True]
      using True by (auto simp: not_less)
  qed (simp add: sbi_ecall_register_extension_def not_le)
  have keeps: "exts_ok (ecall_exts_list (snd (sbi_ecall_register_extension ext s)))"
  proof (cases ext)
    case None
    then show ?thesis using assms by (simp add: sbi_ecall_register_extension_def)
  next
    case (Some e)
    then show ?thesis unfolding Some reg using assms by (simp add: exts_ok_append)
  qed
  have "exts_ok (ecall_exts_list (sbi_ecall_unregister_extension ext s))"
    using assms by (simp add: sbi_ecall_unregister_extension_def exts_ok_filter split: option.splits)
  then show ?thesis
    using keeps reg find_extension_iff [OF assms] by (auto simp: ext_ids_def)
qed

lemma ecall_library_ok: "exts_ok ecall_library"
  unfolding exts_ok_def ecall_library_def ecall_ext_def ext_ids_def by simp

corollary registration_keeps_ranges_disjoint_witness:
  "fst (sbi_ecall_register_extension (Some (ecall_ext 9 0x8 0xf None Ecall_vendor)) ecall0) = SBI_EINVAL"
proof -
  have "exts_ok (ecall_exts_list ecall0)" by (simp add: ecall0_defs ecall_library_ok)
  note r = registration_keeps_ranges_disjoint [OF this, where e = "ecall_ext 9 0x8 0xf None Ecall_vendor"]
  have "ext_ids (ecall_ext 7 0 8 None Ecall_legacy) \<inter> ext_ids (ecall_ext 9 0x8 0xf None Ecall_vendor) \<noteq> {}"
    by (subst ranges_meet) (simp_all add: ecall_ext_def)
  then have "\<not> (\<forall>t\<in>set (ecall_exts_list ecall0).
      ext_ids t \<inter> ext_ids (ecall_ext 9 0x8 0xf None Ecall_vendor) = {})"
    by (simp add: ecall0_defs ecall_library_def)
  with r show ?thesis by (simp del: One_nat_def)
qed

section \<open>The library's own extensions\<close>

lemma register_all_ok:
  assumes "exts_ok (ecall_exts_list s @ es)"
  shows "ecall_register_all es s = (0, s\<lparr>ecall_exts_list := ecall_exts_list s @ es\<rparr>)"
  using assms
proof (induction es arbitrary: s)
  case (Cons e es)
  have ok: "exts_ok (ecall_exts_list s)" "extid_start e \<le> extid_end e" "ext_handle e \<noteq> None"
    "\<forall>t\<in>set (ecall_exts_list s). ext_ids t \<inter> ext_ids e = {}"
    using Cons.prems by (auto simp: exts_ok_def sorted_wrt_append)
  have "\<not> (\<exists>t\<in>set (ecall_exts_list s). \<not> (extid_end t < extid_start e \<or> extid_end e < extid_start t))"
    using ranges_meet [OF _ ok(2)] ok(1,4) by (auto simp: exts_ok_def)
  then have "sbi_ecall_register_extension (Some e) s = (0, s\<lparr>ecall_exts_list := ecall_exts_list s @ [e]\<rparr>)"
    using ok by (simp add: sbi_ecall_register_extension_def list_ex_iff not_less)
  then show ?case using Cons by simp
qed simp

lemma ecall_init_registers:
  "ecall_exts_list s = [] \<Longrightarrow> sbi_ecall_init s = (0, s\<lparr>ecall_exts_list := ecall_library\<rparr>)"
  unfolding sbi_ecall_init_def by (subst register_all_ok) (simp_all add: ecall_library_ok)

section \<open>The errors of a reset call\<close>

text \<open>The registers of a caller that gets an error and an output value.\<close>

definition ecall_answer :: "sbi_trap_regs \<Rightarrow> int \<Rightarrow> ulong \<Rightarrow> sbi_trap_regs" where
  "ecall_answer regs err out = set_gpr 11 out (set_gpr 10 (word_of_int err) (regs\<lparr>mepc := mepc regs + 4\<rparr>))"

lemma find_srst:
  "ecall_exts_list s = ecall_library \<Longrightarrow> sbi_ecall_find_extension SBI_EXT_SRST s
     = Some (ecall_ext 5 SBI_EXT_SRST SBI_EXT_SRST (Some Ecall_srst) Ecall_srst)"
  by (simp add: sbi_ecall_find_extension_def ecall_library_def ecall_ext_def)

lemma srst_handler_cases:
  "sbi_ecall_srst_handler env n h f regs s =
     (if f = 0 \<and> reg_a0 regs \<in> {0, 1, 2} \<and> reg_a1 regs \<in> {0, 1} then
        (if sbi_system_reset_supported (ucast (reg_a0 regs)) (ucast (reg_a1 regs)) s then
           flow_bind (sbi_system_reset (library_ops env n) (sbi_exit env n) h (ucast (reg_a0 regs))
               (ucast (reg_a1 regs)) tlb_info_zero s)
             (\<lambda>_ s. ecall_ret SBI_ENOTSUPP s)
         else ecall_ret SBI_ENOTSUPP s)
      else ecall_ret (if f = 0 then SBI_EINVAL else SBI_ENOTSUPP) s)"
proof -
  have "\<not> 0xffffffff \<le> w" if "w \<in> {0, 1, 2}" for w :: ulong
    using that by (auto simp: word_le_nat_alt)
  then show ?thesis by (auto simp: sbi_ecall_srst_handler_def)
qed

text \<open>C14. A reset call of the supervisor, from its registers on: with a type or reason that does not
  exist the caller gets the error for an invalid parameter, with one that no reset device supports
  (and for any other function of the extension) that it is not supported, each time with its program
  counter behind the call, nothing but the two result registers changed and no effect on the
  machine; a supported reset does not come back.\<close>

theorem reset_call_errors:
  assumes "ecall_exts_list s = ecall_library" "reg_a7 regs = SBI_EXT_SRST"
  shows "if reg_a6 regs = 0 \<and> reg_a0 regs \<in> {0, 1, 2} \<and> reg_a1 regs \<in> {0, 1}
      \<and> sbi_system_reset_supported (ucast (reg_a0 regs)) (ucast (reg_a1 regs)) s
    then \<not> returns (sbi_ecall_handler env n h regs s)
    else sbi_ecall_handler env n h regs s =
      Ret (0, ecall_answer regs
        (if reg_a6 regs = 0 \<and> \<not> (reg_a0 regs \<in> {0, 1, 2} \<and> reg_a1 regs \<in> {0, 1})
         then SBI_EINVAL else SBI_ENOTSUPP) 0) s"
proof -
  have h: "sbi_ecall_handler env n h regs s =
      flow_bind (flow_bind (sbi_ecall_srst_handler env n h (reg_a6 regs) regs s) (\<lambda>res s. Ret (False, res) s))
        (\<lambda>(is_0_1_spec, res) s. case ecall_finish h is_0_1_spec regs res s of (regs, s) \<Rightarrow> Ret (0, regs) s)"
    by (simp add: sbi_ecall_handler_def assms(2) find_srst [OF assms(1)] ecall_ext_def)
  have answer: "flow_bind (flow_bind (ecall_ret r s) (\<lambda>res s. Ret (False, res) s))
      (\<lambda>(is_0_1_spec, res) s. case ecall_finish h is_0_1_spec regs res s of (regs, s) \<Rightarrow> Ret (0, regs) s)
      = Ret (0, ecall_answer regs r 0) s" if "r \<in> {SBI_EINVAL, SBI_ENOTSUPP}" for r
    using that by (auto simp: ecall_ret_def ecall_finish_def ecall_answer_def)
  show ?thesis
    unfolding h srst_handler_cases
    by (auto simp: answer reset_not_returning intro!: not_returns_bind)
qed

corollary reset_call_errors_witness:
  "sbi_ecall_handler (\<lambda>s. s) 4 0 (regs0\<lparr>gpr := (\<lambda>k. if k = 17 then SBI_EXT_SRST else if k = 10 then 3 else 0)\<rparr>) ecall0
     = Ret (0, ecall_answer (regs0\<lparr>gpr := (\<lambda>k. if k = 17 then SBI_EXT_SRST else if k = 10 then 3 else 0)\<rparr>)
         SBI_EINVAL 0) ecall0"
  using reset_call_errors [of ecall0 "regs0\<lparr>gpr := (\<lambda>k. if k = 17 then SBI_EXT_SRST else if k = 10 then 3 else 0)\<rparr>"
      "\<lambda>s. s" 4 0]
  by (simp add: ecall0_defs)

end
