(* ===== verification/Sbi_Insn.thy ===== *)
theory Sbi_Insn
  imports Sbi_Unpriv
begin

text \<open>
  Instructions that the hardware refuses: \<^verbatim>\<open>lib/sbi/sbi_emulate_csr.c\<close> and
  \<^verbatim>\<open>lib/sbi/sbi_illegal_insn.c\<close>, in the build with hardware floating point (\<^verbatim>\<open>__riscv_flen\<close>), where
  the one thing emulated is an access to a counter, the time, or the time offset of a virtual
  machine. The debug messages are left out.
\<close>

section \<open>Counters and time\<close>

abbreviation (input) CSR_HPMCOUNTER3 :: nat where "CSR_HPMCOUNTER3 \<equiv> 0xc03"
abbreviation (input) CSR_HPMCOUNTER31 :: nat where "CSR_HPMCOUNTER31 \<equiv> 0xc1f"

definition hpm_allowed :: "nat \<Rightarrow> nat \<Rightarrow> ulong \<Rightarrow> bool \<Rightarrow> 'a machine_scheme \<Rightarrow> bool" where
  "hpm_allowed h hpm_num prev_mode virt s =
     (let cen = - 1;
          cen = (if prev_mode \<le> PRV_S then
                   (if sbi_hart_has_feature h SBI_HART_HAS_MCOUNTEREN s then
                      let cen = cen AND csr_read h CSR_MCOUNTEREN s
                      in if virt then cen AND csr_read h CSR_HCOUNTEREN s else cen
                    else 0)
                 else cen);
          cen = (if prev_mode = PRV_U then
                   (if sbi_hart_has_feature h SBI_HART_HAS_SCOUNTEREN s
                    then cen AND csr_read h CSR_SCOUNTEREN s else 0)
                 else cen)
      in drop_bit hpm_num cen AND 1 \<noteq> 0)"

definition sbi_emulate_csr_read ::
  "nat \<Rightarrow> nat \<Rightarrow> sbi_trap_regs \<Rightarrow> 'a timer_state_scheme \<Rightarrow> (int \<times> ulong, 'a timer_state_scheme) flow"
where
  "sbi_emulate_csr_read h csr_num regs s =
     (let prev_mode = trap_prev_mode regs; virt = trap_prev_virt regs in
      if csr_num = CSR_HTIMEDELTA then
        (if prev_mode = PRV_S \<and> \<not> virt then Ret (0, sbi_timer_get_delta h s) s
         else Ret (SBI_ENOTSUPP, 0) s)
      else if csr_num = CSR_CYCLE then
        (if \<not> hpm_allowed h (csr_num - CSR_CYCLE) prev_mode virt s then Ret (SBI_ENOTSUPP, 0) s
         else Ret (0, csr_read h CSR_MCYCLE s) s)
      else if csr_num = CSR_TIME then
        flow_bind (if virt then sbi_timer_virt_value h s else sbi_timer_value s) (\<lambda>v s. Ret (0, v) s)
      else if csr_num = CSR_INSTRET then
        (if \<not> hpm_allowed h (csr_num - CSR_CYCLE) prev_mode virt s then Ret (SBI_ENOTSUPP, 0) s
         else Ret (0, csr_read h CSR_MINSTRET s) s)
      else if CSR_HPMCOUNTER3 \<le> csr_num \<and> csr_num \<le> CSR_HPMCOUNTER31 then
        (if unat (sbi_hart_mhpm_count h s + 3) \<le> csr_num - CSR_CYCLE then Ret (SBI_ENOTSUPP, 0) s
         else if \<not> hpm_allowed h (csr_num - CSR_CYCLE) prev_mode virt s then Ret (SBI_ENOTSUPP, 0) s
         else Ret (0, csr_read h (CSR_MCYCLE + csr_num - CSR_CYCLE) s) s)
      else Ret (SBI_ENOTSUPP, 0) s)"

definition sbi_emulate_csr_write ::
  "nat \<Rightarrow> nat \<Rightarrow> sbi_trap_regs \<Rightarrow> ulong \<Rightarrow> 'a timer_state_scheme \<Rightarrow> int \<times> 'a timer_state_scheme" where
  "sbi_emulate_csr_write h csr_num regs csr_val s =
     (if csr_num = CSR_HTIMEDELTA then
        (if trap_prev_mode regs = PRV_S \<and> \<not> trap_prev_virt regs
         then (0, sbi_timer_set_delta h csr_val s) else (SBI_ENOTSUPP, s))
      else (SBI_ENOTSUPP, s))"

section \<open>Illegal instructions\<close>

definition redirect_flow ::
  "nat \<Rightarrow> sbi_trap_regs \<Rightarrow> sbi_trap_info \<Rightarrow> 'a machine_scheme
     \<Rightarrow> (int \<times> sbi_trap_regs, 'a machine_scheme) flow" where
  "redirect_flow h regs trap s =
     (case sbi_trap_redirect h regs trap s of (r, regs, s) \<Rightarrow> Ret (r, regs) s)"

definition truly_illegal_insn ::
  "nat \<Rightarrow> ulong \<Rightarrow> sbi_trap_regs \<Rightarrow> 'a machine_scheme \<Rightarrow> (int \<times> sbi_trap_regs, 'a machine_scheme) flow"
where
  "truly_illegal_insn h insn regs s =
     redirect_flow h regs
       \<lparr>epc = mepc regs, cause = CAUSE_ILLEGAL_INSTRUCTION, tval = insn, tval2 = 0, tinst = 0\<rparr> s"

text \<open>The new value of the register for the six forms of the instruction, and whether it is written.\<close>

definition csr_new_value :: "ulong \<Rightarrow> sbi_trap_regs \<Rightarrow> ulong \<Rightarrow> (ulong \<times> bool) option" where
  "csr_new_value insn regs csr_val =
     (let rs1_num = RV_X insn 15 5; rs1_val = GET_RS1 insn regs; rm = GET_RM insn in
      if rm = 1 then Some (rs1_val, True)
      else if rm = 2 then Some (csr_val OR rs1_val, rs1_num \<noteq> 0)
      else if rm = 3 then Some (csr_val AND NOT rs1_val, rs1_num \<noteq> 0)
      else if rm = 5 then Some (of_nat rs1_num, True)
      else if rm = 6 then Some (csr_val OR of_nat rs1_num, rs1_num \<noteq> 0)
      else if rm = 7 then Some (csr_val AND NOT (of_nat rs1_num), rs1_num \<noteq> 0)
      else None)"

definition system_opcode_insn ::
  "nat \<Rightarrow> ulong \<Rightarrow> sbi_trap_regs \<Rightarrow> 'a timer_state_scheme \<Rightarrow> (int \<times> sbi_trap_regs, 'a timer_state_scheme) flow"
where
  "system_opcode_insn h insn regs s =
     (let csr_num = unat (drop_bit 20 (ucast insn :: u32)) in
      flow_bind (sbi_emulate_csr_read h csr_num regs s) (\<lambda>(ret, csr_val) s.
        if ret \<noteq> 0 then truly_illegal_insn h insn regs s
        else case csr_new_value insn regs csr_val of
          None \<Rightarrow> truly_illegal_insn h insn regs s
        | Some (new_csr_val, do_write) \<Rightarrow>
            (let (ret, s) = (if do_write then sbi_emulate_csr_write h csr_num regs new_csr_val s else (0, s))
             in if ret \<noteq> 0 then truly_illegal_insn h insn regs s
                else
                  let regs = SET_RD insn csr_val regs
                  in Ret (0, regs\<lparr>mepc := mepc regs + 4\<rparr>) s)))"

text \<open>Without floating-point emulation no compressed instruction is emulated.\<close>

definition emulate_rvc ::
  "nat \<Rightarrow> ulong \<Rightarrow> ulong \<Rightarrow> ulong \<Rightarrow> sbi_trap_regs \<Rightarrow> 'a machine_scheme
     \<Rightarrow> (int \<times> sbi_trap_regs, 'a machine_scheme) flow" where
  "emulate_rvc h insn tv2 tin regs s = truly_illegal_insn h insn regs s"

definition illegal_insn_table ::
  "nat \<Rightarrow> nat \<Rightarrow> ulong \<Rightarrow> sbi_trap_regs \<Rightarrow> 'a timer_state_scheme
     \<Rightarrow> (int \<times> sbi_trap_regs, 'a timer_state_scheme) flow" where
  "illegal_insn_table h i = (if i = 28 then system_opcode_insn h else truly_illegal_insn h)"

definition sbi_illegal_insn_handler ::
  "nat \<Rightarrow> ulong \<Rightarrow> ulong \<Rightarrow> ulong \<Rightarrow> sbi_trap_regs \<Rightarrow> 'a umem_state_scheme
     \<Rightarrow> (int \<times> sbi_trap_regs, 'a umem_state_scheme) flow" where
  "sbi_illegal_insn_handler h insn tv2 tin regs s =
     (let s = snd (sbi_pmu_ctr_incr_fw h SBI_PMU_FW_ILLEGAL_INSN s) in
      if insn AND 3 \<noteq> 3 then
        (case sbi_get_insn h (mepc regs) trap_info_zero s of (insn, uptrap) \<Rightarrow>
           if cause uptrap \<noteq> 0 then redirect_flow h regs (uptrap\<lparr>epc := mepc regs\<rparr>) s
           else if insn AND 3 \<noteq> 3 then emulate_rvc h insn tv2 tin regs s
           else illegal_insn_table h (unat (drop_bit 2 (insn AND 0x7c))) insn regs s)
      else illegal_insn_table h (unat (drop_bit 2 (insn AND 0x7c))) insn regs s)"

end
