(* ===== verification/Sbi_Misaligned.thy ===== *)
theory Sbi_Misaligned
  imports Sbi_Insn
begin

text \<open>
  \<^verbatim>\<open>lib/sbi/sbi_misaligned_ldst.c\<close>: loads and stores at addresses the hardware does not accept,
  emulated byte by byte (RV64 with hardware floating point). An instruction is decoded in the order
  of the code's tests; the decoders give the number of bytes and what to do with them.
\<close>

section \<open>Decoding\<close>

definition insn_is :: "ulong \<Rightarrow> ulong \<Rightarrow> ulong \<Rightarrow> bool" where
  "insn_is insn msk match \<longleftrightarrow> insn AND msk = match"

abbreviation (input) is_rv32 :: "ulong \<Rightarrow> ulong \<Rightarrow> bool" where "is_rv32 insn m \<equiv> insn_is insn 0x707f m"
abbreviation (input) is_rvc :: "ulong \<Rightarrow> ulong \<Rightarrow> bool" where "is_rvc insn m \<equiv> insn_is insn 0xe003 m"

definition rvc_as_rd :: "ulong \<Rightarrow> ulong" where
  "rvc_as_rd insn = push_bit 7 (of_nat (RVC_RS2S insn))"

text \<open>The number of bytes, the shift for the sign extension, whether the target is a floating-point
  register, and the instruction word the target register is taken from.\<close>

definition decode_load :: "ulong \<Rightarrow> (nat \<times> nat \<times> bool \<times> ulong) option" where
  "decode_load insn =
     (if is_rv32 insn 0x2003 then Some (4, 32, False, insn)
      else if is_rv32 insn 0x3003 then Some (8, 0, False, insn)
      else if is_rv32 insn 0x6003 then Some (4, 0, False, insn)
      else if is_rv32 insn 0x3007 then Some (8, 0, True, insn)
      else if is_rv32 insn 0x2007 then Some (4, 0, True, insn)
      else if is_rv32 insn 0x1003 then Some (2, 48, False, insn)
      else if is_rv32 insn 0x5003 then Some (2, 0, False, insn)
      else if is_rvc insn 0x6000 then Some (8, 0, False, rvc_as_rd insn)
      else if is_rvc insn 0x6002 \<and> RV_X insn 7 5 \<noteq> 0 then Some (8, 0, False, insn)
      else if is_rvc insn 0x4000 then Some (4, 32, False, rvc_as_rd insn)
      else if is_rvc insn 0x4002 \<and> RV_X insn 7 5 \<noteq> 0 then Some (4, 32, False, insn)
      else if is_rvc insn 0x2000 then Some (8, 0, True, rvc_as_rd insn)
      else if is_rvc insn 0x2002 then Some (8, 0, True, insn)
      else None)"

text \<open>Reading a floating-point register as an integer: the single form sign-extends.\<close>

definition get_f64 :: "nat \<Rightarrow> nat \<Rightarrow> 'a umem_state_scheme \<Rightarrow> ulong" where
  "get_f64 h r s = fpr s h r"

definition get_f32 :: "nat \<Rightarrow> nat \<Rightarrow> 'a umem_state_scheme \<Rightarrow> ulong" where
  "get_f32 h r s = scast (ucast (fpr s h r) :: u32)"

definition set_fpr :: "nat \<Rightarrow> nat \<Rightarrow> u64 \<Rightarrow> 'a umem_state_scheme \<Rightarrow> 'a umem_state_scheme" where
  "set_fpr h r v s = s\<lparr>fpr := (fpr s)(h := (fpr s h)(r := v))\<rparr>"

text \<open>\<^verbatim>\<open>fmv.s.x\<close> fills the upper half with ones.\<close>

definition set_f32 :: "nat \<Rightarrow> nat \<Rightarrow> ulong \<Rightarrow> 'a umem_state_scheme \<Rightarrow> 'a umem_state_scheme" where
  "set_f32 h r v s = set_fpr h r (ucast (ucast v :: u32) OR 0xffffffff00000000) s"

text \<open>The number of bytes and the value that is stored.\<close>

definition decode_store ::
  "nat \<Rightarrow> ulong \<Rightarrow> sbi_trap_regs \<Rightarrow> 'a umem_state_scheme \<Rightarrow> (nat \<times> ulong) option" where
  "decode_store h insn regs s =
     (if is_rv32 insn 0x2023 then Some (4, GET_RS2 insn regs)
      else if is_rv32 insn 0x3023 then Some (8, GET_RS2 insn regs)
      else if is_rv32 insn 0x3027 then Some (8, get_f64 h (REG_PTR insn 20) s)
      else if is_rv32 insn 0x2027 then Some (4, get_f32 h (REG_PTR insn 20) s)
      else if is_rv32 insn 0x1023 then Some (2, GET_RS2 insn regs)
      else if is_rvc insn 0xe000 then Some (8, GET_RS2S insn regs)
      else if is_rvc insn 0xe002 \<and> RV_X insn 7 5 \<noteq> 0 then Some (8, GET_RS2C insn regs)
      else if is_rvc insn 0xc000 then Some (4, GET_RS2S insn regs)
      else if is_rvc insn 0xc002 \<and> RV_X insn 7 5 \<noteq> 0 then Some (4, GET_RS2C insn regs)
      else if is_rvc insn 0xa000 then Some (8, get_f64 h (RVC_RS2S insn) s)
      else if is_rvc insn 0xa002 then Some (8, get_f64 h (REG_PTR insn 2) s)
      else None)"

text \<open>The instruction and its length: from \<^verbatim>\<open>mtinst\<close> where the hardware gives it, else from memory,
  which may fault.\<close>

definition mis_insn ::
  "nat \<Rightarrow> ulong \<Rightarrow> sbi_trap_regs \<Rightarrow> 'a umem_state_scheme \<Rightarrow> sbi_trap_info + ulong \<times> ulong" where
  "mis_insn h tin regs s =
     (if tin AND 1 \<noteq> 0 then
        let insn = tin OR 3 in Inr (insn, if tin AND 2 \<noteq> 0 then INSN_LEN insn else 2)
      else case sbi_get_insn h (mepc regs) trap_info_zero s of (insn, uptrap) \<Rightarrow>
        if cause uptrap \<noteq> 0 then Inl (uptrap\<lparr>epc := mepc regs\<rparr>) else Inr (insn, INSN_LEN insn))"

section \<open>Loads\<close>

text \<open>The bytes \<open>i\<close> to \<open>len - 1\<close>, as they are put together in the union.\<close>

fun mis_load_bytes ::
  "nat \<Rightarrow> nat \<Rightarrow> nat \<Rightarrow> ulong \<Rightarrow> 'a umem_state_scheme \<Rightarrow> sbi_trap_info + ulong" where
  "mis_load_bytes h 0 i addr s = Inr 0"
| "mis_load_bytes h (Suc k) i addr s =
     (case sbi_load_u8 h (addr + of_nat i) trap_info_zero s of (b, uptrap) \<Rightarrow>
        if cause uptrap \<noteq> 0 then Inl uptrap
        else case mis_load_bytes h k (i + 1) addr s of
          Inl t \<Rightarrow> Inl t
        | Inr v \<Rightarrow> Inr (push_bit (8 * i) b OR v))"

definition sbi_misaligned_load_handler ::
  "nat \<Rightarrow> ulong \<Rightarrow> ulong \<Rightarrow> ulong \<Rightarrow> sbi_trap_regs \<Rightarrow> 'a umem_state_scheme
     \<Rightarrow> (int \<times> sbi_trap_regs, 'a umem_state_scheme) flow" where
  "sbi_misaligned_load_handler h addr tv2 tin regs s =
     (let s = snd (sbi_pmu_ctr_incr_fw h SBI_PMU_FW_MISALIGNED_LOAD s) in
      case mis_insn h tin regs s of
        Inl t \<Rightarrow> redirect_flow h regs t s
      | Inr (insn, insn_len) \<Rightarrow>
          (case decode_load insn of
             None \<Rightarrow>
               redirect_flow h regs
                 \<lparr>epc = mepc regs, cause = CAUSE_MISALIGNED_LOAD, tval = addr, tval2 = tv2, tinst = tin\<rparr> s
           | Some (len, sh, fp, insn) \<Rightarrow>
               (case mis_load_bytes h len 0 addr s of
                  Inl t \<Rightarrow> redirect_flow h regs (t\<lparr>epc := mepc regs\<rparr>) s
                | Inr val \<Rightarrow>
                    let regs' = (if fp then regs else SET_RD insn (signed_drop_bit sh (push_bit sh val)) regs);
                        s = (if \<not> fp then s
                             else if len = 8 then set_fpr h (REG_PTR insn 7) val s
                             else set_f32 h (REG_PTR insn 7) val s)
                    in Ret (0, regs'\<lparr>mepc := mepc regs' + insn_len\<rparr>) s)))"

section \<open>Stores\<close>

fun mis_store_bytes ::
  "nat \<Rightarrow> nat \<Rightarrow> nat \<Rightarrow> ulong \<Rightarrow> ulong \<Rightarrow> 'a umem_state_scheme
     \<Rightarrow> sbi_trap_info option \<times> 'a umem_state_scheme" where
  "mis_store_bytes h 0 i addr val s = (None, s)"
| "mis_store_bytes h (Suc k) i addr val s =
     (case sbi_store_u8 h (addr + of_nat i) (ucast (drop_bit (8 * i) val)) trap_info_zero s of (uptrap, s) \<Rightarrow>
        if cause uptrap \<noteq> 0 then (Some uptrap, s)
        else mis_store_bytes h k (i + 1) addr val s)"

definition sbi_misaligned_store_handler ::
  "nat \<Rightarrow> ulong \<Rightarrow> ulong \<Rightarrow> ulong \<Rightarrow> sbi_trap_regs \<Rightarrow> 'a umem_state_scheme
     \<Rightarrow> (int \<times> sbi_trap_regs, 'a umem_state_scheme) flow" where
  "sbi_misaligned_store_handler h addr tv2 tin regs s =
     (let s = snd (sbi_pmu_ctr_incr_fw h SBI_PMU_FW_MISALIGNED_STORE s) in
      case mis_insn h tin regs s of
        Inl t \<Rightarrow> redirect_flow h regs t s
      | Inr (insn, insn_len) \<Rightarrow>
          (case decode_store h insn regs s of
             None \<Rightarrow>
               redirect_flow h regs
                 \<lparr>epc = mepc regs, cause = CAUSE_MISALIGNED_STORE, tval = addr, tval2 = tv2, tinst = tin\<rparr> s
           | Some (len, val) \<Rightarrow>
               (case mis_store_bytes h len 0 addr val s of
                  (Some t, s) \<Rightarrow> redirect_flow h regs (t\<lparr>epc := mepc regs\<rparr>) s
                | (None, s) \<Rightarrow> Ret (0, regs\<lparr>mepc := mepc regs + insn_len\<rparr>) s)))"

end
