(* ===== verification/Sbi_Trap_Handler.thy ===== *)
theory Sbi_Trap_Handler
  imports Sbi_Ecall Sbi_Misaligned
begin

text \<open>
  \<^verbatim>\<open>sbi_trap_handler\<close> of \<^verbatim>\<open>lib/sbi/sbi_trap.c\<close>: where every trap of the lower modes arrives. An error
  of a handler ends in \<^verbatim>\<open>sbi_trap_error\<close>, which prints the registers and hangs; the printing is left
  out. The last part shows which traps cannot end there; what comes of them is in \<open>Sbi_Trap_Outcomes\<close>.
\<close>

section \<open>The handler\<close>

definition sbi_trap_error ::
  "int \<Rightarrow> sbi_trap_regs \<Rightarrow> 'a ecall_state_scheme \<Rightarrow> (sbi_trap_regs, 'a ecall_state_scheme) flow" where
  "sbi_trap_error rc regs s = Hang s"

definition trap_interrupt ::
  "('a ecall_state_scheme \<Rightarrow> 'a ecall_state_scheme) \<Rightarrow> nat \<Rightarrow> nat \<Rightarrow> ulong \<Rightarrow> sbi_trap_regs
     \<Rightarrow> 'a ecall_state_scheme \<Rightarrow> (sbi_trap_regs, 'a ecall_state_scheme) flow" where
  "trap_interrupt env n h irq regs s =
     (if irq = 7 then Ret regs (sbi_timer_process h s)
      else if irq = 3 then flow_bind (sbi_ipi_process (library_ops env n) h s) (\<lambda>_ s. Ret regs s)
      else sbi_trap_error SBI_ENOTSUPP regs s)"

definition trap_exception ::
  "('a ecall_state_scheme \<Rightarrow> 'a ecall_state_scheme) \<Rightarrow> nat \<Rightarrow> nat \<Rightarrow> ulong \<Rightarrow> ulong \<Rightarrow> ulong \<Rightarrow> ulong
     \<Rightarrow> sbi_trap_regs \<Rightarrow> 'a ecall_state_scheme \<Rightarrow> (int \<times> sbi_trap_regs, 'a ecall_state_scheme) flow"
where
  "trap_exception env n h mcause mtval mtval2 mtinst regs s =
     (if mcause = CAUSE_ILLEGAL_INSTRUCTION then sbi_illegal_insn_handler h mtval mtval2 mtinst regs s
      else if mcause = CAUSE_MISALIGNED_LOAD then sbi_misaligned_load_handler h mtval mtval2 mtinst regs s
      else if mcause = CAUSE_MISALIGNED_STORE then sbi_misaligned_store_handler h mtval mtval2 mtinst regs s
      else if mcause = CAUSE_SUPERVISOR_ECALL \<or> mcause = CAUSE_MACHINE_ECALL
      then sbi_ecall_handler env n h regs s
      else
        let s = (if mcause = CAUSE_LOAD_ACCESS then snd (sbi_pmu_ctr_incr_fw h SBI_PMU_FW_ACCESS_LOAD s)
                 else if mcause = CAUSE_STORE_ACCESS then snd (sbi_pmu_ctr_incr_fw h SBI_PMU_FW_ACCESS_STORE s)
                 else s)
        in redirect_flow h regs
             \<lparr>epc = mepc regs, cause = mcause, tval = mtval, tval2 = mtval2, tinst = mtinst\<rparr> s)"

definition sbi_trap_handler ::
  "('a ecall_state_scheme \<Rightarrow> 'a ecall_state_scheme) \<Rightarrow> nat \<Rightarrow> nat \<Rightarrow> sbi_trap_regs
     \<Rightarrow> 'a ecall_state_scheme \<Rightarrow> (sbi_trap_regs, 'a ecall_state_scheme) flow" where
  "sbi_trap_handler env n h regs s =
     (let mcause = csr_read h CSR_MCAUSE s;
          mtval = csr_read h CSR_MTVAL s;
          hyp = misa_extension h (CHR ''H'') s;
          mtval2 = (if hyp then csr_read h CSR_MTVAL2 s else 0);
          mtinst = (if hyp then csr_read h CSR_MTINST s else 0)
      in if mcause AND BIT 63 \<noteq> 0 then trap_interrupt env n h (mcause AND NOT (BIT 63)) regs s
         else
           flow_bind (trap_exception env n h mcause mtval mtval2 mtinst regs s) (\<lambda>(rc, regs) s.
             if rc \<noteq> 0 then sbi_trap_error rc regs s else Ret regs s))"

section \<open>Which traps come back\<close>

text \<open>A handler that answers the trap: it returns, with 0.\<close>

definition answers :: "(int \<times> 'r, 's) flow \<Rightarrow> bool" where
  "answers m \<longleftrightarrow> (\<exists>r s. m = Ret (0, r) s)"

lemma answers_Ret [simp]: "answers (Ret (a, r) s) \<longleftrightarrow> a = 0"
  by (auto simp: answers_def)

lemma redirect_answers:
  "trap_prev_mode regs \<in> {PRV_S, PRV_U} \<Longrightarrow> answers (redirect_flow h regs t s)"
  by (auto simp: redirect_flow_def sbi_trap_redirect_def Let_def)

lemma timer_value_ret:
  assumes "timer_wf s"
  obtains v t where "(if b then sbi_timer_virt_value h s else sbi_timer_value s) = Ret v t"
proof (cases "get_time_val s")
  case None
  then show thesis using that by (cases b) (auto simp: sbi_timer_virt_value_def sbi_timer_value_def)
next
  case (Some src)
  obtain v where "call_time_val src s = Ret v (s\<lparr>time_reads := time_reads s + 1\<rparr>)"
    using call_time_val_wf [OF assms Some] by blast
  then show thesis
    using that Some by (cases b) (auto simp: sbi_timer_virt_value_def sbi_timer_value_def)
qed

lemma emulate_csr_read_ret:
  assumes "timer_wf s"
  obtains r v t where "sbi_emulate_csr_read h c regs s = Ret (r, v) t"
proof (cases "c = CSR_TIME")
  case True
  obtain v t where "(if trap_prev_virt regs then sbi_timer_virt_value h s else sbi_timer_value s) = Ret v t"
    using timer_value_ret [OF assms] by blast
  then show thesis using True that by (simp add: sbi_emulate_csr_read_def Let_def)
next
  case False
  then have "\<exists>r v t. sbi_emulate_csr_read h c regs s = Ret (r, v) t"
    by (simp add: sbi_emulate_csr_read_def Let_def)
  then show thesis using that by blast
qed

lemma truly_illegal_answers:
  "trap_prev_mode regs \<in> {PRV_S, PRV_U} \<Longrightarrow> answers (truly_illegal_insn h insn regs s)"
  unfolding truly_illegal_insn_def by (rule redirect_answers)

lemma system_opcode_answers:
  assumes "timer_wf s" "trap_prev_mode regs \<in> {PRV_S, PRV_U}"
  shows "answers (system_opcode_insn h insn regs s)"
proof -
  note ill = truly_illegal_answers [OF assms(2)]
  obtain r v t where "sbi_emulate_csr_read h (unat (drop_bit 20 (ucast insn :: u32))) regs s = Ret (r, v) t"
    using emulate_csr_read_ret [OF assms(1)] by blast
  then show ?thesis
    by (auto simp: system_opcode_insn_def Let_def case_prod_unfold ill split: option.splits)
qed

lemma illegal_insn_answers:
  assumes "timer_wf s" "trap_prev_mode regs \<in> {PRV_S, PRV_U}"
  shows "answers (sbi_illegal_insn_handler h insn tv2 tin regs s)"
proof -
  let ?s = "snd (sbi_pmu_ctr_incr_fw h SBI_PMU_FW_ILLEGAL_INSN s)"
  have "timer_wf ?s"
    using assms(1) by (simp add: timer_wf_def sbi_pmu_ctr_incr_fw_def upd_fw_event_def)
  note sys = system_opcode_answers [OF this assms(2)]
  note ill = truly_illegal_answers [OF assms(2)] redirect_answers [OF assms(2)]
  show ?thesis
    by (auto simp: sbi_illegal_insn_handler_def Let_def illegal_insn_table_def emulate_rvc_def sys ill
        split: prod.splits)
qed

lemma misaligned_load_answers:
  "trap_prev_mode regs \<in> {PRV_S, PRV_U} \<Longrightarrow> answers (sbi_misaligned_load_handler h a tv2 tin regs s)"
  by (auto simp: sbi_misaligned_load_handler_def Let_def redirect_answers
      split: sum.splits option.splits prod.splits)

lemma misaligned_store_answers:
  "trap_prev_mode regs \<in> {PRV_S, PRV_U} \<Longrightarrow> answers (sbi_misaligned_store_handler h a tv2 tin regs s)"
  by (auto simp: sbi_misaligned_store_handler_def Let_def redirect_answers
      split: sum.splits option.splits prod.splits)

end
