(* ===== verification/Sbi_Misaligned_Access.thy ===== *)
theory Sbi_Misaligned_Access
  imports Sbi_Misaligned
begin

text \<open>
  What the emulation of misaligned accesses (\<open>Sbi_Misaligned\<close>) does to memory: a store followed by a
  load of the same size gives the value back, and nothing but the stored bytes changes.
\<close>

lemma incr_fw_umem [simp]:
  "umem (snd (sbi_pmu_ctr_incr_fw h k s)) = umem s" "fpr (snd (sbi_pmu_ctr_incr_fw h k s)) = fpr s"
  "ufault (snd (sbi_pmu_ctr_incr_fw h k s)) = ufault s"
  by (simp_all add: sbi_pmu_ctr_incr_fw_def upd_fw_event_def)

lemma decode_store_frame: "fpr t = fpr s \<Longrightarrow> decode_store h insn regs t = decode_store h insn regs s"
  by (simp add: decode_store_def get_f64_def get_f32_def)

lemma decode_store_len: "decode_store h insn regs s = Some (len, val) \<Longrightarrow> len \<le> 8"
  by (auto simp: decode_store_def split: if_splits)

text \<open>The bytes of one access have different addresses, also when it wraps around.\<close>

lemma access_inj: "j < 8 \<Longrightarrow> k < 8 \<Longrightarrow> addr + of_nat j = (addr + of_nat k :: ulong) \<longleftrightarrow> j = k"
  by (auto simp: word_of_nat_eq_iff take_bit_nat_eq_self)

lemma store_bytes_run:
  assumes "\<forall>st a n. ufault s h st a n = None" "i + k \<le> 8"
  shows "\<exists>m. mis_store_bytes h k i addr v s = (None, s\<lparr>umem := m\<rparr>)
    \<and> (\<forall>j. i \<le> j \<and> j < i + k \<longrightarrow> m (addr + of_nat j) = ucast (drop_bit (8 * j) v))
    \<and> (\<forall>a. (\<forall>j. i \<le> j \<and> j < i + k \<longrightarrow> a \<noteq> addr + of_nat j) \<longrightarrow> m a = umem s a)"
  using assms
proof (induction k arbitrary: i s)
  case 0
  then show ?case by (intro exI [of _ "umem s"]) auto
next
  case (Suc k)
  let ?t = "s\<lparr>umem := (umem s)(addr + of_nat i := ucast (drop_bit (8 * i) v))\<rparr>"
  have step: "mis_store_bytes h (Suc k) i addr v s = mis_store_bytes h k (i + 1) addr v ?t"
    using Suc.prems(1) by (simp add: sbi_store_u8_def trap_info_zero_def)
  obtain m where m: "mis_store_bytes h k (i + 1) addr v ?t = (None, ?t\<lparr>umem := m\<rparr>)"
    "\<And>j. i + 1 \<le> j \<Longrightarrow> j < i + 1 + k \<Longrightarrow> m (addr + of_nat j) = ucast (drop_bit (8 * j) v)"
    "\<And>a. (\<And>j. i + 1 \<le> j \<Longrightarrow> j < i + 1 + k \<Longrightarrow> a \<noteq> addr + of_nat j) \<Longrightarrow> m a = umem ?t a"
    using Suc.IH [of ?t "i + 1"] Suc.prems by auto
  have "m (addr + of_nat i) = ucast (drop_bit (8 * i) v)"
    using m(3) [of "addr + of_nat i"] Suc.prems(2) access_inj [of i _ addr] by auto
  then have "m (addr + of_nat j) = ucast (drop_bit (8 * j) v)" if "i \<le> j" "j < i + Suc k" for j
    using m(2) that by (cases "j = i") simp_all
  moreover have "m a = umem s a" if "\<forall>j. i \<le> j \<and> j < i + Suc k \<longrightarrow> a \<noteq> addr + of_nat j" for a
    using m(3) [of a] that by auto
  ultimately show ?case unfolding step m(1) by (intro exI [of _ m]) auto
qed

lemma load_bytes_run:
  assumes "\<forall>st a n. ufault s h st a n = None" "i + k \<le> 8"
    and "\<forall>j. i \<le> j \<and> j < i + k \<longrightarrow> umem s (addr + of_nat j) = ucast (drop_bit (8 * j) v)"
  shows "\<exists>w. mis_load_bytes h k i addr s = Inr w \<and> (\<forall>n. bit w n \<longleftrightarrow> 8 * i \<le> n \<and> n < 8 * (i + k) \<and> bit v n)"
  using assms
proof (induction k arbitrary: i)
  case 0
  then show ?case by simp
next
  case (Suc k)
  obtain w where w: "mis_load_bytes h k (i + 1) addr s = Inr w"
    "\<And>n. bit w n \<longleftrightarrow> 8 * (i + 1) \<le> n \<and> n < 8 * (i + 1 + k) \<and> bit v n"
    using Suc.IH [of "i + 1"] Suc.prems by auto
  have "sbi_load_u8 h (addr + of_nat i) trap_info_zero s
      = (ucast (ucast (drop_bit (8 * i) v) :: u8), trap_info_zero\<lparr>cause := 0\<rparr>)"
    using Suc.prems by (simp add: sbi_load_u8_def unpriv_load_def)
  then have "mis_load_bytes h (Suc k) i addr s
      = Inr (push_bit (8 * i) (ucast (ucast (drop_bit (8 * i) v) :: u8)) OR w)"
    using w(1) by simp
  moreover have "bit (push_bit (8 * i) (ucast (ucast (drop_bit (8 * i) v) :: u8)) OR w) n
      \<longleftrightarrow> 8 * i \<le> n \<and> n < 8 * (i + Suc k) \<and> bit v n" for n
    using Suc.prems(2)
    by (auto simp: bit_or_iff bit_push_bit_iff bit_ucast_iff bit_drop_bit_eq w(2) possible_bit_word
        dest: word64_bit_less)
  ultimately show ?case by blast
qed

section \<open>A store and a load of the same size\<close>

text \<open>What the load makes of the bytes: the low bytes of the value, with zeros or the sign above.\<close>

definition loaded_value :: "nat \<Rightarrow> nat \<Rightarrow> ulong \<Rightarrow> ulong" where
  "loaded_value len sh v = (if sh = 0 then take_bit (8 * len) v else signed_take_bit (8 * len - 1) v)"

lemma decode_load_shift:
  "decode_load insn = Some (len, sh, fp, rd) \<Longrightarrow>
     len \<in> {2, 4, 8} \<and> (sh = 0 \<or> \<not> fp \<and> len < 8 \<and> sh = 64 - 8 * len)"
  by (auto simp: decode_load_def split: if_splits)

lemma loaded_value_shift:
  assumes "len \<in> {2, 4, 8}" "sh = 0 \<or> len < 8 \<and> sh = 64 - 8 * len"
    and "\<And>n. bit w n \<longleftrightarrow> n < 8 * len \<and> bit v n"
  shows "signed_drop_bit sh (push_bit sh w) = loaded_value len sh v"
proof -
  have w: "w = take_bit (8 * len) v" by (rule bit_word_eqI) (auto simp: assms(3) bit_take_bit_iff)
  show ?thesis
  proof (cases "sh = 0")
    case True
    then show ?thesis by (simp add: loaded_value_def w)
  next
    case False
    then have sh: "len = 2 \<and> sh = 48 \<or> len = 4 \<and> sh = 32" using assms(1,2) by auto
    have "bit (signed_drop_bit sh (push_bit sh w)) n \<longleftrightarrow> bit (signed_take_bit (8 * len - 1) v) n" if "n < 64" for n
    proof (cases "n = 8 * len - 1")
      case True
      then show ?thesis using sh that
        by (auto simp: w bit_signed_drop_bit_iff bit_push_bit_iff bit_take_bit_iff bit_signed_take_bit_iff)
    next
      case False
      then have "n < 8 * len - 1 \<or> 8 * len \<le> n" using sh by linarith
      then show ?thesis using sh that
        by (auto simp: w bit_signed_drop_bit_iff bit_push_bit_iff bit_take_bit_iff bit_signed_take_bit_iff)
    qed
    then have "signed_drop_bit sh (push_bit sh w) = signed_take_bit (8 * len - 1) v"
      by (intro bit_word_eqI) simp
    then show ?thesis using False by (simp add: loaded_value_def)
  qed
qed

text \<open>How far the program counter moves: \<^verbatim>\<open>mtinst\<close> tells a compressed instruction by its bit 1.\<close>

definition mis_advance :: "ulong \<Rightarrow> ulong" where
  "mis_advance tin = (if tin AND 2 \<noteq> 0 then 4 else 2)"

lemma mis_insn_tinst: "tin AND 1 \<noteq> 0 \<Longrightarrow> mis_insn h tin regs s = Inr (tin OR 3, mis_advance tin)"
proof -
  have "(tin OR 3) AND 3 = 3" by (rule bit_word_eqI) (auto simp: bit_simps)
  then show "tin AND 1 \<noteq> 0 \<Longrightarrow> mis_insn h tin regs s = Inr (tin OR 3, mis_advance tin)"
    by (simp add: mis_insn_def mis_advance_def INSN_LEN_def)
qed

lemma store_handler_run:
  assumes "\<forall>st a n. ufault s h st a n = None" "tin AND 1 \<noteq> 0"
    and "decode_store h (tin OR 3) regs s = Some (len, v)"
  shows "\<exists>m t. sbi_misaligned_store_handler h addr tv tin regs s = Ret (0, regs\<lparr>mepc := mepc regs + mis_advance tin\<rparr>) t
    \<and> umem t = m \<and> fpr t = fpr s \<and> ufault t = ufault s
    \<and> (\<forall>j<len. m (addr + of_nat j) = ucast (drop_bit (8 * j) v))
    \<and> (\<forall>a. (\<forall>j<len. a \<noteq> addr + of_nat j) \<longrightarrow> m a = umem s a)"
proof -
  let ?s = "snd (sbi_pmu_ctr_incr_fw h SBI_PMU_FW_MISALIGNED_STORE s)"
  have dec: "decode_store h (tin OR 3) regs ?s = Some (len, v)"
    using assms(3) decode_store_frame [of ?s s] by simp
  have nf: "\<forall>st a n. ufault ?s h st a n = None" using assms(1) by simp
  obtain m where m: "mis_store_bytes h len 0 addr v ?s = (None, ?s\<lparr>umem := m\<rparr>)"
    "\<forall>j<len. m (addr + of_nat j) = ucast (drop_bit (8 * j) v)"
    "\<forall>a. (\<forall>j<len. a \<noteq> addr + of_nat j) \<longrightarrow> m a = umem s a"
    using store_bytes_run [OF nf, of 0 len addr v] decode_store_len [OF dec] by auto
  show ?thesis
    unfolding sbi_misaligned_store_handler_def Let_def
    using m dec by (simp add: mis_insn_tinst [OF assms(2)])
qed

lemma load_handler_run:
  assumes "\<forall>st a n. ufault s h st a n = None" "tin AND 1 \<noteq> 0"
    and "decode_load (tin OR 3) = Some (len, sh, fp, rd)"
    and "\<forall>j<len. umem s (addr + of_nat j) = ucast (drop_bit (8 * j) v)"
  shows "\<exists>w t. sbi_misaligned_load_handler h addr tv tin regs s =
      (let regs' = (if fp then regs else SET_RD rd (loaded_value len sh v) regs) in
       Ret (0, regs'\<lparr>mepc := mepc regs' + mis_advance tin\<rparr>)
         (if \<not> fp then t else if len = 8 then set_fpr h (REG_PTR rd 7) w t else set_f32 h (REG_PTR rd 7) w t))
    \<and> w = take_bit (8 * len) v \<and> umem t = umem s \<and> fpr t = fpr s"
proof -
  let ?s = "snd (sbi_pmu_ctr_incr_fw h SBI_PMU_FW_MISALIGNED_LOAD s)"
  note sh = decode_load_shift [OF assms(3)]
  have nf: "\<forall>st a n. ufault ?s h st a n = None" using assms(1) by simp
  have "\<exists>w. mis_load_bytes h len 0 addr ?s = Inr w \<and> (\<forall>n. bit w n \<longleftrightarrow> 8 * 0 \<le> n \<and> n < 8 * (0 + len) \<and> bit v n)"
    by (rule load_bytes_run [OF nf]) (use sh assms(4) in auto)
  then obtain w where w: "mis_load_bytes h len 0 addr ?s = Inr w" "\<And>n. bit w n \<longleftrightarrow> n < 8 * len \<and> bit v n"
    by auto
  have val: "signed_drop_bit sh (push_bit sh w) = loaded_value len sh v"
    by (rule loaded_value_shift) (use sh w(2) in auto)
  have tk: "w = take_bit (8 * len) v" by (rule bit_word_eqI) (auto simp: w(2) bit_take_bit_iff)
  show ?thesis
    unfolding tk [symmetric]
    by (rule exI [of _ w], rule exI [of _ ?s])
      (simp add: sbi_misaligned_load_handler_def mis_insn_tinst [OF assms(2)] assms(3) w(1) val Let_def)
qed

lemma take_bit_u32: "ucast (ucast v :: u32) = (take_bit 32 v :: ulong)"
  by (rule bit_word_eqI) (auto simp: bit_ucast_iff bit_take_bit_iff possible_bit_word)

lemma decode_load_fp_len: "decode_load insn = Some (len, sh, fp, rd) \<Longrightarrow> fp \<Longrightarrow> len = 8 \<or> len = 4"
  by (auto simp: decode_load_def split: if_splits)

text \<open>C2. A misaligned store and then a misaligned load of the same size at the same address, both given
  by the hardware in \<^verbatim>\<open>mtinst\<close> and without faults, succeed and give back what was stored: in an
  integer register the low bytes of the value, extended by zeros or the sign as the load says, in a
  floating-point register the double itself or the single with the upper half filled with ones. The
  two handlers change no byte outside the access, also when the addresses wrap around, no other
  integer register of the frame and no other floating-point register of any hart; of the rest of the
  frame only the program counter moves, by the length of the instruction.\<close>

theorem misaligned_store_load:
  assumes "\<forall>st a n. ufault s h st a n = None" "tin1 AND 1 \<noteq> 0" "tin2 AND 1 \<noteq> 0"
    and "decode_store h (tin1 OR 3) regs1 s = Some (len, v)" "decode_load (tin2 OR 3) = Some (len, sh, fp, rd)"
  shows "\<exists>r1 t r2 u. sbi_misaligned_store_handler h addr tv1 tin1 regs1 s = Ret (0, r1) t
    \<and> sbi_misaligned_load_handler h addr tv2 tin2 regs2 t = Ret (0, r2) u
    \<and> r1 = regs1\<lparr>mepc := mepc regs1 + mis_advance tin1\<rparr> \<and> fpr t = fpr s
    \<and> r2 = regs2\<lparr>gpr := if fp then gpr regs2 else (gpr regs2)(REG_PTR rd 7 := loaded_value len sh v),
                mepc := mepc regs2 + mis_advance tin2\<rparr>
    \<and> fpr u = (if fp then (fpr s)(h := (fpr s h)(REG_PTR rd 7 := 
                               if len = 8 then v else take_bit 32 v OR 0xffffffff00000000)) else fpr s)
    \<and> (\<forall>a. (\<forall>j<len. a \<noteq> addr + of_nat j) \<longrightarrow> umem u a = umem s a)"
proof -
  obtain m t where st: "sbi_misaligned_store_handler h addr tv1 tin1 regs1 s
      = Ret (0, regs1\<lparr>mepc := mepc regs1 + mis_advance tin1\<rparr>) t" "ufault t = ufault s" "fpr t = fpr s"
    "\<forall>j<len. umem t (addr + of_nat j) = ucast (drop_bit (8 * j) v)"
    "\<forall>a. (\<forall>j<len. a \<noteq> addr + of_nat j) \<longrightarrow> umem t a = umem s a"
    using store_handler_run [OF assms(1,2,4)] by metis
  have nf: "\<forall>st a n. ufault t h st a n = None" using assms(1) st(2) by simp
  obtain w u where ld: "sbi_misaligned_load_handler h addr tv2 tin2 regs2 t =
      (let regs' = (if fp then regs2 else SET_RD rd (loaded_value len sh v) regs2) in
       Ret (0, regs'\<lparr>mepc := mepc regs' + mis_advance tin2\<rparr>)
         (if \<not> fp then u else if len = 8 then set_fpr h (REG_PTR rd 7) w u else set_f32 h (REG_PTR rd 7) w u))"
    and w: "w = take_bit (8 * len) v" and mem: "umem u = umem t" "fpr u = fpr s"
    using load_handler_run [OF nf assms(3,5) st(4)] st(3) by metis
  show ?thesis
  proof (cases fp)
    case True
    then have "len = 8 \<or> len = 4" using decode_load_fp_len [OF assms(5)] by blast
    then show ?thesis using True ld st w mem
      by (auto simp: Let_def set_f32_def set_fpr_def take_bit_u32 take_bit_word_eq_self)
  next
    case False
    then show ?thesis using ld st mem by (auto simp: Let_def SET_RD_def set_gpr_def)
  qed
qed

text \<open>A halfword through \<^verbatim>\<open>sh x5\<close> and \<^verbatim>\<open>lh x6\<close> at an odd address.\<close>

theorem misaligned_store_load_witness:
  "\<exists>r1 t r2 u. sbi_misaligned_store_handler 0 0x1001 0 0x00501023 (set_gpr 5 0xfedc regs0) umem0 = Ret (0, r1) t
    \<and> sbi_misaligned_load_handler 0 0x1001 0 0x00001303 regs0 t = Ret (0, r2) u
    \<and> gpr r2 6 = 0xfffffffffffffedc \<and> mepc r2 = mepc regs0 + 4 \<and> fpr u = fpr umem0 \<and> umem u 0x1000 = 0"
proof -
  have st: "decode_store 0 (0x00501023 OR 3) (set_gpr 5 0xfedc regs0) umem0 = Some (2, 0xfedc)" by code_simp
  have ld: "decode_load (0x00001303 OR 3) = Some (2, 48, False, 0x1303)" by code_simp
  have nf: "\<forall>st a n. ufault umem0 0 st a n = None" and m: "umem umem0 0x1000 = 0"
    by (simp_all add: umem0_defs)
  have v: "loaded_value 2 48 0xfedc = 0xfffffffffffffedc" "REG_PTR 0x1303 7 = 6" "mis_advance 0x1303 = 4" by code_simp+
  have a: "(\<forall>j<2. (0x1000 :: ulong) \<noteq> 0x1001 + of_nat j)" by (simp add: less_2_cases_iff)
  from misaligned_store_load [OF nf _ _ st ld, where addr = "0x1001" and ?regs2.0 = regs0 and ?tv1.0 = 0 and ?tv2.0 = 0] a m v show ?thesis by (simp del: fun_upd_apply) fastforce
qed

text \<open>The two compressed stores to the stack are tested as if they had a destination register: with
  the bits of that field zero they are not emulated, though the field belongs to the offset.\<close>

lemma c_sdsp_refused: "decode_store h 0xe006 regs s = None" "decode_store h 0xc006 regs s = None"
  by (simp_all add: decode_store_def insn_is_def RV_X_def mask_eq_exp_minus_1)

end
