(* ===== verification/Sbi_Trap_Outcomes.thy ===== *)
theory Sbi_Trap_Outcomes
  imports Sbi_Trap_Handler Sbi_Misaligned_Access
begin

text \<open>
  What comes of an exception of supervisor or user mode that is not a call into the firmware: the
  instruction has been emulated, or the supervisor finds itself at its trap vector with the
  exception, or with the fault of a memory access that the firmware made on behalf of the program.
\<close>

section \<open>The outcomes\<close>

text \<open>A fault of an access on behalf of the program, and the same as the fault of a fetch.\<close>

definition access_fault :: "nat \<Rightarrow> 'a umem_state_scheme \<Rightarrow> sbi_trap_info \<Rightarrow> bool" where
  "access_fault h s t \<longleftrightarrow>
     (\<exists>st a n f. ufault s h st a n = Some f \<and> (t = f \<or> (\<exists>pc. t = fetch_fault pc f)))"

definition faults_have_cause :: "nat \<Rightarrow> 'a umem_state_scheme \<Rightarrow> bool" where
  "faults_have_cause h s \<longleftrightarrow> (\<forall>st a n f. ufault s h st a n = Some f \<longrightarrow> cause f \<noteq> 0)"

definition handed_on :: "nat \<Rightarrow> ulong \<Rightarrow> sbi_trap_regs \<Rightarrow> 'a umem_state_scheme \<Rightarrow> sbi_trap_regs
    \<Rightarrow> 'a umem_state_scheme \<Rightarrow> bool" where
  "handed_on h c regs s r t \<longleftrightarrow> (\<exists>trap u. epc trap = mepc regs
     \<and> (cause trap = c \<or> (\<exists>f. access_fault h s f \<and> trap = f\<lparr>epc := mepc regs\<rparr>))
     \<and> sbi_trap_redirect h regs trap u = (0, r, t))"

text \<open>A read of a counter or of the time: the value the register has for this program, in the
  destination of the instruction.\<close>

definition csr_emulated :: "nat \<Rightarrow> sbi_trap_regs \<Rightarrow> 'a umem_state_scheme \<Rightarrow> sbi_trap_regs \<Rightarrow> bool" where
  "csr_emulated h regs s r \<longleftrightarrow> (\<exists>insn v u. insn AND 0x7f = 0x73
     \<and> sbi_emulate_csr_read h (unat (drop_bit 20 (ucast insn :: u32))) regs
         (snd (sbi_pmu_ctr_incr_fw h SBI_PMU_FW_ILLEGAL_INSN s)) = Ret (0, v) u
     \<and> r = regs\<lparr>gpr := (gpr regs)(REG_PTR insn 7 := v), mepc := mepc regs + 4\<rparr>)"

text \<open>A load: the bytes in memory, none of which faults, in the destination.\<close>

definition load_emulated :: "nat \<Rightarrow> ulong \<Rightarrow> sbi_trap_regs \<Rightarrow> 'a umem_state_scheme \<Rightarrow> sbi_trap_regs
    \<Rightarrow> 'a umem_state_scheme \<Rightarrow> bool" where
  "load_emulated h addr regs s r t \<longleftrightarrow> (\<exists>insn len sh fp rd v l. decode_load insn = Some (len, sh, fp, rd)
     \<and> (\<forall>j<len. ufault s h False (addr + of_nat j) 1 = None \<and> umem s (addr + of_nat j) = ucast (drop_bit (8 * j) v))
     \<and> (l = 2 \<or> l = 4)
     \<and> r = regs\<lparr>gpr := if fp then gpr regs else (gpr regs)(REG_PTR rd 7 := loaded_value len sh v), mepc := mepc regs + l\<rparr>
     \<and> fpr t = (if fp then (fpr s)(h := (fpr s h)(REG_PTR rd 7 := 
                          if len = 8 then v else take_bit 32 v OR 0xffffffff00000000)) else fpr s)
     \<and> umem t = umem s)"

text \<open>A store: the bytes of the value in memory, and nothing else changed.\<close>

definition store_emulated :: "nat \<Rightarrow> ulong \<Rightarrow> sbi_trap_regs \<Rightarrow> 'a umem_state_scheme \<Rightarrow> sbi_trap_regs
    \<Rightarrow> 'a umem_state_scheme \<Rightarrow> bool" where
  "store_emulated h addr regs s r t \<longleftrightarrow> (\<exists>insn len v l. decode_store h insn regs s = Some (len, v)
     \<and> (\<forall>j<len. ufault s h True (addr + of_nat j) 1 = None \<and> umem t (addr + of_nat j) = ucast (drop_bit (8 * j) v))
     \<and> (\<forall>a. (\<forall>j<len. a \<noteq> addr + of_nat j) \<longrightarrow> umem t a = umem s a)
     \<and> (l = 2 \<or> l = 4) \<and> r = regs\<lparr>mepc := mepc regs + l\<rparr> \<and> fpr t = fpr s)"

section \<open>Accesses byte by byte\<close>

lemma load_bytes_done:
  assumes "mis_load_bytes h k i addr s = Inr w" "i + k \<le> 8" "faults_have_cause h s"
  shows "(\<forall>j. i \<le> j \<and> j < i + k \<longrightarrow> ufault s h False (addr + of_nat j) 1 = None
        \<and> umem s (addr + of_nat j) = ucast (drop_bit (8 * j) w))
    \<and> (\<forall>n. bit w n \<longrightarrow> 8 * i \<le> n \<and> n < 8 * (i + k))"
  using assms
proof (induction k arbitrary: i w)
  case (Suc k)
  obtain b t where b: "sbi_load_u8 h (addr + of_nat i) trap_info_zero s = (b, t)" by fastforce
  then obtain v where "cause t = 0" and v: "mis_load_bytes h k (i + 1) addr s = Inr v" "w = push_bit (8 * i) b OR v"
    using Suc.prems(1) by (auto split: if_splits sum.splits)
  then have nf: "ufault s h False (addr + of_nat i) 1 = None" and bm: "b = ucast (umem s (addr + of_nat i))"
    using b Suc.prems(3) by (auto simp: sbi_load_u8_def unpriv_load_def faults_have_cause_def split: option.splits)
  have IH: "\<And>j. i + 1 \<le> j \<Longrightarrow> j < i + 1 + k \<Longrightarrow> ufault s h False (addr + of_nat j) 1 = None
        \<and> umem s (addr + of_nat j) = ucast (drop_bit (8 * j) v)"
    "\<And>n. bit v n \<Longrightarrow> 8 * (i + 1) \<le> n \<and> n < 8 * (i + 1 + k)"
    using Suc.IH [OF v(1) _ Suc.prems(3)] Suc.prems(2) by auto
  have bb: "bit b n \<Longrightarrow> n < 8" for n using bit_imp_le_length [of "umem s (addr + of_nat i)" n] by (auto simp: bm bit_ucast_iff)
  have low: "(ucast (drop_bit (8 * i) w) :: u8) = umem s (addr + of_nat i)"
  proof (rule bit_word_eqI)
    fix n assume "n < LENGTH(8)"
    then have "\<not> bit v (8 * i + n)" using IH(2) [of "8 * i + n"] by auto
    then show "bit (ucast (drop_bit (8 * i) w) :: u8) n = bit (umem s (addr + of_nat i)) n"
      using \<open>n < LENGTH(8)\<close> Suc.prems(2)
      by (simp add: v(2) bit_ucast_iff bit_drop_bit_eq bit_or_iff bit_push_bit_iff possible_bit_word bm)
  qed
  have high: "(ucast (drop_bit (8 * j) w) :: u8) = ucast (drop_bit (8 * j) v)" if "i + 1 \<le> j" for j
  proof (rule bit_word_eqI)
    fix n
    have "\<not> bit b (8 * j + n - 8 * i)" using bb [of "8 * j + n - 8 * i"] that by auto
    then show "bit (ucast (drop_bit (8 * j) w) :: u8) n = bit (ucast (drop_bit (8 * j) v) :: u8) n"
      by (simp add: v(2) bit_ucast_iff bit_drop_bit_eq bit_or_iff bit_push_bit_iff)
  qed
  have "ufault s h False (addr + of_nat j) 1 = None \<and> umem s (addr + of_nat j) = ucast (drop_bit (8 * j) w)"
    if "i \<le> j" "j < i + Suc k" for j
    using nf low high [of j] IH(1) [of j] that by (cases "j = i") simp_all
  moreover have "8 * i \<le> n \<and> n < 8 * (i + Suc k)" if "bit w n" for n
  proof -
    have "bit v n \<or> 8 * i \<le> n \<and> bit b (n - 8 * i)" using that by (auto simp: v(2) bit_or_iff bit_push_bit_iff)
    then show ?thesis using IH(2) [of n] bb [of "n - 8 * i"] by auto
  qed
  ultimately show ?case by blast
qed auto

lemma load_bytes_fault:
  "mis_load_bytes h k i addr s = Inl t \<Longrightarrow> faults_have_cause h s \<Longrightarrow> access_fault h s t"
  by (induction k arbitrary: i)
    (auto simp: sbi_load_u8_def unpriv_load_def access_fault_def split: option.splits if_splits sum.splits)

lemma store_bytes_done:
  assumes "mis_store_bytes h k i addr v s = (None, t)" "i + k \<le> 8" "faults_have_cause h s"
  shows "(\<forall>j. i \<le> j \<and> j < i + k \<longrightarrow> ufault s h True (addr + of_nat j) 1 = None
        \<and> umem t (addr + of_nat j) = ucast (drop_bit (8 * j) v))
    \<and> (\<forall>a. (\<forall>j. i \<le> j \<and> j < i + k \<longrightarrow> a \<noteq> addr + of_nat j) \<longrightarrow> umem t a = umem s a) \<and> fpr t = fpr s"
  using assms
proof (induction k arbitrary: i s)
  case (Suc k)
  let ?s = "s\<lparr>umem := (umem s)(addr + of_nat i := ucast (drop_bit (8 * i) v))\<rparr>"
  have nf: "ufault s h True (addr + of_nat i) 1 = None" and run: "mis_store_bytes h k (i + 1) addr v ?s = (None, t)"
    using Suc.prems(1,3) by (auto simp: sbi_store_u8_def faults_have_cause_def split: option.splits if_splits)
  have IH: "\<And>j. i + 1 \<le> j \<Longrightarrow> j < i + 1 + k \<Longrightarrow> ufault s h True (addr + of_nat j) 1 = None
        \<and> umem t (addr + of_nat j) = ucast (drop_bit (8 * j) v)"
    "\<And>a. (\<And>j. i + 1 \<le> j \<Longrightarrow> j < i + 1 + k \<Longrightarrow> a \<noteq> addr + of_nat j) \<Longrightarrow> umem t a = umem ?s a" "fpr t = fpr s"
    using Suc.IH [OF run] Suc.prems(2,3) by (auto simp: faults_have_cause_def)
  have "umem t (addr + of_nat i) = ucast (drop_bit (8 * i) v)"
    using IH(2) [of "addr + of_nat i"] Suc.prems(2) access_inj [of i _ addr] by auto
  then have "ufault s h True (addr + of_nat j) 1 = None \<and> umem t (addr + of_nat j) = ucast (drop_bit (8 * j) v)"
    if "i \<le> j" "j < i + Suc k" for j
    using IH(1) [of j] nf that by (cases "j = i") simp_all
  moreover have "umem t a = umem s a" if "\<forall>j. i \<le> j \<and> j < i + Suc k \<longrightarrow> a \<noteq> addr + of_nat j" for a
    using IH(2) [of a] that by auto
  ultimately show ?case using IH(3) by blast
qed auto

lemma store_bytes_fault:
  "mis_store_bytes h k i addr v s = (Some f, t) \<Longrightarrow> access_fault h s f"
proof (induction k arbitrary: i s)
  case (Suc k)
  show ?case
  proof (cases "ufault s h True (addr + of_nat i) 1")
    case None
    let ?s = "s\<lparr>umem := (umem s)(addr + of_nat i := ucast (drop_bit (8 * i) v))\<rparr>"
    have "mis_store_bytes h k (i + 1) addr v ?s = (Some f, t)" using Suc.prems None by (simp add: sbi_store_u8_def)
    from Suc.IH [OF this] show ?thesis by (simp add: access_fault_def)
  next
    case (Some g)
    show ?thesis
    proof (cases "cause g = 0")
      case True
      then have "mis_store_bytes h k (i + 1) addr v s = (Some f, t)" using Suc.prems Some by (simp add: sbi_store_u8_def)
      then show ?thesis by (rule Suc.IH)
    next
      case False
      then have "g = f" using Suc.prems Some by (simp add: sbi_store_u8_def)
      then show ?thesis using Some unfolding access_fault_def by blast
    qed
  qed
qed simp

lemma access_fault_fetch: "ufault s h st a n = Some f \<Longrightarrow> access_fault h s (fetch_fault pc f)"
  unfolding access_fault_def by blast

lemma get_insn_fault:
  assumes "sbi_get_insn h pc trap_info_zero s = (insn, t)" "cause t \<noteq> 0"
  shows "access_fault h s t"
proof -
  have zero: "cause (fetch_fault pc u) = 0" if "cause u = 0" for u using that by (simp add: fetch_fault_def)
  show ?thesis
    using assms zero by (auto simp: sbi_get_insn_def Let_def unpriv_load_def intro: access_fault_fetch
        split: option.splits if_splits)
qed

section \<open>The handlers\<close>

lemma handed_onI:
  assumes "trap_prev_mode regs \<in> {PRV_S, PRV_U}" "epc trap = mepc regs"
    and "cause trap = c \<or> (\<exists>f. access_fault h s f \<and> trap = f\<lparr>epc := mepc regs\<rparr>)"
  shows "\<exists>r t. redirect_flow h regs trap u = Ret (0, r) t \<and> handed_on h c regs s r t"
proof -
  obtain r t where f: "redirect_flow h regs trap u = Ret (0, r) t"
    using redirect_answers [OF assms(1)] unfolding answers_def by blast
  then have "sbi_trap_redirect h regs trap u = (0, r, t)" by (simp add: redirect_flow_def split: prod.splits)
  then show ?thesis using f assms(2,3) unfolding handed_on_def by blast
qed

lemma access_fault_frame: "ufault t = ufault s \<Longrightarrow> access_fault h t f = access_fault h s f"
  by (simp add: access_fault_def)

lemma mis_insn_cases:
  assumes "\<And>t. access_fault h s t \<Longrightarrow> mis_insn h tin regs s = Inl (t\<lparr>epc := mepc regs\<rparr>) \<Longrightarrow> P"
    and "\<And>insn l. mis_insn h tin regs s = Inr (insn, l) \<Longrightarrow> l = 2 \<or> l = 4 \<Longrightarrow> P"
  shows P
proof (cases "tin AND 1 \<noteq> 0")
  case True
  then show P by (rule assms(2) [OF mis_insn_tinst]) (simp add: mis_advance_def)
next
  case False
  obtain insn t where i: "sbi_get_insn h (mepc regs) trap_info_zero s = (insn, t)" by fastforce
  show P
  proof (cases "cause t = 0")
    case True
    then show P using False i by (intro assms(2) [of insn "INSN_LEN insn"]) (simp_all add: mis_insn_def INSN_LEN_def)
  next
    case c: False
    then show P using False i by (intro assms(1) [OF get_insn_fault [OF i c]]) (simp add: mis_insn_def)
  qed
qed

lemma misaligned_load_outcome:
  assumes "trap_prev_mode regs \<in> {PRV_S, PRV_U}" "faults_have_cause h s"
  shows "\<exists>r t. sbi_misaligned_load_handler h addr tv2 tin regs s = Ret (0, r) t
    \<and> (load_emulated h addr regs s r t \<or> handed_on h CAUSE_MISALIGNED_LOAD regs s r t)"
proof -
  define u where "u = snd (sbi_pmu_ctr_incr_fw h SBI_PMU_FW_MISALIGNED_LOAD s)"
  have u: "umem u = umem s" "fpr u = fpr s" "ufault u = ufault s" by (simp_all add: u_def)
  have fu: "faults_have_cause h u" using assms(2) by (simp add: faults_have_cause_def u(3))
  note on = handed_onI [OF assms(1), where s = s and h = h and c = CAUSE_MISALIGNED_LOAD and u = u]
  note run = sbi_misaligned_load_handler_def [of h addr tv2 tin regs s, folded u_def, unfolded Let_def]
  show ?thesis
  proof (rule mis_insn_cases [of h u tin regs])
    fix t assume "access_fault h u t" "mis_insn h tin regs u = Inl (t\<lparr>epc := mepc regs\<rparr>)"
    then show ?thesis using on [of "t\<lparr>epc := mepc regs\<rparr>"] access_fault_frame [OF u(3)] unfolding run by auto
  next
    fix insn l assume i: "mis_insn h tin regs u = Inr (insn, l)" and l: "l = 2 \<or> l = (4 :: ulong)"
    show ?thesis
    proof (cases "decode_load insn")
      case None
      then show ?thesis
        using on [of "\<lparr>epc = mepc regs, cause = CAUSE_MISALIGNED_LOAD, tval = addr, tval2 = tv2, tinst = tin\<rparr>"] i
        unfolding run by auto
    next
      case (Some x)
      then obtain len sh fp rd where d: "decode_load insn = Some (len, sh, fp, rd)" by (cases x) auto
      show ?thesis
      proof (cases "mis_load_bytes h len 0 addr u")
        case (Inl t)
        then show ?thesis
          using on [of "t\<lparr>epc := mepc regs\<rparr>"] load_bytes_fault [OF Inl fu] access_fault_frame [OF u(3)] i d
          unfolding run by auto
      next
        case (Inr w)
        note sh = decode_load_shift [OF d]
        have w: "\<forall>j<len. ufault s h False (addr + of_nat j) 1 = None \<and> umem s (addr + of_nat j) = ucast (drop_bit (8 * j) w)"
          "\<forall>n. bit w n \<longrightarrow> n < 8 * len"
          using load_bytes_done [OF Inr _ fu] sh by (auto simp: u)
        have val: "signed_drop_bit sh (push_bit sh w) = loaded_value len sh w"
          by (rule loaded_value_shift) (use sh w(2) in auto)
        have "load_emulated h addr regs s
            (let regs' = (if fp then regs else SET_RD rd (loaded_value len sh w) regs) in regs'\<lparr>mepc := mepc regs' + l\<rparr>)
            (if \<not> fp then u else if len = 8 then set_fpr h (REG_PTR rd 7) w u else set_f32 h (REG_PTR rd 7) w u)"
          unfolding load_emulated_def
          by (rule exI [of _ insn], rule exI [of _ len], rule exI [of _ sh], rule exI [of _ fp], rule exI [of _ rd],
              rule exI [of _ w], rule exI [of _ l])
            (use d w(1) l in \<open>simp add: u Let_def SET_RD_def set_gpr_def set_fpr_def set_f32_def take_bit_u32\<close>)
        then show ?thesis unfolding run using i d Inr val by (auto simp: Let_def)
      qed
    qed
  qed
qed

lemma misaligned_store_outcome:
  assumes "trap_prev_mode regs \<in> {PRV_S, PRV_U}" "faults_have_cause h s"
  shows "\<exists>r t. sbi_misaligned_store_handler h addr tv2 tin regs s = Ret (0, r) t
    \<and> (store_emulated h addr regs s r t \<or> handed_on h CAUSE_MISALIGNED_STORE regs s r t)"
proof -
  define u where "u = snd (sbi_pmu_ctr_incr_fw h SBI_PMU_FW_MISALIGNED_STORE s)"
  have u: "umem u = umem s" "fpr u = fpr s" "ufault u = ufault s" by (simp_all add: u_def)
  have fu: "faults_have_cause h u" using assms(2) by (simp add: faults_have_cause_def u(3))
  note on = handed_onI [OF assms(1), where s = s and h = h and c = CAUSE_MISALIGNED_STORE]
  note run = sbi_misaligned_store_handler_def [of h addr tv2 tin regs s, folded u_def, unfolded Let_def]
  show ?thesis
  proof (rule mis_insn_cases [of h u tin regs])
    fix t assume "access_fault h u t" "mis_insn h tin regs u = Inl (t\<lparr>epc := mepc regs\<rparr>)"
    then show ?thesis using on [of "t\<lparr>epc := mepc regs\<rparr>" u] access_fault_frame [OF u(3)] unfolding run by auto
  next
    fix insn l assume i: "mis_insn h tin regs u = Inr (insn, l)" and l: "l = 2 \<or> l = (4 :: ulong)"
    show ?thesis
    proof (cases "decode_store h insn regs u")
      case None
      then show ?thesis
        using on [of "\<lparr>epc = mepc regs, cause = CAUSE_MISALIGNED_STORE, tval = addr, tval2 = tv2, tinst = tin\<rparr>" u] i
        unfolding run by auto
    next
      case (Some x)
      then obtain len v where d: "decode_store h insn regs u = Some (len, v)" by (cases x) auto
      then have d': "decode_store h insn regs s = Some (len, v)" using decode_store_frame [OF u(2)] by simp
      obtain f t where m: "mis_store_bytes h len 0 addr v u = (f, t)" by fastforce
      show ?thesis
      proof (cases f)
        case (Some g)
        then show ?thesis
          using on [of "g\<lparr>epc := mepc regs\<rparr>" t] store_bytes_fault [of h len 0 addr v u g t] access_fault_frame [OF u(3)] i d m
          unfolding run by auto
      next
        case None
        have "store_emulated h addr regs s (regs\<lparr>mepc := mepc regs + l\<rparr>) t"
          unfolding store_emulated_def
          by (rule exI [of _ insn], rule exI [of _ len], rule exI [of _ v], rule exI [of _ l])
            (use d' l store_bytes_done [OF m [unfolded None] _ fu] decode_store_len [OF d] in \<open>simp add: u\<close>)
        then show ?thesis unfolding run using i d m None by auto
      qed
    qed
  qed
qed

lemma truly_illegal_outcome:
  assumes "trap_prev_mode regs \<in> {PRV_S, PRV_U}"
  shows "\<exists>r t. truly_illegal_insn h insn regs u = Ret (0, r) t \<and> handed_on h CAUSE_ILLEGAL_INSTRUCTION regs s r t"
  unfolding truly_illegal_insn_def by (rule handed_onI [OF assms]) simp_all

lemma illegal_table_outcome:
  assumes "timer_wf s" "trap_prev_mode regs \<in> {PRV_S, PRV_U}" "insn AND 3 = 3"
    and "u = snd (sbi_pmu_ctr_incr_fw h SBI_PMU_FW_ILLEGAL_INSN s)"
  shows "\<exists>r t. illegal_insn_table h (unat (drop_bit 2 (insn AND 0x7c))) insn regs u = Ret (0, r) t
    \<and> (csr_emulated h regs s r \<or> handed_on h CAUSE_ILLEGAL_INSTRUCTION regs s r t)"
proof -
  have ill: "\<exists>r t. truly_illegal_insn h insn regs w = Ret (0, r) t
      \<and> (csr_emulated h regs s r \<or> handed_on h CAUSE_ILLEGAL_INSTRUCTION regs s r t)" for w
    using truly_illegal_outcome [OF assms(2), of h insn w s] by blast
  show ?thesis
  proof (cases "unat (drop_bit 2 (insn AND 0x7c)) = 28")
    case False
    then show ?thesis using ill by (simp add: illegal_insn_table_def)
  next
    case True
    have system: "insn AND 0x7f = 0x73"
    proof -
      define w where "w = insn AND push_bit 2 (mask 5)"
      have "drop_bit 2 w = 28" using True by (simp add: w_def word_unat_eq_iff mask_eq_exp_minus_1)
      moreover have "push_bit 2 (drop_bit 2 w) = w"
        by (rule bit_eqI) (auto simp: w_def bit_push_bit_iff bit_drop_bit_eq bit_and_iff bit_mask_iff possible_bit_word
            Suc_Suc_diff_2)
      moreover have "push_bit 2 28 = (0x70 :: ulong)" by simp
      ultimately have w: "w = 0x70" by metis
      have "(0x7f :: ulong) = push_bit 2 (mask 5) OR mask 2" by (simp add: mask_eq_exp_minus_1)
      moreover have "insn AND mask 2 = 3" using assms(3) by (simp add: mask_eq_exp_minus_1)
      ultimately have "insn AND 0x7f = w OR 3" by (simp only: w_def bit.conj_disj_distrib)
      then show ?thesis by (simp add: w)
    qed
    let ?c = "unat (drop_bit 20 (ucast insn :: u32))"
    have "timer_wf u"
      using assms(1,4) by (simp add: timer_wf_def sbi_pmu_ctr_incr_fw_def upd_fw_event_def)
    then obtain ret v w where read: "sbi_emulate_csr_read h ?c regs u = Ret (ret, v) w" by (rule emulate_csr_read_ret)
    have csr_done: "csr_emulated h regs s (let regs = SET_RD insn v regs in regs\<lparr>mepc := mepc regs + 4\<rparr>)" if "ret = 0"
      unfolding csr_emulated_def using system read that assms(4)
      by (intro exI [of _ insn] exI [of _ v] exI [of _ w]) (simp add: SET_RD_def set_gpr_def)
    show ?thesis
    proof (cases "ret = 0 \<and> csr_new_value insn regs v \<noteq> None")
      case False
      then show ?thesis using ill [of w] True read
        by (cases "csr_new_value insn regs v") (simp_all add: illegal_insn_table_def system_opcode_insn_def Let_def)
    next
      case ok: True
      then obtain nv wr where "csr_new_value insn regs v = Some (nv, wr)" by auto
      then show ?thesis
        using ill True read ok csr_done
        by (cases "wr \<and> fst (sbi_emulate_csr_write h ?c regs nv w) \<noteq> 0")
          (auto simp: illegal_insn_table_def system_opcode_insn_def Let_def split: prod.split)
    qed
  qed
qed

lemma illegal_insn_outcome:
  assumes "timer_wf s" "trap_prev_mode regs \<in> {PRV_S, PRV_U}"
  shows "\<exists>r t. sbi_illegal_insn_handler h insn tv2 tin regs s = Ret (0, r) t
    \<and> (csr_emulated h regs s r \<or> handed_on h CAUSE_ILLEGAL_INSTRUCTION regs s r t)"
proof -
  define u where "u = snd (sbi_pmu_ctr_incr_fw h SBI_PMU_FW_ILLEGAL_INSN s)"
  have fu: "ufault u = ufault s" by (simp add: u_def)
  note run = sbi_illegal_insn_handler_def [of h insn tv2 tin regs s, folded u_def, unfolded Let_def]
  note table = illegal_table_outcome [OF assms _ u_def]
  show ?thesis
  proof (cases "insn AND 3 = 3")
    case True
    then show ?thesis using table [OF True] unfolding run by simp
  next
    case False
    obtain i t where i: "sbi_get_insn h (mepc regs) trap_info_zero u = (i, t)" by fastforce
    consider "cause t \<noteq> 0" | "cause t = 0" "i AND 3 = 3" | "cause t = 0" "i AND 3 \<noteq> 3" by blast
    then show ?thesis
    proof cases
      case 1
      have "access_fault h s t" using get_insn_fault [OF i 1] access_fault_frame [OF fu] by simp
      then show ?thesis
        using handed_onI [OF assms(2), of "t\<lparr>epc := mepc regs\<rparr>" CAUSE_ILLEGAL_INSTRUCTION h s u] 1 False i
        unfolding run by auto
    next
      case 2
      then show ?thesis using table [OF 2(2)] False i unfolding run by simp
    next
      case 3
      then show ?thesis
        using truly_illegal_outcome [OF assms(2), of h i u s] False i unfolding run emulate_rvc_def by auto
    qed
  qed
qed

section \<open>Properties\<close>

text \<open>The exception as the hart reports it.\<close>

definition reported_trap :: "nat \<Rightarrow> sbi_trap_regs \<Rightarrow> 'a machine_scheme \<Rightarrow> sbi_trap_info" where
  "reported_trap h regs s =
     (let hyp = misa_extension h (CHR ''H'') s in
      \<lparr>epc = mepc regs, cause = csr s h CSR_MCAUSE, tval = csr s h CSR_MTVAL,
       tval2 = if hyp then csr s h CSR_MTVAL2 else 0, tinst = if hyp then csr s h CSR_MTINST else 0\<rparr>)"



end
