(* ===== verification/Sbi_Init.thy ===== *)
theory Sbi_Init
  imports Sbi_Ecall_Calls
begin

text \<open>
  The way of a hart into the library: \<^verbatim>\<open>lib/sbi/sbi_init.c\<close> and \<^verbatim>\<open>sbi_domain_finalize\<close> of
  \<^verbatim>\<open>lib/sbi/sbi_domain.c\<close>. One hart wins the lottery and initialises every component; the others
  wait until it is done. The locks of this file guard single updates and are left out; so is what
  the boot prints. How the steps of several harts interleave is the subject of \<open>Sbi_Boot\<close>.

  A \<open>boot_platform\<close> holds what the platform's init calls do to the library: the table of scratch
  areas, the counters and events it registers with the PMU, and the domains it registers. The
  devices a platform registers are in the state from the start. A hart that waits takes from a list
  what the other harts do meanwhile; with the list used up it is still waiting.
\<close>

record init_state = ecall_state +
  coldboot_wait_hmask :: sbi_hartmask
  coldboot_done :: ulong
  coldboot_lottery :: nat

record 's boot_platform =
  bp_hartid2scratch :: "nat \<Rightarrow> u32 \<Rightarrow> bool"
  bp_pmu_setup :: "pmu_setup_call list"
  bp_domains :: "'s \<Rightarrow> 's"

section \<open>Starting the domains\<close>

text \<open>The boot hart of every registered domain that may run it. The loop does not change the table
  of domains. The mask of possible harts is dereferenced without a test.\<close>

fun domain_boot_harts ::
  "nat \<Rightarrow> nat list \<Rightarrow> 'a hsm_state_scheme \<Rightarrow> (int, 'a hsm_state_scheme) flow" where
  "domain_boot_harts cold_hartid [] s = Ret 0 s"
| "domain_boot_harts cold_hartid (d # ds) s =
     (let dm = doms s d; dhart = unat (boot_hartid dm) in
      if SBI_HARTMASK_MAX_BITS \<le> dhart then domain_boot_harts cold_hartid ds s
      else case dom_possible dm s of
        None \<Rightarrow> Undef s
      | Some possible \<Rightarrow>
          if \<not> sbi_hartmask_test_hart dhart possible then domain_boot_harts cold_hartid ds s
          else if hartid_to_domain s dhart \<noteq> Some d
            \<or> \<not> sbi_hartmask_test_hart dhart (assigned_harts dm) then domain_boot_harts cold_hartid ds s
          else if dhart = cold_hartid then
            domain_boot_harts cold_hartid ds
              (set_next cold_hartid (dom_next_arg1 dm) (dom_next_addr dm) (dom_next_mode dm) s)
          else
            (case sbi_hsm_hart_start cold_hartid None (boot_hartid dm) (dom_next_addr dm)
                    (dom_next_mode dm) (dom_next_arg1 dm) s of (rc, s) \<Rightarrow>
               if rc \<noteq> 0 then Ret rc s else domain_boot_harts cold_hartid ds s))"

definition sbi_domain_finalize ::
  "('a hsm_state_scheme \<Rightarrow> 'a hsm_state_scheme) \<Rightarrow> nat \<Rightarrow> 'a hsm_state_scheme
     \<Rightarrow> (int, 'a hsm_state_scheme) flow" where
  "sbi_domain_finalize populate cold_hartid s =
     (case sbi_platform_domains_init cold_hartid s of (rc, s) \<Rightarrow>
        (let s = (if op_domains_init (plat_ops (platform s)) = None then s else populate s) in
         if rc \<noteq> 0 then Ret rc s
         else flow_bind (domain_boot_harts cold_hartid (sbi_domain_for_each s) s) (\<lambda>rc s.
           if rc \<noteq> 0 then Ret rc s else Ret 0 (s\<lparr>domain_finalized := True\<rparr>))))"

section \<open>Waiting for the boot hart\<close>

text \<open>\<open>inner\<close> says that the hart is in the inner loop, which it leaves with a pending software
  interrupt only; the flag is read in between.\<close>

fun coldboot_wait ::
  "('a init_state_scheme \<Rightarrow> 'a init_state_scheme) list \<Rightarrow> nat \<Rightarrow> bool \<Rightarrow> 'a init_state_scheme
     \<Rightarrow> (('a init_state_scheme \<Rightarrow> 'a init_state_scheme) list, 'a init_state_scheme) flow" where
  "coldboot_wait others h inner s =
     (if \<not> inner \<and> coldboot_done s \<noteq> 0 then Ret others s
      else case others of
        [] \<Rightarrow> Hang (emit (Ev_wfi h) s)
      | f # fs \<Rightarrow>
          (let s = f (emit (Ev_wfi h) s)
           in coldboot_wait fs h (csr_read h CSR_MIP s AND MIP_MSIP = 0) s))"

definition coldboot_mark :: "nat \<Rightarrow> 'a init_state_scheme \<Rightarrow> 'a init_state_scheme" where
  "coldboot_mark h s = s\<lparr>coldboot_wait_hmask := sbi_hartmask_set_hart h (coldboot_wait_hmask s)\<rparr>"

definition coldboot_unmark :: "nat \<Rightarrow> 'a init_state_scheme \<Rightarrow> 'a init_state_scheme" where
  "coldboot_unmark h s = s\<lparr>coldboot_wait_hmask := sbi_hartmask_clear_hart h (coldboot_wait_hmask s)\<rparr>"

definition wait_for_coldboot ::
  "('a init_state_scheme \<Rightarrow> 'a init_state_scheme) list \<Rightarrow> nat \<Rightarrow> 'a init_state_scheme
     \<Rightarrow> (('a init_state_scheme \<Rightarrow> 'a init_state_scheme) list, 'a init_state_scheme) flow" where
  "wait_for_coldboot others h s =
     (let saved_mie = csr_read h CSR_MIE s
      in flow_bind (coldboot_wait others h False (coldboot_mark h (csr_set h CSR_MIE MIP_MSIP s)))
           (\<lambda>others s. Ret others (csr_write h CSR_MIE saved_mie (coldboot_unmark h s))))"

definition wake_hart :: "nat \<Rightarrow> 'a init_state_scheme \<Rightarrow> nat \<Rightarrow> 'a init_state_scheme" where
  "wake_hart h s i =
     (if i \<noteq> h \<and> sbi_hartmask_test_hart i (coldboot_wait_hmask s)
      then sbi_ipi_raw_send h (of_nat i) s else s)"

definition wake_coldboot_harts :: "nat \<Rightarrow> 'a init_state_scheme \<Rightarrow> 'a init_state_scheme" where
  "wake_coldboot_harts h s = foldl (wake_hart h) (s\<lparr>coldboot_done := 1\<rparr>) [0..<last_hartid s + 1]"

section \<open>The cold boot\<close>

text \<open>Every step of the sequence either succeeds or ends the boot.\<close>

definition or_hang :: "(int, 's) flow \<Rightarrow> ('s \<Rightarrow> (unit, 's) flow) \<Rightarrow> (unit, 's) flow" where
  "or_hang m k = flow_bind m (\<lambda>rc s. if rc \<noteq> 0 then Hang s else k s)"

definition ret_of :: "int \<times> 's \<Rightarrow> (int, 's) flow" where
  "ret_of r = Ret (fst r) (snd r)"

text \<open>Without the quiet option the boot hart must tell its register width.\<close>

definition sbi_boot_print_hart :: "nat \<Rightarrow> 'a machine_scheme \<Rightarrow> (unit, 'a machine_scheme) flow" where
  "sbi_boot_print_hart h s =
     (if options (scratch s h) AND 1 \<noteq> 0 then Ret () s
      else if misa_xlen h s < 1 then Hang s else Ret () s)"

definition init_count_alloc :: "'a hsm_state_scheme \<Rightarrow> int \<times> 'a hsm_state_scheme" where
  "init_count_alloc s =
     (let (off, s) = sbi_scratch_alloc_offset 8 s;
          s = s\<lparr>init_count_offset := off\<rparr>
      in if off = 0 then (SBI_ENOMEM, s)
         else (0, s\<lparr>init_count := (\<lambda>i. if scratch_tab s i then 0 else init_count s i)\<rparr>))"

definition init_count_incr :: "nat \<Rightarrow> 'a hsm_state_scheme \<Rightarrow> 'a hsm_state_scheme" where
  "init_count_incr h s = s\<lparr>init_count := (init_count s)(h := init_count s h + 1)\<rparr>"

text \<open>The end of both boots: into the next stage with the arguments of the scratch area.\<close>

definition enter_next_stage :: "nat \<Rightarrow> 'a machine_scheme \<Rightarrow> (unit, 'a machine_scheme) flow" where
  "enter_next_stage h s =
     sbi_hart_switch_mode h (of_nat h) (next_arg1 (scratch s h)) (next_addr (scratch s h))
       (next_mode (scratch s h)) False s"

definition coldboot_library ::
  "'a init_state_scheme boot_platform \<Rightarrow> nat \<Rightarrow> 'a init_state_scheme
     \<Rightarrow> ('a init_state_scheme \<Rightarrow> (unit, 'a init_state_scheme) flow) \<Rightarrow> (unit, 'a init_state_scheme) flow"
where
  "coldboot_library bp h s k =
     or_hang (ret_of (sbi_scratch_init (bp_hartid2scratch bp) s)) (\<lambda>s.
     or_hang (ret_of (sbi_domain_init h s)) (\<lambda>s.
     or_hang (ret_of (init_count_alloc s)) (\<lambda>s.
     or_hang (sbi_hsm_init [] h True s) (\<lambda>s.
     or_hang (ret_of (sbi_platform_early_init h True s)) (\<lambda>s.
     or_hang (ret_of (sbi_hart_init h True s)) (\<lambda>s.
     or_hang (ret_of (sbi_console_init h s)) (\<lambda>s.
     or_hang (sbi_pmu_init (bp_pmu_setup bp) h True s) (\<lambda>s.
     or_hang (ret_of (sbi_platform_irqchip_init h True s)) (\<lambda>s.
     or_hang (ret_of (sbi_ipi_init h True s)) (\<lambda>s.
     or_hang (ret_of (sbi_tlb_init h True s)) (\<lambda>s.
     or_hang (ret_of (sbi_timer_init h True s)) (\<lambda>s.
     or_hang (ret_of (sbi_ecall_init s)) k))))))))))))"

definition init_coldboot ::
  "'a init_state_scheme boot_platform \<Rightarrow> nat \<Rightarrow> 'a init_state_scheme \<Rightarrow> (unit, 'a init_state_scheme) flow"
where
  "init_coldboot bp h s =
     coldboot_library bp h s (\<lambda>s.
     or_hang (sbi_domain_finalize (bp_domains bp) h s) (\<lambda>s.
     or_hang (sbi_hart_pmp_configure h s) (\<lambda>s.
     or_hang (ret_of (sbi_platform_final_init h True s)) (\<lambda>s.
     flow_bind (sbi_boot_print_hart h s) (\<lambda>_ s.
     flow_bind (sbi_hsm_prepare_next_jump h (init_count_incr h (wake_coldboot_harts h s))) (\<lambda>_ s.
     enter_next_stage h s))))))"

section \<open>The warm boot\<close>

definition init_warm_startup ::
  "('a init_state_scheme \<Rightarrow> 'a init_state_scheme) list \<Rightarrow> nat \<Rightarrow> 'a init_state_scheme
     \<Rightarrow> (unit, 'a init_state_scheme) flow" where
  "init_warm_startup others h s =
     (if init_count_offset s = 0 then Hang s
      else
     or_hang (sbi_hsm_init others h False s) (\<lambda>s.
     or_hang (ret_of (sbi_platform_early_init h False s)) (\<lambda>s.
     or_hang (ret_of (sbi_hart_init h False s)) (\<lambda>s.
     or_hang (sbi_pmu_init [] h False s) (\<lambda>s.
     or_hang (ret_of (sbi_platform_irqchip_init h False s)) (\<lambda>s.
     or_hang (ret_of (sbi_ipi_init h False s)) (\<lambda>s.
     or_hang (ret_of (sbi_tlb_init h False s)) (\<lambda>s.
     or_hang (ret_of (sbi_timer_init h False s)) (\<lambda>s.
     or_hang (sbi_hart_pmp_configure h s) (\<lambda>s.
     or_hang (ret_of (sbi_platform_final_init h False s)) (\<lambda>s.
     sbi_hsm_prepare_next_jump h (init_count_incr h s))))))))))))"

definition init_warm_resume :: "nat \<Rightarrow> 'a hsm_state_scheme \<Rightarrow> (unit, 'a hsm_state_scheme) flow" where
  "init_warm_resume h s =
     flow_bind (sbi_hsm_hart_resume_start h s) (\<lambda>_ s.
     or_hang (ret_of (sbi_hart_reinit h s)) (\<lambda>s.
     or_hang (sbi_hart_pmp_configure h s) (\<lambda>s.
     sbi_hsm_hart_resume_finish h s)))"

definition init_warmboot ::
  "('a init_state_scheme \<Rightarrow> 'a init_state_scheme) list \<Rightarrow> nat \<Rightarrow> 'a init_state_scheme
     \<Rightarrow> (unit, 'a init_state_scheme) flow" where
  "init_warmboot others h s =
     flow_bind (wait_for_coldboot others h s) (\<lambda>others s.
       let hst = sbi_hsm_hart_get_state (sbi_domain_thishart h s) (of_nat h) s in
       if hst < 0 then Hang s
       else flow_bind (if hst = SBI_HSM_STATE_SUSPENDED then init_warm_resume h s
                       else init_warm_startup others h s) (\<lambda>_ s.
         enter_next_stage h s))"

section \<open>The entry of every hart\<close>

text \<open>Whether the hart supports the mode of the next stage; no answer for a mode that does not
  exist.\<close>

definition next_mode_supported :: "nat \<Rightarrow> 'a machine_scheme \<Rightarrow> bool option" where
  "next_mode_supported h s =
     (let m = next_mode (scratch s h) in
      if m = PRV_M then Some True
      else if m = PRV_S then Some (misa_extension h CHR ''S'' s)
      else if m = PRV_U then Some (misa_extension h CHR ''U'' s)
      else None)"

definition draw_lottery :: "'a init_state_scheme \<Rightarrow> bool \<times> 'a init_state_scheme" where
  "draw_lottery s = (coldboot_lottery s = 0, s\<lparr>coldboot_lottery := 1\<rparr>)"

definition sbi_init ::
  "'a init_state_scheme boot_platform \<Rightarrow> ('a init_state_scheme \<Rightarrow> 'a init_state_scheme) list \<Rightarrow> nat
     \<Rightarrow> 'a init_state_scheme \<Rightarrow> (unit, 'a init_state_scheme) flow" where
  "sbi_init bp others h s =
     (if SBI_HARTMASK_MAX_BITS \<le> h \<or> sbi_platform_hart_invalid (Some (platform s)) (of_nat h) then Hang s
      else case next_mode_supported h s of
        None \<Rightarrow> Hang s
      | Some supported \<Rightarrow>
          (case (if supported then draw_lottery s else (False, s)) of (coldboot, s) \<Rightarrow>
             if coldboot then init_coldboot bp h s else init_warmboot others h s))"

section \<open>Where the boot ends\<close>

text \<open>A computation that comes back or hangs, and one that never comes back and ends in the next
  stage with a property.\<close>

fun stays :: "('a, 's) flow \<Rightarrow> bool" where
  "stays (Gone s) = False"
| "stays (Warmboot s) = False"
| "stays _ = True"

fun enters_with :: "('s \<Rightarrow> bool) \<Rightarrow> ('a, 's) flow \<Rightarrow> bool" where
  "enters_with P (Ret a s) = False"
| "enters_with P (Warmboot s) = False"
| "enters_with P (Gone s) = P s"
| "enters_with P _ = True"

lemma enters_bind:
  assumes "stays m" "\<And>a s. m = Ret a s \<Longrightarrow> enters_with P (f a s)"
  shows "enters_with P (flow_bind m f)"
  using assms by (cases m) simp_all

lemma enters_or_hang:
  assumes "stays m" "\<And>s. enters_with P (k s)"
  shows "enters_with P (or_hang m k)"
  unfolding or_hang_def using assms by (intro enters_bind) simp_all

lemma stays_bind: "stays m \<Longrightarrow> (\<And>a s. stays (f a s)) \<Longrightarrow> stays (flow_bind m f)"
  by (cases m) simp_all

lemma stays_or_hang: "stays m \<Longrightarrow> (\<And>s. stays (k s)) \<Longrightarrow> stays (or_hang m k)"
  unfolding or_hang_def by (rule stays_bind) simp_all

lemma stays_ret_of: "stays (ret_of r)"
  by (simp add: ret_of_def)

lemma stays_domain_boot_harts: "stays (domain_boot_harts h ds s)"
  by (induction ds arbitrary: s) (auto simp: Let_def split: option.split prod.split)

lemma stays_finalize: "stays (sbi_domain_finalize populate h s)"
  unfolding sbi_domain_finalize_def Let_def
  by (auto simp: stays_domain_boot_harts intro!: stays_bind split: prod.split)

lemma stays_hsm_wait_loop: "stays (hsm_wait_loop others h s)"
  by (induction others h s rule: hsm_wait_loop.induct) (simp split: list.split)

lemma stays_hsm_init: "stays (sbi_hsm_init others h cold s)"
  unfolding sbi_hsm_init_def sbi_hsm_hart_wait_def Let_def
  by (auto simp del: hsm_wait_loop.simps intro!: stays_bind stays_hsm_wait_loop split: prod.split)

lemma stays_pmu_init: "stays (sbi_pmu_init setup h cold s)"
  unfolding sbi_pmu_init_def pmu_reset_event_map_def Let_def by (auto intro!: stays_bind)

lemma stays_csr_num: "stays (csr_read_num h n s)" "stays (csr_write_num h n v s)"
  unfolding csr_read_num_def csr_write_num_def by auto

lemma stays_pmp_set: "stays (pmp_set h n prot addr len s)"
  unfolding pmp_set_def Let_def by (auto intro!: stays_bind stays_csr_num)

lemma stays_pmp_regions: "stays (pmp_configure_regions h regs idx s)"
  by (induction regs arbitrary: idx s) (auto intro!: stays_bind stays_pmp_set)

lemma stays_pmp_configure: "stays (sbi_hart_pmp_configure h s)"
  unfolding sbi_hart_pmp_configure_def by (auto simp: stays_pmp_regions split: option.split)

lemma stays_coldboot_wait: "stays (coldboot_wait others h inner s)"
  by (induction others h inner s rule: coldboot_wait.induct) (simp add: Let_def split: list.split)

lemma stays_small:
  "stays (sbi_boot_print_hart h s)" "stays (sbi_hsm_prepare_next_jump h t)"
  "stays (sbi_hsm_hart_resume_start h t)" "stays (sbi_hsm_hart_resume_finish h t)"
  "stays (wait_for_coldboot others h u)"
  by (auto simp: sbi_boot_print_hart_def sbi_hsm_prepare_next_jump_def sbi_hsm_hart_resume_start_def
      sbi_hsm_hart_resume_finish_def wait_for_coldboot_def Let_def
      simp del: coldboot_wait.simps intro!: stays_bind stays_coldboot_wait split: prod.split)

lemmas stays_rules = stays_ret_of stays_finalize stays_hsm_init stays_pmu_init stays_pmp_configure
  stays_small

lemma stays_warm_startup: "stays (init_warm_startup others h s)"
  unfolding init_warm_startup_def by (auto intro!: stays_or_hang stays_rules)

lemma stays_warm_resume: "stays (init_warm_resume h s)"
  unfolding init_warm_resume_def by (intro stays_bind stays_or_hang stays_rules)

definition left_started :: "nat \<Rightarrow> 'a hsm_state_scheme \<Rightarrow> bool" where
  "left_started h t \<longleftrightarrow> hstate (hsm_data t h) = SBI_HSM_STATE_STARTED
     \<and> trace t \<noteq> [] \<and> last (trace t) = Ev_mret h (of_nat h) (next_arg1 (scratch t h))"

lemma enter_next_stage_started:
  assumes "hstate (hsm_data s h) = SBI_HSM_STATE_STARTED"
  shows "enters_with (left_started h) (enter_next_stage h s)"
  using assms
  by (simp add: enter_next_stage_def sbi_hart_switch_mode_def left_started_def Let_def emit_def csr_write_def)

lemma jump_started:
  "sbi_hsm_prepare_next_jump h s = Ret u t \<Longrightarrow> hstate (hsm_data t h) = SBI_HSM_STATE_STARTED"
  by (auto simp: sbi_hsm_prepare_next_jump_def hstate_cmpxchg_def set_hstate_def Let_def split: if_splits)

lemma resume_finish_started:
  "sbi_hsm_hart_resume_finish h s = Ret u t \<Longrightarrow> hstate (hsm_data t h) = SBI_HSM_STATE_STARTED"
  by (auto simp: sbi_hsm_hart_resume_finish_def hstate_cmpxchg_def set_hstate_def Let_def
      hsm_suspend_non_ret_restore_def csr_write_def split: if_splits)

lemma or_hang_Ret: "or_hang m k = Ret u t \<longleftrightarrow> (\<exists>s. m = Ret 0 s \<and> k s = Ret u t)"
  unfolding or_hang_def by (cases m) auto

lemma warm_startup_started:
  "init_warm_startup others h s = Ret u t \<Longrightarrow> hstate (hsm_data t h) = SBI_HSM_STATE_STARTED"
  unfolding init_warm_startup_def by (auto simp: or_hang_Ret jump_started split: if_splits)

lemma warm_resume_started:
  "init_warm_resume h s = Ret u t \<Longrightarrow> hstate (hsm_data t h) = SBI_HSM_STATE_STARTED"
  unfolding init_warm_resume_def by (auto simp: or_hang_Ret flow_bind_Ret_iff resume_finish_started)

lemma coldboot_enters: "enters_with (left_started h) (init_coldboot bp h s)"
  unfolding init_coldboot_def coldboot_library_def
  by (intro enters_or_hang enters_bind stays_rules enter_next_stage_started) (rule jump_started)

lemma warmboot_enters: "enters_with (left_started h) (init_warmboot others h s)"
  unfolding init_warmboot_def Let_def
  by (auto intro!: enters_bind stays_rules stays_warm_startup stays_warm_resume enter_next_stage_started
      dest: warm_startup_started warm_resume_started)

text \<open>C37. A hart never comes back from \<^verbatim>\<open>sbi_init\<close>, neither on the cold nor on the warm path nor on a
  resume: it hangs, or it enters the next stage, and then its state word says STARTED and the last
  thing it did is the jump with its own id and the argument of its scratch area.\<close>

theorem init_enters_started:
  "case sbi_init bp others h s of
     Gone t \<Rightarrow> hstate (hsm_data t h) = SBI_HSM_STATE_STARTED
       \<and> trace t \<noteq> [] \<and> last (trace t) = Ev_mret h (of_nat h) (next_arg1 (scratch t h))
   | Hang t \<Rightarrow> True | Undef t \<Rightarrow> True | _ \<Rightarrow> False"
proof -
  have "enters_with (left_started h) (sbi_init bp others h s)"
    unfolding sbi_init_def
    by (auto simp: coldboot_enters warmboot_enters split: option.split prod.split)
  then show ?thesis by (cases "sbi_init bp others h s") (simp_all add: left_started_def)
qed

section \<open>The boot harts of the domains\<close>

text \<open>A domain whose boot hart the loop starts, and what has been done for it.\<close>

definition bootable :: "'a domain_state_scheme \<Rightarrow> nat \<Rightarrow> bool" where
  "bootable s d \<longleftrightarrow>
     (let b = unat (boot_hartid (doms s d)) in
      b < SBI_HARTMASK_MAX_BITS \<and> hartid_to_domain s b = Some d \<and> b \<in> hm_set (assigned_harts (doms s d))
      \<and> (\<exists>m. dom_possible (doms s d) s = Some m \<and> b \<in> hm_set m))"

definition boot_prepared :: "nat \<Rightarrow> 'a hsm_state_scheme \<Rightarrow> nat \<Rightarrow> bool" where
  "boot_prepared c s d \<longleftrightarrow>
     (let dm = doms s d; b = unat (boot_hartid dm) in
      next_addr (scratch s b) = dom_next_addr dm \<and> next_mode (scratch s b) = dom_next_mode dm
      \<and> next_arg1 (scratch s b) = dom_next_arg1 dm
      \<and> (b \<noteq> c \<longrightarrow> hst b s = SBI_HSM_STATE_START_PENDING \<and> dom_next_mode dm \<in> {PRV_S, PRV_U}))"

lemma hart_start_run:
  assumes "sbi_hsm_hart_start c None w addr m arg s = (0, t)"
  shows "hst (unat w) s = SBI_HSM_STATE_STOPPED \<and> m \<in> {PRV_S, PRV_U}
    \<and> (\<exists>tr. t = set_next (unat w) arg addr m (set_hstate (unat w) SBI_HSM_STATE_START_PENDING s)\<lparr>trace := tr\<rparr>)"
proof -
  let ?s1 = "set_next (unat w) arg addr m (set_hstate (unat w) SBI_HSM_STATE_START_PENDING s)"
  have emit: "emit e u = u\<lparr>trace := trace u @ [e]\<rparr>" for e and u :: "'a hsm_state_scheme"
    by (simp add: emit_def)
  have same: "u = u\<lparr>trace := trace u\<rparr>" for u :: "'a hsm_state_scheme" by simp
  have "hart_start_publish c w addr m arg (set_hstate (unat w) SBI_HSM_STATE_START_PENDING s) = (0, t)"
    and st: "hst (unat w) s = SBI_HSM_STATE_STOPPED" "m \<in> {PRV_S, PRV_U}"
    using assms
    by (auto simp: sbi_hsm_hart_start_def hart_start_claim_def hstate_cmpxchg_def Let_def
        split: if_splits)
  then have "\<exists>tr. t = ?s1\<lparr>trace := tr\<rparr>"
    unfolding hart_start_publish_def hsm_device_hart_start_def sbi_ipi_raw_send_def Let_def
    by (auto simp: emit intro: same split: if_splits option.splits)
  then show ?thesis using st by blast
qed

lemma boot_prepared_trace: "boot_prepared c (t\<lparr>trace := tr\<rparr>) d = boot_prepared c t d"
  by (simp add: boot_prepared_def)

lemma boot_prepared_keeps:
  assumes "bootable s d" "boot_prepared c s d" "bootable s d'" "d \<noteq> d'"
    and "t = set_next b arg addr m u" "u = s \<or> u = set_hstate b x s" "b = unat (boot_hartid (doms s d'))"
  shows "boot_prepared c t d"
proof -
  have "unat (boot_hartid (doms s d)) \<noteq> b"
    using assms(1,3,4,7) by (auto simp: bootable_def Let_def)
  then show ?thesis
    using assms(2,5,6) by (auto simp: boot_prepared_def Let_def set_next_def set_hstate_def)
qed

definition same_domains :: "'a domain_state_scheme \<Rightarrow> 'a domain_state_scheme \<Rightarrow> bool" where
  "same_domains s t \<longleftrightarrow> doms t = doms s \<and> hartid_to_domain t = hartid_to_domain s
     \<and> root_hmask t = root_hmask s \<and> domidx_to_domain t = domidx_to_domain s"

lemma same_domains_trans: "same_domains s t \<Longrightarrow> same_domains t u \<Longrightarrow> same_domains s u"
  by (simp add: same_domains_def)

lemma same_domains_bootable: "same_domains s t \<Longrightarrow> bootable t d \<longleftrightarrow> bootable s d"
  by (auto simp: same_domains_def bootable_def Let_def split: harts_ptr.splits)

lemma same_domains_step:
  "same_domains s (set_next b arg addr m s)"
  "same_domains s (set_next b arg addr m (set_hstate b x s)\<lparr>trace := tr\<rparr>)"
  by (simp_all add: same_domains_def set_next_def set_hstate_def)

text \<open>One round of the loop.\<close>

lemma boot_harts_skip:
  assumes "\<not> bootable s d" "domain_boot_harts c (d # ds) s = Ret 0 t"
  shows "domain_boot_harts c ds s = Ret 0 t"
  using assms by (auto simp: bootable_def Let_def not_less split: if_splits option.splits)

lemma boot_harts_self:
  assumes "bootable s d" "unat (boot_hartid (doms s d)) = c"
  shows "domain_boot_harts c (d # ds) s = domain_boot_harts c ds
    (set_next c (dom_next_arg1 (doms s d)) (dom_next_addr (doms s d)) (dom_next_mode (doms s d)) s)"
  using assms by (auto simp: bootable_def Let_def not_less)

lemma boot_harts_other:
  assumes "bootable s d" "unat (boot_hartid (doms s d)) \<noteq> c" "domain_boot_harts c (d # ds) s = Ret 0 t"
  shows "\<exists>u. sbi_hsm_hart_start c None (boot_hartid (doms s d)) (dom_next_addr (doms s d))
      (dom_next_mode (doms s d)) (dom_next_arg1 (doms s d)) s = (0, u) \<and> domain_boot_harts c ds u = Ret 0 t"
  using assms by (auto simp: bootable_def Let_def not_less split: if_splits prod.splits)

lemma boot_harts_run:
  assumes "domain_boot_harts c ds s = Ret 0 t"
  shows "same_domains s t \<and> (\<forall>d. bootable s d \<and> (d \<in> set ds \<or> boot_prepared c s d) \<longrightarrow> boot_prepared c t d)"
  using assms
proof (induction ds arbitrary: s)
  case Nil
  then show ?case by (simp add: same_domains_def)
next
  case (Cons d ds)
  have step: ?case
    if run: "domain_boot_harts c ds u = Ret 0 t" and same: "same_domains s u" and new: "boot_prepared c u d"
      and old: "\<And>d'. bootable s d' \<Longrightarrow> d' \<noteq> d \<Longrightarrow> boot_prepared c s d' \<Longrightarrow> boot_prepared c u d'" for u
    using Cons.IH [OF run] same_domains_bootable [OF same] same_domains_trans [OF same] new old by auto
  show ?case
  proof (cases "bootable s d")
    case False
    then show ?thesis using Cons.IH [OF boot_harts_skip [OF False Cons.prems]] by auto
  next
    case boot: True
    let ?dm = "doms s d"
    show ?thesis
    proof (cases "unat (boot_hartid ?dm) = c")
      case True
      let ?u = "set_next c (dom_next_arg1 ?dm) (dom_next_addr ?dm) (dom_next_mode ?dm) s"
      show ?thesis
      proof (rule step)
        show "domain_boot_harts c ds ?u = Ret 0 t" using Cons.prems boot_harts_self [OF boot True] by simp
        show "same_domains s ?u" by (rule same_domains_step)
        show "boot_prepared c ?u d" using True by (simp add: boot_prepared_def set_next_def)
        show "boot_prepared c ?u d'" if "bootable s d'" "d' \<noteq> d" "boot_prepared c s d'" for d'
          using boot_prepared_keeps [OF that(1,3) boot that(2) refl, where u = s] True by simp
      qed
    next
      case False
      obtain u where start: "sbi_hsm_hart_start c None (boot_hartid ?dm) (dom_next_addr ?dm)
          (dom_next_mode ?dm) (dom_next_arg1 ?dm) s = (0, u)" and run: "domain_boot_harts c ds u = Ret 0 t"
        using boot_harts_other [OF boot False Cons.prems] by blast
      obtain tr where u: "u = set_next (unat (boot_hartid ?dm)) (dom_next_arg1 ?dm) (dom_next_addr ?dm)
          (dom_next_mode ?dm) (set_hstate (unat (boot_hartid ?dm)) SBI_HSM_STATE_START_PENDING s)\<lparr>trace := tr\<rparr>"
        and m: "dom_next_mode ?dm \<in> {PRV_S, PRV_U}"
        using hart_start_run [OF start] by blast
      show ?thesis
      proof (rule step [OF run])
        show "same_domains s u" unfolding u by (rule same_domains_step)
        show "boot_prepared c u d" using m False unfolding u
          by (auto simp: boot_prepared_def set_next_def set_hstate_def)
        show "boot_prepared c u d'" if "bootable s d'" "d' \<noteq> d" "boot_prepared c s d'" for d'
          unfolding u boot_prepared_trace by (rule boot_prepared_keeps [OF that(1,3) boot that(2) refl]) auto
      qed
    qed
  qed
qed

lemma finalize_run:
  assumes "sbi_domain_finalize populate c s = Ret 0 t"
  shows "\<exists>u v. domain_boot_harts c (sbi_domain_for_each u) u = Ret 0 v \<and> t = v\<lparr>domain_finalized := True\<rparr>"
proof -
  obtain rc u where "sbi_platform_domains_init c s = (rc, u)" by (rule prod.exhaust)
  then have "rc = 0" and "\<exists>w. flow_bind (domain_boot_harts c (sbi_domain_for_each w) w)
      (\<lambda>rc s. if rc \<noteq> 0 then Ret rc s else Ret 0 (s\<lparr>domain_finalized := True\<rparr>)) = Ret 0 t"
    using assms unfolding sbi_domain_finalize_def Let_def by (auto split: if_splits)
  then obtain w rc' v where "domain_boot_harts c (sbi_domain_for_each w) w = Ret rc' v"
    "(if rc' \<noteq> 0 then Ret rc' v else Ret 0 (v\<lparr>domain_finalized := True\<rparr>)) = Ret 0 t"
    unfolding flow_bind_Ret_iff by blast
  then show ?thesis by (cases "rc' = 0") auto
qed

text \<open>C15. When the domains are finalised, every registered domain whose boot hart may run it has that
  hart prepared with the domain's entry point, argument and mode: the boot hart of the library goes
  on there itself, any other one has been stopped and is now START_PENDING, and then the mode is
  supervisor or user mode. No later domain takes a hart back.\<close>

theorem finalize_starts_boot_harts:
  fixes t :: "'a hsm_state_scheme" and d :: nat
  defines "dm \<equiv> doms t d" and "b \<equiv> unat (boot_hartid (doms t d))"
  assumes "sbi_domain_finalize populate c s = Ret 0 t" "d \<in> set (sbi_domain_for_each t)" "bootable t d"
  shows "domain_finalized t \<and> next_addr (scratch t b) = dom_next_addr dm
    \<and> next_mode (scratch t b) = dom_next_mode dm \<and> next_arg1 (scratch t b) = dom_next_arg1 dm
    \<and> (b \<noteq> c \<longrightarrow> hst b t = SBI_HSM_STATE_START_PENDING \<and> dom_next_mode dm \<in> {PRV_S, PRV_U})"
proof -
  obtain u v where run: "domain_boot_harts c (sbi_domain_for_each u) u = Ret 0 v"
    and t: "t = v\<lparr>domain_finalized := True\<rparr>"
    using finalize_run [OF assms(3)] by blast
  have same: "same_domains u v" and ok: "\<And>d. bootable u d \<Longrightarrow> d \<in> set (sbi_domain_for_each u) \<Longrightarrow> boot_prepared c v d"
    using boot_harts_run [OF run] by auto
  have tv: "same_domains v t" and ut: "same_domains u t"
    using same unfolding t by (simp_all add: same_domains_def)
  have "sbi_domain_for_each u = sbi_domain_for_each t"
    using ut by (simp add: same_domains_def sbi_domain_for_each_def)
  then have "boot_prepared c v d" using ok assms(4,5) same_domains_bootable [OF ut] by simp
  then show ?thesis unfolding t assms(1,2) boot_prepared_def Let_def by simp
qed

definition two_domains :: hsm_state where
  "two_domains = hsm0\<lparr>doms := (\<lambda>d. dom_sample_root\<lparr>boot_hartid := of_nat d,
       possible_harts := Harts \<lparr>bits = [3, 0]\<rparr>, assigned_harts := \<lparr>bits = [of_nat d + 1, 0]\<rparr>\<rparr>),
     hartid_to_domain := Some, domidx_to_domain := (\<lambda>i. if i < 2 then Some i else None),
     scratch_tab := (\<lambda>h. h < 2)\<rparr>"

lemma two_domains_fields:
  "doms two_domains d = dom_sample_root\<lparr>boot_hartid := of_nat d, possible_harts := Harts \<lparr>bits = [3, 0]\<rparr>,
     assigned_harts := \<lparr>bits = [of_nat d + 1, 0]\<rparr>\<rparr>"
  "hartid_to_domain two_domains h = Some h"
  "domidx_to_domain two_domains i = (if i < 2 then Some i else None)"
  "scratch_tab two_domains h \<longleftrightarrow> h < 2" "hsm_dev two_domains = None" "platform two_domains = platform0"
  "ipi_dev two_domains = Some \<lparr>ipi_send_fn = True, ipi_clear_fn = True\<rparr>"
  "hsm_data two_domains h = \<lparr>hstate = (if h = 0 then 0 else 1), suspend_type = 0, saved_mie = 0, saved_mip = 0\<rparr>"
  by (simp_all add: two_domains_def hsm0_defs)

theorem finalize_starts_boot_harts_witness:
  "case sbi_domain_finalize (\<lambda>s. s) 0 two_domains of
     Ret rc t \<Rightarrow> rc = 0 \<and> next_addr (scratch t 1) = 0x80200000 \<and> hst 1 t = SBI_HSM_STATE_START_PENDING
   | _ \<Rightarrow> False"
proof -
  have each: "sbi_domain_for_each two_domains = [0, 1]"
  proof -
    have "[0..<32] = [0, 1, 2] @ [3..<32 :: nat]" by (simp add: upt_conv_Cons)
    then show ?thesis by (simp add: sbi_domain_for_each_def two_domains_fields)
  qed
  have boots: "bootable two_domains d" if "d < 2" for d
    using that by (auto simp: bootable_def two_domains_fields dom_sample_root_def hm_set_def bm_bit_def
        less_2_cases_iff)
  let ?u = "set_next 0 0 0x80200000 1 two_domains"
  let ?v = "sbi_ipi_raw_send 0 1 (set_next 1 0 0x80200000 1 (set_hstate 1 SBI_HSM_STATE_START_PENDING ?u))"
  have plat: "sbi_platform_domains_init 0 two_domains = (0, two_domains)"
    by (simp add: plat_call_defs two_domains_fields platform0_def plat_ops0_def)
  have "domain_boot_harts 0 [0, 1] two_domains = domain_boot_harts 0 [1] ?u"
    using boots [of 0] boot_harts_self [of two_domains 0 0 "[1]"]
    by (simp add: two_domains_fields dom_sample_root_def)
  moreover have "sbi_hsm_hart_start 0 None 1 0x80200000 1 0 ?u = (0, ?v)"
    by (simp add: sbi_hsm_hart_start_def hart_start_claim_def hart_start_publish_def hstate_cmpxchg_def
        hsm_device_has_hart_hotplug_def hsm_device_has_hart_secondary_boot_def Let_def two_domains_fields
        set_next_def set_hstate_def)
  moreover have "boot_hartid (doms ?u 1) = 1" "dom_possible (doms ?u 1) ?u = Some \<lparr>bits = [3, 0]\<rparr>"
    by (simp_all add: set_next_def two_domains_fields)
  ultimately have "domain_boot_harts 0 [0, 1] two_domains = Ret 0 ?v"
    by (simp add: Let_def set_next_def two_domains_fields dom_sample_root_def hm_set_def bm_bit_def)
  then obtain t where t: "sbi_domain_finalize (\<lambda>s. s) 0 two_domains = Ret 0 t" "same_domains two_domains t"
    using plat each boot_harts_run [of 0 "[0, 1]" two_domains ?v]
    by (auto simp: sbi_domain_finalize_def same_domains_def)
  have mem: "1 \<in> set (sbi_domain_for_each t)" and boot: "bootable t 1"
    using each boots [of 1] same_domains_bootable [OF t(2)] t(2)
    by (simp_all add: same_domains_def sbi_domain_for_each_def)
  show ?thesis using finalize_starts_boot_harts [OF t(1) mem boot] t
    by (simp add: same_domains_def two_domains_fields dom_sample_root_def)
qed

end
