(* ===== verification/Sbi_Boot.thy ===== *)
theory Sbi_Boot
  imports Sbi_Init
begin

text \<open>
  The boot of several harts (\<^verbatim>\<open>lib/sbi/sbi_init.c\<close>): how the steps of the boot hart and of the
  waiting harts interleave. \<open>boot_next\<close> is the code cut into steps, each with one access to the
  shared state: the atomic exchange of the lottery, a critical section of \<^verbatim>\<open>coldboot_lock\<close>, a read or
  the store of \<^verbatim>\<open>coldboot_done\<close>, the \<^verbatim>\<open>wfi\<close>, the read of \<^verbatim>\<open>mip\<close> after it. The loop that wakes the harts runs
  inside one critical section, one hart per step. A hart on its own runs through these steps exactly
  as \<open>wake_coldboot_harts\<close>, \<open>wait_for_coldboot\<close> and the entry of \<open>sbi_init\<close> of \<open>Sbi_Init\<close> say. What a hart does
  besides (initialising components, running the next stage) is any change that leaves
  the boot's data alone and clears no interrupt of another hart.

  An interrupt is pending at a hart when the trace has an event that sends it and no later event
  of the hart that clears it; its \<^verbatim>\<open>mip\<close> shows that when a step reads it.
\<close>

section \<open>The code in steps\<close>

text \<open>Where a hart is: at the entry, in the cold boot, before and after taking the lock, at hart \<open>i\<close> of the loop,
  after it; before marking itself, at the test of the flag, before \<^verbatim>\<open>wfi\<close>, before the read of \<^verbatim>\<open>mip\<close>, before
  unmarking itself, after the wait. A hart that waits keeps the \<^verbatim>\<open>mie\<close> it has saved.\<close>

datatype boot_pc =
    Boot_entry
  | Boot_cold
  | Boot_flag
  | Boot_wake nat
  | Boot_woken
  | Boot_mark
  | Boot_check ulong
  | Boot_wfi ulong
  | Boot_mip ulong
  | Boot_unmark ulong
  | Boot_warm

fun boot_next :: "nat \<Rightarrow> boot_pc \<Rightarrow> 'a init_state_scheme \<Rightarrow> boot_pc \<times> 'a init_state_scheme" where
  "boot_next h Boot_entry s =
     (if SBI_HARTMASK_MAX_BITS \<le> h \<or> sbi_platform_hart_invalid (Some (platform s)) (of_nat h) then (Boot_entry, s)
      else case next_mode_supported h s of
        None \<Rightarrow> (Boot_entry, s)
      | Some True \<Rightarrow> (case draw_lottery s of (won, s) \<Rightarrow> (if won then Boot_cold else Boot_mark, s))
      | Some False \<Rightarrow> (Boot_mark, s))"
| "boot_next h Boot_cold s = (Boot_flag, s\<lparr>coldboot_done := 1\<rparr>)"
| "boot_next h Boot_flag s = (Boot_wake 0, s)"
| "boot_next h (Boot_wake i) s = (if i \<le> last_hartid s then (Boot_wake (i + 1), wake_hart h s i) else (Boot_woken, s))"
| "boot_next h Boot_woken s = (Boot_woken, s)"
| "boot_next h Boot_mark s = (Boot_check (csr_read h CSR_MIE s), coldboot_mark h (csr_set h CSR_MIE MIP_MSIP s))"
| "boot_next h (Boot_check m) s = (if coldboot_done s \<noteq> 0 then Boot_unmark m else Boot_wfi m, s)"
| "boot_next h (Boot_wfi m) s = (Boot_mip m, emit (Ev_wfi h) s)"
| "boot_next h (Boot_mip m) s = (if csr_read h CSR_MIP s AND MIP_MSIP = 0 then Boot_wfi m else Boot_check m, s)"
| "boot_next h (Boot_unmark m) s = (Boot_warm, csr_write h CSR_MIE m (coldboot_unmark h s))"
| "boot_next h Boot_warm s = (Boot_warm, s)"

text \<open>A hart by itself; when it has slept, the next of \<open>others\<close> is what the other harts did meanwhile.\<close>

definition boot_alone :: "nat \<Rightarrow> boot_pc \<times> 'a init_state_scheme \<Rightarrow> boot_pc \<times> 'a init_state_scheme" where
  "boot_alone h c = boot_next h (fst c) (snd c)"

fun boot_among :: "nat \<Rightarrow> boot_pc \<times> ('a init_state_scheme \<Rightarrow> 'a init_state_scheme) list \<times> 'a init_state_scheme
    \<Rightarrow> boot_pc \<times> ('a init_state_scheme \<Rightarrow> 'a init_state_scheme) list \<times> 'a init_state_scheme" where
  "boot_among h (Boot_mip m, [], s) = (Boot_mip m, [], s)"
| "boot_among h (Boot_mip m, f # fs, s) = (case boot_next h (Boot_mip m) (f s) of (p, s) \<Rightarrow> (p, fs, s))"
| "boot_among h (p, others, s) = (case boot_next h p s of (p, s) \<Rightarrow> (p, others, s))"

lemma boot_wake_loop:
  "i + n = Suc (last_hartid s) \<Longrightarrow>
    (boot_alone h ^^ n) (Boot_wake i, s) = (Boot_wake (i + n), foldl (wake_hart h) s [i..<i + n])"
proof (induction n arbitrary: i s)
  case (Suc n)
  have "last_hartid (wake_hart h s i) = last_hartid s"
    by (simp add: wake_hart_def sbi_ipi_raw_send_def emit_def split: option.split)
  then have "(boot_alone h ^^ n) (Boot_wake (Suc i), wake_hart h s i)
      = (Boot_wake (Suc i + n), foldl (wake_hart h) (wake_hart h s i) [Suc i..<Suc i + n])"
    using Suc.prems by (intro Suc.IH) simp
  moreover have "[i..<i + Suc n] = i # [Suc i..<Suc i + n]" using upt_conv_Cons [of i "i + Suc n"] by simp
  moreover have "boot_alone h (Boot_wake i, s) = (Boot_wake (Suc i), wake_hart h s i)"
    using Suc.prems by (simp add: boot_alone_def)
  ultimately show ?case by (simp only: funpow_Suc_right o_apply foldl_Cons add_Suc_right add_Suc)
qed simp

lemma boot_wake_run:
  "(boot_alone h ^^ (last_hartid s + 4)) (Boot_cold, s) = (Boot_woken, wake_coldboot_harts h s)"
proof -
  let ?s = "s\<lparr>coldboot_done := 1\<rparr>" and ?n = "Suc (last_hartid s)"
  have "(boot_alone h ^^ ?n) (Boot_wake 0, ?s) = (Boot_wake ?n, wake_coldboot_harts h s)"
    using boot_wake_loop [of 0 ?n ?s h] by (simp add: wake_coldboot_harts_def del: upt_Suc funpow.simps)
  moreover have "last_hartid (wake_coldboot_harts h s) = last_hartid s"
  proof -
    have "last_hartid (foldl (wake_hart h) t is) = last_hartid t" for t :: "'a init_state_scheme" and "is"
      by (induction "is" arbitrary: t)
        (simp_all add: wake_hart_def sbi_ipi_raw_send_def emit_def split: option.split)
    then show ?thesis by (simp only: wake_coldboot_harts_def) simp
  qed
  ultimately have "(boot_alone h ^^ Suc ?n) (Boot_wake 0, ?s) = (Boot_woken, wake_coldboot_harts h s)"
    by (simp only: funpow.simps o_apply) (simp add: boot_alone_def)
  moreover have "(boot_alone h ^^ 2) (Boot_cold, s) = (Boot_wake 0, ?s)"
    by (simp add: numeral_2_eq_2 boot_alone_def)
  ultimately have "(boot_alone h ^^ (Suc ?n + 2)) (Boot_cold, s) = (Boot_woken, wake_coldboot_harts h s)"
    by (simp only: funpow_add o_apply)
  moreover have "Suc ?n + 2 = last_hartid s + 4" by simp
  ultimately show ?thesis by (simp only:)
qed

text \<open>Reaching a configuration in some number of steps.\<close>

definition boot_ends :: "nat \<Rightarrow> boot_pc \<times> ('a init_state_scheme \<Rightarrow> 'a init_state_scheme) list \<times> 'a init_state_scheme
    \<Rightarrow> boot_pc \<times> ('a init_state_scheme \<Rightarrow> 'a init_state_scheme) list \<times> 'a init_state_scheme \<Rightarrow> bool" where
  "boot_ends h c d \<longleftrightarrow> (\<exists>n. (boot_among h ^^ n) c = d)"

lemma boot_ends_refl: "boot_ends h c c"
  unfolding boot_ends_def by (rule exI [of _ 0]) simp

lemma boot_ends_step: "boot_ends h (boot_among h c) d \<Longrightarrow> boot_ends h c d"
  unfolding boot_ends_def by (metis comp_apply funpow_Suc_right)

lemma boot_ends_snoc: "boot_ends h c d \<Longrightarrow> boot_among h d = e \<Longrightarrow> boot_ends h c e"
  unfolding boot_ends_def by (metis comp_apply funpow.simps(2))

lemma coldboot_wait_run:
  "case coldboot_wait others h inner s of
     Ret rest t \<Rightarrow> boot_ends h (if inner then Boot_wfi m else Boot_check m, others, s) (Boot_unmark m, rest, t)
   | Hang t \<Rightarrow> boot_ends h (if inner then Boot_wfi m else Boot_check m, others, s) (Boot_mip m, [], t)
   | _ \<Rightarrow> False"
proof (induction others h inner s rule: coldboot_wait.induct)
  case (1 others h inner s)
  let ?p = "if inner then Boot_wfi m else Boot_check m"
  show ?case
  proof (cases "\<not> inner \<and> coldboot_done s \<noteq> 0")
    case True
    have "boot_ends h (Boot_check m, others, s) (Boot_unmark m, others, s)"
      by (rule boot_ends_step) (use True in \<open>simp add: boot_ends_refl\<close>)
    then show ?thesis using True unfolding coldboot_wait.simps [of others h inner s] by (simp del: coldboot_wait.simps)
  next
    case False
    let ?e = "emit (Ev_wfi h) s"
    have first: "boot_ends h (?p, others, s) d" if "boot_ends h (Boot_mip m, others, ?e) d" for d
    proof -
      have "boot_ends h (Boot_wfi m, others, s) d" by (rule boot_ends_step) (use that in simp)
      moreover have "boot_ends h (Boot_check m, others, s) d" if "\<not> inner"
        by (rule boot_ends_step) (use False that calculation in simp)
      ultimately show ?thesis by simp
    qed
    show ?thesis
    proof (cases others)
      case Nil
      then show ?thesis using first [OF boot_ends_refl]
        unfolding coldboot_wait.simps [of others h inner s] if_not_P [OF False] by simp
    next
      case (Cons f fs)
      let ?i = "csr_read h CSR_MIP (f ?e) AND MIP_MSIP = 0"
      have "boot_ends h (Boot_mip m, others, ?e) d"
        if "boot_ends h (if ?i then Boot_wfi m else Boot_check m, fs, f ?e) d" for d
        by (rule boot_ends_step) (use that Cons in simp)
      then have "boot_ends h (?p, others, s) d"
        if "boot_ends h (if ?i then Boot_wfi m else Boot_check m, fs, f ?e) d" for d
        using first that by blast
      moreover have "coldboot_wait others h inner s = coldboot_wait fs h ?i (f ?e)"
        by (subst coldboot_wait.simps, subst if_not_P [OF False]) (simp add: Cons Let_def del: coldboot_wait.simps)
      ultimately show ?thesis using 1 [OF False Cons refl]
        by (cases "coldboot_wait fs h ?i (f ?e)") (simp_all only: flow.case)
    qed
  qed
qed

lemma wait_for_coldboot_run:
  "case wait_for_coldboot others h s of
     Ret rest t \<Rightarrow> boot_ends h (Boot_mark, others, s) (Boot_warm, rest, t)
   | Hang t \<Rightarrow> \<exists>m. boot_ends h (Boot_mark, others, s) (Boot_mip m, [], t)
   | _ \<Rightarrow> False"
proof -
  let ?m = "csr_read h CSR_MIE s" and ?s = "coldboot_mark h (csr_set h CSR_MIE MIP_MSIP s)"
  have first: "boot_ends h (Boot_mark, others, s) d" if "boot_ends h (Boot_check ?m, others, ?s) d" for d
    by (rule boot_ends_step) (use that in simp)
  have last: "boot_ends h c (Boot_warm, rest, csr_write h CSR_MIE m (coldboot_unmark h t))"
    if "boot_ends h c (Boot_unmark m, rest, t)" for c rest t m
    using boot_ends_snoc [OF that] by simp
  note run = coldboot_wait_run [where others = others and h = h and inner = False and s = ?s and m = ?m, unfolded if_False]
  show ?thesis
  proof (cases "coldboot_wait others h False ?s")
    case (Ret rest t)
    then have "boot_ends h (Boot_mark, others, s) (Boot_unmark ?m, rest, t)" using run by (intro first) simp
    from last [OF this] show ?thesis by (simp add: wait_for_coldboot_def Ret del: coldboot_wait.simps)
  next
    case (Hang t)
    then have "boot_ends h (Boot_mark, others, s) (Boot_mip ?m, [], t)" using run by (intro first) simp
    then show ?thesis by (auto simp: wait_for_coldboot_def Hang simp del: coldboot_wait.simps)
  qed (use run in simp_all)
qed

lemma sbi_init_entry:
  "sbi_init bp others h s =
     (case boot_next h Boot_entry s of
        (Boot_cold, s) \<Rightarrow> init_coldboot bp h s | (Boot_mark, s) \<Rightarrow> init_warmboot others h s | (p, s) \<Rightarrow> Hang s)"
  by (auto simp: sbi_init_def split: option.split bool.split prod.split)

section \<open>Interleaving\<close>

record boot_state =
  lib :: init_state
  pc :: "nat \<Rightarrow> boot_pc"

fun msip_after :: "nat \<Rightarrow> bool \<Rightarrow> hw_event \<Rightarrow> bool" where
  "msip_after i p (Ev_ipi_send h t) = (p \<or> t = i)"
| "msip_after i p (Ev_ipi_clear h t) = (p \<and> t \<noteq> i)"
| "msip_after i p e = p"

definition msip_pending :: "nat \<Rightarrow> 'a machine_scheme \<Rightarrow> bool" where
  "msip_pending i s = foldl (msip_after i) False (trace s)"

fun clears_other :: "nat \<Rightarrow> hw_event \<Rightarrow> bool" where
  "clears_other h (Ev_ipi_clear g t) = (t \<noteq> h)"
| "clears_other h e = False"

definition ipi_works :: "'a hsm_state_scheme \<Rightarrow> bool" where
  "ipi_works s \<longleftrightarrow> (\<exists>d. ipi_dev s = Some d \<and> ipi_send_fn d)"

text \<open>Other work of a hart. The boot hart also finds out which harts there are and registers the
  IPI device.\<close>

definition works :: "nat \<Rightarrow> init_state \<Rightarrow> init_state \<Rightarrow> bool" where
  "works h s t \<longleftrightarrow> coldboot_wait_hmask t = coldboot_wait_hmask s \<and> coldboot_done t = coldboot_done s
     \<and> coldboot_lottery t = coldboot_lottery s
     \<and> (\<exists>es. trace t = trace s @ es \<and> list_all (\<lambda>e. \<not> clears_other h e) es)"

definition free_lock :: "(nat \<Rightarrow> boot_pc) \<Rightarrow> bool" where
  "free_lock p \<longleftrightarrow> (\<forall>h i. p h \<noteq> Boot_wake i)"

fun takes_lock :: "boot_pc \<Rightarrow> bool" where
  "takes_lock Boot_flag = True" | "takes_lock Boot_mark = True" | "takes_lock (Boot_unmark m) = True"
| "takes_lock p = False"

text \<open>The register shows whether the interrupt is pending.\<close>

definition with_msip :: "nat \<Rightarrow> 'a machine_scheme \<Rightarrow> 'a machine_scheme" where
  "with_msip h s = s\<lparr>csr := (csr s)(h := (csr s h)(CSR_MIP :=
     (csr s h CSR_MIP AND NOT MIP_MSIP) OR (if msip_pending h s then MIP_MSIP else 0)))\<rparr>"

text \<open>The steps: the code's, and other work.\<close>

inductive boot_step :: "nat \<Rightarrow> boot_state \<Rightarrow> boot_state \<Rightarrow> bool" where
  code: "\<not> takes_lock (pc S h) \<or> free_lock (pc S) \<Longrightarrow> boot_next h (pc S h) (with_msip h (lib S)) = (p, s) \<Longrightarrow>
    boot_step h S \<lparr>lib = s, pc = (pc S)(h := p)\<rparr>"
| cold_work: "pc S h = Boot_cold \<Longrightarrow> works h (lib S) s \<Longrightarrow> boot_step h S (S\<lparr>lib := s\<rparr>)"
| later_work: "pc S h = Boot_warm \<or> pc S h = Boot_woken \<Longrightarrow> works h (lib S) s \<Longrightarrow>
    last_hartid s = last_hartid (lib S) \<Longrightarrow> ipi_dev s = ipi_dev (lib S) \<Longrightarrow>
    boot_step h S (S\<lparr>lib := s\<rparr>)"

inductive boot_reach :: "boot_state \<Rightarrow> bool" where
  start: "coldboot_lottery s = 0 \<Longrightarrow> coldboot_done s = 0 \<Longrightarrow> hm_wf (coldboot_wait_hmask s) \<Longrightarrow>
    hm_set (coldboot_wait_hmask s) = {} \<Longrightarrow> boot_reach \<lparr>lib = s, pc = (\<lambda>h. Boot_entry)\<rparr>"
| step: "boot_reach S \<Longrightarrow> boot_step h S S' \<Longrightarrow> boot_reach S'"

section \<open>The invariant\<close>

fun cold_pc :: "boot_pc \<Rightarrow> bool" where
  "cold_pc Boot_cold = True" | "cold_pc Boot_flag = True" | "cold_pc (Boot_wake i) = True"
| "cold_pc Boot_woken = True" | "cold_pc p = False"

fun past_done :: "boot_pc \<Rightarrow> bool" where
  "past_done Boot_flag = True" | "past_done (Boot_wake i) = True" | "past_done Boot_woken = True"
| "past_done p = False"

fun waits_pc :: "boot_pc \<Rightarrow> bool" where
  "waits_pc (Boot_check m) = True" | "waits_pc (Boot_wfi m) = True" | "waits_pc (Boot_mip m) = True"
| "waits_pc (Boot_unmark m) = True" | "waits_pc p = False"

fun asleep :: "boot_pc \<Rightarrow> bool" where
  "asleep (Boot_wfi m) = True" | "asleep (Boot_mip m) = True" | "asleep p = False"

text \<open>Whether the boot hart has passed hart \<open>i\<close> in its loop, and whether a hart knows that the boot is
  done.\<close>

fun has_woken :: "nat \<Rightarrow> nat \<Rightarrow> boot_pc \<Rightarrow> bool" where
  "has_woken n i (Boot_wake k) = (i < k)" | "has_woken n i Boot_woken = (i \<le> n)" | "has_woken n i p = False"

fun knows_done :: "boot_pc \<Rightarrow> bool" where
  "knows_done (Boot_unmark m) = True" | "knows_done Boot_warm = True" | "knows_done p = False"

definition ids_ok :: "(nat \<Rightarrow> boot_pc) \<Rightarrow> bool" where
  "ids_ok p \<longleftrightarrow> (\<forall>h. p h \<noteq> Boot_entry \<longrightarrow> h < 128)"

definition one_cold :: "(nat \<Rightarrow> boot_pc) \<Rightarrow> bool" where
  "one_cold p \<longleftrightarrow> (\<forall>g h. cold_pc (p g) \<longrightarrow> cold_pc (p h) \<longrightarrow> g = h)"

definition lottery_open :: "(nat \<Rightarrow> boot_pc) \<Rightarrow> nat \<Rightarrow> bool" where
  "lottery_open p n \<longleftrightarrow> (n = 0 \<longrightarrow> (\<forall>h. \<not> cold_pc (p h)))"

definition done_told :: "(nat \<Rightarrow> boot_pc) \<Rightarrow> ulong \<Rightarrow> bool" where
  "done_told p d \<longleftrightarrow> (d \<noteq> 0 \<longleftrightarrow> (\<exists>h. past_done (p h))) \<and> (\<forall>h. knows_done (p h) \<longrightarrow> d \<noteq> 0)"

definition mask_marks :: "(nat \<Rightarrow> boot_pc) \<Rightarrow> sbi_hartmask \<Rightarrow> bool" where
  "mask_marks p m \<longleftrightarrow> hm_wf m \<and> (\<forall>h. h \<in> hm_set m \<longleftrightarrow> waits_pc (p h))"

definition none_lost :: "(nat \<Rightarrow> boot_pc) \<Rightarrow> init_state \<Rightarrow> bool" where
  "none_lost p s \<longleftrightarrow> (\<forall>g i. has_woken (last_hartid s) i (p g) \<longrightarrow> ipi_works s \<longrightarrow> asleep (p i)
     \<longrightarrow> msip_pending i s)"

definition boot_inv :: "boot_state \<Rightarrow> bool" where
  "boot_inv S \<longleftrightarrow> ids_ok (pc S) \<and> one_cold (pc S) \<and> lottery_open (pc S) (coldboot_lottery (lib S))
     \<and> done_told (pc S) (coldboot_done (lib S)) \<and> mask_marks (pc S) (coldboot_wait_hmask (lib S))
     \<and> none_lost (pc S) (lib S)"

lemma msip_after_fold:
  "list_all (\<lambda>e. \<not> clears_other h e) es \<Longrightarrow> i \<noteq> h \<Longrightarrow> p \<Longrightarrow> foldl (msip_after i) p es"
proof (induction es arbitrary: p)
  case (Cons e es)
  then show ?case by (cases e) auto
qed simp

lemma works_pending: "works h s t \<Longrightarrow> i \<noteq> h \<Longrightarrow> msip_pending i s \<Longrightarrow> msip_pending i t"
  unfolding works_def msip_pending_def using msip_after_fold by auto

lemma wake_hart_frame:
  "coldboot_wait_hmask (wake_hart h s i) = coldboot_wait_hmask s" "coldboot_done (wake_hart h s i) = coldboot_done s"
  "coldboot_lottery (wake_hart h s i) = coldboot_lottery s" "last_hartid (wake_hart h s i) = last_hartid s"
  "ipi_works (wake_hart h s i) \<longleftrightarrow> ipi_works s"
  by (simp_all add: wake_hart_def sbi_ipi_raw_send_def emit_def ipi_works_def split: option.split)

lemma wake_hart_pending: "msip_pending j s \<Longrightarrow> msip_pending j (wake_hart h s i)"
  by (simp add: wake_hart_def sbi_ipi_raw_send_def emit_def msip_pending_def split: option.split)

lemma wake_hart_sends:
  assumes "ipi_works s" "i \<in> hm_set (coldboot_wait_hmask s)" "i \<noteq> h"
  shows "msip_pending i (wake_hart h s i)"
proof -
  have "i < 128" using assms(2) by (rule hm_set_less)
  then have "unat (of_nat i :: u32) = i" by (simp add: unat_of_nat)
  then show ?thesis
    using assms by (auto simp: wake_hart_def sbi_ipi_raw_send_def emit_def msip_pending_def ipi_works_def)
qed

section \<open>Every step keeps it\<close>

text \<open>The effect of a step on the part of the invariant that speaks of the counters only.\<close>

lemma ids_ok_upd: "ids_ok p \<Longrightarrow> p h \<noteq> Boot_entry \<or> h < 128 \<Longrightarrow> ids_ok (p(h := x))"
  by (auto simp: ids_ok_def)

lemma one_cold_upd:
  "one_cold p \<Longrightarrow> \<not> cold_pc x \<or> cold_pc (p h) \<Longrightarrow> one_cold (p(h := x))"
  by (auto simp: one_cold_def)

lemma one_cold_first:
  "lottery_open p 0 \<Longrightarrow> one_cold (p(h := x))"
  by (auto simp: one_cold_def lottery_open_def)

lemma lottery_open_upd:
  "lottery_open p n \<Longrightarrow> n = m \<or> m \<noteq> 0 \<Longrightarrow> \<not> cold_pc x \<or> cold_pc (p h) \<or> m \<noteq> 0 \<Longrightarrow> lottery_open (p(h := x)) m"
  by (auto simp: lottery_open_def)

lemma done_told_upd:
  assumes "done_told p d" "past_done x = past_done (p h)" "knows_done x \<Longrightarrow> knows_done (p h) \<or> d \<noteq> 0"
  shows "done_told (p(h := x)) d"
proof -
  have "past_done ((p(h := x)) g) = past_done (p g)" for g using assms(2) by simp
  moreover have "knows_done ((p(h := x)) g) \<Longrightarrow> d \<noteq> 0" for g
    using assms(1,3) by (cases "g = h") (auto simp: done_told_def)
  ultimately show ?thesis using assms(1) unfolding done_told_def by (simp del: fun_upd_apply)
qed

lemma done_told_set: "done_told (p(h := Boot_flag)) 1"
  by (auto simp: done_told_def)

lemma mask_marks_upd: "mask_marks p m \<Longrightarrow> waits_pc x = waits_pc (p h) \<Longrightarrow> mask_marks (p(h := x)) m"
  by (auto simp: mask_marks_def)

lemma mask_marks_mark:
  "mask_marks p m \<Longrightarrow> waits_pc x \<Longrightarrow> h < 128 \<Longrightarrow> mask_marks (p(h := x)) (sbi_hartmask_set_hart h m)"
  by (auto simp: mask_marks_def hm_set_set_hart)

lemma mask_marks_unmark:
  "mask_marks p m \<Longrightarrow> \<not> waits_pc x \<Longrightarrow> mask_marks (p(h := x)) (sbi_hartmask_clear_hart h m)"
  by (auto simp: mask_marks_def hm_set_clear_hart)

lemma none_lost_upd:
  assumes "none_lost p s" "asleep x \<Longrightarrow> asleep (p h)"
    and "\<And>i. has_woken (last_hartid s) i x \<Longrightarrow> has_woken (last_hartid s) i (p h)"
    and "\<And>i. msip_pending i s \<Longrightarrow> msip_pending i t" "ipi_dev t = ipi_dev s" "last_hartid t = last_hartid s"
  shows "none_lost (p(h := x)) t"
  using assms by (auto simp: none_lost_def ipi_works_def)

lemma none_lost_before:
  assumes "\<And>h i n. \<not> has_woken n i (p h)"
  shows "none_lost p s"
  using assms by (simp add: none_lost_def)

lemma woken_past_done: "has_woken n i q \<Longrightarrow> past_done q"
  by (cases q) simp_all

lemma not_done_not_woken: "done_told p 0 \<Longrightarrow> \<not> has_woken n i (p h)"
  using woken_past_done by (auto simp: done_told_def)

lemma woken_cold: "has_woken n i q \<Longrightarrow> cold_pc q \<and> q \<noteq> Boot_cold"
  by (cases q) simp_all

lemma cold_alone: "one_cold p \<Longrightarrow> p h = Boot_cold \<Longrightarrow> \<not> has_woken n i (p g)"
  unfolding one_cold_def using woken_cold by (metis cold_pc.simps(1))

lemma cold_alone_flag:
  "one_cold p \<Longrightarrow> p h = Boot_cold \<Longrightarrow> \<not> has_woken n i ((p(h := Boot_flag)) g)"
  using cold_alone by (cases "g = h") simp_all

lemma none_lost_works:
  assumes "none_lost p s" "works h s t" "\<not> asleep (p h)" "last_hartid t = last_hartid s" "ipi_dev t = ipi_dev s"
  shows "none_lost p t"
  unfolding none_lost_def
proof (intro allI impI)
  fix g i assume a: "has_woken (last_hartid t) i (p g)" "ipi_works t" "asleep (p i)"
  then have "msip_pending i s" using assms by (simp add: none_lost_def ipi_works_def)
  then show "msip_pending i t" using works_pending [OF assms(2)] a(3) assms(3) by metis
qed

lemma none_lost_wake:
  assumes "none_lost p s" "p h = Boot_wake i" "one_cold p" "mask_marks p (coldboot_wait_hmask s)"
  shows "none_lost (p(h := Boot_wake (i + 1))) (wake_hart h s i)"
  unfolding none_lost_def wake_hart_frame
proof (intro allI impI)
  fix g j
  assume a: "has_woken (last_hartid s) j ((p(h := Boot_wake (i + 1))) g)" "ipi_works s"
    "asleep ((p(h := Boot_wake (i + 1))) j)"
  have g: "g = h"
  proof (rule ccontr)
    assume "g \<noteq> h"
    then have "cold_pc (p g)" using a(1) by (cases "p g") simp_all
    then show False using assms(2,3) \<open>g \<noteq> h\<close> unfolding one_cold_def by (metis cold_pc.simps(3))
  qed
  have j: "j \<noteq> h" "asleep (p j)" using a(3) by (auto split: if_splits)
  show "msip_pending j (wake_hart h s i)"
  proof (cases "j = i")
    case True
    have "waits_pc (p i)" using j(2) True by (cases "p i") simp_all
    then have "i \<in> hm_set (coldboot_wait_hmask s)" using assms(4) by (simp add: mask_marks_def)
    then show ?thesis using wake_hart_sends [OF a(2)] j(1) True by simp
  next
    case False
    then have "has_woken (last_hartid s) j (p h)" using a(1) g assms(2) by simp
    then have "msip_pending j s" using assms(1) a(2) j(2) unfolding none_lost_def by blast
    then show ?thesis by (rule wake_hart_pending)
  qed
qed

lemma pending_same:
  "trace t = trace s \<Longrightarrow> msip_pending i t = msip_pending i s"
  by (simp add: msip_pending_def)

lemma boot_inv_frame:
  assumes "boot_inv \<lparr>lib = s, pc = p\<rparr>" "coldboot_wait_hmask t = coldboot_wait_hmask s"
    "coldboot_done t = coldboot_done s" "coldboot_lottery t = coldboot_lottery s"
    "trace t = trace s" "ipi_dev t = ipi_dev s" "last_hartid t = last_hartid s"
  shows "boot_inv \<lparr>lib = t, pc = p\<rparr>"
  using assms by (simp add: boot_inv_def none_lost_def ipi_works_def msip_pending_def)

text \<open>A step that moves one hart within what the invariant says of it.\<close>

lemma boot_inv_upd:
  assumes "boot_inv \<lparr>lib = s, pc = P\<rparr>" "P h \<noteq> Boot_entry \<or> h < 128" "cold_pc x \<Longrightarrow> cold_pc (P h)"
    "past_done x = past_done (P h)" "knows_done x \<Longrightarrow> knows_done (P h) \<or> coldboot_done s \<noteq> 0"
    "waits_pc x = waits_pc (P h)" "asleep x \<Longrightarrow> asleep (P h)" "\<And>n i. has_woken n i x \<Longrightarrow> has_woken n i (P h)"
    and "coldboot_lottery t = coldboot_lottery s \<or> coldboot_lottery t \<noteq> 0" "coldboot_wait_hmask t = coldboot_wait_hmask s"
    "coldboot_done t = coldboot_done s" "\<And>i. msip_pending i s \<Longrightarrow> msip_pending i t" "ipi_dev t = ipi_dev s"
    "last_hartid t = last_hartid s"
  shows "boot_inv \<lparr>lib = t, pc = P(h := x)\<rparr>"
proof -
  have inv: "ids_ok P" "one_cold P" "lottery_open P (coldboot_lottery s)" "done_told P (coldboot_done s)"
    "mask_marks P (coldboot_wait_hmask s)" "none_lost P s"
    using assms(1) by (simp_all add: boot_inv_def)
  have "lottery_open (P(h := x)) (coldboot_lottery t)"
    using assms(3,9) by (intro lottery_open_upd [OF inv(3)]) auto
  moreover have "none_lost (P(h := x)) t"
    by (rule none_lost_upd [OF inv(6)]) (use assms(7,8,12-14) in auto)
  moreover have "done_told (P(h := x)) (coldboot_done s)"
    by (rule done_told_upd [OF inv(4) assms(4,5)])
  ultimately show ?thesis
    using ids_ok_upd [OF inv(1) assms(2)] one_cold_upd [OF inv(2), of x h] assms(3) mask_marks_upd [OF inv(5) assms(6)]
    unfolding boot_inv_def boot_state.select_convs assms(10,11) by blast
qed

lemma boot_parts:
  assumes "boot_inv \<lparr>lib = s, pc = P\<rparr>" "P h \<noteq> Boot_entry \<or> h < 128" "cold_pc x \<Longrightarrow> cold_pc (P h)"
  shows "ids_ok (P(h := x))" "one_cold (P(h := x))" "lottery_open (P(h := x)) (coldboot_lottery s)"
    "past_done x = past_done (P h) \<Longrightarrow> (knows_done x \<Longrightarrow> knows_done (P h) \<or> coldboot_done s \<noteq> 0) \<Longrightarrow>
       done_told (P(h := x)) (coldboot_done s)"
    "waits_pc x = waits_pc (P h) \<Longrightarrow> mask_marks (P(h := x)) (coldboot_wait_hmask s)"
proof -
  have inv: "ids_ok P" "one_cold P" "lottery_open P (coldboot_lottery s)" "done_told P (coldboot_done s)"
    "mask_marks P (coldboot_wait_hmask s)"
    using assms(1) by (simp_all add: boot_inv_def)
  show "ids_ok (P(h := x))" by (rule ids_ok_upd [OF inv(1) assms(2)])
  show "one_cold (P(h := x))" using assms(3) by (intro one_cold_upd [OF inv(2)]) blast
  show "lottery_open (P(h := x)) (coldboot_lottery s)" using assms(3) by (intro lottery_open_upd [OF inv(3)]) auto
  show "past_done x = past_done (P h) \<Longrightarrow> (knows_done x \<Longrightarrow> knows_done (P h) \<or> coldboot_done s \<noteq> 0) \<Longrightarrow>
       done_told (P(h := x)) (coldboot_done s)" by (rule done_told_upd [OF inv(4)])
  show "waits_pc x = waits_pc (P h) \<Longrightarrow> mask_marks (P(h := x)) (coldboot_wait_hmask s)"
    by (rule mask_marks_upd [OF inv(5)])
qed

text \<open>The code's steps: at the entry, of the hart that boots, and of one that waits.\<close>

lemma entry_inv:
  assumes inv: "boot_inv \<lparr>lib = s, pc = P\<rparr>" and at: "P h = Boot_entry" and next_pc: "boot_next h Boot_entry s = (p, t)"
  shows "boot_inv \<lparr>lib = t, pc = P(h := p)\<rparr>"
proof -
  consider "p = Boot_entry" "t = s" | "h < 128" "p = Boot_mark" "t = s"
    | "h < 128" "coldboot_lottery s = 0" "p = Boot_cold" "t = s\<lparr>coldboot_lottery := 1\<rparr>"
    | "h < 128" "coldboot_lottery s \<noteq> 0" "p = Boot_mark" "t = s\<lparr>coldboot_lottery := 1\<rparr>"
  proof -
    assume none: "p = Boot_entry \<Longrightarrow> t = s \<Longrightarrow> thesis" and unsupported: "h < 128 \<Longrightarrow> p = Boot_mark \<Longrightarrow> t = s \<Longrightarrow> thesis"
      and won: "h < 128 \<Longrightarrow> coldboot_lottery s = 0 \<Longrightarrow> p = Boot_cold \<Longrightarrow> t = s\<lparr>coldboot_lottery := 1\<rparr> \<Longrightarrow> thesis"
      and lost: "h < 128 \<Longrightarrow> coldboot_lottery s \<noteq> 0 \<Longrightarrow> p = Boot_mark \<Longrightarrow> t = s\<lparr>coldboot_lottery := 1\<rparr> \<Longrightarrow> thesis"
    show thesis
    proof (cases "SBI_HARTMASK_MAX_BITS \<le> h \<or> sbi_platform_hart_invalid (Some (platform s)) (of_nat h)")
      case True
      then show thesis using next_pc none by simp
    next
      case False
      then have h: "h < 128" by simp
      note step = next_pc [unfolded boot_next.simps if_not_P [OF False]]
      consider "next_mode_supported h s = None" | "next_mode_supported h s = Some False"
        | "next_mode_supported h s = Some True" by (cases "next_mode_supported h s") auto
      then show thesis
      proof cases
        case 3
        then show thesis using step won [OF h] lost [OF h] by (cases "coldboot_lottery s = 0") (simp_all add: draw_lottery_def)
      qed (use step none unsupported [OF h] in simp_all)
    qed
  qed
  then show ?thesis
  proof cases
    case 1
    then show ?thesis using inv at by (simp add: fun_upd_idem)
  next
    case 2
    show ?thesis unfolding 2(2,3) by (rule boot_inv_upd [OF inv]) (use 2(1) at in simp_all)
  next
    case 3
    have i: "ids_ok P" "lottery_open P 0" "done_told P (coldboot_done s)"
      "mask_marks P (coldboot_wait_hmask s)" "none_lost P s"
      using inv 3(2) by (simp_all add: boot_inv_def)
    have "ids_ok (P(h := p))" using 3(1) by (intro ids_ok_upd [OF i(1)]) simp
    moreover have "one_cold (P(h := p))" by (rule one_cold_first [OF i(2)])
    moreover have "lottery_open (P(h := p)) 1" by (simp add: lottery_open_def)
    moreover have "done_told (P(h := p)) (coldboot_done s)" using at 3(3) by (intro done_told_upd [OF i(3)]) simp_all
    moreover have "mask_marks (P(h := p)) (coldboot_wait_hmask s)" using at 3(3) by (intro mask_marks_upd [OF i(4)]) simp
    moreover have "none_lost (P(h := p)) t"
      using 3(3,4) by (intro none_lost_upd [OF i(5)]) (simp_all add: msip_pending_def)
    ultimately show ?thesis by (simp add: boot_inv_def 3(4))
  next
    case 4
    show ?thesis unfolding 4(3,4) by (rule boot_inv_upd [OF inv]) (use 4(1) at in \<open>simp_all add: msip_pending_def\<close>)
  qed
qed

lemma boot_hart_inv:
  assumes inv: "boot_inv \<lparr>lib = s, pc = P\<rparr>" and at: "cold_pc (P h)" and next_pc: "boot_next h (P h) s = (p, t)"
  shows "boot_inv \<lparr>lib = t, pc = P(h := p)\<rparr>"
proof (cases "P h")
  case Boot_cold
  then have pt: "p = Boot_flag" "t = s\<lparr>coldboot_done := 1\<rparr>" using next_pc by simp_all
  have i: "ids_ok P" "one_cold P" "lottery_open P (coldboot_lottery s)" "mask_marks P (coldboot_wait_hmask s)"
    using inv by (simp_all add: boot_inv_def)
  have "ids_ok (P(h := p))" "one_cold (P(h := p))" "lottery_open (P(h := p)) (coldboot_lottery s)"
    "mask_marks (P(h := p)) (coldboot_wait_hmask s)"
    using Boot_cold pt(1) by (simp_all only: ids_ok_upd [OF i(1)] one_cold_upd [OF i(2)] lottery_open_upd [OF i(3)]
        mask_marks_upd [OF i(4)] cold_pc.simps waits_pc.simps boot_pc.distinct simp_thms)
  moreover have "none_lost (P(h := p)) t"
    using cold_alone_flag [OF i(2) Boot_cold] unfolding pt(1) by (intro none_lost_before)
  ultimately show ?thesis using done_told_set by (simp add: boot_inv_def pt)
next
  case (Boot_wake i)
  show ?thesis
  proof (cases "i \<le> last_hartid s")
    case True
    then have pt: "p = Boot_wake (i + 1)" "t = wake_hart h s i" using next_pc Boot_wake by simp_all
    have v: "ids_ok P" "one_cold P" "lottery_open P (coldboot_lottery s)" "done_told P (coldboot_done s)"
      "mask_marks P (coldboot_wait_hmask s)" "none_lost P s"
      using inv by (simp_all add: boot_inv_def)
    have "ids_ok (P(h := p))" "one_cold (P(h := p))" "lottery_open (P(h := p)) (coldboot_lottery s)"
      "done_told (P(h := p)) (coldboot_done s)" "mask_marks (P(h := p)) (coldboot_wait_hmask s)"
      by (rule boot_parts [OF inv]; simp add: Boot_wake pt(1))+
    moreover have "none_lost (P(h := p)) t" unfolding pt by (rule none_lost_wake [OF v(6) Boot_wake v(2,5)])
    ultimately show ?thesis unfolding boot_inv_def boot_state.select_convs pt(2) wake_hart_frame by blast
  next
    case False
    then have pt: "p = Boot_woken" "t = s" using next_pc Boot_wake by simp_all
    have v: "ids_ok P" "one_cold P" "lottery_open P (coldboot_lottery s)" "done_told P (coldboot_done s)"
      "mask_marks P (coldboot_wait_hmask s)" "none_lost P s"
      using inv by (simp_all add: boot_inv_def)
    have "ids_ok (P(h := p))" "one_cold (P(h := p))" "lottery_open (P(h := p)) (coldboot_lottery s)"
      "done_told (P(h := p)) (coldboot_done s)" "mask_marks (P(h := p)) (coldboot_wait_hmask s)"
      by (rule boot_parts [OF inv]; simp add: Boot_wake pt(1))+
    moreover have "none_lost (P(h := p)) s"
      by (rule none_lost_upd [OF v(6)]) (use Boot_wake False pt(1) in simp_all)
    ultimately show ?thesis unfolding boot_inv_def boot_state.select_convs pt(2) by blast
  qed
next
  case Boot_flag
  then have pt: "p = Boot_wake 0" "t = s" using next_pc by simp_all
  show ?thesis unfolding pt by (rule boot_inv_upd [OF inv]) (use Boot_flag in simp_all)
next
  case Boot_woken
  then show ?thesis using inv next_pc by (simp add: fun_upd_idem)
qed (use at in simp_all)

lemma waiting_hart_inv:
  assumes inv: "boot_inv \<lparr>lib = s, pc = P\<rparr>" and at: "P h = Boot_mark \<or> waits_pc (P h) \<or> P h = Boot_warm"
    and next_pc: "boot_next h (P h) s = (p, t)"
  shows "boot_inv \<lparr>lib = t, pc = P(h := p)\<rparr>"
proof -
  have i: "ids_ok P" "one_cold P" "lottery_open P (coldboot_lottery s)" "done_told P (coldboot_done s)"
    "mask_marks P (coldboot_wait_hmask s)" "none_lost P s"
    using inv by (simp_all add: boot_inv_def)
  have "P h \<noteq> Boot_entry" using at by auto
  then have h: "h < 128" using i(1) by (simp add: ids_ok_def)
  show ?thesis
  proof (cases "P h")
    case Boot_mark
    then have pt: "p = Boot_check (csr_read h CSR_MIE s)" "t = coldboot_mark h (csr_set h CSR_MIE MIP_MSIP s)"
      using next_pc by simp_all
    have "mask_marks (P(h := p)) (coldboot_wait_hmask t)"
      unfolding pt coldboot_mark_def using mask_marks_mark [OF i(5) _ h] by (simp add: csr_set_def csr_write_def)
    moreover have "ids_ok (P(h := p))" "one_cold (P(h := p))" "lottery_open (P(h := p)) (coldboot_lottery s)"
      "done_told (P(h := p)) (coldboot_done s)"
      by (rule boot_parts [OF inv]; simp add: Boot_mark pt(1))+
    moreover have "none_lost (P(h := p)) t"
      unfolding pt by (rule none_lost_upd [OF i(6)])
        (simp_all add: msip_pending_def coldboot_mark_def csr_set_def csr_write_def)
    ultimately show ?thesis by (simp add: boot_inv_def pt(2) coldboot_mark_def csr_set_def csr_write_def)
  next
    case (Boot_check m)
    then have pt: "p = (if coldboot_done s \<noteq> 0 then Boot_unmark m else Boot_wfi m)" "t = s"
      using next_pc unfolding Boot_check boot_next.simps prod.inject by (blast dest: sym)+
    show ?thesis
    proof (cases "coldboot_done s = 0")
      case True
      have "ids_ok (P(h := Boot_wfi m))" "one_cold (P(h := Boot_wfi m))" "lottery_open (P(h := Boot_wfi m)) (coldboot_lottery s)"
        "done_told (P(h := Boot_wfi m)) (coldboot_done s)" "mask_marks (P(h := Boot_wfi m)) (coldboot_wait_hmask s)"
      by (rule boot_parts [OF inv]; simp add: Boot_check)+
      moreover have "\<not> has_woken n k ((P(h := Boot_wfi m)) g)" for n k g
        using i(4) True not_done_not_woken [of P] by (cases "g = h") simp_all
      ultimately show ?thesis using True none_lost_before by (simp add: boot_inv_def pt del: fun_upd_apply)
    next
      case False
      then show ?thesis unfolding pt by (intro boot_inv_upd [OF inv]) (use Boot_check in simp_all)
    qed
  next
    case (Boot_wfi m)
    then have pt: "p = Boot_mip m" "t = emit (Ev_wfi h) s" using next_pc by simp_all
    show ?thesis unfolding pt
      by (rule boot_inv_upd [OF inv]) (use Boot_wfi in \<open>simp_all add: emit_def msip_pending_def\<close>)
  next
    case (Boot_mip m)
    then obtain q where pt: "p = q" "t = s" "q = Boot_wfi m \<or> q = Boot_check m" using next_pc by (auto split: if_splits)
    show ?thesis unfolding pt(1,2) by (rule boot_inv_upd [OF inv]) (use Boot_mip pt(3) in auto)
  next
    case (Boot_unmark m)
    then have pt: "p = Boot_warm" "t = csr_write h CSR_MIE m (coldboot_unmark h s)" using next_pc by simp_all
    have "mask_marks (P(h := p)) (coldboot_wait_hmask t)"
      unfolding pt coldboot_unmark_def using mask_marks_unmark [OF i(5)] by (simp add: csr_write_def)
    moreover have "ids_ok (P(h := p))" "one_cold (P(h := p))" "lottery_open (P(h := p)) (coldboot_lottery s)"
      "done_told (P(h := p)) (coldboot_done s)"
      by (rule boot_parts [OF inv]; simp add: Boot_unmark pt(1))+
    moreover have "none_lost (P(h := p)) t"
      unfolding pt by (rule none_lost_upd [OF i(6)]) (simp_all add: msip_pending_def coldboot_unmark_def csr_write_def)
    ultimately show ?thesis by (simp add: boot_inv_def pt(2) coldboot_unmark_def csr_write_def)
  next
    case Boot_warm
    then show ?thesis using inv next_pc by (simp add: fun_upd_idem)
  qed (use at in simp_all)
qed

lemma code_inv:
  assumes inv: "boot_inv \<lparr>lib = s, pc = P\<rparr>" and next_pc: "boot_next h (P h) s = (p, t)"
  shows "boot_inv \<lparr>lib = t, pc = P(h := p)\<rparr>"
proof -
  consider "P h = Boot_entry" | "cold_pc (P h)" | "P h = Boot_mark \<or> waits_pc (P h) \<or> P h = Boot_warm"
    by (cases "P h") simp_all
  then show ?thesis
  proof cases
    case 1
    then show ?thesis using next_pc by (intro entry_inv [OF inv]) simp_all
  qed (use boot_hart_inv [OF inv _ next_pc] waiting_hart_inv [OF inv _ next_pc] in blast)+
qed

lemma boot_step_inv:
  assumes "boot_step h S S'" "boot_inv S"
  shows "boot_inv S'"
  using assms(1)
proof (cases rule: boot_step.cases)
  case (code p s)
  have "boot_inv \<lparr>lib = lib S, pc = pc S\<rparr>" using assms(2) by (cases S) simp
  then have "boot_inv \<lparr>lib = with_msip h (lib S), pc = pc S\<rparr>"
    by (rule boot_inv_frame) (simp_all add: with_msip_def)
  then show ?thesis unfolding code(1) using code(3) by (rule code_inv)
next
  case (cold_work s)
  have "one_cold (pc S)" using assms(2) by (simp add: boot_inv_def)
  from cold_alone [OF this cold_work(2)] have "none_lost (pc S) s" by (rule none_lost_before)
  then show ?thesis using assms(2) cold_work(3) unfolding cold_work(1) by (simp add: boot_inv_def works_def)
next
  case (later_work s)
  then have "\<not> asleep (pc S h)" by auto
  then have "none_lost (pc S) s"
    using assms(2) later_work(4,5) by (intro none_lost_works [OF _ later_work(3)]) (simp_all add: boot_inv_def)
  then show ?thesis using assms(2) later_work(3) unfolding later_work(1) by (simp add: boot_inv_def works_def)
qed

lemma boot_reach_inv: "boot_reach S \<Longrightarrow> boot_inv S"
proof (induction rule: boot_reach.induct)
  case (start s)
  then show ?case
    by (auto simp: boot_inv_def ids_ok_def one_cold_def lottery_open_def done_told_def mask_marks_def none_lost_def)
next
  case (step S h S')
  then show ?case using boot_step_inv by blast
qed

text \<open>A hart whose interrupt is pending leaves the wait by itself once the boot is done.\<close>

inductive alone_reach :: "nat \<Rightarrow> boot_state \<Rightarrow> boot_state \<Rightarrow> bool" for h where
  here: "alone_reach h S S"
| there: "boot_step h S T \<Longrightarrow> alone_reach h T U \<Longrightarrow> alone_reach h S U"

lemma msip_seen: "(csr (with_msip h s) h CSR_MIP AND MIP_MSIP \<noteq> 0) = msip_pending h s"
proof -
  have "((w AND NOT k) OR (if b then k else 0)) AND k = (if b then k else 0)" for w k :: ulong and b
    by (simp only: insert_and_same) simp
  from this [of "csr s h CSR_MIP" MIP_MSIP "msip_pending h s"] show ?thesis
    by (auto simp: with_msip_def split: if_splits)
qed

lemma check_leaves:
  assumes "pc S i = Boot_check m" "coldboot_done (lib S) \<noteq> 0" "free_lock (pc S)"
  shows "\<exists>T. alone_reach i S T \<and> pc T i = Boot_warm"
proof -
  let ?S1 = "\<lparr>lib = with_msip i (lib S), pc = (pc S)(i := Boot_unmark m)\<rparr>"
  have one: "boot_step i S ?S1"
    by (rule boot_step.code) (use assms in \<open>simp_all add: with_msip_def\<close>)
  let ?n = "boot_next i (Boot_unmark m) (with_msip i (lib ?S1))"
  let ?S2 = "\<lparr>lib = snd ?n, pc = (pc ?S1)(i := fst ?n)\<rparr>"
  have "boot_step i ?S1 ?S2"
    by (rule boot_step.code) (use assms in \<open>simp_all add: free_lock_def\<close>)
  then have "alone_reach i S ?S2" by (intro alone_reach.there [OF one] alone_reach.there [OF _ alone_reach.here])
  then show ?thesis by (intro exI [of _ ?S2]) simp
qed

lemma mip_leaves:
  assumes "pc S i = Boot_mip m" "msip_pending i (lib S)" "coldboot_done (lib S) \<noteq> 0" "free_lock (pc S)"
  shows "\<exists>T. alone_reach i S T \<and> pc T i = Boot_warm"
proof -
  let ?S1 = "\<lparr>lib = with_msip i (lib S), pc = (pc S)(i := Boot_check m)\<rparr>"
  have "boot_step i S ?S1"
    by (rule boot_step.code) (use assms msip_seen [of i "lib S"] in \<open>simp_all add: csr_read_def\<close>)
  moreover have "\<exists>T. alone_reach i ?S1 T \<and> pc T i = Boot_warm"
    by (rule check_leaves) (use assms in \<open>simp_all add: with_msip_def free_lock_def\<close>)
  ultimately show ?thesis by (blast intro: alone_reach.there)
qed

lemma wakes_up:
  assumes "asleep (pc S i)" "msip_pending i (lib S)" "coldboot_done (lib S) \<noteq> 0" "free_lock (pc S)"
  shows "\<exists>T. alone_reach i S T \<and> pc T i = Boot_warm"
proof (cases "pc S i")
  case (Boot_wfi m)
  let ?S1 = "\<lparr>lib = emit (Ev_wfi i) (with_msip i (lib S)), pc = (pc S)(i := Boot_mip m)\<rparr>"
  have "boot_step i S ?S1" by (rule boot_step.code) (use Boot_wfi in simp_all)
  moreover have "\<exists>T. alone_reach i ?S1 T \<and> pc T i = Boot_warm"
    by (rule mip_leaves) (use assms in \<open>simp_all add: with_msip_def emit_def msip_pending_def free_lock_def\<close>)
  ultimately show ?thesis by (blast intro: alone_reach.there)
qed (use assms mip_leaves in simp_all)

section \<open>A run of two harts\<close>

definition init0 :: init_state where
  "init0 = ecall_state.extend ecall0 \<lparr>coldboot_wait_hmask = sbi_hartmask_empty, coldboot_done = 0,
     coldboot_lottery = 0\<rparr>"

lemmas init0_defs = ecall0_defs init0_def init_state.defs

text \<open>The harts have the supervisor mode.\<close>

definition boot0 :: init_state where
  "boot0 = init0\<lparr>csr := (\<lambda>h n. if n = CSR_MISA then 0x140000 else 0)\<rparr>"

text \<open>Harts 0 and 1 take turns; an execution of the code's steps for a list of turns.\<close>

definition code_step :: "boot_state \<Rightarrow> nat \<Rightarrow> boot_state" where
  "code_step S h = (case boot_next h (pc S h) (with_msip h (lib S)) of (p, s) \<Rightarrow> \<lparr>lib = s, pc = (pc S)(h := p)\<rparr>)"

fun in_wake :: "boot_pc \<Rightarrow> bool" where
  "in_wake (Boot_wake i) = True" | "in_wake p = False"

fun turns_ok :: "nat list \<Rightarrow> boot_state \<Rightarrow> bool" where
  "turns_ok [] S = True"
| "turns_ok (h # hs) S = (h \<le> 1 \<and> (takes_lock (pc S h) \<longrightarrow> \<not> in_wake (pc S 0) \<and> \<not> in_wake (pc S 1))
     \<and> turns_ok hs (code_step S h))"

lemma turns_reach:
  "turns_ok hs S \<Longrightarrow> boot_reach S \<Longrightarrow> \<forall>g>1. \<not> in_wake (pc S g) \<Longrightarrow> boot_reach (foldl code_step S hs)"
proof (induction hs arbitrary: S)
  case (Cons h hs)
  have h: "h = 0 \<or> h = 1" using Cons.prems(1) by auto
  have free: "free_lock (pc S)" if "\<not> in_wake (pc S 0)" "\<not> in_wake (pc S 1)"
    unfolding free_lock_def
  proof (intro allI)
    fix g i
    have "\<not> in_wake (pc S g)" using that Cons.prems(3) by (cases "g = 0"; cases "g = 1") simp_all
    then show "pc S g \<noteq> Boot_wake i" by auto
  qed
  obtain p s where n: "boot_next h (pc S h) (with_msip h (lib S)) = (p, s)" by fastforce
  then have S': "code_step S h = \<lparr>lib = s, pc = (pc S)(h := p)\<rparr>" by (simp add: code_step_def)
  have "boot_step h S (code_step S h)"
    unfolding S' using Cons.prems(1) free by (intro boot_step.code [OF _ n]) auto
  then have "boot_reach (code_step S h)" by (rule boot_reach.step [OF Cons.prems(2)])
  moreover have "\<forall>g>1. \<not> in_wake (pc (code_step S h) g)" using Cons.prems(3) h by (auto simp: S')
  ultimately show ?case using Cons.IH [of "code_step S h"] Cons.prems(1) by simp
qed simp

text \<open>Hart 0 wins the lottery, hart 1 marks itself and goes to sleep, then hart 0 finishes the boot and
  wakes the others.\<close>

definition boot_run :: boot_state where
  "boot_run = foldl code_step \<lparr>lib = boot0, pc = (\<lambda>h. Boot_entry)\<rparr> [0, 1, 1, 1, 1, 0, 0, 0, 0, 0, 0, 0]"

lemma boot_run_reach: "boot_reach boot_run"
proof -
  have "boot_reach \<lparr>lib = boot0, pc = (\<lambda>h. Boot_entry)\<rparr>"
    by (rule boot_reach.start) (simp_all add: boot0_def init0_defs)
  moreover have "turns_ok [0, 1, 1, 1, 1, 0, 0, 0, 0, 0, 0, 0] \<lparr>lib = boot0, pc = (\<lambda>h. Boot_entry)\<rparr>" by code_simp
  ultimately show ?thesis unfolding boot_run_def by (intro turns_reach) simp_all
qed

lemma boot_run_pc: "pc boot_run 0 = Boot_woken" "pc boot_run 1 = Boot_mip 0" "last_hartid (lib boot_run) = 3"
  "map_option ipi_send_fn (ipi_dev (lib boot_run)) = Some True"
  by code_simp+

section \<open>Properties\<close>

text \<open>C8. Of all harts that enter the library, in any interleaving, at most one does the cold boot, and
  no hart gets past the wait to its own initialisation before that one has finished the library's.\<close>

theorem boot_once_then_others:
  assumes "boot_reach S"
  shows "(cold_pc (pc S g) \<longrightarrow> cold_pc (pc S h) \<longrightarrow> g = h)
    \<and> (pc S h = Boot_warm \<longrightarrow> pc S g \<noteq> Boot_cold)"
proof -
  have inv: "one_cold (pc S)" "done_told (pc S) (coldboot_done (lib S))"
    using boot_reach_inv [OF assms] by (simp_all add: boot_inv_def)
  have "pc S g \<noteq> Boot_cold" if warm: "pc S h = Boot_warm"
  proof
    assume cold: "pc S g = Boot_cold"
    have "coldboot_done (lib S) \<noteq> 0" using inv(2) warm unfolding done_told_def by (metis knows_done.simps(2))
    then obtain f where f: "past_done (pc S f)" using inv(2) by (auto simp: done_told_def)
    then have "cold_pc (pc S f)" by (cases "pc S f") simp_all
    then have "f = g" using inv(1) cold unfolding one_cold_def by (metis cold_pc.simps(1))
    then show False using f cold by simp
  qed
  then show ?thesis using inv(1) unfolding one_cold_def by blast
qed

theorem boot_once_then_others_witness:
  "\<not> cold_pc (pc boot_run 1)"
  using boot_once_then_others [OF boot_run_reach, of 0 1] boot_run_pc by auto

text \<open>C7. No wake-up is lost: when the boot hart has gone through its loop, every hart that still sleeps
  in the wait for the boot (and has an id the loop covers) has its software interrupt pending, and
  steps of its own take it to the end of the wait, if the IPI device works.\<close>

theorem boot_wakeup_not_lost:
  assumes "boot_reach S" "pc S c = Boot_woken" "asleep (pc S i)" "i \<le> last_hartid (lib S)"
    and "ipi_works (lib S)"
  shows "msip_pending i (lib S) \<and> (\<exists>T. alone_reach i S T \<and> pc T i = Boot_warm)"
proof -
  have inv: "one_cold (pc S)" "done_told (pc S) (coldboot_done (lib S))" "none_lost (pc S) (lib S)"
    using boot_reach_inv [OF assms(1)] by (simp_all add: boot_inv_def)
  have "has_woken (last_hartid (lib S)) i (pc S c)" using assms(2,4) by simp
  then have pend: "msip_pending i (lib S)" using inv(3) assms(3,5) unfolding none_lost_def by blast
  have "coldboot_done (lib S) \<noteq> 0"
    using inv(2) assms(2) unfolding done_told_def by (metis past_done.simps(3))
  moreover have "free_lock (pc S)"
    unfolding free_lock_def
  proof (intro allI notI)
    fix h k assume "pc S h = Boot_wake k"
    then have "h = c" using inv(1) assms(2) unfolding one_cold_def by (metis cold_pc.simps(3,4))
    then show False using \<open>pc S h = Boot_wake k\<close> assms(2) by simp
  qed
  ultimately show ?thesis using pend wakes_up [OF assms(3)] by blast
qed

theorem boot_wakeup_not_lost_witness: "msip_pending 1 (lib boot_run)"
proof -
  have "ipi_works (lib boot_run)" using boot_run_pc(4) by (auto simp: ipi_works_def)
  then show ?thesis
    using boot_wakeup_not_lost [OF boot_run_reach boot_run_pc(1), of 1] boot_run_pc by simp
qed


end
