(* ===== verification/Sbi_Mmio.thy ===== *)
theory Sbi_Mmio
  imports Sbi_Prelude "HOL-Library.Sublist"
begin

text \<open>
  Access to device registers (\<^verbatim>\<open>include/sbi/riscv_io.h\<close>). What a device answers and how it changes
  is the device's business: an \<open>io_bus\<close> is a parameter that says, for a device state of any type,
  what a load from an address returns and what loads and stores do to the state. The fences around
  the accesses order them; the model keeps the order of the program.

  \<open>word_registers\<close> is what the drivers rely on where they use a device as a set of registers: a
  32 bit register keeps what was stored into it, and storing into one register changes no other.
\<close>

record 'd io_bus =
  raw_readb :: "ulong \<Rightarrow> 'd \<Rightarrow> u8 \<times> 'd"
  raw_readw :: "ulong \<Rightarrow> 'd \<Rightarrow> u16 \<times> 'd"
  raw_readl :: "ulong \<Rightarrow> 'd \<Rightarrow> u32 \<times> 'd"
  raw_readq :: "ulong \<Rightarrow> 'd \<Rightarrow> u64 \<times> 'd"
  raw_writeb :: "u8 \<Rightarrow> ulong \<Rightarrow> 'd \<Rightarrow> 'd"
  raw_writew :: "u16 \<Rightarrow> ulong \<Rightarrow> 'd \<Rightarrow> 'd"
  raw_writel :: "u32 \<Rightarrow> ulong \<Rightarrow> 'd \<Rightarrow> 'd"
  raw_writeq :: "u64 \<Rightarrow> ulong \<Rightarrow> 'd \<Rightarrow> 'd"

section \<open>Addresses\<close>

lemma unat_add_of_nat:
  assumes "unat (a :: ulong) + k < 2 ^ 64"
  shows "unat (a + of_nat k) = unat a + k"
proof -
  have "unat (of_nat k :: ulong) = k" using assms by (simp add: unat_of_nat)
  then show ?thesis using assms by (simp add: unat_add_lem [THEN iffD1])
qed

lemma ucast_of_nat_up: "n < 2 ^ 32 \<Longrightarrow> ucast (of_nat n :: u32) = (of_nat n :: ulong)"
  by (simp add: unsigned_of_nat take_bit_nat_eq_self)

lemma page_aligned_unat: "(a :: ulong) AND 0xfff = 0 \<Longrightarrow> unat a mod 4096 = 0"
proof -
  assume "a AND 0xfff = 0"
  then have "take_bit 12 a = 0" by (simp add: take_bit_eq_mask mask_eq_exp_minus_1)
  then have "take_bit 12 (unat a) = 0" by (metis unsigned_take_bit_eq unsigned_0)
  then show ?thesis by (simp add: take_bit_eq_mod)
qed

lemma page_aligned_word: "(a :: ulong) AND 0xfff = 0 \<Longrightarrow> 4 dvd unat a"
  using page_aligned_unat [of a] dvd_trans [of 4 4096 "unat a"] by (simp add: mod_eq_0_iff_dvd)

section \<open>Sequences of stores\<close>

definition writes_l :: "'d io_bus \<Rightarrow> (ulong \<times> u32) list \<Rightarrow> 'd \<Rightarrow> 'd" where
  "writes_l b ws d = fold (\<lambda>(a, v) d. raw_writel b v a d) ws d"

lemma writes_l_simps [simp]:
  "writes_l b [] d = d"
  "writes_l b ((a, v) # ws) d = writes_l b ws (raw_writel b v a d)"
  "writes_l b (ws @ vs) d = writes_l b vs (writes_l b ws d)"
  by (simp_all add: writes_l_def)

section \<open>Devices that are registers\<close>

definition word_registers :: "'d io_bus \<Rightarrow> ('d \<Rightarrow> ulong \<Rightarrow> u32) \<Rightarrow> bool" where
  "word_registers b reg \<longleftrightarrow>
     (\<forall>a v d. 4 dvd unat a \<longrightarrow> reg (raw_writel b v a d) = (reg d)(a := v)) \<and>
     (\<forall>a d. 4 dvd unat a \<longrightarrow> fst (raw_readl b a d) = reg d a \<and> reg (snd (raw_readl b a d)) = reg d)"

lemma word_registers_write:
  "word_registers b reg \<Longrightarrow> 4 dvd unat a \<Longrightarrow> reg (raw_writel b v a d) = (reg d)(a := v)"
  by (simp add: word_registers_def)

lemma word_registers_read:
  "word_registers b reg \<Longrightarrow> 4 dvd unat a \<Longrightarrow> fst (raw_readl b a d) = reg d a"
  "word_registers b reg \<Longrightarrow> 4 dvd unat a \<Longrightarrow> reg (snd (raw_readl b a d)) = reg d"
  by (simp_all add: word_registers_def)

lemma word_registers_writes:
  assumes "word_registers b reg" and "\<forall>w\<in>set ws. 4 dvd unat (fst w)"
  shows "reg (writes_l b ws d) = fold (\<lambda>(a, v) r. r(a := v)) ws (reg d)"
  using assms(2) by (induction ws arbitrary: d) (auto simp: word_registers_write [OF assms(1)])

lemma fold_upd_other:
  "a \<notin> fst ` set ws \<Longrightarrow> fold (\<lambda>(a, v) r. r(a := v)) ws r a = r a"
  by (induction ws arbitrary: r) auto

lemma fold_upd_const:
  "\<forall>w\<in>set ws. snd w = v \<Longrightarrow>
     fold (\<lambda>(a, v) r. r(a := v)) ws r a = (if a \<in> fst ` set ws then v else r a)"
  by (induction ws arbitrary: r) auto

text \<open>A bus whose words are registers and nothing else, for concrete runs.\<close>

definition register_bus :: "(ulong \<Rightarrow> u32) io_bus" where
  "register_bus =
     \<lparr>raw_readb = \<lambda>a r. (ucast (r a), r), raw_readw = \<lambda>a r. (ucast (r a), r),
      raw_readl = \<lambda>a r. (r a, r),
      raw_readq = \<lambda>a r. (ucast (r a) OR push_bit 32 (ucast (r (a + 4))), r),
      raw_writeb = \<lambda>v a r. r(a := ucast v), raw_writew = \<lambda>v a r. r(a := ucast v),
      raw_writel = \<lambda>v a r. r(a := v),
      raw_writeq = \<lambda>v a r. r(a := ucast v, a + 4 := ucast (drop_bit 32 v))\<rparr>"

lemma register_bus_words: "word_registers register_bus (\<lambda>r. r)"
  by (simp add: word_registers_def register_bus_def)

section \<open>The stores a driver makes\<close>

text \<open>
  \<open>log_bus b\<close> is the device of \<open>b\<close> with a log of the 32 bit stores. A computation that returns an
  error code \<open>logs\<close> a sequence of stores when it makes exactly these stores if it succeeds, and an
  initial part of them if it fails.
\<close>

definition log_bus :: "'d io_bus \<Rightarrow> ('d \<times> (ulong \<times> u32) list) io_bus" where
  "log_bus b =
     \<lparr>raw_readb = \<lambda>a (d, l). case raw_readb b a d of (v, d) \<Rightarrow> (v, d, l),
      raw_readw = \<lambda>a (d, l). case raw_readw b a d of (v, d) \<Rightarrow> (v, d, l),
      raw_readl = \<lambda>a (d, l). case raw_readl b a d of (v, d) \<Rightarrow> (v, d, l),
      raw_readq = \<lambda>a (d, l). case raw_readq b a d of (v, d) \<Rightarrow> (v, d, l),
      raw_writeb = \<lambda>v a (d, l). (raw_writeb b v a d, l),
      raw_writew = \<lambda>v a (d, l). (raw_writew b v a d, l),
      raw_writel = \<lambda>v a (d, l). (raw_writel b v a d, l @ [(a, v)]),
      raw_writeq = \<lambda>v a (d, l). (raw_writeq b v a d, l)\<rparr>"

definition io_then :: "int \<times> 'd \<Rightarrow> ('d \<Rightarrow> int \<times> 'd) \<Rightarrow> int \<times> 'd" where
  "io_then m f = (case m of (rc, d) \<Rightarrow> if rc \<noteq> 0 then (rc, d) else f d)"

definition logs :: "('d \<times> 'w list \<Rightarrow> int \<times> 'd \<times> 'w list) \<Rightarrow> 'w list \<Rightarrow> bool" where
  "logs f ws \<longleftrightarrow> (\<forall>d l. case f (d, l) of (rc, d', l') \<Rightarrow>
     \<exists>vs. l' = l @ vs \<and> prefix vs ws \<and> (rc = 0 \<longrightarrow> vs = ws))"

lemma logsI:
  assumes "\<And>d l. \<exists>rc d' vs. f (d, l) = (rc, d', l @ vs) \<and> prefix vs ws \<and> (rc = 0 \<longrightarrow> vs = ws)"
  shows "logs f ws"
proof (unfold logs_def, intro allI)
  fix d l
  obtain rc d' vs where "f (d, l) = (rc, d', l @ vs)" "prefix vs ws" "rc = 0 \<longrightarrow> vs = ws"
    using assms [of d l] by blast
  then show "case f (d, l) of (rc, d', l') \<Rightarrow> \<exists>vs. l' = l @ vs \<and> prefix vs ws \<and> (rc = 0 \<longrightarrow> vs = ws)"
    by simp
qed

lemma logsD:
  assumes "logs f ws"
  obtains rc d' vs where "f (d, l) = (rc, d', l @ vs)" "prefix vs ws" "rc = 0 \<longrightarrow> vs = ws"
proof -
  obtain rc d' l' where f: "f (d, l) = (rc, d', l')" by (metis prod.exhaust)
  from assms have "case f (d, l) of (rc, d', l') \<Rightarrow> \<exists>vs. l' = l @ vs \<and> prefix vs ws \<and> (rc = 0 \<longrightarrow> vs = ws)"
    unfolding logs_def by (elim allE)
  then obtain vs where "l' = l @ vs" "prefix vs ws" "rc = 0 \<longrightarrow> vs = ws" unfolding f by auto
  then show thesis using that f by blast
qed

lemma logs_return: "logs (\<lambda>d. (rc, d)) []"
  by (rule logsI) auto

lemma logs_then:
  assumes "logs f ws" "logs g vs"
  shows "logs (\<lambda>d. io_then (f d) g) (ws @ vs)"
proof (rule logsI)
  fix d l
  obtain rc d1 us where f: "f (d, l) = (rc, d1, l @ us)" "prefix us ws" "rc = 0 \<longrightarrow> us = ws"
    by (rule logsD [OF assms(1)])
  obtain rc2 d2 us2 where g: "g (d1, l @ us) = (rc2, d2, (l @ us) @ us2)" "prefix us2 vs" "rc2 = 0 \<longrightarrow> us2 = vs"
    by (rule logsD [OF assms(2)])
  show "\<exists>rc d' xs. io_then (f (d, l)) g = (rc, d', l @ xs) \<and> prefix xs (ws @ vs) \<and> (rc = 0 \<longrightarrow> xs = ws @ vs)"
  proof (cases "rc = 0")
    case True
    then show ?thesis using f g by (auto simp: io_then_def)
  next
    case False
    then show ?thesis using f by (auto simp: io_then_def intro: prefix_prefix)
  qed
qed

section \<open>Tables indexed by hart id\<close>

text \<open>
  The drivers keep a table with an entry per possible hart and fill a range of it in a loop;
  \<open>None\<close> is a store behind the end of the table.
\<close>

fun fill_slots :: "'x \<Rightarrow> nat \<Rightarrow> nat \<Rightarrow> 'x option list \<Rightarrow> 'x option list option" where
  "fill_slots x k 0 tab = Some tab"
| "fill_slots x k (Suc n) tab = (if length tab \<le> k then None else fill_slots x (k + 1) n (tab[k := Some x]))"

lemma fill_slots_length: "fill_slots x k n tab = Some tab' \<Longrightarrow> length tab' = length tab"
  by (induction n arbitrary: k tab) (auto split: if_splits)

lemma fill_slots_nth:
  "fill_slots x k n tab = Some tab' \<Longrightarrow> i < length tab \<Longrightarrow>
     tab' ! i = (if k \<le> i \<and> i < k + n then Some x else tab ! i)"
proof (induction n arbitrary: k tab)
  case (Suc n)
  from Suc.prems have "k < length tab" "fill_slots x (k + 1) n (tab[k := Some x]) = Some tab'"
    by (auto split: if_splits)
  from Suc.IH [OF this(2)] Suc.prems(2) show ?case by (auto simp: nth_list_update)
qed auto

lemma fill_slots_None_iff: "fill_slots x k n tab = None \<longleftrightarrow> 0 < n \<and> length tab < k + n"
  by (induction n arbitrary: k tab) auto

end
