(* ===== verification/Irqchip_Plic.thy ===== *)
theory Irqchip_Plic
  imports Sbi_Mmio
begin

text \<open>
  The platform level interrupt controller (\<^verbatim>\<open>lib/utils/irqchip/plic.c\<close>): which registers the
  driver stores into, and what that leaves in them. The register addresses are computed in 32 bit
  arithmetic before they are added to the base address, as in the code.
\<close>

record plic_data =
  plic_addr :: ulong
  plic_num_src :: ulong

definition plic_set_priority :: "'d io_bus \<Rightarrow> plic_data \<Rightarrow> u32 \<Rightarrow> u32 \<Rightarrow> 'd \<Rightarrow> 'd" where
  "plic_set_priority b plic source val d =
     raw_writel b val (plic_addr plic + 0x0 + ucast (4 * source)) d"

definition plic_set_thresh :: "'d io_bus \<Rightarrow> plic_data option \<Rightarrow> u32 \<Rightarrow> u32 \<Rightarrow> 'd \<Rightarrow> 'd" where
  "plic_set_thresh b plic cntxid val d =
     (case plic of None \<Rightarrow> d
      | Some p \<Rightarrow> raw_writel b val (plic_addr p + 0x200000 + ucast (0x1000 * cntxid)) d)"

definition plic_set_ie :: "'d io_bus \<Rightarrow> plic_data option \<Rightarrow> u32 \<Rightarrow> u32 \<Rightarrow> u32 \<Rightarrow> 'd \<Rightarrow> 'd" where
  "plic_set_ie b plic cntxid word_index val d =
     (case plic of None \<Rightarrow> d
      | Some p \<Rightarrow>
          raw_writel b val (plic_addr p + 0x2000 + ucast (0x80 * cntxid) + ucast (word_index * 4)) d)"

text \<open>A context id is a C \<^verbatim>\<open>int\<close>; -1 says the hart has no such context.\<close>

definition plic_warm_irqchip_init ::
  "'d io_bus \<Rightarrow> plic_data option \<Rightarrow> int \<Rightarrow> int \<Rightarrow> 'd \<Rightarrow> int \<times> 'd" where
  "plic_warm_irqchip_init b plic m_cntx_id s_cntx_id d =
     (case plic of None \<Rightarrow> (SBI_EINVAL, d)
      | Some p \<Rightarrow>
          let ie_words = unat (plic_num_src p div 32 + 1);
              d = (if m_cntx_id > - 1
                   then fold (\<lambda>i. plic_set_ie b plic (word_of_int m_cntx_id) (of_nat i) 0) [0..<ie_words] d
                   else d);
              d = (if s_cntx_id > - 1
                   then fold (\<lambda>i. plic_set_ie b plic (word_of_int s_cntx_id) (of_nat i) 0) [0..<ie_words] d
                   else d);
              d = (if m_cntx_id > - 1 then plic_set_thresh b plic (word_of_int m_cntx_id) 0x7 d else d);
              d = (if s_cntx_id > - 1 then plic_set_thresh b plic (word_of_int s_cntx_id) 0x7 d else d)
          in (0, d))"

text \<open>
  The loop variable is an \<^verbatim>\<open>int\<close> compared with an \<^verbatim>\<open>unsigned long\<close>: with \<^verbatim>\<open>2 ^ 31\<close> sources or more
  it overflows.
\<close>

definition plic_cold_irqchip_init ::
  "'d io_bus \<Rightarrow> plic_data option \<Rightarrow> 'd \<Rightarrow> (int, 'd) flow" where
  "plic_cold_irqchip_init b plic d =
     (case plic of None \<Rightarrow> Ret SBI_EINVAL d
      | Some p \<Rightarrow>
          let d' = fold (\<lambda>i. plic_set_priority b p (of_nat i) 0) [1..<min (unat (plic_num_src p) + 1) (2 ^ 31)] d
          in if 2 ^ 31 \<le> plic_num_src p then Undef d' else Ret 0 d')"

section \<open>The registers of a context\<close>

definition ie_reg :: "plic_data \<Rightarrow> nat \<Rightarrow> nat \<Rightarrow> ulong" where
  "ie_reg p c i = plic_addr p + of_nat (0x2000 + 0x80 * c + 4 * i)"

definition thresh_reg :: "plic_data \<Rightarrow> nat \<Rightarrow> ulong" where
  "thresh_reg p c = plic_addr p + of_nat (0x200000 + 0x1000 * c)"

definition priority_reg :: "plic_data \<Rightarrow> nat \<Rightarrow> ulong" where
  "priority_reg p i = plic_addr p + of_nat (4 * i)"

text \<open>
  The architecture's limits: 15872 contexts, 1023 sources, and a base address that leaves room for
  the register map.
\<close>

definition plic_ok :: "plic_data \<Rightarrow> bool" where
  "plic_ok p \<longleftrightarrow> 4 dvd unat (plic_addr p) \<and> unat (plic_addr p) + 0x4000000 \<le> 2 ^ 64
     \<and> plic_num_src p \<le> 1023"

lemma unat_plic_off:
  assumes "plic_ok p" "n < 0x4000000"
  shows "unat (plic_addr p + of_nat n) = unat (plic_addr p) + n"
  using assms by (simp add: plic_ok_def unat_add_of_nat)

lemma plic_off_inj:
  assumes "plic_ok p" "n < 0x4000000" "m < 0x4000000"
  shows "plic_addr p + of_nat n = plic_addr p + of_nat m \<longleftrightarrow> n = m"
  using unat_plic_off [OF assms(1,2)] unat_plic_off [OF assms(1,3)] by (metis add_left_cancel)

lemma plic_off_aligned:
  assumes "plic_ok p" "n < 0x4000000" "4 dvd n"
  shows "4 dvd unat (plic_addr p + of_nat n)"
  using assms by (simp add: unat_plic_off plic_ok_def)

lemma plic_set_ie_eq:
  assumes "c < 15872" "i < 32"
  shows "plic_set_ie b (Some p) (of_nat c) (of_nat i) v d = raw_writel b v (ie_reg p c i) d"
proof -
  have "ucast (0x80 * of_nat c :: u32) = (of_nat (0x80 * c) :: ulong)"
    using ucast_of_nat_up [of "0x80 * c"] assms by simp
  moreover have "ucast (of_nat i * 4 :: u32) = (of_nat (4 * i) :: ulong)"
    using ucast_of_nat_up [of "4 * i"] assms by (simp add: mult.commute)
  ultimately show ?thesis by (simp add: plic_set_ie_def ie_reg_def add.assoc)
qed

lemma plic_set_thresh_eq:
  assumes "c < 15872"
  shows "plic_set_thresh b (Some p) (of_nat c) v d = raw_writel b v (thresh_reg p c) d"
proof -
  have "ucast (0x1000 * of_nat c :: u32) = (of_nat (0x1000 * c) :: ulong)"
    using ucast_of_nat_up [of "0x1000 * c"] assms by simp
  then show ?thesis by (simp add: plic_set_thresh_def thresh_reg_def add.assoc)
qed

lemma plic_set_priority_eq:
  assumes "i < 2 ^ 30"
  shows "plic_set_priority b p (of_nat i) v d = raw_writel b v (priority_reg p i) d"
proof -
  have "ucast (4 * of_nat i :: u32) = (of_nat (4 * i) :: ulong)"
    using ucast_of_nat_up [of "4 * i"] assms by simp
  then show ?thesis by (simp add: plic_set_priority_def priority_reg_def)
qed

lemma fold_ie_writes:
  assumes "c < 15872" "n \<le> 32"
  shows "fold (\<lambda>i. plic_set_ie b (Some p) (of_nat c) (of_nat i) 0) [0..<n] d
       = writes_l b (map (\<lambda>i. (ie_reg p c i, 0)) [0..<n]) d"
  using assms(2)
  by (induction n arbitrary: d) (simp_all add: plic_set_ie_eq [OF assms(1)])

section \<open>What the initialisation leaves in the registers\<close>

lemma ie_words_eq:
  assumes "plic_ok p"
  shows "unat (plic_num_src p div 32 + 1) = unat (plic_num_src p) div 32 + 1"
    and "unat (plic_num_src p) div 32 + 1 \<le> 32"
proof -
  have le: "unat (plic_num_src p) \<le> 1023" using assms by (simp add: plic_ok_def word_le_nat_alt)
  then show "unat (plic_num_src p) div 32 + 1 \<le> 32" by simp
  have "unat (plic_num_src p div 32) = unat (plic_num_src p) div 32" by (simp add: unat_div)
  moreover have "unat (plic_num_src p) div 32 < 32" using le by simp
  ultimately show "unat (plic_num_src p div 32 + 1) = unat (plic_num_src p) div 32 + 1"
    by (subst unat_add_lem [THEN iffD1]) simp_all
qed

definition warm_writes :: "plic_data \<Rightarrow> int \<Rightarrow> int \<Rightarrow> (ulong \<times> u32) list" where
  "warm_writes p m s =
     (let n = unat (plic_num_src p) div 32 + 1
      in (if m > - 1 then map (\<lambda>i. (ie_reg p (nat m) i, 0)) [0..<n] else []) @
         (if s > - 1 then map (\<lambda>i. (ie_reg p (nat s) i, 0)) [0..<n] else []) @
         (if m > - 1 then [(thresh_reg p (nat m), 7)] else []) @
         (if s > - 1 then [(thresh_reg p (nat s), 7)] else []))"

lemma plic_warm_init_writes:
  assumes "plic_ok p" "m < 15872" "s < 15872"
  shows "plic_warm_irqchip_init b (Some p) m s d = (0, writes_l b (warm_writes p m s) d)"
proof -
  have wi: "word_of_int k = (of_nat (nat k) :: u32)" if "k > - 1" for k
    using that by simp
  show ?thesis
    using assms ie_words_eq [OF assms(1)]
    by (simp add: plic_warm_irqchip_init_def warm_writes_def Let_def wi fold_ie_writes plic_set_thresh_eq plic_set_ie_eq
          del: of_nat_nat)
qed

lemma plic_regs_aligned:
  assumes "plic_ok p" "c < 15872"
  shows "i < 32 \<Longrightarrow> 4 dvd unat (ie_reg p c i)" and "4 dvd unat (thresh_reg p c)"
  unfolding ie_reg_def thresh_reg_def using assms by (intro plic_off_aligned; simp)+

definition ie_writes :: "plic_data \<Rightarrow> nat \<Rightarrow> int \<Rightarrow> (ulong \<times> u32) list" where
  "ie_writes p n k = (if k > - 1 then map (\<lambda>i. (ie_reg p (nat k) i, 0)) [0..<n] else [])"

definition thresh_writes :: "plic_data \<Rightarrow> int \<Rightarrow> (ulong \<times> u32) list" where
  "thresh_writes p k = (if k > - 1 then [(thresh_reg p (nat k), 7)] else [])"

lemma warm_writes_split:
  "warm_writes p m s =
     (ie_writes p (unat (plic_num_src p) div 32 + 1) m @ ie_writes p (unat (plic_num_src p) div 32 + 1) s)
     @ (thresh_writes p m @ thresh_writes p s)"
  by (simp only: warm_writes_def ie_writes_def thresh_writes_def Let_def append_assoc)

lemma ie_writes_set: "w \<in> set (ie_writes p n k) \<longleftrightarrow> k > - 1 \<and> (\<exists>i<n. w = (ie_reg p (nat k) i, 0))"
  and thresh_writes_set: "w \<in> set (thresh_writes p k) \<longleftrightarrow> k > - 1 \<and> w = (thresh_reg p (nat k), 7)"
  by (auto simp: ie_writes_def thresh_writes_def)

lemma ie_writes_addr: "fst ` set (ie_writes p n k) = (if k > - 1 then ie_reg p (nat k) ` {..<n} else {})"
  and thresh_writes_addr: "fst ` set (thresh_writes p k) = (if k > - 1 then {thresh_reg p (nat k)} else {})"
  by (auto simp: ie_writes_def thresh_writes_def image_image)

lemma ctx_writes_aligned:
  assumes "plic_ok p" "k < 15872" "n \<le> 32"
  shows "\<forall>w\<in>set (ie_writes p n k). 4 dvd unat (fst w)" and "\<forall>w\<in>set (thresh_writes p k). 4 dvd unat (fst w)"
  using plic_regs_aligned [OF assms(1), of "nat k"] assms by (auto simp: ie_writes_set thresh_writes_set)

lemma warm_writes_aligned:
  assumes "plic_ok p" "m < 15872" "s < 15872"
  shows "\<forall>w\<in>set (warm_writes p m s). 4 dvd unat (fst w)"
  unfolding warm_writes_split set_append ball_Un
  using ctx_writes_aligned [OF assms(1,2) ie_words_eq(2) [OF assms(1)]]
    ctx_writes_aligned [OF assms(1,3) ie_words_eq(2) [OF assms(1)]] by blast

lemma plic_regs_eq:
  assumes "plic_ok p" "c < 15872" "c' < 15872" "i < 32" "i' < 32"
  shows "ie_reg p c i = ie_reg p c' i' \<longleftrightarrow> c = c' \<and> i = i'"
    and "thresh_reg p c = thresh_reg p c' \<longleftrightarrow> c = c'"
    and "ie_reg p c i \<noteq> thresh_reg p c'" "thresh_reg p c' \<noteq> ie_reg p c i"
proof -
  have "ie_reg p c i = ie_reg p c' i' \<longleftrightarrow> 0x2000 + 0x80 * c + 4 * i = 0x2000 + 0x80 * c' + 4 * i'"
    unfolding ie_reg_def using assms by (intro plic_off_inj) simp_all
  also have "\<dots> \<longleftrightarrow> c = c' \<and> i = i'"
    using assms by (cases c c' rule: linorder_cases) auto
  finally show "ie_reg p c i = ie_reg p c' i' \<longleftrightarrow> c = c' \<and> i = i'" .
  have "thresh_reg p c = thresh_reg p c' \<longleftrightarrow> 0x200000 + 0x1000 * c = 0x200000 + 0x1000 * c'"
    unfolding thresh_reg_def using assms by (intro plic_off_inj) simp_all
  then show "thresh_reg p c = thresh_reg p c' \<longleftrightarrow> c = c'" by simp
  have "ie_reg p c i = thresh_reg p c' \<longleftrightarrow> 0x2000 + 0x80 * c + 4 * i = 0x200000 + 0x1000 * c'"
    unfolding ie_reg_def thresh_reg_def using assms by (intro plic_off_inj) simp_all
  then show "ie_reg p c i \<noteq> thresh_reg p c'" "thresh_reg p c' \<noteq> ie_reg p c i" using assms by auto
qed

lemma warm_writes_result:
  assumes "plic_ok p" "m < 15872" "s < 15872" "c < 15872"
  shows "i < 32 \<Longrightarrow> fold (\<lambda>(a, v) r. r(a := v)) (warm_writes p m s) r (ie_reg p c i)
       = (if (int c = m \<or> int c = s) \<and> i \<le> unat (plic_num_src p) div 32 then 0 else r (ie_reg p c i))"
    and "fold (\<lambda>(a, v) r. r(a := v)) (warm_writes p m s) r (thresh_reg p c)
       = (if int c = m \<or> int c = s then 7 else r (thresh_reg p c))"
proof -
  define n where "n = unat (plic_num_src p) div 32 + 1"
  have n: "n \<le> 32" using ie_words_eq(2) [OF assms(1)] by (simp add: n_def)
  let ?z = "ie_writes p n m @ ie_writes p n s" and ?t = "thresh_writes p m @ thresh_writes p s"
  have split: "warm_writes p m s = ?z @ ?t" by (simp only: warm_writes_split n_def)
  have zero: "\<forall>w\<in>set ?z. snd w = 0" and seven: "\<forall>w\<in>set ?t. snd w = 7"
    by (auto simp: ie_writes_set thresh_writes_set)
  note upd = fold_upd_const [OF zero] fold_upd_const [OF seven]
  have ieq: "ie_reg p c i = ie_reg p (nat k) j \<longleftrightarrow> int c = k \<and> i = j"
    and teq: "thresh_reg p c = thresh_reg p (nat k) \<longleftrightarrow> int c = k"
    and neq: "ie_reg p c i \<noteq> thresh_reg p (nat k)" "thresh_reg p c \<noteq> ie_reg p (nat k) j"
    if "i < 32" "j < n" "k > - 1" "k < 15872" for i j k
    using that n assms by (auto simp: plic_regs_eq plic_regs_eq(2) [where i = 0 and i' = 0])
  have zmem: "ie_reg p c i \<in> fst ` set ?z \<longleftrightarrow> (int c = m \<or> int c = s) \<and> i < n" if "i < 32" for i
    using assms ieq [OF that] by (auto simp: image_Un ie_writes_addr image_iff)
  have tno: "ie_reg p c i \<notin> fst ` set ?t" if "i < 32" for i
    using assms neq(1) [OF that] by (auto simp: image_Un thresh_writes_addr n_def)
  have tmem: "thresh_reg p c \<in> fst ` set ?t \<longleftrightarrow> int c = m \<or> int c = s"
    using assms teq [of 0 0] by (auto simp: image_Un thresh_writes_addr n_def)
  have zno: "thresh_reg p c \<notin> fst ` set ?z"
    using assms neq(2) [of 0] by (auto simp: image_Un ie_writes_addr)
  have f: "fold (\<lambda>(a, v) r. r(a := v)) (warm_writes p m s) r a
      = (if a \<in> fst ` set ?t then 7 else if a \<in> fst ` set ?z then 0 else r a)" for a
    by (simp only: split fold_append [of _ ?z ?t] comp_def upd)
  show "fold (\<lambda>(a, v) r. r(a := v)) (warm_writes p m s) r (ie_reg p c i)
       = (if (int c = m \<or> int c = s) \<and> i \<le> unat (plic_num_src p) div 32 then 0 else r (ie_reg p c i))"
    if "i < 32"
    unfolding f using zmem [OF that] tno [OF that] by (simp only: if_False n_def less_Suc_eq_le Suc_eq_plus1 [symmetric])
  show "fold (\<lambda>(a, v) r. r(a := v)) (warm_writes p m s) r (thresh_reg p c)
       = (if int c = m \<or> int c = s then 7 else r (thresh_reg p c))"
    unfolding f using tmem zno by (simp only: if_False)
qed

text \<open>C30. The warm initialisation of the interrupt controller masks the hart: afterwards every
  interrupt source is disabled for the machine and the supervisor context of the hart and their
  thresholds block everything, and the enable words and thresholds of every other context are what
  they were.\<close>

theorem plic_warm_init_masks:
  assumes "word_registers b reg" and "plic_ok p" and "m < 15872" "s < 15872" and "c < 15872"
  shows "let (rc, d') = plic_warm_irqchip_init b (Some p) m s d
         in rc = 0 \<and>
            (if int c = m \<or> int c = s
             then (\<forall>src\<le>unat (plic_num_src p). \<not> bit (reg d' (ie_reg p c (src div 32))) (src mod 32))
                \<and> reg d' (thresh_reg p c) = 7
             else (\<forall>i<32. reg d' (ie_reg p c i) = reg d (ie_reg p c i))
                \<and> reg d' (thresh_reg p c) = reg d (thresh_reg p c))"
proof -
  define d' where "d' = writes_l b (warm_writes p m s) d"
  have reg: "reg d' = fold (\<lambda>(a, v) r. r(a := v)) (warm_writes p m s) (reg d)"
    unfolding d'_def using assms by (intro word_registers_writes warm_writes_aligned)
  note res = warm_writes_result [OF assms(2-5), where r = "reg d", folded reg]
  have small: "src div 32 < 32" if "src \<le> unat (plic_num_src p)" for src
    using that ie_words_eq(2) [OF assms(2)] div_le_mono [OF that, of 32] by linarith
  show ?thesis
    unfolding plic_warm_init_writes [OF assms(2-4)] d'_def [symmetric]
    using res small by (simp add: div_le_mono)
qed

theorem plic_warm_init_masks_witness:
  "let p = \<lparr>plic_addr = 0xc000000, plic_num_src = 53\<rparr>;
       (rc, d') = plic_warm_irqchip_init register_bus (Some p) 0 1 (\<lambda>a. 0xffffffff)
   in rc = 0 \<and> \<not> bit (d' (ie_reg p 1 1)) 21 \<and> d' (thresh_reg p 1) = 7"
proof -
  let ?p = "\<lparr>plic_addr = 0xc000000, plic_num_src = 53\<rparr>"
  have "plic_ok ?p" by (simp add: plic_ok_def)
  from plic_warm_init_masks [OF register_bus_words this, of 0 1 1 "\<lambda>a. 0xffffffff"]
  show ?thesis by (auto simp: Let_def split: prod.splits dest: spec [of _ 53])
qed

text \<open>The cold initialisation gives every source the priority that never interrupts.\<close>

lemma fold_priority_writes:
  assumes "n \<le> 2 ^ 30"
  shows "fold (\<lambda>i. plic_set_priority b p (of_nat i) 0) [1..<n] d
       = writes_l b (map (\<lambda>i. (priority_reg p i, 0)) [1..<n]) d"
  using assms by (induction n arbitrary: d) (simp_all add: plic_set_priority_eq)

lemma plic_cold_init_priorities:
  assumes "word_registers b reg" and "plic_ok p"
  shows "\<exists>d'. plic_cold_irqchip_init b (Some p) d = Ret 0 d' \<and>
           (\<forall>i. 1 \<le> i \<longrightarrow> i \<le> unat (plic_num_src p) \<longrightarrow> reg d' (priority_reg p i) = 0) \<and>
           (\<forall>a. (\<forall>i. 1 \<le> i \<longrightarrow> i \<le> unat (plic_num_src p) \<longrightarrow> a \<noteq> priority_reg p i) \<longrightarrow> reg d' a = reg d a)"
proof -
  let ?n = "unat (plic_num_src p) + 1"
  let ?ws = "map (\<lambda>i. (priority_reg p i, 0 :: u32)) [1..<?n]"
  have n: "unat (plic_num_src p) \<le> 1023" using assms(2) by (simp add: plic_ok_def word_le_nat_alt)
  have "\<forall>w\<in>set ?ws. 4 dvd unat (fst w)"
    using n by (auto simp: priority_reg_def intro!: plic_off_aligned [OF assms(2), of "4 * _", simplified])
  then have "reg (writes_l b ?ws d) = fold (\<lambda>(a, v) r. r(a := v)) ?ws (reg d)"
    by (rule word_registers_writes [OF assms(1)])
  moreover have "plic_cold_irqchip_init b (Some p) d = Ret 0 (writes_l b ?ws d)"
    using n fold_priority_writes [of ?n b p d]
    by (simp add: plic_cold_irqchip_init_def word_le_nat_alt del: upt_Suc)
  moreover have "fold (\<lambda>(a, v) r. r(a := v)) ?ws (reg d) a
      = (if a \<in> fst ` set ?ws then 0 else reg d a)" for a
    by (rule fold_upd_const) auto
  moreover have "a \<in> fst ` set ?ws \<longleftrightarrow> (\<exists>i. 1 \<le> i \<and> i \<le> unat (plic_num_src p) \<and> a = priority_reg p i)" for a
    by (auto simp: image_image image_iff simp del: upt_Suc)
  ultimately show ?thesis by auto
qed

end
