(* ===== verification/Sbi_Mmio_Regions.thy ===== *)
theory Sbi_Mmio_Regions
  imports Sbi_Mmio Sbi_Domain
begin

text \<open>
  What the interrupt and timer drivers share at their initialisation: giving the root domain a
  region of device memory (\<^verbatim>\<open>sbi_domain_memregion_init()\<close> and
  \<^verbatim>\<open>sbi_domain_root_add_memregion()\<close>). A registration that does not return is a hang.
\<close>

definition root_add_mmio ::
  "ulong \<Rightarrow> ulong \<Rightarrow> 'a domain_state_scheme \<Rightarrow> (int, 'a domain_state_scheme) flow" where
  "root_add_mmio a sz s =
     (case sbi_domain_root_add_memregion
             (Some (sbi_domain_memregion_init a sz SBI_DOMAIN_MEMREGION_MMIO)) s of
        None \<Rightarrow> Hang s | Some (rc, s) \<Rightarrow> Ret rc s)"

text \<open>Registering a region with the root domain touches nothing but the domain part of the state.\<close>

lemma put_regions_more: "domain_state.more (put_regions d rs s) = domain_state.more s"
  by (cases s) (simp add: put_regions_def split: regions_ptr.split)

lemma sanitize_domain_more: "domain_state.more (snd (sanitize_domain d s)) = domain_state.more s"
  by (simp add: sanitize_domain_def Let_def put_regions_more split: option.split prod.split)

lemma root_optimize_more: "root_optimize n s = Some (rc, s') \<Longrightarrow> domain_state.more s' = domain_state.more s"
proof (induction n arbitrary: s)
  case (Suc n)
  obtain rc0 t where t: "sanitize_domain ROOT s = (rc0, t)" by fastforce
  have more: "domain_state.more t = domain_state.more s" using sanitize_domain_more [of ROOT s] t by simp
  show ?case
    using Suc.prems Suc.IH by (auto simp: t more [symmetric] Let_def split: if_splits prod.splits)
qed simp

lemma root_add_memregion_more:
  "sbi_domain_root_add_memregion r s = Some (rc, s') \<Longrightarrow> domain_state.more s' = domain_state.more s"
  by (cases r) (auto simp: Let_def dest!: root_optimize_more split: if_splits)

lemma root_add_mmio_more:
  "root_add_mmio a sz s = Ret rc s' \<Longrightarrow> domain_state.more s' = domain_state.more s"
  by (auto simp: root_add_mmio_def simp del: sbi_domain_root_add_memregion.simps
      split: option.splits dest: root_add_memregion_more)

lemma root_add_mmio_finalized: "domain_finalized s \<Longrightarrow> root_add_mmio a sz s = Ret SBI_EINVAL s"
  by (simp add: root_add_mmio_def)

end
