(* ===== verification/Ipi_Mswi.thy ===== *)
theory Ipi_Mswi
  imports Sbi_Mmio_Regions Sbi_Hsm
begin

text \<open>
  The software interrupt device of the ACLINT and the CLINT (\<^verbatim>\<open>lib/utils/ipi/aclint_mswi.c\<close>): the
  table that finds a hart's device, sending and clearing an interrupt, and the initialisation,
  which also gives the root domain the device's memory.
\<close>

record aclint_mswi_data =
  mswi_addr :: ulong
  mswi_size :: ulong
  mswi_first_hartid :: u32
  mswi_hart_count :: u32

record 'd mswi_state = hsm_state +
  mswi_hartid2data :: "aclint_mswi_data option list"
  mswi_io :: 'd

abbreviation (input) ACLINT_MSWI_ALIGN :: ulong where "ACLINT_MSWI_ALIGN \<equiv> 0x1000"

definition mswi_write :: "'d io_bus \<Rightarrow> u32 \<Rightarrow> ulong \<Rightarrow> ('d, 'a) mswi_state_scheme \<Rightarrow> ('d, 'a) mswi_state_scheme"
where
  "mswi_write b v a s = s\<lparr>mswi_io := raw_writel b v a (mswi_io s)\<rparr>"

text \<open>\<open>msip_reg\<close> is the element of the register array that belongs to a hart.\<close>

definition msip_reg :: "aclint_mswi_data \<Rightarrow> u32 \<Rightarrow> ulong" where
  "msip_reg mswi target_hart = mswi_addr mswi + 4 * ucast (target_hart - mswi_first_hartid mswi)"

definition mswi_ipi_send ::
  "'d io_bus \<Rightarrow> u32 \<Rightarrow> ('d, 'a) mswi_state_scheme \<Rightarrow> ('d, 'a) mswi_state_scheme" where
  "mswi_ipi_send b target_hart s =
     (if SBI_HARTMASK_MAX_BITS \<le> unat target_hart then s
      else case mswi_hartid2data s ! unat target_hart of None \<Rightarrow> s
      | Some mswi \<Rightarrow> mswi_write b 1 (msip_reg mswi target_hart) s)"

definition mswi_ipi_clear ::
  "'d io_bus \<Rightarrow> u32 \<Rightarrow> ('d, 'a) mswi_state_scheme \<Rightarrow> ('d, 'a) mswi_state_scheme" where
  "mswi_ipi_clear b target_hart s =
     (if SBI_HARTMASK_MAX_BITS \<le> unat target_hart then s
      else case mswi_hartid2data s ! unat target_hart of None \<Rightarrow> s
      | Some mswi \<Rightarrow> mswi_write b 0 (msip_reg mswi target_hart) s)"

definition aclint_mswi_warm_init ::
  "'d io_bus \<Rightarrow> nat \<Rightarrow> ('d, 'a) mswi_state_scheme \<Rightarrow> int \<times> ('d, 'a) mswi_state_scheme" where
  "aclint_mswi_warm_init b h s = (0, mswi_ipi_clear b (of_nat h) s)"

section \<open>Initialisation\<close>

text \<open>The table has an entry per possible hart; a store behind its end has no meaning.\<close>

definition mswi_fill_table ::
  "aclint_mswi_data \<Rightarrow> ('d, 'a) mswi_state_scheme \<Rightarrow> (unit, ('d, 'a) mswi_state_scheme) flow" where
  "mswi_fill_table mswi s =
     (case fill_slots mswi (unat (mswi_first_hartid mswi)) (unat (mswi_hart_count mswi)) (mswi_hartid2data s) of
        None \<Rightarrow> Undef s
      | Some tab \<Rightarrow> Ret () (s\<lparr>mswi_hartid2data := tab\<rparr>))"

text \<open>
  One region per 4 KiB of the device. \<open>n\<close> bounds the rounds: the position wraps only for a device
  that ends within a page of the end of the address space.
\<close>

fun mswi_add_regions ::
  "aclint_mswi_data \<Rightarrow> ulong \<Rightarrow> nat \<Rightarrow> ('d, 'a) mswi_state_scheme \<Rightarrow> (int, ('d, 'a) mswi_state_scheme) flow"
where
  "mswi_add_regions mswi pos 0 s = Hang s"
| "mswi_add_regions mswi pos (Suc n) s =
     (if \<not> pos < mswi_size mswi then Ret 0 s
      else
        let region_size = (if mswi_size mswi - pos < ACLINT_MSWI_ALIGN then mswi_size mswi - pos
                           else ACLINT_MSWI_ALIGN)
        in flow_bind (root_add_mmio (mswi_addr mswi + pos) region_size s)
             (\<lambda>rc s. if rc \<noteq> 0 then Ret rc s
                else mswi_add_regions mswi (pos + ACLINT_MSWI_ALIGN) n s))"

definition aclint_mswi_cold_init ::
  "aclint_mswi_data option \<Rightarrow> ('d, 'a) mswi_state_scheme \<Rightarrow> (int, ('d, 'a) mswi_state_scheme) flow" where
  "aclint_mswi_cold_init mswi s =
     (case mswi of None \<Rightarrow> Ret SBI_EINVAL s
      | Some m \<Rightarrow>
          if mswi_addr m AND (ACLINT_MSWI_ALIGN - 1) \<noteq> 0 \<or> mswi_size m < 0x4000
             \<or> SBI_HARTMASK_MAX_BITS \<le> unat (mswi_first_hartid m) \<or> 4095 < mswi_hart_count m
          then Ret SBI_EINVAL s
          else flow_bind (mswi_fill_table m s) (\<lambda>_ s.
            flow_bind (mswi_add_regions m 0 (unat (mswi_size m) div 0x1000 + 2) s) (\<lambda>rc s.
              if rc \<noteq> 0 then Ret rc s
              else Ret 0 (sbi_ipi_set_device (Some \<lparr>ipi_send_fn = True, ipi_clear_fn = True\<rparr>) s))))"

section \<open>What the initialisation leaves behind\<close>

lemma mswi_add_region_frame:
  assumes "root_add_mmio a sz (s :: ('d, 'a) mswi_state_scheme) = Ret rc s'"
  shows "mswi_hartid2data s' = mswi_hartid2data s" and "mswi_io s' = mswi_io s"
proof -
  have "domain_state.more s' = domain_state.more s" by (rule root_add_mmio_more [OF assms])
  then show "mswi_hartid2data s' = mswi_hartid2data s" and "mswi_io s' = mswi_io s"
    by (cases s; cases s'; simp)+
qed

lemma mswi_add_regions_frame:
  "mswi_add_regions m pos n s = Ret rc s' \<Longrightarrow>
     mswi_hartid2data s' = mswi_hartid2data s \<and> mswi_io s' = mswi_io s"
proof (induction n arbitrary: pos s)
  case (Suc n)
  show ?case
  proof (cases "pos < mswi_size m")
    case True
    then obtain sz rc0 t where add: "root_add_mmio (mswi_addr m + pos) sz s = Ret rc0 t"
      and rest: "(if rc0 \<noteq> 0 then Ret rc0 t else mswi_add_regions m (pos + 0x1000) n t) = Ret rc s'"
      using Suc.prems by (auto simp: Let_def flow_bind_Ret_iff)
    show ?thesis
      using rest Suc.IH [of "pos + 0x1000" t] mswi_add_region_frame [OF add]
      by (cases "rc0 = 0") simp_all
  qed (use Suc.prems in simp)
qed simp

lemma sbi_ipi_set_device_frame [simp]:
  "mswi_hartid2data (sbi_ipi_set_device d s) = mswi_hartid2data s"
  "mswi_io (sbi_ipi_set_device d s) = mswi_io s"
  by (simp_all add: sbi_ipi_set_device_def)

definition mswi_serves :: "aclint_mswi_data \<Rightarrow> u32 \<Rightarrow> bool" where
  "mswi_serves m h \<longleftrightarrow> unat (mswi_first_hartid m) \<le> unat h
     \<and> unat h < unat (mswi_first_hartid m) + unat (mswi_hart_count m)"

definition mswi_accepts :: "aclint_mswi_data \<Rightarrow> bool" where
  "mswi_accepts m \<longleftrightarrow> mswi_addr m AND 0xfff = 0 \<and> 0x4000 \<le> mswi_size m
     \<and> unat (mswi_first_hartid m) < 128 \<and> mswi_hart_count m \<le> 4095"

lemma mswi_cold_init_accepts:
  "mswi_accepts m \<Longrightarrow> aclint_mswi_cold_init (Some m) s =
     flow_bind (mswi_fill_table m s) (\<lambda>_ s.
       flow_bind (mswi_add_regions m 0 (unat (mswi_size m) div 0x1000 + 2) s) (\<lambda>rc s.
         if rc \<noteq> 0 then Ret rc s
         else Ret 0 (sbi_ipi_set_device (Some \<lparr>ipi_send_fn = True, ipi_clear_fn = True\<rparr>) s)))"
  "\<not> mswi_accepts m \<Longrightarrow> aclint_mswi_cold_init (Some m) s = Ret SBI_EINVAL s"
  by (auto simp: mswi_accepts_def aclint_mswi_cold_init_def not_less not_le)

lemma mswi_cold_init_steps:
  assumes "aclint_mswi_cold_init (Some m) s = Ret rc s'" and "mswi_accepts m"
  shows "\<exists>t u. mswi_fill_table m s = Ret () t
     \<and> mswi_add_regions m 0 (unat (mswi_size m) div 0x1000 + 2) t = Ret rc u
     \<and> (s' = u \<or> s' = sbi_ipi_set_device (Some \<lparr>ipi_send_fn = True, ipi_clear_fn = True\<rparr>) u)"
proof -
  obtain t u rc' where t: "mswi_fill_table m s = Ret () t"
    and u: "mswi_add_regions m 0 (unat (mswi_size m) div 0x1000 + 2) t = Ret rc' u"
    and e: "(if rc' \<noteq> 0 then Ret rc' u
             else Ret 0 (sbi_ipi_set_device (Some \<lparr>ipi_send_fn = True, ipi_clear_fn = True\<rparr>) u)) = Ret rc s'"
    using assms(1) unfolding mswi_cold_init_accepts(1) [OF assms(2)] flow_bind_Ret_iff by auto
  have "rc = rc'" using e by (auto split: if_splits)
  then show ?thesis using t u e by (auto split: if_splits)
qed

lemma mswi_cold_init_table:
  assumes "aclint_mswi_cold_init (Some m) s = Ret rc s'" and "length (mswi_hartid2data s) = 128"
    and "mswi_accepts m"
  shows "i < 128 \<Longrightarrow> mswi_hartid2data s' ! i =
       (if unat (mswi_first_hartid m) \<le> i \<and> i < unat (mswi_first_hartid m) + unat (mswi_hart_count m)
        then Some m else mswi_hartid2data s ! i)"
    and "length (mswi_hartid2data s') = 128" and "mswi_io s' = mswi_io s"
    and "unat (mswi_hart_count m) \<le> 128 - unat (mswi_first_hartid m)"
proof -
  obtain t u where fill: "mswi_fill_table m s = Ret () t"
    and regs: "mswi_add_regions m 0 (unat (mswi_size m) div 0x1000 + 2) t = Ret rc u"
    and s': "s' = u \<or> s' = sbi_ipi_set_device (Some \<lparr>ipi_send_fn = True, ipi_clear_fn = True\<rparr>) u"
    using mswi_cold_init_steps [OF assms(1,3)] by blast
  from fill obtain tab where tab: "fill_slots m (unat (mswi_first_hartid m)) (unat (mswi_hart_count m))
      (mswi_hartid2data s) = Some tab" and t: "t = s\<lparr>mswi_hartid2data := tab\<rparr>"
    by (auto simp: mswi_fill_table_def split: option.splits)
  have u: "mswi_hartid2data s' = tab" "mswi_io s' = mswi_io s"
    using mswi_add_regions_frame [OF regs] s' by (auto simp: t)
  show "mswi_hartid2data s' ! i =
       (if unat (mswi_first_hartid m) \<le> i \<and> i < unat (mswi_first_hartid m) + unat (mswi_hart_count m)
        then Some m else mswi_hartid2data s ! i)" if "i < 128"
    using fill_slots_nth [OF tab] that assms(2) by (simp add: u)
  show "length (mswi_hartid2data s') = 128" "mswi_io s' = mswi_io s"
    using fill_slots_length [OF tab] assms(2) by (simp_all add: u)
  have "fill_slots m (unat (mswi_first_hartid m)) (unat (mswi_hart_count m)) (mswi_hartid2data s) \<noteq> None"
    using tab by simp
  then show "unat (mswi_hart_count m) \<le> 128 - unat (mswi_first_hartid m)"
    unfolding fill_slots_None_iff using assms(2,3) by (auto simp: mswi_accepts_def)
qed

text \<open>A device that claims harts behind the end of the table is not refused: the limit that is
  checked is 4095 harts, the table has 128 entries.\<close>

lemma mswi_cold_init_overruns:
  assumes "length (mswi_hartid2data s) = 128" "mswi_accepts m" "0 < mswi_hart_count m"
    "128 < unat (mswi_first_hartid m) + unat (mswi_hart_count m)"
  shows "aclint_mswi_cold_init (Some m) s = Undef s"
proof -
  have "fill_slots m (unat (mswi_first_hartid m)) (unat (mswi_hart_count m)) (mswi_hartid2data s) = None"
    unfolding fill_slots_None_iff using assms by (auto simp: word_less_nat_alt)
  then show ?thesis by (simp add: mswi_cold_init_accepts(1) [OF assms(2)] mswi_fill_table_def)
qed

text \<open>The registers of two harts are different words.\<close>

lemma msip_reg_aligned:
  assumes "mswi_accepts m" "unat (mswi_addr m) + 0x4000 \<le> 2 ^ 64" "unat (h - mswi_first_hartid m) < 4096"
  shows "4 dvd unat (msip_reg m h)" "unat (msip_reg m h) = unat (mswi_addr m) + 4 * unat (h - mswi_first_hartid m)"
proof -
  let ?k = "unat (h - mswi_first_hartid m)"
  have "msip_reg m h = mswi_addr m + of_nat (4 * ?k)"
    unfolding msip_reg_def by simp
  moreover have "unat (mswi_addr m) + 4 * ?k < 2 ^ 64" using assms(2,3) by linarith
  ultimately show e: "unat (msip_reg m h) = unat (mswi_addr m) + 4 * ?k"
    by (simp only: unat_add_of_nat)
  have "4 dvd unat (mswi_addr m)"
    using assms(1) by (intro page_aligned_word) (simp add: mswi_accepts_def)
  then show "4 dvd unat (msip_reg m h)" by (simp add: e)
qed

lemma msip_reg_inj:
  assumes "mswi_accepts m" "unat (mswi_addr m) + 0x4000 \<le> 2 ^ 64"
    "unat (h - mswi_first_hartid m) < 4096" "unat (t - mswi_first_hartid m) < 4096"
  shows "msip_reg m h = msip_reg m t \<longleftrightarrow> h = t"
  using msip_reg_aligned(2) [OF assms(1,2,3)] msip_reg_aligned(2) [OF assms(1,2,4)]
  by (metis add_left_cancel diff_add_cancel mult_left_cancel unsigned_word_eqI zero_neq_numeral)

lemma mswi_serves_small:
  assumes "mswi_serves m h" "unat (mswi_hart_count m) \<le> 128 - unat (mswi_first_hartid m)"
  shows "unat (h - mswi_first_hartid m) < 4096" "unat h < 128"
  using assms by (auto simp: mswi_serves_def unat_sub_if')

text \<open>After the initialisation of a software interrupt device whose description is accepted,
  sending an interrupt to a hart the device serves sets that hart's register and clearing it resets
  that register; in both cases the register of every other hart keeps its value. A hart without a
  device is left alone.\<close>

theorem mswi_interrupts_one_hart:
  assumes "word_registers b reg" and "length (mswi_hartid2data s) = 128"
    and "mswi_accepts m" and "aclint_mswi_cold_init (Some m) s = Ret rc s'" and "unat (mswi_addr m) + 0x4000 \<le> 2 ^ 64"
  shows "mswi_serves m t \<Longrightarrow> mswi_serves m h \<Longrightarrow>
       reg (mswi_io (mswi_ipi_send b t s')) (msip_reg m h)
         = (if h = t then 1 else reg (mswi_io s') (msip_reg m h))
     \<and> reg (mswi_io (mswi_ipi_clear b t s')) (msip_reg m h)
         = (if h = t then 0 else reg (mswi_io s') (msip_reg m h))"
    and "mswi_hartid2data s = replicate 128 None \<Longrightarrow> \<not> mswi_serves m t \<Longrightarrow>
       mswi_ipi_send b t s' = s' \<and> mswi_ipi_clear b t s' = s'"
proof -
  note tab = mswi_cold_init_table [OF assms(4,2,3)]
  show "reg (mswi_io (mswi_ipi_send b t s')) (msip_reg m h)
         = (if h = t then 1 else reg (mswi_io s') (msip_reg m h))
     \<and> reg (mswi_io (mswi_ipi_clear b t s')) (msip_reg m h)
         = (if h = t then 0 else reg (mswi_io s') (msip_reg m h))"
    if t: "mswi_serves m t" and h: "mswi_serves m h"
  proof -
    note ts = mswi_serves_small [OF t tab(4)] and hs = mswi_serves_small [OF h tab(4)]
    have "mswi_hartid2data s' ! unat t = Some m"
      using tab(1) [OF ts(2)] t by (simp add: mswi_serves_def)
    moreover have "4 dvd unat (msip_reg m t)"
      by (rule msip_reg_aligned(1) [OF assms(3,5) ts(1)])
    ultimately show ?thesis
      using ts(2) msip_reg_inj [OF assms(3,5) hs(1) ts(1)]
      by (simp add: mswi_ipi_send_def mswi_ipi_clear_def mswi_write_def word_registers_write [OF assms(1)])
  qed
  show "mswi_ipi_send b t s' = s' \<and> mswi_ipi_clear b t s' = s'"
    if "mswi_hartid2data s = replicate 128 None" "\<not> mswi_serves m t"
    using tab(1) [of "unat t"] that
    by (auto simp: mswi_ipi_send_def mswi_ipi_clear_def mswi_serves_def)
qed

definition mswi0 :: "(ulong \<Rightarrow> u32) mswi_state" where
  "mswi0 = hsm_state.extend hsm0 \<lparr>mswi_hartid2data = replicate 128 None, mswi_io = (\<lambda>a. 0)\<rparr>"

definition mswi0_data :: aclint_mswi_data where
  "mswi0_data = \<lparr>mswi_addr = 0x2000000, mswi_size = 0x4000, mswi_first_hartid = 0, mswi_hart_count = 4\<rparr>"

lemma mswi_add_regions_finalized:
  "domain_finalized s \<Longrightarrow> 0 < mswi_size m \<Longrightarrow> 0 < n \<Longrightarrow> mswi_add_regions m 0 n s = Ret SBI_EINVAL s"
  by (cases n) (simp_all add: root_add_mmio_finalized)

lemma mswi0_init: "\<exists>rc s. aclint_mswi_cold_init (Some mswi0_data) mswi0 = Ret rc s"
proof -
  have "fill_slots mswi0_data 0 4 (replicate 128 None) \<noteq> None" by (simp add: fill_slots_None_iff)
  then obtain tab where "mswi_fill_table mswi0_data mswi0 = Ret () (mswi0\<lparr>mswi_hartid2data := tab\<rparr>)"
    by (auto simp: mswi_fill_table_def mswi0_def mswi0_data_def hsm_state.defs)
  moreover have "domain_finalized (mswi0\<lparr>mswi_hartid2data := tab\<rparr>)"
    by (simp add: mswi0_def hsm0_defs)
  moreover have "mswi_accepts mswi0_data" "mswi_size mswi0_data = 0x4000"
    by (simp_all add: mswi0_data_def mswi_accepts_def)
  ultimately show ?thesis
    by (simp add: mswi_cold_init_accepts(1) mswi_add_regions_finalized)
qed

theorem mswi_interrupts_one_hart_witness:
  "\<exists>rc s. aclint_mswi_cold_init (Some mswi0_data) mswi0 = Ret rc s
    \<and> mswi_io (mswi_ipi_send register_bus 2 s) (msip_reg mswi0_data 2) = 1
    \<and> mswi_io (mswi_ipi_send register_bus 2 s) (msip_reg mswi0_data 3) = 0"
proof -
  have serves: "mswi_serves mswi0_data 2" "mswi_serves mswi0_data 3"
    by (simp_all add: mswi_serves_def mswi0_data_def)
  have len: "length (mswi_hartid2data mswi0) = 128" by (simp add: mswi0_def hsm_state.defs)
  have io: "mswi_io mswi0 = (\<lambda>a. 0)" by (simp add: mswi0_def hsm_state.defs)
  have room: "unat (mswi_addr mswi0_data) + 0x4000 \<le> 2 ^ 64" and ok: "mswi_accepts mswi0_data"
    by (simp_all add: mswi0_data_def mswi_accepts_def)
  obtain rc s where init: "aclint_mswi_cold_init (Some mswi0_data) mswi0 = Ret rc s"
    using mswi0_init by blast
  show ?thesis
    using mswi_interrupts_one_hart(1) [OF register_bus_words len ok init room serves(1,1)]
      mswi_interrupts_one_hart(1) [OF register_bus_words len ok init room serves]
      mswi_cold_init_table(3) [OF init len ok] init
    by (auto simp: io)
qed

end
