(* ===== verification/Timer_Mtimer.thy ===== *)
theory Timer_Mtimer
  imports Sbi_Mmio_Regions Sbi_Timer
begin

text \<open>
  The timer of the ACLINT and the CLINT (\<^verbatim>\<open>lib/utils/timer/aclint_mtimer.c\<close>): reading the 64 bit
  time and storing the 64 bit compare value in one or two accesses, the table that finds a hart's
  device, the synchronisation of a second time counter, and the initialisation, which gives the
  root domain the device's memory.

  A pointer to a device description is its index in \<open>mt_data\<close>; the descriptions are compared and
  changed through pointers. Loops that wait for the device take a bound on their rounds; running
  out of it is \<open>Hang\<close>.
\<close>

datatype mtimer_access = Time_32 | Time_64

record aclint_mtimer_data =
  mtime_freq :: ulong
  mtime_addr :: ulong
  mtime_size :: ulong
  mtimecmp_addr :: ulong
  mtimecmp_size :: ulong
  mt_first_hartid :: u32
  mt_hart_count :: u32
  has_64bit_mmio :: bool
  has_shared_mtime :: bool
  time_delta_reference :: "nat option"
  time_delta_computed :: ulong
  time_rd :: mtimer_access
  time_wr :: mtimer_access

record 'd mtimer_state = timer_state +
  mt_data :: "nat \<Rightarrow> aclint_mtimer_data"
  mtimer_hartid2data :: "nat option list"
  mtimer_io :: 'd

section \<open>Reading and writing the 64 bit registers\<close>

definition mtimer_time_rd64 :: "'d io_bus \<Rightarrow> ulong \<Rightarrow> 'd \<Rightarrow> (u64, 'd) flow" where
  "mtimer_time_rd64 b a d = (case raw_readq b a d of (v, d) \<Rightarrow> Ret v d)"

definition mtimer_time_wr64 :: "'d io_bus \<Rightarrow> bool \<Rightarrow> u64 \<Rightarrow> ulong \<Rightarrow> 'd \<Rightarrow> 'd" where
  "mtimer_time_wr64 b timecmp v a d = raw_writeq b v a d"

fun mtimer_time_rd32 :: "'d io_bus \<Rightarrow> nat \<Rightarrow> ulong \<Rightarrow> 'd \<Rightarrow> (u64, 'd) flow" where
  "mtimer_time_rd32 b 0 a d = Hang d"
| "mtimer_time_rd32 b (Suc n) a d =
     (let (hi, d) = raw_readl b (a + 4) d;
          (lo, d) = raw_readl b a d;
          (hi', d) = raw_readl b (a + 4) d
      in if hi \<noteq> hi' then mtimer_time_rd32 b n a d
         else Ret (push_bit 32 (ucast hi) OR ucast lo) d)"

text \<open>The three stores, in their order.\<close>

definition wr32_stores :: "bool \<Rightarrow> u64 \<Rightarrow> ulong \<Rightarrow> (ulong \<times> u32) list" where
  "wr32_stores timecmp v a =
     [(a, if timecmp then - 1 else 0), (a + 4, ucast (drop_bit 32 v)), (a, ucast v)]"

definition mtimer_time_wr32 :: "'d io_bus \<Rightarrow> bool \<Rightarrow> u64 \<Rightarrow> ulong \<Rightarrow> 'd \<Rightarrow> 'd" where
  "mtimer_time_wr32 b timecmp v a d = writes_l b (wr32_stores timecmp v a) d"

section \<open>The timer device\<close>

definition io_lift ::
  "('v, 'd) flow \<Rightarrow> ('d, 'a) mtimer_state_scheme \<Rightarrow> ('v, ('d, 'a) mtimer_state_scheme) flow" where
  "io_lift m s = (case m of Ret v d \<Rightarrow> Ret v (s\<lparr>mtimer_io := d\<rparr>) | Hang d \<Rightarrow> Hang (s\<lparr>mtimer_io := d\<rparr>)
     | Warmboot d \<Rightarrow> Warmboot (s\<lparr>mtimer_io := d\<rparr>) | Gone d \<Rightarrow> Gone (s\<lparr>mtimer_io := d\<rparr>)
     | Undef d \<Rightarrow> Undef (s\<lparr>mtimer_io := d\<rparr>))"

definition call_time_rd ::
  "'d io_bus \<Rightarrow> nat \<Rightarrow> mtimer_access \<Rightarrow> ulong \<Rightarrow> ('d, 'a) mtimer_state_scheme
     \<Rightarrow> (u64, ('d, 'a) mtimer_state_scheme) flow" where
  "call_time_rd b n acc a s = io_lift
     (case acc of Time_32 \<Rightarrow> mtimer_time_rd32 b n a (mtimer_io s)
      | Time_64 \<Rightarrow> mtimer_time_rd64 b a (mtimer_io s)) s"

definition call_time_wr ::
  "'d io_bus \<Rightarrow> mtimer_access \<Rightarrow> bool \<Rightarrow> u64 \<Rightarrow> ulong \<Rightarrow> ('d, 'a) mtimer_state_scheme
     \<Rightarrow> ('d, 'a) mtimer_state_scheme" where
  "call_time_wr b acc timecmp v a s = s\<lparr>mtimer_io :=
     (case acc of Time_32 \<Rightarrow> mtimer_time_wr32 b timecmp v a (mtimer_io s)
      | Time_64 \<Rightarrow> mtimer_time_wr64 b timecmp v a (mtimer_io s))\<rparr>"

text \<open>\<open>my_mtimer\<close> is the description of the hart's device; a hart without one is a NULL pointer.\<close>

definition my_mtimer :: "nat \<Rightarrow> ('d, 'a) mtimer_state_scheme \<Rightarrow> aclint_mtimer_data option" where
  "my_mtimer h s = (if length (mtimer_hartid2data s) \<le> h then None
                    else map_option (mt_data s) (mtimer_hartid2data s ! h))"

definition timecmp_reg :: "aclint_mtimer_data \<Rightarrow> u32 \<Rightarrow> ulong" where
  "timecmp_reg mt target_hart = mtimecmp_addr mt + 8 * ucast (target_hart - mt_first_hartid mt)"

definition mtimer_value ::
  "'d io_bus \<Rightarrow> nat \<Rightarrow> nat \<Rightarrow> ('d, 'a) mtimer_state_scheme \<Rightarrow> (u64, ('d, 'a) mtimer_state_scheme) flow" where
  "mtimer_value b n h s =
     (case my_mtimer h s of None \<Rightarrow> Undef s | Some mt \<Rightarrow> call_time_rd b n (time_rd mt) (mtime_addr mt) s)"

definition mtimer_event_stop ::
  "'d io_bus \<Rightarrow> nat \<Rightarrow> ('d, 'a) mtimer_state_scheme \<Rightarrow> (unit, ('d, 'a) mtimer_state_scheme) flow" where
  "mtimer_event_stop b h s =
     (case my_mtimer h s of None \<Rightarrow> Undef s
      | Some mt \<Rightarrow> Ret () (call_time_wr b (time_wr mt) True (- 1) (timecmp_reg mt (of_nat h)) s))"

definition mtimer_event_start ::
  "'d io_bus \<Rightarrow> nat \<Rightarrow> u64 \<Rightarrow> ('d, 'a) mtimer_state_scheme \<Rightarrow> (unit, ('d, 'a) mtimer_state_scheme) flow"
where
  "mtimer_event_start b h next_event s =
     (case my_mtimer h s of None \<Rightarrow> Undef s
      | Some mt \<Rightarrow> Ret () (call_time_wr b (time_wr mt) True next_event (timecmp_reg mt (of_nat h)) s))"

section \<open>Synchronising a time counter with a reference\<close>

definition aclint_mtimer_sync ::
  "'d io_bus \<Rightarrow> nat \<Rightarrow> nat \<Rightarrow> ('d, 'a) mtimer_state_scheme \<Rightarrow> (unit, ('d, 'a) mtimer_state_scheme) flow" where
  "aclint_mtimer_sync b n p s =
     (let mt = mt_data s p in
      if has_shared_mtime mt then Ret () s
      else case time_delta_reference mt of None \<Rightarrow> Ret () s
      | Some r \<Rightarrow>
          let s' = s\<lparr>mt_data := (mt_data s)(p := mt\<lparr>time_delta_computed := 1\<rparr>)\<rparr>;
              reference = mt_data s' r
          in if time_delta_computed mt \<noteq> 0 then Ret () s'
             else flow_bind (call_time_rd b n (time_rd mt) (mtime_addr mt) s') (\<lambda>v1 s.
               flow_bind (call_time_rd b n (time_rd reference) (mtime_addr reference) s) (\<lambda>mv s.
               flow_bind (call_time_rd b n (time_rd mt) (mtime_addr mt) s) (\<lambda>v2 s.
               let delta = mv - (v1 div 2 + v2 div 2) in
               flow_bind (call_time_rd b n (time_rd mt) (mtime_addr mt) s) (\<lambda>v s.
               Ret () (call_time_wr b (time_wr mt) False (v + delta) (mtime_addr mt) s))))))"

definition aclint_mtimer_set_reference ::
  "nat option \<Rightarrow> nat option \<Rightarrow> ('d, 'a) mtimer_state_scheme \<Rightarrow> ('d, 'a) mtimer_state_scheme" where
  "aclint_mtimer_set_reference mt ref s =
     (case (mt, ref) of
        (Some p, Some r) \<Rightarrow>
          if p = r then s
          else s\<lparr>mt_data := (mt_data s)(p := (mt_data s p)
                   \<lparr>time_delta_reference := Some r, time_delta_computed := 0\<rparr>)\<rparr>
      | _ \<Rightarrow> s)"

definition aclint_mtimer_warm_init ::
  "'d io_bus \<Rightarrow> nat \<Rightarrow> nat \<Rightarrow> ('d, 'a) mtimer_state_scheme \<Rightarrow> (int, ('d, 'a) mtimer_state_scheme) flow" where
  "aclint_mtimer_warm_init b n h s =
     (if length (mtimer_hartid2data s) \<le> h then Undef s
      else case mtimer_hartid2data s ! h of None \<Rightarrow> Ret SBI_ENODEV s
      | Some p \<Rightarrow>
          flow_bind (aclint_mtimer_sync b n p s) (\<lambda>_ s.
            let mt = mt_data s p
            in Ret 0 (call_time_wr b (time_wr mt) True (- 1) (timecmp_reg mt (of_nat h)) s)))"

section \<open>Initialisation\<close>

text \<open>
  The memory of the device is registered in pieces: the lowest bit of a position inside a page
  gives the size of the piece. The list of pieces is what the loop computes; \<open>n\<close> bounds it.
\<close>

definition mtimer_region_size :: "ulong \<Rightarrow> ulong \<Rightarrow> ulong" where
  "mtimer_region_size pos end_addr =
     (if pos AND 0xfff \<noteq> 0 then sll 1 (ffs_word pos)
      else if end_addr - pos < 0x1000 then end_addr - pos else 0x1000)"

fun mtimer_add_regions ::
  "nat \<Rightarrow> ulong \<Rightarrow> ulong \<Rightarrow> 'a domain_state_scheme \<Rightarrow> (int, 'a domain_state_scheme) flow" where
  "mtimer_add_regions 0 pos end_addr s = Hang s"
| "mtimer_add_regions (Suc n) pos end_addr s =
     (if \<not> pos < end_addr then Ret 0 s
      else
        let rsize = mtimer_region_size pos end_addr
        in flow_bind (root_add_mmio pos rsize s) (\<lambda>rc s.
             if rc \<noteq> 0 then Ret rc s else mtimer_add_regions n (pos + rsize) end_addr s))"

definition aclint_mtimer_add_regions ::
  "ulong \<Rightarrow> ulong \<Rightarrow> 'a domain_state_scheme \<Rightarrow> (int, 'a domain_state_scheme) flow" where
  "aclint_mtimer_add_regions addr sz s = mtimer_add_regions (unat sz div 8 + 2) addr (addr + sz) s"

definition mtimer_rejects :: "aclint_mtimer_data \<Rightarrow> bool" where
  "mtimer_rejects mt \<longleftrightarrow> mtime_size mt = 0 \<or> (mt_hart_count mt \<noteq> 0 \<and> mtimecmp_size mt = 0)
     \<or> mtime_addr mt AND 7 \<noteq> 0 \<or> mtime_size mt AND 7 \<noteq> 0
     \<or> mtimecmp_addr mt AND 7 \<noteq> 0 \<or> mtimecmp_size mt AND 7 \<noteq> 0
     \<or> SBI_HARTMASK_MAX_BITS \<le> unat (mt_first_hartid mt) \<or> 4095 < mt_hart_count mt"

definition mtimer_regions ::
  "aclint_mtimer_data \<Rightarrow> ('d, 'a) mtimer_state_scheme \<Rightarrow> (int, ('d, 'a) mtimer_state_scheme) flow" where
  "mtimer_regions mt s =
     (if mtime_addr mt = mtimecmp_addr mt + mtimecmp_size mt
      then aclint_mtimer_add_regions (mtimecmp_addr mt) (mtime_size mt + mtimecmp_size mt) s
      else if mtimecmp_addr mt = mtime_addr mt + mtime_size mt
      then aclint_mtimer_add_regions (mtime_addr mt) (mtime_size mt + mtimecmp_size mt) s
      else flow_bind (aclint_mtimer_add_regions (mtime_addr mt) (mtime_size mt) s) (\<lambda>rc s.
             if rc \<noteq> 0 then Ret rc s
             else aclint_mtimer_add_regions (mtimecmp_addr mt) (mtimecmp_size mt) s))"

text \<open>\<open>readings\<close> is what the calls of \<^verbatim>\<open>mtimer_value()\<close> through the timer device will return.\<close>

definition aclint_mtimer_cold_init ::
  "(nat \<Rightarrow> u64) \<Rightarrow> nat option \<Rightarrow> nat option \<Rightarrow> ('d, 'a) mtimer_state_scheme
     \<Rightarrow> (int, ('d, 'a) mtimer_state_scheme) flow" where
  "aclint_mtimer_cold_init readings mtp reference s =
     (case mtp of None \<Rightarrow> Ret SBI_EINVAL s
      | Some p \<Rightarrow>
          if mtimer_rejects (mt_data s p) then Ret SBI_EINVAL s
          else if (case reference of None \<Rightarrow> False
                   | Some r \<Rightarrow> mtime_freq (mt_data s p) \<noteq> mtime_freq (mt_data s r)) then Ret SBI_EINVAL s
          else
            let s = aclint_mtimer_set_reference mtp reference s;
                acc = (if has_64bit_mmio (mt_data s p) then Time_64 else Time_32);
                s = s\<lparr>mt_data := (mt_data s)(p := (mt_data s p)\<lparr>time_rd := acc, time_wr := acc\<rparr>)\<rparr>;
                mt = mt_data s p
            in case fill_slots p (unat (mt_first_hartid mt)) (unat (mt_hart_count mt)) (mtimer_hartid2data s) of
                 None \<Rightarrow> Undef s
               | Some tab \<Rightarrow>
                   flow_bind (mtimer_regions mt (s\<lparr>mtimer_hartid2data := tab\<rparr>)) (\<lambda>rc s.
                     if rc \<noteq> 0 then Ret rc s
                     else Ret 0 (sbi_timer_set_device (Some \<lparr>timer_freq = mtime_freq mt,
                            timer_value_fn = Some readings, timer_event_start_fn = True,
                            timer_event_stop_fn = True\<rparr>) s)))"

section \<open>Reading a running clock in two halves\<close>

text \<open>
  \<open>clock_words\<close> says that the two words of a register are the halves of a counter \<open>T\<close> that does not
  go back: every access sees the value of its own moment, and time may pass with each access.
\<close>

definition clock_words :: "'d io_bus \<Rightarrow> ulong \<Rightarrow> ('d \<Rightarrow> u64) \<Rightarrow> bool" where
  "clock_words b a T \<longleftrightarrow>
     (\<forall>d. fst (raw_readl b a d) = ucast (T d) \<and> fst (raw_readl b (a + 4) d) = ucast (drop_bit 32 (T d))
        \<and> T d \<le> T (snd (raw_readl b a d)) \<and> T d \<le> T (snd (raw_readl b (a + 4) d)))"

lemma high_low_word:
  "push_bit 32 (ucast (ucast (drop_bit 32 v) :: u32)) OR ucast (ucast v :: u32) = (v :: u64)"
proof (rule bit_word_eqI)
  fix n assume "n < LENGTH(64)"
  then show "bit (push_bit 32 (ucast (ucast (drop_bit 32 v) :: u32)) OR ucast (ucast v :: u32) :: u64) n = bit v n"
    by (auto simp: bit_or_iff bit_push_bit_iff bit_ucast_iff bit_drop_bit_eq)
qed

definition high_half :: "u64 \<Rightarrow> nat" where
  "high_half v = unat v div 2 ^ 32"

lemma high_half_word: "(ucast (drop_bit 32 v) :: u32) = ucast (drop_bit 32 w) \<longleftrightarrow> high_half v = high_half w"
proof -
  have e: "unat (ucast (drop_bit 32 v) :: u32) = high_half v" for v :: u64
  proof -
    have "unat v < 2 ^ 64" using unsigned_less [of v] by simp
    then have "unat v div 2 ^ 32 < 2 ^ 32" by (simp add: div_less_iff_less_mult)
    then show ?thesis
      by (simp add: high_half_def unsigned_ucast_eq drop_bit_eq_div take_bit_eq_mod unat_div)
  qed
  show ?thesis using e [of v] e [of w] by (metis unsigned_word_eqI)
qed

lemma high_half_mono: "v \<le> w \<Longrightarrow> high_half v \<le> high_half w"
  by (simp add: high_half_def word_le_nat_alt div_le_mono)

lemma high_half_less: "high_half v < 2 ^ 32"
  using unsigned_less [of v] by (simp add: high_half_def div_less_iff_less_mult)

lemma clock_words_split:
  assumes "clock_words b a T"
  obtains d' where "raw_readl b a d = (ucast (T d), d')" "T d \<le> T d'"
  using assms unfolding clock_words_def by (cases "raw_readl b a d") (metis fst_conv snd_conv)

lemma clock_words_high:
  assumes "clock_words b a T"
  obtains d' where "raw_readl b (a + 4) d = (ucast (drop_bit 32 (T d)), d')" "T d \<le> T d'"
  using assms unfolding clock_words_def by (cases "raw_readl b (a + 4) d") (metis fst_conv snd_conv)

lemma same_high_between:
  assumes "v \<le> w" "w \<le> x" "high_half v = high_half x"
  shows "high_half w = high_half v"
  using high_half_mono [OF assms(1)] high_half_mono [OF assms(2)] assms(3) by simp

text \<open>C28. Reading the 64 bit time in two halves gives a time the clock really showed during the
  read: a value between the time before and the time after it. The loop ends: whenever it goes
  round again the upper half has moved on, so a clock that never goes back keeps it for at most
  \<^verbatim>\<open>2 ^ 32\<close> rounds.\<close>

theorem mtimer_rd32_reads_clock:
  assumes "clock_words b a T" and "2 ^ 32 - high_half (T d) \<le> n"
  shows "\<exists>v d'. mtimer_time_rd32 b n a d = Ret v d' \<and> T d \<le> v \<and> v \<le> T d'"
  using assms(2)
proof (induction n arbitrary: d)
  case 0
  then show ?case using high_half_less [of "T d"] by simp
next
  case (Suc n)
  obtain d1 where d1: "raw_readl b (a + 4) d = (ucast (drop_bit 32 (T d)), d1)" "T d \<le> T d1"
    by (rule clock_words_high [OF assms(1)])
  obtain d2 where d2: "raw_readl b a d1 = (ucast (T d1), d2)" "T d1 \<le> T d2"
    by (rule clock_words_split [OF assms(1)])
  obtain d3 where d3: "raw_readl b (a + 4) d2 = (ucast (drop_bit 32 (T d2)), d3)" "T d2 \<le> T d3"
    by (rule clock_words_high [OF assms(1)])
  show ?case
  proof (cases "high_half (T d) = high_half (T d2)")
    case True
    have hi: "(ucast (drop_bit 32 (T d)) :: u32) = ucast (drop_bit 32 (T d1))"
      using same_high_between [OF d1(2) d2(2) True] by (simp add: high_half_word)
    have "mtimer_time_rd32 b (Suc n) a d
        = Ret (push_bit 32 (ucast (ucast (drop_bit 32 (T d)) :: u32)) OR ucast (ucast (T d1) :: u32)) d3"
      using True by (simp add: d1(1) d2(1) d3(1) high_half_word)
    then have "mtimer_time_rd32 b (Suc n) a d = Ret (T d1) d3"
      unfolding hi high_low_word .
    moreover have "T d1 \<le> T d3" using d2(2) d3(2) by (rule order_trans)
    ultimately show ?thesis using d1(2) by blast
  next
    case False
    then have more: "high_half (T d) < high_half (T d2)"
      using high_half_mono [OF order_trans [OF d1(2) d2(2)]] by simp
    then have "2 ^ 32 - high_half (T d3) \<le> n"
      using Suc.prems high_half_mono [OF d3(2)] high_half_less [of "T d3"] by linarith
    from Suc.IH [OF this] obtain v d' where rest: "mtimer_time_rd32 b n a d3 = Ret v d'" "T d3 \<le> v" "v \<le> T d'"
      by blast
    have "T d \<le> v" using d1(2) d2(2) d3(2) rest(2) by (meson order_trans)
    moreover have "mtimer_time_rd32 b (Suc n) a d = Ret v d'"
      using False rest(1) by (simp add: d1(1) d2(1) d3(1) high_half_word)
    ultimately show ?thesis using rest(3) by blast
  qed
qed

text \<open>A clock that advances by \<^verbatim>\<open>2 ^ 28\<close> with every access, and stops at its end.\<close>

definition fast_clock :: "u64 io_bus" where
  "fast_clock =
     (let tick = (\<lambda>t. if t + 0x10000000 < t then t else t + 0x10000000)
      in \<lparr>raw_readb = \<lambda>a t. (ucast t, tick t), raw_readw = \<lambda>a t. (ucast t, tick t),
          raw_readl = \<lambda>a t. (if a = 0x200bffc then ucast (drop_bit 32 t) else ucast t, tick t),
          raw_readq = \<lambda>a t. (t, tick t), raw_writeb = \<lambda>v a t. t, raw_writew = \<lambda>v a t. t,
          raw_writel = \<lambda>v a t. t, raw_writeq = \<lambda>v a t. v\<rparr>)"

theorem mtimer_rd32_reads_clock_witness:
  "\<exists>v d'. mtimer_time_rd32 fast_clock (2 ^ 32) 0x200bff8 0xffffffff = Ret v d' \<and> 0xffffffff \<le> v \<and> v \<le> d'"
  by (rule mtimer_rd32_reads_clock [where T = "\<lambda>t. t"])
    (simp_all add: clock_words_def fast_clock_def Let_def not_less)

lemma fast_clock_example:
  "mtimer_time_rd32 fast_clock 2 0x200bff8 0xffffffff = Ret 0x13fffffff 0x15fffffff"
  by code_simp

section \<open>Storing a compare value in two halves\<close>

definition two_words :: "(ulong \<Rightarrow> u32) \<Rightarrow> ulong \<Rightarrow> u64" where
  "two_words r a = push_bit 32 (ucast (r (a + 4))) OR ucast (r a)"

lemma unat_two_words: "unat (two_words r a) = unat (r (a + 4)) * 2 ^ 32 + unat (r a)"
proof -
  let ?h = "push_bit 32 (ucast (r (a + 4))) :: u64" and ?l = "ucast (r a) :: u64"
  have lt: "unat (r x) < 2 ^ 32" for x using unsigned_less [of "r x"] by simp
  have "?h OR ?l = ?h + ?l"
    by (rule disjunctive_add [symmetric]) (auto simp: bit_push_bit_iff bit_ucast_iff dest: bit_imp_le_length)
  moreover have l: "unat ?l = unat (r a)" by (simp add: unsigned_ucast_eq take_bit_nat_eq_self lt)
  moreover have h: "unat ?h = unat (r (a + 4)) * 2 ^ 32"
    using lt [of "a + 4"]
    by (simp add: push_bit_eq_mult unat_mult_lem [THEN iffD1] unsigned_ucast_eq take_bit_nat_eq_self mult.commute)
  moreover have "unat ?h + unat ?l < 2 ^ 64" unfolding h l using lt [of a] lt [of "a + 4"] by simp
  ultimately show ?thesis by (simp add: two_words_def unat_add_lem [THEN iffD1])
qed

lemma two_words_halves: "r (a + 4) = ucast (drop_bit 32 v) \<Longrightarrow> r a = ucast v \<Longrightarrow> two_words r a = v"
  by (simp only: two_words_def high_low_word)

lemma word_step: "unat (a :: ulong) + 8 \<le> 2 ^ 64 \<Longrightarrow> unat (a + 4) = unat a + 4"
  using unat_add_of_nat [of a 4] by simp

text \<open>C29. Storing a 64 bit compare value in two halves never lets the timer fire early: after each of
  the three stores the register holds a value no smaller than the old or the new one, and after
  the last store it holds the new one.\<close>

theorem mtimer_wr32_no_early_event:
  assumes "word_registers b reg" and "4 dvd unat a" and "unat a + 8 \<le> 2 ^ 64"
  shows "two_words (reg (mtimer_time_wr32 b True v a d)) a = v \<and>
    (\<forall>k \<le> length (wr32_stores True v a).
      min (two_words (reg d) a) v \<le> two_words (reg (writes_l b (take k (wr32_stores True v a)) d)) a)"
proof (intro conjI allI impI)
  have al: "4 dvd unat (a + 4)" using assms(2,3) by (simp add: word_step)
  have ne: "a + 4 \<noteq> a" by simp
  note reg = word_registers_write [OF assms(1) assms(2)] word_registers_write [OF assms(1) al]
  let ?d1 = "raw_writel b (- 1) a d"
  let ?d2 = "raw_writel b (ucast (drop_bit 32 v)) (a + 4) ?d1"
  let ?d3 = "raw_writel b (ucast v) a ?d2"
  have max: "unat (- 1 :: u32) = 2 ^ 32 - 1"
    by (simp add: unsigned_minus_1_eq_mask mask_eq_exp_minus_1)
  have lt: "unat x \<le> 2 ^ 32 - 1" for x :: u32
  proof -
    have "unat x < 2 ^ 32" using unsigned_less [of x] by simp
    then show ?thesis by simp
  qed
  have 1: "two_words (reg d) a \<le> two_words (reg ?d1) a"
    using lt [of "reg d a"] by (simp add: word_le_nat_alt unat_two_words reg max)
  have 3: "two_words (reg ?d3) a = v" by (rule two_words_halves) (simp_all add: reg)
  have 2: "v \<le> two_words (reg ?d2) a"
  proof -
    have "two_words (reg ?d3) a \<le> two_words (reg ?d2) a"
      using lt [of "ucast v"] by (simp add: word_le_nat_alt unat_two_words reg max)
    then show ?thesis by (simp only: 3)
  qed
  show "two_words (reg (mtimer_time_wr32 b True v a d)) a = v"
    using 3 by (simp add: mtimer_time_wr32_def wr32_stores_def)
  show "min (two_words (reg d) a) v \<le> two_words (reg (writes_l b (take k (wr32_stores True v a)) d)) a"
    if "k \<le> length (wr32_stores True v a)" for k
  proof -
    have "k = 0 \<or> k = 1 \<or> k = 2 \<or> k = 3" using that by (auto simp: wr32_stores_def)
    then show ?thesis
      using 1 2 3 by (auto simp: wr32_stores_def numeral_2_eq_2 numeral_3_eq_3 min_le_iff_disj)
  qed
qed

theorem mtimer_wr32_no_early_event_witness:
  "two_words (mtimer_time_wr32 register_bus True 0x100000000 0x2004000 (\<lambda>a. 0xffffffff)) 0x2004000 = 0x100000000"
  by (rule conjunct1 [OF mtimer_wr32_no_early_event [OF register_bus_words]]) simp_all

section \<open>The synchronisation and the table\<close>

text \<open>Two 64 bit counters that stand still while they are read: the synchronised counter gets the
  reference's time, one tick more when its own time was odd.\<close>

lemma halves_sum: "v + (w - 2 * (v div 2)) = w + v mod (2 :: u64)"
proof -
  have "v mod 2 = v - 2 * (v div 2)" by (rule minus_mult_div_eq_mod [symmetric])
  moreover have "v + (w - h) = w + (v - h)" for h :: u64 by (simp only: add_diff_eq add.commute [of v w])
  ultimately show ?thesis by simp
qed

lemma call_time_rd_still:
  assumes "raw_readq b a (mtimer_io s) = (v, mtimer_io s)"
  shows "call_time_rd b n Time_64 a s = Ret v s"
  using assms by (simp add: call_time_rd_def io_lift_def mtimer_time_rd64_def)

lemma mtimer_sync_still:
  assumes mt: "time_rd (mt_data s p) = Time_64" "time_wr (mt_data s p) = Time_64"
      "\<not> has_shared_mtime (mt_data s p)" "time_delta_reference (mt_data s p) = Some r"
      "time_delta_computed (mt_data s p) = 0" "time_rd (mt_data s r) = Time_64" "r \<noteq> p"
    and still: "\<And>a. raw_readq b a (mtimer_io s) = (T a, mtimer_io s)"
  shows "\<exists>s'. aclint_mtimer_sync b n p s = Ret () s' \<and> mtimer_io s' =
      raw_writeq b (T (mtime_addr (mt_data s r)) + T (mtime_addr (mt_data s p)) mod 2)
        (mtime_addr (mt_data s p)) (mtimer_io s)"
proof -
  let ?s = "s\<lparr>mt_data := (mt_data s)(p := (mt_data s p)\<lparr>time_delta_computed := 1\<rparr>)\<rparr>"
  have rd: "call_time_rd b n Time_64 a ?s = Ret (T a) ?s" for a
    using still by (intro call_time_rd_still) simp
  show ?thesis
    using mt by (simp add: aclint_mtimer_sync_def Let_def rd call_time_wr_def mtimer_time_wr64_def halves_sum)
qed

text \<open>A device that claims harts behind the end of the table is not refused here either.\<close>

lemma mtimer_cold_init_overruns:
  assumes "length (mtimer_hartid2data s) = 128" "\<not> mtimer_rejects (mt_data s p)"
    "0 < mt_hart_count (mt_data s p)"
    "128 < unat (mt_first_hartid (mt_data s p)) + unat (mt_hart_count (mt_data s p))"
  shows "\<exists>t. aclint_mtimer_cold_init readings (Some p) None s = Undef t"
proof -
  have "fill_slots p (unat (mt_first_hartid (mt_data s p))) (unat (mt_hart_count (mt_data s p)))
      (mtimer_hartid2data s) = None"
    unfolding fill_slots_None_iff using assms by (auto simp: word_less_nat_alt)
  then show ?thesis
    using assms(2) by (simp add: aclint_mtimer_cold_init_def aclint_mtimer_set_reference_def Let_def)
qed

end
