(* ===== verification/Sbi_List.thy ===== *)
theory Sbi_List
  imports Refinement Sbi_Prelude
begin

text \<open>
  The circular doubly linked list of \<^verbatim>\<open>include/sbi/sbi_list.h\<close>, on a heap of nodes: \<open>next_of\<close> and
  \<open>prev_of\<close> are the two members of the node at an address. The operations store into the nodes in
  the order of the code. \<open>list_at h head xs\<close> says that the ring through the head \<open>head\<close> links the nodes
  \<open>xs\<close>, forwards and backwards.
\<close>

record list_heap =
  next_of :: "ulong \<Rightarrow> ulong"
  prev_of :: "ulong \<Rightarrow> ulong"

definition set_next_ptr :: "ulong \<Rightarrow> ulong \<Rightarrow> list_heap \<Rightarrow> list_heap" where
  "set_next_ptr p v h = h\<lparr>next_of := (next_of h)(p := v)\<rparr>"

definition set_prev_ptr :: "ulong \<Rightarrow> ulong \<Rightarrow> list_heap \<Rightarrow> list_heap" where
  "set_prev_ptr p v h = h\<lparr>prev_of := (prev_of h)(p := v)\<rparr>"

lemma heap_simps [simp]:
  "next_of (set_next_ptr p v h) q = (if q = p then v else next_of h q)"
  "prev_of (set_prev_ptr p v h) q = (if q = p then v else prev_of h q)"
  "prev_of (set_next_ptr p v h) = prev_of h" "next_of (set_prev_ptr p v h) = next_of h"
  by (simp_all add: set_next_ptr_def set_prev_ptr_def)

section \<open>The operations\<close>

definition SBI_INIT_LIST_HEAD :: "ulong \<Rightarrow> list_heap \<Rightarrow> list_heap" where
  "SBI_INIT_LIST_HEAD ptr h = set_prev_ptr ptr ptr (set_next_ptr ptr ptr h)"

definition sbi_list_add_between :: "ulong \<Rightarrow> ulong \<Rightarrow> ulong \<Rightarrow> list_heap \<Rightarrow> list_heap" where
  "sbi_list_add_between new prv nxt h =
     (let h = set_prev_ptr new prv h;
          h = set_next_ptr new nxt h;
          h = set_next_ptr prv new h
      in set_prev_ptr nxt new h)"

definition sbi_list_empty :: "ulong \<Rightarrow> list_heap \<Rightarrow> bool" where
  "sbi_list_empty head h \<longleftrightarrow> next_of h head = head"

definition sbi_list_add :: "ulong \<Rightarrow> ulong \<Rightarrow> list_heap \<Rightarrow> list_heap" where
  "sbi_list_add new head h = sbi_list_add_between new head (next_of h head) h"

definition sbi_list_add_tail :: "ulong \<Rightarrow> ulong \<Rightarrow> list_heap \<Rightarrow> list_heap" where
  "sbi_list_add_tail new tnode h = sbi_list_add_between new (prev_of h tnode) tnode h"

definition sbi_list_del_between :: "ulong \<Rightarrow> ulong \<Rightarrow> list_heap \<Rightarrow> list_heap" where
  "sbi_list_del_between prv nxt h = (let h = set_next_ptr prv nxt h in set_prev_ptr nxt prv h)"

definition sbi_list_del_entry :: "ulong \<Rightarrow> list_heap \<Rightarrow> list_heap" where
  "sbi_list_del_entry entry h = sbi_list_del_between (prev_of h entry) (next_of h entry) h"

abbreviation (input) SBI_LIST_POISON_PREV :: ulong where "SBI_LIST_POISON_PREV \<equiv> 0xDEADBEEF"
abbreviation (input) SBI_LIST_POISON_NEXT :: ulong where "SBI_LIST_POISON_NEXT \<equiv> 0xFADEBABE"

definition sbi_list_del :: "ulong \<Rightarrow> list_heap \<Rightarrow> list_heap" where
  "sbi_list_del entry h =
     (let h = sbi_list_del_between (prev_of h entry) (next_of h entry) h;
          h = set_next_ptr entry SBI_LIST_POISON_NEXT h
      in set_prev_ptr entry SBI_LIST_POISON_PREV h)"

definition sbi_list_del_init :: "ulong \<Rightarrow> list_heap \<Rightarrow> list_heap" where
  "sbi_list_del_init entry h = SBI_INIT_LIST_HEAD entry (sbi_list_del_entry entry h)"

text \<open>The nodes a \<^verbatim>\<open>sbi_list_for_each\<close> loop visits; \<open>None\<close> when \<open>n\<close> rounds do not reach the head.\<close>

fun sbi_list_walk :: "nat \<Rightarrow> ulong \<Rightarrow> ulong \<Rightarrow> list_heap \<Rightarrow> ulong list option" where
  "sbi_list_walk 0 pos head h = None"
| "sbi_list_walk (Suc n) pos head h =
     (if pos = head then Some [] else map_option (Cons pos) (sbi_list_walk n (next_of h pos) head h))"

definition sbi_list_for_each :: "nat \<Rightarrow> ulong \<Rightarrow> list_heap \<Rightarrow> ulong list option" where
  "sbi_list_for_each n head h = sbi_list_walk n (next_of h head) head h"

text \<open>A \<^verbatim>\<open>sbi_list_for_each\<close> loop that returns at the first node with a property: the outer \<open>None\<close> is
  a loop that does not end within \<open>n\<close> rounds, the inner one a list without such a node.\<close>

fun sbi_list_search ::
  "nat \<Rightarrow> (ulong \<Rightarrow> bool) \<Rightarrow> ulong \<Rightarrow> ulong \<Rightarrow> list_heap \<Rightarrow> ulong option option" where
  "sbi_list_search 0 P pos head h = None"
| "sbi_list_search (Suc n) P pos head h =
     (if pos = head then Some None
      else if P pos then Some (Some pos) else sbi_list_search n P (next_of h pos) head h)"

section \<open>Rings of nodes\<close>

fun linked :: "list_heap \<Rightarrow> ulong \<Rightarrow> ulong list \<Rightarrow> ulong \<Rightarrow> bool" where
  "linked h a [] b \<longleftrightarrow> next_of h a = b \<and> prev_of h b = a"
| "linked h a (x # xs) b \<longleftrightarrow> next_of h a = x \<and> prev_of h x = a \<and> linked h x xs b"

definition list_at :: "list_heap \<Rightarrow> ulong \<Rightarrow> ulong list \<Rightarrow> bool" where
  "list_at h head xs \<longleftrightarrow> distinct (head # xs) \<and> linked h head xs head"

lemma linked_append [simp]: "linked h a (xs @ y # ys) b \<longleftrightarrow> linked h a xs y \<and> linked h y ys b"
  by (induction xs arbitrary: a) auto

lemma linked_cong:
  assumes "linked h a xs b" and "\<forall>x\<in>set (a # xs). next_of h' x = next_of h x"
    and "\<forall>x\<in>set (xs @ [b]). prev_of h' x = prev_of h x"
  shows "linked h' a xs b"
  using assms by (induction xs arbitrary: a) auto

lemma linked_left:
  assumes "linked h a (xs @ ys) b" and "\<forall>x\<in>set (butlast (a # xs)). next_of h' x = next_of h x"
    and "\<forall>x\<in>set xs. prev_of h' x = prev_of h x"
    and "next_of h' (last (a # xs)) = n" "prev_of h' n = last (a # xs)"
  shows "linked h' a xs n"
  using assms by (induction xs arbitrary: a) (auto split: if_splits)

lemma linked_right:
  assumes "linked h a (xs @ ys) b" and "\<forall>x\<in>set ys. next_of h' x = next_of h x"
    and "\<forall>x\<in>set (tl (ys @ [b])). prev_of h' x = prev_of h x"
    and "next_of h' n = hd (ys @ [b])" "prev_of h' (hd (ys @ [b])) = n"
  shows "linked h' n ys b"
proof (cases ys)
  case (Cons y zs)
  have "linked h y zs b" using assms(1) by (simp add: Cons)
  then have "linked h' y zs b" by (rule linked_cong) (use assms(2,3) in \<open>simp_all add: Cons\<close>)
  then show ?thesis using assms(4,5) by (simp add: Cons)
qed (use assms(4,5) in simp)

lemma last_not_in_butlast: "distinct xs \<Longrightarrow> xs \<noteq> [] \<Longrightarrow> last xs \<notin> set (butlast xs)"
  by (induction xs rule: rev_induct) auto

lemma ends_apart:
  assumes "distinct (a # xs @ ys)" and "distinct (xs @ ys @ [b])"
  shows "last (a # xs) \<notin> set (butlast (a # xs))" "hd (ys @ [b]) \<notin> set (tl (ys @ [b]))"
    "last (a # xs) \<notin> set ys" "hd (ys @ [b]) \<notin> set xs"
proof -
  show "last (a # xs) \<notin> set (butlast (a # xs))"
    by (rule last_not_in_butlast) (use assms(1) in simp_all)
  show "hd (ys @ [b]) \<notin> set (tl (ys @ [b]))" using assms(2) by (cases ys) auto
  have "last (a # xs) \<in> set (a # xs)" by (rule last_in_set) simp
  then show "last (a # xs) \<notin> set ys" using assms(1) by auto
  have "hd (ys @ [b]) \<in> set (ys @ [b])" by (rule hd_in_set) simp
  then show "hd (ys @ [b]) \<notin> set xs" using assms(2) by auto
qed

text \<open>Linking a new node in between two neighbours of a ring, and taking one out.\<close>

lemma linked_insert:
  assumes "linked h a (xs @ ys) b" and "distinct (a # xs @ ys)" "distinct (xs @ ys @ [b])"
    and "new \<notin> set (a # b # xs @ ys)"
  shows "linked (sbi_list_add_between new (last (a # xs)) (hd (ys @ [b])) h) a (xs @ new # ys) b"
proof -
  define prv nxt where "prv = last (a # xs)" and "nxt = hd (ys @ [b])"
  define h' where "h' = sbi_list_add_between new prv nxt h"
  have mem: "prv \<in> set (a # xs)" "nxt \<in> set (ys @ [b])"
    unfolding prv_def nxt_def by (rule last_in_set, simp) (rule hd_in_set, simp)
  have apart: "prv \<notin> set (butlast (a # xs))" "nxt \<notin> set (tl (ys @ [b]))" "prv \<notin> set ys" "nxt \<notin> set xs"
      "prv \<noteq> new" "nxt \<noteq> new"
    using ends_apart [of a xs ys b] assms(2-4) mem by (auto simp: prv_def nxt_def simp del: last.simps butlast.simps)
  have nx: "next_of h' x = (if x = prv then new else if x = new then nxt else next_of h x)"
    and pv: "prev_of h' x = (if x = nxt then new else if x = new then prv else prev_of h x)" for x
    using apart by (auto simp: h'_def sbi_list_add_between_def Let_def)
  have "linked h' a xs new"
  proof (rule linked_left [OF assms(1)], unfold prv_def [symmetric])
    show "\<forall>x\<in>set (butlast (a # xs)). next_of h' x = next_of h x"
      using apart(1) assms(4) by (auto simp: nx simp del: butlast.simps dest: in_set_butlastD)
    show "\<forall>x\<in>set xs. prev_of h' x = prev_of h x" using apart(4) assms(4) by (auto simp: pv)
  qed (use apart in \<open>auto simp: nx pv\<close>)
  moreover have "linked h' new ys b"
  proof (rule linked_right [OF assms(1)], unfold nxt_def [symmetric])
    show "\<forall>x\<in>set ys. next_of h' x = next_of h x" using apart(3) assms(4) by (auto simp: nx)
    show "\<forall>x\<in>set (tl (ys @ [b])). prev_of h' x = prev_of h x"
      using apart(2) assms(4) by (auto simp: pv dest: list.set_sel(2) [rotated])
  qed (use apart in \<open>auto simp: nx pv\<close>)
  ultimately show ?thesis by (simp add: h'_def prv_def nxt_def)
qed

lemma linked_last: "linked h a xs b \<Longrightarrow> prev_of h b = last (a # xs)"
  by (induction xs arbitrary: a) auto

lemma linked_first: "linked h a xs b \<Longrightarrow> next_of h a = hd (xs @ [b])"
  by (cases xs) auto

lemma linked_ends:
  assumes "linked h a (xs @ x # ys) b"
  shows "prev_of h x = last (a # xs)" "next_of h x = hd (ys @ [b])"
  using assms linked_last [of h a xs x] linked_first [of h x ys b] by simp_all

lemma linked_remove:
  assumes "linked h a (xs @ x # ys) b" and "distinct (a # xs @ x # ys)" "distinct (xs @ x # ys @ [b])"
  shows "linked (sbi_list_del_between (prev_of h x) (next_of h x) h) a (xs @ ys) b"
proof -
  define prv nxt where "prv = last (a # xs)" and "nxt = hd (ys @ [b])"
  define h' where "h' = sbi_list_del_between prv nxt h"
  have eq: "sbi_list_del_between (prev_of h x) (next_of h x) h = h'"
    using linked_ends [OF assms(1)] by (simp only: h'_def prv_def nxt_def)
  have mem: "prv \<in> set (a # xs)" "nxt \<in> set (ys @ [b])"
    unfolding prv_def nxt_def by (rule last_in_set, simp) (rule hd_in_set, simp)
  have apart: "prv \<notin> set (butlast (a # xs))" "nxt \<notin> set (tl (ys @ [b]))" "prv \<notin> set ys" "nxt \<notin> set xs"
    using ends_apart [of a xs ys b] assms(2,3) mem by (simp_all add: prv_def nxt_def del: last.simps butlast.simps)
  have nx: "next_of h' y = (if y = prv then nxt else next_of h y)"
    and pv: "prev_of h' y = (if y = nxt then prv else prev_of h y)" for y
    by (simp_all add: h'_def sbi_list_del_between_def Let_def)
  have left: "linked h' a xs nxt"
  proof (rule linked_left [OF assms(1)], unfold prv_def [symmetric])
    show "\<forall>x\<in>set (butlast (a # xs)). next_of h' x = next_of h x"
      using apart(1) by (auto simp: nx simp del: butlast.simps)
    show "\<forall>x\<in>set xs. prev_of h' x = prev_of h x" using apart(4) by (auto simp: pv)
  qed (simp_all add: nx pv)
  show ?thesis
  proof (cases ys)
    case Nil
    then show ?thesis using left by (simp add: eq nxt_def)
  next
    case (Cons y zs)
    have "linked h y zs b" using assms(1) by (simp add: Cons)
    then have "linked h' y zs b"
      by (rule linked_cong) (use apart in \<open>auto simp: nx pv Cons nxt_def\<close>)
    then show ?thesis using left by (simp add: eq nxt_def Cons)
  qed
qed

section \<open>What the operations do to the list\<close>

lemma init_list_head: "list_at (SBI_INIT_LIST_HEAD head h) head []"
  by (simp add: list_at_def SBI_INIT_LIST_HEAD_def)

lemma list_at_insert:
  assumes "list_at h head (xs @ ys)" "new \<notin> set (head # xs @ ys)"
  shows "list_at (sbi_list_add_between new (last (head # xs)) (hd (ys @ [head])) h) head (xs @ new # ys)"
  using assms linked_insert [of h head xs ys head new]
  by (auto simp: list_at_def simp del: last.simps)

lemma list_at_add:
  assumes "list_at h head xs" "new \<notin> set (head # xs)"
  shows "list_at (sbi_list_add new head h) head (new # xs)"
  using list_at_insert [of h head "[]" xs new] assms linked_first [of h head xs head]
  by (simp add: list_at_def sbi_list_add_def)

lemma list_at_add_after:
  assumes "list_at h head (xs @ t # ys)" "new \<notin> set (head # xs @ t # ys)"
  shows "list_at (sbi_list_add new t h) head (xs @ t # new # ys)"
  using list_at_insert [of h head "xs @ [t]" ys new] assms linked_ends(2) [of h head xs t ys head]
  by (simp add: list_at_def sbi_list_add_def)

lemma list_at_add_tail:
  assumes "list_at h head xs" "new \<notin> set (head # xs)"
  shows "list_at (sbi_list_add_tail new head h) head (xs @ [new])"
  using list_at_insert [of h head xs "[]" new] assms linked_last [of h head xs head]
  by (simp add: list_at_def sbi_list_add_tail_def del: last.simps)

lemma list_at_add_before:
  assumes "list_at h head (xs @ t # ys)" "new \<notin> set (head # xs @ t # ys)"
  shows "list_at (sbi_list_add_tail new t h) head (xs @ new # t # ys)"
  using list_at_insert [of h head xs "t # ys" new] assms linked_ends(1) [of h head xs t ys head]
  by (simp add: list_at_def sbi_list_add_tail_def del: last.simps)

lemma list_at_cong:
  assumes "list_at h head xs" "\<forall>x\<in>set (head # xs). next_of h' x = next_of h x \<and> prev_of h' x = prev_of h x"
  shows "list_at h' head xs"
  using assms linked_cong [of h head xs head h'] by (auto simp: list_at_def)

lemma list_at_del_entry:
  assumes "list_at h head (xs @ x # ys)"
  shows "list_at (sbi_list_del_entry x h) head (xs @ ys)"
  using assms linked_remove [of h head xs x ys head] by (auto simp: list_at_def sbi_list_del_entry_def)

lemma list_at_del:
  assumes "list_at h head (xs @ x # ys)"
  shows "list_at (sbi_list_del x h) head (xs @ ys)"
proof -
  have "list_at (sbi_list_del_entry x h) head (xs @ ys)" by (rule list_at_del_entry [OF assms])
  then show ?thesis
    by (rule list_at_cong) (use assms in \<open>auto simp: list_at_def sbi_list_del_def sbi_list_del_entry_def Let_def\<close>)
qed

lemma list_at_del_init:
  assumes "list_at h head (xs @ x # ys)"
  shows "list_at (sbi_list_del_init x h) head (xs @ ys)" "list_at (sbi_list_del_init x h) x []"
proof -
  have "list_at (sbi_list_del_entry x h) head (xs @ ys)" by (rule list_at_del_entry [OF assms])
  then show "list_at (sbi_list_del_init x h) head (xs @ ys)"
    by (rule list_at_cong) (use assms in \<open>auto simp: list_at_def sbi_list_del_init_def SBI_INIT_LIST_HEAD_def\<close>)
  show "list_at (sbi_list_del_init x h) x []" unfolding sbi_list_del_init_def by (rule init_list_head)
qed

lemma list_at_empty: "list_at h head xs \<Longrightarrow> sbi_list_empty head h \<longleftrightarrow> xs = []"
  by (cases xs) (auto simp: list_at_def sbi_list_empty_def)

lemma walk_linked:
  assumes "linked h a xs head" "head \<notin> set xs" "length xs < n"
  shows "sbi_list_walk n (next_of h a) head h = Some xs"
  using assms
proof (induction xs arbitrary: a n)
  case Nil
  then show ?case by (cases n) auto
next
  case (Cons x xs)
  then show ?case by (cases n) auto
qed

lemma for_each_list_at:
  assumes "list_at h head xs" "length xs < n"
  shows "sbi_list_for_each n head h = Some xs"
  using assms walk_linked [of h head xs head n] by (simp add: list_at_def sbi_list_for_each_def)

lemma search_linked:
  assumes "linked h a xs head" "head \<notin> set xs" "length xs < n"
  shows "sbi_list_search n P (next_of h a) head h = Some (List.find P xs)"
  using assms
proof (induction xs arbitrary: a n)
  case Nil
  then show ?case by (cases n) auto
next
  case (Cons x xs)
  then show ?case by (cases n) auto
qed

text \<open>There are no more nodes than addresses, so \<^verbatim>\<open>2 ^ 64\<close> rounds reach the head again.\<close>

lemma list_at_length:
  assumes "list_at h head xs" shows "length xs < 2 ^ 64"
proof -
  have "length (head # xs) = card (set (head # xs))"
    using assms by (intro distinct_card [symmetric]) (simp add: list_at_def)
  also have "\<dots> \<le> card (UNIV :: ulong set)" by (rule card_mono) simp_all
  also have "\<dots> = 2 ^ 64" by (simp add: card_word)
  finally show ?thesis by simp
qed

lemma search_list_at:
  assumes "list_at h head xs"
  shows "sbi_list_search (2 ^ 64) P (next_of h head) head h = Some (List.find P xs)"
  using assms search_linked [of h head xs head "2 ^ 64"] list_at_length [OF assms]
  by (simp add: list_at_def)

section \<open>The ring refines a list\<close>

datatype list_command = Add ulong | Add_tail ulong | Del ulong | Test_empty | For_each

datatype list_answer = Done | Is_empty_list bool | Visits "ulong list"

fun ring_exec :: "ulong \<Rightarrow> list_command \<Rightarrow> list_heap \<Rightarrow> list_answer \<times> list_heap" where
  "ring_exec head (Add p) h = (Done, sbi_list_add p head h)"
| "ring_exec head (Add_tail p) h = (Done, sbi_list_add_tail p head h)"
| "ring_exec head (Del p) h = (Done, sbi_list_del p h)"
| "ring_exec head Test_empty h = (Is_empty_list (sbi_list_empty head h), h)"
| "ring_exec head For_each h = (Visits (the (sbi_list_for_each (2 ^ 64) head h)), h)"

fun nodes_exec :: "list_command \<Rightarrow> ulong list \<Rightarrow> list_answer \<times> ulong list" where
  "nodes_exec (Add p) xs = (Done, p # xs)"
| "nodes_exec (Add_tail p) xs = (Done, xs @ [p])"
| "nodes_exec (Del p) xs = (Done, remove1 p xs)"
| "nodes_exec Test_empty xs = (Is_empty_list (xs = []), xs)"
| "nodes_exec For_each xs = (Visits xs, xs)"

text \<open>A node may be added when it is not linked yet, and taken out when it is.\<close>

fun node_allowed :: "ulong \<Rightarrow> list_command \<Rightarrow> ulong list \<Rightarrow> bool" where
  "node_allowed head (Add p) xs \<longleftrightarrow> p \<notin> set (head # xs)"
| "node_allowed head (Add_tail p) xs \<longleftrightarrow> p \<notin> set (head # xs)"
| "node_allowed head (Del p) xs \<longleftrightarrow> p \<in> set xs"
| "node_allowed head _ xs \<longleftrightarrow> True"

definition ring_nodes :: "ulong \<Rightarrow> list_heap \<Rightarrow> ulong list" where
  "ring_nodes head h = the (sbi_list_for_each (2 ^ 64) head h)"

definition is_ring :: "ulong \<Rightarrow> list_heap \<Rightarrow> bool" where
  "is_ring head h \<longleftrightarrow> list_at h head (ring_nodes head h)"

lemma ring_nodes_eq: "list_at h head xs \<Longrightarrow> ring_nodes head h = xs"
  using for_each_list_at [OF _ list_at_length] by (simp add: ring_nodes_def)

lemma is_ringI: "list_at h head xs \<Longrightarrow> is_ring head h"
  by (simp add: is_ring_def ring_nodes_eq)

lemma ring_exec_step:
  assumes "list_at h head xs" "node_allowed head p xs"
  shows "list_at (snd (ring_exec head p h)) head (snd (nodes_exec p xs))
    \<and> fst (nodes_exec p xs) = fst (ring_exec head p h)"
proof (cases p)
  case (Add a)
  then show ?thesis using list_at_add [OF assms(1)] assms(2) by simp
next
  case (Add_tail a)
  then show ?thesis using list_at_add_tail [OF assms(1)] assms(2) by simp
next
  case (Del a)
  then have "a \<in> set xs" using assms(2) by simp
  then obtain us vs where xs: "xs = us @ a # vs" "a \<notin> set us" by (meson split_list_first)
  then have "remove1 a xs = us @ vs" by (simp add: remove1_append)
  then show ?thesis using list_at_del [of h head us a vs] assms(1) xs Del by simp
next
  case Test_empty
  then show ?thesis using assms(1) list_at_empty [OF assms(1)] by simp
next
  case For_each
  then show ?thesis using assms(1) for_each_list_at [OF assms(1) list_at_length [OF assms(1)]] by simp
qed

interpretation ring_list: guarded_refinement "is_ring head" "ring_nodes head" "ring_exec head" nodes_exec
  "node_allowed head" for head
proof unfold_locales
  fix c p assume wf: "is_ring head c" and ok: "node_allowed head p (ring_nodes head c)"
  note step = ring_exec_step [OF wf [unfolded is_ring_def] ok]
  show "is_ring head (snd (ring_exec head p c))" by (rule is_ringI) (use step in blast)
  show "nodes_exec p (ring_nodes head c) = (fst (ring_exec head p c), ring_nodes head (snd (ring_exec head p c)))"
    using step ring_nodes_eq by (metis prod.collapse)
qed

text \<open>C6. The linked list behaves as a list: for every sequence of additions at the front and at the
  end, removals, emptiness tests and traversals in which only nodes that are not in the list are
  added and only nodes that are in it are removed, the ring of pointers gives the answers of a
  list, stays a ring linked in both directions, and holds the list's nodes in the list's order.\<close>

theorem sbi_list_refines_list:
  assumes "list_at h head xs" and "run_allowed (node_allowed head) nodes_exec cmds xs"
  shows "case run_ops (ring_exec head) cmds h of (answers, h') \<Rightarrow>
    \<exists>ys. list_at h' head ys \<and> run_ops nodes_exec cmds xs = (answers, ys)"
  using ring_list.run_refines [OF is_ringI [OF assms(1)], of cmds] assms(2)
  by (simp add: ring_nodes_eq [OF assms(1)] is_ring_def case_prod_unfold)

theorem sbi_list_refines_list_witness:
  "fst (run_ops (ring_exec 0x1000) [Add 0x10, Add_tail 0x20, Add 0x30, Del 0x10, For_each, Test_empty]
         (SBI_INIT_LIST_HEAD 0x1000 \<lparr>next_of = (\<lambda>p. 0), prev_of = (\<lambda>p. 0)\<rparr>))
   = [Done, Done, Done, Done, Visits [0x30, 0x20], Is_empty_list False]"
proof -
  let ?h = "SBI_INIT_LIST_HEAD 0x1000 \<lparr>next_of = (\<lambda>p. 0), prev_of = (\<lambda>p. 0)\<rparr>"
  let ?cmds = "[Add 0x10, Add_tail 0x20, Add 0x30, Del 0x10, For_each, Test_empty]"
  have ok: "run_allowed (node_allowed 0x1000) nodes_exec ?cmds []" by simp
  obtain rs h' where run: "run_ops (ring_exec 0x1000) ?cmds ?h = (rs, h')" by (rule prod.exhaust)
  have at: "list_at ?h 0x1000 []" by (rule init_list_head)
  have "\<exists>ys. run_ops nodes_exec ?cmds [] = (rs, ys)"
    using sbi_list_refines_list [OF at ok] unfolding run by blast
  then show ?thesis unfolding run by simp
qed

end
