(* ===== verification/Device_Registry.thy ===== *)
theory Device_Registry
  imports Sbi_List
begin

text \<open>
  The two registries of the library: GPIO chips (\<^verbatim>\<open>lib/utils/gpio/gpio.c\<close>) and I2C adapters
  (\<^verbatim>\<open>lib/utils/i2c/i2c.c\<close>), both a linked list with an id in every entry, and the calls that go
  through an entry's table of operations.

  An entry is named by the address of its list node; \<^verbatim>\<open>container_of\<close> is the map from that address
  to the entry. The operations of a driver are functions on a device state of any type. The locale
  \<open>id_registry\<close> is what a client relies on: an id names at most one entry, and looking an id up
  finds it.
\<close>

section \<open>The contract of a registry\<close>

lemma find_none_iff: "List.find P xs = None \<longleftrightarrow> (\<forall>x\<in>set xs. \<not> P x)"
  by (induction xs) auto

lemma find_unique: "distinct (map f xs) \<Longrightarrow> p \<in> set xs \<Longrightarrow> List.find (\<lambda>q. f q = f p) xs = Some p"
  by (induction xs) (auto intro: rev_image_eqI)

locale id_registry =
  fixes wf :: "'s \<Rightarrow> bool" and registered :: "'s \<Rightarrow> ulong list" and ident :: "'s \<Rightarrow> ulong \<Rightarrow> 'k"
    and lookup :: "'k \<Rightarrow> 's \<Rightarrow> ulong option option" and add :: "ulong option \<Rightarrow> 's \<Rightarrow> (int \<times> 's) option"
    and free :: "ulong \<Rightarrow> 's \<Rightarrow> bool"
  assumes lookup_eq: "wf s \<Longrightarrow> lookup k s = Some (List.find (\<lambda>p. ident s p = k) (registered s))"
    and add_null: "add None s = Some (SBI_EINVAL, s)"
    and add_eq: "wf s \<Longrightarrow> lookup (ident s p) s \<noteq> Some None \<Longrightarrow> add (Some p) s = Some (SBI_EALREADY, s)"
    and add_new: "wf s \<Longrightarrow> lookup (ident s p) s = Some None \<Longrightarrow> free p s \<Longrightarrow>
      \<exists>s'. add (Some p) s = Some (0, s') \<and> wf s' \<and> registered s' = p # registered s \<and> ident s' = ident s"
begin

definition unique_ids :: "'s \<Rightarrow> bool" where
  "unique_ids s \<longleftrightarrow> distinct (map (ident s) (registered s))"

lemma add_result:
  assumes "wf s" "unique_ids s" "free p s"
  shows "\<exists>rc s'. add (Some p) s = Some (rc, s') \<and> wf s' \<and> unique_ids s'
    \<and> (if ident s p \<in> ident s ` set (registered s) then rc = SBI_EALREADY \<and> s' = s
       else rc = 0 \<and> lookup (ident s p) s' = Some (Some p)
         \<and> (\<forall>k. k \<noteq> ident s p \<longrightarrow> lookup k s' = lookup k s))"
proof (cases "ident s p \<in> ident s ` set (registered s)")
  case True
  then have "lookup (ident s p) s \<noteq> Some None"
    using lookup_eq [OF assms(1)] by (auto simp: find_none_iff)
  then show ?thesis using add_eq [OF assms(1)] assms True by auto
next
  case False
  then have "List.find (\<lambda>q. ident s q = ident s p) (registered s) = None"
    unfolding find_none_iff by (metis image_eqI)
  then have "lookup (ident s p) s = Some None" by (simp only: lookup_eq [OF assms(1)])
  then obtain s' where s': "add (Some p) s = Some (0, s')" "wf s'"
      "registered s' = p # registered s" "ident s' = ident s"
    using add_new [OF assms(1) _ assms(3)] by blast
  then have "unique_ids s'" using assms(2) False by (simp add: unique_ids_def)
  moreover have "lookup (ident s p) s' = Some (Some p)" "\<forall>k. k \<noteq> ident s p \<longrightarrow> lookup k s' = lookup k s"
    by (simp_all add: lookup_eq [OF s'(2)] lookup_eq [OF assms(1)] s'(3,4))
  ultimately show ?thesis
    unfolding if_not_P [OF False] using s'(1,2) by blast
qed

lemma lookup_unique:
  assumes "wf s" "unique_ids s" "p \<in> set (registered s)"
  shows "lookup (ident s p) s = Some (Some p)"
  using assms find_unique [of "ident s" "registered s" p] by (simp add: lookup_eq unique_ids_def)

end

section \<open>GPIO chips\<close>

record gpio_pin =
  pin_chip :: "ulong option"
  pin_offset :: u32
  pin_flags :: u32

record 'd gpio_chip =
  gpio_driver :: ulong
  gpio_id :: u32
  ngpio :: u32
  op_get_direction :: "(gpio_pin \<Rightarrow> 'd \<Rightarrow> int \<times> 'd) option"
  op_direction_input :: "(gpio_pin \<Rightarrow> 'd \<Rightarrow> int \<times> 'd) option"
  op_direction_output :: "(gpio_pin \<Rightarrow> int \<Rightarrow> 'd \<Rightarrow> int \<times> 'd) option"
  op_get :: "(gpio_pin \<Rightarrow> 'd \<Rightarrow> int \<times> 'd) option"
  op_set :: "(gpio_pin \<Rightarrow> int \<Rightarrow> 'd \<Rightarrow> 'd) option"

record 'd gpio_state =
  gpio_heap :: list_heap
  gpio_chip_list :: ulong
  to_gpio_chip :: "ulong \<Rightarrow> 'd gpio_chip"
  gpio_dev :: 'd

definition gpio_chip_find :: "u32 \<Rightarrow> 'd gpio_state \<Rightarrow> ulong option option" where
  "gpio_chip_find i s =
     sbi_list_search (2 ^ 64) (\<lambda>pos. gpio_id (to_gpio_chip s pos) = i)
       (next_of (gpio_heap s) (gpio_chip_list s)) (gpio_chip_list s) (gpio_heap s)"

fun gpio_chip_add :: "ulong option \<Rightarrow> 'd gpio_state \<Rightarrow> (int \<times> 'd gpio_state) option" where
  "gpio_chip_add None s = Some (SBI_EINVAL, s)"
| "gpio_chip_add (Some gc) s =
     (case gpio_chip_find (gpio_id (to_gpio_chip s gc)) s of
        None \<Rightarrow> None
      | Some (Some c) \<Rightarrow> Some (SBI_EALREADY, s)
      | Some None \<Rightarrow> Some (0, s\<lparr>gpio_heap := sbi_list_add gc (gpio_chip_list s) (gpio_heap s)\<rparr>))"

fun gpio_chip_remove :: "ulong option \<Rightarrow> 'd gpio_state \<Rightarrow> 'd gpio_state" where
  "gpio_chip_remove None s = s"
| "gpio_chip_remove (Some gc) s = s\<lparr>gpio_heap := sbi_list_del gc (gpio_heap s)\<rparr>"

text \<open>The pin's chip when the pin is one of the chip's.\<close>

definition pin_ok :: "gpio_pin option \<Rightarrow> 'd gpio_state \<Rightarrow> (gpio_pin \<times> 'd gpio_chip) option" where
  "pin_ok gp s =
     (case gp of None \<Rightarrow> None
      | Some g \<Rightarrow> (case pin_chip g of None \<Rightarrow> None
        | Some c \<Rightarrow> if ngpio (to_gpio_chip s c) \<le> pin_offset g then None else Some (g, to_gpio_chip s c)))"

definition gpio_get_direction :: "gpio_pin option \<Rightarrow> 'd gpio_state \<Rightarrow> int \<times> 'd gpio_state" where
  "gpio_get_direction gp s =
     (case pin_ok gp s of None \<Rightarrow> (SBI_EINVAL, s)
      | Some (g, c) \<Rightarrow> (case op_get_direction c of None \<Rightarrow> (SBI_ENOSYS, s)
        | Some f \<Rightarrow> case f g (gpio_dev s) of (r, d) \<Rightarrow> (r, s\<lparr>gpio_dev := d\<rparr>)))"

definition gpio_direction_input :: "gpio_pin option \<Rightarrow> 'd gpio_state \<Rightarrow> int \<times> 'd gpio_state" where
  "gpio_direction_input gp s =
     (case pin_ok gp s of None \<Rightarrow> (SBI_EINVAL, s)
      | Some (g, c) \<Rightarrow> (case op_direction_input c of None \<Rightarrow> (SBI_ENOSYS, s)
        | Some f \<Rightarrow> case f g (gpio_dev s) of (r, d) \<Rightarrow> (r, s\<lparr>gpio_dev := d\<rparr>)))"

definition gpio_direction_output ::
  "gpio_pin option \<Rightarrow> int \<Rightarrow> 'd gpio_state \<Rightarrow> int \<times> 'd gpio_state" where
  "gpio_direction_output gp value s =
     (case pin_ok gp s of None \<Rightarrow> (SBI_EINVAL, s)
      | Some (g, c) \<Rightarrow> (case op_direction_output c of None \<Rightarrow> (SBI_ENOSYS, s)
        | Some f \<Rightarrow> case f g value (gpio_dev s) of (r, d) \<Rightarrow> (r, s\<lparr>gpio_dev := d\<rparr>)))"

definition gpio_get :: "gpio_pin option \<Rightarrow> 'd gpio_state \<Rightarrow> int \<times> 'd gpio_state" where
  "gpio_get gp s =
     (case pin_ok gp s of None \<Rightarrow> (SBI_EINVAL, s)
      | Some (g, c) \<Rightarrow> (case op_get c of None \<Rightarrow> (SBI_ENOSYS, s)
        | Some f \<Rightarrow> case f g (gpio_dev s) of (r, d) \<Rightarrow> (r, s\<lparr>gpio_dev := d\<rparr>)))"

definition gpio_set :: "gpio_pin option \<Rightarrow> int \<Rightarrow> 'd gpio_state \<Rightarrow> int \<times> 'd gpio_state" where
  "gpio_set gp value s =
     (case pin_ok gp s of None \<Rightarrow> (SBI_EINVAL, s)
      | Some (g, c) \<Rightarrow> (case op_set c of None \<Rightarrow> (SBI_ENOSYS, s)
        | Some f \<Rightarrow> (0, s\<lparr>gpio_dev := f g value (gpio_dev s)\<rparr>)))"

section \<open>I2C adapters\<close>

text \<open>A transfer gets the adapter, the device address, the register and the bytes to send or the
  number of bytes to read; a read gives the bytes it stored into the buffer.\<close>

record 'd i2c_adapter =
  i2c_driver :: ulong
  i2c_id :: int
  op_i2c_write :: "(ulong \<Rightarrow> u8 \<Rightarrow> u8 \<Rightarrow> u8 list \<Rightarrow> 'd \<Rightarrow> int \<times> 'd) option"
  op_i2c_read :: "(ulong \<Rightarrow> u8 \<Rightarrow> u8 \<Rightarrow> nat \<Rightarrow> 'd \<Rightarrow> (int \<times> u8 list) \<times> 'd) option"

record 'd i2c_state =
  i2c_heap :: list_heap
  i2c_adapters_list :: ulong
  to_i2c_adapter :: "ulong \<Rightarrow> 'd i2c_adapter"
  i2c_dev :: 'd

definition i2c_adapter_find :: "int \<Rightarrow> 'd i2c_state \<Rightarrow> ulong option option" where
  "i2c_adapter_find i s =
     sbi_list_search (2 ^ 64) (\<lambda>pos. i2c_id (to_i2c_adapter s pos) = i)
       (next_of (i2c_heap s) (i2c_adapters_list s)) (i2c_adapters_list s) (i2c_heap s)"

fun i2c_adapter_add :: "ulong option \<Rightarrow> 'd i2c_state \<Rightarrow> (int \<times> 'd i2c_state) option" where
  "i2c_adapter_add None s = Some (SBI_EINVAL, s)"
| "i2c_adapter_add (Some ia) s =
     (case i2c_adapter_find (i2c_id (to_i2c_adapter s ia)) s of
        None \<Rightarrow> None
      | Some (Some c) \<Rightarrow> Some (SBI_EALREADY, s)
      | Some None \<Rightarrow> Some (0, s\<lparr>i2c_heap := sbi_list_add ia (i2c_adapters_list s) (i2c_heap s)\<rparr>))"

fun i2c_adapter_remove :: "ulong option \<Rightarrow> 'd i2c_state \<Rightarrow> 'd i2c_state" where
  "i2c_adapter_remove None s = s"
| "i2c_adapter_remove (Some ia) s = s\<lparr>i2c_heap := sbi_list_del ia (i2c_heap s)\<rparr>"

fun i2c_adapter_write ::
  "ulong option \<Rightarrow> u8 \<Rightarrow> u8 \<Rightarrow> u8 list \<Rightarrow> 'd i2c_state \<Rightarrow> int \<times> 'd i2c_state" where
  "i2c_adapter_write None addr reg buffer s = (SBI_EINVAL, s)"
| "i2c_adapter_write (Some ia) addr reg buffer s =
     (case op_i2c_write (to_i2c_adapter s ia) of None \<Rightarrow> (SBI_ENOSYS, s)
      | Some f \<Rightarrow> case f ia addr reg buffer (i2c_dev s) of (r, d) \<Rightarrow> (r, s\<lparr>i2c_dev := d\<rparr>))"

fun i2c_adapter_read ::
  "ulong option \<Rightarrow> u8 \<Rightarrow> u8 \<Rightarrow> nat \<Rightarrow> 'd i2c_state \<Rightarrow> (int \<times> u8 list) \<times> 'd i2c_state" where
  "i2c_adapter_read None addr reg len s = ((SBI_EINVAL, []), s)"
| "i2c_adapter_read (Some ia) addr reg len s =
     (case op_i2c_read (to_i2c_adapter s ia) of None \<Rightarrow> ((SBI_ENOSYS, []), s)
      | Some f \<Rightarrow> case f ia addr reg len (i2c_dev s) of (r, d) \<Rightarrow> (r, s\<lparr>i2c_dev := d\<rparr>))"

definition i2c_adapter_reg_write ::
  "ulong option \<Rightarrow> u8 \<Rightarrow> u8 \<Rightarrow> u8 \<Rightarrow> 'd i2c_state \<Rightarrow> int \<times> 'd i2c_state" where
  "i2c_adapter_reg_write ia addr reg val s = i2c_adapter_write ia addr reg [val] s"

text \<open>The register's value is stored only when the transfer succeeds; a driver that then did not
  fill the buffer would leave it undefined (\<open>None\<close> behind the code 0).\<close>

definition i2c_adapter_reg_read ::
  "ulong option \<Rightarrow> u8 \<Rightarrow> u8 \<Rightarrow> 'd i2c_state \<Rightarrow> (int \<times> u8 option) \<times> 'd i2c_state" where
  "i2c_adapter_reg_read ia addr reg s =
     (case i2c_adapter_read ia addr reg 1 s of
        ((ret, buf), s) \<Rightarrow>
          if ret \<noteq> 0 then ((ret, None), s) else ((0, case buf of [] \<Rightarrow> None | v # _ \<Rightarrow> Some v), s))"

section \<open>Both are registries\<close>

definition gpio_nodes :: "'d gpio_state \<Rightarrow> ulong list" where
  "gpio_nodes s = ring_nodes (gpio_chip_list s) (gpio_heap s)"

definition gpio_wf :: "'d gpio_state \<Rightarrow> bool" where
  "gpio_wf s \<longleftrightarrow> is_ring (gpio_chip_list s) (gpio_heap s)"

definition i2c_nodes :: "'d i2c_state \<Rightarrow> ulong list" where
  "i2c_nodes s = ring_nodes (i2c_adapters_list s) (i2c_heap s)"

definition i2c_wf :: "'d i2c_state \<Rightarrow> bool" where
  "i2c_wf s \<longleftrightarrow> is_ring (i2c_adapters_list s) (i2c_heap s)"

lemma gpio_find_eq:
  "gpio_wf s \<Longrightarrow> gpio_chip_find k s = Some (List.find (\<lambda>p. gpio_id (to_gpio_chip s p) = k) (gpio_nodes s))"
  unfolding gpio_wf_def is_ring_def gpio_chip_find_def gpio_nodes_def by (rule search_list_at)

lemma i2c_find_eq:
  "i2c_wf s \<Longrightarrow> i2c_adapter_find k s = Some (List.find (\<lambda>p. i2c_id (to_i2c_adapter s p) = k) (i2c_nodes s))"
  unfolding i2c_wf_def is_ring_def i2c_adapter_find_def i2c_nodes_def by (rule search_list_at)

lemma ring_add:
  assumes "is_ring head h" "p \<notin> set (head # ring_nodes head h)"
  shows "is_ring head (sbi_list_add p head h)" "ring_nodes head (sbi_list_add p head h) = p # ring_nodes head h"
proof -
  have "list_at (sbi_list_add p head h) head (p # ring_nodes head h)"
    using assms unfolding is_ring_def by (rule list_at_add)
  then show "is_ring head (sbi_list_add p head h)" "ring_nodes head (sbi_list_add p head h) = p # ring_nodes head h"
    by (simp_all add: is_ringI ring_nodes_eq)
qed

interpretation gpio: id_registry gpio_wf gpio_nodes "\<lambda>s p. gpio_id (to_gpio_chip s p)" gpio_chip_find
  gpio_chip_add "\<lambda>p s. p \<notin> set (gpio_chip_list s # gpio_nodes s)"
proof unfold_locales
  fix s :: "'d gpio_state" and p k
  assume wf: "gpio_wf s"
  show "gpio_chip_find k s = Some (List.find (\<lambda>p. gpio_id (to_gpio_chip s p) = k) (gpio_nodes s))"
    by (rule gpio_find_eq [OF wf])
  show "gpio_chip_add (Some p) s = Some (SBI_EALREADY, s)"
    if "gpio_chip_find (gpio_id (to_gpio_chip s p)) s \<noteq> Some None"
    using that gpio_find_eq [OF wf] by (auto split: option.splits)
  show "\<exists>s'. gpio_chip_add (Some p) s = Some (0, s') \<and> gpio_wf s' \<and> gpio_nodes s' = p # gpio_nodes s
      \<and> (\<lambda>p. gpio_id (to_gpio_chip s' p)) = (\<lambda>p. gpio_id (to_gpio_chip s p))"
    if "gpio_chip_find (gpio_id (to_gpio_chip s p)) s = Some None" "p \<notin> set (gpio_chip_list s # gpio_nodes s)"
    using that wf ring_add [of "gpio_chip_list s" "gpio_heap s" p] by (simp add: gpio_wf_def gpio_nodes_def)
qed simp

interpretation i2c: id_registry i2c_wf i2c_nodes "\<lambda>s p. i2c_id (to_i2c_adapter s p)" i2c_adapter_find
  i2c_adapter_add "\<lambda>p s. p \<notin> set (i2c_adapters_list s # i2c_nodes s)"
proof unfold_locales
  fix s :: "'d i2c_state" and p k
  assume wf: "i2c_wf s"
  show "i2c_adapter_find k s = Some (List.find (\<lambda>p. i2c_id (to_i2c_adapter s p) = k) (i2c_nodes s))"
    by (rule i2c_find_eq [OF wf])
  show "i2c_adapter_add (Some p) s = Some (SBI_EALREADY, s)"
    if "i2c_adapter_find (i2c_id (to_i2c_adapter s p)) s \<noteq> Some None"
    using that i2c_find_eq [OF wf] by (auto split: option.splits)
  show "\<exists>s'. i2c_adapter_add (Some p) s = Some (0, s') \<and> i2c_wf s' \<and> i2c_nodes s' = p # i2c_nodes s
      \<and> (\<lambda>p. i2c_id (to_i2c_adapter s' p)) = (\<lambda>p. i2c_id (to_i2c_adapter s p))"
    if "i2c_adapter_find (i2c_id (to_i2c_adapter s p)) s = Some None" "p \<notin> set (i2c_adapters_list s # i2c_nodes s)"
    using that wf ring_add [of "i2c_adapters_list s" "i2c_heap s" p] by (simp add: i2c_wf_def i2c_nodes_def)
qed simp

text \<open>Registering a GPIO chip on a well-formed registry returns; a chip whose id is taken is refused
  and changes nothing; any other chip is found under its id from then on, every other id is looked
  up as before, and no two registered chips ever have the same id.\<close>

theorem gpio_registered_chip_found:
  assumes "gpio_wf s" and "distinct (map (\<lambda>p. gpio_id (to_gpio_chip s p)) (gpio_nodes s))"
    and "p \<notin> set (gpio_chip_list s # gpio_nodes s)"
  shows "\<exists>rc s'. gpio_chip_add (Some p) s = Some (rc, s') \<and> gpio_wf s'
    \<and> distinct (map (\<lambda>p. gpio_id (to_gpio_chip s' p)) (gpio_nodes s'))
    \<and> (if \<exists>q\<in>set (gpio_nodes s). gpio_id (to_gpio_chip s q) = gpio_id (to_gpio_chip s p)
       then rc = SBI_EALREADY \<and> s' = s
       else rc = 0 \<and> gpio_chip_find (gpio_id (to_gpio_chip s p)) s' = Some (Some p)
         \<and> (\<forall>k. k \<noteq> gpio_id (to_gpio_chip s p) \<longrightarrow> gpio_chip_find k s' = gpio_chip_find k s))"
proof -
  have "gpio_id (to_gpio_chip s p) \<in> (\<lambda>p. gpio_id (to_gpio_chip s p)) ` set (gpio_nodes s)
      \<longleftrightarrow> (\<exists>q\<in>set (gpio_nodes s). gpio_id (to_gpio_chip s q) = gpio_id (to_gpio_chip s p))"
    by (auto simp: image_iff eq_commute)
  then show ?thesis
    using gpio.add_result [OF assms(1) assms(2) [folded gpio.unique_ids_def] assms(3)]
    by (simp only: gpio.unique_ids_def)
qed

definition gpio0 :: "unit gpio_state" where
  "gpio0 = \<lparr>gpio_heap = SBI_INIT_LIST_HEAD 0x1000 \<lparr>next_of = (\<lambda>p. 0), prev_of = (\<lambda>p. 0)\<rparr>,
     gpio_chip_list = 0x1000,
     to_gpio_chip = (\<lambda>p. \<lparr>gpio_driver = 0, gpio_id = (if p = 0x2000 then 7 else 8), ngpio = 16,
        op_get_direction = None, op_direction_input = None, op_direction_output = None,
        op_get = None, op_set = None\<rparr>),
     gpio_dev = ()\<rparr>"

theorem gpio_registered_chip_found_witness:
  "\<exists>s'. gpio_chip_add (Some 0x2000) gpio0 = Some (0, s') \<and> gpio_chip_find 7 s' = Some (Some 0x2000)"
proof -
  have at: "list_at (gpio_heap gpio0) (gpio_chip_list gpio0) []"
    by (simp add: gpio0_def init_list_head)
  then have wf: "gpio_wf gpio0" and none: "gpio_nodes gpio0 = []"
    by (simp_all add: gpio_wf_def gpio_nodes_def is_ringI ring_nodes_eq)
  have "gpio_id (to_gpio_chip gpio0 0x2000) = 7" "gpio_chip_list gpio0 \<noteq> 0x2000" by (simp_all add: gpio0_def)
  then show ?thesis
    using gpio_registered_chip_found [OF wf, of "0x2000"] by (auto simp: none simp del: gpio_chip_add.simps)
qed

text \<open>A pin that is not one of its chip's pins never reaches the driver.\<close>

lemma gpio_pin_checked:
  assumes "pin_ok gp s = None"
  shows "gpio_get_direction gp s = (SBI_EINVAL, s)" "gpio_direction_input gp s = (SBI_EINVAL, s)"
    "gpio_direction_output gp v s = (SBI_EINVAL, s)" "gpio_get gp s = (SBI_EINVAL, s)"
    "gpio_set gp v s = (SBI_EINVAL, s)"
  using assms by (simp_all add: gpio_get_direction_def gpio_direction_input_def gpio_direction_output_def
      gpio_get_def gpio_set_def)

end
