(* ===== verification/I2c_Sifive.thy ===== *)
theory I2c_Sifive
  imports Sbi_Mmio Device_Registry
begin

text \<open>
  The SiFive I2C controller (\<^verbatim>\<open>lib/utils/i2c/fdt_i2c_sifive.c\<close>): the byte transfers and the register
  accesses built from them. The device answers through the \<open>io_bus\<close>; \<open>wait n\<close> says what \<open>n\<close>
  microseconds of \<^verbatim>\<open>sbi_timer_udelay()\<close> do to it. Every wait for the device is bounded by the code.
\<close>

type_synonym 'd wait_fn = "nat \<Rightarrow> 'd \<Rightarrow> 'd"

abbreviation (input) SIFIVE_I2C_TXR :: u8 where "SIFIVE_I2C_TXR \<equiv> 0x0c"
abbreviation (input) SIFIVE_I2C_RXR :: u8 where "SIFIVE_I2C_RXR \<equiv> 0x0c"
abbreviation (input) SIFIVE_I2C_CR :: u8 where "SIFIVE_I2C_CR \<equiv> 0x10"
abbreviation (input) SIFIVE_I2C_SR :: u8 where "SIFIVE_I2C_SR \<equiv> 0x10"
abbreviation (input) SIFIVE_I2C_CMD_IACK :: u8 where "SIFIVE_I2C_CMD_IACK \<equiv> 0x01"
abbreviation (input) SIFIVE_I2C_CMD_ACK :: u8 where "SIFIVE_I2C_CMD_ACK \<equiv> 0x08"
abbreviation (input) SIFIVE_I2C_CMD_WR :: u8 where "SIFIVE_I2C_CMD_WR \<equiv> 0x10"
abbreviation (input) SIFIVE_I2C_CMD_RD :: u8 where "SIFIVE_I2C_CMD_RD \<equiv> 0x20"
abbreviation (input) SIFIVE_I2C_CMD_STO :: u8 where "SIFIVE_I2C_CMD_STO \<equiv> 0x40"
abbreviation (input) SIFIVE_I2C_CMD_STA :: u8 where "SIFIVE_I2C_CMD_STA \<equiv> 0x80"
abbreviation (input) SIFIVE_I2C_STATUS_TIP :: u32 where "SIFIVE_I2C_STATUS_TIP \<equiv> 0x02"
abbreviation (input) SIFIVE_I2C_STATUS_BUSY :: u32 where "SIFIVE_I2C_STATUS_BUSY \<equiv> 0x40"
abbreviation (input) SIFIVE_I2C_STATUS_RXACK :: u8 where "SIFIVE_I2C_STATUS_RXACK \<equiv> 0x80"
abbreviation (input) SIFIVE_I2C_WRITE_BIT :: u8 where "SIFIVE_I2C_WRITE_BIT \<equiv> 0"
abbreviation (input) SIFIVE_I2C_READ_BIT :: u8 where "SIFIVE_I2C_READ_BIT \<equiv> 1"

definition sifive_i2c_setreg :: "'d io_bus \<Rightarrow> ulong \<Rightarrow> u8 \<Rightarrow> u8 \<Rightarrow> 'd \<Rightarrow> 'd" where
  "sifive_i2c_setreg b adap reg value d = raw_writel b (ucast value) (adap + ucast reg) d"

definition sifive_i2c_getreg :: "'d io_bus \<Rightarrow> ulong \<Rightarrow> u8 \<Rightarrow> 'd \<Rightarrow> u8 \<times> 'd" where
  "sifive_i2c_getreg b adap reg d = (case raw_readl b (adap + ucast reg) d of (v, d) \<Rightarrow> (ucast v, d))"

definition sifive_i2c_adapter_rxack :: "'d io_bus \<Rightarrow> ulong \<Rightarrow> 'd \<Rightarrow> int \<times> 'd" where
  "sifive_i2c_adapter_rxack b adap d =
     (case sifive_i2c_getreg b adap SIFIVE_I2C_SR d of (val, d) \<Rightarrow>
        if val AND SIFIVE_I2C_STATUS_RXACK \<noteq> 0 then (SBI_EIO, d) else (0, d))"

text \<open>\<open>n\<close> is the number of rounds before the last one.\<close>

fun sifive_i2c_poll_rounds :: "'d io_bus \<Rightarrow> 'd wait_fn \<Rightarrow> ulong \<Rightarrow> u32 \<Rightarrow> nat \<Rightarrow> 'd \<Rightarrow> int \<times> 'd" where
  "sifive_i2c_poll_rounds b wait adap msk 0 d =
     (case sifive_i2c_getreg b adap SIFIVE_I2C_SR d of (val, d) \<Rightarrow>
        if ucast val AND msk = 0 then (0, d) else (SBI_ETIMEDOUT, wait 1 d))"
| "sifive_i2c_poll_rounds b wait adap msk (Suc n) d =
     (case sifive_i2c_getreg b adap SIFIVE_I2C_SR d of (val, d) \<Rightarrow>
        if ucast val AND msk = 0 then (0, d) else sifive_i2c_poll_rounds b wait adap msk n (wait 1 d))"

definition sifive_i2c_adapter_poll :: "'d io_bus \<Rightarrow> 'd wait_fn \<Rightarrow> ulong \<Rightarrow> u32 \<Rightarrow> 'd \<Rightarrow> int \<times> 'd" where
  "sifive_i2c_adapter_poll b wait adap msk d = sifive_i2c_poll_rounds b wait adap msk (1000 - 1) (wait 80 d)"

definition sifive_i2c_adapter_start :: "'d io_bus \<Rightarrow> 'd wait_fn \<Rightarrow> ulong \<Rightarrow> u8 \<Rightarrow> u8 \<Rightarrow> 'd \<Rightarrow> int \<times> 'd"
where
  "sifive_i2c_adapter_start b wait adap addr bt d =
     (let d = sifive_i2c_setreg b adap SIFIVE_I2C_TXR (push_bit 1 addr OR bt) d;
          d = sifive_i2c_setreg b adap SIFIVE_I2C_CR
                (SIFIVE_I2C_CMD_STA OR SIFIVE_I2C_CMD_WR OR SIFIVE_I2C_CMD_IACK) d
      in sifive_i2c_adapter_poll b wait adap SIFIVE_I2C_STATUS_TIP d)"

text \<open>Sending one byte, as both transfers do it.\<close>

definition i2c_send_byte :: "'d io_bus \<Rightarrow> 'd wait_fn \<Rightarrow> ulong \<Rightarrow> u8 \<Rightarrow> 'd \<Rightarrow> int \<times> 'd" where
  "i2c_send_byte b wait adap v d =
     (let d = sifive_i2c_setreg b adap SIFIVE_I2C_TXR v d;
          d = sifive_i2c_setreg b adap SIFIVE_I2C_CR (SIFIVE_I2C_CMD_WR OR SIFIVE_I2C_CMD_IACK) d
      in io_then (sifive_i2c_adapter_poll b wait adap SIFIVE_I2C_STATUS_TIP d) (\<lambda>d.
         sifive_i2c_adapter_rxack b adap d))"

definition i2c_start_acked :: "'d io_bus \<Rightarrow> 'd wait_fn \<Rightarrow> ulong \<Rightarrow> u8 \<Rightarrow> u8 \<Rightarrow> 'd \<Rightarrow> int \<times> 'd" where
  "i2c_start_acked b wait adap addr bt d =
     io_then (sifive_i2c_adapter_start b wait adap addr bt d) (\<lambda>d. sifive_i2c_adapter_rxack b adap d)"

definition i2c_stop :: "'d io_bus \<Rightarrow> 'd wait_fn \<Rightarrow> ulong \<Rightarrow> 'd \<Rightarrow> int \<times> 'd" where
  "i2c_stop b wait adap d =
     (let d = sifive_i2c_setreg b adap SIFIVE_I2C_CR (SIFIVE_I2C_CMD_STO OR SIFIVE_I2C_CMD_IACK) d
      in io_then (sifive_i2c_adapter_poll b wait adap SIFIVE_I2C_STATUS_BUSY d) (\<lambda>d.
         (0, sifive_i2c_setreg b adap SIFIVE_I2C_CR SIFIVE_I2C_CMD_IACK d)))"

fun i2c_send_bytes :: "'d io_bus \<Rightarrow> 'd wait_fn \<Rightarrow> ulong \<Rightarrow> u8 list \<Rightarrow> 'd \<Rightarrow> int \<times> 'd" where
  "i2c_send_bytes b wait adap [] d = (0, d)"
| "i2c_send_bytes b wait adap (v # vs) d =
     io_then (i2c_send_byte b wait adap v d) (\<lambda>d. i2c_send_bytes b wait adap vs d)"

definition sifive_i2c_adapter_write ::
  "'d io_bus \<Rightarrow> 'd wait_fn \<Rightarrow> ulong \<Rightarrow> u8 \<Rightarrow> u8 \<Rightarrow> u8 list \<Rightarrow> 'd \<Rightarrow> int \<times> 'd" where
  "sifive_i2c_adapter_write b wait adap addr reg buffer d =
     io_then (i2c_start_acked b wait adap addr SIFIVE_I2C_WRITE_BIT d) (\<lambda>d.
     io_then (i2c_send_byte b wait adap reg d) (\<lambda>d.
     io_then (i2c_send_bytes b wait adap buffer d) (\<lambda>d.
     i2c_stop b wait adap d)))"

text \<open>The read loop: every byte but the last is acknowledged; the bytes stored so far come back even
  when a byte does not arrive.\<close>

fun i2c_read_bytes :: "'d io_bus \<Rightarrow> 'd wait_fn \<Rightarrow> ulong \<Rightarrow> nat \<Rightarrow> u8 list \<Rightarrow> 'd \<Rightarrow> (int \<times> u8 list) \<times> 'd" where
  "i2c_read_bytes b wait adap 0 got d = ((0, got), d)"
| "i2c_read_bytes b wait adap (Suc n) got d =
     (let cmd = (if n = 0 then SIFIVE_I2C_CMD_ACK OR SIFIVE_I2C_CMD_RD OR SIFIVE_I2C_CMD_IACK
                 else SIFIVE_I2C_CMD_RD OR SIFIVE_I2C_CMD_IACK);
          d = sifive_i2c_setreg b adap SIFIVE_I2C_CR cmd d;
          (rc, d) = sifive_i2c_adapter_poll b wait adap SIFIVE_I2C_STATUS_TIP d
      in if rc \<noteq> 0 then ((rc, got), d)
         else case sifive_i2c_getreg b adap SIFIVE_I2C_RXR d of (v, d) \<Rightarrow>
                i2c_read_bytes b wait adap n (got @ [v]) d)"

definition sifive_i2c_adapter_read ::
  "'d io_bus \<Rightarrow> 'd wait_fn \<Rightarrow> ulong \<Rightarrow> u8 \<Rightarrow> u8 \<Rightarrow> nat \<Rightarrow> 'd \<Rightarrow> (int \<times> u8 list) \<times> 'd" where
  "sifive_i2c_adapter_read b wait adap addr reg len d =
     (case io_then (i2c_start_acked b wait adap addr SIFIVE_I2C_WRITE_BIT d) (\<lambda>d.
           io_then (i2c_send_byte b wait adap reg d) (\<lambda>d.
           i2c_start_acked b wait adap addr SIFIVE_I2C_READ_BIT d)) of
        (rc, d) \<Rightarrow>
          if rc \<noteq> 0 then ((rc, []), d)
          else case i2c_read_bytes b wait adap len [] d of
            ((rc, got), d) \<Rightarrow>
              if rc \<noteq> 0 then ((rc, got), d)
              else case i2c_stop b wait adap d of (rc, d) \<Rightarrow> ((rc, got), d))"

section \<open>The commands of a transfer\<close>

definition cr_word :: "ulong \<Rightarrow> u8 \<Rightarrow> ulong \<times> u32" where
  "cr_word adap v = (adap + ucast SIFIVE_I2C_CR, ucast v)"

definition txr_word :: "ulong \<Rightarrow> u8 \<Rightarrow> ulong \<times> u32" where
  "txr_word adap v = (adap + ucast SIFIVE_I2C_TXR, ucast v)"

text \<open>A start condition with the device address, a byte, and a stop condition.\<close>

definition start_cmds :: "ulong \<Rightarrow> u8 \<Rightarrow> (ulong \<times> u32) list" where
  "start_cmds adap v = [txr_word adap v, cr_word adap 0x91]"

definition byte_cmds :: "ulong \<Rightarrow> u8 \<Rightarrow> (ulong \<times> u32) list" where
  "byte_cmds adap v = [txr_word adap v, cr_word adap 0x11]"

definition stop_cmds :: "ulong \<Rightarrow> (ulong \<times> u32) list" where
  "stop_cmds adap = [cr_word adap 0x41, cr_word adap 0x01]"

fun read_cmds :: "ulong \<Rightarrow> nat \<Rightarrow> (ulong \<times> u32) list" where
  "read_cmds adap 0 = []"
| "read_cmds adap (Suc n) = cr_word adap (if n = 0 then 0x29 else 0x21) # read_cmds adap n"

abbreviation (input) logged_wait :: "'d wait_fn \<Rightarrow> ('d \<times> 'l) wait_fn" where
  "logged_wait wait \<equiv> (\<lambda>n (d, l). (wait n d, l))"

lemma getreg_log:
  "\<exists>v d'. sifive_i2c_getreg (log_bus b) adap reg (d, l) = (v, d', l)"
  by (cases "raw_readl b (adap + ucast reg) d") (simp add: sifive_i2c_getreg_def log_bus_def)

lemma logs_rxack: "logs (sifive_i2c_adapter_rxack (log_bus b) adap) []"
proof (rule logsI)
  fix d l
  obtain v d' where "sifive_i2c_getreg (log_bus b) adap SIFIVE_I2C_SR (d, l) = (v, d', l)"
    using getreg_log [of b adap "0x10" d l] by auto
  then have "sifive_i2c_adapter_rxack (log_bus b) adap (d, l)
      = ((if v AND SIFIVE_I2C_STATUS_RXACK \<noteq> 0 then SBI_EIO else 0), d', l @ [])"
    by (simp add: sifive_i2c_adapter_rxack_def)
  then show "\<exists>rc d' vs. sifive_i2c_adapter_rxack (log_bus b) adap (d, l) = (rc, d', l @ vs)
      \<and> prefix vs [] \<and> (rc = 0 \<longrightarrow> vs = [])"
    using prefix_order.refl by blast
qed

lemma poll_rounds_log:
  "\<exists>rc d'. sifive_i2c_poll_rounds (log_bus b) (logged_wait wait) adap msk n (d, l) = (rc, d', l)"
proof (induction n arbitrary: d)
  case 0
  obtain v d' where "sifive_i2c_getreg (log_bus b) adap SIFIVE_I2C_SR (d, l) = (v, d', l)"
    using getreg_log [of b adap "0x10" d l] by auto
  then show ?case by simp
next
  case (Suc n)
  obtain v d' where "sifive_i2c_getreg (log_bus b) adap SIFIVE_I2C_SR (d, l) = (v, d', l)"
    using getreg_log [of b adap "0x10" d l] by auto
  then show ?case using Suc.IH by simp
qed

lemma poll_log:
  "\<exists>rc d'. sifive_i2c_adapter_poll (log_bus b) (logged_wait wait) adap msk (d, l) = (rc, d', l)"
  unfolding sifive_i2c_adapter_poll_def case_prod_conv by (rule poll_rounds_log)

lemma setreg_log:
  "sifive_i2c_setreg (log_bus b) adap reg v (d, l)
   = (sifive_i2c_setreg b adap reg v d, l @ [(adap + ucast reg, ucast v)])"
  by (simp add: sifive_i2c_setreg_def log_bus_def)

lemma logs_set_then:
  assumes "logs f ws"
  shows "logs (\<lambda>d. f (sifive_i2c_setreg (log_bus b) adap reg v d)) ((adap + ucast reg, ucast v) # ws)"
proof (rule logsI)
  fix d l
  obtain rc d' vs where "f (sifive_i2c_setreg b adap reg v d, l @ [(adap + ucast reg, ucast v)])
      = (rc, d', (l @ [(adap + ucast reg, ucast v)]) @ vs)" "prefix vs ws" "rc = 0 \<longrightarrow> vs = ws"
    by (rule logsD [OF assms])
  then have "f (sifive_i2c_setreg (log_bus b) adap reg v (d, l)) = (rc, d', l @ (adap + ucast reg, ucast v) # vs)
      \<and> prefix ((adap + ucast reg, ucast v) # vs) ((adap + ucast reg, ucast v) # ws)
      \<and> (rc = 0 \<longrightarrow> (adap + ucast reg, ucast v) # vs = (adap + ucast reg, ucast v) # ws)"
    by (simp only: setreg_log append_assoc append_Cons append_Nil Cons_prefix_Cons list.inject simp_thms)
  then show "\<exists>rc d' vs. f (sifive_i2c_setreg (log_bus b) adap reg v (d, l)) = (rc, d', l @ vs)
      \<and> prefix vs ((adap + ucast reg, ucast v) # ws) \<and> (rc = 0 \<longrightarrow> vs = (adap + ucast reg, ucast v) # ws)"
    by blast
qed

lemma logs_poll: "logs (sifive_i2c_adapter_poll (log_bus b) (logged_wait wait) adap msk) []"
  by (rule logsI) (use poll_log in force)

lemma logs_two_sets:
  assumes "logs f ws"
  shows "logs (\<lambda>d. f (sifive_i2c_setreg (log_bus b) adap rb vb (sifive_i2c_setreg (log_bus b) adap ra va d)))
    ((adap + ucast ra, ucast va) # (adap + ucast rb, ucast vb) # ws)"
  by (rule logs_set_then [OF logs_set_then [OF assms, where reg = rb and v = vb], where reg = ra and v = va])

lemma logs_start:
  "logs (i2c_start_acked (log_bus b) (logged_wait wait) adap addr bt) (start_cmds adap (push_bit 1 addr OR bt))"
proof -
  have "logs (sifive_i2c_adapter_start (log_bus b) (logged_wait wait) adap addr bt)
      (start_cmds adap (push_bit 1 addr OR bt))"
    using logs_two_sets [OF logs_poll, where b = b and adap = adap and rb = SIFIVE_I2C_CR
        and vb = "SIFIVE_I2C_CMD_STA OR SIFIVE_I2C_CMD_WR OR SIFIVE_I2C_CMD_IACK"
        and ra = SIFIVE_I2C_TXR and va = "push_bit 1 addr OR bt"]
    by (simp add: sifive_i2c_adapter_start_def [abs_def] start_cmds_def txr_word_def cr_word_def)
  from logs_then [OF this logs_rxack] show ?thesis by (simp add: i2c_start_acked_def [abs_def])
qed

lemma logs_byte: "logs (i2c_send_byte (log_bus b) (logged_wait wait) adap v) (byte_cmds adap v)"
  using logs_two_sets [OF logs_then [OF logs_poll logs_rxack], where b = b and adap = adap
      and rb = SIFIVE_I2C_CR and vb = "SIFIVE_I2C_CMD_WR OR SIFIVE_I2C_CMD_IACK"
      and ra = SIFIVE_I2C_TXR and va = v]
  by (simp add: i2c_send_byte_def [abs_def] byte_cmds_def txr_word_def cr_word_def)

lemma logs_bytes:
  "logs (i2c_send_bytes (log_bus b) (logged_wait wait) adap vs) (concat (map (byte_cmds adap) vs))"
proof (induction vs)
  case Nil
  then show ?case using logs_return [of 0] by simp
next
  case (Cons v vs)
  show ?case using logs_then [OF logs_byte Cons.IH] by simp
qed

lemma logs_stop: "logs (i2c_stop (log_bus b) (logged_wait wait) adap) (stop_cmds adap)"
proof -
  have ack: "logs (\<lambda>d. (0, sifive_i2c_setreg (log_bus b) adap SIFIVE_I2C_CR SIFIVE_I2C_CMD_IACK d))
      [cr_word adap SIFIVE_I2C_CMD_IACK]"
    unfolding cr_word_def by (rule logs_set_then [OF logs_return])
  show ?thesis
    using logs_set_then [OF logs_then [OF logs_poll ack], where b = b and adap = adap
        and reg = SIFIVE_I2C_CR and v = "SIFIVE_I2C_CMD_STO OR SIFIVE_I2C_CMD_IACK"]
    by (simp add: i2c_stop_def [abs_def] stop_cmds_def cr_word_def)
qed

text \<open>C31. Whatever the device answers, an I2C register write commands the controller in the order of the
  protocol: the start condition with the device address, the register number, every byte of the
  buffer, the stop condition. A write that succeeds has given all of these commands and nothing
  else; one that fails has given an initial part of them.\<close>

theorem i2c_write_commands:
  "\<exists>rc d' vs. sifive_i2c_adapter_write (log_bus b) (logged_wait wait) adap addr reg buffer (d, []) = (rc, d', vs)
     \<and> prefix vs (start_cmds adap (push_bit 1 addr) @ byte_cmds adap reg
                  @ concat (map (byte_cmds adap) buffer) @ stop_cmds adap)
     \<and> (rc = 0 \<longrightarrow> vs = start_cmds adap (push_bit 1 addr) @ byte_cmds adap reg
                  @ concat (map (byte_cmds adap) buffer) @ stop_cmds adap)"
proof -
  have "logs (sifive_i2c_adapter_write (log_bus b) (logged_wait wait) adap addr reg buffer)
      (start_cmds adap (push_bit 1 addr OR 0) @ byte_cmds adap reg
       @ concat (map (byte_cmds adap) buffer) @ stop_cmds adap)"
    unfolding sifive_i2c_adapter_write_def
    by (intro logs_then logs_start logs_byte logs_bytes logs_stop)
  then obtain rc d' vs where "sifive_i2c_adapter_write (log_bus b) (logged_wait wait) adap addr reg buffer (d, [])
        = (rc, d', [] @ vs)"
      "prefix vs (start_cmds adap (push_bit 1 addr OR 0) @ byte_cmds adap reg
       @ concat (map (byte_cmds adap) buffer) @ stop_cmds adap)"
      "rc = 0 \<longrightarrow> vs = start_cmds adap (push_bit 1 addr OR 0) @ byte_cmds adap reg
       @ concat (map (byte_cmds adap) buffer) @ stop_cmds adap"
    by (rule logsD)
  then show ?thesis by simp
qed

text \<open>A device that is never busy and acknowledges every byte.\<close>

definition quiet_bus :: "unit io_bus" where
  "quiet_bus = \<lparr>raw_readb = \<lambda>a d. (0, d), raw_readw = \<lambda>a d. (0, d), raw_readl = \<lambda>a d. (0, d),
     raw_readq = \<lambda>a d. (0, d), raw_writeb = \<lambda>v a d. d, raw_writew = \<lambda>v a d. d,
     raw_writel = \<lambda>v a d. d, raw_writeq = \<lambda>v a d. d\<rparr>"

lemma quiet_poll: "sifive_i2c_adapter_poll (log_bus quiet_bus) wait adap msk d = (0, wait 80 d)"
proof -
  have "sifive_i2c_poll_rounds (log_bus quiet_bus) wait adap msk n d = (0, d)" for n d
    by (cases n; cases d) (simp_all add: sifive_i2c_getreg_def log_bus_def quiet_bus_def)
  then show ?thesis by (simp add: sifive_i2c_adapter_poll_def)
qed

lemma quiet_rxack: "sifive_i2c_adapter_rxack (log_bus quiet_bus) adap d = (0, d)"
  by (cases d) (simp add: sifive_i2c_adapter_rxack_def sifive_i2c_getreg_def log_bus_def quiet_bus_def)

theorem i2c_write_commands_witness:
  "sifive_i2c_adapter_write (log_bus quiet_bus) (logged_wait (\<lambda>n d. d)) 0x1000 0x50 0x07 [0xab] ((), [])
   = (0, (), [(0x100c, 0xa0), (0x1010, 0x91), (0x100c, 0x07), (0x1010, 0x11),
              (0x100c, 0xab), (0x1010, 0x11), (0x1010, 0x41), (0x1010, 0x01)])"
proof -
  have "fst (sifive_i2c_adapter_write (log_bus quiet_bus) (logged_wait (\<lambda>n d. d)) 0x1000 0x50 0x07 [0xab] ((), [])) = 0"
    by (simp add: sifive_i2c_adapter_write_def i2c_start_acked_def sifive_i2c_adapter_start_def i2c_send_byte_def
        i2c_stop_def quiet_poll quiet_rxack io_then_def Let_def)
  then show ?thesis
    using i2c_write_commands [of quiet_bus "\<lambda>n d. d" "0x1000" "0x50" "0x07" "[0xab]" "()"]
    by (auto simp: start_cmds_def byte_cmds_def stop_cmds_def txr_word_def cr_word_def)
qed

text \<open>Every wait ends: at most 1000 readings of the status register, each but a successful last one
  followed by a microsecond.\<close>

lemma poll_gives_up:
  assumes "\<And>d. ucast (fst (sifive_i2c_getreg b adap SIFIVE_I2C_SR d)) AND msk \<noteq> 0"
  shows "fst (sifive_i2c_adapter_poll b wait adap msk d) = SBI_ETIMEDOUT"
proof -
  have "fst (sifive_i2c_poll_rounds b wait adap msk n d) = SBI_ETIMEDOUT" for n d
    using assms by (induction n arbitrary: d) (simp_all add: case_prod_unfold)
  then show ?thesis by (simp add: sifive_i2c_adapter_poll_def)
qed

text \<open>A read stores at most the bytes asked for, and exactly that many when it succeeds.\<close>

lemma read_bytes_length:
  "i2c_read_bytes b wait adap n got d = ((rc, r), d') \<Longrightarrow>
     length r \<le> length got + n \<and> (rc = 0 \<longrightarrow> length r = length got + n)"
  by (induction n arbitrary: got d) (fastforce simp: Let_def split: prod.splits if_splits)+

lemma i2c_read_length:
  assumes "sifive_i2c_adapter_read b wait adap addr reg len d = ((rc, r), d')"
  shows "length r \<le> len \<and> (rc = 0 \<longrightarrow> length r = len)"
  using assms by (auto simp: sifive_i2c_adapter_read_def split: prod.splits if_splits dest!: read_bytes_length)

end
