(* ===== verification/Serial.thy ===== *)
theory Serial
  imports Sbi_Mmio
begin

text \<open>
  The serial drivers (\<^verbatim>\<open>lib/utils/serial\<close>): the 8250, SiFive, Gaisler, LiteX and Shakti UARTs, and the
  HTIF console (\<^verbatim>\<open>lib/utils/sys/htif.c\<close>). A driver's static variables are the members of a record; the
  device is an \<open>io_bus\<close>. The loops that wait for the transmitter take a bound on their rounds; a
  device that stays busy is a hang. A character is a byte, as \<^verbatim>\<open>char\<close> is unsigned on RISC-V. The
  registration with the console (\<^verbatim>\<open>sbi_console_set_device()\<close>) is in \<open>Sbi_Console\<close>.
\<close>

text \<open>Reading a register until a condition holds.\<close>

fun poll_until :: "('d \<Rightarrow> bool \<times> 'd) \<Rightarrow> nat \<Rightarrow> 'd \<Rightarrow> (unit, 'd) flow" where
  "poll_until ready 0 d = Hang d"
| "poll_until ready (Suc n) d = (case ready d of (ok, d) \<Rightarrow> if ok then Ret () d else poll_until ready n d)"

lemma poll_until_ready: "0 < n \<Longrightarrow> ready d = (True, d') \<Longrightarrow> poll_until ready n d = Ret () d'"
  by (cases n) simp_all

section \<open>The 8250\<close>

record uart8250 =
  uart8250_base :: ulong
  uart8250_in_freq :: u32
  uart8250_baudrate :: u32
  uart8250_reg_width :: u32
  uart8250_reg_shift :: u32

abbreviation (input) UART_RBR_OFFSET :: u32 where "UART_RBR_OFFSET \<equiv> 0"
abbreviation (input) UART_THR_OFFSET :: u32 where "UART_THR_OFFSET \<equiv> 0"
abbreviation (input) UART_DLL_OFFSET :: u32 where "UART_DLL_OFFSET \<equiv> 0"
abbreviation (input) UART_IER_OFFSET :: u32 where "UART_IER_OFFSET \<equiv> 1"
abbreviation (input) UART_DLM_OFFSET :: u32 where "UART_DLM_OFFSET \<equiv> 1"
abbreviation (input) UART_FCR_OFFSET :: u32 where "UART_FCR_OFFSET \<equiv> 2"
abbreviation (input) UART_LCR_OFFSET :: u32 where "UART_LCR_OFFSET \<equiv> 3"
abbreviation (input) UART_MCR_OFFSET :: u32 where "UART_MCR_OFFSET \<equiv> 4"
abbreviation (input) UART_LSR_OFFSET :: u32 where "UART_LSR_OFFSET \<equiv> 5"
abbreviation (input) UART_SCR_OFFSET :: u32 where "UART_SCR_OFFSET \<equiv> 7"
abbreviation (input) UART_LSR_THRE :: u32 where "UART_LSR_THRE \<equiv> 0x20"
abbreviation (input) UART_LSR_DR :: u32 where "UART_LSR_DR \<equiv> 0x01"

text \<open>A 32 bit shift by the hardware uses the low five bits of the amount.\<close>

definition uart8250_offset :: "uart8250 \<Rightarrow> u32 \<Rightarrow> ulong" where
  "uart8250_offset u num = uart8250_base u + ucast (push_bit (unat (uart8250_reg_shift u) mod 32) num)"

definition uart8250_get_reg :: "'d io_bus \<Rightarrow> uart8250 \<Rightarrow> u32 \<Rightarrow> 'd \<Rightarrow> u32 \<times> 'd" where
  "uart8250_get_reg b u num d =
     (let a = uart8250_offset u num in
      if uart8250_reg_width u = 1 then (case raw_readb b a d of (v, d) \<Rightarrow> (ucast v, d))
      else if uart8250_reg_width u = 2 then (case raw_readw b a d of (v, d) \<Rightarrow> (ucast v, d))
      else raw_readl b a d)"

definition uart8250_set_reg :: "'d io_bus \<Rightarrow> uart8250 \<Rightarrow> u32 \<Rightarrow> u32 \<Rightarrow> 'd \<Rightarrow> 'd" where
  "uart8250_set_reg b u num val d =
     (let a = uart8250_offset u num in
      if uart8250_reg_width u = 1 then raw_writeb b (ucast val) a d
      else if uart8250_reg_width u = 2 then raw_writew b (ucast val) a d
      else raw_writel b val a d)"

definition uart8250_putc :: "'d io_bus \<Rightarrow> uart8250 \<Rightarrow> nat \<Rightarrow> u8 \<Rightarrow> 'd \<Rightarrow> (unit, 'd) flow" where
  "uart8250_putc b u n ch d =
     flow_bind (poll_until (\<lambda>d. case uart8250_get_reg b u UART_LSR_OFFSET d of (v, d) \<Rightarrow> (v AND UART_LSR_THRE \<noteq> 0, d)) n d)
       (\<lambda>_ d. Ret () (uart8250_set_reg b u UART_THR_OFFSET (ucast ch) d))"

text \<open>The register's value is returned as a C \<^verbatim>\<open>int\<close>.\<close>

definition uart8250_getc :: "'d io_bus \<Rightarrow> uart8250 \<Rightarrow> 'd \<Rightarrow> int \<times> 'd" where
  "uart8250_getc b u d =
     (case uart8250_get_reg b u UART_LSR_OFFSET d of (v, d) \<Rightarrow>
        if v AND UART_LSR_DR \<noteq> 0
        then (case uart8250_get_reg b u UART_RBR_OFFSET d of (v, d) \<Rightarrow> (sint v, d))
        else (- 1, d))"

text \<open>RISC-V divides by zero to all ones; the product is 32 bits wide, the divisor is cut to 16.\<close>

definition udiv32 :: "u32 \<Rightarrow> u32 \<Rightarrow> u32" where
  "udiv32 a c = (if c = 0 then - 1 else a div c)"

definition uart8250_init ::
  "'d io_bus \<Rightarrow> ulong \<Rightarrow> u32 \<Rightarrow> u32 \<Rightarrow> u32 \<Rightarrow> u32 \<Rightarrow> 'd \<Rightarrow> int \<times> uart8250 \<times> 'd" where
  "uart8250_init b addr in_freq baudrate reg_shift reg_width d =
     (let u = \<lparr>uart8250_base = addr, uart8250_in_freq = in_freq, uart8250_baudrate = baudrate,
               uart8250_reg_width = reg_width, uart8250_reg_shift = reg_shift\<rparr>;
          bdiv = (ucast (udiv32 (uart8250_in_freq u) (16 * uart8250_baudrate u)) :: u16);
          d = uart8250_set_reg b u UART_IER_OFFSET 0x00 d;
          d = uart8250_set_reg b u UART_LCR_OFFSET 0x80 d;
          d = (if bdiv \<noteq> 0 then
                 let d = uart8250_set_reg b u UART_DLL_OFFSET (ucast bdiv AND 0xff) d
                 in uart8250_set_reg b u UART_DLM_OFFSET (ucast (drop_bit 8 bdiv) AND 0xff) d
               else d);
          d = uart8250_set_reg b u UART_LCR_OFFSET 0x03 d;
          d = uart8250_set_reg b u UART_FCR_OFFSET 0x01 d;
          d = uart8250_set_reg b u UART_MCR_OFFSET 0x00 d;
          (_, d) = uart8250_get_reg b u UART_LSR_OFFSET d;
          (_, d) = uart8250_get_reg b u UART_RBR_OFFSET d;
          d = uart8250_set_reg b u UART_SCR_OFFSET 0x00 d
      in (0, u, d))"

section \<open>The SiFive UART\<close>

definition udiv64 :: "u64 \<Rightarrow> u64 \<Rightarrow> u64" where
  "udiv64 a c = (if c = 0 then - 1 else a div c)"

definition uart_min_clk_divisor :: "u64 \<Rightarrow> u64 \<Rightarrow> u32" where
  "uart_min_clk_divisor in_freq max_target_hz =
     (let quotient = udiv64 (in_freq + max_target_hz - 1) max_target_hz
      in if quotient = 0 then 0 else ucast (quotient - 1))"

definition sifive_get_reg :: "'d io_bus \<Rightarrow> ulong \<Rightarrow> u32 \<Rightarrow> 'd \<Rightarrow> u32 \<times> 'd" where
  "sifive_get_reg b uart_base num d = raw_readl b (uart_base + ucast (num * 4)) d"

definition sifive_set_reg :: "'d io_bus \<Rightarrow> ulong \<Rightarrow> u32 \<Rightarrow> u32 \<Rightarrow> 'd \<Rightarrow> 'd" where
  "sifive_set_reg b uart_base num val d = raw_writel b val (uart_base + ucast (num * 4)) d"

definition sifive_uart_putc :: "'d io_bus \<Rightarrow> ulong \<Rightarrow> nat \<Rightarrow> u8 \<Rightarrow> 'd \<Rightarrow> (unit, 'd) flow" where
  "sifive_uart_putc b uart_base n ch d =
     flow_bind (poll_until (\<lambda>d. case sifive_get_reg b uart_base 0 d of (v, d) \<Rightarrow> (v AND 0x80000000 = 0, d)) n d)
       (\<lambda>_ d. Ret () (sifive_set_reg b uart_base 0 (ucast ch) d))"

definition sifive_uart_getc :: "'d io_bus \<Rightarrow> ulong \<Rightarrow> 'd \<Rightarrow> int \<times> 'd" where
  "sifive_uart_getc b uart_base d =
     (case sifive_get_reg b uart_base 1 d of (ret, d) \<Rightarrow>
        if ret AND 0x80000000 = 0 then (sint (ret AND 0xff), d) else (- 1, d))"

definition sifive_uart_init :: "'d io_bus \<Rightarrow> ulong \<Rightarrow> u32 \<Rightarrow> u32 \<Rightarrow> 'd \<Rightarrow> int \<times> 'd" where
  "sifive_uart_init b base_addr in_freq baudrate d =
     (let d = (if in_freq \<noteq> 0
               then sifive_set_reg b base_addr 6 (uart_min_clk_divisor (ucast in_freq) (ucast baudrate)) d else d);
          d = sifive_set_reg b base_addr 4 0 d;
          d = sifive_set_reg b base_addr 2 1 d;
          d = sifive_set_reg b base_addr 3 1 d
      in (0, d))"

section \<open>The Gaisler UART\<close>

definition gaisler_uart_putc :: "'d io_bus \<Rightarrow> ulong \<Rightarrow> nat \<Rightarrow> u8 \<Rightarrow> 'd \<Rightarrow> (unit, 'd) flow" where
  "gaisler_uart_putc b uart_base n ch d =
     flow_bind (poll_until (\<lambda>d. case sifive_get_reg b uart_base 1 d of (v, d) \<Rightarrow> (v AND 0x200 = 0, d)) n d)
       (\<lambda>_ d. Ret () (sifive_set_reg b uart_base 0 (ucast ch) d))"

definition gaisler_uart_getc :: "'d io_bus \<Rightarrow> ulong \<Rightarrow> 'd \<Rightarrow> int \<times> 'd" where
  "gaisler_uart_getc b uart_base d =
     (case sifive_get_reg b uart_base 1 d of (ret, d) \<Rightarrow>
        if ret AND 1 = 0 then (- 1, d)
        else case sifive_get_reg b uart_base 0 d of (v, d) \<Rightarrow> (sint (v AND 0xff), d))"

definition gaisler_uart_init :: "'d io_bus \<Rightarrow> ulong \<Rightarrow> u32 \<Rightarrow> u32 \<Rightarrow> 'd \<Rightarrow> int \<times> 'd" where
  "gaisler_uart_init b base_addr in_freq baudrate d =
     (let d = (if in_freq \<noteq> 0 then sifive_set_reg b base_addr 3 (udiv32 in_freq (baudrate * 8 + 7)) d else d);
          (ctrl, d) = sifive_get_reg b base_addr 2 d;
          ctrl = ctrl AND (0x800 OR 0x40);
          ctrl = ctrl OR (0x2 OR 0x1)
      in (0, sifive_set_reg b base_addr 2 ctrl d))"

section \<open>The LiteX UART\<close>

text \<open>The base is a \<^verbatim>\<open>u32\<close> pointer, so a register number counts words; the access is a byte.\<close>

definition litex_get_reg :: "'d io_bus \<Rightarrow> ulong \<Rightarrow> u8 \<Rightarrow> 'd \<Rightarrow> u8 \<times> 'd" where
  "litex_get_reg b uart_base reg d = raw_readb b (uart_base + 4 * ucast reg) d"

definition litex_set_reg :: "'d io_bus \<Rightarrow> ulong \<Rightarrow> u8 \<Rightarrow> u8 \<Rightarrow> 'd \<Rightarrow> 'd" where
  "litex_set_reg b uart_base reg val d = raw_writeb b val (uart_base + 4 * ucast reg) d"

definition litex_uart_putc :: "'d io_bus \<Rightarrow> ulong \<Rightarrow> nat \<Rightarrow> u8 \<Rightarrow> 'd \<Rightarrow> (unit, 'd) flow" where
  "litex_uart_putc b uart_base n ch d =
     flow_bind (poll_until (\<lambda>d. case litex_get_reg b uart_base 1 d of (v, d) \<Rightarrow> (v = 0, d)) n d)
       (\<lambda>_ d. Ret () (litex_set_reg b uart_base 0 ch d))"

definition litex_uart_getc :: "'d io_bus \<Rightarrow> ulong \<Rightarrow> 'd \<Rightarrow> int \<times> 'd" where
  "litex_uart_getc b uart_base d =
     (case litex_get_reg b uart_base 2 d of (e, d) \<Rightarrow>
        if e \<noteq> 0 then (- 1, d) else case litex_get_reg b uart_base 0 d of (v, d) \<Rightarrow> (uint v, d))"

definition litex_uart_init :: "'d io_bus \<Rightarrow> ulong \<Rightarrow> 'd \<Rightarrow> int \<times> 'd" where
  "litex_uart_init b base_addr d = (0, litex_set_reg b base_addr 5 0 d)"

section \<open>The Shakti UART\<close>

definition shakti_uart_putc :: "'d io_bus \<Rightarrow> ulong \<Rightarrow> nat \<Rightarrow> u8 \<Rightarrow> 'd \<Rightarrow> (unit, 'd) flow" where
  "shakti_uart_putc b uart_base n ch d =
     flow_bind (poll_until (\<lambda>d. case raw_readw b (uart_base + 0x0c) d of (v, d) \<Rightarrow> (v AND 0x2 = 0, d)) n d)
       (\<lambda>_ d. Ret () (raw_writeb b ch (uart_base + 0x04) d))"

definition shakti_uart_getc :: "'d io_bus \<Rightarrow> ulong \<Rightarrow> 'd \<Rightarrow> int \<times> 'd" where
  "shakti_uart_getc b uart_base d =
     (case raw_readw b (uart_base + 0x0c) d of (status, d) \<Rightarrow>
        if status AND 0x8 \<noteq> 0 then (case raw_readb b (uart_base + 0x08) d of (v, d) \<Rightarrow> (uint v, d))
        else (- 1, d))"

definition shakti_uart_init :: "'d io_bus \<Rightarrow> ulong \<Rightarrow> u32 \<Rightarrow> u32 \<Rightarrow> 'd \<Rightarrow> int \<times> 'd" where
  "shakti_uart_init b base_addr in_freq baudrate d =
     (0, raw_writew b (ucast (udiv32 in_freq (16 * baudrate))) base_addr d)"

section \<open>The divisor of the SiFive UART\<close>

text \<open>C40. The clock divisor of the SiFive UART is the smallest one that does not exceed the requested
  rate: with divisor \<open>v\<close> the rate is the input frequency divided by \<open>v + 1\<close>, which is at most
  the target, and with any smaller divisor it would be above it. The sum in the code must not
  wrap and the result must fit 32 bits.\<close>

theorem uart_divisor_least:
  assumes "0 < max_hz" and "unat in_freq + unat max_hz \<le> 2 ^ 64" and "in_freq \<le> max_hz * 2 ^ 32"
    and "unat max_hz * 2 ^ 32 < 2 ^ 64"
  shows "let v = uart_min_clk_divisor in_freq max_hz
         in unat in_freq \<le> unat max_hz * (unat v + 1) \<and> (\<forall>w < unat v. unat max_hz * (w + 1) < unat in_freq)"
proof -
  let ?f = "unat in_freq" and ?m = "unat max_hz"
  define q where "q = (?f + ?m - 1) div ?m"
  have m: "0 < ?m" using assms(1) by (simp add: word_less_nat_alt)
  have fm: "?f \<le> ?m * 2 ^ 32"
  proof -
    have "unat (max_hz * 2 ^ 32) = ?m * unat (2 ^ 32 :: u64)"
      using assms(4) by (subst unat_mult_lem [THEN iffD1]) simp_all
    then show ?thesis using assms(3) by (simp add: word_le_nat_alt)
  qed
  have sum: "unat (in_freq + max_hz - 1) = ?f + ?m - 1"
  proof -
    have ge: "1 \<le> max_hz" using m by (simp add: word_le_nat_alt)
    then have m1: "unat (max_hz - 1) = ?m - 1" by (simp add: unat_sub)
    have "unat in_freq + unat (max_hz - 1) < 2 ^ LENGTH(64)" unfolding m1 using assms(2) m by simp
    then have "unat (in_freq + (max_hz - 1)) = unat in_freq + (?m - 1)"
      by (simp only: unat_add_lem [THEN iffD1] m1)
    moreover have eq: "in_freq + max_hz - 1 = in_freq + (max_hz - 1)" by (simp add: algebra_simps)
    ultimately show ?thesis unfolding eq using m by simp
  qed
  have quot: "unat (udiv64 (in_freq + max_hz - 1) max_hz) = q"
    using assms(1) sum by (simp add: udiv64_def q_def unat_div word_gt_0)
  have upper: "?f \<le> ?m * q" "q \<le> 2 ^ 32"
  proof -
    have "?f + ?m - 1 < ?m * q + ?m"
      unfolding q_def using m by (metis dividend_less_div_times add.commute mult.commute)
    then show "?f \<le> ?m * q" using m by linarith
    have "?f + ?m - 1 < ?m * (2 ^ 32 + 1)" using fm m by (simp add: algebra_simps)
    then have "q < 2 ^ 32 + 1" unfolding q_def using m by (simp add: div_less_iff_less_mult mult.commute)
    then show "q \<le> 2 ^ 32" by simp
  qed
  have lower: "?m * (w + 1) < ?f" if "w + 1 < q" for w
  proof -
    have "?m * q \<le> ?f + ?m - 1" unfolding q_def by (rule times_div_less_eq_dividend)
    moreover have "?m * (w + 2) \<le> ?m * q" using that by (intro mult_le_mono) simp_all
    ultimately show ?thesis using m by (simp add: algebra_simps)
  qed
  have v: "unat (uart_min_clk_divisor in_freq max_hz) = q - 1"
  proof (cases "q = 0")
    case True
    then have "udiv64 (in_freq + max_hz - 1) max_hz = 0" using quot by (simp add: unat_eq_0)
    then show ?thesis using True by (simp add: uart_min_clk_divisor_def)
  next
    case False
    let ?q = "udiv64 (in_freq + max_hz - 1) max_hz"
    have ne: "?q \<noteq> 0" using False quot by auto
    then have "1 \<le> ?q" using False quot by (simp add: word_le_nat_alt)
    then have "unat (?q - 1) = q - 1" using quot by (simp add: unat_sub)
    moreover have "q - 1 < 2 ^ 32" using upper(2) False by simp
    ultimately have "unat (ucast (?q - 1) :: u32) = q - 1"
      by (simp add: unsigned_ucast_eq take_bit_nat_eq_self)
    then show ?thesis using ne by (simp add: uart_min_clk_divisor_def)
  qed
  show ?thesis
    unfolding Let_def v using upper(1) lower by (cases q) auto
qed

theorem uart_divisor_least_witness:
  "uart_min_clk_divisor 33330000 115200 = 289 \<and> 33330000 \<le> 115200 * (unat (289 :: u32) + 1)
     \<and> \<not> (33330000 :: nat) \<le> 115200 * 289"
proof -
  have e: "uart_min_clk_divisor 33330000 115200 = 289" by (simp add: uart_min_clk_divisor_def udiv64_def)
  show ?thesis
    using uart_divisor_least [of 115200 33330000] by (simp add: e Let_def)
qed

section \<open>The 8250 at work\<close>

text \<open>
  The part of an 8250 that the driver programs: the bit 7 of the line control register puts the
  divisor latch in the place of the data and the interrupt enable register.
\<close>

record uart8250_dev =
  dev_ier :: u8
  dev_lcr :: u8
  dev_dll :: u8
  dev_dlm :: u8
  dev_sent :: "u8 list"

definition uart8250_dev_write :: "ulong \<Rightarrow> u8 \<Rightarrow> ulong \<Rightarrow> uart8250_dev \<Rightarrow> uart8250_dev" where
  "uart8250_dev_write base_addr v a d =
     (let r = a - base_addr; dlab = (dev_lcr d AND 0x80 \<noteq> 0) in
      if r = 0 then (if dlab then d\<lparr>dev_dll := v\<rparr> else d\<lparr>dev_sent := dev_sent d @ [v]\<rparr>)
      else if r = 1 then (if dlab then d\<lparr>dev_dlm := v\<rparr> else d\<lparr>dev_ier := v\<rparr>)
      else if r = 3 then d\<lparr>dev_lcr := v\<rparr> else d)"

definition uart8250_dev_bus :: "ulong \<Rightarrow> uart8250_dev io_bus" where
  "uart8250_dev_bus base_addr =
     \<lparr>raw_readb = \<lambda>a d. (if a - base_addr = 5 then 0x20 else 0, d), raw_readw = \<lambda>a d. (0, d),
      raw_readl = \<lambda>a d. (0, d), raw_readq = \<lambda>a d. (0, d),
      raw_writeb = uart8250_dev_write base_addr, raw_writew = \<lambda>v a d. d, raw_writel = \<lambda>v a d. d,
      raw_writeq = \<lambda>v a d. d\<rparr>"

definition uart8250_divisor :: "uart8250_dev \<Rightarrow> nat" where
  "uart8250_divisor d = 256 * unat (dev_dlm d) + unat (dev_dll d)"

lemma uart8250_dev_set:
  assumes "uart8250_base u = base_addr" "uart8250_reg_width u = 1" "uart8250_reg_shift u = 0"
  shows "uart8250_set_reg (uart8250_dev_bus base_addr) u num v d = uart8250_dev_write 0 (ucast v) (ucast num) d"
    and "uart8250_get_reg (uart8250_dev_bus base_addr) u num d = (if num = 5 then 0x20 else 0, d)"
proof -
  have "(ucast num :: ulong) = 5 \<longleftrightarrow> num = 5" by transfer (simp add: min_def)
  then show "uart8250_set_reg (uart8250_dev_bus base_addr) u num v d = uart8250_dev_write 0 (ucast v) (ucast num) d"
    "uart8250_get_reg (uart8250_dev_bus base_addr) u num d = (if num = 5 then 0x20 else 0, d)"
    using assms by (simp_all add: uart8250_set_reg_def uart8250_get_reg_def uart8250_offset_def
        uart8250_dev_bus_def uart8250_dev_write_def)
qed

lemma divisor_bytes:
  fixes v :: u16
  shows "256 * unat (ucast ((ucast (drop_bit 8 v) :: u32) AND 0xff) :: u8)
    + unat (ucast ((ucast v :: u32) AND 0xff) :: u8) = unat v"
proof -
  have mask: "(0xff :: u32) = mask 8" by (simp add: mask_eq_exp_minus_1)
  have lt: "unat v < 2 ^ 16" using unsigned_less [of v] by simp
  have "unat (ucast ((ucast v :: u32) AND 0xff) :: u8) = unat v mod 256"
    unfolding mask take_bit_eq_mask [symmetric]
    by (simp add: unsigned_ucast_eq unsigned_take_bit_eq take_bit_eq_mod mod_mod_cancel unat_mod)
  moreover have "unat (ucast ((ucast (drop_bit 8 v) :: u32) AND 0xff) :: u8) = unat v div 256 mod 256"
    unfolding mask take_bit_eq_mask [symmetric]
    by (simp add: unsigned_ucast_eq unsigned_take_bit_eq take_bit_eq_mod mod_mod_cancel unat_mod drop_bit_eq_div unat_div)
  moreover have "unat v div 256 mod 256 = unat v div 256" using lt by simp
  ultimately show ?thesis by simp
qed

text \<open>Initialising an 8250 whose divisor fits, and whose divisor latch is not open already, programs
  the line: the divisor latch holds the input frequency divided by sixteen times the baud rate, the
  interrupts are off, the line control register selects 8 bits without parity, and the data
  register is reachable again, so that a character written afterwards is sent.\<close>

theorem uart8250_init_programs_line:
  assumes "0 < baud" and "unat baud < 2 ^ 28" and "0 < unat f div (16 * unat baud)"
    and "unat f div (16 * unat baud) < 2 ^ 16" and "0 < n" and "dev_lcr d AND 0x80 = 0"
  shows "case uart8250_init (uart8250_dev_bus base_addr) base_addr f baud 0 1 d of (rc, u, d') \<Rightarrow>
    rc = 0 \<and> uart8250_divisor d' = unat f div (16 * unat baud) \<and> dev_ier d' = 0 \<and> dev_lcr d' = 3
    \<and> dev_sent d' = dev_sent d
    \<and> uart8250_putc (uart8250_dev_bus base_addr) u n ch d' = Ret () (d'\<lparr>dev_sent := dev_sent d' @ [ch]\<rparr>)"
proof -
  let ?d = "unat f div (16 * unat baud)"
  define v where "v = (ucast (udiv32 f (16 * baud)) :: u16)"
  have baud: "unat (16 * baud) = 16 * unat baud"
    using assms(2) by (subst unat_mult_lem [THEN iffD1]) simp_all
  have "16 * baud \<noteq> 0" using baud assms(1) by (auto simp: word_less_nat_alt simp flip: unat_eq_0)
  then have "unat (udiv32 f (16 * baud)) = ?d" by (simp add: udiv32_def unat_div baud)
  then have v: "unat v = ?d" using assms(4) by (simp add: v_def unsigned_ucast_eq take_bit_nat_eq_self)
  then have nz: "v \<noteq> 0" using assms(3) by auto
  have byte: "(ucast (ucast ch :: u32) :: u8) = ch" by transfer (simp add: min_def)
  have poll: "poll_until g n d = Ret () d" if "g d = (True, d)" for g and d :: uart8250_dev
    by (rule poll_until_ready) (use assms(5) that in simp_all)
  show ?thesis
    using nz divisor_bytes [of v] assms(6) byte
    by (simp add: uart8250_init_def Let_def uart8250_dev_set v_def [symmetric] uart8250_dev_write_def
        uart8250_divisor_def uart8250_putc_def poll v)
qed

theorem uart8250_init_programs_line_witness:
  "case uart8250_init (uart8250_dev_bus 0x10000000) 0x10000000 3686400 115200 0 1
       \<lparr>dev_ier = 7, dev_lcr = 0, dev_dll = 0, dev_dlm = 0, dev_sent = []\<rparr> of (rc, u, d') \<Rightarrow>
     rc = 0 \<and> uart8250_divisor d' = 2"
  using uart8250_init_programs_line [where baud = 115200 and f = 3686400 and n = 1 and base_addr = "0x10000000"
      and d = "\<lparr>dev_ier = 7, dev_lcr = 0, dev_dll = 0, dev_dlm = 0, dev_sent = []\<rparr>"]
  by (auto split: prod.splits)

end
