(* ===== verification/Reset_Devices.thy ===== *)
theory Reset_Devices
  imports Sbi_Mmio Device_Registry Sbi_System
begin

text \<open>
  The devices that reset or power off the system: the SiFive test finisher
  (\<^verbatim>\<open>lib/utils/sys/sifive_test.c\<close>), the Allwinner watchdog (\<^verbatim>\<open>lib/utils/reset/fdt_reset_sunxi_wdt.c\<close>),
  GPIO lines (\<^verbatim>\<open>lib/utils/reset/fdt_reset_gpio.c\<close>) with the SiFive GPIO chip that drives them
  (\<^verbatim>\<open>lib/utils/gpio/fdt_gpio_sifive.c\<close>), and the HTIF (\<^verbatim>\<open>lib/utils/sys/htif.c\<close>), which is also a
  console. What the device tree says is an argument: the result of \<^verbatim>\<open>fdt_get_node_addr_size()\<close> and
  \<^verbatim>\<open>fdt_gpio_pin_get()\<close>, and the properties of the node.
\<close>

section \<open>The SiFive test finisher\<close>

definition sifive_test_system_reset_check :: "u32 \<Rightarrow> u32 \<Rightarrow> int" where
  "sifive_test_system_reset_check type reason = (if type = 0 \<or> type = 1 \<or> type = 2 then 1 else 0)"

definition sifive_test_system_reset :: "'d io_bus \<Rightarrow> ulong \<Rightarrow> u32 \<Rightarrow> u32 \<Rightarrow> 'd \<Rightarrow> 'd" where
  "sifive_test_system_reset b sifive_test_base type reason d =
     (if type = 0 then (if reason = 0 then raw_writew b 0x5555 sifive_test_base d
                        else raw_writew b 0x3333 sifive_test_base d)
      else if type = 1 \<or> type = 2 then raw_writew b 0x7777 sifive_test_base d
      else d)"

section \<open>The Allwinner watchdog\<close>

definition sunxi_wdt_system_reset_check :: "u32 \<Rightarrow> u32 \<Rightarrow> int" where
  "sunxi_wdt_system_reset_check type reason = (if type = 1 \<or> type = 2 then 1 else 0)"

definition sunxi_wdt_system_reset :: "'d io_bus \<Rightarrow> ulong \<Rightarrow> u32 \<Rightarrow> u32 \<Rightarrow> 'd \<Rightarrow> 'd" where
  "sunxi_wdt_system_reset b sunxi_wdt_base type reason d =
     (let d = raw_writel b 0x16aa0000 (sunxi_wdt_base + 0x18) d
      in raw_writel b (0x16aa0000 OR 1) (sunxi_wdt_base + 0x08) d)"

text \<open>The code and the new base address; an address of 0 is refused.\<close>

definition sunxi_wdt_reset_init :: "int \<times> ulong \<Rightarrow> int \<times> ulong option" where
  "sunxi_wdt_reset_init node_addr_size =
     (case node_addr_size of (rc, reg_addr) \<Rightarrow>
        if rc < 0 \<or> reg_addr = 0 then (SBI_ENODEV, None) else (0, Some reg_addr))"

section \<open>The SiFive GPIO chip\<close>

abbreviation (input) SIFIVE_GPIO_OUTEN :: ulong where "SIFIVE_GPIO_OUTEN \<equiv> 0x8"
abbreviation (input) SIFIVE_GPIO_OUTVAL :: ulong where "SIFIVE_GPIO_OUTVAL \<equiv> 0xc"

definition SIFIVE_GPIO_BIT :: "u32 \<Rightarrow> u32" where
  "SIFIVE_GPIO_BIT n = push_bit (unat n mod 32) 1"

definition sifive_gpio_set :: "'d io_bus \<Rightarrow> ulong \<Rightarrow> gpio_pin \<Rightarrow> int \<Rightarrow> 'd \<Rightarrow> 'd" where
  "sifive_gpio_set b chip_addr gp value d =
     (case raw_readl b (chip_addr + SIFIVE_GPIO_OUTVAL) d of (v, d) \<Rightarrow>
        let v = (if value = 0 then v AND NOT (SIFIVE_GPIO_BIT (pin_offset gp))
                 else v OR SIFIVE_GPIO_BIT (pin_offset gp))
        in raw_writel b v (chip_addr + SIFIVE_GPIO_OUTVAL) d)"

definition sifive_gpio_direction_output :: "'d io_bus \<Rightarrow> ulong \<Rightarrow> gpio_pin \<Rightarrow> int \<Rightarrow> 'd \<Rightarrow> int \<times> 'd" where
  "sifive_gpio_direction_output b chip_addr gp value d =
     (case raw_readl b (chip_addr + SIFIVE_GPIO_OUTEN) d of (v, d) \<Rightarrow>
        let d = raw_writel b (v OR SIFIVE_GPIO_BIT (pin_offset gp)) (chip_addr + SIFIVE_GPIO_OUTEN) d
        in case raw_readl b (chip_addr + SIFIVE_GPIO_OUTVAL) d of (v, d) \<Rightarrow>
          let v = (if value = 0 then v AND NOT (SIFIVE_GPIO_BIT (pin_offset gp))
                   else v OR SIFIVE_GPIO_BIT (pin_offset gp))
          in (0, raw_writel b v (chip_addr + SIFIVE_GPIO_OUTVAL) d))"

text \<open>The operations that belong to a chip at an address, as the initialisation enters them.\<close>

definition sifive_gpio_chip_at :: "'d io_bus \<Rightarrow> ulong \<Rightarrow> ulong \<Rightarrow> u32 \<Rightarrow> 'd gpio_chip" where
  "sifive_gpio_chip_at b chip_addr drv phandle =
     \<lparr>gpio_driver = drv, gpio_id = phandle, ngpio = 16, op_get_direction = None,
      op_direction_input = None, op_direction_output = Some (sifive_gpio_direction_output b chip_addr),
      op_get = None, op_set = Some (sifive_gpio_set b chip_addr)\<rparr>"

text \<open>
  The driver has two chips; \<open>node i\<close> is the list node of the \<open>i\<close>-th, \<open>used\<close> the number in use.
  \<open>None\<close> is a search of the chip list that does not end.
\<close>

definition sifive_gpio_init ::
  "'d io_bus \<Rightarrow> ulong \<Rightarrow> (nat \<Rightarrow> ulong) \<Rightarrow> int \<times> ulong \<Rightarrow> u32 \<Rightarrow> nat \<times> 'd gpio_state
     \<Rightarrow> (int \<times> nat \<times> 'd gpio_state) option" where
  "sifive_gpio_init b drv node node_addr_size phandle st =
     (case st of (used, s) \<Rightarrow>
        if 2 \<le> used then Some (SBI_ENOSPC, used, s)
        else case node_addr_size of (rc, addr) \<Rightarrow>
          if rc \<noteq> 0 then Some (rc, used, s)
          else
            let s = s\<lparr>to_gpio_chip := (to_gpio_chip s)(node used := sifive_gpio_chip_at b addr drv phandle)\<rparr>
            in case gpio_chip_add (Some (node used)) s of
                 None \<Rightarrow> None
               | Some (rc, s) \<Rightarrow> Some (if rc \<noteq> 0 then (rc, used, s) else (0, used + 1, s)))"

section \<open>Reset by a GPIO line\<close>

record gpio_reset =
  reset_pin :: gpio_pin
  active_delay :: u32
  inactive_delay :: u32

definition gpio_reset_get :: "gpio_reset \<Rightarrow> gpio_reset \<Rightarrow> bool \<Rightarrow> u32 \<Rightarrow> gpio_reset option" where
  "gpio_reset_get poweroff restart is_restart type =
     (let reset = (if type = 0 then (if \<not> is_restart then Some poweroff else None)
                   else if type = 1 \<or> type = 2 then (if is_restart then Some restart else None)
                   else None)
      in case reset of None \<Rightarrow> None
         | Some r \<Rightarrow> if pin_chip (reset_pin r) = None then None else Some r)"

text \<open>\<open>wait n\<close> is what \<open>n\<close> milliseconds of \<^verbatim>\<open>sbi_timer_mdelay()\<close> do to the device.\<close>

definition gpio_reset_exec ::
  "(u32 \<Rightarrow> 'd \<Rightarrow> 'd) \<Rightarrow> gpio_reset option \<Rightarrow> 'd gpio_state \<Rightarrow> (unit, 'd gpio_state) flow" where
  "gpio_reset_exec wait reset s =
     (case reset of None \<Rightarrow> Hang s
      | Some r \<Rightarrow>
          let (_, s) = gpio_direction_output (Some (reset_pin r)) 1 s;
              s = s\<lparr>gpio_dev := wait (active_delay r) (gpio_dev s)\<rparr>;
              (_, s) = gpio_set (Some (reset_pin r)) 0 s;
              s = s\<lparr>gpio_dev := wait (inactive_delay r) (gpio_dev s)\<rparr>;
              (_, s) = gpio_set (Some (reset_pin r)) 1 s
          in Hang s)"

definition gpio_system_poweroff_check :: "gpio_reset \<Rightarrow> gpio_reset \<Rightarrow> u32 \<Rightarrow> u32 \<Rightarrow> int" where
  "gpio_system_poweroff_check poweroff restart type reason =
     (if gpio_reset_get poweroff restart False type \<noteq> None then 128 else 0)"

definition gpio_system_poweroff ::
  "(u32 \<Rightarrow> 'd \<Rightarrow> 'd) \<Rightarrow> gpio_reset \<Rightarrow> gpio_reset \<Rightarrow> u32 \<Rightarrow> u32 \<Rightarrow> 'd gpio_state
     \<Rightarrow> (unit, 'd gpio_state) flow" where
  "gpio_system_poweroff wait poweroff restart type reason s =
     gpio_reset_exec wait (gpio_reset_get poweroff restart False type) s"

definition gpio_system_restart_check :: "gpio_reset \<Rightarrow> gpio_reset \<Rightarrow> u32 \<Rightarrow> u32 \<Rightarrow> int" where
  "gpio_system_restart_check poweroff restart type reason =
     (if gpio_reset_get poweroff restart True type \<noteq> None then 128 else 0)"

definition gpio_system_restart ::
  "(u32 \<Rightarrow> 'd \<Rightarrow> 'd) \<Rightarrow> gpio_reset \<Rightarrow> gpio_reset \<Rightarrow> u32 \<Rightarrow> u32 \<Rightarrow> 'd gpio_state
     \<Rightarrow> (unit, 'd gpio_state) flow" where
  "gpio_system_restart wait poweroff restart type reason s =
     gpio_reset_exec wait (gpio_reset_get poweroff restart True type) s"

text \<open>
  \<open>pin\<close> is the result of \<^verbatim>\<open>fdt_gpio_pin_get()\<close>, \<open>input\<close> says that the node asks for an input first,
  \<open>active\<close> and \<open>inactive\<close> are the delays the node gives.
\<close>

definition gpio_reset_init ::
  "int \<times> gpio_pin \<Rightarrow> bool \<Rightarrow> u32 option \<Rightarrow> u32 option \<Rightarrow> gpio_reset \<times> 'd gpio_state
     \<Rightarrow> int \<times> gpio_reset \<times> 'd gpio_state" where
  "gpio_reset_init pin inp active inactive st =
     (case st of (reset, s) \<Rightarrow> case pin of (rc, gp) \<Rightarrow>
        if rc \<noteq> 0 then (rc, reset, s)
        else
          let reset = reset\<lparr>reset_pin := gp\<rparr>;
              (rc, s) = (if inp then gpio_direction_input (Some gp) s else (0, s))
          in if rc \<noteq> 0 then (rc, reset, s)
             else
               let reset = (case active of None \<Rightarrow> reset | Some v \<Rightarrow> reset\<lparr>active_delay := v\<rparr>);
                   reset = (case inactive of None \<Rightarrow> reset | Some v \<Rightarrow> reset\<lparr>inactive_delay := v\<rparr>)
               in (0, reset, s))"

section \<open>The HTIF\<close>

record 'd htif_state =
  htif_console_buf :: int
  htif_io :: 'd

text \<open>
  \<^verbatim>\<open>tohost\<close> and \<^verbatim>\<open>fromhost\<close> are two words the host reads and writes on its own; \<open>th\<close> and \<open>fh\<close> are their
  addresses. A message the code does not expect ends in \<^verbatim>\<open>__builtin_trap()\<close>, which does not return.
\<close>

definition htif_write :: "'d io_bus \<Rightarrow> u64 \<Rightarrow> ulong \<Rightarrow> 'd htif_state \<Rightarrow> 'd htif_state" where
  "htif_write b v a s = s\<lparr>htif_io := raw_writeq b v a (htif_io s)\<rparr>"

definition FROMHOST_DEV :: "u64 \<Rightarrow> u64" where
  "FROMHOST_DEV v = drop_bit 56 v AND 0xff"

definition FROMHOST_CMD :: "u64 \<Rightarrow> u64" where
  "FROMHOST_CMD v = drop_bit 48 v AND 0xff"

definition FROMHOST_DATA :: "u64 \<Rightarrow> u64" where
  "FROMHOST_DATA v = v AND 0xffffffffffff"

definition TOHOST_CMD :: "u64 \<Rightarrow> u64 \<Rightarrow> u64 \<Rightarrow> u64" where
  "TOHOST_CMD dev cmd payload = push_bit 56 dev OR push_bit 48 cmd OR payload"

definition check_fromhost :: "'d io_bus \<Rightarrow> ulong \<Rightarrow> 'd htif_state \<Rightarrow> (unit, 'd htif_state) flow" where
  "check_fromhost b fha s =
     (case raw_readq b fha (htif_io s) of (fh, d) \<Rightarrow>
        let s = s\<lparr>htif_io := d\<rparr> in
        if fh = 0 then Ret () s
        else
          let s = htif_write b 0 fha s in
          if FROMHOST_DEV fh \<noteq> 1 then Gone s
          else if FROMHOST_CMD fh = 0 then Ret () (s\<lparr>htif_console_buf := 1 + uint (ucast (FROMHOST_DATA fh) :: u8)\<rparr>)
          else if FROMHOST_CMD fh = 1 then Ret () s
          else Gone s)"

fun set_tohost ::
  "'d io_bus \<Rightarrow> ulong \<Rightarrow> ulong \<Rightarrow> nat \<Rightarrow> u64 \<Rightarrow> u64 \<Rightarrow> u64 \<Rightarrow> 'd htif_state \<Rightarrow> (unit, 'd htif_state) flow"
where
  "set_tohost b tha fha 0 dev cmd data s = Hang s"
| "set_tohost b tha fha (Suc n) dev cmd data s =
     (case raw_readq b tha (htif_io s) of (th, d) \<Rightarrow>
        let s = s\<lparr>htif_io := d\<rparr> in
        if th \<noteq> 0 then flow_bind (check_fromhost b fha s) (\<lambda>_ s. set_tohost b tha fha n dev cmd data s)
        else Ret () (htif_write b (TOHOST_CMD dev cmd data) tha s))"

definition htif_putc ::
  "'d io_bus \<Rightarrow> ulong \<Rightarrow> ulong \<Rightarrow> nat \<Rightarrow> u8 \<Rightarrow> 'd htif_state \<Rightarrow> (unit, 'd htif_state) flow" where
  "htif_putc b tha fha n ch s = set_tohost b tha fha n 1 1 (ucast ch) s"

definition htif_getc ::
  "'d io_bus \<Rightarrow> ulong \<Rightarrow> ulong \<Rightarrow> nat \<Rightarrow> 'd htif_state \<Rightarrow> (int, 'd htif_state) flow" where
  "htif_getc b tha fha n s =
     flow_bind (check_fromhost b fha s) (\<lambda>_ s.
       let ch = htif_console_buf s in
       if ch \<ge> 0 then flow_bind (set_tohost b tha fha n 1 0 0 (s\<lparr>htif_console_buf := - 1\<rparr>)) (\<lambda>_ s. Ret (ch - 1) s)
       else Ret (ch - 1) s)"

definition htif_system_reset_check :: "u32 \<Rightarrow> u32 \<Rightarrow> int" where
  "htif_system_reset_check type reason = 1"

text \<open>The loop stores the same two values for ever.\<close>

definition htif_system_reset :: "'d io_bus \<Rightarrow> ulong \<Rightarrow> ulong \<Rightarrow> u32 \<Rightarrow> u32 \<Rightarrow> 'd htif_state \<Rightarrow> (unit, 'd htif_state) flow"
where
  "htif_system_reset b tha fha type reason s = Gone (htif_write b 1 tha (htif_write b 0 fha s))"

section \<open>What the drivers do\<close>

text \<open>A check that says yes is followed by a reset that really reaches the device.\<close>

lemma sifive_test_accepts:
  "sifive_test_system_reset_check type reason = 1 \<Longrightarrow>
     \<exists>v\<in>{0x5555, 0x3333, 0x7777}. sifive_test_system_reset b a type reason d = raw_writew b v a d"
  by (auto simp: sifive_test_system_reset_check_def sifive_test_system_reset_def split: if_splits)

lemma gpio_check_agrees:
  "gpio_system_poweroff_check p r type reason = 128 \<longleftrightarrow> type = 0 \<and> pin_chip (reset_pin p) \<noteq> None"
  "gpio_system_restart_check p r type reason = 128 \<longleftrightarrow> (type = 1 \<or> type = 2) \<and> pin_chip (reset_pin r) \<noteq> None"
  by (auto simp: gpio_system_poweroff_check_def gpio_system_restart_check_def gpio_reset_get_def)

lemma gpio_reset_never_returns: "\<not> returns (gpio_reset_exec wait r s)"
  by (auto simp: gpio_reset_exec_def Let_def split: option.split prod.split)

text \<open>The output register changes in the pin's bit only.\<close>

lemma sifive_gpio_set_bit:
  assumes "word_registers b reg" "4 dvd unat (a + SIFIVE_GPIO_OUTVAL)" "unat (pin_offset gp) < 32" "n < 32"
  shows "bit (reg (sifive_gpio_set b a gp v d) (a + SIFIVE_GPIO_OUTVAL)) n
    = (if n = unat (pin_offset gp) then v \<noteq> 0 else bit (reg d (a + SIFIVE_GPIO_OUTVAL)) n)"
proof -
  obtain w d' where rd: "raw_readl b (a + SIFIVE_GPIO_OUTVAL) d = (w, d')" by (rule prod.exhaust)
  have "w = reg d (a + SIFIVE_GPIO_OUTVAL)"
    using word_registers_read(1) [OF assms(1,2), of d] rd by simp
  then show ?thesis
    using assms(3,4) by (auto simp: sifive_gpio_set_def rd Let_def word_registers_write [OF assms(1,2)]
        SIFIVE_GPIO_BIT_def bit_simps)
qed

text \<open>An answer from the host is handed out once, as the character it carries; without one the call
  returns -2 while a request is on its way, not the -1 that says there is no character.\<close>

lemma htif_message:
  "FROMHOST_DEV (TOHOST_CMD 1 0 (ucast (c :: u8))) = 1" "FROMHOST_CMD (TOHOST_CMD 1 0 (ucast c)) = 0"
  "(ucast (FROMHOST_DATA (TOHOST_CMD 1 0 (ucast c))) :: u8) = c" "TOHOST_CMD 1 0 (ucast c) \<noteq> 0"
proof -
  have m8: "(0xff :: u64) = mask 8" and m48: "(0xffffffffffff :: u64) = mask 48"
    by (simp_all add: mask_eq_exp_minus_1)
  have b: "bit (TOHOST_CMD 1 0 (ucast c)) i \<longleftrightarrow> i = 56 \<or> (i < 8 \<and> bit c i)" for i
    unfolding TOHOST_CMD_def bit_or_iff bit_push_bit_iff
    by (auto simp: bit_ucast_iff bit_1_iff dest: bit_imp_le_length)
  show "FROMHOST_DEV (TOHOST_CMD 1 0 (ucast c)) = 1"
    by (rule bit_word_eqI) (auto simp: FROMHOST_DEV_def m8 bit_simps b)
  show "FROMHOST_CMD (TOHOST_CMD 1 0 (ucast c)) = 0"
    by (rule bit_word_eqI) (auto simp: FROMHOST_CMD_def m8 bit_simps b)
  show "(ucast (FROMHOST_DATA (TOHOST_CMD 1 0 (ucast c))) :: u8) = c"
    by (rule bit_word_eqI) (auto simp: FROMHOST_DATA_def m48 bit_simps b)
  show "TOHOST_CMD 1 0 (ucast c) \<noteq> 0" using b [of 56] by auto
qed

lemma htif_getc_char:
  assumes "raw_readq b fha (htif_io s) = (TOHOST_CMD 1 0 (ucast (c :: u8)), d)" "0 < n"
    and "raw_readq b tha (raw_writeq b 0 fha d) = (0, d')"
  shows "\<exists>s'. htif_getc b tha fha n s = Ret (uint c) s' \<and> htif_console_buf s' = - 1"
proof -
  obtain k where n: "n = Suc k" using assms(2) by (cases n) auto
  show ?thesis
    using assms(3) by (simp add: htif_getc_def check_fromhost_def assms(1) htif_message Let_def htif_write_def n)
qed

lemma htif_getc_waiting:
  assumes "raw_readq b fha (htif_io s) = (0, d)" "htif_console_buf s = - 1"
  shows "htif_getc b tha fha n s = Ret (- 2) (s\<lparr>htif_io := d\<rparr>)"
  using assms by (simp add: htif_getc_def check_fromhost_def Let_def)

end
