(* ===== verification/Riscv_Atomic.thy ===== *)
theory Riscv_Atomic
  imports Sbi_Prelude
begin

text \<open>
  The atomic operations of \<^verbatim>\<open>lib/sbi/riscv_atomic.c\<close> on a 64 bit cell: every operation is one step
  that gives its result and the new content. With the A extension they are single AMO instructions
  and the compiler's compare-and-swap; without it the exchange and the compare-and-swap are LR/SC
  loops, whose rounds are modelled here with the outcome of every store-conditional as an argument.
\<close>

definition atomic_read :: "ulong \<Rightarrow> ulong" where
  "atomic_read counter = counter"

definition atomic_write :: "ulong \<Rightarrow> ulong \<Rightarrow> ulong" where
  "atomic_write val counter = val"

definition atomic_add_return :: "ulong \<Rightarrow> ulong \<Rightarrow> ulong \<times> ulong" where
  "atomic_add_return val counter = (let ret = counter in (ret + val, counter + val))"

definition atomic_sub_return :: "ulong \<Rightarrow> ulong \<Rightarrow> ulong \<times> ulong" where
  "atomic_sub_return val counter = atomic_add_return (- val) counter"

definition axchg :: "ulong \<Rightarrow> ulong \<Rightarrow> ulong \<times> ulong" where
  "axchg new counter = (counter, new)"

text \<open>
  A round loads the cell and stores conditionally. \<open>scs\<close> says of every round whether the store
  succeeds, and what the other harts left in the cell before the next one if it does not; a run
  that uses up the list has not ended (\<open>None\<close>). The result is the value loaded and the new content.
\<close>

fun xchg_rounds :: "(bool \<times> ulong) list \<Rightarrow> ulong \<Rightarrow> ulong \<Rightarrow> (ulong \<times> ulong) option" where
  "xchg_rounds [] new counter = None"
| "xchg_rounds ((ok, other) # scs) new counter =
     (if ok then Some (counter, new) else xchg_rounds scs new other)"

fun cmpxchg_rounds :: "(bool \<times> ulong) list \<Rightarrow> ulong \<Rightarrow> ulong \<Rightarrow> ulong \<Rightarrow> (ulong \<times> ulong) option" where
  "cmpxchg_rounds [] old new counter = None"
| "cmpxchg_rounds ((ok, other) # scs) old new counter =
     (if counter \<noteq> old then Some (counter, counter)
      else if ok then Some (counter, new) else cmpxchg_rounds scs old new other)"

definition atomic_cmpxchg :: "ulong \<Rightarrow> ulong \<Rightarrow> ulong \<Rightarrow> ulong \<times> ulong" where
  "atomic_cmpxchg oldval newval counter = (counter, if counter = oldval then newval else counter)"

definition atomic_xchg :: "ulong \<Rightarrow> ulong \<Rightarrow> ulong \<times> ulong" where
  "atomic_xchg newval counter = axchg newval counter"

definition atomic_raw_xchg_uint :: "u32 \<Rightarrow> u32 \<Rightarrow> u32 \<times> u32" where
  "atomic_raw_xchg_uint newval cell = (cell, newval)"

definition atomic_raw_xchg_ulong :: "ulong \<Rightarrow> ulong \<Rightarrow> ulong \<times> ulong" where
  "atomic_raw_xchg_ulong newval cell = axchg newval cell"

text \<open>
  The bit operations work on the word of an array that holds the bit and give what the word was,
  cut to a C \<^verbatim>\<open>int\<close>.
\<close>

definition atomic_raw_set_bit :: "nat \<Rightarrow> ulong list \<Rightarrow> int \<times> ulong list" where
  "atomic_raw_set_bit nr mem =
     (let w = mem ! (nr div 64) in (sint (ucast w :: u32), mem[nr div 64 := w OR push_bit (nr mod 64) 1]))"

definition atomic_raw_clear_bit :: "nat \<Rightarrow> ulong list \<Rightarrow> int \<times> ulong list" where
  "atomic_raw_clear_bit nr mem =
     (let w = mem ! (nr div 64)
      in (sint (ucast w :: u32), mem[nr div 64 := w AND NOT (push_bit (nr mod 64) 1)]))"

definition atomic_set_bit :: "nat \<Rightarrow> ulong \<Rightarrow> int \<times> ulong" where
  "atomic_set_bit nr counter = (case atomic_raw_set_bit nr [counter] of (r, m) \<Rightarrow> (r, m ! 0))"

definition atomic_clear_bit :: "nat \<Rightarrow> ulong \<Rightarrow> int \<times> ulong" where
  "atomic_clear_bit nr counter = (case atomic_raw_clear_bit nr [counter] of (r, m) \<Rightarrow> (r, m ! 0))"

section \<open>Behaviour\<close>

text \<open>The LR/SC loops end in one step of the operation, on the content the last round found.\<close>

lemma xchg_rounds_atomic:
  "xchg_rounds scs new counter = Some (r, c') \<Longrightarrow> (r, c') = axchg new r"
  by (induction scs new counter rule: xchg_rounds.induct) (auto simp: axchg_def split: if_splits)

lemma cmpxchg_rounds_atomic:
  "cmpxchg_rounds scs old new counter = Some (r, c') \<Longrightarrow> (r, c') = atomic_cmpxchg old new r"
  by (induction scs old new counter rule: cmpxchg_rounds.induct) (auto simp: atomic_cmpxchg_def split: if_splits)

lemma xchg_rounds_end: "(True, v) \<in> set scs \<Longrightarrow> xchg_rounds scs new counter \<noteq> None"
  by (induction scs new counter rule: xchg_rounds.induct) auto

lemma cmpxchg_rounds_end: "(True, v) \<in> set scs \<Longrightarrow> cmpxchg_rounds scs old new counter \<noteq> None"
  by (induction scs old new counter rule: cmpxchg_rounds.induct) auto

lemma atomic_set_bit_bits:
  "nr < 64 \<Longrightarrow> bit (snd (atomic_set_bit nr c)) n \<longleftrightarrow> (n = nr \<or> bit c n)"
  "nr < 64 \<Longrightarrow> bit (snd (atomic_clear_bit nr c)) n \<longleftrightarrow> (n \<noteq> nr \<and> bit c n)"
  by (auto simp: atomic_set_bit_def atomic_clear_bit_def atomic_raw_set_bit_def atomic_raw_clear_bit_def
      bit_simps dest: bit_imp_le_length)

text \<open>The result is the old value: the bit that was just set is not in it.\<close>

lemma atomic_set_bit_old: "atomic_set_bit 0 0 = (0, 1)"
  by (simp add: atomic_set_bit_def atomic_raw_set_bit_def)

end
