(* ===== verification/Platform_Ae350.thy ===== *)
theory Platform_Ae350
  imports Sbi_Mmio Sbi_Timer
begin

text \<open>
  The Andes AE350 platform (\<^verbatim>\<open>platform/andes/ae350\<close>): the software interrupt controller that sends
  inter-processor interrupts (\<^verbatim>\<open>plicsw.c\<close>), the timer (\<^verbatim>\<open>plmt.c\<close>), the cache control calls
  (\<^verbatim>\<open>cache.c\<close>) and the vendor extension that offers them (\<^verbatim>\<open>platform.c\<close>).
\<close>

section \<open>The software interrupt controller\<close>

abbreviation (input) AE350_HART_COUNT :: nat where "AE350_HART_COUNT \<equiv> 4"

record plicsw =
  source_id :: u32
  plicsw_pending :: ulong
  plicsw_enable :: ulong
  plicsw_claim_reg :: ulong

text \<open>The static variables; the table of devices has an entry per hart.\<close>

record 'd plicsw_state =
  plicsw_ipi_hart_count :: u32
  plicsw_dev :: "nat \<Rightarrow> plicsw"
  plicsw_io :: 'd

definition plicsw_claim :: "'d io_bus \<Rightarrow> nat \<Rightarrow> 'd plicsw_state \<Rightarrow> 'd plicsw_state" where
  "plicsw_claim b h s =
     (case raw_readl b (plicsw_claim_reg (plicsw_dev s h)) (plicsw_io s) of (v, d) \<Rightarrow>
        s\<lparr>plicsw_io := d, plicsw_dev := (plicsw_dev s)(h := (plicsw_dev s h)\<lparr>source_id := v\<rparr>)\<rparr>)"

definition plicsw_complete :: "'d io_bus \<Rightarrow> nat \<Rightarrow> 'd plicsw_state \<Rightarrow> 'd plicsw_state" where
  "plicsw_complete b h s =
     s\<lparr>plicsw_io := raw_writel b (source_id (plicsw_dev s h)) (plicsw_claim_reg (plicsw_dev s h)) (plicsw_io s)\<rparr>"

text \<open>The value is 32 bits wide and shifted twice; the hardware shift uses five bits of an amount.\<close>

definition plic_sw_pending_bit :: "nat \<Rightarrow> u32 \<Rightarrow> u32" where
  "plic_sw_pending_bit source_hart target_hart =
     (let target_offset = (8 - 1) - target_hart;
          per_hart_offset = (8 * of_nat source_hart :: u32)
      in push_bit (unat per_hart_offset mod 32) (push_bit (unat target_offset mod 32) 1))"

definition plic_sw_pending :: "'d io_bus \<Rightarrow> nat \<Rightarrow> u32 \<Rightarrow> 'd plicsw_state \<Rightarrow> 'd plicsw_state" where
  "plic_sw_pending b h target_hart s =
     s\<lparr>plicsw_io := raw_writel b (plic_sw_pending_bit h target_hart) (plicsw_pending (plicsw_dev s h)) (plicsw_io s)\<rparr>"

definition plicsw_ipi_send :: "'d io_bus \<Rightarrow> nat \<Rightarrow> u32 \<Rightarrow> 'd plicsw_state \<Rightarrow> 'd plicsw_state" where
  "plicsw_ipi_send b h target_hart s =
     (if plicsw_ipi_hart_count s \<le> target_hart then s else plic_sw_pending b h target_hart s)"

definition plicsw_ipi_clear :: "'d io_bus \<Rightarrow> nat \<Rightarrow> u32 \<Rightarrow> 'd plicsw_state \<Rightarrow> 'd plicsw_state" where
  "plicsw_ipi_clear b h target_hart s =
     (if plicsw_ipi_hart_count s \<le> target_hart then s else plicsw_complete b h (plicsw_claim b h s))"

definition plicsw_warm_ipi_init :: "'d io_bus \<Rightarrow> nat \<Rightarrow> 'd plicsw_state \<Rightarrow> int \<times> 'd plicsw_state" where
  "plicsw_warm_ipi_init b h s =
     (let p = plicsw_dev s h in
      if plicsw_pending p = 0 \<and> plicsw_enable p = 0 \<and> plicsw_claim_reg p = 0 then (- 1, s)
      else (0, plicsw_ipi_clear b h (of_nat h) s))"

text \<open>The enable mask moves one bit to the right from hart to hart.\<close>

definition plicsw_cold_ipi_init ::
  "'d io_bus \<Rightarrow> ulong \<Rightarrow> u32 \<Rightarrow> 'd plicsw_state \<Rightarrow> int \<times> 'd plicsw_state" where
  "plicsw_cold_ipi_init b base_addr n s =
     (let d = fold (\<lambda>i d. raw_writel b 1 (base_addr + 0x4 + 4 * of_nat i) d) [0..<AE350_HART_COUNT * 8] (plicsw_io s);
          d = fold (\<lambda>i d. raw_writel b (drop_bit i 0x80808080) (base_addr + 0x2000 + 0x80 * of_nat i) d)
                [0..<AE350_HART_COUNT] d;
          devs = (\<lambda>h. if h < AE350_HART_COUNT
                      then \<lparr>source_id = 0, plicsw_pending = base_addr + 0x1000 + of_nat (h div 4 * 4),
                            plicsw_enable = base_addr + 0x2000 + 0x80 * of_nat h,
                            plicsw_claim_reg = base_addr + 0x200000 + 0x4 + 0x1000 * of_nat h\<rparr>
                      else plicsw_dev s h)
      in (0, s\<lparr>plicsw_io := d, plicsw_ipi_hart_count := n, plicsw_dev := devs\<rparr>))"

section \<open>The timer\<close>

record 'd plmt_state = timer_state +
  plmt_time_hart_count :: u32
  plmt_time_base :: ulong
  plmt_time_val :: ulong
  plmt_time_cmp :: ulong
  plmt_io :: 'd

definition plmt_cmp_write ::
  "'d io_bus \<Rightarrow> u64 \<Rightarrow> nat \<Rightarrow> ('d, 'a) plmt_state_scheme \<Rightarrow> ('d, 'a) plmt_state_scheme" where
  "plmt_cmp_write b v h s = s\<lparr>plmt_io := raw_writeq b v (plmt_time_cmp s + 8 * of_nat h) (plmt_io s)\<rparr>"

definition plmt_timer_value ::
  "'d io_bus \<Rightarrow> ('d, 'a) plmt_state_scheme \<Rightarrow> u64 \<times> ('d, 'a) plmt_state_scheme" where
  "plmt_timer_value b s = (case raw_readq b (plmt_time_val s) (plmt_io s) of (v, d) \<Rightarrow> (v, s\<lparr>plmt_io := d\<rparr>))"

definition plmt_timer_event_stop ::
  "'d io_bus \<Rightarrow> nat \<Rightarrow> ('d, 'a) plmt_state_scheme \<Rightarrow> ('d, 'a) plmt_state_scheme" where
  "plmt_timer_event_stop b h s =
     (if plmt_time_hart_count s \<le> of_nat h then s else plmt_cmp_write b (- 1) h s)"

definition plmt_timer_event_start ::
  "'d io_bus \<Rightarrow> nat \<Rightarrow> u64 \<Rightarrow> ('d, 'a) plmt_state_scheme \<Rightarrow> ('d, 'a) plmt_state_scheme" where
  "plmt_timer_event_start b h next_event s =
     (if plmt_time_hart_count s \<le> of_nat h then s else plmt_cmp_write b next_event h s)"

definition plmt_warm_timer_init ::
  "'d io_bus \<Rightarrow> nat \<Rightarrow> ('d, 'a) plmt_state_scheme \<Rightarrow> int \<times> ('d, 'a) plmt_state_scheme" where
  "plmt_warm_timer_init b h s =
     (if plmt_time_hart_count s \<le> of_nat h \<or> plmt_time_base s = 0 then (- 1, s)
      else (0, plmt_cmp_write b (- 1) h s))"

definition plmt_cold_timer_init ::
  "(nat \<Rightarrow> u64) \<Rightarrow> ulong \<Rightarrow> u32 \<Rightarrow> ('d, 'a) plmt_state_scheme \<Rightarrow> int \<times> ('d, 'a) plmt_state_scheme" where
  "plmt_cold_timer_init readings base_addr n s =
     (let s = s\<lparr>plmt_time_hart_count := n, plmt_time_base := base_addr, plmt_time_val := base_addr,
                plmt_time_cmp := base_addr + 0x8\<rparr>
      in (0, sbi_timer_set_device (Some \<lparr>timer_freq = 0, timer_value_fn = Some readings,
                timer_event_start_fn = True, timer_event_stop_fn = True\<rparr>) s))"

section \<open>Cache control\<close>

abbreviation (input) CSR_MCACHECTL :: nat where "CSR_MCACHECTL \<equiv> 0x7ca"
abbreviation (input) CSR_MCCTLCOMMAND :: nat where "CSR_MCCTLCOMMAND \<equiv> 0x7cc"
abbreviation (input) CSR_MMISCCTL :: nat where "CSR_MMISCCTL \<equiv> 0x7d0"

definition V5_MMISC_CTL_MASK :: ulong where
  "V5_MMISC_CTL_MASK = BIT 1 OR BIT 2 OR BIT 3 OR BIT 6 OR BIT 8"

definition V5_MCACHE_CTL_MASK :: ulong where
  "V5_MCACHE_CTL_MASK = BIT 0 OR BIT 1 OR BIT 6 OR BIT 7 OR BIT 8 OR BIT 9 OR BIT 10 OR BIT 13 OR BIT 14"

definition mcall_set_mcache_ctl :: "nat \<Rightarrow> ulong \<Rightarrow> 'a machine_scheme \<Rightarrow> int \<times> 'a machine_scheme" where
  "mcall_set_mcache_ctl h v s =
     (0, csr_write h CSR_MCACHECTL v (csr_clear h CSR_MCACHECTL V5_MCACHE_CTL_MASK s))"

definition mcall_set_mmisc_ctl :: "nat \<Rightarrow> ulong \<Rightarrow> 'a machine_scheme \<Rightarrow> int \<times> 'a machine_scheme" where
  "mcall_set_mmisc_ctl h v s =
     (0, csr_write h CSR_MMISCCTL v (csr_clear h CSR_MMISCCTL V5_MMISC_CTL_MASK s))"

definition cache_bit_op :: "nat \<Rightarrow> ulong \<Rightarrow> bool \<Rightarrow> 'a machine_scheme \<Rightarrow> 'a machine_scheme" where
  "cache_bit_op h bt enable s =
     (if enable then csr_set h CSR_MCACHECTL bt s else csr_clear h CSR_MCACHECTL bt s)"

text \<open>The two first calls take a 32 bit flag; the instruction fence changes no register.\<close>

definition mcall_icache_op :: "nat \<Rightarrow> u32 \<Rightarrow> 'a machine_scheme \<Rightarrow> int \<times> 'a machine_scheme" where
  "mcall_icache_op h enable s = (0, cache_bit_op h (BIT 0) (enable \<noteq> 0) s)"

definition mcall_dcache_op :: "nat \<Rightarrow> u32 \<Rightarrow> 'a machine_scheme \<Rightarrow> int \<times> 'a machine_scheme" where
  "mcall_dcache_op h enable s =
     (if enable \<noteq> 0 then (0, csr_set h CSR_MCACHECTL (BIT 1) s)
      else (0, csr_write h CSR_MCCTLCOMMAND 6 (csr_clear h CSR_MCACHECTL (BIT 1) s)))"

definition mcall_l1_cache_i_prefetch_op :: "nat \<Rightarrow> ulong \<Rightarrow> 'a machine_scheme \<Rightarrow> int \<times> 'a machine_scheme" where
  "mcall_l1_cache_i_prefetch_op h enable s = (0, cache_bit_op h (BIT 9) (enable \<noteq> 0) s)"

definition mcall_l1_cache_d_prefetch_op :: "nat \<Rightarrow> ulong \<Rightarrow> 'a machine_scheme \<Rightarrow> int \<times> 'a machine_scheme" where
  "mcall_l1_cache_d_prefetch_op h enable s = (0, cache_bit_op h (BIT 10) (enable \<noteq> 0) s)"

definition mcall_non_blocking_load_store :: "nat \<Rightarrow> ulong \<Rightarrow> 'a machine_scheme \<Rightarrow> int \<times> 'a machine_scheme" where
  "mcall_non_blocking_load_store h enable s = (0, cache_bit_op h (BIT 8) (enable \<noteq> 0) s)"

definition mcall_write_around :: "nat \<Rightarrow> ulong \<Rightarrow> 'a machine_scheme \<Rightarrow> int \<times> 'a machine_scheme" where
  "mcall_write_around h enable s = (0, cache_bit_op h (BIT 13) (enable \<noteq> 0) s)"

text \<open>
  The vendor extension: the function id, the argument register a0, the result with the output value
  where the function has one. The breakpoint of an unknown function does not return to the call.
\<close>

definition ae350_vendor_ext_provider ::
  "nat \<Rightarrow> ulong \<Rightarrow> ulong \<Rightarrow> 'a machine_scheme \<Rightarrow> (int \<times> ulong option, 'a machine_scheme) flow" where
  "ae350_vendor_ext_provider h funcid a0 s =
     (if funcid = 0 then Ret (0, Some (csr_read h CSR_MCACHECTL s)) s
      else if funcid = 1 then Ret (0, Some (csr_read h CSR_MMISCCTL s)) s
      else if funcid = 2 then (case mcall_set_mcache_ctl h a0 s of (r, s) \<Rightarrow> Ret (r, None) s)
      else if funcid = 3 then (case mcall_set_mmisc_ctl h a0 s of (r, s) \<Rightarrow> Ret (r, None) s)
      else if funcid = 4 then (case mcall_icache_op h (ucast a0) s of (r, s) \<Rightarrow> Ret (r, None) s)
      else if funcid = 5 then (case mcall_dcache_op h (ucast a0) s of (r, s) \<Rightarrow> Ret (r, None) s)
      else if funcid = 6 then (case mcall_l1_cache_i_prefetch_op h a0 s of (r, s) \<Rightarrow> Ret (r, None) s)
      else if funcid = 7 then (case mcall_l1_cache_d_prefetch_op h a0 s of (r, s) \<Rightarrow> Ret (r, None) s)
      else if funcid = 8 then (case mcall_non_blocking_load_store h a0 s of (r, s) \<Rightarrow> Ret (r, None) s)
      else if funcid = 9 then (case mcall_write_around h a0 s of (r, s) \<Rightarrow> Ret (r, None) s)
      else Gone s)"

section \<open>Properties\<close>

lemma pending_bit_eq:
  assumes "s < AE350_HART_COUNT" "t < AE350_HART_COUNT"
  shows "plic_sw_pending_bit s (of_nat t) = push_bit (8 * s + (7 - t)) 1"
proof -
  have "s = 0 \<or> s = 1 \<or> s = 2 \<or> s = 3" "t = 0 \<or> t = 1 \<or> t = 2 \<or> t = 3" using assms by auto
  then show ?thesis by (elim disjE) (simp_all add: plic_sw_pending_bit_def Let_def)
qed

text \<open>Every pair of a sending and a receiving hart has a bit of its own in the pending register.\<close>

lemma pending_bits_distinct:
  assumes "s < AE350_HART_COUNT" "t < AE350_HART_COUNT" "s' < AE350_HART_COUNT" "t' < AE350_HART_COUNT"
    and "plic_sw_pending_bit s (of_nat t) = plic_sw_pending_bit s' (of_nat t')"
  shows "s = s' \<and> t = t'"
proof -
  have "bit (push_bit (8 * s + (7 - t)) 1 :: u32) (8 * s + (7 - t))"
    unfolding bit_push_bit_iff using assms(1,2) by simp
  then have "bit (push_bit (8 * s' + (7 - t')) 1 :: u32) (8 * s + (7 - t))"
    using assms by (simp only: pending_bit_eq)
  then have "8 * s + (7 - t) = 8 * s' + (7 - t')" unfolding bit_push_bit_iff bit_1_iff by auto
  then show ?thesis using assms(2,4) by (cases s s' rule: linorder_cases) auto
qed

text \<open>The bit a sender sets is one the receiver has enabled.\<close>

lemma pending_bit_enabled:
  assumes "s < AE350_HART_COUNT" "t < AE350_HART_COUNT"
  shows "plic_sw_pending_bit s (of_nat t) AND drop_bit t 0x80808080 \<noteq> 0"
proof -
  have "s = 0 \<or> s = 1 \<or> s = 2 \<or> s = 3" "t = 0 \<or> t = 1 \<or> t = 2 \<or> t = 3" using assms by auto
  then show ?thesis unfolding pending_bit_eq [OF assms] by (elim disjE) (simp_all add: drop_bit_eq_div)
qed

text \<open>The call for non-blocking loads and stores has the bit number of \<^verbatim>\<open>mmisc_ctl\<close>, where this bit
  belongs, but changes \<^verbatim>\<open>mcache_ctl\<close>, where the same bit lets the supervisor use cache commands.\<close>

lemma non_blocking_wrong_register:
  "snd (mcall_non_blocking_load_store h enable s)
   = cache_bit_op h (BIT 8) (enable \<noteq> 0) s"
  "csr (snd (mcall_non_blocking_load_store h enable s)) h CSR_MMISCCTL = csr s h CSR_MMISCCTL"
  by (auto simp: mcall_non_blocking_load_store_def cache_bit_op_def csr_set_def csr_clear_def csr_write_def)

end
