(* ===== verification/Softfloat_Base.thy ===== *)
theory Softfloat_Base
  imports Sbi_Prelude
begin

text \<open>
  The arithmetic under the floating-point emulation, \<^verbatim>\<open>lib/utils/softfloat\<close>: constants, fields of a
  number, the shifts that keep a sticky bit, rounding and packing. As built here, that is without
  \<^verbatim>\<open>SOFTFLOAT_FAST_INT64\<close>, \<^verbatim>\<open>SOFTFLOAT_FAST_DIV64TO32\<close> and \<^verbatim>\<open>SOFTFLOAT_ROUND_ODD\<close>; \<^verbatim>\<open>uint_fast32_t\<close> and
  \<^verbatim>\<open>int_fast16_t\<close> are the 32 bit types of the embedded toolchain, and exponents are integers, as they
  stay far inside these types. The rounding mode is an argument (\<open>rm\<close>, read from the register \<^verbatim>\<open>tp\<close> in
  the code) and the exception flags that a function raises are the second part of its result.
\<close>

section \<open>Modes, flags, fields\<close>

abbreviation (input) softfloat_round_near_even :: nat where "softfloat_round_near_even \<equiv> 0"
abbreviation (input) softfloat_round_minMag :: nat where "softfloat_round_minMag \<equiv> 1"
abbreviation (input) softfloat_round_min :: nat where "softfloat_round_min \<equiv> 2"
abbreviation (input) softfloat_round_max :: nat where "softfloat_round_max \<equiv> 3"
abbreviation (input) softfloat_round_near_maxMag :: nat where "softfloat_round_near_maxMag \<equiv> 4"

abbreviation (input) softfloat_flag_inexact :: ulong where "softfloat_flag_inexact \<equiv> 1"
abbreviation (input) softfloat_flag_underflow :: ulong where "softfloat_flag_underflow \<equiv> 2"
abbreviation (input) softfloat_flag_overflow :: ulong where "softfloat_flag_overflow \<equiv> 4"
abbreviation (input) softfloat_flag_infinite :: ulong where "softfloat_flag_infinite \<equiv> 8"
abbreviation (input) softfloat_flag_invalid :: ulong where "softfloat_flag_invalid \<equiv> 16"

definition raising :: "ulong \<Rightarrow> 'a \<times> ulong \<Rightarrow> 'a \<times> ulong" where
  "raising which r = (fst r, which OR snd r)"

definition signF32UI :: "u32 \<Rightarrow> bool" where "signF32UI a = (drop_bit 31 a \<noteq> 0)"
definition expF32UI :: "u32 \<Rightarrow> int" where "expF32UI a = uint (drop_bit 23 a AND 0xFF)"
definition fracF32UI :: "u32 \<Rightarrow> u32" where "fracF32UI a = a AND 0x007FFFFF"

definition packToF32UI :: "bool \<Rightarrow> int \<Rightarrow> u32 \<Rightarrow> u32" where
  "packToF32UI sign ex sig = push_bit 31 (of_bool sign) + push_bit 23 (word_of_int ex) + sig"

definition isNaNF32UI :: "u32 \<Rightarrow> bool" where
  "isNaNF32UI a \<longleftrightarrow> NOT a AND 0x7F800000 = 0 \<and> a AND 0x007FFFFF \<noteq> 0"

abbreviation (input) defaultNaNF32UI :: u32 where "defaultNaNF32UI \<equiv> 0x7FC00000"

definition softfloat_isSigNaNF32UI :: "u32 \<Rightarrow> bool" where
  "softfloat_isSigNaNF32UI a \<longleftrightarrow> a AND 0x7FC00000 = 0x7F800000 \<and> a AND 0x003FFFFF \<noteq> 0"

definition signF64UI :: "u64 \<Rightarrow> bool" where "signF64UI a = (drop_bit 63 a \<noteq> 0)"
definition expF64UI :: "u64 \<Rightarrow> int" where "expF64UI a = uint (drop_bit 52 a AND 0x7FF)"
definition fracF64UI :: "u64 \<Rightarrow> u64" where "fracF64UI a = a AND 0x000FFFFFFFFFFFFF"

definition packToF64UI :: "bool \<Rightarrow> int \<Rightarrow> u64 \<Rightarrow> u64" where
  "packToF64UI sign ex sig = push_bit 63 (of_bool sign) + push_bit 52 (word_of_int ex) + sig"

definition isNaNF64UI :: "u64 \<Rightarrow> bool" where
  "isNaNF64UI a \<longleftrightarrow> NOT a AND 0x7FF0000000000000 = 0 \<and> a AND 0x000FFFFFFFFFFFFF \<noteq> 0"

abbreviation (input) defaultNaNF64UI :: u64 where "defaultNaNF64UI \<equiv> 0x7FF8000000000000"

definition softfloat_isSigNaNF64UI :: "u64 \<Rightarrow> bool" where
  "softfloat_isSigNaNF64UI a \<longleftrightarrow>
     a AND 0x7FF8000000000000 = 0x7FF0000000000000 \<and> a AND 0x0007FFFFFFFFFFFF \<noteq> 0"

text \<open>The one NaN that an operation gives; a signaling operand raises the invalid flag.\<close>

definition softfloat_propagateNaNF32UI :: "u32 \<Rightarrow> u32 \<Rightarrow> u32 \<times> ulong" where
  "softfloat_propagateNaNF32UI uiA uiB =
     (defaultNaNF32UI,
      if softfloat_isSigNaNF32UI uiA \<or> softfloat_isSigNaNF32UI uiB then softfloat_flag_invalid else 0)"

definition softfloat_propagateNaNF64UI :: "u64 \<Rightarrow> u64 \<Rightarrow> u64 \<times> ulong" where
  "softfloat_propagateNaNF64UI uiA uiB =
     (defaultNaNF64UI,
      if softfloat_isSigNaNF64UI uiA \<or> softfloat_isSigNaNF64UI uiB then softfloat_flag_invalid else 0)"

section \<open>Shifts with a sticky bit\<close>

text \<open>\<^verbatim>\<open>-dist & 31\<close> is \<open>(32 - dist) mod 32\<close>.\<close>

definition softfloat_shiftRightJam32 :: "u32 \<Rightarrow> nat \<Rightarrow> u32" where
  "softfloat_shiftRightJam32 a dist =
     (if dist < 31 then drop_bit dist a OR of_bool (push_bit ((32 - dist) mod 32) a \<noteq> 0)
      else of_bool (a \<noteq> 0))"

definition softfloat_shiftRightJam64 :: "u64 \<Rightarrow> nat \<Rightarrow> u64" where
  "softfloat_shiftRightJam64 a dist =
     (if dist < 63 then drop_bit dist a OR of_bool (push_bit ((64 - dist) mod 64) a \<noteq> 0)
      else of_bool (a \<noteq> 0))"

definition softfloat_shortShiftRightJam64 :: "u64 \<Rightarrow> nat \<Rightarrow> u64" where
  "softfloat_shortShiftRightJam64 a dist =
     drop_bit dist a OR of_bool (a AND (push_bit dist 1 - 1) \<noteq> 0)"

section \<open>Leading zeros\<close>

definition softfloat_countLeadingZeros8 :: "nat list" where
  "softfloat_countLeadingZeros8 =
     [8, 7, 6, 6] @ replicate 4 5 @ replicate 8 4 @ replicate 16 3 @ replicate 32 2 @
     replicate 64 1 @ replicate 128 0"

definition softfloat_countLeadingZeros32 :: "u32 \<Rightarrow> nat" where
  "softfloat_countLeadingZeros32 a =
     (let (count, a) = (if a < 0x10000 then (16, push_bit 16 a) else (0, a));
          (count, a) = (if a < 0x1000000 then (count + 8, push_bit 8 a) else (count, a))
      in count + softfloat_countLeadingZeros8 ! unat (drop_bit 24 a))"

definition softfloat_countLeadingZeros64 :: "u64 \<Rightarrow> nat" where
  "softfloat_countLeadingZeros64 a =
     (let a32 = ucast (drop_bit 32 a) :: u32;
          (count, a32) = (if a32 = 0 then (32, ucast a) else (0, a32));
          (count, a32) = (if a32 < 0x10000 then (count + 16, push_bit 16 a32) else (count, a32));
          (count, a32) = (if a32 < 0x1000000 then (count + 8, push_bit 8 a32) else (count, a32))
      in count + softfloat_countLeadingZeros8 ! unat (drop_bit 24 a32))"

text \<open>The exponent and the significand of a subnormal number, normalised.\<close>

definition softfloat_normSubnormalF32Sig :: "u32 \<Rightarrow> int \<times> u32" where
  "softfloat_normSubnormalF32Sig sig =
     (let shiftDist = int (softfloat_countLeadingZeros32 sig) - 8
      in (1 - shiftDist, push_bit (nat shiftDist) sig))"

definition softfloat_normSubnormalF64Sig :: "u64 \<Rightarrow> int \<times> u64" where
  "softfloat_normSubnormalF64Sig sig =
     (let shiftDist = int (softfloat_countLeadingZeros64 sig) - 11
      in (1 - shiftDist, push_bit (nat shiftDist) sig))"

section \<open>Rounding and packing\<close>

text \<open>The increment before the low bits are cut off, and the part of the functions after the cases of
  a small and of a large exponent.\<close>

definition roundIncrementF32 :: "nat \<Rightarrow> bool \<Rightarrow> u32" where
  "roundIncrementF32 rm sign =
     (if rm \<noteq> softfloat_round_near_even \<and> rm \<noteq> softfloat_round_near_maxMag
      then if rm = (if sign then softfloat_round_min else softfloat_round_max) then 0x7F else 0
      else 0x40)"

definition roundPackF32_end :: "nat \<Rightarrow> bool \<Rightarrow> int \<Rightarrow> u32 \<Rightarrow> u32 \<Rightarrow> u32 \<times> ulong" where
  "roundPackF32_end rm sign ex sig roundBits =
     (let sig = drop_bit 7 (sig + roundIncrementF32 rm sign);
          sig = sig AND NOT (of_bool (roundBits = 0x40 \<and> rm = softfloat_round_near_even));
          ex = (if sig = 0 then 0 else ex)
      in (packToF32UI sign ex sig, if roundBits \<noteq> 0 then softfloat_flag_inexact else 0))"

definition softfloat_roundPackToF32 :: "nat \<Rightarrow> bool \<Rightarrow> int \<Rightarrow> u32 \<Rightarrow> u32 \<times> ulong" where
  "softfloat_roundPackToF32 rm sign ex sig =
     (let roundIncrement = roundIncrementF32 rm sign in
      if 0xFD \<le> (word_of_int ex :: u32) \<and> ex < 0 then
        let isTiny = (ex < -1 \<or> sig + roundIncrement < 0x80000000);
            sig = softfloat_shiftRightJam32 sig (nat (- ex));
            roundBits = sig AND 0x7F
        in raising (if isTiny \<and> roundBits \<noteq> 0 then softfloat_flag_underflow else 0)
             (roundPackF32_end rm sign 0 sig roundBits)
      else if 0xFD \<le> (word_of_int ex :: u32) \<and> (0xFD < ex \<or> 0x80000000 \<le> sig + roundIncrement) then
        (packToF32UI sign 0xFF 0 - of_bool (roundIncrement = 0),
         softfloat_flag_overflow OR softfloat_flag_inexact)
      else roundPackF32_end rm sign ex sig (sig AND 0x7F))"

definition softfloat_normRoundPackToF32 :: "nat \<Rightarrow> bool \<Rightarrow> int \<Rightarrow> u32 \<Rightarrow> u32 \<times> ulong" where
  "softfloat_normRoundPackToF32 rm sign ex sig =
     (let shiftDist = int (softfloat_countLeadingZeros32 sig) - 1;
          ex = ex - shiftDist
      in if 7 \<le> shiftDist \<and> (word_of_int ex :: u32) < 0xFD
         then (packToF32UI sign (if sig \<noteq> 0 then ex else 0) (push_bit (nat (shiftDist - 7)) sig), 0)
         else softfloat_roundPackToF32 rm sign ex (push_bit (nat shiftDist) sig))"

definition roundIncrementF64 :: "nat \<Rightarrow> bool \<Rightarrow> u64" where
  "roundIncrementF64 rm sign =
     (if rm \<noteq> softfloat_round_near_even \<and> rm \<noteq> softfloat_round_near_maxMag
      then if rm = (if sign then softfloat_round_min else softfloat_round_max) then 0x3FF else 0
      else 0x200)"

definition roundPackF64_end :: "nat \<Rightarrow> bool \<Rightarrow> int \<Rightarrow> u64 \<Rightarrow> u64 \<Rightarrow> u64 \<times> ulong" where
  "roundPackF64_end rm sign ex sig roundBits =
     (let sig = drop_bit 10 (sig + roundIncrementF64 rm sign);
          sig = sig AND NOT (of_bool (roundBits = 0x200 \<and> rm = softfloat_round_near_even));
          ex = (if sig = 0 then 0 else ex)
      in (packToF64UI sign ex sig, if roundBits \<noteq> 0 then softfloat_flag_inexact else 0))"

definition softfloat_roundPackToF64 :: "nat \<Rightarrow> bool \<Rightarrow> int \<Rightarrow> u64 \<Rightarrow> u64 \<times> ulong" where
  "softfloat_roundPackToF64 rm sign ex sig =
     (let roundIncrement = roundIncrementF64 rm sign in
      if 0x7FD \<le> (word_of_int ex :: u16) \<and> ex < 0 then
        let isTiny = (ex < -1 \<or> sig + roundIncrement < 0x8000000000000000);
            sig = softfloat_shiftRightJam64 sig (nat (- ex));
            roundBits = sig AND 0x3FF
        in raising (if isTiny \<and> roundBits \<noteq> 0 then softfloat_flag_underflow else 0)
             (roundPackF64_end rm sign 0 sig roundBits)
      else if 0x7FD \<le> (word_of_int ex :: u16) \<and> (0x7FD < ex \<or> 0x8000000000000000 \<le> sig + roundIncrement)
      then (packToF64UI sign 0x7FF 0 - of_bool (roundIncrement = 0),
            softfloat_flag_overflow OR softfloat_flag_inexact)
      else roundPackF64_end rm sign ex sig (sig AND 0x3FF))"

definition softfloat_normRoundPackToF64 :: "nat \<Rightarrow> bool \<Rightarrow> int \<Rightarrow> u64 \<Rightarrow> u64 \<times> ulong" where
  "softfloat_normRoundPackToF64 rm sign ex sig =
     (let shiftDist = int (softfloat_countLeadingZeros64 sig) - 1;
          ex = ex - shiftDist
      in if 10 \<le> shiftDist \<and> (word_of_int ex :: u32) < 0x7FD
         then (packToF64UI sign (if sig \<noteq> 0 then ex else 0) (push_bit (nat (shiftDist - 10)) sig), 0)
         else softfloat_roundPackToF64 rm sign ex (push_bit (nat shiftDist) sig))"

end
