(* ===== verification/Softfloat_F32.thy ===== *)
theory Softfloat_F32
  imports Softfloat_Base
begin

text \<open>
  Single precision: \<^verbatim>\<open>f32_add.c\<close>, \<^verbatim>\<open>s_addMagsF32.c\<close>, \<^verbatim>\<open>s_subMagsF32.c\<close>, \<^verbatim>\<open>f32_mul.c\<close>, \<^verbatim>\<open>f32_div.c\<close>,
  \<^verbatim>\<open>f32_sqrt.c\<close>, \<^verbatim>\<open>s_mulAddF32.c\<close>, the comparisons and \<^verbatim>\<open>f32_classify.c\<close>, with the tables of
  approximate reciprocals. A label of the code becomes the branch that jumps to it.
\<close>

section \<open>Addition\<close>

definition addMagsF32_end :: "nat \<Rightarrow> bool \<Rightarrow> int \<Rightarrow> u32 \<Rightarrow> u32 \<Rightarrow> u32 \<times> ulong" where
  "addMagsF32_end rm signZ expZ sigA sigB =
     (let sigZ = 0x20000000 + sigA + sigB
      in if sigZ < 0x40000000 then softfloat_roundPackToF32 rm signZ (expZ - 1) (push_bit 1 sigZ)
         else softfloat_roundPackToF32 rm signZ expZ sigZ)"

definition softfloat_addMagsF32 :: "nat \<Rightarrow> u32 \<Rightarrow> u32 \<Rightarrow> u32 \<times> ulong" where
  "softfloat_addMagsF32 rm uiA uiB =
     (let expA = expF32UI uiA; sigA = fracF32UI uiA; expB = expF32UI uiB; sigB = fracF32UI uiB;
          expDiff = expA - expB; signZ = signF32UI uiA
      in if expDiff = 0 then
           if expA = 0 then (uiA + sigB, 0)
           else if expA = 0xFF then
             if sigA OR sigB \<noteq> 0 then softfloat_propagateNaNF32UI uiA uiB else (uiA, 0)
           else
             let sigZ = 0x01000000 + sigA + sigB
             in if sigZ AND 1 = 0 \<and> expA < 0xFE then (packToF32UI signZ expA (drop_bit 1 sigZ), 0)
                else softfloat_roundPackToF32 rm signZ expA (push_bit 6 sigZ)
         else
           let sigA = push_bit 6 sigA; sigB = push_bit 6 sigB
           in if expDiff < 0 then
                if expB = 0xFF then
                  if sigB \<noteq> 0 then softfloat_propagateNaNF32UI uiA uiB else (packToF32UI signZ 0xFF 0, 0)
                else
                  let sigA = sigA + (if expA \<noteq> 0 then 0x20000000 else sigA);
                      sigA = softfloat_shiftRightJam32 sigA (nat (- expDiff))
                  in addMagsF32_end rm signZ expB sigA sigB
              else
                if expA = 0xFF then
                  if sigA \<noteq> 0 then softfloat_propagateNaNF32UI uiA uiB else (uiA, 0)
                else
                  let sigB = sigB + (if expB \<noteq> 0 then 0x20000000 else sigB);
                      sigB = softfloat_shiftRightJam32 sigB (nat expDiff)
                  in addMagsF32_end rm signZ expA sigA sigB)"

text \<open>The difference of two significands is at most 23 bits, so its sign is the order of the two.\<close>

definition softfloat_subMagsF32 :: "nat \<Rightarrow> u32 \<Rightarrow> u32 \<Rightarrow> u32 \<times> ulong" where
  "softfloat_subMagsF32 rm uiA uiB =
     (let expA = expF32UI uiA; sigA = fracF32UI uiA; expB = expF32UI uiB; sigB = fracF32UI uiB;
          expDiff = expA - expB
      in if expDiff = 0 then
           if expA = 0xFF then
             if sigA OR sigB \<noteq> 0 then softfloat_propagateNaNF32UI uiA uiB
             else (defaultNaNF32UI, softfloat_flag_invalid)
           else
             let sigDiff = uint sigA - uint sigB
             in if sigDiff = 0 then (packToF32UI (rm = softfloat_round_min) 0 0, 0)
                else
                  let expA = (if expA \<noteq> 0 then expA - 1 else expA);
                      signZ = (if sigDiff < 0 then \<not> signF32UI uiA else signF32UI uiA);
                      sigDiff = word_of_int \<bar>sigDiff\<bar> :: u32;
                      shiftDist = int (softfloat_countLeadingZeros32 sigDiff) - 8;
                      expZ = expA - shiftDist;
                      shiftDist = (if expZ < 0 then expA else shiftDist);
                      expZ = (if expZ < 0 then 0 else expZ)
                  in (packToF32UI signZ expZ (push_bit (nat shiftDist) sigDiff), 0)
         else
           let sigA = push_bit 7 sigA; sigB = push_bit 7 sigB
           in if expDiff < 0 then
                let signZ = (\<not> signF32UI uiA)
                in if expB = 0xFF then
                     if sigB \<noteq> 0 then softfloat_propagateNaNF32UI uiA uiB else (packToF32UI signZ 0xFF 0, 0)
                   else
                     let sigX = sigB OR 0x40000000; sigY = sigA + (if expA \<noteq> 0 then 0x40000000 else sigA)
                     in softfloat_normRoundPackToF32 rm signZ (expB - 1)
                          (sigX - softfloat_shiftRightJam32 sigY (nat (- expDiff)))
              else
                if expA = 0xFF then
                  if sigA \<noteq> 0 then softfloat_propagateNaNF32UI uiA uiB else (uiA, 0)
                else
                  let sigX = sigA OR 0x40000000; sigY = sigB + (if expB \<noteq> 0 then 0x40000000 else sigB)
                  in softfloat_normRoundPackToF32 rm (signF32UI uiA) (expA - 1)
                       (sigX - softfloat_shiftRightJam32 sigY (nat expDiff)))"

definition f32_add :: "nat \<Rightarrow> u32 \<Rightarrow> u32 \<Rightarrow> u32 \<times> ulong" where
  "f32_add rm a b =
     (if signF32UI (a XOR b) then softfloat_subMagsF32 rm a b else softfloat_addMagsF32 rm a b)"

section \<open>Multiplication\<close>

definition infArgF32 :: "bool \<Rightarrow> bool \<Rightarrow> u32 \<times> ulong" where
  "infArgF32 magBits signZ =
     (if \<not> magBits then (defaultNaNF32UI, softfloat_flag_invalid) else (packToF32UI signZ 0xFF 0, 0))"

text \<open>The exponent and significand of an operand that is not zero.\<close>

definition normOperandF32 :: "int \<Rightarrow> u32 \<Rightarrow> int \<times> u32" where
  "normOperandF32 ex sig = (if ex = 0 then softfloat_normSubnormalF32Sig sig else (ex, sig))"

definition f32_mul :: "nat \<Rightarrow> u32 \<Rightarrow> u32 \<Rightarrow> u32 \<times> ulong" where
  "f32_mul rm a b =
     (let expA = expF32UI a; sigA = fracF32UI a; expB = expF32UI b; sigB = fracF32UI b;
          signZ = (signF32UI a \<noteq> signF32UI b)
      in if expA = 0xFF then
           if sigA \<noteq> 0 \<or> expB = 0xFF \<and> sigB \<noteq> 0 then softfloat_propagateNaNF32UI a b
           else infArgF32 (expB \<noteq> 0 \<or> sigB \<noteq> 0) signZ
         else if expB = 0xFF then
           if sigB \<noteq> 0 then softfloat_propagateNaNF32UI a b
           else infArgF32 (expA \<noteq> 0 \<or> sigA \<noteq> 0) signZ
         else if expA = 0 \<and> sigA = 0 \<or> expB = 0 \<and> sigB = 0 then (packToF32UI signZ 0 0, 0)
         else
           let (expA, sigA) = normOperandF32 expA sigA;
               (expB, sigB) = normOperandF32 expB sigB;
               expZ = expA + expB - 0x7F;
               sigA = push_bit 7 (sigA OR 0x00800000);
               sigB = push_bit 8 (sigB OR 0x00800000);
               sigZ = ucast (softfloat_shortShiftRightJam64 (ucast sigA * ucast sigB) 32) :: u32
           in if sigZ < 0x40000000 then softfloat_roundPackToF32 rm signZ (expZ - 1) (push_bit 1 sigZ)
              else softfloat_roundPackToF32 rm signZ expZ sigZ)"

section \<open>Division and square root\<close>

definition softfloat_approxRecip_1k0s :: "u16 list" where
  "softfloat_approxRecip_1k0s =
     [0xFFC4, 0xF0BE, 0xE363, 0xD76F, 0xCCAD, 0xC2F0, 0xBA16, 0xB201,
      0xAA97, 0xA3C6, 0x9D7A, 0x97A6, 0x923C, 0x8D32, 0x887E, 0x8417]"

definition softfloat_approxRecip_1k1s :: "u16 list" where
  "softfloat_approxRecip_1k1s =
     [0xF0F1, 0xD62C, 0xBFA1, 0xAC77, 0x9C0A, 0x8DDB, 0x8185, 0x76BA,
      0x6D3B, 0x64D4, 0x5D5C, 0x56B1, 0x50B6, 0x4B55, 0x4679, 0x4211]"

definition softfloat_approxRecip32_1 :: "u32 \<Rightarrow> u32" where
  "softfloat_approxRecip32_1 a =
     (let i = unat (drop_bit 27 a AND 0xF);
          eps = ucast (drop_bit 11 a) :: u16;
          r0 = softfloat_approxRecip_1k0s ! i
               - ucast (drop_bit 20 (ucast (softfloat_approxRecip_1k1s ! i) * ucast eps :: u32));
          sigma0 = NOT (ucast (drop_bit 7 (ucast r0 * ucast a :: u64))) :: u32;
          r = push_bit 16 (ucast r0) + ucast (drop_bit 24 (ucast r0 * ucast sigma0 :: u64)) :: u32;
          sqrSigma0 = ucast (drop_bit 32 (ucast sigma0 * ucast sigma0 :: u64)) :: u32
      in r + ucast (drop_bit 48 (ucast r * ucast sqrSigma0 :: u64)))"

definition softfloat_approxRecipSqrt_1k0s :: "u16 list" where
  "softfloat_approxRecipSqrt_1k0s =
     [0xB4C9, 0xFFAB, 0xAA7D, 0xF11C, 0xA1C5, 0xE4C7, 0x9A43, 0xDA29,
      0x93B5, 0xD0E5, 0x8DED, 0xC8B7, 0x88C6, 0xC16D, 0x8424, 0xBAE1]"

definition softfloat_approxRecipSqrt_1k1s :: "u16 list" where
  "softfloat_approxRecipSqrt_1k1s =
     [0xA5A5, 0xEA42, 0x8C21, 0xC62D, 0x788F, 0xAA7F, 0x6928, 0x94B6,
      0x5CC7, 0x8335, 0x52A6, 0x74E2, 0x4A3E, 0x68FE, 0x432B, 0x5EFD]"

definition softfloat_approxRecipSqrt32_1 :: "nat \<Rightarrow> u32 \<Rightarrow> u32" where
  "softfloat_approxRecipSqrt32_1 oddExpA a =
     (let i = unat (drop_bit 27 a AND 0xE) + oddExpA;
          eps = ucast (drop_bit 12 a) :: u16;
          r0 = softfloat_approxRecipSqrt_1k0s ! i
               - ucast (drop_bit 20 (ucast (softfloat_approxRecipSqrt_1k1s ! i) * ucast eps :: u32));
          ESqrR0 = ucast r0 * ucast r0 :: u32;
          ESqrR0 = (if oddExpA = 0 then push_bit 1 ESqrR0 else ESqrR0);
          sigma0 = NOT (ucast (drop_bit 23 (ucast ESqrR0 * ucast a :: u64))) :: u32;
          r = push_bit 16 (ucast r0) + ucast (drop_bit 25 (ucast r0 * ucast sigma0 :: u64)) :: u32;
          sqrSigma0 = ucast (drop_bit 32 (ucast sigma0 * ucast sigma0 :: u64)) :: u32;
          r = r + ucast (drop_bit 48 (ucast (drop_bit 1 r + drop_bit 3 r - push_bit 14 (ucast r0)) * ucast sqrSigma0 :: u64))
      in if r AND 0x80000000 = 0 then 0x80000000 else r)"

definition f32_div :: "nat \<Rightarrow> u32 \<Rightarrow> u32 \<Rightarrow> u32 \<times> ulong" where
  "f32_div rm a b =
     (let expA = expF32UI a; sigA = fracF32UI a; expB = expF32UI b; sigB = fracF32UI b;
          signZ = (signF32UI a \<noteq> signF32UI b);
          invalid = (defaultNaNF32UI, softfloat_flag_invalid);
          infinity = packToF32UI signZ 0xFF 0
      in if expA = 0xFF then
           if sigA \<noteq> 0 then softfloat_propagateNaNF32UI a b
           else if expB = 0xFF then if sigB \<noteq> 0 then softfloat_propagateNaNF32UI a b else invalid
           else (infinity, 0)
         else if expB = 0xFF then
           if sigB \<noteq> 0 then softfloat_propagateNaNF32UI a b else (packToF32UI signZ 0 0, 0)
         else if expB = 0 \<and> sigB = 0 then
           if expA = 0 \<and> sigA = 0 then invalid else (infinity, softfloat_flag_infinite)
         else if expA = 0 \<and> sigA = 0 then (packToF32UI signZ 0 0, 0)
         else
           let (expB, sigB) = normOperandF32 expB sigB;
               (expA, sigA) = normOperandF32 expA sigA;
               expZ = expA - expB + 0x7E;
               sigA = sigA OR 0x00800000;
               sigB = sigB OR 0x00800000;
               (expZ, sigA) = (if sigA < sigB then (expZ - 1, push_bit 8 sigA) else (expZ, push_bit 7 sigA));
               sigB = push_bit 8 sigB;
               sigZ = ucast (drop_bit 32 (ucast sigA * ucast (softfloat_approxRecip32_1 sigB) :: u64)) + 2 :: u32;
               sigZ =
                 (if sigZ AND 0x3F < 2 then
                    let sigZ = sigZ AND NOT 3;
                        rem = push_bit 32 (ucast sigA) - ucast (push_bit 1 sigZ) * ucast sigB :: u64
                    in if rem AND 0x8000000000000000 \<noteq> 0 then sigZ - 4
                       else if rem \<noteq> 0 then sigZ OR 1 else sigZ
                  else sigZ)
           in softfloat_roundPackToF32 rm signZ expZ sigZ)"

definition f32_sqrt :: "nat \<Rightarrow> u32 \<Rightarrow> u32 \<times> ulong" where
  "f32_sqrt rm a =
     (let signA = signF32UI a; expA = expF32UI a; sigA = fracF32UI a;
          invalid = (defaultNaNF32UI, softfloat_flag_invalid)
      in if expA = 0xFF then
           if sigA \<noteq> 0 then softfloat_propagateNaNF32UI a 0
           else if \<not> signA then (a, 0) else invalid
         else if signA then if expA = 0 \<and> sigA = 0 then (a, 0) else invalid
         else if expA = 0 \<and> sigA = 0 then (a, 0)
         else
           let (expA, sigA) = normOperandF32 expA sigA;
               expZ = (expA - 0x7F) div 2 + 0x7E;
               oddExpA = nat (expA mod 2);
               sigA = push_bit 8 (sigA OR 0x00800000);
               sigZ = ucast (drop_bit 32 (ucast sigA * ucast (softfloat_approxRecipSqrt32_1 oddExpA sigA) :: u64)) :: u32;
               sigZ = (if oddExpA \<noteq> 0 then drop_bit 1 sigZ else sigZ) + 2;
               sigZ =
                 (if sigZ AND 0x3F < 2 then
                    let shiftedSigZ = drop_bit 2 sigZ;
                        negRem = shiftedSigZ * shiftedSigZ;
                        sigZ = sigZ AND NOT 3
                    in if negRem AND 0x80000000 \<noteq> 0 then sigZ OR 1
                       else if negRem \<noteq> 0 then sigZ - 1 else sigZ
                  else sigZ)
           in softfloat_roundPackToF32 rm False expZ sigZ)"

section \<open>Fused multiplication and addition\<close>

text \<open>The end of the function for a product that is not zero and a summand that is not zero, both
  normalised; \<open>sigProd\<close> has its top bit at place 61 and \<open>sigC\<close> at place 29.\<close>

definition mulAddF32_same :: "nat \<Rightarrow> bool \<Rightarrow> int \<Rightarrow> u64 \<Rightarrow> int \<Rightarrow> u32 \<Rightarrow> u32 \<times> ulong" where
  "mulAddF32_same rm signZ expProd sigProd expC sigC =
     (let expDiff = expProd - expC;
          (expZ, sigZ) =
            (if expDiff \<le> 0
             then (expC, sigC + ucast (softfloat_shiftRightJam64 sigProd (nat (32 - expDiff))))
             else (expProd, ucast (softfloat_shortShiftRightJam64
                     (sigProd + softfloat_shiftRightJam64 (push_bit 32 (ucast sigC)) (nat expDiff)) 32)))
      in if sigZ < 0x40000000 then softfloat_roundPackToF32 rm signZ (expZ - 1) (push_bit 1 sigZ)
         else softfloat_roundPackToF32 rm signZ expZ sigZ)"

definition mulAddF32_norm :: "nat \<Rightarrow> bool \<Rightarrow> int \<Rightarrow> u64 \<Rightarrow> u32 \<times> ulong" where
  "mulAddF32_norm rm signZ expZ sig64Z =
     (let shiftDist = int (softfloat_countLeadingZeros64 sig64Z) - 1;
          expZ = expZ - shiftDist;
          shiftDist = shiftDist - 32;
          sigZ = (if shiftDist < 0 then ucast (softfloat_shortShiftRightJam64 sig64Z (nat (- shiftDist)))
                  else push_bit (nat shiftDist) (ucast sig64Z))
      in softfloat_roundPackToF32 rm signZ expZ sigZ)"

definition mulAddF32_opposite ::
  "nat \<Rightarrow> bool \<Rightarrow> bool \<Rightarrow> int \<Rightarrow> u64 \<Rightarrow> int \<Rightarrow> u32 \<Rightarrow> u32 \<times> ulong" where
  "mulAddF32_opposite rm signProd signC expProd sigProd expC sigC =
     (let expDiff = expProd - expC; sig64C = push_bit 32 (ucast sigC)
      in if expDiff < 0 then
           mulAddF32_norm rm signC expC (sig64C - softfloat_shiftRightJam64 sigProd (nat (- expDiff)))
         else if expDiff = 0 then
           let sig64Z = sigProd - sig64C
           in if sig64Z = 0 then (packToF32UI (rm = softfloat_round_min) 0 0, 0)
              else if sig64Z AND 0x8000000000000000 \<noteq> 0 then mulAddF32_norm rm (\<not> signProd) expProd (- sig64Z)
              else mulAddF32_norm rm signProd expProd sig64Z
         else mulAddF32_norm rm signProd expProd (sigProd - softfloat_shiftRightJam64 sig64C (nat expDiff)))"

definition softfloat_mulAddF32 :: "nat \<Rightarrow> u32 \<Rightarrow> u32 \<Rightarrow> u32 \<Rightarrow> nat \<Rightarrow> u32 \<times> ulong" where
  "softfloat_mulAddF32 rm uiA uiB uiC op =
     (let expA = expF32UI uiA; sigA = fracF32UI uiA; expB = expF32UI uiB; sigB = fracF32UI uiB;
          signC = (signF32UI uiC \<noteq> (op = 1)); expC = expF32UI uiC; sigC = fracF32UI uiC;
          signProd = ((signF32UI uiA \<noteq> signF32UI uiB) \<noteq> (op = 2));
          propagateNaN_ABC =
            (case softfloat_propagateNaNF32UI uiA uiB of (uiZ, w) \<Rightarrow>
               raising w (softfloat_propagateNaNF32UI uiZ uiC));
          infProdArg = (\<lambda>magBits.
            if magBits \<and> expC \<noteq> 0xFF then (packToF32UI signProd 0xFF 0, 0)
            else if magBits \<and> sigC \<noteq> 0 then softfloat_propagateNaNF32UI (packToF32UI signProd 0xFF 0) uiC
            else if magBits \<and> signProd = signC then (packToF32UI signProd 0xFF 0, 0)
            else raising softfloat_flag_invalid (softfloat_propagateNaNF32UI defaultNaNF32UI uiC))
      in if expA = 0xFF then
           if sigA \<noteq> 0 \<or> expB = 0xFF \<and> sigB \<noteq> 0 then propagateNaN_ABC
           else infProdArg (expB \<noteq> 0 \<or> sigB \<noteq> 0)
         else if expB = 0xFF then
           if sigB \<noteq> 0 then propagateNaN_ABC else infProdArg (expA \<noteq> 0 \<or> sigA \<noteq> 0)
         else if expC = 0xFF then
           if sigC \<noteq> 0 then softfloat_propagateNaNF32UI 0 uiC else (uiC, 0)
         else if expA = 0 \<and> sigA = 0 \<or> expB = 0 \<and> sigB = 0 then
           if expC = 0 \<and> sigC = 0 \<and> signProd \<noteq> signC then (packToF32UI (rm = softfloat_round_min) 0 0, 0)
           else (uiC, 0)
         else
           let (expA, sigA) = normOperandF32 expA sigA;
               (expB, sigB) = normOperandF32 expB sigB;
               expProd = expA + expB - 0x7E;
               sigA = push_bit 7 (sigA OR 0x00800000);
               sigB = push_bit 7 (sigB OR 0x00800000);
               sigProd = ucast sigA * ucast sigB :: u64;
               (expProd, sigProd) = (if sigProd < 0x2000000000000000 then (expProd - 1, push_bit 1 sigProd)
                                     else (expProd, sigProd))
           in if expC = 0 \<and> sigC = 0 then
                softfloat_roundPackToF32 rm signProd (expProd - 1) (ucast (softfloat_shortShiftRightJam64 sigProd 31))
              else
                let (expC, sigC) = normOperandF32 expC sigC; sigC = push_bit 6 (sigC OR 0x00800000)
                in if signProd = signC then mulAddF32_same rm signProd expProd sigProd expC sigC
                   else mulAddF32_opposite rm signProd signC expProd sigProd expC sigC)"

section \<open>Comparisons and classes\<close>

definition f32_eq :: "u32 \<Rightarrow> u32 \<Rightarrow> bool \<times> ulong" where
  "f32_eq a b =
     (if isNaNF32UI a \<or> isNaNF32UI b then
        (False, if softfloat_isSigNaNF32UI a \<or> softfloat_isSigNaNF32UI b then softfloat_flag_invalid else 0)
      else (a = b \<or> push_bit 1 (a OR b) = 0, 0))"

definition f32_less :: "u32 \<Rightarrow> u32 \<Rightarrow> bool" where
  "f32_less a b =
     (let signA = signF32UI a; signB = signF32UI b
      in if signA \<noteq> signB then signA \<and> push_bit 1 (a OR b) \<noteq> 0 else a \<noteq> b \<and> signA \<noteq> (a < b))"

definition f32_lt :: "u32 \<Rightarrow> u32 \<Rightarrow> bool \<times> ulong" where
  "f32_lt a b =
     (if isNaNF32UI a \<or> isNaNF32UI b then (False, softfloat_flag_invalid) else (f32_less a b, 0))"

definition f32_lt_quiet :: "u32 \<Rightarrow> u32 \<Rightarrow> bool \<times> ulong" where
  "f32_lt_quiet a b =
     (if isNaNF32UI a \<or> isNaNF32UI b then
        (False, if softfloat_isSigNaNF32UI a \<or> softfloat_isSigNaNF32UI b then softfloat_flag_invalid else 0)
      else (f32_less a b, 0))"

definition f32_classify :: "u32 \<Rightarrow> u32" where
  "f32_classify a =
     (let infOrNaN = (expF32UI a = 0xFF); subnormalOrZero = (expF32UI a = 0); sign = signF32UI a
      in push_bit 0 (of_bool (sign \<and> infOrNaN \<and> fracF32UI a = 0))
         OR push_bit 1 (of_bool (sign \<and> \<not> infOrNaN \<and> \<not> subnormalOrZero))
         OR push_bit 2 (of_bool (sign \<and> subnormalOrZero \<and> fracF32UI a \<noteq> 0))
         OR push_bit 3 (of_bool (sign \<and> subnormalOrZero \<and> fracF32UI a = 0))
         OR push_bit 7 (of_bool (\<not> sign \<and> infOrNaN \<and> fracF32UI a = 0))
         OR push_bit 6 (of_bool (\<not> sign \<and> \<not> infOrNaN \<and> \<not> subnormalOrZero))
         OR push_bit 5 (of_bool (\<not> sign \<and> subnormalOrZero \<and> fracF32UI a \<noteq> 0))
         OR push_bit 4 (of_bool (\<not> sign \<and> subnormalOrZero \<and> fracF32UI a = 0))
         OR push_bit 8 (of_bool (isNaNF32UI a \<and> softfloat_isSigNaNF32UI a))
         OR push_bit 9 (of_bool (isNaNF32UI a \<and> \<not> softfloat_isSigNaNF32UI a)))"

end
