(* ===== verification/Softfloat_Words.thy ===== *)
theory Softfloat_Words
  imports Softfloat_Base
begin

text \<open>
  Numbers of several 32 bit words, lowest word first: the functions of \<^verbatim>\<open>lib/utils/softfloat\<close> that end
  in \<^verbatim>\<open>M\<close>, in the little endian build. Source and destination of the code are the same array or apart,
  which makes no difference; the number of words is the length of the list.
\<close>

definition highWords :: "u32 list \<Rightarrow> u64" where
  "highWords w = push_bit 32 (ucast (w ! 3)) OR ucast (w ! 2)"

definition lowWords :: "u32 list \<Rightarrow> u64" where
  "lowWords w = push_bit 32 (ucast (w ! 1)) OR ucast (w ! 0)"

definition wordsOf128 :: "u64 \<Rightarrow> u64 \<Rightarrow> u32 list" where
  "wordsOf128 hi lo = [ucast lo, ucast (drop_bit 32 lo), ucast hi, ucast (drop_bit 32 hi)]"

definition softfloat_mul64To128M :: "u64 \<Rightarrow> u64 \<Rightarrow> u32 list" where
  "softfloat_mul64To128M a b =
     (let a32 = ucast (drop_bit 32 a) :: u32; a0 = ucast a :: u32;
          b32 = ucast (drop_bit 32 b) :: u32; b0 = ucast b :: u32;
          z0 = ucast a0 * ucast b0 :: u64;
          mid1 = ucast a32 * ucast b0 :: u64;
          mid = mid1 + ucast a0 * ucast b32;
          z64 = ucast a32 * ucast b32 + (push_bit 32 (of_bool (mid < mid1)) OR drop_bit 32 mid);
          mid = push_bit 32 mid;
          z0 = z0 + mid;
          z64 = z64 + of_bool (z0 < mid)
      in [ucast z0, ucast (drop_bit 32 z0), ucast z64, ucast (drop_bit 32 z64)])"

section \<open>Sums\<close>

fun addM_loop :: "bool \<Rightarrow> u32 list \<Rightarrow> u32 list \<Rightarrow> u32 list" where
  "addM_loop carry (wordA # as) (wordB # bs) =
     (let wordZ = wordA + wordB + of_bool carry
      in wordZ # addM_loop (if wordZ \<noteq> wordA then wordZ < wordA else carry) as bs)"
| "addM_loop carry as bs = []"

definition softfloat_addM :: "u32 list \<Rightarrow> u32 list \<Rightarrow> u32 list" where
  "softfloat_addM as bs = addM_loop False as bs"

fun subM_loop :: "bool \<Rightarrow> u32 list \<Rightarrow> u32 list \<Rightarrow> u32 list" where
  "subM_loop borrow (wordA # as) (wordB # bs) =
     (wordA - wordB - of_bool borrow)
     # subM_loop (if borrow then wordA \<le> wordB else wordA < wordB) as bs"
| "subM_loop borrow as bs = []"

definition softfloat_subM :: "u32 list \<Rightarrow> u32 list \<Rightarrow> u32 list" where
  "softfloat_subM as bs = subM_loop False as bs"

fun negXM_loop :: "bool \<Rightarrow> u32 list \<Rightarrow> u32 list" where
  "negXM_loop carry [] = []"
| "negXM_loop carry (w # ws) =
     (let word = NOT w + of_bool carry in word # negXM_loop (if word \<noteq> 0 then False else carry) ws)"

definition softfloat_negXM :: "u32 list \<Rightarrow> u32 list" where
  "softfloat_negXM ws = negXM_loop True ws"

section \<open>Shifts by less than a word\<close>

fun shiftRight_loop :: "nat \<Rightarrow> u32 \<Rightarrow> u32 list \<Rightarrow> u32 list" where
  "shiftRight_loop dist partWordZ [] = [partWordZ]"
| "shiftRight_loop dist partWordZ (wordA # as) =
     (push_bit ((32 - dist) mod 32) wordA OR partWordZ) # shiftRight_loop dist (drop_bit dist wordA) as"

fun softfloat_shortShiftRightM :: "nat \<Rightarrow> u32 list \<Rightarrow> u32 list" where
  "softfloat_shortShiftRightM dist [] = []"
| "softfloat_shortShiftRightM dist (wordA # as) = shiftRight_loop dist (drop_bit dist wordA) as"

fun softfloat_shortShiftRightJamM :: "nat \<Rightarrow> u32 list \<Rightarrow> u32 list" where
  "softfloat_shortShiftRightJamM dist [] = []"
| "softfloat_shortShiftRightJamM dist (wordA # as) =
     (let partWordZ = drop_bit dist wordA
      in shiftRight_loop dist (if push_bit dist partWordZ \<noteq> wordA then partWordZ OR 1 else partWordZ) as)"

text \<open>To the left the code goes from the highest word down.\<close>

fun shiftLeft_loop :: "nat \<Rightarrow> u32 \<Rightarrow> u32 list \<Rightarrow> u32 list" where
  "shiftLeft_loop dist partWordZ [] = [partWordZ]"
| "shiftLeft_loop dist partWordZ (wordA # as) =
     (partWordZ OR drop_bit ((32 - dist) mod 32) wordA) # shiftLeft_loop dist (push_bit dist wordA) as"

definition softfloat_shortShiftLeftM :: "nat \<Rightarrow> u32 list \<Rightarrow> u32 list" where
  "softfloat_shortShiftLeftM dist ws =
     (case rev ws of [] \<Rightarrow> [] | wordA # as \<Rightarrow> rev (shiftLeft_loop dist (push_bit dist wordA) as))"

section \<open>Shifts by any distance\<close>

text \<open>The distance is not zero (the code would clear memory past the number there; no caller does it).\<close>

definition softfloat_shiftLeftM :: "nat \<Rightarrow> u32 list \<Rightarrow> u32 list" where
  "softfloat_shiftLeftM dist ws =
     (let wordDist = dist div 32; innerDist = dist mod 32
      in if wordDist < length ws then
           let moved = take (length ws - wordDist) ws
           in replicate wordDist 0 @ (if innerDist \<noteq> 0 then softfloat_shortShiftLeftM innerDist moved else moved)
         else replicate (length ws) 0)"

definition softfloat_shiftRightJamM :: "nat \<Rightarrow> u32 list \<Rightarrow> u32 list" where
  "softfloat_shiftRightJamM dist ws =
     (let wordDist = min (dist div 32) (length ws); innerDist = dist mod 32;
          wordJam = (\<exists>w\<in>set (take wordDist ws). w \<noteq> 0);
          moved = drop wordDist ws;
          z = (if innerDist \<noteq> 0 then softfloat_shortShiftRightJamM innerDist moved else moved) @ replicate wordDist 0
      in if wordJam then z[0 := z ! 0 OR 1] else z)"

end
