(* ===== verification/Softfloat_F64.thy ===== *)
theory Softfloat_F64
  imports Softfloat_F32 Softfloat_Words
begin

text \<open>
  Double precision: \<^verbatim>\<open>f64_add.c\<close>, \<^verbatim>\<open>s_addMagsF64.c\<close>, \<^verbatim>\<open>s_subMagsF64.c\<close>, \<^verbatim>\<open>f64_mul.c\<close>, \<^verbatim>\<open>f64_div.c\<close>,
  \<^verbatim>\<open>f64_sqrt.c\<close>, \<^verbatim>\<open>s_mulAddF64.c\<close>, the comparisons and \<^verbatim>\<open>f64_classify.c\<close>, and the conversions that the
  emulation uses. A product of 128 bits is a list of four words, the lowest first.
\<close>

section \<open>Addition\<close>

definition addMagsF64_end :: "nat \<Rightarrow> bool \<Rightarrow> int \<Rightarrow> u64 \<Rightarrow> u64 \<Rightarrow> u64 \<times> ulong" where
  "addMagsF64_end rm signZ expZ sigA sigB =
     (let sigZ = 0x2000000000000000 + sigA + sigB
      in if sigZ < 0x4000000000000000 then softfloat_roundPackToF64 rm signZ (expZ - 1) (push_bit 1 sigZ)
         else softfloat_roundPackToF64 rm signZ expZ sigZ)"

definition softfloat_addMagsF64 :: "nat \<Rightarrow> u64 \<Rightarrow> u64 \<Rightarrow> bool \<Rightarrow> u64 \<times> ulong" where
  "softfloat_addMagsF64 rm uiA uiB signZ =
     (let expA = expF64UI uiA; sigA = fracF64UI uiA; expB = expF64UI uiB; sigB = fracF64UI uiB;
          expDiff = expA - expB
      in if expDiff = 0 then
           if expA = 0 then (uiA + sigB, 0)
           else if expA = 0x7FF then
             if sigA OR sigB \<noteq> 0 then softfloat_propagateNaNF64UI uiA uiB else (uiA, 0)
           else
             let sigZ = 0x0020000000000000 + sigA + sigB
             in softfloat_roundPackToF64 rm signZ expA (push_bit 9 sigZ)
         else
           let sigA = push_bit 9 sigA; sigB = push_bit 9 sigB
           in if expDiff < 0 then
                if expB = 0x7FF then
                  if sigB \<noteq> 0 then softfloat_propagateNaNF64UI uiA uiB else (packToF64UI signZ 0x7FF 0, 0)
                else
                  let sigA = (if expA \<noteq> 0 then sigA + 0x2000000000000000 else push_bit 1 sigA);
                      sigA = softfloat_shiftRightJam64 sigA (nat (- expDiff))
                  in addMagsF64_end rm signZ expB sigA sigB
              else
                if expA = 0x7FF then
                  if sigA \<noteq> 0 then softfloat_propagateNaNF64UI uiA uiB else (uiA, 0)
                else
                  let sigB = (if expB \<noteq> 0 then sigB + 0x2000000000000000 else push_bit 1 sigB);
                      sigB = softfloat_shiftRightJam64 sigB (nat expDiff)
                  in addMagsF64_end rm signZ expA sigA sigB)"

definition softfloat_subMagsF64 :: "nat \<Rightarrow> u64 \<Rightarrow> u64 \<Rightarrow> bool \<Rightarrow> u64 \<times> ulong" where
  "softfloat_subMagsF64 rm uiA uiB signZ =
     (let expA = expF64UI uiA; sigA = fracF64UI uiA; expB = expF64UI uiB; sigB = fracF64UI uiB;
          expDiff = expA - expB
      in if expDiff = 0 then
           if expA = 0x7FF then
             if sigA OR sigB \<noteq> 0 then softfloat_propagateNaNF64UI uiA uiB
             else (defaultNaNF64UI, softfloat_flag_invalid)
           else
             let sigDiff = uint sigA - uint sigB
             in if sigDiff = 0 then (packToF64UI (rm = softfloat_round_min) 0 0, 0)
                else
                  let expA = (if expA \<noteq> 0 then expA - 1 else expA);
                      signZ = (if sigDiff < 0 then \<not> signZ else signZ);
                      sigDiff = word_of_int \<bar>sigDiff\<bar> :: u64;
                      shiftDist = int (softfloat_countLeadingZeros64 sigDiff) - 11;
                      expZ = expA - shiftDist;
                      shiftDist = (if expZ < 0 then expA else shiftDist);
                      expZ = (if expZ < 0 then 0 else expZ)
                  in (packToF64UI signZ expZ (push_bit (nat shiftDist) sigDiff), 0)
         else
           let sigA = push_bit 10 sigA; sigB = push_bit 10 sigB
           in if expDiff < 0 then
                let signZ = (\<not> signZ)
                in if expB = 0x7FF then
                     if sigB \<noteq> 0 then softfloat_propagateNaNF64UI uiA uiB else (packToF64UI signZ 0x7FF 0, 0)
                   else
                     let sigA = sigA + (if expA \<noteq> 0 then 0x4000000000000000 else sigA);
                         sigA = softfloat_shiftRightJam64 sigA (nat (- expDiff));
                         sigB = sigB OR 0x4000000000000000
                     in softfloat_normRoundPackToF64 rm signZ (expB - 1) (sigB - sigA)
              else
                if expA = 0x7FF then
                  if sigA \<noteq> 0 then softfloat_propagateNaNF64UI uiA uiB else (uiA, 0)
                else
                  let sigB = sigB + (if expB \<noteq> 0 then 0x4000000000000000 else sigB);
                      sigB = softfloat_shiftRightJam64 sigB (nat expDiff);
                      sigA = sigA OR 0x4000000000000000
                  in softfloat_normRoundPackToF64 rm signZ (expA - 1) (sigA - sigB))"

definition f64_add :: "nat \<Rightarrow> u64 \<Rightarrow> u64 \<Rightarrow> u64 \<times> ulong" where
  "f64_add rm a b =
     (if signF64UI a = signF64UI b then softfloat_addMagsF64 rm a b (signF64UI a)
      else softfloat_subMagsF64 rm a b (signF64UI a))"

section \<open>Multiplication\<close>

definition infArgF64 :: "bool \<Rightarrow> bool \<Rightarrow> u64 \<times> ulong" where
  "infArgF64 magBits signZ =
     (if \<not> magBits then (defaultNaNF64UI, softfloat_flag_invalid) else (packToF64UI signZ 0x7FF 0, 0))"

text \<open>The exponent and significand of an operand that is not zero.\<close>

definition normOperandF64 :: "int \<Rightarrow> u64 \<Rightarrow> int \<times> u64" where
  "normOperandF64 ex sig = (if ex = 0 then softfloat_normSubnormalF64Sig sig else (ex, sig))"

definition f64_mul :: "nat \<Rightarrow> u64 \<Rightarrow> u64 \<Rightarrow> u64 \<times> ulong" where
  "f64_mul rm a b =
     (let expA = expF64UI a; sigA = fracF64UI a; expB = expF64UI b; sigB = fracF64UI b;
          signZ = (signF64UI a \<noteq> signF64UI b)
      in if expA = 0x7FF then
           if sigA \<noteq> 0 \<or> expB = 0x7FF \<and> sigB \<noteq> 0 then softfloat_propagateNaNF64UI a b
           else infArgF64 (expB \<noteq> 0 \<or> sigB \<noteq> 0) signZ
         else if expB = 0x7FF then
           if sigB \<noteq> 0 then softfloat_propagateNaNF64UI a b
           else infArgF64 (expA \<noteq> 0 \<or> sigA \<noteq> 0) signZ
         else if expA = 0 \<and> sigA = 0 \<or> expB = 0 \<and> sigB = 0 then (packToF64UI signZ 0 0, 0)
         else
           let (expA, sigA) = normOperandF64 expA sigA;
               (expB, sigB) = normOperandF64 expB sigB;
               expZ = expA + expB - 0x3FF;
               sigA = push_bit 10 (sigA OR 0x0010000000000000);
               sigB = push_bit 11 (sigB OR 0x0010000000000000);
               sig128Z = softfloat_mul64To128M sigA sigB;
               sigZ = highWords sig128Z;
               sigZ = (if sig128Z ! 1 \<noteq> 0 \<or> sig128Z ! 0 \<noteq> 0 then sigZ OR 1 else sigZ)
           in if sigZ < 0x4000000000000000 then softfloat_roundPackToF64 rm signZ (expZ - 1) (push_bit 1 sigZ)
              else softfloat_roundPackToF64 rm signZ expZ sigZ)"

section \<open>Division and square root\<close>

definition f64_div :: "nat \<Rightarrow> u64 \<Rightarrow> u64 \<Rightarrow> u64 \<times> ulong" where
  "f64_div rm a b =
     (let expA = expF64UI a; sigA = fracF64UI a; expB = expF64UI b; sigB = fracF64UI b;
          signZ = (signF64UI a \<noteq> signF64UI b);
          invalid = (defaultNaNF64UI, softfloat_flag_invalid);
          infinity = packToF64UI signZ 0x7FF 0
      in if expA = 0x7FF then
           if sigA \<noteq> 0 then softfloat_propagateNaNF64UI a b
           else if expB = 0x7FF then if sigB \<noteq> 0 then softfloat_propagateNaNF64UI a b else invalid
           else (infinity, 0)
         else if expB = 0x7FF then
           if sigB \<noteq> 0 then softfloat_propagateNaNF64UI a b else (packToF64UI signZ 0 0, 0)
         else if expB = 0 \<and> sigB = 0 then
           if expA = 0 \<and> sigA = 0 then invalid else (infinity, softfloat_flag_infinite)
         else if expA = 0 \<and> sigA = 0 then (packToF64UI signZ 0 0, 0)
         else
           let (expB, sigB) = normOperandF64 expB sigB;
               (expA, sigA) = normOperandF64 expA sigA;
               expZ = expA - expB + 0x3FE;
               sigA = sigA OR 0x0010000000000000;
               sigB = sigB OR 0x0010000000000000;
               (expZ, sigA) = (if sigA < sigB then (expZ - 1, push_bit 11 sigA) else (expZ, push_bit 10 sigA));
               sigB = push_bit 11 sigB;
               sigB32 = ucast (drop_bit 32 sigB) :: u32;
               sigB4 = drop_bit 4 (ucast sigB) :: u32;
               recip32 = softfloat_approxRecip32_1 sigB32 - 2;
               sig32Z = ucast (drop_bit 32 (ucast (ucast (drop_bit 32 sigA) :: u32) * ucast recip32 :: u64)) :: u32;
               doubleTerm = push_bit 1 sig32Z;
               rem = push_bit 28 (sigA - ucast doubleTerm * ucast sigB32) - ucast doubleTerm * ucast sigB4 :: u64;
               q = ucast (drop_bit 32 (ucast (ucast (drop_bit 32 rem) :: u32) * ucast recip32 :: u64)) + 4 :: u32;
               sigZ = push_bit 32 (ucast sig32Z) + push_bit 4 (ucast q) :: u64;
               sigZ =
                 (if sigZ AND 0x1FF < 0x40 then
                    let q = q AND NOT 7;
                        sigZ = sigZ AND NOT 0x7F;
                        doubleTerm = push_bit 1 q;
                        rem = push_bit 28 (rem - ucast doubleTerm * ucast sigB32) - ucast doubleTerm * ucast sigB4
                    in if rem AND 0x8000000000000000 \<noteq> 0 then sigZ - 0x80
                       else if rem \<noteq> 0 then sigZ OR 1 else sigZ
                  else sigZ)
           in softfloat_roundPackToF64 rm signZ expZ sigZ)"

definition f64_sqrt :: "nat \<Rightarrow> u64 \<Rightarrow> u64 \<times> ulong" where
  "f64_sqrt rm a =
     (let signA = signF64UI a; expA = expF64UI a; sigA = fracF64UI a;
          invalid = (defaultNaNF64UI, softfloat_flag_invalid)
      in if expA = 0x7FF then
           if sigA \<noteq> 0 then softfloat_propagateNaNF64UI a 0
           else if \<not> signA then (a, 0) else invalid
         else if signA then if expA = 0 \<and> sigA = 0 then (a, 0) else invalid
         else if expA = 0 \<and> sigA = 0 then (a, 0)
         else
           let (expA, sigA) = normOperandF64 expA sigA;
               expZ = (expA - 0x3FF) div 2 + 0x3FE;
               oddExpA = nat (expA mod 2);
               sigA = sigA OR 0x0010000000000000;
               sig32A = ucast (drop_bit 21 sigA) :: u32;
               recipSqrt32 = softfloat_approxRecipSqrt32_1 oddExpA sig32A;
               sig32Z = ucast (drop_bit 32 (ucast sig32A * ucast recipSqrt32 :: u64)) :: u32;
               (sigA, sig32Z) = (if oddExpA \<noteq> 0 then (push_bit 8 sigA, drop_bit 1 sig32Z) else (push_bit 9 sigA, sig32Z));
               rem = sigA - ucast sig32Z * ucast sig32Z;
               q = ucast (drop_bit 32 (ucast (ucast (drop_bit 2 rem) :: u32) * ucast recipSqrt32 :: u64)) :: u32;
               sigZ = (push_bit 32 (ucast sig32Z) OR 0x20) + push_bit 3 (ucast q) :: u64;
               sigZ =
                 (if sigZ AND 0x1FF < 0x22 then
                    let sigZ = sigZ AND NOT 0x3F;
                        shiftedSigZ = drop_bit 6 sigZ;
                        rem = push_bit 52 sigA - shiftedSigZ * shiftedSigZ
                    in if rem AND 0x8000000000000000 \<noteq> 0 then sigZ - 1
                       else if rem \<noteq> 0 then sigZ OR 1 else sigZ
                  else sigZ)
           in softfloat_roundPackToF64 rm False expZ sigZ)"

section \<open>Fused multiplication and addition\<close>

text \<open>The function from the point where the product is not zero: \<open>sig128Z\<close> is the product,
  \<open>shiftDist\<close> is -1 if its top bit is not where it should be (and \<open>expZ\<close> already counts that). The
  label \<^verbatim>\<open>sigZ\<close> puts the sticky bit of the low words in; \<open>mulAddF64_norm\<close> is the end of the
  subtraction, where cancelled bits are shifted out.\<close>

definition mulAddF64_sigZ :: "nat \<Rightarrow> bool \<Rightarrow> int \<Rightarrow> u64 \<Rightarrow> u32 list \<Rightarrow> u64 \<times> ulong" where
  "mulAddF64_sigZ rm signZ expZ sigZ sig128Z =
     softfloat_roundPackToF64 rm signZ (expZ - 1)
       (if sig128Z ! 1 \<noteq> 0 \<or> sig128Z ! 0 \<noteq> 0 then sigZ OR 1 else sigZ)"

definition mulAddF64_norm :: "nat \<Rightarrow> bool \<Rightarrow> int \<Rightarrow> u32 list \<Rightarrow> u64 \<times> ulong" where
  "mulAddF64_norm rm signZ expZ sig128Z =
     (let sigZ = highWords sig128Z;
          (shiftDist, sigZ) = (if sigZ = 0 then (64, lowWords sig128Z) else (0, sigZ));
          shiftDist = shiftDist + int (softfloat_countLeadingZeros64 sigZ) - 1
      in if shiftDist \<noteq> 0 then
           let sig128Z = softfloat_shiftLeftM (nat shiftDist) sig128Z
           in mulAddF64_sigZ rm signZ (expZ - shiftDist) (highWords sig128Z) sig128Z
         else mulAddF64_sigZ rm signZ expZ sigZ sig128Z)"

definition mulAddF64_same ::
  "nat \<Rightarrow> bool \<Rightarrow> int \<Rightarrow> int \<Rightarrow> u64 \<Rightarrow> u32 list \<Rightarrow> u64 \<Rightarrow> u32 list \<Rightarrow> u64 \<times> ulong" where
  "mulAddF64_same rm signZ expDiff expZ sigZ sig128Z sigC sig128C =
     (let sig128Z = (if expDiff \<le> 0 then sig128Z else softfloat_addM sig128Z sig128C);
          sigZ = (if expDiff \<le> 0 then sigZ + sigC else highWords sig128Z)
      in if sigZ AND 0x8000000000000000 \<noteq> 0
         then mulAddF64_sigZ rm signZ (expZ + 1) (softfloat_shortShiftRightJam64 sigZ 1) sig128Z
         else mulAddF64_sigZ rm signZ expZ sigZ sig128Z)"

definition mulAddF64_opposite ::
  "nat \<Rightarrow> bool \<Rightarrow> bool \<Rightarrow> int \<Rightarrow> int \<Rightarrow> u64 \<Rightarrow> u32 list \<Rightarrow> u64 \<Rightarrow> u32 list \<Rightarrow> u64 \<times> ulong" where
  "mulAddF64_opposite rm signZ signC expDiff expZ sigZ sig128Z sigC sig128C =
     (if expDiff < -1 then
        let sigZ = sigC - sigZ;
            sigZ = (if sig128Z ! 1 \<noteq> 0 \<or> sig128Z ! 0 \<noteq> 0 then (sigZ - 1) OR 1 else sigZ)
        in if sigZ AND 0x4000000000000000 = 0
           then softfloat_roundPackToF64 rm signC (expZ - 1 - 1) (push_bit 1 sigZ)
           else softfloat_roundPackToF64 rm signC (expZ - 1) sigZ
      else if expDiff < 0 then mulAddF64_norm rm signC expZ (softfloat_subM (wordsOf128 sigC 0) sig128Z)
      else if expDiff = 0 then
        let sigZ = sigZ - sigC
        in if sigZ = 0 \<and> sig128Z ! 1 = 0 \<and> sig128Z ! 0 = 0
           then (packToF64UI (rm = softfloat_round_min) 0 0, 0)
           else
             let sig128Z = sig128Z[3 := ucast (drop_bit 32 sigZ), 2 := ucast sigZ]
             in if sigZ AND 0x8000000000000000 \<noteq> 0
                then mulAddF64_norm rm (\<not> signZ) expZ (softfloat_negXM sig128Z)
                else mulAddF64_norm rm signZ expZ sig128Z
      else
        let sig128Z = softfloat_subM sig128Z sig128C
        in if 1 < expDiff then
             let sigZ = highWords sig128Z
             in if sigZ AND 0x4000000000000000 = 0
                then mulAddF64_sigZ rm signZ (expZ - 1) (push_bit 1 sigZ) sig128Z
                else mulAddF64_sigZ rm signZ expZ sigZ sig128Z
           else mulAddF64_norm rm signZ expZ sig128Z)"

definition mulAddF64_sum ::
  "nat \<Rightarrow> bool \<Rightarrow> bool \<Rightarrow> int \<Rightarrow> int \<Rightarrow> u32 list \<Rightarrow> int \<Rightarrow> u64 \<Rightarrow> u64 \<times> ulong" where
  "mulAddF64_sum rm signZ signC shiftDist expZ sig128Z expC sigC =
     (let expDiff = expZ - expC; sigZ = highWords sig128Z
      in if expDiff < 0 then
           let (sigZ, sig128Z) =
             (if signZ = signC \<or> expDiff < -1 then
                (let shiftDist = shiftDist - expDiff
                 in (if shiftDist \<noteq> 0 then softfloat_shiftRightJam64 sigZ (nat shiftDist) else sigZ, sig128Z))
              else (sigZ, if shiftDist = 0 then softfloat_shortShiftRightM 1 sig128Z else sig128Z))
           in if signZ = signC then mulAddF64_same rm signZ expDiff expC sigZ sig128Z sigC []
              else mulAddF64_opposite rm signZ signC expDiff expC sigZ sig128Z sigC []
         else
           let sig128Z = (if shiftDist \<noteq> 0 then softfloat_addM sig128Z sig128Z else sig128Z);
               sigZ = (if expDiff = 0 then highWords sig128Z else sigZ);
               sig128C = (if expDiff = 0 then [] else softfloat_shiftRightJamM (nat expDiff) (wordsOf128 sigC 0))
           in if signZ = signC then mulAddF64_same rm signZ expDiff expZ sigZ sig128Z sigC sig128C
              else mulAddF64_opposite rm signZ signC expDiff expZ sigZ sig128Z sigC sig128C)"

definition softfloat_mulAddF64 :: "nat \<Rightarrow> u64 \<Rightarrow> u64 \<Rightarrow> u64 \<Rightarrow> nat \<Rightarrow> u64 \<times> ulong" where
  "softfloat_mulAddF64 rm uiA uiB uiC op =
     (let expA = expF64UI uiA; sigA = fracF64UI uiA; expB = expF64UI uiB; sigB = fracF64UI uiB;
          signC = (signF64UI uiC \<noteq> (op = 1)); expC = expF64UI uiC; sigC = fracF64UI uiC;
          signZ = ((signF64UI uiA \<noteq> signF64UI uiB) \<noteq> (op = 2));
          propagateNaN_ABC =
            (case softfloat_propagateNaNF64UI uiA uiB of (uiZ, w) \<Rightarrow>
               raising w (softfloat_propagateNaNF64UI uiZ uiC));
          infProdArg = (\<lambda>magBits.
            if magBits \<and> expC \<noteq> 0x7FF then (packToF64UI signZ 0x7FF 0, 0)
            else if magBits \<and> sigC \<noteq> 0 then softfloat_propagateNaNF64UI (packToF64UI signZ 0x7FF 0) uiC
            else if magBits \<and> signZ = signC then (packToF64UI signZ 0x7FF 0, 0)
            else raising softfloat_flag_invalid (softfloat_propagateNaNF64UI defaultNaNF64UI uiC))
      in if expA = 0x7FF then
           if sigA \<noteq> 0 \<or> expB = 0x7FF \<and> sigB \<noteq> 0 then propagateNaN_ABC
           else infProdArg (expB \<noteq> 0 \<or> sigB \<noteq> 0)
         else if expB = 0x7FF then
           if sigB \<noteq> 0 then propagateNaN_ABC else infProdArg (expA \<noteq> 0 \<or> sigA \<noteq> 0)
         else if expC = 0x7FF then
           if sigC \<noteq> 0 then softfloat_propagateNaNF64UI 0 uiC else (uiC, 0)
         else if expA = 0 \<and> sigA = 0 \<or> expB = 0 \<and> sigB = 0 then
           if expC = 0 \<and> sigC = 0 \<and> signZ \<noteq> signC then (packToF64UI (rm = softfloat_round_min) 0 0, 0)
           else (uiC, 0)
         else
           let (expA, sigA) = normOperandF64 expA sigA;
               (expB, sigB) = normOperandF64 expB sigB;
               expZ = expA + expB - 0x3FE;
               sigA = push_bit 10 (sigA OR 0x0010000000000000);
               sigB = push_bit 11 (sigB OR 0x0010000000000000);
               sig128Z = softfloat_mul64To128M sigA sigB;
               sigZ = highWords sig128Z;
               (expZ, shiftDist) = (if sigZ AND 0x4000000000000000 = 0 then (expZ - 1, -1) else (expZ, 0))
           in if expC = 0 \<and> sigC = 0 then
                mulAddF64_sigZ rm signZ expZ (if shiftDist \<noteq> 0 then push_bit 1 sigZ else sigZ) sig128Z
              else
                let (expC, sigC) = normOperandF64 expC sigC; sigC = push_bit 10 (sigC OR 0x0010000000000000)
                in mulAddF64_sum rm signZ signC shiftDist expZ sig128Z expC sigC)"

section \<open>Comparisons and classes\<close>

definition f64_eq :: "u64 \<Rightarrow> u64 \<Rightarrow> bool \<times> ulong" where
  "f64_eq a b =
     (if isNaNF64UI a \<or> isNaNF64UI b then
        (False, if softfloat_isSigNaNF64UI a \<or> softfloat_isSigNaNF64UI b then softfloat_flag_invalid else 0)
      else (a = b \<or> (a OR b) AND 0x7FFFFFFFFFFFFFFF = 0, 0))"

definition f64_less :: "u64 \<Rightarrow> u64 \<Rightarrow> bool" where
  "f64_less a b =
     (let signA = signF64UI a; signB = signF64UI b
      in if signA \<noteq> signB then signA \<and> (a OR b) AND 0x7FFFFFFFFFFFFFFF \<noteq> 0 else a \<noteq> b \<and> signA \<noteq> (a < b))"

definition f64_lt :: "u64 \<Rightarrow> u64 \<Rightarrow> bool \<times> ulong" where
  "f64_lt a b =
     (if isNaNF64UI a \<or> isNaNF64UI b then (False, softfloat_flag_invalid) else (f64_less a b, 0))"

definition f64_lt_quiet :: "u64 \<Rightarrow> u64 \<Rightarrow> bool \<times> ulong" where
  "f64_lt_quiet a b =
     (if isNaNF64UI a \<or> isNaNF64UI b then
        (False, if softfloat_isSigNaNF64UI a \<or> softfloat_isSigNaNF64UI b then softfloat_flag_invalid else 0)
      else (f64_less a b, 0))"

definition f64_classify :: "u64 \<Rightarrow> u32" where
  "f64_classify a =
     (let infOrNaN = (expF64UI a = 0x7FF); subnormalOrZero = (expF64UI a = 0); sign = signF64UI a
      in push_bit 0 (of_bool (sign \<and> infOrNaN \<and> fracF64UI a = 0))
         OR push_bit 1 (of_bool (sign \<and> \<not> infOrNaN \<and> \<not> subnormalOrZero))
         OR push_bit 2 (of_bool (sign \<and> subnormalOrZero \<and> fracF64UI a \<noteq> 0))
         OR push_bit 3 (of_bool (sign \<and> subnormalOrZero \<and> fracF64UI a = 0))
         OR push_bit 7 (of_bool (\<not> sign \<and> infOrNaN \<and> fracF64UI a = 0))
         OR push_bit 6 (of_bool (\<not> sign \<and> \<not> infOrNaN \<and> \<not> subnormalOrZero))
         OR push_bit 5 (of_bool (\<not> sign \<and> subnormalOrZero \<and> fracF64UI a \<noteq> 0))
         OR push_bit 4 (of_bool (\<not> sign \<and> subnormalOrZero \<and> fracF64UI a = 0))
         OR push_bit 8 (of_bool (isNaNF64UI a \<and> softfloat_isSigNaNF64UI a))
         OR push_bit 9 (of_bool (isNaNF64UI a \<and> \<not> softfloat_isSigNaNF64UI a)))"

section \<open>Conversions\<close>

definition f32_to_f64 :: "u32 \<Rightarrow> u64 \<times> ulong" where
  "f32_to_f64 a =
     (let sign = signF32UI a; ex = expF32UI a; frac = fracF32UI a
      in if ex = 0xFF then
           if frac \<noteq> 0 then (defaultNaNF64UI, if a AND 0x00400000 = 0 then softfloat_flag_invalid else 0)
           else (packToF64UI sign 0x7FF 0, 0)
         else if ex = 0 \<and> frac = 0 then (packToF64UI sign 0 0, 0)
         else
           let (ex, frac) = (if ex = 0 then (let (e, f) = softfloat_normSubnormalF32Sig frac in (e - 1, f)) else (ex, frac))
           in (packToF64UI sign (ex + 0x380) (push_bit 29 (ucast frac)), 0))"

definition f64_to_f32 :: "nat \<Rightarrow> u64 \<Rightarrow> u32 \<times> ulong" where
  "f64_to_f32 rm a =
     (let sign = signF64UI a; ex = expF64UI a; frac = fracF64UI a
      in if ex = 0x7FF then
           if frac \<noteq> 0 then (defaultNaNF32UI, if a AND 0x0008000000000000 = 0 then softfloat_flag_invalid else 0)
           else (packToF32UI sign 0xFF 0, 0)
         else
           let frac32 = ucast (softfloat_shortShiftRightJam64 frac 22) :: u32
           in if ex = 0 \<and> frac32 = 0 then (packToF32UI sign 0 0, 0)
              else softfloat_roundPackToF32 rm sign (ex - 0x381) (frac32 OR 0x40000000))"

definition ui64_to_f64 :: "nat \<Rightarrow> u64 \<Rightarrow> u64 \<times> ulong" where
  "ui64_to_f64 rm a =
     (if a = 0 then (0, 0)
      else if a AND 0x8000000000000000 \<noteq> 0
      then softfloat_roundPackToF64 rm False 0x43D (softfloat_shortShiftRightJam64 a 1)
      else softfloat_normRoundPackToF64 rm False 0x43C a)"

text \<open>A fixed-point number of three words, the lowest of them the fraction, to an integer.\<close>

definition softfloat_roundMToUI64 :: "bool \<Rightarrow> u32 list \<Rightarrow> nat \<Rightarrow> bool \<Rightarrow> u64 \<times> ulong" where
  "softfloat_roundMToUI64 sign extSig rm exact =
     (let sig = push_bit 32 (ucast (extSig ! 2)) OR ucast (extSig ! 1) :: u64;
          sigExtra = extSig ! 0;
          invalid = (if sign then 0 else 0xFFFFFFFFFFFFFFFF, softfloat_flag_invalid);
          return = (\<lambda>sig. if sign \<and> sig \<noteq> 0 then invalid
            else (sig, if sigExtra \<noteq> 0 \<and> exact then softfloat_flag_inexact else 0));
          increment = (let sig = sig + 1
            in if sig = 0 then invalid
               else return (if sigExtra = 0x80000000 \<and> rm = softfloat_round_near_even then sig AND NOT 1 else sig))
      in if rm = softfloat_round_near_maxMag \<or> rm = softfloat_round_near_even then
           if 0x80000000 \<le> sigExtra then increment else return sig
         else if sign then
           if sig = 0 \<and> sigExtra = 0 then (0, 0)
           else if rm = softfloat_round_min then invalid
           else return sig
         else if rm = softfloat_round_max \<and> sigExtra \<noteq> 0 then increment
         else return sig)"

definition f64_to_ui64 :: "u64 \<Rightarrow> nat \<Rightarrow> bool \<Rightarrow> u64 \<times> ulong" where
  "f64_to_ui64 a rm exact =
     (let sign = signF64UI a; ex = expF64UI a; sig = fracF64UI a;
          sig = (if ex \<noteq> 0 then sig OR 0x0010000000000000 else sig);
          shiftDist = 0x433 - ex
      in if shiftDist < -11 then
           (if ex = 0x7FF \<and> fracF64UI a \<noteq> 0 then 0xFFFFFFFFFFFFFFFF
            else if sign then 0 else 0xFFFFFFFFFFFFFFFF, softfloat_flag_invalid)
         else if shiftDist \<le> 0 then
           let sig = push_bit (nat (- shiftDist)) sig
           in softfloat_roundMToUI64 sign [0, ucast sig, ucast (drop_bit 32 sig)] rm exact
         else
           softfloat_roundMToUI64 sign
             (softfloat_shiftRightJamM (nat shiftDist) [0, ucast sig, ucast (drop_bit 32 sig)]) rm exact)"

end
