(* ===== verification/Sbi_Fp_Emulation.thy ===== *)
theory Sbi_Fp_Emulation
  imports Sbi_Trap_Handler Softfloat_F64
begin

text \<open>
  Floating-point instructions on a hart without a floating-point unit: \<^verbatim>\<open>lib/sbi/sbi_fp_emulation.c\<close>
  and the parts of \<^verbatim>\<open>sbi_illegal_insn.c\<close>, \<^verbatim>\<open>sbi_emulate_csr.c\<close> and \<^verbatim>\<open>sbi_misaligned_ldst.c\<close> that
  \<^verbatim>\<open>SBI_ENABLE_FP_EMULATION\<close> adds, in the build of \<^verbatim>\<open>platform/yuquan\<close> (RV64IMAC). The names with
  \<open>emu\<close> are the functions of that build that the other build has too. The program's floating-point
  control register lives in \<^verbatim>\<open>tp\<close> while the firmware runs. \<open>uninit\<close> is what an uninitialised local
  variable or output holds.
\<close>

record fp_state = ecall_state +
  tp :: "nat \<Rightarrow> ulong"
  uninit :: ulong

type_synonym 'a fp_flow = "(int \<times> sbi_trap_regs, 'a fp_state_scheme) flow"

section \<open>The control register\<close>

definition set_tp :: "nat \<Rightarrow> ulong \<Rightarrow> 'a fp_state_scheme \<Rightarrow> 'a fp_state_scheme" where
  "set_tp h v s = s\<lparr>tp := (tp s)(h := v)\<rparr>"

definition softfloat_raiseFlags :: "nat \<Rightarrow> ulong \<Rightarrow> 'a fp_state_scheme \<Rightarrow> 'a fp_state_scheme" where
  "softfloat_raiseFlags h which s = set_tp h (tp s h OR which) s"

definition softfloat_roundingMode :: "nat \<Rightarrow> 'a fp_state_scheme \<Rightarrow> nat" where
  "softfloat_roundingMode h s = unat (signed_drop_bit 13 (ucast (tp s h) :: u32))"

definition SET_FS_DIRTY :: "nat \<Rightarrow> 'a fp_state_scheme \<Rightarrow> 'a fp_state_scheme" where
  "SET_FS_DIRTY h s = csr_set h CSR_MSTATUS MSTATUS_FS s"

definition GET_FCSR :: "nat \<Rightarrow> 'a fp_state_scheme \<Rightarrow> ulong" where
  "GET_FCSR h s = tp s h AND 0xFF"

definition SET_FCSR :: "nat \<Rightarrow> ulong \<Rightarrow> 'a fp_state_scheme \<Rightarrow> 'a fp_state_scheme" where
  "SET_FCSR h v s = SET_FS_DIRTY h (set_tp h (v AND 0xFF) s)"

definition GET_FRM :: "nat \<Rightarrow> 'a fp_state_scheme \<Rightarrow> ulong" where
  "GET_FRM h s = drop_bit 5 (GET_FCSR h s)"

definition GET_FFLAGS :: "nat \<Rightarrow> 'a fp_state_scheme \<Rightarrow> ulong" where
  "GET_FFLAGS h s = GET_FCSR h s AND 0x1F"

definition SET_FRM :: "nat \<Rightarrow> ulong \<Rightarrow> 'a fp_state_scheme \<Rightarrow> 'a fp_state_scheme" where
  "SET_FRM h v s = SET_FCSR h (GET_FFLAGS h s OR push_bit 5 v) s"

definition SET_FFLAGS :: "nat \<Rightarrow> ulong \<Rightarrow> 'a fp_state_scheme \<Rightarrow> 'a fp_state_scheme" where
  "SET_FFLAGS h v s = SET_FCSR h (push_bit 5 (GET_FRM h s) OR (v AND 0x1F)) s"

text \<open>The rounding mode of the instruction goes to the bits from 13 on; without a mode (\<open>False\<close>) the
  instruction is illegal.\<close>

definition SETUP_STATIC_ROUNDING :: "nat \<Rightarrow> ulong \<Rightarrow> 'a fp_state_scheme \<Rightarrow> bool \<times> 'a fp_state_scheme" where
  "SETUP_STATIC_ROUNDING h insn s =
     (let s = set_tp h (tp s h AND 0xFF) s in
      if insn AND 0x7000 = 0x7000 then (True, set_tp h (tp s h OR push_bit 8 (tp s h)) s)
      else if 4 < GET_RM insn then (False, s)
      else (True, set_tp h (tp s h OR push_bit 13 (of_nat (GET_RM insn))) s))"

section \<open>The registers\<close>

definition GET_PRECISION :: "ulong \<Rightarrow> nat" where "GET_PRECISION insn = RV_X insn 25 2"

abbreviation (input) PRECISION_S :: nat where "PRECISION_S \<equiv> 0"
abbreviation (input) PRECISION_D :: nat where "PRECISION_D \<equiv> 1"

text \<open>The byte address of \<^verbatim>\<open>GET_F64_REG\<close>: the addition to \<^verbatim>\<open>regs\<close> counts whole trap frames, of 35
  words each. In the rest of the model the registers are the file \<open>fpr\<close>.\<close>

definition GET_F64_REG_addr :: "ulong \<Rightarrow> nat \<Rightarrow> ulong \<Rightarrow> ulong" where
  "GET_F64_REG_addr insn pos regs = regs + 35 * (35 * 8) + 8 * of_nat (REG_PTR insn pos)"

definition emu_get_f64 :: "nat \<Rightarrow> ulong \<Rightarrow> nat \<Rightarrow> 'a fp_state_scheme \<Rightarrow> u64" where
  "emu_get_f64 h insn pos s = fpr s h (REG_PTR insn pos)"

definition emu_get_f32 :: "nat \<Rightarrow> ulong \<Rightarrow> nat \<Rightarrow> 'a fp_state_scheme \<Rightarrow> u32" where
  "emu_get_f32 h insn pos s = ucast (emu_get_f64 h insn pos s)"

definition SET_F64_RD :: "nat \<Rightarrow> ulong \<Rightarrow> u64 \<Rightarrow> 'a fp_state_scheme \<Rightarrow> 'a fp_state_scheme" where
  "SET_F64_RD h insn v s = SET_FS_DIRTY h (set_fpr h (REG_PTR insn 7) v s)"

text \<open>Only the lower half is written.\<close>

definition SET_F32_RD :: "nat \<Rightarrow> ulong \<Rightarrow> u32 \<Rightarrow> 'a fp_state_scheme \<Rightarrow> 'a fp_state_scheme" where
  "SET_F32_RD h insn v s =
     (let r = REG_PTR insn 7
      in SET_FS_DIRTY h (set_fpr h r ((fpr s h r AND 0xFFFFFFFF00000000) OR ucast v) s))"

text \<open>A result with the flags that its computation raises.\<close>

definition fp_result64 :: "nat \<Rightarrow> ulong \<Rightarrow> u64 \<times> ulong \<Rightarrow> 'a fp_state_scheme \<Rightarrow> 'a fp_state_scheme" where
  "fp_result64 h insn r s = SET_F64_RD h insn (fst r) (softfloat_raiseFlags h (snd r) s)"

definition fp_result32 :: "nat \<Rightarrow> ulong \<Rightarrow> u32 \<times> ulong \<Rightarrow> 'a fp_state_scheme \<Rightarrow> 'a fp_state_scheme" where
  "fp_result32 h insn r s = SET_F32_RD h insn (fst r) (softfloat_raiseFlags h (snd r) s)"

definition int_result :: "nat \<Rightarrow> ulong \<Rightarrow> ulong \<Rightarrow> sbi_trap_regs \<Rightarrow> 'a fp_state_scheme \<Rightarrow> 'a fp_flow" where
  "int_result h insn v regs s = Ret (0, SET_RD insn v regs) (SET_FS_DIRTY h s)"

section \<open>The instructions\<close>

text \<open>The two precisions of an instruction; any other is illegal.\<close>

definition emulate_any_fadd :: "nat \<Rightarrow> ulong \<Rightarrow> sbi_trap_regs \<Rightarrow> u32 \<Rightarrow> 'a fp_state_scheme \<Rightarrow> 'a fp_flow" where
  "emulate_any_fadd h insn regs neg_b s =
     (let rm = softfloat_roundingMode h s in
      if GET_PRECISION insn = PRECISION_S then
        Ret (0, regs) (fp_result32 h insn (f32_add rm (emu_get_f32 h insn 15 s) (emu_get_f32 h insn 20 s XOR neg_b)) s)
      else if GET_PRECISION insn = PRECISION_D then
        Ret (0, regs) (fp_result64 h insn
          (f64_add rm (emu_get_f64 h insn 15 s) (emu_get_f64 h insn 20 s XOR push_bit 32 (scast neg_b))) s)
      else truly_illegal_insn h insn regs s)"

definition emulate_fadd :: "nat \<Rightarrow> ulong \<Rightarrow> sbi_trap_regs \<Rightarrow> 'a fp_state_scheme \<Rightarrow> 'a fp_flow" where
  "emulate_fadd h insn regs s = emulate_any_fadd h insn regs 0 s"

definition emulate_fsub :: "nat \<Rightarrow> ulong \<Rightarrow> sbi_trap_regs \<Rightarrow> 'a fp_state_scheme \<Rightarrow> 'a fp_flow" where
  "emulate_fsub h insn regs s = emulate_any_fadd h insn regs 0x80000000 s"

definition emulate_fmul :: "nat \<Rightarrow> ulong \<Rightarrow> sbi_trap_regs \<Rightarrow> 'a fp_state_scheme \<Rightarrow> 'a fp_flow" where
  "emulate_fmul h insn regs s =
     (let rm = softfloat_roundingMode h s in
      if GET_PRECISION insn = PRECISION_S then
        Ret (0, regs) (fp_result32 h insn (f32_mul rm (emu_get_f32 h insn 15 s) (emu_get_f32 h insn 20 s)) s)
      else if GET_PRECISION insn = PRECISION_D then
        Ret (0, regs) (fp_result64 h insn (f64_mul rm (emu_get_f64 h insn 15 s) (emu_get_f64 h insn 20 s)) s)
      else truly_illegal_insn h insn regs s)"

definition emulate_fdiv :: "nat \<Rightarrow> ulong \<Rightarrow> sbi_trap_regs \<Rightarrow> 'a fp_state_scheme \<Rightarrow> 'a fp_flow" where
  "emulate_fdiv h insn regs s =
     (let rm = softfloat_roundingMode h s in
      if GET_PRECISION insn = PRECISION_S then
        Ret (0, regs) (fp_result32 h insn (f32_div rm (emu_get_f32 h insn 15 s) (emu_get_f32 h insn 20 s)) s)
      else if GET_PRECISION insn = PRECISION_D then
        Ret (0, regs) (fp_result64 h insn (f64_div rm (emu_get_f64 h insn 15 s) (emu_get_f64 h insn 20 s)) s)
      else truly_illegal_insn h insn regs s)"

definition emulate_fsqrt :: "nat \<Rightarrow> ulong \<Rightarrow> sbi_trap_regs \<Rightarrow> 'a fp_state_scheme \<Rightarrow> 'a fp_flow" where
  "emulate_fsqrt h insn regs s =
     (let rm = softfloat_roundingMode h s in
      if RV_X insn 20 5 \<noteq> 0 then truly_illegal_insn h insn regs s
      else if GET_PRECISION insn = PRECISION_S then
        Ret (0, regs) (fp_result32 h insn (f32_sqrt rm (emu_get_f32 h insn 15 s)) s)
      else if GET_PRECISION insn = PRECISION_D then
        Ret (0, regs) (fp_result64 h insn (f64_sqrt rm (emu_get_f64 h insn 15 s)) s)
      else truly_illegal_insn h insn regs s)"

text \<open>\<^verbatim>\<open>DO_FSGNJ\<close>: copied, inverted or exclusive-or sign.\<close>

definition DO_FSGNJ32 :: "u32 \<Rightarrow> u32 \<Rightarrow> nat \<Rightarrow> u32" where
  "DO_FSGNJ32 rs1 rs2 rm =
     (let rs1_sign = drop_bit 31 rs1; rs2_sign = drop_bit 31 rs2;
          rs1_sign = rs1_sign AND of_nat (rm div 2);
          rs1_sign = rs1_sign XOR (of_nat rm XOR rs2_sign)
      in drop_bit 1 (push_bit 1 rs1) OR push_bit 31 rs1_sign)"

definition DO_FSGNJ64 :: "u64 \<Rightarrow> u64 \<Rightarrow> nat \<Rightarrow> u64" where
  "DO_FSGNJ64 rs1 rs2 rm =
     (let rs1_sign = drop_bit 63 rs1; rs2_sign = drop_bit 63 rs2;
          rs1_sign = rs1_sign AND of_nat (rm div 2);
          rs1_sign = rs1_sign XOR (of_nat rm XOR rs2_sign)
      in drop_bit 1 (push_bit 1 rs1) OR push_bit 63 rs1_sign)"

definition emulate_fsgnj :: "nat \<Rightarrow> ulong \<Rightarrow> sbi_trap_regs \<Rightarrow> 'a fp_state_scheme \<Rightarrow> 'a fp_flow" where
  "emulate_fsgnj h insn regs s =
     (let rm = GET_RM insn in
      if 3 \<le> rm then truly_illegal_insn h insn regs s
      else if GET_PRECISION insn = PRECISION_S then
        Ret (0, regs) (SET_F32_RD h insn (DO_FSGNJ32 (emu_get_f32 h insn 15 s) (emu_get_f32 h insn 20 s) rm) s)
      else if GET_PRECISION insn = PRECISION_D then
        Ret (0, regs) (SET_F64_RD h insn (DO_FSGNJ64 (emu_get_f64 h insn 15 s) (emu_get_f64 h insn 20 s) rm) s)
      else truly_illegal_insn h insn regs s)"

definition fmin32 :: "bool \<Rightarrow> u32 \<Rightarrow> u32 \<Rightarrow> u32 \<times> ulong" where
  "fmin32 rm rs1 rs2 =
     (let arg1 = (if rm then rs2 else rs1); arg2 = (if rm then rs1 else rs2);
          (less, raised) = f32_lt_quiet arg1 arg2
      in (if less \<or> isNaNF32UI rs2 then rs1 else rs2, raised))"

definition fmin64 :: "bool \<Rightarrow> u64 \<Rightarrow> u64 \<Rightarrow> u64 \<times> ulong" where
  "fmin64 rm rs1 rs2 =
     (let arg1 = (if rm then rs2 else rs1); arg2 = (if rm then rs1 else rs2);
          (less, raised) = f64_lt_quiet arg1 arg2
      in (if less \<or> isNaNF64UI rs2 then rs1 else rs2, raised))"

definition emulate_fmin :: "nat \<Rightarrow> ulong \<Rightarrow> sbi_trap_regs \<Rightarrow> 'a fp_state_scheme \<Rightarrow> 'a fp_flow" where
  "emulate_fmin h insn regs s =
     (let rm = GET_RM insn in
      if 2 \<le> rm then truly_illegal_insn h insn regs s
      else if GET_PRECISION insn = PRECISION_S then
        Ret (0, regs) (fp_result32 h insn (fmin32 (rm \<noteq> 0) (emu_get_f32 h insn 15 s) (emu_get_f32 h insn 20 s)) s)
      else if GET_PRECISION insn = PRECISION_D then
        Ret (0, regs) (fp_result64 h insn (fmin64 (rm \<noteq> 0) (emu_get_f64 h insn 15 s) (emu_get_f64 h insn 20 s)) s)
      else truly_illegal_insn h insn regs s)"

section \<open>Conversions\<close>

definition emulate_fcvt_ff :: "nat \<Rightarrow> ulong \<Rightarrow> sbi_trap_regs \<Rightarrow> 'a fp_state_scheme \<Rightarrow> 'a fp_flow" where
  "emulate_fcvt_ff h insn regs s =
     (let rs2_num = RV_X insn 20 5 in
      if GET_PRECISION insn = PRECISION_S then
        if rs2_num \<noteq> 1 then truly_illegal_insn h insn regs s
        else Ret (0, regs) (fp_result32 h insn (f64_to_f32 (softfloat_roundingMode h s) (emu_get_f64 h insn 15 s)) s)
      else if GET_PRECISION insn = PRECISION_D then
        if rs2_num \<noteq> 0 then truly_illegal_insn h insn regs s
        else Ret (0, regs) (fp_result64 h insn (f32_to_f64 (emu_get_f32 h insn 15 s)) s)
      else truly_illegal_insn h insn regs s)"

text \<open>The sign and the magnitude of the integer that \<^verbatim>\<open>rs2\<close> says the operand is.\<close>

definition fcvt_fi_operand :: "nat \<Rightarrow> u64 \<Rightarrow> (bool \<times> u64) option" where
  "fcvt_fi_operand kind uint_val =
     (if kind = 0 then
        let negative = ((ucast uint_val :: u32) <s 0)
        in Some (negative, ucast (ucast (if negative then - uint_val else uint_val) :: u32))
      else if kind = 1 then Some (False, ucast (ucast uint_val :: u32))
      else if kind = 2 then
        let negative = (uint_val <s 0) in Some (negative, if negative then - uint_val else uint_val)
      else if kind = 3 then Some (False, uint_val)
      else None)"

definition fcvt_from_int64 :: "nat \<Rightarrow> bool \<times> u64 \<Rightarrow> u64 \<times> ulong" where
  "fcvt_from_int64 rm operand =
     (case operand of (negative, uint_val) \<Rightarrow>
        case ui64_to_f64 rm uint_val of (v, raised) \<Rightarrow>
          (if negative then v XOR 0x8000000000000000 else v, raised))"

definition emulate_fcvt_fi :: "nat \<Rightarrow> ulong \<Rightarrow> sbi_trap_regs \<Rightarrow> 'a fp_state_scheme \<Rightarrow> 'a fp_flow" where
  "emulate_fcvt_fi h insn regs s =
     (let rm = softfloat_roundingMode h s in
      if GET_PRECISION insn \<noteq> PRECISION_S \<and> GET_PRECISION insn \<noteq> PRECISION_D
      then truly_illegal_insn h insn regs s
      else case fcvt_fi_operand (RV_X insn 20 5) (GET_RS1 insn regs) of
        None \<Rightarrow> truly_illegal_insn h insn regs s
      | Some operand \<Rightarrow>
          (case fcvt_from_int64 rm operand of (float64, raised) \<Rightarrow>
             if GET_PRECISION insn = PRECISION_S
             then Ret (0, regs) (fp_result32 h insn (raising raised (f64_to_f32 rm float64)) s)
             else Ret (0, regs) (fp_result64 h insn (float64, raised) s)))"

text \<open>The integer that \<^verbatim>\<open>rs2\<close> asks for, from the sign of the number and its rounded magnitude.\<close>

definition fcvt_if_result :: "nat \<Rightarrow> bool \<Rightarrow> u64 \<Rightarrow> ulong \<times> ulong" where
  "fcvt_if_result kind negative uint_val =
     (let (result, limit, limit_result) =
        (if kind = 0 then
           if negative then (scast (ucast (- uint_val) :: u32), 0x80000000, 0x80000000)
           else (scast (ucast uint_val :: u32), 0x7FFFFFFF, 0x7FFFFFFF)
         else if kind = 1 then
           if negative then (0, 0, 0xFFFFFFFF) else (ucast (ucast uint_val :: u32), 0xFFFFFFFF, 0xFFFFFFFF)
         else if kind = 2 then
           if negative then (- uint_val, 0x8000000000000000, 0x8000000000000000)
           else (uint_val, 0x7FFFFFFFFFFFFFFF, 0x7FFFFFFFFFFFFFFF)
         else
           if negative then (0, 0, 0xFFFFFFFFFFFFFFFF) else (uint_val, 0xFFFFFFFFFFFFFFFF, 0xFFFFFFFFFFFFFFFF))
      in if limit < uint_val then (limit_result, softfloat_flag_invalid) else (result, 0))"

definition fcvt_to_int :: "nat \<Rightarrow> nat \<Rightarrow> u64 \<Rightarrow> ulong \<times> ulong" where
  "fcvt_to_int rm kind float64 =
     (let negative = (float64 <s 0);
          float64 = (if negative then float64 XOR 0x8000000000000000 else float64);
          (uint_val, raised) = f64_to_ui64 float64 rm True
      in raising raised (fcvt_if_result kind negative uint_val))"

definition emulate_fcvt_if :: "nat \<Rightarrow> ulong \<Rightarrow> sbi_trap_regs \<Rightarrow> 'a fp_state_scheme \<Rightarrow> 'a fp_flow" where
  "emulate_fcvt_if h insn regs s =
     (let rs2_num = RV_X insn 20 5; rm = softfloat_roundingMode h s in
      if 4 \<le> rs2_num then truly_illegal_insn h insn regs s
      else if GET_PRECISION insn \<noteq> PRECISION_S \<and> GET_PRECISION insn \<noteq> PRECISION_D
      then truly_illegal_insn h insn regs s
      else
        let (float64, raised0) = (if GET_PRECISION insn = PRECISION_S then f32_to_f64 (emu_get_f32 h insn 15 s)
                                  else (emu_get_f64 h insn 15 s, 0));
            (result, raised) = raising raised0 (fcvt_to_int rm rs2_num float64)
        in int_result h insn result regs (softfloat_raiseFlags h raised s))"

section \<open>Comparisons, classes and moves\<close>

text \<open>The result of \<^verbatim>\<open>feq\<close>, \<^verbatim>\<open>flt\<close> or \<^verbatim>\<open>fle\<close> (\<^verbatim>\<open>rm\<close> 2, 1 or 0) from the two comparisons, the second one
  made only where the first does not decide.\<close>

definition fcmp_result :: "nat \<Rightarrow> bool \<times> ulong \<Rightarrow> bool \<times> ulong \<Rightarrow> bool \<times> ulong" where
  "fcmp_result rm eq lt =
     (if rm = 1 then lt
      else if rm = 0 \<and> \<not> fst eq then raising (snd eq) lt
      else eq)"

definition emulate_fcmp :: "nat \<Rightarrow> ulong \<Rightarrow> sbi_trap_regs \<Rightarrow> 'a fp_state_scheme \<Rightarrow> 'a fp_flow" where
  "emulate_fcmp h insn regs s =
     (let rm = GET_RM insn in
      if 3 \<le> rm then truly_illegal_insn h insn regs s
      else if GET_PRECISION insn = PRECISION_S then
        let rs1 = emu_get_f32 h insn 15 s; rs2 = emu_get_f32 h insn 20 s;
            (result, raised) = fcmp_result rm (f32_eq rs1 rs2) (f32_lt rs1 rs2)
        in int_result h insn (of_bool result) regs (softfloat_raiseFlags h raised s)
      else if GET_PRECISION insn = PRECISION_D then
        let rs1 = emu_get_f64 h insn 15 s; rs2 = emu_get_f64 h insn 20 s;
            (result, raised) = fcmp_result rm (f64_eq rs1 rs2) (f64_lt rs1 rs2)
        in int_result h insn (of_bool result) regs (softfloat_raiseFlags h raised s)
      else truly_illegal_insn h insn regs s)"

definition emulate_fmv_if :: "nat \<Rightarrow> ulong \<Rightarrow> sbi_trap_regs \<Rightarrow> 'a fp_state_scheme \<Rightarrow> 'a fp_flow" where
  "emulate_fmv_if h insn regs s =
     (if RV_X insn 20 5 \<noteq> 0 then truly_illegal_insn h insn regs s
      else if GET_PRECISION insn = PRECISION_S then
        let result = emu_get_f32 h insn 15 s
        in if GET_RM insn = 0 then int_result h insn (scast result) regs s
           else if GET_RM insn = 1 then int_result h insn (ucast (f32_classify result)) regs s
           else truly_illegal_insn h insn regs s
      else if GET_PRECISION insn = PRECISION_D then
        let result = emu_get_f64 h insn 15 s
        in if GET_RM insn = 0 then int_result h insn result regs s
           else if GET_RM insn = 1 then int_result h insn (ucast (f64_classify result)) regs s
           else truly_illegal_insn h insn regs s
      else truly_illegal_insn h insn regs s)"

definition emulate_fmv_fi :: "nat \<Rightarrow> ulong \<Rightarrow> sbi_trap_regs \<Rightarrow> 'a fp_state_scheme \<Rightarrow> 'a fp_flow" where
  "emulate_fmv_fi h insn regs s =
     (let rs1 = GET_RS1 insn regs in
      if insn AND 0xFFF0707F = 0xF0000053 then Ret (0, regs) (SET_F32_RD h insn (ucast rs1) s)
      else if insn AND 0xFFF0707F = 0xF2000053 then Ret (0, regs) (SET_F64_RD h insn rs1 s)
      else truly_illegal_insn h insn regs s)"

section \<open>The opcodes\<close>

definition fp_emulation_table ::
  "nat \<Rightarrow> nat \<Rightarrow> ulong \<Rightarrow> sbi_trap_regs \<Rightarrow> 'a fp_state_scheme \<Rightarrow> 'a fp_flow" where
  "fp_emulation_table h i =
     (if i = 0 then emulate_fadd h else if i = 1 then emulate_fsub h
      else if i = 2 then emulate_fmul h else if i = 3 then emulate_fdiv h
      else if i = 4 then emulate_fsgnj h else if i = 5 then emulate_fmin h
      else if i = 8 then emulate_fcvt_ff h else if i = 11 then emulate_fsqrt h
      else if i = 20 then emulate_fcmp h else if i = 24 then emulate_fcvt_if h
      else if i = 26 then emulate_fcvt_fi h else if i = 28 then emulate_fmv_if h
      else if i = 30 then emulate_fmv_fi h else truly_illegal_insn h)"

abbreviation (input) advance :: "ulong \<Rightarrow> sbi_trap_regs \<Rightarrow> sbi_trap_regs" where
  "advance n regs \<equiv> regs\<lparr>mepc := mepc regs + n\<rparr>"

definition fp_opcode_insn :: "nat \<Rightarrow> ulong \<Rightarrow> sbi_trap_regs \<Rightarrow> 'a fp_state_scheme \<Rightarrow> 'a fp_flow" where
  "fp_opcode_insn h insn regs s =
     (if mstatus regs AND MSTATUS_FS = 0 then truly_illegal_insn h insn regs s
      else case SETUP_STATIC_ROUNDING h insn s of (ok, s) \<Rightarrow>
        if \<not> ok then truly_illegal_insn h insn regs s
        else
          flow_bind (fp_emulation_table h (RV_X insn 27 5) insn regs s) (\<lambda>(ret, regs) s.
            Ret (ret, advance 4 regs) s))"

definition fmadd_opcode_insn :: "nat \<Rightarrow> ulong \<Rightarrow> sbi_trap_regs \<Rightarrow> 'a fp_state_scheme \<Rightarrow> 'a fp_flow" where
  "fmadd_opcode_insn h insn regs s =
     (if mstatus regs AND MSTATUS_FS = 0 then truly_illegal_insn h insn regs s
      else
        let negA = bit insn 3; negC = bit insn 2 in
        case SETUP_STATIC_ROUNDING h insn s of (ok, s) \<Rightarrow>
        if \<not> ok then truly_illegal_insn h insn regs s
        else
          let rm = softfloat_roundingMode h s in
          if GET_PRECISION insn = PRECISION_S then
            let rs1 = emu_get_f32 h insn 15 s XOR (if negA then 0x80000000 else 0);
                rs2 = emu_get_f32 h insn 20 s;
                rs3 = emu_get_f32 h insn 27 s XOR (if negC then 0x80000000 else 0)
            in Ret (0, advance 4 regs) (fp_result32 h insn (softfloat_mulAddF32 rm rs1 rs2 rs3 0) s)
          else if GET_PRECISION insn = PRECISION_D then
            let rs1 = emu_get_f64 h insn 15 s XOR (if negA then 0x8000000000000000 else 0);
                rs2 = emu_get_f64 h insn 20 s;
                rs3 = emu_get_f64 h insn 27 s XOR (if negC then 0x8000000000000000 else 0)
            in Ret (0, advance 4 regs) (fp_result64 h insn (softfloat_mulAddF64 rm rs1 rs2 rs3 0) s)
          else truly_illegal_insn h insn regs s)"

text \<open>\<^verbatim>\<open>emulate_fmadd\<close>, which no table refers to, is the same function without the step of the program counter.\<close>

definition emulate_fmadd :: "nat \<Rightarrow> ulong \<Rightarrow> sbi_trap_regs \<Rightarrow> 'a fp_state_scheme \<Rightarrow> 'a fp_flow" where
  "emulate_fmadd h insn regs s =
     (if mstatus regs AND MSTATUS_FS = 0 then truly_illegal_insn h insn regs s
      else
        let negA = bit insn 3; negC = bit insn 2 in
        case SETUP_STATIC_ROUNDING h insn s of (ok, s) \<Rightarrow>
        if \<not> ok then truly_illegal_insn h insn regs s
        else
          let rm = softfloat_roundingMode h s in
          if GET_PRECISION insn = PRECISION_S then
            let rs1 = emu_get_f32 h insn 15 s XOR (if negA then 0x80000000 else 0);
                rs2 = emu_get_f32 h insn 20 s;
                rs3 = emu_get_f32 h insn 27 s XOR (if negC then 0x80000000 else 0)
            in Ret (0, regs) (fp_result32 h insn (softfloat_mulAddF32 rm rs1 rs2 rs3 0) s)
          else if GET_PRECISION insn = PRECISION_D then
            let rs1 = emu_get_f64 h insn 15 s XOR (if negA then 0x8000000000000000 else 0);
                rs2 = emu_get_f64 h insn 20 s;
                rs3 = emu_get_f64 h insn 27 s XOR (if negC then 0x8000000000000000 else 0)
            in Ret (0, regs) (fp_result64 h insn (softfloat_mulAddF64 rm rs1 rs2 rs3 0) s)
          else truly_illegal_insn h insn regs s)"

section \<open>Loads and stores\<close>

definition IMM_I :: "ulong \<Rightarrow> ulong" where
  "IMM_I insn = scast (signed_drop_bit 20 (ucast insn :: u32))"

definition IMM_S :: "ulong \<Rightarrow> ulong" where
  "IMM_S insn = scast (push_bit 5 (signed_drop_bit 25 (ucast insn :: u32)) OR ucast (drop_bit 7 insn AND 0x1F))"

text \<open>What a load gives that faults is not defined.\<close>

definition emu_load :: "nat \<Rightarrow> nat \<Rightarrow> ulong \<Rightarrow> 'a fp_state_scheme \<Rightarrow> ulong \<times> sbi_trap_info" where
  "emu_load len h addr s =
     (case unpriv_load len h addr trap_info_zero s of (v, t) \<Rightarrow>
        (if cause t \<noteq> 0 then uninit s else v, t))"

definition sbi_load_u64 :: "nat \<Rightarrow> ulong \<Rightarrow> 'a fp_state_scheme \<Rightarrow> u64 \<times> sbi_trap_info" where
  "sbi_load_u64 h addr s = emu_load 8 h addr s"

definition sbi_load_s32 :: "nat \<Rightarrow> ulong \<Rightarrow> 'a fp_state_scheme \<Rightarrow> u32 \<times> sbi_trap_info" where
  "sbi_load_s32 h addr s = (case emu_load 4 h addr s of (v, t) \<Rightarrow> (ucast v, t))"

fun store_bytes :: "nat \<Rightarrow> ulong \<Rightarrow> ulong \<Rightarrow> (ulong \<Rightarrow> u8) \<Rightarrow> (ulong \<Rightarrow> u8)" where
  "store_bytes 0 addr v m = m"
| "store_bytes (Suc n) addr v m = store_bytes n (addr + 1) (drop_bit 8 v) (m(addr := ucast v))"

definition unpriv_store ::
  "nat \<Rightarrow> nat \<Rightarrow> ulong \<Rightarrow> ulong \<Rightarrow> sbi_trap_info \<Rightarrow> 'a umem_state_scheme
     \<Rightarrow> sbi_trap_info \<times> 'a umem_state_scheme" where
  "unpriv_store len h addr v trap s =
     (case ufault s h True addr len of
        Some t \<Rightarrow> (t, s)
      | None \<Rightarrow> (trap\<lparr>cause := 0\<rparr>, s\<lparr>umem := store_bytes len addr v (umem s)\<rparr>))"

definition sbi_store_u32 :: "nat \<Rightarrow> ulong \<Rightarrow> u32 \<Rightarrow> 'a fp_state_scheme \<Rightarrow> sbi_trap_info \<times> 'a fp_state_scheme" where
  "sbi_store_u32 h addr v s = unpriv_store 4 h addr (ucast v) trap_info_zero s"

definition sbi_store_u64 :: "nat \<Rightarrow> ulong \<Rightarrow> u64 \<Rightarrow> 'a fp_state_scheme \<Rightarrow> sbi_trap_info \<times> 'a fp_state_scheme" where
  "sbi_store_u64 h addr v s = unpriv_store 8 h addr v trap_info_zero s"

text \<open>The handler of misaligned loads, with the register writes of this build.\<close>

definition emu_misaligned_load_handler ::
  "nat \<Rightarrow> ulong \<Rightarrow> ulong \<Rightarrow> ulong \<Rightarrow> sbi_trap_regs \<Rightarrow> 'a fp_state_scheme \<Rightarrow> 'a fp_flow" where
  "emu_misaligned_load_handler h addr tv2 tin regs s =
     (let s = snd (sbi_pmu_ctr_incr_fw h SBI_PMU_FW_MISALIGNED_LOAD s) in
      case mis_insn h tin regs s of
        Inl t \<Rightarrow> redirect_flow h regs t s
      | Inr (insn, insn_len) \<Rightarrow>
          (case decode_load insn of
             None \<Rightarrow>
               redirect_flow h regs
                 \<lparr>epc = mepc regs, cause = CAUSE_MISALIGNED_LOAD, tval = addr, tval2 = tv2, tinst = tin\<rparr> s
           | Some (len, sh, fp, insn) \<Rightarrow>
               (case mis_load_bytes h len 0 addr s of
                  Inl t \<Rightarrow> redirect_flow h regs (t\<lparr>epc := mepc regs\<rparr>) s
                | Inr val \<Rightarrow>
                    let regs' = (if fp then regs else SET_RD insn (signed_drop_bit sh (push_bit sh val)) regs);
                        s = (if \<not> fp then s
                             else if len = 8 then SET_F64_RD h insn val s
                             else SET_F32_RD h insn (ucast val) s)
                    in Ret (0, advance insn_len regs') s)))"

text \<open>\<^verbatim>\<open>punt_to_misaligned_handler\<close> gives the handler the instruction where it expects the address.\<close>

definition float_store_opcode_insn :: "nat \<Rightarrow> ulong \<Rightarrow> sbi_trap_regs \<Rightarrow> 'a fp_state_scheme \<Rightarrow> 'a fp_flow" where
  "float_store_opcode_insn h insn regs s =
     (let addr = GET_RS1 insn regs + IMM_S insn;
          stored = (\<lambda>(uptrap, s).
            if cause uptrap \<noteq> 0 then redirect_flow h regs (uptrap\<lparr>epc := mepc regs\<rparr>) s
            else Ret (0, advance 4 regs) s)
      in if mstatus regs AND MSTATUS_FS = 0 then truly_illegal_insn h insn regs s
         else if insn AND 0x7000 = 0x2000 then
           if addr mod 4 \<noteq> 0
           then sbi_misaligned_store_handler h insn 0 0 regs (csr_write h CSR_MTVAL addr s)
           else stored (sbi_store_u32 h addr (emu_get_f32 h insn 20 s) s)
         else if insn AND 0x7000 = 0x3000 then
           if addr mod 8 \<noteq> 0
           then sbi_misaligned_store_handler h insn 0 0 regs (csr_write h CSR_MTVAL addr s)
           else stored (sbi_store_u64 h addr (emu_get_f64 h insn 20 s) s)
         else truly_illegal_insn h insn regs s)"

definition float_load_opcode_insn :: "nat \<Rightarrow> ulong \<Rightarrow> sbi_trap_regs \<Rightarrow> 'a fp_state_scheme \<Rightarrow> 'a fp_flow" where
  "float_load_opcode_insn h insn regs s =
     (let addr = GET_RS1 insn regs + IMM_I insn
      in if mstatus regs AND MSTATUS_FS = 0 then truly_illegal_insn h insn regs s
         else if insn AND 0x7000 = 0x2000 then
           if addr mod 4 \<noteq> 0
           then emu_misaligned_load_handler h insn 0 0 regs (csr_write h CSR_MTVAL addr s)
           else Ret (0, advance 4 regs) (SET_F32_RD h insn (fst (sbi_load_s32 h addr s)) s)
         else if insn AND 0x7000 = 0x3000 then
           if addr mod 8 \<noteq> 0
           then emu_misaligned_load_handler h insn 0 0 regs (csr_write h CSR_MTVAL addr s)
           else Ret (0, advance 4 regs) (SET_F64_RD h insn (fst (sbi_load_u64 h addr s)) s)
         else truly_illegal_insn h insn regs s)"

section \<open>Compressed loads and stores\<close>

definition RVC_LD_IMM :: "ulong \<Rightarrow> ulong" where
  "RVC_LD_IMM x = push_bit 3 (of_nat (RV_X x 10 3)) OR push_bit 6 (of_nat (RV_X x 5 2))"

definition RVC_LDSP_IMM :: "ulong \<Rightarrow> ulong" where
  "RVC_LDSP_IMM x =
     push_bit 3 (of_nat (RV_X x 5 2)) OR push_bit 5 (of_nat (RV_X x 12 1)) OR push_bit 6 (of_nat (RV_X x 2 3))"

definition RVC_SDSP_IMM :: "ulong \<Rightarrow> ulong" where
  "RVC_SDSP_IMM x = push_bit 3 (of_nat (RV_X x 10 3)) OR push_bit 6 (of_nat (RV_X x 7 3))"

definition emu_emulate_rvc ::
  "nat \<Rightarrow> ulong \<Rightarrow> ulong \<Rightarrow> ulong \<Rightarrow> sbi_trap_regs \<Rightarrow> 'a fp_state_scheme \<Rightarrow> 'a fp_flow" where
  "emu_emulate_rvc h insn tv2 tin regs s =
     (let s = csr_write h CSR_MEPC (mepc regs + 2) s;
          finish = (\<lambda>uptrap s.
            if cause uptrap \<noteq> 0 then redirect_flow h regs (uptrap\<lparr>epc := mepc regs\<rparr>) s
            else Ret (0, advance 2 regs) s);
          load = (\<lambda>addr rd.
            if addr mod 8 \<noteq> 0 then emu_misaligned_load_handler h addr tv2 tin regs s
            else case sbi_load_u64 h addr s of (v, uptrap) \<Rightarrow> finish uptrap (SET_F64_RD h rd v s));
          store = (\<lambda>addr rs2.
            if addr mod 8 \<noteq> 0 then sbi_misaligned_store_handler h addr tv2 tin regs s
            else case sbi_store_u64 h addr (emu_get_f64 h (push_bit 20 (of_nat rs2)) 20 s) s of (uptrap, s) \<Rightarrow>
              finish uptrap s)
      in if mstatus regs AND MSTATUS_FS = 0 then truly_illegal_insn h insn regs s
         else if is_rvc insn 0x2000 then load (gpr regs (RVC_RS1S insn) + RVC_LD_IMM insn) (rvc_as_rd insn)
         else if is_rvc insn 0x2002 then load (gpr regs 2 + RVC_LDSP_IMM insn) insn
         else if is_rvc insn 0xa000 then store (gpr regs (RVC_RS1S insn) + RVC_LD_IMM insn) (RVC_RS2S insn)
         else if is_rvc insn 0xa002 then store (gpr regs 2 + RVC_SDSP_IMM insn) (RVC_RS2 insn)
         else truly_illegal_insn h insn regs s)"

section \<open>Control registers and the handler\<close>

text \<open>A read with the unit switched off leaves the output as it is, and succeeds.\<close>

definition emu_emulate_csr_read ::
  "nat \<Rightarrow> nat \<Rightarrow> sbi_trap_regs \<Rightarrow> ulong \<Rightarrow> 'a fp_state_scheme \<Rightarrow> (int \<times> ulong, 'a fp_state_scheme) flow"
where
  "emu_emulate_csr_read h csr_num regs csr_val s =
     (let fs_off = (mstatus regs AND MSTATUS_FS = 0) in
      if csr_num = 2 then Ret (0, if fs_off then csr_val else GET_FRM h s) s
      else if csr_num = 1 then Ret (0, if fs_off then csr_val else GET_FFLAGS h s) s
      else if csr_num = 3 then Ret (0, if fs_off then csr_val else GET_FCSR h s) s
      else sbi_emulate_csr_read h csr_num regs s)"

definition emu_emulate_csr_write ::
  "nat \<Rightarrow> nat \<Rightarrow> sbi_trap_regs \<Rightarrow> ulong \<Rightarrow> 'a fp_state_scheme \<Rightarrow> int \<times> 'a fp_state_scheme" where
  "emu_emulate_csr_write h csr_num regs csr_val s =
     (if csr_num = 2 then (0, SET_FRM h csr_val s)
      else if csr_num = 1 then (0, SET_FFLAGS h csr_val s)
      else if csr_num = 3 then (0, SET_FCSR h csr_val s)
      else sbi_emulate_csr_write h csr_num regs csr_val s)"

definition emu_system_opcode_insn :: "nat \<Rightarrow> ulong \<Rightarrow> sbi_trap_regs \<Rightarrow> 'a fp_state_scheme \<Rightarrow> 'a fp_flow" where
  "emu_system_opcode_insn h insn regs s =
     (let csr_num = unat (drop_bit 20 (ucast insn :: u32)) in
      flow_bind (emu_emulate_csr_read h csr_num regs (uninit s) s) (\<lambda>(ret, csr_val) s.
        if ret \<noteq> 0 then truly_illegal_insn h insn regs s
        else case csr_new_value insn regs csr_val of
          None \<Rightarrow> truly_illegal_insn h insn regs s
        | Some (new_csr_val, do_write) \<Rightarrow>
            (let (ret, s) = (if do_write then emu_emulate_csr_write h csr_num regs new_csr_val s else (0, s))
             in if ret \<noteq> 0 then truly_illegal_insn h insn regs s
                else Ret (0, advance 4 (SET_RD insn csr_val regs)) s)))"

definition emu_illegal_insn_table ::
  "nat \<Rightarrow> nat \<Rightarrow> ulong \<Rightarrow> sbi_trap_regs \<Rightarrow> 'a fp_state_scheme \<Rightarrow> 'a fp_flow" where
  "emu_illegal_insn_table h i =
     (if i = 1 then float_load_opcode_insn h
      else if i = 9 then float_store_opcode_insn h
      else if 16 \<le> i \<and> i \<le> 19 then fmadd_opcode_insn h
      else if i = 20 then fp_opcode_insn h
      else if i = 28 then emu_system_opcode_insn h
      else truly_illegal_insn h)"

definition emu_illegal_insn_handler ::
  "nat \<Rightarrow> ulong \<Rightarrow> ulong \<Rightarrow> ulong \<Rightarrow> sbi_trap_regs \<Rightarrow> 'a fp_state_scheme \<Rightarrow> 'a fp_flow" where
  "emu_illegal_insn_handler h insn tv2 tin regs s =
     (let s = snd (sbi_pmu_ctr_incr_fw h SBI_PMU_FW_ILLEGAL_INSN s) in
      if insn AND 3 \<noteq> 3 then
        (case sbi_get_insn h (mepc regs) trap_info_zero s of (insn, uptrap) \<Rightarrow>
           if cause uptrap \<noteq> 0 then redirect_flow h regs (uptrap\<lparr>epc := mepc regs\<rparr>) s
           else if insn AND 3 \<noteq> 3 then emu_emulate_rvc h insn tv2 tin regs s
           else emu_illegal_insn_table h (unat (drop_bit 2 (insn AND 0x7c))) insn regs s)
      else emu_illegal_insn_table h (unat (drop_bit 2 (insn AND 0x7c))) insn regs s)"

end
