(* ===== verification/Float_Rounding.thy ===== *)
theory Float_Rounding
  imports Complex_Main
begin

text \<open>
  What it means that a floating-point result is correctly rounded, for a binary format with \<open>k\<close>
  fraction bits. Without its sign a number is the natural number \<open>n\<close> of its bits, the exponent above
  the fraction; larger codes are larger numbers, and the code \<open>i\<close> of infinity comes after that of the
  largest finite number. \<open>fmag k n\<close> is the magnitude in units of the smallest subnormal number; at
  \<open>i\<close> it is what the next number would be if the exponent had no bound, which is where the standard
  puts infinity for rounding.
\<close>

section \<open>Magnitudes\<close>

definition fmag :: "nat \<Rightarrow> nat \<Rightarrow> nat" where
  "fmag k n = (if n < 2 ^ k then n else (2 ^ k + n mod 2 ^ k) * 2 ^ (n div 2 ^ k - 1))"

lemma fmag_code:
  assumes "q \<le> 2 ^ (k + 1)" and "e = 0 \<or> 2 ^ k \<le> q"
  shows "fmag k (e * 2 ^ k + q) = q * 2 ^ e"
proof -
  consider "q < 2 ^ k" | "2 ^ k \<le> q" "q < 2 ^ (k + 1)" | "q = 2 ^ (k + 1)"
    using assms(1) by linarith
  then show ?thesis
  proof cases
    case 1
    then show ?thesis using assms(2) by (simp add: fmag_def)
  next
    case 2
    then obtain f where f: "q = 2 ^ k + f" "f < 2 ^ k" by (auto simp: le_iff_add)
    have n: "e * 2 ^ k + q = f + Suc e * 2 ^ k" using f(1) by simp
    have "(e * 2 ^ k + q) div 2 ^ k = e + 1" "(e * 2 ^ k + q) mod 2 ^ k = f"
      unfolding n div_mult_self1 [OF power_not_zero [OF zero_neq_numeral [symmetric]]] mod_mult_self1
      using f(2) by simp_all
    then show ?thesis using f 2(1) by (simp add: fmag_def)
  next
    case 3
    have n: "e * 2 ^ k + q = (e + 2) * 2 ^ k" using 3 by simp
    have "(e * 2 ^ k + q) div 2 ^ k = e + 2" "(e * 2 ^ k + q) mod 2 ^ k = 0"
      unfolding n by simp_all
    then show ?thesis using 3 by (simp add: fmag_def)
  qed
qed

lemma code_parts:
  obtains e q where "n = e * 2 ^ k + q" "q < 2 ^ (k + 1)" "e = 0 \<or> 2 ^ k \<le> (q :: nat)"
proof (cases "n < 2 ^ k")
  case True
  then show ?thesis using that [of 0 n] by simp
next
  case False
  then have "1 \<le> n div 2 ^ k" by (simp add: Suc_le_eq div_greater_zero_iff)
  then have "n = (n div 2 ^ k - 1) * 2 ^ k + (2 ^ k + n mod 2 ^ k)"
    by (metis add.assoc div_mult_mod_eq le_add_diff_inverse2 mult_Suc_right mult.commute
        plus_1_eq_Suc add.commute)
  then show ?thesis using that [of "n div 2 ^ k - 1" "2 ^ k + n mod 2 ^ k"] by simp
qed

lemma fmag_Suc: "fmag k n < fmag k (Suc n)"
proof -
  obtain e q where n: "n = e * 2 ^ k + q" "q < 2 ^ (k + 1)" "e = 0 \<or> 2 ^ k \<le> q" by (rule code_parts)
  have "fmag k n = q * 2 ^ e" "fmag k (Suc n) = Suc q * 2 ^ e"
    using fmag_code [of q k e] fmag_code [of "Suc q" k e] n by auto
  then show ?thesis by simp
qed

lemma fmag_mono: "m < n \<Longrightarrow> fmag k m < fmag k n" 
  by (rule lift_Suc_mono_less [of "fmag k"]) (rule fmag_Suc)

lemma fmag_less_iff [simp]: "fmag k m < fmag k n \<longleftrightarrow> m < n"
  by (metis fmag_mono linorder_neq_iff order_less_asym)

lemma fmag_le_iff [simp]: "fmag k m \<le> fmag k n \<longleftrightarrow> m \<le> n"
  by (metis fmag_less_iff not_le)

lemma fmag_eq_iff [simp]: "fmag k m = fmag k n \<longleftrightarrow> m = n"
  by (metis fmag_less_iff linorder_neq_iff)

lemma fmag_0 [simp]: "fmag k 0 = 0"
  by (simp add: fmag_def)

lemma fmag_eq_0_iff [simp]: "fmag k n = 0 \<longleftrightarrow> n = 0"
  by (metis fmag_0 fmag_less_iff gr_zeroI less_numeral_extra(3))

section \<open>Correct rounding\<close>

text \<open>
  \<open>n\<close> is the magnitude \<open>x\<close> rounded in mode \<open>rm\<close>: 0 to the nearest, on a tie the even one; 4 to the
  nearest, on a tie the larger; 2 down and 3 up, that is away from zero or towards zero depending on
  the sign; any other towards zero.
\<close>

definition rounded :: "nat \<Rightarrow> nat \<Rightarrow> nat \<Rightarrow> bool \<Rightarrow> real \<Rightarrow> nat \<Rightarrow> bool" where
  "rounded k i rm sign x n \<longleftrightarrow> n \<le> i \<and>
     (if rm = 0 then
        \<forall>m\<le>i. \<bar>real (fmag k n) - x\<bar> \<le> \<bar>real (fmag k m) - x\<bar>
          \<and> (\<bar>real (fmag k n) - x\<bar> = \<bar>real (fmag k m) - x\<bar> \<longrightarrow> m = n \<or> even n)
      else if rm = 4 then
        \<forall>m\<le>i. \<bar>real (fmag k n) - x\<bar> \<le> \<bar>real (fmag k m) - x\<bar>
          \<and> (\<bar>real (fmag k n) - x\<bar> = \<bar>real (fmag k m) - x\<bar> \<longrightarrow> m \<le> n)
      else if rm = (if sign then 2 else 3) then
        (x \<le> real (fmag k n) \<or> n = i) \<and> (\<forall>m<n. real (fmag k m) < x)
      else n < i \<and> real (fmag k n) \<le> x \<and> (\<forall>m<i. real (fmag k m) \<le> x \<longrightarrow> m \<le> n))"

text \<open>Whether to take the upper of two neighbours, from the distances to the lower and the upper.\<close>

definition round_up :: "nat \<Rightarrow> bool \<Rightarrow> bool \<Rightarrow> real \<Rightarrow> real \<Rightarrow> bool" where
  "round_up rm sign low_odd lo hi =
     (if rm = 0 then hi < lo \<or> hi = lo \<and> low_odd
      else if rm = 4 then hi \<le> lo
      else rm = (if sign then 2 else 3) \<and> 0 < lo)"

lemma neighbours:
  assumes "real (fmag k n) \<le> x" and "x < real (fmag k (Suc n))"
  shows "m \<le> n \<Longrightarrow> \<bar>real (fmag k m) - x\<bar> = x - real (fmag k n) + (real (fmag k n) - real (fmag k m))"
    and "\<not> m \<le> n \<Longrightarrow> \<bar>real (fmag k m) - x\<bar> = real (fmag k (Suc n)) - x + (real (fmag k m) - real (fmag k (Suc n)))"
proof -
  assume "m \<le> n"
  then have "real (fmag k m) \<le> real (fmag k n)" by (simp only: of_nat_le_iff fmag_le_iff)
  then show "\<bar>real (fmag k m) - x\<bar> = x - real (fmag k n) + (real (fmag k n) - real (fmag k m))"
    using assms by linarith
next
  assume "\<not> m \<le> n"
  then have "real (fmag k (Suc n)) \<le> real (fmag k m)" by (simp only: of_nat_le_iff fmag_le_iff not_le Suc_le_eq)
  then show "\<bar>real (fmag k m) - x\<bar> = real (fmag k (Suc n)) - x + (real (fmag k m) - real (fmag k (Suc n)))"
    using assms by linarith
qed

lemma rounded_nearest:
  assumes "real (fmag k n) \<le> x" and "x < real (fmag k (Suc n))" and "n < i" and "rm = 0 \<or> rm = 4"
    and "d = (if round_up rm sign (odd n) (x - real (fmag k n)) (real (fmag k (Suc n)) - x) then 1 else 0)"
  shows "rounded k i rm sign x (n + d)"
proof -
  define D where "D m = \<bar>real (fmag k m) - x\<bar>" for m
  define lo hi where "lo = x - real (fmag k n)" and "hi = real (fmag k (Suc n)) - x"
  note dist = neighbours [OF assms(1,2), folded D_def]
  have below: "lo \<le> D m \<and> (D m = lo \<longleftrightarrow> m = n)" if "m \<le> n" for m
  proof -
    have "real (fmag k m) \<le> real (fmag k n)" "real (fmag k m) = real (fmag k n) \<longleftrightarrow> m = n"
      using that by (simp_all only: of_nat_le_iff of_nat_eq_iff fmag_le_iff fmag_eq_iff)
    then show ?thesis using dist(1) [OF that] unfolding lo_def by linarith
  qed
  have above: "hi \<le> D m \<and> (D m = hi \<longleftrightarrow> m = Suc n)" if "\<not> m \<le> n" for m
  proof -
    have "real (fmag k (Suc n)) \<le> real (fmag k m)" "real (fmag k m) = real (fmag k (Suc n)) \<longleftrightarrow> m = Suc n"
      using that by (simp_all only: of_nat_le_iff of_nat_eq_iff fmag_le_iff fmag_eq_iff not_le Suc_le_eq)
    then show ?thesis using dist(2) [OF that] unfolding hi_def by linarith
  qed
  have best: "d = 0 \<and> D (n + d) = lo \<and> lo \<le> hi \<and> (lo = hi \<longrightarrow> rm = 0 \<and> even n)
      \<or> d = 1 \<and> D (n + d) = hi \<and> hi \<le> lo \<and> (lo = hi \<longrightarrow> rm = 0 \<longrightarrow> odd n)"
    using assms(4,5) below [of n] above [of "Suc n"] unfolding round_up_def lo_def [symmetric] hi_def [symmetric]
    by (elim disjE) auto
  have "D (n + d) \<le> D m \<and> (D (n + d) = D m \<longrightarrow> (if rm = 0 then m = n + d \<or> even (n + d) else m \<le> n + d))" for m
    using best below [of m] above [of m] by (cases "m \<le> n"; elim disjE) auto
  moreover have "n + d \<le> i" using assms(3) best by auto
  ultimately show ?thesis using assms(4) unfolding rounded_def D_def by (elim disjE) simp_all
qed

lemma rounded_bracket:
  assumes "real (fmag k n) \<le> x" and "x < real (fmag k (Suc n))" and "n < i"
  shows "rounded k i rm sign x
    (if round_up rm sign (odd n) (x - real (fmag k n)) (real (fmag k (Suc n)) - x) then Suc n else n)"
proof (cases "rm = 0 \<or> rm = 4")
  case True
  then show ?thesis using rounded_nearest [OF assms True refl, of sign] by (auto split: if_splits)
next
  case False
  have below: "m \<le> n \<Longrightarrow> real (fmag k m) \<le> x" "m < n \<Longrightarrow> real (fmag k m) < x"
    "real (fmag k m) \<le> x \<Longrightarrow> m \<le> n" for m
  proof -
    show "m \<le> n \<Longrightarrow> real (fmag k m) \<le> x" using assms(1) fmag_le_iff [of k m n] by linarith
    show "m < n \<Longrightarrow> real (fmag k m) < x" using assms(1) fmag_less_iff [of k m n] by linarith
    show "real (fmag k m) \<le> x \<Longrightarrow> m \<le> n" using assms(2) fmag_le_iff [of k "Suc n" m] by linarith
  qed
  show ?thesis
    using False assms below by (auto simp: rounded_def round_up_def less_Suc_eq intro: order.strict_trans2)
qed

lemma rounded_over:
  assumes "real (fmag k i) \<le> x" and "0 < i"
  shows "rounded k i rm sign x (if rm = 0 \<or> rm = 4 \<or> rm = (if sign then 2 else 3) then i else i - 1)"
proof -
  have below: "m < i \<Longrightarrow> real (fmag k m) < x" for m
    using assms(1) fmag_less_iff [of k m i] by linarith
  have near: "m \<le> i \<Longrightarrow> \<bar>real (fmag k i) - x\<bar> \<le> \<bar>real (fmag k m) - x\<bar>
      \<and> (\<bar>real (fmag k i) - x\<bar> = \<bar>real (fmag k m) - x\<bar> \<longrightarrow> m = i)" for m
  proof (cases "m = i")
    case False
    assume "m \<le> i"
    then have "real (fmag k m) < real (fmag k i)" using False by simp
    then show ?thesis using assms(1) by linarith
  qed simp
  show ?thesis
    using assms below near by (auto simp: rounded_def intro: order.strict_implies_order)
qed

text \<open>A number of the format is its own rounding, in every mode.\<close>

lemma rounded_exact:
  assumes "n < i"
  shows "rounded k i rm sign (real (fmag k n)) n"
  using rounded_bracket [of k n "real (fmag k n)" i rm sign] assms
  by (auto simp: round_up_def split: if_splits)

text \<open>There is one rounding.\<close>

lemma rounded_unique:
  assumes "rounded k i rm sign x n" and "rounded k i rm sign x m"
  shows "n = m"
proof -
  have eq: "\<bar>real (fmag k n) - x\<bar> = \<bar>real (fmag k m) - x\<bar>" if "rm = 0 \<or> rm = 4"
    using assms that by (auto simp: rounded_def intro: order.antisym)
  consider "rm = 0" | "rm = 4" | "rm \<noteq> 0" "rm \<noteq> 4" by blast
  then show ?thesis
  proof cases
    case 1
    have "m = n \<or> even n \<and> even m" using assms 1 eq by (auto simp: rounded_def)
    moreover have "n = m" if "even n" "even m"
    proof (rule ccontr)
      assume ne: "n \<noteq> m"
      define a b where "a = min n m" and "b = max n m"
      have ab: "a < b" "even a" "even b" "b \<le> i" using ne that assms by (auto simp: a_def b_def rounded_def min_def max_def)
      then have c: "a < Suc a" "Suc a < b" by (metis lessI, metis Suc_lessI even_Suc)
      have "\<bar>real (fmag k a) - x\<bar> \<le> \<bar>real (fmag k (Suc a)) - x\<bar>"
        "\<bar>real (fmag k b) - x\<bar> \<le> \<bar>real (fmag k (Suc a)) - x\<bar>"
        using assms 1 ab(4) c by (auto simp: rounded_def a_def b_def min_def max_def split: if_splits)
      moreover have "real (fmag k a) < real (fmag k (Suc a))" "real (fmag k (Suc a)) < real (fmag k b)"
        using c by simp_all
      ultimately show False by linarith
    qed
    ultimately show ?thesis by blast
  next
    case 2
    then show ?thesis using assms eq by (auto simp: rounded_def intro: order.antisym)
  next
    case 3
    have "\<not> n < m" "\<not> m < n"
      using assms 3 by (auto simp: rounded_def not_le split: if_splits)
    then show ?thesis by simp
  qed
qed

text \<open>Every magnitude has a rounding, and rounding does not cross a number of the format.\<close>

lemma rounded_exists:
  assumes "0 \<le> x" and "0 < i"
  shows "\<exists>n. rounded k i rm sign x n"
proof (cases "real (fmag k i) \<le> x")
  case True
  then show ?thesis using rounded_over [OF True assms(2)] by blast
next
  case False
  then have "\<exists>n<i. (\<forall>m\<le>n. \<not> x < real (fmag k m)) \<and> x < real (fmag k (Suc n))"
    using assms(1) by (intro ex_least_nat_less [where P = "\<lambda>n. x < real (fmag k n)"]) simp_all
  then obtain n where "n < i" "real (fmag k n) \<le> x" "x < real (fmag k (Suc n))" by (auto simp: not_less)
  then show ?thesis using rounded_bracket [of k n x i] by blast
qed

lemma rounded_ge:
  assumes "rounded k i rm sign x n" and "real (fmag k a) \<le> x" and "a < i"
  shows "a \<le> n"
proof (rule ccontr)
  assume "\<not> a \<le> n"
  then have "n < a" by simp
  then have "real (fmag k n) < real (fmag k a)" by simp
  then have "\<bar>real (fmag k a) - x\<bar> < \<bar>real (fmag k n) - x\<bar>" "\<not> x \<le> real (fmag k n)" using assms(2) by linarith+
  moreover have "\<bar>real (fmag k n) - x\<bar> \<le> \<bar>real (fmag k a) - x\<bar>" if "rm = 0 \<or> rm = 4"
    using that assms(1,3) by (auto simp: rounded_def)
  ultimately show False using assms \<open>n < a\<close> by (cases "rm = 0 \<or> rm = 4") (auto simp: rounded_def split: if_splits)
qed

lemma rounded_le:
  assumes "rounded k i rm sign x n" and "x \<le> real (fmag k a)" and "a \<le> i"
  shows "n \<le> a"
proof (rule ccontr)
  assume "\<not> n \<le> a"
  then have "a < n" by simp
  then have "real (fmag k a) < real (fmag k n)" by simp
  then have "\<bar>real (fmag k a) - x\<bar> < \<bar>real (fmag k n) - x\<bar>" "\<not> real (fmag k n) \<le> x" using assms(2) by linarith+
  moreover have "\<bar>real (fmag k n) - x\<bar> \<le> \<bar>real (fmag k a) - x\<bar>" if "rm = 0 \<or> rm = 4"
    using that assms(1,3) by (auto simp: rounded_def)
  ultimately show False using assms \<open>a < n\<close> by (cases "rm = 0 \<or> rm = 4") (auto simp: rounded_def split: if_splits)
qed

section \<open>A sticky bit is enough\<close>

text \<open>\<open>s\<close> stands for \<open>y\<close>: they compare alike with every multiple of \<open>2\<^bsup>g\<^esup>\<close>.\<close>

definition jams :: "nat \<Rightarrow> nat \<Rightarrow> real \<Rightarrow> bool" where
  "jams g s y \<longleftrightarrow> (\<forall>m. 2 ^ g dvd m \<longrightarrow> (y < real m \<longleftrightarrow> s < m) \<and> (real m < y \<longleftrightarrow> m < s))"

lemma jams_less: "jams g s y \<Longrightarrow> 2 ^ g dvd m \<Longrightarrow> y < real m \<longleftrightarrow> s < m"
  and jams_greater: "jams g s y \<Longrightarrow> 2 ^ g dvd m \<Longrightarrow> real m < y \<longleftrightarrow> m < s"
  by (simp_all add: jams_def)

lemma jams_eq: "jams g s y \<Longrightarrow> 2 ^ g dvd m \<Longrightarrow> s = m \<Longrightarrow> y = real m"
  using jams_less [of g s y m] jams_greater [of g s y m] by simp

lemma jams_ge: "jams g s y \<Longrightarrow> 2 ^ g dvd m \<Longrightarrow> m \<le> s \<Longrightarrow> real m \<le> y"
  using jams_less [of g s y m] by simp

lemma jams_nonneg: "jams g s y \<Longrightarrow> 0 \<le> y"
  using jams_ge [of g s y 0] by simp

lemma jams_self [simp]: "jams g s (real s)"
  by (simp add: jams_def)

lemma jams_mono: "jams g s y \<Longrightarrow> g \<le> h \<Longrightarrow> jams h s y"
  using le_imp_power_dvd [of g h "2 :: nat"] unfolding jams_def by (meson dvd_trans)

lemma jams_double:
  assumes "jams g s y"
  shows "jams (Suc g) (2 * s) (2 * y)"
  unfolding jams_def
proof (intro allI impI)
  fix m :: nat
  assume "2 ^ Suc g dvd m"
  then obtain n where m: "m = 2 * n" "2 ^ g dvd n" by (metis dvdE dvd_triv_left mult.assoc power_Suc)
  show "(2 * y < real m \<longleftrightarrow> 2 * s < m) \<and> (real m < 2 * y \<longleftrightarrow> m < 2 * s)"
    using jams_less [OF assms m(2)] jams_greater [OF assms m(2)] by (simp add: m(1))
qed

lemma jams_plus:
  assumes "jams g s y" and "2 ^ g dvd c"
  shows "jams g (c + s) (real c + y)"
  unfolding jams_def
proof (intro allI impI)
  fix m :: nat
  assume m: "2 ^ g dvd m"
  show "(real c + y < real m \<longleftrightarrow> c + s < m) \<and> (real m < real c + y \<longleftrightarrow> m < c + s)"
  proof (cases "c \<le> m")
    case True
    then obtain n where n: "m = c + n" by (metis le_iff_add)
    have d: "2 ^ g dvd n" using m assms(2) unfolding n by (rule dvd_add_right_iff [THEN iffD1, rotated])
    show ?thesis using jams_less [OF assms(1) d] jams_greater [OF assms(1) d] unfolding n by simp
  next
    case False
    then have "real m < real c" by simp
    then have "real m < real c + y" using jams_nonneg [OF assms(1)] by linarith
    then show ?thesis using False by simp
  qed
qed

lemma jams_minus:
  assumes "jams g s y" and "2 ^ g dvd c" and "s \<le> c"
  shows "jams g (c - s) (real c - y)"
  unfolding jams_def
proof (intro allI impI)
  fix m :: nat
  assume m: "2 ^ g dvd m"
  show "(real c - y < real m \<longleftrightarrow> c - s < m) \<and> (real m < real c - y \<longleftrightarrow> m < c - s)"
  proof (cases "m \<le> c")
    case True
    then obtain n where n: "c = m + n" by (metis le_iff_add)
    have d: "2 ^ g dvd n" using assms(2) m unfolding n by (rule dvd_add_right_iff [THEN iffD1, rotated])
    show ?thesis using jams_less [OF assms(1) d] jams_greater [OF assms(1) d] assms(3) unfolding n by auto
  next
    case False
    then have "real c < real m" by simp
    then have "real c - y < real m" using jams_nonneg [OF assms(1)] by linarith
    moreover have "c - s < m" using False by linarith
    ultimately show ?thesis by simp
  qed
qed

definition shr_jam :: "nat \<Rightarrow> nat \<Rightarrow> nat" where
  "shr_jam s d = (if s mod 2 ^ d \<noteq> 0 \<and> even (s div 2 ^ d) then s div 2 ^ d + 1 else s div 2 ^ d)"

lemma shr_jam_less: "even m \<Longrightarrow> shr_jam s d < m \<longleftrightarrow> s < m * 2 ^ d"
proof -
  assume m: "even m"
  have "s < m * 2 ^ d \<longleftrightarrow> s div 2 ^ d < m" by (simp add: div_less_iff_less_mult)
  moreover have "Suc (s div 2 ^ d) < m \<longleftrightarrow> s div 2 ^ d < m" if "even (s div 2 ^ d)"
    using m that by (metis Suc_lessD Suc_lessI even_Suc)
  ultimately show ?thesis by (auto simp: shr_jam_def)
qed

lemma shr_jam_greater:
  assumes "even m"
  shows "m < shr_jam s d \<longleftrightarrow> m * 2 ^ d < s"
proof -
  have s: "s = s div 2 ^ d * 2 ^ d + s mod 2 ^ d" by (simp only: div_mult_mod_eq)
  have r: "s mod 2 ^ d < 2 ^ d" by simp
  consider "m < s div 2 ^ d" | "m = s div 2 ^ d" | "s div 2 ^ d < m" by linarith
  then show ?thesis
  proof cases
    case 1
    then have "Suc m * 2 ^ d \<le> s div 2 ^ d * 2 ^ d" by (intro mult_le_mono1) simp
    then have "m * 2 ^ d < s" using s by (metis add_leD1 less_le_trans mult_Suc le_add1 zero_less_power pos2 add_less_same_cancel2 add.commute less_add_same_cancel1 )
    then show ?thesis using 1 by (simp add: shr_jam_def)
  next
    case 2
    then have "m * 2 ^ d < s \<longleftrightarrow> s mod 2 ^ d \<noteq> 0" using s by auto
    then show ?thesis using 2 assms by (simp add: shr_jam_def)
  next
    case 3
    then have "s < m * 2 ^ d" by (simp add: div_less_iff_less_mult)
    then show ?thesis using 3 by (simp add: shr_jam_def)
  qed
qed

lemma jams_shift:
  assumes "jams g s y" and "g \<le> Suc d"
  shows "jams 1 (shr_jam s d) (y / 2 ^ d)"
  unfolding jams_def
proof (intro allI impI)
  fix m :: nat
  assume m: "2 ^ 1 dvd m"
  have "2 ^ g dvd (2 :: nat) ^ Suc d" by (rule le_imp_power_dvd [OF assms(2)])
  also have "2 ^ Suc d dvd m * 2 ^ d" using m by (simp add: mult_dvd_mono)
  finally have "2 ^ g dvd m * 2 ^ d" .
  then have "y < real m * 2 ^ d \<longleftrightarrow> s < m * 2 ^ d" "real m * 2 ^ d < y \<longleftrightarrow> m * 2 ^ d < s"
    using jams_less [OF assms(1), of "m * 2 ^ d"] jams_greater [OF assms(1), of "m * 2 ^ d"] by simp_all
  then show "(y / 2 ^ d < real m \<longleftrightarrow> shr_jam s d < m) \<and> (real m < y / 2 ^ d \<longleftrightarrow> m < shr_jam s d)"
    using m by (simp add: shr_jam_less shr_jam_greater divide_less_eq less_divide_eq)
qed

lemma shr_jam_le: "shr_jam s d \<le> s div 2 ^ d + 1"
  by (simp add: shr_jam_def)

lemma jams_bounds:
  assumes "jams g s y" and "s = q * 2 ^ d + r" and "r < 2 ^ d" and "g \<le> d"
  shows "r = 0 \<longleftrightarrow> y = real q * 2 ^ d" and "real q * 2 ^ d \<le> y" and "y < (real q + 1) * 2 ^ d"
proof -
  have dvd: "2 ^ g dvd q * 2 ^ d" "2 ^ g dvd (q + 1) * 2 ^ d"
    using le_imp_power_dvd [OF assms(4), of "2 :: nat"] by (simp_all add: dvd_mult del: mult_Suc add_mult_distrib)
  show "r = 0 \<longleftrightarrow> y = real q * 2 ^ d" "real q * 2 ^ d \<le> y"
    using jams_less [OF assms(1) dvd(1)] jams_greater [OF assms(1) dvd(1)] assms(2) by auto
  have "s < (q + 1) * 2 ^ d" using assms(2,3) by simp
  then have "y < real ((q + 1) * 2 ^ d)" using jams_less [OF assms(1) dvd(2)] by blast
  then show "y < (real q + 1) * 2 ^ d" by (simp add: algebra_simps)
qed

text \<open>Where the exact value lies between two neighbours and beside the middle, from the bits cut off.\<close>

lemma jams_parts:
  assumes "jams g s y" and "s = q * 2 ^ d + r" and "r < 2 ^ d" and "g < d"
  shows "real q \<le> y / 2 ^ d" and "y / 2 ^ d < real q + 1" and "r = 0 \<longleftrightarrow> y / 2 ^ d = real q"
    and "y / 2 ^ d < real q + 1 / 2 \<longleftrightarrow> r < 2 ^ (d - 1)" and "real q + 1 / 2 < y / 2 ^ d \<longleftrightarrow> 2 ^ (d - 1) < r"
proof -
  have d: "1 \<le> d" "g \<le> d" "g \<le> d - 1" using assms(4) by simp_all
  note y = jams_bounds [OF assms(1-3) d(2)]
  show "real q \<le> y / 2 ^ d" "y / 2 ^ d < real q + 1" "r = 0 \<longleftrightarrow> y / 2 ^ d = real q"
    using y by (simp_all add: le_divide_eq divide_less_eq divide_eq_eq)
  have h: "(2 :: nat) ^ d = 2 * 2 ^ (d - 1)" "(2 :: real) ^ d = 2 * 2 ^ (d - 1)"
    using d(1) by (cases d; simp)+
  have dvd: "2 ^ g dvd q * 2 ^ d + 2 ^ (d - 1)"
    using le_imp_power_dvd [OF d(2), of "2 :: nat"] le_imp_power_dvd [OF d(3), of "2 :: nat"] by (simp add: dvd_mult)
  have "y < real (q * 2 ^ d + 2 ^ (d - 1)) \<longleftrightarrow> r < 2 ^ (d - 1)" "real (q * 2 ^ d + 2 ^ (d - 1)) < y \<longleftrightarrow> 2 ^ (d - 1) < r"
    using jams_less [OF assms(1) dvd] jams_greater [OF assms(1) dvd] assms(2) by simp_all
  moreover have "real q + 1 / 2 = real (q * 2 ^ d + 2 ^ (d - 1)) / 2 ^ d" by (simp add: h(2) field_simps)
  ultimately show "y / 2 ^ d < real q + 1 / 2 \<longleftrightarrow> r < 2 ^ (d - 1)" "real q + 1 / 2 < y / 2 ^ d \<longleftrightarrow> 2 ^ (d - 1) < r"
    by (simp_all add: divide_less_cancel)
qed

text \<open>The low \<open>d\<close> bits cut off after an increment that depends on the mode, and the tie to even.\<close>

definition increment :: "nat \<Rightarrow> nat \<Rightarrow> bool \<Rightarrow> nat" where
  "increment d rm sign =
     (if rm \<noteq> 0 \<and> rm \<noteq> 4 then if rm = (if sign then 2 else 3) then 2 ^ d - 1 else 0 else 2 ^ (d - 1))"

definition cut :: "nat \<Rightarrow> nat \<Rightarrow> bool \<Rightarrow> nat \<Rightarrow> nat" where
  "cut d rm sign s =
     (let q = (s + increment d rm sign) div 2 ^ d
      in if s mod 2 ^ d = 2 ^ (d - 1) \<and> rm = 0 then 2 * (q div 2) else q)"

lemma cut_eq:
  assumes "s = q * 2 ^ d + r" and "r < 2 ^ d" and "1 \<le> d"
  shows "cut d rm sign s =
    q + of_bool (if rm = 0 then 2 ^ (d - 1) < r \<or> 2 ^ (d - 1) = r \<and> odd q
                 else if rm = 4 then 2 ^ (d - 1) \<le> r else rm = (if sign then 2 else 3) \<and> 0 < r)"
proof -
  have two: "2 ^ d = 2 * (2 ^ (d - 1) :: nat)" using assms(3) by (cases d) simp_all
  have q: "(s + c) div 2 ^ d = q + (r + c) div 2 ^ d" for c
    using assms(1) by (simp add: add.assoc)
  have half: "(r + 2 ^ (d - 1)) div 2 ^ d = of_bool (2 ^ (d - 1) \<le> r)"
    using assms(2) two by (auto simp: div_nat_eqI)
  have all: "(r + (2 ^ d - 1)) div 2 ^ d = of_bool (0 < r)"
    using assms(2) by (auto simp: div_nat_eqI)
  have m: "s mod 2 ^ d = r" using assms by simp
  have z: "r div 2 ^ d = 0" using assms(2) by simp
  show ?thesis
    unfolding cut_def increment_def q m using half all z
    by (auto simp: Let_def)
qed

lemma round_code:
  assumes "jams g s y" and "g < d" and "s < 2 ^ (k + 1 + d)" and "e = 0 \<or> 2 ^ (k + d) \<le> s"
    and "e * 2 ^ k + s div 2 ^ d < i" and "1 \<le> k"
  shows "rounded k i rm sign (y / 2 ^ d * 2 ^ e) (e * 2 ^ k + cut d rm sign s)"
    and "s mod 2 ^ d \<noteq> 0 \<longleftrightarrow> y / 2 ^ d * 2 ^ e \<noteq> real (fmag k (e * 2 ^ k + cut d rm sign s))"
proof -
  define q r where "q = s div 2 ^ d" and "r = s mod 2 ^ d"
  have s: "s = q * 2 ^ d + r" "r < 2 ^ d" by (simp_all only: q_def r_def div_mult_mod_eq) simp
  have d: "1 \<le> d" using assms(2) by simp
  define x where "x = y / 2 ^ d"
  note parts = jams_parts [OF assms(1) s assms(2), folded x_def]
  note low = parts(1-3) and half = parts(4,5)
  have "q < 2 ^ (k + 1)" using assms(3) by (simp add: q_def less_mult_imp_div_less power_add)
  moreover have "e = 0 \<or> 2 ^ k \<le> q" using assms(4) by (auto simp: q_def power_add less_eq_div_iff_mult_less_eq)
  ultimately have mag: "real (fmag k (e * 2 ^ k + q)) = real q * 2 ^ e"
    "real (fmag k (Suc (e * 2 ^ k + q))) = (real q + 1) * 2 ^ e"
    using fmag_code [of q k e] fmag_code [of "Suc q" k e] by (auto simp: algebra_simps)
  let ?n = "e * 2 ^ k + q"
  have scale: "z * 2 ^ e < w * 2 ^ e \<longleftrightarrow> z < w" "z * 2 ^ e = w * 2 ^ e \<longleftrightarrow> z = w" "0 < z * 2 ^ e \<longleftrightarrow> 0 < z"
     "z * 2 ^ e \<le> w * 2 ^ e \<longleftrightarrow> z \<le> w" for z w :: real by (simp_all add: zero_less_mult_iff)
  have dist: "x * 2 ^ e - real (fmag k ?n) = (x - real q) * 2 ^ e"
    "real (fmag k (Suc ?n)) - x * 2 ^ e = (real q + 1 - x) * 2 ^ e"
    unfolding mag by (simp_all add: algebra_simps)
  have "real (fmag k ?n) \<le> x * 2 ^ e" "x * 2 ^ e < real (fmag k (Suc ?n))" "?n < i"
    unfolding mag scale using low assms(5) by (simp_all add: q_def)
  note br = rounded_bracket [OF this, of rm sign, unfolded dist, unfolded round_up_def scale]
  have up: "real q + 1 - x < x - real q \<longleftrightarrow> 2 ^ (d - 1) < r" "real q + 1 - x = x - real q \<longleftrightarrow> 2 ^ (d - 1) = r"
    "real q + 1 - x \<le> x - real q \<longleftrightarrow> 2 ^ (d - 1) \<le> r" "0 < x - real q \<longleftrightarrow> 0 < r"
  proof -
    have "real q + 1 - x < x - real q \<longleftrightarrow> real q + 1 / 2 < x" "real q + 1 - x \<le> x - real q \<longleftrightarrow> \<not> x < real q + 1 / 2" by auto
    then show "real q + 1 - x < x - real q \<longleftrightarrow> 2 ^ (d - 1) < r" "real q + 1 - x \<le> x - real q \<longleftrightarrow> 2 ^ (d - 1) \<le> r"
      using half by (simp_all add: not_less)
    then show "real q + 1 - x = x - real q \<longleftrightarrow> 2 ^ (d - 1) = r" by linarith
    show "0 < x - real q \<longleftrightarrow> 0 < r" using low by auto
  qed
  have odd: "odd ?n \<longleftrightarrow> odd q" using assms(6) by simp
  define b where "b = (if rm = 0 then 2 ^ (d - 1) < r \<or> 2 ^ (d - 1) = r \<and> odd q
    else if rm = 4 then 2 ^ (d - 1) \<le> r else rm = (if sign then 2 else 3) \<and> 0 < r)"
  have n: "e * 2 ^ k + cut d rm sign s = (if b then Suc ?n else ?n)"
    unfolding cut_eq [OF s d] b_def [symmetric] by simp
  show "rounded k i rm sign (y / 2 ^ d * 2 ^ e) (e * 2 ^ k + cut d rm sign s)"
    using br unfolding n b_def up odd x_def [symmetric] .
  have "r = 0 \<Longrightarrow> \<not> b" by (simp add: b_def)
  then show "s mod 2 ^ d \<noteq> 0 \<longleftrightarrow> y / 2 ^ d * 2 ^ e \<noteq> real (fmag k (e * 2 ^ k + cut d rm sign s))"
    unfolding n if_distrib [of "\<lambda>n. real (fmag k n)"] mag x_def [symmetric] r_def [symmetric]
    using low by (auto simp: scale split: if_splits)
qed

lemma cut_le: "1 \<le> d \<Longrightarrow> cut d rm sign s \<le> s div 2 ^ d + 1"
  and cut_ge: "1 \<le> d \<Longrightarrow> s div 2 ^ d \<le> cut d rm sign s"
  using cut_eq [OF div_mult_mod_eq [symmetric], of s d rm sign] by simp_all

lemma increment_less: "1 \<le> d \<Longrightarrow> increment d rm sign < 2 ^ d"
  by (simp add: increment_def)

lemma round_code_flag:
  assumes "jams g s y" and "g < d" and "s < 2 ^ (k + 1 + d)" and "e = 0 \<or> 2 ^ (k + d) \<le> s"
    and "e * 2 ^ k + s div 2 ^ d < i" and "1 \<le> k"
  shows "s mod 2 ^ d \<noteq> 0 \<longleftrightarrow> y / 2 ^ d * 2 ^ e \<noteq> real (fmag k (e * 2 ^ k + cut d rm sign s))
    \<or> i \<le> e * 2 ^ k + cut d rm sign s"
proof -
  have "e * 2 ^ k + cut d rm sign s < i" if "s mod 2 ^ d = 0"
    using cut_eq [OF div_mult_mod_eq [symmetric], of s d rm sign] that assms(2,5) by simp
  then show ?thesis using round_code(2) [OF assms, of rm sign] by auto
qed

lemma scale_powi:
  assumes "0 \<le> ex"
  shows "(y :: real) * 2 powi (ex - int d) = y / 2 ^ d * 2 ^ nat ex"
proof -
  have "(2 :: real) powi (ex - int d) = 2 powi ex / 2 powi int d" by (rule power_int_diff) simp
  also have "\<dots> = 2 ^ nat ex / 2 ^ d" using assms by (simp add: power_int_def)
  finally have p: "(2 :: real) powi (ex - int d) = 2 ^ nat ex / 2 ^ d" .
  show ?thesis unfolding p by simp
qed

lemma scale_powi_neg:
  assumes "ex < 0"
  shows "(y :: real) * 2 powi (ex - int d) = y / 2 ^ nat (- ex) / 2 ^ d * 2 ^ 0"
proof -
  have "(2 :: real) powi (ex - int d) = 2 powi ex / 2 powi int d" by (rule power_int_diff) simp
  also have "\<dots> = inverse (2 ^ nat (- ex)) / 2 ^ d"
    using assms by (simp add: power_int_def power_one_over inverse_eq_divide)
  finally have p: "(2 :: real) powi (ex - int d) = inverse (2 ^ nat (- ex)) / 2 ^ d" .
  show ?thesis unfolding p by (simp add: divide_inverse)
qed

end
