(* ===== verification/Softfloat_Rounding.thy ===== *)
theory Softfloat_Rounding
  imports Softfloat_Base Float_Rounding
begin

text \<open>
  The shifts, the count of leading zeros and the rounding functions of \<^verbatim>\<open>Softfloat_Base\<close> against
  \<^verbatim>\<open>Float_Rounding\<close>: a significand that stands for the exact value up to a sticky bit is packed as the
  correctly rounded number.
\<close>

section \<open>Shifts and leading zeros\<close>

lemma unat_bound: "unat (a :: 'a::len word) < 2 ^ LENGTH('a)"
  by (rule unsigned_less)

lemma unat_or_of_bool: "unat (w OR of_bool b :: 'a::len word) = (if b \<and> even (unat w) then unat w + 1 else unat w)"
proof -
  have "unat (w OR of_bool b) = unat w OR of_bool b" by (cases b) (simp_all only: unsigned_or_eq of_bool_eq unsigned_1 unsigned_0)
  also have "\<dots> = (if b \<and> even (unat w) then unat w + 1 else unat w)"
    by (cases b) (simp_all only: of_bool_eq or_one_eq or.right_neutral, auto)
  finally show ?thesis .
qed

lemma unat_and_not_1: "unat (w AND NOT 1 :: 'a::len word) = 2 * (unat w div 2)"
proof (rule bit_eqI)
  fix n
  show "bit (unat (w AND NOT 1)) n = bit (2 * (unat w div 2)) n"
    by (cases n) (auto simp: bit_unsigned_iff bit_and_iff bit_not_iff bit_double_iff bit_1_iff
        simp flip: bit_Suc dest: bit_imp_le_length)
qed

lemma take_bit_word_zero_iff: "take_bit d (a :: 'a::len word) = 0 \<longleftrightarrow> unat a mod 2 ^ d = 0"
proof -
  have "unat (take_bit d a) = take_bit d (unat a)" by (rule unsigned_take_bit_eq)
  also have "\<dots> = unat a mod 2 ^ d" by (rule take_bit_eq_mod)
  finally have "unat (take_bit d a) = unat a mod 2 ^ d" .
  then show ?thesis by (metis unat_eq_zero)
qed

lemma push_bit_zero_iff_mod:
  assumes "d \<le> LENGTH('a)"
  shows "push_bit (LENGTH('a) - d) (a :: 'a::len word) = 0 \<longleftrightarrow> unat a mod 2 ^ d = 0"
proof -
  have "push_bit (LENGTH('a) - d) a = 0 \<longleftrightarrow> take_bit d a = 0"
  proof
    assume "push_bit (LENGTH('a) - d) a = 0"
    then have "\<not> bit (push_bit (LENGTH('a) - d) a) (n + (LENGTH('a) - d))" for n by simp
    then show "take_bit d a = 0" 
      using assms by (intro bit_eqI) (auto simp: bit_push_bit_iff bit_take_bit_iff dest: bit_imp_le_length)
  next
    assume "take_bit d a = 0"
    then have "\<not> bit (take_bit d a) n" for n by simp
    then show "push_bit (LENGTH('a) - d) a = 0"
      using assms by (intro bit_eqI) (auto simp: bit_push_bit_iff bit_take_bit_iff)
  qed
  then show ?thesis by (simp add: take_bit_word_zero_iff)
qed

lemma shr_jam_big:
  assumes "s < 2 ^ Suc d"
  shows "shr_jam s d = of_bool (s \<noteq> 0)"
proof (cases "s < 2 ^ d")
  case False
  then have "s div 2 ^ d = 1" using assms by (intro div_nat_eqI) auto
  then show ?thesis using False by (cases "s = 0") (simp_all add: shr_jam_def)
qed (simp add: shr_jam_def)

lemma unat_drop_bit_div: "unat (drop_bit d a :: 'a::len word) = unat a div 2 ^ d"
  by (metis unat_drop_bit_eq drop_bit_eq_div)

lemma unat_jam:
  assumes "b \<longleftrightarrow> unat a mod 2 ^ d \<noteq> 0"
  shows "unat (drop_bit d a OR of_bool b :: 'a::len word) = shr_jam (unat a) d"
  unfolding unat_or_of_bool unat_drop_bit_div assms shr_jam_def by simp

lemma unat_shiftRightJam32:
  assumes "1 \<le> d"
  shows "unat (softfloat_shiftRightJam32 a d) = shr_jam (unat a) d"
proof (cases "d < 31")
  case True
  have "(push_bit ((32 - d) mod 32) a \<noteq> 0) \<longleftrightarrow> unat a mod 2 ^ d \<noteq> 0"
    using push_bit_zero_iff_mod [of d a] True assms by simp
  then show ?thesis
    using True by (simp only: softfloat_shiftRightJam32_def if_True unat_jam [OF refl])
next
  case False
  have "unat a < 2 ^ Suc d"
    using unat_bound [of a] False power_increasing [of 32 "Suc d" "2 :: nat"] by simp
  then show ?thesis using False by (simp add: softfloat_shiftRightJam32_def shr_jam_big unat_eq_zero)
qed

lemma unat_shiftRightJam64:
  assumes "1 \<le> d"
  shows "unat (softfloat_shiftRightJam64 a d) = shr_jam (unat a) d"
proof (cases "d < 63")
  case True
  have "(push_bit ((64 - d) mod 64) a \<noteq> 0) \<longleftrightarrow> unat a mod 2 ^ d \<noteq> 0"
    using push_bit_zero_iff_mod [of d a] True assms by simp
  then show ?thesis
    using True by (simp only: softfloat_shiftRightJam64_def if_True unat_jam [OF refl])
next
  case False
  have "unat a < 2 ^ Suc d"
    using unat_bound [of a] False power_increasing [of 64 "Suc d" "2 :: nat"] by simp
  then show ?thesis using False by (simp add: softfloat_shiftRightJam64_def shr_jam_big unat_eq_zero)
qed

lemma unat_shortShiftRightJam64:
  "unat (softfloat_shortShiftRightJam64 a d) = shr_jam (unat a) d"
proof -
  have "(push_bit d 1 - 1 :: u64) = mask d" by (simp add: mask_eq_exp_minus_1 push_bit_eq_mult)
  then have "a AND (push_bit d 1 - 1) = take_bit d a" by (simp only: take_bit_eq_mask)
  then show ?thesis
    unfolding softfloat_shortShiftRightJam64_def by (intro unat_jam) (simp only: take_bit_word_zero_iff)
qed

text \<open>The table has the right count for a byte, the two functions for a word.\<close>

lemma countLeadingZeros8:
  assumes "0 < n" and "n < 256"
  shows "softfloat_countLeadingZeros8 ! n \<le> 7 \<and> 2 ^ (7 - softfloat_countLeadingZeros8 ! n) \<le> n
    \<and> n < 2 ^ (8 - softfloat_countLeadingZeros8 ! n)"
proof -
  have "\<forall>n\<in>set [1..<256]. softfloat_countLeadingZeros8 ! n \<le> 7 \<and> 2 ^ (7 - softfloat_countLeadingZeros8 ! n) \<le> n
    \<and> n < 2 ^ (8 - softfloat_countLeadingZeros8 ! n)"
    by code_simp
  then show ?thesis using assms by simp
qed

lemma unat_push_bit_small: "unat a * 2 ^ d < 2 ^ LENGTH('a) \<Longrightarrow> unat (push_bit d a :: 'a::len word) = unat a * 2 ^ d"
  unfolding unsigned_push_bit_eq push_bit_eq_mult [where 'a = nat] by (rule take_bit_nat_eq_self)

definition leading_zeros :: "nat \<Rightarrow> nat \<Rightarrow> nat \<Rightarrow> bool" where
  "leading_zeros w n c \<longleftrightarrow> c < w \<and> 2 ^ (w - 1 - c) \<le> n \<and> n < 2 ^ (w - c)"

lemma leading_zeros_shift:
  assumes "leading_zeros w (n * 2 ^ d) c" and "0 < n"
  shows "leading_zeros w n (d + c)"
proof -
  have "1 * 2 ^ d \<le> n * (2 :: nat) ^ d" using assms(2) by (intro mult_le_mono1) simp
  also have "\<dots> < 2 ^ (w - c)" using assms(1) by (simp add: leading_zeros_def)
  finally have d: "d < w - c" by simp
  have p: "(2 :: nat) ^ (w - 1 - c) = 2 ^ (w - 1 - (d + c)) * 2 ^ d" "(2 :: nat) ^ (w - c) = 2 ^ (w - (d + c)) * 2 ^ d"
    using d by (simp_all flip: power_add)
  have "2 ^ (w - 1 - (d + c)) \<le> n" "n < 2 ^ (w - (d + c))"
    using assms(1) unfolding leading_zeros_def p by simp_all
  then show ?thesis using d by (simp add: leading_zeros_def)
qed

lemma leading_zeros_up: "leading_zeros w (n div 2 ^ k) c \<Longrightarrow> leading_zeros (w + k) n c"
proof -
  assume a: "leading_zeros w (n div 2 ^ k) c"
  then have p: "(2 :: nat) ^ (w + k - 1 - c) = 2 ^ (w - 1 - c) * 2 ^ k" "(2 :: nat) ^ (w + k - c) = 2 ^ (w - c) * 2 ^ k"
    by (simp_all add: leading_zeros_def flip: power_add)
  show ?thesis
    using a unfolding leading_zeros_def p by (simp add: less_eq_div_iff_mult_less_eq div_less_iff_less_mult)
qed

lemma leading_zeros_byte:
  assumes "n < 2 ^ 32" and "2 ^ 24 \<le> n"
  shows "leading_zeros 32 n (softfloat_countLeadingZeros8 ! (n div 2 ^ 24))"
proof -
  have "0 < n div 2 ^ 24" "n div 2 ^ 24 < 256"
    using assms by (simp_all add: div_greater_zero_iff div_less_iff_less_mult)
  from countLeadingZeros8 [OF this]
  have "leading_zeros 8 (n div 2 ^ 24) (softfloat_countLeadingZeros8 ! (n div 2 ^ 24))"
    unfolding leading_zeros_def by (intro conjI) (simp_all del: div_eq_0_iff)
  from leading_zeros_up [OF this] show ?thesis by simp
qed

text \<open>The last two steps, which both functions share.\<close>

definition clz_steps :: "u32 \<Rightarrow> nat" where
  "clz_steps a =
     (let (count, a) = (if a < 0x10000 then (16, push_bit 16 a) else (0, a));
          (count, a) = (if a < 0x1000000 then (count + 8, push_bit 8 a) else (count, a))
      in count + softfloat_countLeadingZeros8 ! unat (drop_bit 24 a))"

lemma leading_zeros_steps:
  assumes "a \<noteq> 0"
  shows "leading_zeros 32 (unat a) (clz_steps a)"
proof -
  have pos: "0 < unat a" using assms by (simp add: unat_gt_0)
  define c b where "c = (if a < 0x10000 then 16 else 0 :: nat)" and "b = (if a < 0x10000 then push_bit 16 a else a)"
  have b: "unat b = unat a * 2 ^ c" "2 ^ 16 \<le> unat b"
    using pos unsigned_less [of a] unat_push_bit_small [of a 16] by (auto simp: c_def b_def word_less_nat_alt)
  define c' b' where "c' = (if b < 0x1000000 then 8 else 0 :: nat)" and "b' = (if b < 0x1000000 then push_bit 8 b else b)"
  have b': "unat b' = unat b * 2 ^ c'" "2 ^ 24 \<le> unat b'"
    using b(2) unsigned_less [of b] unat_push_bit_small [of b 8] by (auto simp: c'_def b'_def word_less_nat_alt)
  have "unat b' < 2 ^ 32" using unsigned_less [of b'] by simp
  from leading_zeros_byte [OF this b'(2)]
  have "leading_zeros 32 (unat a * 2 ^ (c + c')) (softfloat_countLeadingZeros8 ! unat (drop_bit 24 b'))"
    unfolding b'(1) b(1) unat_drop_bit_div by (simp add: power_add mult.assoc)
  from leading_zeros_shift [OF this pos] show ?thesis
    by (simp add: clz_steps_def c_def b_def c'_def b'_def Let_def split: if_splits)
qed

lemma leading_zeros32: "a \<noteq> 0 \<Longrightarrow> leading_zeros 32 (unat a) (softfloat_countLeadingZeros32 a)"
  using leading_zeros_steps by (simp add: clz_steps_def softfloat_countLeadingZeros32_def)

lemma unat_ucast_high: "unat (ucast (drop_bit 32 (a :: u64)) :: u32) = unat a div 2 ^ 32"
proof -
  have "unat a div 2 ^ 32 < 2 ^ 32" using unat_bound [of a] by (simp add: div_less_iff_less_mult)
  then show ?thesis by (simp only: unsigned_ucast_eq unat_drop_bit_div) (simp add: take_bit_nat_eq_self)
qed

lemma leading_zeros64:
  assumes "a \<noteq> 0"
  shows "leading_zeros 64 (unat a) (softfloat_countLeadingZeros64 a)"
proof (cases "(ucast (drop_bit 32 a) :: u32) = 0")
  case True
  then have "unat a div 2 ^ 32 = 0" using unat_ucast_high [of a] by simp
  then have small: "unat a < 2 ^ 32" by simp
  then have u: "unat (ucast a :: u32) = unat a" by (simp only: unsigned_ucast_eq) (simp add: take_bit_nat_eq_self)
  moreover have "0 < unat a" using assms by (simp add: unat_gt_0)
  ultimately have "ucast a \<noteq> (0 :: u32)" by auto
  from leading_zeros_steps [OF this]
  have "leading_zeros 64 (unat a) (32 + clz_steps (ucast a))"
    unfolding u leading_zeros_def by auto
  moreover have "softfloat_countLeadingZeros64 a = 32 + clz_steps (ucast a)"
    using True by (simp add: softfloat_countLeadingZeros64_def clz_steps_def Let_def)
  ultimately show ?thesis by simp
next
  case False
  have "softfloat_countLeadingZeros64 a = clz_steps (ucast (drop_bit 32 a))"
    using False by (simp add: softfloat_countLeadingZeros64_def clz_steps_def Let_def)
  then show ?thesis
    using leading_zeros_up [OF leading_zeros_steps [OF False, unfolded unat_ucast_high]] by simp
qed

lemma unat_ucast_up: "unat (ucast (a :: u32) :: u64) = unat a"
  using unat_bound [of a] unfolding unsigned_ucast_eq by (simp add: take_bit_nat_eq_self)

lemma unat_ucast_down: "unat (a :: u64) < 2 ^ 32 \<Longrightarrow> unat (ucast a :: u32) = unat a"
  unfolding unsigned_ucast_eq by (simp add: take_bit_nat_eq_self)

section \<open>The fields of a number\<close>

text \<open>The code of the magnitude: everything but the sign. \<open>0xFF\<close> and \<open>0x7FF\<close> above the fraction are the
  codes of infinity.\<close>

definition code32 :: "u32 \<Rightarrow> nat" where "code32 a = unat a mod 2 ^ 31"
definition code64 :: "u64 \<Rightarrow> nat" where "code64 a = unat a mod 2 ^ 63"

abbreviation inf32 :: nat where "inf32 \<equiv> 0xFF * 2 ^ 23"
abbreviation inf64 :: nat where "inf64 \<equiv> 0x7FF * 2 ^ 52"

lemma unat_drop_top: "unat (a :: 'a::len word) < 2 ^ Suc n \<Longrightarrow> drop_bit n a \<noteq> 0 \<longleftrightarrow> 2 ^ n \<le> unat a"
proof -
  have "drop_bit n a = 0 \<longleftrightarrow> unat a div 2 ^ n = 0" by (metis unat_drop_bit_div unat_eq_zero)
  then show ?thesis by (simp add: div_eq_0_iff not_less)
qed

lemma pack32:
  assumes "n = nat ex * 2 ^ 23 + unat sig" and "0 \<le> ex" and "n < 2 ^ 31"
  shows "unat (packToF32UI sign ex sig) = of_bool sign * 2 ^ 31 + n"
    and "signF32UI (packToF32UI sign ex sig) = sign" and "code32 (packToF32UI sign ex sig) = n"
proof -
  have ex: "nat ex < 2 ^ 8" using assms by simp
  then have we: "unat (word_of_int ex :: u32) = nat ex" 
    using assms(2) by (simp add: unsigned_of_int take_bit_int_eq_self)
  have "unat (push_bit 23 (word_of_int ex) :: u32) = nat ex * 2 ^ 23"
    unfolding we [symmetric] using ex we by (intro unat_push_bit_small) simp
  moreover have "unat (push_bit 31 (of_bool sign) :: u32) = of_bool sign * 2 ^ 31" by (cases sign) simp_all
  ultimately show u: "unat (packToF32UI sign ex sig) = of_bool sign * 2 ^ 31 + n"
    using assms(1,3) unfolding packToF32UI_def
    by (cases sign) (simp_all add: unat_word_ariths)
  show "code32 (packToF32UI sign ex sig) = n" using assms(3) by (simp add: code32_def u)
  have "2 ^ 31 \<le> of_bool sign * 2 ^ 31 + n \<longleftrightarrow> sign" using assms(3) by (cases sign) simp_all
  then show "signF32UI (packToF32UI sign ex sig) = sign"
    unfolding signF32UI_def using unat_drop_top [of "packToF32UI sign ex sig" 31] unat_bound [of "packToF32UI sign ex sig"]
    by (simp add: u)
qed

lemma unat_and_mask_mod: "m = mask d \<Longrightarrow> unat (a AND m :: 'a::len word) = unat a mod 2 ^ d"
  by (simp only: flip: take_bit_eq_mask) (simp only: unsigned_take_bit_eq [where 'b = 'a and 'a = nat] take_bit_eq_mod [where 'a = nat])

lemma unat_clear_low:
  "unat (w AND NOT (of_bool b) :: 'a::len word) = (if b then 2 * (unat w div 2) else unat w)"
  using unat_and_not_1 [of w] by (cases b) simp_all

lemma cut_word:
  fixes sig inc :: "'a::len word"
  assumes "unat sig + unat inc < 2 ^ LENGTH('a)" and "unat inc = increment d rm sign"
    and "b \<longleftrightarrow> unat sig mod 2 ^ d = 2 ^ (d - 1) \<and> rm = 0"
  shows "unat (drop_bit d (sig + inc) AND NOT (of_bool b)) = cut d rm sign (unat sig)"
proof -
  have "unat (sig + inc) = unat sig + unat inc" using assms(1) by (simp add: unat_add_lem [THEN iffD1])
  then show ?thesis
    unfolding unat_clear_low unat_drop_bit_div cut_def assms(2,3) by (simp add: Let_def)
qed

section \<open>Single precision\<close>

lemma increment32: "unat (roundIncrementF32 rm sign) = increment 7 rm sign"
  by (simp add: roundIncrementF32_def increment_def)

lemma low_bits32: "unat (sig AND 0x7F :: u32) = unat sig mod 2 ^ 7"
  by (rule unat_and_mask_mod) (simp add: mask_eq_exp_minus_1)

lemma roundPackF32_end_code:
  assumes "unat sig < 2 ^ 31" and "0 \<le> ex" and "ex = 0 \<or> 2 ^ 30 \<le> unat sig"
    and "nat ex * 2 ^ 23 + unat sig div 2 ^ 7 < inf32"
    and "r = roundPackF32_end rm sign ex sig (sig AND 0x7F)"
  shows "signF32UI (fst r) = sign" and "code32 (fst r) = nat ex * 2 ^ 23 + cut 7 rm sign (unat sig)"
    and "snd r = of_bool (unat sig mod 2 ^ 7 \<noteq> 0)"
proof -
  define b where "b \<longleftrightarrow> sig AND 0x7F = 0x40 \<and> rm = softfloat_round_near_even"
  define q where "q = drop_bit 7 (sig + roundIncrementF32 rm sign) AND NOT (of_bool b)"
  have b: "b \<longleftrightarrow> unat sig mod 2 ^ 7 = 2 ^ (7 - 1) \<and> rm = 0"
    unfolding b_def low_bits32 [symmetric] by (simp add: word_unat_eq_iff)
  have q: "unat q = cut 7 rm sign (unat sig)"
    unfolding q_def using assms(1) increment_less [of 7 rm sign] by (intro cut_word b increment32) (simp add: increment32)
  have bound: "nat ex * 2 ^ 23 + unat q < 2 ^ 31" using assms(4) cut_le [of 7 rm sign "unat sig"] by (simp add: q)
  have "ex = 0" if "q = 0"
  proof -
    have "unat sig div 2 ^ 7 = 0" using cut_ge [of 7 "unat sig" rm sign] q that by simp
    then show ?thesis using assms(3) by auto
  qed
  then have r: "r = (packToF32UI sign ex q, of_bool (sig AND 0x7F \<noteq> 0))"
    unfolding assms(5) roundPackF32_end_def q_def b_def by (auto simp: Let_def)
  show "signF32UI (fst r) = sign" "code32 (fst r) = nat ex * 2 ^ 23 + cut 7 rm sign (unat sig)"
    unfolding r fst_conv using pack32(2,3) [OF refl assms(2) bound] q by simp_all
  have "sig AND 0x7F \<noteq> 0 \<longleftrightarrow> unat sig mod 2 ^ 7 \<noteq> 0"
    unfolding low_bits32 [symmetric] by (simp add: unat_eq_zero)
  then show "snd r = of_bool (unat sig mod 2 ^ 7 \<noteq> 0)" by (simp add: r)
qed

text \<open>
  The result of packing the magnitude \<open>x\<close> (in units of the smallest subnormal): the sign, the rounded
  code, and the flags. Overflow is raised when \<open>x\<close>, rounded with one more exponent, is not
  below the magnitude after the largest finite one. Underflow is raised when the result is inexact and \<open>x\<close> is tiny
  after rounding: with one more exponent below, which doubling \<open>x\<close> gives room for, it would still be rounded below
  the smallest normal number. Nothing else is raised.
\<close>

definition over32 :: "nat \<Rightarrow> bool \<Rightarrow> real \<Rightarrow> bool" where
  "over32 rm sign x \<longleftrightarrow> (\<exists>m\<ge>inf32. rounded 23 (Suc inf32) rm sign x m)"

definition tiny32 :: "nat \<Rightarrow> bool \<Rightarrow> real \<Rightarrow> bool" where
  "tiny32 rm sign x \<longleftrightarrow> (\<exists>m<2 ^ 24. rounded 23 inf32 rm sign (2 * x) m)"

definition packs32 :: "nat \<Rightarrow> bool \<Rightarrow> real \<Rightarrow> u32 \<times> ulong \<Rightarrow> bool" where
  "packs32 rm sign x r \<longleftrightarrow> signF32UI (fst r) = sign \<and> rounded 23 inf32 rm sign x (code32 (fst r))
     \<and> snd r = (if over32 rm sign x then softfloat_flag_overflow OR softfloat_flag_inexact
                else if x = real (fmag 23 (code32 (fst r))) then 0
                else if tiny32 rm sign x then softfloat_flag_underflow OR softfloat_flag_inexact
                else softfloat_flag_inexact)"

lemma over32_iff: "rounded 23 (Suc inf32) rm sign x m \<Longrightarrow> over32 rm sign x \<longleftrightarrow> inf32 \<le> m"
  unfolding over32_def using rounded_unique by blast

lemma tiny32_iff: "rounded 23 inf32 rm sign (2 * x) m \<Longrightarrow> tiny32 rm sign x \<longleftrightarrow> m < 2 ^ 24"
  unfolding tiny32_def using rounded_unique by blast

lemma fmag23_small: "n \<le> 2 ^ 24 \<Longrightarrow> fmag 23 n = n"
  using fmag_code [of n 23 0] by simp

lemma not_over32:
  assumes "0 \<le> x" and "x \<le> real (fmag 23 n)" and "n < inf32"
  shows "\<not> over32 rm sign x"
proof -
  obtain m where m: "rounded 23 (Suc inf32) rm sign x m" using rounded_exists [OF assms(1) zero_less_Suc] by blast
  have "m \<le> n" using assms by (intro rounded_le [OF m]) simp_all
  then show ?thesis using over32_iff [OF m] assms(3) by simp
qed

lemma not_tiny32:
  assumes "2 ^ 23 \<le> x"
  shows "\<not> tiny32 rm sign x"
proof -
  have "2 ^ 24 \<le> m" if "rounded 23 inf32 rm sign (2 * x) m" for m
    using assms by (intro rounded_ge [OF that]) (simp_all add: fmag23_small)
  then show ?thesis by (auto simp: tiny32_def not_less [symmetric])
qed

lemma tiny32:
  assumes "0 \<le> x" and "x \<le> 2 ^ 22"
  shows "tiny32 rm sign x"
proof -
  have "0 \<le> 2 * x" "0 < inf32" using assms by simp_all
  then obtain m where m: "rounded 23 inf32 rm sign (2 * x) m" using rounded_exists by blast
  have "m \<le> 2 ^ 23" using assms by (intro rounded_le [OF m]) (simp_all add: fmag23_small)
  then show ?thesis using tiny32_iff [OF m] by simp
qed

text \<open>A significand \<open>sig\<close> that stands for \<open>y\<close> is packed as the number \<open>y * 2\<^bsup>ex - 7\<^esup>\<close>, rounded.\<close>

lemma packs32_end:
  assumes "unat sig < 2 ^ 31" and "0 \<le> ex" and "ex = 0 \<or> 2 ^ 30 \<le> unat sig"
    and "nat ex * 2 ^ 23 + cut 7 rm sign (unat sig) < inf32" and "jams 2 (unat sig) y"
    and "x = y / 2 ^ 7 * 2 ^ nat ex" and "r = roundPackF32_end rm sign ex sig (sig AND 0x7F)"
  shows "signF32UI (fst r) = sign" and "rounded 23 inf32 rm sign x (code32 (fst r))" 
    and "\<not> over32 rm sign x" and "sig AND 0x7F = 0 \<longleftrightarrow> x = real (fmag 23 (code32 (fst r)))"
    and "snd r = of_bool (sig AND 0x7F \<noteq> 0)"
proof -
  have small: "nat ex * 2 ^ 23 + unat sig div 2 ^ 7 < inf32" using assms(4) cut_ge [of 7 "unat sig" rm sign] by simp
  have c: "unat sig < 2 ^ (23 + 1 + 7)" "nat ex = 0 \<or> 2 ^ (23 + 7) \<le> unat sig" using assms(1-3) by auto
  note e = roundPackF32_end_code [OF assms(1-3) small assms(7)]
  note code = round_code [OF assms(5) _ c, folded assms(6)]
  show "signF32UI (fst r) = sign" by (rule e(1))
  show "rounded 23 inf32 rm sign x (code32 (fst r))" unfolding e(2) using small by (intro code(1)) simp_all
  have "rounded 23 (Suc inf32) rm sign x (nat ex * 2 ^ 23 + cut 7 rm sign (unat sig))" 
    using small by (intro code(1)) simp_all
  then show "\<not> over32 rm sign x" using over32_iff assms(4) by (metis not_le)
  have z: "sig AND 0x7F = 0 \<longleftrightarrow> unat sig mod 2 ^ 7 = 0" unfolding low_bits32 [symmetric] by (simp add: unat_eq_zero)
  have "unat sig mod 2 ^ 7 \<noteq> 0 \<longleftrightarrow> x \<noteq> real (fmag 23 (code32 (fst r)))"
    unfolding e(2) using small by (intro code(2) [where i = inf32]) simp_all
  with z show "sig AND 0x7F = 0 \<longleftrightarrow> x = real (fmag 23 (code32 (fst r)))" by argo
  show "snd r = of_bool (sig AND 0x7F \<noteq> 0)" unfolding e(3) z ..
qed

lemma packs32_over:
  assumes "2 ^ 23 * 2 ^ 254 \<le> x" and "inc = roundIncrementF32 rm sign"
  shows "packs32 rm sign x (packToF32UI sign 0xFF 0 - of_bool (inc = 0), softfloat_flag_overflow OR softfloat_flag_inexact)"
proof -
  have "fmag 23 inf32 = 2 ^ 23 * 2 ^ 254" using fmag_code [of "2 ^ 23" 23 254] by simp
  then have "real (fmag 23 inf32) \<le> x" using assms(1) by (simp only: of_nat_mult of_nat_power of_nat_numeral)
  note over = rounded_over [OF this, of rm sign]
  have zero: "inc = 0 \<longleftrightarrow> \<not> (rm = 0 \<or> rm = 4 \<or> rm = (if sign then 2 else 3))"
    by (simp add: assms(2) roundIncrementF32_def)
  have p: "packToF32UI sign 0xFF 0 - of_bool b = (if b then packToF32UI sign 0xFE 0x7FFFFF else packToF32UI sign 0xFF 0)" for b
    by (cases b) (simp_all add: packToF32UI_def)
  have "0 \<le> x" using assms(1) by (rule order_trans [rotated]) simp
  then obtain m where m: "rounded 23 (Suc inf32) rm sign x m" using rounded_exists [OF _ zero_less_Suc] by blast
  have "inf32 \<le> m" using \<open>real (fmag 23 inf32) \<le> x\<close> by (intro rounded_ge [OF m]) simp_all
  then have "over32 rm sign x" using over32_iff [OF m] by simp
  then show ?thesis
    unfolding packs32_def fst_conv snd_conv p
    using pack32(2,3) [where ex = "0xFE" and sig = "0x7FFFFF" and sign = sign, OF refl]
      pack32(2,3) [where ex = "0xFF" and sig = 0 and sign = sign, OF refl] over zero
    by (cases "inc = 0") simp_all
qed

lemma u32_of_int_ge:
  assumes "-(2 ^ 31) \<le> ex" and "ex < 2 ^ 31"
  shows "0xFD \<le> (word_of_int ex :: u32) \<longleftrightarrow> ex < 0 \<or> 0xFD \<le> ex"
proof (cases "ex < 0")
  case True
  have "take_bit 32 ex = (ex + 2 ^ 32) mod 2 ^ 32" by (simp only: take_bit_eq_mod mod_add_self2)
  also have "\<dots> = ex + 2 ^ 32" using True assms by (intro mod_pos_pos_trivial) simp_all
  finally have "take_bit 32 ex = ex + 2 ^ 32" .
  then show ?thesis using True assms by (simp add: word_le_def uint_word_of_int_eq)
next
  case False
  then show ?thesis using assms by (simp add: word_le_def uint_word_of_int_eq take_bit_int_eq_self)
qed

lemma cut32_bound:
  assumes "n < 2 ^ 31"
  shows "cut 7 rm sign n < 2 ^ 24 \<longleftrightarrow> n + increment 7 rm sign < 2 ^ 31" and "cut 7 rm sign n \<le> 2 ^ 24"
proof -
  have q: "(n + increment 7 rm sign) div 2 ^ 7 \<le> 2 ^ 24"
    using assms increment_less [of 7 rm sign] less_mult_imp_div_less [of "n + increment 7 rm sign" "2 ^ 24 + 1" "2 ^ 7"] by simp
  show "cut 7 rm sign n \<le> 2 ^ 24" using q by (auto simp: cut_def Let_def)
  have "cut 7 rm sign n < 2 ^ 24 \<longleftrightarrow> (n + increment 7 rm sign) div 2 ^ 7 < 2 ^ 24"
    using q by (auto simp: cut_def Let_def)
  then show "cut 7 rm sign n < 2 ^ 24 \<longleftrightarrow> n + increment 7 rm sign < 2 ^ 31"
    by (simp add: div_less_iff_less_mult)
qed

lemma roundPack_subnormal:
  assumes "jams 2 (unat sig) y" and "2 ^ 30 \<le> unat sig" and "unat sig < 2 ^ 31" and "-(2 ^ 31) \<le> ex" and "ex < 0"
  shows "packs32 rm sign (y * 2 powi (ex - 7)) (softfloat_roundPackToF32 rm sign ex sig)"
proof -
  define x where "x = y * 2 powi (ex - 7)"
  have inc: "unat (sig + roundIncrementF32 rm sign) = unat sig + increment 7 rm sign"
    unfolding increment32 [symmetric] using increment_less [of 7 rm sign] assms(3)
    by (intro unat_add_lem [THEN iffD1]) (simp add: increment32)
  define sig' where "sig' = softfloat_shiftRightJam32 sig (nat (- ex))"
  define small where "small \<longleftrightarrow> ex < - 1 \<or> sig + roundIncrementF32 rm sign < 0x80000000"
  define e where "e = roundPackF32_end rm sign 0 sig' (sig' AND 0x7F)"
  have r: "softfloat_roundPackToF32 rm sign ex sig = raising (if small \<and> sig' AND 0x7F \<noteq> 0 then softfloat_flag_underflow else 0) e"
    unfolding softfloat_roundPackToF32_def using assms u32_of_int_ge [of ex] by (simp add: Let_def sig'_def small_def e_def)
  have d: "1 \<le> nat (- ex)" using assms(5) by simp
  have s': "unat sig' = shr_jam (unat sig) (nat (- ex))" unfolding sig'_def by (rule unat_shiftRightJam32 [OF d])
  have "unat sig div 2 ^ nat (- ex) \<le> unat sig div 2 ^ 1" using d by (intro div_le_mono2 power_increasing) simp_all
  then have s'': "unat sig' \<le> 2 ^ 30" using shr_jam_le [of "unat sig" "nat (- ex)"] assms(3) by (simp add: s')
  have j: "jams 2 (unat sig') (y / 2 ^ nat (- ex))"
    unfolding s' using d by (intro jams_mono [OF jams_shift [OF assms(1)]]) simp_all
  have "nat 0 * 2 ^ 23 + cut 7 rm sign (unat sig') < inf32"
    using cut32_bound(2) [of "unat sig'" rm sign] s'' by simp
  note E = packs32_end [OF _ _ _ this j _ e_def, of x]
  have "real (2 ^ 30) \<le> y" "\<not> real (2 ^ 31) \<le> y"
    using jams_ge [OF assms(1) le_imp_power_dvd assms(2)] jams_less [OF assms(1), of "2 ^ 31"] assms(3)
    by (simp_all add: le_imp_power_dvd not_le)
  then have y: "0 \<le> y" "y \<le> 2 ^ 31" by simp_all
  have x: "x = y / 2 ^ nat (- ex) / 2 ^ 7" unfolding x_def using scale_powi_neg [OF assms(5), of y 7] by simp
  have "tiny32 rm sign x \<longleftrightarrow> small"
  proof (cases "ex = - 1")
    case True
    have c: "unat sig < 2 ^ (23 + 1 + 7)" "0 = 0 \<or> 2 ^ (23 + 7) \<le> unat sig" 
       "0 * 2 ^ 23 + unat sig div 2 ^ 7 < inf32" using assms(3) by (auto simp: div_less_iff_less_mult)
    have double: "2 * x = y / 2 ^ 7 * 2 ^ 0" by (simp add: x True)
    then have "rounded 23 inf32 rm sign (2 * x) (cut 7 rm sign (unat sig))"
      unfolding double using round_code(1) [OF assms(1) _ c, of rm sign] by simp
    from tiny32_iff [OF this] show ?thesis
      using cut32_bound(1) [OF assms(3), of rm sign] inc True by (simp add: small_def word_less_nat_alt)
  next
    case False
    have "(2 :: real) ^ 2 \<le> 2 ^ nat (- ex)" using False assms(5) by (intro power_increasing) simp_all
    then have "y / 2 ^ nat (- ex) \<le> 2 ^ 31 / 2 ^ 2" using y by (intro frac_le) simp_all
    then show ?thesis using y False assms(5) by (intro iffI tiny32) (simp_all add: small_def x)
  qed
  then show ?thesis
    using E s'' x unfolding x_def [symmetric] r packs32_def raising_def by auto
qed

theorem roundPackToF32_rounded:
  assumes "jams 2 (unat sig) y" and "2 ^ 30 \<le> unat sig" and "unat sig < 2 ^ 31" and "-(2 ^ 31) \<le> ex" and "ex < 2 ^ 31"
  shows "packs32 rm sign (y * 2 powi (ex - 7)) (softfloat_roundPackToF32 rm sign ex sig)"
proof -
  define inc where "inc = roundIncrementF32 rm sign"
  note ge = u32_of_int_ge [OF assms(4,5)] and scale = scale_powi [of ex y 7, unfolded of_nat_numeral]
  have inc: "unat inc < 2 ^ 7" using increment_less [of 7 rm sign] by (simp add: inc_def increment32)
  have add: "unat (sig + inc) = unat sig + unat inc" using inc assms(3) by (intro unat_add_lem [THEN iffD1]) simp
  consider "ex < 0" | "0xFD < ex" | "ex = 0xFD" "2 ^ 31 \<le> unat sig + unat inc"
    | "0 \<le> ex" "ex \<le> 0xFD" "ex = 0xFD \<Longrightarrow> unat sig + unat inc < 2 ^ 31" by linarith
  then show ?thesis
  proof cases
    case 1
    show ?thesis unfolding inc_def by (rule roundPack_subnormal [OF assms(1-4) 1])
  next
    case 2
    have "real (2 ^ 30) \<le> y" by (rule jams_ge [OF assms(1) le_imp_power_dvd assms(2)]) simp
    then have "2 ^ 23 * 2 ^ 254 \<le> y / 2 ^ 7 * 2 ^ nat ex"
      using 2 by (intro mult_mono power_increasing) simp_all
    moreover have "y * 2 powi (ex - 7) = y / 2 ^ 7 * 2 ^ nat ex" using 2 by (intro scale) simp
    ultimately have "2 ^ 23 * 2 ^ 254 \<le> y * 2 powi (ex - 7)" by metis
    from packs32_over [OF this refl] show ?thesis
      unfolding softfloat_roundPackToF32_def using 2 ge by (simp add: Let_def)
  next
    case 3
    have "inc \<noteq> 0" using 3 assms(3) by auto
    then have r: "softfloat_roundPackToF32 rm sign ex sig =
        (packToF32UI sign 0xFF 0, softfloat_flag_overflow OR softfloat_flag_inexact)"
      unfolding softfloat_roundPackToF32_def using 3 ge add by (simp add: Let_def inc_def word_le_nat_alt)
    have "(unat sig + increment 7 rm sign) div 2 ^ 7 = 2 ^ 24"
      using 3(2) inc assms(3) by (intro div_nat_eqI) (simp_all add: inc_def increment32)
    then have cut: "cut 7 rm sign (unat sig) = 2 ^ 24" by (simp add: cut_def)
    have c: "unat sig < 2 ^ (23 + 1 + 7)" "0xFD = 0 \<or> 2 ^ (23 + 7) \<le> unat sig"
      "0xFD * 2 ^ 23 + unat sig div 2 ^ 7 < inf32"
      using assms by (simp_all add: div_less_iff_less_mult)
    have X: "y * 2 powi (ex - 7) = y / 2 ^ 7 * 2 ^ 0xFD" using scale 3(1) by (simp only: 3(1)) simp
    have "rounded 23 inf32 rm sign (y * 2 powi (ex - 7)) inf32" "rounded 23 (Suc inf32) rm sign (y * 2 powi (ex - 7)) inf32"
      using round_code(1) [OF assms(1) _ c(1,2), of inf32 rm sign] round_code(1) [OF assms(1) _ c(1,2), of "Suc inf32" rm sign]
        c(3) unfolding X cut by simp_all
    then show ?thesis
      unfolding packs32_def r fst_conv snd_conv
      using pack32(2,3) [where ex = "0xFF" and sig = 0 and sign = sign, OF refl] over32_iff by simp
  next
    case 4
    have "\<not> (0xFD < ex \<or> 0x80000000 \<le> sig + inc) \<or> \<not> 0xFD \<le> (word_of_int ex :: u32)"
      using 4 ge add by (cases "ex = 0xFD") (auto simp: word_le_nat_alt)
    then have r: "softfloat_roundPackToF32 rm sign ex sig = roundPackF32_end rm sign ex sig (sig AND 0x7F)"
      unfolding softfloat_roundPackToF32_def inc_def using 4(1) by (auto simp: Let_def)
    have small: "nat ex * 2 ^ 23 + cut 7 rm sign (unat sig) < inf32"
    proof (cases "ex = 0xFD")
      case False
      then have "nat ex < 0xFD" using 4(1,2) by simp
      then show ?thesis using cut32_bound(2) [OF assms(3), of rm sign] by simp
    qed (use cut32_bound(1) [OF assms(3), of rm sign] 4(3) in \<open>simp add: inc_def increment32\<close>)
    have "real (2 ^ 30) \<le> y" by (rule jams_ge [OF assms(1) le_imp_power_dvd assms(2)]) simp
    then have "2 ^ 23 * 2 ^ 0 \<le> y / 2 ^ 7 * 2 ^ nat ex" by (intro mult_mono power_increasing) simp_all
    then have "\<not> tiny32 rm sign (y * 2 powi (ex - 7))" unfolding scale [OF 4(1)] by (intro not_tiny32) simp
    then show ?thesis
      using packs32_end [OF assms(3) 4(1) _ small assms(1) scale [OF 4(1)] r] assms(2) by (simp add: packs32_def)
  qed
qed

end
