(* ===== verification/Softfloat_Words_Value.thy ===== *)
theory Softfloat_Words_Value
  imports Softfloat_Words Softfloat_Rounding
begin

text \<open>
  The natural number that a list of 32 bit words stands for, and what the functions of
  \<^verbatim>\<open>Softfloat_Words\<close> do to it.
\<close>

fun val :: "u32 list \<Rightarrow> nat" where
  "val [] = 0"
| "val (w # ws) = unat w + 2 ^ 32 * val ws"

lemma val_bound: "val ws < 2 ^ (32 * length ws)"
proof (induction ws)
  case (Cons w ws)
  have "unat w + 2 ^ 32 * val ws < 2 ^ 32 + 2 ^ 32 * val ws" using unat_bound [of w] by simp
  also have "\<dots> = 2 ^ 32 * (val ws + 1)" by simp
  also have "\<dots> \<le> 2 ^ 32 * 2 ^ (32 * length ws)" using Cons by (intro mult_le_mono2) simp
  finally show ?case by (simp add: power_add)
qed simp

lemma val_append: "val (xs @ ys) = val xs + 2 ^ (32 * length xs) * val ys"
  by (induction xs) (simp_all add: power_add algebra_simps)

lemma val_replicate_0 [simp]: "val (replicate n 0) = 0"
  by (induction n) simp_all

lemma val_0_iff: "val ws = 0 \<longleftrightarrow> (\<forall>w\<in>set ws. w = 0)"
  by (induction ws) (auto simp: unat_eq_zero)

section \<open>Sums\<close>

lemma word_add_carry:
  fixes a b :: u32
  assumes "z = a + b + of_bool c"
  shows "unat z + 2 ^ 32 * of_bool (if z \<noteq> a then z < a else c) = unat a + unat b + of_bool c"
proof -
  have b: "unat a < 2 ^ 32" "unat b < 2 ^ 32" using unat_bound [of a] unat_bound [of b] by simp_all
  have z: "unat z = (unat a + unat b + of_bool c) mod 2 ^ 32"
    unfolding assms by (cases c) (simp_all add: unat_word_ariths mod_simps)
  show ?thesis
  proof (cases "unat a + unat b + of_bool c < 2 ^ 32")
    case True
    then have u: "unat z = unat a + unat b + of_bool c" using z by simp
    have t: "(if z \<noteq> a then z < a else c) = False"
      using u True by (cases c) (auto simp: word_less_nat_alt word_unat_eq_iff)
    show ?thesis unfolding t using u by simp
  next
    case False
    then have "(unat a + unat b + of_bool c) mod 2 ^ 32 = unat a + unat b + of_bool c - 2 ^ 32"
      using b by (subst le_mod_geq) (cases c; simp)+
    then have u: "unat z + 2 ^ 32 = unat a + unat b + of_bool c" using z False by simp
    have t: "(if z \<noteq> a then z < a else c) = True"
      using u b by (cases c) (auto simp: word_less_nat_alt word_unat_eq_iff)
    show ?thesis unfolding t using u by simp
  qed
qed

lemma addM_loop_length [simp]: "length (addM_loop c as bs) = min (length as) (length bs)"
  by (induction c as bs rule: addM_loop.induct) (simp_all add: Let_def)

lemma mod_up: "(unat (z :: u32) + 2 ^ 32 * n) mod (2 ^ 32 * m) = unat z + 2 ^ 32 * (n mod m)"
  using unat_bound [of z] by (simp add: mod_mult2_eq)

lemma addM_loop_val:
  assumes "length as = length bs"
  shows "val (addM_loop c as bs) = (val as + val bs + of_bool c) mod 2 ^ (32 * length as)"
  using assms
proof (induction as bs arbitrary: c rule: list_induct2)
  case (Cons a as b bs)
  define z where "z = a + b + of_bool c"
  define c' where "c' = (if z \<noteq> a then z < a else c)"
  note z = word_add_carry [OF z_def, folded c'_def]
  have e: "addM_loop c (a # as) (b # bs) = z # addM_loop c' as bs"
    by (simp only: addM_loop.simps Let_def z_def c'_def)
  have p: "(2 :: nat) ^ (32 * length (a # as)) = 2 ^ 32 * 2 ^ (32 * length as)" by (simp add: power_add)
  have "val (z # addM_loop c' as bs) = (unat z + 2 ^ 32 * (val as + val bs + of_bool c')) mod 2 ^ (32 * length (a # as))"
    unfolding p mod_up val.simps Cons.IH ..
  also have "unat z + 2 ^ 32 * (val as + val bs + of_bool c') = val (a # as) + val (b # bs) + of_bool c"
    using z by (simp add: algebra_simps)
  finally show ?case unfolding e .
qed simp

theorem softfloat_addM_val:
  "length as = length bs \<Longrightarrow> val (softfloat_addM as bs) = (val as + val bs) mod 2 ^ (32 * length as)"
  by (simp add: softfloat_addM_def addM_loop_val)

text \<open>The two's complement.\<close>

lemma negXM_loop_length [simp]: "length (negXM_loop c ws) = length ws"
  by (induction c ws rule: negXM_loop.induct) (simp_all add: Let_def)

lemma unat_not: "unat (NOT w :: u32) + unat w = 2 ^ 32 - 1"
proof -
  have "NOT w = - 1 - w" by (simp add: not_eq_complement)
  then have "unat (NOT w) = unat (- 1 :: u32) - unat w" using word_order.extremum [of w] by (simp add: unat_sub)
  then show ?thesis using unat_bound [of w] by (simp add: unsigned_minus_1_eq_mask mask_eq_exp_minus_1)
qed

lemma negXM_loop_val:
  "val (negXM_loop c ws) + val ws = (if c \<and> val ws = 0 then 0 else 2 ^ (32 * length ws) - 1 + of_bool c)"
proof (induction ws arbitrary: c)
  case (Cons w ws)
  define z where "z = NOT w + of_bool c"
  define c' where "c' = (if z \<noteq> 0 then False else c)"
  define m :: nat where "m = 2 ^ (32 * length ws)"
  have m: "1 \<le> m" by (simp add: m_def)
  have p: "(2 :: nat) ^ (32 * length (w # ws)) = 2 ^ 32 * m" by (simp add: power_add m_def)
  have e: "negXM_loop c (w # ws) = z # negXM_loop c' ws"
    by (simp only: negXM_loop.simps Let_def z_def c'_def)
  have not0: "NOT w + 1 = 0 \<longleftrightarrow> w = 0" by (simp add: not_eq_complement)
  have c': "c' \<longleftrightarrow> c \<and> w = 0" unfolding c'_def z_def using not0 by (cases c) auto
  have z: "unat z + unat w = (if c' then 0 else 2 ^ 32 - 1 + of_bool c)"
  proof (cases "c \<and> w \<noteq> 0")
    case True
    then have "0 < unat w" by (simp add: unat_gt_0)
    then have "unat (NOT w) + 1 < 2 ^ 32" using unat_not [of w] by linarith
    then have "unat z = unat (NOT w) + 1" using True by (simp add: z_def unat_word_ariths)
    then show ?thesis using True unat_not [of w] c' by simp
  next
    case False
    then show ?thesis using unat_not [of w] not0 c' by (cases c) (auto simp: z_def)
  qed
  have "val (z # negXM_loop c' ws) + val (w # ws) = (unat z + unat w) + 2 ^ 32 * (val (negXM_loop c' ws) + val ws)"
    by (simp add: algebra_simps)
  also have "\<dots> = (if c \<and> val (w # ws) = 0 then 0 else 2 ^ 32 * m - 1 + of_bool c)"
    unfolding z Cons.IH m_def [symmetric] using c' m
    by (cases c') (auto simp: algebra_simps unat_eq_zero)
  finally show ?case unfolding e p .
qed simp

theorem softfloat_negXM_val: "(val (softfloat_negXM ws) + val ws) mod 2 ^ (32 * length ws) = 0"
  using negXM_loop_val [of True ws] by (simp add: softfloat_negXM_def)

section \<open>Products\<close>

lemma unat_split64: "unat (a :: u64) = unat (ucast a :: u32) + 2 ^ 32 * unat (ucast (drop_bit 32 a) :: u32)"
proof -
  have "unat (ucast a :: u32) = unat a mod 2 ^ 32" unfolding unsigned_ucast_eq take_bit_eq_mod by simp
  then show ?thesis unfolding unat_ucast_high by (metis mod_mult_div_eq)
qed


lemma carry_sum:
  fixes a b :: u64
  shows "unat (a + b) + 2 ^ 64 * of_bool (a + b < a) = unat a + unat b"
    and "unat (a + b) + 2 ^ 64 * of_bool (a + b < b) = unat a + unat b"
proof -
  have b: "unat a < 2 ^ 64" "unat b < 2 ^ 64" using unat_bound [of a] unat_bound [of b] by simp_all
  have u: "unat (a + b) = (unat a + unat b) mod 2 ^ 64" by (simp add: unat_word_ariths)
  have "unat (a + b) + 2 ^ 64 * of_bool (2 ^ 64 \<le> unat a + unat b) = unat a + unat b"
    unfolding u using b by (cases "2 ^ 64 \<le> unat a + unat b") (simp_all add: le_mod_geq)
  moreover from this have "(2 ^ 64 \<le> unat a + unat b) = (a + b < a)" "(2 ^ 64 \<le> unat a + unat b) = (a + b < b)"
    using b by (cases "2 ^ 64 \<le> unat a + unat b"; simp add: word_less_nat_alt)+
  ultimately show "unat (a + b) + 2 ^ 64 * of_bool (a + b < a) = unat a + unat b"
    "unat (a + b) + 2 ^ 64 * of_bool (a + b < b) = unat a + unat b" by simp_all
qed

lemma val_words128: "val [ucast lo, ucast (drop_bit 32 lo), ucast hi, ucast (drop_bit 32 hi)] = unat lo + 2 ^ 64 * unat hi"
  for lo hi :: u64
  unfolding unat_split64 [of lo] unat_split64 [of hi] by simp

lemma unat_mul32: "unat (ucast (x :: u32) * ucast (y :: u32) :: u64) = unat x * unat y"
proof -
  have "unat x * unat y < 2 ^ 32 * 2 ^ 32" using unat_bound [of x] unat_bound [of y] by (intro mult_strict_mono) simp_all
  then show ?thesis by (simp add: unat_word_ariths unat_ucast_up)
qed

text \<open>C24. The product of two 64 bit numbers by four multiplications of their halves, with carries kept
  by comparisons, is exact: the four result words have the value of the product.\<close>

theorem softfloat_mul64To128M_val: "val (softfloat_mul64To128M a b) = unat a * unat b"
proof -
  define a1 a0 b1 b0 where "a1 = (ucast (drop_bit 32 a) :: u32)" and "a0 = (ucast a :: u32)"
    and "b1 = (ucast (drop_bit 32 b) :: u32)" and "b0 = (ucast b :: u32)"
  define z0 mid1 mid2 mid where "z0 = (ucast a0 * ucast b0 :: u64)" and "mid1 = (ucast a1 * ucast b0 :: u64)"
    and "mid2 = (ucast a0 * ucast b1 :: u64)" and "mid = mid1 + mid2"
  define c1 where "c1 \<longleftrightarrow> mid < mid1"
  define high where "high = (push_bit 32 (of_bool c1) OR drop_bit 32 mid :: u64)"
  define low where "low = push_bit 32 mid"
  define c2 where "c2 \<longleftrightarrow> z0 + low < low"
  define z64 where "z64 = (ucast a1 * ucast b1 + high + of_bool c2 :: u64)"
  have r: "softfloat_mul64To128M a b = [ucast (z0 + low), ucast (drop_bit 32 (z0 + low)), ucast z64, ucast (drop_bit 32 z64)]"
    unfolding softfloat_mul64To128M_def Let_def a1_def a0_def b1_def b0_def z0_def mid1_def mid2_def mid_def c1_def
      high_def low_def c2_def z64_def ..
  define M where "M = unat mid"
  define Mq Mr where "Mq = M div 2 ^ 32" and "Mr = M mod 2 ^ 32"
  have M: "M < 2 ^ 64" "M = 2 ^ 32 * Mq + Mr" using unat_bound [of mid] by (simp_all add: M_def Mq_def Mr_def)
  have mid: "M + 2 ^ 64 * of_bool c1 = unat a1 * unat b0 + unat a0 * unat b1"
    using carry_sum(1) [of mid1 mid2] by (simp add: M_def mid_def c1_def mid1_def mid2_def unat_mul32)
  have high: "unat high = 2 ^ 32 * of_bool c1 + Mq"
  proof -
    have "bit (drop_bit 32 mid) 32 = False" by (auto simp: bit_drop_bit_eq dest: bit_imp_le_length)
    then have "drop_bit 32 mid AND 2 ^ 32 = 0" by (intro and_exp_eq_0_iff_not_bit [THEN iffD2]) simp
    from disjunctive_add_eq_or [OF this] have "high = push_bit 32 (of_bool c1) + drop_bit 32 mid"
      unfolding high_def by (cases c1) (simp_all add: or.commute add.commute)
    moreover have "unat (drop_bit 32 mid) = Mq" by (simp add: unat_drop_bit_div M_def Mq_def)
    moreover have "Mq < 2 ^ 32" using M(1) by (simp add: Mq_def div_less_iff_less_mult)
    ultimately show ?thesis by (cases c1) (simp_all add: unat_word_ariths)
  qed
  have low: "unat low = 2 ^ 32 * Mr"
  proof -
    have "unat low = (M * 2 ^ 32) mod (2 ^ 32 * 2 ^ 32)"
      unfolding low_def unsigned_push_bit_eq push_bit_eq_mult [where 'a = nat] take_bit_eq_mod [where 'a = nat] M_def by simp
    then show ?thesis unfolding Mr_def by (simp only: mult.commute [of M] mult_mod_right)
  qed
  have z0: "unat (z0 + low) + 2 ^ 64 * of_bool c2 = unat a0 * unat b0 + 2 ^ 32 * Mr"
    using carry_sum(2) [of z0 low] by (simp add: c2_def low z0_def unat_mul32)
  define X where "X = unat a1 * unat b1 + unat high + of_bool c2"
  have total: "unat (z0 + low) + 2 ^ 64 * X = unat a * unat b"
  proof -
    have "unat a * unat b = unat a0 * unat b0 + 2 ^ 32 * (unat a1 * unat b0 + unat a0 * unat b1) + 2 ^ 64 * (unat a1 * unat b1)"
      unfolding unat_split64 [of a] unat_split64 [of b] a1_def a0_def b1_def b0_def by (simp add: algebra_simps)
    moreover have "unat (z0 + low) + 2 ^ 64 * X = (unat (z0 + low) + 2 ^ 64 * of_bool c2) + 2 ^ 64 * (unat a1 * unat b1)
        + 2 ^ 64 * (2 ^ 32 * of_bool c1 + Mq)"
      unfolding X_def high by (simp add: algebra_simps)
    ultimately show ?thesis unfolding z0 mid [symmetric] using M(2) by (simp add: algebra_simps)
  qed
  have "unat a * unat b < 2 ^ 64 * 2 ^ 64" using unat_bound [of a] unat_bound [of b] by (intro mult_strict_mono) simp_all
  then have "2 ^ 64 * X < 2 ^ 64 * 2 ^ 64" using total by linarith
  then have "X < 2 ^ 64" by simp
  then have "unat z64 = X"
    unfolding z64_def X_def by (cases c2) (simp_all add: unat_word_ariths unat_mul32 mod_simps)
  then show ?thesis unfolding r val_words128 using total by simp
qed


section \<open>Shifts to the right\<close>

lemma shiftRight_loop_length [simp]: "length (shiftRight_loop d p as) = Suc (length as)"
  by (induction as arbitrary: p) simp_all

lemma pow32_split: "d \<le> 32 \<Longrightarrow> (2 :: nat) ^ 32 = 2 ^ (32 - d) * 2 ^ d"
  by (simp flip: power_add)

lemma shiftRight_loop_val:
  assumes "0 < d" and "d < 32" and "unat p < 2 ^ (32 - d)"
  shows "val (shiftRight_loop d p as) = unat p + 2 ^ (32 - d) * val as"
  using assms(3)
proof (induction as arbitrary: p)
  case (Cons w as)
  have dist: "(32 - d) mod 32 = 32 - d" using assms by simp
  have split: "(2 :: nat) ^ 32 = 2 ^ (32 - d) * 2 ^ d" using assms(2) by (intro pow32_split) simp
  have high: "unat (drop_bit d w) < 2 ^ (32 - d)"
    using unat_bound [of w] split by (simp add: unat_drop_bit_div div_less_iff_less_mult)
  have push: "unat (push_bit (32 - d) w) = 2 ^ (32 - d) * (unat w mod 2 ^ d)"
  proof -
    have "unat (push_bit (32 - d) w) = (2 ^ (32 - d) * unat w) mod (2 ^ (32 - d) * 2 ^ d)"
      unfolding unsigned_push_bit_eq push_bit_eq_mult [where 'a = nat] take_bit_eq_mod [where 'a = nat] split [symmetric]
      by (simp add: mult.commute)
    then show ?thesis by (simp only: mult_mod_right)
  qed
  have low: "unat (push_bit (32 - d) w OR p) = 2 ^ (32 - d) * (unat w mod 2 ^ d) + unat p"
  proof -
    have p: "take_bit (32 - d) p = p"
      using Cons.prems by (simp add: word_unat_eq_iff unsigned_take_bit_eq take_bit_nat_eq_self)
    have "\<not> (bit (push_bit (32 - d) w) n \<and> bit p n)" for n
      by (subst p [symmetric]) (auto simp: bit_push_bit_iff bit_take_bit_iff)
    then have "push_bit (32 - d) w AND p = 0" by (intro bit_eqI) (simp add: bit_and_iff)
    from disjunctive_add_eq_or [OF this] have or: "push_bit (32 - d) w OR p = push_bit (32 - d) w + p" by simp
    have "2 ^ (32 - d) * (unat w mod 2 ^ d) + unat p < 2 ^ 32"
    proof -
      have "2 ^ (32 - d) * (unat w mod 2 ^ d) + unat p < 2 ^ (32 - d) * (unat w mod 2 ^ d + 1)" using Cons.prems by simp
      also have "\<dots> \<le> 2 ^ (32 - d) * 2 ^ d" by (intro mult_le_mono2) (simp add: Suc_le_eq)
      finally show ?thesis unfolding split .
    qed
    then show ?thesis unfolding or using push by (subst unat_add_lem [THEN iffD1]) simp_all
  qed
  have "val (shiftRight_loop d p (w # as)) = 2 ^ (32 - d) * (unat w mod 2 ^ d) + unat p
      + 2 ^ 32 * (unat w div 2 ^ d + 2 ^ (32 - d) * val as)"
    using Cons.IH [OF high] low by (simp add: dist unat_drop_bit_div)
  also have "\<dots> = unat p + 2 ^ (32 - d) * (2 ^ d * (unat w div 2 ^ d) + unat w mod 2 ^ d + 2 ^ 32 * val as)"
  proof -
    have "2 ^ 32 * (unat w div 2 ^ d) = 2 ^ (32 - d) * (2 ^ d * (unat w div 2 ^ d))" unfolding split by (simp only: mult.assoc)
    then show ?thesis by (simp only: distrib_left mult.left_commute add.assoc add.left_commute add.commute)
  qed
  also have "2 ^ d * (unat w div 2 ^ d) + unat w mod 2 ^ d = unat w" by (rule mult_div_mod_eq)
  finally show ?case by simp
qed simp

lemma shortShiftRightM_val:
  assumes "0 < d" and "d < 32"
  shows "val (softfloat_shortShiftRightM d ws) = val ws div 2 ^ d"
proof (cases ws)
  case (Cons w as)
  have split: "(2 :: nat) ^ 32 = 2 ^ (32 - d) * 2 ^ d" using assms(2) by (intro pow32_split) simp
  have high: "unat (drop_bit d w) < 2 ^ (32 - d)"
    using unat_bound [of w] split by (simp add: unat_drop_bit_div div_less_iff_less_mult)
  have "val ws = unat w + 2 ^ (32 - d) * val as * 2 ^ d" by (simp only: Cons val.simps split mult.assoc mult.left_commute mult.commute)
  then have "val ws div 2 ^ d = unat w div 2 ^ d + 2 ^ (32 - d) * val as" by simp
  then show ?thesis using shiftRight_loop_val [OF assms high, of as] by (simp add: Cons unat_drop_bit_div)
qed simp

definition odd_up :: "nat \<Rightarrow> nat" where "odd_up n = (if even n then n + 1 else n)"

lemma even_less: "even a \<Longrightarrow> even b \<Longrightarrow> a < b \<Longrightarrow> a + 1 < (b :: nat)"
  by presburger

lemma shr_jam_odd_up: "shr_jam s d = (if s mod 2 ^ d \<noteq> 0 then odd_up (s div 2 ^ d) else s div 2 ^ d)"
  by (simp add: shr_jam_def odd_up_def)

lemma unat_or_1: "unat (w OR 1 :: 'a::len word) = odd_up (unat w)"
  using unat_or_of_bool [of w True] by (simp add: odd_up_def)

lemma shortShiftRightJamM_val:
  assumes "0 < d" and "d < 32"
  shows "val (softfloat_shortShiftRightJamM d ws) = shr_jam (val ws) d"
    and "length (softfloat_shortShiftRightJamM d ws) = length ws"
proof -
  show "length (softfloat_shortShiftRightJamM d ws) = length ws" by (cases ws) (simp_all add: Let_def)
  show "val (softfloat_shortShiftRightJamM d ws) = shr_jam (val ws) d"
  proof (cases ws)
    case (Cons w as)
    define p where "p = drop_bit d w"
    have split: "(2 :: nat) ^ 32 = 2 ^ (32 - d) * 2 ^ d" using assms(2) by (intro pow32_split) simp
    have p: "unat p < 2 ^ (32 - d)" "unat p = unat w div 2 ^ d"
      using unat_bound [of w] split by (simp_all add: p_def unat_drop_bit_div div_less_iff_less_mult)
    have even: "even ((2 :: nat) ^ (32 - d))" using assms by simp
    have p1: "unat (p OR 1) < 2 ^ (32 - d)" unfolding unat_or_1 odd_up_def using p(1) even even_less by simp
    have v: "val ws = unat w + 2 ^ (32 - d) * val as * 2 ^ d" by (simp only: Cons val.simps split mult.assoc mult.left_commute mult.commute)
    then have div: "val ws div 2 ^ d = unat p + 2 ^ (32 - d) * val as" and mod: "val ws mod 2 ^ d = unat w mod 2 ^ d"
      by (simp_all add: p(2))
    have "push_bit d p = w \<longleftrightarrow> unat w mod 2 ^ d = 0"
    proof -
      have "unat w div 2 ^ d * 2 ^ d < 2 ^ 32"
        using unat_bound [of w] by (intro le_less_trans [OF div_times_less_eq_dividend]) simp
      then have "unat (push_bit d p) = unat w div 2 ^ d * 2 ^ d"
        using p(2) by (intro unat_push_bit_small [THEN trans]) simp_all
      then have "push_bit d p = w \<longleftrightarrow> unat w div 2 ^ d * 2 ^ d = unat w" by (simp add: word_unat_eq_iff)
      also have "\<dots> \<longleftrightarrow> unat w mod 2 ^ d = 0" by (metis add.right_neutral add_left_cancel div_mult_mod_eq)
      finally show ?thesis .
    qed
    then have r: "softfloat_shortShiftRightJamM d ws = shiftRight_loop d (if unat w mod 2 ^ d \<noteq> 0 then p OR 1 else p) as"
      by (simp add: Cons p_def [symmetric] Let_def)
    have odd: "odd_up (unat p + 2 ^ (32 - d) * val as) = odd_up (unat p) + 2 ^ (32 - d) * val as"
      using even by (simp add: odd_up_def)
    show ?thesis
      unfolding r shr_jam_odd_up mod div odd
      using shiftRight_loop_val [OF assms p(1), of as] shiftRight_loop_val [OF assms p1, of as] by (simp add: unat_or_1)
  qed (simp add: shr_jam_def)
qed

lemma val_set_low:
  assumes "z \<noteq> []"
  shows "val (z[0 := z ! 0 OR 1]) = odd_up (val z)"
proof -
  obtain w ws where "z = w # ws" using assms by (cases z) auto
  then show ?thesis by (simp add: unat_or_1 odd_up_def)
qed

lemma softfloat_shiftRightJamM_length [simp]: "length (softfloat_shiftRightJamM n ws) = length ws"
proof -
  have "length ((if n mod 32 \<noteq> 0 then softfloat_shortShiftRightJamM (n mod 32) xs else xs) @ replicate k 0) = length xs + k"
    for xs k using shortShiftRightJamM_val(2) [of "n mod 32" xs] by simp
  then show ?thesis by (simp add: softfloat_shiftRightJamM_def Let_def)
qed

theorem softfloat_shiftRightJamM_val:
  assumes "0 < n" and "ws \<noteq> []"
  shows "val (softfloat_shiftRightJamM n ws) = shr_jam (val ws) n"
proof -
  define k i where "k = min (n div 32) (length ws)" and "i = n mod 32"
  define V T where "V = val (drop k ws)" and "T = val (take k ws)"
  define z where "z = (if i \<noteq> 0 then softfloat_shortShiftRightJamM i (drop k ws) else drop k ws) @ replicate k 0"
  have i: "i < 32" by (simp add: i_def)
  have len: "length z = length ws"
    using shortShiftRightJamM_val(2) [of i "drop k ws"] i by (auto simp: z_def k_def)
  have zv: "val z = (if i \<noteq> 0 then shr_jam V i else V)"
    using shortShiftRightJamM_val(1) [of i "drop k ws"] i by (simp add: z_def V_def val_append)
  have jam: "(\<exists>w\<in>set (take k ws). w \<noteq> 0) \<longleftrightarrow> T \<noteq> 0" unfolding T_def val_0_iff by blast
  have "z \<noteq> []" using len assms(2) by auto
  have "softfloat_shiftRightJamM n ws = (if T \<noteq> 0 then z[0 := z ! 0 OR 1] else z)"
    unfolding softfloat_shiftRightJamM_def Let_def k_def [symmetric] i_def [symmetric] z_def [symmetric] jam ..
  then have r: "val (softfloat_shiftRightJamM n ws) = (if T \<noteq> 0 then odd_up (val z) else val z)"
    using val_set_low [OF \<open>z \<noteq> []\<close>] by simp
  have lk: "length (take k ws) = k" by (simp add: k_def)
  have S: "val ws = T + 2 ^ (32 * k) * V"
    using val_append [of "take k ws" "drop k ws"] by (simp only: T_def V_def lk append_take_drop_id)
  have Tb: "T < 2 ^ (32 * k)"
    using val_bound [of "take k ws"] by (simp only: T_def lk)
  have twice: "odd_up (odd_up x) = odd_up x" for x by (simp add: odd_up_def)
  show ?thesis
  proof (cases "n div 32 < length ws")
    case True
    then have n: "n = 32 * k + i" by (simp add: k_def i_def)
    then have p: "(2 :: nat) ^ n = 2 ^ (32 * k) * 2 ^ i" by (simp add: power_add)
    have div: "val ws div 2 ^ n = V div 2 ^ i"
      unfolding p div_mult2_eq S using Tb by simp
    have "val ws mod 2 ^ n = 2 ^ (32 * k) * (V mod 2 ^ i) + T"
      unfolding p mod_mult2_eq S using Tb by simp
    then have mod: "val ws mod 2 ^ n = 0 \<longleftrightarrow> V mod 2 ^ i = 0 \<and> T = 0" by simp
    show ?thesis
      unfolding r zv shr_jam_odd_up div mod by (cases "i = 0"; cases "T = 0"; cases "V mod 2 ^ i = 0") (simp_all add: twice)
  next
    case False
    then have k: "k = length ws" by (simp add: k_def)
    then have V: "V = 0" by (simp add: V_def)
    have "32 * length ws \<le> n" using False by simp
    then have "(2 :: nat) ^ (32 * length ws) \<le> 2 ^ n" by (intro power_increasing) simp_all
    with Tb have "T < 2 ^ n" unfolding k by (rule less_le_trans)
    then show ?thesis unfolding r zv S V by (simp add: shr_jam_def odd_up_def)
  qed
qed

end
