(* ===== verification/Softfloat_Sum32.thy ===== *)
theory Softfloat_Sum32
  imports Softfloat_F32 Softfloat_Rounding
begin

text \<open>
  The sum of two finite single precision numbers is the exact sum, rounded once.
\<close>

section \<open>Operands\<close>

definition finite32 :: "u32 \<Rightarrow> bool" where "finite32 a \<longleftrightarrow> code32 a < inf32"

text \<open>The magnitude in units of the smallest subnormal number.\<close>

definition mag32 :: "u32 \<Rightarrow> real" where "mag32 a = real (fmag 23 (code32 a))"

lemma unat_split31: "unat (a :: u32) = of_bool (signF32UI a) * 2 ^ 31 + code32 a" "code32 a < 2 ^ 31"
proof -
  have b: "unat a < 2 ^ Suc 31" using unat_bound [of a] by simp
  have "unat a div 2 ^ 31 = of_bool (2 ^ 31 \<le> unat a)" using b by (auto intro: div_nat_eqI)
  then have "unat a = of_bool (signF32UI a) * 2 ^ 31 + unat a mod 2 ^ 31"
    unfolding signF32UI_def unat_drop_top [OF b] by (metis div_mult_mod_eq)
  then show "unat a = of_bool (signF32UI a) * 2 ^ 31 + code32 a" by (simp only: code32_def)
  show "code32 a < 2 ^ 31" by (simp add: code32_def)
qed

lemma unat_frac32: "unat (fracF32UI a) = unat a mod 2 ^ 23"
  unfolding fracF32UI_def by (rule unat_and_mask_mod) (simp add: mask_eq_exp_minus_1)

lemma nat_exp32: "nat (expF32UI a) = unat a div 2 ^ 23 mod 2 ^ 8"
proof -
  have "unat (drop_bit 23 a AND 0xFF) = unat (drop_bit 23 a) mod 2 ^ 8"
    by (rule unat_and_mask_mod) (simp add: mask_eq_exp_minus_1)
  then show ?thesis unfolding expF32UI_def unat_drop_bit_div [symmetric] by simp
qed

lemma exp32_bounds: "0 \<le> expF32UI a" "expF32UI a \<le> 255"
proof -
  show p: "0 \<le> expF32UI a" by (simp add: expF32UI_def)
  have "nat (expF32UI a) < 256" unfolding nat_exp32 by simp
  then show "expF32UI a \<le> 255" using p by simp
qed

lemma frac32_bound: "unat (fracF32UI a) < 2 ^ 23" by (simp add: unat_frac32)

lemma code32_fields: "code32 a = nat (expF32UI a) * 2 ^ 23 + unat (fracF32UI a)"
proof -
  have "unat a mod 2 ^ (23 + 8) = 2 ^ 23 * (unat a div 2 ^ 23 mod 2 ^ 8) + unat a mod 2 ^ 23"
    unfolding power_add by (rule mod_mult2_eq)
  then show ?thesis unfolding code32_def nat_exp32 unat_frac32 by simp
qed

lemma finite32_exp: "finite32 a \<longleftrightarrow> expF32UI a < 255"
  using exp32_bounds [of a] frac32_bound [of a] unfolding finite32_def code32_fields by auto

lemma mag32_subnormal: "expF32UI a = 0 \<Longrightarrow> mag32 a = real (unat (fracF32UI a))"
  using frac32_bound [of a] by (simp add: mag32_def code32_fields fmag_def)

lemma mag32_normal:
  assumes "expF32UI a \<noteq> 0"
  shows "mag32 a = real (2 ^ 23 + unat (fracF32UI a)) * 2 powi (expF32UI a - 1)"
proof -
  define e where "e = nat (expF32UI a - 1)"
  have e: "expF32UI a - 1 = int e" "nat (expF32UI a) = Suc e" using exp32_bounds [of a] assms by (simp_all add: e_def)
  have "code32 a = e * 2 ^ 23 + (2 ^ 23 + unat (fracF32UI a))" unfolding code32_fields e(2) by simp
  then have "fmag 23 (code32 a) = (2 ^ 23 + unat (fracF32UI a)) * 2 ^ e"
    using fmag_code [of "2 ^ 23 + unat (fracF32UI a)" 23 e] frac32_bound [of a] by simp
  then show ?thesis unfolding mag32_def e(1) by (simp add: power_int_def)
qed

text \<open>A number is zero when its code is.\<close>

lemma code32_0: "code32 a = 0 \<longleftrightarrow> expF32UI a = 0 \<and> fracF32UI a = 0"
  using exp32_bounds [of a] unfolding code32_fields by (auto simp: unat_eq_zero)

lemma mag32_0: "mag32 a = 0 \<longleftrightarrow> code32 a = 0" by (simp add: mag32_def)

text \<open>The significand shifted by \<open>c\<close> and aligned, as the sums take it.\<close>

definition aligned32 :: "nat \<Rightarrow> u32 \<Rightarrow> nat" where
  "aligned32 c a = unat (fracF32UI a) * 2 ^ c + (if expF32UI a \<noteq> 0 then 2 ^ (23 + c) else unat (fracF32UI a) * 2 ^ c)"

lemma mag32_aligned: "mag32 a = real (aligned32 c a) * 2 powi (expF32UI a - 1 - int c)"
proof -
  have s: "2 powi (x - int c) * 2 ^ c = (2 powi x :: real)" for x :: int
    by (simp add: power_int_diff)
  show ?thesis
  proof (cases "expF32UI a = 0")
    case True
    have "real (aligned32 c a) * 2 powi (0 - 1 - int c) = real (unat (fracF32UI a)) * 2 * (2 powi (- 1 - int c) * 2 ^ c)"
      using True by (simp add: aligned32_def)
    then show ?thesis unfolding s True mag32_subnormal [OF True] by (simp add: power_int_def)
  next
    case False
    have "real (aligned32 c a) = real (2 ^ 23 + unat (fracF32UI a)) * 2 ^ c"
      using False by (simp add: aligned32_def power_add algebra_simps)
    then show ?thesis
      unfolding mag32_normal [OF False] s [of "expF32UI a - 1", symmetric] by simp
  qed
qed

lemma aligned32_bound: "aligned32 c a < 2 ^ (24 + c)"
proof -
  have "unat (fracF32UI a) * 2 ^ c < 2 ^ 23 * 2 ^ c" using frac32_bound [of a] by (intro mult_strict_right_mono) simp_all
  then have key: "unat (fracF32UI a) * 2 ^ c + (if b then 2 ^ 23 * 2 ^ c else unat (fracF32UI a) * 2 ^ c) < 2 * (2 ^ 23 * 2 ^ c)"
    for b by (cases b) (simp_all only: if_True if_False mult_2 add_strict_mono add_less_cancel_right)
  have "(2 :: nat) ^ (23 + c) = 2 ^ 23 * 2 ^ c" "(2 :: nat) ^ (24 + c) = 2 * (2 ^ 23 * 2 ^ c)"
    by (simp_all add: power_add)
  then show ?thesis unfolding aligned32_def using key by (simp only:)
qed

lemma aligned32_top: "expF32UI a \<noteq> 0 \<Longrightarrow> 2 ^ (23 + c) \<le> aligned32 c a"
  by (simp add: aligned32_def)

lemma aligned32_dvd: "2 ^ c dvd aligned32 c a" by (simp add: aligned32_def power_add)

lemma unat_push_frac32: "c \<le> 9 \<Longrightarrow> unat (push_bit c (fracF32UI a)) = unat (fracF32UI a) * 2 ^ c"
proof -
  assume c: "c \<le> 9"
  have "unat (fracF32UI a) * 2 ^ c < 2 ^ 23 * 2 ^ c" using frac32_bound [of a] by (intro mult_strict_right_mono) simp_all
  also have "\<dots> \<le> 2 ^ 32" using c power_increasing [of "23 + c" 32 "2 :: nat"] by (simp add: power_add)
  finally show ?thesis by (intro unat_push_bit_small) simp
qed

lemma unat_aligned32:
  assumes "c \<le> 8" and "unat t = 2 ^ (23 + c)"
  shows "unat (push_bit c (fracF32UI a) + (if expF32UI a \<noteq> 0 then t else push_bit c (fracF32UI a))) = aligned32 c a"
proof -
  have "aligned32 c a < 2 ^ 32" using aligned32_bound [of c a] power_increasing [of "24 + c" 32 "2 :: nat"] assms(1) by simp
  then show ?thesis
    using assms unat_push_frac32 [of c a] unfolding aligned32_def
    by (cases "expF32UI a = 0") (simp_all only: if_True if_False simp_thms, (subst unat_add_lem [THEN iffD1], simp_all)+)
qed

section \<open>Exact results\<close>

lemma packs32_exact:
  assumes "unat sig = q" and "q < 2 ^ 24" and "e = 0 \<or> 2 ^ 23 \<le> q" and "e < 254" and "x = real q * 2 ^ e"
  shows "packs32 rm sign x (packToF32UI sign (int e) sig, 0)"
proof -
  have n: "e * 2 ^ 23 + q < inf32" using assms(2,4) by simp
  have "code32 (packToF32UI sign (int e) sig) = e * 2 ^ 23 + q"
    using n assms(1) by (intro pack32(3)) simp_all
  moreover have "signF32UI (packToF32UI sign (int e) sig) = sign"
    using n assms(1) by (intro pack32(2) [OF refl]) simp_all
  moreover have "fmag 23 (e * 2 ^ 23 + q) = q * 2 ^ e"
    using assms(2,3) by (intro fmag_code) auto
  then have x: "x = real (fmag 23 (e * 2 ^ 23 + q))" using assms(5) by simp
  ultimately show ?thesis
    using rounded_exact [OF n, of 23 rm sign] not_over32 [OF _ _ n, of x rm sign] by (simp add: packs32_def)
qed

lemma packs32_zero: "packs32 rm sign 0 (packToF32UI sign 0 0, 0)"
  using packs32_exact [of 0 0 0 0 rm sign] by simp

section \<open>Normalising and rounding\<close>

lemma powi_shift: "x * 2 ^ n * 2 powi e = (x :: real) * 2 powi (e + int n)"
  by (simp add: power_int_add)

text \<open>Either the significand is exact or it needs no more than one place.\<close>

lemma normRoundPackToF32_rounded:
  assumes "sig \<noteq> 0" and "unat sig < 2 ^ 31" and "y = real (unat sig) \<or> jams 1 (unat sig) y \<and> 2 ^ 29 \<le> unat sig"
    and "-(2 ^ 30) \<le> ex" and "ex < 2 ^ 30"
  shows "packs32 rm sign (y * 2 powi (ex - 7)) (softfloat_normRoundPackToF32 rm sign ex sig)"
proof -
  define c where "c = softfloat_countLeadingZeros32 sig"
  have lz: "c < 32" "2 ^ (31 - c) \<le> unat sig" "unat sig < 2 ^ (32 - c)"
    using leading_zeros32 [OF assms(1)] by (simp_all add: leading_zeros_def c_def)
  have "c \<noteq> 0" using lz(2) assms(2) by (cases c) auto
  then obtain d where d: "c = Suc d" by (cases c) auto
  have p: "(2 :: nat) ^ 30 = 2 ^ (31 - c) * 2 ^ d" "(2 :: nat) ^ 31 = 2 ^ (32 - c) * 2 ^ d"
    using lz(1) d by (simp_all flip: power_add)
  have top: "2 ^ 30 \<le> unat sig * 2 ^ d" "unat sig * 2 ^ d < 2 ^ 31"
    unfolding p using lz by simp_all
  define ex' where "ex' = ex - int d"
  have r: "softfloat_normRoundPackToF32 rm sign ex sig =
      (if 7 \<le> int d \<and> (word_of_int ex' :: u32) < 0xFD
       then (packToF32UI sign ex' (push_bit (nat (int d - 7)) sig), 0)
       else softfloat_roundPackToF32 rm sign ex' (push_bit d sig))"
    using assms(1) unfolding softfloat_normRoundPackToF32_def c_def [symmetric] d ex'_def Let_def by auto
  have ex': "-(2 ^ 31) \<le> ex'" "ex' < 2 ^ 31" using assms(4,5) lz(1) d by (simp_all add: ex'_def)
  have scale: "y * 2 ^ d * 2 powi (ex' - 7) = y * 2 powi (ex - 7)"
    unfolding powi_shift by (simp add: ex'_def algebra_simps)
  show ?thesis
  proof (cases "7 \<le> d \<and> (word_of_int ex' :: u32) < 0xFD")
    case True
    then have e: "0 \<le> ex'" "ex' < 0xFD" using u32_of_int_ge [OF ex'] by (simp_all add: not_le [symmetric])
    have "\<not> 2 ^ 29 \<le> unat sig"
    proof
      assume "2 ^ 29 \<le> unat sig"
      then have "2 ^ 29 * 2 ^ 7 \<le> unat sig * 2 ^ d" using True by (intro mult_le_mono power_increasing) simp_all
      then show False using top(2) by simp
    qed
    then have y: "y = real (unat sig)" using assms(3) by blast
    obtain k where k: "d = k + 7" using True le_Suc_ex [of 7 d] by (auto simp: add.commute)
    have q: "2 ^ 23 \<le> unat sig * 2 ^ k" "unat sig * 2 ^ k < 2 ^ 24" using top unfolding k power_add by simp_all
    then have u: "unat (push_bit k sig) = unat sig * 2 ^ k" by (intro unat_push_bit_small) simp
    have "y * 2 powi (ex - 7) = real (unat sig * 2 ^ k) * 2 ^ nat ex'"
      unfolding scale [symmetric] unfolding y k scale_powi [OF e(1), of _ 7, unfolded of_nat_numeral]
      by (simp add: power_add)
    then have "packs32 rm sign (y * 2 powi (ex - 7)) (packToF32UI sign (int (nat ex')) (push_bit k sig), 0)"
      using q e by (intro packs32_exact [OF u]) auto
    then show ?thesis using True e(1) unfolding r k by simp
  next
    case False
    have u: "unat (push_bit d sig) = unat sig * 2 ^ d" using top by (intro unat_push_bit_small) simp
    have "jams 2 (unat sig * 2 ^ d) (y * 2 ^ d)"
    proof (cases "y = real (unat sig)")
      case True
      then show ?thesis using jams_self [of 2 "unat sig * 2 ^ d"] by simp
    next
      case False
      then have j: "jams 1 (unat sig) y" "2 ^ 29 \<le> unat sig" using assms(3) by blast+
      have "(2 :: nat) ^ 29 * 2 ^ d < 2 ^ 31" using j(2) top(2) by (meson le_less_trans mult_le_mono1)
      then have "(2 :: nat) ^ (29 + d) < 2 ^ 31" by (simp only: power_add)
      then have "29 + d < 31" by (rule power_less_imp_less_exp [rotated]) simp
      then have "d < 2" by simp
      then consider "d = 0" | "d = 1" by linarith
      then show ?thesis using j(1) jams_double [OF j(1)]
        by cases (simp_all add: jams_mono mult.commute numeral_2_eq_2)
    qed
    then have "packs32 rm sign (y * 2 ^ d * 2 powi (ex' - 7)) (softfloat_roundPackToF32 rm sign ex' (push_bit d sig))"
      using top ex' unfolding u [symmetric] by (intro roundPackToF32_rounded)
    then show ?thesis using False unfolding r scale by auto
  qed
qed

section \<open>The sum of the magnitudes\<close>

text \<open>The last step of several functions: the top bit is at place 30 or 29.\<close>

lemma normal_or_double_rounded:
  assumes "jams 1 (unat sigZ) y" and "2 ^ 29 \<le> unat sigZ" and "unat sigZ < 2 ^ 31" and "-(2 ^ 30) \<le> ex" and "ex < 2 ^ 30"
  shows "packs32 rm sign (y * 2 powi (ex - 7))
    (if sigZ < 0x40000000 then softfloat_roundPackToF32 rm sign (ex - 1) (push_bit 1 sigZ)
     else softfloat_roundPackToF32 rm sign ex sigZ)"
proof (cases "sigZ < 0x40000000")
  case True
  then have s: "unat sigZ < 2 ^ 30" by (simp add: word_less_nat_alt)
  have u2: "unat (push_bit 1 sigZ) = 2 * unat sigZ" using s unat_push_bit_small [of sigZ 1] by simp
  have "packs32 rm sign (2 * y * 2 powi (ex - 1 - 7)) (softfloat_roundPackToF32 rm sign (ex - 1) (push_bit 1 sigZ))"
    using s assms(2,4,5) unfolding u2 [symmetric]
    by (intro roundPackToF32_rounded) (unfold u2, use jams_double [OF assms(1)] in \<open>simp_all only: Suc_1\<close>, simp_all)
  moreover have x: "2 * y * 2 powi (ex - 1 - 7) = y * 2 powi (ex - 7)"
    using powi_shift [of y 1 "ex - 1 - 7"] by (simp add: mult.commute)
  ultimately show ?thesis using True unfolding x by (simp only: if_True)
next
  case False
  then have s: "2 ^ 30 \<le> unat sigZ" by (simp add: word_less_nat_alt not_less)
  have "packs32 rm sign (y * 2 powi (ex - 7)) (softfloat_roundPackToF32 rm sign ex sigZ)"
    using jams_mono [OF assms(1), of 2] s assms by (intro roundPackToF32_rounded) simp_all
  then show ?thesis using False by simp
qed

lemma addMagsF32_end_rounded:
  assumes "jams 1 (unat sigA + unat sigB) y" and "2 ^ 29 + unat sigA + unat sigB < 2 ^ 31"
    and "0 \<le> ex" and "ex < 255"
  shows "packs32 rm sign ((2 ^ 29 + y) * 2 powi (ex - 7)) (addMagsF32_end rm sign ex sigA sigB)"
proof -
  define sigZ where "sigZ = 0x20000000 + sigA + sigB"
  have u: "unat sigZ = 2 ^ 29 + (unat sigA + unat sigB)"
    using assms(2) unfolding sigZ_def by (simp add: unat_word_ariths)
  have j: "jams 1 (unat sigZ) (2 ^ 29 + y)"
    using jams_plus [OF assms(1), of "2 ^ 29"] unfolding u by simp
  show ?thesis
    unfolding addMagsF32_end_def Let_def sigZ_def [symmetric]
    using u assms(2-4) by (intro normal_or_double_rounded [OF j]) simp_all
qed

text \<open>The operand with the larger exponent, and the other one shifted to it.\<close>

lemma addMagsF32_end_operands:
  assumes "expF32UI a < expF32UI b" and "finite32 b"
    and "unat sigA = shr_jam (aligned32 6 a) (nat (expF32UI b - expF32UI a))"
    and "sigB = push_bit 6 (fracF32UI b)"
  shows "packs32 rm sign (mag32 a + mag32 b) (addMagsF32_end rm sign (expF32UI b) sigA sigB)"
proof -
  define d where "d = nat (expF32UI b - expF32UI a)"
  have d: "expF32UI a = expF32UI b - int d" "1 \<le> d" using assms(1) by (simp_all add: d_def)
  have eb: "expF32UI b \<noteq> 0" "0 \<le> expF32UI b" "expF32UI b < 255"
    using assms(1,2) exp32_bounds [of a] by (auto simp: finite32_exp)
  have B: "aligned32 6 b = 2 ^ 29 + unat sigB" 
    using eb(1) unat_push_frac32 [of 6 b] by (simp add: aligned32_def assms(4))
  have "jams 1 (unat sigA) (real (aligned32 6 a) / 2 ^ d)"
    using jams_shift [OF jams_self [of 0], of d] assms(3) by (simp add: d_def)
  then have j: "jams 1 (unat sigB + unat sigA) (real (unat sigB) + real (aligned32 6 a) / 2 ^ d)"
    by (rule jams_plus) (simp add: assms(4) unat_push_frac32 dvd_mult)
  have "aligned32 6 a div 2 ^ d \<le> aligned32 6 a div 2 ^ 1" using d(2) by (intro div_le_mono2 power_increasing) simp_all
  then have "unat sigA \<le> 2 ^ 29"
    using shr_jam_le [of "aligned32 6 a" d] aligned32_bound [of 6 a] unfolding assms(3) d_def [symmetric] by simp
  then have s: "2 ^ 29 + unat sigA + unat sigB < 2 ^ 31"
    using aligned32_bound [of 6 b] unfolding B by simp
  have "(real (aligned32 6 a) / 2 ^ d) * 2 powi (expF32UI b - 7) = mag32 a"
    unfolding mag32_aligned [of a 6] d(1) using powi_shift [of "real (aligned32 6 a) / 2 ^ d" d "expF32UI b - int d - 7"]
    by simp
  moreover have "(2 ^ 29 + real (unat sigB)) * 2 powi (expF32UI b - 7) = mag32 b"
    unfolding mag32_aligned [of b 6] B by simp
  ultimately have "(2 ^ 29 + (real (unat sigB) + real (aligned32 6 a) / 2 ^ d)) * 2 powi (expF32UI b - 7) = mag32 a + mag32 b"
    by (simp only: distrib_right)
  then show ?thesis
    using addMagsF32_end_rounded [of sigA sigB _ "expF32UI b" rm sign] j s eb by (metis add.commute)
qed

lemma addMagsF32_end_commute: "addMagsF32_end rm sign ex sigA sigB = addMagsF32_end rm sign ex sigB sigA"
  by (simp add: addMagsF32_end_def Let_def add.commute add.left_commute)

lemma addMagsF32_rounded:
  assumes "finite32 a" and "finite32 b"
  shows "packs32 rm (signF32UI a) (mag32 a + mag32 b) (softfloat_addMagsF32 rm a b)"
proof -
  note ea = exp32_bounds [of a] and eb = exp32_bounds [of b]
  have f: "expF32UI a < 255" "expF32UI b < 255" using assms by (simp_all add: finite32_exp)
  consider "expF32UI a = expF32UI b" "expF32UI a = 0" | "expF32UI a = expF32UI b" "expF32UI a \<noteq> 0"
    | "expF32UI a < expF32UI b" | "expF32UI b < expF32UI a" by linarith
  then show ?thesis
  proof cases
    case 1
    have m: "mag32 a + mag32 b = real (unat (fracF32UI a) + unat (fracF32UI b)) * 2 ^ 0"
      using 1 by (simp add: mag32_subnormal)
    have "a = packToF32UI (signF32UI a) (int 0) (fracF32UI a)"
      using unat_split31 [of a] 1 frac32_bound [of a] pack32(1) [of "unat (fracF32UI a)" 0 "fracF32UI a" "signF32UI a"]
      by (simp add: word_unat_eq_iff code32_fields)
    then have "softfloat_addMagsF32 rm a b = (packToF32UI (signF32UI a) (int 0) (fracF32UI a + fracF32UI b), 0)"
      using 1 by (simp add: softfloat_addMagsF32_def Let_def) (simp add: packToF32UI_def add.assoc)
    moreover have u: "unat (fracF32UI a + fracF32UI b) = unat (fracF32UI a) + unat (fracF32UI b)"
      using frac32_bound [of a] frac32_bound [of b] by (intro unat_add_lem [THEN iffD1]) simp
    moreover have "packs32 rm (signF32UI a) (mag32 a + mag32 b)
        (packToF32UI (signF32UI a) (int 0) (fracF32UI a + fracF32UI b), 0)"
      using frac32_bound [of a] frac32_bound [of b] by (intro packs32_exact [OF u _ _ _ m]) simp_all
    ultimately show ?thesis by simp
  next
    case 2
    define sigZ where "sigZ = 0x01000000 + fracF32UI a + fracF32UI b"
    have u: "unat sigZ = 2 ^ 24 + unat (fracF32UI a) + unat (fracF32UI b)"
      using frac32_bound [of a] frac32_bound [of b] unfolding sigZ_def by (simp add: unat_word_ariths)
    have range: "2 ^ 24 \<le> unat sigZ" "unat sigZ < 2 ^ 25"
      using frac32_bound [of a] frac32_bound [of b] u by simp_all
    have m: "mag32 a + mag32 b = real (unat sigZ) * 2 powi (expF32UI a - 1)"
      using 2 mag32_normal [of a] mag32_normal [of b] u by (simp add: distrib_right)
    define e where "e = nat (expF32UI a - 1)"
    have e: "expF32UI a - 1 = int e" "expF32UI a = int (Suc e)" using 2 ea by (simp_all add: e_def)
    have r: "softfloat_addMagsF32 rm a b =
      (if sigZ AND 1 = 0 \<and> expF32UI a < 0xFE then (packToF32UI (signF32UI a) (expF32UI a) (drop_bit 1 sigZ), 0)
       else softfloat_roundPackToF32 rm (signF32UI a) (expF32UI a) (push_bit 6 sigZ))"
      using 2 f by (simp add: softfloat_addMagsF32_def Let_def sigZ_def)
    show ?thesis
    proof (cases "sigZ AND 1 = 0 \<and> expF32UI a < 0xFE")
      case True
      have "unat (sigZ AND 1) = unat sigZ mod 2 ^ 1" by (rule unat_and_mask_mod) (simp add: mask_eq_exp_minus_1)
      then have ev: "even (unat sigZ)" using True by (simp add: even_iff_mod_2_eq_zero)
      have u1: "unat (drop_bit 1 sigZ) = unat sigZ div 2" by (simp add: unat_drop_bit_div)
      have x: "mag32 a + mag32 b = real (unat sigZ div 2) * 2 ^ Suc e"
        using ev unfolding m e(1) by (auto simp: real_of_nat_div)
      have "packs32 rm (signF32UI a) (mag32 a + mag32 b) (packToF32UI (signF32UI a) (int (Suc e)) (drop_bit 1 sigZ), 0)"
        using range True e by (intro packs32_exact [OF u1 _ _ _ x]) auto
      then show ?thesis unfolding r e(2) [symmetric] using True by simp
    next
      case False
      have u6: "unat (push_bit 6 sigZ) = unat sigZ * 2 ^ 6" using range by (intro unat_push_bit_small) simp
      have "packs32 rm (signF32UI a) (real (unat sigZ * 2 ^ 6) * 2 powi (expF32UI a - 7))
          (softfloat_roundPackToF32 rm (signF32UI a) (expF32UI a) (push_bit 6 sigZ))"
        using range f ea unfolding u6 [symmetric] by (intro roundPackToF32_rounded jams_self) (simp_all add: u6)
      moreover have "real (unat sigZ * 2 ^ 6) * 2 powi (expF32UI a - 7) = mag32 a + mag32 b"
        unfolding m using powi_shift [of "real (unat sigZ)" 6 "expF32UI a - 7"] by simp
      ultimately show ?thesis using False unfolding r by auto
    qed
  next
    case 3
    have "unat (softfloat_shiftRightJam32 (push_bit 6 (fracF32UI a) + (if expF32UI a \<noteq> 0 then 0x20000000 else push_bit 6 (fracF32UI a)))
        (nat (- (expF32UI a - expF32UI b)))) = shr_jam (aligned32 6 a) (nat (expF32UI b - expF32UI a))"
      using 3 by (subst unat_shiftRightJam32, simp) (subst unat_aligned32, simp_all only: minus_diff_eq, simp_all)
    from addMagsF32_end_operands [OF 3 assms(2) this refl, of rm "signF32UI a"]
    show ?thesis using 3 f by (simp add: softfloat_addMagsF32_def Let_def)
  next
    case 4
    have "unat (softfloat_shiftRightJam32 (push_bit 6 (fracF32UI b) + (if expF32UI b \<noteq> 0 then 0x20000000 else push_bit 6 (fracF32UI b)))
        (nat (expF32UI a - expF32UI b))) = shr_jam (aligned32 6 b) (nat (expF32UI a - expF32UI b))"
      using 4 by (subst unat_shiftRightJam32, simp) (subst unat_aligned32, simp_all)
    from addMagsF32_end_operands [OF 4 assms(1) this refl, of rm "signF32UI a"]
    show ?thesis using 4 f addMagsF32_end_commute [of rm "signF32UI a" "expF32UI a" "push_bit 6 (fracF32UI a)"]
      by (simp add: softfloat_addMagsF32_def Let_def add.commute)
  qed
qed

section \<open>The difference of the magnitudes\<close>

lemma subMags_end_rounded:
  assumes "expF32UI a < expF32UI b" and "finite32 b"
    and "unat sigX = aligned32 7 b" and "unat sigY = shr_jam (aligned32 7 a) (nat (expF32UI b - expF32UI a))"
  shows "packs32 rm sign (mag32 b - mag32 a) (softfloat_normRoundPackToF32 rm sign (expF32UI b - 1) (sigX - sigY))"
    and "mag32 a < mag32 b"
proof -
  define d where "d = nat (expF32UI b - expF32UI a)"
  have d: "expF32UI a = expF32UI b - int d" "1 \<le> d" using assms(1) by (simp_all add: d_def)
  have eb: "expF32UI b \<noteq> 0" "0 \<le> expF32UI b" "expF32UI b < 255"
    using assms(1,2) exp32_bounds [of a] by (auto simp: finite32_exp)
  note X = aligned32_top [OF eb(1), of 7] aligned32_bound [of 7 b]
  define Y where "Y = aligned32 7 a"
  have Y: "Y < 2 ^ 31" using aligned32_bound [of 7 a] by (simp add: Y_def)
  have y: "unat sigY = shr_jam Y d" by (simp add: assms(4) Y_def d_def)
  have "Y div 2 ^ d \<le> Y div 2 ^ 1" using d(2) by (intro div_le_mono2 power_increasing) simp_all
  then have half: "unat sigY \<le> Y div 2 + 1" using shr_jam_le [of Y d] by (simp add: y)
  have lt: "unat sigY < 2 ^ 30"
  proof (cases "d = 1")
    case True
    have "Y mod 2 ^ 1 = 0" using aligned32_dvd [of 7 a] unfolding Y_def by (metis dvd_trans le_imp_power_dvd one_le_numeral mod_0_imp_dvd dvd_imp_mod_0)
    then have "unat sigY = Y div 2" unfolding y True by (simp add: shr_jam_def)
    then show ?thesis using Y by simp
  next
    case False
    then have "Y div 2 ^ d \<le> Y div 2 ^ 2" using d(2) by (intro div_le_mono2 power_increasing) simp_all
    then show ?thesis using Y shr_jam_le [of Y d] by (simp add: y)
  qed
  have s: "unat (sigX - sigY) = unat sigX - unat sigY"
    using X lt assms(3) by (simp add: unat_sub word_le_nat_alt)
  have yv: "jams 1 (unat sigY) (real Y / 2 ^ d)"
    using jams_shift [OF jams_self [of 0], of d] by (simp add: y)
  have exact: "real (unat (sigX - sigY)) = real (unat sigX) - real Y / 2 ^ d" if "Y mod 2 ^ d = 0"
  proof -
    have "unat sigY = Y div 2 ^ d" unfolding y using that by (simp add: shr_jam_def)
    moreover have "real (Y div 2 ^ d) = real Y / 2 ^ d" using that by (simp add: real_of_nat_div mod_0_imp_dvd)
    ultimately show ?thesis unfolding s using X lt assms(3) by (simp add: of_nat_diff)
  qed
  have big: "2 ^ 29 \<le> unat (sigX - sigY)" if "Y mod 2 ^ d \<noteq> 0"
  proof -
    have "\<not> d \<le> 7"
    proof
      assume "d \<le> 7"
      then have "2 ^ d dvd Y" using aligned32_dvd [of 7 a] unfolding Y_def by (metis dvd_trans le_imp_power_dvd)
      then show False using that by auto
    qed
    then have "Y div 2 ^ d \<le> Y div 2 ^ 2" by (intro div_le_mono2 power_increasing) simp_all
    then have "unat sigY \<le> 2 ^ 29" using Y shr_jam_le [of Y d] by (simp add: y)
    then show ?thesis using X unfolding s assms(3) by simp
  qed
  have "jams 1 (unat sigX - unat sigY) (real (unat sigX) - real Y / 2 ^ d)"
    using yv
  proof (rule jams_minus)
    have "2 ^ 1 dvd (2 :: nat) ^ 7" by (intro le_imp_power_dvd) simp
    then show "2 ^ 1 dvd unat sigX" unfolding assms(3) using aligned32_dvd [of 7 b] by (rule dvd_trans)
    show "unat sigY \<le> unat sigX" using X lt assms(3) by simp
  qed
  then have j: "real (unat sigX) - real Y / 2 ^ d = real (unat (sigX - sigY))
      \<or> jams 1 (unat (sigX - sigY)) (real (unat sigX) - real Y / 2 ^ d) \<and> 2 ^ 29 \<le> unat (sigX - sigY)"
    using exact big unfolding s by metis
  have ne: "sigX - sigY \<noteq> 0" "unat (sigX - sigY) < 2 ^ 31"
    using s X lt assms(3) by (auto simp: unat_eq_zero simp flip: unat_gt_0)
  have A: "real Y / 2 ^ d * 2 powi (expF32UI b - 1 - 7) = mag32 a"
    unfolding mag32_aligned [of a 7] d(1) Y_def using powi_shift [of "real (aligned32 7 a) / 2 ^ d" d "expF32UI b - int d - 8"]
    by simp
  have B: "real (unat sigX) * 2 powi (expF32UI b - 1 - 7) = mag32 b"
    unfolding mag32_aligned [of b 7] assms(3) by simp
  have "packs32 rm sign ((real (unat sigX) - real Y / 2 ^ d) * 2 powi (expF32UI b - 1 - 7))
      (softfloat_normRoundPackToF32 rm sign (expF32UI b - 1) (sigX - sigY))"
    using eb by (intro normRoundPackToF32_rounded [OF ne j]) simp_all
  moreover have "(real (unat sigX) - real Y / 2 ^ d) * 2 powi (expF32UI b - 1 - 7) = mag32 b - mag32 a"
    unfolding left_diff_distrib A B ..
  ultimately show "packs32 rm sign (mag32 b - mag32 a) (softfloat_normRoundPackToF32 rm sign (expF32UI b - 1) (sigX - sigY))"
    by metis
  have "real Y / 2 ^ d < real (unat sigX)"
  proof -
    have "real Y / 2 ^ d \<le> real Y / 2 ^ 1" using d(2) by (intro divide_left_mono power_increasing) simp_all
    also have "real Y < real (2 ^ 31)" using Y by (simp only: of_nat_less_iff)
    then have "real Y / 2 ^ 1 < 2 ^ 30" by simp
    also have "\<dots> \<le> real (unat sigX)" using X(1) unfolding assms(3) by simp
    finally show ?thesis .
  qed
  then show "mag32 a < mag32 b" unfolding A [symmetric] B [symmetric] by (intro mult_strict_right_mono) simp_all
qed

text \<open>Equal exponents: the difference is exact.\<close>

lemma subMags_equal_exact:
  assumes "expF32UI a = expF32UI b" and "expF32UI a < 255"
    and "unat m = q" and "0 < q" and "q < 2 ^ 23" and "ex = (if expF32UI a \<noteq> 0 then expF32UI a - 1 else expF32UI a)"
    and "shiftDist = int (softfloat_countLeadingZeros32 m) - 8" and "expZ = ex - shiftDist"
  shows "packs32 rm sign (real q * 2 powi ex)
    (packToF32UI sign (if expZ < 0 then 0 else expZ) (push_bit (nat (if expZ < 0 then ex else shiftDist)) m), 0)"
proof -
  define c where "c = softfloat_countLeadingZeros32 m"
  have ex: "0 \<le> ex" "ex < 254" using assms(2,6) exp32_bounds [of a] by (simp_all split: if_splits)
  have m: "m \<noteq> 0" using assms(3,4) by auto
  have lz: "c < 32" "2 ^ (31 - c) \<le> q" "q < 2 ^ (32 - c)"
    using leading_zeros32 [OF m] assms(3) by (simp_all add: leading_zeros_def c_def)
  have "(2 :: nat) ^ (31 - c) < 2 ^ 23" using lz(2) assms(5) by simp
  then have "31 - c < 23" by (rule power_less_imp_less_exp [rotated]) simp
  then have "8 \<le> c" by simp
  define k where "k = c - 8"
  have k: "c = k + 8" "shiftDist = int k" using \<open>8 \<le> c\<close> assms(7) by (simp_all add: k_def c_def)
  have p: "(2 :: nat) ^ 23 = 2 ^ (31 - c) * 2 ^ k" "(2 :: nat) ^ 24 = 2 ^ (32 - c) * 2 ^ k"
    using lz(1) unfolding k(1) by (simp_all flip: power_add)
  have top: "2 ^ 23 \<le> q * 2 ^ k" "q * 2 ^ k < 2 ^ 24" unfolding p using lz by simp_all
  define j where "j = nat (if expZ < 0 then ex else shiftDist)"
  define e where "e = nat (if expZ < 0 then 0 else expZ)"
  have je: "j \<le> k" "int j + int e = ex" "e = 0 \<or> j = k"
    using ex(1) by (auto simp: j_def e_def k(2) assms(8))
  have "q * 2 ^ j \<le> q * 2 ^ k" using je(1) by (intro mult_le_mono2 power_increasing) simp_all
  then have small: "q * 2 ^ j < 2 ^ 24" using top(2) by (rule le_less_trans)
  have u: "unat (push_bit j m) = q * 2 ^ j" using small assms(3) unat_push_bit_small [of m j] by simp
  have "real q * 2 powi ex = real (q * 2 ^ j) * 2 ^ e"
    unfolding je(2) [symmetric] by (simp add: power_int_add)
  moreover have "e = 0 \<or> 2 ^ 23 \<le> q * 2 ^ j" using je(3) top(1) by auto
  moreover have "e < 254" using je(2) ex(2) by simp
  ultimately have "packs32 rm sign (real q * 2 powi ex) (packToF32UI sign (int e) (push_bit j m), 0)"
    by (intro packs32_exact [OF u small])
  moreover have "int e = (if expZ < 0 then 0 else expZ)" by (simp add: e_def)
  ultimately show ?thesis by (simp only: j_def)
qed

text \<open>The signed value.\<close>

definition value32 :: "u32 \<Rightarrow> real" where
  "value32 a = (if signF32UI a then - mag32 a else mag32 a)"

text \<open>\<open>r\<close> is the real number \<open>v\<close> rounded; a zero gets the sign \<open>zero_sign\<close>.\<close>

definition rounds32 :: "nat \<Rightarrow> bool \<Rightarrow> real \<Rightarrow> u32 \<times> ulong \<Rightarrow> bool" where
  "rounds32 rm zero_sign v r \<longleftrightarrow> packs32 rm (if v = 0 then zero_sign else v < 0) \<bar>v\<bar> r"

lemma int_diff_bound: "x < n \<Longrightarrow> y < n \<Longrightarrow> \<bar>int x - int y\<bar> < int n" by linarith

definition subMagsF32_equal :: "nat \<Rightarrow> bool \<Rightarrow> int \<Rightarrow> int \<Rightarrow> u32 \<times> ulong" where
  "subMagsF32_equal rm signA ex D =
     (if D = 0 then (packToF32UI (rm = 2) 0 0, 0)
      else
        let signZ = (if D < 0 then \<not> signA else signA);
            m = word_of_int \<bar>D\<bar> :: u32;
            shiftDist = int (softfloat_countLeadingZeros32 m) - 8;
            expZ = ex - shiftDist
        in (packToF32UI signZ (if expZ < 0 then 0 else expZ)
              (push_bit (nat (if expZ < 0 then ex else shiftDist)) m), 0))"

lemma subMagsF32_cases:
  assumes "finite32 a" and "finite32 b"
  shows "expF32UI a = expF32UI b \<Longrightarrow> softfloat_subMagsF32 rm a b =
      subMagsF32_equal rm (signF32UI a) (if expF32UI a \<noteq> 0 then expF32UI a - 1 else expF32UI a)
        (uint (fracF32UI a) - uint (fracF32UI b))"
    and "expF32UI a < expF32UI b \<Longrightarrow> softfloat_subMagsF32 rm a b =
      softfloat_normRoundPackToF32 rm (\<not> signF32UI a) (expF32UI b - 1)
        ((push_bit 7 (fracF32UI b) OR 0x40000000) - softfloat_shiftRightJam32
          (push_bit 7 (fracF32UI a) + (if expF32UI a \<noteq> 0 then 0x40000000 else push_bit 7 (fracF32UI a)))
          (nat (expF32UI b - expF32UI a)))"
    and "expF32UI b < expF32UI a \<Longrightarrow> softfloat_subMagsF32 rm a b =
      softfloat_normRoundPackToF32 rm (signF32UI a) (expF32UI a - 1)
        ((push_bit 7 (fracF32UI a) OR 0x40000000) - softfloat_shiftRightJam32
          (push_bit 7 (fracF32UI b) + (if expF32UI b \<noteq> 0 then 0x40000000 else push_bit 7 (fracF32UI b)))
          (nat (expF32UI a - expF32UI b)))"
proof -
  let ?d = "expF32UI a - expF32UI b"
  have f: "(expF32UI a = 0xFF) = False" "(expF32UI b = 0xFF) = False" using assms by (auto simp: finite32_exp)
  note def = softfloat_subMagsF32_def Let_def f if_True if_False
  show "softfloat_subMagsF32 rm a b =
      subMagsF32_equal rm (signF32UI a) (if expF32UI a \<noteq> 0 then expF32UI a - 1 else expF32UI a)
        (uint (fracF32UI a) - uint (fracF32UI b))" if "expF32UI a = expF32UI b"
  proof -
    have "(?d = 0) = True" using that by simp
    then show ?thesis unfolding def subMagsF32_equal_def by (simp only: if_True)
  qed
  show "softfloat_subMagsF32 rm a b =
      softfloat_normRoundPackToF32 rm (\<not> signF32UI a) (expF32UI b - 1)
        ((push_bit 7 (fracF32UI b) OR 0x40000000) - softfloat_shiftRightJam32
          (push_bit 7 (fracF32UI a) + (if expF32UI a \<noteq> 0 then 0x40000000 else push_bit 7 (fracF32UI a)))
          (nat (expF32UI b - expF32UI a)))" if "expF32UI a < expF32UI b"
  proof -
    have "(?d = 0) = False" "(?d < 0) = True" "- ?d = expF32UI b - expF32UI a" using that by simp_all
    then show ?thesis unfolding def by (simp only: if_True if_False)
  qed
  show "softfloat_subMagsF32 rm a b =
      softfloat_normRoundPackToF32 rm (signF32UI a) (expF32UI a - 1)
        ((push_bit 7 (fracF32UI a) OR 0x40000000) - softfloat_shiftRightJam32
          (push_bit 7 (fracF32UI b) + (if expF32UI b \<noteq> 0 then 0x40000000 else push_bit 7 (fracF32UI b)))
          (nat (expF32UI a - expF32UI b)))" if "expF32UI b < expF32UI a"
  proof -
    have "(?d = 0) = False" "(?d < 0) = False" using that by simp_all
    then show ?thesis unfolding def by (simp only: if_False)
  qed
qed

lemma subMagsF32_equal_rounded:
  assumes "expF32UI a = expF32UI b" and "finite32 a"
    and "ex = (if expF32UI a \<noteq> 0 then expF32UI a - 1 else expF32UI a)"
    and "D = uint (fracF32UI a) - uint (fracF32UI b)"
  shows "rounds32 rm (rm = 2) (if signF32UI a then mag32 b - mag32 a else mag32 a - mag32 b)
    (subMagsF32_equal rm (signF32UI a) ex D)"
proof -
  have D: "real_of_int D = real (unat (fracF32UI a)) - real (unat (fracF32UI b))" by (simp add: assms(4))
  have m: "mag32 a - mag32 b = real_of_int D * 2 powi ex"
  proof (cases "expF32UI a = 0")
    case True
    then have "ex = 0" "expF32UI b = 0" using assms(1,3) by simp_all
    then show ?thesis unfolding D using mag32_subnormal [of a] mag32_subnormal [of b] True by simp
  next
    case False
    then have "ex = expF32UI a - 1" "expF32UI b \<noteq> 0" using assms(1,3) by simp_all
    then show ?thesis
      unfolding D mag32_normal [OF False] mag32_normal [OF \<open>expF32UI b \<noteq> 0\<close>] assms(1)
      by (simp add: left_diff_distrib [symmetric] of_nat_add)
  qed
  show ?thesis
  proof (cases "D = 0")
    case True
    then have "mag32 a = mag32 b" using m by simp
    then show ?thesis unfolding subMagsF32_equal_def rounds32_def using True packs32_zero by simp
  next
    case False
    define q where "q = nat \<bar>D\<bar>"
    have b: "\<bar>D\<bar> < 2 ^ 23"
      using int_diff_bound [OF frac32_bound [of a] frac32_bound [of b]] unfolding assms(4) uint_nat by simp
    have q: "0 < q" "q < 2 ^ 23" "\<bar>real_of_int D\<bar> = real q" using False b by (simp_all add: q_def)
    have "unat (word_of_int \<bar>D\<bar> :: u32) = q"
      using b unfolding q_def unsigned_of_int by (simp add: take_bit_int_eq_self)
    note q = this q
    have "expF32UI a < 255" using assms(2) by (simp add: finite32_exp)
    note P = subMags_equal_exact [OF assms(1) this q(1-3) assms(3) refl refl, of rm]
    have pos: "0 < (2 :: real) powi ex" "\<not> (2 :: real) powi ex < 0" by (simp_all add: not_less)
    define x where "x = real_of_int D * 2 powi ex"
    have x: "\<bar>x\<bar> = real q * 2 powi ex" "x < 0 \<longleftrightarrow> D < 0" "0 < x \<longleftrightarrow> 0 < D" "x \<noteq> 0"
      using pos q(4) False by (simp_all add: x_def abs_mult mult_less_0_iff zero_less_mult_iff)
    define v where "v = (if signF32UI a then mag32 b - mag32 a else mag32 a - mag32 b)"
    have "v = (if signF32UI a then - x else x)" using m by (simp add: v_def x_def)
    then have v: "\<bar>v\<bar> = real q * 2 powi ex" "v \<noteq> 0" "v < 0 \<longleftrightarrow> (if D < 0 then \<not> signF32UI a else signF32UI a)"
      using x by auto
    show ?thesis
      unfolding v_def [symmetric] rounds32_def v(1,3) using P v(2) False by (simp add: subMagsF32_equal_def Let_def)
  qed
qed

lemma shr_aligned32:
  assumes "c \<le> 8" and "unat t = 2 ^ (23 + c)" and "1 \<le> d"
  shows "unat (softfloat_shiftRightJam32 (push_bit c (fracF32UI a) + (if expF32UI a \<noteq> 0 then t else push_bit c (fracF32UI a))) d)
    = shr_jam (aligned32 c a) d"
  unfolding unat_shiftRightJam32 [OF assms(3)] unat_aligned32 [OF assms(1,2)] ..

lemma or_top_aligned32:
  assumes "expF32UI a \<noteq> 0"
  shows "unat (push_bit 7 (fracF32UI a) OR 0x40000000) = aligned32 7 a"
proof -
  have "\<not> bit (push_bit 7 (fracF32UI a)) 30"
    unfolding fracF32UI_def by (simp add: bit_push_bit_iff bit_and_iff)
  then have "push_bit 7 (fracF32UI a) AND 2 ^ 30 = 0" by (rule and_exp_eq_0_iff_not_bit [THEN iffD2])
  from disjunctive_add_eq_or [OF this]
  have "push_bit 7 (fracF32UI a) OR 0x40000000 = push_bit 7 (fracF32UI a) + 0x40000000" by simp
  then show ?thesis using unat_aligned32 [of 7 "0x40000000" a] assms by simp
qed

lemma subMagsF32_rounded:
  assumes "finite32 a" and "finite32 b"
  shows "rounds32 rm (rm = 2) (if signF32UI a then mag32 b - mag32 a else mag32 a - mag32 b) (softfloat_subMagsF32 rm a b)"
proof -
  have one: "1 \<le> nat (y - x)" if "x < y" for x y :: int using that by simp
  consider "expF32UI a = expF32UI b" | "expF32UI a < expF32UI b" | "expF32UI b < expF32UI a" by linarith
  then show ?thesis
  proof cases
    case 1
    show ?thesis
      unfolding subMagsF32_cases(1) [OF assms 1] by (rule subMagsF32_equal_rounded [OF 1 assms(1) refl refl])
  next
    case 2
    then have "expF32UI b \<noteq> 0" using exp32_bounds [of a] by simp
    note P = subMags_end_rounded [OF 2 assms(2) or_top_aligned32 [OF this] shr_aligned32 [where c = 7 and t = "0x40000000", OF _ _ one [OF 2]], simplified]
    show ?thesis unfolding subMagsF32_cases(2) [OF assms 2] rounds32_def using P by simp
  next
    case 3
    then have "expF32UI a \<noteq> 0" using exp32_bounds [of b] by simp
    note P = subMags_end_rounded [OF 3 assms(1) or_top_aligned32 [OF this] shr_aligned32 [where c = 7 and t = "0x40000000", OF _ _ one [OF 3]], simplified]
    show ?thesis unfolding subMagsF32_cases(3) [OF assms 3] rounds32_def using P by simp
  qed
qed

section \<open>The sum\<close>

lemma sign32_bit: "signF32UI a \<longleftrightarrow> bit a 31"
proof -
  have "unat (drop_bit 31 a) < 2" using unat_bound [of a] by (simp add: unat_drop_bit_div div_less_iff_less_mult)
  then consider "unat (drop_bit 31 a) = 0" | "unat (drop_bit 31 a) = 1" by linarith
  then have "drop_bit 31 a = 0 \<or> drop_bit 31 a = 1" by cases (simp_all add: word_unat_eq_iff)
  then show ?thesis unfolding signF32UI_def bit_iff_odd_drop_bit by auto
qed

lemma sign32_xor: "signF32UI (a XOR b) \<longleftrightarrow> signF32UI a \<noteq> signF32UI b"
  unfolding sign32_bit by (simp add: bit_xor_iff)

theorem f32_add_rounded:
  assumes "finite32 a" and "finite32 b"
  shows "rounds32 rm (if signF32UI a = signF32UI b then signF32UI a else rm = 2) (value32 a + value32 b) (f32_add rm a b)"
proof (cases "signF32UI a = signF32UI b")
  case True
  have m: "0 \<le> mag32 a" "0 \<le> mag32 b" by (simp_all add: mag32_def)
  define x where "x = mag32 a + mag32 b"
  have v: "value32 a + value32 b = (if signF32UI a then - x else x)" "0 \<le> x"
    using True m by (simp_all add: value32_def x_def)
  have P: "packs32 rm (signF32UI a) x (f32_add rm a b)"
    using addMagsF32_rounded [OF assms, of rm] True by (simp add: f32_add_def sign32_xor x_def)
  show ?thesis unfolding v rounds32_def using P v(2) True by (cases "x = 0"; cases "signF32UI a") simp_all
next
  case False
  have "value32 a + value32 b = (if signF32UI a then mag32 b - mag32 a else mag32 a - mag32 b)"
    using False by (simp add: value32_def)
  then show ?thesis
    using subMagsF32_rounded [OF assms, of rm] False by (simp add: f32_add_def sign32_xor)
qed

end
