(* ===== verification/Softfloat_Product32.thy ===== *)
theory Softfloat_Product32
  imports Softfloat_Sum32
begin

text \<open>
  The product of two finite single precision numbers is the exact product, rounded once.
\<close>

section \<open>Normalised operands\<close>

lemma powi_mult: "2 powi a * 2 powi b = (2 powi (a + b) :: real)"
  and powi_div: "2 powi a / 2 ^ n = (2 powi (a - int n) :: real)"
  by (simp_all add: power_int_add power_int_diff)

lemma or_exp_id: "bit (a :: 'a::len word) n \<Longrightarrow> a OR 2 ^ n = a"
  by (intro bit_eqI) (auto simp: bit_or_iff bit_exp_iff)

text \<open>The significand with its leading bit, and the exponent, of a number that is not zero.\<close>

lemma normOperandF32_fields:
  assumes "code32 a \<noteq> 0" and "finite32 a" and "normOperandF32 (expF32UI a) (fracF32UI a) = (ex, sig)"
  shows "2 ^ 23 \<le> unat (sig OR 0x00800000)" and "unat (sig OR 0x00800000) < 2 ^ 24"
    and "mag32 a = real (unat (sig OR 0x00800000)) * 2 powi (ex - 1)" and "-32 \<le> ex" and "ex < 255"
    and "unat sig + (if expF32UI a = 0 then 0 else 2 ^ 23) = unat (sig OR 0x00800000)"
proof -
  define m where "m = unat (sig OR 0x00800000)"
  have "2 ^ 23 \<le> m \<and> m < 2 ^ 24 \<and> mag32 a = real m * 2 powi (ex - 1) \<and> -32 \<le> ex \<and> ex < 255
    \<and> unat sig + (if expF32UI a = 0 then 0 else 2 ^ 23) = m"
  proof (cases "expF32UI a = 0")
    case True
    define f where "f = fracF32UI a"
    define c where "c = softfloat_countLeadingZeros32 f"
    have f: "f \<noteq> 0" "unat f < 2 ^ 23" using assms(1) True frac32_bound [of a] by (simp_all add: code32_0 f_def)
    have lz: "c < 32" "2 ^ (31 - c) \<le> unat f" "unat f < 2 ^ (32 - c)"
      using leading_zeros32 [OF f(1)] by (simp_all add: leading_zeros_def c_def)
    have "(2 :: nat) ^ (31 - c) < 2 ^ 23" using lz(2) f(2) by simp
    then have "31 - c < 23" by (rule power_less_imp_less_exp [rotated]) simp
    then have "8 < c" by simp
    define k where "k = c - 8"
    have k: "c = k + 8" "k \<le> 24" using \<open>8 < c\<close> lz(1) by (simp_all add: k_def)
    have p: "(2 :: nat) ^ 23 = 2 ^ (31 - c) * 2 ^ k" "(2 :: nat) ^ 24 = 2 ^ (32 - c) * 2 ^ k"
      using lz(1) unfolding k(1) by (simp_all flip: power_add)
    have top: "2 ^ 23 \<le> unat f * 2 ^ k" "unat f * 2 ^ k < 2 ^ 24" unfolding p using lz by simp_all
    have "normOperandF32 (expF32UI a) (fracF32UI a) = (1 - int k, push_bit k f)"
      using True by (simp add: normOperandF32_def softfloat_normSubnormalF32Sig_def c_def [symmetric] f_def [symmetric] k(1))
    then have r: "ex = 1 - int k" "sig = push_bit k f" using assms(3) by simp_all
    have u: "unat sig = unat f * 2 ^ k" unfolding r by (rule unat_push_bit_small) (use top in simp)
    have "bit sig 23"
    proof -
      have "unat (drop_bit 23 sig) = 1" unfolding unat_drop_bit_div u using top by (intro div_nat_eqI) simp_all
      then have "drop_bit 23 sig = 1" by (simp add: word_unat_eq_iff)
      then show ?thesis unfolding bit_iff_odd_drop_bit by simp
    qed
    from or_exp_id [OF this] have "sig OR 0x00800000 = sig" by simp
    then have m: "m = unat f * 2 ^ k" unfolding m_def by (simp add: u)
    have "mag32 a = real (unat f)" unfolding mag32_subnormal [OF True] f_def ..
    also have "\<dots> = real m * 2 powi (ex - 1)" unfolding m r by (simp add: power_int_minus)
    finally show ?thesis using top k(2) True u unfolding m r(1) by simp
  next
    case False
    then have r: "ex = expF32UI a" "sig = fracF32UI a" using assms(3) by (simp_all add: normOperandF32_def)
    have "\<not> bit (fracF32UI a) 23" unfolding fracF32UI_def by (simp add: bit_and_iff)
    then have "fracF32UI a AND 2 ^ 23 = 0" by (rule and_exp_eq_0_iff_not_bit [THEN iffD2])
    from disjunctive_add_eq_or [OF this] have "m = unat (fracF32UI a + 2 ^ 23)" by (simp add: m_def r)
    then have m: "m = 2 ^ 23 + unat (fracF32UI a)" using frac32_bound [of a] by (simp add: unat_word_ariths)
    show ?thesis
      using frac32_bound [of a] mag32_normal [OF False] exp32_bounds [of a] assms(2) False unfolding m r by (simp add: finite32_exp)
  qed
  then show "2 ^ 23 \<le> unat (sig OR 0x00800000)" "unat (sig OR 0x00800000) < 2 ^ 24"
    "mag32 a = real (unat (sig OR 0x00800000)) * 2 powi (ex - 1)" "-32 \<le> ex" "ex < 255"
    "unat sig + (if expF32UI a = 0 then 0 else 2 ^ 23) = unat (sig OR 0x00800000)"
    unfolding m_def by blast+
qed

section \<open>The product\<close>

lemma finite32_not_inf: "finite32 a \<Longrightarrow> expF32UI a \<noteq> 0xFF" by (simp add: finite32_exp)

theorem f32_mul_rounded:
  assumes "finite32 a" and "finite32 b"
  shows "packs32 rm (signF32UI a \<noteq> signF32UI b) (mag32 a * mag32 b / 2 ^ 149) (f32_mul rm a b)"
proof (cases "code32 a = 0 \<or> code32 b = 0")
  case True
  then have "f32_mul rm a b = (packToF32UI (signF32UI a \<noteq> signF32UI b) 0 0, 0)"
    using assms [THEN finite32_not_inf] by (auto simp: f32_mul_def Let_def code32_0)
  moreover have "mag32 a * mag32 b / 2 ^ 149 = 0" using True by (auto simp: mag32_def)
  ultimately show ?thesis by (simp only: packs32_zero)
next
  case False
  obtain ea sa where A: "normOperandF32 (expF32UI a) (fracF32UI a) = (ea, sa)" by (cases "normOperandF32 (expF32UI a) (fracF32UI a)")
  obtain eb sb where B: "normOperandF32 (expF32UI b) (fracF32UI b) = (eb, sb)" by (cases "normOperandF32 (expF32UI b) (fracF32UI b)")
  define ma where "ma = sa OR 0x00800000"
  define mb where "mb = sb OR 0x00800000"
  have nz: "code32 a \<noteq> 0" "code32 b \<noteq> 0" using False by simp_all
  note a = normOperandF32_fields [OF nz(1) assms(1) A, folded ma_def]
    and b = normOperandF32_fields [OF nz(2) assms(2) B, folded mb_def]
  define P where "P = unat ma * unat mb * 2 ^ 15"
  have P: "2 ^ 61 \<le> P" "P < 2 ^ 63"
  proof -
    have "2 ^ 23 * 2 ^ 23 \<le> unat ma * unat mb" using a(1) b(1) by (intro mult_le_mono) simp_all
    then show "2 ^ 61 \<le> P" by (simp add: P_def)
    have "unat ma * unat mb < 2 ^ 24 * 2 ^ 24" using a(2) b(2) by (intro mult_strict_mono) simp_all
    then show "P < 2 ^ 63" by (simp add: P_def)
  qed
  define prod where "prod = (ucast (push_bit 7 ma) * ucast (push_bit 8 mb) :: u64)"
  have "unat (push_bit 7 ma) = unat ma * 2 ^ 7" "unat (push_bit 8 mb) = unat mb * 2 ^ 8"
    using a(2) b(2) by (intro unat_push_bit_small; simp)+
  then have "unat prod = P"
    using P(2) by (simp add: prod_def P_def unat_word_ariths unat_ucast_up)
  define sigZ where "sigZ = (ucast (softfloat_shortShiftRightJam64 prod 32) :: u32)"
  have s64: "unat (softfloat_shortShiftRightJam64 prod 32) = shr_jam P 32"
    by (simp only: unat_shortShiftRightJam64 \<open>unat prod = P\<close>)
  have d: "2 ^ 29 \<le> P div 2 ^ 32" "P div 2 ^ 32 < 2 ^ 31" using P by (simp_all add: div_less_iff_less_mult less_eq_div_iff_mult_less_eq)
  have range: "2 ^ 29 \<le> shr_jam P 32" "shr_jam P 32 < 2 ^ 31"
    using d shr_jam_less [of "2 ^ 31" P 32] P(2) by (simp_all add: shr_jam_def)
  have u: "unat sigZ = shr_jam P 32" unfolding sigZ_def using range s64 by (subst unat_ucast_down) simp_all
  have j: "jams 1 (unat sigZ) (real P / 2 ^ 32)" unfolding u using jams_shift [OF jams_self [of 0], of 32] by simp
  define ez where "ez = ea + eb - 0x7F"
  have fin: "(expF32UI a = 0xFF) = False" "(expF32UI b = 0xFF) = False"
    using assms [THEN finite32_not_inf] by simp_all
  have zero: "(expF32UI a = 0 \<and> fracF32UI a = 0 \<or> expF32UI b = 0 \<and> fracF32UI b = 0) = False"
    using nz by (simp add: code32_0)
  have r: "f32_mul rm a b =
      (if sigZ < 0x40000000 then softfloat_roundPackToF32 rm (signF32UI a \<noteq> signF32UI b) (ez - 1) (push_bit 1 sigZ)
       else softfloat_roundPackToF32 rm (signF32UI a \<noteq> signF32UI b) ez sigZ)"
    unfolding f32_mul_def Let_def A B prod.case fin zero if_False sigZ_def prod_def ma_def mb_def ez_def ..
  have x: "real P / 2 ^ 32 * 2 powi (ez - 7) = mag32 a * mag32 b / 2 ^ 149"
  proof -
    have "mag32 a * mag32 b / 2 ^ 149 = real (unat ma) * real (unat mb) * (2 powi (ea - 1) * 2 powi (eb - 1) / 2 ^ 149)"
      unfolding a(3) b(3) by (simp only: mult.assoc mult.left_commute times_divide_eq_right)
    also have "2 powi (ea - 1) * 2 powi (eb - 1) / 2 ^ 149 = (2 powi (ea - 1 + (eb - 1) - int 149) :: real)"
      unfolding powi_mult powi_div ..
    also have "ea - 1 + (eb - 1) - int 149 = ez - 7 - int 17" by (simp add: ez_def)
    finally have m: "mag32 a * mag32 b / 2 ^ 149 = real (unat ma) * real (unat mb) * 2 powi (ez - 7 - int 17)" .
    have "real P / 2 ^ 32 * 2 powi (ez - 7) = real (unat ma) * real (unat mb) * (2 powi (ez - 7) / 2 ^ 17)"
      unfolding P_def by simp
    also note powi_div
    finally show ?thesis unfolding m .
  qed
  have "packs32 rm (signF32UI a \<noteq> signF32UI b) (real P / 2 ^ 32 * 2 powi (ez - 7)) (f32_mul rm a b)"
    unfolding r using j range u a(4,5) b(4,5) by (intro normal_or_double_rounded) (simp_all add: ez_def)
  then show ?thesis unfolding x .
qed

end
