(* ===== verification/Softfloat_Order.thy ===== *)
theory Softfloat_Order
  imports Softfloat_Sum32
begin

text \<open>
  Comparisons and classes of single precision numbers. With the sign a number is ordered as the
  integer of its other bits, and these are ordered as the magnitudes; infinity is larger than any
  finite number.
\<close>

section \<open>Order\<close>

lemma mag32_less [simp]: "mag32 a < mag32 b \<longleftrightarrow> code32 a < code32 b"
  and mag32_le [simp]: "mag32 a \<le> mag32 b \<longleftrightarrow> code32 a \<le> code32 b"
  and mag32_eq [simp]: "mag32 a = mag32 b \<longleftrightarrow> code32 a = code32 b"
  by (simp_all add: mag32_def)

lemma mag32_nonneg [simp]: "0 \<le> mag32 a" by (simp add: mag32_def)

lemma no_magnitude: "push_bit 1 (a OR b) = 0 \<longleftrightarrow> code32 a = 0 \<and> code32 b = 0"
proof -
  have "push_bit 1 x = 0 \<longleftrightarrow> code32 x = 0" for x :: u32
    using push_bit_zero_iff_mod [of 31 x] by (simp add: code32_def)
  then show ?thesis by (simp only: push_bit_or or_eq_0_iff)
qed

lemma value32_cases:
  "value32 a < value32 b \<longleftrightarrow>
    (if signF32UI a \<noteq> signF32UI b then signF32UI a \<and> \<not> (code32 a = 0 \<and> code32 b = 0)
     else if signF32UI a then code32 b < code32 a else code32 a < code32 b)"
proof -
  have pos: "0 < mag32 x \<longleftrightarrow> code32 x \<noteq> 0" for x by (simp add: mag32_def neq0_conv [symmetric] del: neq0_conv)
  have "- mag32 a < mag32 b \<longleftrightarrow> 0 < mag32 a \<or> 0 < mag32 b"
    using mag32_nonneg [of a] mag32_nonneg [of b] by linarith
  then have neg: "- mag32 a < mag32 b \<longleftrightarrow> \<not> (code32 a = 0 \<and> code32 b = 0)" unfolding pos by blast
  have "\<not> mag32 a < - mag32 b" using mag32_nonneg [of a] mag32_nonneg [of b] by linarith
  then show ?thesis using neg by (auto simp: value32_def)
qed

theorem f32_less_value: "f32_less a b \<longleftrightarrow> value32 a < value32 b"
proof -
  note s = unat_split31(1) [of a] unat_split31(1) [of b] unat_split31(2) [of a] unat_split31(2) [of b]
  show ?thesis
  proof (cases "signF32UI a = signF32UI b")
    case True
    have "a < b \<longleftrightarrow> code32 a < code32 b" "a = b \<longleftrightarrow> code32 a = code32 b"
      using s True by (simp_all add: word_less_nat_alt word_unat_eq_iff)
    then show ?thesis unfolding value32_cases using True by (auto simp: f32_less_def Let_def)
  next
    case False
    then show ?thesis unfolding value32_cases using no_magnitude [of a b] by (simp add: f32_less_def Let_def)
  qed
qed

lemma value32_eq: "value32 a = value32 b \<longleftrightarrow> a = b \<or> code32 a = 0 \<and> code32 b = 0"
proof -
  note s = unat_split31(1) [of a] unat_split31(1) [of b]
  have "\<not> value32 a < value32 b \<and> \<not> value32 b < value32 a \<longleftrightarrow> a = b \<or> code32 a = 0 \<and> code32 b = 0"
    unfolding value32_cases word_unat_eq_iff
    using s unat_split31(2) [of a] unat_split31(2) [of b]
    by (cases "signF32UI a"; cases "signF32UI b") auto
  then show ?thesis by linarith
qed

text \<open>C23. The single precision comparisons compare the numbers (so -0 and +0 are equal), are false when
  an operand is not a number, and raise the invalid flag exactly then: \<^verbatim>\<open>f32_lt\<close> for every such
  operand, \<^verbatim>\<open>f32_eq\<close> and \<^verbatim>\<open>f32_lt_quiet\<close> for a signaling one.\<close>

theorem f32_comparisons:
  "(let nan = isNaNF32UI a \<or> isNaNF32UI b; signaling = softfloat_isSigNaNF32UI a \<or> softfloat_isSigNaNF32UI b in
    f32_eq a b = (\<not> nan \<and> value32 a = value32 b, if nan \<and> signaling then softfloat_flag_invalid else 0) \<and>
    f32_lt a b = (\<not> nan \<and> value32 a < value32 b, if nan then softfloat_flag_invalid else 0) \<and>
    f32_lt_quiet a b = (\<not> nan \<and> value32 a < value32 b, if nan \<and> signaling then softfloat_flag_invalid else 0))"
  unfolding Let_def f32_eq_def f32_lt_def f32_lt_quiet_def f32_less_value value32_eq no_magnitude by simp

section \<open>Classes\<close>

definition class32 :: "u32 \<Rightarrow> nat" where
  "class32 a =
     (if inf32 < code32 a then if bit a 22 then 9 else 8
      else
        let n = (if code32 a = inf32 then 0 else if 2 ^ 23 \<le> code32 a then 1 else if code32 a \<noteq> 0 then 2 else 3)
        in if signF32UI a then n else 7 - n)"

lemma code32_classes:
  "code32 a = inf32 \<longleftrightarrow> expF32UI a = 0xFF \<and> fracF32UI a = 0"
  "inf32 < code32 a \<longleftrightarrow> expF32UI a = 0xFF \<and> fracF32UI a \<noteq> 0"
  "2 ^ 23 \<le> code32 a \<longleftrightarrow> expF32UI a \<noteq> 0"
proof -
  have f: "fracF32UI a = 0 \<longleftrightarrow> unat (fracF32UI a) = 0" by (simp add: unat_eq_zero)
  define n where "n = nat (expF32UI a)"
  have n: "expF32UI a = int n" "n \<le> 255" using exp32_bounds [of a] by (simp_all add: n_def)
  have e: "expF32UI a = 0xFF \<longleftrightarrow> n = 255" "expF32UI a \<noteq> 0 \<longleftrightarrow> 1 \<le> n" unfolding n(1) by auto
  define g where "g = unat (fracF32UI a)"
  have g: "g < 2 ^ 23" using frac32_bound by (simp add: g_def)
  have c: "code32 a = n * 2 ^ 23 + g" by (simp add: code32_fields n_def g_def)
  show "code32 a = inf32 \<longleftrightarrow> expF32UI a = 0xFF \<and> fracF32UI a = 0"
    "inf32 < code32 a \<longleftrightarrow> expF32UI a = 0xFF \<and> fracF32UI a \<noteq> 0"
    unfolding c f e g_def [symmetric] using g n(2) by (cases "n = 255"; simp)+
  show "2 ^ 23 \<le> code32 a \<longleftrightarrow> expF32UI a \<noteq> 0"
    unfolding c e using g by (cases "n = 0") simp_all
qed

text \<open>A test of a field in place.\<close>

lemma field_eq:
  assumes "n + k \<le> LENGTH('a)" and "unat c < 2 ^ k"
  shows "(a :: 'a::len word) AND push_bit n (mask k) = push_bit n c \<longleftrightarrow> unat a div 2 ^ n mod 2 ^ k = unat c"
proof -
  have c: "take_bit k c = c"
    using assms(2) by (simp add: word_unat_eq_iff unsigned_take_bit_eq take_bit_nat_eq_self)
  have "a AND push_bit n (mask k) = push_bit n (take_bit k (drop_bit n a))"
    by (rule bit_eqI) (auto simp: bit_simps)
  moreover have "push_bit n (take_bit k x) = push_bit n (take_bit k y) \<longleftrightarrow> take_bit k x = take_bit k y" for x y :: "'a word"
  proof
    assume eq: "push_bit n (take_bit k x) = push_bit n (take_bit k y)"
    show "take_bit k x = take_bit k y"
    proof (rule bit_eqI)
      fix i
      have "bit (push_bit n (take_bit k x)) (i + n) = bit (push_bit n (take_bit k y)) (i + n)" using eq by simp
      then show "bit (take_bit k x) i = bit (take_bit k y) i" using assms(1) by (auto simp: bit_simps)
    qed
  qed simp
  ultimately have "a AND push_bit n (mask k) = push_bit n c \<longleftrightarrow> take_bit k (drop_bit n a) = take_bit k c"
    by (metis c)
  moreover have "unat (take_bit k (drop_bit n a)) = unat a div 2 ^ n mod 2 ^ k"
    by (metis unsigned_take_bit_eq take_bit_eq_mod unat_drop_bit_div)
  ultimately show ?thesis unfolding c word_unat_eq_iff by simp
qed

lemma code32_div: "n \<le> 31 \<Longrightarrow> unat (a :: u32) div 2 ^ n mod 2 ^ (31 - n) = code32 a div 2 ^ n"
proof -
  assume n: "n \<le> 31"
  have "drop_bit n (take_bit 31 (unat a)) = take_bit (31 - n) (drop_bit n (unat a))" by (rule drop_bit_take_bit)
  then show ?thesis by (simp add: drop_bit_eq_div take_bit_eq_mod code32_def)
qed

lemma isNaN32_code: "isNaNF32UI a \<longleftrightarrow> inf32 < code32 a"
proof -
  have "NOT a AND m = 0 \<longleftrightarrow> a AND m = m" for m :: u32
    unfolding bit_eq_iff by (auto simp: bit_simps dest: bit_imp_le_length)
  then have "NOT a AND 0x7F800000 = 0 \<longleftrightarrow> a AND push_bit 23 (mask 8) = push_bit 23 0xFF"
    by (simp add: mask_eq_exp_minus_1)
  also have "\<dots> \<longleftrightarrow> nat (expF32UI a) = 255" unfolding nat_exp32 by (subst field_eq) simp_all
  also have "\<dots> \<longleftrightarrow> expF32UI a = 0xFF" by auto
  finally show ?thesis unfolding isNaNF32UI_def code32_classes fracF32UI_def by blast
qed

lemma isSigNaN32_code: "softfloat_isSigNaNF32UI a \<longleftrightarrow> inf32 < code32 a \<and> \<not> bit a 22"
proof -
  have "a AND 0x7FC00000 = 0x7F800000 \<longleftrightarrow> a AND push_bit 22 (mask 9) = push_bit 22 0x1FE"
    by (simp add: mask_eq_exp_minus_1)
  also have "\<dots> \<longleftrightarrow> code32 a div 2 ^ 22 = 510" using code32_div [of 22 a] by (subst field_eq) simp_all
  finally have 1: "a AND 0x7FC00000 = 0x7F800000 \<longleftrightarrow> code32 a div 2 ^ 22 = 510" .
  have "unat (a AND 0x003FFFFF) = unat a mod 2 ^ 22"
    by (rule unat_and_mask_mod) (simp add: mask_eq_exp_minus_1)
  then have "a AND 0x003FFFFF = 0 \<longleftrightarrow> unat a mod 2 ^ 22 = 0" by (metis unat_eq_zero)
  moreover have "unat a mod 2 ^ 22 = code32 a mod 2 ^ 22" by (simp add: code32_def mod_mod_cancel)
  ultimately have 2: "a AND 0x003FFFFF = 0 \<longleftrightarrow> code32 a mod 2 ^ 22 = 0" by simp
  have "bit a 22 \<longleftrightarrow> bit (unat a) 22" by (auto simp: bit_unsigned_iff dest: bit_imp_le_length)
  also have "\<dots> \<longleftrightarrow> odd (unat a div 2 ^ 22)" by (rule bit_iff_odd)
  also have "\<dots> \<longleftrightarrow> odd (code32 a div 2 ^ 22)" using code32_div [of 22 a, symmetric] by (simp add: dvd_mod_iff)
  finally have 3: "bit a 22 \<longleftrightarrow> odd (code32 a div 2 ^ 22)" .
  define q r where "q = code32 a div 2 ^ 22" and "r = code32 a mod 2 ^ 22"
  have c: "code32 a = q * 2 ^ 22 + r" "r < 2 ^ 22" by (simp_all only: q_def r_def div_mult_mod_eq) simp
  have "q < 512" using unat_split31(2) [of a] by (simp add: q_def div_less_iff_less_mult)
  then consider "q \<le> 509" | "q = 510" | "q = 511" by linarith
  then have "inf32 < code32 a \<and> \<not> odd q \<longleftrightarrow> q = 510 \<and> r \<noteq> 0"
    unfolding c(1) using c(2) by cases simp_all
  then show ?thesis unfolding softfloat_isSigNaNF32UI_def 1 2 3 q_def [symmetric] r_def [symmetric] by blast
qed

theorem f32_classify_class: "f32_classify a = push_bit (class32 a) 1"
proof -
  note defs = f32_classify_def Let_def isNaN32_code isSigNaN32_code class32_def code32_classes code32_0
  show ?thesis
    unfolding defs
    by (cases "signF32UI a"; cases "expF32UI a = 0xFF"; cases "expF32UI a = 0"; cases "fracF32UI a = 0"; cases "bit a 22") simp_all
qed

end
