(* ===== verification/Softfloat_Convert.thy ===== *)
theory Softfloat_Convert
  imports Softfloat_F64 Softfloat_Words_Value Softfloat_Product32 Softfloat_Order
begin

text \<open>
  Conversions: between the two precisions (widening is exact, narrowing rounds once, and undoes
  widening) and of a double precision number to an integer.
\<close>

section \<open>Double precision numbers\<close>

definition finite64 :: "u64 \<Rightarrow> bool" where "finite64 a \<longleftrightarrow> code64 a < inf64"
definition mag64 :: "u64 \<Rightarrow> real" where "mag64 a = real (fmag 52 (code64 a))"
definition value64 :: "u64 \<Rightarrow> real" where "value64 a = (if signF64UI a then - mag64 a else mag64 a)"

lemma unat_frac64: "unat (fracF64UI a) = unat a mod 2 ^ 52"
  unfolding fracF64UI_def by (rule unat_and_mask_mod) (simp add: mask_eq_exp_minus_1)

lemma nat_exp64: "nat (expF64UI a) = unat a div 2 ^ 52 mod 2 ^ 11"
proof -
  have "unat (drop_bit 52 a AND 0x7FF) = unat (drop_bit 52 a) mod 2 ^ 11"
    by (rule unat_and_mask_mod) (simp add: mask_eq_exp_minus_1)
  then show ?thesis unfolding expF64UI_def unat_drop_bit_div [symmetric] by simp
qed

lemma exp64_bounds: "0 \<le> expF64UI a" "expF64UI a \<le> 0x7FF"
proof -
  show p: "0 \<le> expF64UI a" by (simp add: expF64UI_def)
  have "nat (expF64UI a) < 2048" unfolding nat_exp64 by simp
  then show "expF64UI a \<le> 0x7FF" using p by simp
qed

lemma frac64_bound: "unat (fracF64UI a) < 2 ^ 52" by (simp add: unat_frac64)

lemma code64_fields: "code64 a = nat (expF64UI a) * 2 ^ 52 + unat (fracF64UI a)"
proof -
  have "unat a mod 2 ^ (52 + 11) = 2 ^ 52 * (unat a div 2 ^ 52 mod 2 ^ 11) + unat a mod 2 ^ 52"
    unfolding power_add by (rule mod_mult2_eq)
  then show ?thesis unfolding code64_def nat_exp64 unat_frac64 by simp
qed

lemma finite64_exp: "finite64 a \<longleftrightarrow> expF64UI a < 0x7FF"
  using exp64_bounds [of a] frac64_bound [of a] unfolding finite64_def code64_fields by auto

lemma mag64_subnormal: "expF64UI a = 0 \<Longrightarrow> mag64 a = real (unat (fracF64UI a))"
  using frac64_bound [of a] by (simp add: mag64_def code64_fields fmag_def)

lemma mag64_normal:
  assumes "expF64UI a \<noteq> 0"
  shows "mag64 a = real (2 ^ 52 + unat (fracF64UI a)) * 2 powi (expF64UI a - 1)"
proof -
  define e where "e = nat (expF64UI a - 1)"
  have e: "expF64UI a - 1 = int e" "nat (expF64UI a) = Suc e" using exp64_bounds [of a] assms by (simp_all add: e_def)
  have "code64 a = e * 2 ^ 52 + (2 ^ 52 + unat (fracF64UI a))" unfolding code64_fields e(2) by simp
  then have "fmag 52 (code64 a) = (2 ^ 52 + unat (fracF64UI a)) * 2 ^ e"
    using fmag_code [of "2 ^ 52 + unat (fracF64UI a)" 52 e] frac64_bound [of a] by simp
  then show ?thesis unfolding mag64_def e(1) by (simp add: power_int_def)
qed

lemma pack64:
  assumes "n = nat ex * 2 ^ 52 + unat sig" and "0 \<le> ex" and "n < 2 ^ 63"
  shows "unat (packToF64UI sign ex sig) = of_bool sign * 2 ^ 63 + n"
    and "signF64UI (packToF64UI sign ex sig) = sign" and "code64 (packToF64UI sign ex sig) = n"
proof -
  have ex: "nat ex < 2 ^ 11" using assms by simp
  then have we: "unat (word_of_int ex :: u64) = nat ex" 
    using assms(2) by (simp add: unsigned_of_int take_bit_int_eq_self)
  have "unat (push_bit 52 (word_of_int ex) :: u64) = nat ex * 2 ^ 52"
    unfolding we [symmetric] using ex we by (intro unat_push_bit_small) simp
  moreover have "unat (push_bit 63 (of_bool sign) :: u64) = of_bool sign * 2 ^ 63" by (cases sign) simp_all
  ultimately show u: "unat (packToF64UI sign ex sig) = of_bool sign * 2 ^ 63 + n"
    using assms(1,3) unfolding packToF64UI_def
    by (cases sign) (simp_all add: unat_word_ariths)
  show "code64 (packToF64UI sign ex sig) = n" using assms(3) by (simp add: code64_def u)
  have "2 ^ 63 \<le> of_bool sign * 2 ^ 63 + n \<longleftrightarrow> sign" using assms(3) by (cases sign) simp_all
  then show "signF64UI (packToF64UI sign ex sig) = sign"
    unfolding signF64UI_def using unat_drop_top [of "packToF64UI sign ex sig" 63] unat_bound [of "packToF64UI sign ex sig"]
    by (simp add: u)
qed

section \<open>Widening\<close>

text \<open>The units of the two formats are \<open>2\<^bsup>-149\<^esup>\<close> and \<open>2\<^bsup>-1074\<^esup>\<close>.\<close>

lemma widened:
  assumes "2 ^ 23 \<le> m" and "m < 2 ^ 24" and "-32 \<le> ex" and "ex < 255"
    and "nat e * 2 ^ 52 + unat sig = nat (ex + 895) * 2 ^ 52 + m * 2 ^ 29" and "0 \<le> e"
    and "r = packToF64UI sign e sig"
  shows "signF64UI r = sign" and "finite64 r" and "mag64 r = real m * 2 powi (ex - 1) * 2 ^ 925"
proof -
  define n where "n = nat (ex + 895) * 2 ^ 52 + m * 2 ^ 29"
  have k: "nat (ex + 895) < 1150" using assms(4) by simp
  have "nat (ex + 895) * 2 ^ 52 \<le> 1149 * 2 ^ 52" using k by (intro mult_le_mono1) simp
  moreover have "m * 2 ^ 29 < 2 ^ 24 * 2 ^ 29" using assms(2) by (intro mult_strict_right_mono) simp_all
  ultimately have n: "n < inf64" "n < 2 ^ 63" by (simp_all add: n_def)
  note p = pack64 [OF assms(5) [folded n_def, symmetric] assms(6) n(2), of sign, folded assms(7)]
  show "signF64UI r = sign" "finite64 r" using p(2,3) n(1) by (simp_all add: finite64_def)
  have "m * 2 ^ 29 \<le> 2 ^ 24 * 2 ^ 29" "2 ^ 23 * 2 ^ 29 \<le> m * 2 ^ 29" using assms(1,2) by (intro mult_le_mono1; simp)+
  then have "fmag 52 n = m * 2 ^ 29 * 2 ^ nat (ex + 895)"
    unfolding n_def by (intro fmag_code) simp_all
  then have "mag64 r = real m * (2 ^ 29 * 2 ^ nat (ex + 895))" by (simp add: mag64_def p(3))
  also have "2 ^ 29 * 2 ^ nat (ex + 895) = (2 powi (int 29 + int (nat (ex + 895))) :: real)"
    unfolding of_nat_add [symmetric] power_int_of_nat power_add ..
  also have "int 29 + int (nat (ex + 895)) = ex - 1 + int 925" using assms(3) by simp
  also have "2 powi (ex - 1 + int 925) = (2 powi (ex - 1) * 2 ^ 925 :: real)"
    by (subst power_int_add) (simp_all only: power_int_of_nat, simp)
  finally show "mag64 r = real m * 2 powi (ex - 1) * 2 ^ 925" by (simp only: mult.assoc)
qed

lemma code32_pos_cases: "code32 a \<noteq> 0 \<Longrightarrow> (expF32UI a = 0 \<and> fracF32UI a = 0) = False"
  by (simp add: code32_0)

theorem f32_to_f64_exact:
  assumes "finite32 a"
  shows "snd (f32_to_f64 a) = 0 \<and> finite64 (fst (f32_to_f64 a)) \<and> signF64UI (fst (f32_to_f64 a)) = signF32UI a
    \<and> mag64 (fst (f32_to_f64 a)) = mag32 a * 2 ^ 925"
proof (cases "code32 a = 0")
  case True
  then have "f32_to_f64 a = (packToF64UI (signF32UI a) 0 0, 0)" by (simp add: f32_to_f64_def code32_0)
  then show ?thesis using True pack64(2,3) [of 0 0 0 "signF32UI a"] by (simp add: finite64_def mag64_def mag32_def)
next
  case False
  obtain ex sig where N: "normOperandF32 (expF32UI a) (fracF32UI a) = (ex, sig)"
    by (cases "normOperandF32 (expF32UI a) (fracF32UI a)")
  define m where "m = unat (sig OR 0x00800000)"
  note f = normOperandF32_fields [OF False assms N, folded m_def]
  have fin: "(expF32UI a = 0xFF) = False" using assms by (simp add: finite32_exp)
  have sm: "unat sig < 2 ^ 24" using f(2,6) by simp
  have push: "unat (push_bit 29 (ucast sig :: u64)) = unat sig * 2 ^ 29"
    using sm by (intro unat_push_bit_small [THEN trans]) (simp_all add: unat_ucast_up)
  define e where "e = (if expF32UI a = 0 then ex - 1 else ex) + 0x380"
  have r: "f32_to_f64 a = (packToF64UI (signF32UI a) e (push_bit 29 (ucast sig)), 0)"
  proof (cases "expF32UI a = 0")
    case True
    have "softfloat_normSubnormalF32Sig (fracF32UI a) = (ex, sig)" using N True by (simp add: normOperandF32_def)
    then show ?thesis using True False by (simp add: f32_to_f64_def code32_0 e_def)
  next
    case norm: False
    then have "ex = expF32UI a" "sig = fracF32UI a" using N by (simp_all add: normOperandF32_def)
    then show ?thesis using norm fin by (simp add: f32_to_f64_def e_def)
  qed
  have e: "0 \<le> e" using f(4) by (simp add: e_def)
  have "nat e * 2 ^ 52 + unat (push_bit 29 (ucast sig :: u64)) = nat (ex + 895) * 2 ^ 52 + m * 2 ^ 29"
  proof (cases "expF32UI a = 0")
    case True
    then show ?thesis using f(6) unfolding push e_def by simp
  next
    case norm: False
    have "nat e = nat (ex + 895) + 1" using norm f(4) unfolding e_def by simp
    then show ?thesis using f(6) norm unfolding push by simp
  qed
  from widened [OF f(1,2,4,5) this e refl, of "signF32UI a"]
  show ?thesis unfolding r fst_conv snd_conv f(3) by simp
qed

section \<open>Narrowing\<close>

text \<open>Between zero and half of the smallest number only the mode and the sign matter.\<close>

lemma rounded_tiny:
  assumes "0 < x" and "x < 1 / 2" and "0 < x'" and "x' < 1 / 2" and "0 < i"
  shows "rounded 23 i rm sign x n = rounded 23 i rm sign x' n"
proof -
  have f: "fmag 23 0 = 0" "fmag 23 (Suc 0) = 1" by (simp_all add: fmag_def)
  have "rounded 23 i rm sign z (if rm = (if sign then 2 else 3) then Suc 0 else 0)" if "0 < z" "z < 1 / 2" for z
    using rounded_bracket [of 23 0 z i rm sign] that assms(5) unfolding f by (auto simp: round_up_def split: if_splits)
  from this [OF assms(1,2)] this [OF assms(3,4)] show ?thesis using rounded_unique by metis
qed

lemma packs32_tiny:
  assumes "packs32 rm sign x' r" and "0 < x" and "x < 1 / 2" and "0 < x'" and "x' < 1 / 2"
  shows "packs32 rm sign x r"
proof -
  have ne: "z \<noteq> real n" if "0 < z" "z < 1 / 2" for z n
  proof
    assume "z = real n"
    then have "0 < real n" "real n < 1" using that by simp_all
    then show False by simp
  qed
  have flags: "tiny32 rm sign z" "\<not> over32 rm sign z" if "0 < z" "z < 1 / 2" for z
    using that tiny32 [of z rm sign] not_over32 [of z 1 rm sign] by (simp_all add: fmag23_small)
  show ?thesis
    using assms(1) rounded_tiny [OF assms(2-5), of inf32 rm sign] ne [OF assms(2,3)] ne [OF assms(4,5)]
      flags [OF assms(2,3)] flags [OF assms(4,5)]
    unfolding packs32_def by simp
qed

lemma f64_to_f32_low:
  fixes f :: u64
  assumes "unat f < 2 ^ 52" and "j = shr_jam (unat f) 22"
    and "w = (ucast (softfloat_shortShiftRightJam64 f 22) :: u32)"
  shows "unat w = j" and "unat (w OR 0x40000000) = 2 ^ 30 + j" and "j < 2 ^ 30"
    and "jams 2 (2 ^ 30 + j) (2 ^ 30 + real (unat f) / 2 ^ 22)"
proof -
  show b: "j < 2 ^ 30" using shr_jam_less [of "2 ^ 30" "unat f" 22] assms(1,2) by simp
  have "unat (softfloat_shortShiftRightJam64 f 22) = j" by (simp only: unat_shortShiftRightJam64 assms(2))
  then show w: "unat w = j" using b assms(3) by (simp add: unat_ucast_down)
  have "take_bit 30 w = w"
    using b w by (simp add: word_unat_eq_iff unsigned_take_bit_eq take_bit_nat_eq_self)
  then have "\<not> bit w 30" by (metis bit_take_bit_iff less_irrefl)
  then have "w AND 2 ^ 30 = 0" by (rule and_exp_eq_0_iff_not_bit [THEN iffD2])
  from disjunctive_add_eq_or [OF this] have "w OR 0x40000000 = w + 0x40000000" by simp
  then show "unat (w OR 0x40000000) = 2 ^ 30 + j" using w b by (simp add: unat_word_ariths)
  have "jams 1 j (real (unat f) / 2 ^ 22)" using jams_shift [OF jams_self [of 0], of 22 "unat f"] assms(2) by simp
  then have "jams 1 (2 ^ 30 + j) (real (2 ^ 30) + real (unat f) / 2 ^ 22)" by (rule jams_plus) simp
  then show "jams 2 (2 ^ 30 + j) (2 ^ 30 + real (unat f) / 2 ^ 22)" by (intro jams_mono [of 1 _ _ 2]) simp_all
qed

theorem f64_to_f32_rounded:
  assumes "finite64 a"
  shows "packs32 rm (signF64UI a) (mag64 a / 2 ^ 925) (f64_to_f32 rm a)"
proof -
  define F where "F = unat (fracF64UI a)"
  define j where "j = shr_jam F 22"
  define w where "w = (ucast (softfloat_shortShiftRightJam64 (fracF64UI a) 22) :: u32)"
  define y where "y = 2 ^ 30 + real F / 2 ^ 22"
  have fb: "unat (fracF64UI a) < 2 ^ 52" by (rule frac64_bound)
  note low = f64_to_f32_low [OF fb j_def [unfolded F_def] w_def, folded F_def, folded y_def]
  have fin: "(expF64UI a = 0x7FF) = False" and e: "0 \<le> expF64UI a" "expF64UI a < 0x7FF"
    using assms exp64_bounds [of a] by (simp_all add: finite64_exp)
  have r: "f64_to_f32 rm a = (if expF64UI a = 0 \<and> w = 0 then (packToF32UI (signF64UI a) 0 0, 0)
      else softfloat_roundPackToF32 rm (signF64UI a) (expF64UI a - 0x381) (w OR 0x40000000))"
    unfolding f64_to_f32_def Let_def fin if_False w_def ..
  have P: "packs32 rm (signF64UI a) (y * 2 powi (expF64UI a - 0x381 - 7))
      (softfloat_roundPackToF32 rm (signF64UI a) (expF64UI a - 0x381) (w OR 0x40000000))"
  proof (rule roundPackToF32_rounded)
    show "jams 2 (unat (w OR 0x40000000)) y" unfolding low(2) by (rule low(4))
  qed (use low e in simp_all)
  show ?thesis
  proof (cases "expF64UI a = 0")
    case False
    have y: "y = real (2 ^ 52 + F) / 2 ^ 22" by (simp add: y_def add_divide_distrib)
    have "mag64 a / 2 ^ 925 = real (2 ^ 52 + F) * (2 powi (expF64UI a - 1) / 2 ^ 925)"
      unfolding mag64_normal [OF False] F_def by (simp only: times_divide_eq_right)
    also have "2 powi (expF64UI a - 1) / 2 ^ 925 = (2 powi (expF64UI a - 0x381 - 7 - int 22) :: real)"
      unfolding powi_div by simp
    also have "\<dots> = 2 powi (expF64UI a - 0x381 - 7) / 2 ^ 22" unfolding powi_div ..
    finally have "mag64 a / 2 ^ 925 = y * 2 powi (expF64UI a - 0x381 - 7)" unfolding y by (simp only: times_divide_eq_right times_divide_eq_left)
    then show ?thesis unfolding r using P False by (simp only: simp_thms if_False)
  next
    case True
    have mag: "mag64 a = real F" using mag64_subnormal [OF True] by (simp only: F_def)
    show ?thesis
    proof (cases "F = 0")
      case zero: True
      then have "w = 0" using low(1) by (simp add: j_def shr_jam_def unat_eq_zero)
      moreover have "mag64 a / 2 ^ 925 = 0" unfolding mag zero by simp
      ultimately show ?thesis unfolding r using True by (simp only: simp_thms if_True packs32_zero)
    next
      case pos: False
      have "j \<noteq> 0" using pos by (auto simp: j_def shr_jam_def dest: odd_pos)
      then have "w \<noteq> 0" using low(1) by auto
      then have r': "f64_to_f32 rm a = softfloat_roundPackToF32 rm (signF64UI a) (expF64UI a - 0x381) (w OR 0x40000000)"
        unfolding r by simp
      have x: "mag64 a / 2 ^ 925 = real F / 2 ^ 925" unfolding mag ..
      have F: "0 < real F" "real F < 2 ^ 52" using pos fb [folded F_def] of_nat_less_iff [of F "2 ^ 52", where 'a = real] by simp_all
      have y: "0 < y" "y < 2 ^ 31" using F by (simp_all add: y_def)
      have "expF64UI a - 0x381 - 7 = - int 904" using True by simp
      then have x': "y * 2 powi (expF64UI a - 0x381 - 7) = y / 2 ^ 904"
        by (simp only: power_int_minus power_int_of_nat divide_inverse)
      have "y / 2 ^ 904 < 1 / 2" "real F / 2 ^ 925 < 1 / 2" using y F by (simp_all add: divide_less_eq)
      then show ?thesis
        unfolding x r' using y F by (intro packs32_tiny [OF P [unfolded x']]) simp_all
    qed
  qed
qed

text \<open>Narrowing undoes widening, whatever the rounding mode.\<close>

lemma packs32_value_unique:
  assumes "packs32 rm sign (mag32 a) r" and "sign = signF32UI a" and "finite32 a"
  shows "fst r = a"
proof -
  have "rounded 23 inf32 rm sign (mag32 a) (code32 a)"
    unfolding mag32_def using assms(3) by (intro rounded_exact) (simp add: finite32_def)
  then have "code32 (fst r) = code32 a" using assms(1) rounded_unique unfolding packs32_def by blast
  moreover have "signF32UI (fst r) = signF32UI a" using assms(1,2) by (simp add: packs32_def)
  ultimately have "unat (fst r) = unat a" unfolding unat_split31(1) [of "fst r"] unat_split31(1) [of a] by simp
  then show ?thesis by (simp add: word_unat_eq_iff)
qed

text \<open>C22. Widening a single precision number to double precision and narrowing it again gives the same
  number in every rounding mode, zeros with their sign, subnormal numbers and infinities included.\<close>

theorem f64_to_f32_inverse:
  assumes "\<not> isNaNF32UI a"
  shows "fst (f64_to_f32 rm (fst (f32_to_f64 a))) = a"
proof (cases "finite32 a")
  case True
  obtain b where b: "fst (f32_to_f64 a) = b" by blast
  have w: "finite64 b" "signF64UI b = signF32UI a" "mag64 b = mag32 a * 2 ^ 925"
    using f32_to_f64_exact [OF True] unfolding b by blast+
  have "mag64 b / 2 ^ 925 = mag32 a" unfolding w(3) by simp
  then have "packs32 rm (signF32UI a) (mag32 a) (f64_to_f32 rm (fst (f32_to_f64 a)))"
    using f64_to_f32_rounded [OF w(1), of rm] unfolding w(2) b by (simp only:)
  from packs32_value_unique [OF this refl True] show ?thesis .
next
  case False
  then have "code32 a = inf32" using assms by (simp add: finite32_def isNaN32_code)
  then have e: "expF32UI a = 0xFF" "fracF32UI a = 0" unfolding code32_classes(1) by blast+
  have inf: "expF64UI (packToF64UI s 0x7FF 0) = 0x7FF" "fracF64UI (packToF64UI s 0x7FF 0) = 0"
    "signF64UI (packToF64UI s 0x7FF 0) = s" for s
    by (cases s; simp add: packToF64UI_def expF64UI_def fracF64UI_def signF64UI_def)+
  have "a = packToF32UI (signF32UI a) 0xFF 0"
    using unat_split31(1) [of a] pack32(1) [of inf32 "0xFF" 0 "signF32UI a"] \<open>code32 a = inf32\<close>
    by (simp add: word_unat_eq_iff)
  then show ?thesis using e by (simp add: f32_to_f64_def f64_to_f32_def inf)
qed

text \<open>The least subnormal number.\<close>

corollary f64_to_f32_inverse_witness: "fst (f64_to_f32 3 (fst (f32_to_f64 1))) = 1"
  by (rule f64_to_f32_inverse) (simp add: isNaNF32UI_def)


section \<open>To an integer\<close>

text \<open>A non-negative real number rounded to an integer.\<close>

definition to_integer :: "nat \<Rightarrow> real \<Rightarrow> nat" where
  "to_integer rm v =
     (let q = nat \<lfloor>v\<rfloor> in q + of_bool (round_up rm False (odd q) (v - real q) (real q + 1 - v)))"

lemma to_integer_between:
  assumes "real q \<le> v" and "v < real q + 1"
  shows "to_integer rm v = q + of_bool (round_up rm False (odd q) (v - real q) (real q + 1 - v))"
proof -
  have "\<lfloor>v\<rfloor> = int q" using assms by (simp add: floor_eq_iff)
  then show ?thesis by (simp add: to_integer_def Let_def)
qed

lemma to_integer_tiny: "0 < v \<Longrightarrow> v < 1 / 2 \<Longrightarrow> to_integer rm v = of_bool (rm = 3)"
  using to_integer_between [of 0 v rm] by (simp add: round_up_def)

lemma to_integer_big: "real q \<le> v \<Longrightarrow> q \<le> to_integer rm v"
  by (simp add: to_integer_def Let_def le_nat_floor trans_le_add1)

lemma words_value: "val [x0, x1, x2] = unat (push_bit 32 (ucast x2) OR ucast x1 :: u64) * 2 ^ 32 + unat x0"
proof -
  define hi where "hi = (push_bit 32 (ucast x2) OR ucast x1 :: u64)"
  have "ucast hi = x1" unfolding hi_def by (rule bit_eqI) (auto simp: bit_simps)
  moreover have "ucast (drop_bit 32 hi) = x2" unfolding hi_def
    by (rule bit_eqI) (auto simp: bit_simps dest: bit_imp_le_length)
  ultimately have "unat hi = unat x1 + 2 ^ 32 * unat x2" unfolding unat_split64 [of hi] by simp
  then show ?thesis unfolding hi_def [symmetric] by simp
qed

lemma one_less_numeral: "1 < (32 :: nat)" by simp

lemma roundMToUI64_rounded:
  assumes "jams 1 (val [x0, x1, x2]) y" and "n = to_integer rm (y / 2 ^ 32)"
  shows "softfloat_roundMToUI64 False [x0, x1, x2] rm True =
    (if n < 2 ^ 64 then (of_nat n, of_bool (y / 2 ^ 32 \<noteq> real n)) else (0xFFFFFFFFFFFFFFFF, softfloat_flag_invalid))"
proof -
  define sig where "sig = (push_bit 32 (ucast x2) OR ucast x1 :: u64)"
  define q r where "q = unat sig" and "r = unat x0"
  have X: "val [x0, x1, x2] = q * 2 ^ 32 + r" "r < 2 ^ 32"
    unfolding words_value q_def r_def sig_def using unat_bound [of x0] by simp_all
  define v where "v = y / 2 ^ 32"
  note low = jams_parts(1-3) [OF assms(1) X, folded v_def, OF one_less_numeral]
    and half = jams_parts(4,5) [OF assms(1) X, folded v_def, OF one_less_numeral]
  define up where "up \<longleftrightarrow> round_up rm False (odd q) (v - real q) (real q + 1 - v)"
  have n: "n = q + of_bool up"
    unfolding assms(2) v_def [symmetric] up_def by (rule to_integer_between [OF low(1,2)])
  have up: "up \<longleftrightarrow> (if rm = 0 then 2 ^ 31 < r \<or> 2 ^ 31 = r \<and> odd q else if rm = 4 then 2 ^ 31 \<le> r else rm = 3 \<and> r \<noteq> 0)"
  proof -
    have "real q + 1 - v < v - real q \<longleftrightarrow> real q + 1 / 2 < v" "real q + 1 - v \<le> v - real q \<longleftrightarrow> \<not> v < real q + 1 / 2"
      "real q + 1 - v = v - real q \<longleftrightarrow> \<not> v < real q + 1 / 2 \<and> \<not> real q + 1 / 2 < v" "0 < v - real q \<longleftrightarrow> v \<noteq> real q"
      using low(1) by auto
    then show ?thesis using half low(3) by (auto simp: up_def round_up_def)
  qed
  have q: "q < 2 ^ 64" using unat_bound [of sig] by (simp add: q_def)
  have inexact: "v \<noteq> real n \<longleftrightarrow> r \<noteq> 0"
    using low unfolding n up by (cases "r = 0") (auto split: if_splits)
  have sig: "sig = of_nat q" by (simp add: q_def)
  have u1: "unat (sig + 1) = (q + 1) mod 2 ^ 64" by (simp add: q_def unat_word_ariths)
  have zero: "sig + 1 = 0 \<longleftrightarrow> \<not> q + 1 < 2 ^ 64"
    using q unfolding word_unat_eq_iff u1 by (cases "q + 1 < 2 ^ 64") (simp_all add: le_mod_geq)
  have x0: "0x80000000 \<le> x0 \<longleftrightarrow> 2 ^ 31 \<le> r" "x0 = 0x80000000 \<longleftrightarrow> 2 ^ 31 = r" "x0 \<noteq> 0 \<longleftrightarrow> r \<noteq> 0"
    by (auto simp: r_def word_le_nat_alt word_unat_eq_iff)
  have clear: "(sig + 1) AND NOT 1 = of_nat (if even q then q else q + 1)" if "q + 1 < 2 ^ 64"
  proof -
    have "unat ((sig + 1) AND NOT 1) = 2 * ((q + 1) div 2)" unfolding unat_and_not_1 u1 using that by simp
    also have "\<dots> = (if even q then q else q + 1)" by simp
    finally show ?thesis using that q by (simp add: word_unat_eq_iff unsigned_of_nat take_bit_nat_eq_self)
  qed
  have nth: "[x0, x1, x2] ! 2 = x2" "[x0, x1, x2] ! 1 = x1" "[x0, x1, x2] ! 0 = x0" by simp_all
  have even: "q + 1 < 2 ^ 64" if "even q" using even_less [OF that, of "2 ^ 64"] q by simp
  have inc: "sig + 1 = of_nat (q + 1)" by (simp add: sig)
  define R where "R = (if n < 2 ^ 64 then (of_nat n :: u64, of_bool (r \<noteq> 0) :: ulong) else (0xFFFFFFFFFFFFFFFF, 16))"
  have "softfloat_roundMToUI64 False [x0, x1, x2] rm True = R"
  proof -
    consider "rm = 0" | "rm = 4" | "rm = 3" | "rm \<noteq> 0" "rm \<noteq> 4" "rm \<noteq> 3" by blast
    then show ?thesis
    proof cases
      case 1
      then show ?thesis
        unfolding softfloat_roundMToUI64_def Let_def nth sig_def [symmetric] x0 zero R_def
        using n up even clear inc sig q by (cases "even q"; cases "r = 2 ^ 31"; cases "2 ^ 31 \<le> r") simp_all
    next
      case 2
      then show ?thesis
        unfolding softfloat_roundMToUI64_def Let_def nth sig_def [symmetric] x0 zero R_def
        using n up inc sig q by (cases "2 ^ 31 \<le> r") simp_all
    next
      case 3
      then show ?thesis
        unfolding softfloat_roundMToUI64_def Let_def nth sig_def [symmetric] x0 zero R_def
        using n up inc sig q by (cases "r = 0") simp_all
    next
      case 4
      then show ?thesis
        unfolding softfloat_roundMToUI64_def Let_def nth sig_def [symmetric] x0 zero R_def
        using n up sig q by simp
    qed
  qed
  then show ?thesis unfolding v_def [symmetric] inexact R_def .
qed


lemma or_top64:
  fixes f :: u64
  assumes "unat f < 2 ^ 52"
  shows "unat (f OR 0x0010000000000000) = unat f + 2 ^ 52"
proof -
  have "take_bit 52 f = f" using assms by (simp add: word_unat_eq_iff unsigned_take_bit_eq take_bit_nat_eq_self)
  then have "\<not> bit f 52" by (metis bit_take_bit_iff less_irrefl)
  then have "f AND 2 ^ 52 = 0" by (rule and_exp_eq_0_iff_not_bit [THEN iffD2])
  from disjunctive_add_eq_or [OF this] have "f OR 0x0010000000000000 = f + 0x0010000000000000" by simp
  then show ?thesis using assms by (simp add: unat_word_ariths)
qed

lemma val_fixed: "val [0, ucast s, ucast (drop_bit 32 s)] = 2 ^ 32 * unat (s :: u64)"
  unfolding unat_split64 [of s] by simp

text \<open>The integer part and 32 bits of fraction, in three words.\<close>

lemma fixed_point_rounded:
  assumes "length ws = 3" and "jams 1 (val ws) y" and "n = to_integer rm v"
    and "v = y / 2 ^ 32 \<or> 0 < v \<and> v < 1 / 2 \<and> 0 < y / 2 ^ 32 \<and> y / 2 ^ 32 < 1 / 2"
  shows "softfloat_roundMToUI64 False ws rm True =
    (if n < 2 ^ 64 then (of_nat n, of_bool (v \<noteq> real n)) else (0xFFFFFFFFFFFFFFFF, softfloat_flag_invalid))"
proof -
  obtain x0 x1 x2 where ws: "ws = [x0, x1, x2]" using assms(1) by (auto simp: length_Suc_conv numeral_3_eq_3)
  define x where "x = y / 2 ^ 32"
  have "to_integer rm x = n \<and> (x = real n \<longleftrightarrow> v = real n)"
  proof (cases "v = x")
    case False
    then have t: "0 < v" "v < 1 / 2" "0 < x" "x < 1 / 2" using assms(4) unfolding x_def by blast+
    have n: "n = of_bool (rm = 3)" "to_integer rm x = of_bool (rm = 3)"
      unfolding assms(3) using t by (simp_all only: to_integer_tiny)
    have "x \<noteq> real (of_bool b)" "v \<noteq> real (of_bool b)" for b using t by (cases b; simp)+
    then show ?thesis unfolding n by blast
  qed (simp add: assms(3))
  then show ?thesis
    using roundMToUI64_rounded [OF assms(2) [unfolded ws] refl, of rm] unfolding ws x_def [symmetric] by simp
qed

theorem f64_to_ui64_rounded:
  assumes "finite64 a" and "\<not> signF64UI a" and "n = to_integer rm (mag64 a / 2 ^ 1074)"
  shows "f64_to_ui64 a rm True =
    (if n < 2 ^ 64 then (of_nat n, of_bool (mag64 a / 2 ^ 1074 \<noteq> real n)) else (0xFFFFFFFFFFFFFFFF, softfloat_flag_invalid))"
proof -
  define sig where "sig = (if expF64UI a \<noteq> 0 then fracF64UI a OR 0x0010000000000000 else fracF64UI a)"
  define m where "m = unat sig"
  define sd where "sd = 0x433 - expF64UI a"
  define v where "v = mag64 a / 2 ^ 1074"
  have e: "0 \<le> expF64UI a" "expF64UI a < 0x7FF" using assms(1) exp64_bounds [of a] by (simp_all add: finite64_exp)
  have m: "m < 2 ^ 53" "expF64UI a \<noteq> 0 \<Longrightarrow> m = 2 ^ 52 + unat (fracF64UI a)" "expF64UI a = 0 \<Longrightarrow> m = unat (fracF64UI a)"
    using frac64_bound [of a] or_top64 [OF frac64_bound, of a] by (auto simp: m_def sig_def)
  have v: "v = real m * 2 powi (- sd)" if "expF64UI a \<noteq> 0"
  proof -
    have "v = real m * (2 powi (expF64UI a - 1) / 2 ^ 1074)"
      unfolding v_def mag64_normal [OF that] m(2) [OF that] by (simp only: times_divide_eq_right)
    also have "2 powi (expF64UI a - 1) / 2 ^ 1074 = (2 powi (- sd) :: real)" unfolding powi_div sd_def by simp
    finally show ?thesis .
  qed
  have r: "f64_to_ui64 a rm True =
      (if sd < -11 then (0xFFFFFFFFFFFFFFFF, softfloat_flag_invalid)
       else if sd \<le> 0 then
         softfloat_roundMToUI64 False [0, ucast (push_bit (nat (- sd)) sig), ucast (drop_bit 32 (push_bit (nat (- sd)) sig))] rm True
       else softfloat_roundMToUI64 False (softfloat_shiftRightJamM (nat sd) [0, ucast sig, ucast (drop_bit 32 sig)]) rm True)"
    using assms(2) unfolding f64_to_ui64_def Let_def sig_def [symmetric] sd_def [symmetric] by simp
  consider "sd < - 11" | "- 11 \<le> sd" "sd \<le> 0" | "0 < sd" by linarith
  then show ?thesis
  proof cases
    case 1
    then have e0: "expF64UI a \<noteq> 0" by (simp add: sd_def)
    have "(2 :: real) ^ 12 \<le> 2 powi (- sd)" using 1 power_int_increasing [of 12 "- sd" "2 :: real"] by simp
    moreover have "2 ^ 52 \<le> m" unfolding m(2) [OF e0] by (rule le_add1)
    then have "(2 :: real) ^ 52 \<le> real m" using of_nat_le_iff [of "2 ^ 52" m, where 'a = real] by simp
    ultimately have "2 ^ 52 * 2 ^ 12 \<le> v" unfolding v [OF e0] by (intro mult_mono) simp_all
    then have "real (2 ^ 64) \<le> v" by simp
    from to_integer_big [OF this, of rm] have "\<not> n < 2 ^ 64" unfolding assms(3) v_def [symmetric] by (rule leD)
    then show ?thesis using 1 unfolding r by simp
  next
    case 2
    then have e0: "expF64UI a \<noteq> 0" by (simp add: sd_def)
    define k where "k = nat (- sd)"
    have k: "k \<le> 11" "- sd = int k" using 2 by (simp_all add: k_def)
    have "m * 2 ^ k < 2 ^ 53 * 2 ^ 11" using m(1) k(1) by (intro mult_less_le_imp_less power_increasing) simp_all
    then have s: "unat (push_bit k sig) = m * 2 ^ k" unfolding m_def by (intro unat_push_bit_small) simp
    have vk: "v = real (2 ^ 32 * (m * 2 ^ k)) / 2 ^ 32" unfolding v [OF e0] k(2) power_int_of_nat by simp
    show ?thesis
      unfolding r k_def [symmetric] v_def [symmetric]
      using 2 fixed_point_rounded [OF _ jams_self assms(3) [folded v_def] disjI1 [OF vk [folded s, folded val_fixed]]] by simp
  next
    case 3
    define y where "y = real (2 ^ 32 * m) / 2 ^ nat sd"
    have sv: "val (softfloat_shiftRightJamM (nat sd) [0, ucast sig, ucast (drop_bit 32 sig)]) = shr_jam (2 ^ 32 * m) (nat sd)"
      using 3 by (subst softfloat_shiftRightJamM_val) (simp_all only: val_fixed m_def, simp_all)
    have j: "jams 1 (val (softfloat_shiftRightJamM (nat sd) [0, ucast sig, ucast (drop_bit 32 sig)])) y"
      unfolding y_def sv by (rule jams_shift [OF jams_self [of 0] le0])
    have y: "y / 2 ^ 32 = real m / 2 ^ nat sd" by (simp add: y_def)
    have "v = y / 2 ^ 32 \<or> 0 < v \<and> v < 1 / 2 \<and> 0 < y / 2 ^ 32 \<and> y / 2 ^ 32 < 1 / 2"
    proof (cases "expF64UI a = 0")
      case False
      have "- sd = - int (nat sd)" using 3 by simp
      then have "v = real m / 2 ^ nat sd" using v [OF False] by (simp only: power_int_minus power_int_of_nat divide_inverse)
      then show ?thesis unfolding y by blast
    next
      case True
      have sd: "nat sd = 1075" using True by (simp add: sd_def)
      have v0: "v = real m / 2 ^ 1074" unfolding v_def mag64_subnormal [OF True] m(3) [OF True] ..
      show ?thesis
      proof (cases "m = 0")
        case pos: False
        have b: "0 < real m" "real m < 2 ^ 53" using pos m(1) of_nat_less_iff [of m "2 ^ 53", where 'a = real] by simp_all
        show ?thesis unfolding y v0 sd using b by (simp add: divide_less_eq)
      qed (simp add: v0 y_def)
    qed
    from fixed_point_rounded [OF _ j assms(3) [folded v_def] this]
    show ?thesis unfolding r v_def [symmetric] using 3 by simp
  qed
qed

end
