(* ===== verification/Sbi_Fp_Instructions.thy ===== *)
theory Sbi_Fp_Instructions
  imports Sbi_Fp_Emulation Softfloat_Convert
begin

text \<open>
  What the emulation of floating-point instructions does to the program that was trapped: which traps
  come back, the rounding mode and the control register, sums and products end to end, and the places
  where an instruction behaves unlike the hardware.
\<close>

section \<open>Every illegal instruction is answered\<close>

lemma store_answers:
  "trap_prev_mode regs \<in> {PRV_S, PRV_U} \<Longrightarrow> answers (float_store_opcode_insn h insn regs s)"
  by (auto simp: float_store_opcode_insn_def Let_def truly_illegal_answers redirect_answers misaligned_store_answers
      split: prod.splits)

lemma emu_misaligned_load_answers:
  "trap_prev_mode regs \<in> {PRV_S, PRV_U} \<Longrightarrow> answers (emu_misaligned_load_handler h a tv2 tin regs s)"
  by (auto simp: emu_misaligned_load_handler_def Let_def redirect_answers
      split: sum.splits option.splits prod.splits)

lemma load_answers:
  "trap_prev_mode regs \<in> {PRV_S, PRV_U} \<Longrightarrow> answers (float_load_opcode_insn h insn regs s)"
  by (auto simp: float_load_opcode_insn_def Let_def truly_illegal_answers emu_misaligned_load_answers)

lemma emu_emulate_rvc_answers:
  "trap_prev_mode regs \<in> {PRV_S, PRV_U} \<Longrightarrow> answers (emu_emulate_rvc h insn tv2 tin regs s)"
  by (auto simp: emu_emulate_rvc_def Let_def truly_illegal_answers redirect_answers emu_misaligned_load_answers
      misaligned_store_answers split: prod.splits)

lemma fmadd_answers:
  "trap_prev_mode regs \<in> {PRV_S, PRV_U} \<Longrightarrow> answers (fmadd_opcode_insn h insn regs s)"
  by (auto simp: fmadd_opcode_insn_def Let_def truly_illegal_answers split: prod.splits)

lemmas emulate_defs = emulate_fadd_def emulate_fsub_def emulate_any_fadd_def emulate_fmul_def emulate_fdiv_def
  emulate_fsqrt_def emulate_fsgnj_def emulate_fmin_def emulate_fcvt_ff_def emulate_fcvt_fi_def emulate_fcvt_if_def
  emulate_fcmp_def emulate_fmv_if_def emulate_fmv_fi_def int_result_def

lemma fp_emulation_table_answers:
  assumes "trap_prev_mode regs \<in> {PRV_S, PRV_U}"
  shows "answers (fp_emulation_table h i insn regs s)"
proof -
  note ill = truly_illegal_answers [OF assms]
  have "answers (emulate_fadd h insn regs s)" "answers (emulate_fsub h insn regs s)"
    "answers (emulate_fmul h insn regs s)" "answers (emulate_fdiv h insn regs s)"
    "answers (emulate_fsgnj h insn regs s)" "answers (emulate_fmin h insn regs s)"
    "answers (emulate_fcvt_ff h insn regs s)" "answers (emulate_fsqrt h insn regs s)"
    "answers (emulate_fcmp h insn regs s)" "answers (emulate_fcvt_if h insn regs s)"
    "answers (emulate_fcvt_fi h insn regs s)" "answers (emulate_fmv_if h insn regs s)"
    "answers (emulate_fmv_fi h insn regs s)"
    by (simp_all add: emulate_defs Let_def ill split: option.split prod.split)
  then show ?thesis unfolding fp_emulation_table_def by (simp add: ill split: if_split)
qed

lemma answers_bind:
  assumes "answers m" and "\<And>r s. answers (f (0, r) s)"
  shows "answers (flow_bind m f)"
  using assms by (auto simp: answers_def)

lemma fp_opcode_answers:
  assumes "trap_prev_mode regs \<in> {PRV_S, PRV_U}"
  shows "answers (fp_opcode_insn h insn regs s)"
  unfolding fp_opcode_insn_def
  by (auto intro!: answers_bind fp_emulation_table_answers [OF assms] truly_illegal_answers [OF assms] split: prod.split)

lemma emu_csr_read_ret:
  assumes "timer_wf s"
  obtains r v t where "emu_emulate_csr_read h c regs x s = Ret (r, v) t"
proof -
  obtain r v t where r: "sbi_emulate_csr_read h c regs s = Ret (r, v) t" by (rule emulate_csr_read_ret [OF assms])
  show thesis
    by (cases "c = 2"; cases "c = 1"; cases "c = 3") (rule that, simp add: emu_emulate_csr_read_def r)+
qed

lemma emu_system_opcode_answers:
  assumes "timer_wf s" "trap_prev_mode regs \<in> {PRV_S, PRV_U}"
  shows "answers (emu_system_opcode_insn h insn regs s)"
proof -
  note ill = truly_illegal_answers [OF assms(2)]
  obtain r v t where "emu_emulate_csr_read h (unat (drop_bit 20 (ucast insn :: u32))) regs (uninit s) s = Ret (r, v) t"
    using emu_csr_read_ret [OF assms(1)] by blast
  then show ?thesis
    by (auto simp: emu_system_opcode_insn_def Let_def case_prod_unfold ill split: option.splits)
qed

lemma emu_table_answers:
  assumes "timer_wf s" "trap_prev_mode regs \<in> {PRV_S, PRV_U}"
  shows "answers (emu_illegal_insn_table h i insn regs s)"
  unfolding emu_illegal_insn_table_def
  by (simp add: emu_system_opcode_answers [OF assms] fp_opcode_answers [OF assms(2)] fmadd_answers [OF assms(2)]
    load_answers [OF assms(2)] store_answers [OF assms(2)] truly_illegal_answers [OF assms(2)] split: if_split)

text \<open>Every illegal instruction of the supervisor or of a program gets an answer in the build that
  emulates floating-point instructions: the handler returns success with a frame to resume. That is
  not always an emulation or a redirection: a faulting floating-point load is skipped with an
  undefined value (\<open>float_load_ignores_fault\<close>), an unassigned instruction enters the supervisor
  behind its vector (\<open>fp_unassigned_skips\<close>).\<close>

theorem emu_illegal_insn_answers:
  assumes "timer_wf s" and "trap_prev_mode regs \<in> {PRV_S, PRV_U}"
  shows "answers (emu_illegal_insn_handler h insn tv2 tin regs s)"
proof -
  let ?s = "snd (sbi_pmu_ctr_incr_fw h SBI_PMU_FW_ILLEGAL_INSN s)"
  have "timer_wf ?s"
    using assms(1) by (simp add: timer_wf_def sbi_pmu_ctr_incr_fw_def upd_fw_event_def)
  note tab = emu_table_answers [OF this assms(2)]
  show ?thesis
    by (simp add: emu_illegal_insn_handler_def Let_def tab emu_emulate_rvc_answers [OF assms(2)]
        redirect_answers [OF assms(2)] split: prod.split)
qed

text \<open>An addition in single precision on a machine whose registers hold 1 and 2.\<close>

definition fp0 :: fp_state where
  "fp0 = (ecall_state.extend ecall0 \<lparr>tp = (\<lambda>h. 0), uninit = 0\<rparr>)
     \<lparr>fpr := (\<lambda>h n. if n = 2 then 0x3F800000 else 0x40000000)\<rparr>"

definition fp_regs0 :: sbi_trap_regs where "fp_regs0 = regs0\<lparr>mstatus := 0x6802\<rparr>"

lemmas fp0_defs = ecall0_defs fp0_def fp_state.defs

corollary emu_illegal_insn_answers_witness:
  "answers (emu_illegal_insn_handler 0 0x003100D3 0 0 fp_regs0 fp0)"
  by (rule emu_illegal_insn_answers) (simp_all add: fp0_defs timer_wf_def fp_regs0_def regs0_def trap_prev_mode_def)

section \<open>The rounding mode\<close>

lemma tp_set_tp [simp]: "tp (set_tp h v s) h = v" by (simp add: set_tp_def)

lemma GET_RM_dynamic: "insn AND 0x7000 = 0x7000 \<longleftrightarrow> GET_RM insn = 7"
proof -
  have "insn AND push_bit 12 (mask 3) = push_bit 12 7 \<longleftrightarrow> unat insn div 2 ^ 12 mod 2 ^ 3 = 7"
    by (subst field_eq) simp_all
  moreover have "GET_RM insn = unat insn div 2 ^ 12 mod 2 ^ 3"
    unfolding GET_RM_def RV_X_def by (simp only: unat_and_mask_mod [OF refl] unat_drop_bit_div)
  ultimately show ?thesis by (simp add: mask_eq_exp_minus_1)
qed

lemma GET_RM_less: "GET_RM insn < 8"
  unfolding GET_RM_def RV_X_def by (simp only: unat_and_mask_mod [OF refl]) simp

lemma byte_mask: "x AND 0xFF = take_bit 8 x" for x :: ulong
  by (simp add: take_bit_eq_mask mask_eq_exp_minus_1)

lemma bit_low3: "m < 8 \<Longrightarrow> bit m n \<Longrightarrow> n < 3" for m :: nat
proof (rule ccontr)
  assume m: "m < 8" "bit m n" "\<not> n < 3"
  then have "(2 :: nat) ^ 3 \<le> 2 ^ n" by (intro power_increasing) simp_all
  then have "m div 2 ^ n = 0" using m(1) by simp
  then show False using m(2) by (simp add: bit_iff_odd)
qed

lemma mode_of_dynamic:
  fixes x :: ulong
  assumes "\<And>n. bit x n \<Longrightarrow> n < 8"
  shows "signed_drop_bit 13 (ucast (x OR push_bit 8 x) :: u32) = ucast (drop_bit 5 x)"
  by (intro bit_eqI) (auto simp: bit_signed_drop_bit_iff bit_unsigned_iff bit_or_iff bit_push_bit_iff bit_drop_bit_eq
      dest: assms)

lemma mode_of_static:
  fixes x :: ulong
  assumes "m < 8" and "\<And>n. bit x n \<Longrightarrow> n < 8"
  shows "signed_drop_bit 13 (ucast (x OR push_bit 13 (of_nat m)) :: u32) = of_nat m"
  by (intro bit_eqI) (auto simp: bit_signed_drop_bit_iff bit_unsigned_iff bit_or_iff bit_push_bit_iff bit_of_nat_iff
      dest: bit_low3 [OF assms(1)] dest!: assms(2))

theorem static_rounding:
  "case SETUP_STATIC_ROUNDING h insn s of (ok, s') \<Rightarrow>
     GET_FCSR h s' = GET_FCSR h s \<and> (ok \<longleftrightarrow> GET_RM insn \<notin> {5, 6}) \<and>
     (ok \<longrightarrow> softfloat_roundingMode h s' = (if GET_RM insn = 7 then unat (GET_FRM h s) else GET_RM insn))"
proof -
  define x where "x = take_bit 8 (tp s h)"
  have x: "bit x n \<Longrightarrow> n < 8" for n by (simp add: x_def bit_take_bit_iff)
  have keep: "take_bit 8 x = x" by (simp add: x_def)
  have small: "unat (ucast (drop_bit 5 x) :: u32) = unat (drop_bit 5 x)"
  proof -
    have "unat x = take_bit 8 (unat (tp s h))" unfolding x_def by (rule unsigned_take_bit_eq)
    also have "\<dots> < 2 ^ 8" by (rule take_bit_nat_less_exp)
    finally have "unat (drop_bit 5 x) < 2 ^ 32" by (simp add: unat_drop_bit_div)
    then show ?thesis by (rule unat_ucast_down)
  qed
  have nat: "unat (of_nat (GET_RM insn) :: u32) = GET_RM insn"
    using GET_RM_less [of insn] by (simp add: unsigned_of_nat take_bit_nat_eq_self)
  have five: "GET_RM insn = 5 \<or> GET_RM insn = 6 \<longleftrightarrow> GET_RM insn \<noteq> 7 \<and> 4 < GET_RM insn"
    using GET_RM_less [of insn] by auto
  show ?thesis
    using GET_RM_less [of insn] five
    by (auto simp: SETUP_STATIC_ROUNDING_def Let_def GET_RM_dynamic GET_FCSR_def GET_FRM_def byte_mask
        x_def [symmetric] keep take_bit_push_bit softfloat_roundingMode_def mode_of_dynamic [OF x] mode_of_static [OF _ x] small nat)
qed


section \<open>Sums, differences and products end to end\<close>

abbreviation (input) static_mode :: "nat \<Rightarrow> ulong \<Rightarrow> 'a fp_state_scheme \<Rightarrow> nat" where
  "static_mode h insn s \<equiv> (if GET_RM insn = 7 then unat (GET_FRM h s) else GET_RM insn)"

lemma setup_ok:
  assumes "GET_RM insn \<notin> {5, 6}"
  obtains s1 where "SETUP_STATIC_ROUNDING h insn s = (True, s1)" and "fpr s1 = fpr s"
    and "GET_FCSR h s1 = GET_FCSR h s" and "softfloat_roundingMode h s1 = static_mode h insn s"
proof -
  obtain ok s1 where s1: "SETUP_STATIC_ROUNDING h insn s = (ok, s1)" by (cases "SETUP_STATIC_ROUNDING h insn s")
  have "fpr s1 = fpr s" using s1 by (auto simp: SETUP_STATIC_ROUNDING_def Let_def set_tp_def split: if_splits)
  moreover have "ok" "GET_FCSR h s1 = GET_FCSR h s" "ok \<longrightarrow> softfloat_roundingMode h s1 = static_mode h insn s"
    using static_rounding [where h = h and insn = insn and s = s] assms unfolding s1 by auto
  ultimately show thesis using s1 by (intro that [of s1]) simp_all
qed

lemma fpr_SET_FS_DIRTY [simp]: "fpr (SET_FS_DIRTY h s) = fpr s"
  and tp_SET_FS_DIRTY [simp]: "tp (SET_FS_DIRTY h s) = tp s"
  by (simp_all add: SET_FS_DIRTY_def csr_set_def csr_write_def)

text \<open>The effect of a single precision result on the registers of the program.\<close>

lemma fp_result32_effect:
  defines "rd \<equiv> (\<lambda>insn. REG_PTR insn 7)"
  assumes "s' = fp_result32 h insn r s"
  shows "ucast (fpr s' h (rd insn)) = fst r" and "drop_bit 32 (fpr s' h (rd insn)) = drop_bit 32 (fpr s h (rd insn))"
    and "n \<noteq> rd insn \<Longrightarrow> fpr s' h n = fpr s h n" and "GET_FCSR h s' = (GET_FCSR h s OR snd r) AND 0xFF"
proof -
  have f: "fpr s' h = (fpr s h)(rd insn := (fpr s h (rd insn) AND 0xFFFFFFFF00000000) OR ucast (fst r))"
    and t: "tp s' h = tp s h OR snd r"
    by (simp_all add: assms fp_result32_def SET_F32_RD_def softfloat_raiseFlags_def set_tp_def set_fpr_def Let_def)
  have m: "(0xFFFFFFFF00000000 :: u64) = push_bit 32 (mask 32)" by (simp add: mask_eq_exp_minus_1)
  show "ucast (fpr s' h (rd insn)) = fst r"
    unfolding f m by (rule bit_eqI) (auto simp: bit_simps)
  show "drop_bit 32 (fpr s' h (rd insn)) = drop_bit 32 (fpr s h (rd insn))"
    unfolding f m by (rule bit_eqI) (auto simp: bit_simps dest: bit_imp_le_length)
  show "n \<noteq> rd insn \<Longrightarrow> fpr s' h n = fpr s h n" unfolding f by simp
  show "GET_FCSR h s' = (GET_FCSR h s OR snd r) AND 0xFF"
    unfolding GET_FCSR_def t byte_mask by simp
qed

lemma value32_negate: "value32 (b XOR 0x80000000) = - value32 b" "finite32 (b XOR 0x80000000) = finite32 b"
  "signF32UI (b XOR 0x80000000) \<longleftrightarrow> \<not> signF32UI b"
proof -
  show sgn: "signF32UI (b XOR 0x80000000) \<longleftrightarrow> \<not> signF32UI b" by (simp add: sign32_xor sign32_bit [of "0x80000000"])
  have "unat (take_bit 31 (b XOR 0x80000000)) = unat (take_bit 31 b)" by simp
  then have "code32 (b XOR 0x80000000) = code32 b"
    unfolding code32_def by (metis unsigned_take_bit_eq take_bit_eq_mod)
  then show "value32 (b XOR 0x80000000) = - value32 b" "finite32 (b XOR 0x80000000) = finite32 b"
    using sgn by (simp_all add: value32_def mag32_def finite32_def)
qed


text \<open>The exact result of the operation with number \<open>op\<close> in the table, and the sign of a zero.\<close>

definition exact32 :: "nat \<Rightarrow> u32 \<Rightarrow> u32 \<Rightarrow> real" where
  "exact32 op a b =
     (if op = 0 then value32 a + value32 b else if op = 1 then value32 a - value32 b else value32 a * value32 b / 2 ^ 149)"

definition zero_sign32 :: "nat \<Rightarrow> nat \<Rightarrow> u32 \<Rightarrow> u32 \<Rightarrow> bool" where
  "zero_sign32 op rm a b =
     (if op = 2 then signF32UI a \<noteq> signF32UI b
      else if signF32UI a = (signF32UI b \<noteq> (op = 1)) then signF32UI a else rm = 2)"

definition op32 :: "nat \<Rightarrow> nat \<Rightarrow> u32 \<Rightarrow> u32 \<Rightarrow> u32 \<times> ulong" where
  "op32 op rm a b = (if op = 0 then f32_add rm a b else if op = 1 then f32_add rm a (b XOR 0x80000000) else f32_mul rm a b)"

lemma f32_mul_rounds:
  assumes "finite32 a" and "finite32 b"
  shows "rounds32 rm (signF32UI a \<noteq> signF32UI b) (value32 a * value32 b / 2 ^ 149) (f32_mul rm a b)"
proof -
  define x where "x = mag32 a * mag32 b / 2 ^ 149"
  define v where "v = value32 a * value32 b / 2 ^ 149"
  have x: "0 \<le> x" by (simp add: x_def)
  have v: "v = (if signF32UI a \<noteq> signF32UI b then - x else x)" by (simp add: v_def x_def value32_def)
  have "packs32 rm (signF32UI a \<noteq> signF32UI b) x (f32_mul rm a b)"
    unfolding x_def by (rule f32_mul_rounded [OF assms])
  then show ?thesis unfolding rounds32_def v_def [symmetric] using x unfolding v
    by (cases "x = 0"; cases "signF32UI a \<noteq> signF32UI b") simp_all
qed

lemma op32_rounds:
  assumes "finite32 a" and "finite32 b" and "op \<le> 2"
  shows "rounds32 rm (zero_sign32 op rm a b) (exact32 op a b) (op32 op rm a b)"
proof -
  consider "op = 0" | "op = 1" | "op = 2" using assms(3) by linarith
  then show ?thesis
  proof cases
    case 1
    then show ?thesis using f32_add_rounded [OF assms(1,2), of rm] by (simp add: exact32_def zero_sign32_def op32_def)
  next
    case 2
    have "finite32 (b XOR 0x80000000)" using assms(2) by (simp add: value32_negate)
    from f32_add_rounded [OF assms(1) this, of rm] show ?thesis
      using 2 by (simp add: exact32_def zero_sign32_def op32_def value32_negate)
  next
    case 3
    then show ?thesis using f32_mul_rounds [OF assms(1,2), of rm] by (simp add: exact32_def zero_sign32_def op32_def)
  qed
qed

text \<open>C1. An emulated single precision addition, subtraction or multiplication of finite numbers
  leaves in the destination register the one number that IEEE 754 prescribes: the exact result,
  rounded in the mode of the instruction (or of \<^verbatim>\<open>frm\<close> when the instruction says so), with the right
  sign when it is zero. The flags it raises are exactly those of the standard: inexact when something
  was rounded away, underflow with it when the exact result is tiny after rounding, overflow and
  inexact when the result, rounded without a bound on the exponent, is beyond the largest number, and
  nothing else. Only the lower half of the destination changes, no other floating-point register
  does, the flags are added to the control register, and the program continues after the instruction.\<close>

theorem arith_s_emulated:
  assumes "mstatus regs AND MSTATUS_FS \<noteq> 0" and "GET_RM insn \<notin> {5, 6}"
    and "GET_PRECISION insn = PRECISION_S" and "RV_X insn 27 5 = op" and "op \<le> 2"
    and "a = ucast (fpr s h (REG_PTR insn 15))" and "b = ucast (fpr s h (REG_PTR insn 20))"
    and "finite32 a" and "finite32 b" and "rm = static_mode h insn s" and "rd = REG_PTR insn 7"
  shows "\<exists>r s'. fp_opcode_insn h insn regs s = Ret (0, regs\<lparr>mepc := mepc regs + 4\<rparr>) s'
    \<and> rounds32 rm (zero_sign32 op rm a b) (exact32 op a b) r
    \<and> ucast (fpr s' h rd) = fst r \<and> drop_bit 32 (fpr s' h rd) = drop_bit 32 (fpr s h rd)
    \<and> (\<forall>n. n \<noteq> rd \<longrightarrow> fpr s' h n = fpr s h n) \<and> GET_FCSR h s' = (GET_FCSR h s OR snd r) AND 0xFF"
proof -
  obtain s1 where s1: "SETUP_STATIC_ROUNDING h insn s = (True, s1)" "fpr s1 = fpr s"
    "GET_FCSR h s1 = GET_FCSR h s" "softfloat_roundingMode h s1 = rm"
    using setup_ok [OF assms(2), of h s] unfolding assms(10) by metis
  have ab: "emu_get_f32 h insn 15 s1 = a" "emu_get_f32 h insn 20 s1 = b"
    by (simp_all add: emu_get_f32_def emu_get_f64_def s1(2) assms(6,7))
  have "fp_emulation_table h op insn regs s1 = Ret (0, regs) (fp_result32 h insn (op32 op rm a b) s1)"
    using assms(3,5) unfolding fp_emulation_table_def op32_def emulate_fadd_def emulate_fsub_def emulate_any_fadd_def emulate_fmul_def
    by (cases "op = 0"; cases "op = 1") (simp_all add: s1(4) ab Let_def)
  then have run: "fp_opcode_insn h insn regs s = Ret (0, regs\<lparr>mepc := mepc regs + 4\<rparr>) (fp_result32 h insn (op32 op rm a b) s1)"
    using assms(1,4) by (simp add: fp_opcode_insn_def s1(1))
  note effect = fp_result32_effect [OF refl, where h = h and insn = insn and r = "op32 op rm a b" and s = s1, folded assms(11), unfolded s1(2,3)]
  show ?thesis
    using run op32_rounds [OF assms(8,9,5), of rm] effect by blast
qed


corollary arith_s_emulated_witness:
  "\<exists>r s'. fp_opcode_insn 0 0x003100D3 fp_regs0 fp0 = Ret (0, fp_regs0\<lparr>mepc := mepc fp_regs0 + 4\<rparr>) s'
    \<and> rounds32 0 False (value32 0x3F800000 + value32 0x40000000) r \<and> ucast (fpr s' 0 1) = fst r"
proof -
  have "finite32 0x3F800000" "finite32 0x40000000" "signF32UI 0x3F800000 = False" "signF32UI 0x40000000 = False"
    by (simp_all add: finite32_def code32_def signF32UI_def)
  moreover have "exact32 0 0x3F800000 0x40000000 = value32 0x3F800000 + value32 0x40000000" by (simp add: exact32_def)
  moreover have "GET_RM 0x003100D3 = 0" "GET_PRECISION 0x003100D3 = 0" "RV_X 0x003100D3 27 5 = 0"
    "REG_PTR 0x003100D3 15 = 2" "REG_PTR 0x003100D3 20 = 3" "REG_PTR 0x003100D3 7 = 1"
    by code_simp+
  moreover have "mstatus fp_regs0 AND MSTATUS_FS \<noteq> 0" by (simp add: fp_regs0_def)
  moreover have "fpr fp0 0 2 = 0x3F800000" "fpr fp0 0 3 = 0x40000000" by (simp_all add: fp0_def)
  ultimately show ?thesis
    using arith_s_emulated [where regs = fp_regs0 and s = fp0 and h = 0 and insn = "0x003100D3" and op = 0
        and a = "0x3F800000" and b = "0x40000000" and rm = 0 and rd = 1]
    by (simp add: zero_sign32_def) blast
qed

section \<open>Signs, minima, conversions to integers\<close>

lemma sign_insert: "bit (drop_bit 1 (push_bit 1 a) OR push_bit 31 t) n \<longleftrightarrow> (if n = 31 then bit t 0 else bit a n)"
  for a t :: u32
  unfolding bit_or_iff bit_drop_bit_eq bit_push_bit_iff comp_def by (auto dest: bit_imp_le_length)

lemma bit_DO_FSGNJ32:
  assumes "rm < 3"
  shows "bit (DO_FSGNJ32 a b rm) n \<longleftrightarrow>
    (if n = 31 then (if rm = 0 then bit b 31 else if rm = 1 then \<not> bit b 31 else bit a 31 \<noteq> bit b 31) else bit a n)"
proof -
  consider "rm = 0" | "rm = 1" | "rm = 2" using assms by linarith
  then show ?thesis
    unfolding DO_FSGNJ32_def Let_def sign_insert bit_xor_iff bit_and_iff bit_drop_bit_eq comp_def
    by cases (simp_all add: bit_0_eq)
qed

theorem fsgnj_result:
  assumes "rm < 3"
  shows "code32 (DO_FSGNJ32 a b rm) = code32 a
    \<and> (signF32UI (DO_FSGNJ32 a b rm) \<longleftrightarrow>
         (if rm = 0 then signF32UI b else if rm = 1 then \<not> signF32UI b else signF32UI a \<noteq> signF32UI b))"
proof -
  note bits = bit_DO_FSGNJ32 [OF assms]
  have "take_bit 31 (DO_FSGNJ32 a b rm) = take_bit 31 a"
    by (rule bit_eqI) (simp add: bit_take_bit_iff bits)
  then have "code32 (DO_FSGNJ32 a b rm) = code32 a"
    unfolding code32_def by (metis unsigned_take_bit_eq take_bit_eq_mod)
  then show ?thesis unfolding sign32_bit bits by simp
qed

theorem fmin32_result:
  "fst (fmin32 rm a b) =
     (if isNaNF32UI b then a else if isNaNF32UI a then b
      else if (if rm then value32 b < value32 a else value32 a < value32 b) then a else b)"
  by (simp add: fmin32_def f32_lt_quiet_def Let_def f32_less_value)

lemma scast_ucast_in_range:
  assumes "-(2 ^ 31) \<le> x" and "x < 2 ^ 31"
  shows "scast (ucast (word_of_int x :: u64) :: u32) = (word_of_int x :: u64)"
proof -
  have "ucast (word_of_int x :: u64) = (word_of_int x :: u32)"
    by (rule bit_eqI) (auto simp: bit_unsigned_iff bit_word_of_int_iff)
  moreover have "sint (word_of_int x :: u32) = x"
    using assms by (simp add: signed_of_int signed_take_bit_int_eq_self)
  ultimately show ?thesis by (metis scast_eq)
qed

lemma fcvt_if_in_range:
  assumes "kind \<le> 3" and "unat u \<le> (if kind = 0 then 2 ^ 31 - of_bool (\<not> neg) else if kind = 2 then 2 ^ 63 - of_bool (\<not> neg)
      else if neg then 0 else if kind = 1 then 2 ^ 32 - 1 else 2 ^ 64 - 1)"
  shows "fcvt_if_result kind neg u = (word_of_int (if neg then - int (unat u) else int (unat u)), 0)"
proof -
  define x where "x = (if neg then - int (unat u) else int (unat u))"
  have x: "word_of_int x = (if neg then - u else u)" by (simp add: x_def)
  consider "kind = 0" | "kind = 1" | "kind = 2" | "kind = 3" using assms(1) by linarith
  then have "fcvt_if_result kind neg u = (if neg then - u else u, 0)"
  proof cases
    case 1
    obtain m where m: "unat u = m" by blast
    have "-(2 ^ 31) \<le> x" "x < 2 ^ 31" using assms(2) 1 unfolding x_def m by (cases neg; simp)+
    from scast_ucast_in_range [OF this]
    have "scast (ucast (if neg then - u else u) :: u32) = (if neg then - u else u)" unfolding x .
    then show ?thesis using 1 assms(2) by (cases neg) (auto simp: fcvt_if_result_def word_less_nat_alt)
  next
    case 2
    have "neg \<Longrightarrow> u = 0" using 2 assms(2) by (simp add: unat_eq_zero)
    moreover have "\<not> neg \<Longrightarrow> ucast (ucast u :: u32) = u"
    proof -
      assume "\<not> neg"
      then have "unat u < 2 ^ 32" using 2 assms(2) by simp
      then show "ucast (ucast u :: u32) = u" by (simp add: word_unat_eq_iff unat_ucast_up unat_ucast_down)
    qed
    ultimately show ?thesis using 2 assms(2) by (cases neg) (auto simp: fcvt_if_result_def word_less_nat_alt)
  next
    case 3
    then show ?thesis using assms(2) by (cases neg) (auto simp: fcvt_if_result_def word_less_nat_alt)
  next
    case 4
    have "neg \<Longrightarrow> u = 0" using 4 assms(2) by (simp add: unat_eq_zero)
    then show ?thesis using 4 unat_bound [of u] by (cases neg) (auto simp: fcvt_if_result_def word_less_nat_alt)
  qed
  then show ?thesis unfolding x_def [symmetric] x .
qed

lemma sign64_bit: "signF64UI a \<longleftrightarrow> bit a 63"
proof -
  have "unat (drop_bit 63 a) < 2" using unat_bound [of a] by (simp add: unat_drop_bit_div div_less_iff_less_mult)
  then consider "unat (drop_bit 63 a) = 0" | "unat (drop_bit 63 a) = 1" by linarith
  then have "drop_bit 63 a = 0 \<or> drop_bit 63 a = 1" by cases (simp_all add: word_unat_eq_iff)
  then show ?thesis unfolding signF64UI_def bit_iff_odd_drop_bit by auto
qed

lemma sign_clear64:
  "signF64UI (b XOR 0x8000000000000000) \<longleftrightarrow> \<not> signF64UI b"
  "mag64 (b XOR 0x8000000000000000) = mag64 b" "finite64 (b XOR 0x8000000000000000) = finite64 b"
proof -
  have top: "(0x8000000000000000 :: u64) = push_bit 63 1" by simp
  show "signF64UI (b XOR 0x8000000000000000) \<longleftrightarrow> \<not> signF64UI b"
    unfolding sign64_bit bit_xor_iff top by (simp only: bit_push_bit_iff bit_1_iff) simp
  have "take_bit 63 (b XOR 0x8000000000000000) = take_bit 63 b"
    unfolding top by (rule bit_eqI) (simp only: bit_take_bit_iff bit_xor_iff bit_push_bit_iff, linarith)
  then have "code64 (b XOR 0x8000000000000000) = code64 b"
    unfolding code64_def take_bit_eq_mod [symmetric] unsigned_take_bit_eq [symmetric] by (rule arg_cong)
  then show "mag64 (b XOR 0x8000000000000000) = mag64 b" "finite64 (b XOR 0x8000000000000000) = finite64 b"
    unfolding mag64_def finite64_def by simp_all
qed

lemma sign64_less: "signF64UI a \<longleftrightarrow> a <s 0"
  using bit_last_iff [of a] by (simp add: sign64_bit word_sless_alt)

text \<open>C21. Conversion of a finite number to an integer: if the magnitude, rounded in the given mode,
  lies in the range of the target type, the result is that integer with the sign of the number, as a
  64 bit register holds it, and the only flag raised is the inexact one, exactly when the number was
  not an integer. (The magnitude is rounded, not the number: the directed modes of negative numbers
  are exchanged, see below.)\<close>

theorem fcvt_to_int_rounded:
  assumes "finite64 a" and "kind \<le> 3" and "neg = signF64UI a" and "v = mag64 a / 2 ^ 1074" and "n = to_integer rm v"
    and "n \<le> (if kind = 0 then 2 ^ 31 - of_bool (\<not> neg) else if kind = 2 then 2 ^ 63 - of_bool (\<not> neg)
      else if neg then 0 else if kind = 1 then 2 ^ 32 - 1 else 2 ^ 64 - 1)"
  shows "fcvt_to_int rm kind a = (word_of_int (if neg then - int n else int n), of_bool (v \<noteq> real n))"
proof -
  define b where "b = (if neg then a XOR 0x8000000000000000 else a)"
  have b: "finite64 b" "\<not> signF64UI b" "mag64 b = mag64 a" using assms(1,3) by (simp_all add: b_def sign_clear64)
  have n: "n < 2 ^ 64" using assms(6) by (simp split: if_splits)
  have u: "f64_to_ui64 b rm True = (of_nat n, of_bool (v \<noteq> real n))"
    using f64_to_ui64_rounded [OF b(1,2), of n rm] n unfolding b(3) assms(4) [symmetric] assms(5) by simp
  have nat: "unat (of_nat n :: u64) = n" using n by (simp add: unsigned_of_nat take_bit_nat_eq_self)
  have "fcvt_if_result kind neg (of_nat n) = (word_of_int (if neg then - int n else int n), 0)"
    using fcvt_if_in_range [OF assms(2), of "of_nat n" neg] assms(6) unfolding nat by blast
  then show ?thesis
    unfolding fcvt_to_int_def Let_def sign64_less [symmetric] assms(3) [symmetric] b_def [symmetric] u
    by (simp add: raising_def)
qed

text \<open>2.5 to an integer, rounded up.\<close>

corollary fcvt_to_int_rounded_witness: "fcvt_to_int softfloat_round_max 0 0x4004000000000000 = (3, 1)"
proof -
  have f: "code64 0x4004000000000000 = 1024 * 2 ^ 52 + 2 ^ 50" by (simp add: code64_def)
  have fin: "finite64 0x4004000000000000" "\<not> signF64UI 0x4004000000000000"
    unfolding finite64_def f by (simp_all add: signF64UI_def)
  have "mag64 0x4004000000000000 = real (fmag 52 (1023 * 2 ^ 52 + (2 ^ 52 + 2 ^ 50)))" unfolding mag64_def f by simp
  also have "\<dots> = real ((2 ^ 52 + 2 ^ 50) * 2 ^ 1023)" by (subst fmag_code) simp_all
  also have "\<dots> / 2 ^ 1074 = 5 / 2" by simp
  finally have v: "mag64 0x4004000000000000 / 2 ^ 1074 = 5 / 2" by simp
  have n: "to_integer 3 (5 / 2) = 3" using to_integer_between [of 2 "5 / 2" 3] by (simp add: round_up_def)
  show ?thesis
    using fcvt_to_int_rounded [OF fin(1), of 0 False "5 / 2" 3 3] fin(2) v n by simp
qed

text \<open>Where the results differ from those of the hardware: a negative number is rounded down on its
  magnitude (-1.5 gives -1 instead of -2), the least 32 bit integer is not sign extended, a negative
  number out of the range of unsigned integers gives the greatest of them instead of zero, and the
  minimum of -0 and +0 is +0.\<close>

lemma fcvt_rounds_magnitude:
  "fcvt_to_int softfloat_round_min 2 0xBFF8000000000000 = (-1, softfloat_flag_inexact)"
  by code_simp

lemma fcvt_limit_not_extended:
  "fcvt_to_int 0 0 0xC270000000000000 = (0x80000000, softfloat_flag_invalid)"
  by code_simp

lemma fcvt_negative_unsigned:
  "fcvt_to_int 0 3 0xC000000000000000 = (0xFFFFFFFFFFFFFFFF, softfloat_flag_invalid)"
  by code_simp

lemma fmin_zeros: "fst (fmin32 False 0x80000000 0) = 0"
  by code_simp

section \<open>Traps, faults and the frame\<close>


text \<open>An unprivileged load that faults is not redirected: the register gets what the load left.\<close>

theorem float_load_ignores_fault:
  assumes "mstatus regs AND MSTATUS_FS \<noteq> 0" and "insn AND 0x7000 = 0x3000"
    and "addr = GET_RS1 insn regs + IMM_I insn" and "addr mod 8 = 0"
    and "ufault s h False addr 8 = Some t" and "cause t \<noteq> 0"
  shows "\<exists>s'. float_load_opcode_insn h insn regs s = Ret (0, regs\<lparr>mepc := mepc regs + 4\<rparr>) s'
    \<and> fpr s' h (REG_PTR insn 7) = uninit s"
  using assms by (simp add: float_load_opcode_insn_def Let_def sbi_load_u64_def emu_load_def unpriv_load_def
      SET_F64_RD_def set_fpr_def)


text \<open>The registers that \<^verbatim>\<open>GET_F64_REG\<close> addresses lie behind the frame that the trap entry fills.\<close>

theorem fp_registers_outside_frame:
  "9800 \<le> unat (GET_F64_REG_addr insn pos regs - regs) \<and> 35 * 8 + 32 * 8 < unat (GET_F64_REG_addr insn pos regs - regs)"
proof -
  have "REG_PTR insn pos < 32" unfolding REG_PTR_def RV_X_def by (simp only: unat_and_mask_mod [OF refl]) simp
  then have "unat (8 * of_nat (REG_PTR insn pos) :: ulong) \<le> 8 * 31"
    by (simp add: unat_word_ariths unsigned_of_nat take_bit_nat_eq_self)
  then have "unat (9800 + 8 * of_nat (REG_PTR insn pos) :: ulong) = 9800 + unat (8 * of_nat (REG_PTR insn pos) :: ulong)"
    by (intro unat_add_lem [THEN iffD1, THEN trans]) simp_all
  then show ?thesis by (simp add: GET_F64_REG_addr_def)
qed

end
